(* ===== verification/Usp_Prelude.thy ===== *)
theory Usp_Prelude
  imports Main "HOL-Library.Word" "HOL-Library.Char_ord"
begin

text \<open>
  The vocabulary of the library: the error codes of \<open>include/usp_err_codes.h\<close>, C strings and
  the character tests of \<open>core/common_defs.h\<close>, the bounded copies every buffer of the agent is
  filled with, and the search loop "first index that matches, or INVALID" that all vectors of the
  agent share. A C string is a list of characters without its terminator. A fallible function
  returns \<open>usp_err + 'a\<close> (the agent's non-zero codes on the left); a failed USP_ASSERT, which
  terminates the process, is \<open>None\<close> of an enclosing option.
\<close>

unbundle bit_operations_syntax

named_theorems usp_split \<open>case splits over the results of fallible operations\<close>
named_theorems idx_simps \<open>facts on the first-index search\<close>
named_theorems cstr_simps \<open>facts on C strings and bounded copies\<close>

section \<open>Error codes\<close>

datatype usp_err =
    USP_ERR_GENERAL_FAILURE
  | USP_ERR_MESSAGE_NOT_UNDERSTOOD
  | USP_ERR_REQUEST_DENIED
  | USP_ERR_INTERNAL_ERROR
  | USP_ERR_INVALID_ARGUMENTS
  | USP_ERR_RESOURCES_EXCEEDED
  | USP_ERR_PERMISSION_DENIED
  | USP_ERR_INVALID_CONFIGURATION
  | USP_ERR_INVALID_PATH_SYNTAX
  | USP_ERR_PARAM_ACTION_FAILED
  | USP_ERR_UNSUPPORTED_PARAM
  | USP_ERR_INVALID_TYPE
  | USP_ERR_INVALID_VALUE
  | USP_ERR_PARAM_READ_ONLY
  | USP_ERR_VALUE_CONFLICT
  | USP_ERR_CRUD_FAILURE
  | USP_ERR_OBJECT_DOES_NOT_EXIST
  | USP_ERR_CREATION_FAILURE
  | USP_ERR_NOT_A_TABLE
  | USP_ERR_OBJECT_NOT_CREATABLE
  | USP_ERR_SET_FAILURE
  | USP_ERR_REQUIRED_PARAM_FAILED
  | USP_ERR_COMMAND_FAILURE
  | USP_ERR_COMMAND_CANCELLED
  | USP_ERR_OBJECT_NOT_DELETABLE
  | USP_ERR_UNIQUE_KEY_CONFLICT
  | USP_ERR_INVALID_PATH
  | USP_ERR_INVALID_COMMAND_ARGS
  | USP_ERR_RECORD_NOT_PARSED
  | USP_ERR_SECURE_SESS_REQUIRED
  | USP_ERR_SECURE_SESS_NOT_SUPPORTED
  | USP_ERR_SEG_NOT_SUPPORTED
  | USP_ERR_RECORD_FIELD_INVALID
  | USP_ERR_SESS_CONTEXT_TERMINATED
  | USP_ERR_SESS_CONTEXT_NOT_ALLOWED
  | USP_ERR_SK_MALLOC_FAILURE
  | USP_ERR_SK_INIT_FAILURE
  | USP_ERR_SK_API_CALL_FAILURE

text \<open>The numbers the constructors stand for on the wire and in the log.\<close>

fun usp_err_code :: "usp_err \<Rightarrow> nat" where
  "usp_err_code USP_ERR_GENERAL_FAILURE = 7000"
| "usp_err_code USP_ERR_MESSAGE_NOT_UNDERSTOOD = 7001"
| "usp_err_code USP_ERR_REQUEST_DENIED = 7002"
| "usp_err_code USP_ERR_INTERNAL_ERROR = 7003"
| "usp_err_code USP_ERR_INVALID_ARGUMENTS = 7004"
| "usp_err_code USP_ERR_RESOURCES_EXCEEDED = 7005"
| "usp_err_code USP_ERR_PERMISSION_DENIED = 7006"
| "usp_err_code USP_ERR_INVALID_CONFIGURATION = 7007"
| "usp_err_code USP_ERR_INVALID_PATH_SYNTAX = 7008"
| "usp_err_code USP_ERR_PARAM_ACTION_FAILED = 7009"
| "usp_err_code USP_ERR_UNSUPPORTED_PARAM = 7010"
| "usp_err_code USP_ERR_INVALID_TYPE = 7011"
| "usp_err_code USP_ERR_INVALID_VALUE = 7012"
| "usp_err_code USP_ERR_PARAM_READ_ONLY = 7013"
| "usp_err_code USP_ERR_VALUE_CONFLICT = 7014"
| "usp_err_code USP_ERR_CRUD_FAILURE = 7015"
| "usp_err_code USP_ERR_OBJECT_DOES_NOT_EXIST = 7016"
| "usp_err_code USP_ERR_CREATION_FAILURE = 7017"
| "usp_err_code USP_ERR_NOT_A_TABLE = 7018"
| "usp_err_code USP_ERR_OBJECT_NOT_CREATABLE = 7019"
| "usp_err_code USP_ERR_SET_FAILURE = 7020"
| "usp_err_code USP_ERR_REQUIRED_PARAM_FAILED = 7021"
| "usp_err_code USP_ERR_COMMAND_FAILURE = 7022"
| "usp_err_code USP_ERR_COMMAND_CANCELLED = 7023"
| "usp_err_code USP_ERR_OBJECT_NOT_DELETABLE = 7024"
| "usp_err_code USP_ERR_UNIQUE_KEY_CONFLICT = 7025"
| "usp_err_code USP_ERR_INVALID_PATH = 7026"
| "usp_err_code USP_ERR_INVALID_COMMAND_ARGS = 7027"
| "usp_err_code USP_ERR_RECORD_NOT_PARSED = 7100"
| "usp_err_code USP_ERR_SECURE_SESS_REQUIRED = 7101"
| "usp_err_code USP_ERR_SECURE_SESS_NOT_SUPPORTED = 7102"
| "usp_err_code USP_ERR_SEG_NOT_SUPPORTED = 7103"
| "usp_err_code USP_ERR_RECORD_FIELD_INVALID = 7104"
| "usp_err_code USP_ERR_SESS_CONTEXT_TERMINATED = 7105"
| "usp_err_code USP_ERR_SESS_CONTEXT_NOT_ALLOWED = 7106"
| "usp_err_code USP_ERR_SK_MALLOC_FAILURE = 7800"
| "usp_err_code USP_ERR_SK_INIT_FAILURE = 7801"
| "usp_err_code USP_ERR_SK_API_CALL_FAILURE = 7802"

section \<open>Characters and C strings\<close>

type_synonym cstr = string

text \<open>The magic value for "no index", and the sizes of \<open>vendor/vendor_defs.h\<close>.\<close>

abbreviation INVALID :: int where "INVALID \<equiv> -1"
definition MAX_DM_INSTANCE_ORDER :: nat where "MAX_DM_INSTANCE_ORDER = 6"
definition MAX_DM_PATH :: nat where "MAX_DM_PATH = 256"
definition MAX_DM_VALUE_LEN :: nat where "MAX_DM_VALUE_LEN = 4096"
abbreviation NUL :: char where "NUL \<equiv> CHR 0x00"

text \<open>
  The build targets armeabi-v7a, where char is unsigned: characters compare by their byte value,
  as in \<open>Char_ord\<close>.
\<close>

definition IS_ALPHA :: "char \<Rightarrow> bool" where
  "IS_ALPHA c \<longleftrightarrow> (CHR ''a'' \<le> c \<and> c \<le> CHR ''z'') \<or> (CHR ''A'' \<le> c \<and> c \<le> CHR ''Z'')"

definition IS_NUMERIC :: "char \<Rightarrow> bool" where
  "IS_NUMERIC c \<longleftrightarrow> CHR ''0'' \<le> c \<and> c \<le> CHR ''9''"

definition IS_ALPHA_NUMERIC :: "char \<Rightarrow> bool" where
  "IS_ALPHA_NUMERIC c \<longleftrightarrow> IS_ALPHA c \<or> IS_NUMERIC c"

definition char_code :: "char \<Rightarrow> nat" where
  "char_code c = of_char c"

lemma char_code_less_256 [simp]: "char_code c < 256"
  by (simp add: char_code_def)

lemma char_code_inj: "char_code c = char_code d \<longleftrightarrow> c = d"
  by (simp add: char_code_def)

lemma char_le_code: "c \<le> d \<longleftrightarrow> char_code c \<le> char_code d"
  by (simp add: char_code_def less_eq_char_def)

lemma char_less_code: "c < d \<longleftrightarrow> char_code c < char_code d"
  by (simp add: char_code_def less_char_def)

lemma IS_NUMERIC_code: "IS_NUMERIC c \<longleftrightarrow> 48 \<le> char_code c \<and> char_code c \<le> 57"
  by (simp add: IS_NUMERIC_def char_le_code) (simp add: char_code_def)

text \<open>The string a buffer holds: its bytes up to the first terminator.\<close>

definition c_string :: "char list \<Rightarrow> cstr" where
  "c_string bs = takeWhile (\<lambda>c. c \<noteq> NUL) bs"

definition nul_free :: "cstr \<Rightarrow> bool" where
  "nul_free s \<longleftrightarrow> NUL \<notin> set s"

lemma c_string_nul_free [cstr_simps]: "nul_free (c_string bs)"
  by (auto simp: nul_free_def c_string_def dest: set_takeWhileD)

lemma c_string_id [cstr_simps]: "nul_free s \<Longrightarrow> c_string s = s"
  by (auto simp: nul_free_def c_string_def takeWhile_eq_all_conv)

text \<open>USP_STRNCPY: at most \<open>n - 1\<close> characters, always terminated.\<close>

definition USP_STRNCPY :: "cstr \<Rightarrow> nat \<Rightarrow> cstr" where
  "USP_STRNCPY src n = take (n - 1) src"

text \<open>
  USP_SNPRINTF with a text that is already formatted: what the buffer then holds and the value
  returned, MIN(len, size). A size of 0 leaves the buffer alone and returns 0.
\<close>

definition USP_SNPRINTF :: "nat \<Rightarrow> cstr \<Rightarrow> cstr \<times> nat" where
  "USP_SNPRINTF n txt = (take (n - 1) txt, if n = 0 then 0 else min (length txt) n)"

lemma USP_STRNCPY_fits [cstr_simps]: "length src < n \<Longrightarrow> USP_STRNCPY src n = src"
  by (simp add: USP_STRNCPY_def)

lemma USP_STRNCPY_length: "0 < n \<Longrightarrow> length (USP_STRNCPY src n) < n"
  by (simp add: USP_STRNCPY_def)

section \<open>The search loop of the vectors\<close>

text \<open>
  \<open>for (i=start; i < num_entries; i++) if (match(vector[i])) return i; return INVALID;\<close>
\<close>

fun index_from :: "('a \<Rightarrow> bool) \<Rightarrow> int \<Rightarrow> 'a list \<Rightarrow> int" where
  "index_from P i [] = INVALID"
| "index_from P i (x # xs) = (if P x then i else index_from P (i + 1) xs)"

abbreviation first_index :: "('a \<Rightarrow> bool) \<Rightarrow> 'a list \<Rightarrow> int" where
  "first_index P xs \<equiv> index_from P 0 xs"

lemma index_from_eq:
  assumes "0 \<le> i"
  shows "index_from P i xs =
    (if \<exists>x\<in>set xs. P x then i + int (length (takeWhile (\<lambda>x. \<not> P x) xs)) else INVALID)"
  using assms by (induction P i xs rule: index_from.induct) auto

lemma first_index_invalid [idx_simps]: "first_index P xs = INVALID \<longleftrightarrow> (\<forall>x\<in>set xs. \<not> P x)"
  by (auto simp: index_from_eq)

lemma first_index_ge: "INVALID \<le> first_index P xs"
  by (simp add: index_from_eq)

lemma first_index_found:
  assumes "first_index P xs = i" "i \<noteq> INVALID"
  shows "nat i < length xs" "P (xs ! nat i)" "j < nat i \<Longrightarrow> \<not> P (xs ! j)" "0 \<le> i"
proof -
  let ?n = "length (takeWhile (\<lambda>x. \<not> P x) xs)"
  from assms have ex: "\<exists>x\<in>set xs. P x" and i: "i = int ?n"
    by (auto simp: index_from_eq split: if_splits)
  from ex have n: "?n < length xs"
    by (metis length_takeWhile_le nat_less_le takeWhile_eq_all_conv takeWhile_eq_take take_all_iff)
  with i show "nat i < length xs" "0 \<le> i" by auto
  from n i show "P (xs ! nat i)"
    using nth_length_takeWhile [of "\<lambda>x. \<not> P x" xs] by simp
  assume "j < nat i"
  with i have "j < ?n" by simp
  then have "xs ! j \<in> set (takeWhile (\<lambda>x. \<not> P x) xs)"
    by (metis nth_mem takeWhile_nth)
  then show "\<not> P (xs ! j)" by (metis set_takeWhileD)
qed

lemma first_index_ex: "(\<exists>x\<in>set xs. P x) \<longleftrightarrow> 0 \<le> first_index P xs"
  by (auto simp: index_from_eq)

text \<open>A search that starts elsewhere, or at the head, in terms of the search from 0.\<close>

lemma index_from_shift:
  "0 \<le> i \<Longrightarrow> index_from P i xs = (if first_index P xs = INVALID then INVALID else i + first_index P xs)"
proof -
  assume "0 \<le> i"
  then show ?thesis
    unfolding index_from_eq [OF \<open>0 \<le> i\<close>] index_from_eq [OF order_refl] by simp
qed

lemma first_index_Cons:
  "first_index P (x # xs) =
    (if P x then 0 else if first_index P xs = INVALID then INVALID else 1 + first_index P xs)"
  using index_from_shift [of 1 P xs] by simp

lemma first_index_Nil: "first_index P [] = INVALID"
  by simp

declare index_from.simps [simp del]

section \<open>Results\<close>

abbreviation USP_OK :: "usp_err + unit" where "USP_OK \<equiv> Inr ()"

text \<open>Sequencing a fallible call: the early return every caller writes out.\<close>

definition usp_bind :: "usp_err + 'a \<Rightarrow> ('a \<Rightarrow> usp_err + 'b) \<Rightarrow> usp_err + 'b" where
  "usp_bind r f = (case r of Inl e \<Rightarrow> Inl e | Inr x \<Rightarrow> f x)"

lemma usp_bind_simps [simp]: "usp_bind (Inl e) f = Inl e" "usp_bind (Inr x) f = f x"
  by (simp_all add: usp_bind_def)

lemma usp_bind_Inr_iff [usp_split]: "usp_bind r f = Inr y \<longleftrightarrow> (\<exists>x. r = Inr x \<and> f x = Inr y)"
  by (cases r) auto

lemma usp_bind_Inl_iff [usp_split]:
  "usp_bind r f = Inl e \<longleftrightarrow> r = Inl e \<or> (\<exists>x. r = Inr x \<and> f x = Inl e)"
  by (cases r) auto

end
