(* ===== verification/Text_Convert.thy ===== *)
theory Text_Convert
  imports Usp_Prelude
begin

text \<open>
  The value conversions of \<open>core/text_utils.c\<close>: the schema path hash, numbers, booleans,
  enumerations and hexadecimal. The C library's strtoull is modelled as ISO C describes it
  (optional white space, optional sign, digits, ERANGE on overflow).
\<close>

section \<open>The path hash\<close>

definition OFFSET_BASIS :: "32 word" where "OFFSET_BASIS = 0x811C9DC5"
definition FNV_PRIME :: "32 word" where "FNV_PRIME = 0x1000193"

definition ADD_TO_HASH :: "char \<Rightarrow> 32 word \<Rightarrow> 32 word" where
  "ADD_TO_HASH c hash = (hash * FNV_PRIME) XOR of_nat (char_code c)"

fun hash_loop :: "cstr \<Rightarrow> 32 word \<Rightarrow> 32 word" where
  "hash_loop [] hash = hash"
| "hash_loop (c # s) hash = hash_loop s (ADD_TO_HASH c hash)"

definition TEXT_UTILS_CalcHash :: "cstr \<Rightarrow> 32 word" where
  "TEXT_UTILS_CalcHash s = hash_loop s OFFSET_BASIS"

lemma hash_loop_append: "hash_loop (s @ t) h = hash_loop t (hash_loop s h)"
  by (induction s h rule: hash_loop.induct) auto

lemma FNV_PRIME_inverse: "FNV_PRIME * 0x359C449B = 1"
  by (simp add: FNV_PRIME_def)

lemma FNV_PRIME_invertible: "a * FNV_PRIME * 0x359C449B = (a :: 32 word)"
  by (simp only: mult.assoc FNV_PRIME_inverse mult_1_right)

lemma xor_cancel_right: "(a :: 'a::len word) XOR x = b XOR x \<longleftrightarrow> a = b"
  by (metis bit.xor_left_self xor.commute)

lemma xor_cancel_left: "(x :: 'a::len word) XOR a = x XOR b \<longleftrightarrow> a = b"
  by (metis bit.xor_left_self)

lemma ADD_TO_HASH_inj_hash: "ADD_TO_HASH c h = ADD_TO_HASH c h' \<longleftrightarrow> h = h'"
proof
  assume "ADD_TO_HASH c h = ADD_TO_HASH c h'"
  then have "h * FNV_PRIME = h' * FNV_PRIME"
    by (simp add: ADD_TO_HASH_def xor_cancel_right)
  then show "h = h'" by (metis FNV_PRIME_invertible)
qed simp

lemma ADD_TO_HASH_inj_char: "ADD_TO_HASH c h = ADD_TO_HASH d h \<longleftrightarrow> c = d"
proof
  assume "ADD_TO_HASH c h = ADD_TO_HASH d h"
  then have "(of_nat (char_code c) :: 32 word) = of_nat (char_code d)"
    by (simp add: ADD_TO_HASH_def xor_cancel_left)
  then have "unat (of_nat (char_code c) :: 32 word) = unat (of_nat (char_code d) :: 32 word)"
    by simp
  moreover have "char_code x mod 4294967296 = char_code x" for x
    by (simp add: order.strict_trans [OF char_code_less_256])
  ultimately show "c = d"
    by (simp add: unat_of_nat char_code_inj)
qed simp

lemma hash_loop_inj: "hash_loop s h = hash_loop s h' \<longleftrightarrow> h = h'"
  by (induction s arbitrary: h h') (simp_all add: ADD_TO_HASH_inj_hash)

section \<open>Numbers\<close>

definition isspace :: "char \<Rightarrow> bool" where
  "isspace c \<longleftrightarrow> c = CHR '' '' \<or> (9 \<le> char_code c \<and> char_code c \<le> 13)"

definition digit_value :: "char \<Rightarrow> nat" where
  "digit_value c = char_code c - 48"

text \<open>The value of a run of digits, most significant first.\<close>

fun digits_value :: "nat \<Rightarrow> cstr \<Rightarrow> nat" where
  "digits_value acc [] = acc"
| "digits_value acc (c # s) = digits_value (10 * acc + digit_value c) s"

definition ULLONG_MAX :: nat where "ULLONG_MAX = 2 ^ 64 - 1"
definition UINT_MAX :: nat where "UINT_MAX = 2 ^ 32 - 1"

text \<open>strtoull in base 10: the value, the unread rest and whether errno was set.\<close>

definition strtoull :: "cstr \<Rightarrow> nat \<times> cstr \<times> bool" where
  "strtoull str =
    (let s1 = dropWhile isspace str;
         neg = (s1 \<noteq> [] \<and> hd s1 = CHR ''-'');
         s2 = (if s1 \<noteq> [] \<and> (hd s1 = CHR ''-'' \<or> hd s1 = CHR ''+'') then tl s1 else s1);
         ds = takeWhile IS_NUMERIC s2;
         v = digits_value 0 ds
     in if ds = [] then (0, str, False)
        else if ULLONG_MAX < v then (ULLONG_MAX, dropWhile IS_NUMERIC s2, True)
        else (if neg then (2 ^ 64 - v) mod 2 ^ 64 else v, dropWhile IS_NUMERIC s2, False))"

definition TEXT_UTILS_StringToUnsignedLongLong :: "cstr \<Rightarrow> usp_err + nat" where
  "TEXT_UTILS_StringToUnsignedLongLong str =
    (if CHR ''-'' \<in> set str then Inl USP_ERR_INVALID_TYPE
     else case strtoull str of (value, endptr, errno) \<Rightarrow>
       if endptr \<noteq> [] \<or> errno then Inl USP_ERR_INVALID_TYPE else Inr value)"

definition TEXT_UTILS_StringToUnsigned :: "cstr \<Rightarrow> usp_err + nat" where
  "TEXT_UTILS_StringToUnsigned str =
    (case TEXT_UTILS_StringToUnsignedLongLong str of
       Inl err \<Rightarrow> Inl err
     | Inr lvalue \<Rightarrow> if UINT_MAX < lvalue then Inl USP_ERR_INVALID_TYPE else Inr lvalue)"

text \<open>
  sscanf with "%d": \<open>None\<close> where ISO C leaves the behaviour undefined, that is where the number read
  is not an int; \<open>Inl\<close> where no number is read. What follows the number is not looked at.
\<close>

definition INT_MAX :: int where "INT_MAX = 2 ^ 31 - 1"

definition TEXT_UTILS_StringToInteger :: "cstr \<Rightarrow> (usp_err + int) option" where
  "TEXT_UTILS_StringToInteger str =
    (let s1 = dropWhile isspace str;
         neg = (s1 \<noteq> [] \<and> hd s1 = CHR ''-'');
         s2 = (if s1 \<noteq> [] \<and> (hd s1 = CHR ''-'' \<or> hd s1 = CHR ''+'') then tl s1 else s1);
         ds = takeWhile IS_NUMERIC s2;
         v = (if neg then - int (digits_value 0 ds) else int (digits_value 0 ds))
     in if ds = [] then Some (Inl USP_ERR_INVALID_TYPE)
        else if - INT_MAX - 1 \<le> v \<and> v \<le> INT_MAX then Some (Inr v) else None)"

text \<open>What printf writes for \<open>%u\<close>.\<close>

definition digit_char :: "nat \<Rightarrow> char" where
  "digit_char d = char_of (48 + d)"

fun show_nat :: "nat \<Rightarrow> cstr" where
  "show_nat n = (if n < 10 then [digit_char n] else show_nat (n div 10) @ [digit_char (n mod 10)])"

declare show_nat.simps [simp del]

lemma digit_char_props:
  assumes "d < 10"
  shows "IS_NUMERIC (digit_char d)" "digit_value (digit_char d) = d"
  using assms by (auto simp: IS_NUMERIC_code digit_value_def digit_char_def char_code_def)

lemma digits_value_append: "digits_value a (s @ t) = digits_value (digits_value a s) t"
  by (induction a s rule: digits_value.induct) auto

lemma show_nat_numeric: "c \<in> set (show_nat n) \<Longrightarrow> IS_NUMERIC c"
proof (induction n rule: show_nat.induct)
  case (1 n)
  then show ?case
    by (subst (asm) (2) show_nat.simps) (auto simp: digit_char_props split: if_splits)
qed

lemma show_nat_nonempty: "show_nat n \<noteq> []"
  by (subst show_nat.simps) simp

lemma digits_value_show_nat: "digits_value 0 (show_nat n) = n"
proof (induction n rule: show_nat.induct)
  case (1 n)
  then show ?case
    by (subst show_nat.simps) (auto simp: digits_value_append digit_char_props)
qed

lemma numeric_not_sign_space:
  assumes "IS_NUMERIC c"
  shows "c \<noteq> CHR ''-''" "c \<noteq> CHR ''+''" "\<not> isspace c" "c \<noteq> NUL" "c \<noteq> CHR ''.''"
  using assms by (auto simp: IS_NUMERIC_code isspace_def char_code_def)

lemma strtoull_digits:
  assumes "s \<noteq> []" "\<And>c. c \<in> set s \<Longrightarrow> IS_NUMERIC c" "digits_value 0 s \<le> ULLONG_MAX"
  shows "strtoull s = (digits_value 0 s, [], False)"
proof -
  from assms(1,2) have hd: "IS_NUMERIC (hd s)" by simp
  from assms(1) hd have sp: "dropWhile isspace s = s"
    by (cases s) (auto simp: numeric_not_sign_space)
  from assms(2) have tw: "takeWhile IS_NUMERIC s = s" "dropWhile IS_NUMERIC s = []"
    by (auto simp: takeWhile_eq_all_conv dropWhile_eq_Nil_conv)
  show ?thesis using assms(1,3) numeric_not_sign_space [OF hd]
    by (simp add: strtoull_def sp tw Let_def)
qed

lemma StringToUnsigned_digits:
  assumes "s \<noteq> []" "\<And>c. c \<in> set s \<Longrightarrow> IS_NUMERIC c" "digits_value 0 s \<le> UINT_MAX"
  shows "TEXT_UTILS_StringToUnsigned s = Inr (digits_value 0 s)"
proof -
  have "CHR ''-'' \<notin> set s" using assms(2) numeric_not_sign_space(1) by blast
  moreover have "strtoull s = (digits_value 0 s, [], False)"
    using assms by (intro strtoull_digits) (auto simp: UINT_MAX_def ULLONG_MAX_def)
  ultimately show ?thesis using assms(3)
    by (simp add: TEXT_UTILS_StringToUnsigned_def TEXT_UTILS_StringToUnsignedLongLong_def)
qed

lemma StringToUnsigned_show_nat:
  "n \<le> UINT_MAX \<Longrightarrow> TEXT_UTILS_StringToUnsigned (show_nat n) = Inr n"
  using StringToUnsigned_digits [of "show_nat n"]
  by (simp add: show_nat_nonempty show_nat_numeric digits_value_show_nat)

lemma StringToUnsigned_bound: "TEXT_UTILS_StringToUnsigned s = Inr v \<Longrightarrow> v \<le> UINT_MAX"
  by (auto simp: TEXT_UTILS_StringToUnsigned_def split: sum.splits if_splits)

section \<open>Booleans and enumerations\<close>

definition to_lower :: "char \<Rightarrow> char" where
  "to_lower c = (if CHR ''A'' \<le> c \<and> c \<le> CHR ''Z'' then char_of (char_code c + 32) else c)"

definition strcasecmp_eq :: "cstr \<Rightarrow> cstr \<Rightarrow> bool" where
  "strcasecmp_eq s t \<longleftrightarrow> map to_lower s = map to_lower t"

definition TEXT_UTILS_StringToBool :: "cstr \<Rightarrow> usp_err + bool" where
  "TEXT_UTILS_StringToBool str =
    (if strcasecmp_eq str ''true'' \<or> str = ''1'' then Inr True
     else if strcasecmp_eq str ''false'' \<or> str = ''0'' then Inr False
     else Inl USP_ERR_INVALID_TYPE)"

definition TEXT_UTILS_BoolToString :: "bool \<Rightarrow> cstr" where
  "TEXT_UTILS_BoolToString value = (if value then ''true'' else ''false'')"

type_synonym enum_table = "(int \<times> cstr) list"

fun TEXT_UTILS_StringToEnum :: "cstr \<Rightarrow> enum_table \<Rightarrow> int" where
  "TEXT_UTILS_StringToEnum str [] = INVALID"
| "TEXT_UTILS_StringToEnum str ((value, name) # enums) =
    (if str = name then value else TEXT_UTILS_StringToEnum str enums)"

fun TEXT_UTILS_EnumToString :: "int \<Rightarrow> enum_table \<Rightarrow> cstr" where
  "TEXT_UTILS_EnumToString v [] = ''UNKNOWN''"
| "TEXT_UTILS_EnumToString v ((value, name) # enums) =
    (if value = v then name else TEXT_UTILS_EnumToString v enums)"

lemma StringToBool_BoolToString: "TEXT_UTILS_StringToBool (TEXT_UTILS_BoolToString b) = Inr b"
  by (cases b) (simp_all add: TEXT_UTILS_StringToBool_def TEXT_UTILS_BoolToString_def
      strcasecmp_eq_def to_lower_def less_eq_char_def char_code_def)

lemma StringToEnum_map_of:
  "TEXT_UTILS_StringToEnum s enums =
    (case map_of (map prod.swap enums) s of Some v \<Rightarrow> v | None \<Rightarrow> INVALID)"
  by (induction s enums rule: TEXT_UTILS_StringToEnum.induct) auto

lemma EnumToString_in:
  "v \<in> fst ` set enums \<Longrightarrow> (v, TEXT_UTILS_EnumToString v enums) \<in> set enums"
  by (induction v enums rule: TEXT_UTILS_EnumToString.induct) auto

lemma StringToEnum_EnumToString:
  assumes "distinct (map snd enums)" "v \<in> fst ` set enums"
  shows "TEXT_UTILS_StringToEnum (TEXT_UTILS_EnumToString v enums) enums = v"
proof -
  have "map_of (map prod.swap enums) (TEXT_UTILS_EnumToString v enums) = Some v"
  proof (rule map_of_is_SomeI)
    show "distinct (map fst (map prod.swap enums))"
      using assms(1) by (simp add: comp_def)
    show "(TEXT_UTILS_EnumToString v enums, v) \<in> set (map prod.swap enums)"
      using EnumToString_in [OF assms(2)] by force
  qed
  then show ?thesis by (simp add: StringToEnum_map_of)
qed

section \<open>Properties\<close>

lemma strtoull_show_nat:
  "strtoull (show_nat n) = (if n \<le> ULLONG_MAX then (n, [], False) else (ULLONG_MAX, [], True))"
proof (cases "n \<le> ULLONG_MAX")
  case True
  then show ?thesis using strtoull_digits [of "show_nat n"]
    by (simp add: show_nat_nonempty show_nat_numeric digits_value_show_nat)
next
  case False
  have hd: "IS_NUMERIC (hd (show_nat n))"
    using show_nat_numeric [of "hd (show_nat n)" n] show_nat_nonempty [of n] by simp
  have sp: "dropWhile isspace (show_nat n) = show_nat n"
    using hd by (cases "show_nat n") (auto simp: numeric_not_sign_space)
  have tw: "takeWhile IS_NUMERIC (show_nat n) = show_nat n" "dropWhile IS_NUMERIC (show_nat n) = []"
    by (auto simp: takeWhile_eq_all_conv dropWhile_eq_Nil_conv show_nat_numeric)
  show ?thesis using False numeric_not_sign_space [OF hd]
    by (simp add: strtoull_def sp tw show_nat_nonempty digits_value_show_nat Let_def)
qed

lemma no_minus_in_number: "CHR ''-'' \<notin> set (show_nat n)"
  using show_nat_numeric numeric_not_sign_space(1) by blast

text \<open>
  A decimal number read by the agent is the number written when it fits 32 bits, and is
  refused with USP_ERR_INVALID_TYPE when it does not, whether or not it fits the 64 bit
  conversion underneath: no value is ever wrapped or saturated.
\<close>

theorem StringToUnsigned_number:
  "TEXT_UTILS_StringToUnsigned (show_nat n) =
    (if n \<le> UINT_MAX then Inr n else Inl USP_ERR_INVALID_TYPE)"
  by (auto simp: TEXT_UTILS_StringToUnsigned_def TEXT_UTILS_StringToUnsignedLongLong_def
      strtoull_show_nat no_minus_in_number UINT_MAX_def ULLONG_MAX_def)

text \<open>
  Two path texts that differ in one character only never get the same hash: each step of the
  hash is a permutation of the 32 bit words, for the character and for the running value.
\<close>

theorem CalcHash_one_char:
  "TEXT_UTILS_CalcHash (s @ c # t) = TEXT_UTILS_CalcHash (s @ d # t) \<longleftrightarrow> c = d"
  by (simp add: TEXT_UTILS_CalcHash_def hash_loop_append hash_loop_inj ADD_TO_HASH_inj_char)

end
