(* ===== verification/Sync_Timer.thy ===== *)
theory Sync_Timer
  imports Text_Convert
begin

text \<open>
  The timers of the data model thread (\<open>core/sync_timer.c\<close>): a vector of timers, each a callback with
  an id, and the time of the first one to fire. The callbacks are functions of the agent's state; the
  type of the state extends the one of this component. Times are seconds as the 32-bit time_t has
  them, so an arithmetic overflow (which C leaves undefined) does not occur for current times from 0.
\<close>

section \<open>State\<close>

definition END_OF_TIME :: int where "END_OF_TIME = 2147483647"

record 'cb sync_timer =
  enabled :: bool
  next_timeout :: int
  timer_cb :: 'cb
  timer_id :: int

record 'cb sync_timers =
  timers :: "'cb sync_timer list"
  first_sync_timer_time :: int

abbreviation timer_key :: "'cb sync_timer \<Rightarrow> 'cb \<times> int" where
  "timer_key t \<equiv> (timer_cb t, timer_id t)"

section \<open>Operations\<close>

definition SYNC_TIMER_Init :: "('cb, 'm) sync_timers_scheme \<Rightarrow> ('cb, 'm) sync_timers_scheme" where
  "SYNC_TIMER_Init s = s\<lparr>timers := [], first_sync_timer_time := END_OF_TIME\<rparr>"

definition FindSyncTimer :: "('cb, 'm) sync_timers_scheme \<Rightarrow> 'cb \<Rightarrow> int \<Rightarrow> int" where
  "FindSyncTimer s cb i = first_index (\<lambda>t. timer_cb t = cb \<and> timer_id t = i) (timers s)"

text \<open>The loop over the timers, from the time found so far.\<close>

fun first_timeout :: "int \<Rightarrow> 'cb sync_timer list \<Rightarrow> int" where
  "first_timeout first [] = first"
| "first_timeout first (t # ts) =
    first_timeout (if enabled t \<and> next_timeout t < first then next_timeout t else first) ts"

definition UpdateFirstSyncTimerTime :: "('cb, 'm) sync_timers_scheme \<Rightarrow> ('cb, 'm) sync_timers_scheme" where
  "UpdateFirstSyncTimerTime s = s\<lparr>first_sync_timer_time := first_timeout END_OF_TIME (timers s)\<rparr>"

text \<open>A callback is a pointer: \<open>None\<close> is NULL.\<close>

definition SYNC_TIMER_Add :: "'cb option \<Rightarrow> int \<Rightarrow> int \<Rightarrow> ('cb, 'm) sync_timers_scheme
    \<Rightarrow> ('cb, 'm) sync_timers_scheme \<times> (usp_err + unit)" where
  "SYNC_TIMER_Add cb i callback_time s =
    (case cb of
       None \<Rightarrow> (s, Inl USP_ERR_INTERNAL_ERROR)
     | Some f \<Rightarrow>
         if FindSyncTimer s f i \<noteq> INVALID then (s, Inl USP_ERR_INTERNAL_ERROR)
         else (UpdateFirstSyncTimerTime (s\<lparr>timers := timers s @
                 [\<lparr>enabled = True, next_timeout = callback_time, timer_cb = f, timer_id = i\<rparr>]\<rparr>), USP_OK))"

definition SYNC_TIMER_Reload :: "'cb \<Rightarrow> int \<Rightarrow> int \<Rightarrow> ('cb, 'm) sync_timers_scheme
    \<Rightarrow> ('cb, 'm) sync_timers_scheme \<times> (usp_err + unit)" where
  "SYNC_TIMER_Reload cb i callback_time s =
    (let index = FindSyncTimer s cb i in
     if index = INVALID then (s, Inl USP_ERR_INTERNAL_ERROR)
     else let st = timers s ! nat index
     in (UpdateFirstSyncTimerTime (s\<lparr>timers := (timers s)
           [nat index := st\<lparr>enabled := True, next_timeout := callback_time\<rparr>]\<rparr>), USP_OK))"

definition SYNC_TIMER_Remove :: "'cb \<Rightarrow> int \<Rightarrow> ('cb, 'm) sync_timers_scheme
    \<Rightarrow> ('cb, 'm) sync_timers_scheme \<times> (usp_err + unit)" where
  "SYNC_TIMER_Remove cb i s =
    (let index = FindSyncTimer s cb i in
     if index = INVALID then (s, Inl USP_ERR_INTERNAL_ERROR)
     else (UpdateFirstSyncTimerTime (s\<lparr>timers :=
             take (nat index) (timers s) @ drop (Suc (nat index)) (timers s)\<rparr>), USP_OK))"

text \<open>In milliseconds; \<open>cur_time\<close> is what time() gives.\<close>

definition SYNC_TIMER_TimeToNext :: "('cb, 'm) sync_timers_scheme \<Rightarrow> int \<Rightarrow> int" where
  "SYNC_TIMER_TimeToNext s cur_time =
    (let delta = first_sync_timer_time s - cur_time;
         delta = (if delta < 0 then 0 else delta)
     in if delta > INT_MAX div 1000 then INT_MAX else delta * 1000)"

text \<open>
  The loop that calls the expired timers. A callback may add, reload and remove timers while the loop
  runs, and the bound of the loop is read again every time: \<open>None\<close> is a loop that never ends.
\<close>

definition disable_at :: "nat \<Rightarrow> ('cb, 'm) sync_timers_scheme \<Rightarrow> ('cb, 'm) sync_timers_scheme" where
  "disable_at i s = s\<lparr>timers := (timers s)[i := (timers s ! i)\<lparr>enabled := False\<rparr>]\<rparr>"

abbreviation due :: "int \<Rightarrow> 'cb sync_timer \<Rightarrow> bool" where
  "due cur_time t \<equiv> enabled t \<and> next_timeout t \<le> cur_time"

partial_function (option) execute_from ::
    "('cb \<Rightarrow> int \<Rightarrow> ('cb, 'm) sync_timers_scheme \<Rightarrow> ('cb, 'm) sync_timers_scheme) \<Rightarrow> int \<Rightarrow> nat
      \<Rightarrow> ('cb, 'm) sync_timers_scheme \<Rightarrow> ('cb, 'm) sync_timers_scheme option" where
  "execute_from run cur_time i s =
    (if i < length (timers s)
     then let st = timers s ! i
       in execute_from run cur_time (Suc i)
            (if due cur_time st then run (timer_cb st) (timer_id st) (disable_at i s) else s)
     else Some s)"

definition SYNC_TIMER_Execute ::
    "('cb \<Rightarrow> int \<Rightarrow> ('cb, 'm) sync_timers_scheme \<Rightarrow> ('cb, 'm) sync_timers_scheme) \<Rightarrow> int
      \<Rightarrow> ('cb, 'm) sync_timers_scheme \<Rightarrow> ('cb, 'm) sync_timers_scheme option" where
  "SYNC_TIMER_Execute run cur_time s =
    (if cur_time < first_sync_timer_time s then Some s
     else map_option UpdateFirstSyncTimerTime (execute_from run cur_time 0 s))"

section \<open>The first time\<close>

text \<open>No two timers have the same callback and id, and the time kept is the first of the enabled ones.\<close>

definition keys_ok :: "('cb, 'm) sync_timers_scheme \<Rightarrow> bool" where
  "keys_ok s \<longleftrightarrow> distinct (map timer_key (timers s))"

definition timers_ok :: "('cb, 'm) sync_timers_scheme \<Rightarrow> bool" where
  "timers_ok s \<longleftrightarrow> distinct (map timer_key (timers s)) \<and>
    first_sync_timer_time s = Min (insert END_OF_TIME (next_timeout ` {t \<in> set (timers s). enabled t}))"

lemma Min_insert_min: "finite S \<Longrightarrow> Min (insert (min a b) S) = Min (insert a (insert b S))" for a b :: int
  by (cases "S = {}") (simp_all add: min.assoc)

lemma first_timeout_Min:
  "first_timeout first ts = Min (insert first (next_timeout ` {t \<in> set ts. enabled t}))"
proof (induction first ts rule: first_timeout.induct)
  case (2 first t ts)
  let ?S = "next_timeout ` {u \<in> set ts. enabled u}"
  show ?case
  proof (cases "enabled t")
    case True
    then have set: "{u \<in> set (t # ts). enabled u} = insert t {u \<in> set ts. enabled u}" by auto
    have "(if next_timeout t < first then next_timeout t else first) = min first (next_timeout t)"
      by (simp add: min_def)
    with 2 True have "first_timeout first (t # ts) = Min (insert (min first (next_timeout t)) ?S)" by simp
    then show ?thesis unfolding set image_insert using Min_insert_min [of ?S] by simp
  next
    case False
    then have "{u \<in> set (t # ts). enabled u} = {u \<in> set ts. enabled u}" by auto
    with 2 False show ?thesis by simp
  qed
qed simp

lemma first_timeout_le: "first_timeout first ts \<le> first"
  by (simp add: first_timeout_Min)

lemma UpdateFirst_simps [simp]:
  "timers (UpdateFirstSyncTimerTime s) = timers s"
  "first_sync_timer_time (UpdateFirstSyncTimerTime s) = first_timeout END_OF_TIME (timers s)"
  by (simp_all add: UpdateFirstSyncTimerTime_def)

lemma UpdateFirst_ok [intro]:
  "distinct (map timer_key (timers s)) \<Longrightarrow> timers_ok (UpdateFirstSyncTimerTime s)"
  by (simp add: timers_ok_def first_timeout_Min)

lemma UpdateFirst_id: "timers_ok s \<Longrightarrow> UpdateFirstSyncTimerTime s = s"
  by (simp add: UpdateFirstSyncTimerTime_def timers_ok_def first_timeout_Min)

lemma not_due_before_first: "timers_ok s \<Longrightarrow> cur_time < first_sync_timer_time s \<Longrightarrow> t \<in> set (timers s) \<Longrightarrow> \<not> due cur_time t"
  by (auto simp: timers_ok_def)

section \<open>What each operation does to a timer\<close>

text \<open>The time a timer is armed for: \<open>None\<close> when there is no such timer or it is disabled.\<close>

definition timer_deadline :: "('cb, 'm) sync_timers_scheme \<Rightarrow> 'cb \<times> int \<Rightarrow> int option" where
  "timer_deadline s k = map_of (map (\<lambda>t. (timer_key t, next_timeout t)) (filter enabled (timers s))) k"

definition timer_exists :: "('cb, 'm) sync_timers_scheme \<Rightarrow> 'cb \<times> int \<Rightarrow> bool" where
  "timer_exists s k \<longleftrightarrow> k \<in> timer_key ` set (timers s)"

lemma FindSyncTimer_invalid: "FindSyncTimer s cb i = INVALID \<longleftrightarrow> \<not> timer_exists s (cb, i)"
  by (auto simp: FindSyncTimer_def timer_exists_def first_index_invalid)

lemma FindSyncTimer_found:
  assumes "timer_exists s (cb, i)"
  obtains n where "FindSyncTimer s cb i = int n" "n < length (timers s)" "timer_key (timers s ! n) = (cb, i)"
proof -
  have "FindSyncTimer s cb i \<noteq> INVALID" using assms by (simp add: FindSyncTimer_invalid)
  from first_index_found [OF refl this [unfolded FindSyncTimer_def]] that [of "nat (FindSyncTimer s cb i)"]
  show ?thesis by (simp add: FindSyncTimer_def)
qed

text \<open>With distinct keys a deadline is a membership in the vector.\<close>

lemma timer_deadline_iff:
  assumes "distinct (map timer_key (timers s))"
  shows "timer_deadline s k = Some d \<longleftrightarrow> (\<exists>t\<in>set (timers s). enabled t \<and> timer_key t = k \<and> next_timeout t = d)"
proof -
  have "distinct (map timer_key (filter enabled (timers s)))"
    using assms by (simp add: distinct_map_filter)
  then have "distinct (map fst (map (\<lambda>t. (timer_key t, next_timeout t)) (filter enabled (timers s))))"
    by (simp add: comp_def)
  from map_of_eq_Some_iff [OF this] show ?thesis
    by (auto simp: timer_deadline_def)
qed

lemma map_of_update_key:
  assumes "distinct (map f xs)" "n < length xs" "f x = f (xs ! n)"
  shows "y \<in> set (xs[n := x]) \<longleftrightarrow> y = x \<or> (y \<in> set xs \<and> f y \<noteq> f x)"
proof -
  have upd: "set (xs[n := x]) = insert x (set xs - {xs ! n})"
    using assms(1,2) by (intro set_update_distinct) (simp_all add: distinct_map)
  have inj: "inj_on f (set xs)" and mem: "xs ! n \<in> set xs" using assms(1,2) by (simp_all add: distinct_map)
  have "f y = f x \<longleftrightarrow> y = xs ! n" if "y \<in> set xs"
    unfolding assms(3) using inj that mem by (rule inj_on_eq_iff)
  then show ?thesis unfolding upd by blast
qed

lemma keys_update:
  assumes "f x = f (xs ! n)"
  shows "map f (xs[n := x]) = map f xs"
  using assms by (metis list_update_beyond list_update_id map_update not_le)

lemma deadline_after_update:
  assumes dist: "distinct (map timer_key (timers s))" and n: "n < length (timers s)"
    and key: "timer_key t = timer_key (timers s ! n)" and t': "timers s' = (timers s)[n := t]"
  shows "timer_deadline s' k = (if k = timer_key t then (if enabled t then Some (next_timeout t) else None)
    else timer_deadline s k)" (is "_ = ?new")
proof -
  have dist': "distinct (map timer_key (timers s'))"
    unfolding t' keys_update [of timer_key, OF key] by (rule dist)
  have mem: "u \<in> set (timers s') \<longleftrightarrow> u = t \<or> (u \<in> set (timers s) \<and> timer_key u \<noteq> timer_key t)" for u
    unfolding t' by (rule map_of_update_key [OF dist n key])
  have "timer_deadline s' k = Some d \<longleftrightarrow> ?new = Some d" for d
  proof (cases "k = timer_key t")
    case True
    then show ?thesis unfolding timer_deadline_iff [OF dist'] Bex_def mem by auto
  next
    case False
    then show ?thesis unfolding timer_deadline_iff [OF dist'] Bex_def mem
      using timer_deadline_iff [OF dist, of k d] by auto
  qed
  then show ?thesis by (metis option.exhaust)
qed

lemma Reload_exists:
  assumes "keys_ok s" "timer_exists s (cb, i)" "SYNC_TIMER_Reload cb i d s = (s', r)"
  shows "r = USP_OK" "timers_ok s'" "map timer_key (timers s') = map timer_key (timers s)"
    "timer_deadline s' k = (if k = (cb, i) then Some d else timer_deadline s k)"
proof -
  obtain n where n: "FindSyncTimer s cb i = int n" "n < length (timers s)" "timer_key (timers s ! n) = (cb, i)"
    using FindSyncTimer_found [OF assms(2)] by blast
  let ?t = "(timers s ! n)\<lparr>enabled := True, next_timeout := d\<rparr>"
  have r: "r = USP_OK" and s': "s' = UpdateFirstSyncTimerTime (s\<lparr>timers := (timers s)[n := ?t]\<rparr>)"
    using assms(3) n by (auto simp: SYNC_TIMER_Reload_def)
  have dist: "distinct (map timer_key (timers s))" using assms(1) by (simp add: keys_ok_def)
  have keys: "map timer_key ((timers s)[n := ?t]) = map timer_key (timers s)" by (rule keys_update) simp
  show "r = USP_OK" by (fact r)
  show "map timer_key (timers s') = map timer_key (timers s)" using keys s' by simp
  show "timers_ok s'" unfolding s' using keys dist by (intro UpdateFirst_ok) simp
  show "timer_deadline s' k = (if k = (cb, i) then Some d else timer_deadline s k)"
    using deadline_after_update [OF dist n(2), of ?t s' k] n(3) s' by simp
qed

lemma timer_exists_keys: "map timer_key (timers s') = map timer_key (timers s) \<Longrightarrow> timer_exists s' k \<longleftrightarrow> timer_exists s k"
  unfolding timer_exists_def set_map [symmetric] by simp

section \<open>The service the timers give their clients\<close>

text \<open>
  A client arms a timer it has added for a time, and the thread sleeps until the first time of all.
  The laws: arming a timer gives it that deadline and leaves the others, and the first time is never
  behind a deadline; when there is no deadline at that time it is the end of time. While callbacks
  run the first time is out of date, and only \<open>usable\<close> holds; arming brings it up to date.
\<close>

locale timer_service =
  fixes usable :: "'s \<Rightarrow> bool" and good :: "'s \<Rightarrow> bool" and known :: "'s \<Rightarrow> 'k \<Rightarrow> bool"
    and deadline :: "'s \<Rightarrow> 'k \<Rightarrow> int option" and arm :: "'k \<Rightarrow> int \<Rightarrow> 's \<Rightarrow> 's" and first :: "'s \<Rightarrow> int"
  assumes good_usable: "good s \<Longrightarrow> usable s"
    and arm_good: "usable s \<Longrightarrow> known s k \<Longrightarrow> good (arm k d s)"
    and arm_known: "usable s \<Longrightarrow> known s k \<Longrightarrow> known (arm k d s) k' = known s k'"
    and arm_deadline: "usable s \<Longrightarrow> known s k \<Longrightarrow> deadline (arm k d s) k' = (if k' = k then Some d else deadline s k')"
    and first_le: "good s \<Longrightarrow> deadline s k = Some d \<Longrightarrow> first s \<le> d"
    and first_attained: "good s \<Longrightarrow> first s = END_OF_TIME \<or> (\<exists>k. deadline s k = Some (first s))"
begin

lemma wakes_in_time: "usable s \<Longrightarrow> known s k \<Longrightarrow> first (arm k d s) \<le> d"
  using first_le [OF arm_good, of s k d k d] by (simp add: arm_deadline)

lemma nothing_due: "good s \<Longrightarrow> now < first s \<Longrightarrow> deadline s k = Some d \<Longrightarrow> now < d"
  using first_le by fastforce

lemma arm_first:
  assumes "usable s" "known s k"
  shows "first (arm k d s) = END_OF_TIME \<or> first (arm k d s) = d \<or> (\<exists>k'. k' \<noteq> k \<and> deadline s k' = Some (first (arm k d s)))"
  using first_attained [OF arm_good [OF assms, of d]] arm_deadline [OF assms] by (auto split: if_splits)

end

definition arm_timer :: "'cb \<times> int \<Rightarrow> int \<Rightarrow> ('cb, 'm) sync_timers_scheme \<Rightarrow> ('cb, 'm) sync_timers_scheme" where
  "arm_timer k d s = fst (SYNC_TIMER_Reload (fst k) (snd k) d s)"

lemma first_timer_attained:
  assumes "timers_ok s"
  shows "first_sync_timer_time s = END_OF_TIME \<or> (\<exists>k. timer_deadline s k = Some (first_sync_timer_time s))"
proof -
  let ?S = "next_timeout ` {t \<in> set (timers s). enabled t}"
  have "Min (insert END_OF_TIME ?S) \<in> insert END_OF_TIME ?S" by (rule Min_in) simp_all
  then show ?thesis
    using assms timer_deadline_iff [of s] unfolding timers_ok_def by fastforce
qed

interpretation timer: timer_service keys_ok timers_ok timer_exists timer_deadline arm_timer first_sync_timer_time
proof unfold_locales
  fix s :: "('cb, 'm) sync_timers_scheme" and k k' :: "'cb \<times> int" and d :: int
  show "timers_ok s \<Longrightarrow> keys_ok s" by (simp add: timers_ok_def keys_ok_def)
  show "timers_ok s \<Longrightarrow> timer_deadline s k = Some d \<Longrightarrow> first_sync_timer_time s \<le> d"
    by (auto simp: timer_deadline_iff timers_ok_def)
  show "timers_ok s \<Longrightarrow> first_sync_timer_time s = END_OF_TIME \<or> (\<exists>k. timer_deadline s k = Some (first_sync_timer_time s))"
    by (rule first_timer_attained)
  assume ok: "keys_ok s" and ex: "timer_exists s k"
  obtain s' r where rel: "SYNC_TIMER_Reload (fst k) (snd k) d s = (s', r)" by (metis prod.exhaust)
  then have arm: "arm_timer k d s = s'" by (simp add: arm_timer_def)
  note facts = Reload_exists [OF ok, of "fst k" "snd k", simplified, OF ex rel]
  show "timers_ok (arm_timer k d s)" unfolding arm by (rule facts)
  show "timer_exists (arm_timer k d s) k' = timer_exists s k'" unfolding arm by (rule timer_exists_keys) (rule facts)
  show "timer_deadline (arm_timer k d s) k' = (if k' = k then Some d else timer_deadline s k')"
    unfolding arm using facts(4) by simp
qed

section \<open>The loop over the expired timers\<close>

text \<open>
  What a callback of the agent does to the timers: it reloads its own timer (or leaves it disabled)
  and touches no other.
\<close>

definition own_timer_only ::
    "('cb \<Rightarrow> int \<Rightarrow> ('cb, 'm) sync_timers_scheme \<Rightarrow> ('cb, 'm) sync_timers_scheme) \<Rightarrow> bool" where
  "own_timer_only run \<longleftrightarrow> (\<forall>cb i s. map timer_key (timers (run cb i s)) = map timer_key (timers s) \<and>
    (\<forall>n < length (timers s). timer_key (timers s ! n) \<noteq> (cb, i) \<longrightarrow> timers (run cb i s) ! n = timers s ! n))"

text \<open>One expired timer: it is disabled, then its callback runs.\<close>

definition disable_timer :: "'cb sync_timer \<Rightarrow> ('cb, 'm) sync_timers_scheme \<Rightarrow> ('cb, 'm) sync_timers_scheme" where
  "disable_timer t s = s\<lparr>timers := map (\<lambda>u. if timer_key u = timer_key t then u\<lparr>enabled := False\<rparr> else u) (timers s)\<rparr>"

definition fire_timer ::
    "('cb \<Rightarrow> int \<Rightarrow> ('cb, 'm) sync_timers_scheme \<Rightarrow> ('cb, 'm) sync_timers_scheme) \<Rightarrow> 'cb sync_timer
      \<Rightarrow> ('cb, 'm) sync_timers_scheme \<Rightarrow> ('cb, 'm) sync_timers_scheme" where
  "fire_timer run t s = run (timer_cb t) (timer_id t) (disable_timer t s)"

lemma disable_at_key:
  assumes "distinct (map timer_key (timers s))" "i < length (timers s)"
  shows "disable_at i s = disable_timer (timers s ! i) s"
proof -
  have "timer_key (timers s ! j) = timer_key (timers s ! i) \<longleftrightarrow> j = i" if "j < length (timers s)" for j
    using nth_eq_iff_index_eq [OF assms(1), of j i] assms(2) that by simp
  then have "(timers s)[i := (timers s ! i)\<lparr>enabled := False\<rparr>] =
      map (\<lambda>u. if timer_key u = timer_key (timers s ! i) then u\<lparr>enabled := False\<rparr> else u) (timers s)"
    by (intro nth_equalityI) (auto simp: nth_list_update)
  then show ?thesis by (simp add: disable_at_def disable_timer_def)
qed

lemma disable_timer_keys: "map timer_key (timers (disable_timer t s)) = map timer_key (timers s)"
  unfolding disable_timer_def by (simp add: comp_def cong: if_cong)

lemma own_timer_keys: "own_timer_only run \<Longrightarrow> map timer_key (timers (run cb i s)) = map timer_key (timers s)"
  by (simp add: own_timer_only_def)

lemma fire_timer_keys: "own_timer_only run \<Longrightarrow> map timer_key (timers (fire_timer run t s)) = map timer_key (timers s)"
  by (simp add: own_timer_keys fire_timer_def disable_timer_keys)

lemma fire_timer_others:
  assumes "own_timer_only run" "n < length (timers s)" "timer_key (timers s ! n) \<noteq> timer_key t"
  shows "timers (fire_timer run t s) ! n = timers s ! n"
proof -
  have n: "timers (disable_timer t s) ! n = timers s ! n" and len: "n < length (timers (disable_timer t s))"
    using assms(2,3) by (auto simp: disable_timer_def)
  with assms(1,3) show ?thesis unfolding fire_timer_def own_timer_only_def by auto
qed

lemma execute_from_due:
  assumes own: "own_timer_only run"
  shows "distinct (map timer_key (timers s)) \<Longrightarrow>
    execute_from run cur_time i s = Some (fold (fire_timer run) (filter (due cur_time) (drop i (timers s))) s)"
proof (induction "length (timers s) - i" arbitrary: i s)
  case 0
  then show ?case by (simp add: execute_from.simps [of run cur_time i s])
next
  case (Suc m)
  then have i: "i < length (timers s)" by simp
  let ?t = "timers s ! i"
  let ?s = "if due cur_time ?t then fire_timer run ?t s else s"
  have keys: "map timer_key (timers ?s) = map timer_key (timers s)" using fire_timer_keys [OF own] by simp
  then have len: "length (timers ?s) = length (timers s)" by (rule map_eq_imp_length_eq)
  have rest: "drop (Suc i) (timers ?s) = drop (Suc i) (timers s)"
  proof (rule nth_equalityI)
    fix j assume "j < length (drop (Suc i) (timers ?s))"
    then have j: "Suc i + j < length (timers s)" using len by simp
    have "timer_key (timers s ! (Suc i + j)) \<noteq> timer_key ?t"
      using nth_eq_iff_index_eq [OF Suc.prems, of "Suc i + j" i] i j by simp
    then show "drop (Suc i) (timers ?s) ! j = drop (Suc i) (timers s) ! j"
      using fire_timer_others [OF own j] j len by simp
  qed (simp add: len)
  have "execute_from run cur_time i s = execute_from run cur_time (Suc i) ?s"
    using i disable_at_key [OF Suc.prems i]
    by (subst execute_from.simps) (simp add: Let_def fire_timer_def)
  also have "\<dots> = Some (fold (fire_timer run) (filter (due cur_time) (drop (Suc i) (timers ?s))) ?s)"
    by (rule Suc.hyps(1)) (use Suc.hyps(2) Suc.prems keys len in simp_all)
  also have "\<dots> = Some (fold (fire_timer run) (filter (due cur_time) (drop i (timers s))) s)"
    unfolding rest using i by (simp add: Cons_nth_drop_Suc [symmetric])
  finally show ?case .
qed

section \<open>Properties\<close>


text \<open>
  The sleep of the thread: between 0 and INT_MAX milliseconds, no sleep at all when a timer has
  expired, and never past a deadline that is at most INT_MAX / 1000 seconds away.
\<close>

theorem SYNC_TIMER_TimeToNext_bounds:
  assumes "timers_ok s" "timer_deadline s k = Some d"
  shows "0 \<le> SYNC_TIMER_TimeToNext s cur_time \<and> SYNC_TIMER_TimeToNext s cur_time \<le> INT_MAX \<and>
    (d \<le> cur_time \<longrightarrow> SYNC_TIMER_TimeToNext s cur_time = 0) \<and>
    (cur_time < d \<and> d - cur_time \<le> INT_MAX div 1000 \<longrightarrow> SYNC_TIMER_TimeToNext s cur_time \<le> (d - cur_time) * 1000)"
  using timer.first_le [OF assms] by (auto simp: SYNC_TIMER_TimeToNext_def INT_MAX_def Let_def)

lemma Reload_others:
  "map timer_key (timers (fst (SYNC_TIMER_Reload cb i d s))) = map timer_key (timers s) \<and>
    (timer_key (timers s ! m) \<noteq> (cb, i) \<longrightarrow> timers (fst (SYNC_TIMER_Reload cb i d s)) ! m = timers s ! m)"
proof (cases "timer_exists s (cb, i)")
  case False
  then show ?thesis using FindSyncTimer_invalid [of s cb i] by (simp add: SYNC_TIMER_Reload_def)
next
  case True
  obtain n where n: "FindSyncTimer s cb i = int n" "n < length (timers s)" "timer_key (timers s ! n) = (cb, i)"
    using FindSyncTimer_found [OF True] by blast
  let ?t = "(timers s ! n)\<lparr>enabled := True, next_timeout := d\<rparr>"
  have upd: "timers (fst (SYNC_TIMER_Reload cb i d s)) = (timers s)[n := ?t]"
    using n(1) by (simp add: SYNC_TIMER_Reload_def)
  have keys: "map timer_key ((timers s)[n := ?t]) = map timer_key (timers s)" by (rule keys_update) simp
  have "timer_key (timers s ! m) \<noteq> (cb, i) \<Longrightarrow> (timers s)[n := ?t] ! m = timers s ! m"
    using n(3) by (cases "m = n") auto
  with keys show ?thesis unfolding upd by blast
qed

lemma Reload_own_timer_only: "own_timer_only (\<lambda>cb i s. fst (SYNC_TIMER_Reload cb i (f cb i) s))"
  unfolding own_timer_only_def
  by (intro allI conjI impI) (rule Reload_others [THEN conjunct1], erule Reload_others [THEN conjunct2, THEN mp])

definition two_timers :: "bool sync_timers" where
  "two_timers = \<lparr>timers = [\<lparr>enabled = True, next_timeout = 5, timer_cb = True, timer_id = 0\<rparr>,
     \<lparr>enabled = True, next_timeout = 9, timer_cb = False, timer_id = 0\<rparr>], first_sync_timer_time = 5\<rparr>"

lemma two_timers_ok: "timers_ok two_timers"
proof -
  have "first_timeout END_OF_TIME (timers two_timers) = 5" by (simp add: two_timers_def END_OF_TIME_def)
  then show ?thesis
    unfolding timers_ok_def first_timeout_Min [symmetric] by (simp add: two_timers_def)
qed


theorem SYNC_TIMER_TimeToNext_bounds_witness:
  "SYNC_TIMER_TimeToNext two_timers 7 = 0 \<and> SYNC_TIMER_TimeToNext two_timers 2 \<le> 7000"
proof -
  have "timer_deadline two_timers (True, 0) = Some 5" "timer_deadline two_timers (False, 0) = Some 9"
    by (simp_all add: two_timers_def timer_deadline_def)
  from SYNC_TIMER_TimeToNext_bounds [OF two_timers_ok this(1), of 7]
    SYNC_TIMER_TimeToNext_bounds [OF two_timers_ok this(2), of 2]
  show ?thesis by (simp add: INT_MAX_def)
qed

end
