(* ===== verification/Iso8601.thy ===== *)
theory Iso8601
  imports Text_Convert
begin

text \<open>
  Times as text, \<open>core/iso8601.c\<close>. Times are seconds since 1970 (\<open>time_t\<close>, 32 bits on the target,
  kept as an integer). The calendar functions of the C library the code uses, gmtime, timegm,
  strftime and strptime, are written out for the formats of this file: POSIX gives their results.
\<close>

section \<open>The calendar\<close>

definition leap_year :: "nat \<Rightarrow> bool" where
  "leap_year y \<longleftrightarrow> 4 dvd y \<and> (\<not> 100 dvd y \<or> 400 dvd y)"

definition days_in_year :: "nat \<Rightarrow> nat" where
  "days_in_year y = (if leap_year y then 366 else 365)"

definition month_lengths :: "nat \<Rightarrow> nat list" where
  "month_lengths y = [31, if leap_year y then 29 else 28, 31, 30, 31, 30, 31, 31, 30, 31, 30, 31]"

function split_year :: "nat \<Rightarrow> nat \<Rightarrow> nat \<times> nat" where
  "split_year y d = (if d < days_in_year y then (y, d) else split_year (Suc y) (d - days_in_year y))"
  by pat_completeness auto
termination by (relation "measure snd") (auto simp: days_in_year_def split: if_splits)

declare split_year.simps [simp del]

fun split_month :: "nat list \<Rightarrow> nat \<Rightarrow> nat \<Rightarrow> nat \<times> nat" where
  "split_month [] m d = (m, d)"
| "split_month (n # ns) m d = (if d < n then (m, d) else split_month ns (Suc m) (d - n))"

record tm =
  tm_year :: int
  tm_mon :: nat
  tm_mday :: nat
  tm_hour :: nat
  tm_min :: nat
  tm_sec :: nat
  tm_gmtoff :: int

text \<open>The calendar repeats every 400 years, which are 146097 days.\<close>

definition gmtime :: "int \<Rightarrow> tm" where
  "gmtime t =
    (let days = t div 86400; secs = nat (t mod 86400);
         (y, yday) = split_year 1970 (nat (days mod 146097));
         (m, d) = split_month (month_lengths y) 0 yday
     in \<lparr>tm_year = int y + 400 * (days div 146097) - 1900, tm_mon = m, tm_mday = Suc d,
         tm_hour = secs div 3600, tm_min = secs div 60 mod 60, tm_sec = secs mod 60, tm_gmtoff = 0\<rparr>)"

definition days_between :: "nat \<Rightarrow> nat \<Rightarrow> nat" where
  "days_between y y' = sum_list (map days_in_year [y..<y'])"

text \<open>For the years from 1970 on.\<close>

definition timegm :: "tm \<Rightarrow> int" where
  "timegm t =
    (let y = nat (tm_year t + 1900);
         days = days_between 1970 y + sum_list (take (tm_mon t) (month_lengths y)) + (tm_mday t - 1)
     in int (86400 * days + 3600 * tm_hour t + 60 * tm_min t + tm_sec t))"

section \<open>Printing\<close>

definition UNKNOWN_TIME :: int where "UNKNOWN_TIME = - (2 ^ 31)"
definition UNKNOWN_TIME_STR :: cstr where "UNKNOWN_TIME_STR = ''0001-01-01T00:00:00Z''"
definition INVALID_TIME :: int where "INVALID_TIME = -1"

definition pad :: "nat \<Rightarrow> nat \<Rightarrow> cstr" where
  "pad w n = replicate (w - length (show_nat n)) CHR ''0'' @ show_nat n"

text \<open>The conversions %F and %T.\<close>

definition strftime_FT :: "tm \<Rightarrow> cstr" where
  "strftime_FT t = pad 4 (nat (tm_year t + 1900)) @ ''-'' @ pad 2 (Suc (tm_mon t)) @ ''-'' @ pad 2 (tm_mday t) @ ''T'' @
    pad 2 (tm_hour t) @ '':'' @ pad 2 (tm_min t) @ '':'' @ pad 2 (tm_sec t)"

text \<open>strftime: what the buffer holds, \<open>None\<close> where it is unspecified, and the result.\<close>

definition strftime :: "nat \<Rightarrow> cstr \<Rightarrow> cstr option \<times> nat" where
  "strftime buflen txt = (if length txt < buflen then (Some txt, length txt) else (None, 0))"

definition iso8601_strftime :: "nat \<Rightarrow> tm \<Rightarrow> cstr option \<times> nat" where
  "iso8601_strftime buflen t =
    (if buflen = 0 then (None, 0)
     else if tm_gmtoff t = 0 then strftime buflen (strftime_FT t @ ''Z'')
     else
      let (buf, sz) = strftime buflen (strftime_FT t)
      in if sz < buflen
         then let absoff = nat (if tm_gmtoff t < 0 then - tm_gmtoff t else tm_gmtoff t);
                  (zone, n) = USP_SNPRINTF (buflen - sz)
                    ((if tm_gmtoff t < 0 then ''-'' else ''+'') @ pad 2 (absoff div 3600) @ '':'' @ pad 2 (absoff mod 3600 div 60))
              in (Some ((case buf of None \<Rightarrow> [] | Some b \<Rightarrow> b) @ zone), sz + n)
         else (buf, sz))"

definition iso8601_from_unix_time :: "int \<Rightarrow> nat \<Rightarrow> cstr option" where
  "iso8601_from_unix_time unix_time len =
    (if unix_time = UNKNOWN_TIME then Some (USP_STRNCPY UNKNOWN_TIME_STR len)
     else fst (iso8601_strftime len (gmtime unix_time)))"

section \<open>Parsing\<close>

text \<open>A number of strptime: at most \<open>w\<close> digits, leading zeros permitted, in a range.\<close>

definition conv_num :: "nat \<Rightarrow> nat \<Rightarrow> nat \<Rightarrow> cstr \<Rightarrow> (nat \<times> cstr) option" where
  "conv_num w lo hi s =
    (let ds = take w (takeWhile IS_NUMERIC s); v = digits_value 0 ds
     in if ds = [] \<or> v < lo \<or> hi < v then None else Some (v, drop (length ds) s))"

definition expect :: "char \<Rightarrow> cstr \<Rightarrow> cstr option" where
  "expect c s = (case s of [] \<Rightarrow> None | x # r \<Rightarrow> if x = c then Some r else None)"

text \<open>strptime with the format "%Y-%m-%dT%H:%M:%S"; what follows the seconds is not looked at.\<close>

definition strptime_YmdHMS :: "cstr \<Rightarrow> tm option" where
  "strptime_YmdHMS s0 =
    Option.bind (conv_num 4 0 9999 s0) (\<lambda>(y, s1).
    Option.bind (Option.bind (expect CHR ''-'' s1) (conv_num 2 1 12)) (\<lambda>(m, s2).
    Option.bind (Option.bind (expect CHR ''-'' s2) (conv_num 2 1 31)) (\<lambda>(d, s3).
    Option.bind (Option.bind (expect CHR ''T'' s3) (conv_num 2 0 23)) (\<lambda>(h, s4).
    Option.bind (Option.bind (expect CHR '':'' s4) (conv_num 2 0 59)) (\<lambda>(mi, s5).
    Option.bind (Option.bind (expect CHR '':'' s5) (conv_num 2 0 60)) (\<lambda>(s, _).
      Some \<lparr>tm_year = int y - 1900, tm_mon = m - 1, tm_mday = d, tm_hour = h, tm_min = mi, tm_sec = s, tm_gmtoff = 0\<rparr>))))))"

definition iso8601_to_unix_time :: "cstr \<Rightarrow> int" where
  "iso8601_to_unix_time date =
    (if date = UNKNOWN_TIME_STR then UNKNOWN_TIME
     else case strptime_YmdHMS date of
            None \<Rightarrow> INVALID_TIME
          | Some t \<Rightarrow> if tm_year t < 70 \<or> 137 < tm_year t then INVALID_TIME else timegm t)"

definition TEXT_UTILS_StringToDateTime :: "cstr \<Rightarrow> usp_err + int" where
  "TEXT_UTILS_StringToDateTime str =
    (let date = iso8601_to_unix_time str
     in if date = INVALID_TIME then Inl USP_ERR_INVALID_TYPE else Inr date)"

section \<open>Lemmas\<close>

lemma days_between_Suc: "y < y' \<Longrightarrow> days_between y y' = days_in_year y + days_between (Suc y) y'"
  by (simp add: days_between_def upt_conv_Cons)

lemma split_year_result:
  "split_year y d = (y', r) \<Longrightarrow> y \<le> y' \<and> r < days_in_year y' \<and> d = days_between y y' + r"
proof (induction y d rule: split_year.induct)
  case (1 y d)
  show ?case
  proof (cases "d < days_in_year y")
    case True
    with "1.prems" show ?thesis by (auto simp: split_year.simps [of y d] days_between_def)
  next
    case False
    with "1.prems" have "split_year (Suc y) (d - days_in_year y) = (y', r)" by (simp add: split_year.simps [of y d])
    with "1.IH" False have "Suc y \<le> y' \<and> r < days_in_year y' \<and> d - days_in_year y = days_between (Suc y) y' + r" by blast
    with False show ?thesis using days_between_Suc [of y y'] by auto
  qed
qed

lemma split_month_result:
  "split_month ns m d = (m', r) \<Longrightarrow> d < sum_list ns \<Longrightarrow>
    m \<le> m' \<and> m' - m < length ns \<and> r < ns ! (m' - m) \<and> d = sum_list (take (m' - m) ns) + r"
proof (induction ns m d rule: split_month.induct)
  case (2 n ns m d)
  show ?case
  proof (cases "d < n")
    case True
    with "2.prems" show ?thesis by auto
  next
    case False
    with 2 have "Suc m \<le> m' \<and> m' - Suc m < length ns \<and> r < ns ! (m' - Suc m) \<and>
        d - n = sum_list (take (m' - Suc m) ns) + r" by auto
    moreover from this have "m' - m = Suc (m' - Suc m)" by auto
    ultimately show ?thesis using False by auto
  qed
qed simp

lemma month_lengths_sum: "sum_list (month_lengths y) = days_in_year y" "length (month_lengths y) = 12"
  by (simp_all add: month_lengths_def days_in_year_def)

lemma month_lengths_le: "m < 12 \<Longrightarrow> month_lengths y ! m \<le> 31"
  by (auto simp: month_lengths_def less_Suc_eq numeral_eq_Suc)

lemma days_between_mono: "y' \<le> y'' \<Longrightarrow> days_between y y' \<le> days_between y y''"
proof (cases "y \<le> y'")
  case True
  assume "y' \<le> y''"
  with True have "[y..<y''] = [y..<y'] @ [y'..<y'']" by (metis upt_add_eq_append le_add_diff_inverse)
  then show ?thesis by (simp add: days_between_def)
qed (simp add: days_between_def)

lemma days_until_2038: "days_between 1970 2038 = 24837"
  by (simp add: days_between_def upt_rec_numeral days_in_year_def leap_year_def)

lemma show_nat_length: "n < 10 ^ w \<Longrightarrow> 0 < w \<Longrightarrow> length (show_nat n) \<le> w"
proof (induction n arbitrary: w rule: show_nat.induct)
  case (1 n)
  show ?case
  proof (cases "n < 10")
    case False
    obtain v where v: "w = Suc v" using "1.prems"(2) gr0_conv_Suc by blast
    moreover have "v \<noteq> 0" using False "1.prems"(1) v by (intro notI) simp
    ultimately have v: "w = Suc v" "0 < v" by simp_all
    have "n div 10 < 10 ^ v" using "1.prems"(1) v(1) by (simp add: less_mult_imp_div_less mult.commute)
    with "1.IH" False v show ?thesis by (auto simp: show_nat.simps [of n])
  qed (use "1.prems" in \<open>simp add: show_nat.simps [of n]\<close>)
qed

lemma digits_value_zeros: "digits_value 0 (replicate k CHR ''0'' @ s) = digits_value 0 s"
  by (induction k) (simp_all add: digit_value_def char_code_def)

lemma pad_facts:
  assumes "n < 10 ^ w" "0 < w"
  shows "length (pad w n) = w" "digits_value 0 (pad w n) = n" "\<forall>c\<in>set (pad w n). IS_NUMERIC c"
proof -
  show "length (pad w n) = w" using show_nat_length [OF assms] by (simp add: pad_def)
  show "digits_value 0 (pad w n) = n" by (simp add: pad_def digits_value_zeros digits_value_show_nat)
  show "\<forall>c\<in>set (pad w n). IS_NUMERIC c" by (auto simp: pad_def dest: show_nat_numeric) (simp add: IS_NUMERIC_def)
qed

lemma conv_num_pad:
  assumes "n < 10 ^ w" "0 < w" "lo \<le> n" "n \<le> hi" "rest = [] \<or> \<not> IS_NUMERIC (hd rest)"
  shows "conv_num w lo hi (pad w n @ rest) = Some (n, rest)"
proof -
  note p = pad_facts [OF assms(1,2)]
  have "takeWhile IS_NUMERIC (pad w n @ rest) = pad w n" using p(3) assms(5) by (cases rest) auto
  moreover have "pad w n \<noteq> []" using p(1) assms(2) by auto
  ultimately show ?thesis using p assms by (simp add: conv_num_def)
qed

lemma strptime_strftime:
  assumes "0 \<le> tm_year t + 1900" "tm_year t + 1900 \<le> 9999" "tm_mon t < 12" "0 < tm_mday t" "tm_mday t \<le> 31"
    "tm_hour t \<le> 23" "tm_min t \<le> 59" "tm_sec t \<le> 59" "tm_gmtoff t = 0"
  shows "strptime_YmdHMS (strftime_FT t @ ''Z'') = Some t"
proof -
  have n: "\<not> IS_NUMERIC CHR ''-''" "\<not> IS_NUMERIC CHR ''T''" "\<not> IS_NUMERIC CHR '':''" "\<not> IS_NUMERIC CHR ''Z''"
    by (simp_all add: IS_NUMERIC_def)
  have b: "nat (tm_year t + 1900) < 10 ^ 4" "Suc (tm_mon t) < 10 ^ 2" "tm_mday t < 10 ^ 2" "tm_hour t < 10 ^ 2"
    "tm_min t < 10 ^ 2" "tm_sec t < 10 ^ 2" using assms by simp_all
  have "int (nat (tm_year t + 1900)) - 1900 = tm_year t" using assms(1) by simp
  then show ?thesis using assms
    by (simp add: strptime_YmdHMS_def strftime_FT_def expect_def conv_num_pad [OF b(1)] conv_num_pad [OF b(2)]
        conv_num_pad [OF b(3)] conv_num_pad [OF b(4)] conv_num_pad [OF b(5)] conv_num_pad [OF b(6)] n)
qed

lemma clock_split: "3600 * (s div 3600) + 60 * (s div 60 mod 60) + s mod 60 = (s :: nat)"
proof -
  have "s div 3600 = s div 60 div 60" by (simp add: div_mult2_eq [symmetric])
  moreover have "60 * (s div 60 div 60) + s div 60 mod 60 = s div 60" by (rule mult_div_mod_eq)
  moreover have "60 * (s div 60) + s mod 60 = s" by (rule mult_div_mod_eq)
  ultimately show ?thesis by linarith
qed

lemma gmtime_timegm:
  assumes "0 \<le> t" "t < 2145916800"
  shows "timegm (gmtime t) = t" "70 \<le> tm_year (gmtime t)" "tm_year (gmtime t) \<le> 137" "tm_mon (gmtime t) < 12"
    "0 < tm_mday (gmtime t)" "tm_mday (gmtime t) \<le> 31" "tm_hour (gmtime t) \<le> 23" "tm_min (gmtime t) \<le> 59"
    "tm_sec (gmtime t) \<le> 59" "tm_gmtoff (gmtime t) = 0"
proof -
  define days where "days = nat (t div 86400)"
  define secs where "secs = nat (t mod 86400)"
  have d: "t div 86400 = int days" "days < 24837" using assms unfolding days_def by (auto simp: nat_less_iff)
  have s: "t mod 86400 = int secs" "secs < 86400" unfolding secs_def using assms by (auto simp: nat_less_iff)
  obtain y yday where y: "split_year 1970 days = (y, yday)" by fastforce
  obtain m md where m: "split_month (month_lengths y) 0 yday = (m, md)" by fastforce
  have g: "gmtime t = \<lparr>tm_year = int y - 1900, tm_mon = m, tm_mday = Suc md, tm_hour = secs div 3600,
      tm_min = secs div 60 mod 60, tm_sec = secs mod 60, tm_gmtoff = 0\<rparr>"
    using d by (simp add: gmtime_def secs_def [symmetric] d(1) y m)
  have ys: "1970 \<le> y" "yday < days_in_year y" "days = days_between 1970 y + yday"
    using split_year_result [OF y] by auto
  have ms: "m < 12" "md < month_lengths y ! m" "yday = sum_list (take m (month_lengths y)) + md"
    using split_month_result [OF m] ys(2) by (auto simp: month_lengths_sum)
  have "y \<le> 2037"
  proof (rule ccontr)
    assume "\<not> y \<le> 2037"
    then have "days_between 1970 2038 \<le> days_between 1970 y" by (intro days_between_mono) simp
    then show False using ys(3) d(2) by (simp add: days_until_2038)
  qed
  then show "70 \<le> tm_year (gmtime t)" "tm_year (gmtime t) \<le> 137" using ys(1) by (simp_all add: g)
  show "tm_mon (gmtime t) < 12" "0 < tm_mday (gmtime t)" "tm_gmtoff (gmtime t) = 0" using ms by (simp_all add: g)
  show "tm_mday (gmtime t) \<le> 31" using ms month_lengths_le [OF ms(1), of y] by (simp add: g)
  show "tm_hour (gmtime t) \<le> 23" "tm_min (gmtime t) \<le> 59" "tm_sec (gmtime t) \<le> 59" using s(2) by (simp_all add: g less_Suc_eq_le [symmetric] less_mult_imp_div_less)
  have "timegm (gmtime t) = int (86400 * days + (3600 * (secs div 3600) + 60 * (secs div 60 mod 60) + secs mod 60))"
    unfolding g timegm_def ys(3) ms(3) by (simp add: Let_def)
  also have "\<dots> = 86400 * int days + int secs" unfolding clock_split by simp
  also have "\<dots> = t" using d(1) s(1) by (metis mult_div_mod_eq)
  finally show "timegm (gmtime t) = t" .
qed

lemma unix_time_text:
  assumes "0 \<le> t \<and> t < 2145916800 \<or> t = UNKNOWN_TIME" "20 < len"
  shows "\<exists>buf. iso8601_from_unix_time t len = Some buf \<and> iso8601_to_unix_time buf = t"
proof (cases "t = UNKNOWN_TIME")
  case True
  then show ?thesis using assms(2)
    by (simp add: iso8601_from_unix_time_def iso8601_to_unix_time_def USP_STRNCPY_def UNKNOWN_TIME_STR_def)
next
  case False
  then have t: "0 \<le> t" "t < 2145916800" using assms(1) by auto
  note g = gmtime_timegm [OF t]
  let ?buf = "strftime_FT (gmtime t) @ ''Z''"
  have p: "strptime_YmdHMS ?buf = Some (gmtime t)" using g by (intro strptime_strftime) auto
  have b: "nat (tm_year (gmtime t) + 1900) < 10 ^ 4" "Suc (tm_mon (gmtime t)) < 10 ^ 2" "tm_mday (gmtime t) < 10 ^ 2"
    "tm_hour (gmtime t) < 10 ^ 2" "tm_min (gmtime t) < 10 ^ 2" "tm_sec (gmtime t) < 10 ^ 2" using g by simp_all
  have "length ?buf = 20" unfolding strftime_FT_def
    by (simp add: pad_facts(1) [OF b(1)] pad_facts(1) [OF b(2)] pad_facts(1) [OF b(3)] pad_facts(1) [OF b(4)]
        pad_facts(1) [OF b(5)] pad_facts(1) [OF b(6)])
  then have f: "iso8601_from_unix_time t len = Some ?buf"
    using False assms(2) g by (simp add: iso8601_from_unix_time_def iso8601_strftime_def strftime_def)
  have "strptime_YmdHMS UNKNOWN_TIME_STR = Some \<lparr>tm_year = -1899, tm_mon = 0, tm_mday = 1, tm_hour = 0, tm_min = 0,
      tm_sec = 0, tm_gmtoff = 0\<rparr>" by code_simp
  then have "tm_year (gmtime t) = -1899" if "?buf = UNKNOWN_TIME_STR" using p that by (metis option.inject tm.select_convs(1))
  then have "?buf \<noteq> UNKNOWN_TIME_STR" using g(2) by auto
  then have "iso8601_to_unix_time ?buf = t" using p g by (simp add: iso8601_to_unix_time_def)
  with f show ?thesis by blast
qed

lemma datetime_text:
  assumes "0 \<le> t \<and> t < 2145916800 \<or> t = UNKNOWN_TIME" "20 < len"
  shows "\<exists>buf. iso8601_from_unix_time t len = Some buf \<and> TEXT_UTILS_StringToDateTime buf = Inr t"
proof -
  have "t \<noteq> INVALID_TIME" using assms(1) by (auto simp: INVALID_TIME_def UNKNOWN_TIME_def)
  then show ?thesis using unix_time_text [OF assms] by (auto simp: TEXT_UTILS_StringToDateTime_def)
qed

section \<open>Properties\<close>

text \<open>
  Every time of the years 1970 to 2037, and the unknown time, is read back from its text when
  the text fits the buffer.
\<close>

theorem iso8601_roundtrip:
  assumes "0 \<le> t \<and> t < 2145916800 \<or> t = UNKNOWN_TIME" "20 < len"
  obtains buf where "iso8601_from_unix_time t len = Some buf" "iso8601_to_unix_time buf = t"
  using unix_time_text [OF assms] by blast

theorem iso8601_roundtrip_witness:
  "\<exists>buf. iso8601_from_unix_time 68169600 32 = Some buf \<and> buf = ''1972-02-29T00:00:00Z'' \<and>
    iso8601_to_unix_time buf = 68169600"
proof -
  have "gmtime 68169600 = \<lparr>tm_year = 72, tm_mon = 1, tm_mday = 29, tm_hour = 0, tm_min = 0, tm_sec = 0, tm_gmtoff = 0\<rparr>"
    by (simp add: gmtime_def split_year.simps days_in_year_def leap_year_def month_lengths_def)
  then have f: "iso8601_from_unix_time 68169600 32 = Some ''1972-02-29T00:00:00Z''"
    by (simp add: iso8601_from_unix_time_def UNKNOWN_TIME_def iso8601_strftime_def strftime_def strftime_FT_def pad_def
        show_nat.simps digit_char_def char_of_def bit_0)
  show ?thesis by (rule iso8601_roundtrip [of 68169600 32]) (use f in auto)
qed

end
