(* ===== verification/Subs_Retry.thy ===== *)
theory Subs_Retry
  imports Sync_Timer Iso8601
begin

text \<open>
  Retrying notifications: the wait between retries (\<open>core/retry_wait.c\<close>), the controllers the
  notifications go to as far as the retries read them (\<open>core/device_controller.c\<close>), and the vector of
  notifications that wait for their response with the timer that resends them
  (\<open>core/subs_retry.c\<close>). time() gives the same second throughout one call. The C library's floating
  point and its random numbers are parameters, and so is what uninitialised variables hold.
\<close>

section \<open>State\<close>

datatype dm_timer_cb = SubsRetryExec_cb | DEVICE_SUBSCRIPTION_Update_cb | PeriodicNotificationExec_cb | bulkdata_process_profile_cb

record controller =
  cont_instance :: int
  cont_enable :: bool
  endpoint_id :: cstr
  subs_retry_min_wait_interval :: "32 word"
  subs_retry_interval_multiplier :: "32 word"

record subs_retry =
  sr_instance :: int
  sr_msg_id :: cstr
  sr_subscription_id :: cstr
  sr_dest_endpoint :: cstr
  sr_differentiator :: "cstr option"
  sr_pbuf :: "char list"
  retry_expiry_time :: int
  sr_retry_count :: int
  min_wait_interval :: "32 word"
  interval_multiplier :: "32 word"
  next_retry_time :: int

text \<open>A record handed to MSG_HANDLER_QueueUspRecord, with the controller whose session it may use.\<close>

record queued_record =
  q_msg_packed :: "char list"
  q_session :: "nat option"
  q_dest :: cstr
  q_msg_id :: cstr
  q_expiry :: int

record retry_state = "dm_timer_cb sync_timers" +
  retry_vector :: "subs_retry list"
  first_retry_time :: int
  controllers :: "controller list"
  dm_thread_random_seed :: "32 word"
  queued_records :: "queued_record list"

text \<open>
  \<open>pow_scaled m k n\<close> is \<open>(unsigned) (m * pow(k/1000, n))\<close>; \<open>rand_r\<close> gives a number and the new seed.
\<close>

record retry_env =
  now :: int
  pow_scaled :: "32 word \<Rightarrow> 32 word \<Rightarrow> nat \<Rightarrow> 32 word"
  rand_r :: "32 word \<Rightarrow> int \<times> 32 word"
  uninit :: "32 word \<times> 32 word"

section \<open>Waiting\<close>

definition RETRY_WAIT_Calculate ::
    "retry_env \<Rightarrow> 32 word \<Rightarrow> 32 word \<Rightarrow> 32 word \<Rightarrow> 32 word \<Rightarrow> 32 word \<times> 32 word" where
  "RETRY_WAIT_Calculate env seed retry_count m k =
    (let retry_count = (if retry_count > 10 then 10 else retry_count);
         retry_count = (if retry_count \<le> 0 then 1 else retry_count);
         min_seconds = pow_scaled env m k (unat (retry_count - 1));
         max_seconds = pow_scaled env m k (unat retry_count);
         max_seconds = (if max_seconds < min_seconds then min_seconds else max_seconds);
         range = max_seconds - min_seconds;
         (random_value, seed') = rand_r env seed
     in (if range > 0 then min_seconds + word_of_int random_value mod range else min_seconds, seed'))"

definition RETRY_WAIT_UseRandomBaseIfUnknownTime :: "retry_env \<Rightarrow> 32 word \<Rightarrow> int \<Rightarrow> int \<times> 32 word" where
  "RETRY_WAIT_UseRandomBaseIfUnknownTime env seed base =
    (if base \<noteq> UNKNOWN_TIME then (base, seed)
     else let (random_value, seed') = rand_r env seed in (random_value mod 86400, seed'))"

section \<open>Controllers\<close>

definition FindControllerByEndpointId :: "'c controller_scheme list \<Rightarrow> cstr \<Rightarrow> int" where
  "FindControllerByEndpointId cs ep = first_index (\<lambda>c. cont_instance c \<noteq> INVALID \<and> endpoint_id c = ep) cs"

definition FindEnabledControllerByEndpointId :: "'c controller_scheme list \<Rightarrow> cstr \<Rightarrow> int" where
  "FindEnabledControllerByEndpointId cs ep =
    first_index (\<lambda>c. cont_instance c \<noteq> INVALID \<and> cont_enable c \<and> endpoint_id c = ep) cs"

definition DEVICE_CONTROLLER_GetSubsRetryParams :: "'c controller_scheme list \<Rightarrow> cstr \<Rightarrow> usp_err + (32 word \<times> 32 word)" where
  "DEVICE_CONTROLLER_GetSubsRetryParams cs ep =
    (let cont = FindEnabledControllerByEndpointId cs ep in
     if cont = INVALID then Inl USP_ERR_INTERNAL_ERROR
     else Inr (subs_retry_min_wait_interval (cs ! nat cont), subs_retry_interval_multiplier (cs ! nat cont)))"

definition DEVICE_CONTROLLER_FindE2ESessionByEndpointId :: "'c controller_scheme list \<Rightarrow> cstr \<Rightarrow> nat option" where
  "DEVICE_CONTROLLER_FindE2ESessionByEndpointId cs ep =
    (let cont = FindControllerByEndpointId cs ep in
     if cont = INVALID \<or> \<not> cont_enable (cs ! nat cont) then None else Some (nat cont))"

section \<open>Retries\<close>

text \<open>DestroySubsRetryEntry: memset to zero, then the instance marks the entry as unused.\<close>

definition DestroySubsRetryEntry :: "subs_retry \<Rightarrow> subs_retry" where
  "DestroySubsRetryEntry sr = \<lparr>sr_instance = INVALID, sr_msg_id = [], sr_subscription_id = [], sr_dest_endpoint = [],
     sr_differentiator = None, sr_pbuf = [], retry_expiry_time = 0, sr_retry_count = 0, min_wait_interval = 0,
     interval_multiplier = 0, next_retry_time = 0\<rparr>"

fun gc_loop :: "subs_retry list \<Rightarrow> subs_retry list" where
  "gc_loop [] = []"
| "gc_loop (sr # srs) = (if sr_instance sr \<noteq> INVALID then sr # gc_loop srs else gc_loop srs)"

definition GarbageCollectSubsRetry :: "'m retry_state_scheme \<Rightarrow> 'm retry_state_scheme" where
  "GarbageCollectSubsRetry s = s\<lparr>retry_vector := gc_loop (retry_vector s)\<rparr>"

fun first_retry :: "int \<Rightarrow> subs_retry list \<Rightarrow> int" where
  "first_retry first [] = first"
| "first_retry first (sr # srs) = first_retry (if next_retry_time sr < first then next_retry_time sr else first) srs"

definition UpdateFirstRetryTime :: "'m retry_state_scheme \<Rightarrow> 'm retry_state_scheme" where
  "UpdateFirstRetryTime s =
    (let first = first_retry END_OF_TIME (retry_vector s)
     in fst (SYNC_TIMER_Reload SubsRetryExec_cb 0 first (s\<lparr>first_retry_time := first\<rparr>)))"

text \<open>
  time_t and unsigned have 32 bits, so C adds them as unsigned numbers and the result is read as a
  signed one.
\<close>

definition CalcNextSubsRetryTime :: "retry_env \<Rightarrow> 32 word \<Rightarrow> subs_retry \<Rightarrow> int \<times> 32 word" where
  "CalcNextSubsRetryTime env seed sr =
    (let (wait_time, seed') = RETRY_WAIT_Calculate env seed (word_of_int (sr_retry_count sr))
           (min_wait_interval sr) (interval_multiplier sr)
     in (sint (word_of_int (now env) + wait_time), seed'))"

text \<open>The index of the entry; outer \<open>None\<close>: strcmp reads a NULL differentiator.\<close>

fun find_retry :: "int \<Rightarrow> cstr option \<Rightarrow> int \<Rightarrow> subs_retry list \<Rightarrow> int option" where
  "find_retry inst d i [] = Some INVALID"
| "find_retry inst d i (sr # srs) =
    (if sr_instance sr = inst
     then case sr_differentiator sr of
            None \<Rightarrow> Some i
          | Some e \<Rightarrow> (case d of None \<Rightarrow> None
                       | Some d' \<Rightarrow> if e = d' then Some i else find_retry inst d (i + 1) srs)
     else find_retry inst d (i + 1) srs)"

definition FindRetryEntry :: "'m retry_state_scheme \<Rightarrow> int \<Rightarrow> cstr option \<Rightarrow> int option" where
  "FindRetryEntry s inst d = find_retry inst d 0 (retry_vector s)"

definition SUBS_RETRY_Init :: "'m retry_state_scheme \<Rightarrow> 'm retry_state_scheme" where
  "SUBS_RETRY_Init s =
    fst (SYNC_TIMER_Add (Some SubsRetryExec_cb) 0 END_OF_TIME (s\<lparr>retry_vector := []\<rparr>))"

definition SUBS_RETRY_Add :: "retry_env \<Rightarrow> int \<Rightarrow> cstr \<Rightarrow> cstr \<Rightarrow> cstr \<Rightarrow> cstr option \<Rightarrow> char list \<Rightarrow> int
    \<Rightarrow> 'm retry_state_scheme \<Rightarrow> 'm retry_state_scheme option" where
  "SUBS_RETRY_Add env inst msg_id subscription_id dest_endpoint differentiator pbuf expiry s =
    (let params = DEVICE_CONTROLLER_GetSubsRetryParams (controllers s) dest_endpoint in
     case FindRetryEntry s inst differentiator of
       None \<Rightarrow> None
     | Some index \<Rightarrow>
         if params = Inl USP_ERR_INTERNAL_ERROR \<and> index \<noteq> INVALID
         then Some (GarbageCollectSubsRetry (s\<lparr>retry_vector :=
                (retry_vector s)[nat index := DestroySubsRetryEntry (retry_vector s ! nat index)]\<rparr>))
         else
           (let (min_wait, multiplier) = (case params of Inl _ \<Rightarrow> uninit env | Inr p \<Rightarrow> p);
                sr = \<lparr>sr_instance = inst, sr_msg_id = msg_id, sr_subscription_id = subscription_id,
                      sr_dest_endpoint = dest_endpoint, sr_differentiator = differentiator, sr_pbuf = pbuf,
                      retry_expiry_time = expiry, sr_retry_count = 1, min_wait_interval = min_wait,
                      interval_multiplier = multiplier, next_retry_time = 0\<rparr>;
                (retry_time, seed) = CalcNextSubsRetryTime env (dm_thread_random_seed s) sr;
                sr' = sr\<lparr>next_retry_time := retry_time\<rparr>
            in Some (UpdateFirstRetryTime (s\<lparr>dm_thread_random_seed := seed, retry_vector :=
                 (if index = INVALID then retry_vector s @ [sr'] else (retry_vector s)[nat index := sr'])\<rparr>))))"

definition SUBS_RETRY_Remove :: "cstr \<Rightarrow> 'm retry_state_scheme \<Rightarrow> 'm retry_state_scheme" where
  "SUBS_RETRY_Remove msg_id s =
    (let index = first_index (\<lambda>sr. sr_msg_id sr = msg_id) (retry_vector s) in
     if index = INVALID then s
     else UpdateFirstRetryTime (GarbageCollectSubsRetry (s\<lparr>retry_vector :=
            (retry_vector s)[nat index := DestroySubsRetryEntry (retry_vector s ! nat index)]\<rparr>)))"

definition SUBS_RETRY_Delete :: "int \<Rightarrow> 'm retry_state_scheme \<Rightarrow> 'm retry_state_scheme" where
  "SUBS_RETRY_Delete inst s =
    UpdateFirstRetryTime (GarbageCollectSubsRetry (s\<lparr>retry_vector :=
      map (\<lambda>sr. if sr_instance sr = inst then DestroySubsRetryEntry sr else sr) (retry_vector s)\<rparr>))"

text \<open>What the timer does with one entry: the entry afterwards, the seed and the record sent.\<close>

definition queue_retry :: "'m retry_state_scheme \<Rightarrow> subs_retry \<Rightarrow> queued_record" where
  "queue_retry s sr = \<lparr>q_msg_packed = sr_pbuf sr,
     q_session = DEVICE_CONTROLLER_FindE2ESessionByEndpointId (controllers s) (sr_dest_endpoint sr),
     q_dest = sr_dest_endpoint sr, q_msg_id = sr_msg_id sr, q_expiry = retry_expiry_time sr\<rparr>"

definition retry_step :: "retry_env \<Rightarrow> subs_retry \<Rightarrow> 'm retry_state_scheme \<Rightarrow> subs_retry \<times> 'm retry_state_scheme" where
  "retry_step env sr s =
    (if now env \<ge> retry_expiry_time sr then (DestroySubsRetryEntry sr, s)
     else if now env \<ge> next_retry_time sr
     then let s1 = s\<lparr>queued_records := queued_records s @ [queue_retry s sr]\<rparr>;
              sr1 = sr\<lparr>sr_retry_count := sr_retry_count sr + 1\<rparr>;
              (retry_time, seed) = CalcNextSubsRetryTime env (dm_thread_random_seed s1) sr1;
              sr2 = sr1\<lparr>next_retry_time := retry_time\<rparr>
       in (if next_retry_time sr2 \<ge> retry_expiry_time sr2 then DestroySubsRetryEntry sr2 else sr2,
           s1\<lparr>dm_thread_random_seed := seed\<rparr>)
     else (sr, s))"

fun retry_loop :: "retry_env \<Rightarrow> subs_retry list \<Rightarrow> 'm retry_state_scheme \<Rightarrow> subs_retry list \<times> 'm retry_state_scheme" where
  "retry_loop env [] s = ([], s)"
| "retry_loop env (sr # srs) s =
    (let (sr', s1) = retry_step env sr s; (srs', s2) = retry_loop env srs s1 in (sr' # srs', s2))"

text \<open>\<open>None\<close>: the assertion that the timer has not fired early.\<close>

definition SubsRetryExec :: "retry_env \<Rightarrow> 'm retry_state_scheme \<Rightarrow> 'm retry_state_scheme option" where
  "SubsRetryExec env s =
    (if now env < first_retry_time s then None
     else let (srs, s1) = retry_loop env (retry_vector s) s
       in Some (UpdateFirstRetryTime (GarbageCollectSubsRetry (s1\<lparr>retry_vector := srs\<rparr>))))"

section \<open>The invariant\<close>

abbreviation retry_timer :: "dm_timer_cb \<times> int" where "retry_timer \<equiv> (SubsRetryExec_cb, 0)"

text \<open>Before a handler rearms the timer: the timers are sound and every entry is in use.\<close>

definition retry_pre :: "'m retry_state_scheme \<Rightarrow> bool" where
  "retry_pre s \<longleftrightarrow> keys_ok s \<and> timer_exists s retry_timer \<and> (\<forall>sr\<in>set (retry_vector s). sr_instance sr \<noteq> INVALID)"

text \<open>Between handlers: the timer is armed for a time that is behind no retry.\<close>

definition retry_ok :: "'m retry_state_scheme \<Rightarrow> bool" where
  "retry_ok s \<longleftrightarrow> retry_pre s \<and> timers_ok s \<and> timer_deadline s retry_timer = Some (first_retry_time s) \<and>
    (\<forall>sr\<in>set (retry_vector s). first_retry_time s \<le> next_retry_time sr)"

lemma first_retry_le: "first_retry first srs \<le> first"
  by (induction first srs rule: first_retry.induct) (auto simp: split: if_splits)

lemma first_retry_le_next: "sr \<in> set srs \<Longrightarrow> first_retry first srs \<le> next_retry_time sr"
proof (induction first srs rule: first_retry.induct)
  case (2 first u srs)
  have "first_retry (if next_retry_time u < first then next_retry_time u else first) srs \<le> next_retry_time u"
    by (rule order_trans [OF first_retry_le]) simp
  with 2 show ?case by auto
qed simp

lemma first_retry_attained: "first_retry first srs = first \<or> (\<exists>sr\<in>set srs. first_retry first srs = next_retry_time sr)"
  by (induction first srs rule: first_retry.induct) (auto split: if_splits)

lemma gc_loop_filter: "gc_loop srs = filter (\<lambda>sr. sr_instance sr \<noteq> INVALID) srs"
  by (induction srs) auto

lemma destroyed_invalid [simp]: "sr_instance (DestroySubsRetryEntry sr) = INVALID"
  by (simp add: DestroySubsRetryEntry_def)

lemma UpdateFirstRetryTime_fields [simp]:
  "retry_vector (UpdateFirstRetryTime s) = retry_vector s"
  "queued_records (UpdateFirstRetryTime s) = queued_records s"
  "controllers (UpdateFirstRetryTime s) = controllers s"
  "first_retry_time (UpdateFirstRetryTime s) = first_retry END_OF_TIME (retry_vector s)"
  by (simp_all add: UpdateFirstRetryTime_def SYNC_TIMER_Reload_def UpdateFirstSyncTimerTime_def Let_def)

lemma GarbageCollect_fields [simp]:
  "retry_vector (GarbageCollectSubsRetry s) = filter (\<lambda>sr. sr_instance sr \<noteq> INVALID) (retry_vector s)"
  "queued_records (GarbageCollectSubsRetry s) = queued_records s"
  "timers (GarbageCollectSubsRetry s) = timers s"
  "first_retry_time (GarbageCollectSubsRetry s) = first_retry_time s"
  "first_sync_timer_time (GarbageCollectSubsRetry s) = first_sync_timer_time s"
  by (simp_all add: GarbageCollectSubsRetry_def gc_loop_filter)

text \<open>Two states with the same timers agree in everything the timers define.\<close>

lemma timers_cong:
  assumes "timers s' = timers s" "first_sync_timer_time s' = first_sync_timer_time s"
  shows "timers_ok s' = timers_ok s" "keys_ok s' = keys_ok s" "timer_exists s' k = timer_exists s k" "timer_deadline s' k = timer_deadline s k"
  using assms by (simp_all add: timers_ok_def keys_ok_def timer_exists_def timer_deadline_def)

text \<open>Rearming the timer establishes the invariant: this rests on the contract of the timers.\<close>

lemma UpdateFirstRetryTime_ok: "retry_pre s \<Longrightarrow> retry_ok (UpdateFirstRetryTime s)"
proof -
  assume pre: "retry_pre s"
  let ?f = "first_retry END_OF_TIME (retry_vector s)"
  let ?s = "s\<lparr>first_retry_time := ?f\<rparr>"
  have ok: "keys_ok ?s" "timer_exists ?s retry_timer"
    using pre timers_cong [of ?s s] by (simp_all add: retry_pre_def)
  have arm: "UpdateFirstRetryTime s = arm_timer retry_timer ?f ?s"
    by (simp add: UpdateFirstRetryTime_def arm_timer_def Let_def)
  have "timers_ok (UpdateFirstRetryTime s)" "timer_exists (UpdateFirstRetryTime s) retry_timer"
    "timer_deadline (UpdateFirstRetryTime s) retry_timer = Some ?f"
    unfolding arm using timer.arm_good [OF ok] timer.arm_known [OF ok] timer.arm_deadline [OF ok] ok by simp_all
  moreover from this(1) have "keys_ok (UpdateFirstRetryTime s)" by (rule timer.good_usable)
  ultimately show ?thesis using pre first_retry_le_next by (auto simp: retry_ok_def retry_pre_def)
qed

section \<open>What the timer does with the entries\<close>

text \<open>The entries that are sent again, and what becomes of an entry: \<open>None\<close> when it is dropped.\<close>

definition to_send :: "retry_env \<Rightarrow> subs_retry \<Rightarrow> bool" where
  "to_send env sr \<longleftrightarrow> now env < retry_expiry_time sr \<and> next_retry_time sr \<le> now env"

definition rescheduled :: "retry_env \<Rightarrow> subs_retry \<Rightarrow> subs_retry \<Rightarrow> bool" where
  "rescheduled env sr sr' \<longleftrightarrow> (\<exists>wait. sr' = sr\<lparr>sr_retry_count := sr_retry_count sr + 1,
     next_retry_time := sint (word_of_int (now env) + wait :: 32 word)\<rparr>)"

lemma retry_step_cases:
  assumes "retry_step env sr s = (sr', s')"
  shows "sr_instance sr' = INVALID \<or> (now env < retry_expiry_time sr \<and> now env < next_retry_time sr \<and> sr' = sr) \<or>
      (to_send env sr \<and> rescheduled env sr sr' \<and> next_retry_time sr' < retry_expiry_time sr')"
    and "now env < retry_expiry_time sr \<Longrightarrow> now env < next_retry_time sr \<Longrightarrow> sr' = sr"
    and "queued_records s' = queued_records s @ (if to_send env sr then [queue_retry s sr] else [])"
    and "controllers s' = controllers s" "timers s' = timers s" "retry_vector s' = retry_vector s"
  using assms
  by (auto simp: retry_step_def to_send_def rescheduled_def CalcNextSubsRetryTime_def Let_def
      split: if_splits prod.splits)

lemma queue_retry_cong: "controllers s' = controllers s \<Longrightarrow> queue_retry s' sr = queue_retry s sr"
  by (simp add: queue_retry_def)

lemma retry_loop_spec:
  "retry_loop env srs s = (srs', s') \<Longrightarrow>
    controllers s' = controllers s \<and> timers s' = timers s \<and>
    queued_records s' = queued_records s @ map (queue_retry s) (filter (to_send env) srs) \<and>
    (\<forall>sr\<in>set srs. now env < retry_expiry_time sr \<and> now env < next_retry_time sr \<longrightarrow> sr \<in> set srs') \<and>
    (\<forall>sr'\<in>set srs'. sr_instance sr' = INVALID \<or> (sr' \<in> set srs \<and> now env < retry_expiry_time sr' \<and> now env < next_retry_time sr') \<or>
      (\<exists>sr\<in>set srs. to_send env sr \<and> rescheduled env sr sr' \<and> next_retry_time sr' < retry_expiry_time sr'))"
proof (induction srs arbitrary: s srs' s')
  case Nil
  then show ?case by simp
next
  case (Cons sr srs)
  obtain sr1 s1 where step: "retry_step env sr s = (sr1, s1)" by (metis prod.exhaust)
  obtain srs2 s2 where rest: "retry_loop env srs s1 = (srs2, s2)" by (metis prod.exhaust)
  from Cons.prems step rest have res: "srs' = sr1 # srs2" "s' = s2" by simp_all
  note st = retry_step_cases [OF step] and IH = Cons.IH [OF rest]
  have q: "queue_retry s1 = queue_retry s" using queue_retry_cong [OF st(4)] by blast
  have "queued_records s' = queued_records s @ map (queue_retry s) (filter (to_send env) (sr # srs))"
    using IH st(3) unfolding res q by auto
  moreover have "controllers s' = controllers s \<and> timers s' = timers s" using IH st(4,5) res by simp
  moreover have "\<forall>u\<in>set (sr # srs). now env < retry_expiry_time u \<and> now env < next_retry_time u \<longrightarrow> u \<in> set srs'"
    using IH st(2) res by auto
  moreover have "\<forall>sr'\<in>set srs'. sr_instance sr' = INVALID \<or>
      (sr' \<in> set (sr # srs) \<and> now env < retry_expiry_time sr' \<and> now env < next_retry_time sr') \<or>
      (\<exists>u\<in>set (sr # srs). to_send env u \<and> rescheduled env u sr' \<and> next_retry_time sr' < retry_expiry_time sr')"
    using IH st(1) unfolding res by auto
  ultimately show ?case by blast
qed

lemma keys_disable: "keys_ok (disable_timer t s) = keys_ok s" "timer_exists (disable_timer t s) k = timer_exists s k"
  using disable_timer_keys [of t s] timer_exists_keys by (simp_all add: keys_ok_def)

lemma disable_timer_fields [simp]:
  "retry_vector (disable_timer t s) = retry_vector s" "controllers (disable_timer t s) = controllers s"
  "queued_records (disable_timer t s) = queued_records s" "first_retry_time (disable_timer t s) = first_retry_time s"
  "queue_retry (disable_timer t s) = queue_retry s"
  by (simp_all add: disable_timer_def queue_retry_def fun_eq_iff)

lemma SubsRetryExec_spec:
  assumes pre: "retry_pre s" and due: "first_retry_time s \<le> now env"
  shows "\<exists>s'. SubsRetryExec env s = Some s' \<and> retry_ok s' \<and>
    queued_records s' = queued_records s @ map (queue_retry s) (filter (to_send env) (retry_vector s)) \<and>
    (\<forall>sr\<in>set (retry_vector s). now env < retry_expiry_time sr \<and> now env < next_retry_time sr \<longrightarrow> sr \<in> set (retry_vector s')) \<and>
    (\<forall>sr'\<in>set (retry_vector s').
      (sr' \<in> set (retry_vector s) \<and> now env < retry_expiry_time sr' \<and> now env < next_retry_time sr') \<or>
      (\<exists>sr\<in>set (retry_vector s). to_send env sr \<and> rescheduled env sr sr' \<and> next_retry_time sr' < retry_expiry_time sr'))"
proof -
  obtain srs s1 where loop: "retry_loop env (retry_vector s) s = (srs, s1)" by (metis prod.exhaust)
  let ?g = "GarbageCollectSubsRetry (s1\<lparr>retry_vector := srs\<rparr>)"
  let ?u = "UpdateFirstRetryTime ?g"
  have exec: "SubsRetryExec env s = Some ?u"
    using due loop by (simp add: SubsRetryExec_def)
  note spec = retry_loop_spec [OF loop]
  have t1: "timers s1 = timers s" using spec by blast
  have "retry_pre ?g"
    using pre t1 by (auto simp: retry_pre_def keys_ok_def timer_exists_def)
  then have ok: "retry_ok ?u" by (rule UpdateFirstRetryTime_ok)
  have vec: "retry_vector ?u = filter (\<lambda>sr. sr_instance sr \<noteq> INVALID) srs" by simp
  have valid: "sr_instance sr \<noteq> INVALID" if "sr \<in> set (retry_vector s)" for sr
    using that pre by (simp add: retry_pre_def)
  have "queued_records ?u = queued_records s @ map (queue_retry s) (filter (to_send env) (retry_vector s))"
    using spec by simp
  moreover have "\<forall>sr\<in>set (retry_vector s). now env < retry_expiry_time sr \<and> now env < next_retry_time sr \<longrightarrow> sr \<in> set (retry_vector ?u)"
    unfolding vec using spec valid by auto
  moreover have "\<forall>sr'\<in>set (retry_vector ?u).
      (sr' \<in> set (retry_vector s) \<and> now env < retry_expiry_time sr' \<and> now env < next_retry_time sr') \<or>
      (\<exists>sr\<in>set (retry_vector s). to_send env sr \<and> rescheduled env sr sr' \<and> next_retry_time sr' < retry_expiry_time sr')"
    unfolding vec using spec by fastforce
  ultimately show ?thesis using exec ok by blast
qed

section \<open>Adding and removing\<close>

lemma find_retry_first_index:
  assumes "\<forall>sr\<in>set srs. sr_differentiator sr \<noteq> None"
  shows "find_retry inst (Some d) i srs = Some (index_from (\<lambda>sr. sr_instance sr = inst \<and> sr_differentiator sr = Some d) i srs)"
  using assms by (induction inst "Some d" i srs rule: find_retry.induct) (auto simp: index_from.simps)

lemma vector_replaced_ok:
  assumes "retry_pre s" "\<forall>sr\<in>set v. sr_instance sr \<noteq> INVALID"
  shows "retry_ok (UpdateFirstRetryTime (s\<lparr>dm_thread_random_seed := x, retry_vector := v\<rparr>))"
  by (rule UpdateFirstRetryTime_ok) (use assms in \<open>simp add: retry_pre_def keys_ok_def timer_exists_def\<close>)

lemma filter_destroyed:
  "\<forall>sr\<in>set v. sr_instance sr \<noteq> INVALID \<Longrightarrow>
    filter (\<lambda>sr. sr_instance sr \<noteq> INVALID) (map (\<lambda>sr. if P sr then DestroySubsRetryEntry sr else sr) v) = filter (\<lambda>sr. \<not> P sr) v"
  by (induction v) auto

text \<open>Destroying the first match of a key that no other entry has.\<close>

lemma destroy_first:
  assumes "\<forall>sr\<in>set v. sr_instance sr \<noteq> INVALID" "distinct (map f v)"
    and i: "first_index (\<lambda>sr. f sr = k) v = i" "i \<noteq> INVALID"
  shows "filter (\<lambda>sr. sr_instance sr \<noteq> INVALID) (v[nat i := DestroySubsRetryEntry (v ! nat i)]) = filter (\<lambda>sr. f sr \<noteq> k) v"
proof -
  note found = first_index_found [OF i]
  have "v[nat i := DestroySubsRetryEntry (v ! nat i)] = map (\<lambda>sr. if f sr = k then DestroySubsRetryEntry sr else sr) v"
  proof (rule nth_equalityI)
    fix j assume j: "j < length (v[nat i := DestroySubsRetryEntry (v ! nat i)])"
    then have "f (v ! j) = k \<longleftrightarrow> j = nat i"
      using found(1,2) nth_eq_iff_index_eq [OF assms(2), of j "nat i"] by auto
    with j show "v[nat i := DestroySubsRetryEntry (v ! nat i)] ! j = map (\<lambda>sr. if f sr = k then DestroySubsRetryEntry sr else sr) v ! j"
      by (auto simp: nth_list_update)
  qed simp
  with filter_destroyed [OF assms(1)] show ?thesis by simp
qed

section \<open>Properties\<close>

text \<open>
  The wait before a retry lies in the interval of TR-369: from m * (k/1000)^(n-1) on and, unless
  it is that bound, before m * (k/1000)^n, where the number n of the retry is taken as at least 1 and
  at most 10; no random number makes it wrap.
\<close>

theorem RETRY_WAIT_Calculate_bounds:
  "(let n = max 1 (min 10 (unat retry_count)) in
    case RETRY_WAIT_Calculate env seed retry_count m k of (wait_time, seed') \<Rightarrow>
      pow_scaled env m k (n - 1) \<le> wait_time \<and>
      (wait_time = pow_scaled env m k (n - 1) \<or> wait_time < pow_scaled env m k n))"
proof -
  define n where "n = max 1 (min 10 (unat retry_count))"
  let ?c = "if (if retry_count > 10 then 10 else retry_count) \<le> 0 then 1 else (if retry_count > 10 then 10 else retry_count)"
  let ?lo = "pow_scaled env m k (n - 1)" and ?hi = "pow_scaled env m k n"
  obtain rv seed' where r: "rand_r env seed = (rv, seed')" by (metis prod.exhaust)
  have n: "unat ?c = n"
    by (auto simp: n_def word_less_nat_alt word_le_nat_alt unat_eq_0 max_def min_def Suc_le_eq unat_gt_0)
  then have n1: "unat (?c - 1) = n - 1"
    by (subst unat_minus_one) (auto simp: n_def)
  show ?thesis
  proof (cases "?hi \<le> ?lo")
    case True
    then show ?thesis
      unfolding RETRY_WAIT_Calculate_def Let_def n_def [symmetric] n n1 r by auto
  next
    case False
    then have lo: "?lo < ?hi" by simp
    have range: "?hi - ?lo > 0" using lo by (simp add: word_less_nat_alt unat_sub_if')
    have "word_of_int rv mod (?hi - ?lo) < ?hi - ?lo" using range by (rule word_mod_less_divisor)
    then have "unat (word_of_int rv mod (?hi - ?lo)) < unat ?hi - unat ?lo" "unat ?hi < 2 ^ 32"
      using lo unsigned_less [of ?hi, where 'a = nat] by (simp_all add: word_less_nat_alt unat_sub_if')
    then have sum: "unat (?lo + word_of_int rv mod (?hi - ?lo)) = unat ?lo + unat (word_of_int rv mod (?hi - ?lo) :: 32 word)"
      by (subst unat_add_lem [THEN iffD1]) auto
    then have "?lo \<le> ?lo + word_of_int rv mod (?hi - ?lo)" "?lo + word_of_int rv mod (?hi - ?lo) < ?hi"
      using \<open>unat (word_of_int rv mod (?hi - ?lo)) < unat ?hi - unat ?lo\<close>
      by (simp_all add: word_less_nat_alt word_le_nat_alt)
    then show ?thesis
      unfolding RETRY_WAIT_Calculate_def Let_def n_def [symmetric] n n1 r using lo range by auto
  qed
qed



text \<open>
  The response to a notification removes its retry and no other, and the timer stays armed for
  the rest.
\<close>

theorem SUBS_RETRY_Remove_acknowledged:
  assumes "retry_ok s" "distinct (map sr_msg_id (retry_vector s))"
  shows "retry_ok (SUBS_RETRY_Remove msg_id s) \<and>
    retry_vector (SUBS_RETRY_Remove msg_id s) = filter (\<lambda>sr. sr_msg_id sr \<noteq> msg_id) (retry_vector s)"
proof (cases "first_index (\<lambda>sr. sr_msg_id sr = msg_id) (retry_vector s) = INVALID")
  case True
  then show ?thesis
    using assms(1) by (simp add: SUBS_RETRY_Remove_def first_index_invalid)
next
  case False
  have pre: "retry_pre s" using assms(1) by (simp add: retry_ok_def)
  define i where "i = nat (first_index (\<lambda>sr. sr_msg_id sr = msg_id) (retry_vector s))"
  let ?g = "GarbageCollectSubsRetry (s\<lparr>retry_vector := (retry_vector s)[i := DestroySubsRetryEntry (retry_vector s ! i)]\<rparr>)"
  have rem: "SUBS_RETRY_Remove msg_id s = UpdateFirstRetryTime ?g"
    using False by (simp add: SUBS_RETRY_Remove_def i_def Let_def)
  have valid: "\<forall>sr\<in>set (retry_vector s). sr_instance sr \<noteq> INVALID" using pre by (simp add: retry_pre_def)
  have "retry_vector ?g = filter (\<lambda>sr. sr_msg_id sr \<noteq> msg_id) (retry_vector s)"
    using destroy_first [OF valid assms(2) refl False] by (simp add: i_def)
  moreover from this have "retry_pre ?g"
    using pre valid by (auto simp: retry_pre_def keys_ok_def timer_exists_def)
  ultimately show ?thesis unfolding rem using UpdateFirstRetryTime_ok by simp
qed

lemma set_update_nth: "i < length v \<Longrightarrow> \<forall>x\<in>set v. P x \<Longrightarrow> P y \<Longrightarrow> \<forall>x\<in>set (v[i := y]). P x"
  using set_update_subset_insert [of v i y] by auto

text \<open>
  A notification put on retry replaces the retry of the same subscription and path, or joins the
  others: afterwards there is an entry for the new message, counted as sent once and with the wait of
  its controller, and the entries of other keys are as before.
\<close>

theorem SUBS_RETRY_Add_replaces:
  assumes ok: "retry_ok s" and diffs: "\<forall>sr\<in>set (retry_vector s). sr_differentiator sr \<noteq> None"
    and params: "DEVICE_CONTROLLER_GetSubsRetryParams (controllers s) dest = Inr (m, k)" and inst: "inst \<noteq> INVALID"
  shows "\<exists>s' wait. SUBS_RETRY_Add env inst msg_id subs_id dest (Some d) pbuf expiry s = Some s' \<and> retry_ok s' \<and>
    \<lparr>sr_instance = inst, sr_msg_id = msg_id, sr_subscription_id = subs_id, sr_dest_endpoint = dest,
     sr_differentiator = Some d, sr_pbuf = pbuf, retry_expiry_time = expiry, sr_retry_count = 1,
     min_wait_interval = m, interval_multiplier = k,
     next_retry_time = sint (word_of_int (now env) + wait :: 32 word)\<rparr> \<in> set (retry_vector s') \<and>
    filter (\<lambda>sr. (sr_instance sr, sr_differentiator sr) \<noteq> (inst, Some d)) (retry_vector s') =
      filter (\<lambda>sr. (sr_instance sr, sr_differentiator sr) \<noteq> (inst, Some d)) (retry_vector s)"
proof -
  let ?key = "\<lambda>sr. sr_instance sr = inst \<and> sr_differentiator sr = Some d"
  let ?v = "retry_vector s" and ?i = "first_index ?key (retry_vector s)"
  let ?sr = "\<lparr>sr_instance = inst, sr_msg_id = msg_id, sr_subscription_id = subs_id, sr_dest_endpoint = dest,
     sr_differentiator = Some d, sr_pbuf = pbuf, retry_expiry_time = expiry, sr_retry_count = 1,
     min_wait_interval = m, interval_multiplier = k, next_retry_time = 0\<rparr>"
  obtain wait seed where "RETRY_WAIT_Calculate env (dm_thread_random_seed s) 1 m k = (wait, seed)"
    by (metis prod.exhaust)
  then have calc: "CalcNextSubsRetryTime env (dm_thread_random_seed s) ?sr =
      (sint (word_of_int (now env) + wait :: 32 word), seed)"
    by (simp add: CalcNextSubsRetryTime_def)
  define sr where "sr = ?sr\<lparr>next_retry_time := sint (word_of_int (now env) + wait :: 32 word)\<rparr>"
  define v where "v = (if ?i = INVALID then ?v @ [sr] else ?v[nat ?i := sr])"
  have add: "SUBS_RETRY_Add env inst msg_id subs_id dest (Some d) pbuf expiry s =
      Some (UpdateFirstRetryTime (s\<lparr>dm_thread_random_seed := seed, retry_vector := v\<rparr>))"
    unfolding SUBS_RETRY_Add_def FindRetryEntry_def find_retry_first_index [OF diffs] params v_def sr_def
    using calc by simp
  have srk: "sr_instance sr = inst" "sr_differentiator sr = Some d" by (simp_all add: sr_def)
  have pre: "retry_pre s" using ok by (simp add: retry_ok_def)
  have valid: "\<forall>sr\<in>set ?v. sr_instance sr \<noteq> INVALID" using pre by (simp add: retry_pre_def)
  have "(\<forall>u\<in>set v. sr_instance u \<noteq> INVALID) \<and> sr \<in> set v \<and>
      filter (\<lambda>u. (sr_instance u, sr_differentiator u) \<noteq> (inst, Some d)) v =
      filter (\<lambda>u. (sr_instance u, sr_differentiator u) \<noteq> (inst, Some d)) ?v"
  proof (cases "?i = INVALID")
    case True
    then show ?thesis using valid inst srk by (simp add: v_def)
  next
    case False
    note found = first_index_found [OF refl False]
    have "\<forall>u\<in>set (?v[nat ?i := sr]). sr_instance u \<noteq> INVALID"
      using set_update_nth [OF found(1) valid, of sr] inst srk by simp
    moreover have "filter (\<lambda>u. (sr_instance u, sr_differentiator u) \<noteq> (inst, Some d)) (?v[nat ?i := sr]) =
        filter (\<lambda>u. (sr_instance u, sr_differentiator u) \<noteq> (inst, Some d)) ?v"
      unfolding upd_conv_take_nth_drop [OF found(1)]
      by (subst (4) id_take_nth_drop [OF found(1)]) (use found(2) srk in simp)
    ultimately show ?thesis using False found(1) by (simp add: v_def set_update_memI)
  qed
  moreover from this have "retry_ok (UpdateFirstRetryTime (s\<lparr>dm_thread_random_seed := seed, retry_vector := v\<rparr>))"
    by (intro vector_replaced_ok [OF pre]) blast
  ultimately show ?thesis unfolding add sr_def by (intro exI [of _ wait] exI) auto
qed

text \<open>
  A wait that takes the time past the end of the 32-bit time_t wraps to a time in the past: the
  retry is due at once and would be sent at every pass of the timers until it expires.
\<close>

theorem CalcNextSubsRetryTime_wraps:
  assumes "RETRY_WAIT_Calculate env seed (word_of_int (sr_retry_count sr)) (min_wait_interval sr) (interval_multiplier sr) = (wait_time, seed')"
    and "0 \<le> now env" "now env \<le> END_OF_TIME" "END_OF_TIME < now env + uint wait_time"
  shows "fst (CalcNextSubsRetryTime env seed sr) = now env + uint wait_time - 2 ^ 32 \<and>
    fst (CalcNextSubsRetryTime env seed sr) < now env"
proof -
  have w: "uint wait_time < 2 ^ 32" using unsigned_less [of wait_time, where 'a = int] by simp
  have "word_of_int (now env) + wait_time = (word_of_int (now env + uint wait_time) :: 32 word)" by simp
  then have "sint (word_of_int (now env) + wait_time :: 32 word) = signed_take_bit 31 (now env + uint wait_time)"
    by (simp only: sint_sbintrunc') simp
  also have "\<dots> = (now env + uint wait_time + 2 ^ 31) mod 2 ^ 32 - 2 ^ 31"
    by (simp add: signed_take_bit_eq_take_bit_shift take_bit_eq_mod)
  also have "\<dots> = now env + uint wait_time - 2 ^ 32"
  proof -
    have "(now env + uint wait_time + 2 ^ 31) mod 2 ^ 32 = (now env + uint wait_time + 2 ^ 31 - 2 ^ 32) mod 2 ^ 32"
      by (rule minus_mod_self2 [symmetric])
    also have "\<dots> = now env + uint wait_time + 2 ^ 31 - 2 ^ 32"
      by (rule mod_pos_pos_trivial) (use w assms(2-4) in \<open>auto simp: END_OF_TIME_def\<close>)
    finally have "(now env + uint wait_time + 2 ^ 31) mod 2 ^ 32 = now env + uint wait_time + 2 ^ 31 - 2 ^ 32" .
    then show ?thesis by simp
  qed
  finally show ?thesis using w assms(1) by (simp add: CalcNextSubsRetryTime_def)
qed

definition retry_demo_env :: "int \<Rightarrow> retry_env" where
  "retry_demo_env t = \<lparr>now = t, pow_scaled = (\<lambda>m k n. push_bit n m), rand_r = (\<lambda>seed. (7, seed + 1)), uninit = (0, 0)\<rparr>"

definition retry_demo_entry :: "subs_retry" where
  "retry_demo_entry = \<lparr>sr_instance = 3, sr_msg_id = ''m1'', sr_subscription_id = ''sub'', sr_dest_endpoint = ''acs'',
     sr_differentiator = Some ''Device.'', sr_pbuf = ''p'', retry_expiry_time = 1000, sr_retry_count = 1,
     min_wait_interval = 5, interval_multiplier = 2000, next_retry_time = 100\<rparr>"

definition retry_demo :: "retry_state" where
  "retry_demo = \<lparr>timers = [\<lparr>enabled = True, next_timeout = 100, timer_cb = SubsRetryExec_cb, timer_id = 0\<rparr>],
     first_sync_timer_time = 100, retry_vector = [retry_demo_entry], first_retry_time = 100,
     controllers = [\<lparr>cont_instance = 1, cont_enable = True, endpoint_id = ''acs'',
       subs_retry_min_wait_interval = 5, subs_retry_interval_multiplier = 2000\<rparr>],
     dm_thread_random_seed = 0, queued_records = []\<rparr>"

lemma retry_demo_ok: "retry_ok retry_demo"
proof -
  have "first_timeout END_OF_TIME (timers retry_demo) = 100" by (simp add: retry_demo_def END_OF_TIME_def)
  then have "timers_ok retry_demo"
    unfolding timers_ok_def first_timeout_Min [symmetric] by (simp add: retry_demo_def)
  then show ?thesis
    by (simp add: retry_ok_def retry_pre_def keys_ok_def timer_exists_def timer_deadline_def retry_demo_def retry_demo_entry_def)
qed



theorem SUBS_RETRY_Remove_acknowledged_witness:
  "retry_vector (SUBS_RETRY_Remove ''m1'' retry_demo) = [] \<and> retry_ok (SUBS_RETRY_Remove ''m1'' retry_demo)"
proof -
  have "distinct (map sr_msg_id (retry_vector retry_demo))" by (simp add: retry_demo_def)
  from SUBS_RETRY_Remove_acknowledged [OF retry_demo_ok this, of "''m1''"] show ?thesis
    by (simp add: retry_demo_def retry_demo_entry_def)
qed

theorem SUBS_RETRY_Add_replaces_witness:
  "\<exists>s'. SUBS_RETRY_Add (retry_demo_env 150) 3 ''m2'' ''sub'' ''acs'' (Some ''Device.'') ''q'' 900 retry_demo = Some s' \<and>
    retry_ok s' \<and> filter (\<lambda>sr. (sr_instance sr, sr_differentiator sr) \<noteq> (3, Some ''Device.'')) (retry_vector s') = []"
proof -
  have d: "\<forall>sr\<in>set (retry_vector retry_demo). sr_differentiator sr \<noteq> None"
    by (simp add: retry_demo_def retry_demo_entry_def)
  have p: "DEVICE_CONTROLLER_GetSubsRetryParams (controllers retry_demo) ''acs'' = Inr (5, 2000)"
    by (simp add: retry_demo_def DEVICE_CONTROLLER_GetSubsRetryParams_def FindEnabledControllerByEndpointId_def
        first_index_Cons Let_def)
  have none: "filter (\<lambda>sr. (sr_instance sr, sr_differentiator sr) \<noteq> (3, Some ''Device.'')) (retry_vector retry_demo) = []"
    by (simp add: retry_demo_def retry_demo_entry_def)
  from SUBS_RETRY_Add_replaces [OF retry_demo_ok d p, of 3 "retry_demo_env 150" "''m2''" "''sub''" "''Device.''" "''q''" 900] none
  show ?thesis by auto
qed

theorem CalcNextSubsRetryTime_wraps_witness:
  "fst (CalcNextSubsRetryTime (retry_demo_env 1700000000) 0 (retry_demo_entry\<lparr>min_wait_interval := 2000000000, sr_retry_count := 0\<rparr>)) < 1700000000"
proof -
  have "RETRY_WAIT_Calculate (retry_demo_env 1700000000) 0 0 2000000000 2000 = (2000000007, 1)"
    by (simp add: RETRY_WAIT_Calculate_def retry_demo_env_def)
  from CalcNextSubsRetryTime_wraps [of "retry_demo_env 1700000000" 0 "retry_demo_entry\<lparr>min_wait_interval := 2000000000, sr_retry_count := 0\<rparr>"
      2000000007 1] this
  show ?thesis by (simp add: retry_demo_entry_def retry_demo_env_def END_OF_TIME_def)
qed

end
