(* ===== verification/Text_Hex.thy ===== *)
theory Text_Hex
  imports Text_Convert
begin

text \<open>
  Hexadecimal and percent coding of \<open>core/text_utils.c\<close>: digits, hexBinary values (used by
  \<open>KV_VECTOR_AddHexNumber\<close> and \<open>KV_VECTOR_GetHexNumber\<close>), and the percent encoding of topic and
  queue names into bounded buffers.
\<close>

section \<open>Hexadecimal digits\<close>

definition USE_UPPERCASE_HEX_DIGITS :: "32 word" where "USE_UPPERCASE_HEX_DIGITS = 0"
definition USE_LOWERCASE_HEX_DIGITS :: "32 word" where "USE_LOWERCASE_HEX_DIGITS = 1"

definition TEXT_UTILS_HexDigitToValue :: "char \<Rightarrow> int" where
  "TEXT_UTILS_HexDigitToValue c =
    (if IS_NUMERIC c then int (char_code c) - 48
     else if CHR ''A'' \<le> c \<and> c \<le> CHR ''F'' then int (char_code c) - 65 + 10
     else if CHR ''a'' \<le> c \<and> c \<le> CHR ''f'' then int (char_code c) - 97 + 10
     else INVALID)"

definition TEXT_UTILS_ValueToHexDigit :: "int \<Rightarrow> 32 word \<Rightarrow> char" where
  "TEXT_UTILS_ValueToHexDigit nibble flags =
    (if 0 \<le> nibble \<and> nibble \<le> 9 then char_of (nat (nibble + 48))
     else if 10 \<le> nibble \<and> nibble \<le> 15 then
       (if flags AND USE_LOWERCASE_HEX_DIGITS \<noteq> 0 then char_of (nat (nibble - 10 + 97))
        else char_of (nat (nibble - 10 + 65)))
     else CHR ''X'')"

fun hex_string_loop :: "cstr \<Rightarrow> int \<Rightarrow> int" where
  "hex_string_loop [] value = value"
| "hex_string_loop (c # s) value =
    (let nibble = TEXT_UTILS_HexDigitToValue c in
     if nibble = INVALID then INVALID else hex_string_loop s (push_bit 4 value + nibble))"

definition TEXT_UTILS_HexStringToValue :: "cstr \<Rightarrow> int" where
  "TEXT_UTILS_HexStringToValue s =
    (if length s = 0 \<or> 7 < length s then INVALID else hex_string_loop s 0)"

lemma HexDigitToValue_range:
  "TEXT_UTILS_HexDigitToValue c = INVALID \<or>
    (0 \<le> TEXT_UTILS_HexDigitToValue c \<and> TEXT_UTILS_HexDigitToValue c < 16)"
  by (auto simp: TEXT_UTILS_HexDigitToValue_def IS_NUMERIC_code char_le_code)
     (auto simp: char_code_def)

lemma char_code_char_of: "n < 256 \<Longrightarrow> char_code (char_of n) = n"
  by (simp add: char_code_def)

lemma char_code_letters:
  "char_code CHR ''A'' = 65" "char_code CHR ''F'' = 70"
  "char_code CHR ''a'' = 97" "char_code CHR ''f'' = 102" "char_code CHR ''%'' = 37"
  by (simp_all add: char_code_def)

lemma HexDigitToValue_ValueToHexDigit:
  assumes "0 \<le> n" "n < 16"
  shows "TEXT_UTILS_HexDigitToValue (TEXT_UTILS_ValueToHexDigit n flags) = n"
proof -
  from assms obtain m where m: "n = int m" "m < 16"
    by (metis nonneg_int_cases of_nat_less_numeral_iff)
  have "char_code (TEXT_UTILS_ValueToHexDigit n flags) =
      (if m \<le> 9 then m + 48 else if flags AND USE_LOWERCASE_HEX_DIGITS \<noteq> 0 then m + 87 else m + 55)"
    using m(2) by (simp add: m(1) TEXT_UTILS_ValueToHexDigit_def char_code_char_of nat_int_add nat_add_distrib)
  then show ?thesis using m
    by (auto simp: TEXT_UTILS_HexDigitToValue_def IS_NUMERIC_code char_le_code char_code_letters)
qed

text \<open>A successful conversion is the digits' value in base 16, below 2 to the 28: never INVALID.\<close>

lemma hex_string_loop_bound:
  "0 \<le> v \<Longrightarrow> hex_string_loop s v = INVALID \<or>
    (0 \<le> hex_string_loop s v \<and> hex_string_loop s v < (v + 1) * 16 ^ length s)"
proof (induction s v rule: hex_string_loop.induct)
  case (2 c s v)
  let ?n = "TEXT_UTILS_HexDigitToValue c" and ?v = "push_bit 4 v + TEXT_UTILS_HexDigitToValue c"
  show ?case
  proof (cases "?n = INVALID")
    case False
    with HexDigitToValue_range [of c] have n: "0 \<le> ?n" "?n < 16" by auto
    have v: "0 \<le> ?v" "?v + 1 \<le> (v + 1) * 16"
      using n "2.prems" by (simp_all add: push_bit_eq_mult)
    have "(?v + 1) * 16 ^ length s \<le> (v + 1) * 16 ^ length (c # s)"
      using mult_right_mono [OF v(2), of "16 ^ length s"] by (simp add: mult.assoc)
    then have "hex_string_loop s ?v = INVALID \<or>
        (0 \<le> hex_string_loop s ?v \<and> hex_string_loop s ?v < (v + 1) * 16 ^ length (c # s))"
      using "2.IH" [OF refl False v(1)] by (meson order.strict_trans2)
    then show ?thesis using False by (simp add: Let_def)
  qed simp
qed simp

section \<open>hexBinary values\<close>

type_synonym byte = "8 word"

fun hex_bytes_loop :: "cstr \<Rightarrow> usp_err + byte list" where
  "hex_bytes_loop (h # l # s) =
    (let hi_nibble = TEXT_UTILS_HexDigitToValue h in
     if hi_nibble = INVALID then Inl USP_ERR_INVALID_TYPE
     else let lo_nibble = TEXT_UTILS_HexDigitToValue l in
     if lo_nibble = INVALID then Inl USP_ERR_INVALID_TYPE
     else usp_bind (hex_bytes_loop s) (\<lambda>bs. Inr (word_of_int (push_bit 4 hi_nibble + lo_nibble) # bs)))"
| "hex_bytes_loop _ = Inr []"

text \<open>The bytes written, for a buffer of \<open>len\<close> bytes.\<close>

definition TEXT_UTILS_StringToBinary :: "cstr \<Rightarrow> nat \<Rightarrow> usp_err + byte list" where
  "TEXT_UTILS_StringToBinary str len =
    (if length str mod 2 \<noteq> 0 then Inl USP_ERR_INVALID_TYPE
     else if len < length str div 2 then Inl USP_ERR_INVALID_TYPE
     else hex_bytes_loop str)"

text \<open>The text \<open>KV_VECTOR_AddHexNumber\<close> forms for a buffer.\<close>

fun bytes_to_hex :: "byte list \<Rightarrow> cstr" where
  "bytes_to_hex [] = []"
| "bytes_to_hex (b # bs) =
    TEXT_UTILS_ValueToHexDigit (uint (drop_bit 4 (b AND 0xF0))) USE_UPPERCASE_HEX_DIGITS #
    TEXT_UTILS_ValueToHexDigit (uint (b AND 0x0F)) USE_UPPERCASE_HEX_DIGITS # bytes_to_hex bs"

lemma length_bytes_to_hex [simp]: "length (bytes_to_hex bs) = 2 * length bs"
  by (induction bs) auto

lemma byte_nibbles:
  fixes b :: byte
  shows "uint (drop_bit 4 (b AND 0xF0)) = uint b div 16" "uint (b AND 0x0F) = uint b mod 16"
proof -
  have "uint (b AND 0x0F) = uint b AND uint (0x0F :: byte)" by (rule unsigned_and_eq)
  also have "\<dots> = take_bit 4 (uint b)" by (simp add: take_bit_eq_mask mask_eq_exp_minus_1)
  finally show "uint (b AND 0x0F) = uint b mod 16" by (simp add: take_bit_eq_mod)
  have "drop_bit 4 (b AND 0xF0) = drop_bit 4 b"
    by (rule bit_word_eqI) (auto simp: bit_simps less_Suc_eq numeral_eq_Suc dest: bit_imp_le_length)
  then have "uint (drop_bit 4 (b AND 0xF0)) = drop_bit 4 (take_bit LENGTH(8) (uint b))"
    by (simp only: unsigned_drop_bit_eq)
  also have "take_bit LENGTH(8) (uint b) = uint b"
    by (metis take_bit_length_eq unsigned_take_bit_eq)
  finally show "uint (drop_bit 4 (b AND 0xF0)) = uint b div 16"
    by (simp add: drop_bit_eq_div)
qed

lemma bytes_to_hex_Cons:
  "bytes_to_hex (b # bs) =
    TEXT_UTILS_ValueToHexDigit (uint b div 16) USE_UPPERCASE_HEX_DIGITS #
    TEXT_UTILS_ValueToHexDigit (uint b mod 16) USE_UPPERCASE_HEX_DIGITS # bytes_to_hex bs"
  by (simp only: bytes_to_hex.simps byte_nibbles)

lemma hex_bytes_loop_bytes_to_hex: "hex_bytes_loop (bytes_to_hex bs) = Inr bs"
proof (induction bs)
  case (Cons b bs)
  have "uint b < 256" using uint_bounded [of b] by simp
  then have "0 \<le> uint b div 16" "uint b div 16 < 16" "0 \<le> uint b mod 16" "uint b mod 16 < 16"
    by (simp_all add: pos_imp_zdiv_nonneg_iff)
  moreover have "(word_of_int (push_bit 4 (uint b div 16) + uint b mod 16) :: byte) = b"
    by (simp only: push_bit_eq_mult) simp
  ultimately show ?case using Cons
    by (simp add: bytes_to_hex_Cons HexDigitToValue_ValueToHexDigit Let_def
        del: bytes_to_hex.simps)
qed simp

lemma hex_bytes_loop_length: "hex_bytes_loop s = Inr bs \<Longrightarrow> length bs = length s div 2"
  by (induction s arbitrary: bs rule: hex_bytes_loop.induct)
     (auto simp: usp_split Let_def split: if_splits)

lemma StringToBinary_length:
  "TEXT_UTILS_StringToBinary s len = Inr bs \<Longrightarrow> length bs \<le> len \<and> length s = 2 * length bs"
  by (auto simp: TEXT_UTILS_StringToBinary_def split: if_splits dest!: hex_bytes_loop_length)

section \<open>Percent encoding\<close>

definition BITS :: "nat \<Rightarrow> nat \<Rightarrow> nat \<Rightarrow> nat" where
  "BITS n m x = drop_bit m x AND mask (n - m + 1)"

definition needs_percent :: "cstr \<Rightarrow> char \<Rightarrow> bool" where
  "needs_percent safe_chars c \<longleftrightarrow> \<not> IS_ALPHA_NUMERIC c \<and> c \<notin> set safe_chars"

fun percent_encode_loop :: "cstr \<Rightarrow> nat \<Rightarrow> cstr \<Rightarrow> 32 word \<Rightarrow> cstr" where
  "percent_encode_loop [] dst_len safe_chars flags = []"
| "percent_encode_loop (c # src) dst_len safe_chars flags =
    (let is_percent_encode = needs_percent safe_chars c;
         num_required = (if is_percent_encode then 3 else 1)
     in if dst_len < num_required then []
        else (if is_percent_encode
              then [CHR ''%'', TEXT_UTILS_ValueToHexDigit (int (BITS 7 4 (char_code c))) flags,
                    TEXT_UTILS_ValueToHexDigit (int (BITS 3 0 (char_code c))) flags]
              else [c]) @ percent_encode_loop src (dst_len - num_required) safe_chars flags)"

text \<open>The string left in the buffer; \<open>None\<close> is the failed assertion on an empty buffer.\<close>

definition TEXT_UTILS_PercentEncodeString ::
    "cstr \<Rightarrow> nat \<Rightarrow> cstr \<Rightarrow> 32 word \<Rightarrow> cstr option" where
  "TEXT_UTILS_PercentEncodeString src dst_len safe_chars flags =
    (if 0 < dst_len then Some (percent_encode_loop src (dst_len - 1) safe_chars flags) else None)"

text \<open>
  The decoder works inside one buffer; its write position never passes its read position. The
  loop gives the bytes written, which the C string ends at the first NUL.
\<close>

fun percent_decode_loop :: "cstr \<Rightarrow> char list" where
  "percent_decode_loop [] = []"
| "percent_decode_loop (c # src) =
    (if c = CHR ''%'' then
       (case src of
          d1 # d2 # rest \<Rightarrow>
            (let digit1 = TEXT_UTILS_HexDigitToValue d1; digit2 = TEXT_UTILS_HexDigitToValue d2
             in if digit1 = INVALID \<or> digit2 = INVALID then CHR ''%'' # percent_decode_loop src
                else char_of (nat (16 * digit1 + digit2)) # percent_decode_loop rest)
        | _ \<Rightarrow> CHR ''%'' # percent_decode_loop src)
     else c # percent_decode_loop src)"

definition TEXT_UTILS_PercentDecodeString :: "cstr \<Rightarrow> cstr" where
  "TEXT_UTILS_PercentDecodeString buf = c_string (percent_decode_loop buf)"

lemma BITS_char_code:
  "BITS 7 4 (char_code c) = char_code c div 16" "BITS 3 0 (char_code c) = char_code c mod 16"
proof -
  have "char_code c div 16 < 16" by (rule less_mult_imp_div_less) simp
  then show "BITS 7 4 (char_code c) = char_code c div 16"
    by (simp add: BITS_def take_bit_eq_mask [symmetric] take_bit_eq_mod drop_bit_eq_div)
  show "BITS 3 0 (char_code c) = char_code c mod 16"
    by (simp add: BITS_def take_bit_eq_mask [symmetric] take_bit_eq_mod)
qed

lemma percent_decode_encoded_char:
  "percent_decode_loop (CHR ''%'' # TEXT_UTILS_ValueToHexDigit (int (BITS 7 4 (char_code c))) flags #
     TEXT_UTILS_ValueToHexDigit (int (BITS 3 0 (char_code c))) flags # rest) =
   c # percent_decode_loop rest"
proof -
  let ?hi = "int (char_code c div 16)" and ?lo = "int (char_code c mod 16)"
  have "char_code c div 16 < 16" by (rule less_mult_imp_div_less) simp
  then have b: "?hi < 16" "?lo < 16" by (simp_all del: of_nat_div)
  have "nat (16 * ?hi + ?lo) = char_code c"
    by (metis mult_div_mod_eq nat_int of_nat_add of_nat_mult of_nat_numeral)
  then have "char_of (nat (16 * ?hi + ?lo)) = c"
    by (simp add: char_code_def)
  moreover have "TEXT_UTILS_HexDigitToValue (TEXT_UTILS_ValueToHexDigit ?hi flags) = ?hi"
    "TEXT_UTILS_HexDigitToValue (TEXT_UTILS_ValueToHexDigit ?lo flags) = ?lo"
    using b by (simp_all only: HexDigitToValue_ValueToHexDigit of_nat_0_le_iff)
  ultimately show ?thesis unfolding BITS_char_code
    by (simp add: Let_def del: of_nat_mod of_nat_div of_nat_mult zdiv_int zmod_int)
qed

lemma percent_encode_loop_length: "length (percent_encode_loop s n safe flags) \<le> n"
proof (induction s n safe flags rule: percent_encode_loop.induct)
  case (2 c src n safe flags)
  from "2.IH" [OF refl refl] show ?case by (auto simp: Let_def)
qed simp

lemma percent_not_alnum: "\<not> IS_ALPHA_NUMERIC CHR ''%''"
  by (simp add: IS_ALPHA_NUMERIC_def IS_ALPHA_def IS_NUMERIC_def less_eq_char_def)

lemma percent_decode_encode_loop:
  assumes "CHR ''%'' \<notin> set safe"
  shows "\<exists>k. percent_decode_loop (percent_encode_loop s n safe flags) = take k s \<and>
    (3 * length s \<le> n \<longrightarrow> length s \<le> k)"
  using assms
proof (induction s n safe flags rule: percent_encode_loop.induct)
  case (2 c src n safe flags)
  let ?req = "if needs_percent safe c then 3 else 1 :: nat"
  show ?case
  proof (cases "n < ?req")
    case True
    have "percent_decode_loop (percent_encode_loop (c # src) n safe flags) = take 0 (c # src)"
      using True by (simp add: Let_def)
    moreover have "\<not> 3 * length (c # src) \<le> n" using True by (auto split: if_splits)
    ultimately show ?thesis by blast
  next
    case False
    then obtain k where k: "percent_decode_loop (percent_encode_loop src (n - ?req) safe flags) = take k src"
      "3 * length src \<le> n - ?req \<longrightarrow> length src \<le> k"
      using "2.IH" [OF refl refl] "2.prems" by blast
    have "percent_decode_loop (percent_encode_loop (c # src) n safe flags) =
        c # percent_decode_loop (percent_encode_loop src (n - ?req) safe flags)"
    proof (cases "needs_percent safe c")
      case True
      with False show ?thesis by (simp add: Let_def percent_decode_encoded_char del: percent_decode_loop.simps)
    next
      case ne: False
      then have "c \<noteq> CHR ''%''"
        using "2.prems" percent_not_alnum by (auto simp: needs_percent_def)
      with False ne show ?thesis by (simp add: Let_def)
    qed
    also have "\<dots> = take (Suc k) (c # src)" using k(1) by simp
    finally show ?thesis using k(2) by (intro exI [of _ "Suc k"]) (auto split: if_splits)
  qed
qed auto

section \<open>Properties\<close>

lemma c_string_take: "nul_free s \<Longrightarrow> c_string (take k s) = take k s"
  by (rule c_string_id) (auto simp: nul_free_def dest: in_set_takeD)

text \<open>
  C35: percent encoding into a buffer of \<open>dst_len\<close> bytes fits the buffer with its terminator,
  decoding the result gives back a prefix of the source (no escape is ever cut in half), and the
  whole source when the buffer has three bytes per character.
\<close>

theorem percent_roundtrip:
  assumes "0 < dst_len" "CHR ''%'' \<notin> set safe_chars" "nul_free src"
  obtains e k where "TEXT_UTILS_PercentEncodeString src dst_len safe_chars flags = Some e"
    "length e < dst_len" "TEXT_UTILS_PercentDecodeString e = take k src"
    "3 * length src < dst_len \<Longrightarrow> TEXT_UTILS_PercentDecodeString e = src"
proof -
  let ?e = "percent_encode_loop src (dst_len - 1) safe_chars flags"
  obtain k where "percent_decode_loop ?e = take k src" "3 * length src \<le> dst_len - 1 \<longrightarrow> length src \<le> k"
    using percent_decode_encode_loop [OF assms(2)] by blast
  moreover have "length ?e \<le> dst_len - 1" by (rule percent_encode_loop_length)
  ultimately show thesis using assms(1,3)
    by (intro that [of ?e k])
       (auto simp: TEXT_UTILS_PercentEncodeString_def TEXT_UTILS_PercentDecodeString_def c_string_take c_string_id)
qed

theorem percent_roundtrip_witness:
  "\<exists>e. TEXT_UTILS_PercentEncodeString ''a/b c'' 20 ''/'' USE_UPPERCASE_HEX_DIGITS = Some e \<and>
    length e < 20 \<and> TEXT_UTILS_PercentDecodeString e = ''a/b c''"
  by (rule percent_roundtrip [of 20 "''/''" "''a/b c''" USE_UPPERCASE_HEX_DIGITS]) (auto simp: nul_free_def)

end
