(* ===== verification/Text_Utils.thy ===== *)
theory Text_Utils
  imports Text_Hex "HOL-Library.Sublist"
begin

text \<open>
  String handling of \<open>core/text_utils.c\<close>: trimming, splitting and joining of lists, data model
  paths and their schema form, and the lines of a factory reset file. Every function is modelled
  by the string its buffer ends up holding; where the code bounds its writes, so does the model.
\<close>

section \<open>Trimming\<close>

definition is_blank :: "char \<Rightarrow> bool" where
  "is_blank c \<longleftrightarrow> c = CHR '' '' \<or> c = CHR 0x09"

text \<open>The scan of the buffer: the positions of the first and the last non-blank character.\<close>

fun trim_scan :: "cstr \<Rightarrow> nat \<Rightarrow> nat option \<Rightarrow> nat \<Rightarrow> nat option \<times> nat" where
  "trim_scan [] pos first lst = (first, lst)"
| "trim_scan (c # buf) pos first lst =
    (if \<not> is_blank c
     then trim_scan buf (Suc pos) (case first of None \<Rightarrow> Some pos | Some f \<Rightarrow> Some f) pos
     else trim_scan buf (Suc pos) first lst)"

definition TEXT_UTILS_TrimBuffer :: "cstr \<Rightarrow> cstr" where
  "TEXT_UTILS_TrimBuffer buf =
    (case trim_scan buf 0 None 0 of
       (None, lst) \<Rightarrow> []
     | (Some first, lst) \<Rightarrow> drop first (take (Suc lst) buf))"

text \<open>The two delimiters are the two characters of the argument \<open>delimiters\<close>.\<close>

definition TEXT_UTILS_TrimDelimitedBuffer :: "cstr \<Rightarrow> char \<Rightarrow> char \<Rightarrow> cstr" where
  "TEXT_UTILS_TrimDelimitedBuffer buf d0 d1 =
    (let p = TEXT_UTILS_TrimBuffer buf
     in if p \<noteq> [] \<and> hd p = d0 \<and> last p = d1 then tl (butlast p) else p)"

text \<open>Reference: drop the blanks at both ends.\<close>

definition trim :: "cstr \<Rightarrow> cstr" where
  "trim s = rev (dropWhile is_blank (rev (dropWhile is_blank s)))"

definition trimmed :: "cstr \<Rightarrow> bool" where
  "trimmed s \<longleftrightarrow> s \<noteq> [] \<and> \<not> is_blank (hd s) \<and> \<not> is_blank (last s)"

lemma trim_scan_blank: "\<forall>c\<in>set s. is_blank c \<Longrightarrow> trim_scan s pos first lst = (first, lst)"
  by (induction s pos first lst rule: trim_scan.induct) auto

lemma trim_scan_append:
  "trim_scan (s @ t) pos first lst =
    (case trim_scan s pos first lst of (f, l) \<Rightarrow> trim_scan t (pos + length s) f l)"
  by (induction s pos first lst rule: trim_scan.induct) auto

lemma trim_scan_Some: "\<not> is_blank c \<Longrightarrow>
    trim_scan (s @ [c]) pos (Some f) lst = (Some f, pos + length s)"
  by (induction s pos "Some f" lst rule: trim_scan.induct) auto

lemma trim_decomp:
  obtains pre suf where "s = pre @ trim s @ suf" "\<forall>c\<in>set pre. is_blank c" "\<forall>c\<in>set suf. is_blank c"
    "trim s \<noteq> [] \<Longrightarrow> trimmed (trim s)"
proof
  let ?m = "dropWhile is_blank s"
  let ?suf = "rev (takeWhile is_blank (rev ?m))"
  have "rev ?m = takeWhile is_blank (rev ?m) @ dropWhile is_blank (rev ?m)" by simp
  then have m: "?m = trim s @ ?suf"
    unfolding trim_def by (metis rev_append rev_rev_ident)
  then show "s = takeWhile is_blank s @ trim s @ ?suf"
    by (metis takeWhile_dropWhile_id)
  show "\<forall>c\<in>set (takeWhile is_blank s). is_blank c" by (auto dest: set_takeWhileD)
  show "\<forall>c\<in>set ?suf. is_blank c" by (auto dest: set_takeWhileD)
  assume ne: "trim s \<noteq> []"
  then have "?m \<noteq> []" using m by (metis Nil_is_append_conv)
  then have "\<not> is_blank (hd ?m)" by (rule hd_dropWhile)
  moreover have "hd ?m = hd (trim s)" using m ne by (metis hd_append)
  moreover have "\<not> is_blank (last (trim s))"
    using ne hd_dropWhile [of is_blank "rev ?m"] by (simp add: trim_def last_rev)
  ultimately show "trimmed (trim s)" using ne by (simp add: trimmed_def)
qed

lemma trim_scan_trimmed:
  assumes "trimmed t" "\<forall>c\<in>set pre. is_blank c" "\<forall>c\<in>set suf. is_blank c"
  shows "trim_scan (pre @ t @ suf) 0 None 0 = (Some (length pre), length pre + length t - 1)"
proof (cases "tl t = []")
  case True
  with assms(1) obtain c where "t = [c]" "\<not> is_blank c"
    by (metis list.collapse trimmed_def)
  then show ?thesis using assms(2,3) by (simp add: trim_scan_append trim_scan_blank)
next
  case False
  then obtain m where t: "t = hd t # m @ [last t]" using assms(1)
    by (metis append_butlast_last_id last_tl list.collapse trimmed_def)
  have nb: "\<not> is_blank (hd t)" "\<not> is_blank (last t)" using assms(1) by (simp_all add: trimmed_def)
  have "trim_scan (hd t # m @ [last t]) (length pre) None 0 = (Some (length pre), length pre + length m + 1)"
    using nb by (simp add: trim_scan_Some)
  moreover have "length t = length m + 2" by (subst t) simp
  ultimately show ?thesis using assms(2,3) t
    by (simp add: trim_scan_append trim_scan_blank)
qed

lemma slice_between:
  "t \<noteq> [] \<Longrightarrow> drop (length pre) (take (Suc (length pre + length t - 1)) (pre @ t @ suf)) = t"
  by (cases t) auto

text \<open>The in-place scan computes the reference.\<close>

lemma TrimBuffer_eq_trim [cstr_simps]: "TEXT_UTILS_TrimBuffer s = trim s"
proof -
  obtain pre suf where d: "s = pre @ trim s @ suf" "\<forall>c\<in>set pre. is_blank c"
    "\<forall>c\<in>set suf. is_blank c" "trim s \<noteq> [] \<Longrightarrow> trimmed (trim s)"
    using trim_decomp [of s] by metis
  show ?thesis
  proof (cases "trim s = []")
    case True
    then have "\<forall>c\<in>set s. is_blank c" using d(1,2,3) by (metis Un_iff append_Nil set_append)
    then show ?thesis using True by (simp add: TEXT_UTILS_TrimBuffer_def trim_scan_blank)
  next
    case False
    then have "trim_scan s 0 None 0 = (Some (length pre), length pre + length (trim s) - 1)"
      using trim_scan_trimmed [OF d(4) d(2,3)] d(1) by simp
    moreover note slice_between [OF False, of pre suf]
    ultimately show ?thesis using d(1)
      by (simp add: TEXT_UTILS_TrimBuffer_def)
  qed
qed

lemma trimmed_trim: "trim s \<noteq> [] \<Longrightarrow> trimmed (trim s)"
  by (rule trim_decomp)

lemma trim_blanks:
  assumes "trimmed t" "\<forall>c\<in>set pre. is_blank c" "\<forall>c\<in>set suf. is_blank c"
  shows "trim (pre @ t @ suf) = t"
proof -
  have "t \<noteq> []" using assms(1) by (simp add: trimmed_def)
  from trim_scan_trimmed [OF assms] slice_between [OF this, of pre suf]
  have "TEXT_UTILS_TrimBuffer (pre @ t @ suf) = t"
    by (simp add: TEXT_UTILS_TrimBuffer_def)
  then show ?thesis by (simp add: TrimBuffer_eq_trim)
qed

lemma trim_id: "trimmed t \<Longrightarrow> trim t = t"
  using trim_blanks [of t "[]" "[]"] by simp

section \<open>Joining and splitting lists\<close>

text \<open>The content written at the buffer position, for the \<open>len\<close> bytes left there.\<close>

fun list_to_string_loop :: "bool \<Rightarrow> cstr list \<Rightarrow> nat \<Rightarrow> cstr" where
  "list_to_string_loop is_first [] len = []"
| "list_to_string_loop is_first (item # items) len =
    (let (sep, chars_written) = (if is_first then ([], 0) else USP_SNPRINTF len '', '');
         len1 = len - chars_written;
         (txt, chars_written2) = USP_SNPRINTF len1 item
     in sep @ txt @ list_to_string_loop False items (len1 - chars_written2))"

definition TEXT_UTILS_ListToString :: "cstr list \<Rightarrow> nat \<Rightarrow> cstr" where
  "TEXT_UTILS_ListToString items len = list_to_string_loop True items len"

text \<open>
  Search for a separator outside quotes: the rest of the haystack from the needle on. A needle
  that is empty is never found, an unterminated quote ends the search.
\<close>

definition is_quote :: "char \<Rightarrow> bool" where
  "is_quote c \<longleftrightarrow> c = CHR 0x22 \<or> c = CHR 0x27"

lemma dropWhile_Cons_append: "dropWhile P h = q # a \<Longrightarrow> h = (takeWhile P h @ [q]) @ a"
  by (metis append.assoc append_Cons append_Nil takeWhile_dropWhile_id)

lemma dropWhile_Cons_length: "dropWhile P h = q # a \<Longrightarrow> length a < length h"
  using length_dropWhile_le [of P h] by simp

function TEXT_UTILS_StrStr :: "cstr \<Rightarrow> cstr \<Rightarrow> cstr option" where
  "TEXT_UTILS_StrStr [] needle = None"
| "TEXT_UTILS_StrStr (c # haystack) needle =
    (if is_quote c then
       (case dropWhile (\<lambda>d. d \<noteq> c) haystack of
          [] \<Rightarrow> None
        | _ # after_quote \<Rightarrow> TEXT_UTILS_StrStr after_quote needle)
     else if needle \<noteq> [] \<and> c = hd needle \<and> prefix needle (c # haystack) then Some (c # haystack)
     else TEXT_UTILS_StrStr haystack needle)"
  by pat_completeness auto
termination
  by (relation "measure (\<lambda>(h, n). length h)")
     (auto dest: dropWhile_Cons_length)

lemma StrStr_suffix: "TEXT_UTILS_StrStr h n = Some r \<Longrightarrow> suffix r h \<and> prefix n r \<and> n \<noteq> []"
proof (induction h n rule: TEXT_UTILS_StrStr.induct)
  case (2 c h n)
  show ?case
  proof (cases "is_quote c")
    case True
    with "2.prems" obtain q a where a: "dropWhile (\<lambda>d. d \<noteq> c) h = q # a" "TEXT_UTILS_StrStr a n = Some r"
      by (auto split: list.splits)
    from "2.IH"(1) [OF True a(1) a(2)] have "suffix r a" "prefix n r" "n \<noteq> []" by auto
    moreover have "suffix a (c # h)"
      using dropWhile_Cons_append [OF a(1)] by (metis suffixI suffix_ConsI)
    ultimately show ?thesis by (blast intro: suffix_order.trans)
  next
    case False
    with 2 show ?thesis by (auto split: if_splits intro: suffix_ConsI)
  qed
qed simp

function split_loop :: "cstr \<Rightarrow> cstr \<Rightarrow> cstr list" where
  "split_loop start separator =
    (case TEXT_UTILS_StrStr start separator of
       None \<Rightarrow> (let trimmed = TEXT_UTILS_TrimBuffer start in if trimmed \<noteq> [] then [trimmed] else [])
     | Some e \<Rightarrow>
        (let trimmed = TEXT_UTILS_TrimBuffer (take (length start - length e) start)
         in (if trimmed \<noteq> [] then [trimmed] else []) @ split_loop (drop (length separator) e) separator))"
  by pat_completeness auto
termination
proof (relation "measure (\<lambda>(s, n). length s)")
  fix start separator e
  assume "TEXT_UTILS_StrStr start separator = Some e"
  from StrStr_suffix [OF this] have "length e \<le> length start" "0 < length separator" "length separator \<le> length e"
    by (auto dest: suffix_length_le prefix_length_le)
  then have "length e - length separator < length start" by linarith
  then show "((drop (length separator) e, separator), (start, separator)) \<in> measure (\<lambda>(s, n). length s)"
    by simp
qed simp

declare split_loop.simps [simp del]

lemma split_loop_None:
  "TEXT_UTILS_StrStr s sep = None \<Longrightarrow> split_loop s sep = (if trim s \<noteq> [] then [trim s] else [])"
  by (simp add: split_loop.simps [of s] TrimBuffer_eq_trim Let_def)

lemma split_loop_Some:
  "TEXT_UTILS_StrStr s sep = Some e \<Longrightarrow> split_loop s sep =
    (let t = trim (take (length s - length e) s) in
     (if t \<noteq> [] then [t] else []) @ split_loop (drop (length sep) e) sep)"
  by (simp add: split_loop.simps [of s] TrimBuffer_eq_trim Let_def)

definition TEXT_UTILS_SplitString :: "cstr \<Rightarrow> cstr \<Rightarrow> cstr list" where
  "TEXT_UTILS_SplitString str separator =
    (if str = [] then [] else split_loop (USP_STRNCPY str MAX_DM_VALUE_LEN) separator)"

lemma split_loop_trimmed: "p \<in> set (split_loop s sep) \<Longrightarrow> trimmed p"
proof (induction s sep rule: split_loop.induct)
  case (1 s sep)
  show ?case
  proof (cases "TEXT_UTILS_StrStr s sep")
    case None
    with "1.prems" show ?thesis
      by (auto simp: split_loop_None trimmed_trim split: if_splits)
  next
    case (Some e)
    with "1.prems" "1.IH" [OF Some] show ?thesis
      by (auto simp: split_loop_Some Let_def TrimBuffer_eq_trim trimmed_trim split: if_splits)
  qed
qed

text \<open>A string without quotes and without the separator's first character has no occurrence.\<close>

lemma StrStr_absent:
  assumes "\<forall>c\<in>set s. \<not> is_quote c \<and> c \<noteq> d"
  shows "TEXT_UTILS_StrStr (s @ r) (d # ds) = TEXT_UTILS_StrStr r (d # ds)"
  using assms by (induction s) auto

definition list_item :: "char \<Rightarrow> cstr \<Rightarrow> bool" where
  "list_item sep s \<longleftrightarrow> trimmed s \<and> sep \<notin> set s \<and> (\<forall>c\<in>set s. \<not> is_quote c)"

fun join :: "cstr \<Rightarrow> cstr list \<Rightarrow> cstr" where
  "join sep [] = []"
| "join sep [x] = x"
| "join sep (x # y # xs) = x @ sep @ join sep (y # xs)"

lemma item_absent:
  assumes "list_item d x" "\<forall>c\<in>set pre. is_blank c" "\<not> is_blank d"
  shows "TEXT_UTILS_StrStr ((pre @ x) @ r) [d] = TEXT_UTILS_StrStr r [d]"
proof (rule StrStr_absent)
  have "\<not> is_quote c" if "is_blank c" for c using that by (auto simp: is_blank_def is_quote_def)
  with assms show "\<forall>c\<in>set (pre @ x). \<not> is_quote c \<and> c \<noteq> d" unfolding list_item_def by fastforce
qed

lemma trim_item:
  assumes "list_item d x" "\<forall>c\<in>set pre. is_blank c"
  shows "trim (pre @ x) = x" "x \<noteq> []"
  using assms trim_blanks [of x pre "[]"] by (auto simp: list_item_def trimmed_def)

lemma split_loop_join:
  assumes "xs \<noteq> []" "\<forall>x\<in>set xs. list_item d x" "\<not> is_quote d" "\<not> is_blank d"
    "\<forall>c\<in>set pre. is_blank c"
  shows "split_loop (pre @ join (d # '' '') xs) [d] = xs"
  using assms(1,2,5)
proof (induction xs arbitrary: pre)
  case (Cons x xs)
  then have x: "list_item d x" by simp
  show ?case
  proof (cases xs)
    case Nil
    have "TEXT_UTILS_StrStr (pre @ x) [d] = None"
      using item_absent [OF x Cons.prems(3) assms(4), of "[]"] by simp
    then show ?thesis using Nil trim_item [OF x Cons.prems(3)] by (simp add: split_loop_None)
  next
    case (Cons y ys)
    let ?r = "'' '' @ join (d # '' '') xs"
    have j: "pre @ join (d # '' '') (x # xs) = (pre @ x) @ d # ?r" by (simp add: Cons)
    have found: "TEXT_UTILS_StrStr ((pre @ x) @ d # ?r) [d] = Some (d # ?r)"
      unfolding item_absent [OF x Cons.prems(3) assms(4)] using assms(3) by simp
    have rest: "split_loop ?r [d] = xs"
      by (rule Cons.IH) (use Cons.prems Cons in \<open>auto simp: is_blank_def\<close>)
    show ?thesis unfolding j split_loop_Some [OF found] Let_def
      using trim_item [OF x Cons.prems(3)] rest by simp
  qed
qed simp

text \<open>What the list buffer holds: the joined items, cut to the buffer.\<close>

lemma list_to_string_loop_0: "list_to_string_loop False items 0 = []"
  by (induction items) (simp_all add: USP_SNPRINTF_def)

lemma list_to_string_loop_False:
  "list_to_string_loop False items len = take (len - 1) (concat (map (\<lambda>i. '', '' @ i) items))"
proof (induction items arbitrary: len)
  case (Cons item items)
  consider "len = 0" | "len = 1" | "len = 2" | "2 < len" by linarith
  then show ?case
  proof cases
    case 4
    show ?thesis
    proof (cases "length item < len - 2")
      case True
      then have "len = length item + 3 + (len - (length item + 3))" by linarith
      then obtain k where "len = length item + 3 + k" by blast
      then show ?thesis
        by (simp add: USP_SNPRINTF_def Cons)
    next
      case False
      from 4 have "len = Suc (Suc (Suc (len - 3)))" by linarith
      then obtain k where "len = Suc (Suc (Suc k))" by blast
      with False show ?thesis
        by (simp add: USP_SNPRINTF_def min_def list_to_string_loop_0)
    qed
  qed (auto simp: USP_SNPRINTF_def list_to_string_loop_0 min_def)
qed simp

lemma join_concat: "join sep (x # xs) = x @ concat (map (\<lambda>i. sep @ i) xs)"
  by (induction xs arbitrary: x) auto

lemma ListToString_take: "TEXT_UTILS_ListToString items len = take (len - 1) (join '', '' items)"
proof (cases items)
  case (Cons item rest)
  show ?thesis
  proof (cases "length item < len")
    case True
    then show ?thesis
      by (simp add: Cons TEXT_UTILS_ListToString_def USP_SNPRINTF_def list_to_string_loop_False
          join_concat min_def)
  next
    case False
    then show ?thesis
      by (simp add: Cons TEXT_UTILS_ListToString_def USP_SNPRINTF_def list_to_string_loop_0
          join_concat min_def)
  qed
qed (simp add: TEXT_UTILS_ListToString_def)

section \<open>Stripping and replacing characters\<close>

fun strip_loop :: "cstr \<Rightarrow> cstr \<Rightarrow> int \<Rightarrow> cstr" where
  "strip_loop strip_chars [] dest_len = []"
| "strip_loop strip_chars (c # src) dest_len =
    (if c \<notin> set strip_chars
     then c # (if dest_len - 1 = 1 then [] else strip_loop strip_chars src (dest_len - 1))
     else strip_loop strip_chars src dest_len)"

definition TEXT_UTILS_StripChars :: "cstr \<Rightarrow> cstr \<Rightarrow> int \<Rightarrow> cstr" where
  "TEXT_UTILS_StripChars strip_chars src dest_len = strip_loop strip_chars src dest_len"

fun replace_loop :: "cstr \<Rightarrow> char \<Rightarrow> cstr \<Rightarrow> int \<Rightarrow> cstr" where
  "replace_loop [] match_char replacement dst_len = []"
| "replace_loop (c # src) match_char replacement dst_len =
    (if c = match_char then
       (if dst_len < int (length replacement) then []
        else replacement @
          (if dst_len - int (length replacement) = 0 then []
           else replace_loop src match_char replacement (dst_len - int (length replacement))))
     else c # (if dst_len - 1 = 0 then [] else replace_loop src match_char replacement (dst_len - 1)))"

definition TEXT_UTILS_ReplaceCharInString :: "cstr \<Rightarrow> char \<Rightarrow> cstr \<Rightarrow> int \<Rightarrow> cstr" where
  "TEXT_UTILS_ReplaceCharInString src match_char replacement dst_len =
    replace_loop src match_char replacement (dst_len - 1)"

lemma strip_loop_take:
  "1 < n \<Longrightarrow> strip_loop strip src n = take (nat n - 1) (filter (\<lambda>c. c \<notin> set strip) src)"
proof (induction strip src n rule: strip_loop.induct)
  case (2 strip c src n)
  then obtain k where "n = int k + 2" using zle_iff_zadd [of 2 n] by auto
  with 2 show ?case by (auto simp: nat_add_distrib)
qed simp

text \<open>The unbounded result of a replacement.\<close>

definition replace_all :: "char \<Rightarrow> cstr \<Rightarrow> cstr \<Rightarrow> cstr" where
  "replace_all m r s = concat (map (\<lambda>c. if c = m then r else [c]) s)"

lemma replace_loop_prefix:
  "0 < n \<Longrightarrow> prefix (replace_loop s m r n) (replace_all m r s) \<and> int (length (replace_loop s m r n)) \<le> n \<and>
    (int (length (replace_all m r s)) \<le> n \<longrightarrow> replace_loop s m r n = replace_all m r s)"
proof (induction s m r n rule: replace_loop.induct)
  case (2 c s m r n)
  show ?case
  proof (cases "c = m")
    case True
    then show ?thesis
      using 2 by (cases "n = int (length r)") (auto simp: replace_all_def)
  next
    case False
    then show ?thesis
      using 2 by (cases "n = 1") (auto simp: replace_all_def)
  qed
qed (simp add: replace_all_def)

section \<open>Properties\<close>

text \<open>
  A comma separated list written by TEXT_UTILS_ListToString is read back by
  TEXT_UTILS_SplitString item by item, as long as the items are non-empty without blanks at their
  ends, hold no comma or quote, and the joined text fits both buffers.
\<close>

theorem SplitString_ListToString:
  assumes "\<forall>x\<in>set items. list_item CHR '','' x"
    "length (join '', '' items) < len" "length (join '', '' items) < MAX_DM_VALUE_LEN"
  shows "TEXT_UTILS_SplitString (TEXT_UTILS_ListToString items len) '','' = items"
proof (cases "items = []")
  case True
  then show ?thesis by (simp add: ListToString_take TEXT_UTILS_SplitString_def)
next
  case False
  have t: "TEXT_UTILS_ListToString items len = join '', '' items"
    using assms(2) by (simp add: ListToString_take)
  have s: "split_loop (join '', '' items) '','' = items"
    using split_loop_join [OF False assms(1), of "[]"] by (simp add: is_quote_def is_blank_def)
  have "join '', '' items \<noteq> []"
    using False assms(1) by (cases items rule: list.exhaust) (auto simp: join_concat list_item_def trimmed_def)
  then show ?thesis using s assms(3) by (simp add: t TEXT_UTILS_SplitString_def USP_STRNCPY_fits)
qed

theorem SplitString_ListToString_witness:
  "TEXT_UTILS_SplitString (TEXT_UTILS_ListToString [''a'', ''b c''] 20) '','' = [''a'', ''b c'']"
  by (rule SplitString_ListToString)
     (auto simp: list_item_def trimmed_def is_blank_def is_quote_def MAX_DM_VALUE_LEN_def)

text \<open>
  The in-place trim of a buffer gives its text without the blanks at both ends, and it is
  idempotent: a trimmed buffer is left as it is.
\<close>

theorem TrimBuffer_trim:
  "TEXT_UTILS_TrimBuffer s = trim s \<and> TEXT_UTILS_TrimBuffer (TEXT_UTILS_TrimBuffer s) = TEXT_UTILS_TrimBuffer s \<and>
   (trim s = [] \<or> trimmed (trim s))"
proof -
  have "trim (trim s) = trim s"
    by (cases "trim s = []") (simp_all add: trim_def [of "[]"] trim_id trimmed_trim)
  then show ?thesis using trimmed_trim [of s] by (auto simp: TrimBuffer_eq_trim)
qed

end
