(* ===== verification/Text_Path.thy ===== *)
theory Text_Path
  imports Text_Utils
begin

text \<open>
  Data model paths in \<open>core/text_utils.c\<close>: splitting a path into its object and its parameter,
  the schema form that replaces instance numbers by "{i}", and the key-value lines of a reset
  file. \<open>TEXT_UTILS_PathToSchemaForm\<close> keeps the code's arithmetic on the space left, including
  the comparison of the signed \<open>len\<close> with an unsigned size.
\<close>

section \<open>Small helpers\<close>

definition TEXT_UTILS_CountConsecutiveDigits :: "cstr \<Rightarrow> nat" where
  "TEXT_UTILS_CountConsecutiveDigits p = length (takeWhile IS_NUMERIC p)"

definition TEXT_UTILS_StrncpyLen :: "nat \<Rightarrow> cstr \<Rightarrow> nat \<Rightarrow> cstr" where
  "TEXT_UTILS_StrncpyLen dst_len src src_len =
    (let n = (if dst_len < src_len + 1 then dst_len - 1 else src_len) in take n src)"

fun c_strcmp :: "cstr \<Rightarrow> cstr \<Rightarrow> int" where
  "c_strcmp [] [] = 0"
| "c_strcmp [] (d # t) = - int (char_code d)"
| "c_strcmp (c # s) [] = int (char_code c)"
| "c_strcmp (c # s) (d # t) =
    (if c = d then c_strcmp s t else int (char_code c) - int (char_code d))"

definition TEXT_UTILS_NullStringCompare :: "cstr option \<Rightarrow> cstr option \<Rightarrow> int" where
  "TEXT_UTILS_NullStringCompare str1 str2 =
    (case (str1, str2) of
       (None, None) \<Rightarrow> 0
     | (None, Some _) \<Rightarrow> -1
     | (Some _, None) \<Rightarrow> -1
     | (Some s1, Some s2) \<Rightarrow> c_strcmp s1 s2)"

text \<open>The empty path is read out of bounds by the code: no result.\<close>

definition TEXT_UTILS_StrDupWithTrailingDot :: "cstr \<Rightarrow> cstr option" where
  "TEXT_UTILS_StrDupWithTrailingDot path =
    (if path = [] then None
     else Some (if last path \<noteq> CHR ''.'' then path @ ''.'' else path))"

text \<open>The object part left in the buffer and the name returned.\<close>

definition TEXT_UTILS_SplitPath :: "cstr \<Rightarrow> nat \<Rightarrow> cstr \<times> cstr" where
  "TEXT_UTILS_SplitPath path len =
    (if CHR ''.'' \<notin> set path then ([], [])
     else let name = rev (takeWhile (\<lambda>c. c \<noteq> CHR ''.'') (rev path));
              size = length path - length name
          in (take (min size (len - 1)) path, name))"

lemma char_code_0: "char_code c = 0 \<longleftrightarrow> c = NUL"
proof -
  have "char_code NUL = 0" by (simp add: char_code_def)
  then show ?thesis using char_code_inj [of c NUL] by simp
qed

lemma c_strcmp_0_iff: "nul_free s \<Longrightarrow> nul_free t \<Longrightarrow> c_strcmp s t = 0 \<longleftrightarrow> s = t"
  by (induction s t rule: c_strcmp.induct) (auto simp: nul_free_def char_code_inj char_code_0)

lemma SplitPath_append:
  assumes "CHR ''.'' \<in> set path" "length path < len"
  shows "fst (TEXT_UTILS_SplitPath path len) @ snd (TEXT_UTILS_SplitPath path len) = path"
    "CHR ''.'' \<notin> set (snd (TEXT_UTILS_SplitPath path len))"
    "last (fst (TEXT_UTILS_SplitPath path len)) = CHR ''.''"
    "fst (TEXT_UTILS_SplitPath path len) \<noteq> []"
proof -
  let ?P = "\<lambda>c. c \<noteq> CHR ''.''"
  let ?name = "rev (takeWhile ?P (rev path))" and ?obj = "rev (dropWhile ?P (rev path))"
  have path: "path = ?obj @ ?name"
    by (metis rev_append rev_rev_ident takeWhile_dropWhile_id)
  have ne: "dropWhile ?P (rev path) \<noteq> []" using assms(1) by (auto simp: dropWhile_eq_Nil_conv)
  have "length path = length ?obj + length ?name"
    by (subst path) (simp only: length_append)
  then have "length path - length ?name = length ?obj" by linarith
  moreover from this assms(2) have "min (length ?obj) (len - 1) = length ?obj" by linarith
  moreover have "take (length ?obj) path = ?obj" by (subst (2) path) simp
  ultimately have eq: "TEXT_UTILS_SplitPath path len = (?obj, ?name)"
    using assms(1) by (simp add: TEXT_UTILS_SplitPath_def Let_def del: length_rev)
  show "fst (TEXT_UTILS_SplitPath path len) @ snd (TEXT_UTILS_SplitPath path len) = path"
    using path by (simp add: eq)
  show "CHR ''.'' \<notin> set (snd (TEXT_UTILS_SplitPath path len))"
    by (auto simp: eq dest: set_takeWhileD)
  show "last (fst (TEXT_UTILS_SplitPath path len)) = CHR ''.''"
    using hd_dropWhile [OF ne] ne by (simp add: eq last_rev)
  show "fst (TEXT_UTILS_SplitPath path len) \<noteq> []" using ne by (simp add: eq)
qed

section \<open>The schema form of a path\<close>

text \<open>
  \<open>path\<close> is the text from the character \<open>c\<close> of the code on, \<open>len\<close> the space the code still
  counts. The result is what is written before the terminator, whatever the size of the buffer:
  the exit test compares \<open>len\<close>, converted to a 32 bit size, with INSTANCE_SEPARATOR_LEN+1, and
  is skipped after an instance number.
\<close>

definition schema_full :: "int \<Rightarrow> bool" where
  "schema_full len \<longleftrightarrow> (word_of_int len :: 32 word) < 5"

definition instance_number_follows :: "cstr \<Rightarrow> bool" where
  "instance_number_follows path \<longleftrightarrow>
    (let num_digits = length (takeWhile IS_NUMERIC path)
     in 0 < num_digits \<and> (case drop num_digits path of [] \<Rightarrow> True | t # _ \<Rightarrow> t = CHR ''.''))"

function schema_loop :: "cstr \<Rightarrow> int \<Rightarrow> cstr" where
  "schema_loop [] len = []"
| "schema_loop (c # path) len =
    (if c = CHR ''.'' \<and> instance_number_follows path
     then ''.{i}'' @ schema_loop (dropWhile IS_NUMERIC path) (len - 4)
     else c # (if schema_full (len - 1) then [] else schema_loop path (len - 1)))"
  by pat_completeness auto
termination
  by (relation "measure (\<lambda>(p, n). length p)") (auto simp: le_imp_less_Suc length_dropWhile_le)

declare schema_loop.simps(2) [simp del]

definition TEXT_UTILS_PathToSchemaForm :: "cstr \<Rightarrow> int \<Rightarrow> cstr" where
  "TEXT_UTILS_PathToSchemaForm path len = schema_loop path len"

text \<open>Reference: every segment but the first that is a number becomes "{i}".\<close>

fun segments :: "cstr \<Rightarrow> cstr list" where
  "segments [] = [[]]"
| "segments (c # s) =
    (if c = CHR ''.'' then [] # segments s
     else case segments s of [] \<Rightarrow> [[c]] | g # gs \<Rightarrow> (c # g) # gs)"

definition schema_segment :: "cstr \<Rightarrow> cstr" where
  "schema_segment g = (if g \<noteq> [] \<and> (\<forall>c\<in>set g. IS_NUMERIC c) then ''{i}'' else g)"

definition schema_form :: "cstr \<Rightarrow> cstr" where
  "schema_form path =
    (case segments path of [] \<Rightarrow> [] | g # gs \<Rightarrow> g @ concat (map (\<lambda>h. CHR ''.'' # schema_segment h) gs))"

lemma segments_ne: "segments s \<noteq> []"
  by (induction s) (auto split: list.splits)

lemma segments_append_dot:
  "CHR ''.'' \<notin> set g \<Longrightarrow> segments (g @ CHR ''.'' # s) = g # segments s"
  by (induction g) auto

lemma segments_no_dot: "CHR ''.'' \<notin> set g \<Longrightarrow> segments g = [g]"
  by (induction g) auto

lemma segments_nodots: "g \<in> set (segments s) \<Longrightarrow> CHR ''.'' \<notin> set g"
  by (induction s arbitrary: g) (fastforce split: list.splits if_splits)+

lemma segments_hd:
  "hd (segments s) = takeWhile (\<lambda>c. c \<noteq> CHR ''.'') s"
  by (induction s) (auto split: list.splits simp: segments_ne)

text \<open>What follows a dot, in terms of the next segment.\<close>

definition schema_tail :: "cstr \<Rightarrow> cstr" where
  "schema_tail path = concat (map (\<lambda>h. CHR ''.'' # schema_segment h) (segments path))"

lemma instance_number_follows_iff:
  "instance_number_follows path \<longleftrightarrow>
    (let g = hd (segments path) in g \<noteq> [] \<and> (\<forall>c\<in>set g. IS_NUMERIC c))"
proof -
  let ?g = "takeWhile (\<lambda>c. c \<noteq> CHR ''.'') path" and ?d = "takeWhile IS_NUMERIC path"
  have nd: "IS_NUMERIC c \<Longrightarrow> c \<noteq> CHR ''.''" for c by (simp add: numeric_not_sign_space)
  have "drop (length ?d) path = dropWhile IS_NUMERIC path" by (simp add: dropWhile_eq_drop)
  moreover have "?d \<noteq> [] \<and> (case dropWhile IS_NUMERIC path of [] \<Rightarrow> True | t # _ \<Rightarrow> t = CHR ''.'') \<longleftrightarrow>
      ?g \<noteq> [] \<and> (\<forall>c\<in>set ?g. IS_NUMERIC c)"
  proof (induction path)
    case (Cons c path)
    show ?case
    proof (cases "IS_NUMERIC c")
      case True
      have "(case dropWhile IS_NUMERIC path of [] \<Rightarrow> True | t # _ \<Rightarrow> t = CHR ''.'') \<longleftrightarrow>
          (\<forall>c\<in>set (takeWhile (\<lambda>c. c \<noteq> CHR ''.'') path). IS_NUMERIC c)"
        using nd by (induction path) auto
      with True nd [OF True] show ?thesis by simp
    qed auto
  qed simp
  ultimately show ?thesis
    by (simp add: instance_number_follows_def segments_hd Let_def)
qed

lemma schema_segment_number: "g \<noteq> [] \<Longrightarrow> \<forall>c\<in>set g. IS_NUMERIC c \<Longrightarrow> schema_segment g = ''{i}''"
  by (simp add: schema_segment_def)

lemma schema_form_Cons:
  "c \<noteq> CHR ''.'' \<Longrightarrow> schema_form (c # s) = c # schema_form s"
  by (cases "segments s") (auto simp: schema_form_def segments_ne)

lemma schema_form_dot: "schema_form (CHR ''.'' # s) = schema_tail s"
  by (simp add: schema_form_def schema_tail_def)

lemma schema_tail_eq:
  "schema_tail s = (if instance_number_follows s
     then ''.{i}'' @ schema_form (dropWhile IS_NUMERIC s) else CHR ''.'' # schema_form s)"
proof -
  obtain g gs where gs: "segments s = g # gs" by (metis list.exhaust segments_ne)
  then have g: "g = takeWhile (\<lambda>c. c \<noteq> CHR ''.'') s" by (metis list.sel(1) segments_hd)
  show ?thesis
  proof (cases "instance_number_follows s")
    case True
    then have num: "g \<noteq> []" "\<forall>c\<in>set g. IS_NUMERIC c"
      by (simp_all add: instance_number_follows_iff gs Let_def)
    obtain r where r: "r = dropWhile (\<lambda>c. c \<noteq> CHR ''.'') s" by simp
    with g have s: "s = g @ r" by simp
    have dot: "r = [] \<or> (\<exists>t. r = CHR ''.'' # t)"
      using hd_dropWhile [of "\<lambda>c. c \<noteq> CHR ''.''" s] unfolding r [symmetric] by (cases r) auto
    have "dropWhile IS_NUMERIC (g @ t) = dropWhile IS_NUMERIC t" for t
      using num(2) by (induction g) simp_all
    moreover have "dropWhile IS_NUMERIC r = r"
      using dot numeric_not_sign_space(5) by fastforce
    ultimately have dw: "dropWhile IS_NUMERIC s = r" using s by simp
    have "schema_form r = concat (map (\<lambda>h. CHR ''.'' # schema_segment h) gs)"
    proof (cases "r = []")
      case True
      with s gs have "segments g = g # gs" by (metis append_Nil2)
      then have "gs = []" using segments_no_dot [of g] g by (auto dest: set_takeWhileD)
      with True show ?thesis by (simp add: schema_form_def)
    next
      case False
      with dot obtain t where t: "r = CHR ''.'' # t" by blast
      have "CHR ''.'' \<notin> set g" using g by (auto dest: set_takeWhileD)
      then have "segments s = g # segments t"
        using s t segments_append_dot [of g t] by metis
      then have "gs = segments t" using gs by simp
      then show ?thesis by (simp add: t schema_form_dot schema_tail_def)
    qed
    then show ?thesis using True num
      by (simp add: schema_tail_def gs schema_segment_number dw)
  next
    case False
    then have "schema_segment g = g"
      by (auto simp: instance_number_follows_iff gs Let_def schema_segment_def)
    with False show ?thesis by (simp add: schema_tail_def schema_form_def gs)
  qed
qed

text \<open>With room to spare, the loop computes the reference.\<close>

lemma schema_full_small: "\<not> schema_full len" if "5 \<le> len" "len < 2 ^ 31"
proof -
  have "uint (word_of_int len :: 32 word) = len"
    using that by (simp add: uint_word_of_int_eq take_bit_int_eq_self)
  with that show ?thesis by (simp add: schema_full_def word_less_def)
qed

lemma schema_loop_eq:
  assumes "int (length (schema_form path)) + 5 \<le> len" "len < 2 ^ 31"
  shows "schema_loop path len = schema_form path"
  using assms
proof (induction path len rule: schema_loop.induct)
  case (1 len)
  then show ?case by (simp add: schema_form_def)
next
  case (2 c path len)
  show ?case
  proof (cases "c = CHR ''.'' \<and> instance_number_follows path")
    case True
    then have f: "schema_form (c # path) = ''.{i}'' @ schema_form (dropWhile IS_NUMERIC path)"
      by (simp add: schema_form_dot schema_tail_eq)
    with 2(3,4) have "schema_loop (dropWhile IS_NUMERIC path) (len - 4) = schema_form (dropWhile IS_NUMERIC path)"
      by (intro "2.IH"(1) [OF True]) simp_all
    then show ?thesis using True f by (simp add: schema_loop.simps(2))
  next
    case False
    then have f: "schema_form (c # path) = c # schema_form path"
      by (cases "c = CHR ''.''") (auto simp: schema_form_dot schema_tail_eq schema_form_Cons)
    then have len: "int (length (schema_form path)) + 5 \<le> len - 1" "len - 1 < 2 ^ 31" using 2(3,4) by simp_all
    then have nf: "\<not> schema_full (len - 1)" by (intro schema_full_small) simp_all
    show ?thesis
      unfolding schema_loop.simps(2) if_not_P [OF False] if_not_P [OF nf] "2.IH"(2) [OF False nf len] f ..
  qed
qed

text \<open>Consecutive instance numbers are written without any test of the space left.\<close>

lemma schema_loop_instances:
  "schema_loop (concat (replicate n ''.1'')) len = concat (replicate n ''.{i}'')"
proof (induction n arbitrary: len)
  case (Suc n)
  have r: "dropWhile IS_NUMERIC (CHR ''1'' # concat (replicate n ''.1'')) = concat (replicate n ''.1'')"
    by (cases n) (auto simp: IS_NUMERIC_def less_eq_char_def)
  have "instance_number_follows (CHR ''1'' # concat (replicate n ''.1''))"
    by (cases n) (auto simp: instance_number_follows_def Let_def IS_NUMERIC_def less_eq_char_def)
  then show ?case using r Suc by (simp add: schema_loop.simps(2))
qed simp

section \<open>Key-value lines\<close>

abbreviation SPEECH_MARK :: char where "SPEECH_MARK \<equiv> CHR 0x22"

text \<open>\<open>Inr None\<close>: success with NULL for both key and value (comment or empty line).\<close>

definition TEXT_UTILS_KeyValueFromString :: "cstr \<Rightarrow> usp_err + (cstr \<times> cstr) option" where
  "TEXT_UTILS_KeyValueFromString line =
    (if line \<noteq> [] \<and> hd line = CHR ''#'' then Inr None
     else
      let buf1 = takeWhile (\<lambda>c. c \<noteq> CHR 0x0A) line;
          buf2 = takeWhile (\<lambda>c. c \<noteq> CHR 0x0D) buf1;
          buf = dropWhile is_blank buf2;
          key = takeWhile (\<lambda>c. \<not> is_blank c) buf
      in if key = [] then Inr None
         else
          let p = TEXT_UTILS_TrimBuffer (drop (length key) buf)
          in if p = [] then Inl USP_ERR_INTERNAL_ERROR
             else if hd p = SPEECH_MARK \<and> last p \<noteq> SPEECH_MARK then Inl USP_ERR_INTERNAL_ERROR
             else if hd p \<noteq> SPEECH_MARK \<and> last p = SPEECH_MARK then Inl USP_ERR_INTERNAL_ERROR
             else if hd p = SPEECH_MARK then Inr (Some (key, tl (butlast p)))
             else Inr (Some (key, p)))"

section \<open>Properties\<close>

text \<open>
  With room for the result and an instance separator more, TEXT_UTILS_PathToSchemaForm
  replaces exactly the instance numbers of the path (the segments after the first that consist
  of digits) by "{i}" and copies the rest.
\<close>

theorem PathToSchemaForm_schema:
  assumes "int (length (schema_form path)) + 5 \<le> len" "len < 2 ^ 31"
  shows "TEXT_UTILS_PathToSchemaForm path len = schema_form path"
  unfolding TEXT_UTILS_PathToSchemaForm_def by (rule schema_loop_eq [OF assms])

theorem PathToSchemaForm_schema_witness:
  "TEXT_UTILS_PathToSchemaForm ''Device.A.12.B.3'' 256 = schema_form ''Device.A.12.B.3''"
  by (rule PathToSchemaForm_schema) (simp_all add: schema_form_def schema_segment_def IS_NUMERIC_def less_eq_char_def)

text \<open>
  The bound of TEXT_UTILS_PathToSchemaForm does not hold: for every buffer size there is a
  path whose schema form it writes past the end, because the space left is not tested after an
  instance number.
\<close>

theorem PathToSchemaForm_overflow:
  "\<exists>path. int (length (TEXT_UTILS_PathToSchemaForm path len)) \<ge> len"
proof
  let ?p = "concat (replicate (nat len) ''.1'')"
  have "length (concat (replicate n ''.{i}'')) = 4 * n" for n by (induction n) auto
  then show "len \<le> int (length (TEXT_UTILS_PathToSchemaForm ?p len))"
    by (simp add: TEXT_UTILS_PathToSchemaForm_def schema_loop_instances)
qed

lemma key_value_line:
  assumes "key \<noteq> []" "\<forall>c\<in>set (key @ val). c \<noteq> CHR 0x0A \<and> c \<noteq> CHR 0x0D"
    "\<forall>c\<in>set key. \<not> is_blank c" "trimmed val"
  shows "takeWhile (\<lambda>c. c \<noteq> CHR 0x0A) (key @ '' '' @ val @ [CHR 0x0A]) = key @ '' '' @ val"
    "takeWhile (\<lambda>c. c \<noteq> CHR 0x0D) (key @ '' '' @ val) = key @ '' '' @ val"
    "dropWhile is_blank (key @ '' '' @ val) = key @ '' '' @ val"
    "takeWhile (\<lambda>c. \<not> is_blank c) (key @ '' '' @ val) = key"
    "TEXT_UTILS_TrimBuffer ('' '' @ val) = val"
proof -
  have "takeWhile (\<lambda>c. c \<noteq> CHR 0x0A) ((key @ '' '' @ val) @ [CHR 0x0A]) = key @ '' '' @ val"
    using assms(2) by (subst takeWhile_append2) auto
  then show "takeWhile (\<lambda>c. c \<noteq> CHR 0x0A) (key @ '' '' @ val @ [CHR 0x0A]) = key @ '' '' @ val"
    by simp
  show "takeWhile (\<lambda>c. c \<noteq> CHR 0x0D) (key @ '' '' @ val) = key @ '' '' @ val"
    using assms(2) by (auto simp: takeWhile_eq_all_conv)
  show "dropWhile is_blank (key @ '' '' @ val) = key @ '' '' @ val"
    using assms(1,3) by (cases key) auto
  show "takeWhile (\<lambda>c. \<not> is_blank c) (key @ '' '' @ val) = key"
    using assms(3) by (subst takeWhile_append2) (auto simp: is_blank_def)
  show "TEXT_UTILS_TrimBuffer ('' '' @ val) = val"
    using trim_blanks [OF assms(4), of "'' ''" "[]"] by (simp add: TrimBuffer_eq_trim is_blank_def)
qed

text \<open>
  A line "key value" of a factory reset file is read as that key and that value, and the
  same value in speech marks is read without them.
\<close>

theorem KeyValueFromString_line:
  assumes "key \<noteq> []" "hd key \<noteq> CHR ''#''" "\<forall>c\<in>set (key @ val). c \<noteq> CHR 0x0A \<and> c \<noteq> CHR 0x0D"
    "\<forall>c\<in>set key. \<not> is_blank c" "trimmed val" "hd val \<noteq> SPEECH_MARK" "last val \<noteq> SPEECH_MARK"
  shows "TEXT_UTILS_KeyValueFromString (key @ '' '' @ val @ [CHR 0x0A]) = Inr (Some (key, val)) \<and>
    TEXT_UTILS_KeyValueFromString (key @ '' '' @ (SPEECH_MARK # val @ [SPEECH_MARK]) @ [CHR 0x0A]) =
      Inr (Some (key, val))"
proof -
  let ?q = "SPEECH_MARK # val @ [SPEECH_MARK]"
  have ne: "val \<noteq> []" using assms(5) by (simp add: trimmed_def)
  have hd: "hd (key @ r) \<noteq> CHR ''#''" for r using assms(1,2) by simp
  have q: "trimmed ?q" "\<forall>c\<in>set (key @ ?q). c \<noteq> CHR 0x0A \<and> c \<noteq> CHR 0x0D"
    using assms(3) by (auto simp: trimmed_def is_blank_def)
  note v = key_value_line [OF assms(1,3,4,5)] and w = key_value_line [OF assms(1) q(2) assms(4) q(1)]
  have "TEXT_UTILS_KeyValueFromString (key @ '' '' @ val @ [CHR 0x0A]) = Inr (Some (key, val))"
    unfolding TEXT_UTILS_KeyValueFromString_def v Let_def
    using assms(1,6,7) hd ne v(5) by simp
  moreover have "TEXT_UTILS_KeyValueFromString (key @ '' '' @ ?q @ [CHR 0x0A]) = Inr (Some (key, val))"
    unfolding TEXT_UTILS_KeyValueFromString_def w Let_def
    using assms(1) hd w(5) by (simp add: butlast_append)
  ultimately show ?thesis by blast
qed

theorem KeyValueFromString_line_witness:
  "TEXT_UTILS_KeyValueFromString (''Device.A'' @ '' '' @ ''some text'' @ [CHR 0x0A]) =
      Inr (Some (''Device.A'', ''some text'')) \<and>
    TEXT_UTILS_KeyValueFromString (''Device.A'' @ '' '' @ (SPEECH_MARK # ''some text'' @ [SPEECH_MARK]) @ [CHR 0x0A]) =
      Inr (Some (''Device.A'', ''some text''))"
  by (rule KeyValueFromString_line) (simp_all add: trimmed_def is_blank_def)

end
