(* ===== verification/Vectors.thy ===== *)
theory Vectors
  imports Text_Path "HOL-Library.Multiset"
begin

text \<open>
  The integer and string vectors of \<open>core/int_vector.c\<close> and \<open>core/str_vector.c\<close>. A vector is the
  list of its entries (the capacity the code allocates in chunks is not observable); entries of a
  string vector are never NULL here, so the NULL test of STR_VECTOR_Find is always passed. The
  interface the rest of the agent relies on is the locale \<open>growing_vector\<close>; qsort with the natural
  order is the locale \<open>qsort_order\<close>.
\<close>

section \<open>The vector interface\<close>

text \<open>Adding an entry only if the search for it fails.\<close>

definition add_if_new :: "('v \<Rightarrow> 'e \<Rightarrow> int) \<Rightarrow> ('v \<Rightarrow> 'e \<Rightarrow> 'v) \<Rightarrow> 'v \<Rightarrow> 'e \<Rightarrow> 'v" where
  "add_if_new search add v e = (if search v e \<noteq> INVALID then v else add v e)"

locale growing_vector =
  fixes init :: "'v"
    and add :: "'v \<Rightarrow> 'e \<Rightarrow> 'v"
    and find :: "'v \<Rightarrow> 'e \<Rightarrow> int"
    and entries :: "'v \<Rightarrow> 'e list"
  assumes entries_init: "entries init = []"
    and entries_add: "entries (add v e) = entries v @ [e]"
    and find_eq: "find v e = first_index (\<lambda>x. x = e) (entries v)"
begin

lemma find_invalid: "find v e = INVALID \<longleftrightarrow> e \<notin> set (entries v)"
  by (auto simp: find_eq idx_simps)

lemma find_nth: "find v e \<noteq> INVALID \<Longrightarrow> nat (find v e) < length (entries v) \<and> entries v ! nat (find v e) = e"
  unfolding find_eq by (blast dest: first_index_found(1,2) [OF refl])

abbreviation add_new :: "'v \<Rightarrow> 'e \<Rightarrow> 'v" where
  "add_new \<equiv> add_if_new find add"

lemma entries_add_new:
  "entries (add_new v e) = (if e \<in> set (entries v) then entries v else entries v @ [e])"
  by (auto simp: add_if_new_def find_invalid entries_add)

lemma distinct_add_new: "distinct (entries v) \<Longrightarrow> distinct (entries (add_new v e))"
  by (simp add: entries_add_new)

lemma set_add_new: "set (entries (add_new v e)) = insert e (set (entries v))"
  by (auto simp: entries_add_new)

lemma entries_fold_add_new:
  "distinct (entries (fold (\<lambda>e v. add_new v e) es init)) \<and>
   set (entries (fold (\<lambda>e v. add_new v e) es init)) = set es"
proof -
  have "distinct (entries v) \<Longrightarrow> distinct (entries (fold (\<lambda>e v. add_new v e) es v)) \<and>
      set (entries (fold (\<lambda>e v. add_new v e) es v)) = set es \<union> set (entries v)" for v
    by (induction es arbitrary: v) (auto simp: distinct_add_new set_add_new)
  from this [of init] show ?thesis by (simp add: entries_init)
qed

end

section \<open>Integer vectors\<close>

type_synonym int_vector = "int list"

definition INT_VECTOR_Init :: int_vector where
  "INT_VECTOR_Init = []"

definition INT_VECTOR_Add :: "int_vector \<Rightarrow> int \<Rightarrow> int_vector" where
  "INT_VECTOR_Add iv number = iv @ [number]"

definition INT_VECTOR_Find :: "int_vector \<Rightarrow> int \<Rightarrow> int" where
  "INT_VECTOR_Find iv number = first_index (\<lambda>n. n = number) iv"

definition INT_VECTOR_Destroy :: "int_vector \<Rightarrow> int_vector" where
  "INT_VECTOR_Destroy iv = []"

interpretation iv: growing_vector INT_VECTOR_Init INT_VECTOR_Add INT_VECTOR_Find "\<lambda>v. v"
  by unfold_locales (simp_all add: INT_VECTOR_Init_def INT_VECTOR_Add_def INT_VECTOR_Find_def)

section \<open>String vectors\<close>

type_synonym str_vector = "cstr list"

definition STR_VECTOR_Init :: str_vector where
  "STR_VECTOR_Init = []"

text \<open>The two assertions require an empty destination; NULL strings are copied as "".\<close>

definition STR_VECTOR_Clone :: "str_vector \<Rightarrow> cstr option list \<Rightarrow> str_vector option" where
  "STR_VECTOR_Clone sv src_vector =
    (if sv = [] then Some (map (\<lambda>str. case str of None \<Rightarrow> [] | Some s \<Rightarrow> s) src_vector) else None)"

definition STR_VECTOR_Add :: "str_vector \<Rightarrow> cstr \<Rightarrow> str_vector" where
  "STR_VECTOR_Add sv str = sv @ [str]"

definition STR_VECTOR_Find :: "str_vector \<Rightarrow> cstr \<Rightarrow> int" where
  "STR_VECTOR_Find sv str = first_index (\<lambda>s. s = str) sv"

definition STR_VECTOR_Add_IfNotExist :: "str_vector \<Rightarrow> cstr \<Rightarrow> str_vector" where
  "STR_VECTOR_Add_IfNotExist sv str =
    (if STR_VECTOR_Find sv str \<noteq> INVALID then sv else STR_VECTOR_Add sv str)"

definition STR_VECTOR_Destroy :: "str_vector \<Rightarrow> str_vector" where
  "STR_VECTOR_Destroy sv = []"

text \<open>The loop compares entry by entry, after the lengths have been found equal.\<close>

definition STR_VECTOR_Compare :: "str_vector \<Rightarrow> str_vector \<Rightarrow> bool" where
  "STR_VECTOR_Compare sv1 sv2 \<longleftrightarrow>
    length sv1 = length sv2 \<and> first_index (\<lambda>(s1, s2). s1 \<noteq> s2) (zip sv1 sv2) = INVALID"

interpretation sv: growing_vector STR_VECTOR_Init STR_VECTOR_Add STR_VECTOR_Find "\<lambda>v. v"
  by unfold_locales (simp_all add: STR_VECTOR_Init_def STR_VECTOR_Add_def STR_VECTOR_Find_def)

lemma Add_IfNotExist_add_new: "STR_VECTOR_Add_IfNotExist = add_if_new STR_VECTOR_Find STR_VECTOR_Add"
  by (simp add: fun_eq_iff STR_VECTOR_Add_IfNotExist_def add_if_new_def)

lemma STR_VECTOR_Compare_iff: "STR_VECTOR_Compare a b \<longleftrightarrow> a = b"
  by (simp add: STR_VECTOR_Compare_def idx_simps list_eq_iff_zip_eq [of a b] case_prod_beta)

section \<open>Sorting in natural order\<close>

text \<open>
  The contract of qsort: whatever the algorithm, the result is a permutation that is sorted for
  the comparison. Where the comparison is a total order on the valid elements, there is exactly
  one such list, so an insertion sort may stand for it.
\<close>

primrec insert_sorted :: "('a \<Rightarrow> 'a \<Rightarrow> int) \<Rightarrow> 'a \<Rightarrow> 'a list \<Rightarrow> 'a list" where
  "insert_sorted cmp x [] = [x]"
| "insert_sorted cmp x (y # ys) = (if cmp x y \<le> 0 then x # y # ys else y # insert_sorted cmp x ys)"

definition qsort :: "('a \<Rightarrow> 'a \<Rightarrow> int) \<Rightarrow> 'a list \<Rightarrow> 'a list" where
  "qsort cmp xs = foldr (insert_sorted cmp) xs []"

definition cmp_le :: "('a \<Rightarrow> 'a \<Rightarrow> int) \<Rightarrow> 'a \<Rightarrow> 'a \<Rightarrow> bool" where
  "cmp_le cmp x y \<longleftrightarrow> cmp x y \<le> 0"

locale qsort_order =
  fixes cmp :: "'a \<Rightarrow> 'a \<Rightarrow> int" and valid :: "'a \<Rightarrow> bool"
  assumes cmp_zero: "valid x \<Longrightarrow> valid y \<Longrightarrow> cmp x y = 0 \<longleftrightarrow> x = y"
    and cmp_sym: "cmp y x = - cmp x y"
    and cmp_trans: "valid x \<Longrightarrow> valid y \<Longrightarrow> valid z \<Longrightarrow> cmp x y < 0 \<Longrightarrow> cmp y z < 0 \<Longrightarrow> cmp x z < 0"
begin

abbreviation le :: "'a \<Rightarrow> 'a \<Rightarrow> bool" where "le \<equiv> cmp_le cmp"

lemma le_trans: "valid x \<Longrightarrow> valid y \<Longrightarrow> valid z \<Longrightarrow> le x y \<Longrightarrow> le y z \<Longrightarrow> le x z"
  using cmp_zero cmp_trans unfolding cmp_le_def by (metis order_le_less)

lemma le_antisym: "valid x \<Longrightarrow> valid y \<Longrightarrow> le x y \<Longrightarrow> le y x \<Longrightarrow> x = y"
  using cmp_zero cmp_sym [of x y] unfolding cmp_le_def by fastforce

lemma mset_insert_sorted: "mset (insert_sorted cmp x ys) = add_mset x (mset ys)"
  by (induction ys) auto

lemma mset_qsort: "mset (qsort cmp xs) = mset xs"
  by (induction xs) (simp_all add: qsort_def mset_insert_sorted)

lemma set_insert_sorted: "set (insert_sorted cmp x ys) = insert x (set ys)"
  by (induction ys) auto

lemma sorted_insert_sorted:
  "valid x \<Longrightarrow> \<forall>y\<in>set ys. valid y \<Longrightarrow> sorted_wrt le ys \<Longrightarrow> sorted_wrt le (insert_sorted cmp x ys)"
proof (induction ys)
  case (Cons y ys)
  show ?case
  proof (cases "cmp x y \<le> 0")
    case True
    then have "le x y" by (simp add: cmp_le_def)
    with Cons.prems True show ?thesis by (auto intro: le_trans)
  next
    case False
    then have "le y x" using cmp_sym [of x y] by (simp add: cmp_le_def)
    with Cons False show ?thesis by (auto simp: set_insert_sorted)
  qed
qed simp

lemma sorted_qsort: "\<forall>x\<in>set xs. valid x \<Longrightarrow> sorted_wrt le (qsort cmp xs)"
proof (induction xs)
  case (Cons x xs)
  have "set (qsort cmp xs) = set xs" using mset_qsort [of xs] by (metis set_mset_mset)
  with Cons show ?case by (simp add: qsort_def sorted_insert_sorted)
qed (simp add: qsort_def)

lemma qsort_unique:
  assumes "\<forall>x\<in>set xs. valid x" "mset ys = mset xs" "sorted_wrt le ys"
  shows "ys = qsort cmp xs"
proof -
  have "sorted_wrt le a \<Longrightarrow> sorted_wrt le b \<Longrightarrow> mset a = mset b \<Longrightarrow> \<forall>x\<in>set a. valid x \<Longrightarrow> a = b" for a b
  proof (induction a arbitrary: b)
    case (Cons x a)
    then obtain y b' where b: "b = y # b'" by (cases b) auto
    have s: "set (x # a) = set b" using Cons.prems(3) by (metis set_mset_mset)
    have "le x y" "le y x" if "x \<noteq> y" using Cons.prems(1,2) s that b by auto
    then have "x = y" using Cons.prems(4) s b le_antisym by (metis list.set_intros(1))
    then show ?case using Cons b by simp
  qed simp
  then show ?thesis using assms sorted_qsort [OF assms(1)] mset_qsort [of xs]
    by (metis mset_eq_setD)
qed

end

text \<open>Natural order: at the first difference the longer run of digits is the larger.\<close>

fun NaturalStrCmp :: "cstr \<Rightarrow> cstr \<Rightarrow> int" where
  "NaturalStrCmp [] [] = 0"
| "NaturalStrCmp [] (c2 # s2) = 0 - int (char_code c2)"
| "NaturalStrCmp (c1 # s1) [] = int (char_code c1) - 0"
| "NaturalStrCmp (c1 # s1) (c2 # s2) =
    (if c1 \<noteq> c2 then
       (let delta = int (TEXT_UTILS_CountConsecutiveDigits (c1 # s1))
                  - int (TEXT_UTILS_CountConsecutiveDigits (c2 # s2))
        in if delta \<noteq> 0 then delta else int (char_code c1) - int (char_code c2))
     else NaturalStrCmp s1 s2)"

abbreviation digit_run :: "cstr \<Rightarrow> nat" where
  "digit_run s \<equiv> TEXT_UTILS_CountConsecutiveDigits s"

lemma digit_run_simps [simp]:
  "digit_run [] = 0" "digit_run (c # s) = (if IS_NUMERIC c then Suc (digit_run s) else 0)"
  by (simp_all add: TEXT_UTILS_CountConsecutiveDigits_def)

lemma NaturalStrCmp_sym: "NaturalStrCmp t s = - NaturalStrCmp s t"
  by (induction s t rule: NaturalStrCmp.induct) (simp_all add: Let_def)

lemma NaturalStrCmp_zero: "nul_free s \<Longrightarrow> nul_free t \<Longrightarrow> NaturalStrCmp s t = 0 \<longleftrightarrow> s = t"
  by (induction s t rule: NaturalStrCmp.induct)
     (auto simp: nul_free_def char_code_0 char_code_inj Let_def)

lemma NaturalStrCmp_digit_run: "NaturalStrCmp s t < 0 \<Longrightarrow> digit_run s \<le> digit_run t"
  by (induction s t rule: NaturalStrCmp.induct) (auto simp: Let_def split: if_splits)

lemma digit_run_NaturalStrCmp:
  assumes "nul_free s" "nul_free t" "digit_run s < digit_run t"
  shows "NaturalStrCmp s t < 0"
proof (rule ccontr)
  assume "\<not> NaturalStrCmp s t < 0"
  moreover have "NaturalStrCmp s t \<noteq> 0" using assms NaturalStrCmp_zero by blast
  ultimately have "NaturalStrCmp t s < 0" using NaturalStrCmp_sym [of t s] by simp
  with NaturalStrCmp_digit_run [of t s] assms(3) show False by simp
qed

lemma NaturalStrCmp_heads:
  "c \<noteq> d \<Longrightarrow> NaturalStrCmp (c # s) (d # t) < 0 \<longleftrightarrow>
    digit_run (c # s) < digit_run (d # t) \<or>
    (digit_run (c # s) = digit_run (d # t) \<and> char_code c < char_code d)"
  by (auto simp: Let_def)

lemma nul_free_Cons: "nul_free (c # s) \<longleftrightarrow> c \<noteq> NUL \<and> nul_free s"
  by (auto simp: nul_free_def)

lemma NaturalStrCmp_trans:
  assumes "nul_free s" "nul_free t" "nul_free u" "NaturalStrCmp s t < 0" "NaturalStrCmp t u < 0"
  shows "NaturalStrCmp s u < 0"
  using assms
proof (induction s t arbitrary: u rule: NaturalStrCmp.induct)
  case (4 c s d t)
  obtain e u' where u: "u = e # u'" using "4.prems" by (cases u) auto
  note nf = "4.prems"(1-3)[unfolded u]
  note run = NaturalStrCmp_digit_run [OF "4.prems"(4)] NaturalStrCmp_digit_run [OF "4.prems"(5)]
  consider "c = d" "d = e" | "c \<noteq> e" | "c = e" "c \<noteq> d" by blast
  then show ?case
  proof cases
    case 1
    with 4 u show ?thesis by (auto simp: nul_free_Cons)
  next
    case 2
    have "c \<noteq> d \<Longrightarrow> digit_run (c # s) < digit_run (d # t) \<or>
        (digit_run (c # s) = digit_run (d # t) \<and> char_code c < char_code d)"
      using "4.prems"(4) NaturalStrCmp_heads by blast
    moreover have "d \<noteq> e \<Longrightarrow> digit_run (d # t) < digit_run (e # u') \<or>
        (digit_run (d # t) = digit_run (e # u') \<and> char_code d < char_code e)"
      using "4.prems"(5) NaturalStrCmp_heads unfolding u by blast
    ultimately show ?thesis unfolding u NaturalStrCmp_heads [OF 2]
      using run 2 unfolding u by (metis le_neq_implies_less less_trans order_less_le_trans order_le_less_trans)
  next
    case 3
    from 3 have "d \<noteq> e" by simp
    have "digit_run (c # s) < digit_run (d # t) \<or>
        (digit_run (c # s) = digit_run (d # t) \<and> char_code c < char_code d)"
      using "4.prems"(4) NaturalStrCmp_heads [OF 3(2)] by blast
    moreover have "digit_run (d # t) < digit_run (e # u') \<or>
        (digit_run (d # t) = digit_run (e # u') \<and> char_code d < char_code e)"
      using "4.prems"(5) NaturalStrCmp_heads [OF \<open>d \<noteq> e\<close>] unfolding u by blast
    ultimately have "digit_run (c # s) < digit_run (e # u')"
      unfolding 3(1) by linarith
    then show ?thesis using nf digit_run_NaturalStrCmp unfolding u by blast
  qed
next
  case (2 c t)
  obtain e u' where u: "u = e # u'" using "2.prems" by (cases u) auto
  then have "char_code e \<noteq> 0" using "2.prems"(3) by (simp add: nul_free_Cons char_code_0)
  then show ?case by (simp add: u)
qed simp_all

interpretation natural: qsort_order NaturalStrCmp nul_free
  by unfold_locales (auto simp: NaturalStrCmp_zero intro: NaturalStrCmp_sym NaturalStrCmp_trans)

definition STR_VECTOR_Sort :: "str_vector \<Rightarrow> str_vector" where
  "STR_VECTOR_Sort sv = qsort NaturalStrCmp sv"

section \<open>Properties\<close>

text \<open>
  STR_VECTOR_Sort gives the one permutation of the vector that is in the natural order
  (digit runs compared by length first): the comparator is a total order on C strings, so the
  result does not depend on the sorting algorithm of the C library.
\<close>

theorem STR_VECTOR_Sort_natural:
  assumes "\<forall>s\<in>set sv. nul_free s"
  shows "mset tv = mset sv \<and> sorted_wrt (\<lambda>s t. NaturalStrCmp s t \<le> 0) tv \<longleftrightarrow> tv = STR_VECTOR_Sort sv"
  using natural.sorted_qsort [OF assms] natural.qsort_unique [OF assms, of tv]
  by (auto simp: STR_VECTOR_Sort_def natural.mset_qsort cmp_le_def [abs_def])

theorem STR_VECTOR_Sort_natural_witness:
  "STR_VECTOR_Sort [''a.10'', ''a.9''] = [''a.9'', ''a.10'']"
  using STR_VECTOR_Sort_natural [of "[''a.10'', ''a.9'']" "[''a.9'', ''a.10'']"]
  by (simp add: nul_free_def IS_NUMERIC_def less_eq_char_def add_mset_commute)

end
