(* ===== verification/Dm_Path.thy ===== *)
theory Dm_Path
  imports Vectors
begin

text \<open>
  The text side of data model paths in \<open>core/data_model.c\<close>: the hash and the instance numbers of a
  path (\<open>DM_PRIV_CalcHashFromPath\<close>), the path of a schema path with instance numbers filled in
  (\<open>DM_PRIV_FormInstantiatedPath\<close>), and the instance strings kept in the database. A pointer to a
  node is a number, 0 for NULL. Arrays of MAX_DM_INSTANCE_ORDER entries are lists of that length,
  unused entries included, because \<open>DM_INST_VECTOR_Add\<close> compares whole structures.
\<close>

section \<open>Instance structures\<close>

type_synonym node_ptr = nat
abbreviation NULL :: node_ptr where "NULL \<equiv> 0"

record dm_instances =
  order :: nat
  instances :: "int list"
  inodes :: "node_ptr list"

definition zero_instances :: dm_instances where
  "zero_instances = \<lparr>order = 0, instances = replicate 6 0, inodes = replicate 6 NULL\<rparr>"

definition push_instance :: "int \<Rightarrow> dm_instances \<Rightarrow> dm_instances" where
  "push_instance n inst =
    inst\<lparr>instances := (instances inst)[order inst := n], order := Suc (order inst)\<rparr>"

definition inst_ok :: "dm_instances \<Rightarrow> bool" where
  "inst_ok inst \<longleftrightarrow> order inst \<le> MAX_DM_INSTANCE_ORDER \<and>
    length (instances inst) = MAX_DM_INSTANCE_ORDER \<and> length (inodes inst) = MAX_DM_INSTANCE_ORDER"

abbreviation inst_numbers :: "dm_instances \<Rightarrow> int list" where
  "inst_numbers inst \<equiv> take (order inst) (instances inst)"

section \<open>Hash and instance numbers of a path\<close>

text \<open>An unsigned that wraps round; storing it in an int keeps its bits.\<close>

definition unsigned_of_digits :: "cstr \<Rightarrow> 32 word" where
  "unsigned_of_digits s = foldl (\<lambda>n c. 10 * n + of_nat (digit_value c)) 0 s"

definition add_separator :: "32 word \<Rightarrow> 32 word" where
  "add_separator hash = ADD_TO_HASH CHR ''}'' (ADD_TO_HASH CHR ''i'' (ADD_TO_HASH CHR ''{'' hash))"

text \<open>\<open>has_inst\<close> says whether the caller passed a structure for the instance numbers.\<close>

function calc_hash_loop ::
    "bool \<Rightarrow> cstr \<Rightarrow> dm_instances \<Rightarrow> 32 word \<Rightarrow> usp_err + 32 word \<times> dm_instances" where
  "calc_hash_loop has_inst [] inst hash = Inr (hash, inst)"
| "calc_hash_loop has_inst (c # p) inst hash =
    (if c = CHR ''.'' then
       let p1 = dropWhile (\<lambda>t. t = CHR ''.'') p
       in if p1 = [] then Inr (hash, inst)
          else let num = takeWhile IS_NUMERIC p1; rest = dropWhile IS_NUMERIC p1
          in if num \<noteq> [] \<and> (rest = [] \<or> hd rest = CHR ''.'') then
               if has_inst \<and> order inst = MAX_DM_INSTANCE_ORDER then Inl USP_ERR_INTERNAL_ERROR
               else calc_hash_loop has_inst rest
                 (if has_inst then push_instance (sint (unsigned_of_digits num)) inst else inst)
                 (add_separator (ADD_TO_HASH CHR ''.'' hash))
             else calc_hash_loop has_inst p1 inst (ADD_TO_HASH CHR ''.'' hash)
     else if c = CHR ''*'' then calc_hash_loop has_inst p inst (add_separator hash)
     else calc_hash_loop has_inst p inst (ADD_TO_HASH c hash))"
  by pat_completeness auto
termination
  by (relation "measure (\<lambda>(h, p, n, hash). length p)")
     (auto simp: le_imp_less_Suc length_dropWhile_le le_trans [OF length_dropWhile_le])

declare calc_hash_loop.simps(2) [simp del]

definition DM_PRIV_CalcHashFromPath :: "bool \<Rightarrow> cstr \<Rightarrow> usp_err + 32 word \<times> dm_instances" where
  "DM_PRIV_CalcHashFromPath has_inst path = calc_hash_loop has_inst path zero_instances OFFSET_BASIS"

text \<open>
  Reference: in terms of the dot-separated segments. The first segment is a name; of the others
  the empty ones are dropped and the numbers are instance numbers; a star stands for "{i}".
\<close>

definition star_text :: "cstr \<Rightarrow> cstr" where
  "star_text g = concat (map (\<lambda>c. if c = CHR ''*'' then ''{i}'' else [c]) g)"

definition instance_segment :: "cstr \<Rightarrow> bool" where
  "instance_segment g \<longleftrightarrow> g \<noteq> [] \<and> (\<forall>c\<in>set g. IS_NUMERIC c)"

definition tail_schema :: "cstr list \<Rightarrow> cstr" where
  "tail_schema gs = concat (map (\<lambda>h. CHR ''.'' # (if instance_segment h then ''{i}'' else star_text h))
    (filter (\<lambda>h. h \<noteq> []) gs))"

definition tail_instances :: "cstr list \<Rightarrow> int list" where
  "tail_instances gs = map (\<lambda>h. sint (unsigned_of_digits h)) (filter instance_segment gs)"

definition path_schema :: "cstr \<Rightarrow> cstr" where
  "path_schema path = star_text (hd (segments path)) @ tail_schema (tl (segments path))"

definition path_instances :: "cstr \<Rightarrow> int list" where
  "path_instances path = tail_instances (tl (segments path))"

lemma star_text_simps [simp]: "star_text [] = []"
  "star_text (c # s) = (if c = CHR ''*'' then ''{i}'' else [c]) @ star_text s"
  by (simp_all add: star_text_def)

lemma tail_schema_simps [simp]: "tail_schema [] = []"
  "tail_schema (g # gs) = (if g = [] then tail_schema gs
     else CHR ''.'' # (if instance_segment g then ''{i}'' else star_text g) @ tail_schema gs)"
  by (simp_all add: tail_schema_def)

lemma tail_instances_simps [simp]: "tail_instances [] = []"
  "tail_instances (g # gs) =
    (if instance_segment g then [sint (unsigned_of_digits g)] else []) @ tail_instances gs"
  by (simp_all add: tail_instances_def)

lemma instance_segment_Nil [simp]: "\<not> instance_segment []"
  by (simp add: instance_segment_def)

lemma segments_Cons_char:
  "c \<noteq> CHR ''.'' \<Longrightarrow> hd (segments (c # s)) = c # hd (segments s) \<and> tl (segments (c # s)) = tl (segments s)"
  by (cases "segments s") (auto simp: segments_ne)

lemma path_schema_char: "c \<noteq> CHR ''.'' \<Longrightarrow>
    path_schema (c # s) = (if c = CHR ''*'' then ''{i}'' else [c]) @ path_schema s"
  using segments_Cons_char [of c s] by (simp add: path_schema_def)

lemma path_instances_char: "c \<noteq> CHR ''.'' \<Longrightarrow> path_instances (c # s) = path_instances s"
  using segments_Cons_char [of c s] by (simp add: path_instances_def)

lemma path_Nil [simp]: "path_schema [] = []" "path_instances [] = []"
  by (simp_all add: path_schema_def path_instances_def)

lemma tail_dropWhile:
  "tail_schema (segments (dropWhile (\<lambda>t. t = CHR ''.'') s)) = tail_schema (segments s)"
  "tail_instances (segments (dropWhile (\<lambda>t. t = CHR ''.'') s)) = tail_instances (segments s)"
  by (induction s) auto

lemma path_dot:
  "path_schema (CHR ''.'' # s) = tail_schema (segments (dropWhile (\<lambda>t. t = CHR ''.'') s))"
  "path_instances (CHR ''.'' # s) = tail_instances (segments (dropWhile (\<lambda>t. t = CHR ''.'') s))"
  by (simp_all only: path_schema_def path_instances_def segments.simps tail_dropWhile) simp_all

text \<open>The number after a dot is the whole next segment.\<close>

lemma segments_split_first:
  assumes "r = [] \<or> hd r = CHR ''.''" "CHR ''.'' \<notin> set g"
  shows "segments (g @ r) = g # tl (segments r) \<and> hd (segments r) = []"
proof (cases r)
  case Nil
  then show ?thesis using assms(2) by (simp add: segments_no_dot)
next
  case (Cons t s)
  then show ?thesis using assms by (simp add: segments_append_dot)
qed

lemma number_segment:
  assumes "takeWhile IS_NUMERIC s \<noteq> []" "dropWhile IS_NUMERIC s = [] \<or> hd (dropWhile IS_NUMERIC s) = CHR ''.''"
  shows "tail_schema (segments s) = ''.{i}'' @ path_schema (dropWhile IS_NUMERIC s)"
    "tail_instances (segments s) =
      sint (unsigned_of_digits (takeWhile IS_NUMERIC s)) # path_instances (dropWhile IS_NUMERIC s)"
proof -
  let ?g = "takeWhile IS_NUMERIC s" and ?r = "dropWhile IS_NUMERIC s"
  have num: "\<forall>c\<in>set ?g. IS_NUMERIC c" by (auto dest: set_takeWhileD)
  then have "CHR ''.'' \<notin> set ?g" using numeric_not_sign_space(5) by blast
  then have seg: "segments s = ?g # tl (segments ?r)" "hd (segments ?r) = []"
    using segments_split_first [OF assms(2), of ?g] by auto
  show "tail_schema (segments s) = ''.{i}'' @ path_schema ?r"
    "tail_instances (segments s) = sint (unsigned_of_digits ?g) # path_instances ?r"
    using assms(1) num by (simp_all add: seg(1) path_schema_def path_instances_def seg(2) instance_segment_def)
qed

lemma name_segment:
  assumes "s \<noteq> []" "hd s \<noteq> CHR ''.''"
    "\<not> (takeWhile IS_NUMERIC s \<noteq> [] \<and> (dropWhile IS_NUMERIC s = [] \<or> hd (dropWhile IS_NUMERIC s) = CHR ''.''))"
  shows "tail_schema (segments s) = CHR ''.'' # path_schema s" "tail_instances (segments s) = path_instances s"
proof -
  obtain g gs where gs: "segments s = g # gs" by (metis list.exhaust segments_ne)
  then have g: "g = takeWhile (\<lambda>c. c \<noteq> CHR ''.'') s" by (metis list.sel(1) segments_hd)
  have ne: "g \<noteq> []" using assms(1,2) g by (cases s) auto
  have "\<not> instance_number_follows s"
    using assms(3) by (auto simp: instance_number_follows_def Let_def dropWhile_eq_drop split: list.splits)
  then have "\<not> instance_segment g"
    by (auto simp: instance_number_follows_iff gs Let_def instance_segment_def)
  then show "tail_schema (segments s) = CHR ''.'' # path_schema s"
    "tail_instances (segments s) = path_instances s"
    using ne by (simp_all add: gs path_schema_def path_instances_def)
qed

abbreviation push_instances :: "int list \<Rightarrow> dm_instances \<Rightarrow> dm_instances" where
  "push_instances ns inst \<equiv> fold push_instance ns inst"

lemma push_instance_order [simp]: "order (push_instance n inst) = Suc (order inst)"
  by (simp add: push_instance_def)

lemma hash_loop_Cons: "hash_loop s (ADD_TO_HASH c h) = hash_loop (c # s) h"
  by simp

lemma add_separator_hash: "add_separator h = hash_loop ''{i}'' h"
  by (simp add: add_separator_def)

theorem calc_hash_loop_eq:
  "order inst \<le> MAX_DM_INSTANCE_ORDER \<Longrightarrow> calc_hash_loop has_inst path inst hash =
    (if has_inst \<and> MAX_DM_INSTANCE_ORDER < order inst + length (path_instances path)
     then Inl USP_ERR_INTERNAL_ERROR
     else Inr (hash_loop (path_schema path) hash,
       if has_inst then push_instances (path_instances path) inst else inst))"
proof (induction has_inst path inst hash rule: calc_hash_loop.induct)
  case (2 has_inst c p inst hash)
  let ?p1 = "dropWhile (\<lambda>t. t = CHR ''.'') p"
  let ?num = "takeWhile IS_NUMERIC ?p1" and ?rest = "dropWhile IS_NUMERIC ?p1"
  show ?case
  proof (cases "c = CHR ''.''")
    case dot: True
    show ?thesis
    proof (cases "?p1 = []")
      case True
      have "path_schema (CHR ''.'' # p) = []" "path_instances (CHR ''.'' # p) = []"
        unfolding path_dot True by simp_all
      with dot True "2.prems" show ?thesis by (auto simp: calc_hash_loop.simps(2) Let_def)
    next
      case ne: False
      then have hd: "hd ?p1 \<noteq> CHR ''.''" by (rule hd_dropWhile)
      show ?thesis
      proof (cases "?num \<noteq> [] \<and> (?rest = [] \<or> hd ?rest = CHR ''.'')")
        case True
        note seg = number_segment [of ?p1, folded path_dot, OF conjunct1 [OF True] conjunct2 [OF True]]
        show ?thesis
        proof (cases "has_inst \<and> order inst = MAX_DM_INSTANCE_ORDER")
          case full: True
          show ?thesis unfolding calc_hash_loop.simps(2) Let_def dot seg using ne True full by simp
        next
          case room: False
          note IH = "2.IH"(1) [OF dot refl ne refl refl True room]
          have "order (if has_inst then push_instance (sint (unsigned_of_digits ?num)) inst else inst)
              \<le> MAX_DM_INSTANCE_ORDER"
            using room "2.prems" by auto
          note step = IH [OF this]
          have lhs: "calc_hash_loop has_inst (c # p) inst hash = calc_hash_loop has_inst ?rest
              (if has_inst then push_instance (sint (unsigned_of_digits ?num)) inst else inst)
              (add_separator (ADD_TO_HASH CHR ''.'' hash))"
            unfolding calc_hash_loop.simps(2) Let_def if_P [OF dot] if_not_P [OF ne] if_P [OF True]
              if_not_P [OF room] ..
          show ?thesis unfolding lhs step unfolding dot seg
            by (cases has_inst) (simp_all add: add_separator_def hash_loop_append)
        qed
      next
        case False
        note seg = name_segment [of ?p1, folded path_dot, OF ne hd False]
        note step = "2.IH"(2) [OF dot refl ne refl refl False "2.prems"]
        have lhs: "calc_hash_loop has_inst (c # p) inst hash =
            calc_hash_loop has_inst ?p1 inst (ADD_TO_HASH CHR ''.'' hash)"
          unfolding calc_hash_loop.simps(2) Let_def if_P [OF dot] if_not_P [OF ne] if_not_P [OF False] ..
        show ?thesis unfolding lhs step unfolding dot seg by simp
      qed
    qed
  next
    case False
    then show ?thesis using "2.IH"(3,4) "2.prems"
      by (auto simp: calc_hash_loop.simps(2) path_schema_char path_instances_char
          add_separator_hash hash_loop_append)
  qed
qed simp

lemma push_instances_zero:
  "length ns \<le> MAX_DM_INSTANCE_ORDER \<Longrightarrow> push_instances ns zero_instances =
    \<lparr>order = length ns, instances = ns @ replicate (6 - length ns) 0, inodes = replicate 6 NULL\<rparr>"
proof (induction ns rule: rev_induct)
  case Nil
  show ?case by (simp add: zero_instances_def)
next
  case (snoc n ns)
  then have "6 - length ns = Suc (6 - length (ns @ [n]))" by (simp add: MAX_DM_INSTANCE_ORDER_def)
  with snoc show ?case by (simp add: push_instance_def list_update_append)
qed

lemma CalcHashFromPath_eq:
  "DM_PRIV_CalcHashFromPath has_inst path =
    (if has_inst \<and> MAX_DM_INSTANCE_ORDER < length (path_instances path) then Inl USP_ERR_INTERNAL_ERROR
     else Inr (TEXT_UTILS_CalcHash (path_schema path),
       if has_inst then push_instances (path_instances path) zero_instances else zero_instances))"
  using calc_hash_loop_eq [of zero_instances]
  by (simp add: DM_PRIV_CalcHashFromPath_def TEXT_UTILS_CalcHash_def zero_instances_def)


section \<open>Paths with instance numbers\<close>

definition show_int :: "int \<Rightarrow> cstr" where
  "show_int n = (if n < 0 then CHR ''-'' # show_nat (nat (- n)) else show_nat (nat n))"

text \<open>
  The bytes written to the buffer for the rest \<open>src\<close> of the schema path and the instance numbers
  not used yet. A number that does not fit is cut by USP_SNPRINTF, whose result counts the
  terminator in that case. \<open>None\<close>: with no space left for a plain character, the code goes round
  its loop without consuming anything and never returns.
\<close>

function form_path_loop :: "cstr \<Rightarrow> int list \<Rightarrow> int \<Rightarrow> (usp_err + char list) option" where
  "form_path_loop [] ns len = Some (if ns \<noteq> [] then Inl USP_ERR_INTERNAL_ERROR else Inr [])"
| "form_path_loop (c # src) ns len =
    (if take 3 (c # src) = ''{i}'' then
       case ns of
         [] \<Rightarrow> Some (Inl USP_ERR_INTERNAL_ERROR)
       | n # ns' \<Rightarrow>
           (let (txt, written) = USP_SNPRINTF (nat len) (show_int n);
                bytes = txt @ replicate (written - length txt) NUL
            in map_option (\<lambda>r. usp_bind r (\<lambda>rest. Inr (bytes @ rest)))
                 (form_path_loop (drop 2 src) ns' (len - int written)))
     else if 1 < len then
       map_option (\<lambda>r. usp_bind r (\<lambda>rest. Inr (c # rest))) (form_path_loop src ns (len - 1))
     else None)"
  by pat_completeness auto
termination
  by (relation "measure (\<lambda>(src, n, l). length src)") auto

declare form_path_loop.simps(2) [simp del]

definition DM_PRIV_FormInstantiatedPath :: "cstr \<Rightarrow> dm_instances \<Rightarrow> int \<Rightarrow> (usp_err + cstr) option" where
  "DM_PRIV_FormInstantiatedPath schema_path inst len =
    map_option (\<lambda>r. usp_bind r (\<lambda>bytes. Inr (c_string bytes)))
      (form_path_loop schema_path (inst_numbers inst) len)"

text \<open>
  Reference: the segments of a schema path, "{i}" or a name, with the numbers filled in.
\<close>

definition name_segment_ok :: "cstr \<Rightarrow> bool" where
  "name_segment_ok g \<longleftrightarrow> g \<noteq> [] \<and> \<not> instance_segment g \<and>
    (\<forall>c\<in>set g. c \<noteq> CHR ''.'' \<and> c \<noteq> CHR ''*'' \<and> c \<noteq> CHR ''{'' \<and> c \<noteq> NUL)"

fun fill_segments :: "cstr list \<Rightarrow> int list \<Rightarrow> cstr list option" where
  "fill_segments [] [] = Some []"
| "fill_segments [] (n # ns) = None"
| "fill_segments (g # gs) ns =
    (if g = ''{i}'' then
       case ns of [] \<Rightarrow> None | n # ns' \<Rightarrow> map_option (\<lambda>hs. show_int n # hs) (fill_segments gs ns')
     else map_option (\<lambda>hs. g # hs) (fill_segments gs ns))"

definition dotted :: "cstr list \<Rightarrow> cstr" where
  "dotted gs = concat (map (\<lambda>g. CHR ''.'' # g) gs)"

lemma dotted_simps [simp]: "dotted [] = []" "dotted (g # gs) = CHR ''.'' # g @ dotted gs"
  by (simp_all add: dotted_def)

lemma show_int_chars: "c \<in> set (show_int n) \<Longrightarrow> c = CHR ''-'' \<or> IS_NUMERIC c"
  by (auto simp: show_int_def show_nat_numeric split: if_splits)

lemma show_int_nul: "NUL \<notin> set (show_int n)"
  using show_int_chars numeric_not_sign_space(4) by fastforce

lemma form_path_char:
  "c \<noteq> CHR ''{'' \<Longrightarrow> 1 < len \<Longrightarrow> form_path_loop (c # src) ns len =
    map_option (\<lambda>r. usp_bind r (\<lambda>rest. Inr (c # rest))) (form_path_loop src ns (len - 1))"
  by (subst form_path_loop.simps(2)) simp

lemma usp_bind_append: "map_option (\<lambda>r. usp_bind r (\<lambda>rest. Inr (x # rest)))
    (map_option (\<lambda>r. usp_bind r (\<lambda>rest. Inr (xs @ rest))) m) =
    map_option (\<lambda>r. usp_bind r (\<lambda>rest. Inr ((x # xs) @ rest))) m"
  by (cases m) (auto simp: usp_bind_def split: sum.splits)

lemma form_path_name:
  assumes "\<forall>c\<in>set g. c \<noteq> CHR ''{''" "int (length g) < len"
  shows "form_path_loop (g @ src) ns len =
    map_option (\<lambda>r. usp_bind r (\<lambda>rest. Inr (g @ rest))) (form_path_loop src ns (len - int (length g)))"
  using assms
proof (induction g arbitrary: len)
  case Nil
  have "usp_bind r Inr = r" for r :: "usp_err + char list" by (cases r) simp_all
  then show ?case by (simp add: option.map_ident)
next
  case (Cons c g)
  then have "form_path_loop (c # g @ src) ns len = map_option (\<lambda>r. usp_bind r (\<lambda>rest. Inr (c # rest)))
      (map_option (\<lambda>r. usp_bind r (\<lambda>rest. Inr (g @ rest))) (form_path_loop src ns (len - 1 - int (length g))))"
    using form_path_char [of c len "g @ src" ns] Cons.IH [of "len - 1"] by simp
  also have "\<dots> = map_option (\<lambda>r. usp_bind r (\<lambda>rest. Inr ((c # g) @ rest)))
      (form_path_loop src ns (len - 1 - int (length g)))"
    by (rule usp_bind_append)
  finally show ?case by (simp add: algebra_simps)
qed

lemma form_path_number:
  assumes "int (length (show_int n)) < len"
  shows "form_path_loop (''{i}'' @ src) (n # ns) len =
    map_option (\<lambda>r. usp_bind r (\<lambda>rest. Inr (show_int n @ rest)))
      (form_path_loop src ns (len - int (length (show_int n))))"
proof -
  have "USP_SNPRINTF (nat len) (show_int n) = (show_int n, length (show_int n))"
    using assms by (auto simp: USP_SNPRINTF_def)
  then show ?thesis using form_path_loop.simps(2) [of "CHR ''{''" "''i}'' @ src" "n # ns" len]
    by simp
qed

lemma form_path_dotted:
  assumes "fill_segments gs ns = Some hs" "\<forall>g\<in>set gs. g = ''{i}'' \<or> name_segment_ok g"
    "int (length (dotted hs)) < len"
  shows "form_path_loop (dotted gs) ns len = Some (Inr (dotted hs))"
  using assms
proof (induction gs ns arbitrary: len hs rule: fill_segments.induct)
  case (3 g gs ns)
  then have len: "1 < len" by (auto split: if_splits list.splits)
  show ?case
  proof (cases "g = ''{i}''")
    case True
    with "3.prems"(1) obtain n ns' hs' where n: "ns = n # ns'" "fill_segments gs ns' = Some hs'"
      "hs = show_int n # hs'" by (auto split: list.splits)
    have "form_path_loop (dotted gs) ns' (len - 1 - int (length (show_int n))) = Some (Inr (dotted hs'))"
      by (rule "3.IH"(1) [OF True n(1,2)]) (use "3.prems" n in auto)
    moreover have "int (length (show_int n)) < len - 1" using "3.prems"(3) n by simp
    note form_path_number [OF this, of "dotted gs" ns']
    ultimately show ?thesis using form_path_char [OF _ len, of "CHR ''.''" "''{i}'' @ dotted gs" ns]
      by (simp add: True n)
  next
    case False
    with "3.prems"(1) obtain hs' where h: "fill_segments gs ns = Some hs'" "hs = g # hs'" by auto
    have "form_path_loop (dotted gs) ns (len - 1 - int (length g)) = Some (Inr (dotted hs'))"
      by (rule "3.IH"(2) [OF False h(1)]) (use "3.prems" h in auto)
    moreover have "\<forall>c\<in>set g. c \<noteq> CHR ''{''" "int (length g) < len - 1"
      using "3.prems" False h by (auto simp: name_segment_ok_def)
    note form_path_name [OF this, of "dotted gs" ns]
    ultimately show ?thesis using form_path_char [OF _ len, of "CHR ''.''" "g @ dotted gs" ns]
      by (simp add: h)
  qed
qed auto


text \<open>Reading back: the filled path has the schema and the numbers it was made from.\<close>

definition instance_ok :: "int \<Rightarrow> bool" where
  "instance_ok n \<longleftrightarrow> 0 \<le> n \<and> n \<le> INT_MAX"

lemma foldl_digits: "foldl (\<lambda>n c. 10 * n + of_nat (digit_value c)) (of_nat a) s = (of_nat (digits_value a s) :: 32 word)"
proof (induction s arbitrary: a)
  case (Cons c s)
  have "10 * of_nat a + of_nat (digit_value c) = (of_nat (10 * a + digit_value c) :: 32 word)"
    by (simp only: of_nat_add of_nat_mult of_nat_numeral)
  with Cons [of "10 * a + digit_value c"] show ?case by (simp only: foldl_Cons digits_value.simps)
qed simp

lemma unsigned_of_digits_eq: "unsigned_of_digits s = of_nat (digits_value 0 s)"
  using foldl_digits [of 0 s] by (simp add: unsigned_of_digits_def)

lemma sint_instance:
  assumes "instance_ok n"
  shows "sint (of_nat (nat n) :: 32 word) = n"
proof -
  have n: "- (2 ^ 31) \<le> n" "n < 2 ^ 31" using assms by (auto simp: instance_ok_def INT_MAX_def)
  have "sint (word_of_int n :: 32 word) = signed_take_bit 31 n"
    by (simp add: signed_of_int)
  also have "\<dots> = n" by (rule signed_take_bit_int_eq_self [OF n])
  finally show ?thesis using assms by (simp add: instance_ok_def)
qed

lemma show_int_segment:
  assumes "instance_ok n"
  shows "instance_segment (show_int n)" "sint (unsigned_of_digits (show_int n)) = n"
    "CHR ''.'' \<notin> set (show_int n)"
proof -
  have s: "show_int n = show_nat (nat n)" using assms by (simp add: show_int_def instance_ok_def)
  show "instance_segment (show_int n)"
    by (simp add: s instance_segment_def show_nat_nonempty show_nat_numeric)
  show "sint (unsigned_of_digits (show_int n)) = n"
    unfolding s unsigned_of_digits_eq digits_value_show_nat by (rule sint_instance [OF assms])
  show "CHR ''.'' \<notin> set (show_int n)"
    using show_nat_numeric numeric_not_sign_space(5) by (force simp: s)
qed

lemma segments_dotted:
  "CHR ''.'' \<notin> set g \<Longrightarrow> \<forall>h\<in>set hs. CHR ''.'' \<notin> set h \<Longrightarrow> segments (g @ dotted hs) = g # hs"
proof (induction hs arbitrary: g)
  case (Cons h hs)
  then show ?case using segments_append_dot [of g "h @ dotted hs"] by simp
qed (simp add: segments_no_dot)

lemma star_text_id: "CHR ''*'' \<notin> set g \<Longrightarrow> star_text g = g"
  by (induction g) auto

lemma fill_segments_tail:
  assumes "fill_segments gs ns = Some hs" "\<forall>g\<in>set gs. g = ''{i}'' \<or> name_segment_ok g"
    "\<forall>n\<in>set ns. instance_ok n"
  shows "tail_schema hs = dotted gs \<and> tail_instances hs = ns \<and>
    (\<forall>h\<in>set hs. CHR ''.'' \<notin> set h \<and> NUL \<notin> set h)"
  using assms
proof (induction gs ns arbitrary: hs rule: fill_segments.induct)
  case (3 g gs ns)
  show ?case
  proof (cases "g = ''{i}''")
    case True
    with "3.prems"(1) obtain n ns' hs' where n: "ns = n # ns'" "fill_segments gs ns' = Some hs'"
      "hs = show_int n # hs'" by (auto split: list.splits)
    have "instance_ok n" using "3.prems"(3) n by simp
    note s = show_int_segment [OF this]
    have "show_int n \<noteq> []" using s(1) by (simp add: instance_segment_def)
    then show ?thesis using "3.IH"(1) [OF True n(1,2)] "3.prems" s show_int_nul by (simp add: n True)
  next
    case False
    with "3.prems"(1) obtain hs' where h: "fill_segments gs ns = Some hs'" "hs = g # hs'" by auto
    have "name_segment_ok g" using "3.prems"(2) False by simp
    then have "g \<noteq> []" "\<not> instance_segment g" "star_text g = g" "CHR ''.'' \<notin> set g" "NUL \<notin> set g"
      by (auto simp: name_segment_ok_def intro!: star_text_id)
    then show ?thesis using "3.IH"(2) [OF False h(1)] "3.prems" by (simp add: h)
  qed
qed auto

lemma fill_segments_count: "fill_segments gs ns = Some hs \<Longrightarrow> length ns = count_list gs ''{i}''"
  by (induction gs ns arbitrary: hs rule: fill_segments.induct) (auto split: if_splits list.splits)

lemma fill_segments_ex:
  "length ns = count_list gs ''{i}'' \<Longrightarrow> \<exists>hs. fill_segments gs ns = Some hs"
  by (induction gs ns rule: fill_segments.induct) (auto split: if_splits list.splits)

lemma FormInstantiatedPath_filled:
  assumes "name_segment_ok root" "\<forall>g\<in>set gs. g = ''{i}'' \<or> name_segment_ok g"
    "fill_segments gs (inst_numbers inst) = Some hs" "\<forall>n\<in>set (inst_numbers inst). instance_ok n"
    "int (length (root @ dotted hs)) < len"
  shows "DM_PRIV_FormInstantiatedPath (root @ dotted gs) inst len = Some (Inr (root @ dotted hs))"
    "path_schema (root @ dotted hs) = root @ dotted gs"
    "path_instances (root @ dotted hs) = inst_numbers inst"
proof -
  note t = fill_segments_tail [OF assms(3,2,4)]
  have r: "CHR ''.'' \<notin> set root" "star_text root = root" "\<forall>c\<in>set root. c \<noteq> CHR ''{''" "NUL \<notin> set root"
    using assms(1) by (auto simp: name_segment_ok_def intro!: star_text_id)
  have "segments (root @ dotted hs) = root # hs"
    by (rule segments_dotted) (use r t in auto)
  then show "path_schema (root @ dotted hs) = root @ dotted gs"
    "path_instances (root @ dotted hs) = inst_numbers inst"
    using t r by (simp_all add: path_schema_def path_instances_def)
  have "form_path_loop (dotted gs) (inst_numbers inst) (len - int (length root)) = Some (Inr (dotted hs))"
    by (rule form_path_dotted) (use assms in auto)
  then have "form_path_loop (root @ dotted gs) (inst_numbers inst) len = Some (Inr (root @ dotted hs))"
    using form_path_name [of root len "dotted gs" "inst_numbers inst"] r assms(5) by simp
  moreover have "nul_free (root @ dotted hs)" using r t by (auto simp: nul_free_def dotted_def)
  ultimately show "DM_PRIV_FormInstantiatedPath (root @ dotted gs) inst len = Some (Inr (root @ dotted hs))"
    by (simp add: DM_PRIV_FormInstantiatedPath_def c_string_id)
qed

section \<open>Instance strings of the database\<close>

text \<open>\<open>None\<close>: the buffer is full and the code terminates the process.\<close>

fun form_instance_loop :: "bool \<Rightarrow> int list \<Rightarrow> nat \<Rightarrow> char list option" where
  "form_instance_loop is_first [] len = Some []"
| "form_instance_loop is_first (n # ns) len =
    (let (txt, count) = USP_SNPRINTF len ((if is_first then [] else ''.'') @ show_int n)
     in if count = 0 then None
        else map_option (\<lambda>rest. txt @ replicate (count - length txt) NUL @ rest)
               (form_instance_loop False ns (len - count)))"

definition FormInstanceString :: "dm_instances \<Rightarrow> nat \<Rightarrow> cstr option" where
  "FormInstanceString inst len = map_option c_string (form_instance_loop True (inst_numbers inst) len)"

text \<open>\<open>None\<close>: the int overflows, or the instance array does, both undefined in C.\<close>

fun ParseInstanceInteger :: "cstr \<Rightarrow> int \<Rightarrow> (usp_err + int \<times> cstr) option" where
  "ParseInstanceInteger [] v = Some (Inr (v, []))"
| "ParseInstanceInteger (c # p) v =
    (if c = CHR ''.'' then Some (Inr (v, p))
     else if \<not> IS_NUMERIC c then Some (Inl USP_ERR_INTERNAL_ERROR)
     else let v' = v * 10 + int (digit_value c)
          in if INT_MAX < v' then None else ParseInstanceInteger p v')"

lemma ParseInstanceInteger_length:
  "ParseInstanceInteger p v = Some (Inr (n, q)) \<Longrightarrow> p \<noteq> [] \<Longrightarrow> length q < length p"
proof (induction p v rule: ParseInstanceInteger.induct)
  case (2 c p v)
  then show ?case by (cases "p = []") (auto simp: Let_def split: if_splits)
qed simp

function parse_instance_loop :: "cstr \<Rightarrow> dm_instances \<Rightarrow> (usp_err + dm_instances) option" where
  "parse_instance_loop p inst =
    (if p = [] then Some (Inr inst)
     else case ParseInstanceInteger p 0 of
            None \<Rightarrow> None
          | Some (Inl err) \<Rightarrow> Some (Inl err)
          | Some (Inr (n, rest)) \<Rightarrow>
              if order inst = MAX_DM_INSTANCE_ORDER then None
              else parse_instance_loop rest (push_instance n inst))"
  by pat_completeness auto
termination
  by (relation "measure (\<lambda>(p, n). length p)") (auto simp: ParseInstanceInteger_length)

declare parse_instance_loop.simps [simp del]

definition DM_PRIV_ParseInstanceString :: "cstr \<Rightarrow> (usp_err + dm_instances) option" where
  "DM_PRIV_ParseInstanceString str = parse_instance_loop str zero_instances"

lemma digits_value_ge: "a \<le> digits_value a s"
proof (induction s arbitrary: a)
  case (Cons c s)
  have "a \<le> 10 * a + digit_value c" by simp
  also have "\<dots> \<le> digits_value (10 * a + digit_value c) s" by (rule Cons)
  finally show ?case by simp
qed simp

lemma ParseInstanceInteger_digits:
  "\<forall>c\<in>set ds. IS_NUMERIC c \<Longrightarrow> int (digits_value a ds) \<le> INT_MAX \<Longrightarrow> rest = [] \<or> rest = CHR ''.'' # r \<Longrightarrow>
    ParseInstanceInteger (ds @ rest) (int a) = Some (Inr (int (digits_value a ds), drop 1 rest))"
proof (induction ds arbitrary: a)
  case (Cons c ds)
  have e: "int a * 10 + int (digit_value c) = int (10 * a + digit_value c)" by simp
  have "int (10 * a + digit_value c) \<le> INT_MAX"
    using Cons.prems(2) digits_value_ge [of "10 * a + digit_value c" ds] by simp
  moreover have "c \<noteq> CHR ''.''" using Cons.prems(1) numeric_not_sign_space(5) by simp
  ultimately show ?case using Cons by (simp add: e Let_def del: of_nat_add of_nat_mult)
qed auto

lemma ParseInstanceInteger_show:
  assumes "instance_ok n" "rest = [] \<or> rest = CHR ''.'' # r"
  shows "ParseInstanceInteger (show_int n @ rest) 0 = Some (Inr (n, drop 1 rest))"
proof -
  have "show_int n = show_nat (nat n)" using assms(1) by (simp add: show_int_def instance_ok_def)
  then show ?thesis using ParseInstanceInteger_digits [of "show_nat (nat n)" 0 rest r] assms
    by (simp add: show_nat_numeric digits_value_show_nat instance_ok_def)
qed

definition instance_text :: "int list \<Rightarrow> cstr" where
  "instance_text ns = join ''.'' (map show_int ns)"

lemma show_int_ne: "show_int n \<noteq> []"
  by (simp add: show_int_def show_nat_nonempty)

lemma parse_instance_loop_text:
  assumes "\<forall>n\<in>set ns. instance_ok n" "order inst + length ns \<le> MAX_DM_INSTANCE_ORDER"
  shows "parse_instance_loop (instance_text ns) inst = Some (Inr (push_instances ns inst))"
  using assms
proof (induction ns arbitrary: inst)
  case Nil
  show ?case by (simp add: instance_text_def parse_instance_loop.simps)
next
  case (Cons n ns)
  let ?rest = "if ns = [] then [] else CHR ''.'' # instance_text ns"
  have t: "instance_text (n # ns) = show_int n @ ?rest"
    by (cases ns) (simp_all add: instance_text_def)
  have "ParseInstanceInteger (show_int n @ ?rest) 0 = Some (Inr (n, drop 1 ?rest))"
    using Cons.prems(1) by (intro ParseInstanceInteger_show [where r = "instance_text ns"]) auto
  moreover have "drop 1 ?rest = instance_text ns" by (simp add: instance_text_def)
  moreover have "order inst \<noteq> MAX_DM_INSTANCE_ORDER" using Cons.prems(2) by auto
  ultimately show ?case
    using Cons.IH [of "push_instance n inst"] Cons.prems
    by (simp add: t parse_instance_loop.simps [of "show_int n @ ?rest"] show_int_ne)
qed

lemma form_instance_loop_text:
  "ns \<noteq> [] \<Longrightarrow> length ((if is_first then [] else ''.'') @ instance_text ns) < len \<Longrightarrow>
    form_instance_loop is_first ns len = Some ((if is_first then [] else ''.'') @ instance_text ns)"
proof (induction ns arbitrary: is_first len)
  case (Cons n ns)
  let ?sep = "if is_first then [] else ''.''"
  let ?t = "?sep @ show_int n"
  have t: "?sep @ instance_text (n # ns) = ?t @ (if ns = [] then [] else CHR ''.'' # instance_text ns)"
    by (cases ns) (simp_all add: instance_text_def)
  then have len: "length (?t @ (if ns = [] then [] else CHR ''.'' # instance_text ns)) < len"
    using Cons.prems(2) by metis
  then have "length ?t < len" by simp
  then have s: "USP_SNPRINTF len ?t = (?t, length ?t)" by (auto simp: USP_SNPRINTF_def)
  have "length ?t \<noteq> 0" by (simp add: show_int_ne)
  moreover have "form_instance_loop False ns (len - length ?t) =
      Some (if ns = [] then [] else CHR ''.'' # instance_text ns)"
    using Cons.IH [of False "len - length ?t"] len by auto
  ultimately have "form_instance_loop is_first (n # ns) len =
      Some (?t @ (if ns = [] then [] else CHR ''.'' # instance_text ns))"
    unfolding form_instance_loop.simps s by (simp del: length_append)
  then show ?case using t by metis
qed simp

lemma instance_text_nul_free: "nul_free (instance_text ns)"
proof -
  have "NUL \<notin> set (join ''.'' xs)" if "\<forall>x\<in>set xs. NUL \<notin> set x" for xs
    using that by (induction "''.''" xs rule: join.induct) auto
  then show ?thesis using show_int_nul by (simp add: nul_free_def instance_text_def)
qed

lemma FormInstanceString_text:
  "length (instance_text (inst_numbers inst)) < len \<Longrightarrow>
    FormInstanceString inst len = Some (instance_text (inst_numbers inst))"
  using form_instance_loop_text [of "inst_numbers inst" True len] c_string_id [OF instance_text_nul_free]
  by (cases "inst_numbers inst = []") (auto simp: FormInstanceString_def instance_text_def c_string_def)


section \<open>Properties\<close>

text \<open>
  The one-pass hash of a path is the hash of its schema text: empty segments and trailing
  dots dropped, every number after the first segment and every star replaced by "{i}". The
  numbers are collected in order, and a path with more than MAX_DM_INSTANCE_ORDER of them is
  refused, never written past the array.
\<close>

theorem CalcHashFromPath_segments:
  "DM_PRIV_CalcHashFromPath True path =
    (let ns = path_instances path in
     if MAX_DM_INSTANCE_ORDER < length ns then Inl USP_ERR_INTERNAL_ERROR
     else Inr (TEXT_UTILS_CalcHash (path_schema path),
       \<lparr>order = length ns, instances = ns @ replicate (MAX_DM_INSTANCE_ORDER - length ns) 0,
        inodes = replicate MAX_DM_INSTANCE_ORDER NULL\<rparr>))"
  using push_instances_zero [of "path_instances path"]
  by (simp add: CalcHashFromPath_eq MAX_DM_INSTANCE_ORDER_def Let_def)

text \<open>
  A schema path with its instance numbers filled in, when it fits the buffer, is hashed back
  to the schema path and gives back the same instance numbers.
\<close>

theorem FormInstantiatedPath_CalcHash:
  assumes "name_segment_ok root" "\<forall>g\<in>set gs. g = ''{i}'' \<or> name_segment_ok g"
    "inst_ok inst" "count_list gs ''{i}'' = order inst" "\<forall>n\<in>set (inst_numbers inst). instance_ok n"
    "\<forall>hs. fill_segments gs (inst_numbers inst) = Some hs \<longrightarrow> int (length (root @ dotted hs)) < len"
  obtains path where "DM_PRIV_FormInstantiatedPath (root @ dotted gs) inst len = Some (Inr path)"
    "\<exists>inst'. DM_PRIV_CalcHashFromPath True path = Inr (TEXT_UTILS_CalcHash (root @ dotted gs), inst') \<and>
      order inst' = order inst \<and> inst_numbers inst' = inst_numbers inst"
proof -
  have l: "length (inst_numbers inst) = count_list gs ''{i}''" using assms(3,4) by (simp add: inst_ok_def)
  then obtain hs where hs: "fill_segments gs (inst_numbers inst) = Some hs"
    using fill_segments_ex by blast
  note f = FormInstantiatedPath_filled [OF assms(1,2) hs assms(5)] assms(6) hs
  show thesis
  proof (rule that)
    show "DM_PRIV_FormInstantiatedPath (root @ dotted gs) inst len = Some (Inr (root @ dotted hs))"
      using f by blast
    have "length (inst_numbers inst) \<le> MAX_DM_INSTANCE_ORDER" using assms(3) by (simp add: inst_ok_def)
    note z = push_instances_zero [OF this]
    have "path_schema (root @ dotted hs) = root @ dotted gs" "path_instances (root @ dotted hs) = inst_numbers inst"
      using f by blast+
    then show "\<exists>inst'. DM_PRIV_CalcHashFromPath True (root @ dotted hs) =
        Inr (TEXT_UTILS_CalcHash (root @ dotted gs), inst') \<and>
        order inst' = order inst \<and> inst_numbers inst' = inst_numbers inst"
      using assms(3) z by (simp add: CalcHashFromPath_eq inst_ok_def)
  qed
qed

theorem FormInstantiatedPath_CalcHash_witness:
  "\<exists>path inst'. DM_PRIV_FormInstantiatedPath (''Device'' @ dotted [''A'', ''{i}''])
      \<lparr>order = 1, instances = [7, 0, 0, 0, 0, 0], inodes = replicate 6 NULL\<rparr> 256 = Some (Inr path) \<and>
    DM_PRIV_CalcHashFromPath True path = Inr (TEXT_UTILS_CalcHash (''Device'' @ dotted [''A'', ''{i}'']), inst') \<and>
    inst_numbers inst' = [7]"
  by (rule FormInstantiatedPath_CalcHash [of "''Device''" "[''A'', ''{i}'']"
        "\<lparr>order = 1, instances = [7, 0, 0, 0, 0, 0], inodes = replicate 6 NULL\<rparr>" 256])
     (auto simp: name_segment_ok_def instance_segment_def IS_NUMERIC_def less_eq_char_def inst_ok_def
        MAX_DM_INSTANCE_ORDER_def instance_ok_def INT_MAX_def show_int_def show_nat.simps)

lemma form_path_stuck:
  "\<forall>c\<in>set s. c \<noteq> CHR ''{'' \<Longrightarrow> s \<noteq> [] \<Longrightarrow> len \<le> int (length s) \<Longrightarrow> form_path_loop s ns len = None"
proof (induction s arbitrary: len)
  case (Cons c s)
  show ?case
  proof (cases "1 < len")
    case True
    then have "s \<noteq> []" using Cons.prems(3) by auto
    then have "form_path_loop s ns (len - 1) = None" using Cons by simp
    then show ?thesis using form_path_char [OF _ True, of c s ns] Cons.prems(1) by simp
  next
    case False
    then show ?thesis using Cons.prems(1) by (subst form_path_loop.simps(2)) simp
  qed
qed simp



text \<open>
  The instance string written to the database for an object is parsed back to the same
  instance numbers.
\<close>

theorem InstanceString_roundtrip:
  assumes "order inst \<le> MAX_DM_INSTANCE_ORDER" "\<forall>n\<in>set (inst_numbers inst). instance_ok n"
    "length (instance_text (inst_numbers inst)) < len"
  obtains str where "FormInstanceString inst len = Some str"
    "DM_PRIV_ParseInstanceString str = Some (Inr (push_instances (inst_numbers inst) zero_instances))"
proof
  show "FormInstanceString inst len = Some (instance_text (inst_numbers inst))"
    by (rule FormInstanceString_text [OF assms(3)])
  show "DM_PRIV_ParseInstanceString (instance_text (inst_numbers inst)) =
      Some (Inr (push_instances (inst_numbers inst) zero_instances))"
    unfolding DM_PRIV_ParseInstanceString_def
    by (rule parse_instance_loop_text) (use assms in \<open>auto simp: zero_instances_def\<close>)
qed

theorem InstanceString_roundtrip_witness:
  "\<exists>str. FormInstanceString \<lparr>order = 2, instances = [3, 12, 0, 0, 0, 0], inodes = replicate 6 NULL\<rparr> 256 = Some str \<and>
    DM_PRIV_ParseInstanceString str = Some (Inr (push_instances [3, 12] zero_instances))"
  by (rule InstanceString_roundtrip [of "\<lparr>order = 2, instances = [3, 12, 0, 0, 0, 0], inodes = replicate 6 NULL\<rparr>" 256])
     (auto simp: MAX_DM_INSTANCE_ORDER_def instance_ok_def INT_MAX_def instance_text_def show_int_def show_nat.simps)

end
