(* ===== verification/Data_Model.thy ===== *)
theory Data_Model
  imports Dm_Path
begin

text \<open>
  The data model tree of \<open>core/data_model.c\<close>: nodes, the node map that finds a node from the hash
  of its schema path, the registration of schema paths and the permissions of roles. Nodes live
  in a heap indexed by pointer. The links of the C structures are lists here: \<open>child_nodes\<close> is the
  doubly linked list of children in order, and a bucket of \<open>dm_node_map\<close> is the chain through
  \<open>next_node_map_link\<close>. The union \<open>registered\<close> is two records; the code reads the one that the type
  of the node selects. A callback is kept as whether it is registered.
\<close>

section \<open>Nodes and the state\<close>

datatype dm_node_type =
    kDMNodeType_Object_MultiInstance
  | kDMNodeType_Object_SingleInstance
  | kDMNodeType_Param_ConstantValue
  | kDMNodeType_Param_NumEntries
  | kDMNodeType_DBParam_ReadWrite
  | kDMNodeType_DBParam_ReadOnly
  | kDMNodeType_DBParam_ReadOnlyAuto
  | kDMNodeType_DBParam_ReadWriteAuto
  | kDMNodeType_DBParam_Secure
  | kDMNodeType_VendorParam_ReadOnly
  | kDMNodeType_VendorParam_ReadWrite
  | kDMNodeType_SyncOperation
  | kDMNodeType_AsyncOperation
  | kDMNodeType_Event

definition NON_GROUPED :: int where "NON_GROUPED = -1"
definition MAX_NODE_MAP_BUCKETS :: nat where "MAX_NODE_MAP_BUCKETS = 1024"
definition MAX_PATH_SEGMENTS :: nat where "MAX_PATH_SEGMENTS = 32"
definition kCTrustRole_Max :: nat where "kCTrustRole_Max = 2"

record dm_param_info =
  default_value :: "cstr option"
  param_group_id :: int
  type_flags :: "32 word"
  table_node :: node_ptr

record dm_object_info =
  validate_add_cb :: bool
  add_cb :: bool
  validate_del_cb :: bool
  del_cb :: bool
  unique_keys :: "cstr list list"
  group_id :: int
  group_writable :: bool
  inst_vector :: "dm_instances list"
  refresh_instances_cb :: bool
  refresh_instances_expiry_time :: int
  lock_period :: "32 word"

record dm_node =
  node_path :: cstr
  node_name :: cstr
  node_type :: dm_node_type
  child_nodes :: "node_ptr list"
  node_hash :: "32 word"
  node_order :: nat
  instance_nodes :: "node_ptr list"
  permissions :: "16 word list"
  param_info :: dm_param_info
  object_info :: dm_object_info

datatype life_event =
    ObjectCreation cstr
  | ObjectDeletion cstr
  | ResolveObjectDeletionPaths

record dm_state =
  heap :: "node_ptr \<Rightarrow> dm_node"
  next_ptr :: node_ptr
  dm_node_map :: "nat \<Rightarrow> node_ptr list"
  root_device_node :: node_ptr
  root_internal_node :: node_ptr
  refresh_instances_top_node :: node_ptr
  refreshed_instances_vector :: "dm_instances list"
  cur_lock_period :: "32 word"
  notify_subscriptions_allowed :: bool
  events :: "life_event list"

definition upd_node :: "node_ptr \<Rightarrow> (dm_node \<Rightarrow> dm_node) \<Rightarrow> dm_state \<Rightarrow> dm_state" where
  "upd_node p f st = st\<lparr>heap := (heap st)(p := f (heap st p))\<rparr>"

lemma upd_node_simps [simp]:
  "heap (upd_node p f st) = (heap st)(p := f (heap st p))"
  "next_ptr (upd_node p f st) = next_ptr st" "dm_node_map (upd_node p f st) = dm_node_map st"
  "root_device_node (upd_node p f st) = root_device_node st"
  "root_internal_node (upd_node p f st) = root_internal_node st"
  "refresh_instances_top_node (upd_node p f st) = refresh_instances_top_node st"
  "refreshed_instances_vector (upd_node p f st) = refreshed_instances_vector st"
  "cur_lock_period (upd_node p f st) = cur_lock_period st"
  "notify_subscriptions_allowed (upd_node p f st) = notify_subscriptions_allowed st"
  "events (upd_node p f st) = events st"
  by (simp_all add: upd_node_def)

definition IsObject :: "dm_node \<Rightarrow> bool" where
  "IsObject node \<longleftrightarrow> node_type node = kDMNodeType_Object_MultiInstance \<or>
    node_type node = kDMNodeType_Object_SingleInstance"

definition IsParam :: "dm_node \<Rightarrow> bool" where
  "IsParam node \<longleftrightarrow> node_type node \<noteq> kDMNodeType_Object_MultiInstance \<and>
    node_type node \<noteq> kDMNodeType_Object_SingleInstance \<and> node_type node \<noteq> kDMNodeType_SyncOperation \<and>
    node_type node \<noteq> kDMNodeType_AsyncOperation \<and> node_type node \<noteq> kDMNodeType_Event"

definition IsDbParam :: "dm_node \<Rightarrow> bool" where
  "IsDbParam node \<longleftrightarrow> node_type node \<in>
    {kDMNodeType_DBParam_ReadWrite, kDMNodeType_DBParam_ReadOnly, kDMNodeType_DBParam_ReadOnlyAuto,
     kDMNodeType_DBParam_ReadWriteAuto, kDMNodeType_DBParam_Secure, kDMNodeType_Param_ConstantValue,
     kDMNodeType_VendorParam_ReadOnly, kDMNodeType_VendorParam_ReadWrite}"

definition IsOperation :: "dm_node \<Rightarrow> bool" where
  "IsOperation node \<longleftrightarrow> node_type node = kDMNodeType_SyncOperation \<or>
    node_type node = kDMNodeType_AsyncOperation"

section \<open>The node map\<close>

definition FindNodeFromHash :: "dm_state \<Rightarrow> 32 word \<Rightarrow> node_ptr" where
  "FindNodeFromHash st hash =
    (let squashed_hash = unat hash mod MAX_NODE_MAP_BUCKETS
     in case find (\<lambda>n. node_hash (heap st n) = hash) (dm_node_map st squashed_hash) of
          None \<Rightarrow> NULL | Some n \<Rightarrow> n)"

definition zero_param_info :: dm_param_info where
  "zero_param_info = \<lparr>default_value = None, param_group_id = 0, type_flags = 0, table_node = NULL\<rparr>"

definition zero_object_info :: dm_object_info where
  "zero_object_info = \<lparr>validate_add_cb = False, add_cb = False, validate_del_cb = False, del_cb = False,
    unique_keys = [], group_id = 0, group_writable = False, inst_vector = [],
    refresh_instances_cb = False, refresh_instances_expiry_time = 0, lock_period = 0\<rparr>"

definition CreateNode :: "dm_state \<Rightarrow> cstr \<Rightarrow> dm_node_type \<Rightarrow> cstr \<Rightarrow> dm_state \<times> node_ptr" where
  "CreateNode st name type schema_path =
    (let hash = TEXT_UTILS_CalcHash schema_path;
         node = \<lparr>node_path = schema_path, node_name = name, node_type = type, child_nodes = [],
                 node_hash = hash, node_order = 0, instance_nodes = replicate 6 NULL,
                 permissions = replicate kCTrustRole_Max 0,
                 param_info = zero_param_info, object_info = zero_object_info\<rparr>
     in if FindNodeFromHash st hash \<noteq> NULL then (st, NULL)
        else let p = next_ptr st; squashed_hash = unat hash mod MAX_NODE_MAP_BUCKETS
        in (st\<lparr>heap := (heap st)(p := node), next_ptr := Suc p,
               dm_node_map := (dm_node_map st)(squashed_hash := p # dm_node_map st squashed_hash)\<rparr>, p))"

text \<open>
  What the node map holds: every node of a bucket is allocated, belongs to that bucket, carries the
  hash of its path, and no two nodes of the map have the same hash.
\<close>

definition map_nodes :: "dm_state \<Rightarrow> node_ptr set" where
  "map_nodes st = (\<Union>b. set (dm_node_map st b))"

definition node_map_ok :: "dm_state \<Rightarrow> bool" where
  "node_map_ok st \<longleftrightarrow> 0 < next_ptr st \<and>
    (\<forall>b. \<forall>p\<in>set (dm_node_map st b). 0 < p \<and> p < next_ptr st \<and>
       b = unat (node_hash (heap st p)) mod MAX_NODE_MAP_BUCKETS \<and>
       node_hash (heap st p) = TEXT_UTILS_CalcHash (node_path (heap st p))) \<and>
    inj_on (\<lambda>p. node_hash (heap st p)) (map_nodes st)"

lemma find_Some_in: "find P xs = Some x \<Longrightarrow> x \<in> set xs \<and> P x"
  by (induction xs) (auto split: if_splits)

lemma FindNodeFromHash_iff:
  assumes "node_map_ok st" "p \<noteq> NULL"
  shows "FindNodeFromHash st h = p \<longleftrightarrow> p \<in> map_nodes st \<and> node_hash (heap st p) = h"
proof
  assume "FindNodeFromHash st h = p"
  with assms(2) show "p \<in> map_nodes st \<and> node_hash (heap st p) = h"
    by (auto simp: FindNodeFromHash_def map_nodes_def Let_def dest!: find_Some_in split: option.splits)
next
  assume p: "p \<in> map_nodes st \<and> node_hash (heap st p) = h"
  then have "p \<in> set (dm_node_map st (unat h mod MAX_NODE_MAP_BUCKETS))"
    using assms(1) by (auto simp: map_nodes_def node_map_ok_def)
  with p obtain q where q: "find (\<lambda>n. node_hash (heap st n) = h) (dm_node_map st (unat h mod MAX_NODE_MAP_BUCKETS)) = Some q"
    by (metis (mono_tags, lifting) find_None_iff option.exhaust)
  then have "q \<in> map_nodes st \<and> node_hash (heap st q) = h"
    by (auto simp: map_nodes_def dest!: find_Some_in)
  then have "q = p" using p assms(1) by (auto simp: node_map_ok_def dest: inj_onD)
  with q show "FindNodeFromHash st h = p" by (simp add: FindNodeFromHash_def)
qed

lemma FindNodeFromHash_NULL:
  assumes "node_map_ok st"
  shows "FindNodeFromHash st h = NULL \<longleftrightarrow> (\<forall>p\<in>map_nodes st. node_hash (heap st p) \<noteq> h)"
proof
  assume n: "FindNodeFromHash st h = NULL"
  show "\<forall>p\<in>map_nodes st. node_hash (heap st p) \<noteq> h"
  proof
    fix p assume p: "p \<in> map_nodes st"
    then have "p \<noteq> NULL" using assms by (auto simp: node_map_ok_def map_nodes_def)
    with n p show "node_hash (heap st p) \<noteq> h" using FindNodeFromHash_iff [OF assms] by metis
  qed
next
  assume "\<forall>p\<in>map_nodes st. node_hash (heap st p) \<noteq> h"
  then show "FindNodeFromHash st h = NULL" using FindNodeFromHash_iff [OF assms] by blast
qed

text \<open>A change of a node that keeps its hash and its path keeps the map.\<close>

lemma node_map_ok_upd_node:
  assumes "node_map_ok st" "\<And>n. node_hash (f n) = node_hash n \<and> node_path (f n) = node_path n"
  shows "node_map_ok (upd_node p f st)" "map_nodes (upd_node p f st) = map_nodes st"
    "FindNodeFromHash (upd_node p f st) h = FindNodeFromHash st h"
proof -
  have h: "node_hash (heap (upd_node p f st) q) = node_hash (heap st q)"
    "node_path (heap (upd_node p f st) q) = node_path (heap st q)" for q using assms(2) by simp_all
  show m: "map_nodes (upd_node p f st) = map_nodes st" by (simp add: map_nodes_def)
  show "node_map_ok (upd_node p f st)"
    using assms(1) unfolding node_map_ok_def h m unfolding upd_node_simps .
  show "FindNodeFromHash (upd_node p f st) h = FindNodeFromHash st h"
    unfolding FindNodeFromHash_def h by simp
qed

text \<open>The map as an abstract table from hashes to nodes.\<close>

locale hash_table =
  fixes inv :: "'s \<Rightarrow> bool" and lookup :: "'s \<Rightarrow> 'k \<Rightarrow> node_ptr"
    and create :: "'s \<Rightarrow> 'a \<Rightarrow> 's \<times> node_ptr" and key :: "'a \<Rightarrow> 'k"
  assumes inv_create: "inv s \<Longrightarrow> inv (fst (create s x))"
    and create_fails: "inv s \<Longrightarrow> lookup s (key x) \<noteq> NULL \<Longrightarrow> create s x = (s, NULL)"
    and lookup_create: "inv s \<Longrightarrow> lookup s (key x) = NULL \<Longrightarrow> snd (create s x) \<noteq> NULL \<and>
      lookup (fst (create s x)) k = (if k = key x then snd (create s x) else lookup s k)"
begin

lemma create_NULL_iff: "inv s \<Longrightarrow> snd (create s x) = NULL \<longleftrightarrow> lookup s (key x) \<noteq> NULL"
  using create_fails lookup_create by (metis snd_conv)

lemma lookup_mono: "inv s \<Longrightarrow> lookup s k \<noteq> NULL \<Longrightarrow> lookup (fst (create s x)) k = lookup s k"
  using create_fails lookup_create by (metis fst_conv)

lemma lookup_created: "inv s \<Longrightarrow> snd (create s x) \<noteq> NULL \<Longrightarrow> lookup (fst (create s x)) (key x) = snd (create s x)"
  using create_fails lookup_create by (metis snd_conv)

end

lemma CreateNode_NULL: "FindNodeFromHash st (TEXT_UTILS_CalcHash sp) \<noteq> NULL \<Longrightarrow> CreateNode st name t sp = (st, NULL)"
  by (simp add: CreateNode_def Let_def)

lemma CreateNode_new:
  assumes ok: "node_map_ok st" and new: "FindNodeFromHash st (TEXT_UTILS_CalcHash sp) = NULL"
    and c: "CreateNode st name t sp = (st', p)"
  shows "p = next_ptr st" "p \<noteq> NULL" "map_nodes st' = insert p (map_nodes st)" "node_map_ok st'"
    "node_path (heap st' p) = sp" "node_hash (heap st' p) = TEXT_UTILS_CalcHash sp"
    "\<forall>q. q \<noteq> p \<longrightarrow> heap st' q = heap st q"
proof -
  let ?h = "TEXT_UTILS_CalcHash sp" and ?b = "unat (TEXT_UTILS_CalcHash sp) mod MAX_NODE_MAP_BUCKETS"
  show p: "p = next_ptr st" using c new by (simp add: CreateNode_def Let_def)
  then show "p \<noteq> NULL" using ok by (simp add: node_map_ok_def)
  have m: "dm_node_map st' = (dm_node_map st)(?b := p # dm_node_map st ?b)"
    and q: "\<forall>q. q \<noteq> p \<longrightarrow> heap st' q = heap st q" and n: "next_ptr st' = Suc p"
    and pp: "node_path (heap st' p) = sp" "node_hash (heap st' p) = ?h"
    using c new by (auto simp: CreateNode_def Let_def)
  show "\<forall>q. q \<noteq> p \<longrightarrow> heap st' q = heap st q" by (rule q)
  show "node_path (heap st' p) = sp" "node_hash (heap st' p) = ?h" by (rule pp)+
  show mn: "map_nodes st' = insert p (map_nodes st)"
    unfolding map_nodes_def m by (auto split: if_splits)
  have fresh: "p \<notin> map_nodes st" "\<forall>q\<in>map_nodes st. q \<noteq> p \<and> node_hash (heap st q) \<noteq> ?h"
    using ok new FindNodeFromHash_NULL [OF ok, of ?h] by (auto simp: node_map_ok_def map_nodes_def p)
  have old: "\<forall>q\<in>map_nodes st. heap st' q = heap st q" using fresh q by metis
  have "inj_on (\<lambda>q. node_hash (heap st' q)) (map_nodes st)"
    using ok old unfolding node_map_ok_def inj_on_def by simp
  then have "inj_on (\<lambda>q. node_hash (heap st' q)) (map_nodes st')"
    unfolding mn using fresh old pp by (auto simp: inj_on_def)
  moreover have "0 < q \<and> q < next_ptr st' \<and> b = unat (node_hash (heap st' q)) mod MAX_NODE_MAP_BUCKETS \<and>
      node_hash (heap st' q) = TEXT_UTILS_CalcHash (node_path (heap st' q))"
    if "q \<in> set (dm_node_map st' b)" for b q
  proof (cases "q = p")
    case True
    have "p \<notin> set (dm_node_map st b)" using fresh by (auto simp: map_nodes_def)
    with that True have "b = ?b" by (simp add: m split: if_splits)
    with True show ?thesis using pp n \<open>p \<noteq> NULL\<close> by simp
  next
    case False
    with that have "q \<in> set (dm_node_map st b)" by (auto simp: m split: if_splits)
    moreover from this have "heap st' q = heap st q" using old by (auto simp: map_nodes_def)
    ultimately have "0 < q \<and> q < next_ptr st \<and> b = unat (node_hash (heap st' q)) mod MAX_NODE_MAP_BUCKETS \<and>
        node_hash (heap st' q) = TEXT_UTILS_CalcHash (node_path (heap st' q))"
      using ok unfolding node_map_ok_def by metis
    then show ?thesis using n p by (metis less_SucI)
  qed
  moreover have "0 < next_ptr st'" using n by simp
  ultimately show "node_map_ok st'" unfolding node_map_ok_def by blast
qed

interpretation node_map: hash_table node_map_ok FindNodeFromHash
  "\<lambda>st (name, t, sp). CreateNode st name t sp" "\<lambda>(name, t, sp). TEXT_UTILS_CalcHash sp"
proof unfold_locales
  fix st :: dm_state and x :: "cstr \<times> dm_node_type \<times> cstr" and k :: "32 word"
  obtain name t sp where x: "x = (name, t, sp)" by (cases x)
  obtain st' p where c: "CreateNode st name t sp = (st', p)" by (cases "CreateNode st name t sp")
  assume ok: "node_map_ok st"
  show "node_map_ok (fst (case x of (name, t, sp) \<Rightarrow> CreateNode st name t sp))"
    using CreateNode_new(4) [OF ok _ c] CreateNode_NULL [of st sp name t] ok c x
    by (cases "FindNodeFromHash st (TEXT_UTILS_CalcHash sp) = NULL") auto
  show "FindNodeFromHash st (case x of (name, t, sp) \<Rightarrow> TEXT_UTILS_CalcHash sp) \<noteq> NULL \<Longrightarrow>
      (case x of (name, t, sp) \<Rightarrow> CreateNode st name t sp) = (st, NULL)"
    by (simp add: x CreateNode_NULL)
  assume "FindNodeFromHash st (case x of (name, t, sp) \<Rightarrow> TEXT_UTILS_CalcHash sp) = NULL"
  then have new: "FindNodeFromHash st (TEXT_UTILS_CalcHash sp) = NULL" by (simp add: x)
  note n = CreateNode_new [OF ok new c]
  have fresh: "p \<notin> map_nodes st"
    using ok n(1) by (auto simp: node_map_ok_def map_nodes_def)
  have "FindNodeFromHash st' k = (if k = TEXT_UTILS_CalcHash sp then p else FindNodeFromHash st k)"
  proof (cases "k = TEXT_UTILS_CalcHash sp")
    case True
    then show ?thesis using FindNodeFromHash_iff [OF n(4,2), of k] n(3,6) by simp
  next
    case False
    have "FindNodeFromHash st' k = q \<longleftrightarrow> FindNodeFromHash st k = q" if "q \<noteq> NULL" for q
      using FindNodeFromHash_iff [OF n(4) that, of k] FindNodeFromHash_iff [OF ok that, of k] n(3,6,7) fresh False
      by (cases "q = p") auto
    from this [of "FindNodeFromHash st' k"] this [of "FindNodeFromHash st k"] show ?thesis
      using False by metis
  qed
  then show "snd (case x of (name, t, sp) \<Rightarrow> CreateNode st name t sp) \<noteq> NULL \<and>
      FindNodeFromHash (fst (case x of (name, t, sp) \<Rightarrow> CreateNode st name t sp)) k =
      (if k = (case x of (name, t, sp) \<Rightarrow> TEXT_UTILS_CalcHash sp)
       then snd (case x of (name, t, sp) \<Rightarrow> CreateNode st name t sp) else FindNodeFromHash st k)"
    using n(2) by (simp add: x c)
qed


section \<open>Nodes of paths\<close>

text \<open>
  \<open>None\<close> is the NULL result. \<open>has_inst\<close> and \<open>has_qualified\<close> say which of the two out-parameters the
  caller passed; the values returned for one that was not passed are not looked at.
\<close>

definition DM_PRIV_GetNodeFromPath ::
    "dm_state \<Rightarrow> cstr \<Rightarrow> bool \<Rightarrow> bool \<Rightarrow> (node_ptr \<times> dm_instances \<times> bool) option" where
  "DM_PRIV_GetNodeFromPath st path has_inst has_qualified =
    (case DM_PRIV_CalcHashFromPath has_inst path of
       Inl err \<Rightarrow> None
     | Inr (hash, inst) \<Rightarrow>
        let n1 = FindNodeFromHash st hash;
            n = (if n1 = NULL then FindNodeFromHash st (add_separator (ADD_TO_HASH CHR ''.'' hash)) else n1);
            node = heap st n;
            is_qualified_instance = (order inst = node_order node);
            inst' = (if has_inst then
              inst\<lparr>inodes := take (order inst) (instance_nodes node) @ drop (order inst) (inodes inst)\<rparr> else inst)
        in if n = NULL then None
           else if has_qualified \<and> order inst \<noteq> node_order node \<and>
             (node_type node \<noteq> kDMNodeType_Object_MultiInstance \<or> Suc (order inst) \<noteq> node_order node)
           then None
           else Some (n, inst', is_qualified_instance))"

definition DM_PRIV_FindMatchingChild :: "dm_state \<Rightarrow> node_ptr \<Rightarrow> cstr \<Rightarrow> node_ptr" where
  "DM_PRIV_FindMatchingChild st parent name =
    (case find (\<lambda>c. node_name (heap st c) = name) (child_nodes (heap st parent)) of
       None \<Rightarrow> NULL | Some c \<Rightarrow> c)"

text \<open>\<open>None\<close> is the failed assertion on a node that is not a multi-instance object.\<close>

definition DM_PRIV_AddUniqueKey :: "dm_state \<Rightarrow> node_ptr \<Rightarrow> cstr list \<Rightarrow> dm_state option" where
  "DM_PRIV_AddUniqueKey st n unique_key =
    (if node_type (heap st n) = kDMNodeType_Object_MultiInstance
     then Some (upd_node n (\<lambda>node. node\<lparr>object_info :=
       (object_info node)\<lparr>unique_keys := unique_keys (object_info node) @ [unique_key]\<rparr>\<rparr>) st)
     else None)"

section \<open>Permissions\<close>

definition PERMIT_GET_INST :: "16 word" where "PERMIT_GET_INST = 0x0080"
definition PERMIT_ALL :: "16 word" where "PERMIT_ALL = 0xFFFF"
definition PERMIT_NONE :: "16 word" where "PERMIT_NONE = 0"

text \<open>INVALID_ROLE is kCTrustRole_Max. \<open>None\<close> is the role INTERNAL_ROLE.\<close>

record combined_role =
  inherited :: nat
  assigned :: nat

definition role_permissions :: "dm_node \<Rightarrow> nat \<Rightarrow> 16 word" where
  "role_permissions node role = (if role < kCTrustRole_Max then permissions node ! role else 0)"

definition DM_PRIV_GetPermissions :: "dm_node \<Rightarrow> combined_role option \<Rightarrow> 16 word" where
  "DM_PRIV_GetPermissions node role =
    (case role of
       None \<Rightarrow> PERMIT_ALL
     | Some r \<Rightarrow> 0 OR role_permissions node (inherited r) OR role_permissions node (assigned r))"

definition set_permission :: "nat \<Rightarrow> 16 word \<Rightarrow> dm_node \<Rightarrow> dm_node" where
  "set_permission role bm node = node\<lparr>permissions := (permissions node)[role := bm]\<rparr>"

text \<open>The recursion over the tree takes the depth left; \<open>None\<close> when the tree is deeper.\<close>

fun apply_permissions_children ::
    "(dm_state \<Rightarrow> node_ptr \<Rightarrow> dm_state option) \<Rightarrow> nat \<Rightarrow> 16 word \<Rightarrow> dm_state \<Rightarrow> node_ptr list \<Rightarrow> dm_state option" where
  "apply_permissions_children rec role bm st [] = Some st"
| "apply_permissions_children rec role bm st (c # cs) =
    (let st1 = upd_node c (set_permission role bm) st
     in case (if child_nodes (heap st1 c) \<noteq> [] then rec st1 c else Some st1) of
          None \<Rightarrow> None
        | Some st2 \<Rightarrow> apply_permissions_children rec role bm st2 cs)"

fun DM_PRIV_ApplyPermissions :: "nat \<Rightarrow> dm_state \<Rightarrow> node_ptr \<Rightarrow> nat \<Rightarrow> 16 word \<Rightarrow> dm_state option" where
  "DM_PRIV_ApplyPermissions 0 st n role bm = None"
| "DM_PRIV_ApplyPermissions (Suc depth) st n role bm =
    (let st1 = upd_node n (set_permission role bm) st
     in apply_permissions_children (\<lambda>s c. DM_PRIV_ApplyPermissions depth s c role bm) role bm st1
          (child_nodes (heap st1 n)))"

text \<open>Specification: the node and its descendants, in a tree of bounded height.\<close>

inductive subtree :: "dm_state \<Rightarrow> node_ptr \<Rightarrow> node_ptr \<Rightarrow> bool" for st where
  subtree_self: "subtree st n n"
| subtree_child: "c \<in> set (child_nodes (heap st n)) \<Longrightarrow> subtree st c m \<Longrightarrow> subtree st n m"

inductive_simps subtree_iff: "subtree st n m"

fun height_le :: "dm_state \<Rightarrow> nat \<Rightarrow> node_ptr \<Rightarrow> bool" where
  "height_le st 0 n = False"
| "height_le st (Suc k) n = (\<forall>c\<in>set (child_nodes (heap st n)). child_nodes (heap st c) = [] \<or> height_le st k c)"

definition with_permission :: "dm_state \<Rightarrow> node_ptr set \<Rightarrow> nat \<Rightarrow> 16 word \<Rightarrow> dm_state" where
  "with_permission st P role bm =
    st\<lparr>heap := \<lambda>m. if m \<in> P then set_permission role bm (heap st m) else heap st m\<rparr>"

lemma set_permission_simps [simp]:
  "child_nodes (set_permission role bm node) = child_nodes node"
  "set_permission role bm (set_permission role bm node) = set_permission role bm node"
  "node_path (set_permission role bm node) = node_path node" "node_hash (set_permission role bm node) = node_hash node"
  by (simp_all add: set_permission_def)

lemma with_permission_heap [simp]:
  "heap (with_permission st P role bm) m = (if m \<in> P then set_permission role bm (heap st m) else heap st m)"
  by (simp add: with_permission_def)

lemma upd_node_with_permission:
  "upd_node c (set_permission role bm) (with_permission st P role bm) = with_permission st (insert c P) role bm"
  by (auto simp: upd_node_def with_permission_def fun_eq_iff)

lemma with_permission_empty: "with_permission st {} role bm = st"
  by (simp add: with_permission_def)

lemma subtree_with_permission: "subtree (with_permission st P role bm) n m \<longleftrightarrow> subtree st n m"
proof
  show "subtree (with_permission st P role bm) n m \<Longrightarrow> subtree st n m"
    by (induction rule: subtree.induct) (auto intro: subtree.intros split: if_splits)
  show "subtree st n m \<Longrightarrow> subtree (with_permission st P role bm) n m"
    by (induction rule: subtree.induct) (auto intro: subtree.intros)
qed

lemma subtree_leaf: "child_nodes (heap st c) = [] \<Longrightarrow> {m. subtree st c m} = {c}"
  by (auto simp: subtree_iff [of st c])

lemma subtree_children:
  "{m. subtree st n m} = insert n (\<Union>c\<in>set (child_nodes (heap st n)). {m. subtree st c m})"
  by (auto simp: subtree_iff [of st n])

lemma ApplyPermissions_with:
  "height_le st k n \<Longrightarrow> DM_PRIV_ApplyPermissions k (with_permission st P role bm) n role bm =
    Some (with_permission st (P \<union> {m. subtree st n m}) role bm)"
proof (induction k arbitrary: n P)
  case (Suc k)
  have children: "apply_permissions_children (\<lambda>s c. DM_PRIV_ApplyPermissions k s c role bm) role bm
      (with_permission st Q role bm) cs =
      Some (with_permission st (Q \<union> (\<Union>c\<in>set cs. {m. subtree st c m})) role bm)"
    if "\<forall>c\<in>set cs. child_nodes (heap st c) = [] \<or> height_le st k c" for cs Q
    using that
  proof (induction cs arbitrary: Q)
    case (Cons c cs)
    let ?Q = "Q \<union> {m. subtree st c m}"
    have self: "c \<in> {m. subtree st c m}" by (simp add: subtree_self)
    have "(if child_nodes (heap st c) \<noteq> []
           then DM_PRIV_ApplyPermissions k (with_permission st (insert c Q) role bm) c role bm
           else Some (with_permission st (insert c Q) role bm)) = Some (with_permission st ?Q role bm)"
    proof (cases "child_nodes (heap st c) = []")
      case True
      then show ?thesis by (simp add: subtree_leaf)
    next
      case False
      then have "height_le st k c" using Cons.prems by simp
      from Suc.IH [OF this, of "insert c Q"] False self show ?thesis by (simp add: insert_absorb)
    qed
    then show ?case using Cons.IH [of ?Q] Cons.prems
      by (simp add: upd_node_with_permission Let_def Un_assoc)
  qed simp
  have "\<forall>c\<in>set (child_nodes (heap st n)). child_nodes (heap st c) = [] \<or> height_le st k c"
    using Suc.prems by simp
  from children [OF this, of "insert n P"] show ?case
    by (simp add: upd_node_with_permission Let_def subtree_children [of st n])
qed simp

section \<open>Properties\<close>

text \<open>
  Applying permissions to a node gives the bitmask to that role at the node and at every
  descendant, in a tree no deeper than the depth allowed; every other node, every other role and
  the rest of the state stay as they are.
\<close>

theorem ApplyPermissions_subtree:
  assumes "height_le st depth n"
  shows "DM_PRIV_ApplyPermissions depth st n role bm = Some (st\<lparr>heap := \<lambda>m.
    if subtree st n m then (heap st m)\<lparr>permissions := (permissions (heap st m))[role := bm]\<rparr> else heap st m\<rparr>)"
  using ApplyPermissions_with [OF assms, of "{}" role bm]
  unfolding with_permission_empty unfolding with_permission_def set_permission_def by simp

definition leaf_node :: dm_node where
  "leaf_node = \<lparr>node_path = ''Device.A'', node_name = ''A'', node_type = kDMNodeType_Object_SingleInstance,
    child_nodes = [], node_hash = TEXT_UTILS_CalcHash ''Device.A'', node_order = 0,
    instance_nodes = replicate 6 NULL, permissions = [0, 0], param_info = zero_param_info,
    object_info = zero_object_info\<rparr>"

definition small_tree :: dm_state where
  "small_tree = \<lparr>heap = (\<lambda>_. leaf_node)(1 := leaf_node\<lparr>node_path := ''Device'', node_name := ''Device'',
      node_hash := TEXT_UTILS_CalcHash ''Device'', child_nodes := [2]\<rparr>),
    next_ptr = 3, dm_node_map = (\<lambda>_. []), root_device_node = 1, root_internal_node = NULL,
    refresh_instances_top_node = NULL, refreshed_instances_vector = [], cur_lock_period = 1,
    notify_subscriptions_allowed = False, events = []\<rparr>"

theorem ApplyPermissions_subtree_witness:
  "DM_PRIV_ApplyPermissions 1 small_tree 1 0 0xFFFF = Some (small_tree\<lparr>heap := \<lambda>m.
    if subtree small_tree 1 m then (heap small_tree m)\<lparr>permissions := (permissions (heap small_tree m))[0 := 0xFFFF]\<rparr>
    else heap small_tree m\<rparr>)"
  by (rule ApplyPermissions_subtree) (simp add: small_tree_def leaf_node_def numeral_eq_Suc)

text \<open>
  A combined role grants exactly the union of what its inherited and its assigned role grant
  at the node, an invalid role grants nothing, and the internal role grants everything.
\<close>

theorem GetPermissions_union:
  "bit (DM_PRIV_GetPermissions node role) i \<longleftrightarrow>
    (case role of
       None \<Rightarrow> i < 16
     | Some r \<Rightarrow> (inherited r < kCTrustRole_Max \<and> bit (permissions node ! inherited r) i) \<or>
         (assigned r < kCTrustRole_Max \<and> bit (permissions node ! assigned r) i))"
proof (cases role)
  case None
  have "PERMIT_ALL = mask 16" by (simp add: PERMIT_ALL_def mask_eq_exp_minus_1)
  then have "bit PERMIT_ALL i \<longleftrightarrow> bit (mask 16 :: 16 word) i" by (rule arg_cong)
  also have "\<dots> \<longleftrightarrow> i < 16" by (simp only: bit_mask_iff possible_bit_word) simp
  finally show ?thesis using None by (simp add: DM_PRIV_GetPermissions_def)
next
  case (Some r)
  then show ?thesis by (auto simp: DM_PRIV_GetPermissions_def role_permissions_def bit_simps)
qed

end
