(* ===== verification/Dm_Schema.thy ===== *)
theory Dm_Schema
  imports Data_Model
begin

text \<open>
  Registration of schema paths, \<open>DM_PRIV_AddSchemaPath\<close> of \<open>core/data_model.c\<close>: the path is split
  into segments (\<open>ParseSchemaPath\<close>), the tree is walked from one of the two roots, and the nodes
  that do not exist yet are created and linked, parameters before objects among the children.
\<close>

section \<open>Segments of a schema path\<close>

text \<open>The bytes of the destination before its final NUL, and the length returned.\<close>

definition strncpy_path_segments :: "cstr \<Rightarrow> nat \<Rightarrow> char list \<times> nat" where
  "strncpy_path_segments src maxlen =
    (let dst = map (\<lambda>c. if c = CHR ''.'' then NUL else c) (take (maxlen - 1) src);
         len = length dst
     in (dst, if 0 < len \<and> last dst = NUL then len - 1 else len))"

record dm_path_segment =
  seg_name :: cstr
  seg_type :: dm_node_type

definition retype_last :: "dm_node_type \<Rightarrow> dm_path_segment list \<Rightarrow> dm_path_segment list" where
  "retype_last t segs = butlast segs @ [(last segs)\<lparr>seg_type := t\<rparr>]"

text \<open>
  \<open>None\<close>: an instance separator before any name makes the code write in front of the array.
  \<open>Some None\<close>: more than \<open>max_segments\<close> segments, the result -1.
\<close>

fun parse_segments ::
    "nat \<Rightarrow> char \<Rightarrow> char list \<Rightarrow> dm_path_segment list \<Rightarrow> dm_path_segment list option option" where
  "parse_segments max_segments last_char [] segs = Some (Some segs)"
| "parse_segments max_segments last_char (c # rest) segs =
    (if last_char = NUL \<and> c \<noteq> NUL then
       let segment_start = c_string (c # rest)
       in if segment_start = ''{i}'' \<or> IS_NUMERIC c then
            if segs = [] then None
            else parse_segments max_segments c rest (retype_last kDMNodeType_Object_MultiInstance segs)
          else if length segs = max_segments then Some None
          else parse_segments max_segments c rest
            (segs @ [\<lparr>seg_name = segment_start, seg_type = kDMNodeType_Object_SingleInstance\<rparr>])
     else parse_segments max_segments c rest segs)"

definition ParseSchemaPath ::
    "cstr \<Rightarrow> nat \<Rightarrow> dm_node_type \<Rightarrow> nat \<Rightarrow> dm_path_segment list option option" where
  "ParseSchemaPath path path_segment_len type max_segments =
    (let (path_segments, len) = strncpy_path_segments path path_segment_len
     in case parse_segments max_segments NUL (take len path_segments) [] of
          Some (Some segs) \<Rightarrow>
            Some (Some (if type \<noteq> kDMNodeType_Object_MultiInstance \<and> segs \<noteq> [] then retype_last type segs else segs))
        | r \<Rightarrow> r)"

section \<open>Adding a schema path\<close>

definition SUPPRESS_PRE_EXISTANCE_ERR :: "32 word" where "SUPPRESS_PRE_EXISTANCE_ERR = 1"
definition SUPPRESS_LAST_TYPE_CHECK :: "32 word" where "SUPPRESS_LAST_TYPE_CHECK = 2"

text \<open>\<open>FindLinkToFirstObject\<close> and the insertion before the link it finds.\<close>

fun insert_before_first_object :: "(node_ptr \<Rightarrow> bool) \<Rightarrow> node_ptr \<Rightarrow> node_ptr list \<Rightarrow> node_ptr list" where
  "insert_before_first_object is_obj c [] = [c]"
| "insert_before_first_object is_obj c (x # xs) =
    (if is_obj x then c # x # xs else x # insert_before_first_object is_obj c xs)"

definition link_child :: "node_ptr \<Rightarrow> node_ptr \<Rightarrow> dm_state \<Rightarrow> dm_state" where
  "link_child parent child st =
    upd_node parent (\<lambda>node. node\<lparr>child_nodes :=
      (if IsObject (heap st child) then child_nodes node @ [child]
       else insert_before_first_object (\<lambda>n. IsObject (heap st n)) child (child_nodes node))\<rparr>) st"

definition init_child :: "node_ptr \<Rightarrow> node_ptr list \<Rightarrow> dm_state \<Rightarrow> dm_state" where
  "init_child child inst_nodes st =
    upd_node child (\<lambda>node.
      (if IsObject node then node\<lparr>object_info := (object_info node)\<lparr>group_id := NON_GROUPED\<rparr>\<rparr> else node)
      \<lparr>instance_nodes := inst_nodes @ drop (length inst_nodes) (instance_nodes node),
       node_order := length inst_nodes\<rparr>) st"

text \<open>
  \<open>inst_nodes\<close> holds the multi-instance nodes met so far (\<open>inst.nodes\<close> up to \<open>inst.order\<close>). The
  outer \<open>None\<close> is a write past that array. The pointer is NULL when the path is refused; nodes
  created for a prefix of the path stay in the tree.
\<close>

fun add_schema_loop ::
    "32 word \<Rightarrow> dm_state \<Rightarrow> node_ptr \<Rightarrow> cstr \<Rightarrow> node_ptr list \<Rightarrow> dm_path_segment list \<Rightarrow> (dm_state \<times> node_ptr) option"
where
  "add_schema_loop flags st parent schema_path inst_nodes [] = Some (st, parent)"
| "add_schema_loop flags st parent schema_path inst_nodes (seg # segs) =
    (let is_multi = (seg_type seg = kDMNodeType_Object_MultiInstance);
         schema_path = schema_path @ ''.'' @ seg_name seg @ (if is_multi then ''.{i}'' else []);
         child = DM_PRIV_FindMatchingChild st parent (seg_name seg)
     in if child = NULL then
          if is_multi \<and> segs \<noteq> [] then Some (st, NULL)
          else let (st1, child) = CreateNode st (seg_name seg) (seg_type seg) schema_path
          in if child = NULL then Some (st1, NULL)
             else if is_multi \<and> length inst_nodes = MAX_DM_INSTANCE_ORDER then None
             else let inst_nodes = (if is_multi then inst_nodes @ [child] else inst_nodes)
             in add_schema_loop flags (init_child child inst_nodes (link_child parent child st1))
                  child schema_path inst_nodes segs
        else if segs = [] \<and> flags AND SUPPRESS_PRE_EXISTANCE_ERR = 0 then Some (st, NULL)
        else let check_node_type = \<not> (segs = [] \<and> flags AND SUPPRESS_LAST_TYPE_CHECK \<noteq> 0)
        in if check_node_type \<and> node_type (heap st child) \<noteq> seg_type seg then Some (st, NULL)
           else if is_multi \<and> length inst_nodes = MAX_DM_INSTANCE_ORDER then None
           else let inst_nodes = (if is_multi then inst_nodes @ [child] else inst_nodes)
           in if node_order (heap st child) \<noteq> length inst_nodes then Some (st, NULL)
              else add_schema_loop flags st child schema_path inst_nodes segs)"

definition DM_PRIV_AddSchemaPath ::
    "dm_state \<Rightarrow> cstr \<Rightarrow> dm_node_type \<Rightarrow> 32 word \<Rightarrow> (dm_state \<times> node_ptr) option" where
  "DM_PRIV_AddSchemaPath st path type flags =
    (case ParseSchemaPath path MAX_DM_PATH type MAX_PATH_SEGMENTS of
       None \<Rightarrow> None
     | Some None \<Rightarrow> Some (st, NULL)
     | Some (Some []) \<Rightarrow> Some (st, NULL)
     | Some (Some (seg # segs)) \<Rightarrow>
        if seg_name seg = node_name (heap st (root_device_node st))
        then add_schema_loop flags st (root_device_node st) (seg_name seg) [] segs
        else if seg_name seg = node_name (heap st (root_internal_node st))
        then add_schema_loop flags st (root_internal_node st) (seg_name seg) [] segs
        else Some (st, NULL))"

section \<open>Invariant\<close>

text \<open>
  A registered node is found through the node map, its path extends the path of its parent by its
  name, with "{i}" for a multi-instance object, and names are unique among the children.
\<close>

definition child_path :: "dm_node \<Rightarrow> cstr \<Rightarrow> dm_node_type \<Rightarrow> cstr" where
  "child_path parent name t =
    node_path parent @ ''.'' @ name @ (if t = kDMNodeType_Object_MultiInstance then ''.{i}'' else [])"

definition tree_ok :: "dm_state \<Rightarrow> bool" where
  "tree_ok st \<longleftrightarrow> node_map_ok st \<and> root_device_node st \<in> map_nodes st \<and> root_internal_node st \<in> map_nodes st \<and>
    node_path (heap st (root_device_node st)) = node_name (heap st (root_device_node st)) \<and>
    node_path (heap st (root_internal_node st)) = node_name (heap st (root_internal_node st)) \<and>
    (\<forall>p\<in>map_nodes st. \<forall>c\<in>set (child_nodes (heap st p)). c \<in> map_nodes st \<and>
       node_path (heap st c) = child_path (heap st p) (node_name (heap st c)) (node_type (heap st c)))"

definition registered :: "dm_state \<Rightarrow> cstr \<Rightarrow> node_ptr \<Rightarrow> bool" where
  "registered st sp p \<longleftrightarrow> p \<in> map_nodes st \<and> node_path (heap st p) = sp"

text \<open>Nodes once registered stay so, under the same pointer.\<close>

definition tree_extends :: "dm_state \<Rightarrow> dm_state \<Rightarrow> bool" where
  "tree_extends st st' \<longleftrightarrow> root_device_node st' = root_device_node st \<and> root_internal_node st' = root_internal_node st \<and>
    map_nodes st \<subseteq> map_nodes st' \<and>
    (\<forall>p\<in>map_nodes st. node_path (heap st' p) = node_path (heap st p) \<and> node_hash (heap st' p) = node_hash (heap st p) \<and>
       node_name (heap st' p) = node_name (heap st p) \<and> node_type (heap st' p) = node_type (heap st p) \<and>
       set (child_nodes (heap st p)) \<subseteq> set (child_nodes (heap st' p)))"

lemma tree_extends_refl: "tree_extends st st"
  by (simp add: tree_extends_def)

lemma tree_extends_trans: "tree_extends st st' \<Longrightarrow> tree_extends st' st'' \<Longrightarrow> tree_extends st st''"
proof -
  assume a: "tree_extends st st'" and b: "tree_extends st' st''"
  have "map_nodes st \<subseteq> map_nodes st'" using a by (simp add: tree_extends_def)
  moreover have "p \<in> map_nodes st' \<Longrightarrow> set (child_nodes (heap st' p)) \<subseteq> set (child_nodes (heap st'' p))" for p
    using b by (simp add: tree_extends_def)
  ultimately show ?thesis using a b unfolding tree_extends_def by (simp add: subset_iff)
qed

lemma set_insert_before: "set (insert_before_first_object f c xs) = insert c (set xs)"
  by (induction xs) auto

lemma FindMatchingChild_found:
  assumes "DM_PRIV_FindMatchingChild st parent name \<noteq> NULL"
  shows "DM_PRIV_FindMatchingChild st parent name \<in> set (child_nodes (heap st parent))"
    "node_name (heap st (DM_PRIV_FindMatchingChild st parent name)) = name"
  using assms by (auto simp: DM_PRIV_FindMatchingChild_def dest!: find_Some_in split: option.splits)


lemma CreateNode_fields:
  assumes "CreateNode st name t sp = (st', p)" "p \<noteq> NULL"
  shows "node_name (heap st' p) = name" "node_type (heap st' p) = t" "child_nodes (heap st' p) = []"
    "root_device_node st' = root_device_node st" "root_internal_node st' = root_internal_node st"
    "FindNodeFromHash st (TEXT_UTILS_CalcHash sp) = NULL"
  using assms by (auto simp: CreateNode_def Let_def split: if_splits)

lemma init_child_keeps:
  "node_hash (heap (init_child c ns st) q) = node_hash (heap st q)"
  "node_path (heap (init_child c ns st) q) = node_path (heap st q)"
  "node_name (heap (init_child c ns st) q) = node_name (heap st q)"
  "node_type (heap (init_child c ns st) q) = node_type (heap st q)"
  "child_nodes (heap (init_child c ns st) q) = child_nodes (heap st q)"
  "dm_node_map (init_child c ns st) = dm_node_map st" "next_ptr (init_child c ns st) = next_ptr st"
  "root_device_node (init_child c ns st) = root_device_node st"
  "root_internal_node (init_child c ns st) = root_internal_node st"
  by (simp_all add: init_child_def)

lemma link_child_keeps:
  "node_hash (heap (link_child p c st) q) = node_hash (heap st q)"
  "node_path (heap (link_child p c st) q) = node_path (heap st q)"
  "node_name (heap (link_child p c st) q) = node_name (heap st q)"
  "node_type (heap (link_child p c st) q) = node_type (heap st q)"
  "set (child_nodes (heap (link_child p c st) q)) =
    (if q = p then insert c (set (child_nodes (heap st p))) else set (child_nodes (heap st q)))"
  "dm_node_map (link_child p c st) = dm_node_map st" "next_ptr (link_child p c st) = next_ptr st"
  "root_device_node (link_child p c st) = root_device_node st"
  "root_internal_node (link_child p c st) = root_internal_node st"
  by (simp_all add: link_child_def set_insert_before)

lemmas child_keeps = init_child_keeps link_child_keeps

text \<open>The effect of creating and linking a child on what the invariant looks at.\<close>

lemma add_child_ok:
  assumes ok: "tree_ok st" and parent: "parent \<in> map_nodes st"
    and c: "CreateNode st name t (child_path (heap st parent) name t) = (st1, c)" "c \<noteq> NULL"
    and st': "st' = init_child c ns (link_child parent c st1)"
  shows "tree_ok st'" "tree_extends st st'" "registered st' (child_path (heap st parent) name t) c"
proof -
  have mok: "node_map_ok st" using ok by (simp add: tree_ok_def)
  note f = CreateNode_fields [OF c]
  note n = CreateNode_new [OF mok f(6) c(1)]
  have fresh: "c \<notin> map_nodes st" using mok n(1) by (auto simp: node_map_ok_def map_nodes_def)
  have m: "map_nodes st' = insert c (map_nodes st)"
    using n(3) by (simp add: map_nodes_def st' child_keeps)
  have old: "node_path (heap st' q) = node_path (heap st q)" "node_hash (heap st' q) = node_hash (heap st q)"
    "node_name (heap st' q) = node_name (heap st q)" "node_type (heap st' q) = node_type (heap st q)"
    "set (child_nodes (heap st' q)) =
      (if q = parent then insert c (set (child_nodes (heap st q))) else set (child_nodes (heap st q)))"
    if "q \<in> map_nodes st" for q
  proof -
    have "q \<noteq> c" "parent \<noteq> c" using that parent fresh by auto
    then have "heap st1 q = heap st q" "heap st1 parent = heap st parent" using n(7) by auto
    then show "node_path (heap st' q) = node_path (heap st q)" "node_hash (heap st' q) = node_hash (heap st q)"
      "node_name (heap st' q) = node_name (heap st q)" "node_type (heap st' q) = node_type (heap st q)"
      "set (child_nodes (heap st' q)) =
        (if q = parent then insert c (set (child_nodes (heap st q))) else set (child_nodes (heap st q)))"
      by (simp_all add: st' child_keeps)
  qed
  have new: "node_path (heap st' c) = child_path (heap st parent) name t" "node_name (heap st' c) = name"
    "node_type (heap st' c) = t" "set (child_nodes (heap st' c)) = {}"
    using n(5) f(1-3) parent fresh by (auto simp: st' child_keeps)
  have "node_map_ok st1" by (rule n(4))
  then have mok': "node_map_ok st'"
    unfolding node_map_ok_def map_nodes_def st' child_keeps .
  have roots: "root_device_node st' = root_device_node st" "root_internal_node st' = root_internal_node st"
    using f by (simp_all add: st' child_keeps)
  show ext: "tree_extends st st'" using old by (auto simp: tree_extends_def roots m)
  show "registered st' (child_path (heap st parent) name t) c" by (simp add: registered_def m new)
  have kids: "d \<in> map_nodes st' \<and> node_path (heap st' d) = child_path (heap st' p) (node_name (heap st' d)) (node_type (heap st' d))"
    if p: "p \<in> map_nodes st'" and d: "d \<in> set (child_nodes (heap st' p))" for p d
  proof (cases "p = c")
    case True
    then show ?thesis using d new by simp
  next
    case False
    then have pm: "p \<in> map_nodes st" using p m by simp
    have cp: "child_path (heap st' p) = child_path (heap st p)"
      using old(1) [OF pm] by (simp add: child_path_def fun_eq_iff)
    show ?thesis
    proof (cases "d = c")
      case True
      have "c \<notin> set (child_nodes (heap st p))" using ok pm fresh by (auto simp: tree_ok_def)
      then have "p = parent" using d old(5) [OF pm] True by (auto split: if_splits)
      then show ?thesis using True new cp m by simp
    next
      case False
      then have "d \<in> set (child_nodes (heap st p))" using d old(5) [OF pm] by (auto split: if_splits)
      then have "d \<in> map_nodes st" "node_path (heap st d) = child_path (heap st p) (node_name (heap st d)) (node_type (heap st d))"
        using ok pm by (auto simp: tree_ok_def)
      then show ?thesis using old(1,3,4) cp m by simp
    qed
  qed
  have "root_device_node st \<in> map_nodes st" "root_internal_node st \<in> map_nodes st"
    using ok by (simp_all add: tree_ok_def)
  then show "tree_ok st'"
    using ok mok' kids old(1,3) unfolding tree_ok_def roots m by simp
qed

definition segs_path :: "dm_path_segment list \<Rightarrow> cstr" where
  "segs_path segs = concat (map (\<lambda>seg. ''.'' @ seg_name seg @
    (if seg_type seg = kDMNodeType_Object_MultiInstance then ''.{i}'' else [])) segs)"

lemma add_schema_loop_ok:
  assumes "add_schema_loop flags st parent sp ns segs = Some (st', p)" "tree_ok st"
    "segs \<noteq> [] \<or> flags AND SUPPRESS_LAST_TYPE_CHECK = 0 \<Longrightarrow> registered st sp parent"
  shows "tree_ok st' \<and> tree_extends st st' \<and>
    (p \<noteq> NULL \<and> flags AND SUPPRESS_LAST_TYPE_CHECK = 0 \<longrightarrow> registered st' (sp @ segs_path segs) p)"
  using assms
proof (induction flags st parent sp ns segs rule: add_schema_loop.induct)
  case (1 flags st parent sp ns)
  then show ?case by (simp add: segs_path_def tree_extends_refl)
next
  case (2 flags st parent sp ns seg segs)
  let ?m = "seg_type seg = kDMNodeType_Object_MultiInstance"
  let ?sp = "sp @ ''.'' @ seg_name seg @ (if ?m then ''.{i}'' else [])"
  let ?c = "DM_PRIV_FindMatchingChild st parent (seg_name seg)"
  have pm: "parent \<in> map_nodes st" and psp: "node_path (heap st parent) = sp"
    using "2.prems"(3) by (simp_all add: registered_def)
  then have cp: "child_path (heap st parent) (seg_name seg) (seg_type seg) = ?sp" by (simp add: child_path_def)
  have path: "sp @ segs_path (seg # segs) = ?sp @ segs_path segs" by (simp add: segs_path_def)
  have stop: ?case if "Some (st, NULL) = Some (st', p)"
    using that "2.prems"(2) by (auto simp: tree_extends_refl)
  show ?case
  proof (cases "?c = NULL")
    case new: True
    show ?thesis
    proof (cases "?m \<and> segs \<noteq> []")
      case True
      then show ?thesis using "2.prems"(1) new stop by (simp add: Let_def)
    next
      case seg_ok: False
      obtain st1 c where c: "CreateNode st (seg_name seg) (seg_type seg) ?sp = (st1, c)"
        by (cases "CreateNode st (seg_name seg) (seg_type seg) ?sp")
      show ?thesis
      proof (cases "c = NULL")
        case True
        have mok: "node_map_ok st" using "2.prems"(2) by (simp add: tree_ok_def)
        have "st1 = st"
        proof (cases "FindNodeFromHash st (TEXT_UTILS_CalcHash ?sp) = NULL")
          case True
          then show ?thesis using CreateNode_new(2) [OF mok True c] \<open>c = NULL\<close> by simp
        next
          case False
          from CreateNode_NULL [OF this] c show ?thesis by simp
        qed
        then have "Some (st, NULL) = Some (st', p)" using "2.prems"(1) new seg_ok c True by (simp add: Let_def)
        then show ?thesis by (rule stop)
      next
        case cn: False
        let ?ns = "if ?m then ns @ [c] else ns"
        let ?st = "init_child c ?ns (link_child parent c st1)"
        note a = add_child_ok [OF "2.prems"(2) pm, of "seg_name seg" "seg_type seg" st1 c ?st ?ns, unfolded cp, OF c cn refl]
        have full: "\<not> (?m \<and> length ns = MAX_DM_INSTANCE_ORDER)" and
          rec: "add_schema_loop flags ?st c ?sp ?ns segs = Some (st', p)"
          using "2.prems"(1) new seg_ok c cn by (auto simp: Let_def split: if_splits)
        have "tree_ok st' \<and> tree_extends ?st st' \<and> 
            (p \<noteq> NULL \<and> flags AND SUPPRESS_LAST_TYPE_CHECK = 0 \<longrightarrow> registered st' (?sp @ segs_path segs) p)"
          by (rule "2.IH"(1) [OF refl refl refl new seg_ok c [symmetric] refl cn full refl rec a(1,3)])
        then show ?thesis unfolding path using tree_extends_trans [OF a(2)] by blast
      qed
    qed
  next
    case found: False
    note f = FindMatchingChild_found [OF found]
    let ?ns = "if ?m then ns @ [?c] else ns"
    let ?check = "\<not> (segs = [] \<and> flags AND SUPPRESS_LAST_TYPE_CHECK \<noteq> 0)"
    show ?thesis
    proof (cases "segs = [] \<and> flags AND SUPPRESS_PRE_EXISTANCE_ERR = 0 \<or>
        ?check \<and> node_type (heap st ?c) \<noteq> seg_type seg \<or> node_order (heap st ?c) \<noteq> length ?ns")
      case True
      then have "Some (st, NULL) = Some (st', p)"
        using "2.prems"(1) found by (auto simp: Let_def split: if_splits)
      then show ?thesis by (rule stop)
    next
      case False
      have reg: "registered st ?sp ?c" if "segs \<noteq> [] \<or> flags AND SUPPRESS_LAST_TYPE_CHECK = 0"
        using "2.prems"(2) pm f False that cp unfolding tree_ok_def registered_def by metis
      have go: "\<not> (segs = [] \<and> flags AND SUPPRESS_PRE_EXISTANCE_ERR = 0)"
        "\<not> (?check \<and> node_type (heap st ?c) \<noteq> seg_type seg)"
        using False by auto
      have full: "\<not> (?m \<and> length ns = MAX_DM_INSTANCE_ORDER)" "\<not> node_order (heap st ?c) \<noteq> length ?ns"
        and rec: "add_schema_loop flags st ?c ?sp ?ns segs = Some (st', p)"
        using "2.prems"(1) False found by (auto simp: Let_def split: if_splits)
      show ?thesis unfolding path
        by (rule "2.IH"(2) [OF refl refl refl found go(1) refl go(2) full(1) refl full(2) rec "2.prems"(2) reg])
    qed
  qed
qed

text \<open>The start of \<open>DATA_MODEL_Init\<close>: the two root nodes, in an empty tree.\<close>

definition zero_node :: dm_node where
  "zero_node = \<lparr>node_path = [], node_name = [], node_type = kDMNodeType_Object_MultiInstance, child_nodes = [],
    node_hash = 0, node_order = 0, instance_nodes = replicate 6 NULL,
    permissions = replicate kCTrustRole_Max 0, param_info = zero_param_info, object_info = zero_object_info\<rparr>"

definition empty_state :: dm_state where
  "empty_state = \<lparr>heap = (\<lambda>_. zero_node), next_ptr = 1, dm_node_map = (\<lambda>_. []), root_device_node = NULL,
    root_internal_node = NULL, refresh_instances_top_node = NULL, refreshed_instances_vector = [],
    cur_lock_period = 1, notify_subscriptions_allowed = False, events = []\<rparr>"

definition DATA_MODEL_Init_roots :: "dm_state \<Rightarrow> dm_state" where
  "DATA_MODEL_Init_roots st =
    (let (st1, d) = CreateNode st ''Device'' kDMNodeType_Object_SingleInstance ''Device'';
         (st2, i) = CreateNode (st1\<lparr>root_device_node := d\<rparr>) ''Internal'' kDMNodeType_Object_SingleInstance ''Internal''
     in st2\<lparr>root_internal_node := i\<rparr>)"

lemma node_map_ok_empty: "node_map_ok empty_state" "map_nodes empty_state = {}"
  by (simp_all add: node_map_ok_def empty_state_def map_nodes_def)

lemma root_hashes_differ: "TEXT_UTILS_CalcHash ''Device'' \<noteq> TEXT_UTILS_CalcHash ''Internal''"
  by code_simp

lemma node_map_ok_roots:
  "node_map_ok (st\<lparr>root_device_node := d\<rparr>) = node_map_ok st" "map_nodes (st\<lparr>root_device_node := d\<rparr>) = map_nodes st"
  "node_map_ok (st\<lparr>root_internal_node := d\<rparr>) = node_map_ok st" "map_nodes (st\<lparr>root_internal_node := d\<rparr>) = map_nodes st"
  by (simp_all add: node_map_ok_def map_nodes_def)

lemma tree_ok_init: "tree_ok (DATA_MODEL_Init_roots empty_state)"
proof -
  obtain st1 d where d: "CreateNode empty_state ''Device'' kDMNodeType_Object_SingleInstance ''Device'' = (st1, d)"
    by (cases "CreateNode empty_state ''Device'' kDMNodeType_Object_SingleInstance ''Device''")
  let ?st1 = "st1\<lparr>root_device_node := d\<rparr>"
  obtain st2 i where i: "CreateNode ?st1 ''Internal'' kDMNodeType_Object_SingleInstance ''Internal'' = (st2, i)"
    by (cases "CreateNode ?st1 ''Internal'' kDMNodeType_Object_SingleInstance ''Internal''")
  have e: "FindNodeFromHash empty_state h = NULL" for h
    using FindNodeFromHash_NULL [OF node_map_ok_empty(1)] by (simp add: node_map_ok_empty)
  note n = CreateNode_new [OF node_map_ok_empty(1) e d] and nf = CreateNode_fields [OF d]
  have ok1: "node_map_ok ?st1" using n(4) by (simp add: node_map_ok_roots)
  have "FindNodeFromHash ?st1 (TEXT_UTILS_CalcHash ''Internal'') = NULL"
    using FindNodeFromHash_NULL [OF ok1] n(3,6) root_hashes_differ by (simp add: node_map_ok_roots node_map_ok_empty)
  note m = CreateNode_new [OF ok1 this i] and mf = CreateNode_fields [OF i]
  have s: "DATA_MODEL_Init_roots empty_state = st2\<lparr>root_internal_node := i\<rparr>"
    by (simp add: DATA_MODEL_Init_roots_def d i)
  have mn: "map_nodes st2 = {i, d}" using m(3) n(3) by (simp add: node_map_ok_roots node_map_ok_empty)
  have ne: "d \<noteq> i"
  proof
    assume "d = i"
    then have "d \<notin> map_nodes ?st1" using m(1) ok1 by (auto simp: node_map_ok_def map_nodes_def)
    then show False using n(3) by (simp add: node_map_ok_roots)
  qed
  then have hd: "heap st2 d = heap st1 d" using m(7) by simp
  show ?thesis
    unfolding tree_ok_def s node_map_ok_roots
    using m(4,5) mn n(2,5) m(2) hd nf mf by auto
qed

text \<open>States reached from start-up by registering paths.\<close>

inductive schema_reachable :: "dm_state \<Rightarrow> bool" where
  reach_init: "schema_reachable (DATA_MODEL_Init_roots empty_state)"
| reach_add: "schema_reachable st \<Longrightarrow> DM_PRIV_AddSchemaPath st path type flags = Some (st', p) \<Longrightarrow>
    schema_reachable st'"

lemma AddSchemaPath_ok:
  assumes "DM_PRIV_AddSchemaPath st path type flags = Some (st', p)" "tree_ok st"
  shows "tree_ok st' \<and> tree_extends st st' \<and>
    (p \<noteq> NULL \<and> flags AND SUPPRESS_LAST_TYPE_CHECK = 0 \<longrightarrow>
      (\<exists>seg segs. ParseSchemaPath path MAX_DM_PATH type MAX_PATH_SEGMENTS = Some (Some (seg # segs)) \<and>
        registered st' (seg_name seg @ segs_path segs) p))"
proof -
  have stop: ?thesis if "p = NULL" "st' = st" using that assms(2) by (simp add: tree_extends_refl)
  show ?thesis
  proof (cases "ParseSchemaPath path MAX_DM_PATH type MAX_PATH_SEGMENTS")
    case None
    then show ?thesis using assms(1) by (simp add: DM_PRIV_AddSchemaPath_def)
  next
    case (Some r)
    show ?thesis
    proof (cases "\<exists>seg segs. r = Some (seg # segs)")
      case False
      then have "p = NULL" "st' = st"
        using assms(1) Some by (auto simp: DM_PRIV_AddSchemaPath_def split: option.splits list.splits)
      then show ?thesis by (rule stop)
    next
      case True
      then obtain seg segs where r: "r = Some (seg # segs)" by blast
      let ?d = "root_device_node st" and ?i = "root_internal_node st"
      have reg: "seg_name seg = node_name (heap st ?d) \<Longrightarrow> registered st (seg_name seg) ?d"
        "seg_name seg = node_name (heap st ?i) \<Longrightarrow> registered st (seg_name seg) ?i"
        using assms(2) by (simp_all add: tree_ok_def registered_def)
      consider "add_schema_loop flags st ?d (seg_name seg) [] segs = Some (st', p)" "seg_name seg = node_name (heap st ?d)"
        | "add_schema_loop flags st ?i (seg_name seg) [] segs = Some (st', p)" "seg_name seg = node_name (heap st ?i)"
        | "p = NULL" "st' = st"
        using assms(1) Some r by (auto simp: DM_PRIV_AddSchemaPath_def split: if_splits)
      then show ?thesis
      proof cases
        case 1
        from add_schema_loop_ok [OF 1(1) assms(2) reg(1) [OF 1(2)]] show ?thesis using Some r by auto
      next
        case 2
        from add_schema_loop_ok [OF 2(1) assms(2) reg(2) [OF 2(2)]] show ?thesis using Some r by auto
      next
        case 3
        then show ?thesis by (rule stop)
      qed
    qed
  qed
qed

lemma schema_reachable_ok: "schema_reachable st \<Longrightarrow> tree_ok st"
  by (induction rule: schema_reachable.induct) (auto simp: tree_ok_init dest: AddSchemaPath_ok)

lemma registered_found:
  assumes "tree_ok st" "registered st sp p"
  shows "FindNodeFromHash st (TEXT_UTILS_CalcHash sp) = p" "p \<noteq> NULL"
proof -
  have mok: "node_map_ok st" and p: "p \<in> map_nodes st" "node_path (heap st p) = sp"
    using assms by (auto simp: tree_ok_def registered_def)
  then show "p \<noteq> NULL" by (auto simp: node_map_ok_def map_nodes_def)
  moreover have "node_hash (heap st p) = TEXT_UTILS_CalcHash sp"
    using mok p by (auto simp: node_map_ok_def map_nodes_def)
  ultimately show "FindNodeFromHash st (TEXT_UTILS_CalcHash sp) = p"
    using FindNodeFromHash_iff [OF mok] p(1) by blast
qed

lemma registered_extends: "tree_extends st st' \<Longrightarrow> registered st sp p \<Longrightarrow> registered st' sp p"
  by (auto simp: tree_extends_def registered_def)


section \<open>Properties\<close>

text \<open>
  C30: in every state reached from start-up by registering schema paths, a registration that
  succeeds returns the node that the hash of the registered schema path finds, and all nodes
  found before, under whatever path, are still found: a hash collision is refused, never
  overwrites a node.
\<close>

theorem AddSchemaPath_found:
  assumes "schema_reachable st" "DM_PRIV_AddSchemaPath st path type flags = Some (st', p)" "p \<noteq> NULL"
    "flags AND SUPPRESS_LAST_TYPE_CHECK = 0"
  shows "(\<exists>seg segs. ParseSchemaPath path MAX_DM_PATH type MAX_PATH_SEGMENTS = Some (Some (seg # segs)) \<and>
      FindNodeFromHash st' (TEXT_UTILS_CalcHash (seg_name seg @ segs_path segs)) = p) \<and>
    (\<forall>q. q \<in> map_nodes st \<longrightarrow> FindNodeFromHash st' (TEXT_UTILS_CalcHash (node_path (heap st q))) = q)"
proof -
  note ok = schema_reachable_ok [OF assms(1)]
  note a = AddSchemaPath_ok [OF assms(2) ok]
  then have ok': "tree_ok st'" and ext: "tree_extends st st'" by auto
  obtain seg segs where r: "ParseSchemaPath path MAX_DM_PATH type MAX_PATH_SEGMENTS = Some (Some (seg # segs))"
    "registered st' (seg_name seg @ segs_path segs) p"
    using a assms(3,4) by blast
  have "FindNodeFromHash st' (TEXT_UTILS_CalcHash (node_path (heap st q))) = q" if "q \<in> map_nodes st" for q
    using registered_found(1) [OF ok'] registered_extends [OF ext] that unfolding registered_def by metis
  then show ?thesis using r registered_found(1) [OF ok' r(2)] by blast
qed

lemma init_facts:
  defines "s \<equiv> DATA_MODEL_Init_roots empty_state"
  shows "root_device_node s = 1" "next_ptr s = 3" "map_nodes s = {1, 2}"
    "node_name (heap s 1) = ''Device''" "node_path (heap s 1) = ''Device''" "child_nodes (heap s 1) = []"
    "node_order (heap s 1) = 0" "node_hash (heap s 1) = TEXT_UTILS_CalcHash ''Device''"
    "node_hash (heap s 2) = TEXT_UTILS_CalcHash ''Internal''"
  using root_hashes_differ
  by (auto simp: s_def map_nodes_def DATA_MODEL_Init_roots_def CreateNode_def FindNodeFromHash_def
      empty_state_def Let_def split: if_splits option.splits)
    (rule exI [of _ "unat (TEXT_UTILS_CalcHash ''Device'') mod MAX_NODE_MAP_BUCKETS"], metis)

theorem AddSchemaPath_found_witness:
  "\<exists>st'. DM_PRIV_AddSchemaPath (DATA_MODEL_Init_roots empty_state) ''Device.A''
      kDMNodeType_Object_SingleInstance 0 = Some (st', 3) \<and>
    (\<exists>seg segs. ParseSchemaPath ''Device.A'' MAX_DM_PATH kDMNodeType_Object_SingleInstance MAX_PATH_SEGMENTS =
        Some (Some (seg # segs)) \<and>
      FindNodeFromHash st' (TEXT_UTILS_CalcHash (seg_name seg @ segs_path segs)) = 3)"
proof -
  let ?s = "DATA_MODEL_Init_roots empty_state"
  have p: "ParseSchemaPath ''Device.A'' MAX_DM_PATH kDMNodeType_Object_SingleInstance MAX_PATH_SEGMENTS =
      Some (Some [\<lparr>seg_name = ''Device'', seg_type = kDMNodeType_Object_SingleInstance\<rparr>,
        \<lparr>seg_name = ''A'', seg_type = kDMNodeType_Object_SingleInstance\<rparr>])"
    by code_simp
  have h: "TEXT_UTILS_CalcHash ''Device.A'' \<noteq> TEXT_UTILS_CalcHash ''Device''"
    "TEXT_UTILS_CalcHash ''Device.A'' \<noteq> TEXT_UTILS_CalcHash ''Internal''"
    by code_simp+
  have mok: "node_map_ok ?s" using tree_ok_init by (simp add: tree_ok_def)
  have new: "FindNodeFromHash ?s (TEXT_UTILS_CalcHash ''Device.A'') = NULL"
    using FindNodeFromHash_NULL [OF mok] init_facts h by simp
  obtain st1 c where c: "CreateNode ?s ''A'' kDMNodeType_Object_SingleInstance ''Device.A'' = (st1, c)"
    by (cases "CreateNode ?s ''A'' kDMNodeType_Object_SingleInstance ''Device.A''")
  have c3: "c = 3" using CreateNode_new(1) [OF mok new c] init_facts by simp
  obtain st' where st': "DM_PRIV_AddSchemaPath ?s ''Device.A'' kDMNodeType_Object_SingleInstance 0 = Some (st', 3)"
    using c c3 init_facts by (simp add: DM_PRIV_AddSchemaPath_def p DM_PRIV_FindMatchingChild_def Let_def)
  from AddSchemaPath_found [OF reach_init st'] st' show ?thesis by simp
qed

text \<open>
  C29: for a node registered under a schema path with instance separators, the path made from
  its schema path and instance numbers leads back to that node, with the same numbers, marked as
  a qualified instance, and with the multi-instance nodes on the way filled in.
\<close>

theorem GetNodeFromPath_FormInstantiatedPath:
  assumes "tree_ok st" "registered st (root @ dotted gs) p" "node_order (heap st p) = order inst"
    "name_segment_ok root" "\<forall>g\<in>set gs. g = ''{i}'' \<or> name_segment_ok g"
    "inst_ok inst" "fill_segments gs (inst_numbers inst) = Some hs" "\<forall>n\<in>set (inst_numbers inst). instance_ok n"
    "int (length (root @ dotted hs)) < len"
  obtains path inst' where
    "DM_PRIV_FormInstantiatedPath (node_path (heap st p)) inst len = Some (Inr path)"
    "DM_PRIV_GetNodeFromPath st path True True = Some (p, inst', True)"
    "order inst' = order inst" "inst_numbers inst' = inst_numbers inst"
    "inodes inst' = take (order inst) (instance_nodes (heap st p)) @ replicate (6 - order inst) NULL"
proof -
  have np: "node_path (heap st p) = root @ dotted gs" using assms(2) by (simp add: registered_def)
  note f = FormInstantiatedPath_filled [OF assms(4,5,7,8,9)]
  note r = registered_found [OF assms(1,2)]
  let ?path = "root @ dotted hs"
  let ?n = "length (inst_numbers inst)"
  let ?z = "\<lparr>order = ?n, instances = inst_numbers inst @ replicate (6 - ?n) 0, inodes = replicate 6 NULL\<rparr>"
  let ?inst = "?z\<lparr>inodes := take ?n (instance_nodes (heap st p)) @ drop ?n (replicate 6 NULL)\<rparr>"
  have n: "?n = order inst" "?n \<le> MAX_DM_INSTANCE_ORDER" using assms(6) by (simp_all add: inst_ok_def)
  have h: "DM_PRIV_CalcHashFromPath True ?path = Inr (TEXT_UTILS_CalcHash (root @ dotted gs), ?z)"
    using push_instances_zero [OF n(2)] n by (simp add: CalcHashFromPath_eq f)
  have "DM_PRIV_GetNodeFromPath st ?path True True = Some (p, ?inst, True)"
    using n r assms(3) by (simp add: DM_PRIV_GetNodeFromPath_def h Let_def)
  then show thesis using that [of ?path ?inst] f(1) n by (simp add: np)
qed

theorem GetNodeFromPath_FormInstantiatedPath_witness:
  "\<exists>path inst'. DM_PRIV_FormInstantiatedPath (node_path (heap (DATA_MODEL_Init_roots empty_state) 1)) zero_instances 256 =
      Some (Inr path) \<and>
    DM_PRIV_GetNodeFromPath (DATA_MODEL_Init_roots empty_state) path True True = Some (1, inst', True)"
proof -
  have p: "registered (DATA_MODEL_Init_roots empty_state) (''Device'' @ dotted []) 1"
    "node_order (heap (DATA_MODEL_Init_roots empty_state) 1) = 0"
    using init_facts by (simp_all add: registered_def)
  show ?thesis
    by (rule GetNodeFromPath_FormInstantiatedPath [OF tree_ok_init p(1), of zero_instances "[]" 256])
       (use p in \<open>auto simp: zero_instances_def name_segment_ok_def instance_segment_def IS_NUMERIC_def
          less_eq_char_def inst_ok_def MAX_DM_INSTANCE_ORDER_def\<close>)
qed

end
