(* ===== verification/Dm_Inst_Vector.thy ===== *)
theory Dm_Inst_Vector
  imports Dm_Schema
begin

text \<open>
  The instance vectors of \<open>core/dm_inst_vector.c\<close>: each top-level multi-instance object keeps the
  list of the instances that exist of it and of the objects below it, either maintained by the
  agent or fetched from a vendor callback when the cached list has expired. An operation gives
  \<open>None\<close> where an assertion of the code fails (or \<open>DM_PRIV_FormInstantiatedPath\<close> does not return).
  The vendor is a parameter: the instances its callback reports, in order, with its result and
  expiry period, and the two readings of the clock.
\<close>

section \<open>Comparing instances\<close>

definition same_prefix :: "nat \<Rightarrow> dm_instances \<Rightarrow> dm_instances \<Rightarrow> bool" where
  "same_prefix k a b \<longleftrightarrow> take k (inodes a) = take k (inodes b) \<and> take k (instances a) = take k (instances b)"

definition IsExistInInstVector :: "dm_instances \<Rightarrow> dm_instances list \<Rightarrow> bool" where
  "IsExistInInstVector m dv \<longleftrightarrow> (\<exists>inst\<in>set dv. order m \<le> order inst \<and> same_prefix (order m) inst m)"

definition AddToInstVector :: "dm_instances \<Rightarrow> dm_instances list \<Rightarrow> dm_instances list" where
  "AddToInstVector inst dv = dv @ [inst]"

text \<open>An instance of the table \<open>inodes inst ! k\<close> below the parent instances of \<open>inst\<close>.\<close>

definition in_table :: "nat \<Rightarrow> dm_instances \<Rightarrow> dm_instances \<Rightarrow> bool" where
  "in_table k oi inst \<longleftrightarrow> take (Suc k) (inodes oi) = take (Suc k) (inodes inst) \<and>
    take k (instances oi) = take k (instances inst)"

section \<open>The vectors of the state\<close>

text \<open>The top-level node of an instance, after the assertions of the code.\<close>

definition top_node_of :: "dm_state \<Rightarrow> dm_instances \<Rightarrow> node_ptr option" where
  "top_node_of st inst =
    (let tn = inodes inst ! 0
     in if tn = NULL \<or> node_type (heap st tn) \<noteq> kDMNodeType_Object_MultiInstance then None else Some tn)"

definition div_of :: "dm_state \<Rightarrow> node_ptr \<Rightarrow> dm_instances list" where
  "div_of st tn = inst_vector (object_info (heap st tn))"

definition upd_info :: "node_ptr \<Rightarrow> (dm_object_info \<Rightarrow> dm_object_info) \<Rightarrow> dm_state \<Rightarrow> dm_state" where
  "upd_info p f st = upd_node p (\<lambda>node. node\<lparr>object_info := f (object_info node)\<rparr>) st"

definition set_div :: "node_ptr \<Rightarrow> dm_instances list \<Rightarrow> dm_state \<Rightarrow> dm_state" where
  "set_div p dv st = upd_info p (\<lambda>info. info\<lparr>inst_vector := dv\<rparr>) st"

definition DM_INST_VECTOR_Init :: "dm_instances list" where
  "DM_INST_VECTOR_Init = []"

definition DM_INST_VECTOR_Destroy :: "dm_instances list \<Rightarrow> dm_instances list" where
  "DM_INST_VECTOR_Destroy dv = []"

definition DM_INST_VECTOR_Add :: "dm_state \<Rightarrow> dm_instances \<Rightarrow> dm_state option" where
  "DM_INST_VECTOR_Add st inst =
    (if order inst = 0 then Some st
     else case top_node_of st inst of
            None \<Rightarrow> None
          | Some tn \<Rightarrow>
             (let dv = div_of st tn
              in if inst \<in> set dv then Some st else Some (set_div tn (AddToInstVector inst dv) st)))"

definition DM_INST_VECTOR_Remove :: "dm_state \<Rightarrow> dm_instances \<Rightarrow> dm_state option" where
  "DM_INST_VECTOR_Remove st inst =
    (if order inst = 0 then Some st
     else case top_node_of st inst of
            None \<Rightarrow> None
          | Some tn \<Rightarrow> Some (set_div tn
              (filter (\<lambda>oi. \<not> (order inst \<le> order oi \<and> same_prefix (order inst) oi inst)) (div_of st tn)) st))"

section \<open>Refreshing a vector\<close>

record vendor =
  refresh_cb :: "int \<Rightarrow> cstr \<Rightarrow> cstr list \<times> bool \<times> int"
  time_before :: int
  time_after :: int

definition DM_INST_VECTOR_RefreshInstance :: "dm_state \<Rightarrow> cstr \<Rightarrow> dm_state \<times> (usp_err + unit)" where
  "DM_INST_VECTOR_RefreshInstance st path =
    (case DM_PRIV_GetNodeFromPath st path True True of
       None \<Rightarrow> (st, Inl USP_ERR_OBJECT_DOES_NOT_EXIST)
     | Some (node, inst, is_qualified_instance) \<Rightarrow>
        if node_type (heap st node) \<noteq> kDMNodeType_Object_MultiInstance then (st, Inl USP_ERR_OBJECT_NOT_CREATABLE)
        else if \<not> is_qualified_instance then (st, Inl USP_ERR_INVALID_ARGUMENTS)
        else if inodes inst ! 0 \<noteq> refresh_instances_top_node st then (st, USP_OK)
        else if IsExistInInstVector inst (refreshed_instances_vector st) then (st, USP_OK)
        else if 1 < order inst \<and>
          \<not> IsExistInInstVector (inst\<lparr>order := order inst - 1\<rparr>) (refreshed_instances_vector st)
        then (st, Inl USP_ERR_OBJECT_DOES_NOT_EXIST)
        else (st\<lparr>refreshed_instances_vector := AddToInstVector inst (refreshed_instances_vector st)\<rparr>, USP_OK))"

text \<open>The paths of a list of instances, leaving out those whose path cannot be formed.\<close>

fun instance_paths :: "dm_state \<Rightarrow> dm_instances list \<Rightarrow> cstr list option" where
  "instance_paths st [] = Some []"
| "instance_paths st (inst # insts) =
    (let node = heap st (inodes inst ! (order inst - 1))
     in case DM_PRIV_FormInstantiatedPath (node_path node) inst (int MAX_DM_PATH) of
          None \<Rightarrow> None
        | Some (Inl err) \<Rightarrow> instance_paths st insts
        | Some (Inr path) \<Rightarrow> map_option (\<lambda>ps. path # ps) (instance_paths st insts))"

definition added_instances :: "dm_instances list \<Rightarrow> dm_instances list \<Rightarrow> dm_instances list" where
  "added_instances old new = filter (\<lambda>inst. \<not> IsExistInInstVector inst old) new"

text \<open>The notifications for a change of the vector, in the order they are sent.\<close>

definition life_events :: "dm_state \<Rightarrow> dm_instances list \<Rightarrow> dm_instances list \<Rightarrow> life_event list option" where
  "life_events st old new =
    (case instance_paths st (added_instances old new) of
       None \<Rightarrow> None
     | Some created \<Rightarrow>
        (let deleted_instances = added_instances new old
         in if deleted_instances = [] then Some (map ObjectCreation created)
            else case instance_paths st deleted_instances of
                   None \<Rightarrow> None
                 | Some deleted \<Rightarrow>
                     Some (map ObjectCreation created @ ResolveObjectDeletionPaths # map ObjectDeletion deleted)))"

definition RefreshInstVector :: "vendor \<Rightarrow> dm_state \<Rightarrow> node_ptr \<Rightarrow> (dm_state \<times> (usp_err + unit)) option" where
  "RefreshInstVector v st tn =
    (let info = object_info (heap st tn);
         schema_path = node_path (heap st tn)
     in if refresh_instances_top_node st \<noteq> NULL then Some (st, USP_OK)
        else if \<not> refresh_instances_cb info then Some (st, USP_OK)
        else if lock_period info = cur_lock_period st then Some (st, USP_OK)
        else if time_before v \<le> refresh_instances_expiry_time info
        then Some (upd_info tn (\<lambda>info. info\<lparr>lock_period := cur_lock_period st\<rparr>) st, USP_OK)
        else if drop (length schema_path - 3) schema_path \<noteq> ''{i}'' then None
        else
         let st1 = st\<lparr>refresh_instances_top_node := tn, refreshed_instances_vector := DM_INST_VECTOR_Init\<rparr>;
             (paths, ok, expiry_period) = refresh_cb v (group_id info) (take (length schema_path - 3) schema_path);
             st2 = fold (\<lambda>path s. fst (DM_INST_VECTOR_RefreshInstance s path)) paths st1
         in if \<not> ok
            then Some (st2\<lparr>refreshed_instances_vector := DM_INST_VECTOR_Destroy (refreshed_instances_vector st2),
                           refresh_instances_top_node := NULL\<rparr>, Inl USP_ERR_INTERNAL_ERROR)
            else
             let st3 = upd_info tn (\<lambda>info. info\<lparr>refresh_instances_expiry_time := time_after v + expiry_period,
                                                 lock_period := cur_lock_period st\<rparr>) st2;
                 old_instances = div_of st3 tn;
                 new_instances = refreshed_instances_vector st3
             in case (if notify_subscriptions_allowed st3 then life_events st3 old_instances new_instances else Some []) of
                  None \<Rightarrow> None
                | Some evs \<Rightarrow>
                    Some ((set_div tn new_instances st3)\<lparr>events := events st3 @ evs,
                      refresh_instances_top_node := NULL\<rparr>, USP_OK))"

definition DM_INST_VECTOR_RefreshTopLevelObjectInstances ::
    "vendor \<Rightarrow> dm_state \<Rightarrow> node_ptr \<Rightarrow> (dm_state \<times> (usp_err + unit)) option" where
  "DM_INST_VECTOR_RefreshTopLevelObjectInstances v st node = RefreshInstVector v st node"

definition DM_INST_VECTOR_NextLockPeriod :: "dm_state \<Rightarrow> dm_state" where
  "DM_INST_VECTOR_NextLockPeriod st = st\<lparr>cur_lock_period := cur_lock_period st + 1\<rparr>"

text \<open>The recursion over the tree, with the depth left.\<close>

fun refresh_children :: "(dm_state \<Rightarrow> node_ptr \<Rightarrow> dm_state option) \<Rightarrow> dm_state \<Rightarrow> node_ptr list \<Rightarrow> dm_state option" where
  "refresh_children rec st [] = Some st"
| "refresh_children rec st (c # cs) =
    (case (if IsObject (heap st c) then rec st c else Some st) of
       None \<Rightarrow> None | Some st1 \<Rightarrow> refresh_children rec st1 cs)"

fun RefreshBaselineInstances :: "nat \<Rightarrow> vendor \<Rightarrow> dm_state \<Rightarrow> node_ptr \<Rightarrow> dm_state option" where
  "RefreshBaselineInstances 0 v st parent = None"
| "RefreshBaselineInstances (Suc depth) v st parent =
    (if node_type (heap st parent) = kDMNodeType_Object_MultiInstance then
       case (if refresh_instances_cb (object_info (heap st parent)) then map_option fst (RefreshInstVector v st parent)
             else Some st) of
         None \<Rightarrow> None
       | Some st1 \<Rightarrow> if node_order (heap st1 parent) = 1 then Some st1 else None
     else refresh_children (\<lambda>s c. RefreshBaselineInstances depth v s c) st (child_nodes (heap st parent)))"

definition DM_INST_VECTOR_RefreshBaselineInstances :: "vendor \<Rightarrow> dm_state \<Rightarrow> node_ptr \<Rightarrow> dm_state option" where
  "DM_INST_VECTOR_RefreshBaselineInstances v st parent =
    map_option (\<lambda>s. s\<lparr>notify_subscriptions_allowed := True\<rparr>)
      (RefreshBaselineInstances (Suc MAX_PATH_SEGMENTS) v st parent)"

section \<open>Queries\<close>

definition DM_INST_VECTOR_IsExist :: "vendor \<Rightarrow> dm_state \<Rightarrow> dm_instances \<Rightarrow> (dm_state \<times> (usp_err + bool)) option" where
  "DM_INST_VECTOR_IsExist v st m =
    (if order m = 0 then Some (st, Inr True)
     else case top_node_of st m of
            None \<Rightarrow> None
          | Some tn \<Rightarrow>
             map_option (\<lambda>(st1, r). (st1, usp_bind r (\<lambda>_. Inr (IsExistInInstVector m (div_of st1 tn)))))
               (RefreshInstVector v st tn))"

text \<open>
  The functions that take a table node put it in the instance structure while they work. The
  structure they leave is part of their result.
\<close>

definition with_table :: "node_ptr \<Rightarrow> dm_instances \<Rightarrow> dm_instances" where
  "with_table node inst = inst\<lparr>inodes := (inodes inst)[order inst := node]\<rparr>"

definition undo_table :: "dm_instances \<Rightarrow> dm_instances" where
  "undo_table inst = inst\<lparr>inodes := (inodes inst)[order inst := NULL]\<rparr>"

definition DM_INST_VECTOR_GetNextInstance :: "dm_state \<Rightarrow> node_ptr \<Rightarrow> dm_instances \<Rightarrow> (int \<times> dm_instances) option" where
  "DM_INST_VECTOR_GetNextInstance st node inst =
    (let k = order inst; inst1 = with_table node inst
     in if MAX_DM_INSTANCE_ORDER \<le> k then None
        else case top_node_of st inst1 of
               None \<Rightarrow> None
             | Some tn \<Rightarrow>
                let highest_instance = foldl (\<lambda>h oi. if order oi = Suc k \<and> in_table k oi inst1 \<and> h < instances oi ! k
                      then instances oi ! k else h) 0 (div_of st tn)
                in Some (highest_instance + 1, undo_table inst1))"

definition DM_INST_VECTOR_GetNumInstances ::
    "vendor \<Rightarrow> dm_state \<Rightarrow> node_ptr \<Rightarrow> dm_instances \<Rightarrow> (dm_state \<times> (usp_err + int) \<times> dm_instances) option" where
  "DM_INST_VECTOR_GetNumInstances v st node inst =
    (let k = order inst; inst1 = with_table node inst
     in if MAX_DM_INSTANCE_ORDER \<le> k then None
        else case top_node_of st inst1 of
               None \<Rightarrow> None
             | Some tn \<Rightarrow>
               (case RefreshInstVector v st tn of
                  None \<Rightarrow> None
                | Some (st1, Inl err) \<Rightarrow> Some (st1, Inl err, inst1)
                | Some (st1, Inr _) \<Rightarrow>
                    let count = length (filter (\<lambda>oi. order oi = Suc k \<and> in_table k oi inst1) (div_of st1 tn))
                    in Some (st1, Inr (int count), undo_table inst1)))"

definition DM_INST_VECTOR_GetInstances ::
    "vendor \<Rightarrow> dm_state \<Rightarrow> node_ptr \<Rightarrow> dm_instances \<Rightarrow> (dm_state \<times> (usp_err + unit) \<times> int_vector \<times> dm_instances) option" where
  "DM_INST_VECTOR_GetInstances v st node inst =
    (let k = order inst; inst1 = with_table node inst
     in if MAX_DM_INSTANCE_ORDER \<le> k then None
        else case top_node_of st inst1 of
               None \<Rightarrow> None
             | Some tn \<Rightarrow>
               (case RefreshInstVector v st tn of
                  None \<Rightarrow> None
                | Some (st1, Inl err) \<Rightarrow> Some (st1, Inl err, INT_VECTOR_Init, undo_table inst1)
                | Some (st1, Inr _) \<Rightarrow>
                    let iv = fold (\<lambda>oi iv.
                          if Suc k \<le> order oi \<and> in_table k oi inst1
                          then if INT_VECTOR_Find iv (instances oi ! k) = INVALID
                               then INT_VECTOR_Add iv (instances oi ! k) else iv
                          else iv) (div_of st1 tn) INT_VECTOR_Init
                    in Some (st1, USP_OK, iv, undo_table inst1)))"

text \<open>\<open>None\<close> as for \<open>DM_PRIV_FormInstantiatedPath\<close>.\<close>

definition AddObjectInstanceIfPermitted ::
    "dm_state \<Rightarrow> dm_instances \<Rightarrow> str_vector \<Rightarrow> combined_role option \<Rightarrow> str_vector option" where
  "AddObjectInstanceIfPermitted st inst sv combined_role =
    (let node = heap st (inodes inst ! (order inst - 1))
     in if DM_PRIV_GetPermissions node combined_role AND PERMIT_GET_INST = 0 then Some sv
        else case DM_PRIV_FormInstantiatedPath (node_path node) inst (int MAX_DM_PATH) of
               None \<Rightarrow> None
             | Some (Inl err) \<Rightarrow> Some sv
             | Some (Inr path) \<Rightarrow> Some (STR_VECTOR_Add sv path))"

fun add_instance_paths ::
    "dm_state \<Rightarrow> dm_instances list \<Rightarrow> str_vector \<Rightarrow> combined_role option \<Rightarrow> str_vector option" where
  "add_instance_paths st [] sv r = Some sv"
| "add_instance_paths st (inst # insts) sv r =
    (case AddObjectInstanceIfPermitted st inst sv r of
       None \<Rightarrow> None | Some sv1 \<Rightarrow> add_instance_paths st insts sv1 r)"

definition DM_INST_VECTOR_GetAllInstancePaths_Unqualified ::
    "vendor \<Rightarrow> dm_state \<Rightarrow> node_ptr \<Rightarrow> dm_instances \<Rightarrow> str_vector \<Rightarrow> combined_role option \<Rightarrow>
     (dm_state \<times> (usp_err + unit) \<times> str_vector \<times> dm_instances) option" where
  "DM_INST_VECTOR_GetAllInstancePaths_Unqualified v st node inst sv r =
    (let k = order inst; inst1 = with_table node inst
     in if MAX_DM_INSTANCE_ORDER \<le> k then None
        else case top_node_of st inst1 of
               None \<Rightarrow> None
             | Some tn \<Rightarrow>
               (case RefreshInstVector v st tn of
                  None \<Rightarrow> None
                | Some (st1, Inl err) \<Rightarrow> Some (st1, Inl err, sv, undo_table inst1)
                | Some (st1, Inr _) \<Rightarrow>
                    map_option (\<lambda>sv1. (st1, USP_OK, sv1, undo_table inst1))
                      (add_instance_paths st1
                        (filter (\<lambda>oi. Suc k \<le> order oi \<and> in_table k oi inst1) (div_of st1 tn)) sv r)))"

definition DM_INST_VECTOR_GetAllInstancePaths_Qualified ::
    "vendor \<Rightarrow> dm_state \<Rightarrow> dm_instances \<Rightarrow> str_vector \<Rightarrow> combined_role option \<Rightarrow>
     (dm_state \<times> (usp_err + unit) \<times> str_vector) option" where
  "DM_INST_VECTOR_GetAllInstancePaths_Qualified v st inst sv r =
    (let k = order inst
     in if k = 0 \<or> MAX_DM_INSTANCE_ORDER \<le> k then None
        else case top_node_of st inst of
               None \<Rightarrow> None
             | Some tn \<Rightarrow>
               (case RefreshInstVector v st tn of
                  None \<Rightarrow> None
                | Some (st1, Inl err) \<Rightarrow> Some (st1, Inl err, sv)
                | Some (st1, Inr _) \<Rightarrow>
                    map_option (\<lambda>sv1. (st1, USP_OK, sv1))
                      (add_instance_paths st1
                        (filter (\<lambda>oi. k \<le> order oi \<and> same_prefix k oi inst) (div_of st1 tn)) sv r)))"


section \<open>Well-formed vectors\<close>

text \<open>
  A vector is closed when the parent of every nested instance is an entry of its own, and the
  entries are pairwise different instances of the top-level node.
\<close>

definition vector_ok :: "node_ptr \<Rightarrow> dm_instances list \<Rightarrow> bool" where
  "vector_ok tn dv \<longleftrightarrow>
    (\<forall>inst\<in>set dv. inst_ok inst \<and> 0 < order inst \<and> inodes inst ! 0 = tn \<and>
      (1 < order inst \<longrightarrow> (\<exists>p\<in>set dv. Suc (order p) = order inst \<and> same_prefix (order p) p inst))) \<and>
    sorted_wrt (\<lambda>a b. \<not> (order a = order b \<and> same_prefix (order a) a b)) dv"

lemma same_prefix_refl [simp]: "same_prefix k a a"
  by (simp add: same_prefix_def)

lemma same_prefix_sym: "same_prefix k a b \<Longrightarrow> same_prefix k b a"
  by (simp add: same_prefix_def)

lemma same_prefix_trans: "same_prefix k a b \<Longrightarrow> same_prefix k b c \<Longrightarrow> same_prefix k a c"
  by (simp add: same_prefix_def)

lemma same_prefix_le:
  assumes "same_prefix k a b" "j \<le> k"
  shows "same_prefix j a b"
proof -
  have "take j xs = take j (take k xs)" for xs :: "'c list" using assms(2) by (simp add: min_def)
  then show ?thesis using assms(1) by (metis same_prefix_def)
qed

lemma same_prefix_order [simp]: "same_prefix k (a\<lparr>order := n\<rparr>) b \<longleftrightarrow> same_prefix k a b"
  "same_prefix k a (b\<lparr>order := n\<rparr>) \<longleftrightarrow> same_prefix k a b"
  by (simp_all add: same_prefix_def)

text \<open>In a closed vector every prefix of an entry is an entry.\<close>

lemma vector_ok_prefix:
  assumes "vector_ok tn dv" "inst \<in> set dv" "0 < k" "k \<le> order inst"
  shows "\<exists>p\<in>set dv. order p = k \<and> same_prefix k p inst"
  using assms(2,4)
proof (induction "order inst - k" arbitrary: inst)
  case 0
  then show ?case by (intro bexI [of _ inst]) auto
next
  case (Suc d)
  then have "1 < order inst" using assms(3) by linarith
  then obtain q where q: "q \<in> set dv" "Suc (order q) = order inst" "same_prefix (order q) q inst"
    using assms(1) Suc.prems(1) by (auto simp: vector_ok_def)
  have "d = order q - k" "k \<le> order q" using Suc q(2) by linarith+
  from Suc.hyps(1) [OF this(1) q(1) this(2)] obtain p where
    p: "p \<in> set dv" "order p = k" "same_prefix k p q" by blast
  have "same_prefix k q inst" using q(3) \<open>k \<le> order q\<close> by (rule same_prefix_le)
  with p show ?case using same_prefix_trans by blast
qed

lemma vector_ok_Nil: "vector_ok tn []"
  by (simp add: vector_ok_def)

lemma vector_ok_AddTo:
  assumes ok: "vector_ok tn dv" and inst: "inst_ok inst" "0 < order inst" "inodes inst ! 0 = tn"
    and new: "\<not> IsExistInInstVector inst dv"
    and parent: "1 < order inst \<Longrightarrow> IsExistInInstVector (inst\<lparr>order := order inst - 1\<rparr>) dv"
  shows "vector_ok tn (AddToInstVector inst dv)"
proof -
  have par: "\<exists>p\<in>set dv. Suc (order p) = order inst \<and> same_prefix (order p) p inst" if o: "1 < order inst"
  proof -
    obtain oi where oi: "oi \<in> set dv" "order inst - 1 \<le> order oi" "same_prefix (order inst - 1) oi inst"
      using parent [OF o] by (auto simp: IsExistInInstVector_def)
    have "0 < order inst - 1" using o by simp
    from vector_ok_prefix [OF ok oi(1) this oi(2)] obtain p where
      p: "p \<in> set dv" "order p = order inst - 1" "same_prefix (order inst - 1) p oi" by blast
    have "same_prefix (order p) p inst" unfolding p(2) using p(3) oi(3) by (rule same_prefix_trans)
    moreover have "Suc (order p) = order inst" using p(2) o by simp
    ultimately show ?thesis using p(1) by blast
  qed
  have "\<forall>oi\<in>set dv. \<not> (order oi = order inst \<and> same_prefix (order oi) oi inst)"
    using new by (auto simp: IsExistInInstVector_def)
  moreover have "sorted_wrt (\<lambda>a b. \<not> (order a = order b \<and> same_prefix (order a) a b)) dv"
    using ok by (simp add: vector_ok_def)
  ultimately have sorted: "sorted_wrt (\<lambda>a b. \<not> (order a = order b \<and> same_prefix (order a) a b)) (dv @ [inst])"
    by (simp add: sorted_wrt_append)
  have entry: "inst_ok i \<and> 0 < order i \<and> inodes i ! 0 = tn \<and>
      (1 < order i \<longrightarrow> (\<exists>p\<in>set (dv @ [inst]). Suc (order p) = order i \<and> same_prefix (order p) p i))"
    if i: "i \<in> set (dv @ [inst])" for i
  proof (cases "i = inst")
    case True
    then show ?thesis using inst par unfolding set_append by blast
  next
    case False
    then have "i \<in> set dv" using i by simp
    then have "inst_ok i \<and> 0 < order i \<and> inodes i ! 0 = tn \<and>
      (1 < order i \<longrightarrow> (\<exists>p\<in>set dv. Suc (order p) = order i \<and> same_prefix (order p) p i))"
      using ok unfolding vector_ok_def by blast
    then show ?thesis unfolding set_append by blast
  qed
  show ?thesis unfolding vector_ok_def AddToInstVector_def using sorted entry by blast
qed

section \<open>What the operations leave alone\<close>

text \<open>The parts of the state that the instance vectors never change.\<close>

definition same_tree :: "dm_state \<Rightarrow> dm_state \<Rightarrow> bool" where
  "same_tree st st' \<longleftrightarrow> dm_node_map st' = dm_node_map st \<and>
    (\<forall>p. \<exists>info. heap st' p = (heap st p)\<lparr>object_info := info\<rparr>)"

lemma same_tree_refl: "same_tree st st"
proof -
  have "heap st p = (heap st p)\<lparr>object_info := object_info (heap st p)\<rparr>" for p by simp
  then show ?thesis unfolding same_tree_def by blast
qed

lemma same_tree_fields:
  assumes "same_tree st st'"
  shows "node_hash (heap st' p) = node_hash (heap st p)" "node_order (heap st' p) = node_order (heap st p)"
    "instance_nodes (heap st' p) = instance_nodes (heap st p)" "node_type (heap st' p) = node_type (heap st p)"
    "node_path (heap st' p) = node_path (heap st p)" "child_nodes (heap st' p) = child_nodes (heap st p)"
    "permissions (heap st' p) = permissions (heap st p)" "dm_node_map st' = dm_node_map st"
proof -
  obtain info where "heap st' p = (heap st p)\<lparr>object_info := info\<rparr>"
    using assms unfolding same_tree_def by blast
  then show "node_hash (heap st' p) = node_hash (heap st p)" "node_order (heap st' p) = node_order (heap st p)"
    "instance_nodes (heap st' p) = instance_nodes (heap st p)" "node_type (heap st' p) = node_type (heap st p)"
    "node_path (heap st' p) = node_path (heap st p)" "child_nodes (heap st' p) = child_nodes (heap st p)"
    "permissions (heap st' p) = permissions (heap st p)" by simp_all
  show "dm_node_map st' = dm_node_map st" using assms by (simp add: same_tree_def)
qed

lemma same_tree_trans:
  assumes "same_tree st st'" "same_tree st' st''"
  shows "same_tree st st''"
proof -
  have "\<exists>info. heap st'' p = (heap st p)\<lparr>object_info := info\<rparr>" for p
  proof -
    obtain i j where "heap st' p = (heap st p)\<lparr>object_info := i\<rparr>" "heap st'' p = (heap st' p)\<lparr>object_info := j\<rparr>"
      using assms unfolding same_tree_def by blast
    then have "heap st'' p = (heap st p)\<lparr>object_info := j\<rparr>" by simp
    then show ?thesis ..
  qed
  then show ?thesis using assms by (simp add: same_tree_def)
qed

lemma same_tree_upd_info [simp]: "same_tree st (upd_info q f st)"
proof -
  have "\<exists>info. heap (upd_info q f st) p = (heap st p)\<lparr>object_info := info\<rparr>" for p
  proof (cases "p = q")
    case False
    then have "heap (upd_info q f st) p = (heap st p)\<lparr>object_info := object_info (heap st p)\<rparr>"
      by (simp add: upd_info_def)
    then show ?thesis by blast
  qed (auto simp: upd_info_def)
  then show ?thesis by (simp add: same_tree_def upd_info_def)
qed

lemma same_tree_set_div [simp]: "same_tree st (set_div q dv st)"
  by (simp add: set_div_def)

lemma same_tree_heap: "heap st'' = heap st' \<Longrightarrow> dm_node_map st'' = dm_node_map st' \<Longrightarrow> same_tree st st' \<Longrightarrow> same_tree st st''"
  by (simp add: same_tree_def)

lemma same_tree_GetNode:
  assumes "same_tree st st'"
  shows "DM_PRIV_GetNodeFromPath st' path hi hq = DM_PRIV_GetNodeFromPath st path hi hq"
proof -
  note f = same_tree_fields [OF assms]
  have h: "FindNodeFromHash st' h = FindNodeFromHash st h" for h
    unfolding FindNodeFromHash_def f ..
  show ?thesis unfolding DM_PRIV_GetNodeFromPath_def Let_def h f ..
qed


lemma same_tree_instance_paths:
  "same_tree st st' \<Longrightarrow> instance_paths st' insts = instance_paths st insts"
  by (induction insts) (simp_all add: same_tree_fields Let_def split: option.split sum.split)

lemma same_tree_life_events: "same_tree st st' \<Longrightarrow> life_events st' old new = life_events st old new"
  unfolding life_events_def Let_def by (simp add: same_tree_instance_paths cong: option.case_cong if_cong)

definition node_arrays_ok :: "dm_state \<Rightarrow> bool" where
  "node_arrays_ok st \<longleftrightarrow> (\<forall>p. length (instance_nodes (heap st p)) = MAX_DM_INSTANCE_ORDER)"

lemma GetNodeFromPath_inst:
  assumes "DM_PRIV_GetNodeFromPath st path True hq = Some (n, inst, q)" "node_arrays_ok st"
  shows "inst_ok inst" "order inst = 0 \<Longrightarrow> inodes inst ! 0 = NULL" "n \<noteq> NULL"
    "q \<longleftrightarrow> order inst = node_order (heap st n)"
proof -
  let ?ns = "path_instances path"
  have len: "length ?ns \<le> MAX_DM_INSTANCE_ORDER"
    using assms(1) by (auto simp: DM_PRIV_GetNodeFromPath_def CalcHashFromPath_eq split: if_splits)
  note z = push_instances_zero [OF this]
  show "inst_ok inst" "order inst = 0 \<Longrightarrow> inodes inst ! 0 = NULL" "n \<noteq> NULL"
    "q \<longleftrightarrow> order inst = node_order (heap st n)"
    using assms len
    by (auto simp: DM_PRIV_GetNodeFromPath_def CalcHashFromPath_eq z Let_def inst_ok_def node_arrays_ok_def
        MAX_DM_INSTANCE_ORDER_def split: if_splits)
qed

text \<open>A report of the vendor changes the refreshed vector only, and keeps it well-formed.\<close>

lemma RefreshInstance_keeps:
  "heap (fst (DM_INST_VECTOR_RefreshInstance st path)) = heap st"
  "dm_node_map (fst (DM_INST_VECTOR_RefreshInstance st path)) = dm_node_map st"
  "refresh_instances_top_node (fst (DM_INST_VECTOR_RefreshInstance st path)) = refresh_instances_top_node st"
  "cur_lock_period (fst (DM_INST_VECTOR_RefreshInstance st path)) = cur_lock_period st"
  "notify_subscriptions_allowed (fst (DM_INST_VECTOR_RefreshInstance st path)) = notify_subscriptions_allowed st"
  "events (fst (DM_INST_VECTOR_RefreshInstance st path)) = events st"
  by (simp_all add: DM_INST_VECTOR_RefreshInstance_def split: option.split prod.split)

lemma RefreshInstance_vector_ok:
  assumes "node_arrays_ok st" "refresh_instances_top_node st = tn" "tn \<noteq> NULL"
    "vector_ok tn (refreshed_instances_vector st)"
  shows "vector_ok tn (refreshed_instances_vector (fst (DM_INST_VECTOR_RefreshInstance st path)))"
proof (cases "DM_PRIV_GetNodeFromPath st path True True")
  case None
  then show ?thesis using assms(4) by (simp add: DM_INST_VECTOR_RefreshInstance_def)
next
  case (Some r)
  then obtain n inst q where r: "DM_PRIV_GetNodeFromPath st path True True = Some (n, inst, q)"
    by (cases r) auto
  note g = GetNodeFromPath_inst [OF r assms(1)]
  let ?dv = "refreshed_instances_vector st"
  show ?thesis
  proof (cases "node_type (heap st n) = kDMNodeType_Object_MultiInstance \<and> q \<and> inodes inst ! 0 = tn \<and>
      \<not> IsExistInInstVector inst ?dv \<and>
      \<not> (1 < order inst \<and> \<not> IsExistInInstVector (inst\<lparr>order := order inst - 1\<rparr>) ?dv)")
    case False
    then have "refreshed_instances_vector (fst (DM_INST_VECTOR_RefreshInstance st path)) = ?dv"
      using assms(2) by (auto simp: DM_INST_VECTOR_RefreshInstance_def r)
    then show ?thesis using assms(4) by simp
  next
    case True
    then have "refreshed_instances_vector (fst (DM_INST_VECTOR_RefreshInstance st path)) = AddToInstVector inst ?dv"
      using assms(2) by (auto simp: DM_INST_VECTOR_RefreshInstance_def r)
    moreover have "0 < order inst" using g(2) True assms(3) by auto
    moreover have "vector_ok tn (AddToInstVector inst ?dv)"
      by (rule vector_ok_AddTo [OF assms(4) g(1) \<open>0 < order inst\<close>]) (use True in auto)
    ultimately show ?thesis by simp
  qed
qed

abbreviation report :: "cstr \<Rightarrow> dm_state \<Rightarrow> dm_state" where
  "report path s \<equiv> fst (DM_INST_VECTOR_RefreshInstance s path)"

lemma fold_report_keeps:
  "heap (fold report paths st) = heap st" "dm_node_map (fold report paths st) = dm_node_map st"
  "refresh_instances_top_node (fold report paths st) = refresh_instances_top_node st"
  "cur_lock_period (fold report paths st) = cur_lock_period st"
  "notify_subscriptions_allowed (fold report paths st) = notify_subscriptions_allowed st"
  "events (fold report paths st) = events st"
  by (induction paths arbitrary: st) (simp_all add: RefreshInstance_keeps)

lemma fold_report_vector_ok:
  "node_arrays_ok st \<Longrightarrow> refresh_instances_top_node st = tn \<Longrightarrow> tn \<noteq> NULL \<Longrightarrow>
    vector_ok tn (refreshed_instances_vector st) \<Longrightarrow> vector_ok tn (refreshed_instances_vector (fold report paths st))"
proof (induction paths arbitrary: st)
  case (Cons p paths)
  have "node_arrays_ok (report p st)" using Cons.prems(1) by (simp add: node_arrays_ok_def RefreshInstance_keeps)
  moreover have "vector_ok tn (refreshed_instances_vector (report p st))"
    using Cons.prems by (intro RefreshInstance_vector_ok) auto
  ultimately show ?case using Cons by (simp add: RefreshInstance_keeps)
qed simp

section \<open>The refresh\<close>

text \<open>When the callback is called.\<close>

definition must_refresh :: "vendor \<Rightarrow> dm_state \<Rightarrow> node_ptr \<Rightarrow> bool" where
  "must_refresh v st tn \<longleftrightarrow> refresh_instances_top_node st = NULL \<and> refresh_instances_cb (object_info (heap st tn)) \<and>
    lock_period (object_info (heap st tn)) \<noteq> cur_lock_period st \<and>
    refresh_instances_expiry_time (object_info (heap st tn)) < time_before v"

definition table_path :: "dm_state \<Rightarrow> node_ptr \<Rightarrow> cstr" where
  "table_path st tn = take (length (node_path (heap st tn)) - 3) (node_path (heap st tn))"

definition start_refresh :: "dm_state \<Rightarrow> node_ptr \<Rightarrow> dm_state" where
  "start_refresh st tn = st\<lparr>refresh_instances_top_node := tn, refreshed_instances_vector := DM_INST_VECTOR_Init\<rparr>"

lemma RefreshInstVector_not_must:
  assumes "\<not> must_refresh v st tn"
  shows "\<exists>f. RefreshInstVector v st tn = Some (upd_info tn f st, USP_OK) \<and>
    (\<forall>info. inst_vector (f info) = inst_vector info) \<and>
    (refresh_instances_top_node st \<noteq> NULL \<or> \<not> refresh_instances_cb (object_info (heap st tn)) \<or>
      lock_period (f (object_info (heap st tn))) = cur_lock_period st)"
proof -
  have id: "upd_info tn (\<lambda>info. info) st = st" by (simp add: upd_info_def upd_node_def)
  show ?thesis
  proof (cases "refresh_instances_top_node st \<noteq> NULL \<or> \<not> refresh_instances_cb (object_info (heap st tn)) \<or>
      lock_period (object_info (heap st tn)) = cur_lock_period st")
    case True
    then show ?thesis by (intro exI [of _ "\<lambda>info. info"]) (auto simp: RefreshInstVector_def id Let_def)
  next
    case False
    then show ?thesis using assms
      by (intro exI [of _ "\<lambda>info. info\<lparr>lock_period := cur_lock_period st\<rparr>"])
         (auto simp: RefreshInstVector_def must_refresh_def Let_def)
  qed
qed

lemma RefreshInstVector_must:
  assumes must: "must_refresh v st tn" and r: "RefreshInstVector v st tn = Some (st', r)"
    and cb: "refresh_cb v (group_id (object_info (heap st tn))) (table_path st tn) = (paths, ok, period)"
  defines "new \<equiv> refreshed_instances_vector (fold report paths (start_refresh st tn))"
  shows "ok \<Longrightarrow> r = USP_OK" "\<not> ok \<Longrightarrow> r = Inl USP_ERR_INTERNAL_ERROR" "same_tree st st'"
    "cur_lock_period st' = cur_lock_period st" "refresh_instances_top_node st' = NULL"
    "notify_subscriptions_allowed st' = notify_subscriptions_allowed st"
    "\<not> ok \<Longrightarrow> heap st' = heap st \<and> events st' = events st"
    "ok \<Longrightarrow> div_of st' tn = new" "ok \<Longrightarrow> lock_period (object_info (heap st' tn)) = cur_lock_period st"
    "ok \<Longrightarrow> \<exists>evs. (if notify_subscriptions_allowed st then life_events st (div_of st tn) new else Some []) = Some evs \<and>
      events st' = events st @ evs"
proof -
  let ?st2 = "fold report paths (start_refresh st tn)"
  let ?f = "\<lambda>info. info\<lparr>refresh_instances_expiry_time := time_after v + period, lock_period := cur_lock_period st\<rparr>"
  let ?st3 = "upd_info tn ?f ?st2"
  have k: "heap ?st2 = heap st" "dm_node_map ?st2 = dm_node_map st" "cur_lock_period ?st2 = cur_lock_period st"
    "notify_subscriptions_allowed ?st2 = notify_subscriptions_allowed st" "events ?st2 = events st"
    by (simp_all add: fold_report_keeps start_refresh_def)
  have t2: "same_tree st ?st2" by (rule same_tree_heap [OF k(1,2) same_tree_refl])
  have t3: "same_tree st ?st3" by (rule same_tree_trans [OF t2 same_tree_upd_info])
  have d3: "div_of ?st3 tn = div_of st tn" by (simp add: div_of_def upd_info_def k)
  have n3: "refreshed_instances_vector ?st3 = new" by (simp add: upd_info_def new_def)
  have eq: "RefreshInstVector v st tn =
    (if drop (length (node_path (heap st tn)) - 3) (node_path (heap st tn)) \<noteq> ''{i}'' then None
     else if \<not> ok then Some (?st2\<lparr>refreshed_instances_vector := DM_INST_VECTOR_Destroy (refreshed_instances_vector ?st2),
       refresh_instances_top_node := NULL\<rparr>, Inl USP_ERR_INTERNAL_ERROR)
     else case (if notify_subscriptions_allowed st then life_events st (div_of st tn) new else Some []) of
       None \<Rightarrow> None
     | Some evs \<Rightarrow> Some ((set_div tn new ?st3)\<lparr>events := events st @ evs, refresh_instances_top_node := NULL\<rparr>, USP_OK))"
  proof -
    have c: "\<not> refresh_instances_top_node st \<noteq> NULL" "\<not> \<not> refresh_instances_cb (object_info (heap st tn))"
      "lock_period (object_info (heap st tn)) \<noteq> cur_lock_period st"
      "\<not> time_before v \<le> refresh_instances_expiry_time (object_info (heap st tn))"
      using must by (auto simp: must_refresh_def)
    have e3: "events ?st3 = events st" "notify_subscriptions_allowed ?st3 = notify_subscriptions_allowed st"
      by (simp_all add: upd_info_def k)
    show ?thesis
      unfolding RefreshInstVector_def Let_def if_not_P [OF c(1)] if_not_P [OF c(2)] if_not_P [OF c(3)] if_not_P [OF c(4)]
        cb [unfolded table_path_def] prod.case start_refresh_def [symmetric] n3 d3 e3 same_tree_life_events [OF t3] ..
  qed
  show "ok \<Longrightarrow> r = USP_OK" "\<not> ok \<Longrightarrow> r = Inl USP_ERR_INTERNAL_ERROR"
    "refresh_instances_top_node st' = NULL"
    using r unfolding eq by (auto split: if_splits option.splits)
  show "\<not> ok \<Longrightarrow> heap st' = heap st \<and> events st' = events st"
    using r k unfolding eq by (auto split: if_splits option.splits)
  show "cur_lock_period st' = cur_lock_period st"
    "notify_subscriptions_allowed st' = notify_subscriptions_allowed st"
    using r k unfolding eq by (auto simp: set_div_def upd_info_def split: if_splits option.splits)
  show "ok \<Longrightarrow> div_of st' tn = new" "ok \<Longrightarrow> lock_period (object_info (heap st' tn)) = cur_lock_period st"
    using r unfolding eq by (auto simp: set_div_def upd_info_def div_of_def split: if_splits option.splits)
  show "ok \<Longrightarrow> \<exists>evs. (if notify_subscriptions_allowed st then life_events st (div_of st tn) new else Some []) = Some evs \<and>
      events st' = events st @ evs"
    using r unfolding eq by (auto split: if_splits option.splits)
  show "same_tree st st'"
  proof (cases ok)
    case False
    then have "heap st' = heap st" "dm_node_map st' = dm_node_map st"
      using r k unfolding eq by (auto split: if_splits)
    then show ?thesis by (rule same_tree_heap [OF _ _ same_tree_refl])
  next
    case True
    then have "heap st' = heap (set_div tn new ?st3)" "dm_node_map st' = dm_node_map (set_div tn new ?st3)"
      using r unfolding eq by (auto split: if_splits option.splits)
    then show ?thesis by (rule same_tree_heap [OF _ _ same_tree_trans [OF t3 same_tree_set_div]])
  qed
qed


section \<open>Removing, numbering and listing instances\<close>

lemma div_of_set_div [simp]: "div_of (set_div p dv st) q = (if q = p then dv else div_of st q)"
  by (simp add: div_of_def set_div_def upd_info_def)

lemma div_of_upd_info:
  "(\<And>info. inst_vector (f info) = inst_vector info) \<Longrightarrow> div_of (upd_info p f st) q = div_of st q"
  by (simp add: div_of_def upd_info_def)

definition below :: "dm_instances \<Rightarrow> dm_instances \<Rightarrow> bool" where
  "below inst m \<longleftrightarrow> order inst \<le> order m \<and> same_prefix (order inst) m inst"

lemma below_trans: "below a b \<Longrightarrow> below b c \<Longrightarrow> below a c"
  unfolding below_def using same_prefix_le same_prefix_trans by (meson le_trans)

lemma IsExist_below: "IsExistInInstVector m dv \<longleftrightarrow> (\<exists>oi\<in>set dv. below m oi)"
  by (simp add: IsExistInInstVector_def below_def)

lemma below_common:
  assumes "below m oi" "below inst oi"
  shows "same_prefix (min (order m) (order inst)) m inst"
proof -
  have "same_prefix (min (order m) (order inst)) oi m" "same_prefix (min (order m) (order inst)) oi inst"
    using assms by (auto simp: below_def intro: same_prefix_le)
  then show ?thesis by (meson same_prefix_sym same_prefix_trans)
qed

lemma vector_ok_remove:
  assumes "vector_ok tn dv"
  shows "vector_ok tn (filter (\<lambda>oi. \<not> below inst oi) dv)"
proof -
  have "\<exists>p\<in>set (filter (\<lambda>oi. \<not> below inst oi) dv). Suc (order p) = order i \<and> same_prefix (order p) p i"
    if i: "i \<in> set dv" "\<not> below inst i" "1 < order i" for i
  proof -
    obtain p where p: "p \<in> set dv" "Suc (order p) = order i" "same_prefix (order p) p i"
      using assms i(1,3) unfolding vector_ok_def by blast
    then have "below p i" by (auto simp: below_def same_prefix_sym)
    then have "\<not> below inst p" using i(2) below_trans by blast
    with p show ?thesis by auto
  qed
  then show ?thesis using assms by (auto simp: vector_ok_def sorted_wrt_filter)
qed

lemma foldl_highest:
  fixes f :: "'a \<Rightarrow> int"
  shows "h \<le> foldl (\<lambda>h x. if P x \<and> h < f x then f x else h) h xs \<and>
    (\<forall>x\<in>set xs. P x \<longrightarrow> f x \<le> foldl (\<lambda>h x. if P x \<and> h < f x then f x else h) h xs)"
proof (induction xs arbitrary: h)
  case (Cons x xs)
  show ?case
  proof (cases "P x \<and> h < f x")
    case True
    with Cons.IH [of "f x"] show ?thesis by auto
  next
    case False
    with Cons.IH [of h] show ?thesis by auto
  qed
qed simp

text \<open>The instance \<open>n\<close> of the table that \<open>inst\<close> has been given.\<close>

definition table_entry :: "dm_instances \<Rightarrow> int \<Rightarrow> dm_instances" where
  "table_entry inst n = inst\<lparr>instances := (instances inst)[order inst := n], order := Suc (order inst)\<rparr>"

lemma table_entry_order [simp]: "order (table_entry inst n) = Suc (order inst)"
  by (simp add: table_entry_def)

lemma below_table_entry:
  assumes "inst_ok inst" "inst_ok oi" "order inst < MAX_DM_INSTANCE_ORDER"
  shows "below (table_entry inst n) oi \<longleftrightarrow>
    Suc (order inst) \<le> order oi \<and> in_table (order inst) oi inst \<and> instances oi ! order inst = n"
proof -
  let ?k = "order inst"
  have l: "?k < length (instances inst)" "?k < length (instances oi)" using assms by (auto simp: inst_ok_def)
  have "take (Suc ?k) ((instances inst)[?k := n]) = take ?k (instances inst) @ [n]"
    using l(1) by (simp add: take_Suc_conv_app_nth)
  moreover have "take (Suc ?k) (instances oi) = take ?k (instances oi) @ [instances oi ! ?k]"
    using l(2) by (rule take_Suc_conv_app_nth)
  ultimately show ?thesis by (auto simp: below_def same_prefix_def in_table_def table_entry_def)
qed

lemma with_table_simps [simp]: "order (with_table node inst) = order inst"
  "instances (with_table node inst) = instances inst"
  "inst_ok inst \<Longrightarrow> inst_ok (with_table node inst)"
  by (simp_all add: with_table_def inst_ok_def)

text \<open>In a closed vector an instance below a table entry has that entry listed.\<close>

lemma vector_ok_exact:
  assumes "vector_ok tn dv" "oi \<in> set dv" "Suc k \<le> order oi" "in_table k oi inst"
  shows "\<exists>p\<in>set dv. order p = Suc k \<and> in_table k p inst \<and> instances p ! k = instances oi ! k"
proof -
  obtain p where p: "p \<in> set dv" "order p = Suc k" "same_prefix (Suc k) p oi"
    using vector_ok_prefix [OF assms(1,2) _ assms(3)] by auto
  have "inst_ok p" "inst_ok oi" using assms(1,2) p(1) by (auto simp: vector_ok_def)
  then have "k < length (instances p)" "k < length (instances oi)"
    using assms(3) p(2) by (auto simp: inst_ok_def)
  moreover have "take (Suc k) (instances p) = take (Suc k) (instances oi)" using p(3) by (simp add: same_prefix_def)
  ultimately have "instances p ! k = instances oi ! k" by (metis lessI nth_take)
  moreover have "same_prefix k p oi" using p(3) by (rule same_prefix_le) simp
  ultimately show ?thesis using p assms(4) by (intro bexI [of _ p]) (auto simp: in_table_def same_prefix_def)
qed

text \<open>Entries of one table are told apart by their number.\<close>

lemma vector_ok_numbers:
  assumes "vector_ok tn dv"
  shows "distinct (map (\<lambda>oi. instances oi ! k) (filter (\<lambda>oi. order oi = Suc k \<and> in_table k oi inst) dv))"
proof -
  let ?P = "\<lambda>oi. order oi = Suc k \<and> in_table k oi inst"
  have ok: "\<forall>a\<in>set (filter ?P dv). inst_ok a" using assms by (auto simp: vector_ok_def)
  have eq: "same_prefix (Suc k) a b"
    if "?P a" "?P b" "inst_ok a" "inst_ok b" "instances a ! k = instances b ! k" for a b
  proof -
    have "take (Suc k) (instances a) = take (Suc k) (instances b)"
      using that by (simp add: take_Suc_conv_app_nth inst_ok_def in_table_def)
    then show ?thesis using that by (simp add: same_prefix_def in_table_def)
  qed
  have "sorted_wrt (\<lambda>a b. instances a ! k \<noteq> instances b ! k) (filter ?P dv)"
  proof (rule sorted_wrt_mono_rel)
    show "sorted_wrt (\<lambda>a b. \<not> (order a = order b \<and> same_prefix (order a) a b)) (filter ?P dv)"
      using assms by (simp add: vector_ok_def sorted_wrt_filter)
    show "instances a ! k \<noteq> instances b ! k"
      if "a \<in> set (filter ?P dv)" "b \<in> set (filter ?P dv)" "\<not> (order a = order b \<and> same_prefix (order a) a b)" for a b
    proof
      assume e: "instances a ! k = instances b ! k"
      have "?P a" "?P b" using that(1,2) by auto
      moreover have "inst_ok a" "inst_ok b" using ok that(1,2) by blast+
      ultimately have "same_prefix (Suc k) a b" using e by (intro eq)
      then show False using that by auto
    qed
  qed
  then show ?thesis by (simp add: distinct_map sorted_wrt_iff_nth_less distinct_conv_nth inj_on_def) (metis (no_types, lifting) linorder_neqE_nat in_set_conv_nth)
qed

lemma fold_filter_add:
  "fold (\<lambda>oi iv. if P oi then if INT_VECTOR_Find iv (f oi) = INVALID then INT_VECTOR_Add iv (f oi) else iv else iv) xs iv0 =
   fold (\<lambda>e v. add_if_new INT_VECTOR_Find INT_VECTOR_Add v e) (map f (filter P xs)) iv0"
  by (induction xs arbitrary: iv0) (auto simp: add_if_new_def)


section \<open>Settled vectors\<close>

text \<open>
  A vector that has no refresh callback, or has been refreshed in the current lock period: a refresh
  does nothing to it.
\<close>

definition settled :: "dm_state \<Rightarrow> node_ptr \<Rightarrow> bool" where
  "settled st tn \<longleftrightarrow> refresh_instances_top_node st = NULL \<and>
    (\<not> refresh_instances_cb (object_info (heap st tn)) \<or> lock_period (object_info (heap st tn)) = cur_lock_period st)"

lemma RefreshInstVector_settled: "settled st tn \<Longrightarrow> RefreshInstVector v st tn = Some (st, USP_OK)"
  by (auto simp: settled_def RefreshInstVector_def Let_def)

lemma RefreshInstVector_settles:
  assumes "RefreshInstVector v st tn = Some (st', USP_OK)" "refresh_instances_top_node st = NULL"
  shows "settled st' tn"
proof (cases "must_refresh v st tn")
  case True
  obtain paths ok period where
    cb: "refresh_cb v (group_id (object_info (heap st tn))) (table_path st tn) = (paths, ok, period)"
    by (metis prod_cases3)
  note k = RefreshInstVector_must [OF True assms(1) cb]
  have ok using k(2) by (cases ok) auto
  then show ?thesis using k(4,5,9) by (simp add: settled_def)
next
  case False
  from RefreshInstVector_not_must [OF this] obtain f where
    f: "st' = upd_info tn f st" "\<not> refresh_instances_cb (object_info (heap st tn)) \<or>
      lock_period (f (object_info (heap st tn))) = cur_lock_period st"
    using assms by auto
  show ?thesis
  proof (cases "refresh_instances_cb (object_info (heap st tn))")
    case True
    then show ?thesis using f assms(2) by (simp add: settled_def upd_info_def)
  next
    case nocb: False
    then have "RefreshInstVector v st tn = Some (st, USP_OK)"
      using assms(2) by (simp add: RefreshInstVector_def Let_def)
    then show ?thesis using assms nocb by (simp add: settled_def)
  qed
qed

lemma RefreshInstVector_same_tree:
  assumes "RefreshInstVector v st tn = Some (st', r)"
  shows "same_tree st st'"
proof (cases "must_refresh v st tn")
  case True
  obtain paths ok period where
    cb: "refresh_cb v (group_id (object_info (heap st tn))) (table_path st tn) = (paths, ok, period)"
    by (metis prod_cases3)
  show ?thesis by (rule RefreshInstVector_must(3) [OF True assms cb])
next
  case False
  from RefreshInstVector_not_must [OF this] assms show ?thesis by auto
qed

lemma top_node_of_same_tree: "same_tree st st' \<Longrightarrow> top_node_of st' inst = top_node_of st inst"
  by (simp add: top_node_of_def same_tree_fields Let_def)

lemma IsExist_in_settled:
  "top_node_of st m = Some tn \<Longrightarrow> settled st tn \<Longrightarrow> 0 < order m \<Longrightarrow>
    DM_INST_VECTOR_IsExist v st m = Some (st, Inr (IsExistInInstVector m (div_of st tn)))"
  by (simp add: DM_INST_VECTOR_IsExist_def RefreshInstVector_settled)

lemma IsExist_settled:
  assumes "DM_INST_VECTOR_IsExist v st m = Some (st', Inr b)" "refresh_instances_top_node st = NULL"
  shows "same_tree st st' \<and> refresh_instances_top_node st' = NULL \<and>
    (0 < order m \<longrightarrow> (\<exists>tn. top_node_of st' m = Some tn \<and> settled st' tn \<and> b = IsExistInInstVector m (div_of st' tn)))"
proof (cases "order m = 0")
  case True
  then show ?thesis using assms by (simp add: DM_INST_VECTOR_IsExist_def same_tree_refl)
next
  case False
  then obtain tn where tn: "top_node_of st m = Some tn" "RefreshInstVector v st tn = Some (st', USP_OK)"
    "b = IsExistInInstVector m (div_of st' tn)"
    using assms(1) by (auto simp: DM_INST_VECTOR_IsExist_def usp_split split: option.splits sum.splits)
  note t = RefreshInstVector_same_tree [OF tn(2)] and se = RefreshInstVector_settles [OF tn(2) assms(2)]
  then show ?thesis using tn by (auto simp: top_node_of_same_tree settled_def)
qed

lemma settled_set_div [simp]: "settled (set_div p dv st) tn = settled st tn"
  by (simp add: settled_def set_div_def upd_info_def)

section \<open>Properties\<close>

text \<open>
  C18: whatever instances a vendor callback reports, in whatever order, the vector a successful
  refresh installs is well-formed: every entry is a qualified instance of the refreshed table or
  a table below it, no entry occurs twice, and every nested instance has its parent in the
  vector. The tree itself is not touched and the refresh guard is released.
\<close>

theorem RefreshInstVector_well_formed:
  assumes "must_refresh v st tn" "RefreshInstVector v st tn = Some (st', USP_OK)" "tn \<noteq> NULL" "node_arrays_ok st"
  shows "vector_ok tn (div_of st' tn) \<and> same_tree st st' \<and> refresh_instances_top_node st' = NULL"
proof -
  obtain paths ok period where
    cb: "refresh_cb v (group_id (object_info (heap st tn))) (table_path st tn) = (paths, ok, period)"
    by (metis prod_cases3)
  note r = RefreshInstVector_must [OF assms(1,2) cb]
  have ok using r(2) by (cases ok) auto
  moreover have "vector_ok tn (refreshed_instances_vector (fold report paths (start_refresh st tn)))"
    by (rule fold_report_vector_ok)
       (use assms(3,4) in \<open>auto simp: start_refresh_def node_arrays_ok_def DM_INST_VECTOR_Init_def vector_ok_Nil\<close>)
  ultimately show ?thesis using r(3,5,8) by simp
qed

definition demo_node :: dm_node where
  "demo_node = \<lparr>node_path = ''Device.A.{i}'', node_name = ''A'', node_type = kDMNodeType_Object_MultiInstance,
    child_nodes = [], node_hash = TEXT_UTILS_CalcHash ''Device.A.{i}'', node_order = 1,
    instance_nodes = [3, 0, 0, 0, 0, 0], permissions = [0xFFFF, 0], param_info = zero_param_info,
    object_info = zero_object_info\<lparr>refresh_instances_cb := True,
      inst_vector := [\<lparr>order = 1, instances = [7, 0, 0, 0, 0, 0], inodes = [3, 0, 0, 0, 0, 0]\<rparr>]\<rparr>\<rparr>"

definition demo_state :: dm_state where
  "demo_state = \<lparr>heap = (\<lambda>_. demo_node), next_ptr = 4, dm_node_map = (\<lambda>_. [3]), root_device_node = 1,
    root_internal_node = 2, refresh_instances_top_node = NULL, refreshed_instances_vector = [],
    cur_lock_period = 1, notify_subscriptions_allowed = False, events = []\<rparr>"

definition demo_vendor :: vendor where
  "demo_vendor = \<lparr>refresh_cb = (\<lambda>_ _. ([], True, 60)), time_before = 100, time_after = 101\<rparr>"

lemma demo_refresh:
  "must_refresh demo_vendor demo_state 3" "node_arrays_ok demo_state"
  "\<exists>st'. RefreshInstVector demo_vendor demo_state 3 = Some (st', USP_OK)"
  by (simp_all add: must_refresh_def node_arrays_ok_def demo_state_def demo_vendor_def demo_node_def
      zero_object_info_def MAX_DM_INSTANCE_ORDER_def RefreshInstVector_def Let_def upd_info_def)

theorem RefreshInstVector_well_formed_witness:
  "\<exists>st'. RefreshInstVector demo_vendor demo_state 3 = Some (st', USP_OK) \<and> vector_ok 3 (div_of st' 3)"
proof -
  obtain st' where "RefreshInstVector demo_vendor demo_state 3 = Some (st', USP_OK)" using demo_refresh(3) by blast
  with RefreshInstVector_well_formed [OF demo_refresh(1) this _ demo_refresh(2)] show ?thesis by simp
qed

text \<open>
  Within one lock period the answer to an instance query cannot change: once a query has
  succeeded, the same query leaves the state as it is and gives the same answer, whatever the
  vendor would report and whatever the clock shows by then.
\<close>

theorem IsExist_stable:
  assumes "DM_INST_VECTOR_IsExist v st m = Some (st', Inr b)" "refresh_instances_top_node st = NULL"
  shows "DM_INST_VECTOR_IsExist v' st' m = Some (st', Inr b)"
  using IsExist_settled [OF assms] assms(1)
  by (cases "order m = 0") (auto simp: RefreshInstVector_settled DM_INST_VECTOR_IsExist_def)

theorem IsExist_stable_witness:
  "\<exists>st' b. DM_INST_VECTOR_IsExist demo_vendor demo_state
      \<lparr>order = 1, instances = [7, 0, 0, 0, 0, 0], inodes = [3, 0, 0, 0, 0, 0]\<rparr> = Some (st', Inr b) \<and>
    DM_INST_VECTOR_IsExist (demo_vendor\<lparr>time_before := 100000\<rparr>) st'
      \<lparr>order = 1, instances = [7, 0, 0, 0, 0, 0], inodes = [3, 0, 0, 0, 0, 0]\<rparr> = Some (st', Inr b)"
proof -
  let ?m = "\<lparr>order = 1, instances = [7, 0, 0, 0, 0, 0], inodes = [3, 0, 0, 0, 0, 0]\<rparr> :: dm_instances"
  obtain st' where "RefreshInstVector demo_vendor demo_state 3 = Some (st', USP_OK)" using demo_refresh(3) by blast
  then obtain b where b: "DM_INST_VECTOR_IsExist demo_vendor demo_state ?m = Some (st', Inr b)"
    by (simp add: DM_INST_VECTOR_IsExist_def top_node_of_def) (simp add: demo_state_def demo_node_def)
  have "refresh_instances_top_node demo_state = NULL" by (simp add: demo_state_def)
  from IsExist_stable [OF b this] b show ?thesis by blast
qed

text \<open>
  The notifications of a refresh are exactly the changes of the vector: an ObjectCreation for
  every instance that is new, an ObjectDeletion for every instance that is gone, nothing for one
  that is in both, nothing at all before the baseline has been read; and the deletion paths of
  subscriptions are resolved before the first ObjectDeletion.
\<close>

theorem RefreshInstVector_events:
  assumes "must_refresh v st tn" "RefreshInstVector v st tn = Some (st', USP_OK)"
  shows "\<exists>created deleted.
    events st' = events st @ map ObjectCreation created @
      (if notify_subscriptions_allowed st \<and> (\<exists>inst\<in>set (div_of st tn). \<not> IsExistInInstVector inst (div_of st' tn))
       then ResolveObjectDeletionPaths # map ObjectDeletion deleted else []) \<and>
    (notify_subscriptions_allowed st \<longrightarrow>
      instance_paths st (filter (\<lambda>inst. \<not> IsExistInInstVector inst (div_of st tn)) (div_of st' tn)) = Some created \<and>
      instance_paths st (filter (\<lambda>inst. \<not> IsExistInInstVector inst (div_of st' tn)) (div_of st tn)) = Some deleted) \<and>
    (\<not> notify_subscriptions_allowed st \<longrightarrow> created = [])"
proof -
  obtain paths ok period where
    cb: "refresh_cb v (group_id (object_info (heap st tn))) (table_path st tn) = (paths, ok, period)"
    by (metis prod_cases3)
  note r = RefreshInstVector_must [OF assms cb]
  have ok using r(2) by (cases ok) auto
  then obtain evs where
    evs: "(if notify_subscriptions_allowed st then life_events st (div_of st tn) (div_of st' tn) else Some []) = Some evs"
      "events st' = events st @ evs"
    using r(10) unfolding r(8) [OF \<open>ok\<close>, symmetric] by blast
  show ?thesis
  proof (cases "notify_subscriptions_allowed st")
    case False
    then show ?thesis using evs by (intro exI [of _ "[]"]) auto
  next
    case True
    let ?gone = "added_instances (div_of st' tn) (div_of st tn)"
    have "?gone = [] \<longleftrightarrow> (\<forall>inst\<in>set (div_of st tn). IsExistInInstVector inst (div_of st' tn))"
      by (auto simp: added_instances_def filter_empty_conv)
    then show ?thesis using evs True
      by (auto simp: life_events_def Let_def added_instances_def [symmetric] split: option.splits if_splits)
  qed
qed

theorem RefreshInstVector_events_witness:
  "\<exists>st'. RefreshInstVector demo_vendor demo_state 3 = Some (st', USP_OK) \<and> events st' = []"
proof -
  obtain st' where r: "RefreshInstVector demo_vendor demo_state 3 = Some (st', USP_OK)" using demo_refresh(3) by blast
  from RefreshInstVector_events [OF demo_refresh(1) r] have "events st' = []" by (auto simp: demo_state_def)
  with r show ?thesis by blast
qed

text \<open>
  Removing an instance removes it and every instance below it, and no instance whose path
  parts from it; a well-formed vector stays well-formed, and no other vector is touched.
\<close>

theorem DM_INST_VECTOR_Remove_subtree:
  assumes "DM_INST_VECTOR_Remove st inst = Some st'" "0 < order inst" "tn = inodes inst ! 0"
  shows "(below inst m \<longrightarrow> \<not> IsExistInInstVector m (div_of st' tn)) \<and>
    (\<not> same_prefix (min (order m) (order inst)) m inst \<longrightarrow>
      IsExistInInstVector m (div_of st' tn) = IsExistInInstVector m (div_of st tn)) \<and>
    (vector_ok tn (div_of st tn) \<longrightarrow> vector_ok tn (div_of st' tn)) \<and>
    (q \<noteq> tn \<longrightarrow> div_of st' q = div_of st q)"
proof -
  have st': "st' = set_div tn (filter (\<lambda>oi. \<not> below inst oi) (div_of st tn)) st"
    using assms by (auto simp: DM_INST_VECTOR_Remove_def top_node_of_def below_def Let_def split: if_splits)
  then have d: "div_of st' tn = filter (\<lambda>oi. \<not> below inst oi) (div_of st tn)" "q \<noteq> tn \<Longrightarrow> div_of st' q = div_of st q"
    by simp_all
  have "below inst m \<Longrightarrow> \<not> IsExistInInstVector m (div_of st' tn)"
    using below_trans by (auto simp: IsExist_below d)
  moreover have "IsExistInInstVector m (div_of st' tn) = IsExistInInstVector m (div_of st tn)"
    if "\<not> same_prefix (min (order m) (order inst)) m inst"
    using that below_common by (auto simp: IsExist_below d)
  ultimately show ?thesis using d vector_ok_remove by auto
qed

theorem DM_INST_VECTOR_Remove_subtree_witness:
  "\<exists>st'. DM_INST_VECTOR_Remove demo_state \<lparr>order = 1, instances = [7, 0, 0, 0, 0, 0], inodes = [3, 0, 0, 0, 0, 0]\<rparr> = Some st' \<and>
    \<not> IsExistInInstVector \<lparr>order = 1, instances = [7, 0, 0, 0, 0, 0], inodes = [3, 0, 0, 0, 0, 0]\<rparr> (div_of st' 3)"
proof -
  let ?m = "\<lparr>order = 1, instances = [7, 0, 0, 0, 0, 0], inodes = [3, 0, 0, 0, 0, 0]\<rparr> :: dm_instances"
  obtain st' where st': "DM_INST_VECTOR_Remove demo_state ?m = Some st'"
    by (simp add: DM_INST_VECTOR_Remove_def top_node_of_def) (simp add: demo_state_def demo_node_def)
  from DM_INST_VECTOR_Remove_subtree [OF this, of 3 ?m 1] st' show ?thesis by (auto simp: below_def)
qed


lemma GetNextInstance_result:
  assumes "DM_INST_VECTOR_GetNextInstance st node inst = Some (n, inst')"
  shows "\<exists>h. n = h + 1 \<and> 0 \<le> h \<and> order inst < MAX_DM_INSTANCE_ORDER \<and> inst' = undo_table (with_table node inst) \<and>
    (\<forall>oi\<in>set (div_of st (inodes (with_table node inst) ! 0)).
      order oi = Suc (order inst) \<and> in_table (order inst) oi (with_table node inst) \<longrightarrow> instances oi ! order inst \<le> h)"
proof -
  let ?k = "order inst" and ?i = "with_table node inst"
  let ?P = "\<lambda>oi. order oi = Suc ?k \<and> in_table ?k oi ?i"
  let ?h = "foldl (\<lambda>h oi. if ?P oi \<and> h < instances oi ! ?k then instances oi ! ?k else h) 0 (div_of st (inodes ?i ! 0))"
  have n: "n = ?h + 1" "?k < MAX_DM_INSTANCE_ORDER" "inst' = undo_table ?i"
    using assms by (auto simp: DM_INST_VECTOR_GetNextInstance_def Let_def top_node_of_def conj_assoc
        split: if_splits option.splits)
  have h: "0 \<le> ?h \<and> (\<forall>oi\<in>set (div_of st (inodes ?i ! 0)). ?P oi \<longrightarrow> instances oi ! ?k \<le> ?h)"
    by (rule foldl_highest)
  show ?thesis by (rule exI [of _ ?h]) (use n h in blast)
qed

lemma next_instance_fresh:
  assumes "DM_INST_VECTOR_GetNextInstance st node inst = Some (n, inst')" "inst_ok inst"
    "inodes inst ! order inst = NULL" "vector_ok (inodes (with_table node inst) ! 0) (div_of st (inodes (with_table node inst) ! 0))"
  shows "0 < n \<and> inst' = inst \<and>
    \<not> IsExistInInstVector (table_entry (with_table node inst) n) (div_of st (inodes (with_table node inst) ! 0))"
proof -
  let ?k = "order inst" and ?i = "with_table node inst"
  obtain h where h: "n = h + 1" "0 \<le> h" "?k < MAX_DM_INSTANCE_ORDER" "inst' = undo_table ?i"
    "\<forall>oi\<in>set (div_of st (inodes ?i ! 0)). order oi = Suc ?k \<and> in_table ?k oi ?i \<longrightarrow> instances oi ! ?k \<le> h"
    using GetNextInstance_result [OF assms(1)] by blast
  have "\<not> below (table_entry ?i n) oi" if oi: "oi \<in> set (div_of st (inodes ?i ! 0))" for oi
  proof
    have iok: "inst_ok oi" "inst_ok ?i" using assms(2,4) oi by (auto simp: vector_ok_def)
    assume "below (table_entry ?i n) oi"
    then have b: "Suc ?k \<le> order oi" "in_table ?k oi ?i" "instances oi ! ?k = n"
      using below_table_entry [OF iok(2,1)] h(3) by auto
    from vector_ok_exact [OF assms(4) oi b(1,2)] obtain p where
      "p \<in> set (div_of st (inodes ?i ! 0))" "order p = Suc ?k" "in_table ?k p ?i" "instances p ! ?k = n"
      using b(3) by auto
    with h(1,5) show False by force
  qed
  moreover have "inst' = inst"
  proof -
    have "(inodes inst)[?k := NULL] = inodes inst" using assms(3) by (metis list_update_id)
    then show ?thesis using h(4) by (simp add: undo_table_def with_table_def)
  qed
  ultimately show ?thesis using h(1,2) by (auto simp: IsExist_below)
qed

text \<open>
  The number chosen for a new instance is positive and, in a well-formed vector, not in use:
  neither the new instance nor anything below it exists. The instance structure of the caller is
  given back as it was.
\<close>

theorem GetNextInstance_fresh:
  assumes "DM_INST_VECTOR_GetNextInstance st node inst = Some (n, inst')" "inst_ok inst"
    "inodes inst ! order inst = NULL" "vector_ok (inodes (with_table node inst) ! 0) (div_of st (inodes (with_table node inst) ! 0))"
  shows "0 < n \<and> inst' = inst \<and>
    \<not> IsExistInInstVector (table_entry (with_table node inst) n) (div_of st (inodes (with_table node inst) ! 0))"
  using next_instance_fresh [OF assms] .

lemma replicate_6: "replicate 6 x = [x, x, x, x, x, x]"
  by (simp add: numeral_eq_Suc)

lemma demo_vector: "vector_ok 3 (div_of demo_state 3)" "inst_ok zero_instances"
  "inodes (with_table 3 zero_instances) ! 0 = 3"
  by (simp_all add: vector_ok_def div_of_def demo_state_def demo_node_def inst_ok_def MAX_DM_INSTANCE_ORDER_def
      zero_instances_def with_table_def)

theorem GetNextInstance_fresh_witness:
  "DM_INST_VECTOR_GetNextInstance demo_state 3 zero_instances = Some (8, zero_instances) \<and>
    \<not> IsExistInInstVector (table_entry (with_table 3 zero_instances) 8) (div_of demo_state 3)"
proof -
  have "\<exists>inst'. DM_INST_VECTOR_GetNextInstance demo_state 3 zero_instances = Some (8, inst')"
    by (simp add: DM_INST_VECTOR_GetNextInstance_def Let_def top_node_of_def demo_vector(3) in_table_def)
       (simp add: replicate_6 zero_instances_def with_table_def MAX_DM_INSTANCE_ORDER_def div_of_def demo_state_def demo_node_def)
  then obtain inst' where r: "DM_INST_VECTOR_GetNextInstance demo_state 3 zero_instances = Some (8, inst')" by blast
  from GetNextInstance_fresh [OF r demo_vector(2)] demo_vector r show ?thesis by (simp add: zero_instances_def)
qed

text \<open>
  The queries about a table agree on a well-formed vector: GetInstances lists each instance
  number once, lists exactly the numbers whose instance exists, and GetNumInstances is the length
  of that list.
\<close>

theorem instance_queries_agree:
  assumes "DM_INST_VECTOR_GetInstances v st node inst = Some (st', USP_OK, iv, inst')"
    "DM_INST_VECTOR_GetNumInstances v st node inst = Some (st'', Inr num, inst'')" "inst_ok inst"
    "tn = inodes (with_table node inst) ! 0" "vector_ok tn (div_of st' tn)"
  shows "distinct iv \<and> num = int (length iv) \<and>
    (n \<in> set iv \<longleftrightarrow> IsExistInInstVector (table_entry (with_table node inst) n) (div_of st' tn))"
proof -
  let ?k = "order inst" and ?i = "with_table node inst" and ?dv = "div_of st' tn"
  let ?P = "\<lambda>oi. Suc ?k \<le> order oi \<and> in_table ?k oi ?i" and ?Q = "\<lambda>oi. order oi = Suc ?k \<and> in_table ?k oi ?i"
  let ?f = "\<lambda>oi. instances oi ! ?k"
  have k: "?k < MAX_DM_INSTANCE_ORDER" and r: "RefreshInstVector v st tn = Some (st', USP_OK)"
    and iv: "iv = fold (\<lambda>oi iv. if ?P oi then if INT_VECTOR_Find iv (?f oi) = INVALID
      then INT_VECTOR_Add iv (?f oi) else iv else iv) ?dv INT_VECTOR_Init"
    using assms(1,4) by (auto simp: DM_INST_VECTOR_GetInstances_def Let_def top_node_of_def
        split: if_splits option.splits sum.splits)
  have num: "num = int (length (filter ?Q ?dv))"
    using assms(2,4) k r by (auto simp: DM_INST_VECTOR_GetNumInstances_def Let_def top_node_of_def split: if_splits)
  have d: "distinct iv" "set iv = ?f ` set (filter ?P ?dv)"
    using iv.entries_fold_add_new [of "map ?f (filter ?P ?dv)"] unfolding iv fold_filter_add by auto
  have PQ: "?f ` set (filter ?P ?dv) = ?f ` set (filter ?Q ?dv)"
  proof
    show "?f ` set (filter ?P ?dv) \<subseteq> ?f ` set (filter ?Q ?dv)"
    proof
      fix x assume "x \<in> ?f ` set (filter ?P ?dv)"
      then obtain oi where oi: "oi \<in> set ?dv" "Suc ?k \<le> order oi" "in_table ?k oi ?i" "x = ?f oi" by auto
      from vector_ok_exact [OF assms(5) oi(1,2,3)] obtain p where
        p: "p \<in> set ?dv" "?Q p" "?f p = ?f oi" by blast
      show "x \<in> ?f ` set (filter ?Q ?dv)" unfolding oi(4) p(3) [symmetric] using p by (intro imageI) simp
    qed
  qed auto
  have "length iv = card (set iv)" using d(1) by (simp only: distinct_card)
  also have "\<dots> = card (set (map ?f (filter ?Q ?dv)))" unfolding d(2) PQ set_map ..
  also have "\<dots> = length (map ?f (filter ?Q ?dv))" using vector_ok_numbers [OF assms(5), of ?k ?i] by (rule distinct_card)
  finally have len: "length iv = length (filter ?Q ?dv)" by (simp only: length_map)
  have "n \<in> set iv \<longleftrightarrow> IsExistInInstVector (table_entry ?i n) ?dv"
  proof -
    have "below (table_entry ?i n) oi \<longleftrightarrow> ?P oi \<and> ?f oi = n" if "oi \<in> set ?dv" for oi
      using below_table_entry [of ?i oi n] assms(3,5) k that by (auto simp: vector_ok_def)
    then show ?thesis unfolding d(2) IsExist_below by auto
  qed
  then show ?thesis using d(1) num len by simp
qed

theorem instance_queries_agree_witness:
  "\<exists>st' iv inst'. DM_INST_VECTOR_GetInstances demo_vendor (demo_state\<lparr>cur_lock_period := 0\<rparr>) 3 zero_instances =
      Some (st', USP_OK, iv, inst') \<and> distinct iv \<and> iv = [7] \<and>
    IsExistInInstVector (table_entry (with_table 3 zero_instances) 7) (div_of st' 3)"
proof -
  let ?s = "demo_state\<lparr>cur_lock_period := 0\<rparr>"
  have tn: "top_node_of ?s (with_table 3 zero_instances) = Some 3"
    by (simp add: top_node_of_def demo_vector(3)) (simp add: demo_state_def demo_node_def)
  have r: "RefreshInstVector demo_vendor ?s 3 = Some (?s, USP_OK)"
    by (simp add: RefreshInstVector_def demo_state_def demo_node_def zero_object_info_def Let_def)
  have d: "div_of ?s 3 = [\<lparr>order = 1, instances = [7, 0, 0, 0, 0, 0], inodes = [3, 0, 0, 0, 0, 0]\<rparr>]"
    by (simp add: div_of_def demo_state_def demo_node_def)
  have z: "order zero_instances = 0" "\<not> MAX_DM_INSTANCE_ORDER \<le> 0" by (simp_all add: zero_instances_def MAX_DM_INSTANCE_ORDER_def)
  have g: "DM_INST_VECTOR_GetInstances demo_vendor ?s 3 zero_instances =
      Some (?s, USP_OK, [7], undo_table (with_table 3 zero_instances))"
    using tn r d z by (simp add: DM_INST_VECTOR_GetInstances_def Let_def)
      (simp add: replicate_6 first_index_Nil in_table_def with_table_def zero_instances_def INT_VECTOR_Find_def INT_VECTOR_Add_def INT_VECTOR_Init_def)
  have c: "DM_INST_VECTOR_GetNumInstances demo_vendor ?s 3 zero_instances =
      Some (?s, Inr 1, undo_table (with_table 3 zero_instances))"
    using tn r d z by (simp add: DM_INST_VECTOR_GetNumInstances_def Let_def)
      (simp add: replicate_6 in_table_def with_table_def zero_instances_def)
  have "vector_ok 3 (div_of ?s 3)" using demo_vector(1) by (simp add: div_of_def)
  from instance_queries_agree [OF g c demo_vector(2) demo_vector(3) [symmetric] this, of 7] g show ?thesis by auto
qed

end
