(* ===== verification/Database.thy ===== *)
theory Database
  imports Dm_Inst_Vector
begin

text \<open>
  The parameter database of \<open>core/database.c\<close>: one row per parameter instance, keyed by the hash of
  its schema path and its instance string, inside at most one SQLite transaction. SQLite is a
  parameter: \<open>sql\<close> says which statements succeed; a row is set, read or deleted as its SQL text
  says. Values of secure parameters are obfuscated with a fixed key.
\<close>

section \<open>State\<close>

type_synonym row_key = "32 word \<times> cstr"

datatype sql_stmt = Sql_Get row_key | Sql_Set row_key | Sql_Del row_key | Sql_Begin | Sql_Commit

record database =
  rows :: "row_key \<Rightarrow> char list option"
  saved :: "(row_key \<Rightarrow> char list option) option"
  sql :: "sql_stmt \<Rightarrow> bool"

definition OBFUSCATED_VALUE :: "32 word" where "OBFUSCATED_VALUE = 1"
definition MAX_DM_SHORT_VALUE_LEN :: nat where "MAX_DM_SHORT_VALUE_LEN = 256"
definition PASSWORD_OBFUSCATION_KEY :: cstr where "PASSWORD_OBFUSCATION_KEY = ''$%^&*()@~#/,?''"

section \<open>Operations\<close>

definition xor_char :: "char \<Rightarrow> char \<Rightarrow> char" where
  "xor_char a b = char_of (char_code a XOR char_code b)"

fun obfuscate_loop :: "nat \<Rightarrow> char list \<Rightarrow> char list" where
  "obfuscate_loop i [] = []"
| "obfuscate_loop i (c # src) =
    xor_char c (PASSWORD_OBFUSCATION_KEY ! (i mod length PASSWORD_OBFUSCATION_KEY)) # obfuscate_loop (Suc i) src"

definition ObfuscatedCopy :: "char list \<Rightarrow> char list" where
  "ObfuscatedCopy src = obfuscate_loop 0 src"

definition DATABASE_GetParameterValue :: "database \<Rightarrow> 32 word \<Rightarrow> cstr \<Rightarrow> nat \<Rightarrow> 32 word \<Rightarrow> usp_err + cstr" where
  "DATABASE_GetParameterValue d hash insts buflen flags =
    (if \<not> sql d (Sql_Get (hash, insts)) then Inl USP_ERR_INTERNAL_ERROR
     else case rows d (hash, insts) of
            None \<Rightarrow> Inl USP_ERR_OBJECT_DOES_NOT_EXIST
          | Some v \<Rightarrow>
              (let value_len = min (length v) (buflen - 1);
                   bytes = take value_len v
               in Inr (c_string (if flags AND OBFUSCATED_VALUE \<noteq> 0 then ObfuscatedCopy bytes else bytes))))"

text \<open>\<open>None\<close>: the obfuscated copy does not fit its buffer on the stack.\<close>

definition DATABASE_SetParameterValue ::
    "database \<Rightarrow> 32 word \<Rightarrow> cstr \<Rightarrow> cstr \<Rightarrow> 32 word \<Rightarrow> (database \<times> (usp_err + unit)) option" where
  "DATABASE_SetParameterValue d hash insts new_value flags =
    (if flags AND OBFUSCATED_VALUE \<noteq> 0 \<and> MAX_DM_SHORT_VALUE_LEN < length new_value then None
     else let value_to_bind = (if flags AND OBFUSCATED_VALUE \<noteq> 0 then ObfuscatedCopy new_value else new_value)
     in if \<not> sql d (Sql_Set (hash, insts)) then Some (d, Inl USP_ERR_INTERNAL_ERROR)
        else Some (d\<lparr>rows := (rows d)((hash, insts) \<mapsto> value_to_bind)\<rparr>, USP_OK))"

definition DATABASE_DeleteParameter :: "database \<Rightarrow> 32 word \<Rightarrow> cstr \<Rightarrow> database \<times> (usp_err + unit)" where
  "DATABASE_DeleteParameter d hash insts =
    (if \<not> sql d (Sql_Del (hash, insts)) then (d, Inl USP_ERR_INTERNAL_ERROR)
     else (d\<lparr>rows := (rows d)((hash, insts) := None)\<rparr>, USP_OK))"

definition DATABASE_StartTransaction :: "database \<Rightarrow> database \<times> (usp_err + unit)" where
  "DATABASE_StartTransaction d =
    (if saved d \<noteq> None \<or> \<not> sql d Sql_Begin then (d, Inl USP_ERR_INTERNAL_ERROR)
     else (d\<lparr>saved := Some (rows d)\<rparr>, USP_OK))"

definition DATABASE_CommitTransaction :: "database \<Rightarrow> database \<times> (usp_err + unit)" where
  "DATABASE_CommitTransaction d =
    (if saved d = None \<or> \<not> sql d Sql_Commit then (d, Inl USP_ERR_INTERNAL_ERROR)
     else (d\<lparr>saved := None\<rparr>, USP_OK))"

definition DATABASE_AbortTransaction :: "database \<Rightarrow> database \<times> (usp_err + unit)" where
  "DATABASE_AbortTransaction d =
    (case saved d of None \<Rightarrow> (d, USP_OK) | Some r \<Rightarrow> (d\<lparr>rows := r, saved := None\<rparr>, USP_OK))"

text \<open>The table of migrated paths is empty in this configuration (no STOMP).\<close>

definition paths_to_migrate :: "(32 word \<times> 32 word) list" where
  "paths_to_migrate = []"

fun migrated_hash :: "(32 word \<times> 32 word) list \<Rightarrow> 32 word \<Rightarrow> 32 word" where
  "migrated_hash [] hash = hash"
| "migrated_hash ((old_hash, new_hash) # pms) hash = (if old_hash = hash then new_hash else migrated_hash pms hash)"

definition DATABASE_GetMigratedHash :: "32 word \<Rightarrow> 32 word" where
  "DATABASE_GetMigratedHash hash = migrated_hash paths_to_migrate hash"

section \<open>Paths and database keys\<close>

text \<open>Both give \<open>None\<close> where the instance string does not fit or the path formatter does not return.\<close>

definition DM_PRIV_FormDB_FromPath :: "dm_state \<Rightarrow> cstr \<Rightarrow> nat \<Rightarrow> (usp_err + 32 word \<times> cstr) option" where
  "DM_PRIV_FormDB_FromPath st path len =
    (case DM_PRIV_GetNodeFromPath st path True False of
       None \<Rightarrow> Some (Inl USP_ERR_INVALID_PATH)
     | Some (n, inst, _) \<Rightarrow>
        let migrated = DATABASE_GetMigratedHash (node_hash (heap st n));
            n1 = (if migrated \<noteq> node_hash (heap st n) then FindNodeFromHash st migrated else n)
        in if n1 = NULL then Some (Inl USP_ERR_INVALID_PATH)
           else if \<not> IsParam (heap st n1) then Some (Inl USP_ERR_INVALID_PATH)
           else if \<not> IsDbParam (heap st n1) then Some (Inl USP_ERR_INVALID_PATH_SYNTAX)
           else map_option (\<lambda>s. Inr (node_hash (heap st n1), s)) (FormInstanceString inst len))"

definition DM_PRIV_FormPath_FromDB :: "dm_state \<Rightarrow> 32 word \<Rightarrow> cstr \<Rightarrow> int \<Rightarrow> (usp_err + cstr) option" where
  "DM_PRIV_FormPath_FromDB st hash insts len =
    (let n = FindNodeFromHash st hash
     in if n = NULL then Some (Inl USP_ERR_INVALID_PATH)
        else case DM_PRIV_ParseInstanceString insts of
               None \<Rightarrow> None
             | Some (Inl err) \<Rightarrow> Some (Inl USP_ERR_INTERNAL_ERROR)
             | Some (Inr inst) \<Rightarrow>
                 if order inst \<noteq> node_order (heap st n) then Some (Inl USP_ERR_INTERNAL_ERROR)
                 else DM_PRIV_FormInstantiatedPath (node_path (heap st n)) inst len)"

section \<open>Lemmas\<close>

lemma xor_char_twice: "xor_char (xor_char a b) b = a"
proof -
  have "char_code a < 2 ^ 8" "char_code b < 2 ^ 8" using char_code_less_256 [of a] char_code_less_256 [of b] by simp_all
  then have "char_code a XOR char_code b < 2 ^ 8"
    by (metis take_bit_nat_eq_self_iff take_bit_xor)
  then have "char_code (xor_char a b) = char_code a XOR char_code b"
    by (simp add: xor_char_def char_code_char_of)
  then have "xor_char (xor_char a b) b = char_of (char_code a)"
    by (simp add: xor_char_def [of "xor_char a b"] xor.assoc)
  then show ?thesis by (simp add: char_code_def)
qed

lemma obfuscate_loop_twice: "obfuscate_loop i (obfuscate_loop i s) = s"
  by (induction i s rule: obfuscate_loop.induct) (simp_all add: xor_char_twice)

lemma length_obfuscate_loop [simp]: "length (obfuscate_loop i s) = length s"
  by (induction i s rule: obfuscate_loop.induct) simp_all

lemma ObfuscatedCopy_twice: "ObfuscatedCopy (ObfuscatedCopy s) = s"
  by (simp add: ObfuscatedCopy_def obfuscate_loop_twice)

lemma length_ObfuscatedCopy [simp]: "length (ObfuscatedCopy s) = length s"
  by (simp add: ObfuscatedCopy_def)

text \<open>
  A store with one level of transaction: starting one remembers the visible contents, the writing
  operations leave what is remembered alone, aborting brings it back.
\<close>

locale transactional_store =
  fixes view :: "'s \<Rightarrow> 'v" and remembered :: "'s \<Rightarrow> 'v" and start :: "'s \<Rightarrow> 's" and abort :: "'s \<Rightarrow> 's"
    and startable :: "'s \<Rightarrow> bool" and active :: "'s \<Rightarrow> bool" and wr :: "'s \<Rightarrow> 's \<Rightarrow> bool"
  assumes start_active: "startable s \<Longrightarrow> active (start s) \<and> remembered (start s) = view s"
    and write_keeps: "wr s t \<Longrightarrow> active s \<Longrightarrow> active t \<and> remembered t = remembered s"
    and abort_view: "active s \<Longrightarrow> view (abort s) = remembered s"
begin

lemma writes_keep: "wr\<^sup>*\<^sup>* s t \<Longrightarrow> active s \<Longrightarrow> active t \<and> remembered t = remembered s"
  by (induction rule: rtranclp_induct) (auto dest: write_keeps)

lemma abort_restores: "startable s \<Longrightarrow> wr\<^sup>*\<^sup>* (start s) t \<Longrightarrow> view (abort t) = view s"
  using start_active writes_keep abort_view by metis

end

inductive db_write :: "database \<Rightarrow> database \<Rightarrow> bool" where
  db_write_set: "DATABASE_SetParameterValue d hash insts v flags = Some (d', r) \<Longrightarrow> db_write d d'"
| db_write_del: "DATABASE_DeleteParameter d hash insts = (d', r) \<Longrightarrow> db_write d d'"

interpretation db: transactional_store rows "\<lambda>d. the (saved d)" "\<lambda>d. fst (DATABASE_StartTransaction d)"
  "\<lambda>d. fst (DATABASE_AbortTransaction d)" "\<lambda>d. snd (DATABASE_StartTransaction d) = USP_OK"
  "\<lambda>d. saved d \<noteq> None" db_write
proof unfold_locales
  fix d d' :: database
  show "snd (DATABASE_StartTransaction d) = USP_OK \<Longrightarrow> saved (fst (DATABASE_StartTransaction d)) \<noteq> None \<and>
      the (saved (fst (DATABASE_StartTransaction d))) = rows d"
    by (auto simp: DATABASE_StartTransaction_def split: if_splits)
  show "db_write d d' \<Longrightarrow> saved d \<noteq> None \<Longrightarrow> saved d' \<noteq> None \<and> the (saved d') = the (saved d)"
    by (auto elim!: db_write.cases simp: DATABASE_SetParameterValue_def DATABASE_DeleteParameter_def Let_def
        split: if_splits)
  show "saved d \<noteq> None \<Longrightarrow> rows (fst (DATABASE_AbortTransaction d)) = the (saved d)"
    by (auto simp: DATABASE_AbortTransaction_def)
qed

section \<open>Properties\<close>

text \<open>
  C34: a value written to the database is read back, obfuscated or not, as long as it fits the
  reader's buffer (and, obfuscated, the 256 bytes of the copy); another row is not changed.
\<close>

theorem DATABASE_roundtrip:
  assumes "DATABASE_SetParameterValue d hash insts v flags = Some (d', USP_OK)" "nul_free v"
    "length v < buflen" "sql d (Sql_Get (hash, insts))"
  shows "DATABASE_GetParameterValue d' hash insts buflen flags = Inr v \<and>
    (k \<noteq> (hash, insts) \<longrightarrow> rows d' k = rows d k)"
  using assms
  by (auto simp: DATABASE_SetParameterValue_def DATABASE_GetParameterValue_def Let_def ObfuscatedCopy_twice
      c_string_id split: if_splits)

theorem DATABASE_roundtrip_witness:
  "\<exists>d'. DATABASE_SetParameterValue \<lparr>rows = Map.empty, saved = None, sql = (\<lambda>_. True)\<rparr> 5 ''1'' ''secret'' OBFUSCATED_VALUE =
      Some (d', USP_OK) \<and>
    DATABASE_GetParameterValue d' 5 ''1'' 256 OBFUSCATED_VALUE = Inr ''secret''"
proof -
  let ?d = "\<lparr>rows = Map.empty, saved = None, sql = (\<lambda>_. True)\<rparr> :: database"
  obtain d' where "DATABASE_SetParameterValue ?d 5 ''1'' ''secret'' OBFUSCATED_VALUE = Some (d', USP_OK)"
    by (simp add: DATABASE_SetParameterValue_def MAX_DM_SHORT_VALUE_LEN_def Let_def)
  from DATABASE_roundtrip [OF this, of 256] this show ?thesis by (simp add: nul_free_def)
qed

end
