(* ===== verification/Native_Value.thy ===== *)
theory Native_Value
  imports Iso8601 Dm_Path
begin

text \<open>
  Typed parameter values: the conversion of the text of a set request to the native value that
  the vendor's hooks get (\<open>DM_PRIV_InitSetRequest\<close>), and the text of a native value a hook gave back
  (\<open>SerializeNativeValue\<close>), both in \<open>core/data_model.c\<close>, with the converters of
  \<open>core/text_utils.c\<close>. The union of native values is a record of its members: what one member reads
  after another has been written is not modelled. A double is its bit pattern; how the C library
  reads and prints one is a parameter.
\<close>

section \<open>Types and conversions\<close>

definition DM_STRING :: "32 word" where "DM_STRING = 1"
definition DM_DATETIME :: "32 word" where "DM_DATETIME = 2"
definition DM_BOOL :: "32 word" where "DM_BOOL = 4"
definition DM_INT :: "32 word" where "DM_INT = 8"
definition DM_UINT :: "32 word" where "DM_UINT = 0x10"
definition DM_ULONG :: "32 word" where "DM_ULONG = 0x20"
definition DM_DECIMAL :: "32 word" where "DM_DECIMAL = 0x100"
definition DM_LONG :: "32 word" where "DM_LONG = 0x200"

lemmas DM_type_defs = DM_STRING_def DM_DATETIME_def DM_BOOL_def DM_INT_def DM_UINT_def DM_ULONG_def DM_DECIMAL_def DM_LONG_def

definition has_flag :: "32 word \<Rightarrow> 32 word \<Rightarrow> bool" where
  "has_flag flags f \<longleftrightarrow> flags AND f \<noteq> 0"

record dm_val_union =
  value_datetime :: int
  value_bool :: bool
  value_int :: int
  value_uint :: nat
  value_ulong :: nat
  value_decimal :: "64 word"
  value_long :: int

definition zero_val :: dm_val_union where
  "zero_val = \<lparr>value_datetime = 0, value_bool = False, value_int = 0, value_uint = 0, value_ulong = 0, value_decimal = 0, value_long = 0\<rparr>"

record float_text =
  strtod :: "cstr \<Rightarrow> 64 word \<times> cstr \<times> bool"
  print_lf :: "64 word \<Rightarrow> cstr"

definition LLONG_MAX :: int where "LLONG_MAX = 2 ^ 63 - 1"

text \<open>strtoll in base 10: the value, the unread rest and whether errno was set.\<close>

definition strtoll :: "cstr \<Rightarrow> int \<times> cstr \<times> bool" where
  "strtoll str =
    (let s1 = dropWhile isspace str;
         neg = (s1 \<noteq> [] \<and> hd s1 = CHR ''-'');
         s2 = (if s1 \<noteq> [] \<and> (hd s1 = CHR ''-'' \<or> hd s1 = CHR ''+'') then tl s1 else s1);
         ds = takeWhile IS_NUMERIC s2;
         v = (if neg then - int (digits_value 0 ds) else int (digits_value 0 ds))
     in if ds = [] then (0, str, False)
        else if v < - LLONG_MAX - 1 then (- LLONG_MAX - 1, dropWhile IS_NUMERIC s2, True)
        else if LLONG_MAX < v then (LLONG_MAX, dropWhile IS_NUMERIC s2, True)
        else (v, dropWhile IS_NUMERIC s2, False))"

definition TEXT_UTILS_StringToLongLong :: "cstr \<Rightarrow> usp_err + int" where
  "TEXT_UTILS_StringToLongLong str =
    (if str = ''-9223372036854775808'' then Inl USP_ERR_INVALID_TYPE
     else case strtoll str of (value, endptr, errno) \<Rightarrow>
       if endptr \<noteq> [] \<or> errno then Inl USP_ERR_INVALID_TYPE else Inr value)"

definition TEXT_UTILS_StringToDouble :: "float_text \<Rightarrow> cstr \<Rightarrow> usp_err + 64 word" where
  "TEXT_UTILS_StringToDouble ft str =
    (case strtod ft str of (value, endptr, errno) \<Rightarrow>
       if endptr \<noteq> [] \<or> errno then Inl USP_ERR_INVALID_TYPE else Inr value)"

text \<open>\<open>None\<close> where the conversion of the number is undefined behaviour.\<close>

definition DM_PRIV_InitSetRequest :: "float_text \<Rightarrow> 32 word \<Rightarrow> cstr \<Rightarrow> (usp_err + dm_val_union) option" where
  "DM_PRIV_InitSetRequest ft type_flags new_value =
    (if has_flag type_flags DM_DATETIME then
       Some (usp_bind (TEXT_UTILS_StringToDateTime new_value) (\<lambda>v. Inr (zero_val\<lparr>value_datetime := v\<rparr>)))
     else if has_flag type_flags DM_BOOL then
       Some (usp_bind (TEXT_UTILS_StringToBool new_value) (\<lambda>v. Inr (zero_val\<lparr>value_bool := v\<rparr>)))
     else if has_flag type_flags DM_INT then
       map_option (\<lambda>r. usp_bind r (\<lambda>v. Inr (zero_val\<lparr>value_int := v\<rparr>))) (TEXT_UTILS_StringToInteger new_value)
     else if has_flag type_flags DM_UINT then
       Some (usp_bind (TEXT_UTILS_StringToUnsigned new_value) (\<lambda>v. Inr (zero_val\<lparr>value_uint := v\<rparr>)))
     else if has_flag type_flags DM_ULONG then
       Some (usp_bind (TEXT_UTILS_StringToUnsignedLongLong new_value) (\<lambda>v. Inr (zero_val\<lparr>value_ulong := v\<rparr>)))
     else if has_flag type_flags DM_DECIMAL then
       Some (usp_bind (TEXT_UTILS_StringToDouble ft new_value) (\<lambda>v. Inr (zero_val\<lparr>value_decimal := v\<rparr>)))
     else if has_flag type_flags DM_LONG then
       Some (usp_bind (TEXT_UTILS_StringToLongLong new_value) (\<lambda>v. Inr (zero_val\<lparr>value_long := v\<rparr>)))
     else Some (Inr zero_val))"

text \<open>\<open>None\<close> where the buffer is left unspecified.\<close>

definition SerializeNativeValue :: "float_text \<Rightarrow> 32 word \<Rightarrow> dm_val_union \<Rightarrow> cstr \<Rightarrow> nat \<Rightarrow> cstr option" where
  "SerializeNativeValue ft type_flags val buf len =
    (if has_flag type_flags DM_STRING then Some buf
     else if buf \<noteq> [] then Some buf
     else if has_flag type_flags DM_DATETIME then iso8601_from_unix_time (value_datetime val) len
     else if has_flag type_flags DM_BOOL then Some (fst (USP_SNPRINTF len (TEXT_UTILS_BoolToString (value_bool val))))
     else if has_flag type_flags DM_INT then Some (fst (USP_SNPRINTF len (show_int (value_int val))))
     else if has_flag type_flags DM_UINT then Some (fst (USP_SNPRINTF len (show_nat (value_uint val))))
     else if has_flag type_flags DM_ULONG then Some (fst (USP_SNPRINTF len (show_nat (value_ulong val))))
     else if has_flag type_flags DM_DECIMAL then Some (fst (USP_SNPRINTF len (print_lf ft (value_decimal val))))
     else if has_flag type_flags DM_LONG then Some (fst (USP_SNPRINTF len (show_int (value_long val))))
     else Some buf)"

definition DATA_MODEL_GetJSONParameterType_of_flags :: "32 word \<Rightarrow> char" where
  "DATA_MODEL_GetJSONParameterType_of_flags type_flags =
    (if has_flag type_flags (DM_INT OR DM_LONG) then CHR ''L''
     else if has_flag type_flags (DM_UINT OR DM_ULONG) then CHR ''U''
     else if has_flag type_flags DM_DECIMAL then CHR ''N''
     else if has_flag type_flags DM_BOOL then CHR ''B''
     else CHR ''S'')"

section \<open>Lemmas\<close>

lemma show_int_split:
  assumes "s = show_int n"
  shows "dropWhile isspace s = s"
    "(if s \<noteq> [] \<and> (hd s = CHR ''-'' \<or> hd s = CHR ''+'') then tl s else s) = show_nat (nat \<bar>n\<bar>)"
    "(s \<noteq> [] \<and> hd s = CHR ''-'') \<longleftrightarrow> n < 0"
proof -
  have h: "hd (show_nat k) \<noteq> CHR ''-'' \<and> hd (show_nat k) \<noteq> CHR ''+'' \<and> \<not> isspace (hd (show_nat k))" for k
    using numeric_not_sign_space show_nat_numeric [OF hd_in_set [OF show_nat_nonempty]] by blast
  have m: "\<not> isspace CHR ''-''" by (simp add: isspace_def char_code_def)
  show "dropWhile isspace s = s" using assms h m by (simp add: dropWhile_eq_self_iff show_int_def)
  show "(if s \<noteq> [] \<and> (hd s = CHR ''-'' \<or> hd s = CHR ''+'') then tl s else s) = show_nat (nat \<bar>n\<bar>)"
    using assms h by (auto simp: show_int_def)
  show "(s \<noteq> [] \<and> hd s = CHR ''-'') \<longleftrightarrow> n < 0"
    using assms h show_nat_nonempty by (auto simp: show_int_def)
qed

lemma takeWhile_show_nat [simp]: "takeWhile IS_NUMERIC (show_nat k) = show_nat k" "dropWhile IS_NUMERIC (show_nat k) = []"
  using show_nat_numeric by (auto simp: takeWhile_eq_all_conv)

lemma StringToInteger_show:
  "- INT_MAX - 1 \<le> n \<Longrightarrow> n \<le> INT_MAX \<Longrightarrow> TEXT_UTILS_StringToInteger (show_int n) = Some (Inr n)"
  unfolding TEXT_UTILS_StringToInteger_def Let_def show_int_split(1) [OF refl] show_int_split(2) [OF refl]
    show_int_split(3) [OF refl]
  by (simp add: show_nat_nonempty digits_value_show_nat)

lemma StringToLongLong_show:
  assumes "- LLONG_MAX \<le> n" "n \<le> LLONG_MAX"
  shows "TEXT_UTILS_StringToLongLong (show_int n) = Inr n"
proof -
  have s: "strtoll (show_int n) = (n, [], False)"
    using assms unfolding strtoll_def Let_def show_int_split(1) [OF refl] show_int_split(2) [OF refl]
      show_int_split(3) [OF refl]
    by (simp add: show_nat_nonempty digits_value_show_nat)
  have "show_int n \<noteq> ''-9223372036854775808''"
  proof
    assume e: "show_int n = ''-9223372036854775808''"
    then have "show_nat (nat \<bar>n\<bar>) = ''9223372036854775808''" using show_int_split(2) [OF e [symmetric]] by simp
    then have "nat \<bar>n\<bar> = digits_value 0 ''9223372036854775808''" by (metis digits_value_show_nat)
    then have "nat \<bar>n\<bar> = 9223372036854775808" by (simp add: digit_value_def char_code_def)
    with assms show False by (simp add: LLONG_MAX_def)
  qed
  with s show ?thesis by (simp add: TEXT_UTILS_StringToLongLong_def)
qed

lemma StringToULL_show: "n \<le> ULLONG_MAX \<Longrightarrow> TEXT_UTILS_StringToUnsignedLongLong (show_nat n) = Inr n"
  using strtoull_show_nat [of n] no_minus_in_number [of n]
  by (simp add: TEXT_UTILS_StringToUnsignedLongLong_def)

lemma length_show_int: "\<bar>n\<bar> < 10 ^ w \<Longrightarrow> 0 < w \<Longrightarrow> length (show_int n) \<le> Suc w"
proof -
  assume "\<bar>n\<bar> < 10 ^ w" "0 < w"
  then have "nat \<bar>n\<bar> < 10 ^ w" by (simp add: nat_less_iff)
  from show_nat_length [OF this \<open>0 < w\<close>] show ?thesis by (auto simp: show_int_def)
qed

text \<open>The flags of one type.\<close>

lemma flag_tests:
  "has_flag DM_DATETIME DM_DATETIME" "\<not> has_flag DM_DATETIME DM_STRING"
  "has_flag DM_BOOL DM_BOOL" "\<not> has_flag DM_BOOL DM_STRING" "\<not> has_flag DM_BOOL DM_DATETIME"
  "has_flag DM_INT DM_INT" "\<not> has_flag DM_INT DM_STRING" "\<not> has_flag DM_INT DM_DATETIME" "\<not> has_flag DM_INT DM_BOOL"
  "has_flag DM_UINT DM_UINT" "\<not> has_flag DM_UINT DM_STRING" "\<not> has_flag DM_UINT DM_DATETIME" "\<not> has_flag DM_UINT DM_BOOL"
  "\<not> has_flag DM_UINT DM_INT"
  "has_flag DM_ULONG DM_ULONG" "\<not> has_flag DM_ULONG DM_STRING" "\<not> has_flag DM_ULONG DM_DATETIME"
  "\<not> has_flag DM_ULONG DM_BOOL" "\<not> has_flag DM_ULONG DM_INT" "\<not> has_flag DM_ULONG DM_UINT"
  "has_flag DM_LONG DM_LONG" "\<not> has_flag DM_LONG DM_STRING" "\<not> has_flag DM_LONG DM_DATETIME" "\<not> has_flag DM_LONG DM_BOOL"
  "\<not> has_flag DM_LONG DM_INT" "\<not> has_flag DM_LONG DM_UINT" "\<not> has_flag DM_LONG DM_ULONG" "\<not> has_flag DM_LONG DM_DECIMAL"
  by (simp_all add: has_flag_def DM_type_defs)

text \<open>A native value of a type, in the range the type's text can hold.\<close>

definition native_value :: "32 word \<Rightarrow> dm_val_union \<Rightarrow> bool" where
  "native_value type val \<longleftrightarrow>
    (\<exists>b. type = DM_BOOL \<and> val = zero_val\<lparr>value_bool := b\<rparr>) \<or>
    (\<exists>n. type = DM_INT \<and> val = zero_val\<lparr>value_int := n\<rparr> \<and> - INT_MAX - 1 \<le> n \<and> n \<le> INT_MAX) \<or>
    (\<exists>n. type = DM_UINT \<and> val = zero_val\<lparr>value_uint := n\<rparr> \<and> n \<le> UINT_MAX) \<or>
    (\<exists>n. type = DM_ULONG \<and> val = zero_val\<lparr>value_ulong := n\<rparr> \<and> n \<le> ULLONG_MAX) \<or>
    (\<exists>n. type = DM_LONG \<and> val = zero_val\<lparr>value_long := n\<rparr> \<and> - LLONG_MAX \<le> n \<and> n \<le> LLONG_MAX) \<or>
    (\<exists>t. type = DM_DATETIME \<and> val = zero_val\<lparr>value_datetime := t\<rparr> \<and> (0 \<le> t \<and> t < 2145916800 \<or> t = UNKNOWN_TIME))"

lemma SNPRINTF_fits: "length txt < len \<Longrightarrow> fst (USP_SNPRINTF len txt) = txt"
  by (simp add: USP_SNPRINTF_def)

section \<open>Properties\<close>

text \<open>
  C33: a native value of any type but the floating-point one is converted back from the text it is
  given, at the ends of its range too; only the least 64 bit integer is left out, which the
  converter refuses.
\<close>

theorem SerializeNativeValue_roundtrip:
  assumes "native_value type val" "32 \<le> len"
  obtains buf where "SerializeNativeValue ft type val [] len = Some buf"
    "DM_PRIV_InitSetRequest ft type buf = Some (Inr val)"
proof -
  have "\<exists>buf. SerializeNativeValue ft type val [] len = Some buf \<and> DM_PRIV_InitSetRequest ft type buf = Some (Inr val)"
    using assms(1) unfolding native_value_def
  proof (elim disjE exE conjE)
    fix b assume v: "type = DM_BOOL" "val = zero_val\<lparr>value_bool := b\<rparr>"
    have "length (TEXT_UTILS_BoolToString b) < len" using assms(2) by (simp add: TEXT_UTILS_BoolToString_def)
    then show ?thesis unfolding v by (simp add: SerializeNativeValue_def DM_PRIV_InitSetRequest_def flag_tests
        SNPRINTF_fits StringToBool_BoolToString)
  next
    fix n assume v: "type = DM_INT" "val = zero_val\<lparr>value_int := n\<rparr>" "- INT_MAX - 1 \<le> n" "n \<le> INT_MAX"
    have "\<bar>n\<bar> < 10 ^ 10" using v(3,4) by (simp add: INT_MAX_def abs_less_iff)
    from length_show_int [OF this] have "length (show_int n) < len" using assms(2) by simp
    then show ?thesis unfolding v(1,2) by (simp add: SerializeNativeValue_def DM_PRIV_InitSetRequest_def flag_tests
        SNPRINTF_fits StringToInteger_show [OF v(3,4)])
  next
    fix n assume v: "type = DM_UINT" "val = zero_val\<lparr>value_uint := n\<rparr>" "n \<le> UINT_MAX"
    have "length (show_nat n) < len" using show_nat_length [of n 10] v assms(2) by (simp add: UINT_MAX_def)
    then show ?thesis unfolding v(1,2) using v(3) by (simp add: SerializeNativeValue_def DM_PRIV_InitSetRequest_def flag_tests
        SNPRINTF_fits StringToUnsigned_show_nat)
  next
    fix n assume v: "type = DM_ULONG" "val = zero_val\<lparr>value_ulong := n\<rparr>" "n \<le> ULLONG_MAX"
    have "length (show_nat n) < len" using show_nat_length [of n 20] v assms(2) by (simp add: ULLONG_MAX_def)
    then show ?thesis unfolding v(1,2) by (simp add: SerializeNativeValue_def DM_PRIV_InitSetRequest_def flag_tests
        SNPRINTF_fits StringToULL_show [OF v(3)])
  next
    fix n assume v: "type = DM_LONG" "val = zero_val\<lparr>value_long := n\<rparr>" "- LLONG_MAX \<le> n" "n \<le> LLONG_MAX"
    have "\<bar>n\<bar> < 10 ^ 19" using v(3,4) by (simp add: LLONG_MAX_def abs_less_iff)
    from length_show_int [OF this] have "length (show_int n) < len" using assms(2) by simp
    moreover have "\<not> has_flag DM_LONG DM_DECIMAL" by (rule flag_tests)
    ultimately show ?thesis unfolding v(1,2) by (simp add: SerializeNativeValue_def DM_PRIV_InitSetRequest_def flag_tests
        SNPRINTF_fits StringToLongLong_show [OF v(3,4)])
  next
    fix t assume v: "type = DM_DATETIME" "val = zero_val\<lparr>value_datetime := t\<rparr>" "0 \<le> t" "t < 2145916800"
    then show ?thesis using datetime_text [of t len] assms(2)
      by (auto simp: SerializeNativeValue_def DM_PRIV_InitSetRequest_def flag_tests)
  next
    fix t assume v: "type = DM_DATETIME" "val = zero_val\<lparr>value_datetime := t\<rparr>" "t = UNKNOWN_TIME"
    then show ?thesis using datetime_text [of t len] assms(2)
      by (auto simp: SerializeNativeValue_def DM_PRIV_InitSetRequest_def flag_tests)
  qed
  then show ?thesis using that by blast
qed

theorem SerializeNativeValue_roundtrip_witness:
  "\<exists>buf. SerializeNativeValue \<lparr>strtod = (\<lambda>s. (0, s, False)), print_lf = (\<lambda>_. ''0'')\<rparr> DM_INT
      (zero_val\<lparr>value_int := -2147483648\<rparr>) [] 32 = Some buf \<and>
    DM_PRIV_InitSetRequest \<lparr>strtod = (\<lambda>s. (0, s, False)), print_lf = (\<lambda>_. ''0'')\<rparr> DM_INT buf =
      Some (Inr (zero_val\<lparr>value_int := -2147483648\<rparr>))"
proof -
  have "native_value DM_INT (zero_val\<lparr>value_int := -2147483648\<rparr>)"
    by (auto simp: native_value_def INT_MAX_def)
  then show ?thesis by (rule SerializeNativeValue_roundtrip [of _ _ 32]) auto
qed

end
