(* ===== verification/Dm_Trans.thy ===== *)
theory Dm_Trans
  imports Database Native_Value
begin

text \<open>
  Data model transactions, \<open>core/dm_trans.c\<close>: the operations of a transaction are collected in a
  vector, the notify callbacks run when it has been committed, and an abort undoes the adds and
  deletes in the instance vectors and rolls the database back. The vendor's transaction hooks are
  a parameter (not registered, or registered with the result they return), as are the notify
  callbacks, which may change the data model themselves.
\<close>

section \<open>State\<close>

datatype dm_op = kDMOp_Set | kDMOp_Add | kDMOp_Del

record dm_req_instances =
  req_order :: nat
  req_instances :: "int list"

record dm_trans =
  op :: dm_op
  tr_path :: cstr
  tr_value :: "cstr option"
  tr_val_union :: dm_val_union
  tr_node :: node_ptr
  tr_inst :: dm_req_instances

record agent =
  dm :: dm_state
  db :: database
  cur_transaction :: "dm_trans list option"

record trans_vendor =
  start_trans_cb :: "(usp_err + unit) option"
  commit_trans_cb :: "(usp_err + unit) option"
  abort_trans_cb :: "(usp_err + unit) option"

definition upd_dm :: "(dm_state \<Rightarrow> dm_state) \<Rightarrow> agent \<Rightarrow> agent" where
  "upd_dm f ag = ag\<lparr>dm := f (dm ag)\<rparr>"

definition send_event :: "life_event \<Rightarrow> agent \<Rightarrow> agent" where
  "send_event e ag = upd_dm (\<lambda>st. st\<lparr>events := events st @ [e]\<rparr>) ag"

section \<open>Adding operations\<close>

text \<open>A set inside an object that the same transaction adds is not notified.\<close>

definition within_added :: "dm_state \<Rightarrow> dm_instances \<Rightarrow> dm_trans \<Rightarrow> bool" where
  "within_added st inst dt \<longleftrightarrow>
    (let k = req_order (tr_inst dt)
     in op dt = kDMOp_Add \<and> k \<le> order inst \<and>
        take k (inodes inst) = take k (instance_nodes (heap st (tr_node dt))) \<and>
        take k (instances inst) = take k (req_instances (tr_inst dt)))"

text \<open>
  The value of a set comes with its native form. \<open>None\<close>: a failed assertion (no transaction, or a
  value for a node that is no parameter).
\<close>

definition DM_TRANS_Add :: "agent \<Rightarrow> dm_op \<Rightarrow> cstr \<Rightarrow> (cstr \<times> dm_val_union) option \<Rightarrow> node_ptr \<Rightarrow> dm_instances \<Rightarrow> agent option" where
  "DM_TRANS_Add ag operation path value_opt node inst =
    (case cur_transaction ag of
       None \<Rightarrow> None
     | Some dts \<Rightarrow>
        if operation = kDMOp_Set \<and> (\<exists>dt\<in>set dts. within_added (dm ag) inst dt) then Some ag
        else
         let ag1 = (if operation = kDMOp_Del then send_event ResolveObjectDeletionPaths ag else ag)
         in if value_opt \<noteq> None \<and> \<not> IsParam (heap (dm ag) node) then None
            else Some (ag1\<lparr>cur_transaction := Some (dts @
              [\<lparr>op = operation, tr_path = path, tr_value = map_option fst value_opt,
                tr_val_union = (case value_opt of None \<Rightarrow> zero_val | Some (_, val) \<Rightarrow> val), tr_node = node,
                tr_inst = \<lparr>req_order = order inst, req_instances = instances inst\<rparr>\<rparr>])\<rparr>))"

definition ClearTransaction :: "dm_trans list \<Rightarrow> dm_trans list" where
  "ClearTransaction dts = []"

definition DM_TRANS_IsWithinTransaction :: "agent \<Rightarrow> bool" where
  "DM_TRANS_IsWithinTransaction ag \<longleftrightarrow> cur_transaction ag \<noteq> None"

section \<open>Abort, start and commit\<close>

definition aborted_inst :: "dm_state \<Rightarrow> dm_trans \<Rightarrow> dm_instances" where
  "aborted_inst st dt =
    (let node = heap st (tr_node dt)
     in \<lparr>order = req_order (tr_inst dt), instances = req_instances (tr_inst dt),
         inodes = take (node_order node) (instance_nodes node) @ drop (node_order node) (replicate 6 NULL)\<rparr>)"

text \<open>The undo of one operation in the instance vectors.\<close>

definition undo_op :: "dm_state \<Rightarrow> dm_trans \<Rightarrow> dm_state option" where
  "undo_op st dt =
    (case op dt of
       kDMOp_Set \<Rightarrow> Some st
     | kDMOp_Add \<Rightarrow> DM_INST_VECTOR_Remove st (aborted_inst st dt)
     | kDMOp_Del \<Rightarrow> DM_INST_VECTOR_Add st (aborted_inst st dt))"

fun undo_ops :: "dm_state \<Rightarrow> dm_trans list \<Rightarrow> dm_state option" where
  "undo_ops st [] = Some st"
| "undo_ops st (dt # dts) = (case undo_op st dt of None \<Rightarrow> None | Some st1 \<Rightarrow> undo_ops st1 dts)"

definition DM_TRANS_Abort :: "trans_vendor \<Rightarrow> agent \<Rightarrow> (agent \<times> (usp_err + unit)) option" where
  "DM_TRANS_Abort tv ag =
    (case cur_transaction ag of
       None \<Rightarrow> Some (ag, USP_OK)
     | Some dts \<Rightarrow>
        (case undo_ops (dm ag) dts of
           None \<Rightarrow> None
         | Some st1 \<Rightarrow>
            let (db1, r) = DATABASE_AbortTransaction (db ag);
                ag1 = ag\<lparr>dm := st1, db := db1, cur_transaction := None\<rparr>
            in case abort_trans_cb tv of
                 Some (Inl err) \<Rightarrow> Some (ag1, Inl err)
               | _ \<Rightarrow> Some (ag1, r)))"

definition DM_TRANS_Start :: "trans_vendor \<Rightarrow> agent \<Rightarrow> (agent \<times> (usp_err + unit)) option" where
  "DM_TRANS_Start tv ag =
    (if cur_transaction ag \<noteq> None then Some (ag, USP_OK)
     else
      let (db1, r) = DATABASE_StartTransaction (db ag);
          ag1 = ag\<lparr>db := db1, cur_transaction := Some []\<rparr>
      in case r of
           Inl err \<Rightarrow> Some (ag1, Inl err)
         | Inr _ \<Rightarrow>
            (case start_trans_cb tv of
               Some (Inl err) \<Rightarrow> map_option (\<lambda>(ag2, _). (ag2, Inl err)) (DM_TRANS_Abort tv ag1)
             | _ \<Rightarrow> Some (ag1, USP_OK)))"

text \<open>
  What the loop of the commit does for one operation. \<open>notify\<close> is the notify callback of the
  operation; where none is registered it leaves the agent as it is.
\<close>

definition notify_op :: "(dm_trans \<Rightarrow> agent \<Rightarrow> agent) \<Rightarrow> dm_trans \<Rightarrow> agent \<Rightarrow> agent" where
  "notify_op notify dt ag =
    (let ag1 = notify dt ag
     in case op dt of
          kDMOp_Set \<Rightarrow> ag1
        | kDMOp_Add \<Rightarrow> send_event (ObjectCreation (tr_path dt)) ag1
        | kDMOp_Del \<Rightarrow> send_event (ObjectDeletion (tr_path dt)) ag1)"

text \<open>
  The commit calls itself for the operations its notify callbacks made. \<open>fuel\<close> bounds the length of
  such a cascade; \<open>None\<close> when it is longer, or an assertion fails.
\<close>

fun DM_TRANS_Commit ::
    "nat \<Rightarrow> trans_vendor \<Rightarrow> (dm_trans \<Rightarrow> agent \<Rightarrow> agent) \<Rightarrow> agent \<Rightarrow> (agent \<times> (usp_err + unit)) option" where
  "DM_TRANS_Commit 0 tv notify ag = None"
| "DM_TRANS_Commit (Suc fuel) tv notify ag =
    (case cur_transaction ag of
       None \<Rightarrow> Some (ag, USP_OK)
     | Some dts \<Rightarrow>
        (case commit_trans_cb tv of
           Some (Inl err) \<Rightarrow> map_option (\<lambda>(ag1, _). (ag1, Inl err)) (DM_TRANS_Abort tv ag)
         | _ \<Rightarrow>
          (case DATABASE_CommitTransaction (db ag) of
             (db1, Inl err) \<Rightarrow> map_option (\<lambda>(ag1, _). (ag1, Inl err)) (DM_TRANS_Abort tv (ag\<lparr>db := db1\<rparr>))
           | (db1, Inr _) \<Rightarrow>
              let ag1 = ag\<lparr>db := db1, cur_transaction := None\<rparr>
              in if dts = [] then Some (ag1, USP_OK)
                 else case DM_TRANS_Start tv ag1 of
                        None \<Rightarrow> None
                      | Some (ag2, _) \<Rightarrow>
                         (case DM_TRANS_Commit fuel tv notify (fold (notify_op notify) dts ag2) of
                            None \<Rightarrow> None
                          | Some (ag3, _) \<Rightarrow> if cur_transaction ag3 \<noteq> None then None else Some (ag3, USP_OK)))))"

section \<open>Undoing adds\<close>

lemma Remove_result:
  "0 < order inst \<Longrightarrow> top_node_of st inst = Some tn \<Longrightarrow>
    DM_INST_VECTOR_Remove st inst = Some (set_div tn (filter (\<lambda>oi. \<not> below inst oi) (div_of st tn)) st)"
  by (simp add: DM_INST_VECTOR_Remove_def below_def)

lemma Add_result:
  "0 < order inst \<Longrightarrow> top_node_of st inst = Some tn \<Longrightarrow>
    DM_INST_VECTOR_Add st inst =
      Some (if inst \<in> set (div_of st tn) then st else set_div tn (div_of st tn @ [inst]) st)"
  by (simp add: DM_INST_VECTOR_Add_def AddToInstVector_def Let_def)

lemma aborted_inst_same_tree: "same_tree st st' \<Longrightarrow> aborted_inst st' dt = aborted_inst st dt"
  by (simp add: aborted_inst_def same_tree_fields Let_def)

lemma below_refl [simp]: "below inst inst"
  by (simp add: below_def)

text \<open>
  A transaction that only adds: \<open>adds_fresh st dts st'\<close> when the operations \<open>dts\<close> lead from \<open>st\<close> to
  \<open>st'\<close>, each adding an instance that did not exist before.
\<close>

fun adds_fresh :: "dm_state \<Rightarrow> dm_trans list \<Rightarrow> dm_state \<Rightarrow> bool" where
  "adds_fresh st [] st' \<longleftrightarrow> st' = st"
| "adds_fresh st (dt # dts) st' \<longleftrightarrow>
    (let inst = aborted_inst st dt
     in op dt = kDMOp_Add \<and> 0 < order inst \<and>
        (case top_node_of st inst of
           None \<Rightarrow> False
         | Some tn \<Rightarrow> \<not> IsExistInInstVector inst (div_of st tn) \<and>
             (case DM_INST_VECTOR_Add st inst of None \<Rightarrow> False | Some st1 \<Rightarrow> adds_fresh st1 dts st')))"

text \<open>The operations \<open>dts\<close> add instances of the tree of \<open>st\<close>.\<close>

definition all_adds :: "dm_state \<Rightarrow> dm_trans list \<Rightarrow> bool" where
  "all_adds st dts \<longleftrightarrow> (\<forall>dt\<in>set dts. op dt = kDMOp_Add \<and> 0 < order (aborted_inst st dt) \<and>
    top_node_of st (aborted_inst st dt) \<noteq> None)"

definition covered :: "dm_state \<Rightarrow> dm_trans list \<Rightarrow> node_ptr \<Rightarrow> dm_instances \<Rightarrow> bool" where
  "covered st dts q oi \<longleftrightarrow> (\<exists>dt\<in>set dts. top_node_of st (aborted_inst st dt) = Some q \<and> below (aborted_inst st dt) oi)"

lemma all_adds_same_tree: "same_tree st st' \<Longrightarrow> all_adds st' dts = all_adds st dts"
  by (simp add: all_adds_def aborted_inst_same_tree top_node_of_same_tree)

lemma covered_same_tree: "same_tree st st' \<Longrightarrow> covered st' dts q oi = covered st dts q oi"
  by (simp add: covered_def aborted_inst_same_tree top_node_of_same_tree)

lemma adds_fresh_result:
  assumes "adds_fresh st dts st'"
  shows "same_tree st st' \<and> all_adds st dts \<and>
    (\<exists>new. div_of st' q = div_of st q @ new \<and> (\<forall>oi\<in>set new. covered st dts q oi)) \<and>
    (\<forall>oi\<in>set (div_of st q). \<not> covered st dts q oi)"
  using assms
proof (induction st dts st' rule: adds_fresh.induct)
  case (1 st st')
  then show ?case by (simp add: same_tree_refl all_adds_def covered_def)
next
  case (2 st dt dts st')
  let ?inst = "aborted_inst st dt"
  obtain tn st1 where h: "op dt = kDMOp_Add" "0 < order ?inst" "top_node_of st ?inst = Some tn"
    "\<not> IsExistInInstVector ?inst (div_of st tn)" "DM_INST_VECTOR_Add st ?inst = Some st1" "adds_fresh st1 dts st'"
    using "2.prems" by (auto simp: Let_def split: option.splits)
  have nb: "\<forall>oi\<in>set (div_of st tn). \<not> below ?inst oi" using h(4) by (simp add: IsExist_below)
  then have "?inst \<notin> set (div_of st tn)" using below_refl by blast
  then have st1: "st1 = set_div tn (div_of st tn @ [?inst]) st" using Add_result [OF h(2,3)] h(5) by simp
  have t1: "same_tree st st1" by (simp add: st1)
  have c1: "covered st1 dts q oi = covered st dts q oi" for oi by (rule covered_same_tree [OF t1])
  have cov: "covered st (dt # dts) q oi \<longleftrightarrow> (tn = q \<and> below ?inst oi) \<or> covered st dts q oi" for oi
    using h(3) by (auto simp: covered_def)
  have d1: "div_of st1 q = div_of st q @ (if q = tn then [?inst] else [])" by (simp add: st1)
  have "same_tree st1 st' \<and> all_adds st1 dts \<and>
      (\<exists>new. div_of st' q = div_of st1 q @ new \<and> (\<forall>oi\<in>set new. covered st1 dts q oi)) \<and>
      (\<forall>oi\<in>set (div_of st1 q). \<not> covered st1 dts q oi)"
    using "2.IH" h by (auto simp: Let_def)
  then obtain new where ih: "same_tree st1 st'" "all_adds st dts" "div_of st' q = div_of st1 q @ new"
    "\<forall>oi\<in>set new. covered st dts q oi" "\<forall>oi\<in>set (div_of st1 q). \<not> covered st dts q oi"
    unfolding c1 all_adds_same_tree [OF t1] by blast
  have "div_of st' q = div_of st q @ ((if q = tn then [?inst] else []) @ new)" using ih(3) d1 by simp
  moreover have "\<forall>oi\<in>set ((if q = tn then [?inst] else []) @ new). covered st (dt # dts) q oi"
    using ih(4) cov by auto
  moreover have "\<forall>oi\<in>set (div_of st q). \<not> covered st (dt # dts) q oi"
    using ih(5) nb unfolding cov d1 by auto
  moreover have "all_adds st (dt # dts)" using ih(2) h(1-3) by (simp add: all_adds_def)
  moreover have "same_tree st st'" using t1 ih(1) by (rule same_tree_trans)
  ultimately show ?case by blast
qed

lemma undo_ops_adds:
  assumes "all_adds st dts"
  shows "\<exists>st'. undo_ops st dts = Some st' \<and> same_tree st st' \<and>
    (\<forall>q. div_of st' q = filter (\<lambda>oi. \<not> covered st dts q oi) (div_of st q))"
  using assms
proof (induction dts arbitrary: st)
  case Nil
  then show ?case by (simp add: same_tree_refl covered_def)
next
  case (Cons dt dts)
  let ?inst = "aborted_inst st dt"
  obtain tn where h: "op dt = kDMOp_Add" "0 < order ?inst" "top_node_of st ?inst = Some tn"
    using Cons.prems by (auto simp: all_adds_def)
  let ?st1 = "set_div tn (filter (\<lambda>oi. \<not> below ?inst oi) (div_of st tn)) st"
  have u: "undo_op st dt = Some ?st1" using Remove_result [OF h(2,3)] h(1) by (simp add: undo_op_def)
  have t1: "same_tree st ?st1" by simp
  have "all_adds ?st1 dts" using Cons.prems unfolding all_adds_same_tree [OF t1] by (simp add: all_adds_def)
  then obtain st' where ih: "undo_ops ?st1 dts = Some st'" "same_tree ?st1 st'"
    "\<forall>q. div_of st' q = filter (\<lambda>oi. \<not> covered st dts q oi) (div_of ?st1 q)"
    using Cons.IH [of ?st1, unfolded covered_same_tree [OF t1]] by blast
  have cov: "covered st (dt # dts) q oi \<longleftrightarrow> (tn = q \<and> below ?inst oi) \<or> covered st dts q oi" for q oi
    using h(3) by (auto simp: covered_def)
  have "div_of st' q = filter (\<lambda>oi. \<not> covered st (dt # dts) q oi) (div_of st q)" for q
    unfolding ih(3) [rule_format] cov by (auto intro: filter_cong)
  then show ?case using u ih(1) same_tree_trans [OF t1 ih(2)] by auto
qed


lemma abort_of_adds:
  assumes "cur_transaction ag = Some dts" "adds_fresh st dts (dm ag)"
  shows "\<exists>ag' r. DM_TRANS_Abort tv ag = Some (ag', r) \<and> (\<forall>q. div_of (dm ag') q = div_of st q) \<and> same_tree st (dm ag')"
proof -
  have t: "same_tree st (dm ag)" "all_adds st dts" using adds_fresh_result [OF assms(2)] by blast+
  then have "all_adds (dm ag) dts" by (simp add: all_adds_same_tree)
  then obtain st' where u: "undo_ops (dm ag) dts = Some st'" "same_tree (dm ag) st'"
    "\<And>q. div_of st' q = filter (\<lambda>oi. \<not> covered (dm ag) dts q oi) (div_of (dm ag) q)"
    using undo_ops_adds by blast
  have "div_of st' q = div_of st q" for q
  proof -
    obtain new where "div_of (dm ag) q = div_of st q @ new" "\<forall>oi\<in>set new. covered st dts q oi"
      "\<forall>oi\<in>set (div_of st q). \<not> covered st dts q oi" using adds_fresh_result [OF assms(2), of q] by blast
    then show ?thesis by (simp add: u(3) covered_same_tree [OF t(1)])
  qed
  moreover have "\<exists>ag' r. DM_TRANS_Abort tv ag = Some (ag', r) \<and> dm ag' = st'"
    using assms(1) u(1) by (auto simp: DM_TRANS_Abort_def Let_def split: option.split prod.split sum.split)
  ultimately show ?thesis using same_tree_trans [OF t(1) u(2)] by auto
qed

section \<open>The events of a commit\<close>

text \<open>A notify callback that may write the database, but makes no operation and sends no event of its own.\<close>

definition quiet :: "(dm_trans \<Rightarrow> agent \<Rightarrow> agent) \<Rightarrow> bool" where
  "quiet notify \<longleftrightarrow> (\<forall>dt ag. cur_transaction (notify dt ag) = cur_transaction ag \<and>
    saved (db (notify dt ag)) = saved (db ag) \<and> sql (db (notify dt ag)) = sql (db ag) \<and>
    events (dm (notify dt ag)) = events (dm ag))"

fun op_events :: "dm_trans \<Rightarrow> life_event list" where
  "op_events dt = (case op dt of kDMOp_Set \<Rightarrow> [] | kDMOp_Add \<Rightarrow> [ObjectCreation (tr_path dt)]
    | kDMOp_Del \<Rightarrow> [ObjectDeletion (tr_path dt)])"

lemma fold_notify_quiet:
  assumes "quiet notify"
  shows "cur_transaction (fold (notify_op notify) dts ag) = cur_transaction ag \<and>
    saved (db (fold (notify_op notify) dts ag)) = saved (db ag) \<and>
    sql (db (fold (notify_op notify) dts ag)) = sql (db ag) \<and>
    events (dm (fold (notify_op notify) dts ag)) = events (dm ag) @ concat (map op_events dts)"
proof (induction dts arbitrary: ag)
  case (Cons dt dts)
  have "cur_transaction (notify_op notify dt ag) = cur_transaction ag"
    "saved (db (notify_op notify dt ag)) = saved (db ag)" "sql (db (notify_op notify dt ag)) = sql (db ag)"
    "events (dm (notify_op notify dt ag)) = events (dm ag) @ op_events dt"
    using assms by (simp_all add: notify_op_def quiet_def send_event_def upd_dm_def Let_def split: dm_op.split)
  then show ?case using Cons.IH by simp
qed simp

lemma abort_restores_rows:
  assumes "DM_TRANS_Start tv ag = Some (ag1, USP_OK)" "cur_transaction ag = None" "db_write\<^sup>*\<^sup>* (db ag1) (db ag2)"
    "cur_transaction ag2 \<noteq> None" "DM_TRANS_Abort tv ag2 = Some (ag3, r)"
  shows "rows (db ag3) = rows (db ag) \<and> saved (db ag3) = None \<and> cur_transaction ag3 = None"
proof -
  obtain d where d: "DATABASE_StartTransaction (db ag) = (d, USP_OK)" "db ag1 = d"
    using assms(1,2) by (auto simp: DM_TRANS_Start_def Let_def split: sum.splits option.splits prod.splits)
  have "rows (fst (DATABASE_AbortTransaction (db ag2))) = rows (db ag)"
    using db.abort_restores [of "db ag" "db ag2"] d assms(3) by simp
  moreover have "db ag3 = fst (DATABASE_AbortTransaction (db ag2))" "cur_transaction ag3 = None"
    using assms(4,5) by (auto simp: DM_TRANS_Abort_def Let_def split: sum.splits option.splits prod.splits)
  moreover have "saved (fst (DATABASE_AbortTransaction (db ag2))) = None"
    by (simp add: DATABASE_AbortTransaction_def split: option.split)
  ultimately show ?thesis by simp
qed

definition no_hooks :: trans_vendor where
  "no_hooks = \<lparr>start_trans_cb = None, commit_trans_cb = None, abort_trans_cb = None\<rparr>"

lemma commit_events:
  assumes "cur_transaction ag = Some dts" "saved (db ag) \<noteq> None" "\<forall>stmt. sql (db ag) stmt" "quiet notify"
  shows "\<exists>ag'. DM_TRANS_Commit (Suc (Suc n)) no_hooks notify ag = Some (ag', USP_OK) \<and>
    events (dm ag') = events (dm ag) @ concat (map op_events dts) \<and>
    cur_transaction ag' = None \<and> saved (db ag') = None"
proof -
  let ?ag1 = "ag\<lparr>db := (db ag)\<lparr>saved := None\<rparr>, cur_transaction := None\<rparr>"
  let ?ag2 = "?ag1\<lparr>db := (db ?ag1)\<lparr>saved := Some (rows (db ag))\<rparr>, cur_transaction := Some []\<rparr>"
  let ?ag3 = "fold (notify_op notify) dts ?ag2"
  let ?ag4 = "?ag3\<lparr>db := (db ?ag3)\<lparr>saved := None\<rparr>, cur_transaction := None\<rparr>"
  have c: "commit_trans_cb no_hooks = None" "start_trans_cb no_hooks = None" by (simp_all add: no_hooks_def)
  have d1: "DATABASE_CommitTransaction (db ag) = ((db ag)\<lparr>saved := None\<rparr>, USP_OK)"
    using assms(2,3) by (simp add: DATABASE_CommitTransaction_def)
  have s1: "DM_TRANS_Start no_hooks ?ag1 = Some (?ag2, USP_OK)"
    using assms(3) by (simp add: DM_TRANS_Start_def DATABASE_StartTransaction_def c)
  have f: "cur_transaction ?ag3 = Some []" "saved (db ?ag3) = Some (rows (db ag))" "sql (db ?ag3) = sql (db ag)"
    "events (dm ?ag3) = events (dm ag) @ concat (map op_events dts)"
    using fold_notify_quiet [OF assms(4), of dts ?ag2] by simp_all
  have d2: "DATABASE_CommitTransaction (db ?ag3) = ((db ?ag3)\<lparr>saved := None\<rparr>, USP_OK)"
    using f assms(3) by (simp add: DATABASE_CommitTransaction_def)
  have c3: "DM_TRANS_Commit (Suc n) no_hooks notify ?ag3 = Some (?ag4, USP_OK)"
    using f(1) d2 by (simp add: c Let_def)
  show ?thesis
  proof (cases "dts = []")
    case True
    then show ?thesis using assms(1) d1 by (simp add: c Let_def)
  next
    case False
    have "DM_TRANS_Commit (Suc (Suc n)) no_hooks notify ag = Some (?ag4, USP_OK)"
      unfolding DM_TRANS_Commit.simps(2) [of "Suc n"] assms(1) c d1 option.case prod.case sum.case Let_def s1 c3
      using False by simp
    then show ?thesis using f(4) by simp
  qed
qed

section \<open>Properties\<close>

text \<open>
  Aborting a transaction gives the database the contents it had when the transaction started,
  whatever rows were written or deleted since, and leaves no transaction behind.
\<close>

theorem DM_TRANS_Abort_restores_rows:
  assumes "DM_TRANS_Start tv ag = Some (ag1, USP_OK)" "cur_transaction ag = None" "db_write\<^sup>*\<^sup>* (db ag1) (db ag2)"
    "cur_transaction ag2 \<noteq> None" "DM_TRANS_Abort tv ag2 = Some (ag3, r)"
  shows "rows (db ag3) = rows (db ag) \<and> saved (db ag3) = None \<and> cur_transaction ag3 = None"
  using assms by (rule abort_restores_rows)

definition demo_agent :: agent where
  "demo_agent = \<lparr>dm = demo_state, db = \<lparr>rows = [(5, ''1'') \<mapsto> ''old''], saved = None, sql = (\<lambda>_. True)\<rparr>,
    cur_transaction = None\<rparr>"

theorem DM_TRANS_Abort_restores_rows_witness:
  "\<exists>ag1 d ag3 r. DM_TRANS_Start no_hooks demo_agent = Some (ag1, USP_OK) \<and>
    d = fst (DATABASE_DeleteParameter (db ag1) 5 ''1'') \<and> rows d (5, ''1'') = None \<and>
    DM_TRANS_Abort no_hooks (ag1\<lparr>db := d\<rparr>) = Some (ag3, r) \<and> rows (db ag3) (5, ''1'') = Some ''old''"
proof -
  obtain ag1 where s: "DM_TRANS_Start no_hooks demo_agent = Some (ag1, USP_OK)" "cur_transaction ag1 = Some []"
    "sql (db ag1) = (\<lambda>_. True)"
    by (simp add: DM_TRANS_Start_def demo_agent_def no_hooks_def DATABASE_StartTransaction_def Let_def)
  let ?d = "fst (DATABASE_DeleteParameter (db ag1) 5 ''1'')"
  have "db_write (db ag1) ?d" by (rule db_write_del [OF surjective_pairing])
  then have w: "db_write\<^sup>*\<^sup>* (db ag1) (db (ag1\<lparr>db := ?d\<rparr>))" by simp
  obtain ag3 r where a: "DM_TRANS_Abort no_hooks (ag1\<lparr>db := ?d\<rparr>) = Some (ag3, r)"
    using s(2) by (cases "DATABASE_AbortTransaction ?d") (simp add: DM_TRANS_Abort_def no_hooks_def Let_def)
  have "rows ?d (5, ''1'') = None" using s(3) by (simp add: DATABASE_DeleteParameter_def)
  moreover have "rows (db ag3) = rows (db demo_agent)"
    using DM_TRANS_Abort_restores_rows [OF s(1) _ w _ a] s(2) by (simp add: demo_agent_def)
  ultimately show ?thesis using s(1) a by (auto simp: demo_agent_def)
qed

text \<open>
  Aborting a transaction that only added objects, each of which did not exist before, gives
  every instance vector exactly the entries, in the order, it had before.
\<close>

theorem DM_TRANS_Abort_undoes_adds:
  assumes "cur_transaction ag = Some dts" "adds_fresh st dts (dm ag)"
  obtains ag' r where "DM_TRANS_Abort tv ag = Some (ag', r)" "\<And>q. div_of (dm ag') q = div_of st q"
    "same_tree st (dm ag')"
  using abort_of_adds [OF assms] by blast

definition demo_op :: "dm_op \<Rightarrow> int \<Rightarrow> dm_trans" where
  "demo_op k n = \<lparr>op = k, tr_path = ''Device.X'', tr_value = None, tr_val_union = zero_val, tr_node = 3,
    tr_inst = \<lparr>req_order = 1, req_instances = [n, 0, 0, 0, 0, 0]\<rparr>\<rparr>"

definition demo_table :: dm_state where
  "demo_table = demo_state\<lparr>heap := (heap demo_state)(3 := demo_node\<lparr>node_order := 1, instance_nodes := [3, 0, 0, 0, 0, 0]\<rparr>)\<rparr>"

lemma demo_table_inst:
  "aborted_inst demo_table (demo_op k n) = \<lparr>order = 1, instances = [n, 0, 0, 0, 0, 0], inodes = [3, 0, 0, 0, 0, 0]\<rparr>"
  by (simp add: aborted_inst_def demo_table_def demo_op_def replicate_6)

lemma demo_table_top: "top_node_of demo_table (aborted_inst demo_table (demo_op k n)) = Some 3"
  unfolding demo_table_inst by (simp add: top_node_of_def demo_table_def demo_node_def)

lemma demo_table_div: "div_of demo_table 3 = [aborted_inst demo_table (demo_op k 7)]"
  unfolding demo_table_inst by (simp add: div_of_def demo_table_def demo_node_def)

theorem DM_TRANS_Abort_undoes_adds_witness:
  "\<exists>st1 ag' r. DM_INST_VECTOR_Add demo_table (aborted_inst demo_table (demo_op kDMOp_Add 8)) = Some st1 \<and>
    length (div_of st1 3) = 2 \<and>
    DM_TRANS_Abort no_hooks (demo_agent\<lparr>dm := st1, cur_transaction := Some [demo_op kDMOp_Add 8]\<rparr>) = Some (ag', r) \<and>
    div_of (dm ag') 3 = div_of demo_table 3"
proof -
  let ?i = "aborted_inst demo_table (demo_op kDMOp_Add 8)"
  have n: "0 < order ?i" "?i \<notin> set (div_of demo_table 3)" "\<not> IsExistInInstVector ?i (div_of demo_table 3)"
    unfolding demo_table_div [of kDMOp_Add] demo_table_inst by (simp_all add: IsExistInInstVector_def same_prefix_def)
  obtain st1 where a: "DM_INST_VECTOR_Add demo_table ?i = Some st1" "length (div_of st1 3) = 2"
    using Add_result [OF n(1) demo_table_top] n(2) by (simp add: demo_table_div [of kDMOp_Add])
  have "adds_fresh demo_table [demo_op kDMOp_Add 8] st1"
    using n a(1) demo_table_top [of kDMOp_Add 8] by (simp add: Let_def) (simp add: demo_op_def)
  then have f: "adds_fresh demo_table [demo_op kDMOp_Add 8]
      (dm (demo_agent\<lparr>dm := st1, cur_transaction := Some [demo_op kDMOp_Add 8]\<rparr>))" by simp
  show ?thesis
    by (rule DM_TRANS_Abort_undoes_adds [OF _ f, of no_hooks]) (use a in auto)
qed

text \<open>
  The operations are undone in the order they were made, not in reverse: after a transaction
  that deleted an instance and added it again, an abort leaves the instance deleted, although it
  existed before.
\<close>

theorem DM_TRANS_Abort_forward_order:
  assumes "cur_transaction ag = Some [d, a]" "op d = kDMOp_Del" "op a = kDMOp_Add"
    "aborted_inst (dm ag) a = aborted_inst (dm ag) d" "aborted_inst (dm ag) d = inst" "0 < order inst"
    "top_node_of (dm ag) inst = Some tn"
  shows "\<exists>ag' r. DM_TRANS_Abort tv ag = Some (ag', r) \<and> \<not> IsExistInInstVector inst (div_of (dm ag') tn)"
proof -
  obtain st1 where s1: "undo_op (dm ag) d = Some st1" "same_tree (dm ag) st1"
    using assms Add_result [OF assms(6,7)] by (auto simp: undo_op_def same_tree_refl)
  have i1: "aborted_inst st1 a = inst" "top_node_of st1 inst = Some tn"
    using assms aborted_inst_same_tree [OF s1(2)] top_node_of_same_tree [OF s1(2)] by simp_all
  then obtain st2 where s2: "undo_op st1 a = Some st2" "div_of st2 tn = filter (\<lambda>oi. \<not> below inst oi) (div_of st1 tn)"
    using Remove_result [OF assms(6) i1(2)] assms(3) by (auto simp: undo_op_def)
  have "undo_ops (dm ag) [d, a] = Some st2" using s1 s2 by simp
  then have "\<exists>ag' r. DM_TRANS_Abort tv ag = Some (ag', r) \<and> dm ag' = st2"
    using assms(1) by (auto simp: DM_TRANS_Abort_def Let_def split: option.split prod.split sum.split)
  then show ?thesis using s2(2) by (auto simp: IsExist_below)
qed

theorem DM_TRANS_Abort_forward_order_witness:
  "IsExistInInstVector (aborted_inst demo_table (demo_op kDMOp_Del 7)) (div_of demo_table 3) \<and>
    (\<exists>ag' r. DM_TRANS_Abort no_hooks
        (demo_agent\<lparr>dm := demo_table, cur_transaction := Some [demo_op kDMOp_Del 7, demo_op kDMOp_Add 7]\<rparr>) = Some (ag', r) \<and>
      \<not> IsExistInInstVector (aborted_inst demo_table (demo_op kDMOp_Del 7)) (div_of (dm ag') 3))"
proof
  show "IsExistInInstVector (aborted_inst demo_table (demo_op kDMOp_Del 7)) (div_of demo_table 3)"
    unfolding demo_table_div [of kDMOp_Del] by (simp add: IsExist_below)
  let ?ag = "demo_agent\<lparr>dm := demo_table, cur_transaction := Some [demo_op kDMOp_Del 7, demo_op kDMOp_Add 7]\<rparr>"
  show "\<exists>ag' r. DM_TRANS_Abort no_hooks ?ag = Some (ag', r) \<and>
      \<not> IsExistInInstVector (aborted_inst demo_table (demo_op kDMOp_Del 7)) (div_of (dm ag') 3)"
    using DM_TRANS_Abort_forward_order [of ?ag "demo_op kDMOp_Del 7" "demo_op kDMOp_Add 7"
        "aborted_inst demo_table (demo_op kDMOp_Del 7)" 3 no_hooks] demo_table_top [of kDMOp_Del 7]
    by (simp add: demo_table_inst) (simp add: demo_op_def)
qed



end
