(* ===== verification/Dm_Ops.thy ===== *)
theory Dm_Ops
  imports Dm_Trans
begin

text \<open>
  The operations the rest of the agent uses on the data model, \<open>core/data_model.c\<close>: reading and
  setting parameters, adding and deleting object instances, and the queries about paths and
  instances. They work on the whole agent: the tree with its instance vectors, the database and the
  current transaction. The vendor's hooks are parameters: which are registered, and the result of
  each as a function of its request (a group hook gets the paths and gives a value, or none, for each; a
  group set that fails says at which of its parameters).
  \<open>None\<close> is a failed assertion or undefined behaviour.
\<close>

section \<open>Results and hooks\<close>

type_synonym 'a ag_result = "(agent \<times> (usp_err + 'a)) option"

definition ag_bind :: "'a ag_result \<Rightarrow> (agent \<Rightarrow> 'a \<Rightarrow> 'b ag_result) \<Rightarrow> 'b ag_result" where
  "ag_bind m f = (case m of None \<Rightarrow> None | Some (ag, Inl err) \<Rightarrow> Some (ag, Inl err) | Some (ag, Inr x) \<Rightarrow> f ag x)"

lemma ag_bind_simps [simp]:
  "ag_bind None f = None" "ag_bind (Some (ag, Inl err)) f = Some (ag, Inl err)" "ag_bind (Some (ag, Inr x)) f = f ag x"
  by (simp_all add: ag_bind_def)

lemma ag_bind_Inr_iff:
  "ag_bind m f = Some (ag', Inr y) \<longleftrightarrow> (\<exists>ag x. m = Some (ag, Inr x) \<and> f ag x = Some (ag', Inr y))"
  by (auto simp: ag_bind_def split: option.splits prod.splits sum.splits)

definition ag_ok :: "agent \<Rightarrow> 'a \<Rightarrow> 'a ag_result" where "ag_ok ag x = Some (ag, Inr x)"
definition ag_err :: "agent \<Rightarrow> usp_err \<Rightarrow> 'a ag_result" where "ag_err ag err = Some (ag, Inl err)"

lemma ag_ok_iff [simp]: "ag_ok ag x = Some (ag', Inr y) \<longleftrightarrow> ag' = ag \<and> y = x"
  "ag_err ag err \<noteq> Some (ag', Inr y)" "Some (ag', Inr y) \<noteq> ag_err ag err"
  by (auto simp: ag_ok_def ag_err_def)

text \<open>An operation on the tree, and one on the database.\<close>

definition on_dm :: "agent \<Rightarrow> (dm_state \<times> (usp_err + 'a)) option \<Rightarrow> 'a ag_result" where
  "on_dm ag r = map_option (\<lambda>(st, x). (ag\<lparr>dm := st\<rparr>, x)) r"

definition on_db :: "agent \<Rightarrow> (database \<times> (usp_err + 'a)) option \<Rightarrow> 'a ag_result" where
  "on_db ag r = map_option (\<lambda>(d, x). (ag\<lparr>db := d\<rparr>, x)) r"

definition on_vectors :: "agent \<Rightarrow> dm_state option \<Rightarrow> unit ag_result" where
  "on_vectors ag r = map_option (\<lambda>st. (ag\<lparr>dm := st\<rparr>, USP_OK)) r"

definition on_trans :: "agent option \<Rightarrow> unit ag_result" where
  "on_trans r = map_option (\<lambda>ag. (ag, USP_OK)) r"

record dm_req =
  rq_node :: node_ptr
  rq_path :: cstr
  rq_inst :: dm_instances

record hooks =
  instances_hook :: vendor
  floats :: float_text
  get_hook :: "dm_req \<Rightarrow> (usp_err + dm_val_union \<times> cstr) option"
  get_group_hook :: "int \<Rightarrow> (cstr list \<Rightarrow> usp_err + cstr option list) option"
  set_hook :: "node_ptr \<Rightarrow> (dm_req \<Rightarrow> dm_val_union \<Rightarrow> cstr \<Rightarrow> usp_err + unit) option"
  set_group_hook :: "int \<Rightarrow> ((cstr \<times> cstr \<times> 32 word) list \<Rightarrow> usp_err \<times> int + unit) option"
  validate_hook :: "node_ptr \<Rightarrow> (dm_req \<Rightarrow> dm_val_union \<Rightarrow> cstr \<Rightarrow> usp_err + unit) option"
  validate_add_hook :: "dm_req \<Rightarrow> usp_err + unit"
  add_hook :: "dm_req \<Rightarrow> usp_err + unit"
  validate_del_hook :: "dm_req \<Rightarrow> usp_err + unit"
  del_hook :: "dm_req \<Rightarrow> usp_err + unit"
  add_group_hook :: "int \<Rightarrow> (cstr \<Rightarrow> usp_err + int) option"
  del_group_hook :: "int \<Rightarrow> (cstr \<Rightarrow> usp_err + unit) option"

definition SHOW_PASSWORD :: "32 word" where "SHOW_PASSWORD = 1"
definition CHECK_WRITABLE :: "32 word" where "CHECK_WRITABLE = 1"
definition CHECK_CREATABLE :: "32 word" where "CHECK_CREATABLE = 1"
definition IGNORE_INSTANCE_EXISTS :: "32 word" where "IGNORE_INSTANCE_EXISTS = 2"
definition CHECK_DELETABLE :: "32 word" where "CHECK_DELETABLE = 1"
definition IGNORE_NO_INSTANCE :: "32 word" where "IGNORE_NO_INSTANCE = 2"

definition dm_exists :: "hooks \<Rightarrow> agent \<Rightarrow> dm_instances \<Rightarrow> bool ag_result" where
  "dm_exists h ag inst = on_dm ag (DM_INST_VECTOR_IsExist (instances_hook h) (dm ag) inst)"

text \<open>The check that an instance exists, where there is one in the path.\<close>

definition must_exist :: "hooks \<Rightarrow> usp_err \<Rightarrow> agent \<Rightarrow> dm_instances \<Rightarrow> unit ag_result" where
  "must_exist h err ag inst =
    ag_bind (dm_exists h ag inst) (\<lambda>ag1 exists. if exists then ag_ok ag1 () else ag_err ag1 err)"

section \<open>Vendor parameters\<close>

definition GetVendorParam :: "hooks \<Rightarrow> agent \<Rightarrow> node_ptr \<Rightarrow> cstr \<Rightarrow> dm_instances \<Rightarrow> nat \<Rightarrow> (usp_err + cstr) option" where
  "GetVendorParam h ag node path inst len =
    (let info = param_info (heap (dm ag) node); group = param_group_id info
     in if group = NON_GROUPED then
          (case get_hook h \<lparr>rq_node = node, rq_path = path, rq_inst = inst\<rparr> of
             None \<Rightarrow> None
           | Some (Inl err) \<Rightarrow> Some (Inl err)
           | Some (Inr (val, buf)) \<Rightarrow> map_option Inr (SerializeNativeValue (floats h) (type_flags info) val buf len))
        else
          (case get_group_hook h group of
             None \<Rightarrow> Some (Inl USP_ERR_INTERNAL_ERROR)
           | Some cb \<Rightarrow>
              (case cb [path] of
                 Inr (Some v # _) \<Rightarrow> Some (Inr (USP_STRNCPY v len))
               | _ \<Rightarrow> Some (Inl USP_ERR_INTERNAL_ERROR))))"

definition SetVendorParam ::
    "hooks \<Rightarrow> agent \<Rightarrow> node_ptr \<Rightarrow> cstr \<Rightarrow> dm_instances \<Rightarrow> dm_val_union \<Rightarrow> cstr \<Rightarrow> usp_err + unit" where
  "SetVendorParam h ag node path inst val new_value =
    (let info = param_info (heap (dm ag) node); group = param_group_id info
     in if group = NON_GROUPED then
          (case set_hook h node of
             None \<Rightarrow> Inl USP_ERR_INTERNAL_ERROR
           | Some cb \<Rightarrow> cb \<lparr>rq_node = node, rq_path = path, rq_inst = inst\<rparr> val new_value)
        else
          (case set_group_hook h group of
             None \<Rightarrow> Inl USP_ERR_INTERNAL_ERROR
           | Some cb \<Rightarrow> (case cb [(path, new_value, type_flags info)] of Inl (err, _) \<Rightarrow> Inl err | Inr _ \<Rightarrow> USP_OK)))"

section \<open>Reading and setting parameters\<close>

text \<open>A parameter of the database, or its default when it has no row.\<close>

definition get_db_param :: "agent \<Rightarrow> node_ptr \<Rightarrow> dm_instances \<Rightarrow> nat \<Rightarrow> 32 word \<Rightarrow> cstr ag_result" where
  "get_db_param ag node inst len db_flags =
    (case FormInstanceString inst MAX_DM_PATH of
       None \<Rightarrow> None
     | Some key \<Rightarrow>
        (case DATABASE_GetParameterValue (db ag) (node_hash (heap (dm ag) node)) key len db_flags of
           Inl err \<Rightarrow>
             if err = USP_ERR_OBJECT_DOES_NOT_EXIST
             then ag_ok ag (case default_value (param_info (heap (dm ag) node)) of None \<Rightarrow> [] | Some v \<Rightarrow> USP_STRNCPY v len)
             else ag_err ag err
         | Inr v \<Rightarrow> ag_ok ag v))"

definition DATA_MODEL_GetParameterValue :: "hooks \<Rightarrow> agent \<Rightarrow> cstr \<Rightarrow> nat \<Rightarrow> 32 word \<Rightarrow> cstr ag_result" where
  "DATA_MODEL_GetParameterValue h ag path len flags =
    (case DM_PRIV_GetNodeFromPath (dm ag) path True False of
       None \<Rightarrow> ag_err ag USP_ERR_INVALID_PATH
     | Some (node, inst, _) \<Rightarrow>
        ag_bind (if 0 < order inst then must_exist h USP_ERR_OBJECT_DOES_NOT_EXIST ag inst else ag_ok ag ()) (\<lambda>ag1 _.
        ag_bind (case node_type (heap (dm ag1) node) of
            kDMNodeType_Param_ConstantValue \<Rightarrow>
              (case default_value (param_info (heap (dm ag1) node)) of None \<Rightarrow> None | Some v \<Rightarrow> ag_ok ag1 (USP_STRNCPY v len))
          | kDMNodeType_DBParam_Secure \<Rightarrow>
              (if flags AND SHOW_PASSWORD = 0 then ag_ok ag1 [] else get_db_param ag1 node inst len OBFUSCATED_VALUE)
          | kDMNodeType_DBParam_ReadWrite \<Rightarrow> get_db_param ag1 node inst len 0
          | kDMNodeType_DBParam_ReadOnly \<Rightarrow> get_db_param ag1 node inst len 0
          | kDMNodeType_DBParam_ReadOnlyAuto \<Rightarrow> get_db_param ag1 node inst len 0
          | kDMNodeType_DBParam_ReadWriteAuto \<Rightarrow> get_db_param ag1 node inst len 0
          | kDMNodeType_Param_NumEntries \<Rightarrow>
              ag_bind (on_dm ag1 (map_option (\<lambda>(st, r, _). (st, r))
                  (DM_INST_VECTOR_GetNumInstances (instances_hook h) (dm ag1) (table_node (param_info (heap (dm ag1) node))) inst)))
                (\<lambda>ag2 num. ag_ok ag2 (fst (USP_SNPRINTF len (show_int num))))
          | kDMNodeType_VendorParam_ReadOnly \<Rightarrow> map_option (\<lambda>r. (ag1, r)) (GetVendorParam h ag1 node path inst len)
          | kDMNodeType_VendorParam_ReadWrite \<Rightarrow> map_option (\<lambda>r. (ag1, r)) (GetVendorParam h ag1 node path inst len)
          | _ \<Rightarrow> ag_err ag1 USP_ERR_INVALID_PATH)
          (\<lambda>ag2 buf. ag_ok ag2 (take (len - 1) buf))))"

definition set_db_param :: "agent \<Rightarrow> node_ptr \<Rightarrow> dm_instances \<Rightarrow> cstr \<Rightarrow> 32 word \<Rightarrow> unit ag_result" where
  "set_db_param ag node inst new_value db_flags =
    (case FormInstanceString inst MAX_DM_PATH of
       None \<Rightarrow> None
     | Some key \<Rightarrow> on_db ag (DATABASE_SetParameterValue (db ag) (node_hash (heap (dm ag) node)) key new_value db_flags))"

text \<open>The type of a parameter that can be set from the outside, or from the inside only.\<close>

definition set_refused :: "dm_node_type \<Rightarrow> 32 word \<Rightarrow> bool" where
  "set_refused type flags \<longleftrightarrow>
    (type \<in> {kDMNodeType_DBParam_ReadOnly, kDMNodeType_DBParam_ReadOnlyAuto} \<and> flags AND CHECK_WRITABLE \<noteq> 0) \<or>
    type \<in> {kDMNodeType_Param_ConstantValue, kDMNodeType_Param_NumEntries, kDMNodeType_VendorParam_ReadOnly}"

definition set_by_type :: "hooks \<Rightarrow> agent \<Rightarrow> node_ptr \<Rightarrow> cstr \<Rightarrow> dm_instances \<Rightarrow> dm_val_union \<Rightarrow> cstr \<Rightarrow> unit ag_result" where
  "set_by_type h ag node path inst val new_value =
    (let validated = (\<lambda>db_flags.
           case (case validate_hook h node of None \<Rightarrow> USP_OK
                 | Some cb \<Rightarrow> cb \<lparr>rq_node = node, rq_path = path, rq_inst = inst\<rparr> val new_value) of
             Inl err \<Rightarrow> ag_err ag err
           | Inr _ \<Rightarrow> set_db_param ag node inst new_value db_flags)
     in case node_type (heap (dm ag) node) of
          kDMNodeType_VendorParam_ReadWrite \<Rightarrow> Some (ag, SetVendorParam h ag node path inst val new_value)
        | kDMNodeType_DBParam_Secure \<Rightarrow> validated OBFUSCATED_VALUE
        | kDMNodeType_DBParam_ReadWrite \<Rightarrow> validated 0
        | kDMNodeType_DBParam_ReadWriteAuto \<Rightarrow> validated 0
        | kDMNodeType_DBParam_ReadOnly \<Rightarrow> set_db_param ag node inst new_value 0
        | kDMNodeType_DBParam_ReadOnlyAuto \<Rightarrow> set_db_param ag node inst new_value 0
        | _ \<Rightarrow> None)"

definition DATA_MODEL_SetParameterValue :: "hooks \<Rightarrow> agent \<Rightarrow> cstr \<Rightarrow> cstr \<Rightarrow> 32 word \<Rightarrow> unit ag_result" where
  "DATA_MODEL_SetParameterValue h ag path new_value flags =
    (case DM_PRIV_GetNodeFromPath (dm ag) path True False of
       None \<Rightarrow> ag_err ag USP_ERR_UNSUPPORTED_PARAM
     | Some (node, inst, _) \<Rightarrow>
        if \<not> IsParam (heap (dm ag) node) then ag_err ag USP_ERR_INVALID_PATH
        else
        ag_bind (if 0 < order inst then must_exist h USP_ERR_INVALID_PATH ag inst else ag_ok ag ()) (\<lambda>ag1 _.
        if set_refused (node_type (heap (dm ag1) node)) flags then ag_err ag1 USP_ERR_PARAM_READ_ONLY
        else
        ag_bind (map_option (\<lambda>r. (ag1, r))
            (DM_PRIV_InitSetRequest (floats h) (type_flags (param_info (heap (dm ag1) node))) new_value)) (\<lambda>ag1 val.
        ag_bind (set_by_type h ag1 node path inst val new_value) (\<lambda>ag2 _.
        ag_bind (on_vectors ag2 (DM_INST_VECTOR_Add (dm ag2) inst)) (\<lambda>ag3 _.
        on_trans (DM_TRANS_Add ag3 kDMOp_Set path (Some (new_value, val)) node inst))))))"

section \<open>Parameters of added and deleted objects\<close>

text \<open>The path buffer of \<open>MAX_DM_PATH\<close> bytes, cut off where it is full.\<close>

definition append_path :: "cstr \<Rightarrow> cstr \<Rightarrow> cstr" where
  "append_path path seg = take (MAX_DM_PATH - 1) (path @ seg)"

definition set_child_param ::
    "dm_state \<Rightarrow> dm_instances \<Rightarrow> node_ptr \<Rightarrow> cstr \<Rightarrow> database \<Rightarrow> (database \<times> (usp_err + unit)) option" where
  "set_child_param st inst child value d =
    (case FormInstanceString inst MAX_DM_PATH of
       None \<Rightarrow> None | Some key \<Rightarrow> DATABASE_SetParameterValue d (node_hash (heap st child)) key value 0)"

text \<open>The children of a node in order; \<open>rec\<close> is the call for a single-instance child object.\<close>

fun add_child_params ::
    "(database \<Rightarrow> cstr \<Rightarrow> node_ptr \<Rightarrow> (database \<times> (usp_err + unit)) option) \<Rightarrow>
     hooks \<Rightarrow> dm_state \<Rightarrow> cstr \<Rightarrow> dm_instances \<Rightarrow> database \<Rightarrow> node_ptr list \<Rightarrow> (database \<times> (usp_err + unit)) option" where
  "add_child_params rec h st path inst d [] = Some (d, USP_OK)"
| "add_child_params rec h st path inst d (child # cs) =
    (let path1 = append_path path (''.'' @ node_name (heap st child));
         info = param_info (heap st child)
     in case (case node_type (heap st child) of
          kDMNodeType_DBParam_ReadOnly \<Rightarrow> Option.bind (default_value info) (\<lambda>v. set_child_param st inst child v d)
        | kDMNodeType_DBParam_ReadWrite \<Rightarrow> Option.bind (default_value info) (\<lambda>v. set_child_param st inst child v d)
        | kDMNodeType_DBParam_Secure \<Rightarrow> Option.bind (default_value info) (\<lambda>v. set_child_param st inst child v d)
        | kDMNodeType_DBParam_ReadOnlyAuto \<Rightarrow>
            (case get_hook h \<lparr>rq_node = child, rq_path = path1, rq_inst = inst\<rparr> of
               None \<Rightarrow> None
             | Some (Inl err) \<Rightarrow> Some (d, Inl err)
             | Some (Inr (val, buf)) \<Rightarrow>
                Option.bind (SerializeNativeValue (floats h) (type_flags info) val buf MAX_DM_VALUE_LEN)
                  (\<lambda>v. set_child_param st inst child v d))
        | kDMNodeType_DBParam_ReadWriteAuto \<Rightarrow>
            (case get_hook h \<lparr>rq_node = child, rq_path = path1, rq_inst = inst\<rparr> of
               None \<Rightarrow> None
             | Some (Inl err) \<Rightarrow> Some (d, Inl err)
             | Some (Inr (val, buf)) \<Rightarrow>
                Option.bind (SerializeNativeValue (floats h) (type_flags info) val buf MAX_DM_VALUE_LEN)
                  (\<lambda>v. set_child_param st inst child v d))
        | kDMNodeType_Object_SingleInstance \<Rightarrow> rec d path1 child
        | _ \<Rightarrow> Some (d, USP_OK)) of
          None \<Rightarrow> None
        | Some (d1, Inl err) \<Rightarrow> Some (d1, Inl err)
        | Some (d1, Inr _) \<Rightarrow> add_child_params rec h st path inst d1 cs)"

fun AddChildParamsDefaultValues ::
    "nat \<Rightarrow> hooks \<Rightarrow> dm_state \<Rightarrow> dm_instances \<Rightarrow> database \<Rightarrow> cstr \<Rightarrow> node_ptr \<Rightarrow> (database \<times> (usp_err + unit)) option" where
  "AddChildParamsDefaultValues 0 h st inst d path node = None"
| "AddChildParamsDefaultValues (Suc depth) h st inst d path node =
    add_child_params (AddChildParamsDefaultValues depth h st inst) h st path inst d (child_nodes (heap st node))"

text \<open>
  Deleting the parameters below an instance. The instance structure is lent to the loops over
  nested tables and given back with the slot it used cleared, so it is part of the result.
\<close>

definition delete_child_param :: "agent \<Rightarrow> dm_instances \<Rightarrow> node_ptr \<Rightarrow> unit ag_result" where
  "delete_child_param ag inst child =
    (case FormInstanceString inst MAX_DM_PATH of
       None \<Rightarrow> None
     | Some key \<Rightarrow> on_db ag (Some (DATABASE_DeleteParameter (db ag) (node_hash (heap (dm ag) child)) key)))"

type_synonym delete_call = "agent \<Rightarrow> cstr \<Rightarrow> node_ptr \<Rightarrow> dm_instances \<Rightarrow> dm_instances ag_result"

fun delete_children :: "delete_call \<Rightarrow> delete_call \<Rightarrow> agent \<Rightarrow> cstr \<Rightarrow> dm_instances \<Rightarrow> node_ptr list \<Rightarrow> dm_instances ag_result" where
  "delete_children single multi ag path inst [] = ag_ok ag inst"
| "delete_children single multi ag path inst (child # cs) =
    (let path1 = append_path path (''.'' @ node_name (heap (dm ag) child)); type = node_type (heap (dm ag) child)
     in ag_bind
       (if type \<in> {kDMNodeType_DBParam_ReadOnly, kDMNodeType_DBParam_ReadWrite, kDMNodeType_DBParam_ReadOnlyAuto,
                   kDMNodeType_DBParam_ReadWriteAuto, kDMNodeType_DBParam_Secure}
        then ag_bind (delete_child_param ag inst child) (\<lambda>ag1 _. ag_ok ag1 inst)
        else if type = kDMNodeType_Object_SingleInstance then single ag path1 child inst
        else if type = kDMNodeType_Object_MultiInstance then multi ag path1 child inst
        else ag_ok ag inst)
       (\<lambda>ag1 inst1. delete_children single multi ag1 path inst1 cs))"

text \<open>\<open>None\<close>, too, where the terminator of the path is written behind the buffer.\<close>

fun delete_instances :: "delete_call \<Rightarrow> agent \<Rightarrow> cstr \<Rightarrow> node_ptr \<Rightarrow> nat \<Rightarrow> dm_instances \<Rightarrow> int_vector \<Rightarrow> dm_instances ag_result" where
  "delete_instances single ag path node k inst [] = ag_ok ag inst"
| "delete_instances single ag path node k inst (n # ns) =
    (let seg = ''.'' @ show_int n; path1 = append_path path seg; inst1 = inst\<lparr>instances := (instances inst)[k := n]\<rparr>
     in ag_bind (single ag path1 node inst1) (\<lambda>ag1 inst2.
        ag_bind (on_vectors ag1 (DM_INST_VECTOR_Remove (dm ag1) inst2)) (\<lambda>ag2 _.
        if MAX_DM_PATH \<le> length path + length seg then None
        else ag_bind (on_trans (DM_TRANS_Add ag2 kDMOp_Del path1 None node inst2)) (\<lambda>ag3 _.
          delete_instances single ag3 path node k inst2 ns))))"

fun DeleteChildParams :: "nat \<Rightarrow> hooks \<Rightarrow> delete_call" and DeleteChildParams_MultiInstanceObject :: "nat \<Rightarrow> hooks \<Rightarrow> delete_call" where
  "DeleteChildParams 0 h ag path node inst = None"
| "DeleteChildParams (Suc depth) h ag path node inst =
    delete_children (DeleteChildParams depth h) (DeleteChildParams_MultiInstanceObject depth h) ag path inst
      (child_nodes (heap (dm ag) node))"
| "DeleteChildParams_MultiInstanceObject 0 h ag path node inst = None"
| "DeleteChildParams_MultiInstanceObject (Suc depth) h ag path node inst =
    (case DM_INST_VECTOR_GetInstances (instances_hook h) (dm ag) node inst of
       None \<Rightarrow> None
     | Some (st, Inl err, iv, inst1) \<Rightarrow> ag_err (ag\<lparr>dm := st\<rparr>) err
     | Some (st, Inr _, iv, inst1) \<Rightarrow>
        let k = order inst1; inst2 = inst1\<lparr>inodes := (inodes inst1)[k := node], order := Suc k\<rparr>
        in if MAX_DM_INSTANCE_ORDER \<le> k then None
           else ag_bind (delete_instances (DeleteChildParams depth h) (ag\<lparr>dm := st\<rparr>) path node k inst2 iv)
             (\<lambda>ag1 inst3. ag_ok ag1 (inst3\<lparr>inodes := (inodes inst3)[k := NULL], instances := (instances inst3)[k := 0], order := k\<rparr>)))"

section \<open>Adding and deleting instances\<close>

definition MAX_TREE_DEPTH :: nat where "MAX_TREE_DEPTH = 2 * MAX_PATH_SEGMENTS"

definition cut_last_segment :: "cstr \<Rightarrow> cstr option" where
  "cut_last_segment s = (if CHR ''.'' \<in> set s then Some (rev (drop 1 (dropWhile (\<lambda>c. c \<noteq> CHR ''.'') (rev s)))) else None)"

text \<open>
  The number of the new instance: chosen here, given in the path, or left to the group hook (where
  the code has no value yet, \<open>None\<close> here). \<open>Inr None\<close>: it exists, and the caller asked to ignore that.
\<close>

definition new_instance_number ::
    "hooks \<Rightarrow> agent \<Rightarrow> node_ptr \<Rightarrow> cstr \<Rightarrow> dm_instances \<Rightarrow> bool \<Rightarrow> 32 word \<Rightarrow> (int option \<times> dm_instances \<times> cstr) option ag_result" where
  "new_instance_number h ag node path inst want_number flags =
    (if group_id (object_info (heap (dm ag) node)) \<noteq> NON_GROUPED then ag_ok ag (Some (None, inst, path))
     else if want_number then
       (case DM_INST_VECTOR_GetNextInstance (dm ag) node inst of
          None \<Rightarrow> None | Some (n, inst1) \<Rightarrow> ag_ok ag (Some (Some n, inst1, path)))
     else
       ag_bind (dm_exists h ag inst) (\<lambda>ag1 exists.
         if exists then (if flags AND IGNORE_INSTANCE_EXISTS \<noteq> 0 then ag_ok ag1 None else ag_err ag1 USP_ERR_REQUEST_DENIED)
         else if order inst = 0 then None
         else case cut_last_segment path of
                None \<Rightarrow> None
              | Some parent \<Rightarrow> ag_ok ag1 (Some (Some (instances inst ! (order inst - 1)), inst\<lparr>order := order inst - 1\<rparr>, parent))))"

definition new_instance :: "node_ptr \<Rightarrow> int \<Rightarrow> dm_instances \<Rightarrow> dm_instances" where
  "new_instance node n inst = inst\<lparr>inodes := (inodes inst)[order inst := node],
    instances := (instances inst)[order inst := n], order := Suc (order inst)\<rparr>"

text \<open>The vendor's part in an add: the hooks of the object, or of its group.\<close>

definition add_by_hooks :: "hooks \<Rightarrow> agent \<Rightarrow> node_ptr \<Rightarrow> cstr \<Rightarrow> dm_instances \<Rightarrow> int option \<Rightarrow> 32 word \<Rightarrow> (usp_err + int) option" where
  "add_by_hooks h ag node path inst number flags =
    (let info = object_info (heap (dm ag) node)
     in case number of
          Some n \<Rightarrow>
            (case (if flags AND CHECK_CREATABLE \<noteq> 0 \<and> validate_add_cb info
                   then validate_add_hook h \<lparr>rq_node = node, rq_path = path, rq_inst = inst\<rparr> else USP_OK) of
               Inl err \<Rightarrow> Some (Inl err)
             | Inr _ \<Rightarrow>
                 if MAX_DM_INSTANCE_ORDER \<le> order inst then None
                 else Some (usp_bind (if add_cb info
                     then add_hook h \<lparr>rq_node = node, rq_path = path, rq_inst = new_instance node n inst\<rparr> else USP_OK)
                   (\<lambda>_. Inr n)))
        | None \<Rightarrow>
            (case add_group_hook h (group_id info) of
               None \<Rightarrow> Some (Inl USP_ERR_OBJECT_NOT_CREATABLE)
             | Some cb \<Rightarrow>
                (case cb path of Inl err \<Rightarrow> Some (Inl err)
                 | Inr n \<Rightarrow> if MAX_DM_INSTANCE_ORDER \<le> order inst then None else Some (Inr n))))"

text \<open>What an add does once the vendor has agreed.\<close>

definition complete_add :: "hooks \<Rightarrow> agent \<Rightarrow> node_ptr \<Rightarrow> cstr \<Rightarrow> dm_instances \<Rightarrow> int \<Rightarrow> int ag_result" where
  "complete_add h ag node path inst n =
    (let inst1 = new_instance node n inst; seg = ''.'' @ show_int n; path1 = append_path path seg
     in ag_bind (on_vectors ag (DM_INST_VECTOR_Add (dm ag) inst1)) (\<lambda>ag1 _.
        case AddChildParamsDefaultValues MAX_TREE_DEPTH h (dm ag1) inst1 (db ag1) path1 node of
          None \<Rightarrow> None
        | Some (d, Inl err) \<Rightarrow>
            ag_bind (on_vectors (ag1\<lparr>db := d\<rparr>) (DM_INST_VECTOR_Remove (dm ag1) inst1)) (\<lambda>ag2 _. ag_err ag2 err)
        | Some (d, Inr _) \<Rightarrow>
            if MAX_DM_PATH \<le> length path + length seg then None
            else ag_bind (on_trans (DM_TRANS_Add (ag1\<lparr>db := d\<rparr>) kDMOp_Add path1 None node inst1)) (\<lambda>ag2 _. ag_ok ag2 n)))"

text \<open>
  \<open>want_number\<close>: the caller passed a variable for the instance number. The result is the number;
  \<open>None\<close> in it where the instance existed already and that was to be ignored.
\<close>

definition DATA_MODEL_AddInstance :: "hooks \<Rightarrow> agent \<Rightarrow> cstr \<Rightarrow> bool \<Rightarrow> 32 word \<Rightarrow> int option ag_result" where
  "DATA_MODEL_AddInstance h ag path want_number flags =
    (if path = [] then None
     else if MAX_DM_PATH \<le> length path then ag_err ag USP_ERR_RESOURCES_EXCEEDED
     else let internal_path = (if last path = CHR ''.'' then butlast path else path)
     in case DM_PRIV_GetNodeFromPath (dm ag) internal_path True True of
       None \<Rightarrow> ag_err ag USP_ERR_OBJECT_DOES_NOT_EXIST
     | Some (node, inst, is_qualified_instance) \<Rightarrow>
        let info = object_info (heap (dm ag) node)
        in if node_type (heap (dm ag) node) \<noteq> kDMNodeType_Object_MultiInstance then ag_err ag USP_ERR_OBJECT_NOT_CREATABLE
           else if group_id info \<noteq> NON_GROUPED \<and> \<not> group_writable info then ag_err ag USP_ERR_OBJECT_NOT_CREATABLE
           else if is_qualified_instance \<noteq> (\<not> want_number \<and> group_id info = NON_GROUPED)
           then ag_err ag USP_ERR_OBJECT_NOT_CREATABLE
           else
           ag_bind (new_instance_number h ag node internal_path inst want_number flags) (\<lambda>ag1 r.
           case r of
             None \<Rightarrow> ag_ok ag1 None
           | Some (number, inst1, path1) \<Rightarrow>
              ag_bind (must_exist h USP_ERR_OBJECT_DOES_NOT_EXIST ag1 inst1) (\<lambda>ag2 _.
              ag_bind (map_option (\<lambda>r. (ag2, r)) (add_by_hooks h ag2 node path1 inst1 number flags)) (\<lambda>ag2 n.
              ag_bind (complete_add h ag2 node path1 inst1 n) (\<lambda>ag3 n. ag_ok ag3 (Some n))))))"

definition delete_by_hooks :: "hooks \<Rightarrow> agent \<Rightarrow> node_ptr \<Rightarrow> cstr \<Rightarrow> dm_instances \<Rightarrow> 32 word \<Rightarrow> usp_err + unit" where
  "delete_by_hooks h ag node path inst flags =
    (let info = object_info (heap (dm ag) node); rq = \<lparr>rq_node = node, rq_path = path, rq_inst = inst\<rparr>
     in if group_id info = NON_GROUPED then
          usp_bind (if flags AND CHECK_DELETABLE \<noteq> 0 \<and> validate_del_cb info then validate_del_hook h rq else USP_OK)
            (\<lambda>_. if del_cb info then del_hook h rq else USP_OK)
        else if \<not> group_writable info then Inl USP_ERR_OBJECT_NOT_DELETABLE
        else case del_group_hook h (group_id info) of
               None \<Rightarrow> Inl USP_ERR_OBJECT_NOT_DELETABLE
             | Some cb \<Rightarrow> cb path)"

definition DATA_MODEL_DeleteInstance :: "hooks \<Rightarrow> agent \<Rightarrow> cstr \<Rightarrow> 32 word \<Rightarrow> unit ag_result" where
  "DATA_MODEL_DeleteInstance h ag path flags =
    (case DM_PRIV_GetNodeFromPath (dm ag) path True True of
       None \<Rightarrow> ag_err ag USP_ERR_OBJECT_DOES_NOT_EXIST
     | Some (node, inst, is_qualified_instance) \<Rightarrow>
        if \<not> is_qualified_instance then ag_err ag USP_ERR_OBJECT_NOT_CREATABLE
        else
        ag_bind (dm_exists h ag inst) (\<lambda>ag1 exists.
        if \<not> exists then (if flags AND IGNORE_NO_INSTANCE \<noteq> 0 then ag_ok ag1 () else ag_err ag1 USP_ERR_OBJECT_DOES_NOT_EXIST)
        else if node_type (heap (dm ag1) node) \<noteq> kDMNodeType_Object_MultiInstance then ag_err ag1 USP_ERR_OBJECT_NOT_CREATABLE
        else
        ag_bind (Some (ag1, delete_by_hooks h ag1 node path inst flags)) (\<lambda>ag1 _.
        ag_bind (on_trans (DM_TRANS_Add ag1 kDMOp_Del path None node inst)) (\<lambda>ag2 _.
        ag_bind (DeleteChildParams MAX_TREE_DEPTH h ag2 (USP_STRNCPY path MAX_DM_PATH) node inst) (\<lambda>ag3 inst1.
        on_vectors ag3 (DM_INST_VECTOR_Remove (dm ag3) inst1))))))"

section \<open>Lemmas on the parts\<close>

lemma dm_exists_result:
  assumes "dm_exists h ag inst = Some (ag', Inr b)" "refresh_instances_top_node (dm ag) = NULL"
  shows "db ag' = db ag \<and> cur_transaction ag' = cur_transaction ag \<and> same_tree (dm ag) (dm ag') \<and>
    refresh_instances_top_node (dm ag') = NULL \<and>
    (0 < order inst \<longrightarrow> (\<exists>tn. top_node_of (dm ag') inst = Some tn \<and> settled (dm ag') tn \<and>
      b = IsExistInInstVector inst (div_of (dm ag') tn)))"
proof -
  obtain st' where "DM_INST_VECTOR_IsExist (instances_hook h) (dm ag) inst = Some (st', Inr b)" "ag' = ag\<lparr>dm := st'\<rparr>"
    using assms(1) by (auto simp: dm_exists_def on_dm_def)
  then show ?thesis using IsExist_settled assms(2) by fastforce
qed

lemma must_exist_result:
  assumes "must_exist h err ag inst = Some (ag', USP_OK)" "refresh_instances_top_node (dm ag) = NULL"
  shows "db ag' = db ag \<and> cur_transaction ag' = cur_transaction ag \<and> same_tree (dm ag) (dm ag') \<and>
    refresh_instances_top_node (dm ag') = NULL \<and>
    (0 < order inst \<longrightarrow> (\<exists>tn. top_node_of (dm ag') inst = Some tn \<and> settled (dm ag') tn \<and>
      IsExistInInstVector inst (div_of (dm ag') tn)))"
proof -
  have "dm_exists h ag inst = Some (ag', Inr True)"
    using assms(1) by (auto simp: must_exist_def ag_bind_Inr_iff split: if_splits)
  from dm_exists_result [OF this assms(2)] show ?thesis by auto
qed

lemma must_exist_settled:
  assumes "top_node_of (dm ag) inst = Some tn" "settled (dm ag) tn" "0 < order inst"
  shows "must_exist h err ag inst =
    (if IsExistInInstVector inst (div_of (dm ag) tn) then ag_ok ag () else ag_err ag err)"
  using IsExist_in_settled [OF assms] by (simp add: must_exist_def dm_exists_def on_dm_def)

lemma DM_TRANS_Add_result:
  assumes "DM_TRANS_Add ag k path v node inst = Some ag'"
  shows "db ag' = db ag \<and> heap (dm ag') = heap (dm ag) \<and> dm_node_map (dm ag') = dm_node_map (dm ag) \<and>
    (k \<noteq> kDMOp_Del \<longrightarrow> dm ag' = dm ag) \<and> settled (dm ag') q = settled (dm ag) q \<and>
    (k \<noteq> kDMOp_Set \<longrightarrow> (\<exists>dts. cur_transaction ag = Some dts \<and> cur_transaction ag' = Some (dts @
      [\<lparr>op = k, tr_path = path, tr_value = map_option fst v,
        tr_val_union = (case v of None \<Rightarrow> zero_val | Some (_, val) \<Rightarrow> val), tr_node = node,
        tr_inst = \<lparr>req_order = order inst, req_instances = instances inst\<rparr>\<rparr>])))"
  using assms
  by (auto simp: DM_TRANS_Add_def send_event_def upd_dm_def settled_def Let_def split: option.splits if_splits)

lemma Add_keeps:
  assumes "DM_INST_VECTOR_Add st inst = Some st'"
  shows "same_tree st st' \<and> settled st' q = settled st q \<and> top_node_of st' m = top_node_of st m \<and>
    (\<exists>new. div_of st' q = div_of st q @ new)"
proof (cases "order inst = 0")
  case True
  then show ?thesis using assms by (simp add: DM_INST_VECTOR_Add_def same_tree_refl)
next
  case False
  then obtain tn where tn: "top_node_of st inst = Some tn"
    using assms by (auto simp: DM_INST_VECTOR_Add_def split: option.splits)
  have e: "st' = (if inst \<in> set (div_of st tn) then st else set_div tn (div_of st tn @ [inst]) st)"
    using Add_result [OF _ tn] assms False by simp
  have t: "same_tree st st'" by (simp add: e same_tree_refl)
  have "settled st' q = settled st q" by (simp add: e)
  moreover have "\<exists>new. div_of st' q = div_of st q @ new" by (simp add: e)
  ultimately show ?thesis using t top_node_of_same_tree [OF t] by simp
qed

text \<open>Writing a database parameter and reading it.\<close>

definition db_flags_of :: "dm_node_type \<Rightarrow> 32 word" where
  "db_flags_of type = (if type = kDMNodeType_DBParam_Secure then OBFUSCATED_VALUE else 0)"

definition is_db_type :: "dm_node_type \<Rightarrow> bool" where
  "is_db_type type \<longleftrightarrow> type \<in> {kDMNodeType_DBParam_ReadWrite, kDMNodeType_DBParam_ReadOnly, kDMNodeType_DBParam_ReadOnlyAuto,
    kDMNodeType_DBParam_ReadWriteAuto, kDMNodeType_DBParam_Secure}"

lemma set_by_type_db:
  assumes "set_by_type h ag node path inst val v = Some (ag', USP_OK)" "is_db_type (node_type (heap (dm ag) node))"
  shows "set_db_param ag node inst v (db_flags_of (node_type (heap (dm ag) node))) = Some (ag', USP_OK)"
  using assms by (auto simp: set_by_type_def is_db_type_def db_flags_of_def Let_def split: sum.splits)

lemma db_read_written:
  assumes "DATABASE_SetParameterValue d hash key v flags = Some (d', USP_OK)" "nul_free v" "length v < buflen"
    "sql d (Sql_Get (hash, key))"
  shows "DATABASE_GetParameterValue d' hash key buflen flags = Inr v" "sql d' = sql d"
  using assms
  by (auto simp: DATABASE_SetParameterValue_def DATABASE_GetParameterValue_def Let_def ObfuscatedCopy_twice
      c_string_id split: if_splits)

lemma SHOW_PASSWORD_set: "SHOW_PASSWORD \<noteq> 0"
  by (simp add: SHOW_PASSWORD_def)

lemma GetParameterValue_db:
  assumes "DM_PRIV_GetNodeFromPath (dm ag) path True False = Some (node, inst, q)"
    "is_db_type (node_type (heap (dm ag) node))"
    "(if 0 < order inst then must_exist h USP_ERR_OBJECT_DOES_NOT_EXIST ag inst else ag_ok ag ()) = ag_ok ag ()"
    "FormInstanceString inst MAX_DM_PATH = Some key"
    "DATABASE_GetParameterValue (db ag) (node_hash (heap (dm ag) node)) key len
      (db_flags_of (node_type (heap (dm ag) node))) = Inr v" "length v < len"
  shows "DATA_MODEL_GetParameterValue h ag path len SHOW_PASSWORD = ag_ok ag v"
proof -
  have "get_db_param ag node inst len (db_flags_of (node_type (heap (dm ag) node))) = ag_ok ag v"
    using assms(4,5) by (simp add: get_db_param_def)
  then show ?thesis using assms(2,6)
    by (auto simp: DATA_MODEL_GetParameterValue_def assms(1,3) is_db_type_def db_flags_of_def SHOW_PASSWORD_set ag_ok_def)
qed

section \<open>Properties\<close>

text \<open>
  C8: what a set writes to a parameter of the database, with or without obfuscation, is what the
  next get of the same path returns, whatever the vendor's hooks do by then: the instance the path
  names still exists, no refresh comes in between, and the row read is the row written.
\<close>

theorem SetParameterValue_GetParameterValue:
  assumes set: "DATA_MODEL_SetParameterValue h ag path v flags = Some (ag', USP_OK)"
    and node: "DM_PRIV_GetNodeFromPath (dm ag) path True False = Some (node, inst, q)" "is_db_type (node_type (heap (dm ag) node))"
    and idle: "refresh_instances_top_node (dm ag) = NULL" and v: "nul_free v" "length v < len"
    and sql: "\<forall>stmt. sql (db ag) stmt"
  shows "DATA_MODEL_GetParameterValue h' ag' path len SHOW_PASSWORD = Some (ag', Inr v)"
proof -
  let ?chk = "\<lambda>h err ag. if 0 < order inst then must_exist h err ag inst else ag_ok ag ()"
  obtain ag1 ag2 ag3 val where
    1: "?chk h USP_ERR_INVALID_PATH ag = Some (ag1, USP_OK)" and
    2: "set_by_type h ag1 node path inst val v = Some (ag2, USP_OK)" and
    3: "on_vectors ag2 (DM_INST_VECTOR_Add (dm ag2) inst) = Some (ag3, USP_OK)" and
    4: "on_trans (DM_TRANS_Add ag3 kDMOp_Set path (Some (v, val)) node inst) = Some (ag', USP_OK)"
    using set by (auto simp: DATA_MODEL_SetParameterValue_def node(1) ag_bind_Inr_iff split: if_splits)
  have a1: "db ag1 = db ag" "same_tree (dm ag) (dm ag1)"
    and ex: "0 < order inst \<Longrightarrow> \<exists>tn. top_node_of (dm ag1) inst = Some tn \<and> settled (dm ag1) tn \<and>
      IsExistInInstVector inst (div_of (dm ag1) tn)"
    using 1 idle must_exist_result [of h USP_ERR_INVALID_PATH ag inst ag1] by (auto simp: same_tree_refl split: if_splits)
  note f1 = same_tree_fields [OF a1(2)]
  let ?fl = "db_flags_of (node_type (heap (dm ag) node))" and ?hash = "node_hash (heap (dm ag) node)"
  obtain key d where key: "FormInstanceString inst MAX_DM_PATH = Some key"
    "DATABASE_SetParameterValue (db ag) ?hash key v ?fl = Some (d, USP_OK)" "ag2 = ag1\<lparr>db := d\<rparr>"
    using set_by_type_db [OF 2] node(2) by (auto simp: f1 set_db_param_def on_db_def a1 split: option.splits)
  obtain st where st: "DM_INST_VECTOR_Add (dm ag1) inst = Some st" "ag3 = ag2\<lparr>dm := st\<rparr>"
    using 3 key(3) by (auto simp: on_vectors_def)
  have fin: "dm ag' = st" "db ag' = d"
    using 4 DM_TRANS_Add_result [of ag3 kDMOp_Set path "Some (v, val)" node inst ag'] st(2) key(3) by (auto simp: on_trans_def)
  note keep = Add_keeps [OF st(1)]
  have t: "same_tree (dm ag) (dm ag')" unfolding fin using keep same_tree_trans [OF a1(2)] by blast
  note f = same_tree_fields [OF t] same_tree_GetNode [OF t]
  have chk: "?chk h' USP_ERR_OBJECT_DOES_NOT_EXIST ag' = ag_ok ag' ()"
  proof (cases "0 < order inst")
    case True
    then obtain tn where tn: "top_node_of (dm ag1) inst = Some tn" "settled (dm ag1) tn"
      "IsExistInInstVector inst (div_of (dm ag1) tn)" using ex by blast
    then have "top_node_of (dm ag') inst = Some tn" "settled (dm ag') tn" using keep by (simp_all add: fin)
    moreover have "IsExistInInstVector inst (div_of (dm ag') tn)"
      using tn(3) Add_keeps [OF st(1), of tn inst] unfolding fin IsExistInInstVector_def by auto
    ultimately show ?thesis using True by (simp add: must_exist_settled)
  qed simp
  have "DATABASE_GetParameterValue (db ag') ?hash key len ?fl = Inr v"
    using db_read_written [OF key(2) v] sql by (simp add: fin)
  then have "DATA_MODEL_GetParameterValue h' ag' path len SHOW_PASSWORD = ag_ok ag' v"
    using node v(2) chk key(1) by (intro GetParameterValue_db) (simp_all add: f)
  then show ?thesis by (simp add: ag_ok_def)
qed

text \<open>An agent with one secure parameter, in a transaction, and hooks that agree to everything.\<close>

definition param_node :: dm_node where
  "param_node = demo_node\<lparr>node_path := ''Device.P'', node_name := ''P'', node_type := kDMNodeType_DBParam_Secure,
    node_hash := TEXT_UTILS_CalcHash ''Device.P'', node_order := 0, instance_nodes := replicate 6 NULL,
    param_info := zero_param_info\<lparr>param_group_id := NON_GROUPED, default_value := Some []\<rparr>\<rparr>"

definition param_agent :: agent where
  "param_agent = demo_agent\<lparr>dm := demo_state\<lparr>heap := (\<lambda>_. param_node)\<rparr>, cur_transaction := Some []\<rparr>"

definition demo_hooks :: hooks where
  "demo_hooks = \<lparr>instances_hook = demo_vendor, floats = \<lparr>strtod = (\<lambda>s. (0, s, False)), print_lf = (\<lambda>_. ''0'')\<rparr>,
    get_hook = (\<lambda>_. None), get_group_hook = (\<lambda>_. None), set_hook = (\<lambda>_. None), set_group_hook = (\<lambda>_. None),
    validate_hook = (\<lambda>_. None), validate_add_hook = (\<lambda>_. USP_OK), add_hook = (\<lambda>_. USP_OK),
    validate_del_hook = (\<lambda>_. USP_OK), del_hook = (\<lambda>_. USP_OK), add_group_hook = (\<lambda>_. None), del_group_hook = (\<lambda>_. None)\<rparr>"

lemma param_agent_node:
  "DM_PRIV_GetNodeFromPath (dm param_agent) ''Device.P'' True False = Some (3, zero_instances, True)"
proof -
  have "DM_PRIV_CalcHashFromPath True ''Device.P'' = Inr (TEXT_UTILS_CalcHash ''Device.P'', zero_instances)" by code_simp
  then show ?thesis by (simp add: DM_PRIV_GetNodeFromPath_def FindNodeFromHash_def param_agent_def demo_state_def
      param_node_def zero_instances_def)
qed

lemma param_agent_set:
  "\<exists>ag'. DATA_MODEL_SetParameterValue demo_hooks param_agent ''Device.P'' ''secret'' 0 = Some (ag', USP_OK)"
proof -
  have n: "node_type (heap (dm param_agent) 3) = kDMNodeType_DBParam_Secure"
    "type_flags (param_info (heap (dm param_agent) 3)) = 0" "cur_transaction param_agent = Some []"
    by (simp_all add: param_agent_def param_node_def demo_state_def zero_param_info_def)
  have c: "DM_PRIV_InitSetRequest (floats demo_hooks) 0 ''secret'' = Some (Inr zero_val)"
    by (simp add: DM_PRIV_InitSetRequest_def has_flag_def)
  have k: "FormInstanceString zero_instances MAX_DM_PATH = Some []"
    by (simp add: FormInstanceString_def zero_instances_def c_string_def)
  obtain d where d: "DATABASE_SetParameterValue (db param_agent) (node_hash (heap (dm param_agent) 3)) [] ''secret'' OBFUSCATED_VALUE =
      Some (d, USP_OK)"
    by (simp add: DATABASE_SetParameterValue_def MAX_DM_SHORT_VALUE_LEN_def param_agent_def demo_agent_def Let_def)
  have z: "order zero_instances = 0" by (simp add: zero_instances_def)
  have s: "set_by_type demo_hooks param_agent 3 ''Device.P'' zero_instances zero_val ''secret'' = ag_ok (param_agent\<lparr>db := d\<rparr>) ()"
    by (simp add: set_by_type_def n set_db_param_def k d on_db_def demo_hooks_def ag_ok_def)
  show ?thesis
    by (simp add: DATA_MODEL_SetParameterValue_def param_agent_node n IsParam_def z set_refused_def c s ag_ok_def on_vectors_def
        DM_INST_VECTOR_Add_def on_trans_def DM_TRANS_Add_def)
qed

theorem SetParameterValue_GetParameterValue_witness:
  "\<exists>ag'. DATA_MODEL_SetParameterValue demo_hooks param_agent ''Device.P'' ''secret'' 0 = Some (ag', USP_OK) \<and>
    DATA_MODEL_GetParameterValue demo_hooks ag' ''Device.P'' 64 SHOW_PASSWORD = Some (ag', Inr ''secret'')"
proof -
  obtain ag' where s: "DATA_MODEL_SetParameterValue demo_hooks param_agent ''Device.P'' ''secret'' 0 = Some (ag', USP_OK)"
    using param_agent_set by blast
  have "is_db_type (node_type (heap (dm param_agent) 3))" "refresh_instances_top_node (dm param_agent) = NULL"
    "\<forall>stmt. sql (db param_agent) stmt"
    by (simp_all add: is_db_type_def param_agent_def param_node_def demo_state_def demo_agent_def)
  from SetParameterValue_GetParameterValue [OF s param_agent_node this(1,2) _ _ this(3), of 64 demo_hooks] s
  show ?thesis by (simp add: nul_free_def)
qed

end
