(* ===== verification/Dm_Queries.thy ===== *)
theory Dm_Queries
  imports Dm_Ops
begin

text \<open>
  The queries and notifications of \<open>core/data_model.c\<close>: properties and permissions of a path, the
  instances of an object, the instances a vendor reports, and writing a parameter straight into the
  database at start-up.
\<close>

section \<open>Properties of a path\<close>

definition PP_EXISTS_IN_SCHEMA :: "32 word" where "PP_EXISTS_IN_SCHEMA = 1"
definition PP_IS_OBJECT :: "32 word" where "PP_IS_OBJECT = 2"
definition PP_IS_PARAMETER :: "32 word" where "PP_IS_PARAMETER = 4"
definition PP_IS_OPERATION :: "32 word" where "PP_IS_OPERATION = 8"
definition PP_IS_EVENT :: "32 word" where "PP_IS_EVENT = 0x10"
definition PP_IS_OBJECT_INSTANCE :: "32 word" where "PP_IS_OBJECT_INSTANCE = 0x20"
definition PP_INSTANCE_NUMBERS_EXIST :: "32 word" where "PP_INSTANCE_NUMBERS_EXIST = 0x40"
definition PP_PARENT_INSTANCE_NUMBERS_EXIST :: "32 word" where "PP_PARENT_INSTANCE_NUMBERS_EXIST = 0x80"
definition PP_IS_MULTI_INSTANCE_OBJECT :: "32 word" where "PP_IS_MULTI_INSTANCE_OBJECT = 0x100"
definition PP_IS_SECURE_PARAM :: "32 word" where "PP_IS_SECURE_PARAM = 0x200"
definition PP_IS_WRITABLE :: "32 word" where "PP_IS_WRITABLE = 0x400"

lemmas PP_defs = PP_EXISTS_IN_SCHEMA_def PP_IS_OBJECT_def PP_IS_PARAMETER_def PP_IS_OPERATION_def PP_IS_EVENT_def
  PP_IS_OBJECT_INSTANCE_def PP_INSTANCE_NUMBERS_EXIST_def PP_PARENT_INSTANCE_NUMBERS_EXIST_def
  PP_IS_MULTI_INSTANCE_OBJECT_def PP_IS_SECURE_PARAM_def PP_IS_WRITABLE_def

definition type_properties :: "dm_node_type \<Rightarrow> bool \<Rightarrow> 32 word" where
  "type_properties type qualified =
    (let inst_flag = (if qualified then PP_IS_OBJECT_INSTANCE else 0)
     in case type of
          kDMNodeType_Object_MultiInstance \<Rightarrow> PP_IS_MULTI_INSTANCE_OBJECT OR PP_IS_OBJECT OR inst_flag
        | kDMNodeType_Object_SingleInstance \<Rightarrow> PP_IS_OBJECT OR inst_flag
        | kDMNodeType_DBParam_Secure \<Rightarrow> PP_IS_SECURE_PARAM OR PP_IS_WRITABLE OR PP_IS_PARAMETER
        | kDMNodeType_DBParam_ReadWrite \<Rightarrow> PP_IS_WRITABLE OR PP_IS_PARAMETER
        | kDMNodeType_DBParam_ReadWriteAuto \<Rightarrow> PP_IS_WRITABLE OR PP_IS_PARAMETER
        | kDMNodeType_VendorParam_ReadWrite \<Rightarrow> PP_IS_WRITABLE OR PP_IS_PARAMETER
        | kDMNodeType_SyncOperation \<Rightarrow> PP_IS_OPERATION
        | kDMNodeType_AsyncOperation \<Rightarrow> PP_IS_OPERATION
        | kDMNodeType_Event \<Rightarrow> PP_IS_EVENT
        | _ \<Rightarrow> PP_IS_PARAMETER)"

record path_properties =
  pp_flags :: "32 word"
  pp_permissions :: "16 word"
  pp_group :: int
  pp_type_flags :: "32 word"

text \<open>
  The function has no error result: where a refresh fails it returns the error code in place of the
  flags. \<open>None\<close> is the failed assertion that only an object can be unqualified.
\<close>

definition DATA_MODEL_GetPathProperties ::
    "hooks \<Rightarrow> agent \<Rightarrow> cstr \<Rightarrow> combined_role option \<Rightarrow> (agent \<times> path_properties) option" where
  "DATA_MODEL_GetPathProperties h ag path role =
    (case DM_PRIV_GetNodeFromPath (dm ag) path True True of
       None \<Rightarrow> Some (ag, \<lparr>pp_flags = 0, pp_permissions = PERMIT_NONE, pp_group = 0, pp_type_flags = 0\<rparr>)
     | Some (n, inst, is_qualified_instance) \<Rightarrow>
        let node = heap (dm ag) n;
            flags = PP_EXISTS_IN_SCHEMA OR type_properties (node_type node) is_qualified_instance;
            pp = \<lparr>pp_flags = flags, pp_permissions = DM_PRIV_GetPermissions node role,
                  pp_group = (if IsParam node then param_group_id (param_info node) else NON_GROUPED),
                  pp_type_flags = (if IsParam node then type_flags (param_info node) else 0)\<rparr>;
            error = (\<lambda>ag err. Some (ag, pp\<lparr>pp_flags := of_nat (usp_err_code err)\<rparr>))
        in if \<not> is_qualified_instance \<and> \<not> IsObject node then None
           else case dm_exists h ag inst of
             None \<Rightarrow> None
           | Some (ag1, Inl err) \<Rightarrow> error ag1 err
           | Some (ag1, Inr exists) \<Rightarrow>
               if exists then Some (ag1, pp\<lparr>pp_flags := flags OR (PP_INSTANCE_NUMBERS_EXIST OR PP_PARENT_INSTANCE_NUMBERS_EXIST)\<rparr>)
               else if is_qualified_instance \<and> order inst = 1
               then Some (ag1, pp\<lparr>pp_flags := flags OR PP_PARENT_INSTANCE_NUMBERS_EXIST\<rparr>)
               else if is_qualified_instance \<and> 1 < order inst then
                 (case dm_exists h ag1 (inst\<lparr>order := order inst - 1\<rparr>) of
                    None \<Rightarrow> None
                  | Some (ag2, Inl err) \<Rightarrow> error ag2 err
                  | Some (ag2, Inr exists) \<Rightarrow>
                      Some (ag2, if exists then pp\<lparr>pp_flags := flags OR PP_PARENT_INSTANCE_NUMBERS_EXIST\<rparr> else pp))
               else Some (ag1, pp))"

definition DATA_MODEL_GetPermissions :: "agent \<Rightarrow> cstr \<Rightarrow> combined_role option \<Rightarrow> 16 word \<times> (usp_err + unit)" where
  "DATA_MODEL_GetPermissions ag path role =
    (case DM_PRIV_GetNodeFromPath (dm ag) path False False of
       None \<Rightarrow> (0, Inl USP_ERR_INVALID_PATH)
     | Some (n, _, _) \<Rightarrow> (DM_PRIV_GetPermissions (heap (dm ag) n) role, USP_OK))"

text \<open>The schema path and the instances; whether they exist only when the caller asks.\<close>

definition DATA_MODEL_SplitPath :: "hooks \<Rightarrow> agent \<Rightarrow> cstr \<Rightarrow> bool \<Rightarrow> (cstr \<times> dm_req_instances \<times> bool option) ag_result" where
  "DATA_MODEL_SplitPath h ag path want_exist =
    (case DM_PRIV_GetNodeFromPath (dm ag) path True False of
       None \<Rightarrow> ag_err ag USP_ERR_INVALID_ARGUMENTS
     | Some (n, inst, _) \<Rightarrow>
        ag_bind (if want_exist then ag_bind (dm_exists h ag inst) (\<lambda>ag1 e. ag_ok ag1 (Some e)) else ag_ok ag None) (\<lambda>ag1 e.
          ag_ok ag1 (node_path (heap (dm ag1) n), \<lparr>req_order = order inst, req_instances = instances inst\<rparr>, e)))"

text \<open>A path that is not registered, or not a parameter, fails an assertion.\<close>

definition DATA_MODEL_GetJSONParameterType :: "agent \<Rightarrow> cstr \<Rightarrow> char option" where
  "DATA_MODEL_GetJSONParameterType ag path =
    (case DM_PRIV_GetNodeFromPath (dm ag) path False False of
       None \<Rightarrow> None
     | Some (n, _, _) \<Rightarrow>
        if IsParam (heap (dm ag) n)
        then Some (DATA_MODEL_GetJSONParameterType_of_flags (type_flags (param_info (heap (dm ag) n)))) else None)"

section \<open>Instances of an object\<close>

definition DATA_MODEL_GetNumInstances :: "hooks \<Rightarrow> agent \<Rightarrow> cstr \<Rightarrow> int ag_result" where
  "DATA_MODEL_GetNumInstances h ag path =
    (case DM_PRIV_GetNodeFromPath (dm ag) path True True of
       None \<Rightarrow> ag_err ag USP_ERR_OBJECT_DOES_NOT_EXIST
     | Some (node, inst, is_qualified_instance) \<Rightarrow>
        if node_type (heap (dm ag) node) \<noteq> kDMNodeType_Object_MultiInstance then ag_err ag USP_ERR_OBJECT_NOT_CREATABLE
        else if is_qualified_instance then ag_err ag USP_ERR_INVALID_ARGUMENTS
        else ag_bind (must_exist h USP_ERR_OBJECT_DOES_NOT_EXIST ag inst) (\<lambda>ag1 _.
          on_dm ag1 (map_option (\<lambda>(st, r, _). (st, r)) (DM_INST_VECTOR_GetNumInstances (instances_hook h) (dm ag1) node inst))))"

definition get_instances :: "hooks \<Rightarrow> agent \<Rightarrow> node_ptr \<Rightarrow> dm_instances \<Rightarrow> int_vector ag_result" where
  "get_instances h ag node inst =
    on_dm ag (map_option (\<lambda>(st, r, iv, _). (st, usp_bind r (\<lambda>_. Inr iv)))
      (DM_INST_VECTOR_GetInstances (instances_hook h) (dm ag) node inst))"

definition DATA_MODEL_GetInstances :: "hooks \<Rightarrow> agent \<Rightarrow> cstr \<Rightarrow> int_vector ag_result" where
  "DATA_MODEL_GetInstances h ag path =
    (case DM_PRIV_GetNodeFromPath (dm ag) path True True of
       None \<Rightarrow> ag_err ag USP_ERR_OBJECT_DOES_NOT_EXIST
     | Some (node, inst, is_qualified_instance) \<Rightarrow>
        if node_type (heap (dm ag) node) \<noteq> kDMNodeType_Object_MultiInstance then ag_err ag USP_ERR_NOT_A_TABLE
        else if is_qualified_instance then ag_err ag USP_ERR_INVALID_PATH_SYNTAX
        else ag_bind (must_exist h USP_ERR_OBJECT_DOES_NOT_EXIST ag inst) (\<lambda>ag1 _. get_instances h ag1 node inst))"

definition DATA_MODEL_GetInstancePaths :: "hooks \<Rightarrow> agent \<Rightarrow> cstr \<Rightarrow> str_vector \<Rightarrow> combined_role option \<Rightarrow> str_vector ag_result" where
  "DATA_MODEL_GetInstancePaths h ag path sv role =
    (case DM_PRIV_GetNodeFromPath (dm ag) path True True of
       None \<Rightarrow> ag_err ag USP_ERR_INVALID_PATH
     | Some (node, inst, is_qualified_instance) \<Rightarrow>
        if DM_PRIV_GetPermissions (heap (dm ag) node) role AND PERMIT_GET_INST = 0 then ag_ok ag sv
        else if node_type (heap (dm ag) node) \<noteq> kDMNodeType_Object_MultiInstance
        then ag_ok ag (STR_VECTOR_Add_IfNotExist sv path)
        else
        let sv1 = (if is_qualified_instance then STR_VECTOR_Add_IfNotExist sv path else sv)
        in ag_bind (get_instances h ag node inst) (\<lambda>ag1 iv.
             ag_ok ag1 (fold (\<lambda>n sv. STR_VECTOR_Add_IfNotExist sv (fst (USP_SNPRINTF MAX_DM_PATH (path @ ''.'' @ show_int n)))) iv sv1)))"

text \<open>The structure of instances is lent to the loop; the same one is given to every child.\<close>

fun all_instance_paths ::
    "(agent \<Rightarrow> node_ptr \<Rightarrow> dm_instances \<Rightarrow> str_vector \<Rightarrow> (str_vector \<times> dm_instances) ag_result) \<Rightarrow>
     agent \<Rightarrow> node_ptr list \<Rightarrow> dm_instances \<Rightarrow> str_vector \<Rightarrow> (str_vector \<times> dm_instances) ag_result" where
  "all_instance_paths rec ag [] inst sv = ag_ok ag (sv, inst)"
| "all_instance_paths rec ag (c # cs) inst sv =
    ag_bind (rec ag c inst sv) (\<lambda>ag1 (sv1, inst1). all_instance_paths rec ag1 cs inst1 sv1)"

fun GetAllInstancePathsRecursive ::
    "nat \<Rightarrow> hooks \<Rightarrow> combined_role option \<Rightarrow> agent \<Rightarrow> node_ptr \<Rightarrow> dm_instances \<Rightarrow> str_vector \<Rightarrow> (str_vector \<times> dm_instances) ag_result" where
  "GetAllInstancePathsRecursive 0 h role ag node inst sv = None"
| "GetAllInstancePathsRecursive (Suc depth) h role ag node inst sv =
    (if node_type (heap (dm ag) node) = kDMNodeType_Object_MultiInstance then
       on_dm ag (map_option (\<lambda>(st, r, sv1, inst1). (st, usp_bind r (\<lambda>_. Inr (sv1, inst1))))
         (DM_INST_VECTOR_GetAllInstancePaths_Unqualified (instances_hook h) (dm ag) node inst sv role))
     else all_instance_paths (GetAllInstancePathsRecursive depth h role) ag (child_nodes (heap (dm ag) node)) inst sv)"

definition DATA_MODEL_GetAllInstancePaths :: "hooks \<Rightarrow> agent \<Rightarrow> cstr \<Rightarrow> str_vector \<Rightarrow> combined_role option \<Rightarrow> str_vector ag_result" where
  "DATA_MODEL_GetAllInstancePaths h ag path sv role =
    (case DM_PRIV_GetNodeFromPath (dm ag) path True True of
       None \<Rightarrow> ag_err ag USP_ERR_OBJECT_DOES_NOT_EXIST
     | Some (node, inst, is_qualified_instance) \<Rightarrow>
        if \<not> IsObject (heap (dm ag) node) then None
        else if node_type (heap (dm ag) node) = kDMNodeType_Object_MultiInstance \<and> is_qualified_instance then
          on_dm ag (map_option (\<lambda>(st, r, sv1). (st, usp_bind r (\<lambda>_. Inr sv1)))
            (DM_INST_VECTOR_GetAllInstancePaths_Qualified (instances_hook h) (dm ag) inst sv role))
        else ag_bind (GetAllInstancePathsRecursive (Suc MAX_PATH_SEGMENTS) h role ag node inst sv) (\<lambda>ag1 (sv1, _). ag_ok ag1 sv1))"

section \<open>Instances a vendor or the database reports\<close>

definition DATA_MODEL_NotifyInstanceAdded :: "hooks \<Rightarrow> agent \<Rightarrow> cstr \<Rightarrow> unit ag_result" where
  "DATA_MODEL_NotifyInstanceAdded h ag path =
    (case DM_PRIV_GetNodeFromPath (dm ag) path True True of
       None \<Rightarrow> ag_err ag USP_ERR_OBJECT_DOES_NOT_EXIST
     | Some (node, inst, is_qualified_instance) \<Rightarrow>
        if node_type (heap (dm ag) node) \<noteq> kDMNodeType_Object_MultiInstance then ag_err ag USP_ERR_OBJECT_NOT_CREATABLE
        else if \<not> is_qualified_instance then ag_err ag USP_ERR_INVALID_ARGUMENTS
        else ag_bind (dm_exists h ag inst) (\<lambda>ag1 exists.
          if exists then ag_err ag1 USP_ERR_CREATION_FAILURE
          else ag_bind (if 1 < order inst
              then must_exist h USP_ERR_OBJECT_DOES_NOT_EXIST ag1 (inst\<lparr>order := order inst - 1\<rparr>) else ag_ok ag1 ())
            (\<lambda>ag2 _. on_vectors ag2 (DM_INST_VECTOR_Add (dm ag2) inst))))"

definition DATA_MODEL_NotifyInstanceDeleted :: "hooks \<Rightarrow> agent \<Rightarrow> cstr \<Rightarrow> unit ag_result" where
  "DATA_MODEL_NotifyInstanceDeleted h ag path =
    (case DM_PRIV_GetNodeFromPath (dm ag) path True True of
       None \<Rightarrow> ag_err ag USP_ERR_OBJECT_DOES_NOT_EXIST
     | Some (node, inst, is_qualified_instance) \<Rightarrow>
        if node_type (heap (dm ag) node) \<noteq> kDMNodeType_Object_MultiInstance then ag_err ag USP_ERR_OBJECT_NOT_CREATABLE
        else if \<not> is_qualified_instance then ag_err ag USP_ERR_OBJECT_NOT_CREATABLE
        else ag_bind (must_exist h USP_ERR_OBJECT_DOES_NOT_EXIST ag inst) (\<lambda>ag1 _.
          let ag2 = send_event ResolveObjectDeletionPaths ag1
          in on_vectors ag2 (DM_INST_VECTOR_Remove (dm ag2) inst)))"

definition DATA_MODEL_InformInstance :: "agent \<Rightarrow> cstr \<Rightarrow> unit ag_result" where
  "DATA_MODEL_InformInstance ag path =
    (case DM_PRIV_GetNodeFromPath (dm ag) path True True of
       None \<Rightarrow> ag_err ag USP_ERR_INVALID_PATH
     | Some (node, inst, is_qualified_instance) \<Rightarrow>
        if \<not> is_qualified_instance \<or> order inst = 0 then ag_err ag USP_ERR_INVALID_PATH
        else on_vectors ag (DM_INST_VECTOR_Add (dm ag) inst))"

definition DATA_MODEL_AddParameterInstances :: "agent \<Rightarrow> 32 word \<Rightarrow> cstr \<Rightarrow> unit ag_result" where
  "DATA_MODEL_AddParameterInstances ag hash insts =
    (let n = FindNodeFromHash (dm ag) hash; node = heap (dm ag) n
     in if n = NULL then ag_err ag USP_ERR_INVALID_PATH
        else case DM_PRIV_ParseInstanceString insts of
               None \<Rightarrow> None
             | Some (Inl err) \<Rightarrow> ag_err ag USP_ERR_INTERNAL_ERROR
             | Some (Inr inst) \<Rightarrow>
                if order inst \<noteq> node_order node then ag_err ag USP_ERR_INTERNAL_ERROR
                else on_vectors ag (DM_INST_VECTOR_Add (dm ag)
                  (inst\<lparr>inodes := take (order inst) (instance_nodes node) @ drop (order inst) (inodes inst)\<rparr>)))"

definition DATA_MODEL_SetParameterInDatabase :: "hooks \<Rightarrow> agent \<Rightarrow> cstr \<Rightarrow> cstr \<Rightarrow> unit ag_result" where
  "DATA_MODEL_SetParameterInDatabase h ag path value =
    (case DM_PRIV_FormDB_FromPath (dm ag) path MAX_DM_PATH of
       None \<Rightarrow> None
     | Some (Inl err) \<Rightarrow> ag_err ag err
     | Some (Inr (hash, insts)) \<Rightarrow>
        (case DATA_MODEL_GetPathProperties h ag path None of
           None \<Rightarrow> None
         | Some (ag1, pp) \<Rightarrow>
            let db_flags = (if pp_flags pp AND PP_IS_SECURE_PARAM \<noteq> 0 then OBFUSCATED_VALUE else 0)
            in on_db ag1 (DATABASE_SetParameterValue (db ag1) hash insts value db_flags)))"

end
