(* ===== verification/Kv_Vector.thy ===== *)
theory Kv_Vector
  imports Vectors
begin

text \<open>
  The key-value vector of \<open>core/kv_vector.c\<close>: input and output arguments of commands, event
  parameters and value lists are kept in it. A vector is the list of its pairs in the order they
  were added; keys may repeat, and a lookup returns the first match from the hint on. The typed
  accessors share one shape, the locale \<open>typed_entry\<close>.
\<close>

type_synonym kv_vector = "(cstr \<times> cstr) list"

section \<open>Operations\<close>

definition KV_VECTOR_Init :: kv_vector where
  "KV_VECTOR_Init = []"

definition AddKeyValueInternal :: "kv_vector \<Rightarrow> cstr \<Rightarrow> cstr \<Rightarrow> kv_vector" where
  "AddKeyValueInternal kvv key val = kvv @ [(key, val)]"

definition KV_VECTOR_Add :: "kv_vector \<Rightarrow> cstr \<Rightarrow> cstr \<Rightarrow> kv_vector" where
  "KV_VECTOR_Add kvv key val = AddKeyValueInternal kvv key val"

fun KV_VECTOR_Replace :: "kv_vector \<Rightarrow> cstr \<Rightarrow> cstr \<Rightarrow> kv_vector \<times> bool" where
  "KV_VECTOR_Replace [] key val = ([], False)"
| "KV_VECTOR_Replace ((k, v) # kvv) key val =
    (let (rest, is_replaced) = KV_VECTOR_Replace kvv key val
     in if k = key then ((k, val) # rest, True) else ((k, v) # rest, is_replaced))"

definition KV_VECTOR_FindKey :: "kv_vector \<Rightarrow> cstr \<Rightarrow> int \<Rightarrow> int" where
  "KV_VECTOR_FindKey kvv key start_index =
    (let start = (if start_index < 0 \<or> int (length kvv) < start_index then 0 else start_index);
         i = index_from (\<lambda>pair. fst pair = key) start (drop (nat start) kvv)
     in if i \<noteq> INVALID then i
        else index_from (\<lambda>pair. fst pair = key) 0 (take (nat start) kvv))"

definition KV_VECTOR_ReplaceWithHint :: "kv_vector \<Rightarrow> cstr \<Rightarrow> cstr \<Rightarrow> int \<Rightarrow> kv_vector \<times> bool" where
  "KV_VECTOR_ReplaceWithHint kvv key val hint =
    (let index = KV_VECTOR_FindKey kvv key hint
     in if index = INVALID then (kvv, False)
        else (kvv[nat index := (fst (kvv ! nat index), val)], True))"

text \<open>\<open>None\<close> stands for the NULL default.\<close>

definition KV_VECTOR_Get :: "kv_vector \<Rightarrow> cstr \<Rightarrow> cstr option \<Rightarrow> int \<Rightarrow> cstr option" where
  "KV_VECTOR_Get kvv key default_value start_index =
    (let index = KV_VECTOR_FindKey kvv key start_index
     in if index = INVALID then default_value else Some (snd (kvv ! nat index)))"

definition KV_VECTOR_AddUnsigned :: "kv_vector \<Rightarrow> cstr \<Rightarrow> 32 word \<Rightarrow> kv_vector" where
  "KV_VECTOR_AddUnsigned kvv key val = KV_VECTOR_Add kvv key (show_nat (unat val))"

definition KV_VECTOR_AddBool :: "kv_vector \<Rightarrow> cstr \<Rightarrow> bool \<Rightarrow> kv_vector" where
  "KV_VECTOR_AddBool kvv key val = KV_VECTOR_Add kvv key (TEXT_UTILS_BoolToString val)"

definition KV_VECTOR_AddEnum :: "kv_vector \<Rightarrow> cstr \<Rightarrow> int \<Rightarrow> enum_table \<Rightarrow> kv_vector" where
  "KV_VECTOR_AddEnum kvv key val enums = KV_VECTOR_Add kvv key (TEXT_UTILS_EnumToString val enums)"

definition KV_VECTOR_AddHexNumber :: "kv_vector \<Rightarrow> cstr \<Rightarrow> byte list \<Rightarrow> kv_vector" where
  "KV_VECTOR_AddHexNumber kvv key buf = AddKeyValueInternal kvv key (bytes_to_hex buf)"

definition KV_VECTOR_GetUnsigned :: "kv_vector \<Rightarrow> cstr \<Rightarrow> nat \<Rightarrow> usp_err + nat" where
  "KV_VECTOR_GetUnsigned kvv key default_value =
    (let index = KV_VECTOR_FindKey kvv key 0
     in if index = INVALID then Inr default_value
        else TEXT_UTILS_StringToUnsigned (snd (kvv ! nat index)))"

definition KV_VECTOR_GetUnsignedWithinRange ::
    "kv_vector \<Rightarrow> cstr \<Rightarrow> nat \<Rightarrow> nat \<Rightarrow> nat \<Rightarrow> usp_err + nat" where
  "KV_VECTOR_GetUnsignedWithinRange kvv key default_value lo hi =
    usp_bind (KV_VECTOR_GetUnsigned kvv key default_value)
      (\<lambda>val. if val < lo \<or> hi < val then Inl USP_ERR_INVALID_VALUE else Inr val)"

definition KV_VECTOR_GetInt :: "kv_vector \<Rightarrow> cstr \<Rightarrow> int \<Rightarrow> (usp_err + int) option" where
  "KV_VECTOR_GetInt kvv key default_value =
    (let index = KV_VECTOR_FindKey kvv key 0
     in if index = INVALID then Some (Inr default_value)
        else TEXT_UTILS_StringToInteger (snd (kvv ! nat index)))"

definition KV_VECTOR_GetIntWithinRange ::
    "kv_vector \<Rightarrow> cstr \<Rightarrow> int \<Rightarrow> int \<Rightarrow> int \<Rightarrow> (usp_err + int) option" where
  "KV_VECTOR_GetIntWithinRange kvv key default_value lo hi =
    map_option (\<lambda>r. usp_bind r (\<lambda>val. if val < lo \<or> hi < val then Inl USP_ERR_INVALID_VALUE else Inr val))
      (KV_VECTOR_GetInt kvv key default_value)"

definition KV_VECTOR_GetBool :: "kv_vector \<Rightarrow> cstr \<Rightarrow> bool \<Rightarrow> usp_err + bool" where
  "KV_VECTOR_GetBool kvv key default_value =
    (let index = KV_VECTOR_FindKey kvv key 0
     in if index = INVALID then Inr default_value
        else TEXT_UTILS_StringToBool (snd (kvv ! nat index)))"

text \<open>The bytes copied; an absent key zeroes the buffer and copies nothing.\<close>

definition KV_VECTOR_GetHexNumber :: "kv_vector \<Rightarrow> cstr \<Rightarrow> nat \<Rightarrow> usp_err + byte list" where
  "KV_VECTOR_GetHexNumber kvv key len =
    (let index = KV_VECTOR_FindKey kvv key 0
     in if index = INVALID then Inr []
        else TEXT_UTILS_StringToBinary (snd (kvv ! nat index)) len)"

definition KV_VECTOR_GetEnum :: "kv_vector \<Rightarrow> cstr \<Rightarrow> int \<Rightarrow> enum_table \<Rightarrow> usp_err + int" where
  "KV_VECTOR_GetEnum kvv key default_value enums =
    (let index = KV_VECTOR_FindKey kvv key 0
     in if index = INVALID then Inr default_value
        else let enum_value = TEXT_UTILS_StringToEnum (snd (kvv ! nat index)) enums
             in if enum_value = INVALID then Inl USP_ERR_INVALID_VALUE else Inr enum_value)"

definition FindMatchingKey :: "cstr \<Rightarrow> cstr list \<Rightarrow> int" where
  "FindMatchingKey key valid_keys = first_index (\<lambda>k. key = k) valid_keys"

text \<open>
  The duplicate check of argument \<open>i\<close> searches from \<open>i + 1\<close> on, wraps round, and must come back
  to \<open>i\<close>; the last argument is not checked.
\<close>

definition has_duplicate_at :: "kv_vector \<Rightarrow> nat \<Rightarrow> bool" where
  "has_duplicate_at args i \<longleftrightarrow> KV_VECTOR_FindKey args (fst (args ! i)) (int (i + 1)) \<noteq> int i"

definition KV_VECTOR_ValidateArguments :: "kv_vector \<Rightarrow> str_vector \<Rightarrow> bool \<Rightarrow> usp_err + unit" where
  "KV_VECTOR_ValidateArguments args expected_schema ignore_unknown_args =
    (if \<exists>i\<in>set [0..<length args - 1]. has_duplicate_at args i then Inl USP_ERR_INVALID_ARGUMENTS
     else if ignore_unknown_args then USP_OK
     else if \<exists>kv\<in>set args. STR_VECTOR_Find expected_schema
               (TEXT_UTILS_PathToSchemaForm (fst kv) (int MAX_DM_PATH)) = INVALID
     then Inl USP_ERR_INVALID_ARGUMENTS
     else USP_OK)"

definition KV_VECTOR_Destroy :: "kv_vector \<Rightarrow> kv_vector" where
  "KV_VECTOR_Destroy kvv = []"

section \<open>Lookup\<close>

text \<open>The start index the code really searches from.\<close>

definition hint_start :: "kv_vector \<Rightarrow> int \<Rightarrow> nat" where
  "hint_start kvv h = (if h < 0 \<or> int (length kvv) < h then 0 else nat h)"

lemma hint_start_le: "hint_start kvv h \<le> length kvv"
  by (auto simp: hint_start_def)

lemma FindKey_eq:
  "KV_VECTOR_FindKey kvv key h =
    (let s = hint_start kvv h; d = first_index (\<lambda>p. fst p = key) (drop s kvv)
     in if d \<noteq> INVALID then int s + d else first_index (\<lambda>p. fst p = key) (take s kvv))"
proof -
  let ?P = "\<lambda>p. fst p = key" and ?s = "hint_start kvv h"
  have e: "(if h < 0 \<or> int (length kvv) < h then 0 else h) = int ?s" by (simp add: hint_start_def)
  have "KV_VECTOR_FindKey kvv key h =
      (let i = index_from ?P (int ?s) (drop ?s kvv)
       in if i \<noteq> INVALID then i else first_index ?P (take ?s kvv))"
    by (simp only: KV_VECTOR_FindKey_def Let_def e nat_int)
  moreover have "index_from ?P (int ?s) (drop ?s kvv) =
      (if first_index ?P (drop ?s kvv) = INVALID then INVALID else int ?s + first_index ?P (drop ?s kvv))"
    by (rule index_from_shift) simp
  moreover have "INVALID \<noteq> int ?s + first_index ?P (drop ?s kvv)"
    if "first_index ?P (drop ?s kvv) \<noteq> INVALID"
    using that first_index_ge [of ?P "drop ?s kvv"] by linarith
  ultimately show ?thesis by (auto simp: Let_def)
qed

lemma FindKey_0: "KV_VECTOR_FindKey kvv key 0 = first_index (\<lambda>p. fst p = key) kvv"
  by (simp add: KV_VECTOR_FindKey_def Let_def first_index_Nil)

lemma FindKey_found:
  assumes "KV_VECTOR_FindKey kvv key h \<noteq> INVALID"
  shows "0 \<le> KV_VECTOR_FindKey kvv key h" "nat (KV_VECTOR_FindKey kvv key h) < length kvv"
    "fst (kvv ! nat (KV_VECTOR_FindKey kvv key h)) = key"
proof -
  let ?P = "\<lambda>p. fst p = key" and ?s = "hint_start kvv h" and ?i = "KV_VECTOR_FindKey kvv key h"
  let ?d = "first_index ?P (drop ?s kvv)" and ?t = "first_index ?P (take ?s kvv)"
  have "0 \<le> ?i \<and> nat ?i < length kvv \<and> fst (kvv ! nat ?i) = key"
  proof (cases "?d = INVALID")
    case True
    then have i: "?i = ?t" by (simp add: FindKey_eq Let_def)
    with assms have "?t \<noteq> INVALID" by simp
    from first_index_found(1,2,4) [OF refl this] show ?thesis unfolding i by auto
  next
    case False
    then have i: "?i = int ?s + ?d" by (simp add: FindKey_eq Let_def)
    from first_index_found(1,2,4) [OF refl False] hint_start_le [of kvv h] show ?thesis
      unfolding i by (auto simp: nat_add_distrib)
  qed
  then show "0 \<le> ?i" "nat ?i < length kvv" "fst (kvv ! nat ?i) = key" by auto
qed

lemma FindKey_invalid: "KV_VECTOR_FindKey kvv key h = INVALID \<longleftrightarrow> key \<notin> fst ` set kvv"
proof
  let ?s = "hint_start kvv h"
  assume inv: "KV_VECTOR_FindKey kvv key h = INVALID"
  show "key \<notin> fst ` set kvv"
  proof
    assume "key \<in> fst ` set kvv"
    moreover have "set kvv = set (take ?s kvv) \<union> set (drop ?s kvv)"
      by (metis append_take_drop_id set_append)
    ultimately have "(\<exists>p\<in>set (drop ?s kvv). fst p = key) \<or> (\<exists>p\<in>set (take ?s kvv). fst p = key)"
      by blast
    then have "0 \<le> first_index (\<lambda>p. fst p = key) (drop ?s kvv) \<or>
        0 \<le> first_index (\<lambda>p. fst p = key) (take ?s kvv)"
      by (simp only: first_index_ex)
    with inv first_index_ge [of "\<lambda>p. fst p = key" "drop ?s kvv"] show False
      by (auto simp: FindKey_eq Let_def split: if_splits)
  qed
next
  assume absent: "key \<notin> fst ` set kvv"
  show "KV_VECTOR_FindKey kvv key h = INVALID"
  proof (rule ccontr)
    assume "KV_VECTOR_FindKey kvv key h \<noteq> INVALID"
    from FindKey_found(2,3) [OF this] absent show False by (force dest: nth_mem)
  qed
qed

lemma FindKey_distinct:
  assumes "distinct (map fst kvv)"
  shows "KV_VECTOR_FindKey kvv key h = KV_VECTOR_FindKey kvv key 0"
proof (cases "key \<in> fst ` set kvv")
  case False
  then show ?thesis using FindKey_invalid by metis
next
  case True
  then have ne: "KV_VECTOR_FindKey kvv key h \<noteq> INVALID" "KV_VECTOR_FindKey kvv key 0 \<noteq> INVALID"
    using FindKey_invalid by auto
  note a = FindKey_found [OF ne(1)] and b = FindKey_found [OF ne(2)]
  then have "nat (KV_VECTOR_FindKey kvv key h) = nat (KV_VECTOR_FindKey kvv key 0)"
    using assms by (metis length_map nth_eq_iff_index_eq nth_map)
  then show ?thesis using a(1) b(1) by simp
qed

lemma Get_0_map_of: "KV_VECTOR_Get kvv key None 0 = map_of kvv key"
proof (induction kvv)
  case (Cons p kvv)
  let ?i = "first_index (\<lambda>p. fst p = key) kvv"
  have "nat (1 + ?i) = Suc (nat ?i) \<and> 1 + ?i \<noteq> INVALID" if "?i \<noteq> INVALID"
    using that first_index_ge [of "\<lambda>p. fst p = key" kvv] by linarith
  with Cons show ?case
    by (cases p) (auto simp: KV_VECTOR_Get_def FindKey_0 Let_def first_index_Cons split: if_splits)
qed (simp add: KV_VECTOR_Get_def FindKey_0 first_index_Nil)

lemma FindKey_append_fresh:
  assumes "key \<notin> fst ` set kvv"
  shows "KV_VECTOR_FindKey (kvv @ [(key, v)]) key 0 = int (length kvv)"
proof -
  have "first_index (\<lambda>p. fst p = key) (kvv @ [(key, v)]) = int (length kvv)"
    using assms by (induction kvv) (auto simp: first_index_Cons first_index_Nil)
  then show ?thesis by (simp add: FindKey_0)
qed

section \<open>Typed entries\<close>

text \<open>
  The typed accessors convert with an encoder when adding and a decoder when getting. The law of
  the pair is that decoding undoes encoding; the client's lemma is that a value added under a
  fresh key is read back, whatever the default.
\<close>

locale typed_entry =
  fixes enc :: "'a \<Rightarrow> cstr" and dec :: "cstr \<Rightarrow> usp_err + 'b"
    and rep :: "'a \<Rightarrow> 'b" and valid :: "'a \<Rightarrow> bool"
    and add :: "kv_vector \<Rightarrow> cstr \<Rightarrow> 'a \<Rightarrow> kv_vector"
    and get :: "kv_vector \<Rightarrow> cstr \<Rightarrow> 'b \<Rightarrow> usp_err + 'b"
  assumes dec_enc: "valid x \<Longrightarrow> dec (enc x) = Inr (rep x)"
    and add_eq: "add kvv key x = kvv @ [(key, enc x)]"
    and get_eq: "get kvv key d =
      (let index = KV_VECTOR_FindKey kvv key 0
       in if index = INVALID then Inr d else dec (snd (kvv ! nat index)))"
begin

lemma get_add: "valid x \<Longrightarrow> key \<notin> fst ` set kvv \<Longrightarrow> get (add kvv key x) key d = Inr (rep x)"
  by (simp add: add_eq get_eq FindKey_append_fresh dec_enc Let_def)

lemma get_absent: "key \<notin> fst ` set kvv \<Longrightarrow> get kvv key d = Inr d"
  using FindKey_invalid by (simp add: get_eq Let_def)

lemma get_map_of: "map_of kvv key = Some s \<Longrightarrow> get kvv key d = dec s"
  using Get_0_map_of [of kvv key] by (auto simp: KV_VECTOR_Get_def get_eq Let_def split: if_splits)

end

lemmas kv_ops = KV_VECTOR_Add_def AddKeyValueInternal_def

lemma unat_le_UINT_MAX: "unat (w :: 32 word) \<le> UINT_MAX"
  using unsigned_less [of w, where ?'a = nat] by (simp add: UINT_MAX_def)

interpretation kv_unsigned: typed_entry "\<lambda>w. show_nat (unat w)" TEXT_UTILS_StringToUnsigned
  unat "\<lambda>w. True" KV_VECTOR_AddUnsigned KV_VECTOR_GetUnsigned
  by unfold_locales
     (simp_all add: KV_VECTOR_AddUnsigned_def KV_VECTOR_GetUnsigned_def kv_ops
        StringToUnsigned_show_nat unat_le_UINT_MAX)

interpretation kv_bool: typed_entry TEXT_UTILS_BoolToString TEXT_UTILS_StringToBool
  "\<lambda>b. b" "\<lambda>b. True" KV_VECTOR_AddBool KV_VECTOR_GetBool
  by unfold_locales
     (simp_all add: KV_VECTOR_AddBool_def KV_VECTOR_GetBool_def kv_ops StringToBool_BoolToString)

lemma StringToBinary_bytes_to_hex:
  "length bs \<le> len \<Longrightarrow> TEXT_UTILS_StringToBinary (bytes_to_hex bs) len = Inr bs"
  by (simp add: TEXT_UTILS_StringToBinary_def hex_bytes_loop_bytes_to_hex)

text \<open>An enumeration table for the agent: distinct names, and INVALID not among the values.\<close>

definition enum_table_ok :: "enum_table \<Rightarrow> bool" where
  "enum_table_ok enums \<longleftrightarrow> distinct (map snd enums) \<and> INVALID \<notin> fst ` set enums"

definition enum_dec :: "enum_table \<Rightarrow> cstr \<Rightarrow> usp_err + int" where
  "enum_dec enums str =
    (let enum_value = TEXT_UTILS_StringToEnum str enums
     in if enum_value = INVALID then Inl USP_ERR_INVALID_VALUE else Inr enum_value)"

interpretation kv_enum: typed_entry "\<lambda>v. TEXT_UTILS_EnumToString v enums" "enum_dec enums"
  "\<lambda>v. v" "\<lambda>v. enum_table_ok enums \<and> v \<in> fst ` set enums"
  "\<lambda>kvv key v. KV_VECTOR_AddEnum kvv key v enums" "\<lambda>kvv key d. KV_VECTOR_GetEnum kvv key d enums"
  for enums
proof unfold_locales
  fix x assume "enum_table_ok enums \<and> x \<in> fst ` set enums"
  then have "TEXT_UTILS_StringToEnum (TEXT_UTILS_EnumToString x enums) enums = x" "x \<noteq> INVALID"
    unfolding enum_table_ok_def using StringToEnum_EnumToString [of enums x] by metis+
  then show "enum_dec enums (TEXT_UTILS_EnumToString x enums) = Inr x"
    by (simp add: enum_dec_def Let_def)
qed (simp_all add: KV_VECTOR_AddEnum_def KV_VECTOR_GetEnum_def enum_dec_def kv_ops Let_def)

section \<open>Argument validation and replacement\<close>

lemma has_duplicate_at_iff:
  assumes "i < length args" "\<And>j. j < i \<Longrightarrow> fst (args ! j) \<noteq> fst (args ! i)"
  shows "has_duplicate_at args i \<longleftrightarrow> fst (args ! i) \<in> fst ` set (drop (Suc i) args)"
proof -
  let ?P = "\<lambda>p. fst p = fst (args ! i)"
  have s: "hint_start args (int (i + 1)) = Suc i" using assms(1) by (auto simp: hint_start_def)
  have t: "first_index ?P (take (Suc i) args) = int i"
  proof -
    have "\<not> ?P p" if "p \<in> set (take i args)" for p
      using that assms by (auto simp only: in_set_conv_nth length_take min_less_iff_conj nth_take)
    then have "takeWhile (\<lambda>p. \<not> ?P p) (take i args @ [args ! i]) = take i args"
      by (subst takeWhile_append2) auto
    moreover have "take (Suc i) args = take i args @ [args ! i]"
      using assms(1) by (rule take_Suc_conv_app_nth)
    ultimately show ?thesis using assms(1) by (simp add: index_from_eq)
  qed
  have "KV_VECTOR_FindKey args (fst (args ! i)) (int (i + 1)) =
      (if first_index ?P (drop (Suc i) args) \<noteq> INVALID
       then int (Suc i) + first_index ?P (drop (Suc i) args) else int i)"
    by (simp only: FindKey_eq s t Let_def)
  moreover have "first_index ?P (drop (Suc i) args) \<noteq> INVALID \<longleftrightarrow>
      fst (args ! i) \<in> fst ` set (drop (Suc i) args)"
    unfolding first_index_invalid image_iff by metis
  moreover have "int (Suc i) + first_index ?P (drop (Suc i) args) \<noteq> int i \<or>
      first_index ?P (drop (Suc i) args) = INVALID"
    by auto
  ultimately show ?thesis by (auto simp: has_duplicate_at_def)
qed

lemma no_duplicate_iff:
  "(\<forall>i\<in>set [0..<length args - 1]. \<not> has_duplicate_at args i) \<longleftrightarrow> distinct (map fst args)"
proof
  assume d: "distinct (map fst args)"
  show "\<forall>i\<in>set [0..<length args - 1]. \<not> has_duplicate_at args i"
  proof
    fix i assume "i \<in> set [0..<length args - 1]"
    then have i: "i < length args" by auto
    have "fst (args ! j) \<noteq> fst (args ! i)" if "j < i" for j
      using d i that nth_eq_iff_index_eq [of "map fst args" j i] by auto
    moreover have "fst (args ! i) \<notin> fst ` set (drop (Suc i) args)"
    proof
      assume "fst (args ! i) \<in> fst ` set (drop (Suc i) args)"
      then obtain k where "k < length args - Suc i" "fst (args ! i) = fst (args ! (Suc i + k))"
        by (auto simp: in_set_conv_nth)
      moreover from this have "Suc i + k < length args" by linarith
      ultimately show False using d i nth_eq_iff_index_eq [of "map fst args" i "Suc i + k"] by simp
    qed
    ultimately show "\<not> has_duplicate_at args i" using has_duplicate_at_iff [OF i] by blast
  qed
next
  assume nd: "\<forall>i\<in>set [0..<length args - 1]. \<not> has_duplicate_at args i"
  have "\<forall>j<i. fst (args ! j) \<noteq> fst (args ! i)" if "i < length args" for i
    using that
  proof (induction i rule: less_induct)
    case (less i)
    show ?case
    proof (intro allI impI)
      fix j assume j: "j < i"
      with less.prems have jl: "j < length args" "j < length args - 1" by linarith+
      have "\<not> has_duplicate_at args j" using nd jl by simp
      then have "fst (args ! j) \<notin> fst ` set (drop (Suc j) args)"
        using has_duplicate_at_iff [OF jl(1)] less.IH [OF j jl(1)] by blast
      moreover have "args ! i = drop (Suc j) args ! (i - Suc j)" "i - Suc j < length (drop (Suc j) args)"
        using j less.prems by auto
      ultimately show "fst (args ! j) \<noteq> fst (args ! i)" by (metis imageI nth_mem)
    qed
  qed
  then show "distinct (map fst args)"
    by (auto simp: distinct_conv_nth) (metis linorder_neqE_nat)
qed

lemma Replace_eq:
  "KV_VECTOR_Replace kvv key val =
    (map (\<lambda>(k, v). (k, if k = key then val else v)) kvv, key \<in> fst ` set kvv)"
  by (induction kvv key val rule: KV_VECTOR_Replace.induct) (auto simp: Let_def split: prod.splits)

section \<open>Properties\<close>

text \<open>
  A value added with a typed accessor under a new key is read back by the accessor of its
  type: unsigned numbers, booleans, enumerations and byte strings.
\<close>

theorem KV_VECTOR_typed_roundtrip:
  assumes "key \<notin> fst ` set kvv" "enum_table_ok enums" "v \<in> fst ` set enums" "length buf \<le> len"
  shows "KV_VECTOR_GetUnsigned (KV_VECTOR_AddUnsigned kvv key w) key d = Inr (unat w) \<and>
    KV_VECTOR_GetBool (KV_VECTOR_AddBool kvv key b) key e = Inr b \<and>
    KV_VECTOR_GetEnum (KV_VECTOR_AddEnum kvv key v enums) key f enums = Inr v \<and>
    KV_VECTOR_GetHexNumber (KV_VECTOR_AddHexNumber kvv key buf) key len = Inr buf"
  using kv_unsigned.get_add [OF _ assms(1)] kv_bool.get_add [OF _ assms(1)]
    kv_enum.get_add [OF _ assms(1)] assms(2-4)
  by (auto simp: KV_VECTOR_GetHexNumber_def KV_VECTOR_AddHexNumber_def kv_ops
      FindKey_append_fresh [OF assms(1)] StringToBinary_bytes_to_hex Let_def)

theorem KV_VECTOR_typed_roundtrip_witness:
  "KV_VECTOR_GetUnsigned (KV_VECTOR_AddUnsigned [(''a'', ''x'')] ''b'' 7) ''b'' 0 = Inr (unat (7 :: 32 word)) \<and>
    KV_VECTOR_GetBool (KV_VECTOR_AddBool [(''a'', ''x'')] ''b'' True) ''b'' False = Inr True \<and>
    KV_VECTOR_GetEnum (KV_VECTOR_AddEnum [(''a'', ''x'')] ''b'' 1 [(1, ''On'')]) ''b'' 0 [(1, ''On'')] = Inr 1 \<and>
    KV_VECTOR_GetHexNumber (KV_VECTOR_AddHexNumber [(''a'', ''x'')] ''b'' [0xAB]) ''b'' 1 = Inr [0xAB]"
  by (rule KV_VECTOR_typed_roundtrip) (simp_all add: enum_table_ok_def)

text \<open>
  KV_VECTOR_ValidateArguments accepts exactly the argument lists without a repeated name
  whose names, in schema form, are all among the expected ones unless unknown names are ignored;
  everything else is USP_ERR_INVALID_ARGUMENTS. The check of only part of the pairs, with a hint
  that wraps round, misses no duplicate.
\<close>

theorem KV_VECTOR_ValidateArguments_iff:
  "KV_VECTOR_ValidateArguments args expected_schema ignore_unknown_args =
    (if distinct (map fst args) \<and>
        (ignore_unknown_args \<or>
         (\<forall>key\<in>fst ` set args. TEXT_UTILS_PathToSchemaForm key 256 \<in> set expected_schema))
     then USP_OK else Inl USP_ERR_INVALID_ARGUMENTS)"
  using no_duplicate_iff [of args]
  by (auto simp: KV_VECTOR_ValidateArguments_def sv.find_invalid MAX_DM_PATH_def)

theorem KV_VECTOR_ValidateArguments_iff_witness:
  "KV_VECTOR_ValidateArguments [(''A.1.B'', ''x''), (''C'', ''y'')] [''A.{i}.B'', ''C''] False = USP_OK"
proof -
  have "TEXT_UTILS_PathToSchemaForm ''A.1.B'' 256 = ''A.{i}.B''" "TEXT_UTILS_PathToSchemaForm ''C'' 256 = ''C''"
    unfolding TEXT_UTILS_PathToSchemaForm_def
    by (subst schema_loop_eq; simp add: schema_form_def schema_segment_def IS_NUMERIC_def less_eq_char_def)+
  then show ?thesis by (simp add: KV_VECTOR_ValidateArguments_iff)
qed

text \<open>
  Replacing a value changes the entries of that key and no other, for every hint given to the
  lookup afterwards when the keys are distinct: the hint is an optimisation only.
\<close>

theorem KV_VECTOR_Replace_Get:
  assumes "distinct (map fst kvv)" "key \<in> fst ` set kvv"
  shows "snd (KV_VECTOR_Replace kvv key val) \<and>
    KV_VECTOR_Get (fst (KV_VECTOR_Replace kvv key val)) k None h =
      (if k = key then Some val else map_of kvv k)"
proof -
  let ?r = "map (\<lambda>(k, v). (k, if k = key then val else v)) kvv"
  have f: "map fst ?r = map fst kvv" by (induction kvv) auto
  have "KV_VECTOR_Get ?r k None h = KV_VECTOR_Get ?r k None 0"
    unfolding KV_VECTOR_Get_def by (subst FindKey_distinct) (simp_all only: f assms(1))
  moreover have "map_of ?r k = (if k = key \<and> map_of kvv key \<noteq> None then Some val else map_of kvv k)"
    by (induction kvv) auto
  moreover have "map_of kvv key \<noteq> None" using assms(2) by (simp add: map_of_eq_None_iff)
  ultimately show ?thesis using assms(2) by (simp add: Replace_eq Get_0_map_of)
qed

theorem KV_VECTOR_Replace_Get_witness:
  "snd (KV_VECTOR_Replace [(''a'', ''1''), (''b'', ''2'')] ''b'' ''3'') \<and>
    KV_VECTOR_Get (fst (KV_VECTOR_Replace [(''a'', ''1''), (''b'', ''2'')] ''b'' ''3'')) ''b'' None 1 =
      (if ''b'' = ''b'' then Some ''3'' else map_of [(''a'', ''1''), (''b'', ''2'')] ''b'')"
  by (rule KV_VECTOR_Replace_Get) simp_all

end
