(* ===== verification/Expr_Vector.thy ===== *)
theory Expr_Vector
  imports Kv_Vector Text_Hex
begin

text \<open>
  Expression vectors (\<open>core/expr_vector.c\<close>): the search expressions of a path and the arguments typed
  at the command line are lists of components "parameter operator constant". A component is split at
  its operator in a fixed order of preference, both sides are trimmed, the constant may be quoted and
  is percent-decoded.
\<close>

section \<open>State\<close>

datatype expr_op = kExprOp_Equal | kExprOp_NotEqual | kExprOp_LessThanOrEqual | kExprOp_GreaterThanOrEqual
  | kExprOp_LessThan | kExprOp_GreaterThan | kExprOp_Equals

fun expr_op_2_str :: "expr_op \<Rightarrow> cstr" where
  "expr_op_2_str kExprOp_Equal = ''==''"
| "expr_op_2_str kExprOp_NotEqual = ''!=''"
| "expr_op_2_str kExprOp_LessThanOrEqual = ''<=''"
| "expr_op_2_str kExprOp_GreaterThanOrEqual = ''>=''"
| "expr_op_2_str kExprOp_LessThan = ''<''"
| "expr_op_2_str kExprOp_GreaterThan = ''>''"
| "expr_op_2_str kExprOp_Equals = ''=''"

record expr_comp =
  ec_param :: cstr
  ec_op :: expr_op
  ec_value :: cstr

type_synonym expr_vector = "expr_comp list"

section \<open>Operations\<close>

definition EXPR_VECTOR_Init :: expr_vector where "EXPR_VECTOR_Init = []"

definition EXPR_VECTOR_Add :: "expr_vector \<Rightarrow> cstr \<Rightarrow> expr_op \<Rightarrow> cstr \<Rightarrow> expr_vector" where
  "EXPR_VECTOR_Add ev param op val = ev @ [\<lparr>ec_param = param, ec_op = op, ec_value = val\<rparr>]"

text \<open>The key-value vector takes over the strings, the expression vector is left empty.\<close>

definition EXPR_VECTOR_ToKeyValueVector :: "expr_vector \<Rightarrow> kv_vector \<times> expr_vector" where
  "EXPR_VECTOR_ToKeyValueVector ev = (map (\<lambda>ec. (ec_param ec, ec_value ec)) ev, [])"

definition EXPR_VECTOR_Destroy :: "expr_vector \<Rightarrow> expr_vector" where "EXPR_VECTOR_Destroy ev = []"

text \<open>strstr and strchr: the text before the first occurrence, and the text behind it.\<close>

fun split_at_needle :: "cstr \<Rightarrow> cstr \<Rightarrow> (cstr \<times> cstr) option" where
  "split_at_needle needle [] = None"
| "split_at_needle needle (c # s) =
    (if prefix needle (c # s) then Some ([], drop (length needle) (c # s))
     else map_option (\<lambda>(a, b). (c # a, b)) (split_at_needle needle s))"

text \<open>The operators in the order they are tried.\<close>

definition op_order :: "expr_op list" where
  "op_order = [kExprOp_Equal, kExprOp_NotEqual, kExprOp_LessThanOrEqual, kExprOp_GreaterThanOrEqual,
     kExprOp_LessThan, kExprOp_GreaterThan, kExprOp_Equals]"

fun split_on_first :: "expr_op list \<Rightarrow> cstr \<Rightarrow> (cstr \<times> expr_op \<times> cstr) option" where
  "split_on_first [] buf = None"
| "split_on_first (op # ops) buf =
    (case split_at_needle (expr_op_2_str op) buf of
       Some (before, after) \<Rightarrow> Some (before, op, after)
     | None \<Rightarrow> split_on_first ops buf)"

definition SplitOnOperator :: "cstr \<Rightarrow> (cstr \<times> expr_op \<times> cstr) option" where
  "SplitOnOperator buf = split_on_first op_order buf"

abbreviation DQUOTE :: char where "DQUOTE \<equiv> CHR 0x22"
abbreviation SQUOTE :: char where "SQUOTE \<equiv> CHR 0x27"

text \<open>
  The quotes: a constant that is a single quote character is that quote at both ends, and becomes
  empty. After double quotes have been removed \<open>len\<close> is out of date: the single quote is looked for
  at the terminator of the old constant, so it is never found.
\<close>

definition quoted_by :: "char \<Rightarrow> cstr \<Rightarrow> bool" where
  "quoted_by q s \<longleftrightarrow> s \<noteq> [] \<and> hd s = q \<and> last s = q"

definition strip_quotes :: "bool \<Rightarrow> cstr \<Rightarrow> cstr" where
  "strip_quotes is_cli_parser s =
    (if quoted_by DQUOTE s then tl (butlast s)
     else if is_cli_parser \<and> quoted_by SQUOTE s then tl (butlast s)
     else s)"

definition param_forbidden :: "char \<Rightarrow> bool" where
  "param_forbidden c \<longleftrightarrow> c \<in> {CHR '' '', CHR 0x09, DQUOTE, SQUOTE}"

definition ParseExprComponent :: "cstr \<Rightarrow> bool \<Rightarrow> usp_err + expr_comp" where
  "ParseExprComponent buf is_cli_parser =
    (case SplitOnOperator buf of
       None \<Rightarrow> Inl USP_ERR_INVALID_PATH_SYNTAX
     | Some (before, op, after) \<Rightarrow>
         let expr_param = TEXT_UTILS_TrimBuffer before; expr_const = TEXT_UTILS_TrimBuffer after
         in if expr_param = [] then Inl USP_ERR_INVALID_PATH_SYNTAX
            else if expr_const = [] then Inl USP_ERR_INVALID_PATH_SYNTAX
            else let expr_const = strip_quotes is_cli_parser expr_const
            in if \<exists>c\<in>set expr_param. param_forbidden c then Inl USP_ERR_INVALID_PATH_SYNTAX
               else if DQUOTE \<in> set expr_const then Inl USP_ERR_INVALID_PATH_SYNTAX
               else Inr \<lparr>ec_param = expr_param, ec_op = op, ec_value = TEXT_UTILS_PercentDecodeString expr_const\<rparr>)"

definition IsOperatorInArray :: "expr_op \<Rightarrow> expr_op list \<Rightarrow> bool" where
  "IsOperatorInArray op valid_ops \<longleftrightarrow> op \<in> set valid_ops"

text \<open>The vector that has been filled so far is left as it is on an error.\<close>

fun split_expressions_loop :: "cstr list \<Rightarrow> expr_op list \<Rightarrow> bool \<Rightarrow> expr_vector \<Rightarrow> expr_vector \<times> (usp_err + unit)" where
  "split_expressions_loop [] valid_ops is_cli_parser ev = (ev, USP_OK)"
| "split_expressions_loop (key # keys) valid_ops is_cli_parser ev =
    (case ParseExprComponent key is_cli_parser of
       Inl e \<Rightarrow> (ev, Inl e)
     | Inr ec \<Rightarrow>
         if \<not> IsOperatorInArray (ec_op ec) valid_ops then (ev, Inl USP_ERR_INVALID_PATH_SYNTAX)
         else split_expressions_loop keys valid_ops is_cli_parser
                (EXPR_VECTOR_Add ev (ec_param ec) (ec_op ec) (ec_value ec)))"

definition EXPR_VECTOR_SplitExpressions :: "cstr \<Rightarrow> cstr \<Rightarrow> expr_op list \<Rightarrow> bool \<Rightarrow> expr_vector \<times> (usp_err + unit)" where
  "EXPR_VECTOR_SplitExpressions str separator valid_ops is_cli_parser =
    split_expressions_loop (TEXT_UTILS_SplitString str separator) valid_ops is_cli_parser EXPR_VECTOR_Init"

section \<open>Splitting at an operator\<close>

text \<open>The characters operators are made of.\<close>

definition op_char :: "char \<Rightarrow> bool" where
  "op_char c \<longleftrightarrow> c \<in> {CHR ''='', CHR ''!'', CHR ''<'', CHR ''>''}"

lemma op_str_chars: "\<forall>c\<in>set (expr_op_2_str op). op_char c" "expr_op_2_str op \<noteq> []"
  by (cases op; simp add: op_char_def)+

lemma split_at_needle_none: "(\<forall>c\<in>set s. c \<noteq> hd needle) \<Longrightarrow> needle \<noteq> [] \<Longrightarrow> split_at_needle needle s = None"
  by (induction s) (auto simp: prefix_def Cons_eq_append_conv)

lemma split_at_needle_skip:
  "(\<forall>c\<in>set p. c \<noteq> hd needle) \<Longrightarrow> needle \<noteq> [] \<Longrightarrow>
    split_at_needle needle (p @ s) = map_option (\<lambda>(a, b). (p @ a, b)) (split_at_needle needle s)"
proof (induction p)
  case (Cons c p)
  then have "\<not> prefix needle ((c # p) @ s)" by (auto simp: prefix_def Cons_eq_append_conv)
  with Cons show ?case by (simp add: option.map_comp comp_def split_def)
qed (simp add: option.map_ident split_def)

lemma split_at_needle_here: "needle \<noteq> [] \<Longrightarrow> split_at_needle needle (needle @ s) = Some ([], s)"
  by (cases needle) simp_all

lemma split_at_needle_parts: "split_at_needle needle s = Some (a, b) \<Longrightarrow> s = a @ needle @ b"
proof (induction needle s arbitrary: a rule: split_at_needle.induct)
  case (2 needle c s)
  show ?case
  proof (cases "prefix needle (c # s)")
    case True
    then have "c # s = needle @ drop (length needle) (c # s)" by (auto simp: prefix_def)
    with True "2.prems" show ?thesis by simp
  next
    case False
    with "2.prems" obtain a' where "split_at_needle needle s = Some (a', b)" "a = c # a'" by auto
    with "2.IH" [OF False] show ?thesis by auto
  qed
qed simp

lemma split_on_first_parts: "split_on_first ops s = Some (a, op, b) \<Longrightarrow> s = a @ expr_op_2_str op @ b \<and> op \<in> set ops"
  by (induction ops s rule: split_on_first.induct) (auto split: option.splits dest: split_at_needle_parts)

lemma SplitOnOperator_found:
  assumes "\<forall>c\<in>set p. \<not> op_char c" "\<forall>c\<in>set r. \<not> op_char c"
  shows "SplitOnOperator (p @ expr_op_2_str op @ r) = Some (p, op, r)"
proof -
  have skip: "split_at_needle (expr_op_2_str o') (p @ s) = map_option (\<lambda>(a, b). (p @ a, b)) (split_at_needle (expr_op_2_str o') s)"
    for o' s
    using assms(1) op_str_chars [of o'] by (intro split_at_needle_skip) (auto dest: hd_in_set)
  have none: "split_at_needle (expr_op_2_str o') r = None" for o'
    using assms(2) op_str_chars [of o'] by (intro split_at_needle_none) (auto dest: hd_in_set)
  have eq: "CHR ''='' \<notin> set r" using assms(2) by (auto simp: op_char_def)
  have pre: "\<not> prefix (CHR ''='' # s) r" for s using eq by (auto simp: prefix_def)
  have n: "split_at_needle ''=='' r = None" "split_at_needle ''!='' r = None" "split_at_needle ''<='' r = None"
    "split_at_needle ''>='' r = None" "split_at_needle ''<'' r = None" "split_at_needle ''>'' r = None"
    "split_at_needle ''='' r = None"
    using none [of kExprOp_Equal] none [of kExprOp_NotEqual] none [of kExprOp_LessThanOrEqual]
      none [of kExprOp_GreaterThanOrEqual] none [of kExprOp_LessThan] none [of kExprOp_GreaterThan] none [of kExprOp_Equals]
    by simp_all
  show ?thesis
    unfolding SplitOnOperator_def op_order_def split_on_first.simps skip
    by (cases op) (simp_all add: n pre)
qed

lemma non_blank_in_trim:
  assumes "c \<in> set s" "\<not> is_blank c"
  shows "c \<in> set (trim s)"
proof -
  obtain pre suf where d: "s = pre @ trim s @ suf" "\<forall>c\<in>set pre. is_blank c" "\<forall>c\<in>set suf. is_blank c"
    by (rule trim_decomp [of s])
  have "set s = set pre \<union> set (trim s) \<union> set suf" by (subst d(1)) (simp add: Un_assoc)
  with assms d(2,3) show ?thesis by auto
qed

lemma strip_double_quotes: "strip_quotes cli (DQUOTE # v @ [DQUOTE]) = v"
  by (simp add: strip_quotes_def quoted_by_def)

section \<open>Properties\<close>

text \<open>
  A component "parameter operator constant", with any blanks around the operator and the constant
  in double quotes, is parsed into its parts, the constant percent-decoded: for every operator, when
  parameter and constant are free of operator characters and quotes (the constant can have them
  percent-encoded).
\<close>

theorem ParseExprComponent_parts:
  assumes "trimmed p" "\<forall>c\<in>set p. \<not> op_char c \<and> \<not> param_forbidden c"
    and "\<forall>c\<in>set v. \<not> op_char c \<and> c \<noteq> DQUOTE"
    and "\<forall>c\<in>set b1. is_blank c" "\<forall>c\<in>set b2. is_blank c"
  shows "ParseExprComponent (p @ b1 @ expr_op_2_str op @ b2 @ DQUOTE # v @ [DQUOTE]) is_cli_parser =
    Inr \<lparr>ec_param = p, ec_op = op, ec_value = TEXT_UTILS_PercentDecodeString v\<rparr>"
proof -
  let ?r = "b2 @ DQUOTE # v @ [DQUOTE]"
  have blank: "is_blank c \<Longrightarrow> \<not> op_char c" for c by (auto simp: is_blank_def op_char_def)
  have "\<not> op_char DQUOTE" by (simp add: op_char_def)
  then have "\<forall>c\<in>set ?r. \<not> op_char c" using assms(3,5) blank by auto
  moreover have "\<forall>c\<in>set (p @ b1). \<not> op_char c" using assms(2,4) blank by auto
  ultimately have split: "SplitOnOperator ((p @ b1) @ expr_op_2_str op @ ?r) = Some (p @ b1, op, ?r)"
    by (intro SplitOnOperator_found)
  have tp: "trim (p @ b1) = p" using trim_blanks [of p "[]" b1] assms(1,4) by simp
  have "trimmed (DQUOTE # v @ [DQUOTE])" by (simp add: trimmed_def is_blank_def)
  then have tc: "trim ?r = DQUOTE # v @ [DQUOTE]"
    using trim_blanks [of "DQUOTE # v @ [DQUOTE]" b2 "[]"] assms(5) by simp
  have ne: "p \<noteq> []" using assms(1) by (simp add: trimmed_def)
  have "ParseExprComponent ((p @ b1) @ expr_op_2_str op @ ?r) is_cli_parser =
    Inr \<lparr>ec_param = p, ec_op = op, ec_value = TEXT_UTILS_PercentDecodeString v\<rparr>"
    unfolding ParseExprComponent_def split TrimBuffer_eq_trim option.case prod.case tp tc Let_def strip_double_quotes
    using ne assms(2,3) by auto
  then show ?thesis by simp
qed

theorem ParseExprComponent_parts_witness:
  "ParseExprComponent ''Enable  != \"on%20\"'' False = Inr \<lparr>ec_param = ''Enable'', ec_op = kExprOp_NotEqual, ec_value = ''on ''\<rparr>"
proof -
  have d: "TEXT_UTILS_PercentDecodeString ''on%20'' = ''on ''" by code_simp
  from ParseExprComponent_parts [of "''Enable''" "''on%20''" "''  ''" "'' ''" kExprOp_NotEqual False] d
  show ?thesis by (simp add: trimmed_def is_blank_def op_char_def param_forbidden_def)
qed

text \<open>
  The operators are tried in a fixed order over the whole component, quotes included: a component
  whose quoted constant contains "==" is rejected whatever its own operator is.
\<close>

theorem ParseExprComponent_operator_in_constant:
  "op \<noteq> kExprOp_Equal \<Longrightarrow> \<forall>c\<in>set p. c \<noteq> CHR ''='' \<Longrightarrow> \<forall>c\<in>set v. c \<noteq> CHR ''='' \<Longrightarrow>
    ParseExprComponent (p @ expr_op_2_str op @ DQUOTE # v @ ''=='' @ w) is_cli_parser = Inl USP_ERR_INVALID_PATH_SYNTAX"
proof -
  assume a: "op \<noteq> kExprOp_Equal" "\<forall>c\<in>set p. c \<noteq> CHR ''=''" "\<forall>c\<in>set v. c \<noteq> CHR ''=''"
  let ?a = "p @ expr_op_2_str op @ DQUOTE # v"
  have skip_p: "split_at_needle ''=='' (p @ s) = map_option (\<lambda>(x, y). (p @ x, y)) (split_at_needle ''=='' s)" for s
    by (rule split_at_needle_skip) (use a(2) in simp_all)
  have skip_v: "split_at_needle ''=='' (v @ s) = map_option (\<lambda>(x, y). (v @ x, y)) (split_at_needle ''=='' s)" for s
    by (rule split_at_needle_skip) (use a(3) in simp_all)
  have "split_at_needle ''=='' (DQUOTE # v @ ''=='' @ w) = Some (DQUOTE # v, w)"
    by (simp add: skip_v)
  moreover from this have "split_at_needle ''=='' (expr_op_2_str op @ DQUOTE # v @ ''=='' @ w) =
      Some (expr_op_2_str op @ DQUOTE # v, w)"
    using a(1) by (cases op) simp_all
  ultimately have "split_at_needle ''=='' (p @ expr_op_2_str op @ DQUOTE # v @ ''=='' @ w) = Some (?a, w)"
    unfolding skip_p by simp
  then have s: "SplitOnOperator (p @ expr_op_2_str op @ DQUOTE # v @ ''=='' @ w) = Some (?a, kExprOp_Equal, w)"
    by (simp add: SplitOnOperator_def op_order_def)
  have "DQUOTE \<in> set (trim ?a)"
    by (rule non_blank_in_trim) (simp_all add: is_blank_def)
  then have "\<exists>c\<in>set (trim ?a). param_forbidden c" "trim ?a \<noteq> []" by (auto simp: param_forbidden_def)
  then show ?thesis unfolding ParseExprComponent_def s TrimBuffer_eq_trim by (simp add: Let_def)
qed

theorem ParseExprComponent_operator_in_constant_witness:
  "ParseExprComponent ''a<=\"x==y\"'' False = Inl USP_ERR_INVALID_PATH_SYNTAX"
  using ParseExprComponent_operator_in_constant [of kExprOp_LessThanOrEqual "''a''" "''x''" "''y\"''" False] by simp

end
