(* ===== verification/Dm_Access.thy ===== *)
theory Dm_Access
  imports Dm_Queries Expr_Vector
begin

text \<open>
  Typed access to parameters and the helpers shared by the implementations of parameters,
  \<open>core/dm_access.c\<close>: readers that convert the text of a parameter, the comparisons of search
  expressions, validators, and the alias of a new object. The reader of floating point numbers in
  the C library is a parameter.
\<close>

section \<open>Typed readers\<close>

text \<open>Read a parameter into a buffer and convert it; \<open>None\<close> where the conversion is undefined.\<close>

definition typed_get :: "hooks \<Rightarrow> agent \<Rightarrow> cstr \<Rightarrow> (cstr \<Rightarrow> (usp_err + 'a) option) \<Rightarrow> 'a ag_result" where
  "typed_get h ag path conv =
    ag_bind (DATA_MODEL_GetParameterValue h ag path MAX_DM_SHORT_VALUE_LEN 0) (\<lambda>ag1 buf.
      map_option (\<lambda>r. (ag1, r)) (conv buf))"

definition DM_ACCESS_GetString :: "hooks \<Rightarrow> agent \<Rightarrow> cstr \<Rightarrow> cstr ag_result" where
  "DM_ACCESS_GetString h ag path = DATA_MODEL_GetParameterValue h ag path MAX_DM_VALUE_LEN 0"

definition DM_ACCESS_GetPassword :: "hooks \<Rightarrow> agent \<Rightarrow> cstr \<Rightarrow> cstr ag_result" where
  "DM_ACCESS_GetPassword h ag path = DATA_MODEL_GetParameterValue h ag path MAX_DM_SHORT_VALUE_LEN SHOW_PASSWORD"

definition DM_ACCESS_GetInteger :: "hooks \<Rightarrow> agent \<Rightarrow> cstr \<Rightarrow> int ag_result" where
  "DM_ACCESS_GetInteger h ag path = typed_get h ag path TEXT_UTILS_StringToInteger"

definition DM_ACCESS_GetUnsigned :: "hooks \<Rightarrow> agent \<Rightarrow> cstr \<Rightarrow> nat ag_result" where
  "DM_ACCESS_GetUnsigned h ag path = typed_get h ag path (\<lambda>s. Some (TEXT_UTILS_StringToUnsigned s))"

definition DM_ACCESS_GetBool :: "hooks \<Rightarrow> agent \<Rightarrow> cstr \<Rightarrow> bool ag_result" where
  "DM_ACCESS_GetBool h ag path = typed_get h ag path (\<lambda>s. Some (TEXT_UTILS_StringToBool s))"

definition DM_ACCESS_GetEnum :: "hooks \<Rightarrow> agent \<Rightarrow> cstr \<Rightarrow> enum_table \<Rightarrow> int ag_result" where
  "DM_ACCESS_GetEnum h ag path enums = typed_get h ag path
    (\<lambda>s. let e = TEXT_UTILS_StringToEnum s enums in Some (if e = INVALID then Inl USP_ERR_INVALID_VALUE else Inr e))"

definition DM_ACCESS_GetDateTime :: "hooks \<Rightarrow> agent \<Rightarrow> cstr \<Rightarrow> int ag_result" where
  "DM_ACCESS_GetDateTime h ag path = typed_get h ag path (\<lambda>s. Some (TEXT_UTILS_StringToDateTime s))"

definition DM_ACCESS_GetStringVector :: "hooks \<Rightarrow> agent \<Rightarrow> cstr \<Rightarrow> cstr list ag_result" where
  "DM_ACCESS_GetStringVector h ag path =
    ag_bind (DATA_MODEL_GetParameterValue h ag path MAX_DM_VALUE_LEN 0) (\<lambda>ag1 buf.
      ag_ok ag1 (TEXT_UTILS_SplitString buf '',''))"

definition DM_ACCESS_SetInteger :: "hooks \<Rightarrow> agent \<Rightarrow> cstr \<Rightarrow> int \<Rightarrow> unit ag_result" where
  "DM_ACCESS_SetInteger h ag path val =
    DATA_MODEL_SetParameterValue h ag path (fst (USP_SNPRINTF MAX_DM_SHORT_VALUE_LEN (show_int val))) 0"

section \<open>Validators\<close>

text \<open>The native value of a set request is passed in the request.\<close>

definition DM_ACCESS_ValidateBool :: "cstr \<Rightarrow> usp_err + unit" where
  "DM_ACCESS_ValidateBool val =
    (case TEXT_UTILS_StringToBool val of Inl _ \<Rightarrow> Inl USP_ERR_INVALID_TYPE | Inr _ \<Rightarrow> USP_OK)"

definition DM_ACCESS_ValidatePort :: "dm_val_union \<Rightarrow> usp_err + unit" where
  "DM_ACCESS_ValidatePort val =
    (if value_uint val < 1 \<or> value_uint val > 65535 then Inl USP_ERR_INVALID_VALUE else USP_OK)"

definition DM_ACCESS_ValidateRange_Unsigned :: "dm_val_union \<Rightarrow> nat \<Rightarrow> nat \<Rightarrow> usp_err + unit" where
  "DM_ACCESS_ValidateRange_Unsigned val min_value max_value =
    (if value_uint val < min_value \<or> value_uint val > max_value then Inl USP_ERR_INVALID_VALUE else USP_OK)"

definition DM_ACCESS_ValidateRange_Signed :: "dm_val_union \<Rightarrow> int \<Rightarrow> int \<Rightarrow> usp_err + unit" where
  "DM_ACCESS_ValidateRange_Signed val min_value max_value =
    (if value_int val < min_value \<or> value_int val > max_value then Inl USP_ERR_INVALID_VALUE else USP_OK)"

text \<open>A reference to a row of a table: its instance number. The table must be registered.\<close>

definition DM_ACCESS_ValidateReference :: "hooks \<Rightarrow> agent \<Rightarrow> cstr \<Rightarrow> cstr \<Rightarrow> int ag_result" where
  "DM_ACCESS_ValidateReference h ag reference table =
    ag_bind (DATA_MODEL_SplitPath h ag reference True) (\<lambda>ag1 (schema_path, inst, instances_exist).
      if schema_path \<noteq> table then ag_err ag1 USP_ERR_INVALID_VALUE
      else case DM_PRIV_GetNodeFromPath (dm ag1) table False False of
        None \<Rightarrow> None
      | Some (n, _, _) \<Rightarrow>
          if node_order (heap (dm ag1) n) = 0 then None
          else if req_order inst \<noteq> node_order (heap (dm ag1) n) then ag_err ag1 USP_ERR_INVALID_VALUE
          else if instances_exist = Some False then ag_err ag1 USP_ERR_INVALID_VALUE
          else ag_ok ag1 (req_instances inst ! (req_order inst - 1)))"

definition DM_ACCESS_PopulateAliasParam :: "dm_instances \<Rightarrow> nat \<Rightarrow> usp_err + cstr" where
  "DM_ACCESS_PopulateAliasParam inst len =
    (if order inst = 0 then Inl USP_ERR_INTERNAL_ERROR
     else Inr (fst (USP_SNPRINTF len (''cpe-'' @ show_int (instances inst ! (order inst - 1))))))"

text \<open>What becomes of an asynchronous operation that a reboot has interrupted.\<close>

definition DM_ACCESS_RestartAsyncOperation :: "bool \<times> (usp_err + unit)" where
  "DM_ACCESS_RestartAsyncOperation = (True, USP_OK)"

definition DM_ACCESS_DontRestartAsyncOperation :: "cstr \<Rightarrow> nat \<Rightarrow> bool \<times> usp_err \<times> cstr \<times> (usp_err + unit)" where
  "DM_ACCESS_DontRestartAsyncOperation path err_msg_len =
    (False, USP_ERR_COMMAND_FAILURE,
     fst (USP_SNPRINTF err_msg_len (''DM_ACCESS_DontRestartAsyncOperation: Operation '' @ path @ '' did not complete before reboot'')),
     USP_OK)"

section \<open>Comparisons\<close>

text \<open>
  Comparing two texts as values of a type: the parameter's value is on the left. \<open>None\<close> is the
  failed assertion for an operator that no search expression has.
\<close>

definition DM_ACCESS_CompareString :: "cstr \<Rightarrow> expr_op \<Rightarrow> cstr \<Rightarrow> (usp_err + bool) option" where
  "DM_ACCESS_CompareString lhs eop rhs =
    (case eop of
       kExprOp_Equal \<Rightarrow> Some (Inr (lhs = rhs))
     | kExprOp_NotEqual \<Rightarrow> Some (Inr (lhs \<noteq> rhs))
     | kExprOp_Equals \<Rightarrow> None
     | _ \<Rightarrow> Some (Inl USP_ERR_INVALID_PATH_SYNTAX))"

definition DM_ACCESS_CompareBool :: "cstr \<Rightarrow> expr_op \<Rightarrow> cstr \<Rightarrow> (usp_err + bool) option" where
  "DM_ACCESS_CompareBool lhs eop rhs =
    (case TEXT_UTILS_StringToBool lhs of
       Inl _ \<Rightarrow> Some (Inl USP_ERR_INTERNAL_ERROR)
     | Inr l \<Rightarrow>
       (case TEXT_UTILS_StringToBool rhs of
          Inl _ \<Rightarrow> Some (Inl USP_ERR_INVALID_PATH_SYNTAX)
        | Inr r \<Rightarrow>
          (case eop of
             kExprOp_Equal \<Rightarrow> Some (Inr (l = r))
           | kExprOp_NotEqual \<Rightarrow> Some (Inr (l \<noteq> r))
           | kExprOp_Equals \<Rightarrow> None
           | _ \<Rightarrow> Some (Inl USP_ERR_INVALID_PATH_SYNTAX))))"

definition DM_ACCESS_CompareDateTime :: "cstr \<Rightarrow> expr_op \<Rightarrow> cstr \<Rightarrow> (usp_err + bool) option" where
  "DM_ACCESS_CompareDateTime lhs eop rhs =
    (case TEXT_UTILS_StringToDateTime lhs of
       Inl _ \<Rightarrow> Some (Inl USP_ERR_INTERNAL_ERROR)
     | Inr l \<Rightarrow>
       (case TEXT_UTILS_StringToDateTime rhs of
          Inl _ \<Rightarrow> Some (Inl USP_ERR_INVALID_PATH_SYNTAX)
        | Inr r \<Rightarrow>
          (case eop of
             kExprOp_Equal \<Rightarrow> Some (Inr (l = r))
           | kExprOp_NotEqual \<Rightarrow> Some (Inr (l \<noteq> r))
           | kExprOp_LessThanOrEqual \<Rightarrow> Some (Inr (l \<le> r))
           | kExprOp_GreaterThanOrEqual \<Rightarrow> Some (Inr (l \<ge> r))
           | kExprOp_LessThan \<Rightarrow> Some (Inr (l < r))
           | kExprOp_GreaterThan \<Rightarrow> Some (Inr (l > r))
           | kExprOp_Equals \<Rightarrow> None)))"

text \<open>
  sscanf with "%Lf": a number, nothing converted, or the end of the input (a text with no character
  but blanks), where it returns EOF and leaves the variable as it was: \<open>stale\<close>. A long double has the
  64 bits of a double here; how two compare is a parameter as well.
\<close>

datatype scanned_number = Scanned "64 word" | Not_A_Number | End_Of_Input

record long_doubles =
  scan_Lf :: "cstr \<Rightarrow> scanned_number"
  ld_eq :: "64 word \<Rightarrow> 64 word \<Rightarrow> bool"
  ld_less :: "64 word \<Rightarrow> 64 word \<Rightarrow> bool"
  ld_less_eq :: "64 word \<Rightarrow> 64 word \<Rightarrow> bool"
  stale :: "64 word \<times> 64 word"

fun scanned_value :: "64 word \<Rightarrow> scanned_number \<Rightarrow> 64 word option" where
  "scanned_value old (Scanned w) = Some w"
| "scanned_value old Not_A_Number = None"
| "scanned_value old End_Of_Input = Some old"

definition DM_ACCESS_CompareNumber :: "long_doubles \<Rightarrow> cstr \<Rightarrow> expr_op \<Rightarrow> cstr \<Rightarrow> (usp_err + bool) option" where
  "DM_ACCESS_CompareNumber ld lhs eop rhs =
    (case scanned_value (fst (stale ld)) (scan_Lf ld lhs) of
       None \<Rightarrow> Some (Inl USP_ERR_INTERNAL_ERROR)
     | Some l \<Rightarrow>
       (case scanned_value (snd (stale ld)) (scan_Lf ld rhs) of
          None \<Rightarrow> Some (Inl USP_ERR_INVALID_PATH_SYNTAX)
        | Some r \<Rightarrow>
          (case eop of
             kExprOp_Equal \<Rightarrow> Some (Inr (ld_eq ld l r))
           | kExprOp_NotEqual \<Rightarrow> Some (Inr (\<not> ld_eq ld l r))
           | kExprOp_LessThanOrEqual \<Rightarrow> Some (Inr (ld_less_eq ld l r))
           | kExprOp_GreaterThanOrEqual \<Rightarrow> Some (Inr (ld_less_eq ld r l))
           | kExprOp_LessThan \<Rightarrow> Some (Inr (ld_less ld l r))
           | kExprOp_GreaterThan \<Rightarrow> Some (Inr (ld_less ld r l))
           | kExprOp_Equals \<Rightarrow> None)))"

end
