(* ===== verification/Group_Get.thy ===== *)
theory Group_Get
  imports Dm_Queries Kv_Vector
begin

text \<open>
  Reading many parameters at once (\<open>core/group_get_vector.c\<close>): parameters of no group are read one by
  one through the data model, the others with one call of their group's callback. The texts of error
  messages are not modelled; an entry has one exactly when it has an error code.
\<close>

section \<open>State\<close>

definition MAX_VENDOR_PARAM_GROUPS :: nat where "MAX_VENDOR_PARAM_GROUPS = 10"

record group_get_entry =
  gg_path :: cstr
  gg_group :: int
  gg_value :: "cstr option"
  gg_err :: "usp_err option"

type_synonym group_get_vector = "group_get_entry list"

definition new_entry :: "cstr \<Rightarrow> int \<Rightarrow> group_get_entry" where
  "new_entry path gid = \<lparr>gg_path = path, gg_group = gid, gg_value = None, gg_err = None\<rparr>"

section \<open>Operations\<close>

definition GROUP_GET_VECTOR_Init :: group_get_vector where "GROUP_GET_VECTOR_Init = []"
definition GROUP_GET_VECTOR_Destroy :: "group_get_vector \<Rightarrow> group_get_vector" where "GROUP_GET_VECTOR_Destroy ggv = []"

definition GROUP_GET_VECTOR_Add :: "group_get_vector \<Rightarrow> cstr \<Rightarrow> int \<Rightarrow> group_get_vector" where
  "GROUP_GET_VECTOR_Add ggv path gid = ggv @ [new_entry path gid]"

definition GROUP_GET_VECTOR_FindParam :: "group_get_vector \<Rightarrow> cstr \<Rightarrow> int" where
  "GROUP_GET_VECTOR_FindParam ggv path = first_index (\<lambda>gge. gg_path gge = path) ggv"

text \<open>\<open>None\<close>: the two vectors have different lengths.\<close>

definition GROUP_GET_VECTOR_AddParams :: "group_get_vector \<Rightarrow> cstr list \<Rightarrow> int list \<Rightarrow> group_get_vector option" where
  "GROUP_GET_VECTOR_AddParams ggv params group_ids =
    (if length params \<noteq> length group_ids then None
     else Some (ggv @ map (\<lambda>(p, g). new_entry p g) (zip params group_ids)))"

definition GROUP_GET_VECTOR_ConvertToKeyValueVector :: "group_get_vector \<Rightarrow> kv_vector \<times> group_get_vector" where
  "GROUP_GET_VECTOR_ConvertToKeyValueVector ggv =
    (map (\<lambda>gge. (gg_path gge, case gg_value gge of Some v \<Rightarrow> if gg_err gge = None then v else [] | None \<Rightarrow> [])) ggv, [])"

text \<open>One entry of no group: an error of the data model is kept in the entry.\<close>

definition get_entry :: "hooks \<Rightarrow> agent \<Rightarrow> group_get_entry \<Rightarrow> (agent \<times> group_get_entry) option" where
  "get_entry h ag gge =
    map_option (\<lambda>(ag1, r). (ag1, case r of Inl e \<Rightarrow> gge\<lparr>gg_err := Some e\<rparr> | Inr v \<Rightarrow> gge\<lparr>gg_err := None, gg_value := Some v\<rparr>))
      (DATA_MODEL_GetParameterValue h ag (gg_path gge) MAX_DM_VALUE_LEN 0)"

text \<open>The first loop. A group that does not exist indexes out of the array of groups.\<close>

fun get_ungrouped :: "hooks \<Rightarrow> agent \<Rightarrow> group_get_vector \<Rightarrow> (agent \<times> group_get_vector) option" where
  "get_ungrouped h ag [] = Some (ag, [])"
| "get_ungrouped h ag (gge # ggv) =
    Option.bind
      (if gg_group gge = NON_GROUPED then get_entry h ag gge
       else if 0 \<le> gg_group gge \<and> gg_group gge < int MAX_VENDOR_PARAM_GROUPS then Some (ag, gge) else None)
      (\<lambda>(ag1, gge1). map_option (\<lambda>(ag2, ggv2). (ag2, gge1 # ggv2)) (get_ungrouped h ag1 ggv))"

definition group_indexes :: "group_get_vector \<Rightarrow> int \<Rightarrow> nat list" where
  "group_indexes ggv g = filter (\<lambda>i. gg_group (ggv ! i) = g) [0..<length ggv]"

text \<open>What an entry becomes: the value of the callback, or an error.\<close>

definition set_entry :: "cstr option \<Rightarrow> group_get_entry \<Rightarrow> group_get_entry" where
  "set_entry v gge = (case v of Some x \<Rightarrow> gge\<lparr>gg_value := Some x\<rparr> | None \<Rightarrow> gge\<lparr>gg_err := Some USP_ERR_INTERNAL_ERROR\<rparr>)"

fun store_values :: "group_get_vector \<Rightarrow> nat list \<Rightarrow> cstr option list \<Rightarrow> group_get_vector" where
  "store_values ggv [] vs = ggv"
| "store_values ggv (i # iv) [] = store_values (ggv[i := set_entry None (ggv ! i)]) iv []"
| "store_values ggv (i # iv) (v # vs) = store_values (ggv[i := set_entry v (ggv ! i)]) iv vs"

definition GetParameterGroup :: "hooks \<Rightarrow> int \<Rightarrow> group_get_vector \<Rightarrow> nat list \<Rightarrow> group_get_vector" where
  "GetParameterGroup h gid ggv iv =
    (case get_group_hook h gid of
       None \<Rightarrow> store_values ggv iv []
     | Some get_group_cb \<Rightarrow>
        (case get_group_cb (map (\<lambda>i. gg_path (ggv ! i)) iv) of
           Inl _ \<Rightarrow> store_values ggv iv []
         | Inr vs \<Rightarrow> store_values ggv iv vs))"

definition get_group :: "hooks \<Rightarrow> nat \<Rightarrow> group_get_vector \<Rightarrow> group_get_vector" where
  "get_group h g ggv =
    (let iv = group_indexes ggv (int g) in if iv = [] then ggv else GetParameterGroup h (int g) ggv iv)"

definition GROUP_GET_VECTOR_GetValues :: "hooks \<Rightarrow> agent \<Rightarrow> group_get_vector \<Rightarrow> (agent \<times> group_get_vector) option" where
  "GROUP_GET_VECTOR_GetValues h ag ggv =
    map_option (\<lambda>(ag1, ggv1). (ag1, fold (get_group h) [0..<MAX_VENDOR_PARAM_GROUPS] ggv1)) (get_ungrouped h ag ggv)"

text \<open>The alternative the code can be built with: every parameter on its own.\<close>

definition get_individually :: "hooks \<Rightarrow> agent \<Rightarrow> group_get_entry \<Rightarrow> (agent \<times> group_get_entry) option" where
  "get_individually h ag gge =
    (if gg_group gge = NON_GROUPED then get_entry h ag gge
     else if 0 \<le> gg_group gge \<and> gg_group gge < int MAX_VENDOR_PARAM_GROUPS then
       Some (ag, case get_group_hook h (gg_group gge) of
           None \<Rightarrow> gge\<lparr>gg_err := Some USP_ERR_INTERNAL_ERROR\<rparr>
         | Some cb \<Rightarrow>
            (case cb [gg_path gge] of
               Inl e \<Rightarrow> gge\<lparr>gg_err := Some e\<rparr>
             | Inr (Some v # _) \<Rightarrow> gge\<lparr>gg_err := None, gg_value := Some v\<rparr>
             | Inr _ \<Rightarrow> gge\<lparr>gg_err := Some USP_ERR_INTERNAL_ERROR\<rparr>))
     else None)"

fun GetParametersIndividually :: "hooks \<Rightarrow> agent \<Rightarrow> group_get_vector \<Rightarrow> (agent \<times> group_get_vector) option" where
  "GetParametersIndividually h ag [] = Some (ag, [])"
| "GetParametersIndividually h ag (gge # ggv) =
    Option.bind (get_individually h ag gge)
      (\<lambda>(ag1, gge1). map_option (\<lambda>(ag2, ggv2). (ag2, gge1 # ggv2)) (GetParametersIndividually h ag1 ggv))"

section \<open>The two ways agree\<close>

text \<open>
  A group callback that answers each path on its own: its answer for many paths is the list of its
  answers for each.
\<close>

definition pointwise_group :: "hooks \<Rightarrow> int \<Rightarrow> bool" where
  "pointwise_group h g \<longleftrightarrow>
    (case get_group_hook h g of None \<Rightarrow> True | Some cb \<Rightarrow> (\<exists>f. \<forall>paths. cb paths = Inr (map f paths)))"

lemma store_values_length [simp]: "length (store_values ggv iv vs) = length ggv"
  by (induction ggv iv vs rule: store_values.induct) auto

lemma store_values_other: "j \<notin> set iv \<Longrightarrow> store_values ggv iv vs ! j = ggv ! j"
  by (induction ggv iv vs rule: store_values.induct) auto

lemma store_values_map:
  "distinct iv \<Longrightarrow> j \<in> set iv \<Longrightarrow> j < length ggv \<Longrightarrow> store_values ggv iv (map f iv) ! j = set_entry (f j) (ggv ! j)"
proof (induction iv arbitrary: ggv)
  case (Cons i iv)
  show ?case
  proof (cases "j = i")
    case True
    with Cons.prems show ?thesis by (simp add: store_values_other)
  next
    case False
    with Cons show ?thesis by simp
  qed
qed simp

lemma store_values_none:
  "distinct iv \<Longrightarrow> j \<in> set iv \<Longrightarrow> j < length ggv \<Longrightarrow> store_values ggv iv [] ! j = set_entry None (ggv ! j)"
proof (induction iv arbitrary: ggv)
  case (Cons i iv)
  show ?case
  proof (cases "j = i")
    case True
    with Cons.prems show ?thesis by (simp add: store_values_other)
  next
    case False
    with Cons show ?thesis by simp
  qed
qed simp

text \<open>An entry of a group after the group has been read.\<close>

definition answer :: "hooks \<Rightarrow> group_get_entry \<Rightarrow> cstr option" where
  "answer h gge = (case get_group_hook h (gg_group gge) of None \<Rightarrow> None
     | Some cb \<Rightarrow> (case cb [gg_path gge] of Inr (v # _) \<Rightarrow> v | _ \<Rightarrow> None))"

lemma get_group_nth:
  assumes "pointwise_group h (int g)" "j < length ggv"
  shows "get_group h g ggv ! j = (if gg_group (ggv ! j) = int g then set_entry (answer h (ggv ! j)) (ggv ! j) else ggv ! j)"
proof -
  let ?iv = "group_indexes ggv (int g)"
  have d: "distinct ?iv" and m: "j \<in> set ?iv \<longleftrightarrow> gg_group (ggv ! j) = int g"
    using assms(2) by (auto simp: group_indexes_def)
  show ?thesis
  proof (cases "gg_group (ggv ! j) = int g")
    case False
    then show ?thesis using m
      by (auto simp: get_group_def GetParameterGroup_def store_values_other Let_def split: option.splits sum.splits)
  next
    case True
    then have j: "j \<in> set ?iv" using m by simp
    then have ne: "?iv \<noteq> []" by auto
    show ?thesis
    proof (cases "get_group_hook h (int g)")
      case None
      with True ne show ?thesis
        by (simp add: get_group_def GetParameterGroup_def store_values_none [OF d j assms(2)] answer_def)
    next
      case (Some cb)
      with assms(1) obtain f where f: "\<forall>paths. cb paths = Inr (map f paths)" by (auto simp: pointwise_group_def)
      with True Some ne show ?thesis
        using store_values_map [OF d j assms(2), of "\<lambda>i. f (gg_path (ggv ! i))"]
        by (simp add: get_group_def GetParameterGroup_def answer_def comp_def Let_def)
    qed
  qed
qed

lemma get_group_length [simp]: "length (get_group h g ggv) = length ggv"
  by (simp add: get_group_def GetParameterGroup_def Let_def split: option.splits sum.splits)

lemma set_entry_group [simp]: "gg_group (set_entry v gge) = gg_group gge" "gg_path (set_entry v gge) = gg_path gge"
  by (simp_all add: set_entry_def split: option.splits)

lemma fold_get_group_nth:
  assumes "\<forall>g. pointwise_group h g" "j < length ggv" "distinct gs"
  shows "fold (get_group h) gs ggv ! j =
    (if gg_group (ggv ! j) \<in> int ` set gs then set_entry (answer h (ggv ! j)) (ggv ! j) else ggv ! j)"
  using assms(2,3)
proof (induction gs arbitrary: ggv)
  case (Cons g gs)
  have nth: "get_group h g ggv ! j = (if gg_group (ggv ! j) = int g then set_entry (answer h (ggv ! j)) (ggv ! j) else ggv ! j)"
    by (rule get_group_nth) (use assms(1) Cons.prems in simp_all)
  with Cons show ?case by auto
qed simp

lemma fold_get_group_length [simp]: "length (fold (get_group h) gs ggv) = length ggv"
  by (induction gs arbitrary: ggv) auto

definition fresh_entry :: "group_get_entry \<Rightarrow> bool" where
  "fresh_entry gge \<longleftrightarrow> gg_value gge = None \<and> gg_err gge = None"

lemma get_entry_group: "get_entry h ag gge = Some (ag1, gge1) \<Longrightarrow> gg_group gge1 = gg_group gge"
proof -
  have "gg_group (case r of Inl e \<Rightarrow> gge\<lparr>gg_err := Some e\<rparr> | Inr v \<Rightarrow> gge\<lparr>gg_err := None, gg_value := Some v\<rparr>) = gg_group gge"
    for r :: "usp_err + cstr" by (cases r) simp_all
  then show "get_entry h ag gge = Some (ag1, gge1) \<Longrightarrow> gg_group gge1 = gg_group gge"
    by (auto simp: get_entry_def)
qed

lemma individually_ungrouped:
  assumes "\<forall>g. pointwise_group h g" "\<forall>gge\<in>set ggv. fresh_entry gge"
  shows "GetParametersIndividually h ag ggv =
    map_option (\<lambda>(ag1, ggv1). (ag1, map (\<lambda>gge. if gg_group gge = NON_GROUPED then gge else set_entry (answer h gge) gge) ggv1))
      (get_ungrouped h ag ggv)"
  using assms(2)
proof (induction ggv arbitrary: ag)
  case (Cons gge ggv)
  have IH: "GetParametersIndividually h ag ggv =
    map_option (\<lambda>(ag1, ggv1). (ag1, map (\<lambda>gge. if gg_group gge = NON_GROUPED then gge else set_entry (answer h gge) gge) ggv1))
      (get_ungrouped h ag ggv)" for ag
    using Cons by simp
  show ?case
  proof (cases "gg_group gge = NON_GROUPED")
    case True
    then have grp: "gg_group gge1 = NON_GROUPED" if "get_entry h ag gge = Some (ag1, gge1)" for ag1 gge1
      using that get_entry_group by metis
    show ?thesis
    proof (cases "get_entry h ag gge")
      case None
      then show ?thesis using True by (simp add: get_individually_def)
    next
      case (Some r)
      obtain ag1 gge1 where r: "r = (ag1, gge1)" by (metis prod.exhaust)
      show ?thesis using True Some r grp IH
        by (auto simp: get_individually_def option.map_comp comp_def split_def)
    qed
  next
    case False
    have "pointwise_group h (gg_group gge)" using assms(1) by blast
    then obtain f where f: "get_group_hook h (gg_group gge) = None \<or>
        (\<exists>cb. get_group_hook h (gg_group gge) = Some cb \<and> (\<forall>paths. cb paths = Inr (map f paths)))"
      unfolding pointwise_group_def by (cases "get_group_hook h (gg_group gge)") auto
    have "fresh_entry gge" using Cons.prems by simp
    then have "get_individually h ag gge = (if 0 \<le> gg_group gge \<and> gg_group gge < int MAX_VENDOR_PARAM_GROUPS
        then Some (ag, set_entry (answer h gge) gge) else None)"
      using False f by (auto simp: get_individually_def answer_def set_entry_def fresh_entry_def split: option.splits)
    then show ?thesis using False IH by (simp add: option.map_comp comp_def split_def)
  qed
qed simp

lemma get_ungrouped_in_range:
  "get_ungrouped h ag ggv = Some (ag1, ggv1) \<Longrightarrow> gge \<in> set ggv1 \<Longrightarrow>
    gg_group gge = NON_GROUPED \<or> (0 \<le> gg_group gge \<and> gg_group gge < int MAX_VENDOR_PARAM_GROUPS)"
proof (induction ggv arbitrary: ag ag1 ggv1)
  case (Cons g ggv)
  from Cons.prems(1) obtain ag2 g2 ggv2 where g2: "(if gg_group g = NON_GROUPED then get_entry h ag g
       else if 0 \<le> gg_group g \<and> gg_group g < int MAX_VENDOR_PARAM_GROUPS then Some (ag, g) else None) = Some (ag2, g2)"
    and rest: "get_ungrouped h ag2 ggv = Some (ag1, ggv2)" and eq: "ggv1 = g2 # ggv2"
    by (auto simp: bind_eq_Some_conv simp del: if_split)
  have "gg_group g2 = NON_GROUPED \<or> (0 \<le> gg_group g2 \<and> gg_group g2 < int MAX_VENDOR_PARAM_GROUPS)"
    using g2 get_entry_group [of h ag g ag2 g2] by (auto split: if_splits)
  then show ?case using Cons.IH [OF rest] Cons.prems(2) eq by auto
qed simp

section \<open>Properties\<close>

text \<open>
  Reading the groups with one call each gives the same agent, the same values and the same errors
  as reading every parameter on its own, when the callbacks of the groups answer each path
  independently of the others; the entries stay in the order they were added.
\<close>

theorem GROUP_GET_VECTOR_GetValues_individually:
  assumes "\<forall>g. pointwise_group h g" "\<forall>gge\<in>set ggv. fresh_entry gge"
  shows "GROUP_GET_VECTOR_GetValues h ag ggv = GetParametersIndividually h ag ggv"
proof (cases "get_ungrouped h ag ggv")
  case None
  then show ?thesis by (simp add: GROUP_GET_VECTOR_GetValues_def individually_ungrouped [OF assms])
next
  case (Some r)
  obtain ag1 ggv1 where r: "r = (ag1, ggv1)" by (metis prod.exhaust)
  have "fold (get_group h) [0..<MAX_VENDOR_PARAM_GROUPS] ggv1 =
      map (\<lambda>gge. if gg_group gge = NON_GROUPED then gge else set_entry (answer h gge) gge) ggv1"
  proof (rule nth_equalityI)
    fix j assume "j < length (fold (get_group h) [0..<MAX_VENDOR_PARAM_GROUPS] ggv1)"
    then have j: "j < length ggv1" by simp
    then have range: "gg_group (ggv1 ! j) = NON_GROUPED \<or>
        (0 \<le> gg_group (ggv1 ! j) \<and> gg_group (ggv1 ! j) < int MAX_VENDOR_PARAM_GROUPS)"
      using get_ungrouped_in_range Some r nth_mem by blast
    have "gg_group (ggv1 ! j) \<in> int ` set [0..<MAX_VENDOR_PARAM_GROUPS] \<longleftrightarrow> gg_group (ggv1 ! j) \<noteq> NON_GROUPED"
    proof
      assume "gg_group (ggv1 ! j) \<noteq> NON_GROUPED"
      with range show "gg_group (ggv1 ! j) \<in> int ` set [0..<MAX_VENDOR_PARAM_GROUPS]"
        by (intro image_eqI [of _ _ "nat (gg_group (ggv1 ! j))"]) auto
    qed (auto simp: NON_GROUPED_def)
    then show "fold (get_group h) [0..<MAX_VENDOR_PARAM_GROUPS] ggv1 ! j =
        map (\<lambda>gge. if gg_group gge = NON_GROUPED then gge else set_entry (answer h gge) gge) ggv1 ! j"
      using fold_get_group_nth [OF assms(1) j, of "[0..<MAX_VENDOR_PARAM_GROUPS]"] j by simp
  qed simp
  with Some r show ?thesis by (simp add: GROUP_GET_VECTOR_GetValues_def individually_ungrouped [OF assms])
qed

theorem GROUP_GET_VECTOR_GetValues_individually_witness:
  "GROUP_GET_VECTOR_GetValues (demo_hooks\<lparr>get_group_hook := (\<lambda>g. Some (\<lambda>paths. Inr (map Some paths)))\<rparr>) param_agent
      [new_entry ''Device.A'' 2, new_entry ''Device.B'' 1] =
    Some (param_agent, [(new_entry ''Device.A'' 2)\<lparr>gg_value := Some ''Device.A''\<rparr>, (new_entry ''Device.B'' 1)\<lparr>gg_value := Some ''Device.B''\<rparr>])"
proof -
  let ?h = "demo_hooks\<lparr>get_group_hook := (\<lambda>g. Some (\<lambda>paths. Inr (map Some paths)))\<rparr>"
  have "\<forall>g. pointwise_group ?h g" by (auto simp: pointwise_group_def)
  moreover have "\<forall>gge\<in>set [new_entry ''Device.A'' 2, new_entry ''Device.B'' 1]. fresh_entry gge"
    by (simp add: new_entry_def fresh_entry_def)
  ultimately have "GROUP_GET_VECTOR_GetValues ?h param_agent [new_entry ''Device.A'' 2, new_entry ''Device.B'' 1] =
      GetParametersIndividually ?h param_agent [new_entry ''Device.A'' 2, new_entry ''Device.B'' 1]"
    by (rule GROUP_GET_VECTOR_GetValues_individually)
  then show ?thesis by (simp add: get_individually_def new_entry_def MAX_VENDOR_PARAM_GROUPS_def NON_GROUPED_def)
qed

end
