(* ===== verification/Path_Resolver.thy ===== *)
theory Path_Resolver
  imports Dm_Access Group_Get
begin

text \<open>
  The path resolver (\<open>core/path_resolver.c\<close>): a path of a USP message, which may be partial, hold
  wildcards, search expressions and references to follow, is resolved into the paths of the data
  model it stands for, checking on the way what the role may do with them. The results are collected
  in a vector of paths and, for parameters, a vector of their groups; either may be absent. What
  has been collected when an error is returned is freed by every caller, and dropped here.
\<close>

section \<open>State\<close>

datatype resolve_op = kResolveOp_Get | kResolveOp_Set | kResolveOp_Add | kResolveOp_Del | kResolveOp_Oper
  | kResolveOp_Event | kResolveOp_Instances | kResolveOp_SubsValChange | kResolveOp_SubsAdd | kResolveOp_SubsDel
  | kResolveOp_SubsOper | kResolveOp_SubsEvent | kResolveOp_GetBulkData | kResolveOp_ForgivingRef
  | kResolveOp_StrictRef | kResolveOp_Any

definition GET_ALL_INSTANCES :: "32 word" where "GET_ALL_INSTANCES = 1"
definition FULL_DEPTH :: int where "FULL_DEPTH = 2147483647"

record resolver_state =
  rs_op :: resolve_op
  rs_depth :: int
  rs_role :: "combined_role option"
  rs_flags :: "32 word"

text \<open>The vectors \<open>sv\<close> and \<open>gv\<close> of the resolver state.\<close>

type_synonym resolved_paths = "str_vector option \<times> int_vector option"

record search_param =
  sp_keys :: expr_vector
  sp_indexes :: "int list"
  sp_ggv :: group_get_vector
  sp_types :: "32 word list"

definition InitSearchParam :: search_param where
  "InitSearchParam = \<lparr>sp_keys = EXPR_VECTOR_Init, sp_indexes = [], sp_ggv = GROUP_GET_VECTOR_Init, sp_types = []\<rparr>"

text \<open>What the code takes from its surroundings: the vendor's hooks and the numbers of the C library.\<close>

record resolver_env =
  re_hooks :: hooks
  re_numbers :: long_doubles

definition IS_FORGIVING :: "resolve_op \<Rightarrow> bool" where
  "IS_FORGIVING rop \<longleftrightarrow> rop \<in> {kResolveOp_Get, kResolveOp_SubsValChange, kResolveOp_ForgivingRef}"

abbreviation IS_STRICT :: "resolve_op \<Rightarrow> bool" where "IS_STRICT rop \<equiv> \<not> IS_FORGIVING rop"

section \<open>A path that has been found\<close>

definition PERMIT_GET :: "16 word" where "PERMIT_GET = 0x0001"
definition PERMIT_ADD :: "16 word" where "PERMIT_ADD = 0x0004"
definition PERMIT_DEL :: "16 word" where "PERMIT_DEL = 0x0008"
definition PERMIT_OPER :: "16 word" where "PERMIT_OPER = 0x0010"
definition PERMIT_SUBS_VAL_CHANGE :: "16 word" where "PERMIT_SUBS_VAL_CHANGE = 0x0020"
definition PERMIT_SUBS_OBJ_ADD :: "16 word" where "PERMIT_SUBS_OBJ_ADD = 0x0040"
definition PERMIT_SUBS_OBJ_DEL :: "16 word" where "PERMIT_SUBS_OBJ_DEL = 0x0100"
definition PERMIT_SUBS_EVT_OPER_COMP :: "16 word" where "PERMIT_SUBS_EVT_OPER_COMP = 0x0200"

definition wrong_type :: "resolve_op \<Rightarrow> 32 word \<Rightarrow> usp_err option" where
  "wrong_type rop pp =
    (if rop \<in> {kResolveOp_Get, kResolveOp_SubsValChange, kResolveOp_GetBulkData} then
       (if pp AND PP_IS_PARAMETER = 0 then Some USP_ERR_INVALID_PATH else None)
     else if rop \<in> {kResolveOp_Set, kResolveOp_Add, kResolveOp_Del, kResolveOp_Instances, kResolveOp_SubsAdd, kResolveOp_SubsDel} then
       (if pp AND PP_IS_OBJECT = 0
        then Some (if rop = kResolveOp_Add then USP_ERR_OBJECT_NOT_CREATABLE else USP_ERR_NOT_A_TABLE) else None)
     else if rop \<in> {kResolveOp_Oper, kResolveOp_SubsOper} then
       (if pp AND PP_IS_OPERATION = 0 then Some USP_ERR_COMMAND_FAILURE else None)
     else if rop \<in> {kResolveOp_Event, kResolveOp_SubsEvent} then
       (if pp AND PP_IS_EVENT = 0 then Some USP_ERR_INVALID_PATH else None)
     else None)"

definition wrong_instance :: "resolve_op \<Rightarrow> 32 word \<Rightarrow> usp_err option" where
  "wrong_instance rop pp =
    (if rop = kResolveOp_Del then
       (if pp AND PP_IS_OBJECT_INSTANCE = 0 then Some USP_ERR_OBJECT_DOES_NOT_EXIST else None)
     else if rop \<in> {kResolveOp_SubsAdd, kResolveOp_SubsDel} then
       (if pp AND PP_IS_MULTI_INSTANCE_OBJECT = 0 then Some USP_ERR_NOT_A_TABLE else None)
     else if rop = kResolveOp_Add then
       (if pp AND PP_IS_OBJECT_INSTANCE \<noteq> 0
        then Some (if pp AND PP_IS_MULTI_INSTANCE_OBJECT \<noteq> 0 then USP_ERR_CREATION_FAILURE else USP_ERR_NOT_A_TABLE)
        else None)
     else None)"

datatype verdict = Pass | Skip | Refuse usp_err

definition permission_verdict :: "resolve_op \<Rightarrow> 16 word \<Rightarrow> verdict" where
  "permission_verdict rop permission_bitmask =
    (let need = (\<lambda>bits v. if permission_bitmask AND bits = 0 then v else Pass)
     in case rop of
          kResolveOp_Get \<Rightarrow> need PERMIT_GET Skip
        | kResolveOp_Set \<Rightarrow> Pass
        | kResolveOp_Add \<Rightarrow> need PERMIT_ADD (Refuse USP_ERR_PERMISSION_DENIED)
        | kResolveOp_Del \<Rightarrow> need PERMIT_DEL (Refuse USP_ERR_PERMISSION_DENIED)
        | kResolveOp_Instances \<Rightarrow> Pass
        | kResolveOp_Oper \<Rightarrow> need PERMIT_OPER (Refuse USP_ERR_COMMAND_FAILURE)
        | kResolveOp_Event \<Rightarrow> need PERMIT_SUBS_EVT_OPER_COMP (Refuse USP_ERR_PERMISSION_DENIED)
        | kResolveOp_SubsEvent \<Rightarrow> need PERMIT_SUBS_EVT_OPER_COMP (Refuse USP_ERR_PERMISSION_DENIED)
        | kResolveOp_SubsOper \<Rightarrow> need PERMIT_SUBS_EVT_OPER_COMP (Refuse USP_ERR_PERMISSION_DENIED)
        | kResolveOp_SubsAdd \<Rightarrow> need PERMIT_SUBS_OBJ_ADD (Refuse USP_ERR_PERMISSION_DENIED)
        | kResolveOp_SubsDel \<Rightarrow> need PERMIT_SUBS_OBJ_DEL (Refuse USP_ERR_PERMISSION_DENIED)
        | kResolveOp_SubsValChange \<Rightarrow> need PERMIT_SUBS_VAL_CHANGE (Refuse USP_ERR_PERMISSION_DENIED)
        | kResolveOp_GetBulkData \<Rightarrow> need PERMIT_GET (Refuse USP_ERR_PERMISSION_DENIED)
        | kResolveOp_Any \<Rightarrow> Pass
        | kResolveOp_StrictRef \<Rightarrow> Pass
        | kResolveOp_ForgivingRef \<Rightarrow> Pass)"

definition existence_verdict :: "resolve_op \<Rightarrow> 32 word \<Rightarrow> verdict" where
  "existence_verdict rop pp =
    (if pp AND PP_INSTANCE_NUMBERS_EXIST \<noteq> 0 then Pass
     else if rop \<in> {kResolveOp_Get, kResolveOp_Del, kResolveOp_SubsValChange, kResolveOp_SubsAdd, kResolveOp_SubsDel,
                    kResolveOp_SubsOper, kResolveOp_SubsEvent, kResolveOp_GetBulkData} then Skip
     else if rop \<in> {kResolveOp_Set, kResolveOp_Add, kResolveOp_Instances, kResolveOp_Oper, kResolveOp_Event}
     then Refuse USP_ERR_OBJECT_DOES_NOT_EXIST
     else Pass)"

text \<open>Whether the path is to be added, its properties and its group.\<close>

definition CheckPathProperties :: "hooks \<Rightarrow> resolver_state \<Rightarrow> agent \<Rightarrow> cstr \<Rightarrow> (bool \<times> path_properties) ag_result" where
  "CheckPathProperties h rs ag path =
    (case DATA_MODEL_GetPathProperties h ag path (rs_role rs) of
       None \<Rightarrow> None
     | Some (ag1, pp) \<Rightarrow>
        if pp_flags pp AND PP_EXISTS_IN_SCHEMA = 0 then ag_err ag1 USP_ERR_INVALID_PATH
        else case wrong_type (rs_op rs) (pp_flags pp) of
          Some e \<Rightarrow> ag_err ag1 e
        | None \<Rightarrow>
         (case wrong_instance (rs_op rs) (pp_flags pp) of
            Some e \<Rightarrow> ag_err ag1 e
          | None \<Rightarrow>
           (case permission_verdict (rs_op rs) (pp_permissions pp) of
              Refuse e \<Rightarrow> ag_err ag1 e
            | Skip \<Rightarrow> ag_ok ag1 (False, pp)
            | Pass \<Rightarrow>
             (case existence_verdict (rs_op rs) (pp_flags pp) of
                Refuse e \<Rightarrow> ag_err ag1 e
              | Skip \<Rightarrow> ag_ok ag1 (False, pp)
              | Pass \<Rightarrow> ag_ok ag1 (True, pp)))))"

definition AddPathFound :: "hooks \<Rightarrow> resolver_state \<Rightarrow> agent \<Rightarrow> cstr \<Rightarrow> resolved_paths \<Rightarrow> resolved_paths ag_result" where
  "AddPathFound h rs ag path found =
    ag_bind (CheckPathProperties h rs ag path) (\<lambda>ag1 (add_to_vector, pp).
      if \<not> add_to_vector then ag_ok ag1 found
      else case fst found of
        None \<Rightarrow> ag_ok ag1 found
      | Some sv \<Rightarrow>
          if rs_op rs \<in> {kResolveOp_SubsAdd, kResolveOp_SubsDel} \<and> pp_flags pp AND PP_IS_OBJECT_INSTANCE = 0 then
            (if pp_flags pp AND PP_IS_MULTI_INSTANCE_OBJECT = 0 then None
             else ag_bind (DATA_MODEL_GetInstancePaths h ag1 path sv None) (\<lambda>ag2 sv1. ag_ok ag2 (Some sv1, snd found)))
          else if rs_op rs = kResolveOp_Instances then
            ag_bind (if rs_flags rs AND GET_ALL_INSTANCES \<noteq> 0
                     then DATA_MODEL_GetAllInstancePaths h ag1 path sv (rs_role rs)
                     else DATA_MODEL_GetInstancePaths h ag1 path sv (rs_role rs))
              (\<lambda>ag2 sv1. ag_ok ag2 (Some sv1, snd found))
          else if STR_VECTOR_Find sv path \<noteq> INVALID then ag_ok ag1 found
          else ag_ok ag1 (Some (STR_VECTOR_Add sv path), map_option (\<lambda>gv. INT_VECTOR_Add gv (pp_group pp)) (snd found)))"

section \<open>Partial paths\<close>

text \<open>What becomes of a child that is no object: it is added, left out, or ends the resolution.\<close>

definition child_verdict :: "resolve_op \<Rightarrow> dm_node_type \<Rightarrow> 16 word \<Rightarrow> verdict" where
  "child_verdict rop type permission_bitmask =
    (if type = kDMNodeType_SyncOperation then Skip
     else if type = kDMNodeType_AsyncOperation then
       (if rop = kResolveOp_SubsOper \<and> permission_bitmask AND PERMIT_SUBS_EVT_OPER_COMP \<noteq> 0 then Pass else Skip)
     else if type = kDMNodeType_Event then
       (if rop = kResolveOp_SubsEvent \<and> permission_bitmask AND PERMIT_SUBS_EVT_OPER_COMP \<noteq> 0 then Pass else Skip)
     else if rop = kResolveOp_GetBulkData then
       (if permission_bitmask AND PERMIT_GET \<noteq> 0 then Pass else Refuse USP_ERR_PERMISSION_DENIED)
     else if (rop = kResolveOp_Get \<and> permission_bitmask AND PERMIT_GET \<noteq> 0) \<or>
             (rop = kResolveOp_SubsValChange \<and> permission_bitmask AND PERMIT_SUBS_VAL_CHANGE \<noteq> 0) then Pass
     else Skip)"

definition add_child :: "cstr \<Rightarrow> dm_node \<Rightarrow> resolved_paths \<Rightarrow> resolved_paths" where
  "add_child path child found =
    (map_option (\<lambda>sv. STR_VECTOR_Add sv (append_path path (''.'' @ node_name child))) (fst found),
     map_option (\<lambda>gv. INT_VECTOR_Add gv (param_group_id (param_info child))) (snd found))"

type_synonym child_call = "int \<Rightarrow> agent \<Rightarrow> cstr \<Rightarrow> node_ptr \<Rightarrow> dm_instances \<Rightarrow> resolved_paths \<Rightarrow> (resolved_paths \<times> dm_instances) ag_result"

text \<open>
  The children of an object in order; \<open>single\<close> and \<open>multi\<close> are the calls for objects below it, with
  one level of depth less. The instances are lent to the calls and given back.
\<close>

fun resolve_children :: "child_call \<Rightarrow> child_call \<Rightarrow> resolver_state \<Rightarrow> int \<Rightarrow> agent \<Rightarrow> cstr \<Rightarrow> dm_instances \<Rightarrow> resolved_paths
    \<Rightarrow> node_ptr list \<Rightarrow> (resolved_paths \<times> dm_instances) ag_result" where
  "resolve_children single multi rs depth ag path inst found [] = ag_ok ag (found, inst)"
| "resolve_children single multi rs depth ag path inst found (c # cs) =
    (let child = heap (dm ag) c
     in if node_type child = kDMNodeType_Object_SingleInstance then
          ag_bind (single (depth - 1) ag (append_path path (''.'' @ node_name child)) c inst found) (\<lambda>ag1 (found1, inst1).
            resolve_children single multi rs depth ag1 path inst1 found1 cs)
        else if node_type child = kDMNodeType_Object_MultiInstance then
          ag_bind (multi (depth - 1) ag (append_path path (''.'' @ node_name child)) c inst found) (\<lambda>ag1 (found1, inst1).
            resolve_children single multi rs depth ag1 path inst1 found1 cs)
        else
          (case child_verdict (rs_op rs) (node_type child) (DM_PRIV_GetPermissions child (rs_role rs)) of
             Refuse e \<Rightarrow> ag_err ag e
           | Skip \<Rightarrow> resolve_children single multi rs depth ag path inst found cs
           | Pass \<Rightarrow> resolve_children single multi rs depth ag path inst (add_child path child found) cs))"

text \<open>The instances of a table, each with its number in the path and in the instances lent.\<close>

fun resolve_instances :: "child_call \<Rightarrow> int \<Rightarrow> agent \<Rightarrow> cstr \<Rightarrow> node_ptr \<Rightarrow> nat \<Rightarrow> dm_instances \<Rightarrow> resolved_paths
    \<Rightarrow> int list \<Rightarrow> (resolved_paths \<times> dm_instances) ag_result" where
  "resolve_instances single depth ag path node k inst found [] = ag_ok ag (found, inst)"
| "resolve_instances single depth ag path node k inst found (n # ns) =
    ag_bind (single depth ag (append_path path (''.'' @ show_int n)) node (inst\<lparr>instances := (instances inst)[k := n]\<rparr>) found)
      (\<lambda>ag1 (found1, inst1). resolve_instances single depth ag1 path node k inst1 found1 ns)"

text \<open>The recursion follows the tree, whose depth is the fuel; the depth asked for may be less.\<close>

fun GetChildParams :: "nat \<Rightarrow> hooks \<Rightarrow> resolver_state \<Rightarrow> child_call"
  and GetChildParams_MultiInstanceObject :: "nat \<Rightarrow> hooks \<Rightarrow> resolver_state \<Rightarrow> child_call" where
  "GetChildParams 0 h rs depth_remaining ag path node inst found = None"
| "GetChildParams (Suc fuel) h rs depth_remaining ag path node inst found =
    (if depth_remaining \<le> 0 then ag_ok ag (found, inst)
     else resolve_children (GetChildParams fuel h rs) (GetChildParams_MultiInstanceObject fuel h rs) rs depth_remaining
       ag path inst found (child_nodes (heap (dm ag) node)))"
| "GetChildParams_MultiInstanceObject 0 h rs depth_remaining ag path node inst found = None"
| "GetChildParams_MultiInstanceObject (Suc fuel) h rs depth_remaining ag path node inst found =
    (if depth_remaining \<le> 0 then ag_ok ag (found, inst)
     else case DM_INST_VECTOR_GetInstances (instances_hook h) (dm ag) node inst of
       None \<Rightarrow> None
     | Some (st, Inl err, iv, inst1) \<Rightarrow> ag_err (ag\<lparr>dm := st\<rparr>) err
     | Some (st, Inr _, iv, inst1) \<Rightarrow>
        let k = order inst1; inst2 = inst1\<lparr>inodes := (inodes inst1)[k := node], order := Suc k\<rparr>
        in if MAX_DM_INSTANCE_ORDER \<le> k then None
           else ag_bind (resolve_instances (GetChildParams fuel h rs) depth_remaining (ag\<lparr>dm := st\<rparr>) path node k inst2 found iv)
             (\<lambda>ag1 (found1, inst3). ag_ok ag1
               (found1, inst3\<lparr>inodes := (inodes inst3)[k := NULL], instances := (instances inst3)[k := 0], order := k\<rparr>)))"

definition ResolvePartialPath :: "hooks \<Rightarrow> resolver_state \<Rightarrow> agent \<Rightarrow> cstr \<Rightarrow> resolved_paths \<Rightarrow> resolved_paths ag_result" where
  "ResolvePartialPath h rs ag path found =
    (case DM_PRIV_GetNodeFromPath (dm ag) path True True of
       None \<Rightarrow> ag_err ag USP_ERR_INVALID_PATH
     | Some (node, inst, is_qualified_instance) \<Rightarrow>
        if \<not> IsObject (heap (dm ag) node) then ag_err ag USP_ERR_INVALID_PATH
        else ag_bind (dm_exists h ag inst) (\<lambda>ag1 exists.
          if \<not> exists then ag_ok ag1 found
          else let child_path = USP_STRNCPY path MAX_DM_PATH
            in if is_qualified_instance then
                 ag_bind (GetChildParams MAX_TREE_DEPTH h rs (rs_depth rs) ag1 child_path node inst found)
                   (\<lambda>ag2 (found1, _). ag_ok ag2 found1)
               else if node_type (heap (dm ag1) node) \<noteq> kDMNodeType_Object_MultiInstance then None
               else
                 ag_bind (GetChildParams_MultiInstanceObject MAX_TREE_DEPTH h rs (rs_depth rs) ag1 child_path node inst found)
                   (\<lambda>ag2 (found1, _). ag_ok ag2 found1)))"

text \<open>The result of the refresh is not looked at.\<close>

definition RefreshInstances_LifecycleSubscriptionEndingInPartialPath :: "hooks \<Rightarrow> agent \<Rightarrow> cstr \<Rightarrow> agent option" where
  "RefreshInstances_LifecycleSubscriptionEndingInPartialPath h ag path =
    (case DM_PRIV_GetNodeFromPath (dm ag) path True True of
       None \<Rightarrow> Some ag
     | Some (n, inst, is_qualified_instance) \<Rightarrow>
        let node = heap (dm ag) n
        in if node_type node \<noteq> kDMNodeType_Object_MultiInstance \<or> node_order node \<noteq> 1 \<or>
              \<not> refresh_instances_cb (object_info node) then Some ag
           else if is_qualified_instance then Some ag
           else map_option (\<lambda>(st, r). ag\<lparr>dm := st\<rparr>)
             (DM_INST_VECTOR_RefreshTopLevelObjectInstances (instances_hook h) (dm ag) n))"

section \<open>Search expressions\<close>

text \<open>Whether the role may read a parameter, its group and its type.\<close>

definition CheckPathPermission :: "hooks \<Rightarrow> resolver_state \<Rightarrow> agent \<Rightarrow> cstr \<Rightarrow> (bool \<times> int \<times> 32 word) ag_result" where
  "CheckPathPermission h rs ag path =
    (case DATA_MODEL_GetPathProperties h ag path (rs_role rs) of
       None \<Rightarrow> None
     | Some (ag1, pp) \<Rightarrow>
        if pp_flags pp AND PP_IS_PARAMETER = 0 then ag_err ag1 USP_ERR_INVALID_PATH
        else if pp_permissions pp AND PERMIT_GET = 0 \<and> IS_STRICT (rs_op rs) then ag_err ag1 USP_ERR_PERMISSION_DENIED
        else ag_ok ag1 (pp_permissions pp AND PERMIT_GET \<noteq> 0, pp_group pp, pp_type_flags pp))"

text \<open>Keys with a reference in them, and those without; a key cannot end in a reference.\<close>

fun SplitReferenceKeysFromkeys :: "expr_vector \<Rightarrow> expr_vector \<Rightarrow> expr_vector \<Rightarrow> usp_err + (expr_vector \<times> expr_vector)" where
  "SplitReferenceKeysFromkeys [] keys ref_keys = Inr (keys, ref_keys)"
| "SplitReferenceKeysFromkeys (ec # all_keys) keys ref_keys =
    (if CHR ''+'' \<in> set (ec_param ec) then
       if last (ec_param ec) = CHR ''+'' then Inl USP_ERR_INVALID_PATH_SYNTAX
       else SplitReferenceKeysFromkeys all_keys keys (EXPR_VECTOR_Add ref_keys (ec_param ec) (ec_op ec) (ec_value ec))
     else SplitReferenceKeysFromkeys all_keys (EXPR_VECTOR_Add keys (ec_param ec) (ec_op ec) (ec_value ec)) ref_keys)"

text \<open>The parameters to read to follow the first reference of each path, where the role may read it.\<close>

fun GroupReferencedParameters :: "hooks \<Rightarrow> resolver_state \<Rightarrow> agent \<Rightarrow> (cstr \<times> bool) list \<Rightarrow> group_get_vector
    \<Rightarrow> (bool \<times> (cstr \<times> bool) list \<times> group_get_vector) ag_result" where
  "GroupReferencedParameters h rs ag [] ggv = ag_ok ag (False, [], ggv)"
| "GroupReferencedParameters h rs ag ((path, perm) # params) ggv =
    (if \<not> perm \<or> CHR ''+'' \<notin> set path then
       ag_bind (GroupReferencedParameters h rs ag params ggv) (\<lambda>ag1 (is_ref_found, params1, ggv1).
         ag_ok ag1 (is_ref_found, (path, perm) # params1, ggv1))
     else let ref = takeWhile (\<lambda>c. c \<noteq> CHR ''+'') path
       in ag_bind (CheckPathPermission h rs ag ref) (\<lambda>ag1 (has_permission, gid, _).
         if has_permission then
           ag_bind (GroupReferencedParameters h rs ag1 params (GROUP_GET_VECTOR_Add ggv ref gid)) (\<lambda>ag2 (_, params1, ggv1).
             ag_ok ag2 (True, (path, True) # params1, ggv1))
         else
           ag_bind (GroupReferencedParameters h rs ag1 params ggv) (\<lambda>ag2 (is_ref_found, params1, ggv1).
             ag_ok ag2 (is_ref_found, (path, False) # params1, ggv1))))"

text \<open>
  Replacing each reference by the path read for it. An empty reference drops the path from the
  search. Outer \<open>None\<close>: an entry with neither value nor error, or one too few.
\<close>

fun replace_references :: "(cstr \<times> bool) list \<Rightarrow> group_get_vector \<Rightarrow> (usp_err + (cstr \<times> bool) list) option" where
  "replace_references [] ggv = Some (Inr [])"
| "replace_references ((path, perm) # params) ggv =
    (if \<not> perm \<or> CHR ''+'' \<notin> set path then
       map_option (\<lambda>r. usp_bind r (\<lambda>ps. Inr ((path, perm) # ps))) (replace_references params ggv)
     else case ggv of
       [] \<Rightarrow> None
     | gge # ggv1 \<Rightarrow>
        (case gg_err gge of
           Some e \<Rightarrow> Some (Inl e)
         | None \<Rightarrow>
          (case gg_value gge of
             None \<Rightarrow> None
           | Some v \<Rightarrow>
              let path1 = (if v = [] then (takeWhile (\<lambda>c. c \<noteq> CHR ''+'') path, False)
                           else (fst (USP_SNPRINTF MAX_DM_PATH (v @ tl (dropWhile (\<lambda>c. c \<noteq> CHR ''+'') path))), True))
              in map_option (\<lambda>r. usp_bind r (\<lambda>ps. Inr (path1 # ps))) (replace_references params ggv1))))"

text \<open>The loop until no reference is left: a reference that leads back to itself never ends.\<close>

fun ResolveIntermediateReferences :: "nat \<Rightarrow> hooks \<Rightarrow> resolver_state \<Rightarrow> agent \<Rightarrow> (cstr \<times> bool) list \<Rightarrow> (cstr \<times> bool) list ag_result" where
  "ResolveIntermediateReferences 0 h rs ag params = None"
| "ResolveIntermediateReferences (Suc fuel) h rs ag params =
    ag_bind (GroupReferencedParameters h rs ag params GROUP_GET_VECTOR_Init) (\<lambda>ag1 (is_ref_found, params1, ggv).
      if \<not> is_ref_found then ag_ok ag1 params1
      else case GROUP_GET_VECTOR_GetValues h ag1 ggv of
        None \<Rightarrow> None
      | Some (ag2, ggv1) \<Rightarrow>
         ag_bind (map_option (\<lambda>r. (ag2, r)) (replace_references params1 ggv1)) (\<lambda>ag3 params2.
           ResolveIntermediateReferences fuel h rs ag3 params2))"

text \<open>The values of the keys of every instance, to be read in one go.\<close>

definition add_search_value :: "search_param \<Rightarrow> cstr \<Rightarrow> int \<Rightarrow> 32 word \<Rightarrow> search_param" where
  "add_search_value sp path gid param_type =
    sp\<lparr>sp_indexes := sp_indexes sp @ [int (length (sp_ggv sp))], sp_ggv := GROUP_GET_VECTOR_Add (sp_ggv sp) path gid,
       sp_types := sp_types sp @ [param_type]\<rparr>"

definition add_search_nothing :: "search_param \<Rightarrow> search_param" where
  "add_search_nothing sp = sp\<lparr>sp_indexes := sp_indexes sp @ [INVALID]\<rparr>"

fun add_resolved_keys :: "hooks \<Rightarrow> resolver_state \<Rightarrow> agent \<Rightarrow> (cstr \<times> bool) list \<Rightarrow> search_param \<Rightarrow> search_param ag_result" where
  "add_resolved_keys h rs ag [] sp = ag_ok ag sp"
| "add_resolved_keys h rs ag ((path, perm) # params) sp =
    (if \<not> perm then add_resolved_keys h rs ag params (add_search_nothing sp)
     else ag_bind (CheckPathPermission h rs ag path) (\<lambda>ag1 (has_permission, gid, param_type).
       add_resolved_keys h rs ag1 params
         (if has_permission then add_search_value sp path gid param_type else add_search_nothing sp)))"

definition key_path :: "cstr \<Rightarrow> int \<Rightarrow> expr_comp \<Rightarrow> cstr" where
  "key_path object n ec = fst (USP_SNPRINTF MAX_DM_PATH (object @ show_int n @ ''.'' @ ec_param ec))"

definition ResolveReferencedKeys :: "nat \<Rightarrow> hooks \<Rightarrow> resolver_state \<Rightarrow> agent \<Rightarrow> cstr \<Rightarrow> int_vector \<Rightarrow> search_param \<Rightarrow> search_param ag_result" where
  "ResolveReferencedKeys fuel h rs ag resolved insts sp =
    (if sp_keys sp = [] then ag_ok ag sp
     else let params = concat (map (\<lambda>n. map (\<lambda>ec. (key_path resolved n ec, True)) (sp_keys sp)) insts)
       in ag_bind (ResolveIntermediateReferences fuel h rs ag params) (\<lambda>ag1 params1.
            add_resolved_keys h rs ag1 params1 sp))"

text \<open>The permission, the group and the type of each key, taken from the first instance's path.\<close>

fun GetGroupIdForUniqueKeys :: "hooks \<Rightarrow> resolver_state \<Rightarrow> agent \<Rightarrow> cstr \<Rightarrow> expr_vector \<Rightarrow> (bool \<times> int \<times> 32 word) list ag_result" where
  "GetGroupIdForUniqueKeys h rs ag object [] = ag_ok ag []"
| "GetGroupIdForUniqueKeys h rs ag object (ec # keys) =
    ag_bind (CheckPathPermission h rs ag (key_path object 1 ec)) (\<lambda>ag1 p.
      ag_bind (GetGroupIdForUniqueKeys h rs ag1 object keys) (\<lambda>ag2 ps. ag_ok ag2 (p # ps)))"

definition ExpandUniqueKeysOverSingleInstance :: "cstr \<Rightarrow> (bool \<times> int \<times> 32 word) list \<Rightarrow> int \<Rightarrow> search_param \<Rightarrow> search_param" where
  "ExpandUniqueKeysOverSingleInstance object props n sp =
    fold (\<lambda>(ec, has_permission, gid, param_type) sp.
        if has_permission then add_search_value sp (key_path object n ec) gid param_type else add_search_nothing sp)
      (zip (sp_keys sp) props) sp"

definition ExpandUniqueKeysOverAllInstances :: "cstr \<Rightarrow> int_vector \<Rightarrow> (bool \<times> int \<times> 32 word) list \<Rightarrow> search_param \<Rightarrow> search_param" where
  "ExpandUniqueKeysOverAllInstances object insts props sp = fold (ExpandUniqueKeysOverSingleInstance object props) insts sp"

definition ExpandsNonReferencedKeys :: "hooks \<Rightarrow> resolver_state \<Rightarrow> agent \<Rightarrow> cstr \<Rightarrow> int_vector \<Rightarrow> search_param \<Rightarrow> search_param ag_result" where
  "ExpandsNonReferencedKeys h rs ag resolved insts sp =
    (if sp_keys sp = [] then ag_ok ag sp
     else ag_bind (GetGroupIdForUniqueKeys h rs ag resolved (sp_keys sp)) (\<lambda>ag1 props.
       ag_ok ag1 (ExpandUniqueKeysOverAllInstances resolved insts props sp)))"

text \<open>The comparison for a type of parameter.\<close>

definition compare_cb :: "long_doubles \<Rightarrow> 32 word \<Rightarrow> cstr \<Rightarrow> expr_op \<Rightarrow> cstr \<Rightarrow> (usp_err + bool) option" where
  "compare_cb ld param_type =
    (if param_type AND (DM_INT OR DM_UINT OR DM_ULONG OR DM_LONG OR DM_DECIMAL) \<noteq> 0 then DM_ACCESS_CompareNumber ld
     else if has_flag param_type DM_BOOL then DM_ACCESS_CompareBool
     else if has_flag param_type DM_DATETIME then DM_ACCESS_CompareDateTime
     else DM_ACCESS_CompareString)"

text \<open>
  The keys of one instance from the i-th on: they match as long as every comparison holds; a key that
  the role may not read matches nothing.
\<close>

fun keys_match :: "long_doubles \<Rightarrow> search_param \<Rightarrow> nat \<Rightarrow> expr_vector \<Rightarrow> (usp_err + bool) option" where
  "keys_match ld sp i [] = Some (Inr True)"
| "keys_match ld sp i (ec # keys) =
    (let ggv_index = sp_indexes sp ! i
     in if ggv_index = INVALID then Some (Inr False)
        else let gge = sp_ggv sp ! nat ggv_index
        in case gg_err gge of
             Some e \<Rightarrow> Some (Inl e)
           | None \<Rightarrow>
            (case gg_value gge of
               None \<Rightarrow> None
             | Some v \<Rightarrow>
              (case compare_cb ld (sp_types sp ! nat ggv_index) v (ec_op ec) (ec_value ec) of
                 None \<Rightarrow> None
               | Some (Inl e) \<Rightarrow> Some (Inl e)
               | Some (Inr holds) \<Rightarrow> if holds then keys_match ld sp (Suc i) keys else Some (Inr False))))"

definition DoUniqueKeysMatch :: "long_doubles \<Rightarrow> nat \<Rightarrow> search_param \<Rightarrow> (usp_err + bool) option" where
  "DoUniqueKeysMatch ld index sp = keys_match ld sp (index * length (sp_keys sp)) (sp_keys sp)"

text \<open>A call that resolves the rest of a path below what has been resolved.\<close>

type_synonym expand_call = "agent \<Rightarrow> cstr \<Rightarrow> cstr \<Rightarrow> resolved_paths \<Rightarrow> resolved_paths ag_result"

fun expand_matches :: "expand_call \<Rightarrow> long_doubles \<Rightarrow> cstr \<Rightarrow> cstr \<Rightarrow> search_param \<Rightarrow> search_param \<Rightarrow> nat \<Rightarrow> int_vector \<Rightarrow>
    agent \<Rightarrow> resolved_paths \<Rightarrow> resolved_paths ag_result" where
  "expand_matches expand ld resolved unresolved sp ref_sp i [] ag found = ag_ok ag found"
| "expand_matches expand ld resolved unresolved sp ref_sp i (n # ns) ag found =
    ag_bind (map_option (\<lambda>r. (ag, r)) (DoUniqueKeysMatch ld i sp)) (\<lambda>ag1 is_match.
    ag_bind (map_option (\<lambda>r. (ag1, r)) (DoUniqueKeysMatch ld i ref_sp)) (\<lambda>ag2 is_ref_match.
      if is_match \<and> is_ref_match then
        ag_bind (expand ag2 (fst (USP_SNPRINTF MAX_DM_PATH (resolved @ show_int n))) unresolved found) (\<lambda>ag3 found1.
          expand_matches expand ld resolved unresolved sp ref_sp (Suc i) ns ag3 found1)
      else expand_matches expand ld resolved unresolved sp ref_sp (Suc i) ns ag2 found))"

definition search_ops :: "expr_op list" where
  "search_ops = [kExprOp_Equal, kExprOp_NotEqual, kExprOp_LessThanOrEqual, kExprOp_GreaterThanOrEqual,
     kExprOp_LessThan, kExprOp_GreaterThan]"

definition ResolveUniqueKey :: "expand_call \<Rightarrow> nat \<Rightarrow> resolver_env \<Rightarrow> resolver_state \<Rightarrow> expand_call" where
  "ResolveUniqueKey expand fuel env rs ag resolved unresolved found =
    (case split_at_needle '']'' unresolved of
       None \<Rightarrow> ag_err ag USP_ERR_INVALID_PATH_SYNTAX
     | Some (temp, after) \<Rightarrow>
        let h = re_hooks env in
        ag_bind (DATA_MODEL_GetInstances h ag resolved) (\<lambda>ag1 insts.
          if insts = [] then ag_ok ag1 found
          else if MAX_DM_PATH - 1 < length temp then ag_err ag1 USP_ERR_INVALID_PATH_SYNTAX
          else case EXPR_VECTOR_SplitExpressions temp ''&&'' search_ops False of
            (_, Inl e) \<Rightarrow> ag_err ag1 e
          | (keys, Inr _) \<Rightarrow>
             if keys = [] then ag_err ag1 USP_ERR_INVALID_PATH_SYNTAX
             else case SplitReferenceKeysFromkeys keys EXPR_VECTOR_Init EXPR_VECTOR_Init of
               Inl e \<Rightarrow> ag_err ag1 e
             | Inr (plain_keys, ref_keys) \<Rightarrow>
                ag_bind (ExpandsNonReferencedKeys h rs ag1 resolved insts (InitSearchParam\<lparr>sp_keys := plain_keys\<rparr>)) (\<lambda>ag2 sp.
                ag_bind (ResolveReferencedKeys fuel h rs ag2 resolved insts (InitSearchParam\<lparr>sp_keys := ref_keys\<rparr>)) (\<lambda>ag3 ref_sp.
                  case GROUP_GET_VECTOR_GetValues h ag3 (sp_ggv sp) of
                    None \<Rightarrow> None
                  | Some (ag4, ggv) \<Rightarrow>
                     (case GROUP_GET_VECTOR_GetValues h ag4 (sp_ggv ref_sp) of
                        None \<Rightarrow> None
                      | Some (ag5, ref_ggv) \<Rightarrow>
                         expand_matches expand (re_numbers env) resolved after (sp\<lparr>sp_ggv := ggv\<rparr>) (ref_sp\<lparr>sp_ggv := ref_ggv\<rparr>)
                           0 insts ag5 found)))))"

section \<open>Expanding a path\<close>

fun expand_instances :: "expand_call \<Rightarrow> cstr \<Rightarrow> cstr \<Rightarrow> int_vector \<Rightarrow> agent \<Rightarrow> resolved_paths \<Rightarrow> resolved_paths ag_result" where
  "expand_instances expand resolved unresolved [] ag found = ag_ok ag found"
| "expand_instances expand resolved unresolved (n # ns) ag found =
    ag_bind (expand ag (resolved @ fst (USP_SNPRINTF (MAX_DM_PATH - length resolved) (show_int n))) unresolved found) (\<lambda>ag1 found1.
      expand_instances expand resolved unresolved ns ag1 found1)"

definition ExpandWildcard :: "expand_call \<Rightarrow> resolver_env \<Rightarrow> expand_call" where
  "ExpandWildcard expand env ag resolved unresolved found =
    ag_bind (DATA_MODEL_GetInstances (re_hooks env) ag resolved) (\<lambda>ag1 iv.
      if iv = [] then ag_ok ag1 found
      else if MAX_DM_PATH - length resolved < 2 then ag_err ag1 USP_ERR_INTERNAL_ERROR
      else expand_instances expand resolved unresolved iv ag1 found)"

text \<open>A path from its start: the checks, and the expansion into a buffer of its own.\<close>

definition PATH_RESOLVER_ResolvePath_with :: "(resolver_state \<Rightarrow> expand_call) \<Rightarrow> resolver_state \<Rightarrow> agent \<Rightarrow> cstr \<Rightarrow> resolved_paths
    \<Rightarrow> resolved_paths ag_result" where
  "PATH_RESOLVER_ResolvePath_with expand rs ag path found =
    (if snd found \<noteq> None \<and> rs_op rs \<notin> {kResolveOp_Get, kResolveOp_Set, kResolveOp_SubsValChange, kResolveOp_GetBulkData} then None
     else if split_at_needle ''..'' path \<noteq> None then ag_err ag USP_ERR_INVALID_PATH_SYNTAX
     else expand rs ag [] (USP_STRNCPY path MAX_DM_PATH) found)"

text \<open>The object a reference leads to: \<open>None\<close> inside when there is none and that is forgiven.\<close>

definition reference_chars :: "cstr" where "reference_chars = ''[+#*]''"

definition follow_search :: "(resolver_state \<Rightarrow> expand_call) \<Rightarrow> resolver_state \<Rightarrow> agent \<Rightarrow> cstr \<Rightarrow> cstr option ag_result" where
  "follow_search expand rs ag dereferenced =
    (if \<exists>c\<in>set dereferenced. c \<in> set reference_chars then
       ag_bind (PATH_RESOLVER_ResolvePath_with expand
           \<lparr>rs_op = (if IS_FORGIVING (rs_op rs) then kResolveOp_ForgivingRef else kResolveOp_StrictRef),
            rs_depth = FULL_DEPTH, rs_role = rs_role rs, rs_flags = 0\<rparr> ag dereferenced (Some [], None)) (\<lambda>ag1 (sv, _).
         case sv of
           Some (p # _) \<Rightarrow> ag_ok ag1 (Some (USP_STRNCPY p MAX_DM_PATH))
         | _ \<Rightarrow> if IS_STRICT (rs_op rs) then ag_err ag1 USP_ERR_OBJECT_DOES_NOT_EXIST else ag_ok ag1 None)
     else ag_ok ag (Some dereferenced))"

definition ResolveReferenceFollow :: "(resolver_state \<Rightarrow> expand_call) \<Rightarrow> resolver_env \<Rightarrow> resolver_state \<Rightarrow> expand_call" where
  "ResolveReferenceFollow expand env rs ag resolved unresolved found =
    (let h = re_hooks env in
     if rs_op rs = kResolveOp_GetBulkData then ag_err ag USP_ERR_INVALID_PATH_SYNTAX
     else case DATA_MODEL_GetPermissions ag resolved (rs_role rs) of
       (_, Inl e) \<Rightarrow> ag_err ag e
     | (permission_bitmask, Inr _) \<Rightarrow>
        if permission_bitmask AND PERMIT_GET = 0 then
          (if IS_FORGIVING (rs_op rs) then ag_ok ag found else ag_err ag USP_ERR_PERMISSION_DENIED)
        else ag_bind (DATA_MODEL_GetParameterValue h ag resolved MAX_DM_PATH 0) (\<lambda>ag1 val.
          if val = [] then
            (if IS_STRICT (rs_op rs) then ag_err ag1 USP_ERR_OBJECT_DOES_NOT_EXIST else ag_ok ag1 found)
          else ag_bind (follow_search expand rs ag1 (takeWhile (\<lambda>c. c \<noteq> CHR '','') val)) (\<lambda>ag2 target.
            case target of
              None \<Rightarrow> ag_ok ag2 found
            | Some dereferenced \<Rightarrow>
               (case DATA_MODEL_GetPathProperties h ag2 dereferenced None of
                  None \<Rightarrow> None
                | Some (ag3, pp) \<Rightarrow>
                   if pp_flags pp AND PP_IS_OBJECT = 0 \<or> pp_flags pp AND PP_IS_OBJECT_INSTANCE = 0
                   then ag_err ag3 USP_ERR_INVALID_PATH_SYNTAX
                   else if pp_flags pp AND PP_INSTANCE_NUMBERS_EXIST = 0 then
                     (if IS_STRICT (rs_op rs) then ag_err ag3 USP_ERR_OBJECT_DOES_NOT_EXIST else ag_ok ag3 found)
                   else expand rs ag3 dereferenced unresolved found))))"

text \<open>The scan for the next part that has to be expanded.\<close>

datatype scanned_path = Scan_End cstr | Scan_Special cstr char cstr | Scan_Full

fun scan_path :: "cstr \<Rightarrow> cstr \<Rightarrow> scanned_path" where
  "scan_path resolved [] = Scan_End resolved"
| "scan_path resolved (c # unresolved) =
    (if c \<in> {CHR ''*'', CHR ''+'', CHR ''[''} then Scan_Special resolved c unresolved
     else if MAX_DM_PATH - 1 \<le> length resolved then Scan_Full
     else scan_path (resolved @ [c]) unresolved)"

text \<open>The end of the path. \<open>None\<close>: an operation or an event as a partial path, or an empty path.\<close>

definition path_complete :: "hooks \<Rightarrow> resolver_state \<Rightarrow> agent \<Rightarrow> cstr \<Rightarrow> resolved_paths \<Rightarrow> resolved_paths ag_result" where
  "path_complete h rs ag resolved found =
    (if resolved = [] then None
     else if last resolved \<noteq> CHR ''.'' then AddPathFound h rs ag resolved found
     else if rs_op rs \<in> {kResolveOp_Get, kResolveOp_SubsValChange, kResolveOp_GetBulkData, kResolveOp_SubsOper, kResolveOp_SubsEvent}
     then ResolvePartialPath h rs ag (butlast resolved) found
     else if rs_op rs \<in> {kResolveOp_Oper, kResolveOp_Event} then None
     else ag_bind (AddPathFound h rs ag (butlast resolved) found) (\<lambda>ag1 found1.
       if rs_op rs \<in> {kResolveOp_SubsAdd, kResolveOp_SubsDel} then
         map_option (\<lambda>ag2. (ag2, Inr found1)) (RefreshInstances_LifecycleSubscriptionEndingInPartialPath h ag1 (butlast resolved))
       else ag_ok ag1 found1))"

text \<open>
  The recursion of ExpandPath through the three kinds of expansion, with the nesting of calls as
  fuel: the C code has the stack for it.
\<close>

fun ExpandPath :: "nat \<Rightarrow> resolver_env \<Rightarrow> resolver_state \<Rightarrow> expand_call" where
  "ExpandPath 0 env rs ag resolved unresolved found = None"
| "ExpandPath (Suc fuel) env rs ag resolved unresolved found =
    (if MAX_DM_PATH - 1 \<le> length resolved then ag_err ag USP_ERR_INTERNAL_ERROR
     else case scan_path resolved unresolved of
       Scan_Full \<Rightarrow> ag_err ag USP_ERR_INTERNAL_ERROR
     | Scan_Special resolved1 c rest \<Rightarrow>
         if c = CHR ''*'' then ExpandWildcard (ExpandPath fuel env rs) env ag resolved1 rest found
         else if c = CHR ''+'' then ResolveReferenceFollow (ExpandPath fuel env) env rs ag resolved1 rest found
         else ResolveUniqueKey (ExpandPath fuel env rs) fuel env rs ag resolved1 rest found
     | Scan_End resolved1 \<Rightarrow> path_complete (re_hooks env) rs ag resolved1 found)"

definition PATH_RESOLVER_ResolvePath :: "nat \<Rightarrow> resolver_env \<Rightarrow> resolver_state \<Rightarrow> agent \<Rightarrow> cstr \<Rightarrow> resolved_paths \<Rightarrow> resolved_paths ag_result" where
  "PATH_RESOLVER_ResolvePath fuel env rs ag path found = PATH_RESOLVER_ResolvePath_with (ExpandPath fuel env) rs ag path found"

definition PATH_RESOLVER_ResolveDevicePath :: "nat \<Rightarrow> resolver_env \<Rightarrow> resolver_state \<Rightarrow> agent \<Rightarrow> cstr \<Rightarrow> resolved_paths \<Rightarrow> resolved_paths ag_result" where
  "PATH_RESOLVER_ResolveDevicePath fuel env rs ag path found =
    (if \<not> prefix ''Device.'' path then ag_err ag USP_ERR_INVALID_PATH
     else if last path = CHR ''.'' \<and> rs_op rs \<in> {kResolveOp_Oper, kResolveOp_Event} then ag_err ag USP_ERR_INVALID_PATH_SYNTAX
     else if last path \<noteq> CHR ''.'' \<and> rs_op rs \<in> {kResolveOp_Add, kResolveOp_Del, kResolveOp_Instances}
     then ag_err ag USP_ERR_INVALID_PATH_SYNTAX
     else PATH_RESOLVER_ResolvePath fuel env rs ag path found)"

definition CountPathSeparator :: "cstr \<Rightarrow> int" where
  "CountPathSeparator path = int (length (filter (\<lambda>c. c = CHR ''.'') path))"

end
