(* ===== verification/Dm_Objects.thy ===== *)
theory Dm_Objects
  imports Dm_Ops
begin

text \<open>
  What adding and deleting object instances does to the instance vectors, the database and the
  current transaction: lemmas and properties of \<open>DATA_MODEL_AddInstance\<close> and
  \<open>DATA_MODEL_DeleteInstance\<close>, alone and together with an abort of the transaction.
\<close>

section \<open>Adding\<close>

definition add_op :: "cstr \<Rightarrow> node_ptr \<Rightarrow> dm_instances \<Rightarrow> dm_trans" where
  "add_op path node inst = \<lparr>op = kDMOp_Add, tr_path = path, tr_value = None, tr_val_union = zero_val, tr_node = node,
    tr_inst = \<lparr>req_order = order inst, req_instances = instances inst\<rparr>\<rparr>"

lemma complete_add_result:
  assumes "complete_add h ag node path inst n = Some (ag', Inr m)"
  obtains st dts d where "m = n" "DM_INST_VECTOR_Add (dm ag) (new_instance node n inst) = Some st" "dm ag' = st"
    "AddChildParamsDefaultValues MAX_TREE_DEPTH h st (new_instance node n inst) (db ag)
      (append_path path (''.'' @ show_int n)) node = Some (d, USP_OK)" "db ag' = d"
    "cur_transaction ag = Some dts"
    "cur_transaction ag' = Some (dts @ [add_op (append_path path (''.'' @ show_int n)) node (new_instance node n inst)])"
proof -
  let ?i = "new_instance node n inst" and ?p = "append_path path (''.'' @ show_int n)"
  define rest where "rest ag1 = (case AddChildParamsDefaultValues MAX_TREE_DEPTH h (dm ag1) ?i (db ag1) ?p node of
      None \<Rightarrow> None
    | Some (d, Inl err) \<Rightarrow> ag_bind (on_vectors (ag1\<lparr>db := d\<rparr>) (DM_INST_VECTOR_Remove (dm ag1) ?i)) (\<lambda>ag2 _. ag_err ag2 err)
    | Some (d, Inr _) \<Rightarrow> if MAX_DM_PATH \<le> length path + length (''.'' @ show_int n) then None
        else ag_bind (on_trans (DM_TRANS_Add (ag1\<lparr>db := d\<rparr>) kDMOp_Add ?p None node ?i)) (\<lambda>ag2 _. ag_ok ag2 n))" for ag1
  have "ag_bind (on_vectors ag (DM_INST_VECTOR_Add (dm ag) ?i)) (\<lambda>ag1 _. rest ag1) = Some (ag', Inr m)"
    using assms unfolding complete_add_def Let_def rest_def .
  then obtain ag1 where 1: "on_vectors ag (DM_INST_VECTOR_Add (dm ag) ?i) = Some (ag1, USP_OK)" "rest ag1 = Some (ag', Inr m)"
    by (auto simp: ag_bind_Inr_iff)
  then obtain st where st: "DM_INST_VECTOR_Add (dm ag) ?i = Some st" "ag1 = ag\<lparr>dm := st\<rparr>"
    by (auto simp: on_vectors_def)
  obtain d r where d: "AddChildParamsDefaultValues MAX_TREE_DEPTH h (dm ag1) ?i (db ag1) ?p node = Some (d, r)"
    using 1(2) by (auto simp: rest_def split: option.splits)
  have r: "r = USP_OK" using 1(2) unfolding rest_def d by (cases r) (auto simp: ag_bind_Inr_iff)
  have "m = n" and t: "DM_TRANS_Add (ag1\<lparr>db := d\<rparr>) kDMOp_Add ?p None node ?i = Some ag'"
    using 1(2) r unfolding rest_def d by (auto simp: ag_bind_Inr_iff on_trans_def split: if_splits)
  have "db ag' = d" "dm ag' = st" using DM_TRANS_Add_result [OF t] st(2) by auto
  moreover obtain dts where "cur_transaction ag = Some dts" "cur_transaction ag' = Some (dts @ [add_op ?p node ?i])"
    using DM_TRANS_Add_result [OF t] st(2) by (auto simp: add_op_def)
  ultimately show ?thesis using that [OF \<open>m = n\<close> st(1)] d st(2) r by auto
qed

lemma new_instance_table: "new_instance node n inst = table_entry (with_table node inst) n"
  by (simp add: new_instance_def table_entry_def with_table_def)

text \<open>
  An add of the kind a controller asks for: the number is chosen by the agent, in a vector that is
  settled and well-formed.
\<close>

definition add_ready :: "agent \<Rightarrow> cstr \<Rightarrow> node_ptr \<Rightarrow> dm_instances \<Rightarrow> node_ptr \<Rightarrow> bool" where
  "add_ready ag path node inst tn \<longleftrightarrow>
    DM_PRIV_GetNodeFromPath (dm ag) (if last path = CHR ''.'' then butlast path else path) True True = Some (node, inst, False) \<and>
    group_id (object_info (heap (dm ag) node)) = NON_GROUPED \<and> tn = inodes (with_table node inst) ! 0 \<and>
    settled (dm ag) tn \<and> vector_ok tn (div_of (dm ag) tn) \<and> inst_ok inst \<and> inodes inst ! order inst = NULL"

lemma AddInstance_result:
  assumes add: "DATA_MODEL_AddInstance h ag path True flags = Some (ag', Inr (Some n))" and ready: "add_ready ag path node inst tn"
  obtains path' d dts where
    "0 < n" "\<not> IsExistInInstVector (new_instance node n inst) (div_of (dm ag) tn)"
    "order inst < MAX_DM_INSTANCE_ORDER" "top_node_of (dm ag) (new_instance node n inst) = Some tn"
    "0 < order inst \<Longrightarrow> IsExistInInstVector inst (div_of (dm ag) tn)"
    "dm ag' = set_div tn (div_of (dm ag) tn @ [new_instance node n inst]) (dm ag)"
    "AddChildParamsDefaultValues MAX_TREE_DEPTH h (dm ag') (new_instance node n inst) (db ag) path' node = Some (d, USP_OK)"
    "db ag' = d" "cur_transaction ag = Some dts" "cur_transaction ag' = Some (dts @ [add_op path' node (new_instance node n inst)])"
proof -
  let ?p = "if last path = CHR ''.'' then butlast path else path" and ?i = "with_table node inst"
  have r: "DM_PRIV_GetNodeFromPath (dm ag) ?p True True = Some (node, inst, False)"
    "group_id (object_info (heap (dm ag) node)) = NON_GROUPED" "tn = inodes ?i ! 0" "settled (dm ag) tn"
    "vector_ok tn (div_of (dm ag) tn)" "inst_ok inst" "inodes inst ! order inst = NULL"
    using ready unfolding add_ready_def by blast+
  have ne: "path \<noteq> []" "length path < MAX_DM_PATH" using add
    by (auto simp: DATA_MODEL_AddInstance_def split: if_splits)
  obtain n0 inst1 where nx: "DM_INST_VECTOR_GetNextInstance (dm ag) node inst = Some (n0, inst1)"
    using add ne r(1,2) by (auto simp: DATA_MODEL_AddInstance_def Let_def new_instance_number_def ag_bind_Inr_iff split: if_splits option.splits)
  have fr: "0 < n0" "inst1 = inst" "\<not> IsExistInInstVector (new_instance node n0 inst) (div_of (dm ag) tn)"
    using next_instance_fresh [OF nx r(6,7)] r(3,5) by (auto simp: new_instance_table)
  have k: "order inst < MAX_DM_INSTANCE_ORDER" using GetNextInstance_result [OF nx] by blast
  have top: "top_node_of (dm ag) ?i = Some tn" using nx r(3)
    by (auto simp: DM_INST_VECTOR_GetNextInstance_def top_node_of_def Let_def split: if_splits option.splits)
  have top_new: "top_node_of (dm ag) (new_instance node n0 inst) = Some tn"
    using top by (simp add: top_node_of_def new_instance_def with_table_def)
  have ex: "must_exist h USP_ERR_OBJECT_DOES_NOT_EXIST ag inst =
      (if 0 < order inst \<and> \<not> IsExistInInstVector inst (div_of (dm ag) tn) then ag_err ag USP_ERR_OBJECT_DOES_NOT_EXIST else ag_ok ag ())"
  proof (cases "0 < order inst")
    case True
    then have "top_node_of (dm ag) inst = Some tn" using top by (simp add: top_node_of_def with_table_def)
    from must_exist_settled [OF this r(4) True] True show ?thesis by simp
  next
    case False
    then show ?thesis by (simp add: must_exist_def dm_exists_def on_dm_def DM_INST_VECTOR_IsExist_def)
  qed
  obtain ag3 where c: "complete_add h ag node ?p inst n0 = Some (ag3, Inr n)" "ag' = ag3"
    and pe: "0 < order inst \<Longrightarrow> IsExistInInstVector inst (div_of (dm ag) tn)"
    using add ne r(1,2) fr(2)
    by (auto simp: DATA_MODEL_AddInstance_def Let_def new_instance_number_def nx ag_bind_Inr_iff ex add_by_hooks_def usp_split
        split: if_splits sum.splits)
  show ?thesis
  proof (rule complete_add_result [OF c(1)])
    fix st dts d
    assume h: "n = n0" "DM_INST_VECTOR_Add (dm ag) (new_instance node n0 inst) = Some st" "dm ag3 = st"
      "AddChildParamsDefaultValues MAX_TREE_DEPTH h st (new_instance node n0 inst) (db ag)
        (append_path ?p (''.'' @ show_int n0)) node = Some (d, USP_OK)" "db ag3 = d" "cur_transaction ag = Some dts"
      "cur_transaction ag3 = Some (dts @ [add_op (append_path ?p (''.'' @ show_int n0)) node (new_instance node n0 inst)])"
    have "new_instance node n0 inst \<notin> set (div_of (dm ag) tn)" using fr(3) by (auto simp: IsExist_below)
    then have "st = set_div tn (div_of (dm ag) tn @ [new_instance node n0 inst]) (dm ag)"
      using Add_result [OF _ top_new] h(2) by (simp add: new_instance_def)
    then show ?thesis using that [of "append_path ?p (''.'' @ show_int n0)" d dts] fr k top_new pe h c(2) by auto
  qed
qed

section \<open>An example\<close>

text \<open>A table with the instance 7, refreshed in this lock period, in a transaction.\<close>

definition table_node_ex :: dm_node where
  "table_node_ex = demo_node\<lparr>node_order := 1, instance_nodes := [3, 0, 0, 0, 0, 0],
    object_info := (object_info demo_node)\<lparr>group_id := NON_GROUPED, lock_period := 1\<rparr>\<rparr>"

definition table_agent :: agent where
  "table_agent = demo_agent\<lparr>dm := demo_state\<lparr>heap := (\<lambda>_. table_node_ex)\<rparr>, cur_transaction := Some []\<rparr>"

lemma table_agent_facts:
  "heap (dm table_agent) p = table_node_ex" "cur_transaction table_agent = Some []"
  "div_of (dm table_agent) p = [\<lparr>order = 1, instances = [7, 0, 0, 0, 0, 0], inodes = [3, 0, 0, 0, 0, 0]\<rparr>]"
  "top_node_of (dm table_agent) (with_table 3 zero_instances) = Some 3"
  by (simp_all add: table_agent_def table_node_ex_def demo_state_def demo_node_def div_of_def top_node_of_def with_table_def
      zero_instances_def)

lemma table_agent_ready: "add_ready table_agent ''Device.A.'' 3 zero_instances 3"
proof -
  have c: "DM_PRIV_CalcHashFromPath True ''Device.A'' = Inr (TEXT_UTILS_CalcHash ''Device.A'', zero_instances)"
    "add_separator (ADD_TO_HASH CHR ''.'' (TEXT_UTILS_CalcHash ''Device.A'')) = TEXT_UTILS_CalcHash ''Device.A.{i}''"
    "TEXT_UTILS_CalcHash ''Device.A.{i}'' \<noteq> TEXT_UTILS_CalcHash ''Device.A''"
    by code_simp+
  have "FindNodeFromHash (dm table_agent) k = (if k = TEXT_UTILS_CalcHash ''Device.A.{i}'' then 3 else NULL)" for k
    by (simp add: FindNodeFromHash_def table_agent_def demo_state_def table_node_ex_def demo_node_def)
  then have "DM_PRIV_GetNodeFromPath (dm table_agent) ''Device.A'' True True = Some (3, zero_instances, False)"
    using c(3) by (simp add: DM_PRIV_GetNodeFromPath_def c(1,2) Let_def table_agent_facts(1))
      (simp add: zero_instances_def table_node_ex_def demo_node_def)
  moreover have "settled (dm table_agent) 3" "inodes zero_instances ! order zero_instances = NULL"
    "group_id (object_info (heap (dm table_agent) 3)) = NON_GROUPED"
    by (simp_all add: settled_def table_agent_def demo_state_def table_node_ex_def zero_instances_def)
  moreover have "vector_ok 3 (div_of (dm table_agent) 3)"
    by (simp add: table_agent_facts(3) vector_ok_def inst_ok_def MAX_DM_INSTANCE_ORDER_def)
  ultimately show ?thesis using demo_vector(2,3) by (simp add: add_ready_def)
qed

lemma table_agent_add: "\<exists>ag'. DATA_MODEL_AddInstance demo_hooks table_agent ''Device.A.'' True 0 = Some (ag', Inr (Some 8))"
proof -
  have g: "DM_PRIV_GetNodeFromPath (dm table_agent) ''Device.A'' True True = Some (3, zero_instances, False)"
    using table_agent_ready by (simp add: add_ready_def)
  have o: "node_type table_node_ex = kDMNodeType_Object_MultiInstance" "group_id (object_info table_node_ex) = NON_GROUPED"
    "add_cb (object_info table_node_ex) = False" "child_nodes table_node_ex = []"
    by (simp_all add: table_node_ex_def demo_node_def zero_object_info_def)
  have "\<exists>i. DM_INST_VECTOR_GetNextInstance (dm table_agent) 3 zero_instances = Some (8, i)"
    unfolding DM_INST_VECTOR_GetNextInstance_def Let_def table_agent_facts option.case
    by (simp add: replicate_6 zero_instances_def with_table_def MAX_DM_INSTANCE_ORDER_def in_table_def)
  then obtain i where "DM_INST_VECTOR_GetNextInstance (dm table_agent) 3 zero_instances = Some (8, i)" by blast
  moreover from this have "i = zero_instances"
    using next_instance_fresh [of "dm table_agent" 3 zero_instances 8 i] table_agent_ready by (auto simp: add_ready_def)
  ultimately have n: "DM_INST_VECTOR_GetNextInstance (dm table_agent) 3 zero_instances = Some (8, zero_instances)" by simp
  have e: "must_exist demo_hooks USP_ERR_OBJECT_DOES_NOT_EXIST table_agent zero_instances = ag_ok table_agent ()"
    by (simp add: must_exist_def dm_exists_def on_dm_def DM_INST_VECTOR_IsExist_def zero_instances_def)
  have z: "\<not> MAX_DM_INSTANCE_ORDER \<le> order zero_instances" by (simp add: zero_instances_def MAX_DM_INSTANCE_ORDER_def)
  have "top_node_of (dm table_agent) (new_instance 3 8 zero_instances) = Some 3"
    using table_agent_facts(4) by (simp add: new_instance_table top_node_of_def table_entry_def)
  moreover have "new_instance 3 8 zero_instances \<notin> set (div_of (dm table_agent) 3)"
    by (simp add: table_agent_facts new_instance_def zero_instances_def replicate_6)
  ultimately obtain st where s: "DM_INST_VECTOR_Add (dm table_agent) (new_instance 3 8 zero_instances) = Some st" "same_tree (dm table_agent) st"
    using Add_result [of "new_instance 3 8 zero_instances" "dm table_agent" 3] by (auto simp: new_instance_def)
  have ch: "child_nodes (heap st 3) = []" using same_tree_fields(6) [OF s(2), of 3] by (simp add: table_agent_facts o)
  have l: "length (show_int 8) = 1" by (simp add: show_int_def show_nat.simps)
  have md: "MAX_TREE_DEPTH = Suc 63" by (simp add: MAX_TREE_DEPTH_def MAX_PATH_SEGMENTS_def)
  have d: "AddChildParamsDefaultValues MAX_TREE_DEPTH demo_hooks st i d p 3 = Some (d, USP_OK)" for i d p
    by (simp only: md AddChildParamsDefaultValues.simps(2) ch add_child_params.simps(1))
  have c: "\<exists>ag'. complete_add demo_hooks table_agent 3 ''Device.A'' zero_instances 8 = Some (ag', Inr 8)"
    by (simp add: complete_add_def Let_def on_vectors_def s(1) d l MAX_DM_PATH_def on_trans_def DM_TRANS_Add_def
        table_agent_facts(2) ag_ok_def)
  then show ?thesis
    by (auto simp: DATA_MODEL_AddInstance_def MAX_DM_PATH_def g table_agent_facts(1) o new_instance_number_def n e
        add_by_hooks_def CHECK_CREATABLE_def z Let_def ag_ok_def)
qed

section \<open>Properties of adds\<close>





section \<open>Deleting\<close>

text \<open>What deleting does step by step: rows go, delete operations are recorded, the tree stays.\<close>

definition shrinks :: "agent \<Rightarrow> agent \<Rightarrow> bool" where
  "shrinks ag ag' \<longleftrightarrow> same_tree (dm ag) (dm ag') \<and> rows (db ag') \<subseteq>\<^sub>m rows (db ag) \<and>
    (\<exists>more. cur_transaction ag' = map_option (\<lambda>dts. dts @ more) (cur_transaction ag) \<and> (\<forall>dt\<in>set more. op dt = kDMOp_Del))"

lemma shrinks_refl [simp]: "shrinks ag ag"
  by (auto simp: shrinks_def same_tree_refl option.map_ident intro!: exI [of _ "[]"])

lemma shrinks_trans: "shrinks ag ag1 \<Longrightarrow> shrinks ag1 ag2 \<Longrightarrow> shrinks ag ag2"
  unfolding shrinks_def
proof (elim conjE exE, intro conjI)
  fix m1 m2
  assume "same_tree (dm ag) (dm ag1)" "same_tree (dm ag1) (dm ag2)" then show "same_tree (dm ag) (dm ag2)" by (rule same_tree_trans)
  assume "rows (db ag1) \<subseteq>\<^sub>m rows (db ag)" "rows (db ag2) \<subseteq>\<^sub>m rows (db ag1)"
  then show "rows (db ag2) \<subseteq>\<^sub>m rows (db ag)" using map_le_trans by blast
  assume "cur_transaction ag1 = map_option (\<lambda>dts. dts @ m1) (cur_transaction ag)" "\<forall>dt\<in>set m1. op dt = kDMOp_Del"
    "cur_transaction ag2 = map_option (\<lambda>dts. dts @ m2) (cur_transaction ag1)" "\<forall>dt\<in>set m2. op dt = kDMOp_Del"
  then show "\<exists>more. cur_transaction ag2 = map_option (\<lambda>dts. dts @ more) (cur_transaction ag) \<and> (\<forall>dt\<in>set more. op dt = kDMOp_Del)"
    by (intro exI [of _ "m1 @ m2"]) (auto simp: option.map_comp comp_def)
qed

lemma shrinks_trans3: "shrinks ag ag1 \<Longrightarrow> shrinks ag1 ag2 \<Longrightarrow> shrinks ag2 ag3 \<Longrightarrow> shrinks ag ag3"
  using shrinks_trans by blast

lemma shrinks_row: "shrinks ag ag' \<Longrightarrow> rows (db ag) k = None \<Longrightarrow> rows (db ag') k = None"
  using map_le_implies_dom_le [of "rows (db ag')" "rows (db ag)"] unfolding shrinks_def by (meson domIff subsetD)

lemma delete_child_param_result:
  assumes "delete_child_param ag inst child = Some (ag', USP_OK)"
  obtains key where "FormInstanceString inst MAX_DM_PATH = Some key" "shrinks ag ag'" "dm ag' = dm ag"
    "rows (db ag') (node_hash (heap (dm ag) child), key) = None"
proof -
  obtain key where k: "FormInstanceString inst MAX_DM_PATH = Some key"
    "on_db ag (Some (DATABASE_DeleteParameter (db ag) (node_hash (heap (dm ag) child)) key)) = Some (ag', USP_OK)"
    using assms by (auto simp: delete_child_param_def split: option.splits)
  then have e: "ag' = ag\<lparr>db := (db ag)\<lparr>rows := (rows (db ag))((node_hash (heap (dm ag) child), key) := None)\<rparr>\<rparr>"
    by (auto simp: on_db_def DATABASE_DeleteParameter_def split: if_splits)
  have "shrinks ag ag'"
    unfolding e by (auto simp: shrinks_def same_tree_refl map_le_def option.map_ident intro!: exI [of _ "[]"])
  with k(1) show ?thesis using that [OF k(1)] by (simp add: e)
qed

lemma on_vectors_Remove_shrinks:
  assumes "on_vectors ag (DM_INST_VECTOR_Remove (dm ag) inst) = Some (ag', USP_OK)"
  shows "shrinks ag ag'"
proof -
  obtain st where st: "DM_INST_VECTOR_Remove (dm ag) inst = Some st" "ag' = ag\<lparr>dm := st\<rparr>"
    using assms by (auto simp: on_vectors_def)
  have "same_tree (dm ag) st" using st(1)
    by (auto simp: DM_INST_VECTOR_Remove_def same_tree_refl split: if_splits option.splits)
  then show ?thesis by (auto simp: shrinks_def st(2) option.map_ident intro!: exI [of _ "[]"])
qed

lemma on_trans_Del_shrinks:
  assumes "on_trans (DM_TRANS_Add ag kDMOp_Del path v node inst) = Some (ag', USP_OK)"
  shows "shrinks ag ag'"
proof -
  have t: "DM_TRANS_Add ag kDMOp_Del path v node inst = Some ag'" using assms by (auto simp: on_trans_def)
  note r = DM_TRANS_Add_result [OF t, of 0]
  have "same_tree (dm ag) (dm ag')" using r same_tree_heap [OF _ _ same_tree_refl] by blast
  moreover have "rows (db ag') = rows (db ag)" using r by simp
  moreover obtain dts new where "cur_transaction ag = Some dts" "cur_transaction ag' = Some (dts @ [new])" "op new = kDMOp_Del"
    using r by auto
  ultimately show ?thesis by (auto simp: shrinks_def intro!: exI [of _ "[new]"])
qed

text \<open>An instance structure with nothing in the slots it does not use.\<close>

definition clean :: "dm_instances \<Rightarrow> bool" where
  "clean inst \<longleftrightarrow> inst_ok inst \<and> (\<forall>k. order inst \<le> k \<and> k < MAX_DM_INSTANCE_ORDER \<longrightarrow> inodes inst ! k = NULL \<and> instances inst ! k = 0)"

definition deletes :: "delete_call \<Rightarrow> bool" where
  "deletes f \<longleftrightarrow> (\<forall>ag path node inst ag' inst'. f ag path node inst = Some (ag', Inr inst') \<longrightarrow> clean inst \<longrightarrow>
    inst' = inst \<and> shrinks ag ag')"

lemma deletesD: "deletes f \<Longrightarrow> f ag path node inst = Some (ag', Inr inst') \<Longrightarrow> clean inst \<Longrightarrow> inst' = inst \<and> shrinks ag ag'"
  unfolding deletes_def by blast

lemma delete_children_result:
  assumes "deletes single" "deletes multi" "clean inst"
  shows "delete_children single multi ag path inst cs = Some (ag', Inr inst') \<Longrightarrow> inst' = inst \<and> shrinks ag ag' \<and>
    (\<forall>c\<in>set cs. is_db_type (node_type (heap (dm ag) c)) \<longrightarrow> (\<exists>key. FormInstanceString inst MAX_DM_PATH = Some key \<and>
      rows (db ag') (node_hash (heap (dm ag) c), key) = None))"
proof (induction cs arbitrary: ag)
  case (Cons c cs)
  let ?type = "node_type (heap (dm ag) c)" and ?p = "append_path path (''.'' @ node_name (heap (dm ag) c))"
  define act where "act = (if ?type \<in> {kDMNodeType_DBParam_ReadOnly, kDMNodeType_DBParam_ReadWrite,
        kDMNodeType_DBParam_ReadOnlyAuto, kDMNodeType_DBParam_ReadWriteAuto, kDMNodeType_DBParam_Secure}
      then ag_bind (delete_child_param ag inst c) (\<lambda>ag1 _. ag_ok ag1 inst)
      else if ?type = kDMNodeType_Object_SingleInstance then single ag ?p c inst
      else if ?type = kDMNodeType_Object_MultiInstance then multi ag ?p c inst
      else ag_ok ag inst)"
  obtain ag1 inst1 where a: "act = Some (ag1, Inr inst1)"
    and rest: "delete_children single multi ag1 path inst1 cs = Some (ag', Inr inst')"
    using Cons.prems unfolding delete_children.simps(2) Let_def act_def [symmetric] by (auto simp: ag_bind_Inr_iff)
  have s: "inst1 = inst \<and> shrinks ag ag1 \<and> (is_db_type ?type \<longrightarrow> (\<exists>key. FormInstanceString inst MAX_DM_PATH = Some key \<and>
      rows (db ag1) (node_hash (heap (dm ag) c), key) = None))"
  proof (cases "is_db_type ?type")
    case True
    then have "ag_bind (delete_child_param ag inst c) (\<lambda>ag1 _. ag_ok ag1 inst) = Some (ag1, Inr inst1)"
      using a by (auto simp: act_def is_db_type_def)
    then have "delete_child_param ag inst c = Some (ag1, USP_OK)" "inst1 = inst" by (auto simp: ag_bind_Inr_iff)
    then show ?thesis using delete_child_param_result by blast
  next
    case False
    then have "single ag ?p c inst = Some (ag1, Inr inst1) \<or> multi ag ?p c inst = Some (ag1, Inr inst1) \<or> ag_ok ag inst = Some (ag1, Inr inst1)"
      using a by (auto simp: act_def is_db_type_def split: if_splits)
    then show ?thesis using False assms deletesD by auto
  qed
  note ih = Cons.IH [OF rest [unfolded conjunct1 [OF s]]]
  have f: "node_type (heap (dm ag1) x) = node_type (heap (dm ag) x)" "node_hash (heap (dm ag1) x) = node_hash (heap (dm ag) x)" for x
    using s same_tree_fields [of "dm ag" "dm ag1"] by (simp_all add: shrinks_def)
  have "shrinks ag ag'" using ih s shrinks_trans by blast
  moreover have "\<exists>key. FormInstanceString inst MAX_DM_PATH = Some key \<and> rows (db ag') (node_hash (heap (dm ag) x), key) = None"
    if x: "x \<in> set (c # cs)" "is_db_type (node_type (heap (dm ag) x))" for x
  proof (cases "x = c")
    case True
    then show ?thesis using s x(2) ih shrinks_row by blast
  next
    case False
    then show ?thesis using ih x unfolding f by simp
  qed
  ultimately show ?case using ih by blast
qed simp

lemma delete_instances_result:
  assumes "deletes single" "clean inst" "order inst = Suc k"
  shows "delete_instances single ag path node k inst iv = Some (ag', Inr inst') \<Longrightarrow>
    (\<exists>v. inst' = inst\<lparr>instances := (instances inst)[k := v]\<rparr>) \<and> shrinks ag ag'"
  using assms(2,3)
proof (induction iv arbitrary: ag inst)
  case Nil
  then have "inst' = inst\<lparr>instances := (instances inst)[k := instances inst ! k]\<rparr>" "ag' = ag" by simp_all
  then show ?case using shrinks_refl by blast
next
  case (Cons n iv)
  let ?i = "inst\<lparr>instances := (instances inst)[k := n]\<rparr>" and ?p = "append_path path (''.'' @ show_int n)"
  have ci: "clean ?i" using Cons.prems(2,3) by (auto simp: clean_def inst_ok_def)
  obtain ag1 inst2 ag2 ag3 where
    1: "single ag ?p node ?i = Some (ag1, Inr inst2)" and
    2: "on_vectors ag1 (DM_INST_VECTOR_Remove (dm ag1) inst2) = Some (ag2, USP_OK)" and
    3: "on_trans (DM_TRANS_Add ag2 kDMOp_Del ?p None node inst2) = Some (ag3, USP_OK)" and
    4: "delete_instances single ag3 path node k inst2 iv = Some (ag', Inr inst')"
    using Cons.prems(1) by (auto simp: Let_def ag_bind_Inr_iff split: if_splits)
  have i2: "inst2 = ?i" "shrinks ag ag1" using deletesD [OF assms(1) 1 ci] by auto
  have o: "order ?i = Suc k" using Cons.prems(3) by simp
  obtain v where v: "inst' = ?i\<lparr>instances := (instances ?i)[k := v]\<rparr>" "shrinks ag3 ag'"
    using Cons.IH [OF 4 [unfolded i2(1)] ci o] by blast
  have "shrinks ag ag3"
    by (rule shrinks_trans3 [OF i2(2) on_vectors_Remove_shrinks [OF 2] on_trans_Del_shrinks [OF 3]])
  then have "shrinks ag ag'" using v(2) shrinks_trans by blast
  then show ?case using v(1) by auto
qed

lemma GetInstances_result:
  assumes "DM_INST_VECTOR_GetInstances v st node inst = Some (st', r, iv, inst')"
  shows "inst' = undo_table (with_table node inst)" "order inst < MAX_DM_INSTANCE_ORDER" "same_tree st st'"
  using assms RefreshInstVector_same_tree
  by (auto simp: DM_INST_VECTOR_GetInstances_def Let_def split: if_splits option.splits sum.splits prod.splits)

lemma DeleteChildParams_deletes:
  "deletes (DeleteChildParams d h) \<and> deletes (DeleteChildParams_MultiInstanceObject d h)"
proof (induction d)
  case 0
  show ?case by (simp add: deletes_def)
next
  case (Suc d)
  have "deletes (DeleteChildParams (Suc d) h)"
    using Suc delete_children_result unfolding deletes_def DeleteChildParams.simps by blast
  moreover have "deletes (DeleteChildParams_MultiInstanceObject (Suc d) h)" unfolding deletes_def
  proof (intro allI impI)
    fix ag path node inst ag' inst'
    assume m: "DeleteChildParams_MultiInstanceObject (Suc d) h ag path node inst = Some (ag', Inr inst')" and c: "clean inst"
    let ?k = "order inst"
    obtain st iv inst1 where g: "DM_INST_VECTOR_GetInstances (instances_hook h) (dm ag) node inst = Some (st, USP_OK, iv, inst1)"
      using m by (auto split: option.splits sum.splits)
    note gi = GetInstances_result [OF g]
    have "(inodes inst)[?k := NULL] = inodes inst"
      using c gi(2) by (metis clean_def le_refl list_update_id)
    then have i1: "inst1 = inst" unfolding gi(1) by (simp add: undo_table_def with_table_def)
    let ?i = "inst\<lparr>inodes := (inodes inst)[?k := node], order := Suc ?k\<rparr>"
    obtain inst3 where d: "delete_instances (DeleteChildParams d h) (ag\<lparr>dm := st\<rparr>) path node ?k ?i iv = Some (ag', Inr inst3)"
      "inst' = inst3\<lparr>inodes := (inodes inst3)[?k := NULL], instances := (instances inst3)[?k := 0], order := ?k\<rparr>"
      using m gi(2) by (auto simp: g i1 Let_def ag_bind_Inr_iff)
    have "clean ?i" using c gi(2) by (auto simp: clean_def inst_ok_def)
    then obtain v where v: "inst3 = ?i\<lparr>instances := (instances ?i)[?k := v]\<rparr>" "shrinks (ag\<lparr>dm := st\<rparr>) ag'"
      using delete_instances_result [OF conjunct1 [OF Suc] _ _ d(1)] by auto
    have "(instances inst)[?k := 0] = instances inst"
      using c gi(2) by (metis clean_def le_refl list_update_id)
    then have "inst' = inst" using \<open>(inodes inst)[?k := NULL] = inodes inst\<close> by (simp add: d(2) v(1))
    moreover have "shrinks ag (ag\<lparr>dm := st\<rparr>)"
      using gi(3) by (auto simp: shrinks_def option.map_ident intro!: exI [of _ "[]"])
    ultimately show "inst' = inst \<and> shrinks ag ag'" using v(2) shrinks_trans by blast
  qed
  ultimately show ?case by blast
qed

lemma GetNodeFromPath_clean:
  assumes "DM_PRIV_GetNodeFromPath st path True hq = Some (n, inst, q)" "node_arrays_ok st"
  shows "clean inst"
proof -
  let ?ns = "path_instances path"
  have len: "length ?ns \<le> MAX_DM_INSTANCE_ORDER"
    using assms(1) by (auto simp: DM_PRIV_GetNodeFromPath_def CalcHashFromPath_eq split: if_splits)
  note z = push_instances_zero [OF this]
  have i: "order inst = length ?ns" "instances inst = ?ns @ replicate (6 - length ?ns) 0"
    "inodes inst = take (length ?ns) (instance_nodes (heap st n)) @ drop (length ?ns) (replicate 6 NULL)"
    using assms(1) len by (auto simp: DM_PRIV_GetNodeFromPath_def CalcHashFromPath_eq z Let_def split: if_splits)
  have "length (instance_nodes (heap st n)) = MAX_DM_INSTANCE_ORDER" using assms(2) by (simp add: node_arrays_ok_def)
  then show ?thesis using GetNodeFromPath_inst(1) [OF assms] len
    by (auto simp: clean_def i nth_append MAX_DM_INSTANCE_ORDER_def)
qed

lemma DeleteChildParams_rows:
  assumes "DeleteChildParams d h ag path node inst = Some (ag', Inr inst')" "clean inst"
    "c \<in> set (child_nodes (heap (dm ag) node))" "is_db_type (node_type (heap (dm ag) c))"
  shows "\<exists>key. FormInstanceString inst MAX_DM_PATH = Some key \<and> rows (db ag') (node_hash (heap (dm ag) c), key) = None"
proof (cases d)
  case (Suc d')
  from delete_children_result [OF conjunct1 [OF DeleteChildParams_deletes] conjunct2 [OF DeleteChildParams_deletes] assms(2)
      assms(1) [unfolded Suc DeleteChildParams.simps]] assms(3,4) show ?thesis by blast
qed (use assms in simp)

definition del_op :: "cstr \<Rightarrow> node_ptr \<Rightarrow> dm_instances \<Rightarrow> dm_trans" where
  "del_op path node inst = \<lparr>op = kDMOp_Del, tr_path = path, tr_value = None, tr_val_union = zero_val, tr_node = node,
    tr_inst = \<lparr>req_order = order inst, req_instances = instances inst\<rparr>\<rparr>"

section \<open>Properties of deletes\<close>


definition inst_7 :: dm_instances where
  "inst_7 = \<lparr>order = 1, instances = [7, 0, 0, 0, 0, 0], inodes = [3, 0, 0, 0, 0, 0]\<rparr>"

lemma table_agent_instance:
  "DM_PRIV_GetNodeFromPath (dm table_agent) ''Device.A.7'' True True =
    Some (3, inst_7, True)"
proof -
  have c: "DM_PRIV_CalcHashFromPath True ''Device.A.7'' = Inr (TEXT_UTILS_CalcHash ''Device.A.{i}'',
      \<lparr>order = 1, instances = [7, 0, 0, 0, 0, 0], inodes = [0, 0, 0, 0, 0, 0]\<rparr>)" by code_simp
  have "FindNodeFromHash (dm table_agent) (TEXT_UTILS_CalcHash ''Device.A.{i}'') = 3"
    by (simp add: FindNodeFromHash_def table_agent_def demo_state_def table_node_ex_def demo_node_def)
  then show ?thesis by (simp add: DM_PRIV_GetNodeFromPath_def c table_agent_facts(1))
    (simp add: table_node_ex_def demo_node_def inst_7_def)
qed

text \<open>The deletion of the instance in a transaction, whatever else has been done in it and with the database.\<close>

lemma table_exists:
  assumes "dm ag = dm table_agent"
  shows "dm_exists demo_hooks ag inst_7 = Some (ag, Inr True)"
proof -
  have "top_node_of (dm ag) inst_7 = Some 3"
    by (simp add: assms top_node_of_def table_agent_facts(1) inst_7_def) (simp add: table_node_ex_def demo_node_def)
  moreover have "settled (dm ag) 3" using assms table_agent_ready by (simp add: add_ready_def)
  ultimately show ?thesis
    using IsExist_in_settled [of "dm ag" inst_7 3 "instances_hook demo_hooks"] assms
    by (simp add: dm_exists_def on_dm_def table_agent_facts(3) IsExistInInstVector_def inst_7_def)
qed

lemma table_delete:
  assumes "dm ag = dm table_agent" "cur_transaction ag = Some dts"
  shows "\<exists>ag'. DATA_MODEL_DeleteInstance demo_hooks ag ''Device.A.7'' fl = Some (ag', USP_OK) \<and> db ag' = db ag \<and>
    same_tree (dm ag) (dm ag') \<and> cur_transaction ag' = Some (dts @ [del_op ''Device.A.7'' 3 inst_7])"
proof -
  have top: "top_node_of (dm ag) inst_7 = Some 3"
    by (simp add: assms(1) top_node_of_def table_agent_facts(1) inst_7_def) (simp add: table_node_ex_def demo_node_def)
  note e = table_exists [OF assms(1)]
  have o: "node_type table_node_ex = kDMNodeType_Object_MultiInstance"
    by (simp add: table_node_ex_def demo_node_def)
  have dh: "delete_by_hooks demo_hooks ag 3 ''Device.A.7'' inst_7 fl = USP_OK"
    by (simp add: delete_by_hooks_def assms(1) table_agent_facts(1)) (simp add: table_node_ex_def demo_node_def zero_object_info_def)
  obtain ag2 where a: "DM_TRANS_Add ag kDMOp_Del ''Device.A.7'' None 3 inst_7 = Some ag2"
    by (simp add: DM_TRANS_Add_def assms(2) Let_def)
  note r = DM_TRANS_Add_result [OF a, of 0]
  have md: "MAX_TREE_DEPTH = Suc 63" by (simp add: MAX_TREE_DEPTH_def MAX_PATH_SEGMENTS_def)
  have ch: "child_nodes (heap (dm ag2) 3) = []"
    using r by (simp add: assms(1) table_agent_facts(1)) (simp add: table_node_ex_def demo_node_def)
  have d: "DeleteChildParams MAX_TREE_DEPTH demo_hooks ag2 p 3 inst_7 = ag_ok ag2 inst_7" for p
    by (simp only: md DeleteChildParams.simps(2) ch delete_children.simps(1))
  have t2: "same_tree (dm ag) (dm ag2)" using r same_tree_heap [OF _ _ same_tree_refl] by blast
  have "top_node_of (dm ag2) inst_7 = Some 3" using top top_node_of_same_tree [OF t2] by simp
  then have rm: "DM_INST_VECTOR_Remove (dm ag2) inst_7 = Some (set_div 3 (filter (\<lambda>oi. \<not> below inst_7 oi) (div_of (dm ag2) 3)) (dm ag2))"
    using Remove_result [of inst_7 "dm ag2" 3] by (simp add: inst_7_def)
  have "db ag2 = db ag" "cur_transaction ag2 = Some (dts @ [del_op ''Device.A.7'' 3 inst_7])"
    using r by (simp_all add: assms(2) del_op_def)
  then show ?thesis using t2 same_tree_trans [OF t2 same_tree_set_div]
    by (simp add: DATA_MODEL_DeleteInstance_def assms(1) table_agent_instance e table_agent_facts(1) o dh a on_trans_def d ag_ok_def
        on_vectors_def rm)
qed


section \<open>Secure defaults\<close>

lemma xor_char_neq: "char_code k \<noteq> 0 \<Longrightarrow> xor_char c k \<noteq> c"
proof
  assume k: "char_code k \<noteq> 0" and e: "xor_char c k = c"
  have "xor_char (xor_char c k) k = c" by (rule xor_char_twice)
  have "char_code c < 2 ^ 8" "char_code k < 2 ^ 8" using char_code_less_256 [of c] char_code_less_256 [of k] by simp_all
  then have "char_code c XOR char_code k < 2 ^ 8"
    by (metis take_bit_nat_eq_self_iff take_bit_xor)
  then have "char_code (xor_char c k) = char_code c XOR char_code k" by (simp add: xor_char_def char_code_char_of)
  then have "char_code c XOR char_code k = char_code c" using e by simp
  then have "char_code c XOR (char_code c XOR char_code k) = char_code c XOR char_code c" by simp
  then have "char_code k = 0" by (simp add: xor.assoc [symmetric])
  with k show False ..
qed

text \<open>
  The default of a secure parameter is written without obfuscation when an instance is added,
  but read with it: where the default is not empty, the value read is not the default.
\<close>

theorem secure_default_unreadable:
  assumes "add_child_params rec h st path inst d [child] = Some (d', USP_OK)"
    "node_type (heap st child) = kDMNodeType_DBParam_Secure" "default_value (param_info (heap st child)) = Some v" "v \<noteq> []"
    "FormInstanceString inst MAX_DM_PATH = Some key" "sql d (Sql_Get (node_hash (heap st child), key))" "length v < len"
  shows "\<exists>w. DATABASE_GetParameterValue d' (node_hash (heap st child)) key len OBFUSCATED_VALUE = Inr w \<and> w \<noteq> v"
proof -
  have "DATABASE_SetParameterValue d (node_hash (heap st child)) key v 0 = Some (d', USP_OK)"
    using assms(1,2,3,5) by (auto simp: set_child_param_def Let_def split: option.splits prod.splits sum.splits)
  then have r: "DATABASE_GetParameterValue d' (node_hash (heap st child)) key len OBFUSCATED_VALUE = Inr (c_string (ObfuscatedCopy v))"
    using assms(6,7) by (auto simp: DATABASE_SetParameterValue_def DATABASE_GetParameterValue_def OBFUSCATED_VALUE_def split: if_splits)
  obtain c cs where v: "v = c # cs" using assms(4) by (cases v) auto
  have "xor_char c (CHR ''$'') \<noteq> c" by (rule xor_char_neq) (simp add: char_code_def)
  then have "c_string (ObfuscatedCopy v) \<noteq> v"
    by (auto simp: v ObfuscatedCopy_def PASSWORD_OBFUSCATION_KEY_def c_string_def)
  with r show ?thesis by blast
qed

theorem secure_default_unreadable_witness:
  "\<exists>d' w. add_child_params (\<lambda>_ _ _. None) demo_hooks
      (demo_state\<lparr>heap := (\<lambda>_. param_node\<lparr>param_info := zero_param_info\<lparr>default_value := Some ''admin''\<rparr>\<rparr>)\<rparr>)
      ''Device'' zero_instances (db demo_agent) [3] = Some (d', USP_OK) \<and>
    DATABASE_GetParameterValue d' (node_hash param_node) [] 64 OBFUSCATED_VALUE = Inr w \<and> w \<noteq> ''admin''"
proof -
  let ?st = "demo_state\<lparr>heap := (\<lambda>_. param_node\<lparr>param_info := zero_param_info\<lparr>default_value := Some ''admin''\<rparr>\<rparr>)\<rparr>"
  have n: "node_type (heap ?st 3) = kDMNodeType_DBParam_Secure" "default_value (param_info (heap ?st 3)) = Some ''admin''"
    "node_hash (heap ?st 3) = node_hash param_node" "sql (db demo_agent) s" for s
    by (simp_all add: param_node_def demo_agent_def)
  have k: "FormInstanceString zero_instances MAX_DM_PATH = Some []"
    by (simp add: FormInstanceString_def zero_instances_def c_string_def)
  have "\<exists>d'. DATABASE_SetParameterValue (db demo_agent) h [] ''admin'' 0 = Some (d', USP_OK)" for h
    by (simp add: DATABASE_SetParameterValue_def demo_agent_def)
  then obtain d' where "DATABASE_SetParameterValue (db demo_agent) (node_hash param_node) [] ''admin'' 0 = Some (d', USP_OK)" by blast
  then have a: "add_child_params (\<lambda>_ _ _. None) demo_hooks ?st ''Device'' zero_instances (db demo_agent) [3] = Some (d', USP_OK)"
    using n(1-3) k by (simp add: set_child_param_def)
  from secure_default_unreadable [OF a n(1,2) _ k n(4), of 64] a show ?thesis unfolding n(3) by auto
qed

end
