(* ===== verification/Agent_Steps.thy ===== *)
theory Agent_Steps
  imports Group_Get Dm_Objects
begin

text \<open>
  What the operations may change in the agent, whatever they return. A relation between the agent
  before and after that is reflexive and transitive carries over from the parts of an operation to
  the whole: this is the contract \<open>agent_steps\<close>, for the two relations the agent's components rest on.
  Reading refreshes instance vectors and nothing else. Writing keeps the tree, leaves the transaction
  as open or closed as it was, and changes the database by statements that a rollback undoes.
\<close>

named_theorems step_intros \<open>operations that make the steps of a relation\<close>

definition steps :: "(agent \<Rightarrow> agent \<Rightarrow> bool) \<Rightarrow> agent \<Rightarrow> (agent \<times> 'a) option \<Rightarrow> bool" where
  "steps R ag m \<longleftrightarrow> (\<forall>ag' r. m = Some (ag', r) \<longrightarrow> R ag ag')"

lemma stepsI: "(\<And>ag' r. m = Some (ag', r) \<Longrightarrow> R ag ag') \<Longrightarrow> steps R ag m"
  by (simp add: steps_def)

lemma stepsD: "steps R ag m \<Longrightarrow> m = Some (ag', r) \<Longrightarrow> R ag ag'"
  by (simp add: steps_def)

lemma steps_mono: "(\<And>a b. R a b \<Longrightarrow> S a b) \<Longrightarrow> steps R ag m \<Longrightarrow> steps S ag m"
  by (simp add: steps_def)

lemma steps_option:
  "(m = None \<Longrightarrow> steps R ag a) \<Longrightarrow> (\<And>x. m = Some x \<Longrightarrow> steps R ag (f x)) \<Longrightarrow> steps R ag (case m of None \<Rightarrow> a | Some x \<Rightarrow> f x)"
  by (cases m) simp_all

section \<open>Composition\<close>

locale agent_steps =
  fixes R :: "agent \<Rightarrow> agent \<Rightarrow> bool"
  assumes R_refl: "R ag ag"
    and R_trans: "R ag1 ag2 \<Longrightarrow> R ag2 ag3 \<Longrightarrow> R ag1 ag3"
begin

lemma steps_simple [step_intros]:
  "steps R ag None" "steps R ag (ag_ok ag x)" "steps R ag (ag_err ag e)" "steps R ag (Some (ag, x))"
  by (simp_all add: steps_def ag_ok_def ag_err_def R_refl)

lemma steps_from: "R ag ag1 \<Longrightarrow> steps R ag1 m \<Longrightarrow> steps R ag m"
  unfolding steps_def using R_trans by blast

text \<open>One call and then the rest: of the result, of the result that is no error, of the new state.\<close>

lemma steps_then:
  assumes "steps R ag m" "\<And>ag1 x. steps R ag1 (f ag1 x)"
  shows "steps R ag (case m of None \<Rightarrow> None | Some (ag1, x) \<Rightarrow> f ag1 x)"
proof (cases m)
  case (Some r)
  obtain ag1 x where r: "r = (ag1, x)" by (metis prod.exhaust)
  have "R ag ag1" using stepsD [OF assms(1)] Some r by simp
  from steps_from [OF this assms(2)] show ?thesis using Some r by simp
qed (simp add: steps_simple)

lemma steps_bind [step_intros]:
  assumes "steps R ag m" "\<And>ag1 x. steps R ag1 (f ag1 x)"
  shows "steps R ag (ag_bind m f)"
  unfolding ag_bind_def
proof (rule stepsI)
  fix ag' r
  assume "(case m of None \<Rightarrow> None | Some (ag, Inl err) \<Rightarrow> Some (ag, Inl err) | Some (ag, Inr x) \<Rightarrow> f ag x) = Some (ag', r)"
  then consider e where "m = Some (ag', Inl e)" | ag1 x where "m = Some (ag1, Inr x)" "f ag1 x = Some (ag', r)"
    by (auto split: option.splits prod.splits sum.splits)
  then show "R ag ag'"
  proof cases
    case 1
    then show ?thesis using stepsD [OF assms(1)] by blast
  next
    case 2
    then show ?thesis using stepsD [OF assms(1)] stepsD [OF assms(2)] R_trans by blast
  qed
qed

lemma steps_if [step_intros]:
  "(c \<Longrightarrow> steps R ag a) \<Longrightarrow> (\<not> c \<Longrightarrow> steps R ag b) \<Longrightarrow> steps R ag (if c then a else b)"
  by simp

lemma steps_prod [step_intros]:
  "(\<And>a b. x = (a, b) \<Longrightarrow> steps R ag (f a b)) \<Longrightarrow> steps R ag (case x of (a, b) \<Rightarrow> f a b)"
  by (cases x) simp

lemma steps_pair_map [step_intros]: "steps R ag (map_option (\<lambda>r. (ag, r)) x)"
  by (auto simp: steps_def R_refl)

lemma steps_map: "steps R ag m \<Longrightarrow> steps R ag (map_option (\<lambda>(ag1, x). (ag1, f x)) m)"
  by (auto simp: steps_def)

lemma steps_on_dm:
  assumes "\<And>st r. m = Some (st, r) \<Longrightarrow> R ag (ag\<lparr>dm := st\<rparr>)"
  shows "steps R ag (on_dm ag m)"
  using assms by (auto simp: steps_def on_dm_def)

end

section \<open>The two relations\<close>

definition reads_only :: "agent \<Rightarrow> agent \<Rightarrow> bool" where
  "reads_only ag ag' \<longleftrightarrow> same_tree (dm ag) (dm ag') \<and> db ag' = db ag \<and> cur_transaction ag' = cur_transaction ag"

definition writes_only :: "agent \<Rightarrow> agent \<Rightarrow> bool" where
  "writes_only ag ag' \<longleftrightarrow> same_tree (dm ag) (dm ag') \<and> db_write\<^sup>*\<^sup>* (db ag) (db ag') \<and>
    (cur_transaction ag' = None \<longleftrightarrow> cur_transaction ag = None)"

interpretation reads: agent_steps reads_only
  by unfold_locales (auto simp: reads_only_def same_tree_refl intro: same_tree_trans)

interpretation writes: agent_steps writes_only
  by unfold_locales (auto simp: writes_only_def same_tree_refl intro: same_tree_trans rtranclp_trans)

lemma reads_writes: "reads_only ag ag' \<Longrightarrow> writes_only ag ag'"
  by (simp add: reads_only_def writes_only_def)

lemma steps_reads_writes: "steps reads_only ag m \<Longrightarrow> steps writes_only ag m"
  by (rule steps_mono [OF reads_writes])

section \<open>Operations that read\<close>

lemma reads_on_dm:
  assumes "\<And>st r. m = Some (st, r) \<Longrightarrow> same_tree (dm ag) st"
  shows "steps reads_only ag (on_dm ag m)"
  using assms by (intro reads.steps_on_dm) (simp add: reads_only_def)

lemma IsExist_same_tree: "DM_INST_VECTOR_IsExist v st m = Some (st', r) \<Longrightarrow> same_tree st st'"
  by (auto simp: DM_INST_VECTOR_IsExist_def same_tree_refl RefreshInstVector_same_tree split: if_splits option.splits)

lemma GetNumInstances_same_tree: "DM_INST_VECTOR_GetNumInstances v st node inst = Some (st', r, i) \<Longrightarrow> same_tree st st'"
  using RefreshInstVector_same_tree
  by (auto simp: DM_INST_VECTOR_GetNumInstances_def Let_def split: if_splits option.splits sum.splits prod.splits)

lemma dm_exists_tree [step_intros]: "steps reads_only ag (dm_exists h ag inst)"
  unfolding dm_exists_def by (rule reads_on_dm) (rule IsExist_same_tree)

lemma must_exist_tree [step_intros]: "steps reads_only ag (must_exist h err ag inst)"
  unfolding must_exist_def by (intro step_intros)

lemma get_instances_tree [step_intros]: "steps reads_only ag (get_instances h ag node inst)"
  unfolding get_instances_def by (rule reads_on_dm) (auto dest: GetInstances_result(3))

lemma GetInstances_tree [step_intros]: "steps reads_only ag (DATA_MODEL_GetInstances h ag path)"
  unfolding DATA_MODEL_GetInstances_def by (auto split: option.split intro!: step_intros)

lemma get_db_param_tree [step_intros]: "steps reads_only ag (get_db_param ag node inst len fl)"
  unfolding get_db_param_def by (auto split: option.split sum.split intro!: step_intros)

lemma GetParameterValue_tree [step_intros]: "steps reads_only ag (DATA_MODEL_GetParameterValue h ag path len fl)"
proof -
  have num: "steps reads_only ag1 (on_dm ag1 (map_option (\<lambda>(st, r, _). (st, r))
      (DM_INST_VECTOR_GetNumInstances (instances_hook h) (dm ag1) n inst)))" for ag1 n inst
    by (rule reads_on_dm) (auto dest: GetNumInstances_same_tree)
  show ?thesis
    unfolding DATA_MODEL_GetParameterValue_def
    by (auto split: option.split dm_node_type.split intro!: step_intros num)
qed

lemma GetPathProperties_tree: "steps reads_only ag (DATA_MODEL_GetPathProperties h ag path role)"
proof (rule stepsI)
  fix ag' pp assume "DATA_MODEL_GetPathProperties h ag path role = Some (ag', pp)"
  then consider "ag' = ag" | i r where "dm_exists h ag i = Some (ag', r)"
    | i1 r1 ag1 i2 r2 where "dm_exists h ag i1 = Some (ag1, r1)" "dm_exists h ag1 i2 = Some (ag', r2)"
    unfolding DATA_MODEL_GetPathProperties_def Let_def
    by (auto split: option.splits if_splits prod.splits sum.splits)
  then show "reads_only ag ag'"
  proof cases
    case 3
    then show ?thesis using stepsD [OF dm_exists_tree] reads.R_trans by metis
  qed (auto intro: reads.R_refl stepsD [OF dm_exists_tree])
qed

lemma get_entry_tree: "steps reads_only ag (get_entry h ag gge)"
  unfolding get_entry_def by (rule reads.steps_map) (rule GetParameterValue_tree)

lemma get_ungrouped_tree: "steps reads_only ag (get_ungrouped h ag ggv)"
proof (induction ggv arbitrary: ag)
  case (Cons gge ggv)
  show ?case
  proof (rule stepsI)
    fix ag' r assume "get_ungrouped h ag (gge # ggv) = Some (ag', r)"
    then obtain ag1 gge1 ggv2 where first: "(if gg_group gge = NON_GROUPED then get_entry h ag gge
         else if 0 \<le> gg_group gge \<and> gg_group gge < int MAX_VENDOR_PARAM_GROUPS then Some (ag, gge) else None) = Some (ag1, gge1)"
      and rest: "get_ungrouped h ag1 ggv = Some (ag', ggv2)"
      by (auto simp: bind_eq_Some_conv simp del: if_split)
    have "reads_only ag ag1"
      using first stepsD [OF get_entry_tree] reads.R_refl by (fastforce split: if_splits)
    then show "reads_only ag ag'" using stepsD [OF Cons.IH rest] by (rule reads.R_trans)
  qed
qed (simp add: step_intros)

lemma GetValues_tree: "steps reads_only ag (GROUP_GET_VECTOR_GetValues h ag ggv)"
  using stepsD [OF get_ungrouped_tree] by (fastforce simp: steps_def GROUP_GET_VECTOR_GetValues_def)

lemmas GetValues_then [step_intros] = reads.steps_then [OF GetValues_tree]
lemmas GetPathProperties_then [step_intros] = reads.steps_then [OF GetPathProperties_tree]

section \<open>Operations that write\<close>

lemma writes_on_db:
  assumes "\<And>d r. m = Some (d, r) \<Longrightarrow> db_write\<^sup>*\<^sup>* (db ag) d"
  shows "steps writes_only ag (on_db ag m)"
  using assms by (auto simp: steps_def on_db_def writes_only_def same_tree_refl)

lemma Remove_same_tree: "DM_INST_VECTOR_Remove st inst = Some st' \<Longrightarrow> same_tree st st'"
  by (auto simp: DM_INST_VECTOR_Remove_def same_tree_refl split: if_splits option.splits)

lemma writes_on_vectors [step_intros]:
  "steps writes_only ag (on_vectors ag (DM_INST_VECTOR_Add (dm ag) inst))"
  "steps writes_only ag (on_vectors ag (DM_INST_VECTOR_Remove (dm ag) inst))"
  by (auto simp: steps_def on_vectors_def writes_only_def Remove_same_tree dest: Add_keeps)

lemma writes_on_trans [step_intros]: "steps writes_only ag (on_trans (DM_TRANS_Add ag k path v node inst))"
proof (rule stepsI)
  fix ag' r assume "on_trans (DM_TRANS_Add ag k path v node inst) = Some (ag', r)"
  then have t: "DM_TRANS_Add ag k path v node inst = Some ag'" by (auto simp: on_trans_def)
  then have "cur_transaction ag \<noteq> None \<and> cur_transaction ag' \<noteq> None"
    by (auto simp: DM_TRANS_Add_def Let_def split: option.splits if_splits)
  then show "writes_only ag ag'"
    using DM_TRANS_Add_result [OF t] by (auto simp: writes_only_def same_tree_heap same_tree_refl)
qed

lemma set_db_param_writes [step_intros]: "steps writes_only ag (set_db_param ag node inst v fl)"
  unfolding set_db_param_def
  by (auto split: option.split intro!: step_intros writes_on_db intro: db_write.intros)

lemma set_by_type_writes [step_intros]: "steps writes_only ag (set_by_type h ag node path inst val v)"
  unfolding set_by_type_def Let_def by (auto split: dm_node_type.split option.split sum.split intro!: step_intros)

lemma must_exist_writes [step_intros]: "steps writes_only ag (must_exist h err ag inst)"
  by (rule steps_reads_writes) (rule must_exist_tree)

lemma dm_exists_writes [step_intros]: "steps writes_only ag (dm_exists h ag inst)"
  by (rule steps_reads_writes) (rule dm_exists_tree)

theorem SetParameterValue_writes [step_intros]: "steps writes_only ag (DATA_MODEL_SetParameterValue h ag path v fl)"
  unfolding DATA_MODEL_SetParameterValue_def by (auto split: option.split intro!: step_intros)

text \<open>The defaults of a new object.\<close>

lemma set_child_param_writes: "set_child_param st inst c v d = Some (d', r) \<Longrightarrow> db_write d d'"
  by (auto simp: set_child_param_def split: option.splits intro: db_write.intros)

lemma db_write_chain:
  assumes "(case m of None \<Rightarrow> None | Some (d1, Inl err) \<Rightarrow> Some (d1, Inl err) | Some (d1, Inr _) \<Rightarrow> g d1) = Some (d', r)"
    and "\<And>d1 r1. m = Some (d1, r1) \<Longrightarrow> db_write\<^sup>*\<^sup>* d d1" "\<And>d1. g d1 = Some (d', r) \<Longrightarrow> db_write\<^sup>*\<^sup>* d1 d'"
  shows "db_write\<^sup>*\<^sup>* d d'"
  using assms by (auto split: option.splits prod.splits sum.splits intro: rtranclp_trans)

lemma add_child_params_writes:
  assumes "\<And>d path n d' r. rec d path n = Some (d', r) \<Longrightarrow> db_write\<^sup>*\<^sup>* d d'"
  shows "add_child_params rec h st path inst d cs = Some (d', r) \<Longrightarrow> db_write\<^sup>*\<^sup>* d d'"
proof (induction cs arbitrary: d)
  case (Cons c cs)
  show ?case
  proof (rule db_write_chain [OF Cons.prems [unfolded add_child_params.simps Let_def]])
    fix d1
    show "add_child_params rec h st path inst d1 cs = Some (d', r) \<Longrightarrow> db_write\<^sup>*\<^sup>* d1 d'" by (rule Cons.IH)
  next
    note one = r_into_rtranclp [of db_write, OF set_child_param_writes]
    fix d1 r1
    assume "(case node_type (heap st c) of
          kDMNodeType_DBParam_ReadOnly \<Rightarrow> Option.bind (default_value (param_info (heap st c))) (\<lambda>v. set_child_param st inst c v d)
        | kDMNodeType_DBParam_ReadWrite \<Rightarrow> Option.bind (default_value (param_info (heap st c))) (\<lambda>v. set_child_param st inst c v d)
        | kDMNodeType_DBParam_Secure \<Rightarrow> Option.bind (default_value (param_info (heap st c))) (\<lambda>v. set_child_param st inst c v d)
        | kDMNodeType_DBParam_ReadOnlyAuto \<Rightarrow>
            (case get_hook h \<lparr>rq_node = c, rq_path = append_path path (''.'' @ node_name (heap st c)), rq_inst = inst\<rparr> of
               None \<Rightarrow> None
             | Some (Inl err) \<Rightarrow> Some (d, Inl err)
             | Some (Inr (val, buf)) \<Rightarrow>
                Option.bind (SerializeNativeValue (floats h) (type_flags (param_info (heap st c))) val buf MAX_DM_VALUE_LEN)
                  (\<lambda>v. set_child_param st inst c v d))
        | kDMNodeType_DBParam_ReadWriteAuto \<Rightarrow>
            (case get_hook h \<lparr>rq_node = c, rq_path = append_path path (''.'' @ node_name (heap st c)), rq_inst = inst\<rparr> of
               None \<Rightarrow> None
             | Some (Inl err) \<Rightarrow> Some (d, Inl err)
             | Some (Inr (val, buf)) \<Rightarrow>
                Option.bind (SerializeNativeValue (floats h) (type_flags (param_info (heap st c))) val buf MAX_DM_VALUE_LEN)
                  (\<lambda>v. set_child_param st inst c v d))
        | kDMNodeType_Object_SingleInstance \<Rightarrow> rec d (append_path path (''.'' @ node_name (heap st c))) c
        | _ \<Rightarrow> Some (d, USP_OK)) = Some (d1, r1)"
    then show "db_write\<^sup>*\<^sup>* d d1"
      by (cases "node_type (heap st c)") (auto simp: bind_eq_Some_conv intro: one assms split: option.splits sum.splits prod.splits)
  qed
qed simp

lemma AddChildParams_writes: "AddChildParamsDefaultValues depth h st inst d path node = Some (d', r) \<Longrightarrow> db_write\<^sup>*\<^sup>* d d'"
proof (induction depth arbitrary: d path node d' r)
  case (Suc depth)
  then show ?case using add_child_params_writes by (metis AddChildParamsDefaultValues.simps(2))
qed simp

lemma complete_add_writes [step_intros]: "steps writes_only ag (complete_add h ag node path inst n)"
proof -
  have child: "writes_only ag1 (ag1\<lparr>db := d\<rparr>)"
    if "AddChildParamsDefaultValues k h st i (db ag1) p nd = Some (d, r)" for ag1 d k st i p nd r
    using AddChildParams_writes [OF that] by (simp add: writes_only_def same_tree_refl)
  have undone: "steps writes_only ag1 (on_vectors (ag1\<lparr>db := d\<rparr>) (DM_INST_VECTOR_Remove (dm ag1) j))"
    if "AddChildParamsDefaultValues k h st i (db ag1) p nd = Some (d, r)" for ag1 d k st i p nd r j
    using writes.steps_from [OF child [OF that] writes_on_vectors(2) [of "ag1\<lparr>db := d\<rparr>" j]] by simp
  show ?thesis unfolding complete_add_def Let_def
    by (rule writes.steps_bind) (auto intro!: step_intros split: option.split prod.split sum.split
      intro: writes.steps_from [OF child] undone)
qed

lemma new_instance_number_writes [step_intros]: "steps writes_only ag (new_instance_number h ag node path inst w fl)"
  unfolding new_instance_number_def by (auto split: option.split intro!: step_intros)

theorem AddInstance_writes [step_intros]: "steps writes_only ag (DATA_MODEL_AddInstance h ag path w fl)"
  unfolding DATA_MODEL_AddInstance_def Let_def by (auto split: option.split intro!: step_intros)

text \<open>Everything below a deleted object.\<close>

lemma delete_child_param_writes [step_intros]: "steps writes_only ag (delete_child_param ag inst c)"
proof -
  have "db_write\<^sup>*\<^sup>* (db ag) d" if "Some (DATABASE_DeleteParameter (db ag) hash key) = Some (d, r)" for hash key d r
    using that db_write_del by blast
  then show ?thesis unfolding delete_child_param_def by (auto split: option.split intro!: step_intros writes_on_db)
qed

definition deletes_write :: "delete_call \<Rightarrow> bool" where
  "deletes_write call \<longleftrightarrow> (\<forall>ag path node inst. steps writes_only ag (call ag path node inst))"

lemma delete_children_writes:
  assumes "deletes_write single" "deletes_write multi"
  shows "steps writes_only ag (delete_children single multi ag path inst cs)"
  using assms
  by (induction cs arbitrary: ag inst) (auto simp: deletes_write_def Let_def intro!: step_intros)

lemma delete_instances_writes:
  assumes "deletes_write single"
  shows "steps writes_only ag (delete_instances single ag path node k inst ns)"
  using assms
  by (induction ns arbitrary: ag inst) (auto simp: deletes_write_def Let_def intro!: step_intros)

lemma DeleteChildParams_writes: "deletes_write (DeleteChildParams depth h) \<and> deletes_write (DeleteChildParams_MultiInstanceObject depth h)"
proof (induction depth)
  case 0
  then show ?case by (simp add: deletes_write_def step_intros)
next
  case (Suc depth)
  have "deletes_write (DeleteChildParams (Suc depth) h)" using Suc delete_children_writes by (simp add: deletes_write_def)
  moreover have "steps writes_only ag (DeleteChildParams_MultiInstanceObject (Suc depth) h ag path node inst)" for ag path node inst
  proof (cases "DM_INST_VECTOR_GetInstances (instances_hook h) (dm ag) node inst")
    case (Some res)
    obtain st r iv i1 where res: "res = (st, r, iv, i1)" by (metis prod_cases4)
    have "same_tree (dm ag) st" using GetInstances_result(3) Some res by blast
    then have s: "writes_only ag (ag\<lparr>dm := st\<rparr>)" by (simp add: writes_only_def)
    show ?thesis
    proof (cases r)
      case (Inl e)
      then show ?thesis using Some res s by (auto intro: writes.steps_from step_intros)
    next
      case (Inr u)
      have d: "steps writes_only ag1 (delete_instances (DeleteChildParams depth h) ag1 path node k i iv)" for ag1 k i
        using Suc delete_instances_writes by blast
      show ?thesis using Some res Inr s
        by (auto simp: Let_def intro!: step_intros d writes.steps_from [OF s])
    qed
  qed (simp add: step_intros)
  ultimately show ?case by (simp add: deletes_write_def)
qed

theorem DeleteInstance_writes [step_intros]: "steps writes_only ag (DATA_MODEL_DeleteInstance h ag path fl)"
proof -
  have d: "steps writes_only ag1 (DeleteChildParams k h ag1 p n i)" for ag1 k p n i
    using DeleteChildParams_writes by (simp add: deletes_write_def)
  show ?thesis unfolding DATA_MODEL_DeleteInstance_def Let_def
    by (auto split: option.split sum.split intro!: step_intros d)
qed

end
