(* ===== verification/Path_Reads.thy ===== *)
theory Path_Reads
  imports Path_Resolver Agent_Steps
begin

text \<open>
  What the path resolver may change and what it may collect. Resolving refreshes instance vectors and
  nothing else of the data model tree. Whatever a resolution for reading collects is a parameter of
  the tree that the role may read: this is the contract \<open>path_collector\<close>, which holds for any
  property of the collected paths that one more such parameter keeps.
\<close>

abbreviation keeps_tree :: "agent \<Rightarrow> (agent \<times> 'a) option \<Rightarrow> bool" where
  "keeps_tree \<equiv> steps reads_only"

lemmas keeps_tree_step = reads.steps_from
lemmas keeps_tree_pair_map = reads.steps_pair_map

lemma reads_same_tree: "reads_only ag ag' \<Longrightarrow> same_tree (dm ag) (dm ag')"
  by (simp add: reads_only_def)

lemma keeps_treeD: "keeps_tree ag m \<Longrightarrow> m = Some (ag', r) \<Longrightarrow> same_tree (dm ag) (dm ag')"
  by (rule reads_same_tree) (rule stepsD)

section \<open>Operations that keep the tree\<close>

lemma CheckPathPermission_tree [step_intros]: "keeps_tree ag (CheckPathPermission h rs ag path)"
proof (cases "DATA_MODEL_GetPathProperties h ag path (rs_role rs)")
  case (Some r)
  obtain ag1 pp where r: "r = (ag1, pp)" by (metis prod.exhaust)
  have "reads_only ag ag1" using stepsD [OF GetPathProperties_tree] Some r by blast
  then show ?thesis
    unfolding CheckPathPermission_def Some r by (auto intro!: step_intros intro: keeps_tree_step)
qed (simp add: CheckPathPermission_def step_intros)

lemma GroupReferencedParameters_tree [step_intros]: "keeps_tree ag (GroupReferencedParameters h rs ag params ggv)"
  by (induction h rs ag params ggv rule: GroupReferencedParameters.induct)
     (auto intro!: step_intros simp: Let_def)

lemma ResolveIntermediateReferences_tree [step_intros]: "keeps_tree ag (ResolveIntermediateReferences fuel h rs ag params)"
  by (induction fuel arbitrary: ag params) (auto intro!: step_intros)

lemma add_resolved_keys_tree [step_intros]: "keeps_tree ag (add_resolved_keys h rs ag params sp)"
  by (induction h rs ag params sp rule: add_resolved_keys.induct) (auto intro!: step_intros)

lemma ResolveReferencedKeys_tree [step_intros]: "keeps_tree ag (ResolveReferencedKeys fuel h rs ag resolved insts sp)"
  unfolding ResolveReferencedKeys_def Let_def by (intro step_intros)

lemma GetGroupIdForUniqueKeys_tree [step_intros]: "keeps_tree ag (GetGroupIdForUniqueKeys h rs ag object keys)"
  by (induction keys arbitrary: ag) (auto intro!: step_intros)

lemma ExpandsNonReferencedKeys_tree [step_intros]: "keeps_tree ag (ExpandsNonReferencedKeys h rs ag resolved insts sp)"
  unfolding ExpandsNonReferencedKeys_def by (intro step_intros)

lemma CheckPathProperties_tree [step_intros]: "keeps_tree ag (CheckPathProperties h rs ag path)"
  unfolding CheckPathProperties_def
  by (rule GetPathProperties_then) (auto intro!: step_intros split: option.split verdict.split)

section \<open>Parameters that are found\<close>

text \<open>The paths a partial path stands for: by name to a child, by number to an instance of a table.\<close>

inductive descends :: "dm_state \<Rightarrow> cstr \<Rightarrow> node_ptr \<Rightarrow> cstr \<Rightarrow> node_ptr \<Rightarrow> bool" for st p0 n0 where
  descends_start: "descends st p0 n0 p0 n0"
| descends_child: "descends st p0 n0 p n \<Longrightarrow> c \<in> set (child_nodes (heap st n)) \<Longrightarrow>
    descends st p0 n0 (append_path p (''.'' @ node_name (heap st c))) c"
| descends_instance: "descends st p0 n0 p n \<Longrightarrow> node_type (heap st n) = kDMNodeType_Object_MultiInstance \<Longrightarrow>
    descends st p0 n0 (append_path p (''.'' @ show_int i)) n"

text \<open>
  The resolutions that collect parameters, those that need a permission on what they collect, which
  permission that is, and those that collect each path as it is.
\<close>

definition reading_ops :: "resolve_op set" where
  "reading_ops = {kResolveOp_Get, kResolveOp_SubsValChange, kResolveOp_GetBulkData}"

definition permit_ops :: "resolve_op set" where
  "permit_ops = reading_ops \<union> {kResolveOp_Add, kResolveOp_Del, kResolveOp_Oper, kResolveOp_Event}"

definition plain_ops :: "resolve_op set" where
  "plain_ops = permit_ops \<union> {kResolveOp_Set, kResolveOp_ForgivingRef, kResolveOp_StrictRef}"

definition permit_for :: "resolve_op \<Rightarrow> 16 word" where
  "permit_for rop =
    (case rop of
       kResolveOp_SubsValChange \<Rightarrow> PERMIT_SUBS_VAL_CHANGE
     | kResolveOp_Add \<Rightarrow> PERMIT_ADD
     | kResolveOp_Del \<Rightarrow> PERMIT_DEL
     | kResolveOp_Oper \<Rightarrow> PERMIT_OPER
     | kResolveOp_Event \<Rightarrow> PERMIT_SUBS_EVT_OPER_COMP
     | _ \<Rightarrow> PERMIT_GET)"

definition group_of :: "dm_node \<Rightarrow> int" where
  "group_of node = (if IsParam node then param_group_id (param_info node) else NON_GROUPED)"

text \<open>
  A path collected for a node: it leads there from a path that the data model finds, for a resolution
  that reads the node is a parameter, and the role has the permission the resolution needs on it.
\<close>

definition found_param :: "dm_state \<Rightarrow> resolver_state \<Rightarrow> cstr \<Rightarrow> node_ptr \<Rightarrow> bool" where
  "found_param st rs path c \<longleftrightarrow>
    (\<exists>p0 n0 inst q. DM_PRIV_GetNodeFromPath st p0 True True = Some (n0, inst, q) \<and> descends st p0 n0 path c) \<and>
    (rs_op rs \<in> reading_ops \<longrightarrow> IsParam (heap st c)) \<and>
    (rs_op rs \<in> permit_ops \<longrightarrow> DM_PRIV_GetPermissions (heap st c) (rs_role rs) AND permit_for (rs_op rs) \<noteq> 0)"

lemma same_tree_node:
  assumes "same_tree st st'"
  shows "node_name (heap st' p) = node_name (heap st p)" "param_info (heap st' p) = param_info (heap st p)"
    "IsParam (heap st' p) = IsParam (heap st p)" "IsObject (heap st' p) = IsObject (heap st p)"
    "DM_PRIV_GetPermissions (heap st' p) r = DM_PRIV_GetPermissions (heap st p) r"
    "group_of (heap st' p) = group_of (heap st p)"
proof -
  obtain info where "heap st' p = (heap st p)\<lparr>object_info := info\<rparr>"
    using assms unfolding same_tree_def by blast
  then show "node_name (heap st' p) = node_name (heap st p)" "param_info (heap st' p) = param_info (heap st p)"
    "IsParam (heap st' p) = IsParam (heap st p)" "IsObject (heap st' p) = IsObject (heap st p)"
    "DM_PRIV_GetPermissions (heap st' p) r = DM_PRIV_GetPermissions (heap st p) r"
    "group_of (heap st' p) = group_of (heap st p)"
    by (simp_all add: IsParam_def IsObject_def DM_PRIV_GetPermissions_def role_permissions_def group_of_def split: option.split)
qed

lemma same_tree_descends: "descends st p0 n0 p n \<Longrightarrow> same_tree st st' \<Longrightarrow> descends st' p0 n0 p n"
proof (induction rule: descends.induct)
  case (descends_child p n c)
  then have "descends st' p0 n0 (append_path p (''.'' @ node_name (heap st' c))) c"
    by (intro descends.descends_child) (simp_all add: same_tree_fields)
  then show ?case using same_tree_node [OF descends_child.prems] by simp
next
  case (descends_instance p n i)
  then show ?case by (intro descends.descends_instance) (simp_all add: same_tree_fields)
qed (rule descends_start)

lemma same_tree_found_param: "found_param st rs path c \<Longrightarrow> same_tree st st' \<Longrightarrow> found_param st' rs path c"
  unfolding found_param_def using same_tree_descends
  by (auto simp: same_tree_GetNode same_tree_node) blast+

text \<open>What GetPathProperties says of a path that the data model finds; a failed refresh is no parameter.\<close>

lemma dm_exists_err: "dm_exists h ag inst = Some (ag', Inl e) \<Longrightarrow> e = USP_ERR_INTERNAL_ERROR"
proof -
  have refresh: "RefreshInstVector v st tn = Some (st', Inl e) \<Longrightarrow> e = USP_ERR_INTERNAL_ERROR" for v st tn st'
    by (auto simp: RefreshInstVector_def Let_def split: if_splits prod.splits option.splits)
  show "dm_exists h ag inst = Some (ag', Inl e) \<Longrightarrow> e = USP_ERR_INTERNAL_ERROR"
    by (auto simp: dm_exists_def on_dm_def DM_INST_VECTOR_IsExist_def usp_split dest: refresh
        split: if_splits option.splits)
qed

lemma error_code_no_parameter: "(of_nat (usp_err_code USP_ERR_INTERNAL_ERROR) :: 32 word) AND PP_IS_PARAMETER = 0"
  by (simp add: PP_IS_PARAMETER_def)

lemma parameter_flag:
  "(PP_EXISTS_IN_SCHEMA OR type_properties t q) AND PP_IS_PARAMETER = 0" 
  "((PP_EXISTS_IN_SCHEMA OR type_properties t q) OR (PP_INSTANCE_NUMBERS_EXIST OR PP_PARENT_INSTANCE_NUMBERS_EXIST)) AND PP_IS_PARAMETER = 0"
  "((PP_EXISTS_IN_SCHEMA OR type_properties t q) OR PP_PARENT_INSTANCE_NUMBERS_EXIST) AND PP_IS_PARAMETER = 0"
  if "t \<in> {kDMNodeType_Object_MultiInstance, kDMNodeType_Object_SingleInstance, kDMNodeType_SyncOperation,
    kDMNodeType_AsyncOperation, kDMNodeType_Event}"
  using that by (auto simp: type_properties_def PP_defs)

lemma GetPathProperties_found:
  assumes "DATA_MODEL_GetPathProperties h ag path role = Some (ag1, pp)" "pp_flags pp AND PP_EXISTS_IN_SCHEMA \<noteq> 0"
  obtains n inst q where "DM_PRIV_GetNodeFromPath (dm ag) path True True = Some (n, inst, q)"
    "pp_permissions pp = DM_PRIV_GetPermissions (heap (dm ag) n) role" "pp_group pp = group_of (heap (dm ag) n)"
    "pp_flags pp AND PP_IS_PARAMETER \<noteq> 0 \<Longrightarrow> IsParam (heap (dm ag) n)"
proof (cases "DM_PRIV_GetNodeFromPath (dm ag) path True True")
  case None
  with assms show ?thesis by (auto simp: DATA_MODEL_GetPathProperties_def)
next
  case (Some r)
  obtain n inst q where r: "r = (n, inst, q)" by (metis prod_cases3)
  let ?node = "heap (dm ag) n"
  let ?fl = "PP_EXISTS_IN_SCHEMA OR type_properties (node_type ?node) q"
  have fields: "pp_permissions pp = DM_PRIV_GetPermissions ?node role \<and> pp_group pp = group_of ?node"
    using assms(1) unfolding DATA_MODEL_GetPathProperties_def Some r option.case prod.case Let_def group_of_def
    by (auto split: if_splits option.splits prod.splits sum.splits)
  have fl: "pp_flags pp = ?fl \<or> pp_flags pp = ?fl OR (PP_INSTANCE_NUMBERS_EXIST OR PP_PARENT_INSTANCE_NUMBERS_EXIST) \<or>
      pp_flags pp = ?fl OR PP_PARENT_INSTANCE_NUMBERS_EXIST \<or> pp_flags pp = of_nat (usp_err_code USP_ERR_INTERNAL_ERROR)"
    using assms(1) unfolding DATA_MODEL_GetPathProperties_def Some r option.case prod.case Let_def
    by (auto split: if_splits option.splits prod.splits sum.splits dest: dm_exists_err)
  have "IsParam ?node" if param: "pp_flags pp AND PP_IS_PARAMETER \<noteq> 0"
  proof (rule ccontr)
    assume "\<not> IsParam ?node"
    then have t: "node_type ?node \<in> {kDMNodeType_Object_MultiInstance, kDMNodeType_Object_SingleInstance, kDMNodeType_SyncOperation,
      kDMNodeType_AsyncOperation, kDMNodeType_Event}" by (auto simp: IsParam_def)
    from fl have "pp_flags pp AND PP_IS_PARAMETER = 0"
      by (elim disjE) (simp_all only: parameter_flag [OF t] error_code_no_parameter)
    with param show False by contradiction
  qed
  with Some r fields show ?thesis by (intro that) auto
qed

section \<open>The contract of a collector\<close>

definition reached :: "dm_state \<Rightarrow> cstr \<Rightarrow> node_ptr \<Rightarrow> bool" where
  "reached st path n \<longleftrightarrow>
    (\<exists>p0 n0 inst q. DM_PRIV_GetNodeFromPath st p0 True True = Some (n0, inst, q) \<and> descends st p0 n0 path n)"

lemma same_tree_reached: "reached st path n \<Longrightarrow> same_tree st st' \<Longrightarrow> reached st' path n"
  unfolding reached_def using same_tree_descends by (auto simp: same_tree_GetNode) blast

lemma reached_start: "DM_PRIV_GetNodeFromPath st path True True = Some (n, inst, q) \<Longrightarrow> reached st path n"
  unfolding reached_def using descends_start by blast

lemma reached_child: "reached st p n \<Longrightarrow> c \<in> set (child_nodes (heap st n)) \<Longrightarrow>
    reached st (append_path p (''.'' @ node_name (heap st c))) c"
  unfolding reached_def using descends_child by blast

lemma reached_instance: "reached st p n \<Longrightarrow> node_type (heap st n) = kDMNodeType_Object_MultiInstance \<Longrightarrow>
    reached st (append_path p (''.'' @ show_int i)) n"
  unfolding reached_def using descends_instance by blast

text \<open>A call that keeps the tree, and an invariant of what has been collected: \<open>g\<close> takes that from its result.\<close>

definition collects :: "('a \<Rightarrow> resolved_paths) \<Rightarrow> (dm_state \<Rightarrow> resolved_paths \<Rightarrow> bool) \<Rightarrow> agent \<Rightarrow> resolved_paths \<Rightarrow> 'a ag_result \<Rightarrow> bool" where
  "collects g I ag found m \<longleftrightarrow> keeps_tree ag m \<and>
    (I (dm ag) found \<longrightarrow> (\<forall>ag' x. m = Some (ag', Inr x) \<longrightarrow> I (dm ag') (g x)))"

lemma collects_tree: "collects g I ag found m \<Longrightarrow> keeps_tree ag m"
  by (simp add: collects_def)

locale path_collector =
  fixes I :: "dm_state \<Rightarrow> resolved_paths \<Rightarrow> bool" and rs :: resolver_state
  assumes plain: "rs_op rs \<in> plain_ops"
    and tree: "I st found \<Longrightarrow> same_tree st st' \<Longrightarrow> I st' found"
    and param: "I st (sv, gv) \<Longrightarrow> found_param st rs path c \<Longrightarrow>
      I st (map_option (\<lambda>v. STR_VECTOR_Add v path) sv, map_option (\<lambda>v. INT_VECTOR_Add v (group_of (heap st c))) gv)"
begin

lemma collects_simple: "collects g I ag found None" "collects g I ag found (ag_err ag e)"
  "g x = found \<Longrightarrow> collects g I ag found (ag_ok ag x)"
  by (auto simp: collects_def step_intros)

lemma collects_step: "reads_only ag ag1 \<Longrightarrow> collects g I ag1 found m \<Longrightarrow> collects g I ag found m"
  unfolding collects_def using keeps_tree_step tree reads_same_tree by blast

lemma collects_bind:
  assumes "keeps_tree ag m" "\<And>ag1 x. m = Some (ag1, Inr x) \<Longrightarrow> collects g I ag1 found (f ag1 x)"
  shows "collects g I ag found (ag_bind m f)"
proof (cases m)
  case (Some r)
  obtain ag1 r1 where r: "r = (ag1, r1)" by (metis prod.exhaust)
  have s: "reads_only ag ag1" using stepsD [OF assms(1)] Some r by simp
  show ?thesis
  proof (cases r1)
    case (Inl e)
    with Some r s show ?thesis by (simp add: collects_def steps_def)
  next
    case (Inr x)
    with Some r assms(2) have "collects g I ag1 found (f ag1 x)" by simp
    with Some r Inr collects_step [OF s] show ?thesis by simp
  qed
qed (simp add: collects_simple)

lemma collects_seq:
  assumes "collects g' I ag found m" "\<And>ag1 x. m = Some (ag1, Inr x) \<Longrightarrow> collects g I ag1 (g' x) (f ag1 x)"
  shows "collects g I ag found (ag_bind m f)"
proof (cases m)
  case (Some r)
  obtain ag1 r1 where r: "r = (ag1, r1)" by (metis prod.exhaust)
  have s: "reads_only ag ag1" using stepsD [OF collects_tree [OF assms(1)]] Some r by simp
  show ?thesis
  proof (cases r1)
    case (Inl e)
    with Some r s show ?thesis by (simp add: collects_def steps_def)
  next
    case (Inr x)
    with Some r assms(2) have c: "collects g I ag1 (g' x) (f ag1 x)" by simp
    have "I (dm ag) found \<Longrightarrow> I (dm ag1) (g' x)" using assms(1) Some r Inr by (auto simp: collects_def)
    with c show ?thesis using Some r Inr keeps_tree_step [OF s] by (auto simp: collects_def)
  qed
qed (simp add: collects_simple)

lemma collects_then:
  assumes "keeps_tree ag m" "\<And>ag1 x. m = Some (ag1, x) \<Longrightarrow> collects g I ag1 found (f ag1 x)"
  shows "collects g I ag found (case m of None \<Rightarrow> None | Some (ag1, x) \<Rightarrow> f ag1 x)"
proof (cases m)
  case (Some r)
  obtain ag1 x where r: "r = (ag1, x)" by (metis prod.exhaust)
  have s: "reads_only ag ag1" using stepsD [OF assms(1)] Some r by simp
  show ?thesis using Some r collects_step [OF s assms(2)] by simp
qed (simp add: collects_simple)

end

end
