(* ===== verification/Path_Collect.thy ===== *)
theory Path_Collect
  imports Path_Reads
begin

text \<open>
  The recursion of the path resolver keeps every collector's invariant: each function of
  \<open>core/path_resolver.c\<close> in turn, up to ExpandPath. The interpretation for a get gives what a
  resolution for reading collects.
\<close>

section \<open>What a resolution collects\<close>

lemma CheckPathProperties_pass:
  assumes "CheckPathProperties h rs ag path = Some (ag1, Inr (True, pp))"
  shows "DATA_MODEL_GetPathProperties h ag path (rs_role rs) = Some (ag1, pp)" "pp_flags pp AND PP_EXISTS_IN_SCHEMA \<noteq> 0"
    "wrong_type (rs_op rs) (pp_flags pp) = None" "permission_verdict (rs_op rs) (pp_permissions pp) = Pass"
  using assms unfolding CheckPathProperties_def
  by (auto split: option.splits verdict.splits prod.splits if_splits)

lemma reading_pass: "rop \<in> reading_ops \<Longrightarrow> wrong_type rop fl = None \<Longrightarrow> fl AND PP_IS_PARAMETER \<noteq> 0"
  by (auto simp: reading_ops_def wrong_type_def split: if_splits)

lemma permit_pass: "rop \<in> permit_ops \<Longrightarrow> permission_verdict rop bits = Pass \<Longrightarrow> bits AND permit_for rop \<noteq> 0"
  by (cases rop) (simp_all add: permit_ops_def reading_ops_def permission_verdict_def permit_for_def split: if_splits)

lemma child_pass:
  assumes "child_verdict rop (node_type child) bits = Pass" "rop \<in> plain_ops"
    "node_type child \<noteq> kDMNodeType_Object_SingleInstance" "node_type child \<noteq> kDMNodeType_Object_MultiInstance"
  shows "rop \<in> reading_ops" "IsParam child" "bits AND permit_for rop \<noteq> 0"
  using assms
  by (auto simp: child_verdict_def plain_ops_def permit_ops_def reading_ops_def IsParam_def permit_for_def split: if_splits)

context path_collector
begin

text \<open>The vectors are extended only here and with the children of a partial path.\<close>

lemma AddPathFound_collects: "collects (\<lambda>x. x) I ag found (AddPathFound h rs ag path found)"
  unfolding AddPathFound_def
proof (rule collects_bind [OF CheckPathProperties_tree], unfold split_paired_all prod.case)
  fix ag1 add pp assume c: "CheckPathProperties h rs ag path = Some (ag1, Inr (add, pp))"
  have s: "same_tree (dm ag) (dm ag1)" using keeps_treeD [OF CheckPathProperties_tree] c by blast
  show "collects (\<lambda>x. x) I ag1 found (if \<not> add then ag_ok ag1 found
      else case fst found of
        None \<Rightarrow> ag_ok ag1 found
      | Some sv \<Rightarrow>
          if rs_op rs \<in> {kResolveOp_SubsAdd, kResolveOp_SubsDel} \<and> pp_flags pp AND PP_IS_OBJECT_INSTANCE = 0 then
            (if pp_flags pp AND PP_IS_MULTI_INSTANCE_OBJECT = 0 then None
             else ag_bind (DATA_MODEL_GetInstancePaths h ag1 path sv None) (\<lambda>ag2 sv1. ag_ok ag2 (Some sv1, snd found)))
          else if rs_op rs = kResolveOp_Instances then
            ag_bind (if rs_flags rs AND GET_ALL_INSTANCES \<noteq> 0
                     then DATA_MODEL_GetAllInstancePaths h ag1 path sv (rs_role rs)
                     else DATA_MODEL_GetInstancePaths h ag1 path sv (rs_role rs))
              (\<lambda>ag2 sv1. ag_ok ag2 (Some sv1, snd found))
          else if STR_VECTOR_Find sv path \<noteq> INVALID then ag_ok ag1 found
          else ag_ok ag1 (Some (STR_VECTOR_Add sv path), map_option (\<lambda>gv. INT_VECTOR_Add gv (pp_group pp)) (snd found)))"
  proof (cases "\<not> add \<or> fst found = None")
    case True
    then show ?thesis by (auto simp: collects_simple split: option.split)
  next
    case False
    then obtain sv gv where f: "found = (Some sv, gv)" and add: "add = True" by (cases found) auto
    have ops: "rs_op rs \<notin> {kResolveOp_SubsAdd, kResolveOp_SubsDel}" "rs_op rs \<noteq> kResolveOp_Instances"
      using plain by (auto simp: plain_ops_def permit_ops_def reading_ops_def)
    note pass = CheckPathProperties_pass [OF c [unfolded add]]
    obtain n inst q where n: "DM_PRIV_GetNodeFromPath (dm ag) path True True = Some (n, inst, q)"
      "pp_permissions pp = DM_PRIV_GetPermissions (heap (dm ag) n) (rs_role rs)" "pp_group pp = group_of (heap (dm ag) n)"
      "pp_flags pp AND PP_IS_PARAMETER \<noteq> 0 \<Longrightarrow> IsParam (heap (dm ag) n)"
      using GetPathProperties_found [OF pass(1,2)] by metis
    have "found_param (dm ag) rs path n"
      unfolding found_param_def using n descends_start reading_pass pass(3) permit_pass [OF _ pass(4)] by metis
    then have fp: "found_param (dm ag1) rs path n" by (rule same_tree_found_param [OF _ s])
    have g: "pp_group pp = group_of (heap (dm ag1) n)" using n(3) same_tree_node(6) [OF s] by simp
    have "I (dm ag1) (Some sv, gv) \<Longrightarrow> I (dm ag1) (Some (STR_VECTOR_Add sv path), map_option (\<lambda>gv. INT_VECTOR_Add gv (pp_group pp)) gv)"
      using param [OF _ fp, of "Some sv" gv] g by simp
    then have "collects (\<lambda>x. x) I ag1 (Some sv, gv)
        (ag_ok ag1 (Some (STR_VECTOR_Add sv path), map_option (\<lambda>gv. INT_VECTOR_Add gv (pp_group pp)) gv))"
      by (auto simp: collects_def step_intros ag_ok_def)
    then show ?thesis using ops f add by (simp add: collects_simple)
  qed
qed

text \<open>A call for an object that has been reached.\<close>

definition child_call_ok :: "child_call \<Rightarrow> bool" where
  "child_call_ok call \<longleftrightarrow> (\<forall>depth ag path n inst found. reached (dm ag) path n \<longrightarrow>
     collects fst I ag found (call depth ag path n inst found))"

definition table_call_ok :: "child_call \<Rightarrow> bool" where
  "table_call_ok call \<longleftrightarrow> (\<forall>depth ag path n inst found. reached (dm ag) path n \<longrightarrow>
     node_type (heap (dm ag) n) = kDMNodeType_Object_MultiInstance \<longrightarrow> collects fst I ag found (call depth ag path n inst found))"

lemma resolve_children_collects:
  assumes "child_call_ok single" "table_call_ok multi"
  shows "reached (dm ag) path n \<Longrightarrow> set cs \<subseteq> set (child_nodes (heap (dm ag) n)) \<Longrightarrow>
    collects fst I ag found (resolve_children single multi rs depth ag path inst found cs)"
proof (induction cs arbitrary: ag inst found)
  case Nil
  then show ?case by (simp add: collects_simple)
next
  case (Cons c cs)
  let ?child = "heap (dm ag) c"
  let ?p = "append_path path (''.'' @ node_name ?child)"
  have c: "reached (dm ag) ?p c" using Cons.prems by (intro reached_child) auto
  have rest: "collects fst I ag1 found1 (resolve_children single multi rs depth ag1 path inst1 found1 cs)"
    if "same_tree (dm ag) (dm ag1)" for ag1 found1 inst1
    by (rule Cons.IH) (use Cons.prems that same_tree_reached same_tree_fields(6) [OF that] in auto)
  have seq: "collects fst I ag found (ag_bind m (\<lambda>ag1 (found1, inst1). resolve_children single multi rs depth ag1 path inst1 found1 cs))"
    if m: "collects fst I ag found m" for m
  proof (rule collects_seq [OF m])
    fix ag1 x assume "m = Some (ag1, Inr x)"
    then have "same_tree (dm ag) (dm ag1)" using keeps_treeD [OF collects_tree [OF m]] by blast
    then show "collects fst I ag1 (fst x) (case x of (found1, inst1) \<Rightarrow> resolve_children single multi rs depth ag1 path inst1 found1 cs)"
      by (cases x) (simp add: rest)
  qed
  show ?case
  proof (cases "node_type ?child = kDMNodeType_Object_SingleInstance \<or> node_type ?child = kDMNodeType_Object_MultiInstance")
    case True
    have "collects fst I ag found (single (depth - 1) ag ?p c inst found)"
      using assms(1) c unfolding child_call_ok_def by blast
    moreover have "node_type ?child = kDMNodeType_Object_MultiInstance \<Longrightarrow> collects fst I ag found (multi (depth - 1) ag ?p c inst found)"
      using assms(2) c unfolding table_call_ok_def by blast
    ultimately show ?thesis using True seq by (auto simp: Let_def)
  next
    case False
    show ?thesis
    proof (cases "child_verdict (rs_op rs) (node_type ?child) (DM_PRIV_GetPermissions ?child (rs_role rs))")
      case Pass
      note cp = child_pass [OF Pass plain] False
      then have fp: "found_param (dm ag) rs ?p c"
        using c unfolding found_param_def reached_def by blast
      have "I (dm ag) found \<Longrightarrow> I (dm ag) (add_child path ?child found)"
        using param [OF _ fp, of "fst found" "snd found"] cp by (simp add: add_child_def group_of_def)
      then show ?thesis using rest [OF same_tree_refl, of "add_child path ?child found" inst] False Pass
        by (auto simp: Let_def collects_def)
    qed (use False rest [OF same_tree_refl] in \<open>simp_all add: Let_def collects_simple\<close>)
  qed
qed

lemma resolve_instances_collects:
  assumes "child_call_ok single"
  shows "reached (dm ag) path n \<Longrightarrow> node_type (heap (dm ag) n) = kDMNodeType_Object_MultiInstance \<Longrightarrow>
    collects fst I ag found (resolve_instances single depth ag path n k inst found ns)"
proof (induction ns arbitrary: ag inst found)
  case Nil
  then show ?case by (simp add: collects_simple)
next
  case (Cons i ns)
  let ?p = "append_path path (''.'' @ show_int i)" and ?inst = "inst\<lparr>instances := (instances inst)[k := i]\<rparr>"
  have m: "collects fst I ag found (single depth ag ?p n ?inst found)"
    using assms reached_instance [OF Cons.prems] unfolding child_call_ok_def by blast
  show ?case unfolding resolve_instances.simps
  proof (rule collects_seq [OF m])
    fix ag1 x assume "single depth ag ?p n ?inst found = Some (ag1, Inr x)"
    then have s: "same_tree (dm ag) (dm ag1)" using keeps_treeD [OF collects_tree [OF m]] by blast
    show "collects fst I ag1 (fst x) (case x of (found1, inst1) \<Rightarrow> resolve_instances single depth ag1 path n k inst1 found1 ns)"
      using Cons.IH [OF same_tree_reached [OF Cons.prems(1) s], of "fst x" "snd x"] Cons.prems(2) same_tree_fields(4) [OF s]
      by (cases x) simp
  qed
qed

end

context path_collector
begin

lemma GetChildParams_collects:
  "child_call_ok (GetChildParams fuel h rs) \<and> table_call_ok (GetChildParams_MultiInstanceObject fuel h rs)"
proof (induction fuel)
  case 0
  then show ?case by (simp add: child_call_ok_def table_call_ok_def collects_simple)
next
  case (Suc fuel)
  have "child_call_ok (GetChildParams (Suc fuel) h rs)"
    using resolve_children_collects [OF Suc [THEN conjunct1] Suc [THEN conjunct2]]
    by (auto simp: child_call_ok_def collects_simple)
  moreover have "table_call_ok (GetChildParams_MultiInstanceObject (Suc fuel) h rs)"
    unfolding table_call_ok_def
  proof (intro allI impI)
    fix depth path n inst found and ag :: agent
    assume r: "reached (dm ag) path n" and t: "node_type (heap (dm ag) n) = kDMNodeType_Object_MultiInstance"
    show "collects fst I ag found (GetChildParams_MultiInstanceObject (Suc fuel) h rs depth ag path n inst found)"
    proof (cases "depth \<le> 0")
      case False
      show ?thesis
      proof (cases "DM_INST_VECTOR_GetInstances (instances_hook h) (dm ag) n inst")
        case (Some res)
        obtain st r1 iv inst1 where res: "res = (st, r1, iv, inst1)" by (metis prod_cases4)
        have s: "same_tree (dm ag) st" using GetInstances_result(3) Some res by blast
        let ?ag = "ag\<lparr>dm := st\<rparr>"
        have s': "same_tree (dm ag) (dm ?ag)" and s1: "reads_only ag ?ag" using s by (simp_all add: reads_only_def)
        show ?thesis
        proof (cases r1)
          case (Inl e)
          then show ?thesis using False Some res collects_step [OF s1 collects_simple(2)] by simp
        next
          case (Inr u)
          let ?k = "order inst1" and ?inst2 = "inst1\<lparr>inodes := (inodes inst1)[order inst1 := n], order := Suc (order inst1)\<rparr>"
          have r2: "reached (dm ?ag) path n" by (rule same_tree_reached [OF r s'])
          have t2: "node_type (heap (dm ?ag) n) = kDMNodeType_Object_MultiInstance"
            using t same_tree_fields(4) [OF s'] by simp
          have "collects fst I ?ag found (ag_bind (resolve_instances (GetChildParams fuel h rs) depth ?ag path n ?k ?inst2 found iv)
              (\<lambda>ag1 (found1, inst3). ag_ok ag1
                (found1, inst3\<lparr>inodes := (inodes inst3)[?k := NULL], instances := (instances inst3)[?k := 0], order := ?k\<rparr>)))"
            by (rule collects_seq [OF resolve_instances_collects [OF Suc [THEN conjunct1] r2 t2]])
               (auto simp: collects_simple split: prod.split)
          from collects_step [OF s1 this] show ?thesis
            using False Some res Inr by (simp add: Let_def collects_simple)
        qed
      qed (use False in \<open>simp add: collects_simple\<close>)
    qed (simp add: collects_simple)
  qed
  ultimately show ?case ..
qed

lemma ResolvePartialPath_collects:
  assumes "length path < MAX_DM_PATH"
  shows "collects (\<lambda>x. x) I ag found (ResolvePartialPath h rs ag path found)"
proof (cases "DM_PRIV_GetNodeFromPath (dm ag) path True True")
  case (Some res)
  obtain n inst q where res: "res = (n, inst, q)" by (metis prod_cases3)
  have path: "USP_STRNCPY path MAX_DM_PATH = path" by (rule USP_STRNCPY_fits [OF assms])
  have r: "reached (dm ag) path n" by (rule reached_start) (use Some res in simp)
  have "collects (\<lambda>x. x) I ag found (ag_bind (dm_exists h ag inst) (\<lambda>ag1 exists.
          if \<not> exists then ag_ok ag1 found
          else let child_path = USP_STRNCPY path MAX_DM_PATH
            in if q then
                 ag_bind (GetChildParams MAX_TREE_DEPTH h rs (rs_depth rs) ag1 child_path n inst found)
                   (\<lambda>ag2 (found1, _). ag_ok ag2 found1)
               else if node_type (heap (dm ag1) n) \<noteq> kDMNodeType_Object_MultiInstance then None
               else
                 ag_bind (GetChildParams_MultiInstanceObject MAX_TREE_DEPTH h rs (rs_depth rs) ag1 child_path n inst found)
                   (\<lambda>ag2 (found1, _). ag_ok ag2 found1)))"
  proof (rule collects_bind [OF dm_exists_tree])
    fix ag1 e assume "dm_exists h ag inst = Some (ag1, Inr e)"
    then have s: "same_tree (dm ag) (dm ag1)" using keeps_treeD [OF dm_exists_tree] by blast
    note r1 = same_tree_reached [OF r s]
    have c: "collects fst I ag1 found (GetChildParams MAX_TREE_DEPTH h rs (rs_depth rs) ag1 path n inst found)"
      using GetChildParams_collects r1 unfolding child_call_ok_def by blast
    have m: "node_type (heap (dm ag1) n) = kDMNodeType_Object_MultiInstance \<Longrightarrow>
        collects fst I ag1 found (GetChildParams_MultiInstanceObject MAX_TREE_DEPTH h rs (rs_depth rs) ag1 path n inst found)"
      using GetChildParams_collects r1 unfolding table_call_ok_def by blast
    show "collects (\<lambda>x. x) I ag1 found (if \<not> e then ag_ok ag1 found
          else let child_path = USP_STRNCPY path MAX_DM_PATH
            in if q then
                 ag_bind (GetChildParams MAX_TREE_DEPTH h rs (rs_depth rs) ag1 child_path n inst found)
                   (\<lambda>ag2 (found1, _). ag_ok ag2 found1)
               else if node_type (heap (dm ag1) n) \<noteq> kDMNodeType_Object_MultiInstance then None
               else
                 ag_bind (GetChildParams_MultiInstanceObject MAX_TREE_DEPTH h rs (rs_depth rs) ag1 child_path n inst found)
                   (\<lambda>ag2 (found1, _). ag_ok ag2 found1))"
      unfolding path Let_def
      by (auto intro!: collects_simple collects_seq [OF c] collects_seq [OF m] split: prod.split)
  qed
  then show ?thesis unfolding ResolvePartialPath_def Some res by (simp add: collects_simple)
qed (simp add: ResolvePartialPath_def collects_simple)

lemma path_complete_collects:
  assumes "length resolved < MAX_DM_PATH"
  shows "collects (\<lambda>x. x) I ag found (path_complete h rs ag resolved found)"
proof -
  have "rs_op rs \<notin> {kResolveOp_SubsAdd, kResolveOp_SubsDel}" using plain by (auto simp: plain_ops_def permit_ops_def reading_ops_def)
  then have "collects (\<lambda>x. x) I ag found (ag_bind (AddPathFound h rs ag (butlast resolved) found) (\<lambda>ag1 found1.
       if rs_op rs \<in> {kResolveOp_SubsAdd, kResolveOp_SubsDel} then
         map_option (\<lambda>ag2. (ag2, Inr found1)) (RefreshInstances_LifecycleSubscriptionEndingInPartialPath h ag1 (butlast resolved))
       else ag_ok ag1 found1))"
    by (intro collects_seq [OF AddPathFound_collects]) (simp add: collects_simple)
  then show ?thesis
    unfolding path_complete_def
    using assms by (simp add: collects_simple AddPathFound_collects ResolvePartialPath_collects)
qed

text \<open>The expansions, given the call that resolves the rest of the path.\<close>

definition expand_ok :: "expand_call \<Rightarrow> bool" where
  "expand_ok expand \<longleftrightarrow> (\<forall>ag resolved unresolved found. collects (\<lambda>x. x) I ag found (expand ag resolved unresolved found))"

lemma expand_okD: "expand_ok expand \<Longrightarrow> collects (\<lambda>x. x) I ag found (expand ag resolved unresolved found)"
  unfolding expand_ok_def by blast

lemma expand_instances_collects:
  "expand_ok expand \<Longrightarrow> collects (\<lambda>x. x) I ag found (expand_instances expand resolved unresolved ns ag found)"
  by (induction ns arbitrary: ag found) (auto intro!: collects_simple collects_seq [OF expand_okD])

lemma ExpandWildcard_collects:
  "expand_ok expand \<Longrightarrow> collects (\<lambda>x. x) I ag found (ExpandWildcard expand env ag resolved unresolved found)"
  unfolding ExpandWildcard_def
  by (rule collects_bind [OF GetInstances_tree]) (simp add: collects_simple expand_instances_collects)

lemma expand_matches_collects:
  "expand_ok expand \<Longrightarrow> collects (\<lambda>x. x) I ag found (expand_matches expand ld resolved unresolved sp ref_sp i ns ag found)"
proof (induction ns arbitrary: i ag found)
  case (Cons n ns)
  have IH: "collects (\<lambda>x. x) I ag1 found1 (expand_matches expand ld resolved unresolved sp ref_sp (Suc i) ns ag1 found1)"
    for ag1 found1 by (rule Cons.IH) (rule Cons.prems)
  show ?case unfolding expand_matches.simps
    by (intro collects_bind keeps_tree_pair_map) (simp add: IH collects_seq [OF expand_okD [OF Cons.prems]])
qed (simp add: collects_simple)

lemma ResolveUniqueKey_collects:
  assumes "expand_ok expand"
  shows "collects (\<lambda>x. x) I ag found (ResolveUniqueKey expand fuel env rs ag resolved unresolved found)"
  unfolding ResolveUniqueKey_def Let_def
  by (auto intro!: collects_simple collects_bind GetInstances_tree ExpandsNonReferencedKeys_tree ResolveReferencedKeys_tree
        collects_then [OF GetValues_tree] expand_matches_collects [OF assms]
      split: option.split prod.split sum.split)

end

definition keeping_calls :: "(resolver_state \<Rightarrow> expand_call) \<Rightarrow> bool" where
  "keeping_calls expand \<longleftrightarrow> (\<forall>rs ag resolved unresolved found. rs_op rs \<in> plain_ops \<longrightarrow>
     keeps_tree ag (expand rs ag resolved unresolved found))"

lemma follow_search_tree:
  assumes "keeping_calls expand"
  shows "keeps_tree ag (follow_search expand rs ag dereferenced)"
proof -
  have "keeps_tree ag (PATH_RESOLVER_ResolvePath_with expand
      \<lparr>rs_op = (if IS_FORGIVING (rs_op rs) then kResolveOp_ForgivingRef else kResolveOp_StrictRef),
       rs_depth = FULL_DEPTH, rs_role = rs_role rs, rs_flags = 0\<rparr> ag dereferenced (Some [], None))" for ag
    using assms unfolding PATH_RESOLVER_ResolvePath_with_def keeping_calls_def
    by (auto simp: plain_ops_def intro!: step_intros)
  then show ?thesis
    unfolding follow_search_def by (auto intro!: step_intros split: option.split list.split)
qed

context path_collector
begin

lemma ResolveReferenceFollow_collects:
  assumes "keeping_calls expand" "expand_ok (expand rs)"
  shows "collects (\<lambda>x. x) I ag found (ResolveReferenceFollow expand env rs ag resolved unresolved found)"
proof -
  have target: "collects (\<lambda>x. x) I ag2 found
      (case DATA_MODEL_GetPathProperties h ag2 dereferenced None of
         None \<Rightarrow> None
       | Some (ag3, pp) \<Rightarrow>
          if pp_flags pp AND PP_IS_OBJECT = 0 \<or> pp_flags pp AND PP_IS_OBJECT_INSTANCE = 0
          then ag_err ag3 USP_ERR_INVALID_PATH_SYNTAX
          else if pp_flags pp AND PP_INSTANCE_NUMBERS_EXIST = 0 then
            (if IS_STRICT (rs_op rs) then ag_err ag3 USP_ERR_OBJECT_DOES_NOT_EXIST else ag_ok ag3 found)
          else expand rs ag3 dereferenced unresolved found)" for ag2 dereferenced h
    by (rule collects_then [OF GetPathProperties_tree]) (simp add: collects_simple expand_okD [OF assms(2)])
  have rest: "collects (\<lambda>x. x) I ag1 found (ag_bind (follow_search expand rs ag1 p) (\<lambda>ag2 target.
      case target of
        None \<Rightarrow> ag_ok ag2 found
      | Some dereferenced \<Rightarrow>
         (case DATA_MODEL_GetPathProperties h ag2 dereferenced None of
            None \<Rightarrow> None
          | Some (ag3, pp) \<Rightarrow>
             if pp_flags pp AND PP_IS_OBJECT = 0 \<or> pp_flags pp AND PP_IS_OBJECT_INSTANCE = 0
             then ag_err ag3 USP_ERR_INVALID_PATH_SYNTAX
             else if pp_flags pp AND PP_INSTANCE_NUMBERS_EXIST = 0 then
               (if IS_STRICT (rs_op rs) then ag_err ag3 USP_ERR_OBJECT_DOES_NOT_EXIST else ag_ok ag3 found)
             else expand rs ag3 dereferenced unresolved found)))" for ag1 p h
  proof (rule collects_bind [OF follow_search_tree [OF assms(1)]])
    fix ag2 t
    show "collects (\<lambda>x. x) I ag2 found (case t of
        None \<Rightarrow> ag_ok ag2 found
      | Some dereferenced \<Rightarrow>
         (case DATA_MODEL_GetPathProperties h ag2 dereferenced None of
            None \<Rightarrow> None
          | Some (ag3, pp) \<Rightarrow>
             if pp_flags pp AND PP_IS_OBJECT = 0 \<or> pp_flags pp AND PP_IS_OBJECT_INSTANCE = 0
             then ag_err ag3 USP_ERR_INVALID_PATH_SYNTAX
             else if pp_flags pp AND PP_INSTANCE_NUMBERS_EXIST = 0 then
               (if IS_STRICT (rs_op rs) then ag_err ag3 USP_ERR_OBJECT_DOES_NOT_EXIST else ag_ok ag3 found)
             else expand rs ag3 dereferenced unresolved found))"
      by (cases t) (simp_all only: option.case collects_simple target)
  qed
  show ?thesis
    unfolding ResolveReferenceFollow_def Let_def
    by (auto intro!: collects_simple collects_bind [OF GetParameterValue_tree] rest split: prod.split sum.split)
qed

end

lemma scan_path_length: "scan_path r u = Scan_End r' \<Longrightarrow> length r < MAX_DM_PATH \<Longrightarrow> length r' < MAX_DM_PATH"
  by (induction r u rule: scan_path.induct) (auto split: if_splits)

lemma trivial_collector: "rs_op rs \<in> plain_ops \<Longrightarrow> path_collector (\<lambda>_ _. True) rs"
  by unfold_locales simp_all

lemma ExpandPath_collects:
  "path_collector I rs \<Longrightarrow> collects (\<lambda>x. x) I ag found (ExpandPath fuel env rs ag resolved unresolved found)"
proof (induction fuel arbitrary: I rs ag resolved unresolved found)
  case 0
  then show ?case by (simp add: path_collector.collects_simple)
next
  case (Suc fuel)
  note pc = Suc.prems
  have expand: "path_collector.expand_ok I (ExpandPath fuel env rs)"
    unfolding path_collector.expand_ok_def [OF pc] using Suc.IH [OF pc] by blast
  have keeping: "keeping_calls (ExpandPath fuel env)"
    unfolding keeping_calls_def using Suc.IH [OF trivial_collector] collects_tree by blast
  show ?case
  proof (cases "MAX_DM_PATH - 1 \<le> length resolved")
    case True
    then show ?thesis by (simp add: path_collector.collects_simple [OF pc])
  next
    case False
    then have len: "length resolved < MAX_DM_PATH" by simp
    show ?thesis
    proof (cases "scan_path resolved unresolved")
      case (Scan_End resolved1)
      then show ?thesis
        using False path_collector.path_complete_collects [OF pc scan_path_length [OF Scan_End len]] by simp
    next
      case (Scan_Special resolved1 c rest)
      then show ?thesis
        using False path_collector.ExpandWildcard_collects [OF pc expand]
          path_collector.ResolveReferenceFollow_collects [OF pc keeping expand]
          path_collector.ResolveUniqueKey_collects [OF pc expand] by simp
    next
      case Scan_Full
      then show ?thesis using False by (simp add: path_collector.collects_simple [OF pc])
    qed
  qed
qed

context path_collector
begin

text \<open>The contract of the resolver: whatever it collects, the invariant of the collection holds.\<close>

lemma ResolvePath_collects:
  "collects (\<lambda>x. x) I ag found (PATH_RESOLVER_ResolvePath fuel env rs ag path found)"
  unfolding PATH_RESOLVER_ResolvePath_def PATH_RESOLVER_ResolvePath_with_def
  by (simp add: collects_simple ExpandPath_collects [OF path_collector_axioms])

lemma resolved_keeps:
  assumes "PATH_RESOLVER_ResolvePath fuel env rs ag path found = Some (ag', Inr found')" "I (dm ag) found"
  shows "I (dm ag') found'" "same_tree (dm ag) (dm ag')"
  using ResolvePath_collects [of ag found fuel env path] assms unfolding collects_def steps_def by (blast intro: reads_same_tree)+

end

section \<open>The collector of a read\<close>

text \<open>The paths are parameters the role may read; a vector of groups goes along with them.\<close>

fun reads_inv :: "resolver_state \<Rightarrow> dm_state \<Rightarrow> resolved_paths \<Rightarrow> bool" where
  "reads_inv rs st (None, gv) = True"
| "reads_inv rs st (Some ps, None) = (\<forall>p\<in>set ps. \<exists>c. found_param st rs p c)"
| "reads_inv rs st (Some ps, Some gs) = list_all2 (\<lambda>p g. \<exists>c. found_param st rs p c \<and> g = group_of (heap st c)) ps gs"

lemma plain_collector:
  assumes "rs_op rs \<in> plain_ops"
  shows "path_collector (reads_inv rs) rs"
proof
  show "rs_op rs \<in> plain_ops" by (rule assms)
next
  fix st st' and found :: resolved_paths
  assume inv: "reads_inv rs st found" and s: "same_tree st st'"
  have one: "\<exists>c. found_param st' rs p c \<and> g = group_of (heap st' c)"
    if "\<exists>c. found_param st rs p c \<and> g = group_of (heap st c)" for p g
    using that same_tree_found_param [OF _ s] same_tree_node(6) [OF s] by metis
  from inv show "reads_inv rs st' found"
  proof (cases "(rs, st, found)" rule: reads_inv.cases)
    case (2 rs1 st1 ps)
    with inv show ?thesis using same_tree_found_param [OF _ s] by auto blast
  next
    case (3 rs1 st1 ps gs)
    with inv have "list_all2 (\<lambda>p g. \<exists>c. found_param st rs p c \<and> g = group_of (heap st c)) ps gs" by simp
    then have "list_all2 (\<lambda>p g. \<exists>c. found_param st' rs p c \<and> g = group_of (heap st' c)) ps gs"
      by (rule list_all2_mono) (rule one)
    with 3 show ?thesis by simp
  qed auto
next
  fix st sv gv path c
  assume inv: "reads_inv rs st (sv, gv)" and fp: "found_param st rs path c"
  then have "\<exists>d. found_param st rs path d \<and> group_of (heap st c) = group_of (heap st d)" by blast
  with inv fp show "reads_inv rs st (map_option (\<lambda>v. STR_VECTOR_Add v path) sv,
      map_option (\<lambda>v. INT_VECTOR_Add v (group_of (heap st c))) gv)"
    by (cases sv; cases gv) (auto simp: STR_VECTOR_Add_def INT_VECTOR_Add_def intro!: list_all2_appendI)
qed

lemma reads_collector: "rs_op rs \<in> reading_ops \<Longrightarrow> path_collector (reads_inv rs) rs"
  by (rule plain_collector) (simp add: plain_ops_def permit_ops_def)

text \<open>A vector that is given is there in the result, and none comes up that is not given.\<close>

lemma resolved_vectors:
  assumes "rs_op rs \<in> plain_ops" "PATH_RESOLVER_ResolvePath fuel env rs ag path (sv, gv) = Some (ag', Inr (sv', gv'))"
  shows "(sv' = None \<longleftrightarrow> sv = None) \<and> (gv' = None \<longleftrightarrow> gv = None)"
proof -
  have "path_collector (\<lambda>st found. (fst found = None \<longleftrightarrow> sv = None) \<and> (snd found = None \<longleftrightarrow> gv = None)) rs"
    using assms(1) by unfold_locales simp_all
  from path_collector.resolved_keeps(1) [OF this assms(2)] show ?thesis by simp
qed

definition get_state :: "int \<Rightarrow> combined_role option \<Rightarrow> resolver_state" where
  "get_state depth r = \<lparr>rs_op = kResolveOp_Get, rs_depth = depth, rs_role = r, rs_flags = 0\<rparr>"

interpretation get_paths: path_collector "reads_inv (get_state depth r)" "get_state depth r"
  by (rule reads_collector) (simp add: get_state_def reading_ops_def)

section \<open>Properties\<close>

text \<open>
  C9: whatever path a get (or a bulk data report, or a value change subscription) resolves, with
  wildcards, search expressions, references and partial paths, each path it collects leads to a
  parameter of the data model on which the role has the permission, each group collected is the
  group of that parameter, so that the two vectors can be joined for the group get, and the tree has
  not changed.
\<close>

theorem ResolvePath_reads_permitted:
  assumes "rs_op rs \<in> reading_ops"
    and "PATH_RESOLVER_ResolvePath fuel env rs ag path (Some [], Some []) = Some (ag', Inr (Some ps, Some gs))"
  shows "list_all2 (\<lambda>p g. \<exists>c. found_param (dm ag') rs p c \<and> g = group_of (heap (dm ag') c)) ps gs \<and>
    GROUP_GET_VECTOR_AddParams ggv ps gs \<noteq> None \<and> same_tree (dm ag) (dm ag')"
proof -
  note keeps = path_collector.resolved_keeps [OF reads_collector [OF assms(1)] assms(2)]
  have "list_all2 (\<lambda>p g. \<exists>c. found_param (dm ag') rs p c \<and> g = group_of (heap (dm ag') c)) ps gs"
    using keeps(1) by simp
  moreover from this have "length ps = length gs" by (rule list_all2_lengthD)
  ultimately show ?thesis using keeps(2) by (simp add: GROUP_GET_VECTOR_AddParams_def)
qed

definition demo_env :: resolver_env where
  "demo_env = \<lparr>re_hooks = demo_hooks, re_numbers = \<lparr>scan_Lf = (\<lambda>_. Not_A_Number), ld_eq = (=), ld_less = (<),
     ld_less_eq = (\<le>), stale = (0, 0)\<rparr>\<rparr>"

lemma param_agent_properties:
  assumes "DM_PRIV_GetPermissions param_node role = PERMIT_ALL"
  shows "\<exists>pp. DATA_MODEL_GetPathProperties demo_hooks param_agent ''Device.P'' role = Some (param_agent, pp) \<and>
    pp_group pp = NON_GROUPED \<and> pp_permissions pp = PERMIT_ALL \<and>
    pp_flags pp = (PP_EXISTS_IN_SCHEMA OR (PP_IS_SECURE_PARAM OR PP_IS_WRITABLE OR PP_IS_PARAMETER)) OR
      (PP_INSTANCE_NUMBERS_EXIST OR PP_PARENT_INSTANCE_NUMBERS_EXIST)"
proof -
  have n: "DM_PRIV_GetNodeFromPath (dm param_agent) ''Device.P'' True True = Some (3, zero_instances, True)"
  proof -
    have "DM_PRIV_CalcHashFromPath True ''Device.P'' = Inr (TEXT_UTILS_CalcHash ''Device.P'', zero_instances)" by code_simp
    then show ?thesis by (simp add: DM_PRIV_GetNodeFromPath_def FindNodeFromHash_def param_agent_def demo_state_def
        param_node_def zero_instances_def)
  qed
  have t: "node_type (heap (dm param_agent) 3) = kDMNodeType_DBParam_Secure"
    "param_group_id (param_info (heap (dm param_agent) 3)) = NON_GROUPED"
    by (simp_all add: param_agent_def param_node_def)
  have p: "DM_PRIV_GetPermissions (heap (dm param_agent) 3) role = PERMIT_ALL"
    using assms by (simp add: param_agent_def)
  have e: "dm_exists demo_hooks param_agent zero_instances = Some (param_agent, Inr True)"
    by (simp add: dm_exists_def on_dm_def DM_INST_VECTOR_IsExist_def zero_instances_def)
  show ?thesis
    by (simp add: DATA_MODEL_GetPathProperties_def n e t IsParam_def IsObject_def type_properties_def p)
qed

lemma param_agent_resolve:
  assumes "DM_PRIV_GetPermissions param_node (rs_role rs) = PERMIT_ALL" "rs_op rs = kResolveOp_Get"
  shows "PATH_RESOLVER_ResolvePath 1 demo_env rs param_agent ''Device.P'' (Some [], Some []) =
    Some (param_agent, Inr (Some [''Device.P''], Some [NON_GROUPED]))"
proof -
  obtain pp where pp: "DATA_MODEL_GetPathProperties demo_hooks param_agent ''Device.P'' (rs_role rs) = Some (param_agent, pp)"
    "pp_group pp = NON_GROUPED" "pp_permissions pp = PERMIT_ALL"
    "pp_flags pp = (PP_EXISTS_IN_SCHEMA OR (PP_IS_SECURE_PARAM OR PP_IS_WRITABLE OR PP_IS_PARAMETER)) OR
      (PP_INSTANCE_NUMBERS_EXIST OR PP_PARENT_INSTANCE_NUMBERS_EXIST)"
    using param_agent_properties [OF assms(1)] by blast
  have "CheckPathProperties demo_hooks rs param_agent ''Device.P'' = ag_ok param_agent (True, pp)"
    by (simp add: CheckPathProperties_def assms(2) pp wrong_type_def wrong_instance_def permission_verdict_def
        existence_verdict_def PP_defs PERMIT_ALL_def PERMIT_GET_def)
  then show ?thesis
    by (simp add: PATH_RESOLVER_ResolvePath_def PATH_RESOLVER_ResolvePath_with_def USP_STRNCPY_def MAX_DM_PATH_def assms(2)
        path_complete_def AddPathFound_def demo_env_def pp(2) STR_VECTOR_Find_def STR_VECTOR_Add_def INT_VECTOR_Add_def ag_ok_def first_index_Nil)
qed

theorem ResolvePath_reads_permitted_witness:
  "\<exists>ag' ps gs. PATH_RESOLVER_ResolvePath 1 demo_env (get_state FULL_DEPTH None) param_agent ''Device.P'' (Some [], Some []) =
      Some (ag', Inr (Some ps, Some gs)) \<and> ps = [''Device.P''] \<and> gs = [NON_GROUPED] \<and>
    (\<exists>c. found_param (dm ag') (get_state FULL_DEPTH None) ''Device.P'' c)"
proof -
  have r: "PATH_RESOLVER_ResolvePath 1 demo_env (get_state FULL_DEPTH None) param_agent ''Device.P'' (Some [], Some []) =
      Some (param_agent, Inr (Some [''Device.P''], Some [NON_GROUPED]))"
    by (rule param_agent_resolve) (simp_all add: get_state_def DM_PRIV_GetPermissions_def)
  from ResolvePath_reads_permitted [OF _ this] have
    "\<exists>c. found_param (dm param_agent) (get_state FULL_DEPTH None) ''Device.P'' c"
    by (auto simp: get_state_def reading_ops_def)
  then show ?thesis using r by blast
qed

end
