(* ===== verification/Path_Cycle.thy ===== *)
theory Path_Cycle
  imports Path_Collect
begin

text \<open>
  References that lead back to themselves (core/path_resolver.c, ResolveReferenceFollow). A reference
  is the value of a parameter, which a controller writes; it may hold a path with a reference in it,
  and then the resolver calls itself on that path. Nothing bounds the nesting: a reference that
  starts with itself makes the agent run out of stack.
\<close>

text \<open>A path whose first part to be expanded is the reference in the parameter \<open>ref\<close>.\<close>

definition no_specials :: "cstr \<Rightarrow> bool" where
  "no_specials s = list_all (\<lambda>c. c \<notin> {CHR ''*'', CHR ''+'', CHR ''[''}) s"

lemma scan_path_follow:
  "no_specials s \<Longrightarrow> length resolved + length s < MAX_DM_PATH \<Longrightarrow>
    scan_path resolved (s @ CHR ''+'' # rest) = Scan_Special (resolved @ s) CHR ''+'' rest"
  by (induction s arbitrary: resolved) (auto simp: no_specials_def)

lemma takeWhile_all [simp]: "c \<notin> set s \<Longrightarrow> takeWhile (\<lambda>x. x \<noteq> c) s = s"
  by (induction s) auto

text \<open>One round: the resolver is called on the value, as a forgiving or a strict reference.\<close>

definition nested_state :: "resolver_state \<Rightarrow> resolver_state" where
  "nested_state rs = \<lparr>rs_op = (if IS_FORGIVING (rs_op rs) then kResolveOp_ForgivingRef else kResolveOp_StrictRef),
     rs_depth = FULL_DEPTH, rs_role = rs_role rs, rs_flags = 0\<rparr>"

lemma nested_state_simps [simp]: "rs_role (nested_state rs) = rs_role rs" "rs_op (nested_state rs) \<noteq> kResolveOp_GetBulkData"
  by (simp_all add: nested_state_def)

lemma follow_search_nested:
  assumes "CHR ''+'' \<in> set p" "length p < MAX_DM_PATH" "split_at_needle ''..'' p = None"
    and "expand (nested_state rs) ag [] p (Some [], None) = None"
  shows "follow_search expand rs ag p = None"
  using assms by (auto simp: follow_search_def reference_chars_def PATH_RESOLVER_ResolvePath_with_def nested_state_def
      USP_STRNCPY_def)

definition self_reference :: "resolver_env \<Rightarrow> agent \<Rightarrow> combined_role option \<Rightarrow> cstr \<Rightarrow> cstr \<Rightarrow> bool" where
  "self_reference env ag role ref rest =
    (DATA_MODEL_GetParameterValue (re_hooks env) ag ref MAX_DM_PATH 0 = ag_ok ag (ref @ CHR ''+'' # rest) \<and>
     (\<exists>perm u. DATA_MODEL_GetPermissions ag ref role = (perm, Inr u) \<and> perm AND PERMIT_GET \<noteq> 0) \<and>
     no_specials ref \<and> CHR '','' \<notin> set (ref @ rest) \<and> length (ref @ CHR ''+'' # rest) < MAX_DM_PATH \<and>
     split_at_needle ''..'' (ref @ CHR ''+'' # rest) = None)"

lemma ExpandPath_self_reference:
  assumes "self_reference env ag role ref rest" "rs_role rs = role" "rs_op rs \<noteq> kResolveOp_GetBulkData"
  shows "ExpandPath fuel env rs ag [] (ref @ CHR ''+'' # rest') found = None"
  using assms(2,3)
proof (induction fuel arbitrary: rs rest' found)
  case (Suc fuel)
  let ?val = "ref @ CHR ''+'' # rest"
  obtain perm u where s: "DATA_MODEL_GetParameterValue (re_hooks env) ag ref MAX_DM_PATH 0 = ag_ok ag ?val"
    "DATA_MODEL_GetPermissions ag ref (rs_role rs) = (perm, Inr u)" "perm AND PERMIT_GET \<noteq> 0" "no_specials ref"
    "CHR '','' \<notin> set ?val" "length ?val < MAX_DM_PATH" "split_at_needle ''..'' ?val = None"
    using assms(1) Suc.prems(1) unfolding self_reference_def by auto
  have scan: "scan_path [] (ref @ CHR ''+'' # rest') = Scan_Special ref CHR ''+'' rest'"
    using scan_path_follow [OF s(4), of "[]" rest'] s(6) by simp
  have "ExpandPath fuel env (nested_state rs) ag [] ?val (Some [], None) = None"
    by (rule Suc.IH) (simp_all add: Suc.prems(1))
  then have "follow_search (ExpandPath fuel env) rs ag ?val = None"
    using s(6,7) by (intro follow_search_nested) auto
  then have "ResolveReferenceFollow (ExpandPath fuel env) env rs ag ref rest' found = None"
    using s(1-3,5) Suc.prems(2) by (simp add: ResolveReferenceFollow_def ag_ok_def)
  then show ?case by (simp add: scan MAX_DM_PATH_def)
qed simp

section \<open>Properties\<close>

text \<open>
  C36: a parameter the role may read whose value is a path that starts by following the parameter
  itself is a reference no stack is deep enough for: whatever the nesting allowed, a path that
  follows it is never resolved, and the whole call never returns.
\<close>

theorem self_reference_never_ends:
  assumes "self_reference env ag (rs_role rs) ref rest" "rs_op rs \<noteq> kResolveOp_GetBulkData"
    and "split_at_needle ''..'' (ref @ CHR ''+'' # rest') = None" "length (ref @ CHR ''+'' # rest') < MAX_DM_PATH"
  shows "\<forall>fuel. PATH_RESOLVER_ResolvePath fuel env rs ag (ref @ CHR ''+'' # rest') (Some [], None) = None"
  using assms(3,4) ExpandPath_self_reference [OF assms(1) refl assms(2)]
  by (simp add: PATH_RESOLVER_ResolvePath_def PATH_RESOLVER_ResolvePath_with_def USP_STRNCPY_def)

text \<open>A parameter a controller has set to a path that follows it.\<close>

definition cyclic_node :: dm_node where
  "cyclic_node = param_node\<lparr>node_type := kDMNodeType_DBParam_ReadWrite\<rparr>"

definition cyclic_agent :: agent where
  "cyclic_agent = param_agent\<lparr>dm := (dm param_agent)\<lparr>heap := (\<lambda>_. cyclic_node)\<rparr>,
     db := (db param_agent)\<lparr>rows := [(TEXT_UTILS_CalcHash ''Device.P'', []) \<mapsto> ''Device.P+'']\<rparr>\<rparr>"

lemma cyclic_agent_node:
  "DM_PRIV_GetNodeFromPath (dm cyclic_agent) ''Device.P'' True False = Some (3, zero_instances, True)"
  "\<exists>inst q. DM_PRIV_GetNodeFromPath (dm cyclic_agent) ''Device.P'' False False = Some (3, inst, q)"
proof -
  have c: "DM_PRIV_CalcHashFromPath True ''Device.P'' = Inr (TEXT_UTILS_CalcHash ''Device.P'', zero_instances)"
    "DM_PRIV_CalcHashFromPath False ''Device.P'' = Inr (TEXT_UTILS_CalcHash ''Device.P'', zero_instances)" by code_simp+
  show "DM_PRIV_GetNodeFromPath (dm cyclic_agent) ''Device.P'' True False = Some (3, zero_instances, True)"
    "\<exists>inst q. DM_PRIV_GetNodeFromPath (dm cyclic_agent) ''Device.P'' False False = Some (3, inst, q)"
    by (auto simp: DM_PRIV_GetNodeFromPath_def FindNodeFromHash_def cyclic_agent_def param_agent_def demo_state_def
        param_node_def cyclic_node_def c zero_instances_def)
qed

lemma cyclic_agent_value:
  "DATA_MODEL_GetParameterValue demo_hooks cyclic_agent ''Device.P'' MAX_DM_PATH 0 = ag_ok cyclic_agent ''Device.P+''"
proof -
  have r: "rows (db cyclic_agent) (TEXT_UTILS_CalcHash ''Device.P'', []) = Some ''Device.P+''"
    "sql (db cyclic_agent) stmt" for stmt by (simp_all add: cyclic_agent_def param_agent_def demo_agent_def)
  have t: "node_type (heap (dm cyclic_agent) 3) = kDMNodeType_DBParam_ReadWrite"
    "node_hash (heap (dm cyclic_agent) 3) = TEXT_UTILS_CalcHash ''Device.P''"
    by (simp_all add: cyclic_agent_def cyclic_node_def param_node_def)
  have f: "FormInstanceString zero_instances MAX_DM_PATH = Some []" by code_simp
  have "DATABASE_GetParameterValue (db cyclic_agent) (TEXT_UTILS_CalcHash ''Device.P'') [] MAX_DM_PATH 0 = Inr ''Device.P+''"
    by (simp add: DATABASE_GetParameterValue_def r MAX_DM_PATH_def c_string_id nul_free_def)
  then have "get_db_param cyclic_agent 3 zero_instances MAX_DM_PATH 0 = ag_ok cyclic_agent ''Device.P+''"
    by (simp add: get_db_param_def f t)
  moreover have "order zero_instances = 0" by (simp add: zero_instances_def)
  ultimately show ?thesis
    by (simp add: DATA_MODEL_GetParameterValue_def cyclic_agent_node t ag_ok_def MAX_DM_PATH_def)
qed

theorem self_reference_never_ends_witness:
  "self_reference demo_env cyclic_agent None ''Device.P'' [] \<and>
    (\<forall>fuel. PATH_RESOLVER_ResolvePath fuel demo_env (get_state FULL_DEPTH None) cyclic_agent ''Device.P+.'' (Some [], None) = None)"
proof -
  have p: "fst (DATA_MODEL_GetPermissions cyclic_agent ''Device.P'' None) = PERMIT_ALL"
    "\<exists>u. snd (DATA_MODEL_GetPermissions cyclic_agent ''Device.P'' None) = Inr u"
    using cyclic_agent_node(2) by (auto simp: DATA_MODEL_GetPermissions_def DM_PRIV_GetPermissions_def)
  have "self_reference demo_env cyclic_agent None ''Device.P'' []"
    using p by (cases "DATA_MODEL_GetPermissions cyclic_agent ''Device.P'' None")
      (auto simp: self_reference_def demo_env_def cyclic_agent_value [unfolded MAX_DM_PATH_def] no_specials_def MAX_DM_PATH_def PERMIT_ALL_def
        PERMIT_GET_def prefix_def)
  moreover from this self_reference_never_ends [of demo_env cyclic_agent "get_state FULL_DEPTH None" "''Device.P''" "[]" "''.''"]
  have "\<forall>fuel. PATH_RESOLVER_ResolvePath fuel demo_env (get_state FULL_DEPTH None) cyclic_agent ''Device.P+.'' (Some [], None) = None"
    by (simp add: get_state_def MAX_DM_PATH_def prefix_def)
  ultimately show ?thesis by blast
qed

end
