(* ===== verification/Sar_Vector.thy ===== *)
theory Sar_Vector
  imports Usp_Prelude "HOL-Library.Word"
begin

text \<open>
  The segments of a message that is being received in a session (\<open>core/sar_vector.c\<close>). Data are lists of
  bytes; the length of a segment and the sum of the lengths are ints of the code, written out as
  integers because the messages received are shorter than 2 GB. num_entries is the length of the list.
\<close>

type_synonym bytes = "8 word list"

record sar_payload =
  sess_id :: "64 word"
  seq_id :: "64 word"
  sar_data :: bytes

record sar_vector =
  sar_payloads :: "sar_payload list"
  sum_length :: int

definition SAR_VECTOR_Init :: sar_vector where
  "SAR_VECTOR_Init = \<lparr>sar_payloads = [], sum_length = 0\<rparr>"

definition IsValidPayload :: "sar_vector \<Rightarrow> sar_payload \<Rightarrow> bool" where
  "IsValidPayload sarv new_payload =
    (if sar_payloads sarv = [] then True
     else let last_payload = last (sar_payloads sarv)
       in if sess_id last_payload \<noteq> sess_id new_payload then False
          else if seq_id new_payload \<noteq> seq_id last_payload + 1 then False
          else True)"

definition SAR_VECTOR_Append :: "sar_vector \<Rightarrow> 64 word \<Rightarrow> 64 word \<Rightarrow> bytes \<Rightarrow> sar_vector \<times> bool" where
  "SAR_VECTOR_Append sarv sess seq bs =
    (let new_payload = \<lparr>sess_id = sess, seq_id = seq, sar_data = bs\<rparr>
     in if IsValidPayload sarv new_payload
        then (\<lparr>sar_payloads = sar_payloads sarv @ [new_payload], sum_length = sum_length sarv + int (length bs)\<rparr>, True)
        else (sarv, False))"

definition SAR_VECTOR_Destroy :: "sar_vector \<Rightarrow> sar_vector" where
  "SAR_VECTOR_Destroy sarv = SAR_VECTOR_Init"

definition SAR_VECTOR_Get :: "sar_vector \<Rightarrow> nat \<Rightarrow> sar_payload option" where
  "SAR_VECTOR_Get sarv index = (if index < length (sar_payloads sarv) then Some (sar_payloads sarv ! index) else None)"

text \<open>The inner \<open>None\<close> is NULL, the outer one the assertion on the sum of the lengths.\<close>

definition SAR_VECTOR_Serialize :: "sar_vector \<Rightarrow> bytes option option" where
  "SAR_VECTOR_Serialize sarv =
    (if sum_length sarv \<le> 0 then Some None
     else let bs = concat (map sar_data (sar_payloads sarv))
       in if int (length bs) \<noteq> sum_length sarv then None else Some (Some bs))"

section \<open>The segments are consecutive\<close>

text \<open>
  The segments are those of one session, numbered without a gap from the first one, and the sum is the
  sum of their lengths.
\<close>

definition sar_ok :: "sar_vector \<Rightarrow> bool" where
  "sar_ok sarv \<longleftrightarrow> sum_length sarv = int (length (concat (map sar_data (sar_payloads sarv)))) \<and>
    (\<exists>s q. \<forall>i<length (sar_payloads sarv). sess_id (sar_payloads sarv ! i) = s \<and> seq_id (sar_payloads sarv ! i) = q + of_nat i)"

lemma sar_ok_Init [simp, intro]: "sar_ok SAR_VECTOR_Init"
  by (simp add: sar_ok_def SAR_VECTOR_Init_def)

lemma Append_accepts:
  "snd (SAR_VECTOR_Append sarv sess seq bs) \<longleftrightarrow> sar_payloads sarv = [] \<or>
    sess_id (last (sar_payloads sarv)) = sess \<and> seq = seq_id (last (sar_payloads sarv)) + 1"
  by (simp add: SAR_VECTOR_Append_def IsValidPayload_def Let_def)

lemma sar_ok_Append:
  assumes "sar_ok sarv" shows "sar_ok (fst (SAR_VECTOR_Append sarv sess seq bs))"
proof (cases "snd (SAR_VECTOR_Append sarv sess seq bs)")
  case False
  then show ?thesis using assms by (simp add: SAR_VECTOR_Append_def Let_def split: if_splits)
next
  case True
  let ?ps = "sar_payloads sarv"
  obtain s q where ok: "\<And>i. i < length ?ps \<Longrightarrow> sess_id (?ps ! i) = s \<and> seq_id (?ps ! i) = q + of_nat i"
    using assms unfolding sar_ok_def by blast
  have a: "SAR_VECTOR_Append sarv sess seq bs =
      (\<lparr>sar_payloads = ?ps @ [\<lparr>sess_id = sess, seq_id = seq, sar_data = bs\<rparr>], sum_length = sum_length sarv + int (length bs)\<rparr>, True)"
    using True by (simp add: SAR_VECTOR_Append_def Let_def split: if_splits)
  show ?thesis
  proof (cases "?ps = []")
    case True
    then show ?thesis using assms by (simp add: a sar_ok_def)
  next
    case False
    then have n: "0 < length ?ps" by simp
    have "sess = s \<and> seq = q + of_nat (length ?ps)"
      using True False ok [of "length ?ps - 1"] n
      by (simp add: Append_accepts last_conv_nth of_nat_diff)
    then have "\<forall>i<Suc (length ?ps). sess_id ((?ps @ [\<lparr>sess_id = sess, seq_id = seq, sar_data = bs\<rparr>]) ! i) = s \<and>
        seq_id ((?ps @ [\<lparr>sess_id = sess, seq_id = seq, sar_data = bs\<rparr>]) ! i) = q + of_nat i"
      using ok by (auto simp: nth_append less_Suc_eq)
    then show ?thesis using assms by (auto simp: a sar_ok_def)
  qed
qed

lemma sar_ok_Destroy [simp, intro]: "sar_ok (SAR_VECTOR_Destroy sarv)"
  by (simp add: SAR_VECTOR_Destroy_def)

lemma Serialize_ok:
  assumes "sar_ok sarv"
  shows "SAR_VECTOR_Serialize sarv =
    Some (let bs = concat (map sar_data (sar_payloads sarv)) in if bs = [] then None else Some bs)"
proof -
  obtain bs where bs: "concat (map sar_data (sar_payloads sarv)) = bs" by blast
  then have "sum_length sarv = int (length bs)" using assms by (simp add: sar_ok_def)
  then show ?thesis unfolding SAR_VECTOR_Serialize_def bs by (simp add: Let_def)
qed

end
