(* ===== verification/Protobuf.thy ===== *)
theory Protobuf
  imports Sar_Vector
begin

text \<open>
  Packing a message of protocol buffers, and computing its packed size (\<open>core/protobuf-c.c\<close>, of the
  library's 3675 lines the functions below \<open>protobuf_c_message_pack\<close> and
  \<open>protobuf_c_message_get_packed_size\<close>). A message is the list of its fields, each with its number and its
  value, in the order of the descriptor; the label of a field is its constructor. The bytes written are
  the list of bytes that a function gives, and its return value is their number. Sizes have 32 bits
  (\<open>size_t\<close>). No message of this program has a repeated field in the packed form, which is left out.
\<close>

unbundle bit_operations_syntax

section \<open>Messages\<close>

text \<open>The data are the bytes at the pointer; a NULL pointer has no bytes, whatever the length says.\<close>

record pb_binary =
  bd_len :: "32 word"
  bd_data :: bytes

text \<open>
  The types that are encoded alike share a constructor: ENUM and INT32, INT64 and UINT64, the types
  of 32 and those of 64 fixed bits.
\<close>

datatype pb_value =
    Pb_Int32 "32 word"
  | Pb_Uint32 "32 word"
  | Pb_Sint32 "32 word"
  | Pb_Uint64 "64 word"
  | Pb_Sint64 "64 word"
  | Pb_Fixed32 "32 word"
  | Pb_Fixed64 "64 word"
  | Pb_Bool bool
  | Pb_String "cstr option"
  | Pb_Bytes pb_binary
  | Pb_Message "pb_message option"
and pb_field =
    Required "32 word" pb_value
  | Oneof "32 word" "32 word" pb_value
  | Optional "32 word" bool pb_value
  | Unlabeled "32 word" pb_value
  | Repeated "32 word" "pb_value list"
and pb_message = Pb_Fields "pb_field list"

section \<open>Sizes\<close>

definition get_tag_size :: "32 word \<Rightarrow> 32 word" where
  "get_tag_size number =
    (if number < 2 ^ 4 then 1 else if number < 2 ^ 11 then 2 else if number < 2 ^ 18 then 3 else if number < 2 ^ 25 then 4 else 5)"

definition uint32_size :: "32 word \<Rightarrow> 32 word" where
  "uint32_size v =
    (if v < 2 ^ 7 then 1 else if v < 2 ^ 14 then 2 else if v < 2 ^ 21 then 3 else if v < 2 ^ 28 then 4 else 5)"

definition int32_size :: "32 word \<Rightarrow> 32 word" where
  "int32_size v =
    (if sint v < 0 then 10 else if sint v < 2 ^ 7 then 1 else if sint v < 2 ^ 14 then 2 else if sint v < 2 ^ 21 then 3
     else if sint v < 2 ^ 28 then 4 else 5)"

definition zigzag32 :: "32 word \<Rightarrow> 32 word" where
  "zigzag32 v = push_bit 1 v XOR signed_drop_bit 31 v"

definition sint32_size :: "32 word \<Rightarrow> 32 word" where
  "sint32_size v = uint32_size (zigzag32 v)"

definition uint64_size :: "64 word \<Rightarrow> 32 word" where
  "uint64_size v =
    (let upper_v = ucast (drop_bit 32 v) :: 32 word
     in if upper_v = 0 then uint32_size (ucast v)
        else if upper_v < 2 ^ 3 then 5 else if upper_v < 2 ^ 10 then 6 else if upper_v < 2 ^ 17 then 7
        else if upper_v < 2 ^ 24 then 8 else if upper_v < 2 ^ 31 then 9 else 10)"

definition zigzag64 :: "64 word \<Rightarrow> 64 word" where
  "zigzag64 v = push_bit 1 v XOR signed_drop_bit 63 v"

definition sint64_size :: "64 word \<Rightarrow> 32 word" where
  "sint64_size v = uint64_size (zigzag64 v)"

definition strlen32 :: "cstr option \<Rightarrow> 32 word" where
  "strlen32 str = (case str of None \<Rightarrow> 0 | Some s \<Rightarrow> of_nat (length s))"

text \<open>The test of a string reads its first character, that of bytes their length.\<close>

fun field_is_zeroish :: "pb_value \<Rightarrow> bool" where
  "field_is_zeroish (Pb_Bool b) = (\<not> b)"
| "field_is_zeroish (Pb_Int32 v) = (v = 0)"
| "field_is_zeroish (Pb_Uint32 v) = (v = 0)"
| "field_is_zeroish (Pb_Sint32 v) = (v = 0)"
| "field_is_zeroish (Pb_Fixed32 v) = (v = 0)"
| "field_is_zeroish (Pb_Uint64 v) = (v = 0)"
| "field_is_zeroish (Pb_Sint64 v) = (v = 0)"
| "field_is_zeroish (Pb_Fixed64 v) = (v = 0)"
| "field_is_zeroish (Pb_String s) = (s = None \<or> s = Some [])"
| "field_is_zeroish (Pb_Bytes bd) = (bd_len bd = 0)"
| "field_is_zeroish (Pb_Message m) = (m = None)"

text \<open>
  A message or a string of a oneof or an optional field is absent when its pointer is NULL (or its
  default, which stands for no value too).
\<close>

fun pointer_absent :: "pb_value \<Rightarrow> bool" where
  "pointer_absent (Pb_Message m) = (m = None)"
| "pointer_absent (Pb_String s) = (s = None)"
| "pointer_absent v = False"

fun is_pointer :: "pb_value \<Rightarrow> bool" where
  "is_pointer (Pb_Message m) = True"
| "is_pointer (Pb_String s) = True"
| "is_pointer v = False"

definition absent_oneof :: "32 word \<Rightarrow> 32 word \<Rightarrow> pb_value \<Rightarrow> bool" where
  "absent_oneof num oneof_case v \<longleftrightarrow> oneof_case \<noteq> num \<or> pointer_absent v"

definition absent_optional :: "bool \<Rightarrow> pb_value \<Rightarrow> bool" where
  "absent_optional has v \<longleftrightarrow> (if is_pointer v then pointer_absent v else \<not> has)"

text \<open>\<open>value_size\<close> is the size of a required field without its tag.\<close>

fun value_size :: "pb_value \<Rightarrow> 32 word" and field_size :: "pb_field \<Rightarrow> 32 word" and message_size :: "pb_message \<Rightarrow> 32 word" where
  "value_size (Pb_Sint32 v) = sint32_size v"
| "value_size (Pb_Int32 v) = int32_size v"
| "value_size (Pb_Uint32 v) = uint32_size v"
| "value_size (Pb_Sint64 v) = sint64_size v"
| "value_size (Pb_Uint64 v) = uint64_size v"
| "value_size (Pb_Fixed32 v) = 4"
| "value_size (Pb_Fixed64 v) = 8"
| "value_size (Pb_Bool b) = 1"
| "value_size (Pb_String s) = (let len = strlen32 s in uint32_size len + len)"
| "value_size (Pb_Bytes bd) = (let len = bd_len bd in uint32_size len + len)"
| "value_size (Pb_Message m) = (let subrv = (case m of None \<Rightarrow> 0 | Some msg \<Rightarrow> message_size msg) in uint32_size subrv + subrv)"
| "field_size (Required num v) = get_tag_size num + value_size v"
| "field_size (Oneof num oneof_case v) = (if absent_oneof num oneof_case v then 0 else get_tag_size num + value_size v)"
| "field_size (Optional num has v) = (if absent_optional has v then 0 else get_tag_size num + value_size v)"
| "field_size (Unlabeled num v) = (if field_is_zeroish v then 0 else get_tag_size num + value_size v)"
| "field_size (Repeated num vs) = get_tag_size num * of_nat (length vs) + sum_list (map value_size vs)"
| "message_size (Pb_Fields fs) = sum_list (map field_size fs)"

section \<open>Packing\<close>

text \<open>At most \<open>n\<close> bytes with more to come, seven bits in each; the caller knows that \<open>n\<close> are enough.\<close>

fun varint_pack :: "nat \<Rightarrow> 32 word \<Rightarrow> bytes" where
  "varint_pack 0 v = [ucast v]"
| "varint_pack (Suc n) v = (if v \<ge> 0x80 then ucast (v OR 0x80) # varint_pack n (drop_bit 7 v) else [ucast v])"

definition uint32_pack :: "32 word \<Rightarrow> bytes" where
  "uint32_pack v = varint_pack 4 v"

definition int32_pack :: "32 word \<Rightarrow> bytes" where
  "int32_pack v =
    (if sint v < 0
     then [ucast (v OR 0x80), ucast (signed_drop_bit 7 v OR 0x80), ucast (signed_drop_bit 14 v OR 0x80),
           ucast (signed_drop_bit 21 v OR 0x80), ucast (signed_drop_bit 28 v OR 0x80), 0xff, 0xff, 0xff, 0xff, 1]
     else uint32_pack v)"

definition sint32_pack :: "32 word \<Rightarrow> bytes" where
  "sint32_pack v = uint32_pack (zigzag32 v)"

text \<open>The loop of the code writes up to five bytes of the upper half.\<close>

definition uint64_pack :: "64 word \<Rightarrow> bytes" where
  "uint64_pack v =
    (let hi = ucast (drop_bit 32 v) :: 32 word; lo = ucast v :: 32 word
     in if hi = 0 then uint32_pack lo
        else [ucast (lo OR 0x80), ucast (drop_bit 7 lo OR 0x80), ucast (drop_bit 14 lo OR 0x80), ucast (drop_bit 21 lo OR 0x80)] @
          (if hi < 8 then [ucast (push_bit 4 hi OR drop_bit 28 lo)]
           else ucast (push_bit 4 (hi AND 7) OR drop_bit 28 lo OR 0x80) # varint_pack 4 (drop_bit 3 hi)))"

definition sint64_pack :: "64 word \<Rightarrow> bytes" where
  "sint64_pack v = uint64_pack (zigzag64 v)"

definition fixed32_pack :: "32 word \<Rightarrow> bytes" where
  "fixed32_pack v = map (\<lambda>i. ucast (drop_bit (8 * i) v)) [0..<4]"

definition fixed64_pack :: "64 word \<Rightarrow> bytes" where
  "fixed64_pack v = map (\<lambda>i. ucast (drop_bit (8 * i) v)) [0..<8]"

definition boolean_pack :: "bool \<Rightarrow> bytes" where
  "boolean_pack b = [if b then 1 else 0]"

definition char_bytes :: "cstr \<Rightarrow> bytes" where
  "char_bytes s = map of_char s"

definition string_pack :: "cstr option \<Rightarrow> bytes" where
  "string_pack str = (case str of None \<Rightarrow> [0] | Some s \<Rightarrow> uint32_pack (strlen32 str) @ char_bytes s)"

definition binary_data_pack :: "pb_binary \<Rightarrow> bytes" where
  "binary_data_pack bd = uint32_pack (bd_len bd) @ take (unat (bd_len bd)) (bd_data bd)"

definition tag_pack :: "32 word \<Rightarrow> bytes" where
  "tag_pack num = (if num < 2 ^ 29 then uint32_pack (push_bit 3 num) else uint64_pack (push_bit 3 (ucast num)))"

fun wire_type :: "pb_value \<Rightarrow> 8 word" where
  "wire_type (Pb_Fixed32 v) = 5"
| "wire_type (Pb_Fixed64 v) = 1"
| "wire_type (Pb_String s) = 2"
| "wire_type (Pb_Bytes bd) = 2"
| "wire_type (Pb_Message m) = 2"
| "wire_type v = 0"

text \<open>The tag, with the wire type in the low bits of its first byte.\<close>

definition tag_of :: "32 word \<Rightarrow> pb_value \<Rightarrow> bytes" where
  "tag_of num v = (let out = tag_pack num in (hd out OR wire_type v) # tl out)"

fun value_pack :: "pb_value \<Rightarrow> bytes" and field_pack :: "pb_field \<Rightarrow> bytes" and message_pack :: "pb_message \<Rightarrow> bytes" where
  "value_pack (Pb_Sint32 v) = sint32_pack v"
| "value_pack (Pb_Int32 v) = int32_pack v"
| "value_pack (Pb_Uint32 v) = uint32_pack v"
| "value_pack (Pb_Sint64 v) = sint64_pack v"
| "value_pack (Pb_Uint64 v) = uint64_pack v"
| "value_pack (Pb_Fixed32 v) = fixed32_pack v"
| "value_pack (Pb_Fixed64 v) = fixed64_pack v"
| "value_pack (Pb_Bool b) = boolean_pack b"
| "value_pack (Pb_String s) = string_pack s"
| "value_pack (Pb_Bytes bd) = binary_data_pack bd"
| "value_pack (Pb_Message m) =
    (case m of None \<Rightarrow> [0] | Some msg \<Rightarrow> (let out = message_pack msg in uint32_pack (of_nat (length out)) @ out))"
| "field_pack (Required num v) = tag_of num v @ value_pack v"
| "field_pack (Oneof num oneof_case v) = (if absent_oneof num oneof_case v then [] else tag_of num v @ value_pack v)"
| "field_pack (Optional num has v) = (if absent_optional has v then [] else tag_of num v @ value_pack v)"
| "field_pack (Unlabeled num v) = (if field_is_zeroish v then [] else tag_of num v @ value_pack v)"
| "field_pack (Repeated num vs) = concat (map (\<lambda>v. tag_of num v @ value_pack v) vs)"
| "message_pack (Pb_Fields fs) = concat (map field_pack fs)"

section \<open>The size is the number of bytes\<close>

text \<open>The lengths of binary data are those of their bytes, and the numbers of the fields are below \<open>2\<^sup>2\<^sup>9\<close>.\<close>

fun value_ok :: "pb_value \<Rightarrow> bool" and field_ok :: "pb_field \<Rightarrow> bool" and message_ok :: "pb_message \<Rightarrow> bool" where
  "value_ok (Pb_Bytes bd) = (unat (bd_len bd) \<le> length (bd_data bd))"
| "value_ok (Pb_Message m) = (case m of None \<Rightarrow> True | Some msg \<Rightarrow> message_ok msg)"
| "value_ok v = True"
| "field_ok (Required num v) = (num < 2 ^ 29 \<and> value_ok v)"
| "field_ok (Oneof num oneof_case v) = (num < 2 ^ 29 \<and> value_ok v)"
| "field_ok (Optional num has v) = (num < 2 ^ 29 \<and> value_ok v)"
| "field_ok (Unlabeled num v) = (num < 2 ^ 29 \<and> value_ok v)"
| "field_ok (Repeated num vs) = (num < 2 ^ 29 \<and> (\<forall>v\<in>set vs. value_ok v))"
| "message_ok (Pb_Fields fs) = (\<forall>f\<in>set fs. field_ok f)"

lemma unat_2p: "n < LENGTH('a) \<Longrightarrow> unat (2 ^ n :: 'a::len word) = 2 ^ n"
  using unsigned_of_nat [of "2 ^ n", where 'b = 'a and 'a = nat] by (simp add: take_bit_eq_mod)

lemma drop_less:
  assumes "n < LENGTH('a)" shows "drop_bit m (v :: 'a::len word) < 2 ^ n \<longleftrightarrow> unat v < 2 ^ (m + n)"
proof -
  have "unat (drop_bit m v) = unat v div 2 ^ m" unfolding unat_drop_bit_eq by (rule drop_bit_eq_div)
  then show ?thesis
    using assms by (simp add: word_less_nat_alt unat_2p power_add div_less_iff_less_mult mult.commute)
qed

lemma drop_lesses:
  "drop_bit m (v :: 32 word) < 0x80 \<longleftrightarrow> unat v < 2 ^ (m + 7)"
  "0x80 \<le> drop_bit m (v :: 32 word) \<longleftrightarrow> 2 ^ (m + 7) \<le> unat v"
  using drop_less [of 7 m v] by (auto simp flip: linorder_not_less)

text \<open>The number of bytes of a number below \<open>2\<^sup>3\<^sup>5\<close> in groups of seven bits.\<close>

definition groups :: "nat \<Rightarrow> nat" where
  "groups x = (if x < 2 ^ 7 then 1 else if x < 2 ^ 14 then 2 else if x < 2 ^ 21 then 3 else if x < 2 ^ 28 then 4 else 5)"

lemma uint32_size_groups: "uint32_size v = of_nat (groups (unat v))"
proof -
  have "v < 2 ^ n \<longleftrightarrow> unat v < 2 ^ n" if "n < 32" for n using that drop_less [of n 0 v] by simp
  from this [of 7] this [of 14] this [of 21] this [of 28] show ?thesis by (simp add: uint32_size_def groups_def)
qed

lemma varint_pack_drop: "varint_pack (Suc n) (drop_bit m v) =
  (if unat v < 2 ^ (m + 7) then [ucast (drop_bit m v)] else ucast (drop_bit m v OR 0x80) # varint_pack n (drop_bit (m + 7) v))"
  by (simp add: drop_lesses add.commute)

lemma uint32_pack_groups: "length (uint32_pack v) = groups (unat v)"
proof -
  have "uint32_pack v = varint_pack (Suc (Suc (Suc (Suc 0)))) (drop_bit 0 v)"
    by (simp add: uint32_pack_def numeral_nat)
  then show ?thesis unfolding varint_pack_drop by (simp add: groups_def)
qed

lemma uint32_pack_length: "of_nat (length (uint32_pack v)) = uint32_size v"
  by (simp add: uint32_pack_groups uint32_size_groups)

lemma uint64_pack_length: "of_nat (length (uint64_pack v)) = uint64_size v"
proof -
  let ?hi = "ucast (drop_bit 32 v) :: 32 word"
  have s: "?hi < 2 ^ n \<longleftrightarrow> unat ?hi < 2 ^ n" if "n < 32" for n using that drop_less [of n 0 ?hi] by simp
  have "length (varint_pack 4 (drop_bit 3 ?hi)) = (if unat ?hi < 2 ^ 10 then 1 else if unat ?hi < 2 ^ 17 then 2 else if unat ?hi < 2 ^ 24 then 3 else if unat ?hi < 2 ^ 31 then 4 else 5)"
  proof -
    have "varint_pack 4 (drop_bit 3 ?hi) = varint_pack (Suc (Suc (Suc (Suc 0)))) (drop_bit 3 ?hi)" by (simp add: numeral_nat)
    then show ?thesis unfolding varint_pack_drop by simp
  qed
  then show ?thesis
    using s [of 3] s [of 10] s [of 17] s [of 24] s [of 31]
    unfolding uint64_pack_def uint64_size_def Let_def by (simp add: uint32_pack_length)
qed

lemma int32_pack_length: "of_nat (length (int32_pack v)) = int32_size v"
proof (cases "sint v < 0")
  case False
  then have "uint v = sint v" using sint_lt [of v] unfolding uint_sint by (simp add: take_bit_int_eq_self)
  then have "sint v = int (unat v)" by simp
  then have p: "sint v < 2 ^ n \<longleftrightarrow> unat v < 2 ^ n" for n
    by (metis of_nat_less_iff of_nat_numeral of_nat_power)
  show ?thesis using p [of 7] p [of 14] p [of 21] p [of 28] False uint32_pack_length [of v]
    by (simp add: int32_pack_def int32_size_def uint32_size_groups groups_def)
qed (simp add: int32_pack_def int32_size_def)

lemma tag_of_groups:
  assumes "num < 2 ^ 29" shows "length (tag_of num v) = groups (8 * unat num)"
proof -
  have n: "unat num < 2 ^ 29" using assms drop_less [of 29 0 num] by simp
  have u: "unat (push_bit 3 num) = 8 * unat num"
    using n by (simp add: push_bit_eq_mult unat_word_ariths mult.commute)
  show ?thesis
    using assms uint32_pack_groups [of "push_bit 3 num"] u by (simp add: tag_of_def tag_pack_def Let_def groups_def split: if_splits)
qed

lemma tag_of_length:
  assumes "num < 2 ^ 29" shows "of_nat (length (tag_of num v)) = get_tag_size num"
proof -
  have "num < 2 ^ k \<longleftrightarrow> unat num < 2 ^ k" if "k < 32" for k using that drop_less [of k 0 num] by simp
  from this [of 4] this [of 11] this [of 18] this [of 25] show ?thesis
    by (simp add: tag_of_groups [OF assms] get_tag_size_def groups_def)
qed

lemma message_pack_length:
  "value_ok v \<Longrightarrow> of_nat (length (value_pack v)) = value_size v"
  "field_ok f \<Longrightarrow> of_nat (length (field_pack f)) = field_size f"
  "message_ok m \<Longrightarrow> of_nat (length (message_pack m)) = message_size m"
proof (induction v and f and m rule: value_size_field_size_message_size.induct)
  case (9 s)
  then show ?case by (cases s) (simp_all add: string_pack_def strlen32_def Let_def uint32_pack_length char_bytes_def uint32_size_def)
next
  case (10 bd)
  then show ?case by (simp add: binary_data_pack_def Let_def uint32_pack_length)
next
  case (11 m)
  then show ?case by (cases m) (simp_all add: Let_def uint32_pack_length uint32_size_def)
next
  case (16 num vs)
  have "of_nat (length (concat (map (\<lambda>v. tag_of num v @ value_pack v) us))) =
      get_tag_size num * of_nat (length us) + sum_list (map value_size us)" if "set us \<subseteq> set vs" for us
    using that 16 by (induction us) (auto simp: tag_of_length algebra_simps)
  then show ?case by simp
next
  case (17 fs)
  have "of_nat (length (concat (map field_pack gs))) = sum_list (map field_size gs)" if "set gs \<subseteq> set fs" for gs
    using that 17 by (induction gs) auto
  then show ?case by simp
qed (auto simp: int32_pack_length uint32_pack_length uint64_pack_length sint32_pack_def sint64_pack_def sint32_size_def sint64_size_def
  fixed32_pack_def fixed64_pack_def boolean_pack_def tag_of_length)

end
