(* ===== verification/Controllers.thy ===== *)
theory Controllers
  imports Subs_Retry Dm_Access Sar_Vector "HOL-Library.Signed_Division"
begin

text \<open>
  The table of controllers (\<open>core/device_controller.c\<close>): the array \<open>controllers\<close> with the transports and the
  session of each, which mirrors \<open>Device.LocalAgent.Controller\<close> in the data model, and the periodic
  notifications. An entry that is not used has the instance INVALID; a pointer to an entry is its
  index, INVALID for NULL. In this build the only transport is MQTT. What the agent's other components
  are told is appended to a log; whether they accept it, and the time, are parameters. \<open>None\<close> is a failed
  assertion, a case that terminates the agent, a division by zero or an overflow of a signed number.
\<close>

section \<open>State\<close>

datatype mtp_protocol = kMtpProtocol_None | kMtpProtocol_MQTT

definition mtp_protocols :: enum_table where
  "mtp_protocols = [(0, ''''), (1, ''MQTT'')]"

definition mtp_protocol_of :: "int \<Rightarrow> mtp_protocol" where
  "mtp_protocol_of e = (if e = 0 then kMtpProtocol_None else kMtpProtocol_MQTT)"

record controller_mtp =
  mtp_instance :: int
  mtp_enable :: bool
  mtp_protocol :: mtp_protocol
  mqtt_connection_instance :: int
  mqtt_controller_topic :: "cstr option"

datatype e2e_session_mode = kE2EMode_Require | kE2EMode_Allow | kE2EMode_Forbid
datatype e2e_session_status = kE2EStatus_Up | kE2EStatus_Negotiating | kE2EStatus_Down
datatype e2e_event = kE2EEvent_None | kE2EEvent_Establishment | kE2EEvent_Termination | kE2EEvent_Restart

record e2e_session =
  e2e_mode :: e2e_session_mode
  mode_buffered :: e2e_session_mode
  max_record_size :: "32 word"
  e2e_status :: e2e_session_status
  current_session_id :: "64 word"
  last_sent_sequence_id :: "64 word"
  last_recv_sequence_id :: "64 word"
  received_payloads :: sar_vector

record controller_t = controller +
  cont_mtps :: "controller_mtp list"
  periodic_base :: int
  periodic_interval :: "32 word"
  next_time_to_fire :: int
  cont_role :: combined_role
  cont_session :: e2e_session

definition MAX_CONTROLLERS :: nat where "MAX_CONTROLLERS = 5"
definition MAX_CONTROLLER_MTPS :: nat where "MAX_CONTROLLER_MTPS = 3"
definition MAX_MQTT_CLIENTS :: nat where "MAX_MQTT_CLIENTS = 5"
definition ROLE_DEFAULT :: nat where "ROLE_DEFAULT = 0"
definition INVALID_ROLE :: nat where "INVALID_ROLE = kCTrustRole_Max"
definition E2E_FIRST_VALID_SESS_ID :: "64 word" where "E2E_FIRST_VALID_SESS_ID = 2"
definition E2E_FIRST_SEQ_ID :: "64 word" where "E2E_FIRST_SEQ_ID = 1"

datatype mtp_content_type =
    kMtpContentType_UspMessage | kMtpContentType_ConnectRecord | kMtpContentType_DisconnectRecord
  | kMtpContentType_E2E_SessTermination | kMtpContentType_E2E_FullMessage | kMtpContentType_E2E_Begin
  | kMtpContentType_E2E_InProcess | kMtpContentType_E2E_Complete

record mtp_send_item =
  content_type :: mtp_content_type
  usp_msg_type :: int
  mtp_pbuf :: bytes

record mtp_reply_to =
  is_reply_to_specified :: bool
  reply_protocol :: mtp_protocol
  cont_endpoint_id :: "cstr option"
  reply_mqtt_instance :: int
  reply_mqtt_topic :: "cstr option"

text \<open>What is handed to MQTT_QueueBinaryMessage, and what other components are told.\<close>

record mqtt_item =
  mq_item :: mtp_send_item
  mq_instance :: int
  mq_topic :: "cstr option"

datatype cont_call =
    Queued mqtt_item
  | Periodic_Event int
  | Controller_Deleted int
  | Schedule_Reconnect int
  | Post_E2e_Event e2e_event int int
  | Operation_Status int cstr
  | Operation_Complete int "usp_err option"
  | Activate_Scheduled_Actions

record cont_state = "dm_timer_cb sync_timers" +
  ctrls :: "controller_t list"
  first_periodic_notification_time :: int
  cont_seed :: "32 word"
  calls :: "cont_call list"

record cont_env =
  cn_hooks :: hooks
  cn_retry :: retry_env
  mqtt_accepts :: "cont_call list \<Rightarrow> mqtt_item \<Rightarrow> usp_err + unit"
  post_accepts :: "cont_call list \<Rightarrow> cont_call \<Rightarrow> usp_err + unit"

definition note_call :: "cont_call \<Rightarrow> 'm cont_state_scheme \<Rightarrow> 'm cont_state_scheme" where
  "note_call c cs = cs\<lparr>calls := calls cs @ [c]\<rparr>"

definition upd_ctrl :: "int \<Rightarrow> (controller_t \<Rightarrow> controller_t) \<Rightarrow> 'm cont_state_scheme \<Rightarrow> 'm cont_state_scheme" where
  "upd_ctrl i f cs = cs\<lparr>ctrls := (ctrls cs)[nat i := f (ctrls cs ! nat i)]\<rparr>"

definition upd_mtp :: "int \<Rightarrow> (controller_mtp \<Rightarrow> controller_mtp) \<Rightarrow> controller_t \<Rightarrow> controller_t" where
  "upd_mtp j f cont = cont\<lparr>cont_mtps := (cont_mtps cont)[nat j := f (cont_mtps cont ! nat j)]\<rparr>"

definition zero_session :: e2e_session where
  "zero_session = \<lparr>e2e_mode = kE2EMode_Require, mode_buffered = kE2EMode_Require, max_record_size = 0,
    e2e_status = kE2EStatus_Up, current_session_id = 0, last_sent_sequence_id = 0, last_recv_sequence_id = 0,
    received_payloads = SAR_VECTOR_Init\<rparr>"

definition zero_mtp :: controller_mtp where
  "zero_mtp = \<lparr>mtp_instance = 0, mtp_enable = False, mtp_protocol = kMtpProtocol_None, mqtt_connection_instance = 0,
    mqtt_controller_topic = None\<rparr>"

text \<open>A controller after memset, with the instances of its transports set to INVALID.\<close>

definition zero_controller :: controller_t where
  "zero_controller = \<lparr>cont_instance = 0, cont_enable = False, endpoint_id = [], subs_retry_min_wait_interval = 0,
    subs_retry_interval_multiplier = 0, cont_mtps = replicate MAX_CONTROLLER_MTPS (zero_mtp\<lparr>mtp_instance := INVALID\<rparr>),
    periodic_base = 0, periodic_interval = 0, next_time_to_fire = 0, cont_role = \<lparr>inherited = 0, assigned = 0\<rparr>,
    cont_session = zero_session\<rparr>"

section \<open>Finding controllers and transports\<close>

definition FindControllerByInstance :: "'c controller_scheme list \<Rightarrow> int \<Rightarrow> int" where
  "FindControllerByInstance cs n = first_index (\<lambda>c. cont_instance c = n) cs"

definition FindUnusedController :: "'c controller_scheme list \<Rightarrow> int" where
  "FindUnusedController cs = first_index (\<lambda>c. cont_instance c = INVALID) cs"

definition FindControllerMtpByInstance :: "controller_t \<Rightarrow> int \<Rightarrow> int" where
  "FindControllerMtpByInstance cont n = first_index (\<lambda>m. mtp_instance m = n) (cont_mtps cont)"

definition FindUnusedControllerMtp :: "controller_t \<Rightarrow> int" where
  "FindUnusedControllerMtp cont = first_index (\<lambda>m. mtp_instance m = INVALID) (cont_mtps cont)"

definition mtp_in_use :: "controller_mtp \<Rightarrow> bool" where
  "mtp_in_use m \<longleftrightarrow> mtp_instance m \<noteq> INVALID \<and> mtp_enable m"

definition FindFirstEnabledMtp :: "controller_t \<Rightarrow> mtp_protocol \<Rightarrow> controller_mtp option" where
  "FindFirstEnabledMtp cont preferred =
    (case find (\<lambda>m. mtp_in_use m \<and> (preferred = kMtpProtocol_None \<or> preferred = mtp_protocol m)) (cont_mtps cont) of
       Some m \<Rightarrow> Some m
     | None \<Rightarrow> find mtp_in_use (cont_mtps cont))"

text \<open>The indexes of the controller and of its transport.\<close>

definition FindControllerMtpFromReq :: "controller_t list \<Rightarrow> int \<Rightarrow> int \<Rightarrow> (int \<times> int) option" where
  "FindControllerMtpFromReq cs inst1 inst2 =
    (let i = FindControllerByInstance cs inst1
     in if i = INVALID then None
        else let j = FindControllerMtpByInstance (cs ! nat i) inst2
          in if j = INVALID then None else Some (i, j))"

definition DEVICE_CONTROLLER_FindInstanceByEndpointId :: "'c controller_scheme list \<Rightarrow> cstr option \<Rightarrow> int" where
  "DEVICE_CONTROLLER_FindInstanceByEndpointId cs ep =
    (case ep of
       None \<Rightarrow> INVALID
     | Some e \<Rightarrow> (let i = FindEnabledControllerByEndpointId cs e in if i = INVALID then INVALID else cont_instance (cs ! nat i)))"

text \<open>The controller with this instance when it is enabled: the code's checks for NULL and for enable.\<close>

definition enabled_instance :: "'c controller_scheme list \<Rightarrow> int \<Rightarrow> nat option" where
  "enabled_instance cs n =
    (let i = FindControllerByInstance cs n in if i = INVALID \<or> \<not> cont_enable (cs ! nat i) then None else Some (nat i))"

definition DEVICE_CONTROLLER_FindEndpointIdByInstance :: "'c controller_scheme list \<Rightarrow> int \<Rightarrow> cstr option" where
  "DEVICE_CONTROLLER_FindEndpointIdByInstance cs n = map_option (\<lambda>i. endpoint_id (cs ! i)) (enabled_instance cs n)"

text \<open>The session is given by the index of its controller.\<close>

definition DEVICE_CONTROLLER_FindE2ESessionByInstance :: "'c controller_scheme list \<Rightarrow> int \<Rightarrow> nat option" where
  "DEVICE_CONTROLLER_FindE2ESessionByInstance cs n = enabled_instance cs n"

definition DEVICE_CONTROLLER_GetCombinedRole :: "controller_t list \<Rightarrow> int \<Rightarrow> usp_err + combined_role" where
  "DEVICE_CONTROLLER_GetCombinedRole cs n =
    (case enabled_instance cs n of None \<Rightarrow> Inl USP_ERR_INTERNAL_ERROR | Some i \<Rightarrow> Inr (cont_role (cs ! i)))"

definition DEVICE_CONTROLLER_GetCombinedRoleByEndpointId :: "controller_t list \<Rightarrow> cstr \<Rightarrow> usp_err + combined_role" where
  "DEVICE_CONTROLLER_GetCombinedRoleByEndpointId cs ep =
    (let i = FindEnabledControllerByEndpointId cs ep
     in if i = INVALID then Inl USP_ERR_INTERNAL_ERROR else Inr (cont_role (cs ! nat i)))"

definition endpoint_by_mtp :: "mtp_reply_to \<Rightarrow> controller_t \<Rightarrow> bool" where
  "endpoint_by_mtp mrt cont \<longleftrightarrow> cont_instance cont \<noteq> INVALID \<and> cont_enable cont \<and>
    (\<exists>m\<in>set (cont_mtps cont). mtp_in_use m \<and> mtp_protocol m = reply_protocol mrt \<and> mqtt_connection_instance m = reply_mqtt_instance mrt)"

definition DEVICE_CONTROLLER_FindEndpointByMTP :: "controller_t list \<Rightarrow> mtp_reply_to \<Rightarrow> cstr option option" where
  "DEVICE_CONTROLLER_FindEndpointByMTP cs mrt =
    (if cont_endpoint_id mrt \<noteq> None \<or> reply_protocol mrt = kMtpProtocol_None then None
     else Some (map_option endpoint_id (find (endpoint_by_mtp mrt) cs)))"

section \<open>Queueing\<close>

text \<open>\<open>None\<close>: the topic is NULL and read.\<close>

definition DEVICE_CONTROLLER_IsMTPConfigured :: "controller_t list \<Rightarrow> cstr \<Rightarrow> mtp_protocol \<Rightarrow> bool option" where
  "DEVICE_CONTROLLER_IsMTPConfigured cs ep protocol =
    (let i = FindEnabledControllerByEndpointId cs ep
     in if i = INVALID then Some False
        else case FindFirstEnabledMtp (cs ! nat i) protocol of
          None \<Rightarrow> Some False
        | Some m \<Rightarrow>
           (case protocol of
              kMtpProtocol_None \<Rightarrow> None
            | kMtpProtocol_MQTT \<Rightarrow>
               if mqtt_connection_instance m = INVALID then Some False else map_option (\<lambda>topic. topic \<noteq> []) (mqtt_controller_topic m)))"

definition CalcNotifyDest :: "controller_mtp option \<Rightarrow> mtp_reply_to \<Rightarrow> (usp_err + mtp_reply_to) option" where
  "CalcNotifyDest mtp mrt =
    (case mtp of
       None \<Rightarrow> Some (Inl USP_ERR_INTERNAL_ERROR)
     | Some m \<Rightarrow>
        (case mtp_protocol m of
           kMtpProtocol_None \<Rightarrow> None
         | kMtpProtocol_MQTT \<Rightarrow>
            (case mqtt_controller_topic m of
               None \<Rightarrow> None
             | Some topic \<Rightarrow>
                if mqtt_connection_instance m = INVALID \<or> topic = [] then Some (Inl USP_ERR_INTERNAL_ERROR)
                else Some (Inr (mrt\<lparr>reply_protocol := kMtpProtocol_MQTT, reply_mqtt_instance := mqtt_connection_instance m,
                       reply_mqtt_topic := Some topic\<rparr>)))))"

text \<open>MQTT_QueueBinaryMessage takes the item or returns an error.\<close>

definition queue_mqtt :: "cont_env \<Rightarrow> 'm cont_state_scheme \<Rightarrow> mqtt_item \<Rightarrow> 'm cont_state_scheme \<times> (usp_err + unit)" where
  "queue_mqtt env cs item =
    (case mqtt_accepts env (calls cs) item of
       Inl err \<Rightarrow> (cs, Inl err)
     | Inr _ \<Rightarrow> (note_call (Queued item) cs, USP_OK))"

definition QueueBinaryMessageOnMtp ::
    "cont_env \<Rightarrow> 'm cont_state_scheme \<Rightarrow> mtp_send_item \<Rightarrow> mtp_reply_to \<Rightarrow> ('m cont_state_scheme \<times> (usp_err + unit)) option" where
  "QueueBinaryMessageOnMtp env cs msi mrt =
    (case reply_protocol mrt of
       kMtpProtocol_None \<Rightarrow> None
     | kMtpProtocol_MQTT \<Rightarrow>
        Some (queue_mqtt env cs \<lparr>mq_item = msi, mq_instance = reply_mqtt_instance mrt, mq_topic = reply_mqtt_topic mrt\<rparr>))"

definition DEVICE_CONTROLLER_QueueBinaryMessage ::
    "cont_env \<Rightarrow> 'm cont_state_scheme \<Rightarrow> mtp_send_item \<Rightarrow> cstr \<Rightarrow> mtp_reply_to \<Rightarrow> ('m cont_state_scheme \<times> (usp_err + unit)) option" where
  "DEVICE_CONTROLLER_QueueBinaryMessage env cs msi ep mrt =
    (let i = FindEnabledControllerByEndpointId (ctrls cs) ep
     in if i = INVALID then Some (cs, Inl USP_ERR_INTERNAL_ERROR)
        else if is_reply_to_specified mrt then QueueBinaryMessageOnMtp env cs msi mrt
        else case CalcNotifyDest (FindFirstEnabledMtp (ctrls cs ! nat i) (reply_protocol mrt)) mrt of
          None \<Rightarrow> None
        | Some (Inl err) \<Rightarrow> Some (cs, Inl err)
        | Some (Inr dest) \<Rightarrow> QueueBinaryMessageOnMtp env cs msi dest)"

section \<open>MQTT connections\<close>

definition uses_mqtt :: "int \<Rightarrow> controller_mtp \<Rightarrow> bool" where
  "uses_mqtt mqtt_instance m \<longleftrightarrow> mtp_protocol m = kMtpProtocol_MQTT \<and> mqtt_connection_instance m = mqtt_instance"

definition DEVICE_CONTROLLER_GetControllerTopic :: "controller_t list \<Rightarrow> int \<Rightarrow> cstr option" where
  "DEVICE_CONTROLLER_GetControllerTopic cs mqtt_instance =
    (case find (\<lambda>m. mtp_in_use m \<and> uses_mqtt mqtt_instance m)
        (concat (map cont_mtps (filter (\<lambda>c. cont_instance c \<noteq> INVALID \<and> cont_enable c) cs))) of
       None \<Rightarrow> None | Some m \<Rightarrow> mqtt_controller_topic m)"

definition DEVICE_CONTROLLER_SetRolesFromMqtt :: "int \<Rightarrow> nat \<Rightarrow> 'm cont_state_scheme \<Rightarrow> 'm cont_state_scheme" where
  "DEVICE_CONTROLLER_SetRolesFromMqtt mqtt_instance role cs =
    cs\<lparr>ctrls := map (\<lambda>c.
      if cont_instance c \<noteq> INVALID \<and> cont_enable c \<and> (\<exists>m\<in>set (cont_mtps c). mtp_in_use m \<and> uses_mqtt mqtt_instance m)
      then c\<lparr>cont_role := (cont_role c)\<lparr>inherited := role\<rparr>\<rparr> else c) (ctrls cs)\<rparr>"

text \<open>The references to a connection are cleared in the data model; errors are not looked at.\<close>

definition controller_param :: "int \<Rightarrow> cstr \<Rightarrow> cstr" where
  "controller_param n param = fst (USP_SNPRINTF MAX_DM_PATH (''Device.LocalAgent.Controller.'' @ show_int n @ param))"

definition mtp_param :: "int \<Rightarrow> int \<Rightarrow> cstr \<Rightarrow> cstr" where
  "mtp_param n m param = controller_param n (''.MTP.'' @ show_int m @ param)"

fun clear_references :: "hooks \<Rightarrow> agent \<Rightarrow> (int \<times> int) list \<Rightarrow> agent option" where
  "clear_references h ag [] = Some ag"
| "clear_references h ag ((n, m) # rest) =
    (case DATA_MODEL_SetParameterValue h ag (mtp_param n m ''.MQTT.Reference'') [] 0 of
       None \<Rightarrow> None | Some (ag1, _) \<Rightarrow> clear_references h ag1 rest)"

definition DEVICE_CONTROLLER_NotifyMqttConnDeleted :: "hooks \<Rightarrow> agent \<Rightarrow> controller_t list \<Rightarrow> int \<Rightarrow> agent option" where
  "DEVICE_CONTROLLER_NotifyMqttConnDeleted h ag cs mqtt_instance =
    clear_references h ag
      [(cont_instance c, mtp_instance m). c \<leftarrow> cs, cont_instance c \<noteq> INVALID,
         m \<leftarrow> cont_mtps c, mtp_instance m \<noteq> INVALID \<and> uses_mqtt mqtt_instance m]"

section \<open>Validation\<close>

definition ValidateMtpUniqueness :: "controller_t list \<Rightarrow> mtp_protocol \<Rightarrow> int \<Rightarrow> int \<Rightarrow> (usp_err + unit) option" where
  "ValidateMtpUniqueness cs protocol cont_inst mtp_inst =
    (let i = FindControllerByInstance cs cont_inst
     in if i = INVALID then None
        else if \<exists>m\<in>set (cont_mtps (cs ! nat i)). mtp_instance m \<noteq> INVALID \<and> mtp_instance m \<noteq> mtp_inst \<and>
            mtp_enable m \<and> mtp_protocol m = protocol
          then Some (Inl USP_ERR_VALUE_CONFLICT) else Some USP_OK)"

definition other_users :: "controller_t list \<Rightarrow> mtp_protocol \<Rightarrow> int \<Rightarrow> int \<Rightarrow> nat" where
  "other_users cs protocol cont_inst mtp_inst = sum_list (map (\<lambda>c.
    if cont_instance c = INVALID then 0
    else length (filter (\<lambda>m. mtp_in_use m \<and> mtp_protocol m = protocol \<and> (cont_instance c \<noteq> cont_inst \<or> mtp_instance m \<noteq> mtp_inst))
      (cont_mtps c))) cs)"

definition ValidateMtpResourceAvailable :: "controller_t list \<Rightarrow> mtp_protocol \<Rightarrow> int \<Rightarrow> int \<Rightarrow> usp_err + unit" where
  "ValidateMtpResourceAvailable cs protocol cont_inst mtp_inst =
    (case protocol of
       kMtpProtocol_None \<Rightarrow> USP_OK
     | kMtpProtocol_MQTT \<Rightarrow>
        if 1 + other_users cs protocol cont_inst mtp_inst > MAX_MQTT_CLIENTS then Inl USP_ERR_RESOURCES_EXCEEDED else USP_OK)"

definition ValidateEndpointIdUniqueness :: "'c controller_scheme list \<Rightarrow> cstr \<Rightarrow> int \<Rightarrow> usp_err + unit" where
  "ValidateEndpointIdUniqueness cs ep cont_inst =
    (if \<exists>c\<in>set cs. cont_instance c \<noteq> INVALID \<and> cont_instance c \<noteq> cont_inst \<and> endpoint_id c = ep
     then Inl USP_ERR_UNIQUE_KEY_CONFLICT else USP_OK)"

definition Validate_ControllerEndpointID :: "controller_t list \<Rightarrow> int \<Rightarrow> cstr \<Rightarrow> usp_err + unit" where
  "Validate_ControllerEndpointID cs inst1 val = ValidateEndpointIdUniqueness cs val inst1"

definition ValidateAdd_Controller :: "controller_t list \<Rightarrow> usp_err + unit" where
  "ValidateAdd_Controller cs = (if FindUnusedController cs = INVALID then Inl USP_ERR_RESOURCES_EXCEEDED else USP_OK)"

definition ValidateAdd_ControllerMtp :: "controller_t list \<Rightarrow> int \<Rightarrow> usp_err + unit" where
  "ValidateAdd_ControllerMtp cs inst1 =
    (let i = FindControllerByInstance cs inst1
     in if i = INVALID then Inl USP_ERR_CREATION_FAILURE
        else if FindUnusedControllerMtp (cs ! nat i) = INVALID then Inl USP_ERR_RESOURCES_EXCEEDED else USP_OK)"

text \<open>A transport that is or becomes enabled must be the only one of its protocol, and one that is available.\<close>

definition validate_mtp :: "controller_t list \<Rightarrow> mtp_protocol \<Rightarrow> int \<Rightarrow> int \<Rightarrow> (usp_err + unit) option" where
  "validate_mtp cs protocol inst1 inst2 =
    (case ValidateMtpUniqueness cs protocol inst1 inst2 of
       None \<Rightarrow> None
     | Some (Inl err) \<Rightarrow> Some (Inl err)
     | Some (Inr _) \<Rightarrow> Some (ValidateMtpResourceAvailable cs protocol inst1 inst2))"

definition Validate_ControllerMtpEnable :: "hooks \<Rightarrow> agent \<Rightarrow> controller_t list \<Rightarrow> int \<Rightarrow> int \<Rightarrow> bool \<Rightarrow> unit ag_result" where
  "Validate_ControllerMtpEnable h ag cs inst1 inst2 val_bool =
    (if \<not> val_bool then ag_ok ag ()
     else case DM_ACCESS_GetEnum h ag (mtp_param inst1 inst2 ''.Protocol'') mtp_protocols of
       None \<Rightarrow> None
     | Some (ag1, Inl _) \<Rightarrow> ag_ok ag1 ()
     | Some (ag1, Inr e) \<Rightarrow> map_option (\<lambda>r. (ag1, r)) (validate_mtp cs (mtp_protocol_of e) inst1 inst2))"

definition Validate_ControllerMtpProtocol :: "hooks \<Rightarrow> agent \<Rightarrow> controller_t list \<Rightarrow> int \<Rightarrow> int \<Rightarrow> cstr \<Rightarrow> unit ag_result" where
  "Validate_ControllerMtpProtocol h ag cs inst1 inst2 val =
    (let index = TEXT_UTILS_StringToEnum val mtp_protocols
     in if index = INVALID then ag_err ag USP_ERR_INVALID_VALUE
        else case DM_ACCESS_GetBool h ag (mtp_param inst1 inst2 ''.Enable'') of
          None \<Rightarrow> None
        | Some (ag1, Inl _) \<Rightarrow> ag_ok ag1 ()
        | Some (ag1, Inr enable) \<Rightarrow>
           if \<not> enable then ag_ok ag1 ()
           else map_option (\<lambda>r. (ag1, r)) (validate_mtp cs (mtp_protocol_of index) inst1 inst2))"

definition Validate_ControllerRetryMinimumWaitInterval :: "dm_val_union \<Rightarrow> usp_err + unit" where
  "Validate_ControllerRetryMinimumWaitInterval val = DM_ACCESS_ValidateRange_Unsigned val 1 65535"

definition Validate_ControllerRetryIntervalMultiplier :: "dm_val_union \<Rightarrow> usp_err + unit" where
  "Validate_ControllerRetryIntervalMultiplier val = DM_ACCESS_ValidateRange_Unsigned val 1000 65535"

definition Validate_PeriodicNotifInterval :: "dm_val_union \<Rightarrow> usp_err + unit" where
  "Validate_PeriodicNotifInterval val = DM_ACCESS_ValidateRange_Unsigned val 1 4294967295"

definition Validate_E2ESessionMaxUSPRecordSize :: "dm_val_union \<Rightarrow> usp_err + unit" where
  "Validate_E2ESessionMaxUSPRecordSize val =
    (if value_uint val = 0 then USP_OK else DM_ACCESS_ValidateRange_Unsigned val 512 4294967295)"

definition Validate_ControllerAssignedRole :: "hooks \<Rightarrow> agent \<Rightarrow> cstr \<Rightarrow> unit ag_result" where
  "Validate_ControllerAssignedRole h ag val =
    (if val = [] then ag_ok ag ()
     else ag_bind (DM_ACCESS_ValidateReference h ag val ''Device.LocalAgent.ControllerTrust.Role.{i}'') (\<lambda>ag1 _. ag_ok ag1 ()))"

section \<open>Roles\<close>

definition DEVICE_CTRUST_GetInstanceFromRole :: "nat \<Rightarrow> int" where
  "DEVICE_CTRUST_GetInstanceFromRole role = (if kCTrustRole_Max \<le> role then INVALID else int role + 1)"

definition DEVICE_CTRUST_GetRoleFromInstance :: "int \<Rightarrow> nat" where
  "DEVICE_CTRUST_GetRoleFromInstance n = (if n - 1 < 0 \<or> int kCTrustRole_Max \<le> n - 1 then INVALID_ROLE else nat (n - 1))"

definition Get_ControllerInheritedRole :: "controller_t list \<Rightarrow> int \<Rightarrow> nat \<Rightarrow> cstr" where
  "Get_ControllerInheritedRole cs inst1 len =
    (case DEVICE_CONTROLLER_GetCombinedRole cs inst1 of
       Inl _ \<Rightarrow> []
     | Inr role \<Rightarrow>
        (let n = DEVICE_CTRUST_GetInstanceFromRole (inherited role)
         in if n = INVALID then [] else fst (USP_SNPRINTF len (''Device.LocalAgent.ControllerTrust.Role.'' @ show_int n))))"

definition UpdateAssignedRole :: "hooks \<Rightarrow> agent \<Rightarrow> 'm cont_state_scheme \<Rightarrow> int \<Rightarrow> cstr \<Rightarrow> (agent \<times> 'm cont_state_scheme \<times> (usp_err + unit)) option" where
  "UpdateAssignedRole h ag cs i reference =
    (if reference = [] then Some (ag, upd_ctrl i (\<lambda>c. c\<lparr>cont_role := (cont_role c)\<lparr>assigned := INVALID_ROLE\<rparr>\<rparr>) cs, USP_OK)
     else case DM_ACCESS_ValidateReference h ag reference ''Device.LocalAgent.ControllerTrust.Role.{i}'' of
       None \<Rightarrow> None
     | Some (ag1, Inl err) \<Rightarrow> Some (ag1, cs, Inl err)
     | Some (ag1, Inr n) \<Rightarrow>
        (let role = DEVICE_CTRUST_GetRoleFromInstance n
         in if role = INVALID_ROLE then Some (ag1, cs, Inl USP_ERR_INVALID_VALUE)
            else Some (ag1, upd_ctrl i (\<lambda>c. c\<lparr>cont_role := (cont_role c)\<lparr>assigned := role\<rparr>\<rparr>) cs, USP_OK)))"

section \<open>Periodic notifications\<close>

text \<open>The result of a signed operation of 32 bits, when it does not overflow.\<close>

definition int32 :: "int \<Rightarrow> int option" where
  "int32 x = (if - (2 ^ 31) \<le> x \<and> x < 2 ^ 31 then Some x else None)"

text \<open>The interval is unsigned, and passed as an int.\<close>

definition CalcNextPeriodicTime :: "int \<Rightarrow> int \<Rightarrow> 32 word \<Rightarrow> int option" where
  "CalcNextPeriodicTime cur_time base interval =
    (let n = sint interval
     in if n = 0 then None
        else Option.bind
          (if base \<le> cur_time then Option.bind (int32 (cur_time - base)) (\<lambda>d. int32 (n - d smod n))
           else Option.bind (int32 (base - cur_time)) (\<lambda>d. Some (d smod n)))
          (\<lambda>diff. int32 (cur_time + (if diff = 0 then n else diff))))"

fun first_periodic :: "int \<Rightarrow> controller_t list \<Rightarrow> int" where
  "first_periodic first [] = first"
| "first_periodic first (c # cs) =
    first_periodic (if cont_instance c \<noteq> INVALID \<and> next_time_to_fire c < first then next_time_to_fire c else first) cs"

definition UpdateFirstPeriodicNotificationTime :: "'m cont_state_scheme \<Rightarrow> 'm cont_state_scheme" where
  "UpdateFirstPeriodicNotificationTime cs =
    (let first = first_periodic END_OF_TIME (ctrls cs)
     in fst (SYNC_TIMER_Reload PeriodicNotificationExec_cb 0 first (cs\<lparr>first_periodic_notification_time := first\<rparr>)))"

definition set_next_time :: "cont_env \<Rightarrow> int \<Rightarrow> 'm cont_state_scheme \<Rightarrow> 'm cont_state_scheme option" where
  "set_next_time env i cs =
    (let c = ctrls cs ! nat i
     in map_option (\<lambda>t. upd_ctrl i (\<lambda>c. c\<lparr>next_time_to_fire := t\<rparr>) cs)
          (CalcNextPeriodicTime (now (cn_retry env)) (periodic_base c) (periodic_interval c)))"

fun fire_periodic :: "cont_env \<Rightarrow> nat list \<Rightarrow> 'm cont_state_scheme \<Rightarrow> 'm cont_state_scheme option" where
  "fire_periodic env [] cs = Some cs"
| "fire_periodic env (i # is) cs =
    (let c = ctrls cs ! i
     in if cont_instance c = INVALID \<or> now (cn_retry env) < next_time_to_fire c then fire_periodic env is cs
        else case set_next_time env (int i) (note_call (Periodic_Event (cont_instance c)) cs) of
          None \<Rightarrow> None | Some cs1 \<Rightarrow> fire_periodic env is cs1)"

definition PeriodicNotificationExec :: "cont_env \<Rightarrow> 'm cont_state_scheme \<Rightarrow> 'm cont_state_scheme option" where
  "PeriodicNotificationExec env cs =
    (if now (cn_retry env) < first_periodic_notification_time cs then None
     else map_option UpdateFirstPeriodicNotificationTime (fire_periodic env [0..<length (ctrls cs)] cs))"

section \<open>Changes of the table\<close>

definition DestroyControllerMtp :: "controller_mtp \<Rightarrow> controller_mtp" where
  "DestroyControllerMtp m = \<lparr>mtp_instance = INVALID, mtp_enable = False, mtp_protocol = kMtpProtocol_None,
    mqtt_connection_instance = INVALID, mqtt_controller_topic = None\<rparr>"

text \<open>The endpoint's name is freed; no one reads it while the entry is not used.\<close>

definition DestroyController :: "controller_t \<Rightarrow> controller_t" where
  "DestroyController c = c\<lparr>cont_instance := INVALID, cont_enable := False, endpoint_id := [],
    cont_mtps := map DestroyControllerMtp (cont_mtps c)\<rparr>"

definition DEVICE_CONTROLLER_Stop :: "'m cont_state_scheme \<Rightarrow> 'm cont_state_scheme" where
  "DEVICE_CONTROLLER_Stop cs = cs\<lparr>ctrls := map (\<lambda>c. if cont_instance c \<noteq> INVALID then DestroyController c else c) (ctrls cs)\<rparr>"

type_synonym ('m, 'a) cont_result = "(agent \<times> 'm cont_state_scheme \<times> (usp_err + 'a)) option"

definition cn_bind :: "('m, 'a) cont_result \<Rightarrow> (agent \<Rightarrow> 'm cont_state_scheme \<Rightarrow> 'a \<Rightarrow> ('m, 'b) cont_result) \<Rightarrow> ('m, 'b) cont_result" where
  "cn_bind m f = (case m of None \<Rightarrow> None | Some (ag, cs, Inl err) \<Rightarrow> Some (ag, cs, Inl err) | Some (ag, cs, Inr x) \<Rightarrow> f ag cs x)"

definition cn_read :: "'m cont_state_scheme \<Rightarrow> 'a ag_result \<Rightarrow> ('m, 'a) cont_result" where
  "cn_read cs r = map_option (\<lambda>(ag, x). (ag, cs, x)) r"

definition cn_ok :: "agent \<Rightarrow> 'm cont_state_scheme \<Rightarrow> ('m, unit) cont_result" where
  "cn_ok ag cs = Some (ag, cs, USP_OK)"

text \<open>What the code does at its label exit: \<open>undo\<close> when there was an error.\<close>

definition on_error :: "('m cont_state_scheme \<Rightarrow> 'm cont_state_scheme) \<Rightarrow> ('m, 'a) cont_result \<Rightarrow> ('m, 'a) cont_result" where
  "on_error undo r = (case r of Some (ag, cs, Inl err) \<Rightarrow> Some (ag, undo cs, Inl err) | _ \<Rightarrow> r)"

definition DEVICE_MTP_GetMqttReference :: "hooks \<Rightarrow> agent \<Rightarrow> cstr \<Rightarrow> int ag_result" where
  "DEVICE_MTP_GetMqttReference h ag path =
    ag_bind (DATA_MODEL_GetParameterValue h ag path MAX_DM_PATH 0) (\<lambda>ag1 val.
      if val = [] then ag_ok ag1 INVALID else DM_ACCESS_ValidateReference h ag1 val ''Device.MQTT.Client.{i}'')"

text \<open>
  A transport is read in three parts: an error in the checks or in the last read leaves the entry in
  use, an error in the others frees it.
\<close>

definition ProcessControllerMtpAdded :: "cont_env \<Rightarrow> agent \<Rightarrow> 'm cont_state_scheme \<Rightarrow> int \<Rightarrow> int \<Rightarrow> ('m, unit) cont_result" where
  "ProcessControllerMtpAdded env ag cs i n =
    (let h = cn_hooks env; cont = ctrls cs ! nat i; j = FindUnusedControllerMtp cont;
         put = (\<lambda>f. upd_ctrl i (upd_mtp j f)); free = put DestroyControllerMtp;
         param = mtp_param (cont_instance cont) n
     in if j = INVALID then Some (ag, cs, Inl USP_ERR_RESOURCES_EXCEEDED)
        else
          cn_bind (on_error free
            (cn_bind (cn_read (put (\<lambda>_. zero_mtp\<lparr>mtp_instance := n\<rparr>) cs) (DM_ACCESS_GetEnum h ag (param ''.Protocol'') mtp_protocols)) (\<lambda>ag1 cs1 e.
             cn_bind (cn_read (put (\<lambda>m. m\<lparr>mtp_protocol := mtp_protocol_of e\<rparr>) cs1) (DM_ACCESS_GetBool h ag1 (param ''.Enable''))) (\<lambda>ag2 cs2 b.
               Some (ag2, put (\<lambda>m. m\<lparr>mtp_enable := b\<rparr>) cs2, Inr (mtp_protocol_of e, b)))))) (\<lambda>ag3 cs3 (protocol, enable).
          cn_bind (if enable then map_option (\<lambda>r. (ag3, cs3, r)) (validate_mtp (ctrls cs3) protocol (cont_instance cont) n) else cn_ok ag3 cs3) (\<lambda>ag4 cs4 _.
          cn_bind (on_error free
            (cn_bind (cn_read cs4 (DM_ACCESS_GetBool h ag4 (param ''.Enable''))) (\<lambda>ag5 cs5 b.
             cn_bind (cn_read (put (\<lambda>m. m\<lparr>mtp_enable := b\<rparr>) cs5) (DEVICE_MTP_GetMqttReference h ag5 (param ''.MQTT.Reference''))) (\<lambda>ag6 cs6 r.
               cn_ok ag6 (put (\<lambda>m. m\<lparr>mqtt_connection_instance := r\<rparr>) cs6))))) (\<lambda>ag7 cs7 _.
          cn_bind (cn_read cs7 (DM_ACCESS_GetString h ag7 (param ''.MQTT.Topic''))) (\<lambda>ag8 cs8 topic.
            cn_ok ag8 (put (\<lambda>m. m\<lparr>mqtt_controller_topic := Some topic\<rparr>) cs8))))))"

definition e2e_session_modes :: enum_table where
  "e2e_session_modes = [(0, ''Require''), (1, ''Allow''), (2, ''Forbid'')]"

definition e2e_session_status_names :: enum_table where
  "e2e_session_status_names = [(0, ''Up''), (1, ''Negotiating''), (2, ''Down'')]"

definition e2e_mode_of :: "int \<Rightarrow> e2e_session_mode" where
  "e2e_mode_of e = (if e = 0 then kE2EMode_Require else if e = 1 then kE2EMode_Allow else kE2EMode_Forbid)"

fun e2e_status_code :: "e2e_session_status \<Rightarrow> int" where
  "e2e_status_code kE2EStatus_Up = 0"
| "e2e_status_code kE2EStatus_Negotiating = 1"
| "e2e_status_code kE2EStatus_Down = 2"

definition upd_session :: "(e2e_session \<Rightarrow> e2e_session) \<Rightarrow> controller_t \<Rightarrow> controller_t" where
  "upd_session f c = c\<lparr>cont_session := f (cont_session c)\<rparr>"

definition ProcessControllerE2ESessionAdded :: "cont_env \<Rightarrow> agent \<Rightarrow> 'm cont_state_scheme \<Rightarrow> int \<Rightarrow> ('m, unit) cont_result" where
  "ProcessControllerE2ESessionAdded env ag cs i =
    (let h = cn_hooks env; n = cont_instance (ctrls cs ! nat i); put = (\<lambda>f. upd_ctrl i (upd_session f))
     in cn_bind (cn_read (put (\<lambda>e. e\<lparr>current_session_id := E2E_FIRST_VALID_SESS_ID - 1, last_sent_sequence_id := 0,
                   last_recv_sequence_id := 0, received_payloads := SAR_VECTOR_Init\<rparr>) cs)
          (DM_ACCESS_GetEnum h ag (controller_param n ''.E2ESession.SessionMode'') e2e_session_modes)) (\<lambda>ag1 cs1 e.
        cn_bind (cn_read (put (\<lambda>s. s\<lparr>e2e_mode := e2e_mode_of e, mode_buffered := e2e_mode_of e\<rparr>) cs1)
          (DM_ACCESS_GetUnsigned h ag1 (controller_param n ''.E2ESession.MaxUSPRecordSize''))) (\<lambda>ag2 cs2 u.
        cn_ok ag2 (put (\<lambda>s. s\<lparr>max_record_size := of_nat u, e2e_status := kE2EStatus_Down\<rparr>) cs2))))"

text \<open>A transport that cannot be set up is deleted from the data model.\<close>

fun add_mtps :: "cont_env \<Rightarrow> agent \<Rightarrow> 'm cont_state_scheme \<Rightarrow> int \<Rightarrow> int list \<Rightarrow> ('m, unit) cont_result" where
  "add_mtps env ag cs i [] = cn_ok ag cs"
| "add_mtps env ag cs i (m # ms) =
    (case ProcessControllerMtpAdded env ag cs i m of
       None \<Rightarrow> None
     | Some (ag1, cs1, Inr _) \<Rightarrow> add_mtps env ag1 cs1 i ms
     | Some (ag1, cs1, Inl _) \<Rightarrow>
        cn_bind (cn_read cs1 (DATA_MODEL_DeleteInstance (cn_hooks env) ag1 (mtp_param (cont_instance (ctrls cs1 ! nat i)) m []) 0))
          (\<lambda>ag2 cs2 _. add_mtps env ag2 cs2 i ms))"

text \<open>The parameters of the controller itself, in the order they are read.\<close>

definition load_params :: "cont_env \<Rightarrow> agent \<Rightarrow> 'm cont_state_scheme \<Rightarrow> int \<Rightarrow> int \<Rightarrow> ('m, unit) cont_result" where
  "load_params env ag cs i n =
    (let h = cn_hooks env; param = controller_param n; put = upd_ctrl i
     in cn_bind (cn_read cs (DM_ACCESS_GetBool h ag (param ''.Enable''))) (\<lambda>ag1 cs1 b.
        cn_bind (cn_read (put (\<lambda>c. c\<lparr>cont_enable := b\<rparr>) cs1) (DM_ACCESS_GetDateTime h ag1 (param ''.PeriodicNotifTime''))) (\<lambda>ag2 cs2 t.
        let (base, seed) = RETRY_WAIT_UseRandomBaseIfUnknownTime (cn_retry env) (cont_seed cs2) t in
        cn_bind (cn_read (put (\<lambda>c. c\<lparr>periodic_base := base\<rparr>) (cs2\<lparr>cont_seed := seed\<rparr>))
          (DM_ACCESS_GetUnsigned h ag2 (param ''.PeriodicNotifInterval''))) (\<lambda>ag3 cs3 interval.
        case set_next_time env i (put (\<lambda>c. c\<lparr>periodic_interval := of_nat interval\<rparr>) cs3) of
          None \<Rightarrow> None
        | Some cs4 \<Rightarrow>
        cn_bind (cn_read (UpdateFirstPeriodicNotificationTime cs4)
          (DM_ACCESS_GetUnsigned h ag3 (param ''.USPNotifRetryMinimumWaitInterval''))) (\<lambda>ag5 cs5 wait.
        cn_bind (cn_read (put (\<lambda>c. c\<lparr>subs_retry_min_wait_interval := of_nat wait\<rparr>) cs5)
          (DM_ACCESS_GetUnsigned h ag5 (param ''.USPNotifRetryIntervalMultiplier''))) (\<lambda>ag6 cs6 multiplier.
        cn_ok ag6 (put (\<lambda>c. c\<lparr>subs_retry_interval_multiplier := of_nat multiplier\<rparr>) cs6)))))))"

definition load_endpoint :: "cont_env \<Rightarrow> agent \<Rightarrow> 'm cont_state_scheme \<Rightarrow> int \<Rightarrow> int \<Rightarrow> ('m, unit) cont_result" where
  "load_endpoint env ag cs i n =
    cn_bind (cn_read cs (DM_ACCESS_GetString (cn_hooks env) ag (controller_param n ''.EndpointID''))) (\<lambda>ag1 cs1 ep.
      let cs2 = upd_ctrl i (\<lambda>c. c\<lparr>endpoint_id := ep\<rparr>) cs1
      in Some (ag1, cs2, ValidateEndpointIdUniqueness (ctrls cs2) ep n))"

definition load_controller :: "cont_env \<Rightarrow> agent \<Rightarrow> 'm cont_state_scheme \<Rightarrow> int \<Rightarrow> int \<Rightarrow> ('m, unit) cont_result" where
  "load_controller env ag cs i n = cn_bind (load_params env ag cs i n) (\<lambda>ag1 cs1 _. load_endpoint env ag1 cs1 i n)"

definition finish_controller :: "cont_env \<Rightarrow> agent \<Rightarrow> 'm cont_state_scheme \<Rightarrow> int \<Rightarrow> int \<Rightarrow> cstr \<Rightarrow> ('m, unit) cont_result" where
  "finish_controller env ag cs i n reference =
    cn_bind (UpdateAssignedRole (cn_hooks env) ag cs i reference) (\<lambda>ag1 cs1 _.
    cn_bind (cn_read cs1 (DATA_MODEL_GetInstances (cn_hooks env) ag1 (controller_param n ''.MTP''))) (\<lambda>ag2 cs2 iv.
      if iv = [] then cn_ok ag2 cs2
      else cn_bind (add_mtps env ag2 cs2 i iv) (\<lambda>ag3 cs3 _. ProcessControllerE2ESessionAdded env ag3 cs3 i)))"

text \<open>An error in reading the assigned role returns without freeing the entry.\<close>

definition ProcessControllerAdded :: "cont_env \<Rightarrow> agent \<Rightarrow> 'm cont_state_scheme \<Rightarrow> int \<Rightarrow> ('m, unit) cont_result" where
  "ProcessControllerAdded env ag cs n =
    (let i = FindUnusedController (ctrls cs)
     in if i = INVALID then Some (ag, cs, Inl USP_ERR_RESOURCES_EXCEEDED)
        else
          let free = upd_ctrl i DestroyController;
              cs0 = upd_ctrl i (\<lambda>_. zero_controller\<lparr>cont_instance := n, cont_role := \<lparr>inherited = ROLE_DEFAULT, assigned = ROLE_DEFAULT\<rparr>\<rparr>) cs
          in cn_bind (on_error free (load_controller env ag cs0 i n)) (\<lambda>ag1 cs1 _.
             cn_bind (cn_read cs1 (DATA_MODEL_GetParameterValue (cn_hooks env) ag1 (controller_param n ''.AssignedRole'') MAX_DM_PATH 0)) (\<lambda>ag2 cs2 reference.
             on_error free (finish_controller env ag2 cs2 i n reference))))"

fun start_controllers :: "cont_env \<Rightarrow> agent \<Rightarrow> 'm cont_state_scheme \<Rightarrow> int list \<Rightarrow> ('m, unit) cont_result" where
  "start_controllers env ag cs [] = cn_ok ag cs"
| "start_controllers env ag cs (n # ns) =
    (case ProcessControllerAdded env ag cs n of
       None \<Rightarrow> None
     | Some (ag1, cs1, Inr _) \<Rightarrow> start_controllers env ag1 cs1 ns
     | Some (ag1, cs1, Inl _) \<Rightarrow>
        cn_bind (cn_read cs1 (DATA_MODEL_DeleteInstance (cn_hooks env) ag1 (controller_param n []) 0))
          (\<lambda>ag2 cs2 _. start_controllers env ag2 cs2 ns))"

definition DEVICE_CONTROLLER_Start :: "cont_env \<Rightarrow> agent \<Rightarrow> 'm cont_state_scheme \<Rightarrow> ('m, unit) cont_result" where
  "DEVICE_CONTROLLER_Start env ag cs =
    cn_bind (cn_read cs (DATA_MODEL_GetInstances (cn_hooks env) ag ''Device.LocalAgent.Controller'')) (\<lambda>ag1 cs1 iv.
      start_controllers env ag1 cs1 iv)"

section \<open>Notifications of the data model\<close>

definition Notify_ControllerAdded :: "cont_env \<Rightarrow> agent \<Rightarrow> 'm cont_state_scheme \<Rightarrow> int \<Rightarrow> ('m, unit) cont_result" where
  "Notify_ControllerAdded env ag cs inst1 = ProcessControllerAdded env ag cs inst1"

definition Notify_ControllerDeleted :: "'m cont_state_scheme \<Rightarrow> int \<Rightarrow> 'm cont_state_scheme" where
  "Notify_ControllerDeleted cs inst1 =
    (let i = FindControllerByInstance (ctrls cs) inst1
     in if i = INVALID then cs else note_call (Controller_Deleted inst1) (upd_ctrl i DestroyController cs))"

definition Notify_ControllerMtpAdded :: "cont_env \<Rightarrow> agent \<Rightarrow> 'm cont_state_scheme \<Rightarrow> int \<Rightarrow> int \<Rightarrow> ('m, unit) cont_result" where
  "Notify_ControllerMtpAdded env ag cs inst1 inst2 =
    (let i = FindControllerByInstance (ctrls cs) inst1
     in if i = INVALID then Some (ag, cs, Inl USP_ERR_INTERNAL_ERROR) else ProcessControllerMtpAdded env ag cs i inst2)"

definition Notify_ControllerMtpDeleted :: "'m cont_state_scheme \<Rightarrow> int \<Rightarrow> int \<Rightarrow> 'm cont_state_scheme" where
  "Notify_ControllerMtpDeleted cs inst1 inst2 =
    (case FindControllerMtpFromReq (ctrls cs) inst1 inst2 of
       None \<Rightarrow> cs | Some (i, j) \<Rightarrow> upd_ctrl i (upd_mtp j DestroyControllerMtp) cs)"

text \<open>The controller that a notification is about, asserted to exist.\<close>

definition on_ctrl :: "'m cont_state_scheme \<Rightarrow> int \<Rightarrow> (controller_t \<Rightarrow> controller_t) \<Rightarrow> 'm cont_state_scheme option" where
  "on_ctrl cs inst1 f =
    (let i = FindControllerByInstance (ctrls cs) inst1 in if i = INVALID then None else Some (upd_ctrl i f cs))"

definition on_mtp :: "'m cont_state_scheme \<Rightarrow> int \<Rightarrow> int \<Rightarrow> (controller_mtp \<Rightarrow> controller_mtp) \<Rightarrow> 'm cont_state_scheme option" where
  "on_mtp cs inst1 inst2 f =
    (case FindControllerMtpFromReq (ctrls cs) inst1 inst2 of None \<Rightarrow> None | Some (i, j) \<Rightarrow> Some (upd_ctrl i (upd_mtp j f) cs))"

definition Notify_ControllerEnable :: "'m cont_state_scheme \<Rightarrow> int \<Rightarrow> bool \<Rightarrow> 'm cont_state_scheme option" where
  "Notify_ControllerEnable cs inst1 val_bool = on_ctrl cs inst1 (\<lambda>c. c\<lparr>cont_enable := val_bool\<rparr>)"

definition Notify_ControllerEndpointID :: "'m cont_state_scheme \<Rightarrow> int \<Rightarrow> cstr \<Rightarrow> 'm cont_state_scheme option" where
  "Notify_ControllerEndpointID cs inst1 val = on_ctrl cs inst1 (\<lambda>c. c\<lparr>endpoint_id := val\<rparr>)"

definition Notify_ControllerAssignedRole :: "cont_env \<Rightarrow> agent \<Rightarrow> 'm cont_state_scheme \<Rightarrow> int \<Rightarrow> cstr \<Rightarrow> ('m, unit) cont_result" where
  "Notify_ControllerAssignedRole env ag cs inst1 val =
    (let i = FindControllerByInstance (ctrls cs) inst1
     in if i = INVALID then None else UpdateAssignedRole (cn_hooks env) ag cs i val)"

definition Notify_ControllerMtpEnable :: "'m cont_state_scheme \<Rightarrow> int \<Rightarrow> int \<Rightarrow> bool \<Rightarrow> 'm cont_state_scheme option" where
  "Notify_ControllerMtpEnable cs inst1 inst2 val_bool = on_mtp cs inst1 inst2 (\<lambda>m. m\<lparr>mtp_enable := val_bool\<rparr>)"

definition Notify_ControllerMtpProtocol :: "'m cont_state_scheme \<Rightarrow> int \<Rightarrow> int \<Rightarrow> cstr \<Rightarrow> 'm cont_state_scheme option" where
  "Notify_ControllerMtpProtocol cs inst1 inst2 val =
    (let index = TEXT_UTILS_StringToEnum val mtp_protocols
     in if index = INVALID then None else on_mtp cs inst1 inst2 (\<lambda>m. m\<lparr>mtp_protocol := mtp_protocol_of index\<rparr>))"

text \<open>
  The connection is read again from the data model before it is compared, an empty reference is not
  taken over.
\<close>

definition Notify_ControllerMtpMqttReference :: "cont_env \<Rightarrow> agent \<Rightarrow> 'm cont_state_scheme \<Rightarrow> int \<Rightarrow> int \<Rightarrow> cstr \<Rightarrow> ('m, unit) cont_result" where
  "Notify_ControllerMtpMqttReference env ag cs inst1 inst2 val =
    (if val = [] then cn_ok ag cs
     else cn_bind (cn_read cs (DM_ACCESS_ValidateReference (cn_hooks env) ag val ''Device.MQTT.Client.{i}'')) (\<lambda>ag1 cs1 n.
       case FindControllerMtpFromReq (ctrls cs1) inst1 inst2 of
         None \<Rightarrow> None
       | Some (i, j) \<Rightarrow>
          (let cont = ctrls cs1 ! nat i; m = cont_mtps cont ! nat j; put = (\<lambda>r. upd_ctrl i (upd_mtp j (\<lambda>m. m\<lparr>mqtt_connection_instance := r\<rparr>)))
           in case DEVICE_MTP_GetMqttReference (cn_hooks env) ag1 (mtp_param (cont_instance cont) (mtp_instance m) ''.MQTT.Reference'') of
                None \<Rightarrow> None
              | Some (ag2, Inl err) \<Rightarrow> Some (ag2, put INVALID cs1, Inl err)
              | Some (ag2, Inr r) \<Rightarrow>
                 (let reconnect = mtp_enable m \<and> mtp_protocol m = kMtpProtocol_MQTT \<and> r \<noteq> n \<and> n \<noteq> INVALID
                  in cn_ok ag2 ((if reconnect then note_call (Schedule_Reconnect n) else (\<lambda>s. s)) (put n cs1))))))"

definition Notify_ControllerMtpMqttTopic :: "'m cont_state_scheme \<Rightarrow> int \<Rightarrow> int \<Rightarrow> cstr \<Rightarrow> 'm cont_state_scheme option" where
  "Notify_ControllerMtpMqttTopic cs inst1 inst2 val =
    (case FindControllerMtpFromReq (ctrls cs) inst1 inst2 of
       None \<Rightarrow> None
     | Some (i, j) \<Rightarrow>
        (let m = cont_mtps (ctrls cs ! nat i) ! nat j; on = mtp_enable m \<and> mtp_protocol m = kMtpProtocol_MQTT;
             cs1 = upd_ctrl i (upd_mtp j (\<lambda>m. m\<lparr>mqtt_controller_topic := Some val\<rparr>)) cs
         in if on \<and> mqtt_controller_topic m = None then None
            else if on \<and> mqtt_controller_topic m \<noteq> Some val \<and> mqtt_connection_instance m \<noteq> INVALID
              then Some (note_call (Schedule_Reconnect (mqtt_connection_instance m)) cs1)
              else Some cs1))"

text \<open>The periodic time is computed again, with the new interval or base.\<close>

definition on_periodic :: "cont_env \<Rightarrow> 'm cont_state_scheme \<Rightarrow> int \<Rightarrow> (controller_t \<Rightarrow> controller_t) \<Rightarrow> 'm cont_state_scheme option" where
  "on_periodic env cs inst1 f =
    (let i = FindControllerByInstance (ctrls cs) inst1
     in if i = INVALID then None
        else map_option UpdateFirstPeriodicNotificationTime (set_next_time env i (upd_ctrl i f cs)))"

definition Notify_PeriodicNotifInterval :: "cont_env \<Rightarrow> 'm cont_state_scheme \<Rightarrow> int \<Rightarrow> 32 word \<Rightarrow> 'm cont_state_scheme option" where
  "Notify_PeriodicNotifInterval env cs inst1 val_uint = on_periodic env cs inst1 (\<lambda>c. c\<lparr>periodic_interval := val_uint\<rparr>)"

definition Notify_PeriodicNotifTime :: "cont_env \<Rightarrow> 'm cont_state_scheme \<Rightarrow> int \<Rightarrow> int \<Rightarrow> 'm cont_state_scheme option" where
  "Notify_PeriodicNotifTime env cs inst1 val_datetime =
    (if FindControllerByInstance (ctrls cs) inst1 = INVALID then None
     else let (base, seed) = RETRY_WAIT_UseRandomBaseIfUnknownTime (cn_retry env) (cont_seed cs) val_datetime
       in on_periodic env (cs\<lparr>cont_seed := seed\<rparr>) inst1 (\<lambda>c. c\<lparr>periodic_base := base\<rparr>))"

definition Notify_ControllerRetryMinimumWaitInterval :: "'m cont_state_scheme \<Rightarrow> int \<Rightarrow> 32 word \<Rightarrow> 'm cont_state_scheme option" where
  "Notify_ControllerRetryMinimumWaitInterval cs inst1 val_uint = on_ctrl cs inst1 (\<lambda>c. c\<lparr>subs_retry_min_wait_interval := val_uint\<rparr>)"

definition Notify_ControllerRetryIntervalMultiplier :: "'m cont_state_scheme \<Rightarrow> int \<Rightarrow> 32 word \<Rightarrow> 'm cont_state_scheme option" where
  "Notify_ControllerRetryIntervalMultiplier cs inst1 val_uint = on_ctrl cs inst1 (\<lambda>c. c\<lparr>subs_retry_interval_multiplier := val_uint\<rparr>)"

section \<open>The parameters of a session\<close>

definition E2E_CONTEXT_E2eSessionModeToEnum :: "cstr \<Rightarrow> int" where
  "E2E_CONTEXT_E2eSessionModeToEnum str = TEXT_UTILS_StringToEnum str e2e_session_modes"

definition E2E_CONTEXT_E2eSessionStatusToString :: "e2e_session_status \<Rightarrow> cstr" where
  "E2E_CONTEXT_E2eSessionStatusToString status = TEXT_UTILS_EnumToString (e2e_status_code status) e2e_session_status_names"

definition Validate_E2ESessionMode :: "cstr \<Rightarrow> usp_err + unit" where
  "Validate_E2ESessionMode val =
    (if E2E_CONTEXT_E2eSessionModeToEnum val = INVALID then Inl USP_ERR_INVALID_VALUE else USP_OK)"

definition Notify_E2ESessionMaxUSPRecordSize :: "'m cont_state_scheme \<Rightarrow> int \<Rightarrow> 32 word \<Rightarrow> 'm cont_state_scheme option" where
  "Notify_E2ESessionMaxUSPRecordSize cs inst1 val_uint = on_ctrl cs inst1 (upd_session (\<lambda>e. e\<lparr>max_record_size := val_uint\<rparr>))"

definition Get_E2ESessionStatus :: "controller_t list \<Rightarrow> int \<Rightarrow> nat \<Rightarrow> cstr option" where
  "Get_E2ESessionStatus cs inst1 len =
    (let i = FindControllerByInstance cs inst1
     in if i = INVALID then None
        else Some (USP_STRNCPY (E2E_CONTEXT_E2eSessionStatusToString (e2e_status (cont_session (cs ! nat i)))) len))"

fun mode_event :: "e2e_session_mode \<Rightarrow> e2e_session_status \<Rightarrow> e2e_event" where
  "mode_event kE2EMode_Require kE2EStatus_Up = kE2EEvent_None"
| "mode_event kE2EMode_Require kE2EStatus_Negotiating = kE2EEvent_None"
| "mode_event kE2EMode_Require kE2EStatus_Down = kE2EEvent_Establishment"
| "mode_event kE2EMode_Allow s = kE2EEvent_None"
| "mode_event kE2EMode_Forbid kE2EStatus_Up = kE2EEvent_Termination"
| "mode_event kE2EMode_Forbid kE2EStatus_Negotiating = kE2EEvent_Termination"
| "mode_event kE2EMode_Forbid kE2EStatus_Down = kE2EEvent_None"

fun reset_event :: "e2e_session_mode \<Rightarrow> e2e_session_status \<Rightarrow> e2e_event" where
  "reset_event kE2EMode_Require kE2EStatus_Up = kE2EEvent_Restart"
| "reset_event kE2EMode_Require kE2EStatus_Negotiating = kE2EEvent_Restart"
| "reset_event kE2EMode_Require kE2EStatus_Down = kE2EEvent_Establishment"
| "reset_event m kE2EStatus_Up = kE2EEvent_Termination"
| "reset_event m kE2EStatus_Negotiating = kE2EEvent_Termination"
| "reset_event m kE2EStatus_Down = kE2EEvent_None"

text \<open>Handed to the data model thread's queue, or refused with an error.\<close>

definition post :: "cont_env \<Rightarrow> cont_call \<Rightarrow> 'm cont_state_scheme \<Rightarrow> 'm cont_state_scheme \<times> (usp_err + unit)" where
  "post env c cs = (case post_accepts env (calls cs) c of Inl err \<Rightarrow> (cs, Inl err) | Inr _ \<Rightarrow> (note_call c cs, USP_OK))"

definition Notify_E2ESessionMode :: "cont_env \<Rightarrow> 'm cont_state_scheme \<Rightarrow> int \<Rightarrow> cstr \<Rightarrow> ('m cont_state_scheme \<times> (usp_err + unit)) option" where
  "Notify_E2ESessionMode env cs inst1 val =
    (let i = FindControllerByInstance (ctrls cs) inst1; e = E2E_CONTEXT_E2eSessionModeToEnum val
     in if i = INVALID \<or> e = INVALID then None
        else
          let mode = e2e_mode_of e; session = cont_session (ctrls cs ! nat i);
              cs1 = upd_ctrl i (upd_session (\<lambda>s. s\<lparr>mode_buffered := mode\<rparr>)) cs;
              event = mode_event mode (e2e_status session)
          in if event \<noteq> kE2EEvent_None \<or> e2e_mode session \<noteq> mode then Some (post env (Post_E2e_Event event INVALID inst1) cs1)
             else Some (cs1, USP_OK))"

definition Async_E2ESessionReset :: "cont_env \<Rightarrow> 'm cont_state_scheme \<Rightarrow> int \<Rightarrow> int \<Rightarrow> 'm cont_state_scheme \<times> (usp_err + unit)" where
  "Async_E2ESessionReset env cs inst1 request =
    (case DEVICE_CONTROLLER_FindE2ESessionByInstance (ctrls cs) inst1 of
       None \<Rightarrow> (cs, Inl USP_ERR_COMMAND_FAILURE)
     | Some i \<Rightarrow>
        (let session = cont_session (ctrls cs ! i); event = reset_event (e2e_mode session) (e2e_status session)
         in if event = kE2EEvent_None then (cs, Inl USP_ERR_COMMAND_FAILURE)
            else case post env (Operation_Status request ''Active'') cs of
              (cs1, Inl err) \<Rightarrow> (cs1, Inl err)
            | (cs1, Inr _) \<Rightarrow>
               (case post env (Post_E2e_Event event request inst1) cs1 of
                  (cs2, Inl _) \<Rightarrow> (cs2, Inl USP_ERR_COMMAND_FAILURE)
                | (cs2, Inr _) \<Rightarrow> (cs2, USP_OK))))"

text \<open>The empty table; the registration of its data model is one of calls of \<open>core/usp_register.c\<close>.\<close>

definition DEVICE_CONTROLLER_Init :: "'m cont_state_scheme \<Rightarrow> 'm cont_state_scheme" where
  "DEVICE_CONTROLLER_Init cs =
    (fst (SYNC_TIMER_Add (Some PeriodicNotificationExec_cb) 0 END_OF_TIME (cs\<lparr>first_periodic_notification_time := END_OF_TIME\<rparr>)))
      \<lparr>ctrls := replicate MAX_CONTROLLERS (zero_controller\<lparr>cont_instance := INVALID\<rparr>)\<rparr>"

section \<open>What the operations leave alone\<close>

text \<open>
  The relation \<open>R\<close> holds between the table before and after a run. A relation that is reflexive and
  transitive is carried through the sequences of operations.
\<close>

definition cn_steps :: "('m cont_state_scheme \<Rightarrow> 'm cont_state_scheme \<Rightarrow> bool) \<Rightarrow> 'm cont_state_scheme \<Rightarrow> ('m, 'a) cont_result \<Rightarrow> bool" where
  "cn_steps R cs m \<longleftrightarrow> (\<forall>ag' cs' r. m = Some (ag', cs', r) \<longrightarrow> R cs cs')"

lemma cn_stepsI: "(\<And>ag' cs' r. m = Some (ag', cs', r) \<Longrightarrow> R cs cs') \<Longrightarrow> cn_steps R cs m"
  by (simp add: cn_steps_def)

lemma cn_stepsD: "cn_steps R cs m \<Longrightarrow> m = Some (ag', cs', r) \<Longrightarrow> R cs cs'"
  by (simp add: cn_steps_def)

locale ctrl_steps =
  fixes R :: "'m cont_state_scheme \<Rightarrow> 'm cont_state_scheme \<Rightarrow> bool"
  assumes R_refl: "R cs cs"
    and R_trans: "R cs cs1 \<Longrightarrow> R cs1 cs2 \<Longrightarrow> R cs cs2"
begin

lemma steps_ok: "R cs cs' \<Longrightarrow> cn_steps R cs (Some (ag, cs', r))"
  by (simp add: cn_steps_def)

lemma steps_cn_ok: "R cs cs' \<Longrightarrow> cn_steps R cs (cn_ok ag cs')"
  by (simp add: cn_steps_def cn_ok_def)

lemma steps_None: "cn_steps R cs None"
  by (simp add: cn_steps_def)

lemma steps_read: "R cs cs' \<Longrightarrow> cn_steps R cs (cn_read cs' m)"
  by (auto simp: cn_steps_def cn_read_def)

lemma steps_bind:
  assumes "cn_steps R cs m" "\<And>ag' cs' x. R cs cs' \<Longrightarrow> cn_steps R cs (f ag' cs' x)"
  shows "cn_steps R cs (cn_bind m f)"
proof (rule cn_stepsI)
  fix ag' cs' r
  assume "cn_bind m f = Some (ag', cs', r)"
  then consider err where "m = Some (ag', cs', Inl err)" | ag1 cs1 x where "m = Some (ag1, cs1, Inr x)" "f ag1 cs1 x = Some (ag', cs', r)"
    unfolding cn_bind_def by (auto split: option.splits sum.splits)
  then show "R cs cs'"
  proof cases
    case 1
    then show ?thesis using cn_stepsD [OF assms(1)] by blast
  next
    case 2
    then show ?thesis using cn_stepsD [OF assms(2) 2(2)] cn_stepsD [OF assms(1) 2(1)] by blast
  qed
qed

lemma steps_on_error:
  assumes "cn_steps R cs m" "\<And>cs'. R cs cs' \<Longrightarrow> R cs (undo cs')"
  shows "cn_steps R cs (on_error undo m)"
  using assms unfolding cn_steps_def on_error_def by (auto split: option.splits sum.splits)

lemma steps_after: "R cs cs1 \<Longrightarrow> cn_steps R cs1 m \<Longrightarrow> cn_steps R cs m"
  unfolding cn_steps_def using R_trans by blast

lemma steps_map: "R cs cs' \<Longrightarrow> cn_steps R cs (map_option (\<lambda>r. (ag, cs', r)) m)"
  by (auto simp: cn_steps_def)

lemma steps_opt:
  "(m = None \<Longrightarrow> cn_steps R cs a) \<Longrightarrow> (\<And>x. m = Some x \<Longrightarrow> cn_steps R cs (b x)) \<Longrightarrow>
    cn_steps R cs (case m of None \<Rightarrow> a | Some x \<Rightarrow> b x)"
  by (cases m) auto

lemma steps_if: "(b \<Longrightarrow> cn_steps R cs m) \<Longrightarrow> (\<not> b \<Longrightarrow> cn_steps R cs m') \<Longrightarrow> cn_steps R cs (if b then m else m')"
  by simp

lemma steps_pair: "(\<And>x y. p = (x, y) \<Longrightarrow> cn_steps R cs (f x y)) \<Longrightarrow> cn_steps R cs (case p of (x, y) \<Rightarrow> f x y)"
  by (cases p) simp

lemmas intros = steps_pair steps_ok steps_cn_ok steps_None steps_read steps_bind steps_on_error steps_map steps_if R_refl

end

text \<open>Only the \<open>i\<close>-th entry changes; \<open>slot_kept\<close>: and it keeps its instance, its endpoint and its size.\<close>

definition others_kept :: "nat \<Rightarrow> 'm cont_state_scheme \<Rightarrow> 'm cont_state_scheme \<Rightarrow> bool" where
  "others_kept i cs cs' \<longleftrightarrow> length (ctrls cs') = length (ctrls cs) \<and> (\<forall>k. k \<noteq> i \<longrightarrow> ctrls cs' ! k = ctrls cs ! k) \<and>
    length (cont_mtps (ctrls cs' ! i)) = length (cont_mtps (ctrls cs ! i))"

definition slot_kept :: "nat \<Rightarrow> 'm cont_state_scheme \<Rightarrow> 'm cont_state_scheme \<Rightarrow> bool" where
  "slot_kept i cs cs' \<longleftrightarrow> others_kept i cs cs' \<and> cont_instance (ctrls cs' ! i) = cont_instance (ctrls cs ! i) \<and>
    endpoint_id (ctrls cs' ! i) = endpoint_id (ctrls cs ! i)"

interpretation others: ctrl_steps "others_kept i" for i
  by unfold_locales (auto simp: others_kept_def)

interpretation slot: ctrl_steps "slot_kept i" for i
  by unfold_locales (auto simp: slot_kept_def others_kept_def)

lemma upd_ctrl_length [simp]: "length (ctrls (upd_ctrl i f cs)) = length (ctrls cs)"
  by (simp add: upd_ctrl_def)

lemma upd_ctrl_nth:
  "ctrls (upd_ctrl i f cs) ! k = (if k = nat i \<and> k < length (ctrls cs) then f (ctrls cs ! k) else ctrls cs ! k)"
  using list_update_beyond [of "ctrls cs" "nat i"] by (auto simp: upd_ctrl_def nth_list_update not_less)

lemma others_upd: "(\<And>c. length (cont_mtps (f c)) = length (cont_mtps c)) \<Longrightarrow> others_kept (nat i) cs (upd_ctrl i f cs)"
  by (simp add: others_kept_def upd_ctrl_nth)

lemma slot_upd:
  "(\<And>c. cont_instance (f c) = cont_instance c \<and> endpoint_id (f c) = endpoint_id c \<and> length (cont_mtps (f c)) = length (cont_mtps c)) \<Longrightarrow>
    slot_kept (nat i) cs (upd_ctrl i f cs)"
  by (simp add: slot_kept_def others_kept_def upd_ctrl_nth)

lemma slot_others: "slot_kept i cs cs' \<Longrightarrow> others_kept i cs cs'"
  by (simp add: slot_kept_def)

lemma upd_mtp_fields [simp]:
  "cont_instance (upd_mtp j f c) = cont_instance c" "endpoint_id (upd_mtp j f c) = endpoint_id c"
  "length (cont_mtps (upd_mtp j f c)) = length (cont_mtps c)" "next_time_to_fire (upd_mtp j f c) = next_time_to_fire c"
  by (simp_all add: upd_mtp_def)

lemma upd_session_fields [simp]:
  "cont_instance (upd_session f c) = cont_instance c" "endpoint_id (upd_session f c) = endpoint_id c"
  "cont_mtps (upd_session f c) = cont_mtps c" "next_time_to_fire (upd_session f c) = next_time_to_fire c"
  by (simp_all add: upd_session_def)

lemma DestroyController_fields [simp]:
  "cont_instance (DestroyController c) = INVALID" "length (cont_mtps (DestroyController c)) = length (cont_mtps c)"
  by (simp_all add: DestroyController_def)

lemma slot_step: "slot_kept (nat i) cs cs1 \<Longrightarrow>
  (\<And>c. cont_instance (f c) = cont_instance c \<and> endpoint_id (f c) = endpoint_id c \<and> length (cont_mtps (f c)) = length (cont_mtps c)) \<Longrightarrow>
    slot_kept (nat i) cs (upd_ctrl i f cs1)"
  by (rule slot.R_trans [OF _ slot_upd])

lemma others_step: "others_kept (nat i) cs cs1 \<Longrightarrow> (\<And>c. length (cont_mtps (f c)) = length (cont_mtps c)) \<Longrightarrow>
    others_kept (nat i) cs (upd_ctrl i f cs1)"
  by (rule others.R_trans [OF _ others_upd])

lemma ProcessControllerMtpAdded_slot: "cn_steps (slot_kept (nat i)) cs (ProcessControllerMtpAdded env ag cs i n)"
  unfolding ProcessControllerMtpAdded_def Let_def by (intro slot.intros slot_step; simp)

lemma timer_ctrls [simp]:
  "ctrls (fst (SYNC_TIMER_Reload cb k t cs)) = ctrls cs" "ctrls (UpdateFirstSyncTimerTime cs) = ctrls cs"
  "calls (fst (SYNC_TIMER_Reload cb k t cs)) = calls cs"
  "first_periodic_notification_time (fst (SYNC_TIMER_Reload cb k t cs)) = first_periodic_notification_time cs"
  by (simp_all add: SYNC_TIMER_Reload_def UpdateFirstSyncTimerTime_def Let_def)

lemma UpdateFirstPeriodic_fields [simp]:
  "ctrls (UpdateFirstPeriodicNotificationTime cs) = ctrls cs" "calls (UpdateFirstPeriodicNotificationTime cs) = calls cs"
  by (simp_all add: UpdateFirstPeriodicNotificationTime_def Let_def)

lemma note_call_fields [simp]:
  "ctrls (note_call c cs) = ctrls cs" "calls (note_call c cs) = calls cs @ [c]" "calls (upd_ctrl i f cs) = calls cs"
  by (simp_all add: note_call_def upd_ctrl_def)

lemma kept_cong: "ctrls cs2 = ctrls cs1 \<Longrightarrow> slot_kept i cs cs2 = slot_kept i cs cs1" "ctrls cs2 = ctrls cs1 \<Longrightarrow> others_kept i cs cs2 = others_kept i cs cs1"
  by (simp_all add: slot_kept_def others_kept_def)

lemma set_next_time_slot: "set_next_time env i cs = Some cs' \<Longrightarrow> slot_kept (nat i) cs cs'"
  by (auto simp: set_next_time_def Let_def intro!: slot_upd)

lemma UpdateAssignedRole_slot: "cn_steps (slot_kept (nat i)) cs (UpdateAssignedRole h ag cs i reference)"
proof (rule cn_stepsI)
  fix ag' cs' r
  assume "UpdateAssignedRole h ag cs i reference = Some (ag', cs', r)"
  then consider "cs' = cs" | f where "cs' = upd_ctrl i (\<lambda>c. c\<lparr>cont_role := f c\<rparr>) cs"
    unfolding UpdateAssignedRole_def Let_def by (fastforce split: if_splits option.splits prod.splits sum.splits)
  then show "slot_kept (nat i) cs cs'"
    by cases (simp_all add: slot.R_refl slot_upd)
qed

lemma ProcessControllerE2ESessionAdded_slot: "cn_steps (slot_kept (nat i)) cs (ProcessControllerE2ESessionAdded env ag cs i)"
  unfolding ProcessControllerE2ESessionAdded_def Let_def by (intro slot.intros slot_step; simp)

lemma add_mtps_slot: "cn_steps (slot_kept (nat i)) cs (add_mtps env ag cs i ms)"
proof (induction ms arbitrary: ag cs)
  case (Cons m ms)
  note p = cn_stepsD [OF ProcessControllerMtpAdded_slot [of i cs env ag m]]
  show ?case
  proof (cases "ProcessControllerMtpAdded env ag cs i m")
    case (Some x)
    then obtain ag1 cs1 r where x: "x = (ag1, cs1, r)" by (cases x)
    show ?thesis
      by (cases r) (auto simp: Some x intro!: slot.steps_bind slot.steps_read intro: slot.steps_after [OF p] slot.steps_after Cons.IH p [OF Some [unfolded x]])
  qed (simp add: slot.intros)
qed (simp add: slot.intros)

lemma finish_controller_slot: "cn_steps (slot_kept (nat i)) cs (finish_controller env ag cs i n reference)"
  unfolding finish_controller_def
  by (intro slot.intros UpdateAssignedRole_slot; (assumption)?;
      (rule slot.steps_after, assumption, rule add_mtps_slot ProcessControllerE2ESessionAdded_slot)?)

definition inst_kept :: "nat \<Rightarrow> 'm cont_state_scheme \<Rightarrow> 'm cont_state_scheme \<Rightarrow> bool" where
  "inst_kept i cs cs' \<longleftrightarrow> others_kept i cs cs' \<and> cont_instance (ctrls cs' ! i) = cont_instance (ctrls cs ! i)"

interpretation inst: ctrl_steps "inst_kept i" for i
  by unfold_locales (auto simp: inst_kept_def others_kept_def)

lemma slot_inst: "slot_kept i cs cs' \<Longrightarrow> inst_kept i cs cs'"
  by (simp add: slot_kept_def inst_kept_def)

lemma inst_step: "inst_kept (nat i) cs cs1 \<Longrightarrow>
  (\<And>c. cont_instance (f c) = cont_instance c \<and> length (cont_mtps (f c)) = length (cont_mtps c)) \<Longrightarrow>
    inst_kept (nat i) cs (upd_ctrl i f cs1)"
  by (simp add: inst_kept_def others_kept_def upd_ctrl_nth)

lemma inst_cong:
  "inst_kept i cs cs1 \<Longrightarrow> inst_kept i cs (cs1\<lparr>cont_seed := seed\<rparr>)"
  "inst_kept i cs cs1 \<Longrightarrow> inst_kept i cs (UpdateFirstPeriodicNotificationTime cs1)"
  by (simp_all add: inst_kept_def others_kept_def)

lemma inst_next:
  assumes "inst_kept (nat i) cs cs0" "\<And>cs1. inst_kept (nat i) cs cs1 \<Longrightarrow> cn_steps (inst_kept (nat i)) cs (b cs1)"
  shows "cn_steps (inst_kept (nat i)) cs (case set_next_time env i cs0 of None \<Rightarrow> None | Some cs1 \<Rightarrow> b cs1)"
proof (rule inst.steps_opt)
  show "cn_steps (inst_kept (nat i)) cs None" by (rule inst.steps_None)
next
  fix cs1
  assume "set_next_time env i cs0 = Some cs1"
  then have "inst_kept (nat i) cs0 cs1" by (intro slot_inst set_next_time_slot)
  then show "cn_steps (inst_kept (nat i)) cs (b cs1)" by (intro assms(2) inst.R_trans [OF assms(1)])
qed

lemma load_controller_inst: "cn_steps (inst_kept (nat i)) cs (load_controller env ag cs i n)"
  unfolding load_controller_def load_params_def load_endpoint_def Let_def by (intro inst.intros inst_next inst_step inst_cong; simp)

lemma cn_bind_Inr:
  assumes "cn_bind m f = Some (ag', cs', Inr y)"
  obtains ag cs x where "m = Some (ag, cs, Inr x)" "f ag cs x = Some (ag', cs', Inr y)"
  using assms unfolding cn_bind_def by (auto split: option.splits sum.splits)

lemma load_controller_endpoint:
  assumes "load_controller env ag cs i n = Some (ag', cs', Inr u)" "nat i < length (ctrls cs)"
  shows "ValidateEndpointIdUniqueness (ctrls cs') (endpoint_id (ctrls cs' ! nat i)) n = USP_OK"
proof -
  obtain ag1 cs1 x where "load_endpoint env ag1 cs1 i n = Some (ag', cs', Inr u)"
    using assms(1) unfolding load_controller_def by (elim cn_bind_Inr)
  then obtain ep cs7 where e: "cs' = upd_ctrl i (\<lambda>c. c\<lparr>endpoint_id := ep\<rparr>) cs7" "ValidateEndpointIdUniqueness (ctrls cs') ep n = USP_OK"
    unfolding load_endpoint_def Let_def by (auto elim: cn_bind_Inr)
  have "length (ctrls cs') = length (ctrls cs)"
    using cn_stepsD [OF load_controller_inst assms(1)] by (simp add: inst_kept_def others_kept_def)
  then show ?thesis using e assms(2) by (simp add: upd_ctrl_nth)
qed

section \<open>The table stays well-formed\<close>

abbreviation used :: "'c controller_scheme \<Rightarrow> bool" where
  "used c \<equiv> cont_instance c \<noteq> INVALID"

definition unique_by :: "('c controller_scheme \<Rightarrow> 'k) \<Rightarrow> 'c controller_scheme list \<Rightarrow> bool" where
  "unique_by f cs \<longleftrightarrow> (\<forall>i<length cs. \<forall>j<length cs. i \<noteq> j \<longrightarrow> used (cs ! i) \<longrightarrow> used (cs ! j) \<longrightarrow> f (cs ! i) \<noteq> f (cs ! j))"

text \<open>The array keeps its size, and no two controllers in use have the same instance or the same endpoint.\<close>

definition ctrls_ok :: "controller_t list \<Rightarrow> bool" where
  "ctrls_ok cs \<longleftrightarrow> length cs = MAX_CONTROLLERS \<and> (\<forall>c\<in>set cs. length (cont_mtps c) = MAX_CONTROLLER_MTPS) \<and>
    unique_by cont_instance cs \<and> unique_by endpoint_id cs"

lemma unique_by_update:
  assumes "length cs' = length cs" "\<And>k. k \<noteq> i \<Longrightarrow> cs' ! k = cs ! k" "unique_by f cs"
    "\<And>k. k < length cs \<Longrightarrow> k \<noteq> i \<Longrightarrow> i < length cs \<Longrightarrow> used (cs' ! i) \<Longrightarrow> used (cs ! k) \<Longrightarrow> f (cs ! k) \<noteq> f (cs' ! i)"
  shows "unique_by f cs'"
  unfolding unique_by_def
proof (intro allI impI)
  fix k l
  assume kl: "k < length cs'" "l < length cs'" "k \<noteq> l" "used (cs' ! k)" "used (cs' ! l)"
  then consider "k = i" "l \<noteq> i" | "l = i" "k \<noteq> i" | "k \<noteq> i" "l \<noteq> i" by blast
  then show "f (cs' ! k) \<noteq> f (cs' ! l)"
  proof cases
    case 1
    then show ?thesis using assms(1,2) assms(4) [of l] kl by force
  next
    case 2
    then show ?thesis using assms(1,2) assms(4) [of k] kl by force
  next
    case 3
    then show ?thesis using assms(1,2,3) kl unfolding unique_by_def by metis
  qed
qed

lemma mtps_kept:
  assumes "others_kept i cs cs'" "\<forall>c\<in>set (ctrls cs). length (cont_mtps c) = m"
  shows "\<forall>c\<in>set (ctrls cs'). length (cont_mtps c) = m"
proof
  fix c
  assume "c \<in> set (ctrls cs')"
  then obtain k where k: "k < length (ctrls cs')" "c = ctrls cs' ! k" by (auto simp: in_set_conv_nth)
  then show "length (cont_mtps c) = m" using assms nth_mem [of k "ctrls cs"] by (cases "k = i") (auto simp: others_kept_def)
qed

lemma ctrls_ok_update:
  assumes "others_kept i cs cs'" "ctrls_ok (ctrls cs)"
    "\<And>k. k < length (ctrls cs) \<Longrightarrow> k \<noteq> i \<Longrightarrow> i < length (ctrls cs) \<Longrightarrow> used (ctrls cs' ! i) \<Longrightarrow> used (ctrls cs ! k) \<Longrightarrow>
      cont_instance (ctrls cs ! k) \<noteq> cont_instance (ctrls cs' ! i) \<and> endpoint_id (ctrls cs ! k) \<noteq> endpoint_id (ctrls cs' ! i)"
  shows "ctrls_ok (ctrls cs')"
proof -
  have l: "length (ctrls cs') = length (ctrls cs)" "\<And>k. k \<noteq> i \<Longrightarrow> ctrls cs' ! k = ctrls cs ! k"
    using assms(1) by (simp_all add: others_kept_def)
  have u: "unique_by cont_instance (ctrls cs)" "unique_by endpoint_id (ctrls cs)" using assms(2) by (simp_all add: ctrls_ok_def)
  have "cont_instance (ctrls cs ! k) \<noteq> cont_instance (ctrls cs' ! i)" "endpoint_id (ctrls cs ! k) \<noteq> endpoint_id (ctrls cs' ! i)"
    if "k < length (ctrls cs)" "k \<noteq> i" "i < length (ctrls cs)" "used (ctrls cs' ! i)" "used (ctrls cs ! k)" for k
    using assms(3) [OF that] by simp_all
  note unique = unique_by_update [OF l u(1) this(1)] unique_by_update [OF l u(2) this(2)]
  have "\<forall>c\<in>set (ctrls cs'). length (cont_mtps c) = MAX_CONTROLLER_MTPS"
    by (rule mtps_kept [OF assms(1)]) (use assms(2) in \<open>simp add: ctrls_ok_def\<close>)
  then show ?thesis unfolding ctrls_ok_def using l(1) u assms(2) by (intro conjI unique) (simp_all add: ctrls_ok_def)
qed

lemma ctrls_ok_slot:
  assumes "slot_kept i cs cs'" "ctrls_ok (ctrls cs)"
  shows "ctrls_ok (ctrls cs')"
proof (rule ctrls_ok_update [OF slot_others [OF assms(1)] assms(2)])
  fix k
  assume "k < length (ctrls cs)" "k \<noteq> i" "i < length (ctrls cs)" "used (ctrls cs' ! i)" "used (ctrls cs ! k)"
  then show "cont_instance (ctrls cs ! k) \<noteq> cont_instance (ctrls cs' ! i) \<and> endpoint_id (ctrls cs ! k) \<noteq> endpoint_id (ctrls cs' ! i)"
    using assms by (simp add: slot_kept_def ctrls_ok_def unique_by_def)
qed

lemma ctrls_ok_free: "ctrls_ok (ctrls cs) \<Longrightarrow> ctrls_ok (ctrls (upd_ctrl i DestroyController cs))"
  by (erule ctrls_ok_update [OF others_upd, rotated]) (simp_all add: upd_ctrl_nth)

lemma ctrls_ok_new:
  assumes "others_kept i cs cs'" "ctrls_ok (ctrls cs)" "cont_instance (ctrls cs' ! i) = n"
    "FindControllerByInstance (ctrls cs) n = INVALID" "ValidateEndpointIdUniqueness (ctrls cs') (endpoint_id (ctrls cs' ! i)) n = USP_OK"
  shows "ctrls_ok (ctrls cs')"
proof (rule ctrls_ok_update [OF assms(1,2)])
  fix k
  assume k: "k < length (ctrls cs)" "k \<noteq> i" "used (ctrls cs ! k)"
  then have s: "ctrls cs' ! k = ctrls cs ! k" "k < length (ctrls cs')" using assms(1) by (simp_all add: others_kept_def)
  have n: "cont_instance (ctrls cs ! k) \<noteq> n"
    using assms(4) k(1) by (auto simp: FindControllerByInstance_def idx_simps)
  have "ctrls cs ! k \<in> set (ctrls cs')" using s nth_mem by force
  then show "cont_instance (ctrls cs ! k) \<noteq> cont_instance (ctrls cs' ! i) \<and> endpoint_id (ctrls cs ! k) \<noteq> endpoint_id (ctrls cs' ! i)"
    using assms(3,5) n k(3) by (auto simp: ValidateEndpointIdUniqueness_def split: if_splits)
qed

lemma ProcessControllerAdded_ok:
  assumes "ProcessControllerAdded env ag cs n = Some (ag', cs', r)" "FindControllerByInstance (ctrls cs) n = INVALID" "ctrls_ok (ctrls cs)"
  shows "ctrls_ok (ctrls cs')"
proof -
  let ?i = "FindUnusedController (ctrls cs)"
  let ?f = "\<lambda>_. zero_controller\<lparr>cont_instance := n, cont_role := \<lparr>inherited = ROLE_DEFAULT, assigned = ROLE_DEFAULT\<rparr>\<rparr>"
  let ?cs0 = "upd_ctrl ?i ?f cs"
  show ?thesis
  proof (cases "?i = INVALID")
    case True
    then show ?thesis using assms(1,3) by (simp add: ProcessControllerAdded_def)
  next
    case False
    then have i: "nat ?i < length (ctrls cs)"
      using first_index_found [of "\<lambda>c. cont_instance c = INVALID" "ctrls cs" ?i] by (simp add: FindUnusedController_def)
    have l: "length (cont_mtps (ctrls cs ! nat ?i)) = MAX_CONTROLLER_MTPS"
      using assms(3) i by (simp add: ctrls_ok_def)
    have o: "others_kept (nat ?i) cs ?cs0" "cont_instance (ctrls ?cs0 ! nat ?i) = n"
      using i l by (simp_all add: others_kept_def upd_ctrl_nth zero_controller_def)
    from assms(1) False consider
        ag1 cs1 e where "load_controller env ag ?cs0 ?i n = Some (ag1, cs1, Inl e)" "cs' = upd_ctrl ?i DestroyController cs1"
      | ag1 cs1 u where "load_controller env ag ?cs0 ?i n = Some (ag1, cs1, Inr u)" "cs' = cs1"
      | ag1 cs1 u ag2 ref cs2 s where "load_controller env ag ?cs0 ?i n = Some (ag1, cs1, Inr u)"
          "finish_controller env ag2 cs1 ?i n ref = Some (ag', cs2, s)" "cs' = cs2 \<or> cs' = upd_ctrl ?i DestroyController cs2"
      unfolding ProcessControllerAdded_def Let_def cn_bind_def on_error_def cn_read_def
      by (auto split: option.splits sum.splits prod.splits)
    then show ?thesis
    proof cases
      case 1
      have "others_kept (nat ?i) ?cs0 cs1" using cn_stepsD [OF load_controller_inst 1(1)] by (simp add: inst_kept_def)
      then have "others_kept (nat ?i) cs cs'" unfolding 1(2) by (intro others_step) (auto intro: others.R_trans [OF o(1)])
      moreover have "cont_instance (ctrls cs' ! nat ?i) = INVALID"
        using i calculation unfolding 1(2) by (simp add: upd_ctrl_nth others_kept_def)
      ultimately show ?thesis using ctrls_ok_update [OF _ assms(3)] by metis
    next
      case 2
      have k: "inst_kept (nat ?i) ?cs0 cs1" using cn_stepsD [OF load_controller_inst 2(1)] .
      have "others_kept (nat ?i) cs cs1" using k by (auto simp: inst_kept_def intro: others.R_trans [OF o(1)])
      then show ?thesis
        unfolding 2(2) using ctrls_ok_new [OF _ assms(3) _ assms(2)] load_controller_endpoint [OF 2(1)] k o(2) i by (simp add: inst_kept_def)
    next
      case 3
      have k: "inst_kept (nat ?i) ?cs0 cs1" using cn_stepsD [OF load_controller_inst 3(1)] .
      have "others_kept (nat ?i) cs cs1" using k by (auto simp: inst_kept_def intro: others.R_trans [OF o(1)])
      then have "ctrls_ok (ctrls cs1)"
        using ctrls_ok_new [OF _ assms(3) _ assms(2)] load_controller_endpoint [OF 3(1)] k o(2) i by (simp add: inst_kept_def)
      then have "ctrls_ok (ctrls cs2)" using ctrls_ok_slot [OF cn_stepsD [OF finish_controller_slot 3(2)]] by simp
      then show ?thesis using 3(3) ctrls_ok_free by auto
    qed
  qed
qed

text \<open>A change that keeps the table well-formed.\<close>

definition ok_kept :: "'m cont_state_scheme \<Rightarrow> 'm cont_state_scheme \<Rightarrow> bool" where
  "ok_kept cs cs' \<longleftrightarrow> (ctrls_ok (ctrls cs) \<longrightarrow> ctrls_ok (ctrls cs'))"

interpretation keeps: ctrl_steps ok_kept
  by unfold_locales (auto simp: ok_kept_def)

lemma ok_ctrls: "ctrls cs' = ctrls cs1 \<Longrightarrow> ok_kept cs cs1 \<Longrightarrow> ok_kept cs cs'"
  by (simp add: ok_kept_def)

lemma ok_slot: "slot_kept i cs cs' \<Longrightarrow> ok_kept cs cs'"
  using ctrls_ok_slot by (auto simp: ok_kept_def)

lemma ok_upd:
  "(\<And>c. cont_instance (f c) = cont_instance c \<and> endpoint_id (f c) = endpoint_id c \<and> length (cont_mtps (f c)) = length (cont_mtps c)) \<Longrightarrow>
    ok_kept cs (upd_ctrl i f cs)"
  by (rule ok_slot [OF slot_upd])

lemma on_ctrl_ok: "on_ctrl cs n f = Some cs' \<Longrightarrow>
  (\<And>c. cont_instance (f c) = cont_instance c \<and> endpoint_id (f c) = endpoint_id c \<and> length (cont_mtps (f c)) = length (cont_mtps c)) \<Longrightarrow>
    ok_kept cs cs'"
  by (auto simp: on_ctrl_def Let_def split: if_splits intro!: ok_upd)

lemma on_mtp_ok: "on_mtp cs n m f = Some cs' \<Longrightarrow> ok_kept cs cs'"
  by (auto simp: on_mtp_def split: option.splits intro!: ok_upd)

lemma on_periodic_ok:
  assumes "on_periodic env cs n f = Some cs'"
    "\<And>c. cont_instance (f c) = cont_instance c \<and> endpoint_id (f c) = endpoint_id c \<and> length (cont_mtps (f c)) = length (cont_mtps c)"
  shows "ok_kept cs cs'"
proof -
  obtain i cs1 where "set_next_time env i (upd_ctrl i f cs) = Some cs1" "cs' = UpdateFirstPeriodicNotificationTime cs1"
    using assms(1) by (auto simp: on_periodic_def Let_def split: if_splits)
  then show ?thesis
    using keeps.R_trans [OF ok_upd [OF assms(2)] ok_slot [OF set_next_time_slot]] by (simp add: ok_kept_def)
qed

lemma PeriodicNotifTime_ok:
  assumes "Notify_PeriodicNotifTime env cs n t = Some cs'" shows "ok_kept cs cs'"
proof -
  obtain base seed where u: "RETRY_WAIT_UseRandomBaseIfUnknownTime (cn_retry env) (cont_seed cs) t = (base, seed)" by fastforce
  then have "on_periodic env (cs\<lparr>cont_seed := seed\<rparr>) n (\<lambda>c. c\<lparr>periodic_base := base\<rparr>) = Some cs'"
    using assms by (simp add: Notify_PeriodicNotifTime_def split: if_splits)
  then have "ok_kept (cs\<lparr>cont_seed := seed\<rparr>) cs'" by (rule on_periodic_ok) simp
  then show ?thesis by (simp add: ok_kept_def)
qed

lemma MqttReference_ok: "cn_steps ok_kept cs (Notify_ControllerMtpMqttReference env ag cs n m val)"
proof -
  have put: "ok_kept cs (upd_ctrl i (upd_mtp j f) cs1)" if "ok_kept cs cs1" for cs1 i j f
    by (rule keeps.R_trans [OF that ok_upd]) simp
  have note_ok: "ok_kept cs (note_call c cs1)" if "ok_kept cs cs1" for cs1 c
    using that by (simp add: ok_kept_def)
  show ?thesis
    unfolding Notify_ControllerMtpMqttReference_def Let_def
  proof (intro keeps.intros keeps.steps_bind keeps.R_refl)
    fix ag1 cs1 k
    assume c: "ok_kept cs cs1"
    let ?ref = "\<lambda>i j. DEVICE_MTP_GetMqttReference (cn_hooks env) ag1
      (mtp_param (cont_instance (ctrls cs1 ! nat i)) (mtp_instance (cont_mtps (ctrls cs1 ! nat i) ! nat j)) ''.MQTT.Reference'')"
    show "cn_steps ok_kept cs (case FindControllerMtpFromReq (ctrls cs1) n m of None \<Rightarrow> None
       | Some (i, j) \<Rightarrow> (case ?ref i j of None \<Rightarrow> None
          | Some (ag2, Inl err) \<Rightarrow> Some (ag2, upd_ctrl i (upd_mtp j (\<lambda>m. m\<lparr>mqtt_connection_instance := INVALID\<rparr>)) cs1, Inl err)
          | Some (ag2, Inr r) \<Rightarrow> cn_ok ag2 ((if mtp_enable (cont_mtps (ctrls cs1 ! nat i) ! nat j) \<and> mtp_protocol (cont_mtps (ctrls cs1 ! nat i) ! nat j) = kMtpProtocol_MQTT \<and> r \<noteq> k \<and> k \<noteq> INVALID
               then note_call (Schedule_Reconnect k) else (\<lambda>s. s)) (upd_ctrl i (upd_mtp j (\<lambda>m. m\<lparr>mqtt_connection_instance := k\<rparr>)) cs1))))"
      by (rule cn_stepsI) (auto simp: cn_ok_def split: option.splits sum.splits if_splits intro!: put [OF c] note_ok [OF put] c)
  qed
qed

lemma MqttTopic_ok:
  assumes "Notify_ControllerMtpMqttTopic cs n m val = Some cs'" shows "ok_kept cs cs'"
proof (cases "FindControllerMtpFromReq (ctrls cs) n m")
  case (Some ij)
  obtain i j where ij: "ij = (i, j)" by (cases ij)
  let ?cs1 = "upd_ctrl i (upd_mtp j (\<lambda>m. m\<lparr>mqtt_controller_topic := Some val\<rparr>)) cs"
  have "ctrls cs' = ctrls ?cs1"
    using assms unfolding Notify_ControllerMtpMqttTopic_def Some ij by (simp add: Let_def split: if_splits) auto
  then show ?thesis by (rule ok_ctrls) (simp add: ok_upd)
qed (use assms in \<open>simp add: Notify_ControllerMtpMqttTopic_def\<close>)

lemma post_ctrls: "ctrls (fst (post env c cs)) = ctrls cs"
  by (simp add: post_def split: sum.splits)

lemma Notify_E2ESessionMode_ok:
  assumes "Notify_E2ESessionMode env cs n val = Some (cs', r)" shows "ok_kept cs cs'"
proof -
  let ?i = "FindControllerByInstance (ctrls cs) n"
  let ?cs1 = "upd_ctrl ?i (upd_session (\<lambda>s. s\<lparr>mode_buffered := e2e_mode_of (E2E_CONTEXT_E2eSessionModeToEnum val)\<rparr>)) cs"
  obtain e where "(cs', r) = post env e ?cs1 \<or> cs' = ?cs1"
    using assms unfolding Notify_E2ESessionMode_def Let_def by (metis Pair_inject option.discI option.inject)
  then have "ctrls cs' = ctrls ?cs1" by (metis fst_conv post_ctrls)
  then show ?thesis by (rule ok_ctrls) (simp add: ok_upd)
qed

lemma Async_E2ESessionReset_ok: "ok_kept cs (fst (Async_E2ESessionReset env cs n request))"
proof -
  have "ctrls (fst (case post env c cs of (cs1, Inl err) \<Rightarrow> (cs1, Inl err)
      | (cs1, Inr _) \<Rightarrow> (case post env d cs1 of (cs2, Inl _) \<Rightarrow> (cs2, Inl e) | (cs2, Inr _) \<Rightarrow> (cs2, USP_OK)))) = ctrls cs" for c d e
    using post_ctrls [of env c cs] post_ctrls [of env d "fst (post env c cs)"] by (cases "post env c cs"; cases "post env d (fst (post env c cs))") (auto split: sum.splits)
  then show ?thesis unfolding Async_E2ESessionReset_def Let_def by (simp add: ok_kept_def split: option.split)
qed

lemma fire_periodic_ok: "fire_periodic env is cs = Some cs' \<Longrightarrow> ok_kept cs cs'"
proof (induction "is" arbitrary: cs)
  case (Cons i "is")
  show ?case
  proof (cases "cont_instance (ctrls cs ! i) = INVALID \<or> now (cn_retry env) < next_time_to_fire (ctrls cs ! i)")
    case True
    then show ?thesis using Cons by (simp add: Let_def)
  next
    case False
    then obtain cs1 where s: "set_next_time env (int i) (note_call (Periodic_Event (cont_instance (ctrls cs ! i))) cs) = Some cs1"
      "fire_periodic env is cs1 = Some cs'"
      using Cons.prems by (auto simp: Let_def split: option.splits)
    have "ok_kept cs cs1" using ok_slot [OF set_next_time_slot [OF s(1)]] by (simp add: ok_kept_def)
    then show ?thesis using keeps.R_trans Cons.IH [OF s(2)] by blast
  qed
qed (simp add: ok_kept_def)

text \<open>
  What happens to the table: the notifications of the data model, those of a new name after its
  validation, the roles that a connection gives, the periodic timer. The data model may be any at each
  step.
\<close>

inductive ctrl_step :: "cont_env \<Rightarrow> cont_state \<Rightarrow> cont_state \<Rightarrow> bool" for env where
  Added: "FindControllerByInstance (ctrls cs) n = INVALID \<Longrightarrow> Notify_ControllerAdded env ag cs n = Some (ag', cs', r) \<Longrightarrow> ctrl_step env cs cs'"
| Deleted: "ctrl_step env cs (Notify_ControllerDeleted cs n)"
| Mtp_Added: "Notify_ControllerMtpAdded env ag cs n m = Some (ag', cs', r) \<Longrightarrow> ctrl_step env cs cs'"
| Mtp_Deleted: "ctrl_step env cs (Notify_ControllerMtpDeleted cs n m)"
| Enabled: "Notify_ControllerEnable cs n b = Some cs' \<Longrightarrow> ctrl_step env cs cs'"
| Named: "Validate_ControllerEndpointID (ctrls cs) n ep = USP_OK \<Longrightarrow> Notify_ControllerEndpointID cs n ep = Some cs' \<Longrightarrow> ctrl_step env cs cs'"
| Assigned: "Notify_ControllerAssignedRole env ag cs n val = Some (ag', cs', r) \<Longrightarrow> ctrl_step env cs cs'"
| Mtp_Enabled: "Notify_ControllerMtpEnable cs n m b = Some cs' \<Longrightarrow> ctrl_step env cs cs'"
| Mtp_Protocol: "Notify_ControllerMtpProtocol cs n m val = Some cs' \<Longrightarrow> ctrl_step env cs cs'"
| Mqtt_Reference: "Notify_ControllerMtpMqttReference env ag cs n m val = Some (ag', cs', r) \<Longrightarrow> ctrl_step env cs cs'"
| Mqtt_Topic: "Notify_ControllerMtpMqttTopic cs n m val = Some cs' \<Longrightarrow> ctrl_step env cs cs'"
| Interval: "Notify_PeriodicNotifInterval env cs n u = Some cs' \<Longrightarrow> ctrl_step env cs cs'"
| Base: "Notify_PeriodicNotifTime env cs n t = Some cs' \<Longrightarrow> ctrl_step env cs cs'"
| Min_Wait: "Notify_ControllerRetryMinimumWaitInterval cs n u = Some cs' \<Longrightarrow> ctrl_step env cs cs'"
| Multiplier: "Notify_ControllerRetryIntervalMultiplier cs n u = Some cs' \<Longrightarrow> ctrl_step env cs cs'"
| Record_Size: "Notify_E2ESessionMaxUSPRecordSize cs n u = Some cs' \<Longrightarrow> ctrl_step env cs cs'"
| Mode: "Notify_E2ESessionMode env cs n val = Some (cs', r) \<Longrightarrow> ctrl_step env cs cs'"
| Reset: "ctrl_step env cs (fst (Async_E2ESessionReset env cs n request))"
| Roles: "ctrl_step env cs (DEVICE_CONTROLLER_SetRolesFromMqtt mqtt_instance role cs)"
| Fired: "PeriodicNotificationExec env cs = Some cs' \<Longrightarrow> ctrl_step env cs cs'"
| Stopped: "ctrl_step env cs (DEVICE_CONTROLLER_Stop cs)"

lemma Named_ok:
  assumes "Validate_ControllerEndpointID (ctrls cs) n ep = USP_OK" "Notify_ControllerEndpointID cs n ep = Some cs'"
  shows "ok_kept cs cs'"
  unfolding ok_kept_def
proof
  assume ok: "ctrls_ok (ctrls cs)"
  let ?i = "FindControllerByInstance (ctrls cs) n"
  have i: "?i \<noteq> INVALID" and cs': "cs' = upd_ctrl ?i (\<lambda>c. c\<lparr>endpoint_id := ep\<rparr>) cs"
    using assms(2) by (simp_all add: Notify_ControllerEndpointID_def on_ctrl_def Let_def split: if_splits)
  have f: "nat ?i < length (ctrls cs)" "cont_instance (ctrls cs ! nat ?i) = n"
    using first_index_found [of "\<lambda>c. cont_instance c = n" "ctrls cs" ?i] i by (simp_all add: FindControllerByInstance_def)
  have "others_kept (nat ?i) cs cs'" unfolding cs' by (rule others_upd) simp
  then show "ctrls_ok (ctrls cs')"
  proof (rule ctrls_ok_update [OF _ ok])
    fix k
    assume k: "k < length (ctrls cs)" "k \<noteq> nat ?i" "used (ctrls cs' ! nat ?i)" "used (ctrls cs ! k)"
    have n: "used (ctrls cs ! nat ?i)" using k(3) f(1) by (simp add: cs' upd_ctrl_nth)
    have d: "cont_instance (ctrls cs ! k) \<noteq> n" using ok k n f unfolding ctrls_ok_def unique_by_def by metis
    then have "endpoint_id (ctrls cs ! k) \<noteq> ep"
      using assms(1) k(1,4) nth_mem [OF k(1)]
      by (auto simp: Validate_ControllerEndpointID_def ValidateEndpointIdUniqueness_def split: if_splits)
    then show "cont_instance (ctrls cs ! k) \<noteq> cont_instance (ctrls cs' ! nat ?i) \<and> endpoint_id (ctrls cs ! k) \<noteq> endpoint_id (ctrls cs' ! nat ?i)"
      using d f by (simp add: cs' upd_ctrl_nth)
  qed
qed

lemma map_free_ok:
  assumes "\<And>c. (cont_instance (f c) = cont_instance c \<and> endpoint_id (f c) = endpoint_id c) \<or> cont_instance (f c) = INVALID"
    "\<And>c. length (cont_mtps (f c)) = length (cont_mtps c)" "ctrls_ok cs"
  shows "ctrls_ok (map f cs)"
proof -
  have "unique_by g (map f cs)" if g: "unique_by g cs" "\<And>c. used (f c) \<Longrightarrow> used c \<and> g (f c) = g c" for g :: "controller_t \<Rightarrow> 'k"
    using g unfolding unique_by_def by (metis length_map nth_map)
  then show ?thesis using assms unfolding ctrls_ok_def by (auto; metis)
qed

lemma ctrl_step_ok: "ctrl_step env cs cs' \<Longrightarrow> ok_kept cs cs'"
proof (induction rule: ctrl_step.induct)
  case (Added cs n ag ag' cs' r)
  then show ?case using ProcessControllerAdded_ok by (auto simp: ok_kept_def Notify_ControllerAdded_def)
next
  case (Deleted cs n)
  show ?case using ctrls_ok_free by (auto simp: ok_kept_def Notify_ControllerDeleted_def Let_def)
next
  case (Mtp_Added ag cs n m ag' cs' r)
  then show ?case using ok_slot [OF cn_stepsD [OF ProcessControllerMtpAdded_slot]]
    by (auto simp: Notify_ControllerMtpAdded_def Let_def keeps.R_refl split: if_splits)
next
  case (Mtp_Deleted cs n m)
  show ?case by (auto simp: Notify_ControllerMtpDeleted_def keeps.R_refl intro!: ok_upd split: option.split)
next
  case (Named cs n ep cs')
  then show ?case by (rule Named_ok)
next
  case (Assigned ag cs n val ag' cs' r)
  then show ?case using ok_slot [OF cn_stepsD [OF UpdateAssignedRole_slot]]
    by (auto simp: Notify_ControllerAssignedRole_def Let_def split: if_splits)
next
  case (Mqtt_Reference ag cs n m val ag' cs' r)
  then show ?case by (rule cn_stepsD [OF MqttReference_ok])
next
  case (Roles cs mqtt_instance role)
  show ?case unfolding DEVICE_CONTROLLER_SetRolesFromMqtt_def ok_kept_def by (simp add: map_free_ok)
next
  case (Fired cs cs')
  then obtain cs1 where "fire_periodic env [0..<length (ctrls cs)] cs = Some cs1" "cs' = UpdateFirstPeriodicNotificationTime cs1"
    by (auto simp: PeriodicNotificationExec_def split: if_splits)
  then show ?case using fire_periodic_ok by (simp add: ok_kept_def)
next
  case (Stopped cs)
  show ?case unfolding DEVICE_CONTROLLER_Stop_def ok_kept_def by (simp add: map_free_ok)
qed (auto simp: Notify_ControllerEnable_def Notify_ControllerMtpEnable_def Notify_ControllerMtpProtocol_def Let_def
  Notify_PeriodicNotifInterval_def Notify_ControllerRetryMinimumWaitInterval_def Notify_ControllerRetryIntervalMultiplier_def
  Notify_E2ESessionMaxUSPRecordSize_def Async_E2ESessionReset_ok split: if_splits
  elim: on_ctrl_ok on_mtp_ok on_periodic_ok MqttTopic_ok PeriodicNotifTime_ok Notify_E2ESessionMode_ok)

lemma DEVICE_CONTROLLER_Init_ok: "ctrls_ok (ctrls (DEVICE_CONTROLLER_Init cs))"
  by (simp add: DEVICE_CONTROLLER_Init_def ctrls_ok_def unique_by_def zero_controller_def)

lemma controllers_reachable_ok: "(ctrl_step env)\<^sup>*\<^sup>* (DEVICE_CONTROLLER_Init cs0) cs \<Longrightarrow> ctrls_ok (ctrls cs)"
  by (induction rule: rtranclp_induct) (use DEVICE_CONTROLLER_Init_ok ctrl_step_ok in \<open>auto simp: ok_kept_def\<close>)

section \<open>Properties\<close>

definition two_controllers :: cont_state where
  "two_controllers = \<lparr>timers = [], first_sync_timer_time = 0,
     ctrls = [zero_controller\<lparr>cont_instance := 1, cont_enable := True, endpoint_id := ''a'', periodic_interval := 10, next_time_to_fire := 100,
         cont_mtps := [\<lparr>mtp_instance = 1, mtp_enable = True, mtp_protocol = kMtpProtocol_MQTT, mqtt_connection_instance = 4, mqtt_controller_topic = Some ''t''\<rparr>,
           zero_mtp\<lparr>mtp_instance := INVALID\<rparr>, zero_mtp\<lparr>mtp_instance := INVALID\<rparr>]\<rparr>,
       zero_controller\<lparr>cont_instance := 2, endpoint_id := ''b'', periodic_interval := 60, next_time_to_fire := 130\<rparr>,
       zero_controller\<lparr>cont_instance := INVALID\<rparr>, zero_controller\<lparr>cont_instance := INVALID\<rparr>, zero_controller\<lparr>cont_instance := INVALID\<rparr>],
     first_periodic_notification_time = 100, cont_seed = 0, calls = []\<rparr>"

lemma unique_by_distinct: "distinct (map f (filter used cs)) \<Longrightarrow> unique_by f cs"
proof (induction cs)
  case (Cons c cs)
  show ?case
    unfolding unique_by_def
  proof (intro allI impI)
    fix i j
    assume ij: "i < length (c # cs)" "j < length (c # cs)" "i \<noteq> j" "used ((c # cs) ! i)" "used ((c # cs) ! j)"
    have neq: "f c \<noteq> f (cs ! k)" if "used c" "k < length cs" "used (cs ! k)" for k
    proof -
      have "cs ! k \<in> set (filter used cs)" using that by simp
      then show ?thesis using Cons.prems \<open>used c\<close> by force
    qed
    note neq_sym = neq [THEN not_sym]
    have "unique_by f cs" using Cons by (simp split: if_splits)
    then show "f ((c # cs) ! i) \<noteq> f ((c # cs) ! j)"
      using ij by (cases i; cases j) (auto simp: unique_by_def neq neq_sym)
  qed
qed (simp add: unique_by_def)

lemma two_controllers_ok: "ctrls_ok (ctrls two_controllers)"
proof -
  have "length (ctrls two_controllers) = MAX_CONTROLLERS" "\<forall>c\<in>set (ctrls two_controllers). length (cont_mtps c) = MAX_CONTROLLER_MTPS"
    "distinct (map cont_instance (filter used (ctrls two_controllers)))" "distinct (map endpoint_id (filter used (ctrls two_controllers)))"
    by (simp_all add: two_controllers_def zero_controller_def MAX_CONTROLLERS_def MAX_CONTROLLER_MTPS_def)
  then show ?thesis by (simp add: ctrls_ok_def unique_by_distinct)
qed

lemma ctrl_steps_ok: "(ctrl_step env)\<^sup>*\<^sup>* cs cs' \<Longrightarrow> ok_kept cs cs'"
proof (induction rule: rtranclp_induct)
  case (step cs1 cs2)
  then show ?case using keeps.R_trans [OF step.IH ctrl_step_ok] by blast
qed (rule keeps.R_refl)

lemma found_by_endpoint:
  assumes "ctrls_ok cs" "i < length cs" "used (cs ! i)" "cont_enable (cs ! i)"
  shows "FindEnabledControllerByEndpointId cs (endpoint_id (cs ! i)) = int i"
proof -
  let ?P = "\<lambda>c. used c \<and> cont_enable c \<and> endpoint_id c = endpoint_id (cs ! i)"
  let ?j = "first_index ?P cs"
  have "?j \<noteq> INVALID" using assms(2-4) by (auto simp: idx_simps)
  then have j: "nat ?j < length cs" "?P (cs ! nat ?j)" "0 \<le> ?j" using first_index_found [of ?P cs ?j] by simp_all
  have "nat ?j = i"
  proof (rule ccontr)
    assume "nat ?j \<noteq> i"
    moreover have "unique_by endpoint_id cs" using assms(1) by (simp add: ctrls_ok_def)
    ultimately show False using j(1,2) assms(2,3) unfolding unique_by_def by blast
  qed
  then show ?thesis using j(3) unfolding FindEnabledControllerByEndpointId_def by simp
qed


definition two_renamed :: cont_state where
  "two_renamed = upd_ctrl 1 (\<lambda>c. c\<lparr>endpoint_id := ''c''\<rparr>) two_controllers"

lemma two_renamed_step: "ctrl_step env two_controllers two_renamed"
proof (rule Named)
  show "Validate_ControllerEndpointID (ctrls two_controllers) 2 ''c'' = USP_OK"
    by (simp add: two_controllers_def zero_controller_def Validate_ControllerEndpointID_def ValidateEndpointIdUniqueness_def)
  have "FindControllerByInstance (ctrls two_controllers) 2 = 1"
    by (simp add: two_controllers_def zero_controller_def FindControllerByInstance_def first_index_Cons)
  then show "Notify_ControllerEndpointID two_controllers 2 ''c'' = Some two_renamed"
    by (simp add: Notify_ControllerEndpointID_def on_ctrl_def two_renamed_def)
qed


lemma smod_pos: "0 \<le> a \<Longrightarrow> 0 < n \<Longrightarrow> a smod n = a mod n" for a n :: int
  by (cases "a = 0") (simp_all add: signed_modulo_int_def signed_divide_int_def sgn_if minus_div_mult_eq_mod)

lemma int32_Some: "int32 x = Some y \<longleftrightarrow> y = x \<and> - (2 ^ 31) \<le> x \<and> x < 2 ^ 31"
  by (auto simp: int32_def)

lemma next_periodic_time:
  assumes "CalcNextPeriodicTime cur_time base interval = Some t" "0 < sint interval"
  shows "cur_time < t \<and> t \<le> cur_time + sint interval \<and> (t - base) mod sint interval = 0"
proof (cases "base \<le> cur_time")
  case True
  define d where "d = cur_time - base"
  define n where "n = sint interval"
  have b: "0 \<le> d mod n" "d mod n < n" using assms(2) by (simp_all add: n_def)
  then have "sint interval \<noteq> (cur_time - base) mod sint interval" by (simp add: d_def n_def)
  then have t: "t = cur_time + (n - d mod n)"
    using assms True by (auto simp: CalcNextPeriodicTime_def Let_def int32_Some smod_pos d_def n_def split: bind_splits if_splits)
  have "t - base = n + (d - d mod n)" using t by (simp add: d_def)
  also have "\<dots> = n * (1 + d div n)" by (simp add: minus_mod_eq_mult_div distrib_left)
  finally show ?thesis using t b n_def [symmetric] by simp
next
  case False
  define d where "d = base - cur_time"
  define n where "n = sint interval"
  have b: "0 \<le> d mod n" "d mod n < n" using assms(2) by (simp_all add: n_def)
  then have t: "t = cur_time + (if d mod n = 0 then n else d mod n)"
    using assms False by (auto simp: CalcNextPeriodicTime_def Let_def int32_Some smod_pos d_def n_def split: bind_splits if_splits)
  have "t - base = (if d mod n = 0 then n else 0) - (d - d mod n)" using t by (simp add: d_def)
  also have "\<dots> = n * ((if d mod n = 0 then 1 else 0) - d div n)" by (simp add: minus_mod_eq_mult_div right_diff_distrib)
  finally show ?thesis using t assms(2) n_def [symmetric] b less_le [of 0 "d mod n"] less_imp_le [OF b(2)] by (cases "d mod n = 0") auto
qed

text \<open>
  The next periodic notification of an interval between 1 and 2147483647 is the first time after now
  that lies a whole number of intervals from the base.
\<close>

theorem CalcNextPeriodicTime_bounds:
  assumes "CalcNextPeriodicTime cur_time base interval = Some t" "0 < sint interval"
  shows "cur_time < t \<and> t \<le> cur_time + sint interval \<and> (t - base) mod sint interval = 0"
  by (rule next_periodic_time [OF assms])

lemma CalcNextPeriodicTime_bounds_witness:
  "CalcNextPeriodicTime 1005 3 10 = Some 1013 \<and> (1005::int) < 1013"
proof -
  have "CalcNextPeriodicTime 1005 3 10 = Some 1013"
    by (simp add: CalcNextPeriodicTime_def Let_def int32_def signed_modulo_int_def signed_divide_int_def sgn_if)
  then show ?thesis using CalcNextPeriodicTime_bounds [of 1005 3 10 1013] by simp
qed

definition due_ctrl :: "cont_env \<Rightarrow> controller_t \<Rightarrow> bool" where
  "due_ctrl env c \<longleftrightarrow> cont_instance c \<noteq> INVALID \<and> next_time_to_fire c \<le> now (cn_retry env)"

text \<open>A controller after its notification was sent; one that is not due stays as it is.\<close>

definition fired :: "cont_env \<Rightarrow> controller_t \<Rightarrow> controller_t \<Rightarrow> bool" where
  "fired env c c' \<longleftrightarrow>
    (if due_ctrl env c
     then \<exists>t. CalcNextPeriodicTime (now (cn_retry env)) (periodic_base c) (periodic_interval c) = Some t \<and> c' = c\<lparr>next_time_to_fire := t\<rparr>
     else c' = c)"

lemma fired_not_due: "\<not> due_ctrl env c \<Longrightarrow> fired env c c' \<longleftrightarrow> c' = c"
  by (simp add: fired_def)

lemma fire_periodic_run:
  assumes "fire_periodic env is cs = Some cs'" "distinct is" "set is \<subseteq> {..<length (ctrls cs)}"
  shows "length (ctrls cs') = length (ctrls cs) \<and>
    calls cs' = calls cs @ map (Periodic_Event \<circ> cont_instance) (filter (due_ctrl env) (map ((!) (ctrls cs)) is)) \<and>
    (\<forall>k. if k \<in> set is then fired env (ctrls cs ! k) (ctrls cs' ! k) else ctrls cs' ! k = ctrls cs ! k)"
  using assms
proof (induction "is" arbitrary: cs)
  case (Cons i "is")
  show ?case
  proof (cases "due_ctrl env (ctrls cs ! i)")
    case False
    then have "fire_periodic env is cs = Some cs'" using Cons.prems(1) by (auto simp: due_ctrl_def Let_def)
    from Cons.IH [OF this] show ?thesis using Cons.prems(2,3) False by (auto simp: fired_not_due)
  next
    case True
    then obtain cs1 where s: "set_next_time env (int i) (note_call (Periodic_Event (cont_instance (ctrls cs ! i))) cs) = Some cs1"
      "fire_periodic env is cs1 = Some cs'"
      using Cons.prems(1) by (auto simp: due_ctrl_def Let_def split: option.splits if_splits)
    then obtain t where t: "CalcNextPeriodicTime (now (cn_retry env)) (periodic_base (ctrls cs ! i)) (periodic_interval (ctrls cs ! i)) = Some t"
      "cs1 = upd_ctrl (int i) (\<lambda>c. c\<lparr>next_time_to_fire := t\<rparr>) (note_call (Periodic_Event (cont_instance (ctrls cs ! i))) cs)"
      by (auto simp: set_next_time_def Let_def)
    have n: "ctrls cs1 ! k = (if k = i then (ctrls cs ! i)\<lparr>next_time_to_fire := t\<rparr> else ctrls cs ! k)" for k
      using Cons.prems(3) by (simp add: t(2) upd_ctrl_nth)
    have l: "length (ctrls cs1) = length (ctrls cs)" "calls cs1 = calls cs @ [Periodic_Event (cont_instance (ctrls cs ! i))]"
      by (simp_all add: t(2))
    have m: "map ((!) (ctrls cs1)) is = map ((!) (ctrls cs)) is" using Cons.prems(2) n by auto
    have f: "fired env (ctrls cs ! i) (ctrls cs1 ! i)" using True t(1) n [of i] by (simp add: fired_def)
    have "distinct is" "set is \<subseteq> {..<length (ctrls cs1)}" using Cons.prems(2,3) l by auto
    note r = Cons.IH [OF s(2) this]
    have "if k \<in> set (i # is) then fired env (ctrls cs ! k) (ctrls cs' ! k) else ctrls cs' ! k = ctrls cs ! k" for k
      using r [THEN conjunct2, THEN conjunct2, THEN spec [of _ k]] n [of k] f Cons.prems(2) by (cases "k = i") (simp_all split: if_splits)
    then show ?thesis using r True l m by simp
  qed
qed simp

lemma first_periodic_after: "first_periodic first cs \<le> x \<longleftrightarrow> first \<le> x \<or> (\<exists>c\<in>set cs. used c \<and> next_time_to_fire c \<le> x)"
proof (induction cs arbitrary: first)
  case (Cons c cs)
  then show ?case by auto
qed simp


definition free_env :: "int \<Rightarrow> cont_env" where
  "free_env t = \<lparr>cn_hooks = undefined, cn_retry = \<lparr>now = t, pow_scaled = (\<lambda>m k n. m), rand_r = (\<lambda>s. (0, s)), uninit = (0, 0)\<rparr>,
    mqtt_accepts = (\<lambda>c i. USP_OK), post_accepts = (\<lambda>c i. USP_OK)\<rparr>"


lemma FindEnabled_found:
  assumes "FindEnabledControllerByEndpointId cs ep = i" "i \<noteq> INVALID"
  shows "cs ! nat i \<in> set cs \<and> used (cs ! nat i) \<and> cont_enable (cs ! nat i) \<and> endpoint_id (cs ! nat i) = ep"
  using first_index_found [OF assms(1) [unfolded FindEnabledControllerByEndpointId_def] assms(2)] by simp

lemma FindFirstEnabledMtp_in:
  "FindFirstEnabledMtp c protocol = Some m \<Longrightarrow> m \<in> set (cont_mtps c) \<and> mtp_in_use m"
  by (auto simp: FindFirstEnabledMtp_def find_Some_iff split: option.splits)

lemma queue_mqtt_cases: "queue_mqtt env cs item = (cs', r) \<Longrightarrow> r = USP_OK \<and> cs' = note_call (Queued item) cs \<or> r \<noteq> USP_OK \<and> cs' = cs"
  by (auto simp: queue_mqtt_def split: sum.splits)

lemma QueueOnMtp_cases:
  assumes "QueueBinaryMessageOnMtp env cs msi mrt = Some (cs', r)"
  shows "r = USP_OK \<and> cs' = note_call (Queued \<lparr>mq_item = msi, mq_instance = reply_mqtt_instance mrt, mq_topic = reply_mqtt_topic mrt\<rparr>) cs \<or>
    r \<noteq> USP_OK \<and> cs' = cs"
proof -
  have "queue_mqtt env cs \<lparr>mq_item = msi, mq_instance = reply_mqtt_instance mrt, mq_topic = reply_mqtt_topic mrt\<rparr> = (cs', r)"
    using assms by (simp add: QueueBinaryMessageOnMtp_def split: mtp_protocol.splits)
  then show ?thesis by (rule queue_mqtt_cases)
qed

text \<open>C27:
  A message for an endpoint is handed to MQTT at most once, and only when a controller in use and
  enabled has that endpoint. A reply goes to the connection and topic it was asked on; any other message
  to the connection and the non-empty topic of a transport of that controller that is in use. When the
  result is an error nothing was handed over.
\<close>

theorem QueueBinaryMessage_destination:
  assumes "DEVICE_CONTROLLER_QueueBinaryMessage env cs msi ep mrt = Some (cs', r)"
  shows "if r \<noteq> USP_OK then cs' = cs
    else \<exists>item c. cs' = note_call (Queued item) cs \<and> mq_item item = msi \<and> c \<in> set (ctrls cs) \<and> used c \<and> cont_enable c \<and> endpoint_id c = ep \<and>
      (if is_reply_to_specified mrt then mq_instance item = reply_mqtt_instance mrt \<and> mq_topic item = reply_mqtt_topic mrt
       else \<exists>m\<in>set (cont_mtps c). mtp_in_use m \<and> uses_mqtt (mq_instance item) m \<and> mq_instance item \<noteq> INVALID \<and>
         mq_topic item = mqtt_controller_topic m \<and> mq_topic item \<noteq> None \<and> mq_topic item \<noteq> Some [])"
proof (cases "r = USP_OK")
  case False
  then show ?thesis using assms unfolding DEVICE_CONTROLLER_QueueBinaryMessage_def Let_def
    by (auto split: if_splits option.splits sum.splits dest!: QueueOnMtp_cases)
next
  case True
  let ?i = "FindEnabledControllerByEndpointId (ctrls cs) ep"
  let ?c = "ctrls cs ! nat ?i"
  have i: "?i \<noteq> INVALID" using assms True by (auto simp: DEVICE_CONTROLLER_QueueBinaryMessage_def Let_def split: if_splits)
  note c = FindEnabled_found [OF refl i]
  show ?thesis
  proof (cases "is_reply_to_specified mrt")
    case reply: True
    then have "QueueBinaryMessageOnMtp env cs msi mrt = Some (cs', r)"
      using assms i by (simp add: DEVICE_CONTROLLER_QueueBinaryMessage_def Let_def)
    then show ?thesis using QueueOnMtp_cases [of env cs msi mrt cs' r] True reply c by fastforce
  next
    case no_reply: False
    then obtain dest where d: "CalcNotifyDest (FindFirstEnabledMtp ?c (reply_protocol mrt)) mrt = Some (Inr dest)"
      "QueueBinaryMessageOnMtp env cs msi dest = Some (cs', r)"
      using assms True i by (auto simp: DEVICE_CONTROLLER_QueueBinaryMessage_def Let_def split: option.splits sum.splits)
    then obtain m topic where m: "FindFirstEnabledMtp ?c (reply_protocol mrt) = Some m" "mtp_protocol m = kMtpProtocol_MQTT"
      "mqtt_controller_topic m = Some topic" "topic \<noteq> []" "mqtt_connection_instance m \<noteq> INVALID"
      "reply_mqtt_instance dest = mqtt_connection_instance m" "reply_mqtt_topic dest = Some topic"
      by (auto simp: CalcNotifyDest_def split: option.splits mtp_protocol.splits if_splits)
    note q = QueueOnMtp_cases [OF d(2)]
    show ?thesis using q True no_reply c m FindFirstEnabledMtp_in [OF m(1)] by (fastforce simp: uses_mqtt_def)
  qed
qed

lemma QueueBinaryMessage_destination_witness:
  "\<exists>cs'. DEVICE_CONTROLLER_QueueBinaryMessage (free_env 0) two_controllers \<lparr>content_type = kMtpContentType_UspMessage, usp_msg_type = 1, mtp_pbuf = []\<rparr> ''a''
      \<lparr>is_reply_to_specified = False, reply_protocol = kMtpProtocol_None, cont_endpoint_id = None, reply_mqtt_instance = 0, reply_mqtt_topic = None\<rparr>
      = Some (cs', USP_OK) \<and> cs' \<noteq> two_controllers"
proof -
  let ?msi = "\<lparr>content_type = kMtpContentType_UspMessage, usp_msg_type = 1, mtp_pbuf = []\<rparr>"
  let ?mrt = "\<lparr>is_reply_to_specified = False, reply_protocol = kMtpProtocol_None, cont_endpoint_id = None, reply_mqtt_instance = 0, reply_mqtt_topic = None\<rparr>"
  have "FindEnabledControllerByEndpointId (ctrls two_controllers) ''a'' = 0"
    by (simp add: two_controllers_def zero_controller_def FindEnabledControllerByEndpointId_def first_index_Cons)
  then obtain cs' where s: "DEVICE_CONTROLLER_QueueBinaryMessage (free_env 0) two_controllers ?msi ''a'' ?mrt = Some (cs', USP_OK)"
    by (simp add: DEVICE_CONTROLLER_QueueBinaryMessage_def QueueBinaryMessageOnMtp_def queue_mqtt_def CalcNotifyDest_def FindFirstEnabledMtp_def
        mtp_in_use_def two_controllers_def zero_controller_def free_env_def)
  then have "calls cs' \<noteq> calls two_controllers" using QueueBinaryMessage_destination [OF s] by auto
  then show ?thesis using s by blast
qed

lemma upd_endpoint:
  assumes "Notify_ControllerEndpointID cs n ep = Some cs'"
  obtains i where "i < length (ctrls cs)" "cont_instance (ctrls cs ! i) = n" "FindControllerByInstance (ctrls cs) n = int i"
    "ctrls cs' = (ctrls cs)[i := (ctrls cs ! i)\<lparr>endpoint_id := ep\<rparr>]"
proof -
  let ?i = "FindControllerByInstance (ctrls cs) n"
  have i: "?i \<noteq> INVALID" and cs': "cs' = upd_ctrl ?i (\<lambda>c. c\<lparr>endpoint_id := ep\<rparr>) cs"
    using assms by (simp_all add: Notify_ControllerEndpointID_def on_ctrl_def Let_def split: if_splits)
  then show ?thesis
    using that [of "nat ?i"] first_index_found [of "\<lambda>c. cont_instance c = n" "ctrls cs" ?i]
    by (simp add: FindControllerByInstance_def upd_ctrl_def)
qed



end
