(* ===== verification/Usp_Record.thy ===== *)
theory Usp_Record
  imports Protobuf Controllers
begin

text \<open>
  USP records: their structure (\<open>core/usp-record.pb-c.h\<close>), the fields they are packed from
  (\<open>core/usp-record.pb-c.c\<close>) and the records that carry no message (\<open>core/usp_record.c\<close>). The agent's own
  endpoint ID is a parameter. \<open>None\<close> is a failed assertion.
\<close>

section \<open>Records\<close>

definition SARSTATE_NONE :: "32 word" where "SARSTATE_NONE = 0"
definition SARSTATE_BEGIN :: "32 word" where "SARSTATE_BEGIN = 1"
definition SARSTATE_INPROCESS :: "32 word" where "SARSTATE_INPROCESS = 2"
definition SARSTATE_COMPLETE :: "32 word" where "SARSTATE_COMPLETE = 3"
definition PAYLOAD_SECURITY_PLAINTEXT :: "32 word" where "PAYLOAD_SECURITY_PLAINTEXT = 0"

lemmas sarstate_defs = SARSTATE_NONE_def SARSTATE_BEGIN_def SARSTATE_INPROCESS_def SARSTATE_COMPLETE_def

definition AGENT_CURRENT_PROTOCOL_VERSION :: cstr where "AGENT_CURRENT_PROTOCOL_VERSION = ''1.2''"
definition INVALID_USP_MSG_TYPE :: int where "INVALID_USP_MSG_TYPE = 2147483647"

record session_context =
  session_id :: "64 word"
  sequence_id :: "64 word"
  expected_id :: "64 word"
  retransmit_id :: "64 word"
  payload_sar_state :: "32 word"
  payloadrec_sar_state :: "32 word"
  ctx_payload :: "pb_binary list"

text \<open>The union with its case; \<open>None\<close> is a NULL pointer to the context.\<close>

datatype record_type =
    Type_Not_Set
  | No_Session_Context "pb_binary option"
  | Session_Context "session_context option"
  | Websocket_Connect
  | Mqtt_Connect "32 word" "cstr option"
  | Stomp_Connect "32 word" "cstr option"
  | Disconnect "cstr option" "32 word"

record usp_record =
  rec_version :: "cstr option"
  to_id :: "cstr option"
  from_id :: "cstr option"
  payload_security :: "32 word"
  mac_signature :: pb_binary
  sender_cert :: pb_binary
  record_type :: record_type

definition no_data :: pb_binary where "no_data = \<lparr>bd_len = 0, bd_data = []\<rparr>"

definition binary_of :: "bytes \<Rightarrow> pb_binary" where
  "binary_of bs = \<lparr>bd_len = of_nat (length bs), bd_data = bs\<rparr>"

definition SESSION_CONTEXT_RECORD_INIT :: session_context where
  "SESSION_CONTEXT_RECORD_INIT = \<lparr>session_id = 0, sequence_id = 0, expected_id = 0, retransmit_id = 0,
    payload_sar_state = SARSTATE_NONE, payloadrec_sar_state = SARSTATE_NONE, ctx_payload = []\<rparr>"

definition RECORD_INIT :: usp_record where
  "RECORD_INIT = \<lparr>rec_version = Some [], to_id = Some [], from_id = Some [], payload_security = PAYLOAD_SECURITY_PLAINTEXT,
    mac_signature = no_data, sender_cert = no_data, record_type = Type_Not_Set\<rparr>"

section \<open>The fields of a record\<close>

definition no_session_fields :: "pb_binary \<Rightarrow> pb_message" where
  "no_session_fields payload = Pb_Fields [Unlabeled 2 (Pb_Bytes payload)]"

definition session_fields :: "session_context \<Rightarrow> pb_message" where
  "session_fields ctx = Pb_Fields
    [Unlabeled 1 (Pb_Uint64 (session_id ctx)), Unlabeled 2 (Pb_Uint64 (sequence_id ctx)), Unlabeled 3 (Pb_Uint64 (expected_id ctx)),
     Unlabeled 4 (Pb_Uint64 (retransmit_id ctx)), Unlabeled 5 (Pb_Int32 (payload_sar_state ctx)),
     Unlabeled 6 (Pb_Int32 (payloadrec_sar_state ctx)), Repeated 7 (map Pb_Bytes (ctx_payload ctx))]"

definition mqtt_connect_fields :: "32 word \<Rightarrow> cstr option \<Rightarrow> pb_message" where
  "mqtt_connect_fields version topic = Pb_Fields [Unlabeled 1 (Pb_Int32 version), Unlabeled 2 (Pb_String topic)]"

definition stomp_connect_fields :: "32 word \<Rightarrow> cstr option \<Rightarrow> pb_message" where
  "stomp_connect_fields version dest = Pb_Fields [Unlabeled 1 (Pb_Int32 version), Unlabeled 2 (Pb_String dest)]"

definition disconnect_fields :: "cstr option \<Rightarrow> 32 word \<Rightarrow> pb_message" where
  "disconnect_fields reason code = Pb_Fields [Unlabeled 1 (Pb_String reason), Unlabeled 2 (Pb_Fixed32 code)]"

fun record_type_case :: "record_type \<Rightarrow> 32 word" where
  "record_type_case Type_Not_Set = 0"
| "record_type_case (No_Session_Context ctx) = 7"
| "record_type_case (Session_Context ctx) = 8"
| "record_type_case Websocket_Connect = 9"
| "record_type_case (Mqtt_Connect v topic) = 10"
| "record_type_case (Stomp_Connect v dest) = 11"
| "record_type_case (Disconnect reason code) = 12"

text \<open>The pointer of the union, whatever the case.\<close>

fun record_body :: "record_type \<Rightarrow> pb_value" where
  "record_body Type_Not_Set = Pb_Message None"
| "record_body (No_Session_Context ctx) = Pb_Message (map_option no_session_fields ctx)"
| "record_body (Session_Context ctx) = Pb_Message (map_option session_fields ctx)"
| "record_body Websocket_Connect = Pb_Message (Some (Pb_Fields []))"
| "record_body (Mqtt_Connect v topic) = Pb_Message (Some (mqtt_connect_fields v topic))"
| "record_body (Stomp_Connect v dest) = Pb_Message (Some (stomp_connect_fields v dest))"
| "record_body (Disconnect reason code) = Pb_Message (Some (disconnect_fields reason code))"

definition record_fields :: "usp_record \<Rightarrow> pb_message" where
  "record_fields rec = Pb_Fields
    ([Unlabeled 1 (Pb_String (rec_version rec)), Unlabeled 2 (Pb_String (to_id rec)), Unlabeled 3 (Pb_String (from_id rec)),
      Unlabeled 4 (Pb_Int32 (payload_security rec)), Unlabeled 5 (Pb_Bytes (mac_signature rec)), Unlabeled 6 (Pb_Bytes (sender_cert rec))] @
     map (\<lambda>num. Oneof num (record_type_case (record_type rec)) (record_body (record_type rec))) [7, 8, 9, 10, 11, 12])"

definition get_packed_size :: "usp_record \<Rightarrow> 32 word" where
  "get_packed_size rec = message_size (record_fields rec)"

definition pack :: "usp_record \<Rightarrow> bytes" where
  "pack rec = message_pack (record_fields rec)"

text \<open>The length asserted to be the size.\<close>

definition packed_item :: "mtp_content_type \<Rightarrow> int \<Rightarrow> usp_record \<Rightarrow> mtp_send_item option" where
  "packed_item content msg_type rec =
    (let len = get_packed_size rec; buf = pack rec
     in if of_nat (length buf) \<noteq> len then None
        else Some \<lparr>content_type = content, usp_msg_type = msg_type, mtp_pbuf = buf\<rparr>)"

text \<open>A record to an endpoint, from the agent.\<close>

definition record_to :: "cstr \<Rightarrow> cstr \<Rightarrow> record_type \<Rightarrow> usp_record" where
  "record_to agent_id endpoint ty =
    RECORD_INIT\<lparr>rec_version := Some AGENT_CURRENT_PROTOCOL_VERSION, to_id := Some endpoint, from_id := Some agent_id,
      payload_security := PAYLOAD_SECURITY_PLAINTEXT, record_type := ty\<rparr>"

section \<open>Records without a message\<close>

definition USPREC_WebSocketConnect_Create :: "cstr \<Rightarrow> cstr \<Rightarrow> mtp_send_item option" where
  "USPREC_WebSocketConnect_Create agent_id endpoint =
    packed_item kMtpContentType_ConnectRecord INVALID_USP_MSG_TYPE (record_to agent_id endpoint Websocket_Connect)"

datatype mqtt_protocolver = kMqttProtocol_3_1 | kMqttProtocol_3_1_1 | kMqttProtocol_5_0

fun mqtt_version :: "mqtt_protocolver \<Rightarrow> 32 word" where
  "mqtt_version kMqttProtocol_5_0 = 1"
| "mqtt_version kMqttProtocol_3_1_1 = 0"
| "mqtt_version kMqttProtocol_3_1 = 0"

definition USPREC_MqttConnect_Create :: "cstr \<Rightarrow> cstr \<Rightarrow> mqtt_protocolver \<Rightarrow> cstr option \<Rightarrow> mtp_send_item option" where
  "USPREC_MqttConnect_Create agent_id endpoint version agent_topic =
    packed_item kMtpContentType_ConnectRecord INVALID_USP_MSG_TYPE
      (record_to agent_id endpoint (Mqtt_Connect (mqtt_version version) agent_topic))"

definition USPREC_StompConnect_Create :: "cstr \<Rightarrow> cstr \<Rightarrow> cstr option \<Rightarrow> mtp_send_item option" where
  "USPREC_StompConnect_Create agent_id endpoint destination =
    packed_item kMtpContentType_ConnectRecord INVALID_USP_MSG_TYPE (record_to agent_id endpoint (Stomp_Connect 0 destination))"

definition USPREC_Disconnect_Create ::
    "cstr \<Rightarrow> mtp_content_type \<Rightarrow> cstr option \<Rightarrow> 32 word \<Rightarrow> cstr option \<Rightarrow> mtp_send_item option" where
  "USPREC_Disconnect_Create agent_id content endpoint reason_code reason_str =
    (if reason_str = None then None
     else packed_item content INVALID_USP_MSG_TYPE
       (record_to agent_id (case endpoint of None \<Rightarrow> [] | Some e \<Rightarrow> e) (Disconnect reason_str reason_code)))"

section \<open>The size of a record\<close>

definition binary_ok :: "pb_binary \<Rightarrow> bool" where
  "binary_ok bd \<longleftrightarrow> unat (bd_len bd) \<le> length (bd_data bd)"

fun record_type_ok :: "record_type \<Rightarrow> bool" where
  "record_type_ok (No_Session_Context (Some payload)) = binary_ok payload"
| "record_type_ok (Session_Context (Some ctx)) = (\<forall>bd\<in>set (ctx_payload ctx). binary_ok bd)"
| "record_type_ok ty = True"

definition record_ok :: "usp_record \<Rightarrow> bool" where
  "record_ok rec \<longleftrightarrow> binary_ok (mac_signature rec) \<and> binary_ok (sender_cert rec) \<and> record_type_ok (record_type rec)"

lemma binary_of_ok [simp]: "binary_ok (binary_of bs)"
  by (simp add: binary_ok_def binary_of_def unsigned_of_nat take_bit_nat_less_eq_self)

lemma no_data_ok [simp]: "binary_ok no_data"
  by (simp add: binary_ok_def no_data_def)

lemma record_to_ok [simp]: "record_ok (record_to agent_id endpoint ty) \<longleftrightarrow> record_type_ok ty"
  by (simp add: record_ok_def record_to_def RECORD_INIT_def)

lemma record_fields_ok:
  assumes "record_ok rec" shows "message_ok (record_fields rec)"
proof -
  have "value_ok (record_body ty)" if "record_type_ok ty" for ty
    using that by (cases ty rule: record_body.cases)
      (auto simp: no_session_fields_def session_fields_def mqtt_connect_fields_def stomp_connect_fields_def disconnect_fields_def binary_ok_def split: option.split)
  then show ?thesis using assms by (simp add: record_fields_def record_ok_def binary_ok_def)
qed

lemma pack_length: "record_ok rec \<Longrightarrow> of_nat (length (pack rec)) = get_packed_size rec"
  by (simp add: pack_def get_packed_size_def record_fields_ok message_pack_length(3))

lemma packed_item_Some: "record_ok rec \<Longrightarrow>
  packed_item content msg_type rec = Some \<lparr>content_type = content, usp_msg_type = msg_type, mtp_pbuf = pack rec\<rparr>"
  by (simp add: packed_item_def pack_length Let_def)

end
