(* ===== verification/E2e_Context.thy ===== *)
theory E2e_Context
  imports Usp_Record Subs_Retry
begin

text \<open>
  Sending records, and sessions between the agent and a controller (\<open>core/e2e_context.c\<close>, with the
  functions of \<open>core/msg_handler.c\<close> that queue a record). A message that is larger than a record may be
  is sent in segments; the segments received are put together again in the session. The session is a
  part of its controller and is given by the index of the controller in the table. What handles a
  message is an argument. \<open>None\<close> is a failed assertion, a NULL pointer that is read or a loop that
  does not end.
\<close>

section \<open>State\<close>

text \<open>
  \<open>err_text\<close> is what USP_ERR_GetMessage gives; the texts of errors are not modelled.
\<close>

record e2e_env =
  ee_cont :: cont_env
  agent_endpoint :: cstr
  err_text :: "cont_call list \<Rightarrow> cstr"

record msg_state = cont_state +
  cur_msg_controller_instance :: int
  cur_msg_combined_role :: combined_role
  cur_msg_endpoint :: "cstr option"

text \<open>A message to send; its size is its length. The message itself is kept for the log only.\<close>

record usp_send_item =
  usi_msg_type :: int
  msg_packed :: bytes
  curr_e2e_session :: "nat option"

definition session_of :: "'m cont_state_scheme \<Rightarrow> nat \<Rightarrow> e2e_session" where
  "session_of cs i = cont_session (ctrls cs ! i)"

definition put_session :: "nat \<Rightarrow> (e2e_session \<Rightarrow> e2e_session) \<Rightarrow> 'm cont_state_scheme \<Rightarrow> 'm cont_state_scheme" where
  "put_session i f cs = upd_ctrl (int i) (upd_session f) cs"

type_synonym 'm sent = "('m cont_state_scheme \<times> (usp_err + unit)) option"

section \<open>Sending in a session\<close>

definition ComputePayloadCapacity :: "usp_record \<Rightarrow> session_context \<Rightarrow> 32 word \<Rightarrow> 32 word" where
  "ComputePayloadCapacity src_rec src_ctx max_size =
    (let ctx = src_ctx\<lparr>session_id := session_id src_ctx OR 1, expected_id := expected_id src_ctx OR 1, sequence_id := -1,
           payload_sar_state := SARSTATE_BEGIN, payloadrec_sar_state := SARSTATE_BEGIN,
           ctx_payload := [\<lparr>bd_len = max_size, bd_data = []\<rparr>]\<rparr>;
         rec = src_rec\<lparr>record_type := Session_Context (Some ctx)\<rparr>;
         estimated_header_size = get_packed_size rec - max_size
     in max_size - estimated_header_size)"

text \<open>The SAR state of a segment and the content of its record; \<open>whole\<close>: it holds all that remains.\<close>

definition segment_state :: "bool \<Rightarrow> bool \<Rightarrow> 32 word \<times> mtp_content_type" where
  "segment_state first whole =
    (if first then if whole then (SARSTATE_NONE, kMtpContentType_E2E_FullMessage) else (SARSTATE_BEGIN, kMtpContentType_E2E_Begin)
     else if whole then (SARSTATE_COMPLETE, kMtpContentType_E2E_Complete)
     else (SARSTATE_INPROCESS, kMtpContentType_E2E_InProcess))"

text \<open>
  One segment: its record, and the session that has counted it. The sequence number is that of the
  session, all else of the record was set before the loop.
\<close>

definition segment_context :: "session_context \<Rightarrow> 64 word \<Rightarrow> 32 word \<Rightarrow> bytes \<Rightarrow> session_context" where
  "segment_context ctx seq sar seg =
    ctx\<lparr>ctx_payload := [binary_of seg], payload_sar_state := sar, sequence_id := seq, payloadrec_sar_state := sar\<rparr>"

definition queue_segment ::
    "e2e_env \<Rightarrow> nat \<Rightarrow> usp_send_item \<Rightarrow> cstr \<Rightarrow> mtp_reply_to \<Rightarrow> session_context \<Rightarrow> bool \<Rightarrow> bool \<Rightarrow> bytes \<Rightarrow>
      'm cont_state_scheme \<Rightarrow> 'm sent" where
  "queue_segment env i usi ep mrt ctx first whole seg cs =
    (let (sar, content) = segment_state first whole;
         cs1 = put_session i (\<lambda>e. e\<lparr>last_sent_sequence_id := last_sent_sequence_id e + 1\<rparr>) cs;
         e2e = session_of cs1 i;
         rec = record_to (agent_endpoint env) ep (Session_Context (Some (segment_context ctx (last_sent_sequence_id e2e) sar seg)))
     in case packed_item content (usi_msg_type usi) rec of
          None \<Rightarrow> None
        | Some item \<Rightarrow>
           if max_record_size e2e > 0 \<and> of_nat (length (mtp_pbuf item)) > max_record_size e2e
           then Some (cs1, Inl USP_ERR_GENERAL_FAILURE)
           else DEVICE_CONTROLLER_QueueBinaryMessage (ee_cont env) cs1 item ep mrt)"

text \<open>The loop over the segments; \<open>rest\<close> is what is not queued yet. It does not end for no capacity.\<close>

function queue_segments ::
    "e2e_env \<Rightarrow> nat \<Rightarrow> usp_send_item \<Rightarrow> cstr \<Rightarrow> mtp_reply_to \<Rightarrow> session_context \<Rightarrow> nat \<Rightarrow> bool \<Rightarrow> bytes \<Rightarrow>
      'm cont_state_scheme \<Rightarrow> 'm sent" where
  "queue_segments env i usi ep mrt ctx capacity first rest cs =
    (let seg = take capacity rest; rest1 = drop capacity rest
     in case queue_segment env i usi ep mrt ctx first (length rest \<le> length seg) seg cs of
          None \<Rightarrow> None
        | Some (cs1, Inl err) \<Rightarrow> Some (cs1, Inl err)
        | Some (cs1, Inr _) \<Rightarrow>
           if rest1 = [] then Some (cs1, USP_OK)
           else if capacity = 0 then None
           else queue_segments env i usi ep mrt ctx capacity False rest1 cs1)"
  by pat_completeness auto
termination by (relation "measure (\<lambda>(env, i, usi, ep, mrt, ctx, capacity, first, rest, cs). length rest)") auto

declare queue_segments.simps [simp del]

text \<open>A session that is down is started with a new number.\<close>

definition start_session :: "e2e_session \<Rightarrow> e2e_session" where
  "start_session e =
    (if e2e_status e = kE2EStatus_Down
     then e\<lparr>current_session_id := current_session_id e + 1, last_sent_sequence_id := 0, last_recv_sequence_id := 0,
       e2e_status := kE2EStatus_Negotiating\<rparr>
     else e)"

definition session_context_of :: "e2e_session \<Rightarrow> session_context" where
  "session_context_of e =
    SESSION_CONTEXT_RECORD_INIT\<lparr>session_id := current_session_id e, sequence_id := last_sent_sequence_id e + 1,
      expected_id := last_recv_sequence_id e + 1, retransmit_id := 0\<rparr>"

definition max_payload_size :: "usp_record \<Rightarrow> session_context \<Rightarrow> 32 word \<Rightarrow> 32 word" where
  "max_payload_size rec ctx max_size = (if max_size > 0 then ComputePayloadCapacity rec ctx max_size else -1)"

definition E2E_CONTEXT_QueueUspSessionRecord ::
    "e2e_env \<Rightarrow> usp_send_item \<Rightarrow> cstr \<Rightarrow> mtp_reply_to \<Rightarrow> 'm cont_state_scheme \<Rightarrow> 'm sent" where
  "E2E_CONTEXT_QueueUspSessionRecord env usi ep mrt cs =
    (case curr_e2e_session usi of
       None \<Rightarrow> None
     | Some i \<Rightarrow>
        (let cs1 = put_session i start_session cs;
             ctx = session_context_of (session_of cs1 i);
             rec = record_to (agent_endpoint env) ep (Session_Context (Some ctx));
             capacity = max_payload_size rec ctx (max_record_size (session_of cs1 i))
         in if \<not> capacity > 50 then None
            else queue_segments env i usi ep mrt ctx (unat capacity) True (msg_packed usi) cs1))"

definition E2E_CONTEXT_IsToSendThroughSessionContext :: "e2e_session option \<Rightarrow> bool" where
  "E2E_CONTEXT_IsToSendThroughSessionContext e2e =
    (case e2e of
       None \<Rightarrow> False
     | Some e \<Rightarrow> if e2e_status e \<noteq> kE2EStatus_Down then True else if e2e_mode e = kE2EMode_Require then True else False)"

section \<open>Sending without a session, and a disconnection\<close>

definition QueueUspNoSessionRecord ::
    "e2e_env \<Rightarrow> usp_send_item \<Rightarrow> cstr \<Rightarrow> mtp_reply_to \<Rightarrow> 'm cont_state_scheme \<Rightarrow> 'm sent" where
  "QueueUspNoSessionRecord env usi ep mrt cs =
    (if msg_packed usi = [] then None
     else case packed_item kMtpContentType_UspMessage (usi_msg_type usi)
         (record_to (agent_endpoint env) ep (No_Session_Context (Some (binary_of (msg_packed usi))))) of
       None \<Rightarrow> None
     | Some item \<Rightarrow> DEVICE_CONTROLLER_QueueBinaryMessage (ee_cont env) cs item ep mrt)"

definition MSG_HANDLER_QueueUspRecord ::
    "e2e_env \<Rightarrow> usp_send_item \<Rightarrow> cstr option \<Rightarrow> mtp_reply_to \<Rightarrow> 'm cont_state_scheme \<Rightarrow> 'm sent" where
  "MSG_HANDLER_QueueUspRecord env usi endpoint mrt cs =
    (case endpoint of
       None \<Rightarrow> Some (cs, USP_OK)
     | Some ep \<Rightarrow>
        if E2E_CONTEXT_IsToSendThroughSessionContext (map_option (session_of cs) (curr_e2e_session usi))
        then E2E_CONTEXT_QueueUspSessionRecord env usi ep mrt cs
        else QueueUspNoSessionRecord env usi ep mrt cs)"

definition MSG_HANDLER_QueueUspDisconnectRecord ::
    "e2e_env \<Rightarrow> mtp_content_type \<Rightarrow> cstr option \<Rightarrow> usp_err \<Rightarrow> cstr \<Rightarrow> mtp_reply_to \<Rightarrow> 'm cont_state_scheme \<Rightarrow> 'm sent" where
  "MSG_HANDLER_QueueUspDisconnectRecord env content endpoint reason_code reason_str mrt cs =
    (case endpoint of
       None \<Rightarrow> Some (cs, USP_OK)
     | Some ep \<Rightarrow>
        (case USPREC_Disconnect_Create (agent_endpoint env) content (Some ep) (of_nat (usp_err_code reason_code)) (Some reason_str) of
           None \<Rightarrow> None
         | Some item \<Rightarrow> DEVICE_CONTROLLER_QueueBinaryMessage (ee_cont env) cs item ep mrt))"

section \<open>Events\<close>

text \<open>The segments received are given up.\<close>

definition ClearE2eSessionState :: "e2e_session \<Rightarrow> e2e_session" where
  "ClearE2eSessionState e =
    e\<lparr>e2e_status := kE2EStatus_Down, last_sent_sequence_id := 0, last_recv_sequence_id := 0,
      received_payloads := SAR_VECTOR_Destroy (received_payloads e)\<rparr>"

definition no_reply_to :: mtp_reply_to where
  "no_reply_to = \<lparr>is_reply_to_specified = False, reply_protocol = kMtpProtocol_None, cont_endpoint_id = None,
    reply_mqtt_instance = 0, reply_mqtt_topic = None\<rparr>"

text \<open>Errors in queueing are not looked at.\<close>

definition send_termination :: "e2e_env \<Rightarrow> e2e_event \<Rightarrow> cstr \<Rightarrow> 'm cont_state_scheme \<Rightarrow> 'm cont_state_scheme option" where
  "send_termination env event dest cs =
    (if event = kE2EEvent_Termination \<or> event = kE2EEvent_Restart
     then map_option fst (MSG_HANDLER_QueueUspDisconnectRecord env kMtpContentType_E2E_SessTermination (Some dest)
       USP_ERR_SESS_CONTEXT_TERMINATED (err_text env (calls cs)) no_reply_to cs)
     else Some cs)"

definition send_establishment :: "e2e_env \<Rightarrow> e2e_event \<Rightarrow> nat \<Rightarrow> cstr \<Rightarrow> 'm cont_state_scheme \<Rightarrow> 'm cont_state_scheme option" where
  "send_establishment env event i dest cs =
    (if event = kE2EEvent_Establishment \<or> event = kE2EEvent_Restart
     then map_option fst (MSG_HANDLER_QueueUspRecord env
       \<lparr>usi_msg_type = INVALID_USP_MSG_TYPE, msg_packed = [], curr_e2e_session = Some i\<rparr> (Some dest) no_reply_to cs)
     else Some cs)"

definition complete_request :: "int \<Rightarrow> usp_err option \<Rightarrow> 'm cont_state_scheme \<Rightarrow> 'm cont_state_scheme" where
  "complete_request request err cs = (if request \<noteq> INVALID then note_call (Operation_Complete request err) cs else cs)"

definition E2E_CONTEXT_E2eSessionEvent :: "e2e_env \<Rightarrow> e2e_event \<Rightarrow> int \<Rightarrow> int \<Rightarrow> 'm cont_state_scheme \<Rightarrow> 'm cont_state_scheme option" where
  "E2E_CONTEXT_E2eSessionEvent env event request cont_inst cs =
    (case DEVICE_CONTROLLER_FindE2ESessionByInstance (ctrls cs) cont_inst of
       None \<Rightarrow> Some (complete_request request (Some USP_ERR_SESS_CONTEXT_NOT_ALLOWED) cs)
     | Some i \<Rightarrow>
        (let cs1 = put_session i (\<lambda>e. e\<lparr>e2e_mode := mode_buffered e\<rparr>) cs
         in if event = kE2EEvent_None then Some (complete_request request None cs1)
            else case DEVICE_CONTROLLER_FindEndpointIdByInstance (ctrls cs1) cont_inst of
              None \<Rightarrow> Some (complete_request request (Some USP_ERR_INTERNAL_ERROR) cs1)
            | Some dest \<Rightarrow>
               map_option (complete_request request None)
                 (Option.bind (send_termination env event dest (put_session i ClearE2eSessionState cs1))
                   (send_establishment env event i dest))))"

section \<open>Receiving\<close>

definition MSG_HANDLER_GetMsgControllerInstance :: "'m msg_state_scheme \<Rightarrow> int" where
  "MSG_HANDLER_GetMsgControllerInstance ms =
    (if cur_msg_controller_instance ms \<noteq> INVALID then cur_msg_controller_instance ms else 1)"

definition cur_session :: "'m msg_state_scheme \<Rightarrow> nat option" where
  "cur_session ms = DEVICE_CONTROLLER_FindE2ESessionByInstance (ctrls ms) (MSG_HANDLER_GetMsgControllerInstance ms)"

text \<open>An event of the session of the controller that sent the message; what the code then returns.\<close>

definition after_event ::
    "e2e_env \<Rightarrow> e2e_event \<Rightarrow> usp_err + unit \<Rightarrow> 'm msg_state_scheme \<Rightarrow> ('m msg_state_scheme \<times> (usp_err + unit)) option" where
  "after_event env event r ms =
    map_option (\<lambda>ms1. (ms1, r)) (E2E_CONTEXT_E2eSessionEvent env event INVALID (MSG_HANDLER_GetMsgControllerInstance ms) ms)"

definition E2E_CONTEXT_ValidateSessionContextRecord ::
    "e2e_env \<Rightarrow> session_context option \<Rightarrow> 'm msg_state_scheme \<Rightarrow> ('m msg_state_scheme \<times> (usp_err + unit)) option" where
  "E2E_CONTEXT_ValidateSessionContextRecord env ctx ms =
    (case ctx of
       None \<Rightarrow> after_event env kE2EEvent_Restart (Inl USP_ERR_RECORD_NOT_PARSED) ms
     | Some c \<Rightarrow>
        if payloadrec_sar_state c \<noteq> payload_sar_state c then after_event env kE2EEvent_Restart (Inl USP_ERR_SECURE_SESS_NOT_SUPPORTED) ms
        else if length (ctx_payload c) \<noteq> 1 then after_event env kE2EEvent_Restart (Inl USP_ERR_RECORD_FIELD_INVALID) ms
        else Some (ms, USP_OK))"

definition ValidateNoSessionContextHandling ::
    "e2e_env \<Rightarrow> 'm msg_state_scheme \<Rightarrow> ('m msg_state_scheme \<times> (usp_err + unit)) option" where
  "ValidateNoSessionContextHandling env ms =
    (case cur_session ms of
       None \<Rightarrow> Some (ms, USP_OK)
     | Some i \<Rightarrow>
        if e2e_mode (session_of ms i) = kE2EMode_Require then after_event env kE2EEvent_Restart (Inl USP_ERR_INVALID_CONFIGURATION) ms
        else if e2e_status (session_of ms i) \<noteq> kE2EStatus_Down then after_event env kE2EEvent_Termination (Inl USP_ERR_INVALID_CONFIGURATION) ms
        else Some (ms, USP_OK))"

definition IsValidE2eSarState :: "sar_vector \<Rightarrow> 32 word \<Rightarrow> bool" where
  "IsValidE2eSarState sarv sar_state =
    (let has_content = (sar_payloads sarv \<noteq> [])
     in if sar_state = SARSTATE_NONE \<or> sar_state = SARSTATE_BEGIN then \<not> has_content else has_content)"

definition IsValidSessionId :: "64 word \<Rightarrow> bool" where
  "IsValidSessionId sid \<longleftrightarrow> sid \<ge> E2E_FIRST_VALID_SESS_ID"

definition bad_session_event :: "e2e_session \<Rightarrow> e2e_event" where
  "bad_session_event e = (if e2e_mode e = kE2EMode_Require then kE2EEvent_Restart else kE2EEvent_Termination)"

text \<open>The first check that fails. The code looks at the mode again after it, also where there is no session.\<close>

definition session_context_error :: "e2e_session \<Rightarrow> session_context \<Rightarrow> usp_err option" where
  "session_context_error e ctx =
    (if e2e_mode e = kE2EMode_Forbid then Some USP_ERR_SESS_CONTEXT_NOT_ALLOWED
     else if \<not> IsValidSessionId (session_id ctx) \<or> sequence_id ctx < E2E_FIRST_SEQ_ID \<or> expected_id ctx < E2E_FIRST_SEQ_ID
       then Some USP_ERR_RECORD_FIELD_INVALID
     else if session_id ctx \<noteq> current_session_id e \<and> sequence_id ctx \<noteq> E2E_FIRST_SEQ_ID then Some USP_ERR_RECORD_FIELD_INVALID
     else if \<not> IsValidE2eSarState (received_payloads e) (payload_sar_state ctx) then Some USP_ERR_RECORD_FIELD_INVALID
     else None)"

definition ValidateSessionContextHandling ::
    "e2e_env \<Rightarrow> session_context \<Rightarrow> 'm msg_state_scheme \<Rightarrow> ('m msg_state_scheme \<times> (usp_err + unit)) option" where
  "ValidateSessionContextHandling env ctx ms =
    (case cur_session ms of
       None \<Rightarrow> None
     | Some i \<Rightarrow>
        (case session_context_error (session_of ms i) ctx of
           None \<Rightarrow> Some (ms, USP_OK)
         | Some err \<Rightarrow> after_event env (bad_session_event (session_of ms i)) (Inl err) ms))"

text \<open>A record with another session number begins a new session.\<close>

definition receive_ids :: "session_context \<Rightarrow> e2e_session \<Rightarrow> e2e_session" where
  "receive_ids ctx e =
    (let e1 = (if current_session_id e \<noteq> session_id ctx then (ClearE2eSessionState e)\<lparr>current_session_id := session_id ctx\<rparr> else e)
     in e1\<lparr>last_recv_sequence_id := sequence_id ctx, e2e_status := kE2EStatus_Up\<rparr>)"

definition payload_bytes :: "pb_binary \<Rightarrow> bytes" where
  "payload_bytes bd = take (unat (bd_len bd)) (bd_data bd)"

text \<open>What handles a message: its bytes, the role, the sender and where the response goes.\<close>

type_synonym 's message_handler = "bytes \<Rightarrow> nat \<Rightarrow> cstr option \<Rightarrow> mtp_reply_to \<Rightarrow> 's \<Rightarrow> ('s \<times> (usp_err + unit)) option"

definition HandleSessionContextRecord ::
    "e2e_env \<Rightarrow> 'm msg_state_scheme message_handler \<Rightarrow> cstr option \<Rightarrow> session_context \<Rightarrow> nat \<Rightarrow> mtp_reply_to \<Rightarrow>
      'm msg_state_scheme \<Rightarrow> ('m msg_state_scheme \<times> (usp_err + unit)) option" where
  "HandleSessionContextRecord env handle from ctx role mrt ms =
    (if length (ctx_payload ctx) \<noteq> 1 then None
     else case cur_session ms of
       None \<Rightarrow> None
     | Some i \<Rightarrow>
        (let recv_payload = payload_bytes (hd (ctx_payload ctx));
             ms1 = put_session i (receive_ids ctx) ms
         in if bd_len (hd (ctx_payload ctx)) = 0 then Some (ms1, USP_OK)
            else if payload_sar_state ctx = SARSTATE_NONE then handle recv_payload role from mrt ms1
            else
             (let (sarv, ok) = SAR_VECTOR_Append (received_payloads (session_of ms1 i)) (session_id ctx) (sequence_id ctx) recv_payload;
                  ms2 = put_session i (\<lambda>e. e\<lparr>received_payloads := sarv\<rparr>) ms1
              in if \<not> ok then after_event env (bad_session_event (session_of ms2 i)) USP_OK ms2
                 else if payload_sar_state ctx = SARSTATE_COMPLETE
                 then case SAR_VECTOR_Serialize sarv of
                   None \<Rightarrow> None
                 | Some buf \<Rightarrow>
                    (let ms3 = put_session i (\<lambda>e. e\<lparr>received_payloads := SAR_VECTOR_Destroy sarv\<rparr>) ms2
                     in case buf of
                          None \<Rightarrow> Some (ms3, Inl USP_ERR_INTERNAL_ERROR)
                        | Some bs \<Rightarrow> handle bs role from mrt ms3)
                 else Some (ms2, USP_OK))))"

text \<open>The data of a record without a session were checked before; an error in its checks is not returned.\<close>

definition E2E_CONTEXT_HandleUspRecord ::
    "e2e_env \<Rightarrow> 'm msg_state_scheme message_handler \<Rightarrow> usp_record \<Rightarrow> nat \<Rightarrow> mtp_reply_to \<Rightarrow>
      'm msg_state_scheme \<Rightarrow> ('m msg_state_scheme \<times> (usp_err + unit)) option" where
  "E2E_CONTEXT_HandleUspRecord env handle rec role mrt ms =
    (case record_type rec of
       No_Session_Context (Some payload) \<Rightarrow>
         (case ValidateNoSessionContextHandling env ms of
            None \<Rightarrow> None
          | Some (ms1, Inl _) \<Rightarrow> Some (ms1, USP_OK)
          | Some (ms1, Inr _) \<Rightarrow> handle (payload_bytes payload) role (from_id rec) mrt ms1)
     | Session_Context (Some ctx) \<Rightarrow>
         (case ValidateSessionContextHandling env ctx ms of
            None \<Rightarrow> None
          | Some (ms1, Inl err) \<Rightarrow> Some (ms1, Inl err)
          | Some (ms1, Inr _) \<Rightarrow> HandleSessionContextRecord env handle (from_id rec) ctx role mrt ms1)
     | _ \<Rightarrow> None)"

section \<open>The segments of a message\<close>

text \<open>The contexts of the records that a message is sent in, \<open>seq\<close> being the last number used before.\<close>

function contexts :: "session_context \<Rightarrow> nat \<Rightarrow> 64 word \<Rightarrow> bool \<Rightarrow> bytes \<Rightarrow> session_context list" where
  "contexts ctx capacity seq first rest =
    (let whole = (length rest \<le> capacity)
     in segment_context ctx (seq + 1) (fst (segment_state first whole)) (take capacity rest) #
       (if whole \<or> capacity = 0 then [] else contexts ctx capacity (seq + 1) False (drop capacity rest)))"
  by pat_completeness auto
termination by (relation "measure (\<lambda>(ctx, capacity, seq, first, rest). length rest)") auto

declare contexts.simps [simp del]

definition context_data :: "session_context \<Rightarrow> bytes" where
  "context_data ctx = concat (map payload_bytes (ctx_payload ctx))"

lemma payload_binary_of: "length bs < 2 ^ 32 \<Longrightarrow> payload_bytes (binary_of bs) = bs"
  by (simp add: payload_bytes_def binary_of_def unsigned_of_nat take_bit_nat_eq_self)

lemma contexts_data:
  assumes "0 < capacity" "length rest < 2 ^ 32"
  shows "concat (map context_data (contexts ctx capacity seq first rest)) = rest"
  using assms
proof (induction ctx capacity seq first rest rule: contexts.induct)
  case (1 ctx capacity seq first rest)
  have t: "context_data (segment_context ctx n sar (take capacity rest)) = take capacity rest" for n sar
    using 1(3) by (simp add: context_data_def segment_context_def payload_binary_of)
  show ?case
  proof (cases "length rest \<le> capacity")
    case True
    then show ?thesis using t by (subst contexts.simps) simp
  next
    case False
    then have "concat (map context_data (contexts ctx capacity (seq + 1) False (drop capacity rest))) = drop capacity rest"
      using 1 by simp
    then show ?thesis using False 1(2) by (subst contexts.simps) (simp add: t)
  qed
qed

lemma contexts_sequence:
  "map sequence_id (contexts ctx capacity seq first rest) =
    map (\<lambda>k. seq + 1 + of_nat k) [0..<length (contexts ctx capacity seq first rest)]"
proof (induction ctx capacity seq first rest rule: contexts.induct)
  case (1 ctx capacity seq first rest)
  let ?next = "contexts ctx capacity (seq + 1) False (drop capacity rest)"
  have u: "[0..<Suc n] = 0 # map Suc [0..<n]" for n by (simp add: upt_conv_Cons map_Suc_upt del: upt_Suc)
  show ?case
  proof (cases "length rest \<le> capacity \<or> capacity = 0")
    case True
    then show ?thesis by (subst contexts.simps, subst (2) contexts.simps) (simp add: segment_context_def Let_def)
  next
    case False
    then have "map sequence_id ?next = map (\<lambda>k. seq + 1 + 1 + of_nat k) [0..<length ?next]" using 1 [OF refl] by blast
    moreover have "contexts ctx capacity seq first rest =
      segment_context ctx (seq + 1) (fst (segment_state first False)) (take capacity rest) # ?next"
      using False by (subst contexts.simps) simp
    ultimately show ?thesis by (simp add: segment_context_def u algebra_simps del: upt_Suc)
  qed
qed

text \<open>What was handed to MQTT for a run that succeeds: one item for each context, in order.\<close>

lemma put_session_fields [simp]:
  "calls (put_session i f cs) = calls cs" "length (ctrls (put_session i f cs)) = length (ctrls cs)"
  by (simp_all add: put_session_def)

lemma session_of_put: "i < length (ctrls cs) \<Longrightarrow> session_of (put_session i f cs) j = (if j = i then f (session_of cs i) else session_of cs j)"
  by (simp add: session_of_def put_session_def upd_ctrl_nth upd_session_def)

lemma session_of_note [simp]: "session_of (note_call c cs) i = session_of cs i"
  by (simp add: session_of_def)

lemma QueueBinaryMessage_cases:
  assumes "DEVICE_CONTROLLER_QueueBinaryMessage env cs msi ep mrt = Some (cs', r)"
  shows "(\<exists>item. r = USP_OK \<and> cs' = note_call (Queued item) cs \<and> mq_item item = msi) \<or> r \<noteq> USP_OK \<and> cs' = cs"
proof -
  have "(\<exists>item. r = USP_OK \<and> cs' = note_call (Queued item) cs \<and> mq_item item = msi) \<or> r \<noteq> USP_OK \<and> cs' = cs"
    if "QueueBinaryMessageOnMtp env cs msi dest = Some (cs', r)" for dest
    using QueueOnMtp_cases [OF that] by fastforce
  then show ?thesis
    using assms unfolding DEVICE_CONTROLLER_QueueBinaryMessage_def Let_def by (auto split: if_splits option.splits sum.splits)
qed

definition context_record :: "e2e_env \<Rightarrow> cstr \<Rightarrow> session_context \<Rightarrow> usp_record" where
  "context_record env ep ctx = record_to (agent_endpoint env) ep (Session_Context (Some ctx))"

lemma context_record_ok: "record_ok (context_record env ep (segment_context ctx seq sar seg))"
  by (simp add: context_record_def segment_context_def)

lemma queue_segment_OK:
  assumes "queue_segment env i usi ep mrt ctx first whole seg cs = Some (cs', USP_OK)" "i < length (ctrls cs)"
  defines "seq \<equiv> last_sent_sequence_id (session_of cs i) + 1"
  defines "rec \<equiv> context_record env ep (segment_context ctx seq (fst (segment_state first whole)) seg)"
  shows "\<exists>item. calls cs' = calls cs @ [Queued item] \<and> mtp_pbuf (mq_item item) = pack rec \<and>
    content_type (mq_item item) = snd (segment_state first whole) \<and>
    (max_record_size (session_of cs i) = 0 \<or> get_packed_size rec \<le> max_record_size (session_of cs i)) \<and>
    length (ctrls cs') = length (ctrls cs) \<and> session_of cs' i = (session_of cs i)\<lparr>last_sent_sequence_id := seq\<rparr>"
proof -
  obtain sar content where s: "segment_state first whole = (sar, content)" by fastforce
  let ?cs1 = "put_session i (\<lambda>e. e\<lparr>last_sent_sequence_id := last_sent_sequence_id e + 1\<rparr>) cs"
  let ?item = "\<lparr>content_type = content, usp_msg_type = usi_msg_type usi, mtp_pbuf = pack rec\<rparr>"
  have e: "session_of ?cs1 i = (session_of cs i)\<lparr>last_sent_sequence_id := seq\<rparr>"
    using assms(2) by (simp add: session_of_put seq_def)
  have ok: "record_ok rec" unfolding rec_def by (rule context_record_ok)
  have "packed_item content (usi_msg_type usi) rec = Some ?item" by (rule packed_item_Some [OF ok])
  then have q: "DEVICE_CONTROLLER_QueueBinaryMessage (ee_cont env) ?cs1 ?item ep mrt = Some (cs', USP_OK)"
    and fits: "max_record_size (session_of cs i) = 0 \<or> \<not> of_nat (length (pack rec)) > max_record_size (session_of cs i)"
    using assms(1) unfolding queue_segment_def s Let_def
    by (auto simp: e rec_def context_record_def s word_neq_0_conv split: if_splits)
  then show ?thesis
    using QueueBinaryMessage_cases [OF q] s e pack_length [OF ok] by (auto simp: not_less)
qed

lemma queue_segments_OK:
  assumes "queue_segments env i usi ep mrt ctx capacity first rest cs = Some (cs', USP_OK)" "i < length (ctrls cs)" "0 < capacity"
  defines "cxs \<equiv> contexts ctx capacity (last_sent_sequence_id (session_of cs i)) first rest"
  shows "\<exists>items. calls cs' = calls cs @ map Queued items \<and> map (mtp_pbuf \<circ> mq_item) items = map (pack \<circ> context_record env ep) cxs \<and>
    (max_record_size (session_of cs i) = 0 \<or> (\<forall>c\<in>set cxs. get_packed_size (context_record env ep c) \<le> max_record_size (session_of cs i))) \<and>
    last_sent_sequence_id (session_of cs' i) = last_sent_sequence_id (session_of cs i) + of_nat (length cxs)"
  using assms(1-3) unfolding cxs_def
proof (induction env i usi ep mrt ctx capacity first rest cs rule: queue_segments.induct)
  case (1 env i usi ep mrt ctx capacity first rest cs)
  let ?seq = "last_sent_sequence_id (session_of cs i)"
  let ?whole = "length rest \<le> capacity"
  let ?c = "segment_context ctx (?seq + 1) (fst (segment_state first ?whole)) (take capacity rest)"
  have w: "(length rest \<le> length (take capacity rest)) = ?whole" by auto
  obtain cs1 where q: "queue_segment env i usi ep mrt ctx first ?whole (take capacity rest) cs = Some (cs1, USP_OK)"
    and nx: "(if drop capacity rest = [] then Some (cs1, USP_OK)
      else queue_segments env i usi ep mrt ctx capacity False (drop capacity rest) cs1) = Some (cs', USP_OK)"
    using 1(2) gr_implies_not0 [OF 1(4)] unfolding queue_segments.simps [of env i usi ep mrt ctx capacity first rest cs] Let_def w
    by (auto split: option.splits sum.splits prod.splits if_splits)
  obtain item where item: "calls cs1 = calls cs @ [Queued item]" "mtp_pbuf (mq_item item) = pack (context_record env ep ?c)"
    "max_record_size (session_of cs i) = 0 \<or> get_packed_size (context_record env ep ?c) \<le> max_record_size (session_of cs i)"
    "length (ctrls cs1) = length (ctrls cs)" "session_of cs1 i = (session_of cs i)\<lparr>last_sent_sequence_id := ?seq + 1\<rparr>"
    using queue_segment_OK [OF q 1(3)] by blast
  show ?case
  proof (cases ?whole)
    case True
    then have c: "contexts ctx capacity ?seq first rest = [?c]" by (subst contexts.simps) simp
    have "cs' = cs1" using True nx by simp
    then show ?thesis unfolding c by (intro exI [of _ "[item]"]) (use item in auto)
  next
    case False
    then have n: "queue_segments env i usi ep mrt ctx capacity False (drop capacity rest) cs1 = Some (cs', USP_OK)"
      using nx by (simp split: if_splits)
    have l: "last_sent_sequence_id (session_of cs1 i) = ?seq + 1" "max_record_size (session_of cs1 i) = max_record_size (session_of cs i)"
      "i < length (ctrls cs1)"
      using item 1(3) by auto
    have c: "contexts ctx capacity ?seq first rest = ?c # contexts ctx capacity (?seq + 1) False (drop capacity rest)"
      using False 1(4) by (subst contexts.simps) simp
    have ih: "\<exists>items. calls cs' = calls cs1 @ map Queued items \<and>
        map (mtp_pbuf \<circ> mq_item) items = map (pack \<circ> context_record env ep) (contexts ctx capacity (?seq + 1) False (drop capacity rest)) \<and>
        (max_record_size (session_of cs i) = 0 \<or> (\<forall>c\<in>set (contexts ctx capacity (?seq + 1) False (drop capacity rest)).
          get_packed_size (context_record env ep c) \<le> max_record_size (session_of cs i))) \<and>
        last_sent_sequence_id (session_of cs' i) = ?seq + 1 + of_nat (length (contexts ctx capacity (?seq + 1) False (drop capacity rest)))"
      using 1(1) [OF refl refl] q n False 1(4) l unfolding w by fastforce
    obtain items where items: "calls cs' = calls cs1 @ map Queued items"
      "map (mtp_pbuf \<circ> mq_item) items = map (pack \<circ> context_record env ep) (contexts ctx capacity (?seq + 1) False (drop capacity rest))"
      "max_record_size (session_of cs i) = 0 \<or> (\<forall>c\<in>set (contexts ctx capacity (?seq + 1) False (drop capacity rest)).
          get_packed_size (context_record env ep c) \<le> max_record_size (session_of cs i))"
      "last_sent_sequence_id (session_of cs' i) = ?seq + 1 + of_nat (length (contexts ctx capacity (?seq + 1) False (drop capacity rest)))"
      using ih by blast
    show ?thesis
      unfolding c by (rule exI [of _ "item # items"]) (use item items in \<open>auto simp: algebra_simps o_def\<close>)
  qed
qed

section \<open>The segments fit\<close>

text \<open>The lengths of the fields as natural numbers.\<close>

definition u64_len :: "64 word \<Rightarrow> nat" where
  "u64_len v = (if v = 0 then 0 else 1 + length (uint64_pack v))"

definition sar_len :: "32 word \<Rightarrow> nat" where
  "sar_len v = (if v = 0 then 0 else 1 + length (int32_pack v))"

definition ids_len :: "session_context \<Rightarrow> nat" where
  "ids_len c = u64_len (session_id c) + u64_len (sequence_id c) + u64_len (expected_id c) + u64_len (retransmit_id c) +
    sar_len (payload_sar_state c) + sar_len (payloadrec_sar_state c)"

definition payload_len :: "nat \<Rightarrow> nat" where
  "payload_len n = 1 + groups n + n"

definition str_len :: "cstr \<Rightarrow> nat" where
  "str_len s = (if s = [] then 0 else 1 + groups (length s) + length s)"

lemma groups_bounds: "1 \<le> groups x" "groups x \<le> 5" "x \<le> y \<Longrightarrow> groups x \<le> groups y"
  by (simp_all add: groups_def)

lemma unat_of_nat32: "n < 2 ^ 32 \<Longrightarrow> unat (of_nat n :: 32 word) = n"
  by (simp add: unsigned_of_nat take_bit_nat_eq_self)

lemma field_tag: "num < 16 \<Longrightarrow> length (tag_of num v) = 1"
  using tag_of_groups [of num v] drop_less [of 4 0 num] by (simp add: groups_def word_less_nat_alt)

lemma session_fields_length:
  assumes "ctx_payload c = [bd]" "length (bd_data bd) = unat (bd_len bd)"
  shows "length (message_pack (session_fields c)) = ids_len c + payload_len (unat (bd_len bd))"
  using assms by (simp add: session_fields_def ids_len_def u64_len_def sar_len_def payload_len_def field_tag binary_data_pack_def uint32_pack_groups)

lemma str_field_length: "length s < 2 ^ 32 \<Longrightarrow> num < 16 \<Longrightarrow> length (field_pack (Unlabeled num (Pb_String (Some s)))) = str_len s"
  by (simp add: str_len_def field_tag string_pack_def strlen32_def uint32_pack_groups unat_of_nat32 char_bytes_def)

text \<open>A record is the strings, the tag and the length of the context, and the context.\<close>

definition strings_len :: "e2e_env \<Rightarrow> cstr \<Rightarrow> nat" where
  "strings_len env ep = 5 + str_len ep + str_len (agent_endpoint env)"

lemma context_record_length:
  assumes "length (message_pack (session_fields c)) = n" "n < 2 ^ 32" "length ep < 2 ^ 32" "length (agent_endpoint env) < 2 ^ 32"
  shows "length (pack (context_record env ep c)) = strings_len env ep + payload_len n"
proof -
  have "length (field_pack (Unlabeled 1 (Pb_String (Some AGENT_CURRENT_PROTOCOL_VERSION)))) = 5"
    by (simp add: field_tag string_pack_def strlen32_def uint32_pack_groups groups_def char_bytes_def AGENT_CURRENT_PROTOCOL_VERSION_def)
  moreover have "field_pack (Unlabeled 4 (Pb_Int32 0)) = []" "field_pack (Unlabeled k (Pb_Bytes \<lparr>bd_len = 0, bd_data = []\<rparr>)) = []" for k
    by simp_all
  ultimately show ?thesis
    using assms str_field_length [of ep 2] str_field_length [of "agent_endpoint env" 3]
    unfolding pack_def record_fields_def context_record_def record_to_def
    by (simp add: RECORD_INIT_def PAYLOAD_SECURITY_PLAINTEXT_def no_data_def absent_oneof_def strings_len_def payload_len_def
        field_tag Let_def uint32_pack_groups unat_of_nat32 del: field_pack.simps(4))
qed


lemma uint64_pack_or_1: "length (uint64_pack v) \<le> length (uint64_pack (v OR 1))"
proof -
  have h: "drop_bit 32 (v OR 1) = drop_bit 32 v" by (simp add: drop_bit_or)
  have "uint (ucast v :: 32 word) \<le> uint (ucast v OR 1 :: 32 word)"
    unfolding unsigned_or_eq by (simp add: or_one_eq)
  moreover have "ucast (v OR 1) = (ucast v OR 1 :: 32 word)" by (simp add: unsigned_or_eq)
  ultimately have "unat (ucast v :: 32 word) \<le> unat (ucast (v OR 1) :: 32 word)"
    by (simp add: word_le_nat_alt flip: word_le_def)
  then have "length (uint32_pack (ucast v)) \<le> length (uint32_pack (ucast (v OR 1)))"
    by (simp add: uint32_pack_groups groups_bounds)
  then show ?thesis unfolding uint64_pack_def Let_def h by simp
qed

lemma uint64_pack_max: "length (uint64_pack v) \<le> 10" "length (uint64_pack (-1)) = 10"
proof -
  have "length (varint_pack n w) \<le> Suc n" for n w by (induction n arbitrary: w) auto
  from this [of 4] have max: "length (uint64_pack v) \<le> 10" for v
    using groups_bounds(2) [of "unat (ucast v :: 32 word)"] by (auto simp: uint64_pack_def Let_def uint32_pack_groups intro: order_trans)
  then show "length (uint64_pack v) \<le> 10" .
  have "uint64_size (-1) = 10" by code_simp
  then have "(of_nat (length (uint64_pack (-1))) :: 32 word) = 10" by (simp add: uint64_pack_length)
  then have "unat (of_nat (length (uint64_pack (-1))) :: 32 word) = unat (10 :: 32 word)" by simp
  moreover have "length (uint64_pack (-1)) < 2 ^ 32" using max [of "-1"] by simp
  ultimately show "length (uint64_pack (-1)) = 10" by (simp only: unat_of_nat32) simp
qed

lemma u64_len_bounds: "u64_len v \<le> u64_len (v OR 1)" "u64_len v \<le> 11" "u64_len (-1) = 11"
proof -
  have "bit (v OR 1) 0" by (simp add: bit_or_iff)
  then have "v OR 1 \<noteq> 0" by auto
  then show "u64_len v \<le> u64_len (v OR 1)" using uint64_pack_or_1 [of v] by (simp add: u64_len_def)
qed (simp_all add: u64_len_def uint64_pack_max)

lemma sar_len_states: "sar_len SARSTATE_BEGIN = 2" "sar_len (fst (segment_state first whole)) \<le> 2"
  by (simp_all add: segment_state_def sarstate_defs sar_len_def int32_pack_def uint32_pack_groups groups_def)


lemma ids_len_segment:
  "ids_len (segment_context ctx seq (fst (segment_state first whole)) seg) \<le>
    ids_len (ctx\<lparr>session_id := session_id ctx OR 1, expected_id := expected_id ctx OR 1, sequence_id := -1,
      payload_sar_state := SARSTATE_BEGIN, payloadrec_sar_state := SARSTATE_BEGIN, ctx_payload := p\<rparr>)"
  using u64_len_bounds(1) [of "session_id ctx"] u64_len_bounds(1) [of "expected_id ctx"] u64_len_bounds(2) [of seq]
    sar_len_states(2) [of first whole]
  by (simp add: ids_len_def segment_context_def sar_len_states(1) u64_len_bounds(3))

text \<open>The size depends on the length of the payload only, not on its bytes.\<close>

lemma get_packed_size_data:
  "get_packed_size (context_record env ep (ctx\<lparr>ctx_payload := [\<lparr>bd_len = n, bd_data = bs\<rparr>]\<rparr>)) =
    get_packed_size (context_record env ep (ctx\<lparr>ctx_payload := [\<lparr>bd_len = n, bd_data = bs'\<rparr>]\<rparr>))"
proof -
  let ?ctx = "\<lambda>bs. ctx\<lparr>ctx_payload := [\<lparr>bd_len = n, bd_data = bs\<rparr>]\<rparr>"
  have e: "message_size (session_fields (?ctx bs)) = message_size (session_fields (?ctx bs'))"
    unfolding session_fields_def by (cases ctx) (simp only: message_size.simps field_size.simps value_size.simps list.map session_context.simps pb_binary.simps list.size)
  have r: "get_packed_size (context_record env ep c) = sum_list (map field_size
      [Unlabeled 1 (Pb_String (Some AGENT_CURRENT_PROTOCOL_VERSION)), Unlabeled 2 (Pb_String (Some ep)),
       Unlabeled 3 (Pb_String (Some (agent_endpoint env))), Unlabeled 4 (Pb_Int32 PAYLOAD_SECURITY_PLAINTEXT),
       Unlabeled 5 (Pb_Bytes no_data), Unlabeled 6 (Pb_Bytes no_data)]) +
      sum_list (map (\<lambda>num. if num \<noteq> 8 then 0 else get_tag_size num +
        (uint32_size (message_size (session_fields c)) + message_size (session_fields c))) [7, 8, 9, 10, 11, 12])" for c
    unfolding get_packed_size_def record_fields_def context_record_def record_to_def RECORD_INIT_def
    by (simp only: message_size.simps map_append sum_list_append usp_record.simps record_type_case.simps record_body.simps
        map_map o_def field_size.simps absent_oneof_def pointer_absent.simps option.map option.simps value_size.simps Let_def
        simp_thms eq_commute [of 8])
  show ?thesis unfolding r e ..
qed

lemma contexts_form:
  "c \<in> set (contexts ctx capacity seq first rest) \<Longrightarrow>
    \<exists>s f w seg. c = segment_context ctx s (fst (segment_state f w)) seg \<and> length seg \<le> capacity"
proof (induction ctx capacity seq first rest rule: contexts.induct)
  case (1 ctx capacity seq first rest)
  note IH = 1(1) [OF refl]
  let ?whole = "length rest \<le> capacity"
  from 1(2) consider "c = segment_context ctx (seq + 1) (fst (segment_state first ?whole)) (take capacity rest)"
    | "\<not> ?whole" "capacity \<noteq> 0" "c \<in> set (contexts ctx capacity (seq + 1) False (drop capacity rest))"
    by (subst (asm) contexts.simps) (auto simp: Let_def split: if_splits)
  then show ?case
  proof cases
    case 1
    show ?thesis
      by (rule exI [of _ "seq + 1"], rule exI [of _ first], rule exI [of _ ?whole], rule exI [of _ "take capacity rest"]) (simp add: 1)
  next
    case 2
    then show ?thesis using IH by simp
  qed
qed

lemma segments_size:
  fixes max_size :: "32 word"
  assumes room: "length ep + length (agent_endpoint env) + 117 \<le> unat max_size" "unat max_size < 2 ^ 31" "retransmit_id ctx = 0"
  defines "capacity \<equiv> ComputePayloadCapacity (context_record env ep ctx) ctx max_size"
  shows "50 < capacity"
    and "c \<in> set (contexts ctx (unat capacity) seq first rest) \<Longrightarrow> length (pack (context_record env ep c)) \<le> unat max_size"
proof -
  define m where "m = unat max_size"
  define est where "est = ctx\<lparr>session_id := session_id ctx OR 1, expected_id := expected_id ctx OR 1, sequence_id := -1,
    payload_sar_state := SARSTATE_BEGIN, payloadrec_sar_state := SARSTATE_BEGIN\<rparr>"
  define est' where "est' = est\<lparr>ctx_payload := [\<lparr>bd_len = max_size, bd_data = replicate m 0\<rparr>]\<rparr>"
  define N where "N = ids_len est' + payload_len m"
  define L where "L = strings_len env ep + payload_len N"
  have ids: "ids_len est' \<le> 37"
    using u64_len_bounds(2) [of "session_id ctx OR 1"] u64_len_bounds(2) [of "expected_id ctx OR 1"] assms(3)
    by (simp add: ids_len_def est'_def est_def sar_len_states u64_len_bounds(3)) (simp add: u64_len_def)
  have s: "strings_len env ep \<le> 17 + length ep + length (agent_endpoint env)"
    using groups_bounds(2) [of "length ep"] groups_bounds(2) [of "length (agent_endpoint env)"]
    by (simp add: strings_len_def str_len_def)
  have N: "m \<le> N" "N \<le> m + 43" using ids groups_bounds [of m] by (simp_all add: N_def payload_len_def)
  have L: "m \<le> L" "L \<le> m + 66 + length ep + length (agent_endpoint env)"
    using N s groups_bounds [of N] by (simp_all add: L_def payload_len_def)
  have "length (pack (context_record env ep est')) = L"
    unfolding L_def
  proof (rule context_record_length)
    show "length (message_pack (session_fields est')) = N"
      unfolding N_def by (subst session_fields_length [where bd = "\<lparr>bd_len = max_size, bd_data = replicate m 0\<rparr>"]) (simp_all add: est'_def m_def)
  qed (use N room in \<open>simp_all add: m_def\<close>)
  moreover have "record_ok (context_record env ep est')" by (simp add: context_record_def est'_def binary_ok_def m_def)
  ultimately have "get_packed_size (context_record env ep est') = of_nat L" using pack_length [of "context_record env ep est'"] by simp
  then have e: "get_packed_size (context_record env ep (est\<lparr>ctx_payload := [\<lparr>bd_len = max_size, bd_data = []\<rparr>]\<rparr>)) = of_nat L"
    unfolding est'_def using get_packed_size_data by metis
  have "capacity = of_nat m - (of_nat L - of_nat m)"
    using e unfolding capacity_def ComputePayloadCapacity_def Let_def
    by (simp add: est_def context_record_def record_to_def m_def)
  then have "capacity = of_nat (2 * m - L)" using L room by (simp add: m_def of_nat_diff)
  moreover have "2 * m - L < 2 ^ 32" using room(2) by (simp add: m_def)
  ultimately have cap: "unat capacity = 2 * m - L" by (simp only: unat_of_nat32)
  then show "50 < capacity" using L room by (simp add: word_less_nat_alt m_def)
  assume "c \<in> set (contexts ctx (unat capacity) seq first rest)"
  then obtain n f w seg where c: "c = segment_context ctx n (fst (segment_state f w)) seg" and seg: "length seg \<le> 2 * m - L"
    using contexts_form cap by metis
  define M where "M = ids_len c + payload_len (length seg)"
  have "groups (length seg) \<le> groups m" using seg L by (intro groups_bounds(3)) simp
  moreover have "ids_len c \<le> ids_len est'" unfolding c est'_def est_def using ids_len_segment by simp
  ultimately have M: "M + m \<le> N + length seg" by (simp add: M_def N_def payload_len_def)
  have small: "length seg < 2 ^ 32" "M < 2 ^ 32" using M N seg L room by (simp_all add: m_def)
  have "length (message_pack (session_fields c)) = M"
    unfolding M_def by (subst session_fields_length [where bd = "binary_of seg"]) (use small(1) in \<open>simp_all add: c segment_context_def binary_of_def unat_of_nat32\<close>)
  then have "length (pack (context_record env ep c)) = strings_len env ep + payload_len M"
    using room by (intro context_record_length small) (simp_all add: m_def)
  also have "\<dots> + m \<le> L + length seg"
  proof -
    have "groups M \<le> groups N" using M seg L by (intro groups_bounds(3)) simp
    then show ?thesis using M by (simp add: L_def payload_len_def)
  qed
  finally show "length (pack (context_record env ep c)) \<le> unat max_size" using seg L room by (simp add: m_def)
qed

end
