(* ===== verification/E2e_Sessions.thy ===== *)
theory E2e_Sessions
  imports E2e_Context
begin

text \<open>
  What sessions guarantee: a message is sent in segments that fit in a record and are put together by
  the receiver, and what a session accepts depends on its mode.
\<close>

section \<open>The session of the controller that sent a message\<close>

lemma first_index_update: "P y = P (xs ! k) \<Longrightarrow> first_index P (xs[k := y]) = first_index P xs"
proof (induction xs arbitrary: k)
  case (Cons x xs)
  then show ?case by (cases k) (auto simp: first_index_Cons)
qed (simp add: first_index_Nil)

lemma enabled_instance_put [simp]:
  assumes "i < length (ctrls cs)"
  shows "enabled_instance (ctrls (put_session i f cs)) n = enabled_instance (ctrls cs) n"
proof -
  have "FindControllerByInstance (ctrls (put_session i f cs)) n = FindControllerByInstance (ctrls cs) n"
    unfolding FindControllerByInstance_def put_session_def upd_ctrl_def by (simp add: first_index_update)
  moreover have "cont_enable (ctrls (put_session i f cs) ! k) = cont_enable (ctrls cs ! k)" for k
    by (simp add: put_session_def upd_ctrl_nth upd_session_def)
  ultimately show ?thesis by (simp add: enabled_instance_def)
qed

lemma cur_session_put [simp]: "i < length (ctrls ms) \<Longrightarrow> cur_session (put_session i f ms) = cur_session ms"
  by (simp add: cur_session_def DEVICE_CONTROLLER_FindE2ESessionByInstance_def MSG_HANDLER_GetMsgControllerInstance_def)
    (simp add: put_session_def upd_ctrl_def)

lemma enabled_instance_less: "enabled_instance cs n = Some i \<Longrightarrow> i < length cs"
  unfolding enabled_instance_def Let_def FindControllerByInstance_def
  using first_index_found by (fastforce split: if_splits)

lemma cur_session_less: "cur_session ms = Some i \<Longrightarrow> i < length (ctrls ms)"
  by (auto simp: cur_session_def DEVICE_CONTROLLER_FindE2ESessionByInstance_def dest: enabled_instance_less)

lemma put_session_put [simp]: "put_session i f (put_session i g cs) = put_session i (\<lambda>e. f (g e)) cs"
  by (cases "i < length (ctrls cs)")
    (simp_all add: put_session_def upd_ctrl_def upd_session_def list_update_beyond)

lemma put_session_const: "put_session i f cs = put_session i (\<lambda>_. f (session_of cs i)) cs"
  by (simp add: put_session_def upd_ctrl_def upd_session_def session_of_def)

section \<open>A message is put together again\<close>

text \<open>Records that are handled one after the other, whatever each returns.\<close>

fun handle_records ::
    "e2e_env \<Rightarrow> 'm msg_state_scheme message_handler \<Rightarrow> nat \<Rightarrow> mtp_reply_to \<Rightarrow> usp_record list \<Rightarrow>
      'm msg_state_scheme \<Rightarrow> ('m msg_state_scheme \<times> (usp_err + unit) list) option" where
  "handle_records env handle role mrt [] ms = Some (ms, [])"
| "handle_records env handle role mrt (rec # recs) ms =
    (case E2E_CONTEXT_HandleUspRecord env handle rec role mrt ms of
       None \<Rightarrow> None
     | Some (ms1, r) \<Rightarrow> map_option (\<lambda>(ms2, rs). (ms2, r # rs)) (handle_records env handle role mrt recs ms1))"

text \<open>
  The session after the segments that hold \<open>pre\<close>; before the first one (\<open>fresh\<close>) it may have another
  number, when the numbers of the records start at 1.
\<close>

definition expects :: "session_context \<Rightarrow> 64 word \<Rightarrow> bool \<Rightarrow> bytes \<Rightarrow> e2e_session \<Rightarrow> bool" where
  "expects ctx seq fresh pre e \<longleftrightarrow> e2e_mode e \<noteq> kE2EMode_Forbid \<and>
    (if fresh then received_payloads e = SAR_VECTOR_Init \<and> pre = [] \<and> (current_session_id e = session_id ctx \<or> seq = 0)
     else current_session_id e = session_id ctx \<and> sar_ok (received_payloads e) \<and> sar_payloads (received_payloads e) \<noteq> [] \<and>
       concat (map sar_data (sar_payloads (received_payloads e))) = pre \<and>
       sess_id (last (sar_payloads (received_payloads e))) = session_id ctx \<and> seq_id (last (sar_payloads (received_payloads e))) = seq)"

definition ids_valid :: "session_context \<Rightarrow> 64 word \<Rightarrow> bool" where
  "ids_valid ctx seq \<longleftrightarrow> IsValidSessionId (session_id ctx) \<and> expected_id ctx \<noteq> 0 \<and> seq \<noteq> 0"

definition received :: "session_context \<Rightarrow> 64 word \<Rightarrow> e2e_session \<Rightarrow> bool" where
  "received ctx seq e \<longleftrightarrow> e2e_status e = kE2EStatus_Up \<and> current_session_id e = session_id ctx \<and> last_recv_sequence_id e = seq \<and>
    received_payloads e = SAR_VECTOR_Init"

lemma segment_accepted:
  assumes "expects ctx seq fresh pre e" "ids_valid ctx (seq + 1)"
  shows "session_context_error e (segment_context ctx (seq + 1) (fst (segment_state fresh whole)) seg) = None"
proof -
  have first_id: "\<not> x < E2E_FIRST_SEQ_ID" if "x \<noteq> 0" for x
    using that by (simp add: E2E_FIRST_SEQ_ID_def)
  have "IsValidE2eSarState (received_payloads e) (fst (segment_state fresh whole))"
    using assms(1) by (cases fresh; cases whole) (auto simp: expects_def IsValidE2eSarState_def segment_state_def sarstate_defs SAR_VECTOR_Init_def)
  moreover have "session_id ctx = current_session_id e \<or> seq + 1 = E2E_FIRST_SEQ_ID"
    using assms(1) by (auto simp: expects_def E2E_FIRST_SEQ_ID_def split: if_splits)
  ultimately show ?thesis
    using assms first_id by (auto simp: session_context_error_def segment_context_def expects_def ids_valid_def)
qed

lemma validate_segment:
  assumes "expects ctx seq fresh pre (session_of ms i)" "ids_valid ctx (seq + 1)" "cur_session ms = Some i"
  shows "ValidateSessionContextHandling env (segment_context ctx (seq + 1) (fst (segment_state fresh whole)) seg) ms = Some (ms, USP_OK)"
  using segment_accepted [OF assms(1,2)] assms(3) by (simp add: ValidateSessionContextHandling_def)

lemma payload_of_segment:
  assumes "seg \<noteq> []" "length seg < 2 ^ 31"
  shows "payload_bytes (binary_of seg) = seg" "bd_len (binary_of seg) \<noteq> 0"
proof -
  have l: "unat (of_nat (length seg) :: 32 word) = length seg" using assms(2) by (simp add: unat_of_nat32)
  show "payload_bytes (binary_of seg) = seg" using assms(2) by (simp add: payload_binary_of)
  show "bd_len (binary_of seg) \<noteq> 0" using l assms(1) by (auto simp: binary_of_def)
qed

lemma handle_last_segment:
  fixes env' :: e2e_env and ep :: cstr
  assumes "expects ctx seq fresh pre (session_of ms i)" "ids_valid ctx (seq + 1)" "cur_session ms = Some i" "seg \<noteq> []" "length seg < 2 ^ 31"
  defines "rec \<equiv> context_record env' ep (segment_context ctx (seq + 1) (fst (segment_state fresh True)) seg)"
  shows "\<exists>e. received ctx (seq + 1) e \<and>
    E2E_CONTEXT_HandleUspRecord env handle rec role mrt ms =
      handle (pre @ seg) role (Some (agent_endpoint env')) mrt (put_session i (\<lambda>_. e) ms)"
proof -
  note i = cur_session_less [OF assms(3)]
  let ?c = "segment_context ctx (seq + 1) (fst (segment_state fresh True)) seg"
  let ?e = "receive_ids ?c (session_of ms i)"
  have h: "E2E_CONTEXT_HandleUspRecord env handle rec role mrt ms =
      HandleSessionContextRecord env handle (Some (agent_endpoint env')) ?c role mrt ms"
    using validate_segment [OF assms(1-3)] by (simp add: E2E_CONTEXT_HandleUspRecord_def rec_def context_record_def record_to_def)
  show ?thesis
  proof (cases fresh)
    case True
    then have "received ctx (seq + 1) ?e"
      using assms(1) by (simp add: expects_def received_def receive_ids_def Let_def segment_context_def ClearE2eSessionState_def SAR_VECTOR_Destroy_def)
    moreover have "HandleSessionContextRecord env handle (Some (agent_endpoint env')) ?c role mrt ms =
        handle seg role (Some (agent_endpoint env')) mrt (put_session i (\<lambda>_. ?e) ms)"
      using True assms(3,4) payload_of_segment [OF assms(4,5)] put_session_const [of i "receive_ids ?c" ms]
      by (simp add: HandleSessionContextRecord_def Let_def) (simp add: segment_context_def segment_state_def)
    ultimately show ?thesis using True assms(1) h by (auto simp: expects_def)
  next
    case False
    let ?p = "received_payloads (session_of ms i)"
    let ?sarv = "\<lparr>sar_payloads = sar_payloads ?p @ [\<lparr>sess_id = session_id ctx, seq_id = seq + 1, sar_data = seg\<rparr>],
      sum_length = sum_length ?p + int (length seg)\<rparr>"
    have e: "current_session_id (session_of ms i) = session_id ctx" "sar_ok ?p" "sar_payloads ?p \<noteq> []"
      "concat (map sar_data (sar_payloads ?p)) = pre" "sess_id (last (sar_payloads ?p)) = session_id ctx" "seq_id (last (sar_payloads ?p)) = seq"
      using assms(1) False by (simp_all add: expects_def)
    have a: "SAR_VECTOR_Append ?p (session_id ctx) (seq + 1) seg = (?sarv, True)"
      using e by (simp add: SAR_VECTOR_Append_def IsValidPayload_def Let_def)
    have "sar_ok ?sarv" using sar_ok_Append [OF e(2), of "session_id ctx" "seq + 1" seg] a by simp
    then have s: "SAR_VECTOR_Serialize ?sarv = Some (Some (pre @ seg))"
      using Serialize_ok e(4) assms(4) by (simp add: Let_def)
    let ?e' = "?e\<lparr>received_payloads := SAR_VECTOR_Init\<rparr>"
    have "received ctx (seq + 1) ?e'"
      using e(1) by (simp add: received_def receive_ids_def Let_def segment_context_def)
    moreover have "HandleSessionContextRecord env handle (Some (agent_endpoint env')) ?c role mrt ms =
        handle (pre @ seg) role (Some (agent_endpoint env')) mrt (put_session i (\<lambda>_. ?e') ms)"
    proof -
      have c: "ctx_payload ?c = [binary_of seg]" "payload_sar_state ?c = SARSTATE_COMPLETE" "session_id ?c = session_id ctx" "sequence_id ?c = seq + 1"
        using False by (simp_all add: segment_context_def segment_state_def)
      have r: "received_payloads ?e = ?p" using e(1) by (simp add: receive_ids_def Let_def c)
      have ne: "SARSTATE_COMPLETE \<noteq> SARSTATE_NONE" by (simp add: sarstate_defs)
      show ?thesis
        using assms(3) i payload_of_segment [OF assms(4,5)] ne a s
          put_session_const [of i "\<lambda>e. (receive_ids ?c e)\<lparr>received_payloads := SAR_VECTOR_Init\<rparr>" ms]
        by (simp add: HandleSessionContextRecord_def Let_def c r session_of_put SAR_VECTOR_Destroy_def)
    qed
    ultimately show ?thesis using h by auto
  qed
qed

lemma handle_middle_segment:
  fixes env' :: e2e_env and ep :: cstr
  assumes "expects ctx seq fresh pre (session_of ms i)" "ids_valid ctx (seq + 1)" "cur_session ms = Some i" "seg \<noteq> []" "length seg < 2 ^ 31"
  defines "rec \<equiv> context_record env' ep (segment_context ctx (seq + 1) (fst (segment_state fresh False)) seg)"
  shows "\<exists>e. expects ctx (seq + 1) False (pre @ seg) e \<and>
    E2E_CONTEXT_HandleUspRecord env handle rec role mrt ms = Some (put_session i (\<lambda>_. e) ms, USP_OK)"
proof -
  note i = cur_session_less [OF assms(3)]
  let ?c = "segment_context ctx (seq + 1) (fst (segment_state fresh False)) seg"
  let ?e = "receive_ids ?c (session_of ms i)"
  let ?p = "received_payloads ?e"
  let ?sarv = "\<lparr>sar_payloads = sar_payloads ?p @ [\<lparr>sess_id = session_id ctx, seq_id = seq + 1, sar_data = seg\<rparr>],
    sum_length = sum_length ?p + int (length seg)\<rparr>"
  have c: "ctx_payload ?c = [binary_of seg]" "session_id ?c = session_id ctx" "sequence_id ?c = seq + 1"
    by (simp_all add: segment_context_def)
  have state: "payload_sar_state ?c \<noteq> SARSTATE_NONE" "payload_sar_state ?c \<noteq> SARSTATE_COMPLETE"
    by (simp_all add: segment_context_def segment_state_def sarstate_defs)
  have p: "sar_ok ?p" "concat (map sar_data (sar_payloads ?p)) = pre" "current_session_id ?e = session_id ctx" "e2e_mode ?e \<noteq> kE2EMode_Forbid"
    "sar_payloads ?p = [] \<or> sess_id (last (sar_payloads ?p)) = session_id ctx \<and> seq_id (last (sar_payloads ?p)) = seq"
    using assms(1) c by (auto simp: expects_def receive_ids_def Let_def ClearE2eSessionState_def SAR_VECTOR_Destroy_def SAR_VECTOR_Init_def
      sar_ok_Init [unfolded SAR_VECTOR_Init_def] split: if_splits)
  have a: "SAR_VECTOR_Append ?p (session_id ctx) (seq + 1) seg = (?sarv, True)"
    using p(5) by (auto simp: SAR_VECTOR_Append_def IsValidPayload_def Let_def)
  have "sar_ok ?sarv" using sar_ok_Append [OF p(1), of "session_id ctx" "seq + 1" seg] a by simp
  then have "expects ctx (seq + 1) False (pre @ seg) (?e\<lparr>received_payloads := ?sarv\<rparr>)"
    using p by (simp add: expects_def)
  moreover have "HandleSessionContextRecord env handle (Some (agent_endpoint env')) ?c role mrt ms =
      Some (put_session i (\<lambda>_. ?e\<lparr>received_payloads := ?sarv\<rparr>) ms, USP_OK)"
    using assms(3) i payload_of_segment [OF assms(4,5)] a state
      put_session_const [of i "\<lambda>e. (receive_ids ?c e)\<lparr>received_payloads := ?sarv\<rparr>" ms]
    by (simp add: HandleSessionContextRecord_def Let_def c session_of_put)
  moreover have "E2E_CONTEXT_HandleUspRecord env handle rec role mrt ms =
      HandleSessionContextRecord env handle (Some (agent_endpoint env')) ?c role mrt ms"
    using validate_segment [OF assms(1-3)] by (simp add: E2E_CONTEXT_HandleUspRecord_def rec_def context_record_def record_to_def)
  ultimately show ?thesis by auto
qed

lemma contexts_Cons:
  "contexts ctx capacity seq fresh rest = segment_context ctx (seq + 1) (fst (segment_state fresh (length rest \<le> capacity))) (take capacity rest) #
    (if length rest \<le> capacity \<or> capacity = 0 then [] else contexts ctx capacity (seq + 1) False (drop capacity rest))"
  by (subst contexts.simps) (simp add: Let_def)

text \<open>What the handler returns for the whole message is what the last record returns.\<close>

definition after_segments :: "nat \<Rightarrow> ('s \<times> (usp_err + unit)) option \<Rightarrow> ('s \<times> (usp_err + unit) list) option" where
  "after_segments n m = map_option (\<lambda>(ms, r). (ms, replicate n USP_OK @ [r])) m"

lemma after_segments_Cons:
  "0 < n \<Longrightarrow> map_option (\<lambda>(ms, rs). (ms, USP_OK # rs)) (after_segments (n - Suc 0) m) = after_segments n m"
  by (cases n) (auto simp: after_segments_def option.map_comp intro!: option.map_cong)

lemma handle_segments:
  fixes env' :: e2e_env and ep :: cstr
  assumes "expects ctx seq fresh pre (session_of ms i)" "cur_session ms = Some i" "0 < capacity" "rest \<noteq> []" "length rest < 2 ^ 31"
    "\<forall>c\<in>set (contexts ctx capacity seq fresh rest). ids_valid ctx (sequence_id c)"
  shows "\<exists>e. received ctx (seq + of_nat (length (contexts ctx capacity seq fresh rest))) e \<and>
    handle_records env handle role mrt (map (context_record env' ep) (contexts ctx capacity seq fresh rest)) ms =
      after_segments (length (contexts ctx capacity seq fresh rest) - 1)
        (handle (pre @ rest) role (Some (agent_endpoint env')) mrt (put_session i (\<lambda>_. e) ms))"
  using assms
proof (induction ctx capacity seq fresh rest arbitrary: pre ms rule: contexts.induct)
  case (1 ctx capacity seq fresh rest)
  let ?whole = "length rest \<le> capacity"
  let ?c = "segment_context ctx (seq + 1) (fst (segment_state fresh ?whole)) (take capacity rest)"
  let ?cs = "contexts ctx capacity (seq + 1) False (drop capacity rest)"
  have seg: "take capacity rest \<noteq> []" "length (take capacity rest) < 2 ^ 31" using 1(4-6) by (auto simp: min_def)
  have ids: "ids_valid ctx (seq + 1)" using 1(7) by (subst (asm) contexts_Cons) (simp add: segment_context_def)
  show ?case
  proof (cases ?whole)
    case True
    then have cs: "contexts ctx capacity seq fresh rest = [?c]" by (subst contexts_Cons) simp
    obtain e where e: "received ctx (seq + 1) e"
      "E2E_CONTEXT_HandleUspRecord env handle (context_record env' ep ?c) role mrt ms =
        handle (pre @ take capacity rest) role (Some (agent_endpoint env')) mrt (put_session i (\<lambda>_. e) ms)"
      using handle_last_segment [OF 1(2) ids 1(3) seg, of env handle env' ep role mrt] True by auto
    have t: "take capacity rest = rest" using True by simp
    show ?thesis
      by (rule exI [of _ e]) (use e in \<open>simp add: cs t after_segments_def map_option_case split: option.split\<close>)
  next
    case False
    then have cs: "contexts ctx capacity seq fresh rest = ?c # ?cs" using 1(4) by (subst contexts_Cons) simp
    obtain e where e: "expects ctx (seq + 1) False (pre @ take capacity rest) e"
      "E2E_CONTEXT_HandleUspRecord env handle (context_record env' ep ?c) role mrt ms = Some (put_session i (\<lambda>_. e) ms, USP_OK)"
      using handle_middle_segment [OF 1(2) ids 1(3) seg, of env handle env' ep role mrt] False by auto
    let ?ms = "put_session i (\<lambda>_. e) ms"
    have i: "i < length (ctrls ms)" by (rule cur_session_less [OF 1(3)])
    have n: "length ?cs \<noteq> 0" by (subst contexts_Cons) simp
    have nz: "\<not> (?whole \<or> capacity = 0)" using False 1(4) by simp
    have ih: "\<exists>e. received ctx (seq + 1 + of_nat (length ?cs)) e \<and>
        handle_records env handle role mrt (map (context_record env' ep) ?cs) ?ms =
          after_segments (length ?cs - 1)
            (handle ((pre @ take capacity rest) @ drop capacity rest) role (Some (agent_endpoint env')) mrt (put_session i (\<lambda>_. e) ?ms))"
    proof (rule 1(1) [OF refl nz])
      show "expects ctx (seq + 1) False (pre @ take capacity rest) (session_of ?ms i)" using e(1) i by (simp add: session_of_put)
      show "cur_session ?ms = Some i" using i 1(3) by simp
      show "\<forall>c\<in>set ?cs. ids_valid ctx (sequence_id c)" using 1(7) unfolding cs by simp
    qed (use 1(4-6) False in auto)
    obtain e' where e': "received ctx (seq + 1 + of_nat (length ?cs)) e'"
        "handle_records env handle role mrt (map (context_record env' ep) ?cs) ?ms =
          after_segments (length ?cs - 1) (handle (pre @ rest) role (Some (agent_endpoint env')) mrt (put_session i (\<lambda>_. e') ms))"
      using ih by auto
    show ?thesis
      by (rule exI [of _ e']) (use e(2) e' n in \<open>simp add: cs after_segments_Cons algebra_simps\<close>)
  qed
qed

section \<open>Sending a message\<close>

lemma segment_context_ids [simp]:
  "session_id (segment_context ctx seq sar seg) = session_id ctx" "expected_id (segment_context ctx seq sar seg) = expected_id ctx"
  "sequence_id (segment_context ctx seq sar seg) = seq" "payload_sar_state (segment_context ctx seq sar seg) = sar"
  "payloadrec_sar_state (segment_context ctx seq sar seg) = sar" "ctx_payload (segment_context ctx seq sar seg) = [binary_of seg]"
  by (simp_all add: segment_context_def)

lemma contexts_not_Nil [simp]: "contexts ctx capacity seq fresh rest \<noteq> []"
  by (subst contexts_Cons) simp

lemma start_session_fields [simp]:
  "max_record_size (start_session e) = max_record_size e" "received_payloads (start_session e) = received_payloads e"
  "e2e_mode (start_session e) = e2e_mode e"
  by (simp_all add: start_session_def)

lemma unat_of_nat64: "n < 2 ^ 64 \<Longrightarrow> unat (of_nat n :: 64 word) = n"
  by (simp add: unsigned_of_nat take_bit_nat_eq_self)

text \<open>What is sent, as records.\<close>

definition sent_contexts :: "e2e_env \<Rightarrow> cstr \<Rightarrow> e2e_session \<Rightarrow> bytes \<Rightarrow> session_context list" where
  "sent_contexts env ep e msg =
    (let ctx = session_context_of (start_session e)
     in contexts ctx (unat (max_payload_size (context_record env ep ctx) ctx (max_record_size e)))
          (last_sent_sequence_id (start_session e)) True msg)"

lemma QueueUspSessionRecord_sends:
  assumes "E2E_CONTEXT_QueueUspSessionRecord env usi ep mrt cs = Some (cs', USP_OK)" "curr_e2e_session usi = Some i" "i < length (ctrls cs)"
  defines "cxs \<equiv> sent_contexts env ep (session_of cs i) (msg_packed usi)"
  shows "\<exists>items. calls cs' = calls cs @ map Queued items \<and> map (mtp_pbuf \<circ> mq_item) items = map (pack \<circ> context_record env ep) cxs \<and>
    (max_record_size (session_of cs i) = 0 \<or>
      (\<forall>c\<in>set cxs. get_packed_size (context_record env ep c) \<le> max_record_size (session_of cs i))) \<and>
    50 < max_payload_size (context_record env ep (session_context_of (start_session (session_of cs i))))
      (session_context_of (start_session (session_of cs i))) (max_record_size (session_of cs i))"
proof -
  let ?cs1 = "put_session i start_session cs"
  let ?e = "start_session (session_of cs i)"
  let ?capacity = "max_payload_size (context_record env ep (session_context_of ?e)) (session_context_of ?e) (max_record_size (session_of cs i))"
  have s: "session_of ?cs1 i = ?e" using assms(3) by (simp add: session_of_put)
  have c: "50 < ?capacity" and
    q: "queue_segments env i usi ep mrt (session_context_of ?e) (unat ?capacity) True (msg_packed usi) ?cs1 = Some (cs', USP_OK)"
    using assms(1,2) unfolding E2E_CONTEXT_QueueUspSessionRecord_def Let_def
    by (auto simp: s context_record_def split: if_splits)
  have "0 < unat ?capacity" using c by (simp add: word_less_nat_alt)
  from queue_segments_OK [OF q _ this] obtain items where items: "calls cs' = calls cs @ map Queued items"
    "map (mtp_pbuf \<circ> mq_item) items = map (pack \<circ> context_record env ep) cxs"
    "max_record_size (session_of cs i) = 0 \<or>
      (\<forall>c\<in>set cxs. get_packed_size (context_record env ep c) \<le> max_record_size (session_of cs i))"
    using assms(3) by (auto simp: s cxs_def sent_contexts_def Let_def)
  show ?thesis by (rule exI [of _ items]) (intro conjI items c)
qed

lemma contexts_ids:
  "c \<in> set (contexts ctx capacity seq fresh rest) \<Longrightarrow> session_id c = session_id ctx \<and> expected_id c = expected_id ctx"
  using contexts_form by fastforce

text \<open>The SAR states: one segment, or a first one, those in the middle and a last one.\<close>

definition segment_states :: "bool \<Rightarrow> nat \<Rightarrow> 32 word list" where
  "segment_states fresh n =
    (if n = 0 then [if fresh then SARSTATE_NONE else SARSTATE_COMPLETE]
     else (if fresh then SARSTATE_BEGIN else SARSTATE_INPROCESS) # replicate (n - 1) SARSTATE_INPROCESS @ [SARSTATE_COMPLETE])"

lemma contexts_states:
  assumes "0 < capacity"
  shows "map payload_sar_state (contexts ctx capacity seq fresh rest) = segment_states fresh (length (contexts ctx capacity seq fresh rest) - 1)"
  using assms
proof (induction ctx capacity seq fresh rest rule: contexts.induct)
  case (1 ctx capacity seq fresh rest)
  show ?case
  proof (cases "length rest \<le> capacity")
    case True
    then show ?thesis by (subst contexts_Cons, subst (2) contexts_Cons) (simp add: segment_states_def segment_state_def)
  next
    case False
    let ?cs = "contexts ctx capacity (seq + 1) False (drop capacity rest)"
    have n: "0 < length ?cs" by simp
    have "map payload_sar_state ?cs = segment_states False (length ?cs - 1)" using 1 False by simp
    then show ?thesis
      using False 1(2) n
      by (subst contexts_Cons, subst (2) contexts_Cons) (cases "length ?cs", auto simp: segment_states_def segment_state_def gr0_conv_Suc)
  qed
qed

text \<open>
  C21: a message is sent through a session as records that fit the limit of the session: what is handed to MQTT
  is the records packed, in order; the payloads together are the message, the sequence numbers continue
  those of the session, and the SAR states are none for one record, otherwise begin, in process and
  complete.
\<close>

theorem QueueUspSessionRecord_segments:
  assumes "E2E_CONTEXT_QueueUspSessionRecord env usi ep mrt cs = Some (cs', USP_OK)" "curr_e2e_session usi = Some i" "i < length (ctrls cs)"
    "length (msg_packed usi) < 2 ^ 31"
  defines "e \<equiv> start_session (session_of cs i)"
  shows "\<exists>items cxs. calls cs' = calls cs @ map Queued items \<and>
    map (mtp_pbuf \<circ> mq_item) items = map (pack \<circ> context_record env ep) cxs \<and>
    (max_record_size e = 0 \<or> (\<forall>c\<in>set cxs. of_nat (length (pack (context_record env ep c))) \<le> max_record_size e)) \<and>
    concat (map context_data cxs) = msg_packed usi \<and>
    map sequence_id cxs = map (\<lambda>k. last_sent_sequence_id e + 1 + of_nat k) [0..<length cxs] \<and>
    map payload_sar_state cxs = segment_states True (length cxs - 1) \<and>
    (\<forall>c\<in>set cxs. session_id c = current_session_id e \<and> expected_id c = last_recv_sequence_id e + 1)"
proof -
  let ?cxs = "sent_contexts env ep (session_of cs i) (msg_packed usi)"
  let ?capacity = "unat (max_payload_size (context_record env ep (session_context_of e)) (session_context_of e) (max_record_size (session_of cs i)))"
  have cxs: "?cxs = contexts (session_context_of e) ?capacity (last_sent_sequence_id e) True (msg_packed usi)"
    by (simp add: sent_contexts_def Let_def e_def)
  obtain items where items: "calls cs' = calls cs @ map Queued items"
      "map (mtp_pbuf \<circ> mq_item) items = map (pack \<circ> context_record env ep) ?cxs"
      "max_record_size (session_of cs i) = 0 \<or> (\<forall>c\<in>set ?cxs. get_packed_size (context_record env ep c) \<le> max_record_size (session_of cs i))"
    and cap: "0 < ?capacity"
    using QueueUspSessionRecord_sends [OF assms(1-3)] by (auto simp: e_def word_less_nat_alt)
  have len: "of_nat (length (pack (context_record env ep c))) = get_packed_size (context_record env ep c)" if "c \<in> set ?cxs" for c
    using contexts_form [OF that [unfolded cxs]] pack_length context_record_ok by fastforce
  show ?thesis
  proof (intro exI conjI)
    show "calls cs' = calls cs @ map Queued items" "map (mtp_pbuf \<circ> mq_item) items = map (pack \<circ> context_record env ep) ?cxs"
      by (fact items)+
    show "max_record_size e = 0 \<or> (\<forall>c\<in>set ?cxs. of_nat (length (pack (context_record env ep c))) \<le> max_record_size e)"
      using items(3) len by (auto simp: e_def)
    show "concat (map context_data ?cxs) = msg_packed usi" unfolding cxs by (rule contexts_data [OF cap]) (use assms(4) in simp)
    show "map sequence_id ?cxs = map (\<lambda>k. last_sent_sequence_id e + 1 + of_nat k) [0..<length ?cxs]" unfolding cxs by (rule contexts_sequence)
    show "map payload_sar_state ?cxs = segment_states True (length ?cxs - 1)" unfolding cxs by (rule contexts_states [OF cap])
    show "\<forall>c\<in>set ?cxs. session_id c = current_session_id e \<and> expected_id c = last_recv_sequence_id e + 1"
      unfolding cxs using contexts_ids by (auto simp: session_context_of_def)
  qed
qed

text \<open>
  C20: a message sent through a session arrives: where the records are handled in order, by an endpoint whose session
  is not in the middle of another message and has the number of the sender's (or is at its first record),
  nothing is handled before the last record, and then the message of the sender, once.
\<close>

theorem session_message_delivered:
  assumes "E2E_CONTEXT_QueueUspSessionRecord env usi ep mrt cs = Some (cs', USP_OK)" "curr_e2e_session usi = Some i" "i < length (ctrls cs)"
    and msg: "msg_packed usi \<noteq> []" "length (msg_packed usi) < 2 ^ 31"
    and mine: "e = start_session (session_of cs i)" "cxs = sent_contexts env ep (session_of cs i) (msg_packed usi)"
      "IsValidSessionId (current_session_id e)" "last_recv_sequence_id e + 1 \<noteq> 0" "unat (last_sent_sequence_id e) + length cxs < 2 ^ 64"
    and theirs: "cur_session ms = Some j" "e2e_mode (session_of ms j) \<noteq> kE2EMode_Forbid" "received_payloads (session_of ms j) = SAR_VECTOR_Init"
      "current_session_id (session_of ms j) = current_session_id e \<or> last_sent_sequence_id e = 0"
  shows "\<exists>items e'. calls cs' = calls cs @ map Queued items \<and>
    map (mtp_pbuf \<circ> mq_item) items = map pack (map (context_record env ep) cxs) \<and>
    received (session_context_of e) (last_sent_sequence_id e + of_nat (length cxs)) e' \<and>
    handle_records env' handle role mrt' (map (context_record env ep) cxs) ms =
      after_segments (length cxs - 1)
        (handle (msg_packed usi) role (Some (agent_endpoint env)) mrt' (put_session j (\<lambda>_. e') ms))"
proof -
  let ?ctx = "session_context_of e"
  let ?capacity = "unat (max_payload_size (context_record env ep ?ctx) ?ctx (max_record_size (session_of cs i)))"
  have cxs: "cxs = contexts ?ctx ?capacity (last_sent_sequence_id e) True (msg_packed usi)"
    by (simp add: sent_contexts_def Let_def mine(1,2))
  obtain items where items: "calls cs' = calls cs @ map Queued items"
      "map (mtp_pbuf \<circ> mq_item) items = map (pack \<circ> context_record env ep) cxs"
    and cap: "0 < ?capacity"
    using QueueUspSessionRecord_sends [OF assms(1-3)] by (auto simp: mine(1,2) word_less_nat_alt)
  have start: "expects ?ctx (last_sent_sequence_id e) True [] (session_of ms j)"
    using theirs by (auto simp: expects_def session_context_of_def)
  have "sequence_id c \<noteq> 0" if "c \<in> set cxs" for c
  proof -
    obtain k where k: "k < length cxs" "c = cxs ! k" using \<open>c \<in> set cxs\<close> by (auto simp: in_set_conv_nth)
    have "map sequence_id cxs ! k = last_sent_sequence_id e + 1 + of_nat k"
      using k(1) contexts_sequence [of ?ctx ?capacity "last_sent_sequence_id e" True "msg_packed usi"] by (simp flip: cxs)
    then have "sequence_id c = of_nat (unat (last_sent_sequence_id e) + Suc k)" using k by (simp add: algebra_simps)
    moreover have "unat (of_nat (unat (last_sent_sequence_id e) + Suc k) :: 64 word) = unat (last_sent_sequence_id e) + Suc k"
      by (rule unat_of_nat64) (use mine(5) k(1) in simp)
    ultimately show ?thesis by auto
  qed
  then have "\<forall>c\<in>set (contexts ?ctx ?capacity (last_sent_sequence_id e) True (msg_packed usi)). ids_valid ?ctx (sequence_id c)"
    using mine(3,4) unfolding cxs [symmetric] by (simp add: ids_valid_def session_context_of_def)
  from handle_segments [OF start theirs(1) cap msg this, of env' handle role mrt' env ep]
  show ?thesis using items unfolding cxs by auto
qed

section \<open>Sending succeeds\<close>

lemma endpoint_found_put [simp]:
  assumes "i < length (ctrls cs)"
  shows "FindEnabledControllerByEndpointId (ctrls (put_session i f cs)) ep = FindEnabledControllerByEndpointId (ctrls cs) ep"
  unfolding FindEnabledControllerByEndpointId_def put_session_def upd_ctrl_def
  by (simp add: first_index_update upd_session_def)

text \<open>A reply goes through MQTT, which takes every message.\<close>

definition replies_taken :: "cont_env \<Rightarrow> mtp_reply_to \<Rightarrow> bool" where
  "replies_taken env mrt \<longleftrightarrow> is_reply_to_specified mrt \<and> reply_protocol mrt = kMtpProtocol_MQTT \<and>
    (\<forall>cs item. mqtt_accepts env cs item = Inr ())"

lemma queue_taken:
  assumes "replies_taken env mrt" "FindEnabledControllerByEndpointId (ctrls cs) ep \<noteq> INVALID"
  obtains item where "DEVICE_CONTROLLER_QueueBinaryMessage env cs msi ep mrt = Some (note_call (Queued item) cs, USP_OK)"
  using assms by (simp add: replies_taken_def DEVICE_CONTROLLER_QueueBinaryMessage_def QueueBinaryMessageOnMtp_def queue_mqtt_def Let_def)

lemma queue_segment_succeeds:
  assumes "replies_taken (ee_cont env) mrt" "FindEnabledControllerByEndpointId (ctrls cs) ep \<noteq> INVALID" "i < length (ctrls cs)"
    "max_record_size (session_of cs i) = 0 \<or> get_packed_size (context_record env ep
      (segment_context ctx (last_sent_sequence_id (session_of cs i) + 1) (fst (segment_state fresh whole)) seg)) \<le> max_record_size (session_of cs i)"
  shows "\<exists>cs1. queue_segment env i usi ep mrt ctx fresh whole seg cs = Some (cs1, USP_OK) \<and>
    FindEnabledControllerByEndpointId (ctrls cs1) ep \<noteq> INVALID"
proof -
  obtain sar content where s: "segment_state fresh whole = (sar, content)" by fastforce
  let ?cs1 = "put_session i (\<lambda>e. e\<lparr>last_sent_sequence_id := last_sent_sequence_id e + 1\<rparr>) cs"
  let ?rec = "context_record env ep (segment_context ctx (last_sent_sequence_id (session_of cs i) + 1) sar seg)"
  let ?item = "\<lparr>content_type = content, usp_msg_type = usi_msg_type usi, mtp_pbuf = pack ?rec\<rparr>"
  have e: "session_of ?cs1 i = (session_of cs i)\<lparr>last_sent_sequence_id := last_sent_sequence_id (session_of cs i) + 1\<rparr>"
    using assms(3) by (simp add: session_of_put)
  have p: "packed_item content (usi_msg_type usi) ?rec = Some ?item" by (rule packed_item_Some [OF context_record_ok])
  have l: "of_nat (length (pack ?rec)) = get_packed_size ?rec" by (rule pack_length [OF context_record_ok])
  have f: "FindEnabledControllerByEndpointId (ctrls ?cs1) ep \<noteq> INVALID" using assms(2,3) by simp
  obtain item where "DEVICE_CONTROLLER_QueueBinaryMessage (ee_cont env) ?cs1 ?item ep mrt = Some (note_call (Queued item) ?cs1, USP_OK)"
    using queue_taken [OF assms(1) f] .
  then show ?thesis
    using assms(3,4) f p l unfolding queue_segment_def s Let_def
    by (auto simp: e s context_record_def word_gt_0 not_less)
qed

lemma queue_segments_succeeds:
  assumes "replies_taken (ee_cont env) mrt" "FindEnabledControllerByEndpointId (ctrls cs) ep \<noteq> INVALID" "i < length (ctrls cs)" "0 < capacity"
    "max_record_size (session_of cs i) = 0 \<or> (\<forall>c\<in>set (contexts ctx capacity (last_sent_sequence_id (session_of cs i)) fresh rest).
      get_packed_size (context_record env ep c) \<le> max_record_size (session_of cs i))"
  shows "\<exists>cs'. queue_segments env i usi ep mrt ctx capacity fresh rest cs = Some (cs', USP_OK)"
  using assms
proof (induction env i usi ep mrt ctx capacity fresh rest cs rule: queue_segments.induct)
  case (1 env i usi ep mrt ctx capacity fresh rest cs)
  let ?seq = "last_sent_sequence_id (session_of cs i)"
  let ?whole = "length rest \<le> capacity"
  have w: "(length rest \<le> length (take capacity rest)) = ?whole" by auto
  have "max_record_size (session_of cs i) = 0 \<or> get_packed_size (context_record env ep
      (segment_context ctx (?seq + 1) (fst (segment_state fresh ?whole)) (take capacity rest))) \<le> max_record_size (session_of cs i)"
    using 1(6) by (subst (asm) contexts_Cons) auto
  from queue_segment_succeeds [OF 1(2-4) this, of usi] obtain cs1
    where q: "queue_segment env i usi ep mrt ctx fresh ?whole (take capacity rest) cs = Some (cs1, USP_OK)"
      "FindEnabledControllerByEndpointId (ctrls cs1) ep \<noteq> INVALID" by blast
  show ?case
  proof (cases ?whole)
    case True
    then show ?thesis using q(1) 1(5) by (subst queue_segments.simps) (simp add: Let_def)
  next
    case False
    have l: "length (ctrls cs1) = length (ctrls cs)" "session_of cs1 i = (session_of cs i)\<lparr>last_sent_sequence_id := ?seq + 1\<rparr>"
      using queue_segment_OK [OF q(1) 1(4)] by blast+
    have c: "contexts ctx capacity ?seq fresh rest = segment_context ctx (?seq + 1) (fst (segment_state fresh ?whole)) (take capacity rest) #
        contexts ctx capacity (?seq + 1) False (drop capacity rest)"
      using False 1(5) by (subst contexts_Cons) simp
    have "\<exists>cs'. queue_segments env i usi ep mrt ctx capacity False (drop capacity rest) cs1 = Some (cs', USP_OK)"
    proof (rule 1(1) [OF refl refl])
      show "queue_segment env i usi ep mrt ctx fresh (length rest \<le> length (take capacity rest)) (take capacity rest) cs = Some (cs1, USP_OK)"
        unfolding w by (rule q(1))
      show "max_record_size (session_of cs1 i) = 0 \<or> (\<forall>c\<in>set (contexts ctx capacity (last_sent_sequence_id (session_of cs1 i)) False (drop capacity rest)).
          get_packed_size (context_record env ep c) \<le> max_record_size (session_of cs1 i))"
        using 1(6) unfolding c l(2) by auto
    qed (use 1(2-5) False l q(2) in auto)
    then show ?thesis using q(1) False 1(5) by (subst queue_segments.simps) (simp add: Let_def w)
  qed
qed

lemma session_message_taken:
  assumes "curr_e2e_session usi = Some i" "i < length (ctrls cs)" "FindEnabledControllerByEndpointId (ctrls cs) ep \<noteq> INVALID"
    "replies_taken (ee_cont env) mrt"
    "max_record_size (session_of cs i) = 0 \<or>
      length ep + length (agent_endpoint env) + 117 \<le> unat (max_record_size (session_of cs i)) \<and> unat (max_record_size (session_of cs i)) < 2 ^ 31"
  shows "\<exists>cs'. E2E_CONTEXT_QueueUspSessionRecord env usi ep mrt cs = Some (cs', USP_OK)"
proof -
  let ?cs1 = "put_session i start_session cs"
  let ?e = "start_session (session_of cs i)"
  let ?ctx = "session_context_of ?e" and ?max = "max_record_size (session_of cs i)"
  let ?rec = "context_record env ep ?ctx"
  let ?capacity = "max_payload_size ?rec ?ctx ?max"
  have s: "session_of ?cs1 i = ?e" using assms(2) by (simp add: session_of_put)
  have r: "retransmit_id ?ctx = 0" by (simp add: session_context_of_def)
  have c: "50 < ?capacity \<and> (?max = 0 \<or> (\<forall>c\<in>set (contexts ?ctx (unat ?capacity) (last_sent_sequence_id ?e) True (msg_packed usi)).
      get_packed_size (context_record env ep c) \<le> ?max))"
  proof (cases "?max = 0")
    case True
    then show ?thesis by (simp add: max_payload_size_def)
  next
    case False
    then have room: "length ep + length (agent_endpoint env) + 117 \<le> unat ?max" "unat ?max < 2 ^ 31" using assms(5) by auto
    have m: "?capacity = ComputePayloadCapacity ?rec ?ctx ?max" using False by (simp add: max_payload_size_def word_gt_0)
    have "get_packed_size (context_record env ep c) \<le> ?max"
      if "c \<in> set (contexts ?ctx (unat ?capacity) (last_sent_sequence_id ?e) True (msg_packed usi))" for c
    proof -
      have l: "length (pack (context_record env ep c)) \<le> unat ?max"
        using segments_size(2) [OF room r] that unfolding m by blast
      have "get_packed_size (context_record env ep c) = of_nat (length (pack (context_record env ep c)))"
        using contexts_form [OF that] pack_length context_record_ok by fastforce
      then show ?thesis using l room(2) by (simp add: word_le_nat_alt unat_of_nat32)
    qed
    then show ?thesis using segments_size(1) [OF room r] m by simp
  qed
  have "\<exists>cs'. queue_segments env i usi ep mrt ?ctx (unat ?capacity) True (msg_packed usi) ?cs1 = Some (cs', USP_OK)"
    using c assms(2-4) by (intro queue_segments_succeeds) (auto simp: s word_less_nat_alt)
  then show ?thesis
    using assms(1) c unfolding E2E_CONTEXT_QueueUspSessionRecord_def Let_def by (simp add: s context_record_def)
qed


section \<open>Modes\<close>


section \<open>A malformed record\<close>

lemma ctrls_after_queue:
  "DEVICE_CONTROLLER_QueueBinaryMessage env cs msi ep mrt = Some (cs', r) \<Longrightarrow> ctrls cs' = ctrls cs"
  using QueueBinaryMessage_cases by fastforce

lemma disconnect_keeps_table:
  "MSG_HANDLER_QueueUspDisconnectRecord env content ep code reason mrt cs = Some (cs', r) \<Longrightarrow> ctrls cs' = ctrls cs"
  unfolding MSG_HANDLER_QueueUspDisconnectRecord_def by (auto dest: ctrls_after_queue split: option.splits)

lemma restart_without_session_fails:
  assumes "cur_session ms = Some i" "mode_buffered (session_of ms i) \<noteq> kE2EMode_Require"
  shows "after_event env kE2EEvent_Restart r ms = None"
proof -
  let ?n = "MSG_HANDLER_GetMsgControllerInstance ms"
  let ?ms1 = "put_session i (\<lambda>e. e\<lparr>e2e_mode := mode_buffered e\<rparr>) ms"
  let ?ms2 = "put_session i ClearE2eSessionState ?ms1"
  have i: "i < length (ctrls ms)" by (rule cur_session_less [OF assms(1)])
  have "DEVICE_CONTROLLER_FindE2ESessionByInstance (ctrls ms) ?n = Some i" using assms(1) by (simp add: cur_session_def)
  moreover from this obtain dest where "DEVICE_CONTROLLER_FindEndpointIdByInstance (ctrls ?ms1) ?n = Some dest"
    using i by (auto simp: DEVICE_CONTROLLER_FindE2ESessionByInstance_def DEVICE_CONTROLLER_FindEndpointIdByInstance_def)
  moreover have est: "send_establishment env kE2EEvent_Restart i dest ms3 = None"
    if "send_termination env kE2EEvent_Restart dest ?ms2 = Some ms3" for ms3
  proof -
    have "ctrls ms3 = ctrls ?ms2" using that disconnect_keeps_table by (auto simp: send_termination_def)
    then have "session_of ms3 i = ClearE2eSessionState ((session_of ms i)\<lparr>e2e_mode := mode_buffered (session_of ms i)\<rparr>)"
      using i session_of_put [OF i, of _ i] by (simp add: session_of_def)
    then have "\<not> E2E_CONTEXT_IsToSendThroughSessionContext (Some (session_of ms3 i))"
      using assms(2) by (simp add: E2E_CONTEXT_IsToSendThroughSessionContext_def ClearE2eSessionState_def)
    then show ?thesis by (simp add: send_establishment_def MSG_HANDLER_QueueUspRecord_def QueueUspNoSessionRecord_def)
  qed
  moreover have "Option.bind (send_termination env kE2EEvent_Restart dest ?ms2) (send_establishment env kE2EEvent_Restart i dest) = None"
    using est by (cases "send_termination env kE2EEvent_Restart dest ?ms2") auto
  ultimately show ?thesis
    unfolding after_event_def E2E_CONTEXT_E2eSessionEvent_def Let_def by simp
qed

text \<open>
  C40: a record of a session whose two SAR states differ, or that does not have one payload, restarts the session
  whatever its mode. Where the mode is not the one that requires sessions, the empty record that establishes
  the session is queued as a plain one, whose assertion of a message that is not empty fails: the sender
  terminates the agent with one record.
\<close>

theorem malformed_session_record_terminates:
  assumes "cur_session ms = Some i" "mode_buffered (session_of ms i) \<noteq> kE2EMode_Require"
    "payloadrec_sar_state ctx \<noteq> payload_sar_state ctx \<or> length (ctx_payload ctx) \<noteq> 1"
  shows "E2E_CONTEXT_ValidateSessionContextRecord env (Some ctx) ms = None"
  using assms(3) restart_without_session_fails [OF assms(1,2)]
  by (auto simp: E2E_CONTEXT_ValidateSessionContextRecord_def)

section \<open>Examples\<close>

definition demo_session :: e2e_session where
  "demo_session = zero_session\<lparr>current_session_id := 7, max_record_size := 200\<rparr>"

definition session_ms :: "e2e_session \<Rightarrow> msg_state" where
  "session_ms e = \<lparr>timers = [], first_sync_timer_time = 0,
     ctrls = [zero_controller\<lparr>cont_instance := 1, cont_enable := True, endpoint_id := ''a'', cont_session := e\<rparr>],
     first_periodic_notification_time = 0, cont_seed = 0, calls = [], cur_msg_controller_instance = 1,
     cur_msg_combined_role = \<lparr>inherited = 0, assigned = 1\<rparr>, cur_msg_endpoint = None\<rparr>"

definition session_env :: e2e_env where
  "session_env = \<lparr>ee_cont = free_env 0, agent_endpoint = ''me'', err_text = (\<lambda>_. ''E'')\<rparr>"

definition mqtt_reply :: mtp_reply_to where
  "mqtt_reply = no_reply_to\<lparr>is_reply_to_specified := True, reply_protocol := kMtpProtocol_MQTT\<rparr>"

definition long_item :: usp_send_item where
  "long_item = \<lparr>usi_msg_type = 1, msg_packed = replicate 300 65, curr_e2e_session = Some 0\<rparr>"

lemma session_ms_facts:
  "session_of (session_ms e) 0 = e" "0 < length (ctrls (session_ms e))" "cur_session (session_ms e) = Some 0"
  "FindEnabledControllerByEndpointId (ctrls (session_ms e)) ''a'' \<noteq> INVALID" "calls (session_ms e) = []"
  by (simp_all add: session_ms_def session_of_def cur_session_def MSG_HANDLER_GetMsgControllerInstance_def
    DEVICE_CONTROLLER_FindE2ESessionByInstance_def enabled_instance_def FindControllerByInstance_def
    FindEnabledControllerByEndpointId_def zero_controller_def first_index_Cons)

lemma demo_session_facts:
  "start_session demo_session = demo_session" "current_session_id demo_session = 7" "last_sent_sequence_id demo_session = 0"
  "last_recv_sequence_id demo_session = 0" "max_record_size demo_session = 200" "received_payloads demo_session = SAR_VECTOR_Init"
  "e2e_mode demo_session = kE2EMode_Require"
  by (simp_all add: demo_session_def zero_session_def start_session_def)

lemma mqtt_reply_taken: "replies_taken (ee_cont session_env) mqtt_reply"
  by (simp add: replies_taken_def mqtt_reply_def session_env_def free_env_def)


lemma long_item_sent:
  obtains cs' where "E2E_CONTEXT_QueueUspSessionRecord session_env long_item ''a'' mqtt_reply (session_ms demo_session) = Some (cs', USP_OK)"
  using session_message_taken [of long_item 0 "session_ms demo_session" "''a''" session_env mqtt_reply] mqtt_reply_taken session_ms_facts(2,4)
  by (auto simp: session_ms_facts(1) demo_session_facts long_item_def session_env_def)

lemma contexts_length: "0 < capacity \<Longrightarrow> length (contexts ctx capacity seq fresh rest) \<le> Suc (length rest)"
proof (induction ctx capacity seq fresh rest rule: contexts.induct)
  case (1 ctx capacity seq fresh rest)
  show ?case
  proof (cases "length rest \<le> capacity")
    case True
    then show ?thesis by (subst contexts_Cons) simp
  next
    case False
    then have "length (contexts ctx capacity (seq + 1) False (drop capacity rest)) \<le> Suc (length rest - capacity)"
      using 1 by simp
    then show ?thesis using False 1(2) by (subst contexts_Cons) simp
  qed
qed

theorem QueueUspSessionRecord_segments_witness:
  "\<exists>cs' items cxs. E2E_CONTEXT_QueueUspSessionRecord session_env long_item ''a'' mqtt_reply (session_ms demo_session) = Some (cs', USP_OK) \<and>
    calls cs' = map Queued items \<and> length items = length cxs \<and> concat (map context_data cxs) = replicate 300 65"
proof -
  obtain cs' where q: "E2E_CONTEXT_QueueUspSessionRecord session_env long_item ''a'' mqtt_reply (session_ms demo_session) = Some (cs', USP_OK)"
    by (rule long_item_sent)
  have "curr_e2e_session long_item = Some 0" "length (msg_packed long_item) < 2 ^ 31" by (simp_all add: long_item_def)
  from QueueUspSessionRecord_segments [OF q this(1) session_ms_facts(2) this(2)] obtain items cxs
    where r: "calls cs' = calls (session_ms demo_session) @ map Queued items"
      "map (mtp_pbuf \<circ> mq_item) items = map (pack \<circ> context_record session_env ''a'') cxs" "concat (map context_data cxs) = msg_packed long_item"
    by blast
  then have "length items = length cxs" by (metis length_map)
  then show ?thesis using q r by (intro exI [of _ cs'] exI [of _ items] exI [of _ cxs]) (simp add: session_ms_facts long_item_def)
qed

theorem session_message_delivered_witness:
  "\<exists>cs' cxs e'. E2E_CONTEXT_QueueUspSessionRecord session_env long_item ''a'' mqtt_reply (session_ms demo_session) = Some (cs', USP_OK) \<and>
    handle_records session_env (\<lambda>bs role from mrt ms. Some (note_call Activate_Scheduled_Actions ms, USP_OK)) 0 mqtt_reply
        (map (context_record session_env ''a'') cxs) (session_ms demo_session) =
      Some (note_call Activate_Scheduled_Actions (put_session 0 (\<lambda>_. e') (session_ms demo_session)), replicate (length cxs - 1) USP_OK @ [USP_OK])"
proof -
  let ?handle = "\<lambda>(bs :: bytes) (role :: nat) (from :: cstr option) (mrt :: mtp_reply_to) (ms :: msg_state).
    Some (note_call Activate_Scheduled_Actions ms, USP_OK)"
  define cxs where "cxs = sent_contexts session_env ''a'' (session_of (session_ms demo_session) 0) (msg_packed long_item)"
  obtain cs' where q: "E2E_CONTEXT_QueueUspSessionRecord session_env long_item ''a'' mqtt_reply (session_ms demo_session) = Some (cs', USP_OK)"
    by (rule long_item_sent)
  have item: "curr_e2e_session long_item = Some 0" "msg_packed long_item \<noteq> []" "length (msg_packed long_item) < 2 ^ 31"
    by (simp_all add: long_item_def)
  have e: "demo_session = start_session (session_of (session_ms demo_session) 0)" by (simp add: session_ms_facts demo_session_facts)
  let ?ctx = "session_context_of demo_session"
  have "50 < max_payload_size (context_record session_env ''a'' ?ctx) ?ctx 200"
    using QueueUspSessionRecord_sends [OF q item(1) session_ms_facts(2)] by (auto simp: session_ms_facts(1) demo_session_facts)
  then have "0 < unat (max_payload_size (context_record session_env ''a'' ?ctx) ?ctx 200)" by (simp add: word_less_nat_alt)
  from contexts_length [OF this, of ?ctx 0 True "msg_packed long_item"] have "length cxs \<le> Suc 300"
    by (simp add: cxs_def sent_contexts_def Let_def session_ms_facts(1) demo_session_facts) (simp add: long_item_def)
  then have n: "unat (last_sent_sequence_id demo_session) + length cxs < 2 ^ 64" by (simp add: demo_session_facts)
  have v: "IsValidSessionId (current_session_id demo_session)" "last_recv_sequence_id demo_session + 1 \<noteq> 0"
    by (simp_all add: IsValidSessionId_def E2E_FIRST_VALID_SESS_ID_def demo_session_facts)
  have "e2e_mode (session_of (session_ms demo_session) 0) \<noteq> kE2EMode_Forbid" "received_payloads (session_of (session_ms demo_session) 0) = SAR_VECTOR_Init"
    "current_session_id (session_of (session_ms demo_session) 0) = current_session_id demo_session \<or> last_sent_sequence_id demo_session = 0"
    by (simp_all add: session_ms_facts demo_session_facts)
  from session_message_delivered [OF q item(1) session_ms_facts(2) item(2,3) e cxs_def v n session_ms_facts(3) this,
      of session_env ?handle 0 mqtt_reply]
  show ?thesis using q by (auto simp: after_segments_def)
qed


theorem malformed_session_record_terminates_witness:
  "E2E_CONTEXT_ValidateSessionContextRecord session_env (Some SESSION_CONTEXT_RECORD_INIT)
    (session_ms (demo_session\<lparr>mode_buffered := kE2EMode_Allow\<rparr>)) = None"
  by (rule malformed_session_record_terminates [OF session_ms_facts(3)]) (simp_all add: session_ms_facts SESSION_CONTEXT_RECORD_INIT_def)

end
