(* ===== verification/Group_Set.thy ===== *)
theory Group_Set
  imports Agent_Steps
begin

text \<open>
  Setting many parameters at once (\<open>core/group_set_vector.c\<close>): a vector of the parameters to set, in
  which those that the role may not write are marked with an error when they are added. Parameters of
  no group are set one by one in the data model, the others with one call of their group's callback
  for the required and one for the other parameters. Setting stops at the first required parameter
  that fails. The texts of error messages are not modelled; an entry has one exactly when it has an
  error code.
\<close>

section \<open>State\<close>

record group_set_entry =
  gs_path :: cstr
  gs_group :: int
  gs_types :: "32 word"
  gs_value :: cstr
  gs_required :: bool
  gs_err :: "usp_err option"

type_synonym group_set_vector = "group_set_entry list"

definition PERMIT_SET :: "16 word" where "PERMIT_SET = 0x0002"

definition GROUP_SET_VECTOR_Init :: group_set_vector where "GROUP_SET_VECTOR_Init = []"
definition GROUP_SET_VECTOR_Destroy :: "group_set_vector \<Rightarrow> group_set_vector" where "GROUP_SET_VECTOR_Destroy gsv = []"

section \<open>Adding\<close>

definition set_verdict :: "path_properties \<Rightarrow> usp_err option" where
  "set_verdict pp =
    (if pp_flags pp AND PP_EXISTS_IN_SCHEMA = 0 then Some USP_ERR_UNSUPPORTED_PARAM
     else if pp_flags pp AND PP_IS_WRITABLE = 0 then Some USP_ERR_PARAM_READ_ONLY
     else if pp_permissions pp AND PERMIT_SET = 0 then Some USP_ERR_PERMISSION_DENIED
     else None)"

text \<open>The type of a parameter that the schema does not have stays uninitialised; it is never read.\<close>

definition GROUP_SET_VECTOR_Add ::
    "hooks \<Rightarrow> agent \<Rightarrow> group_set_vector \<Rightarrow> cstr \<Rightarrow> cstr \<Rightarrow> bool \<Rightarrow> combined_role option \<Rightarrow> (agent \<times> group_set_vector) option" where
  "GROUP_SET_VECTOR_Add h ag gsv path v is_required role =
    (case DATA_MODEL_GetPathProperties h ag path role of
       None \<Rightarrow> None
     | Some (ag1, pp) \<Rightarrow> Some (ag1, gsv @
         [\<lparr>gs_path = path,
           gs_group = (if DM_PRIV_GetNodeFromPath (dm ag) path True True = None then NON_GROUPED else pp_group pp),
           gs_types = pp_type_flags pp, gs_value = v, gs_required = is_required, gs_err = set_verdict pp\<rparr>]))"

section \<open>Setting\<close>

definition failed_required :: "group_set_entry \<Rightarrow> bool" where
  "failed_required gse \<longleftrightarrow> gs_err gse \<noteq> None \<and> gs_required gse"

definition GROUP_SET_VECTOR_GetFailureIndex :: "group_set_vector \<Rightarrow> nat \<Rightarrow> nat \<Rightarrow> int" where
  "GROUP_SET_VECTOR_GetFailureIndex gsv index num_entries =
    (let i = first_index failed_required (take num_entries (drop index gsv))
     in if i = INVALID then INVALID else int index + i)"

definition valid_group :: "int \<Rightarrow> bool" where
  "valid_group g \<longleftrightarrow> 0 \<le> g \<and> g < int MAX_VENDOR_PARAM_GROUPS"

definition note_error :: "usp_err + 'a \<Rightarrow> group_set_entry \<Rightarrow> group_set_entry" where
  "note_error r gse = (case r of Inl e \<Rightarrow> gse\<lparr>gs_err := Some e\<rparr> | Inr _ \<Rightarrow> gse)"

text \<open>The first loop; the flag says that a required parameter has failed.\<close>

fun set_ungrouped :: "hooks \<Rightarrow> agent \<Rightarrow> group_set_vector \<Rightarrow> (agent \<times> group_set_vector \<times> bool) option" where
  "set_ungrouped h ag [] = Some (ag, [], False)"
| "set_ungrouped h ag (gse # gses) =
    (if gs_err gse \<noteq> None then map_option (\<lambda>(ag1, gses1, stop). (ag1, gse # gses1, stop)) (set_ungrouped h ag gses)
     else if gs_group gse = NON_GROUPED then
       (case DATA_MODEL_SetParameterValue h ag (gs_path gse) (gs_value gse) CHECK_WRITABLE of
          None \<Rightarrow> None
        | Some (ag1, r) \<Rightarrow>
            if failed_required (note_error r gse) then Some (ag1, note_error r gse # gses, True)
            else map_option (\<lambda>(ag2, gses1, stop). (ag2, note_error r gse # gses1, stop)) (set_ungrouped h ag1 gses))
     else if valid_group (gs_group gse)
     then map_option (\<lambda>(ag1, gses1, stop). (ag1, gse # gses1, stop)) (set_ungrouped h ag gses)
     else None)"

definition mark_all :: "group_set_vector \<Rightarrow> nat list \<Rightarrow> usp_err \<Rightarrow> group_set_vector" where
  "mark_all gsv iv err = fold (\<lambda>i g. g[i := (g ! i)\<lparr>gs_err := Some err\<rparr>]) iv gsv"

text \<open>\<open>None\<close>: the callback gives a negative index other than INVALID.\<close>

definition SetParameterGroup ::
    "hooks \<Rightarrow> int \<Rightarrow> group_set_vector \<Rightarrow> nat list \<Rightarrow> bool \<Rightarrow> (group_set_vector \<times> (usp_err + unit)) option" where
  "SetParameterGroup h gid gsv iv is_required =
    (case set_group_hook h gid of
       None \<Rightarrow> Some (mark_all gsv iv USP_ERR_INTERNAL_ERROR, Inl USP_ERR_INTERNAL_ERROR)
     | Some set_group_cb \<Rightarrow>
        (case set_group_cb (map (\<lambda>i. (gs_path (gsv ! i), gs_value (gsv ! i), gs_types (gsv ! i))) iv) of
           Inr _ \<Rightarrow> Some (gsv, USP_OK)
         | Inl (err, failure_index) \<Rightarrow>
             if failure_index = INVALID \<or> int (length iv) \<le> failure_index then Some (mark_all gsv iv err, Inl err)
             else if failure_index < 0 then None
             else Some (mark_all gsv (if is_required then [iv ! nat failure_index] else iv) err, Inl err)))"

definition set_indexes :: "group_set_vector \<Rightarrow> int \<Rightarrow> bool \<Rightarrow> nat list" where
  "set_indexes gsv g is_required =
    filter (\<lambda>i. gs_err (gsv ! i) = None \<and> gs_group (gsv ! i) = g \<and> gs_required (gsv ! i) = is_required) [0..<length gsv]"

text \<open>One group; the flag as above. The index vectors have been made before any group is set.\<close>

definition set_group :: "hooks \<Rightarrow> group_set_vector \<Rightarrow> int \<Rightarrow> group_set_vector \<Rightarrow> (group_set_vector \<times> bool) option" where
  "set_group h gsv0 g gsv =
    (let required_indexes = set_indexes gsv0 g True; non_required_indexes = set_indexes gsv0 g False
     in case (if required_indexes = [] then Some (gsv, USP_OK) else SetParameterGroup h g gsv required_indexes True) of
          None \<Rightarrow> None
        | Some (gsv1, Inl _) \<Rightarrow> Some (gsv1, True)
        | Some (gsv1, Inr _) \<Rightarrow>
            if non_required_indexes = [] then Some (gsv1, False)
            else map_option (\<lambda>(gsv2, _). (gsv2, False)) (SetParameterGroup h g gsv1 non_required_indexes False))"

fun set_groups :: "hooks \<Rightarrow> group_set_vector \<Rightarrow> int list \<Rightarrow> group_set_vector \<Rightarrow> group_set_vector option" where
  "set_groups h gsv0 [] gsv = Some gsv"
| "set_groups h gsv0 (g # gs) gsv =
    (case set_group h gsv0 g gsv of
       None \<Rightarrow> None
     | Some (gsv1, stop) \<Rightarrow> if stop then Some gsv1 else set_groups h gsv0 gs gsv1)"

definition set_values :: "hooks \<Rightarrow> agent \<Rightarrow> group_set_vector \<Rightarrow> (agent \<times> group_set_vector) option" where
  "set_values h ag gses =
    (case set_ungrouped h ag gses of
       None \<Rightarrow> None
     | Some (ag1, gses1, stop) \<Rightarrow>
         if stop then Some (ag1, gses1)
         else map_option (\<lambda>gses2. (ag1, gses2)) (set_groups h gses1 (map int [0..<MAX_VENDOR_PARAM_GROUPS]) gses1))"

text \<open>The entries from \<open>index\<close> on; the others stay as they are.\<close>

definition on_entries ::
    "(group_set_vector \<Rightarrow> (agent \<times> group_set_vector) option) \<Rightarrow> group_set_vector \<Rightarrow> nat \<Rightarrow> nat \<Rightarrow> (agent \<times> group_set_vector) option" where
  "on_entries f gsv index num_entries =
    map_option (\<lambda>(ag1, gses). (ag1, take index gsv @ gses @ drop (index + num_entries) gsv))
      (f (take num_entries (drop index gsv)))"

definition GROUP_SET_VECTOR_SetValues ::
    "hooks \<Rightarrow> agent \<Rightarrow> group_set_vector \<Rightarrow> nat \<Rightarrow> nat \<Rightarrow> (agent \<times> group_set_vector) option" where
  "GROUP_SET_VECTOR_SetValues h ag gsv index num_entries =
    (if GROUP_SET_VECTOR_GetFailureIndex gsv index num_entries \<noteq> INVALID then Some (ag, gsv)
     else on_entries (set_values h ag) gsv index num_entries)"

text \<open>The alternative the code can be built with: every parameter on its own.\<close>

definition set_individually :: "hooks \<Rightarrow> agent \<Rightarrow> group_set_entry \<Rightarrow> (agent \<times> (usp_err + unit)) option" where
  "set_individually h ag gse =
    (if gs_group gse = NON_GROUPED then DATA_MODEL_SetParameterValue h ag (gs_path gse) (gs_value gse) CHECK_WRITABLE
     else if valid_group (gs_group gse) then
       Some (ag, case set_group_hook h (gs_group gse) of
           None \<Rightarrow> Inl USP_ERR_INTERNAL_ERROR
         | Some cb \<Rightarrow> (case cb [(gs_path gse, gs_value gse, gs_types gse)] of Inl (e, _) \<Rightarrow> Inl e | Inr _ \<Rightarrow> USP_OK))
     else None)"

fun set_each :: "hooks \<Rightarrow> agent \<Rightarrow> group_set_vector \<Rightarrow> (agent \<times> group_set_vector) option" where
  "set_each h ag [] = Some (ag, [])"
| "set_each h ag (gse # gses) =
    (if gs_err gse \<noteq> None then map_option (\<lambda>(ag1, gses1). (ag1, gse # gses1)) (set_each h ag gses)
     else case set_individually h ag gse of
            None \<Rightarrow> None
          | Some (ag1, r) \<Rightarrow>
              if failed_required (note_error r gse) then Some (ag1, note_error r gse # gses)
              else map_option (\<lambda>(ag2, gses1). (ag2, note_error r gse # gses1)) (set_each h ag1 gses))"

definition SetParametersIndividually ::
    "hooks \<Rightarrow> agent \<Rightarrow> group_set_vector \<Rightarrow> nat \<Rightarrow> nat \<Rightarrow> (agent \<times> group_set_vector) option" where
  "SetParametersIndividually h ag gsv index num_entries = on_entries (set_each h ag) gsv index num_entries"

section \<open>What setting changes\<close>

text \<open>An entry keeps everything but its error, and an error it had already.\<close>

definition marked :: "group_set_entry \<Rightarrow> group_set_entry \<Rightarrow> bool" where
  "marked gse gse' \<longleftrightarrow> gse' = gse \<or> (gs_err gse = None \<and> (\<exists>e. gse' = gse\<lparr>gs_err := Some e\<rparr>))"

lemma marked_refl [simp]: "marked gse gse"
  by (simp add: marked_def)

lemma marked_same [simp]: "list_all2 marked gses gses"
  by (simp add: list.rel_refl)

lemma marked_fields:
  "marked gse gse' \<Longrightarrow> gs_path gse' = gs_path gse \<and> gs_group gse' = gs_group gse \<and> gs_types gse' = gs_types gse \<and>
    gs_value gse' = gs_value gse \<and> gs_required gse' = gs_required gse"
  by (auto simp: marked_def)

lemma marked_noted [simp]: "gs_err gse = None \<Longrightarrow> marked gse (note_error r gse)"
  by (auto simp: marked_def note_error_def split: sum.split)

lemma set_ungrouped_marked: "set_ungrouped h ag gses = Some (ag', gses', stop) \<Longrightarrow> list_all2 marked gses gses'"
  by (induction h ag gses arbitrary: ag' gses' stop rule: set_ungrouped.induct)
     (auto split: if_splits option.splits)

text \<open>Marking gives each entry of a list of indexes an error.\<close>

lemma mark_all_nth: "j < length gsv \<Longrightarrow> mark_all gsv iv err ! j = (if j \<in> set iv then (gsv ! j)\<lparr>gs_err := Some err\<rparr> else gsv ! j)"
proof (induction iv arbitrary: gsv)
  case (Cons i iv)
  have "mark_all gsv (i # iv) err = mark_all (gsv[i := (gsv ! i)\<lparr>gs_err := Some err\<rparr>]) iv err"
    by (simp add: mark_all_def)
  then show ?case using Cons by (cases "i = j") auto
qed (simp add: mark_all_def)

lemma mark_all_length [simp]: "length (mark_all gsv iv err) = length gsv"
  by (induction iv arbitrary: gsv) (auto simp: mark_all_def)

text \<open>What setting groups has done so far: it has marked entries of these groups only.\<close>

definition groups_marked :: "int set \<Rightarrow> group_set_vector \<Rightarrow> group_set_vector \<Rightarrow> bool" where
  "groups_marked gs gsv0 gsv \<longleftrightarrow> length gsv = length gsv0 \<and>
    (\<forall>j<length gsv0. gsv ! j = gsv0 ! j \<or>
      (gs_group (gsv0 ! j) \<in> gs \<and> gs_err (gsv0 ! j) = None \<and> (\<exists>e. gsv ! j = (gsv0 ! j)\<lparr>gs_err := Some e\<rparr>)))"

lemma groups_marked_refl: "groups_marked gs gsv gsv"
  by (simp add: groups_marked_def)

lemma groups_marked_mark:
  assumes "groups_marked gs gsv0 gsv" "set iv \<subseteq> set (set_indexes gsv0 g b)" "g \<in> gs"
  shows "groups_marked gs gsv0 (mark_all gsv iv err)"
proof -
  have "mark_all gsv iv err ! j = gsv0 ! j \<or>
      (gs_group (gsv0 ! j) \<in> gs \<and> gs_err (gsv0 ! j) = None \<and> (\<exists>e. mark_all gsv iv err ! j = (gsv0 ! j)\<lparr>gs_err := Some e\<rparr>))"
    if j: "j < length gsv0" for j
  proof -
    have old: "gsv ! j = gsv0 ! j \<or> (gs_group (gsv0 ! j) \<in> gs \<and> gs_err (gsv0 ! j) = None \<and> (\<exists>e. gsv ! j = (gsv0 ! j)\<lparr>gs_err := Some e\<rparr>))"
      and len: "j < length gsv" using assms(1) j by (auto simp: groups_marked_def)
    show ?thesis
    proof (cases "j \<in> set iv")
      case True
      then have "gs_group (gsv0 ! j) \<in> gs" "gs_err (gsv0 ! j) = None" using assms(2,3) by (auto simp: set_indexes_def)
      moreover have "\<exists>e. mark_all gsv iv err ! j = (gsv0 ! j)\<lparr>gs_err := Some e\<rparr>"
        using old True len by (auto simp: mark_all_nth)
      ultimately show ?thesis by blast
    next
      case False
      with old len show ?thesis by (simp add: mark_all_nth)
    qed
  qed
  then show ?thesis using assms(1) by (simp add: groups_marked_def)
qed

lemma SetParameterGroup_marked:
  assumes "SetParameterGroup h g gsv (set_indexes gsv0 g b) r = Some (gsv', res)" "groups_marked gs gsv0 gsv" "g \<in> gs"
  shows "groups_marked gs gsv0 gsv'"
proof -
  let ?iv = "set_indexes gsv0 g b"
  have "gsv' = gsv \<or> (\<exists>e iv. gsv' = mark_all gsv iv e \<and> set iv \<subseteq> set ?iv)"
  proof (cases "set_group_hook h g")
    case None
    with assms(1) show ?thesis by (auto simp: SetParameterGroup_def)
  next
    case (Some cb)
    show ?thesis
    proof (cases "cb (map (\<lambda>i. (gs_path (gsv ! i), gs_value (gsv ! i), gs_types (gsv ! i))) ?iv)")
      case (Inl ek)
      obtain e k where ek: "ek = (e, k)" by (cases ek)
      consider "gsv' = mark_all gsv ?iv e"
        | "gsv' = mark_all gsv [?iv ! nat k] e" "\<not> int (length ?iv) \<le> k" "\<not> k < 0"
        using assms(1) by (auto simp: SetParameterGroup_def Some Inl ek split: if_splits)
      then show ?thesis
      proof cases
        case 2
        then have "set [?iv ! nat k] \<subseteq> set ?iv" by simp
        with 2(1) show ?thesis by blast
      qed blast
    qed (use assms(1) in \<open>auto simp: SetParameterGroup_def Some\<close>)
  qed
  then show ?thesis using groups_marked_mark [OF assms(2) _ assms(3)] assms(2) by blast
qed

lemma set_group_marked:
  "set_group h gsv0 g gsv = Some (gsv', stop) \<Longrightarrow> groups_marked gs gsv0 gsv \<Longrightarrow> g \<in> gs \<Longrightarrow> groups_marked gs gsv0 gsv'"
  by (auto simp: set_group_def Let_def split: if_splits option.splits sum.splits dest!: SetParameterGroup_marked)

lemma set_groups_marked:
  "set_groups h gsv0 gl gsv = Some gsv' \<Longrightarrow> groups_marked gs gsv0 gsv \<Longrightarrow> set gl \<subseteq> gs \<Longrightarrow> groups_marked gs gsv0 gsv'"
  by (induction gl arbitrary: gsv) (auto split: option.splits if_splits dest: set_group_marked)

lemma groups_marked_all2: "groups_marked gs gsv0 gsv \<Longrightarrow> list_all2 marked gsv0 gsv"
  by (auto simp: groups_marked_def list_all2_conv_all_nth marked_def)

lemma marked_trans: "marked a b \<Longrightarrow> marked b c \<Longrightarrow> marked a c"
  by (auto simp: marked_def)

lemma set_values_marked:
  assumes "set_values h ag gses = Some (ag', gses')"
  shows "list_all2 marked gses gses'"
proof -
  obtain gses1 stop where u: "set_ungrouped h ag gses = Some (ag', gses1, stop)"
    and g: "stop \<and> gses' = gses1 \<or> set_groups h gses1 (map int [0..<MAX_VENDOR_PARAM_GROUPS]) gses1 = Some gses'"
    using assms by (auto simp: set_values_def split: option.splits if_splits)
  have "list_all2 marked gses1 gses'"
    using g set_groups_marked [OF _ groups_marked_refl subset_UNIV] by (auto dest!: groups_marked_all2)
  with set_ungrouped_marked [OF u] show ?thesis by (rule list_all2_trans [rotated]) (rule marked_trans)
qed

lemma SetValues_marked:
  assumes "GROUP_SET_VECTOR_SetValues h ag gsv index n = Some (ag', gsv')" "index + n \<le> length gsv"
  shows "list_all2 marked gsv gsv'"
proof (cases "GROUP_SET_VECTOR_GetFailureIndex gsv index n = INVALID")
  case True
  let ?slice = "take n (drop index gsv)"
  obtain gses where g: "set_values h ag ?slice = Some (ag', gses)" "gsv' = take index gsv @ gses @ drop (index + n) gsv"
    using assms(1) True by (auto simp: GROUP_SET_VECTOR_SetValues_def on_entries_def)
  have "gsv = take index gsv @ ?slice @ drop (index + n) gsv"
    by (metis append_take_drop_id drop_drop add.commute)
  moreover have "list_all2 marked (take index gsv @ ?slice @ drop (index + n) gsv) gsv'"
    unfolding g(2) by (intro list_all2_appendI marked_same set_values_marked [OF g(1)])
  ultimately show ?thesis by simp
qed (use assms(1) in \<open>auto simp: GROUP_SET_VECTOR_SetValues_def \<close>)

lemma GetFailureIndex_none:
  "GROUP_SET_VECTOR_GetFailureIndex gsv index n = INVALID \<longleftrightarrow> (\<forall>gse\<in>set (take n (drop index gsv)). \<not> failed_required gse)"
proof -
  have "first_index failed_required (take n (drop index gsv)) \<noteq> INVALID \<Longrightarrow>
      int index + first_index failed_required (take n (drop index gsv)) \<noteq> INVALID"
    using first_index_ge [of failed_required "take n (drop index gsv)"] by simp
  then show ?thesis by (auto simp: GROUP_SET_VECTOR_GetFailureIndex_def Let_def idx_simps)
qed

section \<open>Steps of the agent\<close>

lemma GROUP_SET_VECTOR_Add_reads: "steps reads_only ag (GROUP_SET_VECTOR_Add h ag gsv path v rq role)"
  unfolding GROUP_SET_VECTOR_Add_def by (rule GetPathProperties_then) (rule reads.steps_simple)

lemma set_ungrouped_writes: "steps writes_only ag (set_ungrouped h ag gses)"
proof (induction h ag gses rule: set_ungrouped.induct)
  case (2 h ag gse gses)
  show ?case
  proof (rule stepsI)
    fix ag' r assume s: "set_ungrouped h ag (gse # gses) = Some (ag', r)"
    show "writes_only ag ag'"
    proof (cases "gs_err gse \<noteq> None \<or> gs_group gse \<noteq> NON_GROUPED")
      case True
      with s 2 show ?thesis by (auto dest: stepsD split: if_splits)
    next
      case False
      then obtain ag1 r1 where one: "DATA_MODEL_SetParameterValue h ag (gs_path gse) (gs_value gse) CHECK_WRITABLE = Some (ag1, r1)"
        using s by (auto split: option.splits)
      have "writes_only ag ag1" by (rule stepsD [OF SetParameterValue_writes one])
      moreover have "writes_only ag1 ag'"
        using s 2(2) False one by (auto split: if_splits intro: writes.R_refl dest!: stepsD)
      ultimately show ?thesis by (rule writes.R_trans)
    qed
  qed
qed (simp add: writes.steps_simple)

lemma set_values_writes: "steps writes_only ag (set_values h ag gses)"
  using stepsD [OF set_ungrouped_writes] by (fastforce simp: steps_def set_values_def split: option.splits if_splits)

lemma SetValues_writes: "steps writes_only ag (GROUP_SET_VECTOR_SetValues h ag gsv index n)"
  using stepsD [OF set_values_writes] writes.R_refl
  by (fastforce simp: steps_def GROUP_SET_VECTOR_SetValues_def on_entries_def split: if_splits)

end
