(* ===== verification/Unique_Keys.thy ===== *)
theory Unique_Keys
  imports Group_Set Path_Resolver
begin

text \<open>
  The unique keys of a table (\<open>core/data_model.c\<close>): their values in an object, as far as the role may
  read them, and the check that the defaults of a new object's keys are unique, which sets those that
  the request has not set, so that the vendor's validation sees them.
\<close>

section \<open>Reading the unique keys of an object\<close>

definition DATA_MODEL_GetUniqueKeys :: "agent \<Rightarrow> cstr \<Rightarrow> usp_err + cstr list list" where
  "DATA_MODEL_GetUniqueKeys ag path =
    (case DM_PRIV_GetNodeFromPath (dm ag) path False False of
       None \<Rightarrow> Inl USP_ERR_INTERNAL_ERROR
     | Some (n, _, _) \<Rightarrow>
         if node_type (heap (dm ag) n) \<noteq> kDMNodeType_Object_MultiInstance then Inl USP_ERR_INTERNAL_ERROR
         else Inr (unique_keys (object_info (heap (dm ag) n))))"

text \<open>
  The parameters of all unique keys in order. The search for a parameter that an earlier key had is
  made with its name among full paths.
\<close>

fun collect_keys ::
    "hooks \<Rightarrow> agent \<Rightarrow> combined_role option \<Rightarrow> cstr \<Rightarrow> cstr list \<Rightarrow> str_vector \<Rightarrow> group_get_vector \<Rightarrow>
     (agent \<times> str_vector \<times> group_get_vector) option" where
  "collect_keys h ag role obj [] nv ggv = Some (ag, nv, ggv)"
| "collect_keys h ag role obj (name # names) nv ggv =
    (if GROUP_GET_VECTOR_FindParam ggv name \<noteq> INVALID then collect_keys h ag role obj names nv ggv
     else let param_path = obj @ USP_STRNCPY name (MAX_DM_PATH - length obj)
       in case DATA_MODEL_GetPathProperties h ag param_path role of
            None \<Rightarrow> None
          | Some (ag1, pp) \<Rightarrow>
              if pp_permissions pp AND PERMIT_GET = 0 then collect_keys h ag1 role obj names nv ggv
              else collect_keys h ag1 role obj names (STR_VECTOR_Add nv name) (GROUP_GET_VECTOR_Add ggv param_path (pp_group pp)))"

text \<open>A value that could not be got: its error, which is none when the value is just missing.\<close>

definition unread :: "group_get_entry \<Rightarrow> bool" where
  "unread gge \<longleftrightarrow> gg_err gge \<noteq> None \<or> gg_value gge = None"

definition DATA_MODEL_GetUniqueKeyParams :: "hooks \<Rightarrow> agent \<Rightarrow> cstr \<Rightarrow> combined_role option \<Rightarrow> (cstr \<times> cstr) list ag_result" where
  "DATA_MODEL_GetUniqueKeyParams h ag obj_path role =
    (case DM_PRIV_GetNodeFromPath (dm ag) obj_path False False of
       None \<Rightarrow> ag_err ag USP_ERR_INTERNAL_ERROR
     | Some (n, _, _) \<Rightarrow>
         if node_type (heap (dm ag) n) \<noteq> kDMNodeType_Object_MultiInstance then ag_ok ag []
         else if MAX_DM_PATH \<le> length obj_path + 1 then None
         else case collect_keys h ag role (obj_path @ ''.'') (concat (unique_keys (object_info (heap (dm ag) n)))) [] GROUP_GET_VECTOR_Init of
           None \<Rightarrow> None
         | Some (ag1, nv, ggv) \<Rightarrow>
             if ggv = [] then ag_ok ag1 []
             else case GROUP_GET_VECTOR_GetValues h ag1 ggv of
               None \<Rightarrow> None
             | Some (ag2, ggv1) \<Rightarrow>
                 (case find unread ggv1 of
                    Some gge \<Rightarrow> (case gg_err gge of Some e \<Rightarrow> ag_err ag2 e | None \<Rightarrow> ag_ok ag2 [])
                  | None \<Rightarrow> ag_ok ag2 (zip nv (map (\<lambda>gge. the (gg_value gge)) ggv1))))"

section \<open>Defaults of a new object's keys\<close>

text \<open>The keys that the request has set; one that it has set in vain is an error.\<close>

fun erase_set_keys :: "cstr option list \<Rightarrow> group_set_vector \<Rightarrow> usp_err + cstr option list" where
  "erase_set_keys uk_paths [] = Inr uk_paths"
| "erase_set_keys uk_paths (gse # gsv) =
    (let index = first_index (\<lambda>p. p = Some (gs_path gse)) uk_paths
     in if index = INVALID then erase_set_keys uk_paths gsv
        else case gs_err gse of
               Some e \<Rightarrow> Inl e
             | None \<Rightarrow> erase_set_keys (uk_paths[nat index := None]) gsv)"

text \<open>The keys that the controller does not provide. \<open>None\<close>: a key of the table that is not in the tree.\<close>

fun erase_auto_keys :: "dm_state \<Rightarrow> cstr option list \<Rightarrow> cstr option list option" where
  "erase_auto_keys st [] = Some []"
| "erase_auto_keys st (None # ps) = map_option (\<lambda>qs. None # qs) (erase_auto_keys st ps)"
| "erase_auto_keys st (Some path # ps) =
    (case DM_PRIV_GetNodeFromPath st path False False of
       None \<Rightarrow> None
     | Some (n, _, _) \<Rightarrow>
         map_option (\<lambda>qs. (if node_type (heap st n) \<in> {kDMNodeType_DBParam_ReadOnly, kDMNodeType_DBParam_ReadOnlyAuto,
               kDMNodeType_DBParam_ReadWriteAuto, kDMNodeType_VendorParam_ReadOnly} then None else Some path) # qs)
           (erase_auto_keys st ps))"

fun set_default_keys :: "hooks \<Rightarrow> agent \<Rightarrow> (cstr option \<times> cstr) list \<Rightarrow> unit ag_result" where
  "set_default_keys h ag [] = ag_ok ag ()"
| "set_default_keys h ag ((None, v) # ks) = set_default_keys h ag ks"
| "set_default_keys h ag ((Some path, v) # ks) =
    ag_bind (DATA_MODEL_SetParameterValue h ag path v 0) (\<lambda>ag1 _. set_default_keys h ag1 ks)"

definition DATA_MODEL_ValidateDefaultedUniqueKeys ::
    "hooks \<Rightarrow> agent \<Rightarrow> cstr \<Rightarrow> (cstr \<times> cstr) list \<Rightarrow> group_set_vector option \<Rightarrow> unit ag_result" where
  "DATA_MODEL_ValidateDefaultedUniqueKeys h ag obj_path unique_key_params gsv =
    (let uk_paths = map (\<lambda>(k, _). Some (fst (USP_SNPRINTF MAX_DM_PATH (obj_path @ ''.'' @ k)))) unique_key_params
     in case (case gsv of None \<Rightarrow> Inr uk_paths | Some gses \<Rightarrow> erase_set_keys uk_paths gses) of
          Inl e \<Rightarrow> ag_err ag e
        | Inr uk_paths1 \<Rightarrow>
            (case erase_auto_keys (dm ag) uk_paths1 of
               None \<Rightarrow> None
             | Some uk_paths2 \<Rightarrow> set_default_keys h ag (zip uk_paths2 (map snd unique_key_params))))"

section \<open>Steps of the agent\<close>

lemma collect_keys_reads: "steps reads_only ag (collect_keys h ag role obj names nv ggv)"
proof (induction names arbitrary: ag nv ggv)
  case (Cons name names)
  show ?case unfolding collect_keys.simps Let_def by (intro step_intros Cons.IH)
qed (simp add: reads.steps_simple)

lemma GetUniqueKeyParams_reads [step_intros]: "steps reads_only ag (DATA_MODEL_GetUniqueKeyParams h ag path role)"
  unfolding DATA_MODEL_GetUniqueKeyParams_def
  by (intro step_intros reads.steps_then [OF collect_keys_reads] steps_option)

lemma set_default_keys_writes [step_intros]: "steps writes_only ag (set_default_keys h ag ks)"
  by (induction h ag ks rule: set_default_keys.induct) (auto intro!: step_intros)

lemma ValidateDefaultedUniqueKeys_writes [step_intros]:
  "steps writes_only ag (DATA_MODEL_ValidateDefaultedUniqueKeys h ag path ukp gsv)"
  unfolding DATA_MODEL_ValidateDefaultedUniqueKeys_def Let_def by (auto split: sum.split option.split intro!: step_intros)

end
