(* ===== verification/Usp_Msg.thy ===== *)
theory Usp_Msg
  imports Unique_Keys Path_Collect
begin

text \<open>
  What the handlers of USP messages share: the surroundings a message is handled in, the responses and
  the error responses (\<open>core/error_resp.c\<close>), and what a message may change in the agent. A request is
  what the protobuf library has unpacked; \<open>None\<close> stands for one whose body is not of the type its header
  announces. A response is a value, with its results in the order they are added; building it
  allocates memory and nothing else. The texts of errors are not modelled.
\<close>

section \<open>Surroundings\<close>

text \<open>
  The hooks and numbers of the path resolver, the nesting of its calls, the vendor's transaction hooks
  and notify callbacks, the longest cascade of commits, and the role of the controller that sent the
  message (\<open>MSG_HANDLER_GetMsgRole\<close>).
\<close>

record msg_env =
  me_resolver :: resolver_env
  me_nesting :: nat
  me_trans :: trans_vendor
  me_notify :: "dm_trans \<Rightarrow> agent \<Rightarrow> agent"
  me_cascade :: nat
  me_role :: combined_role

abbreviation me_hooks :: "msg_env \<Rightarrow> hooks" where "me_hooks env \<equiv> re_hooks (me_resolver env)"
abbreviation commit :: "msg_env \<Rightarrow> agent \<Rightarrow> unit ag_result" where
  "commit env \<equiv> DM_TRANS_Commit (me_cascade env) (me_trans env) (me_notify env)"

definition resolve_state :: "msg_env \<Rightarrow> resolve_op \<Rightarrow> int \<Rightarrow> 32 word \<Rightarrow> resolver_state" where
  "resolve_state env rop depth flags = \<lparr>rs_op = rop, rs_depth = depth, rs_role = Some (me_role env), rs_flags = flags\<rparr>"

lemma resolve_state_simps [simp]:
  "rs_op (resolve_state env rop depth flags) = rop" "rs_depth (resolve_state env rop depth flags) = depth"
  "rs_role (resolve_state env rop depth flags) = Some (me_role env)" "rs_flags (resolve_state env rop depth flags) = flags"
  by (simp_all add: resolve_state_def)

definition resolve_paths :: "msg_env \<Rightarrow> resolve_op \<Rightarrow> agent \<Rightarrow> cstr \<Rightarrow> str_vector ag_result" where
  "resolve_paths env rop ag path =
    ag_bind (PATH_RESOLVER_ResolveDevicePath (me_nesting env) (me_resolver env) (resolve_state env rop FULL_DEPTH 0) ag path (Some [], None))
      (\<lambda>ag1 (sv, _). ag_ok ag1 (the sv))"

text \<open>A call whose error the caller handles.\<close>

definition ag_case :: "'a ag_result \<Rightarrow> (agent \<Rightarrow> usp_err \<Rightarrow> 'b option) \<Rightarrow> (agent \<Rightarrow> 'a \<Rightarrow> 'b option) \<Rightarrow> 'b option" where
  "ag_case m failed f =
    (case m of None \<Rightarrow> None | Some (ag, Inl err) \<Rightarrow> failed ag err | Some (ag, Inr x) \<Rightarrow> f ag x)"

lemma ag_case_simps [simp]:
  "ag_case None g f = None" "ag_case (Some (ag, Inl err)) g f = g ag err" "ag_case (Some (ag, Inr x)) g f = f ag x"
  by (simp_all add: ag_case_def)

lemma ag_case_Some:
  assumes "ag_case m g f = Some r"
  obtains ag1 e where "m = Some (ag1, Inl e)" "g ag1 e = Some r"
  | ag1 x where "m = Some (ag1, Inr x)" "f ag1 x = Some r"
  using assms by (auto simp: ag_case_def split: option.splits prod.splits sum.splits)

lemma steps_sum: "(\<And>e. m = Inl e \<Longrightarrow> steps R ag (f e)) \<Longrightarrow> (\<And>x. m = Inr x \<Longrightarrow> steps R ag (g x)) \<Longrightarrow>
    steps R ag (case m of Inl e \<Rightarrow> f e | Inr x \<Rightarrow> g x)"
  by (cases m) simp_all

context agent_steps
begin

lemma steps_map_with [step_intros]: "steps R ag (map_option (\<lambda>r. (ag, f r)) x)"
  by (auto simp: steps_def R_refl)

lemma steps_case [step_intros]:
  assumes "steps R ag m" "\<And>ag1 e. steps R ag1 (g ag1 e)" "\<And>ag1 x. steps R ag1 (f ag1 x)"
  shows "steps R ag (ag_case m g f)"
proof (rule stepsI)
  fix ag' r assume "ag_case m g f = Some (ag', r)"
  then show "R ag ag'"
    by (cases rule: ag_case_Some) (use assms in \<open>blast intro: R_trans dest: stepsD\<close>)+
qed

end

section \<open>Requests and responses\<close>

text \<open>A parameter to set, in a Set or in an Add.\<close>

record param_setting =
  ps_param :: cstr
  ps_value :: cstr
  ps_required :: bool

record param_error =
  pe_path :: cstr
  pe_code :: usp_err

datatype 'r usp_msg = Response cstr 'r | Error_Response cstr usp_err "param_error list"

definition ERROR_RESP_Create :: "cstr \<Rightarrow> usp_err \<Rightarrow> 'r usp_msg" where
  "ERROR_RESP_Create msg_id err_code = Error_Response msg_id err_code []"

fun ERROR_RESP_AddParamError :: "'r usp_msg \<Rightarrow> cstr \<Rightarrow> usp_err \<Rightarrow> 'r usp_msg" where
  "ERROR_RESP_AddParamError (Error_Response msg_id err pes) path err_code =
    Error_Response msg_id err (pes @ [\<lparr>pe_path = path, pe_code = err_code\<rparr>])"
| "ERROR_RESP_AddParamError (Response msg_id r) path err_code = Response msg_id r"

text \<open>
  The extractor adds the errors of a response to the error message; it counts them where there is no
  message to add them to. Here it gives the errors.
\<close>

definition ERROR_RESP_CreateSingle :: "cstr \<Rightarrow> usp_err \<Rightarrow> param_error list \<Rightarrow> 'r usp_msg" where
  "ERROR_RESP_CreateSingle msg_id err_code extracted =
    fold (\<lambda>pe resp. ERROR_RESP_AddParamError resp (pe_path pe) (pe_code pe)) extracted (ERROR_RESP_Create msg_id err_code)"

definition argument_errors :: "usp_err set" where
  "argument_errors = {USP_ERR_INVALID_ARGUMENTS, USP_ERR_INVALID_PATH_SYNTAX, USP_ERR_UNSUPPORTED_PARAM, USP_ERR_INVALID_TYPE,
     USP_ERR_INVALID_VALUE, USP_ERR_PARAM_READ_ONLY, USP_ERR_VALUE_CONFLICT, USP_ERR_OBJECT_DOES_NOT_EXIST,
     USP_ERR_CREATION_FAILURE, USP_ERR_NOT_A_TABLE, USP_ERR_OBJECT_NOT_CREATABLE, USP_ERR_SET_FAILURE,
     USP_ERR_REQUIRED_PARAM_FAILED, USP_ERR_OBJECT_NOT_DELETABLE, USP_ERR_UNIQUE_KEY_CONFLICT, USP_ERR_INVALID_PATH}"

definition ERROR_RESP_CalcOuterErrCode :: "nat \<Rightarrow> usp_err \<Rightarrow> usp_err" where
  "ERROR_RESP_CalcOuterErrCode num_errs err =
    (if num_errs = 0 then err else if err \<in> argument_errors then USP_ERR_INVALID_ARGUMENTS else err)"

lemma CreateSingle_message: "ERROR_RESP_CreateSingle msg_id err pes = Error_Response msg_id err pes"
proof -
  have "fold (\<lambda>pe resp. ERROR_RESP_AddParamError resp (pe_path pe) (pe_code pe)) pes (Error_Response msg_id err es) =
      Error_Response msg_id err (es @ pes)" for es
    by (induction pes arbitrary: es) simp_all
  from this [of "[]"] show ?thesis by (simp add: ERROR_RESP_CreateSingle_def ERROR_RESP_Create_def)
qed

section \<open>What a message may change\<close>

text \<open>The tree stays as it is, if the notify callbacks leave it so.\<close>

definition tree_only :: "agent \<Rightarrow> agent \<Rightarrow> bool" where
  "tree_only ag ag' \<longleftrightarrow> same_tree (dm ag) (dm ag')"

interpretation tree: agent_steps tree_only
  by unfold_locales (auto simp: tree_only_def same_tree_refl intro: same_tree_trans)

lemma steps_writes_tree: "steps writes_only ag m \<Longrightarrow> steps tree_only ag m"
  by (rule steps_mono [of writes_only]) (auto simp: writes_only_def tree_only_def)

lemma steps_reads_tree: "steps reads_only ag m \<Longrightarrow> steps tree_only ag m"
  by (rule steps_mono [of reads_only]) (auto simp: reads_only_def tree_only_def)

definition notify_keeps_tree :: "(dm_trans \<Rightarrow> agent \<Rightarrow> agent) \<Rightarrow> bool" where
  "notify_keeps_tree notify \<longleftrightarrow> (\<forall>dt ag. tree_only ag (notify dt ag))"

lemma undo_ops_tree: "undo_ops st dts = Some st' \<Longrightarrow> same_tree st st'"
proof (induction dts arbitrary: st)
  case (Cons dt dts)
  then obtain st1 where u: "undo_op st dt = Some st1" "undo_ops st1 dts = Some st'" by (auto split: option.splits)
  then have "same_tree st st1"
    by (auto simp: undo_op_def same_tree_refl Remove_same_tree dest: Add_keeps split: dm_op.splits)
  then show ?case using Cons.IH [OF u(2)] by (rule same_tree_trans)
qed (simp add: same_tree_refl)

lemma Abort_tree [step_intros]: "steps tree_only ag (DM_TRANS_Abort tv ag)"
  unfolding DM_TRANS_Abort_def Let_def
  by (auto simp: steps_def tree_only_def same_tree_refl dest: undo_ops_tree split: option.splits prod.splits sum.splits)

lemmas Abort_then = tree.steps_then [OF Abort_tree]

lemma Start_tree [step_intros]: "steps tree_only ag (DM_TRANS_Start tv ag)"
proof (rule stepsI)
  fix ag' r assume s: "DM_TRANS_Start tv ag = Some (ag', r)"
  define ag1 where "ag1 = ag\<lparr>db := fst (DATABASE_StartTransaction (db ag)), cur_transaction := Some []\<rparr>"
  have "ag' = ag \<or> ag' = ag1 \<or> (\<exists>r1. DM_TRANS_Abort tv ag1 = Some (ag', r1))"
    using s by (auto simp: DM_TRANS_Start_def Let_def ag1_def split: if_splits option.splits prod.splits sum.splits)
  moreover have "tree_only ag ag1" by (simp add: ag1_def tree_only_def same_tree_refl)
  ultimately show "tree_only ag ag'"
    using stepsD [OF Abort_tree] tree.R_trans tree.R_refl by metis
qed

lemma notify_ops_tree:
  assumes "notify_keeps_tree notify"
  shows "tree_only ag (fold (notify_op notify) dts ag)"
proof (induction dts arbitrary: ag)
  case (Cons dt dts)
  have "tree_only (notify dt ag) (notify_op notify dt ag)"
    by (auto simp: notify_op_def send_event_def upd_dm_def tree_only_def Let_def same_tree_heap same_tree_refl split: dm_op.split)
  then have "tree_only ag (notify_op notify dt ag)"
    using assms tree.R_trans unfolding notify_keeps_tree_def by blast
  then show ?case using tree.R_trans [OF _ Cons.IH] by simp
qed (simp add: tree.R_refl)

lemma Commit_tree:
  assumes "notify_keeps_tree notify"
  shows "steps tree_only ag (DM_TRANS_Commit fuel tv notify ag)"
proof (induction fuel arbitrary: ag)
  case (Suc fuel)
  show ?case
  proof (rule stepsI)
    fix ag' r assume c: "DM_TRANS_Commit (Suc fuel) tv notify ag = Some (ag', r)"
    have db: "tree_only ag (ag\<lparr>db := d\<rparr>)" "tree_only ag (ag\<lparr>db := d, cur_transaction := t\<rparr>)" for d t
      by (simp_all add: tree_only_def same_tree_refl)
    from c consider "ag' = ag" | d where "ag' = ag\<lparr>db := d, cur_transaction := None\<rparr>"
      | d r1 where "DM_TRANS_Abort tv (ag\<lparr>db := d\<rparr>) = Some (ag', r1)"
      | r1 where "DM_TRANS_Abort tv ag = Some (ag', r1)"
      | d ag2 r2 dts r3 where "DM_TRANS_Start tv (ag\<lparr>db := d, cur_transaction := None\<rparr>) = Some (ag2, r2)"
          "DM_TRANS_Commit fuel tv notify (fold (notify_op notify) dts ag2) = Some (ag', r3)"
      by (auto simp: Let_def split: if_splits option.splits prod.splits sum.splits)
    then show "tree_only ag ag'"
    proof cases
      case 3
      then show ?thesis using stepsD [OF Abort_tree] tree.R_trans [OF db(1)] by blast
    next
      case 5
      have "tree_only ag ag2" using tree.R_trans [OF db(2) stepsD [OF Start_tree 5(1)]] .
      also have "tree_only ag2 (fold (notify_op notify) dts ag2)" by (rule notify_ops_tree [OF assms])
      finally (tree.R_trans) show ?thesis by (rule tree.R_trans) (rule stepsD [OF Suc.IH 5(2)])
    qed (auto intro: db tree.R_refl stepsD [OF Abort_tree])
  qed
qed (simp add: tree.steps_simple)

text \<open>
  A transaction that fails: the database has its contents of before, whether the message gives up, the
  transaction does not start, or its commit fails.
\<close>

lemma aborted_message:
  assumes "DM_TRANS_Start tv ag = Some (ag1, Inr u)" "cur_transaction ag = None" "writes_only ag1 ag2"
    "DM_TRANS_Abort tv ag2 = Some (ag3, r)"
  shows "rows (db ag3) = rows (db ag) \<and> cur_transaction ag3 = None"
proof -
  have "cur_transaction ag1 \<noteq> None"
    using assms(1,2) by (auto simp: DM_TRANS_Start_def Let_def split: sum.splits option.splits prod.splits)
  then show ?thesis using abort_restores_rows [of tv ag ag1 ag2 ag3 r] assms by (auto simp: writes_only_def)
qed

lemma failed_start:
  assumes "DM_TRANS_Start tv ag = Some (ag1, Inl e)" "cur_transaction ag = None"
  shows "rows (db ag1) = rows (db ag)"
proof -
  have "rows (fst (DATABASE_StartTransaction (db ag))) = rows (db ag)"
    by (simp add: DATABASE_StartTransaction_def)
  moreover have "rows (fst (DATABASE_AbortTransaction (fst (DATABASE_StartTransaction (db ag))))) = rows (db ag)"
    if "snd (DATABASE_StartTransaction (db ag)) = USP_OK"
    using that by (simp add: DATABASE_AbortTransaction_def DATABASE_StartTransaction_def split: if_splits)
  ultimately show ?thesis using assms
    by (auto simp: DM_TRANS_Start_def DM_TRANS_Abort_def Let_def split: sum.splits option.splits prod.splits if_splits)
qed

lemma failed_commit:
  assumes "DM_TRANS_Start tv ag = Some (ag1, Inr u)" "cur_transaction ag = None" "writes_only ag1 ag2"
    "DM_TRANS_Commit fuel tv notify ag2 = Some (ag3, Inl e)"
  shows "rows (db ag3) = rows (db ag)"
proof -
  have t: "cur_transaction ag1 \<noteq> None"
    using assms(1,2) by (auto simp: DM_TRANS_Start_def Let_def split: sum.splits option.splits prod.splits)
  then obtain n where n: "fuel = Suc n" "cur_transaction ag2 \<noteq> None" using assms(3,4) by (cases fuel) (auto simp: writes_only_def)
  with assms(4) consider r where "DM_TRANS_Abort tv ag2 = Some (ag3, r)"
    | r where "snd (DATABASE_CommitTransaction (db ag2)) \<noteq> USP_OK"
       "DM_TRANS_Abort tv (ag2\<lparr>db := fst (DATABASE_CommitTransaction (db ag2))\<rparr>) = Some (ag3, r)"
    by (auto simp: Let_def split: if_splits option.splits prod.splits sum.splits)
  then show ?thesis
  proof cases
    case 1
    then show ?thesis using aborted_message [OF assms(1-3)] by blast
  next
    case 2
    then have "fst (DATABASE_CommitTransaction (db ag2)) = db ag2"
      by (auto simp: DATABASE_CommitTransaction_def split: if_splits)
    then show ?thesis using 2(2) aborted_message [OF assms(1-3)] by simp
  qed
qed

section \<open>Resolving the path of a request\<close>

lemma ResolveDevicePath_reads [step_intros]:
  assumes "rs_op rs \<in> plain_ops"
  shows "steps reads_only ag (PATH_RESOLVER_ResolveDevicePath n env rs ag path found)"
  unfolding PATH_RESOLVER_ResolveDevicePath_def
  by (intro step_intros collects_tree [OF path_collector.ResolvePath_collects [OF trivial_collector [OF assms]]])

lemma resolve_paths_reads [step_intros]: "rop \<in> plain_ops \<Longrightarrow> steps reads_only ag (resolve_paths env rop ag path)"
  unfolding resolve_paths_def by (intro step_intros) (simp_all add: resolve_state_def)

text \<open>What is resolved leads to nodes on which the role has the permission the operation needs.\<close>

lemma resolve_paths_found:
  assumes "rop \<in> plain_ops" "resolve_paths env rop ag path = Some (ag', Inr ps)" "p \<in> set ps"
  shows "\<exists>c. found_param (dm ag') (resolve_state env rop FULL_DEPTH 0) p c"
proof -
  let ?rs = "resolve_state env rop FULL_DEPTH 0"
  have c: "path_collector (reads_inv ?rs) ?rs" by (rule plain_collector) (simp add: resolve_state_def assms(1))
  obtain sv gv where r: "PATH_RESOLVER_ResolveDevicePath (me_nesting env) (me_resolver env) ?rs ag path (Some [], None) =
      Some (ag', Inr (sv, gv))" "ps = the sv"
    using assms(2) by (auto simp: resolve_paths_def ag_bind_Inr_iff)
  then have "PATH_RESOLVER_ResolvePath (me_nesting env) (me_resolver env) ?rs ag path (Some [], None) = Some (ag', Inr (sv, gv))"
    by (auto simp: PATH_RESOLVER_ResolveDevicePath_def split: if_splits)
  then have "reads_inv ?rs (dm ag') (sv, gv)" "sv \<noteq> None \<and> gv = None"
    using path_collector.resolved_keeps(1) [OF c] resolved_vectors [of ?rs] assms(1)
    by (auto simp: resolve_state_def)
  then show ?thesis using r(2) assms(3) by auto
qed

section \<open>An example\<close>

text \<open>
  An agent with the table \<open>Device.A\<close> and its instance 7, no transaction open, and a controller with every
  permission.
\<close>

definition idle_agent :: agent where
  "idle_agent = table_agent\<lparr>cur_transaction := None\<rparr>"

definition started_agent :: agent where
  "started_agent = idle_agent\<lparr>db := (db idle_agent)\<lparr>saved := Some (rows (db idle_agent))\<rparr>, cur_transaction := Some []\<rparr>"

definition all_roles :: combined_role where "all_roles = \<lparr>inherited = 0, assigned = 0\<rparr>"

definition demo_msg_env :: "trans_vendor \<Rightarrow> msg_env" where
  "demo_msg_env tv = \<lparr>me_resolver = demo_env, me_nesting = 1, me_trans = tv, me_notify = (\<lambda>dt ag. ag), me_cascade = 2,
    me_role = all_roles\<rparr>"

lemma demo_msg_env_simps [simp]:
  "me_hooks (demo_msg_env tv) = demo_hooks" "me_resolver (demo_msg_env tv) = demo_env" "me_nesting (demo_msg_env tv) = 1"
  "me_trans (demo_msg_env tv) = tv" "me_role (demo_msg_env tv) = all_roles" "me_cascade (demo_msg_env tv) = 2"
  "me_notify (demo_msg_env tv) = (\<lambda>dt ag. ag)"
  by (simp_all add: demo_msg_env_def demo_env_def)

lemma demo_env_simps [simp]: "re_hooks demo_env = demo_hooks"
  by (simp add: demo_env_def)

lemma no_hooks_simps [simp]: "start_trans_cb no_hooks = None" "commit_trans_cb no_hooks = None" "abort_trans_cb no_hooks = None"
  by (simp_all add: no_hooks_def)

lemma demo_notify: "notify_keeps_tree (\<lambda>dt ag. ag)"
  by (simp add: notify_keeps_tree_def tree.R_refl)

lemma idle_facts:
  "dm idle_agent = dm table_agent" "cur_transaction idle_agent = None" "dm started_agent = dm table_agent"
  "cur_transaction started_agent = Some []" "rows (db started_agent) = rows (db idle_agent)" "saved (db started_agent) \<noteq> None"
  "sql (db started_agent) = (\<lambda>_. True)" "sql (db idle_agent) = (\<lambda>_. True)" "saved (db idle_agent) = None"
  by (simp_all add: idle_agent_def started_agent_def table_agent_def demo_agent_def)

lemma idle_start: "start_trans_cb tv = None \<Longrightarrow> DM_TRANS_Start tv idle_agent = Some (started_agent, USP_OK)"
  unfolding DM_TRANS_Start_def DATABASE_StartTransaction_def
  by (simp add: idle_facts started_agent_def Let_def)

lemma table_properties:
  assumes "dm ag = dm table_agent"
  shows "\<exists>pp. DATA_MODEL_GetPathProperties demo_hooks ag ''Device.A.7'' (Some all_roles) = Some (ag, pp) \<and>
    pp_permissions pp = PERMIT_ALL \<and>
    pp_flags pp = (PP_EXISTS_IN_SCHEMA OR type_properties kDMNodeType_Object_MultiInstance True) OR
      (PP_INSTANCE_NUMBERS_EXIST OR PP_PARENT_INSTANCE_NUMBERS_EXIST)"
proof -
  have n: "node_type table_node_ex = kDMNodeType_Object_MultiInstance" "permissions table_node_ex = [0xFFFF, 0]"
    by (simp_all add: table_node_ex_def demo_node_def)
  have "DM_PRIV_GetPermissions table_node_ex (Some all_roles) = PERMIT_ALL"
    by (simp add: DM_PRIV_GetPermissions_def role_permissions_def all_roles_def n kCTrustRole_Max_def PERMIT_ALL_def)
  then show ?thesis
    by (simp add: DATA_MODEL_GetPathProperties_def assms table_agent_instance table_exists [OF assms] table_agent_facts(1) n
        IsObject_def)
qed

lemma demo_no_node:
  assumes "dm ag = dm table_agent"
  shows "DM_PRIV_GetNodeFromPath (dm ag) ''X'' True True = None"
proof -
  have c: "DM_PRIV_CalcHashFromPath True ''X'' = Inr (TEXT_UTILS_CalcHash ''X'', zero_instances)"
    "TEXT_UTILS_CalcHash ''Device.A.{i}'' \<noteq> TEXT_UTILS_CalcHash ''X''"
    "add_separator (ADD_TO_HASH CHR ''.'' (TEXT_UTILS_CalcHash ''X'')) \<noteq> TEXT_UTILS_CalcHash ''Device.A.{i}''"
    by code_simp+
  have "FindNodeFromHash (dm ag) k = (if k = TEXT_UTILS_CalcHash ''Device.A.{i}'' then 3 else NULL)" for k
    by (simp add: assms FindNodeFromHash_def table_agent_def demo_state_def table_node_ex_def demo_node_def)
  then show ?thesis using c(2,3) by (simp add: DM_PRIV_GetNodeFromPath_def c(1) Let_def)
qed

lemma demo_no_param:
  assumes "dm ag = dm table_agent"
  shows "DM_PRIV_GetNodeFromPath (dm ag) ''Device.A.7.P'' True True = None"
proof -
  have c: "DM_PRIV_CalcHashFromPath True ''Device.A.7.P'' = Inr (TEXT_UTILS_CalcHash ''Device.A.{i}.P'',
      \<lparr>order = 1, instances = [7, 0, 0, 0, 0, 0], inodes = [0, 0, 0, 0, 0, 0]\<rparr>)"
    "TEXT_UTILS_CalcHash ''Device.A.{i}'' \<noteq> TEXT_UTILS_CalcHash ''Device.A.{i}.P''"
    "add_separator (ADD_TO_HASH CHR ''.'' (TEXT_UTILS_CalcHash ''Device.A.{i}.P'')) \<noteq> TEXT_UTILS_CalcHash ''Device.A.{i}''"
    by code_simp+
  have "FindNodeFromHash (dm ag) k = (if k = TEXT_UTILS_CalcHash ''Device.A.{i}'' then 3 else NULL)" for k
    by (simp add: assms FindNodeFromHash_def table_agent_def demo_state_def table_node_ex_def demo_node_def)
  then show ?thesis using c(2,3) by (simp add: DM_PRIV_GetNodeFromPath_def c(1) Let_def)
qed

lemma demo_resolve:
  assumes "dm ag = dm table_agent" "rop = kResolveOp_Del \<or> rop = kResolveOp_Set"
  shows "resolve_paths (demo_msg_env tv) rop ag ''Device.A.7.'' = Some (ag, Inr [''Device.A.7''])"
proof -
  let ?rs = "resolve_state (demo_msg_env tv) rop FULL_DEPTH 0"
  obtain pp where pp: "DATA_MODEL_GetPathProperties demo_hooks ag ''Device.A.7'' (Some all_roles) = Some (ag, pp)"
    "pp_permissions pp = PERMIT_ALL"
    "pp_flags pp = (PP_EXISTS_IN_SCHEMA OR type_properties kDMNodeType_Object_MultiInstance True) OR
      (PP_INSTANCE_NUMBERS_EXIST OR PP_PARENT_INSTANCE_NUMBERS_EXIST)"
    using table_properties [OF assms(1)] by blast
  have "CheckPathProperties demo_hooks ?rs ag ''Device.A.7'' = ag_ok ag (True, pp)"
    using assms(2) by (auto simp: CheckPathProperties_def resolve_state_def pp wrong_type_def wrong_instance_def permission_verdict_def
        existence_verdict_def type_properties_def PP_defs PERMIT_ALL_def PERMIT_DEL_def)
  then have "AddPathFound demo_hooks ?rs ag ''Device.A.7'' (Some [], None) = ag_ok ag (Some [''Device.A.7''], None)"
    using assms(2) by (auto simp: AddPathFound_def resolve_state_def STR_VECTOR_Find_def STR_VECTOR_Add_def ag_ok_def first_index_Nil)
  then show ?thesis using assms(2)
    by (auto simp: resolve_paths_def PATH_RESOLVER_ResolveDevicePath_def PATH_RESOLVER_ResolvePath_def PATH_RESOLVER_ResolvePath_with_def
        USP_STRNCPY_def MAX_DM_PATH_def resolve_state_def path_complete_def demo_env_def ag_ok_def)
qed

lemma demo_bad_path: "rop \<in> plain_ops \<Longrightarrow> resolve_paths (demo_msg_env tv) rop ag ''X'' = Some (ag, Inl USP_ERR_INVALID_PATH)"
  by (simp add: resolve_paths_def PATH_RESOLVER_ResolveDevicePath_def ag_err_def)

lemma deleted_abort:
  assumes "same_tree (dm table_agent) (dm ag)" "cur_transaction ag = Some [del_op ''Device.A.7'' 3 inst_7]" "abort_trans_cb tv = None"
  shows "\<exists>ag' r. DM_TRANS_Abort tv ag = Some (ag', r)"
proof -
  have i: "aborted_inst (dm ag) (del_op ''Device.A.7'' 3 inst_7) = inst_7"
    unfolding aborted_inst_same_tree [OF assms(1)]
    by (simp add: aborted_inst_def del_op_def table_agent_facts(1) inst_7_def) (simp add: table_node_ex_def eval_nat_numeral)
  have "top_node_of (dm ag) inst_7 = Some 3" unfolding top_node_of_same_tree [OF assms(1)]
    by (simp add: top_node_of_def table_agent_facts(1) inst_7_def) (simp add: table_node_ex_def demo_node_def)
  then have "\<exists>st. DM_INST_VECTOR_Add (dm ag) inst_7 = Some st" using Add_result [of inst_7 "dm ag" 3] by (simp add: inst_7_def)
  then obtain st where "DM_INST_VECTOR_Add (dm ag) inst_7 = Some st" by blast
  then have "undo_ops (dm ag) [del_op ''Device.A.7'' 3 inst_7] = Some st"
    using i by (simp add: undo_op_def del_op_def)
  then show ?thesis
    by (cases "DATABASE_AbortTransaction (db ag)") (simp add: DM_TRANS_Abort_def assms(2,3) Let_def)
qed

end
