(* ===== verification/Register.thy ===== *)
theory Register
  imports Agent_Steps
begin

text \<open>
  The registration of the data model, \<open>core/usp_register.c\<close>: what the agent's own components and the
  vendor call while the data model is initialised. Each call adds a schema path to the tree and fills
  in the information of its node. The member of the union \<open>registered\<close> is kept apart from the others
  here; a call that would write one member of the union in a node that another member belongs to has
  the result \<open>None\<close>, as has a failed assertion. A callback of the data model is kept as whether it is
  registered; a vendor hook is a function pointer.
\<close>

section \<open>State\<close>

record param_cbs =
  pc_get :: bool
  pc_set :: bool
  pc_validator :: bool
  pc_notify_set :: bool

record dm_oper_info =
  op_sync_cb :: bool
  op_async_cb :: bool
  op_restart_cb :: bool
  op_max_concurrency :: int
  op_input_args :: str_vector
  op_output_args :: str_vector

record group_cbs =
  gc_get :: bool
  gc_set :: bool
  gc_add :: bool
  gc_del :: bool

record registry =
  rg_dm :: dm_state
  rg_within_init :: bool
  rg_param_cbs :: "node_ptr \<Rightarrow> param_cbs"
  rg_notify_add :: "node_ptr \<Rightarrow> bool"
  rg_notify_del :: "node_ptr \<Rightarrow> bool"
  rg_opers :: "node_ptr \<Rightarrow> dm_oper_info"
  rg_event_args :: "node_ptr \<Rightarrow> str_vector"
  rg_groups :: "nat \<Rightarrow> group_cbs"
  rg_vendor_hooks :: "nat list"

type_synonym reg_result = "(registry \<times> (usp_err + unit)) option"

definition reg_ok :: "registry \<Rightarrow> reg_result" where "reg_ok rg = Some (rg, USP_OK)"
definition reg_err :: "registry \<Rightarrow> reg_result" where "reg_err rg = Some (rg, Inl USP_ERR_INTERNAL_ERROR)"

definition INT_MAX :: int where "INT_MAX = 2 ^ 31 - 1"
definition MAX_COMPOUND_KEY_PARAMS :: nat where "MAX_COMPOUND_KEY_PARAMS = 4"

definition zero_oper_info :: dm_oper_info where
  "zero_oper_info = \<lparr>op_sync_cb = False, op_async_cb = False, op_restart_cb = False, op_max_concurrency = 0,
    op_input_args = [], op_output_args = []\<rparr>"

definition no_cbs :: param_cbs where
  "no_cbs = \<lparr>pc_get = False, pc_set = False, pc_validator = False, pc_notify_set = False\<rparr>"

text \<open>A call that needs the initialisation to be going on, and its arguments to be correct.\<close>

definition reg_guard :: "registry \<Rightarrow> bool \<Rightarrow> reg_result \<Rightarrow> reg_result" where
  "reg_guard rg correct r = (if \<not> rg_within_init rg \<or> \<not> correct then reg_err rg else r)"

text \<open>The path is added and, where that succeeds, the information of its node filled in.\<close>

definition reg_path ::
    "registry \<Rightarrow> cstr \<Rightarrow> dm_node_type \<Rightarrow> 32 word \<Rightarrow> (registry \<Rightarrow> node_ptr \<Rightarrow> reg_result) \<Rightarrow> reg_result" where
  "reg_path rg path type flags f =
    (case DM_PRIV_AddSchemaPath (rg_dm rg) path type flags of
       None \<Rightarrow> None
     | Some (st, node) \<Rightarrow>
        let rg1 = rg\<lparr>rg_dm := st\<rparr> in if node = NULL then reg_err rg1 else f rg1 node)"

definition set_param_info :: "dm_param_info \<Rightarrow> param_cbs \<Rightarrow> registry \<Rightarrow> node_ptr \<Rightarrow> reg_result" where
  "set_param_info info cbs rg node =
    (if \<not> IsParam (heap (rg_dm rg) node) then None
     else reg_ok (rg\<lparr>rg_dm := upd_node node (\<lambda>n. n\<lparr>param_info := info\<rparr>) (rg_dm rg),
       rg_param_cbs := (rg_param_cbs rg)(node := cbs)\<rparr>))"

definition set_object_info ::
    "dm_object_info \<Rightarrow> bool \<Rightarrow> bool \<Rightarrow> registry \<Rightarrow> node_ptr \<Rightarrow> reg_result" where
  "set_object_info info notify_add notify_del rg node =
    reg_ok (rg\<lparr>rg_dm := upd_node node (\<lambda>n. n\<lparr>object_info := info\<rparr>) (rg_dm rg),
      rg_notify_add := (rg_notify_add rg)(node := notify_add), rg_notify_del := (rg_notify_del rg)(node := notify_del)\<rparr>)"

definition set_oper_info :: "(dm_oper_info \<Rightarrow> dm_oper_info) \<Rightarrow> registry \<Rightarrow> node_ptr \<Rightarrow> reg_result" where
  "set_oper_info f rg node =
    (if \<not> IsOperation (heap (rg_dm rg) node) then None
     else reg_ok (rg\<lparr>rg_opers := (rg_opers rg)(node := f (rg_opers rg node))\<rparr>))"

definition the_text :: "cstr option \<Rightarrow> cstr" where
  "the_text v = (case v of None \<Rightarrow> [] | Some s \<Rightarrow> s)"

section \<open>Vendor hooks\<close>

text \<open>The hooks that are given replace those that are stored. NULL is no hook.\<close>

definition USP_REGISTER_CoreVendorHooks :: "registry \<Rightarrow> nat list option \<Rightarrow> reg_result" where
  "USP_REGISTER_CoreVendorHooks rg callbacks =
    reg_guard rg (callbacks \<noteq> None)
      (reg_ok (rg\<lparr>rg_vendor_hooks := map2 (\<lambda>cb old. if cb \<noteq> NULL then cb else old) (the callbacks) (rg_vendor_hooks rg)\<rparr>))"

definition USP_REGISTER_GroupVendorHooks :: "registry \<Rightarrow> int \<Rightarrow> group_cbs \<Rightarrow> reg_result" where
  "USP_REGISTER_GroupVendorHooks rg grp cbs =
    (if grp = NON_GROUPED \<or> grp < 0 \<or> int MAX_VENDOR_PARAM_GROUPS \<le> grp then reg_err rg
     else reg_ok (rg\<lparr>rg_groups := (rg_groups rg)(nat grp := cbs)\<rparr>))"

section \<open>Parameters\<close>

definition USP_REGISTER_Param_Constant :: "registry \<Rightarrow> cstr option \<Rightarrow> cstr option \<Rightarrow> 32 word \<Rightarrow> reg_result" where
  "USP_REGISTER_Param_Constant rg path v type_fl =
    reg_guard rg (path \<noteq> None \<and> v \<noteq> None)
      (reg_path rg (the path) kDMNodeType_Param_ConstantValue 0
        (set_param_info \<lparr>default_value = v, param_group_id = NON_GROUPED, type_flags = type_fl, table_node = NULL\<rparr> no_cbs))"

definition USP_REGISTER_Param_NumEntries :: "registry \<Rightarrow> cstr option \<Rightarrow> cstr option \<Rightarrow> reg_result" where
  "USP_REGISTER_Param_NumEntries rg path table =
    reg_guard rg (path \<noteq> None \<and> table \<noteq> None)
      (reg_path rg (the path) kDMNodeType_Param_NumEntries 0 (\<lambda>rg1 param.
       reg_path rg1 (the table) kDMNodeType_Object_MultiInstance SUPPRESS_PRE_EXISTANCE_ERR (\<lambda>rg2 tbl.
         let pn = heap (rg_dm rg2) param; tn = heap (rg_dm rg2) tbl; k = node_order pn - 1
         in if node_order pn + 1 \<noteq> node_order tn then reg_err rg2
            else if 0 < node_order pn \<and> instance_nodes pn ! k \<noteq> instance_nodes tn ! k then reg_err rg2
            else set_param_info \<lparr>default_value = None, param_group_id = NON_GROUPED, type_flags = DM_UINT, table_node = tbl\<rparr>
              no_cbs rg2 param)))"

text \<open>The names in the buffer; \<open>at_start\<close> while nothing has been written.\<close>

fun supported_list :: "bool \<Rightarrow> cstr list \<Rightarrow> nat \<Rightarrow> cstr" where
  "supported_list at_start [] len = []"
| "supported_list at_start (e # es) len =
    (let (sep, n1) = (if at_start then ([], 0) else USP_SNPRINTF len '', ''); len1 = len - n1;
         (txt, n2) = (if e \<noteq> [] then USP_SNPRINTF len1 e else ([], 0))
     in sep @ txt @ supported_list (at_start \<and> n2 = 0) es (len1 - n2))"

definition USP_REGISTER_Param_SupportedList :: "registry \<Rightarrow> cstr option \<Rightarrow> cstr list \<Rightarrow> reg_result" where
  "USP_REGISTER_Param_SupportedList rg path enums =
    USP_REGISTER_Param_Constant rg path (Some (supported_list True enums MAX_DM_VALUE_LEN)) DM_STRING"

definition db_info :: "cstr option \<Rightarrow> 32 word \<Rightarrow> dm_param_info" where
  "db_info v type_fl = \<lparr>default_value = Some (the_text v), param_group_id = NON_GROUPED, type_flags = type_fl, table_node = NULL\<rparr>"

definition USP_REGISTER_DBParam_ReadWrite ::
    "registry \<Rightarrow> cstr option \<Rightarrow> cstr option \<Rightarrow> bool \<Rightarrow> bool \<Rightarrow> 32 word \<Rightarrow> reg_result" where
  "USP_REGISTER_DBParam_ReadWrite rg path v validator notify_set type_fl =
    reg_guard rg (path \<noteq> None)
      (reg_path rg (the path) kDMNodeType_DBParam_ReadWrite 0
        (set_param_info (db_info v type_fl) (no_cbs\<lparr>pc_validator := validator, pc_notify_set := notify_set\<rparr>)))"

definition USP_REGISTER_DBParam_SecureWithType ::
    "registry \<Rightarrow> cstr option \<Rightarrow> cstr option \<Rightarrow> bool \<Rightarrow> bool \<Rightarrow> 32 word \<Rightarrow> reg_result" where
  "USP_REGISTER_DBParam_SecureWithType rg path v validator notify_set type_fl =
    reg_guard rg (path \<noteq> None)
      (reg_path rg (the path) kDMNodeType_DBParam_Secure 0
        (set_param_info (db_info v type_fl) (no_cbs\<lparr>pc_validator := validator, pc_notify_set := notify_set\<rparr>)))"

definition USP_REGISTER_DBParam_Secure :: "registry \<Rightarrow> cstr option \<Rightarrow> cstr option \<Rightarrow> bool \<Rightarrow> bool \<Rightarrow> reg_result" where
  "USP_REGISTER_DBParam_Secure rg path v validator notify_set =
    USP_REGISTER_DBParam_SecureWithType rg path v validator notify_set DM_STRING"

definition USP_REGISTER_DBParam_ReadOnly :: "registry \<Rightarrow> cstr option \<Rightarrow> cstr option \<Rightarrow> 32 word \<Rightarrow> reg_result" where
  "USP_REGISTER_DBParam_ReadOnly rg path v type_fl =
    reg_guard rg (path \<noteq> None)
      (reg_path rg (the path) kDMNodeType_DBParam_ReadOnly 0 (set_param_info (db_info v type_fl) no_cbs))"

definition vendor_info :: "int \<Rightarrow> 32 word \<Rightarrow> dm_param_info" where
  "vendor_info grp type_fl = \<lparr>default_value = None, param_group_id = grp, type_flags = type_fl, table_node = NULL\<rparr>"

definition USP_REGISTER_VendorParam_ReadOnly :: "registry \<Rightarrow> cstr option \<Rightarrow> bool \<Rightarrow> 32 word \<Rightarrow> reg_result" where
  "USP_REGISTER_VendorParam_ReadOnly rg path get type_fl =
    reg_guard rg (path \<noteq> None \<and> get)
      (reg_path rg (the path) kDMNodeType_VendorParam_ReadOnly 0
        (set_param_info (vendor_info NON_GROUPED type_fl) (no_cbs\<lparr>pc_get := get\<rparr>)))"

definition USP_REGISTER_VendorParam_ReadWrite ::
    "registry \<Rightarrow> cstr option \<Rightarrow> bool \<Rightarrow> bool \<Rightarrow> bool \<Rightarrow> 32 word \<Rightarrow> reg_result" where
  "USP_REGISTER_VendorParam_ReadWrite rg path get st notify_set type_fl =
    reg_guard rg (path \<noteq> None \<and> get \<and> st)
      (reg_path rg (the path) kDMNodeType_VendorParam_ReadWrite 0
        (set_param_info (vendor_info NON_GROUPED type_fl)
          \<lparr>pc_get = get, pc_set = st, pc_validator = False, pc_notify_set = notify_set\<rparr>))"

definition USP_REGISTER_GroupedVendorParam_ReadOnly :: "registry \<Rightarrow> int \<Rightarrow> cstr option \<Rightarrow> 32 word \<Rightarrow> reg_result" where
  "USP_REGISTER_GroupedVendorParam_ReadOnly rg grp path type_fl =
    reg_guard rg (path \<noteq> None \<and> grp \<noteq> NON_GROUPED \<and> grp < int MAX_VENDOR_PARAM_GROUPS)
      (reg_path rg (the path) kDMNodeType_VendorParam_ReadOnly 0 (set_param_info (vendor_info grp type_fl) no_cbs))"

definition USP_REGISTER_GroupedVendorParam_ReadWrite :: "registry \<Rightarrow> int \<Rightarrow> cstr option \<Rightarrow> 32 word \<Rightarrow> reg_result" where
  "USP_REGISTER_GroupedVendorParam_ReadWrite rg grp path type_fl =
    reg_guard rg (path \<noteq> None \<and> grp \<noteq> NON_GROUPED \<and> grp < int MAX_VENDOR_PARAM_GROUPS)
      (reg_path rg (the path) kDMNodeType_VendorParam_ReadWrite 0 (set_param_info (vendor_info grp type_fl) no_cbs))"

definition USP_REGISTER_DBParam_ReadOnlyAuto :: "registry \<Rightarrow> cstr option \<Rightarrow> bool \<Rightarrow> 32 word \<Rightarrow> reg_result" where
  "USP_REGISTER_DBParam_ReadOnlyAuto rg path get type_fl =
    reg_guard rg (path \<noteq> None \<and> get)
      (reg_path rg (the path) kDMNodeType_DBParam_ReadOnlyAuto 0
        (set_param_info (db_info (Some []) type_fl) (no_cbs\<lparr>pc_get := get\<rparr>)))"

definition USP_REGISTER_DBParam_ReadWriteAuto ::
    "registry \<Rightarrow> cstr option \<Rightarrow> bool \<Rightarrow> bool \<Rightarrow> bool \<Rightarrow> 32 word \<Rightarrow> reg_result" where
  "USP_REGISTER_DBParam_ReadWriteAuto rg path get validator notify_set type_fl =
    reg_guard rg (path \<noteq> None \<and> get)
      (reg_path rg (the path) kDMNodeType_DBParam_ReadWriteAuto 0
        (set_param_info (db_info (Some []) type_fl)
          \<lparr>pc_get = get, pc_set = False, pc_validator = validator, pc_notify_set = notify_set\<rparr>))"

section \<open>Objects\<close>

text \<open>The hooks: validate add, add, notify add, validate delete, delete, notify delete.\<close>

definition USP_REGISTER_Object ::
    "registry \<Rightarrow> cstr option \<Rightarrow> bool \<Rightarrow> bool \<Rightarrow> bool \<Rightarrow> bool \<Rightarrow> bool \<Rightarrow> bool \<Rightarrow> reg_result" where
  "USP_REGISTER_Object rg path validate_add add notify_add validate_del del notify_del =
    reg_guard rg (path \<noteq> None)
      (reg_path rg (the path) kDMNodeType_Object_MultiInstance 0
        (set_object_info (zero_object_info\<lparr>validate_add_cb := validate_add, add_cb := add, validate_del_cb := validate_del,
          del_cb := del, group_id := NON_GROUPED\<rparr>) notify_add notify_del))"

definition USP_REGISTER_GroupedObject :: "registry \<Rightarrow> int \<Rightarrow> cstr option \<Rightarrow> bool \<Rightarrow> reg_result" where
  "USP_REGISTER_GroupedObject rg grp path is_writable =
    reg_guard rg (path \<noteq> None \<and> grp < int MAX_VENDOR_PARAM_GROUPS)
      (reg_path rg (the path) kDMNodeType_Object_MultiInstance 0
        (set_object_info (zero_object_info\<lparr>group_id := grp, group_writable := is_writable\<rparr>) False False))"

text \<open>The parameters of a unique key must be there already; the key holds the names of their nodes.\<close>

definition key_param_ok :: "dm_state \<Rightarrow> node_ptr \<Rightarrow> cstr \<Rightarrow> bool" where
  "key_param_ok st node param \<longleftrightarrow>
    (let child = DM_PRIV_FindMatchingChild st node param in child \<noteq> NULL \<and> IsParam (heap st child))"

definition USP_REGISTER_Object_UniqueKey :: "registry \<Rightarrow> cstr option \<Rightarrow> cstr option list option \<Rightarrow> reg_result" where
  "USP_REGISTER_Object_UniqueKey rg path params =
    reg_guard rg (path \<noteq> None \<and> params \<noteq> None \<and> 1 \<le> length (the params) \<and> length (the params) \<le> MAX_COMPOUND_KEY_PARAMS \<and>
        None \<notin> set (the params))
      (reg_path rg (the path) kDMNodeType_Object_MultiInstance SUPPRESS_PRE_EXISTANCE_ERR (\<lambda>rg1 node.
        let names = map the (the params); st = rg_dm rg1
        in if \<not> list_all (key_param_ok st node) names then reg_err rg1
           else case DM_PRIV_AddUniqueKey st node (map (\<lambda>p. node_name (heap st (DM_PRIV_FindMatchingChild st node p))) names) of
                  None \<Rightarrow> None | Some st1 \<Rightarrow> reg_ok (rg1\<lparr>rg_dm := st1\<rparr>)))"

text \<open>The path up to its last separator; the code writes through a null pointer where there is none.\<close>

definition cut_at_last_dot :: "cstr \<Rightarrow> (cstr \<times> cstr) option" where
  "cut_at_last_dot s =
    (if CHR ''.'' \<in> set s
     then Some (rev (drop 1 (dropWhile (\<lambda>c. c \<noteq> CHR ''.'') (rev s))), rev (takeWhile (\<lambda>c. c \<noteq> CHR ''.'') (rev s)))
     else None)"

definition USP_REGISTER_DBParam_Alias :: "registry \<Rightarrow> cstr option \<Rightarrow> bool \<Rightarrow> reg_result" where
  "USP_REGISTER_DBParam_Alias rg path notify_set =
    (if \<not> rg_within_init rg then reg_err rg
     else case USP_REGISTER_DBParam_ReadWriteAuto rg path True True notify_set DM_STRING of
            None \<Rightarrow> None
          | Some (rg1, Inl err) \<Rightarrow> Some (rg1, Inl err)
          | Some (rg1, Inr _) \<Rightarrow>
             (case cut_at_last_dot (USP_STRNCPY (the path) MAX_DM_PATH) of
                None \<Rightarrow> None
              | Some (tbl, _) \<Rightarrow> USP_REGISTER_Object_UniqueKey rg1 (Some tbl) (Some [Some ''Alias''])))"

definition USP_REGISTER_Object_RefreshInstances :: "registry \<Rightarrow> cstr option \<Rightarrow> bool \<Rightarrow> reg_result" where
  "USP_REGISTER_Object_RefreshInstances rg path refresh =
    reg_guard rg (path \<noteq> None \<and> refresh)
      (reg_path rg (the path) kDMNodeType_Object_MultiInstance SUPPRESS_PRE_EXISTANCE_ERR (\<lambda>rg1 node.
        if node_order (heap (rg_dm rg1) node) \<noteq> 1 then reg_err rg1
        else reg_ok (rg1\<lparr>rg_dm := upd_node node (\<lambda>n. n\<lparr>object_info := (object_info n)\<lparr>refresh_instances_cb := refresh\<rparr>\<rparr>)
          (rg_dm rg1)\<rparr>)))"

section \<open>Operations and events\<close>

definition USP_REGISTER_SyncOperation :: "registry \<Rightarrow> cstr option \<Rightarrow> bool \<Rightarrow> reg_result" where
  "USP_REGISTER_SyncOperation rg path sync_cb =
    reg_guard rg (path \<noteq> None \<and> sync_cb \<and> suffix ''()'' (the path))
      (reg_path rg (the path) kDMNodeType_SyncOperation 0 (set_oper_info (\<lambda>_. zero_oper_info\<lparr>op_sync_cb := sync_cb\<rparr>)))"

definition USP_REGISTER_AsyncOperation :: "registry \<Rightarrow> cstr option \<Rightarrow> bool \<Rightarrow> bool \<Rightarrow> reg_result" where
  "USP_REGISTER_AsyncOperation rg path async_cb restart_cb =
    reg_guard rg (path \<noteq> None \<and> async_cb \<and> suffix ''()'' (the path))
      (reg_path rg (the path) kDMNodeType_AsyncOperation 0
        (set_oper_info (\<lambda>_. zero_oper_info\<lparr>op_async_cb := async_cb, op_restart_cb := restart_cb, op_max_concurrency := INT_MAX\<rparr>)))"

definition USP_REGISTER_AsyncOperation_MaxConcurrency :: "registry \<Rightarrow> cstr option \<Rightarrow> int \<Rightarrow> reg_result" where
  "USP_REGISTER_AsyncOperation_MaxConcurrency rg path max_concurrency =
    reg_guard rg (path \<noteq> None)
      (case DM_PRIV_GetNodeFromPath (rg_dm rg) (the path) False False of
         None \<Rightarrow> reg_err rg
       | Some (node, _, _) \<Rightarrow> set_oper_info (\<lambda>info. info\<lparr>op_max_concurrency := max_concurrency\<rparr>) rg node)"

text \<open>
  The names of arguments: an array (\<open>None\<close> is NULL), whose length is given beside it and is 0 or less for
  an array with no names. An array of names is copied where it is given.
\<close>

definition names_ok :: "cstr option list option \<Rightarrow> int \<Rightarrow> bool" where
  "names_ok names n \<longleftrightarrow> (0 < n \<longrightarrow> names \<noteq> None \<and> None \<notin> set (take (nat n) (the names)))"

definition cloned :: "cstr option list option \<Rightarrow> int \<Rightarrow> str_vector \<Rightarrow> str_vector" where
  "cloned names n old = (case names of None \<Rightarrow> old | Some ns \<Rightarrow> map the (take (nat n) ns))"

definition USP_REGISTER_OperationArguments ::
    "registry \<Rightarrow> cstr \<Rightarrow> cstr option list option \<Rightarrow> int \<Rightarrow> cstr option list option \<Rightarrow> int \<Rightarrow> reg_result" where
  "USP_REGISTER_OperationArguments rg path inputs num_inputs outputs num_outputs =
    reg_guard rg (names_ok inputs num_inputs \<and> names_ok outputs num_outputs)
      (reg_path rg path kDMNodeType_AsyncOperation (SUPPRESS_PRE_EXISTANCE_ERR OR SUPPRESS_LAST_TYPE_CHECK) (\<lambda>rg1 node.
        if \<not> IsOperation (heap (rg_dm rg1) node) then reg_err rg1
        else set_oper_info (\<lambda>info. info\<lparr>op_input_args := cloned inputs num_inputs (op_input_args info),
          op_output_args := cloned outputs num_outputs (op_output_args info)\<rparr>) rg1 node))"

definition USP_REGISTER_Event :: "registry \<Rightarrow> cstr option \<Rightarrow> reg_result" where
  "USP_REGISTER_Event rg path =
    reg_guard rg (path \<noteq> None \<and> suffix ''!'' (the path)) (reg_path rg (the path) kDMNodeType_Event 0 (\<lambda>rg1 node. reg_ok rg1))"

definition USP_REGISTER_EventArguments :: "registry \<Rightarrow> cstr \<Rightarrow> cstr option list option \<Rightarrow> int \<Rightarrow> reg_result" where
  "USP_REGISTER_EventArguments rg path args num_args =
    reg_guard rg (names_ok args num_args)
      (reg_path rg path kDMNodeType_Event SUPPRESS_PRE_EXISTANCE_ERR (\<lambda>rg1 node.
        if node_type (heap (rg_dm rg1) node) \<noteq> kDMNodeType_Event then None
        else reg_ok (rg1\<lparr>rg_event_args := (rg_event_args rg1)(node := cloned args num_args (rg_event_args rg1 node))\<rparr>)))"

section \<open>Aliases\<close>

text \<open>The value of the parameter in every other instance of the table is another one.\<close>

fun check_unique :: "hooks \<Rightarrow> agent \<Rightarrow> cstr \<Rightarrow> cstr \<Rightarrow> cstr \<Rightarrow> int \<Rightarrow> int list \<Rightarrow> unit ag_result" where
  "check_unique h ag tbl param v req_instance [] = ag_ok ag ()"
| "check_unique h ag tbl param v req_instance (i # iv) =
    (if i = req_instance then check_unique h ag tbl param v req_instance iv
     else ag_bind (DATA_MODEL_GetParameterValue h ag (fst (USP_SNPRINTF MAX_DM_PATH (tbl @ ''.'' @ show_int i @ ''.'' @ param)))
            MAX_DM_SHORT_VALUE_LEN 0)
          (\<lambda>ag1 buf. if buf = v then ag_err ag1 USP_ERR_INVALID_ARGUMENTS else check_unique h ag1 tbl param v req_instance iv))"

definition ValidateParamUniqueness :: "hooks \<Rightarrow> agent \<Rightarrow> dm_req \<Rightarrow> cstr \<Rightarrow> unit ag_result" where
  "ValidateParamUniqueness h ag req v =
    (case cut_at_last_dot (USP_STRNCPY (rq_path req) MAX_DM_PATH) of
       None \<Rightarrow> None
     | Some (object_path, param) \<Rightarrow>
        (case cut_at_last_dot object_path of
           None \<Rightarrow> None
         | Some (tbl, _) \<Rightarrow>
            if order (rq_inst req) = 0 then None
            else ag_bind (DATA_MODEL_GetInstances h ag tbl) (\<lambda>ag1 iv.
              check_unique h ag1 tbl param v (instances (rq_inst req) ! (order (rq_inst req) - 1)) iv)))"

definition DEFAULT_ALIAS_PREFIX :: cstr where "DEFAULT_ALIAS_PREFIX = ''cpe-''"

definition ValidateAliasParam :: "hooks \<Rightarrow> agent \<Rightarrow> dm_req \<Rightarrow> cstr \<Rightarrow> unit ag_result" where
  "ValidateAliasParam h ag req v =
    (if v = [] then ag_err ag USP_ERR_INVALID_ARGUMENTS
     else if \<not> IS_ALPHA (hd v) then ag_err ag USP_ERR_INVALID_ARGUMENTS
     else ag_bind (DATA_MODEL_GetParameterValue h ag (rq_path req) MAX_DM_SHORT_VALUE_LEN 0) (\<lambda>ag1 cur_value.
       if cur_value \<noteq> [] \<and> take (length DEFAULT_ALIAS_PREFIX) cur_value \<noteq> DEFAULT_ALIAS_PREFIX
       then ag_err ag1 USP_ERR_INVALID_ARGUMENTS
       else ValidateParamUniqueness h ag1 req v))"

lemma check_unique_differs:
  assumes "check_unique h ag tbl param v n iv = Some (ag', USP_OK)" "i \<in> set iv" "i \<noteq> n"
  shows "\<exists>ag1 ag2 buf. reads_only ag ag1 \<and> DATA_MODEL_GetParameterValue h ag1
    (fst (USP_SNPRINTF MAX_DM_PATH (tbl @ ''.'' @ show_int i @ ''.'' @ param))) MAX_DM_SHORT_VALUE_LEN 0 = Some (ag2, Inr buf) \<and> buf \<noteq> v"
  using assms
proof (induction iv arbitrary: ag)
  case (Cons j iv)
  show ?case
  proof (cases "j = n")
    case True
    then show ?thesis using Cons by simp
  next
    case False
    then obtain ag1 buf where r: "DATA_MODEL_GetParameterValue h ag (fst (USP_SNPRINTF MAX_DM_PATH (tbl @ ''.'' @ show_int j @ ''.'' @ param)))
        MAX_DM_SHORT_VALUE_LEN 0 = Some (ag1, Inr buf)" "buf \<noteq> v" "check_unique h ag1 tbl param v n iv = Some (ag', USP_OK)"
      using Cons.prems(1) by (auto simp: ag_bind_Inr_iff split: if_splits)
    show ?thesis
    proof (cases "i = j")
      case True
      then show ?thesis using r reads.R_refl by blast
    next
      case False
      then have "i \<in> set iv" using Cons.prems(2) by simp
      from Cons.IH [OF r(3) this Cons.prems(3)] stepsD [OF GetParameterValue_tree r(1)] show ?thesis
        using reads.R_trans by blast
    qed
  qed
qed simp

text \<open>An alias starts with a letter, replaces no alias but a default one, and differs from the others of its table.\<close>

lemma ValidateAliasParam_ok:
  assumes "ValidateAliasParam h ag req v = Some (ag', USP_OK)"
  obtains ag1 cur object_path param tbl s ag2 iv where
    "v \<noteq> []" "IS_ALPHA (hd v)"
    "DATA_MODEL_GetParameterValue h ag (rq_path req) MAX_DM_SHORT_VALUE_LEN 0 = Some (ag1, Inr cur)"
    "cur = [] \<or> take (length DEFAULT_ALIAS_PREFIX) cur = DEFAULT_ALIAS_PREFIX"
    "cut_at_last_dot (USP_STRNCPY (rq_path req) MAX_DM_PATH) = Some (object_path, param)" "cut_at_last_dot object_path = Some (tbl, s)"
    "DATA_MODEL_GetInstances h ag1 tbl = Some (ag2, Inr iv)"
    "\<forall>i\<in>set iv. i \<noteq> instances (rq_inst req) ! (order (rq_inst req) - 1) \<longrightarrow>
      (\<exists>ag3 ag4 buf. reads_only ag2 ag3 \<and> DATA_MODEL_GetParameterValue h ag3
        (fst (USP_SNPRINTF MAX_DM_PATH (tbl @ ''.'' @ show_int i @ ''.'' @ param))) MAX_DM_SHORT_VALUE_LEN 0 = Some (ag4, Inr buf) \<and>
        buf \<noteq> v)"
proof -
  obtain ag1 cur where c: "v \<noteq> []" "IS_ALPHA (hd v)"
    "DATA_MODEL_GetParameterValue h ag (rq_path req) MAX_DM_SHORT_VALUE_LEN 0 = Some (ag1, Inr cur)"
    "cur = [] \<or> take (length DEFAULT_ALIAS_PREFIX) cur = DEFAULT_ALIAS_PREFIX" "ValidateParamUniqueness h ag1 req v = Some (ag', USP_OK)"
    using assms by (auto simp: ValidateAliasParam_def ag_bind_Inr_iff split: if_splits)
  from c(5) obtain object_path param tbl s ag2 iv where
    u: "cut_at_last_dot (USP_STRNCPY (rq_path req) MAX_DM_PATH) = Some (object_path, param)" "cut_at_last_dot object_path = Some (tbl, s)"
    "DATA_MODEL_GetInstances h ag1 tbl = Some (ag2, Inr iv)"
    "check_unique h ag2 tbl param v (instances (rq_inst req) ! (order (rq_inst req) - 1)) iv = Some (ag', USP_OK)"
    by (auto simp: ValidateParamUniqueness_def ag_bind_Inr_iff split: option.splits if_splits)
  show thesis by (rule that [OF c(1-4) u(1-3)]) (use check_unique_differs [OF u(4)] in blast)
qed

section \<open>What adding a path keeps\<close>

text \<open>Nodes that are there keep their type and their information, and stay where they are.\<close>

definition info_kept :: "dm_state \<Rightarrow> dm_state \<Rightarrow> bool" where
  "info_kept st st' \<longleftrightarrow> tree_extends st st' \<and>
    (\<forall>q\<in>map_nodes st. param_info (heap st' q) = param_info (heap st q) \<and> node_order (heap st' q) = node_order (heap st q))"

lemma info_kept_refl: "info_kept st st"
  by (simp add: info_kept_def tree_extends_refl)

lemma info_kept_trans: "info_kept st1 st2 \<Longrightarrow> info_kept st2 st3 \<Longrightarrow> info_kept st1 st3"
proof -
  assume a: "info_kept st1 st2" and b: "info_kept st2 st3"
  have "map_nodes st1 \<subseteq> map_nodes st2" using a by (simp add: info_kept_def tree_extends_def)
  then show ?thesis using a b tree_extends_trans [of st1 st2 st3] by (auto simp: info_kept_def)
qed

text \<open>
  The nodes a path adds: \<open>p\<close> at its end, and single instance objects on the way, all allocated after
  the others.
\<close>

definition adds_objects :: "dm_state \<Rightarrow> dm_state \<Rightarrow> node_ptr \<Rightarrow> bool" where
  "adds_objects st st' p \<longleftrightarrow>
    (\<forall>q\<in>map_nodes st' - map_nodes st. next_ptr st \<le> q \<and>
      (q = p \<or> node_type (heap st' q) = kDMNodeType_Object_SingleInstance))"

definition object_type :: "dm_node_type \<Rightarrow> bool" where
  "object_type t \<longleftrightarrow> t = kDMNodeType_Object_MultiInstance \<or> t = kDMNodeType_Object_SingleInstance"

definition segs_typed :: "dm_path_segment list \<Rightarrow> bool" where
  "segs_typed segs \<longleftrightarrow> (\<forall>s\<in>set (butlast segs). object_type (seg_type s))"

lemma segs_typed_Cons: "segs_typed (s # segs) \<Longrightarrow> segs_typed segs \<and> (segs \<noteq> [] \<longrightarrow> object_type (seg_type s))"
  by (auto simp: segs_typed_def split: if_splits)

lemma add_child_kept:
  assumes ok: "tree_ok st" and parent: "parent \<in> map_nodes st"
    and c: "CreateNode st name t (child_path (heap st parent) name t) = (st1, c)" "c \<noteq> NULL"
    and st': "st' = init_child c ns (link_child parent c st1)"
  shows "info_kept st st'" "map_nodes st' = insert c (map_nodes st)" "node_type (heap st' c) = t"
    "c = next_ptr st" "next_ptr st \<le> next_ptr st'"
proof -
  have mok: "node_map_ok st" using ok by (simp add: tree_ok_def)
  note n = CreateNode_new [OF mok CreateNode_fields(6) [OF c] c(1)]
  have fresh: "c \<notin> map_nodes st" using mok n(1) by (auto simp: node_map_ok_def map_nodes_def)
  show "map_nodes st' = insert c (map_nodes st)" using n(3) by (simp add: map_nodes_def st' child_keeps)
  show "c = next_ptr st" by (rule n(1))
  show "next_ptr st \<le> next_ptr st'"
    using c(1) by (auto simp: st' child_keeps CreateNode_def Let_def split: if_splits)
  show "node_type (heap st' c) = t" using CreateNode_fields(2) [OF c] by (simp add: st' child_keeps)
  have "param_info (heap st' q) = param_info (heap st q) \<and> node_order (heap st' q) = node_order (heap st q)"
    if "q \<in> map_nodes st" for q
  proof -
    have "q \<noteq> c" using that fresh by blast
    then show ?thesis using n(7) by (simp add: st' init_child_def link_child_def)
  qed
  then show "info_kept st st'" using add_child_ok(2) [OF ok parent c st'] by (simp add: info_kept_def)
qed

lemma add_schema_loop_typed:
  assumes "add_schema_loop flags st parent sp ns segs = Some (st', p)" "tree_ok st" "parent \<in> map_nodes st"
    "node_path (heap st parent) = sp" "segs_typed segs" "p \<noteq> NULL"
  shows "info_kept st st' \<and> p \<in> map_nodes st' \<and> adds_objects st st' p \<and>
    (segs \<noteq> [] \<and> flags AND SUPPRESS_LAST_TYPE_CHECK = 0 \<longrightarrow> node_type (heap st' p) = seg_type (last segs)) \<and>
    (segs = [] \<longrightarrow> p = parent \<and> st' = st)"
  using assms
proof (induction flags st parent sp ns segs rule: add_schema_loop.induct)
  case (1 flags st parent sp ns)
  then show ?case by (simp add: info_kept_refl adds_objects_def)
next
  case (2 flags st parent sp ns seg segs)
  let ?m = "seg_type seg = kDMNodeType_Object_MultiInstance"
  let ?sp = "sp @ ''.'' @ seg_name seg @ (if ?m then ''.{i}'' else [])"
  let ?c = "DM_PRIV_FindMatchingChild st parent (seg_name seg)"
  have cp: "child_path (heap st parent) (seg_name seg) (seg_type seg) = ?sp"
    using "2.prems"(4) by (simp add: child_path_def)
  note typed = segs_typed_Cons [OF "2.prems"(5)]
  show ?case
  proof (cases "?c = NULL")
    case new: True
    then have seg_ok: "\<not> (?m \<and> segs \<noteq> [])" using "2.prems"(1,6) by (auto simp: Let_def split: if_splits)
    obtain st1 c where c: "CreateNode st (seg_name seg) (seg_type seg) ?sp = (st1, c)"
      by (cases "CreateNode st (seg_name seg) (seg_type seg) ?sp")
    have cn: "c \<noteq> NULL" using "2.prems"(1,6) new seg_ok c by (auto simp: Let_def split: if_splits)
    let ?ns = "if ?m then ns @ [c] else ns"
    let ?st = "init_child c ?ns (link_child parent c st1)"
    note a = add_child_kept [OF "2.prems"(2,3), of "seg_name seg" "seg_type seg" st1 c ?st ?ns, unfolded cp, OF c cn refl]
    note k = add_child_ok [OF "2.prems"(2,3), of "seg_name seg" "seg_type seg" st1 c ?st ?ns, unfolded cp, OF c cn refl]
    have full: "\<not> (?m \<and> length ns = MAX_DM_INSTANCE_ORDER)" and
      rec: "add_schema_loop flags ?st c ?sp ?ns segs = Some (st', p)"
      using "2.prems"(1) new seg_ok c cn by (auto simp: Let_def split: if_splits)
    have c_in: "c \<in> map_nodes ?st" "node_path (heap ?st c) = ?sp" using k(3) by (simp_all add: registered_def)
    have IH: "info_kept ?st st' \<and> p \<in> map_nodes st' \<and> adds_objects ?st st' p \<and>
        (segs \<noteq> [] \<and> flags AND SUPPRESS_LAST_TYPE_CHECK = 0 \<longrightarrow> node_type (heap st' p) = seg_type (last segs)) \<and>
        (segs = [] \<longrightarrow> p = c \<and> st' = ?st)"
      by (rule "2.IH"(1) [OF refl refl refl new seg_ok c [symmetric] refl cn full refl rec k(1) c_in conjunct1 [OF typed]
            "2.prems"(6)])
    have "adds_objects st st' p"
    proof (unfold adds_objects_def, rule ballI)
      fix q assume q: "q \<in> map_nodes st' - map_nodes st"
      show "next_ptr st \<le> q \<and> (q = p \<or> node_type (heap st' q) = kDMNodeType_Object_SingleInstance)"
      proof (cases "q = c \<and> segs \<noteq> []")
        case True
        then have "node_type (heap st' q) = seg_type seg" using IH a(3) c_in(1) by (auto simp: info_kept_def tree_extends_def)
        then show ?thesis using typed seg_ok True a(4) by (auto simp: object_type_def)
      next
        case False
        then have "q = p \<and> q = c \<or> q \<noteq> c" using IH by blast
        then show ?thesis
        proof
          assume "q \<noteq> c"
          then have "q \<in> map_nodes st' - map_nodes ?st" using q a(2) by blast
          then show ?thesis using IH a(5) unfolding adds_objects_def by (meson order_trans)
        qed (use a(4) in simp)
      qed
    qed
    then show ?thesis using IH a(3) info_kept_trans [OF a(1)] by auto
  next
    case found: False
    note f = FindMatchingChild_found [OF found]
    let ?ns = "if ?m then ns @ [?c] else ns"
    let ?check = "\<not> (segs = [] \<and> flags AND SUPPRESS_LAST_TYPE_CHECK \<noteq> 0)"
    have go: "\<not> (segs = [] \<and> flags AND SUPPRESS_PRE_EXISTANCE_ERR = 0)"
      "\<not> (?check \<and> node_type (heap st ?c) \<noteq> seg_type seg)"
      "\<not> (?m \<and> length ns = MAX_DM_INSTANCE_ORDER)" "\<not> node_order (heap st ?c) \<noteq> length ?ns"
      and rec: "add_schema_loop flags st ?c ?sp ?ns segs = Some (st', p)"
      using "2.prems"(1,6) found by (auto simp: Let_def split: if_splits)
    have c_in: "?c \<in> map_nodes st" and path: "node_path (heap st ?c) = child_path (heap st parent) (seg_name seg) (node_type (heap st ?c))"
      using "2.prems"(2,3) f by (auto simp: tree_ok_def)
    show ?thesis
    proof (cases "segs = []")
      case True
      then have "st' = st \<and> p = ?c" using rec by (metis add_schema_loop.simps(1) option.inject prod.inject)
      then show ?thesis using True go(2) c_in by (simp add: info_kept_refl adds_objects_def)
    next
      case False
      then have "node_path (heap st ?c) = ?sp" using path go(2) cp by simp
      from "2.IH"(2) [OF refl refl refl found go(1) refl go(2) go(3) refl go(4) rec "2.prems"(2) c_in this conjunct1 [OF typed]
          "2.prems"(6)]
      show ?thesis using False by simp
    qed
  qed
qed

lemma parse_segments_typed:
  assumes "parse_segments n c cs segs = Some (Some segs')" "\<forall>s\<in>set segs. object_type (seg_type s)"
  shows "\<forall>s\<in>set segs'. object_type (seg_type s)"
  using assms
proof (induction n c cs segs rule: parse_segments.induct)
  case (2 max_segments last_char c rest segs)
  have "\<forall>s\<in>set (retype_last kDMNodeType_Object_MultiInstance segs). object_type (seg_type s)"
    using "2.prems"(2) by (auto simp: retype_last_def object_type_def dest: in_set_butlastD)
  then show ?case using 2 by (auto simp: Let_def object_type_def split: if_splits)
qed simp

lemma ParseSchemaPath_typed:
  assumes "ParseSchemaPath path len t n = Some (Some segs)"
  shows "segs_typed segs \<and> (segs \<noteq> [] \<longrightarrow> seg_type (last segs) = t \<or>
    (t = kDMNodeType_Object_MultiInstance \<and> object_type (seg_type (last segs))))"
proof -
  obtain segs0 where p: "parse_segments n NUL (take (snd (strncpy_path_segments path len)) (fst (strncpy_path_segments path len))) [] =
      Some (Some segs0)"
    and s: "segs = (if t \<noteq> kDMNodeType_Object_MultiInstance \<and> segs0 \<noteq> [] then retype_last t segs0 else segs0)"
    using assms by (auto simp: ParseSchemaPath_def split: prod.splits option.splits)
  have "\<forall>s\<in>set segs0. object_type (seg_type s)" by (rule parse_segments_typed [OF p]) simp
  then show ?thesis using s by (auto simp: segs_typed_def retype_last_def object_type_def dest: in_set_butlastD)
qed

lemma AddSchemaPath_typed:
  assumes "DM_PRIV_AddSchemaPath st path t flags = Some (st', p)" "tree_ok st" "p \<noteq> NULL"
  shows "info_kept st st'" "p \<in> map_nodes st'" "adds_objects st st' p"
    "flags AND SUPPRESS_LAST_TYPE_CHECK = 0 \<Longrightarrow> node_type (heap st' p) = t \<or> p = root_device_node st \<or> p = root_internal_node st \<or>
      (t = kDMNodeType_Object_MultiInstance \<and> IsObject (heap st' p))"
proof -
  obtain seg segs root where r: "ParseSchemaPath path MAX_DM_PATH t MAX_PATH_SEGMENTS = Some (Some (seg # segs))"
    "add_schema_loop flags st root (seg_name seg) [] segs = Some (st', p)"
    "root = root_device_node st \<or> root = root_internal_node st" "seg_name seg = node_name (heap st root)"
    using assms(1,3) by (auto simp: DM_PRIV_AddSchemaPath_def split: option.splits list.splits if_splits)
  have root: "root \<in> map_nodes st" "node_path (heap st root) = seg_name seg"
    using assms(2) r(3,4) by (auto simp: tree_ok_def)
  note t = ParseSchemaPath_typed [OF r(1)]
  note l = add_schema_loop_typed [OF r(2) assms(2) root conjunct1 [OF segs_typed_Cons [OF conjunct1 [OF t]]] assms(3)]
  show "info_kept st st'" "p \<in> map_nodes st'" "adds_objects st st' p" using l by blast+
  show "node_type (heap st' p) = t \<or> p = root_device_node st \<or> p = root_internal_node st \<or>
      (t = kDMNodeType_Object_MultiInstance \<and> IsObject (heap st' p))" if "flags AND SUPPRESS_LAST_TYPE_CHECK = 0"
    using l t that r(3) by (cases "segs = []") (auto simp: IsObject_def object_type_def)
qed

section \<open>Well-typed schemas\<close>

text \<open>
  What the code that reads a node relies on, by its type: a default value where the type has one, the
  callbacks that it calls, and the table whose entries a parameter counts.
\<close>

definition db_param_typed :: "dm_param_info \<Rightarrow> bool" where
  "db_param_typed info \<longleftrightarrow> default_value info \<noteq> None \<and> param_group_id info = NON_GROUPED"

definition counts_table :: "dm_state \<Rightarrow> node_ptr \<Rightarrow> bool" where
  "counts_table st p \<longleftrightarrow>
    (let t = table_node (param_info (heap st p))
     in t \<in> map_nodes st \<and> IsObject (heap st t) \<and> node_order (heap st t) = node_order (heap st p) + 1)"

definition typed_as :: "dm_node_type \<Rightarrow> dm_param_info \<Rightarrow> param_cbs \<Rightarrow> bool \<Rightarrow> bool \<Rightarrow> bool \<Rightarrow> bool" where
  "typed_as t info cbs sync_cb async_cb counts =
    (case t of
       kDMNodeType_Param_ConstantValue \<Rightarrow> db_param_typed info
     | kDMNodeType_DBParam_ReadWrite \<Rightarrow> db_param_typed info
     | kDMNodeType_DBParam_ReadOnly \<Rightarrow> db_param_typed info
     | kDMNodeType_DBParam_Secure \<Rightarrow> db_param_typed info
     | kDMNodeType_DBParam_ReadOnlyAuto \<Rightarrow> db_param_typed info \<and> pc_get cbs
     | kDMNodeType_DBParam_ReadWriteAuto \<Rightarrow> db_param_typed info \<and> pc_get cbs
     | kDMNodeType_Param_NumEntries \<Rightarrow> counts
     | kDMNodeType_VendorParam_ReadOnly \<Rightarrow> param_group_id info = NON_GROUPED \<longrightarrow> pc_get cbs
     | kDMNodeType_VendorParam_ReadWrite \<Rightarrow> param_group_id info = NON_GROUPED \<longrightarrow> pc_get cbs \<and> pc_set cbs
     | kDMNodeType_SyncOperation \<Rightarrow> sync_cb
     | kDMNodeType_AsyncOperation \<Rightarrow> async_cb
     | _ \<Rightarrow> True)"

definition node_typed :: "registry \<Rightarrow> node_ptr \<Rightarrow> bool" where
  "node_typed rg p = typed_as (node_type (heap (rg_dm rg) p)) (param_info (heap (rg_dm rg) p)) (rg_param_cbs rg p)
    (op_sync_cb (rg_opers rg p)) (op_async_cb (rg_opers rg p)) (counts_table (rg_dm rg) p)"

lemma typed_as_object: "t = kDMNodeType_Object_SingleInstance \<or> t = kDMNodeType_Object_MultiInstance \<Longrightarrow> typed_as t i c s a k"
  by (auto simp: typed_as_def)

lemma typed_as_mono: "typed_as t i c s a k \<Longrightarrow> (k \<Longrightarrow> k') \<Longrightarrow> typed_as t i c s a k'"
  by (auto simp: typed_as_def split: dm_node_type.splits)

definition schema_typed :: "registry \<Rightarrow> bool" where
  "schema_typed rg \<longleftrightarrow> tree_ok (rg_dm rg) \<and> IsObject (heap (rg_dm rg) (root_device_node (rg_dm rg))) \<and>
    IsObject (heap (rg_dm rg) (root_internal_node (rg_dm rg))) \<and> (\<forall>p\<in>map_nodes (rg_dm rg). node_typed rg p)"

text \<open>A registration, and a sequence of them as the components make it.\<close>

datatype registration =
    Core_Vendor_Hooks "nat list option"
  | Group_Hooks int group_cbs
  | Constant "cstr option" "cstr option" "32 word"
  | Num_Entries "cstr option" "cstr option"
  | Supported_List "cstr option" "cstr list"
  | DB_ReadWrite "cstr option" "cstr option" bool bool "32 word"
  | DB_Secure "cstr option" "cstr option" bool bool "32 word"
  | DB_ReadOnly "cstr option" "cstr option" "32 word"
  | Vendor_ReadOnly "cstr option" bool "32 word"
  | Vendor_ReadWrite "cstr option" bool bool bool "32 word"
  | Grouped_ReadOnly int "cstr option" "32 word"
  | Grouped_ReadWrite int "cstr option" "32 word"
  | DB_ReadOnlyAuto "cstr option" bool "32 word"
  | DB_ReadWriteAuto "cstr option" bool bool bool "32 word"
  | Alias "cstr option" bool
  | Object "cstr option" bool bool bool bool bool bool
  | Grouped_Object int "cstr option" bool
  | Unique_Key "cstr option" "cstr option list option"
  | Refresh_Instances "cstr option" bool
  | Sync_Operation "cstr option" bool
  | Async_Operation "cstr option" bool bool
  | Max_Concurrency "cstr option" int
  | Operation_Arguments cstr "cstr option list option" int "cstr option list option" int
  | Event "cstr option"
  | Event_Arguments cstr "cstr option list option" int

fun register :: "registry \<Rightarrow> registration \<Rightarrow> reg_result" where
  "register rg (Core_Vendor_Hooks cbs) = USP_REGISTER_CoreVendorHooks rg cbs"
| "register rg (Group_Hooks g cbs) = USP_REGISTER_GroupVendorHooks rg g cbs"
| "register rg (Constant p v t) = USP_REGISTER_Param_Constant rg p v t"
| "register rg (Num_Entries p tbl) = USP_REGISTER_Param_NumEntries rg p tbl"
| "register rg (Supported_List p es) = USP_REGISTER_Param_SupportedList rg p es"
| "register rg (DB_ReadWrite p v c n t) = USP_REGISTER_DBParam_ReadWrite rg p v c n t"
| "register rg (DB_Secure p v c n t) = USP_REGISTER_DBParam_SecureWithType rg p v c n t"
| "register rg (DB_ReadOnly p v t) = USP_REGISTER_DBParam_ReadOnly rg p v t"
| "register rg (Vendor_ReadOnly p g t) = USP_REGISTER_VendorParam_ReadOnly rg p g t"
| "register rg (Vendor_ReadWrite p g s n t) = USP_REGISTER_VendorParam_ReadWrite rg p g s n t"
| "register rg (Grouped_ReadOnly g p t) = USP_REGISTER_GroupedVendorParam_ReadOnly rg g p t"
| "register rg (Grouped_ReadWrite g p t) = USP_REGISTER_GroupedVendorParam_ReadWrite rg g p t"
| "register rg (DB_ReadOnlyAuto p g t) = USP_REGISTER_DBParam_ReadOnlyAuto rg p g t"
| "register rg (DB_ReadWriteAuto p g c n t) = USP_REGISTER_DBParam_ReadWriteAuto rg p g c n t"
| "register rg (Alias p n) = USP_REGISTER_DBParam_Alias rg p n"
| "register rg (Object p va a na vd d nd) = USP_REGISTER_Object rg p va a na vd d nd"
| "register rg (Grouped_Object g p w) = USP_REGISTER_GroupedObject rg g p w"
| "register rg (Unique_Key p ks) = USP_REGISTER_Object_UniqueKey rg p ks"
| "register rg (Refresh_Instances p r) = USP_REGISTER_Object_RefreshInstances rg p r"
| "register rg (Sync_Operation p s) = USP_REGISTER_SyncOperation rg p s"
| "register rg (Async_Operation p a r) = USP_REGISTER_AsyncOperation rg p a r"
| "register rg (Max_Concurrency p n) = USP_REGISTER_AsyncOperation_MaxConcurrency rg p n"
| "register rg (Operation_Arguments p i ni out nout) = USP_REGISTER_OperationArguments rg p i ni out nout"
| "register rg (Event p) = USP_REGISTER_Event rg p"
| "register rg (Event_Arguments p as n) = USP_REGISTER_EventArguments rg p as n"

fun register_all :: "registry \<Rightarrow> registration list \<Rightarrow> reg_result" where
  "register_all rg [] = reg_ok rg"
| "register_all rg (r # rs) =
    (case register rg r of
       None \<Rightarrow> None
     | Some (rg1, Inl err) \<Rightarrow> map_option (\<lambda>(rg2, _). (rg2, Inl err)) (register_all rg1 rs)
     | Some (rg1, Inr _) \<Rightarrow> register_all rg1 rs)"

text \<open>A step of the initialisation that succeeds keeps the schema well typed.\<close>

definition keeps_typed :: "registry \<Rightarrow> reg_result \<Rightarrow> bool" where
  "keeps_typed rg r \<longleftrightarrow> (\<forall>rg'. schema_typed rg \<longrightarrow> r = Some (rg', USP_OK) \<longrightarrow> schema_typed rg')"

lemma reg_results [simp]: "reg_ok rg = Some (rg', USP_OK) \<longleftrightarrow> rg' = rg" "reg_err rg \<noteq> Some (rg', USP_OK)"
  by (auto simp: reg_ok_def reg_err_def)

lemma keeps_guard: "(rg_within_init rg \<Longrightarrow> c \<Longrightarrow> keeps_typed rg r) \<Longrightarrow> keeps_typed rg (reg_guard rg c r)"
  by (auto simp: keeps_typed_def reg_guard_def)

text \<open>A schema with nodes whose registration is not complete yet.\<close>

definition typed_but :: "node_ptr set \<Rightarrow> registry \<Rightarrow> bool" where
  "typed_but S rg \<longleftrightarrow> tree_ok (rg_dm rg) \<and> IsObject (heap (rg_dm rg) (root_device_node (rg_dm rg))) \<and>
    IsObject (heap (rg_dm rg) (root_internal_node (rg_dm rg))) \<and> (\<forall>q\<in>map_nodes (rg_dm rg) - S. node_typed rg q)"

lemma schema_typed_but: "schema_typed rg \<longleftrightarrow> typed_but {} rg"
  by (simp add: schema_typed_def typed_but_def)

lemma typed_but_insert: "typed_but (insert p S) rg \<Longrightarrow> node_typed rg p \<Longrightarrow> typed_but S rg"
  by (auto simp: typed_but_def)

lemma object_typed: "IsObject (heap (rg_dm rg) p) \<Longrightarrow> node_typed rg p"
  by (auto simp: node_typed_def IsObject_def intro: typed_as_object)

lemma node_typed_kept:
  assumes "info_kept (rg_dm rg) st" "q \<in> map_nodes (rg_dm rg)" "node_typed rg q"
  shows "node_typed (rg\<lparr>rg_dm := st\<rparr>) q"
proof -
  have q: "node_type (heap st q) = node_type (heap (rg_dm rg) q)" "param_info (heap st q) = param_info (heap (rg_dm rg) q)"
    "node_order (heap st q) = node_order (heap (rg_dm rg) q)"
    using assms(1,2) by (auto simp: info_kept_def tree_extends_def)
  have "node_type (heap st t) = node_type (heap (rg_dm rg) t) \<and> node_order (heap st t) = node_order (heap (rg_dm rg) t) \<and>
    t \<in> map_nodes st" if "t \<in> map_nodes (rg_dm rg)" for t
    using assms(1) that by (auto simp: info_kept_def tree_extends_def)
  then have "counts_table (rg_dm rg) q \<Longrightarrow> counts_table st q" by (auto simp: counts_table_def q Let_def IsObject_def)
  then show ?thesis using assms(3) by (simp add: node_typed_def q typed_as_mono)
qed

lemma added_typed:
  assumes "DM_PRIV_AddSchemaPath (rg_dm rg) path t flags = Some (st, p)" "typed_but S rg" "S \<subseteq> map_nodes (rg_dm rg)" "p \<noteq> NULL"
  shows "typed_but (insert p S) (rg\<lparr>rg_dm := st\<rparr>)" "p \<in> map_nodes st" "info_kept (rg_dm rg) st"
    "p \<in> map_nodes (rg_dm rg) - S \<Longrightarrow> typed_but S (rg\<lparr>rg_dm := st\<rparr>)"
    "p \<notin> map_nodes (rg_dm rg) \<Longrightarrow> next_ptr (rg_dm rg) \<le> p"
    "flags AND SUPPRESS_LAST_TYPE_CHECK = 0 \<Longrightarrow> node_type (heap st p) = t \<or> IsObject (heap st p)"
proof -
  have ok: "tree_ok (rg_dm rg)" using assms(2) by (simp add: typed_but_def)
  note a = AddSchemaPath_typed [OF assms(1) ok assms(4)]
  show "info_kept (rg_dm rg) st" "p \<in> map_nodes st" by (rule a)+
  have roots: "root_device_node st = root_device_node (rg_dm rg)" "root_internal_node st = root_internal_node (rg_dm rg)"
    and types: "\<And>q. q \<in> map_nodes (rg_dm rg) \<Longrightarrow> node_type (heap st q) = node_type (heap (rg_dm rg) q)"
    using a(1) by (auto simp: info_kept_def tree_extends_def)
  have objs: "IsObject (heap st (root_device_node (rg_dm rg)))" "IsObject (heap st (root_internal_node (rg_dm rg)))"
    using assms(2) ok types by (auto simp: typed_but_def tree_ok_def IsObject_def)
  have old: "node_typed (rg\<lparr>rg_dm := st\<rparr>) q" if "q \<in> map_nodes (rg_dm rg) - S" for q
    using node_typed_kept [OF a(1)] that assms(2) by (auto simp: typed_but_def)
  have "node_typed (rg\<lparr>rg_dm := st\<rparr>) q" if "q \<in> map_nodes st - insert p S" for q
  proof (cases "q \<in> map_nodes (rg_dm rg)")
    case False
    then have "node_type (heap st q) = kDMNodeType_Object_SingleInstance" using a(3) that by (auto simp: adds_objects_def)
    then show ?thesis by (simp add: node_typed_def typed_as_object)
  qed (use that old in blast)
  then show t: "typed_but (insert p S) (rg\<lparr>rg_dm := st\<rparr>)"
    using objs roots AddSchemaPath_ok [OF assms(1) ok] by (simp add: typed_but_def)
  show "p \<in> map_nodes (rg_dm rg) - S \<Longrightarrow> typed_but S (rg\<lparr>rg_dm := st\<rparr>)"
    by (rule typed_but_insert [OF t old])
  show "p \<notin> map_nodes (rg_dm rg) \<Longrightarrow> next_ptr (rg_dm rg) \<le> p" using a(2,3) by (auto simp: adds_objects_def)
  show "flags AND SUPPRESS_LAST_TYPE_CHECK = 0 \<Longrightarrow> node_type (heap st p) = t \<or> IsObject (heap st p)"
    using a(4) objs by auto
qed

text \<open>Filling in the information of a node that is still to be typed.\<close>

lemma typed_but_upd:
  assumes "typed_but S rg" "p \<in> S"
    and f: "\<And>n. node_path (f n) = node_path n \<and> node_hash (f n) = node_hash n \<and> node_name (f n) = node_name n \<and>
      node_type (f n) = node_type n \<and> child_nodes (f n) = child_nodes n \<and> node_order (f n) = node_order n"
  shows "typed_but S (rg\<lparr>rg_dm := upd_node p f (rg_dm rg), rg_param_cbs := (rg_param_cbs rg)(p := c)\<rparr>)" (is "typed_but S ?rg")
proof -
  let ?st = "upd_node p f (rg_dm rg)"
  have h: "node_path (heap ?st q) = node_path (heap (rg_dm rg) q)" "node_hash (heap ?st q) = node_hash (heap (rg_dm rg) q)"
    "node_name (heap ?st q) = node_name (heap (rg_dm rg) q)" "node_type (heap ?st q) = node_type (heap (rg_dm rg) q)"
    "child_nodes (heap ?st q) = child_nodes (heap (rg_dm rg) q)" "node_order (heap ?st q) = node_order (heap (rg_dm rg) q)" for q
    using f by simp_all
  have m: "map_nodes ?st = map_nodes (rg_dm rg)" by (simp add: map_nodes_def)
  have t: "tree_ok ?st"
    using assms(1) unfolding typed_but_def tree_ok_def node_map_ok_def m h upd_node_simps(2-5) child_path_def by blast
  have "node_typed ?rg q" if "q \<in> map_nodes (rg_dm rg) - S" for q
  proof -
    have q: "q \<noteq> p" "node_typed rg q" using that assms(1,2) by (auto simp: typed_but_def)
    then have "counts_table ?st q = counts_table (rg_dm rg) q" using h(4,6) by (auto simp: counts_table_def Let_def m IsObject_def)
    then show ?thesis using q by (simp add: node_typed_def)
  qed
  then show ?thesis using assms(1,2) t h(4) by (auto simp: typed_but_def m IsObject_def)
qed

lemma set_param_info_typed:
  assumes "set_param_info info cbs rg p = Some (rg', USP_OK)" "typed_but (insert p S) rg"
    and "IsParam (heap (rg_dm rg) p) \<Longrightarrow>
      node_typed (rg\<lparr>rg_dm := upd_node p (\<lambda>n. n\<lparr>param_info := info\<rparr>) (rg_dm rg), rg_param_cbs := (rg_param_cbs rg)(p := cbs)\<rparr>) p"
  shows "typed_but S rg'"
  using assms typed_but_insert [OF typed_but_upd [OF assms(2)]]
  by (auto simp: set_param_info_def split: if_splits)

lemma keeps_path:
  assumes "flags AND SUPPRESS_LAST_TYPE_CHECK = 0"
    and "\<And>rg1 p rg'. typed_but {p} rg1 \<Longrightarrow> p \<in> map_nodes (rg_dm rg1) \<Longrightarrow>
      node_type (heap (rg_dm rg1) p) = t \<or> IsObject (heap (rg_dm rg1) p) \<Longrightarrow> f rg1 p = Some (rg', USP_OK) \<Longrightarrow> schema_typed rg'"
  shows "keeps_typed rg (reg_path rg path t flags f)"
  unfolding keeps_typed_def
proof (intro allI impI)
  fix rg' assume s: "schema_typed rg" "reg_path rg path t flags f = Some (rg', USP_OK)"
  then obtain st p where a: "DM_PRIV_AddSchemaPath (rg_dm rg) path t flags = Some (st, p)" "p \<noteq> NULL"
    "f (rg\<lparr>rg_dm := st\<rparr>) p = Some (rg', USP_OK)"
    by (auto simp: reg_path_def Let_def split: option.splits if_splits)
  note t = added_typed [OF a(1) s(1) [unfolded schema_typed_but] _ a(2)]
  show "schema_typed rg'" using t(1,2) t(6) [OF _ assms(1)] by (intro assms(2) [OF _ _ _ a(3)]) simp_all
qed

lemma keeps_param:
  assumes "t \<noteq> kDMNodeType_Object_MultiInstance"
    and "\<And>rg1 p. node_type (heap (rg_dm rg1) p) = t \<Longrightarrow> param_info (heap (rg_dm rg1) p) = info \<Longrightarrow> rg_param_cbs rg1 p = cbs \<Longrightarrow>
      node_typed rg1 p"
  shows "keeps_typed rg (reg_path rg path t 0 (set_param_info info cbs))"
proof (rule keeps_path)
  fix rg1 p rg'
  assume a: "typed_but {p} rg1" "node_type (heap (rg_dm rg1) p) = t \<or> IsObject (heap (rg_dm rg1) p)"
    "set_param_info info cbs rg1 p = Some (rg', USP_OK)"
  then have "IsParam (heap (rg_dm rg1) p)" by (auto simp: set_param_info_def split: if_splits)
  then have "node_type (heap (rg_dm rg1) p) = t" using a(2) by (auto simp: IsParam_def IsObject_def)
  then show "schema_typed rg'" unfolding schema_typed_but
    by (intro set_param_info_typed [OF a(3)]) (use a(1) assms(2) in simp_all)
qed simp

section \<open>Every registration keeps the schema well typed\<close>

lemma keeps_plain:
  assumes "\<And>rg'. r = Some (rg', USP_OK) \<Longrightarrow> rg_dm rg' = rg_dm rg \<and> rg_param_cbs rg' = rg_param_cbs rg \<and>
    (\<forall>p. op_sync_cb (rg_opers rg' p) = op_sync_cb (rg_opers rg p) \<and> op_async_cb (rg_opers rg' p) = op_async_cb (rg_opers rg p))"
  shows "keeps_typed rg r"
  unfolding keeps_typed_def schema_typed_def node_typed_def
proof (intro allI impI)
  fix rg' assume r: "r = Some (rg', USP_OK)"
  note e = assms [OF r]
  then have e': "rg_dm rg' = rg_dm rg" "rg_param_cbs rg' = rg_param_cbs rg"
    "\<And>p. op_sync_cb (rg_opers rg' p) = op_sync_cb (rg_opers rg p)" "\<And>p. op_async_cb (rg_opers rg' p) = op_async_cb (rg_opers rg p)"
    by blast+
  assume "tree_ok (rg_dm rg) \<and> IsObject (heap (rg_dm rg) (root_device_node (rg_dm rg))) \<and>
    IsObject (heap (rg_dm rg) (root_internal_node (rg_dm rg))) \<and> (\<forall>p\<in>map_nodes (rg_dm rg).
      typed_as (node_type (heap (rg_dm rg) p)) (param_info (heap (rg_dm rg) p)) (rg_param_cbs rg p)
        (op_sync_cb (rg_opers rg p)) (op_async_cb (rg_opers rg p)) (counts_table (rg_dm rg) p))"
  then show "tree_ok (rg_dm rg') \<and> IsObject (heap (rg_dm rg') (root_device_node (rg_dm rg'))) \<and>
    IsObject (heap (rg_dm rg') (root_internal_node (rg_dm rg'))) \<and> (\<forall>p\<in>map_nodes (rg_dm rg').
      typed_as (node_type (heap (rg_dm rg') p)) (param_info (heap (rg_dm rg') p)) (rg_param_cbs rg' p)
        (op_sync_cb (rg_opers rg' p)) (op_async_cb (rg_opers rg' p)) (counts_table (rg_dm rg') p))"
    unfolding e' .
qed

lemma node_typed_fields:
  assumes "rg_dm rg' = rg_dm rg" "rg_param_cbs rg' = rg_param_cbs rg" "rg_opers rg' q = rg_opers rg q"
  shows "node_typed rg' q = node_typed rg q"
  using assms by (simp add: node_typed_def)

text \<open>The information of an object does not matter.\<close>

lemma object_info_typed:
  assumes "typed_but {p} rg" "IsObject (heap (rg_dm rg) p)" "rg_dm rg' = upd_node p (\<lambda>n. n\<lparr>object_info := g n\<rparr>) (rg_dm rg)"
    "rg_param_cbs rg' = rg_param_cbs rg" "rg_opers rg' = rg_opers rg"
  shows "schema_typed rg'"
proof -
  let ?rg = "rg\<lparr>rg_dm := upd_node p (\<lambda>n. n\<lparr>object_info := g n\<rparr>) (rg_dm rg), rg_param_cbs := (rg_param_cbs rg)(p := rg_param_cbs rg p)\<rparr>"
  have "typed_but {p} ?rg" by (rule typed_but_upd [OF assms(1)]) simp_all
  moreover have "IsObject (heap (rg_dm ?rg) p)" using assms(2) by (simp add: IsObject_def)
  ultimately have "typed_but {} ?rg" by (rule typed_but_insert [OF _ object_typed])
  then show ?thesis using assms(3-5) unfolding schema_typed_def typed_but_def node_typed_def by simp
qed

lemma oper_info_typed:
  assumes "typed_but {p} rg" "set_oper_info f rg p = Some (rg', USP_OK)"
    "\<And>info. (node_type (heap (rg_dm rg) p) = kDMNodeType_SyncOperation \<longrightarrow> op_sync_cb (f (rg_opers rg p))) \<and>
      (node_type (heap (rg_dm rg) p) = kDMNodeType_AsyncOperation \<longrightarrow> op_async_cb (f (rg_opers rg p)))"
  shows "schema_typed rg'"
proof -
  have r: "IsOperation (heap (rg_dm rg) p)" "rg' = rg\<lparr>rg_opers := (rg_opers rg)(p := f (rg_opers rg p))\<rparr>"
    using assms(2) by (auto simp: set_oper_info_def split: if_splits)
  have "node_typed rg' q" if "q \<in> map_nodes (rg_dm rg)" for q
  proof (cases "q = p")
    case True
    then show ?thesis using r assms(3) by (auto simp: node_typed_def typed_as_def IsOperation_def)
  next
    case False
    then have "node_typed rg q" using assms(1) that by (simp add: typed_but_def)
    then show ?thesis using node_typed_fields [of rg' rg q] False r(2) by simp
  qed
  then show ?thesis using assms(1) r(2) by (simp add: schema_typed_def typed_but_def)
qed

lemma keeps_object:
  assumes "\<And>rg1 p rg'. IsObject (heap (rg_dm rg1) p) \<Longrightarrow> f rg1 p = Some (rg', USP_OK) \<Longrightarrow>
    (\<exists>g. rg_dm rg' = upd_node p (\<lambda>n. n\<lparr>object_info := g n\<rparr>) (rg_dm rg1)) \<and> rg_param_cbs rg' = rg_param_cbs rg1 \<and> rg_opers rg' = rg_opers rg1"
    "flags AND SUPPRESS_LAST_TYPE_CHECK = 0"
  shows "keeps_typed rg (reg_path rg path kDMNodeType_Object_MultiInstance flags f)"
proof (rule keeps_path [OF assms(2)])
  fix rg1 p rg'
  assume a: "typed_but {p} rg1" "node_type (heap (rg_dm rg1) p) = kDMNodeType_Object_MultiInstance \<or> IsObject (heap (rg_dm rg1) p)"
    "f rg1 p = Some (rg', USP_OK)"
  then have o: "IsObject (heap (rg_dm rg1) p)" by (auto simp: IsObject_def)
  from assms(1) [OF o a(3)] obtain g where "rg_dm rg' = upd_node p (\<lambda>n. n\<lparr>object_info := g n\<rparr>) (rg_dm rg1)"
    "rg_param_cbs rg' = rg_param_cbs rg1" "rg_opers rg' = rg_opers rg1" by blast
  then show "schema_typed rg'" by (rule object_info_typed [OF a(1) o])
qed

lemma keeps_oper:
  assumes "\<And>info. (t = kDMNodeType_SyncOperation \<longrightarrow> op_sync_cb (f info)) \<and> (t = kDMNodeType_AsyncOperation \<longrightarrow> op_async_cb (f info))"
  shows "keeps_typed rg (reg_path rg path t 0 (set_oper_info f))"
proof (rule keeps_path)
  fix rg1 p rg'
  assume a: "typed_but {p} rg1" "node_type (heap (rg_dm rg1) p) = t \<or> IsObject (heap (rg_dm rg1) p)"
    "set_oper_info f rg1 p = Some (rg', USP_OK)"
  then show "schema_typed rg'" using assms
    by (intro oper_info_typed [OF a(1,3)]) (auto simp: IsObject_def)
qed simp

lemma suppress_no_check: "SUPPRESS_PRE_EXISTANCE_ERR AND SUPPRESS_LAST_TYPE_CHECK = 0"
  by (simp add: SUPPRESS_PRE_EXISTANCE_ERR_def SUPPRESS_LAST_TYPE_CHECK_def)

lemma keeps_Constant: "keeps_typed rg (USP_REGISTER_Param_Constant rg p v t)"
  unfolding USP_REGISTER_Param_Constant_def by (rule keeps_guard, rule keeps_param) (auto simp: node_typed_def typed_as_def db_param_typed_def)

lemma keeps_NumEntries: "keeps_typed rg (USP_REGISTER_Param_NumEntries rg p tbl)"
  unfolding USP_REGISTER_Param_NumEntries_def
proof (rule keeps_guard, rule keeps_path)
  fix rg1 param rg'
  assume a: "typed_but {param} rg1" "param \<in> map_nodes (rg_dm rg1)"
    "node_type (heap (rg_dm rg1) param) = kDMNodeType_Param_NumEntries \<or> IsObject (heap (rg_dm rg1) param)"
    "reg_path rg1 (the tbl) kDMNodeType_Object_MultiInstance SUPPRESS_PRE_EXISTANCE_ERR (\<lambda>rg2 tbl.
         let pn = heap (rg_dm rg2) param; tn = heap (rg_dm rg2) tbl; k = node_order pn - 1
         in if node_order pn + 1 \<noteq> node_order tn then reg_err rg2
            else if 0 < node_order pn \<and> instance_nodes pn ! k \<noteq> instance_nodes tn ! k then reg_err rg2
            else set_param_info \<lparr>default_value = None, param_group_id = NON_GROUPED, type_flags = DM_UINT, table_node = tbl\<rparr>
              no_cbs rg2 param) = Some (rg', USP_OK)"
  from a(4) obtain st table where t: "DM_PRIV_AddSchemaPath (rg_dm rg1) (the tbl) kDMNodeType_Object_MultiInstance
      SUPPRESS_PRE_EXISTANCE_ERR = Some (st, table)" "table \<noteq> NULL"
    "node_order (heap st table) = node_order (heap st param) + 1"
    "set_param_info \<lparr>default_value = None, param_group_id = NON_GROUPED, type_flags = DM_UINT, table_node = table\<rparr>
      no_cbs (rg1\<lparr>rg_dm := st\<rparr>) param = Some (rg', USP_OK)"
    by (auto simp: reg_path_def Let_def split: option.splits if_splits)
  note s = added_typed [OF t(1) a(1) _ t(2)]
  have o: "IsObject (heap st table)" using s(6) a(2) suppress_no_check by (auto simp: IsObject_def)
  have "typed_but {param} (rg1\<lparr>rg_dm := st\<rparr>)"
    by (rule typed_but_insert [OF s(1) object_typed]) (use a(2) o in simp_all)
  then have b: "typed_but (insert param {}) (rg1\<lparr>rg_dm := st\<rparr>)" .
  have param: "IsParam (heap st param)" using t(4) by (auto simp: set_param_info_def split: if_splits)
  then have ne: "table \<noteq> param" using o by (auto simp: IsParam_def IsObject_def)
  have "node_type (heap st param) = node_type (heap (rg_dm rg1) param)"
    using s(3) a(2) by (auto simp: info_kept_def tree_extends_def)
  then have "node_type (heap st param) = kDMNodeType_Param_NumEntries" using a(3) param by (auto simp: IsParam_def IsObject_def)
  then show "schema_typed rg'" unfolding schema_typed_but
    by (intro set_param_info_typed [OF t(4) b]) (use o ne t(3) s(2) a(2) in \<open>auto simp: node_typed_def typed_as_def counts_table_def map_nodes_def IsObject_def\<close>)
qed simp

lemma keeps_params:
  "keeps_typed rg (USP_REGISTER_Param_SupportedList rg p es)"
  "keeps_typed rg (USP_REGISTER_DBParam_ReadWrite rg p v c n t)"
  "keeps_typed rg (USP_REGISTER_DBParam_SecureWithType rg p v c n t)"
  "keeps_typed rg (USP_REGISTER_DBParam_ReadOnly rg p v t)"
  "keeps_typed rg (USP_REGISTER_VendorParam_ReadOnly rg p g t)"
  "keeps_typed rg (USP_REGISTER_VendorParam_ReadWrite rg p g s n t)"
  "keeps_typed rg (USP_REGISTER_GroupedVendorParam_ReadOnly rg k p t)"
  "keeps_typed rg (USP_REGISTER_GroupedVendorParam_ReadWrite rg k p t)"
  "keeps_typed rg (USP_REGISTER_DBParam_ReadOnlyAuto rg p g t)"
  "keeps_typed rg (USP_REGISTER_DBParam_ReadWriteAuto rg p g c n t)"
  unfolding USP_REGISTER_Param_SupportedList_def USP_REGISTER_DBParam_ReadWrite_def USP_REGISTER_DBParam_SecureWithType_def
    USP_REGISTER_DBParam_ReadOnly_def USP_REGISTER_VendorParam_ReadOnly_def USP_REGISTER_VendorParam_ReadWrite_def
    USP_REGISTER_GroupedVendorParam_ReadOnly_def USP_REGISTER_GroupedVendorParam_ReadWrite_def
    USP_REGISTER_DBParam_ReadOnlyAuto_def USP_REGISTER_DBParam_ReadWriteAuto_def
  by (rule keeps_Constant)
    (rule keeps_guard, rule keeps_param, (simp; fail), simp add: node_typed_def typed_as_def db_param_typed_def db_info_def vendor_info_def no_cbs_def)+

lemma keeps_objects:
  "keeps_typed rg (USP_REGISTER_Object rg p va a na vd d nd)"
  "keeps_typed rg (USP_REGISTER_GroupedObject rg k p w)"
  "keeps_typed rg (USP_REGISTER_Object_RefreshInstances rg p r)"
  unfolding USP_REGISTER_Object_def USP_REGISTER_GroupedObject_def USP_REGISTER_Object_RefreshInstances_def
  by (rule keeps_guard, rule keeps_object; force simp: set_object_info_def suppress_no_check split: if_splits)+

lemma keeps_UniqueKey: "keeps_typed rg (USP_REGISTER_Object_UniqueKey rg p ks)"
  unfolding USP_REGISTER_Object_UniqueKey_def
  by (rule keeps_guard, rule keeps_object)
    (force simp: suppress_no_check DM_PRIV_AddUniqueKey_def Let_def split: if_splits)+

lemma keeps_Alias: "keeps_typed rg (USP_REGISTER_DBParam_Alias rg p n)"
  unfolding keeps_typed_def
proof (intro allI impI)
  fix rg' assume s: "schema_typed rg" "USP_REGISTER_DBParam_Alias rg p n = Some (rg', USP_OK)"
  then obtain rg1 q where r: "USP_REGISTER_DBParam_ReadWriteAuto rg p True True n DM_STRING = Some (rg1, USP_OK)"
    "USP_REGISTER_Object_UniqueKey rg1 (Some q) (Some [Some ''Alias'']) = Some (rg', USP_OK)"
    unfolding USP_REGISTER_DBParam_Alias_def by (auto split: if_splits option.splits sum.splits prod.splits)
  have "schema_typed rg1" using keeps_params(10) s(1) r(1) unfolding keeps_typed_def by blast
  then show "schema_typed rg'" using keeps_UniqueKey r(2) unfolding keeps_typed_def by blast
qed

lemma keeps_operations:
  "keeps_typed rg (USP_REGISTER_SyncOperation rg p s)"
  "keeps_typed rg (USP_REGISTER_AsyncOperation rg p a r)"
  unfolding USP_REGISTER_SyncOperation_def USP_REGISTER_AsyncOperation_def
  by (rule keeps_guard, rule keeps_oper, simp)+

lemma keeps_MaxConcurrency: "keeps_typed rg (USP_REGISTER_AsyncOperation_MaxConcurrency rg p n)"
  unfolding USP_REGISTER_AsyncOperation_MaxConcurrency_def
  by (intro keeps_guard keeps_plain) (auto simp: set_oper_info_def split: option.splits if_splits)

lemma keeps_events: "keeps_typed rg (USP_REGISTER_Event rg p)" "keeps_typed rg (USP_REGISTER_EventArguments rg q as n)"
proof -
  have "schema_typed rg1" if "typed_but {p} rg1" "node_type (heap (rg_dm rg1) p) = kDMNodeType_Event \<or> IsObject (heap (rg_dm rg1) p)"
    for rg1 p
    unfolding schema_typed_but using that by (intro typed_but_insert [OF that(1)]) (auto simp: node_typed_def typed_as_def IsObject_def)
  moreover have "schema_typed (rg1\<lparr>rg_event_args := e\<rparr>) = schema_typed rg1" for rg1 e
    by (simp add: schema_typed_def node_typed_def)
  ultimately show "keeps_typed rg (USP_REGISTER_Event rg p)" "keeps_typed rg (USP_REGISTER_EventArguments rg q as n)"
    unfolding USP_REGISTER_Event_def USP_REGISTER_EventArguments_def
    by (intro keeps_guard keeps_path; auto simp: suppress_no_check split: if_splits)+
qed

text \<open>
  Registering arguments for an operation that is not there creates its node, with no callback to call.
\<close>

definition names_new_operation :: "registry \<Rightarrow> registration \<Rightarrow> bool" where
  "names_new_operation rg r =
    (case r of
       Operation_Arguments path _ _ _ _ \<Rightarrow>
         (case DM_PRIV_AddSchemaPath (rg_dm rg) path kDMNodeType_AsyncOperation (SUPPRESS_PRE_EXISTANCE_ERR OR SUPPRESS_LAST_TYPE_CHECK) of
            None \<Rightarrow> False | Some (st, p) \<Rightarrow> next_ptr (rg_dm rg) \<le> p)
     | _ \<Rightarrow> False)"

fun orderly :: "registry \<Rightarrow> registration list \<Rightarrow> bool" where
  "orderly rg [] = True"
| "orderly rg (r # rs) =
    (\<not> names_new_operation rg r \<and> (case register rg r of None \<Rightarrow> True | Some (rg1, _) \<Rightarrow> orderly rg1 rs))"

lemma keeps_OperationArguments:
  assumes "\<not> names_new_operation rg (Operation_Arguments p i n out m)"
  shows "keeps_typed rg (USP_REGISTER_OperationArguments rg p i n out m)"
  unfolding keeps_typed_def
proof (intro allI impI)
  let ?fl = "SUPPRESS_PRE_EXISTANCE_ERR OR SUPPRESS_LAST_TYPE_CHECK"
  fix rg' assume s: "schema_typed rg" "USP_REGISTER_OperationArguments rg p i n out m = Some (rg', USP_OK)"
  obtain st q where a: "DM_PRIV_AddSchemaPath (rg_dm rg) p kDMNodeType_AsyncOperation ?fl = Some (st, q)" "q \<noteq> NULL"
    "set_oper_info (\<lambda>info. info\<lparr>op_input_args := cloned i n (op_input_args info),
      op_output_args := cloned out m (op_output_args info)\<rparr>) (rg\<lparr>rg_dm := st\<rparr>) q = Some (rg', USP_OK)"
    using s(2) by (auto simp: USP_REGISTER_OperationArguments_def reg_guard_def reg_path_def Let_def split: if_splits option.splits)
  note t = added_typed [OF a(1) s(1) [unfolded schema_typed_but] _ a(2)]
  have typed: "typed_but {} (rg\<lparr>rg_dm := st\<rparr>)"
  proof (cases "q \<in> map_nodes (rg_dm rg)")
    case False
    have "q < next_ptr (rg_dm rg)" using assms a(1) by (simp add: names_new_operation_def)
    then show ?thesis using t(5) False by simp
  qed (use t(4) in simp)
  then have "node_typed (rg\<lparr>rg_dm := st\<rparr>) q" using t(2) by (simp add: typed_but_def)
  then show "schema_typed rg'"
    by (intro oper_info_typed [OF _ a(3)]) (use t(1) in \<open>auto simp: node_typed_def typed_as_def split: dm_node_type.splits\<close>)
qed

lemma register_keeps:
  assumes "\<not> names_new_operation rg r"
  shows "keeps_typed rg (register rg r)"
proof (cases r)
  case (Core_Vendor_Hooks cbs)
  show ?thesis unfolding Core_Vendor_Hooks register.simps USP_REGISTER_CoreVendorHooks_def by (intro keeps_guard keeps_plain) simp
next
  case (Group_Hooks g cbs)
  show ?thesis unfolding Group_Hooks register.simps USP_REGISTER_GroupVendorHooks_def by (intro keeps_plain) (auto split: if_splits)
qed (use assms in \<open>simp_all add: keeps_Constant keeps_NumEntries keeps_params keeps_objects keeps_UniqueKey keeps_Alias keeps_operations
  keeps_MaxConcurrency keeps_OperationArguments keeps_events\<close>)

lemma register_all_ok:
  assumes "register_all rg (r # rs) = Some (rg', USP_OK)"
  obtains rg1 where "register rg r = Some (rg1, USP_OK)" "register_all rg1 rs = Some (rg', USP_OK)"
  using assms by (auto split: option.splits sum.splits prod.splits)

section \<open>Properties\<close>

text \<open>The registry at start-up.\<close>

definition init_registry :: "nat list \<Rightarrow> registry" where
  "init_registry vendor_hooks = \<lparr>rg_dm = DATA_MODEL_Init_roots empty_state, rg_within_init = True, rg_param_cbs = (\<lambda>_. no_cbs),
    rg_notify_add = (\<lambda>_. False), rg_notify_del = (\<lambda>_. False), rg_opers = (\<lambda>_. zero_oper_info), rg_event_args = (\<lambda>_. []),
    rg_groups = (\<lambda>_. \<lparr>gc_get = False, gc_set = False, gc_add = False, gc_del = False\<rparr>), rg_vendor_hooks = vendor_hooks\<rparr>"

lemma init_typed: "schema_typed (init_registry hooks)"
proof -
  let ?s = "DATA_MODEL_Init_roots empty_state"
  have o: "node_type (heap ?s 1) = kDMNodeType_Object_SingleInstance \<and> node_type (heap ?s 2) = kDMNodeType_Object_SingleInstance \<and>
      root_internal_node ?s = 2"
    using root_hashes_differ
    by (auto simp: DATA_MODEL_Init_roots_def CreateNode_def FindNodeFromHash_def empty_state_def Let_def split: if_splits)
  then have "typed_but {} (init_registry hooks)"
    using tree_ok_init init_facts by (auto simp: typed_but_def init_registry_def IsObject_def node_typed_def typed_as_def)
  then show ?thesis by (simp add: schema_typed_but)
qed

lemma register_all_typed:
  assumes "schema_typed rg" "orderly rg rs" "register_all rg rs = Some (rg', USP_OK)"
  shows "schema_typed rg'"
  using assms
proof (induction rs arbitrary: rg)
  case (Cons r rs)
  obtain rg1 where r: "register rg r = Some (rg1, USP_OK)" "register_all rg1 rs = Some (rg', USP_OK)"
    using Cons.prems(3) by (rule register_all_ok)
  have "schema_typed rg1" using register_keeps [of rg r] Cons.prems(1,2) r(1) by (simp add: keeps_typed_def)
  then show ?case using Cons.IH r Cons.prems(2) by simp
qed simp

text \<open>The first node below \<open>Device\<close>.\<close>

lemma first_node:
  assumes "ParseSchemaPath path MAX_DM_PATH t MAX_PATH_SEGMENTS = Some (Some [\<lparr>seg_name = ''Device'',
      seg_type = kDMNodeType_Object_SingleInstance\<rparr>, \<lparr>seg_name = name, seg_type = t\<rparr>])"
    "t \<noteq> kDMNodeType_Object_MultiInstance"
    "TEXT_UTILS_CalcHash (''Device.'' @ name) \<noteq> TEXT_UTILS_CalcHash ''Device''"
    "TEXT_UTILS_CalcHash (''Device.'' @ name) \<noteq> TEXT_UTILS_CalcHash ''Internal''"
  shows "\<exists>st. DM_PRIV_AddSchemaPath (DATA_MODEL_Init_roots empty_state) path t flags = Some (st, 3) \<and> node_type (heap st 3) = t \<and>
    map_nodes st = {1, 2, 3} \<and> DM_PRIV_AddSchemaPath st path t 0 = Some (st, NULL)"
proof -
  let ?s = "DATA_MODEL_Init_roots empty_state"
  have mok: "node_map_ok ?s" using tree_ok_init by (simp add: tree_ok_def)
  have new: "FindNodeFromHash ?s (TEXT_UTILS_CalcHash (''Device.'' @ name)) = NULL"
    using FindNodeFromHash_NULL [OF mok] init_facts assms(3,4) by simp
  obtain st1 c where c: "CreateNode ?s name t (''Device.'' @ name) = (st1, c)"
    by (cases "CreateNode ?s name t (''Device.'' @ name)")
  note n = CreateNode_new [OF mok new c]
  have c3: "c = 3" using n(1) init_facts by simp
  have "node_type (heap st1 3) = t" "map_nodes st1 = {1, 2, 3}"
    using CreateNode_fields(2) [OF c] n(3) c3 init_facts by auto
  moreover have "heap st1 1 = heap ?s 1" "root_device_node st1 = 1" "node_name (heap st1 3) = name"
    using n(7) c3 CreateNode_fields(1,4) [OF c] init_facts by auto
  ultimately show ?thesis using c c3 init_facts assms(1,2)
    by (simp add: DM_PRIV_AddSchemaPath_def DM_PRIV_FindMatchingChild_def Let_def child_keeps map_nodes_def)
      (auto simp: init_child_def link_child_def IsObject_def)
qed

lemma first_param:
  "\<exists>st. DM_PRIV_AddSchemaPath (DATA_MODEL_Init_roots empty_state) ''Device.A'' kDMNodeType_Param_ConstantValue flags = Some (st, 3) \<and>
    node_type (heap st 3) = kDMNodeType_Param_ConstantValue \<and> map_nodes st = {1, 2, 3} \<and>
    DM_PRIV_AddSchemaPath st ''Device.A'' kDMNodeType_Param_ConstantValue 0 = Some (st, NULL)"
  by (rule first_node [where name = "''A''"]) code_simp+

lemma first_operation:
  "\<exists>st. DM_PRIV_AddSchemaPath (DATA_MODEL_Init_roots empty_state) ''Device.A()'' kDMNodeType_AsyncOperation flags = Some (st, 3) \<and>
    node_type (heap st 3) = kDMNodeType_AsyncOperation \<and> map_nodes st = {1, 2, 3} \<and>
    DM_PRIV_AddSchemaPath st ''Device.A()'' kDMNodeType_AsyncOperation 0 = Some (st, NULL)"
  by (rule first_node [where name = "''A()''"]) code_simp+

text \<open>
  C12: the registration calls of the agent's components and of the vendor build a well-typed schema. If
  all of them succeed, every node carries what the code that reads it relies on: a parameter kept in the
  database has a default value, a parameter or an operation has the callbacks that will be called for
  it, and a parameter that counts entries refers to an object one level further down. This needs that
  the arguments of an operation are registered after the operation itself.
\<close>

theorem registrations_well_typed:
  assumes "register_all (init_registry hooks) rs = Some (rg, USP_OK)" "orderly (init_registry hooks) rs"
  shows "schema_typed rg"
  using assms by (rule register_all_typed [OF init_typed, rotated])

theorem registrations_well_typed_witness:
  "\<exists>rg. register_all (init_registry []) [Constant (Some ''Device.A'') (Some ''x'') DM_STRING] = Some (rg, USP_OK) \<and> schema_typed rg \<and>
    default_value (param_info (heap (rg_dm rg) 3)) = Some ''x''"
proof -
  let ?rs = "[Constant (Some ''Device.A'') (Some ''x'') DM_STRING]"
  obtain st where st: "DM_PRIV_AddSchemaPath (DATA_MODEL_Init_roots empty_state) ''Device.A'' kDMNodeType_Param_ConstantValue 0 =
      Some (st, 3)" "node_type (heap st 3) = kDMNodeType_Param_ConstantValue"
    using first_param by blast
  have "\<exists>rg. register_all (init_registry []) ?rs = Some (rg, USP_OK) \<and> default_value (param_info (heap (rg_dm rg) 3)) = Some ''x''"
    using st by (simp add: init_registry_def USP_REGISTER_Param_Constant_def reg_guard_def reg_path_def set_param_info_def IsParam_def
        reg_ok_def)
  moreover have "orderly (init_registry []) ?rs"
    by (simp add: names_new_operation_def split: option.split)
  ultimately show ?thesis using registrations_well_typed [of "[]" ?rs] by blast
qed

text \<open>
  Registering the arguments of an operation that nobody has registered succeeds. The tree then has
  an asynchronous operation with no callback and with no request permitted at a time, and registering the
  operation itself afterwards fails.
\<close>

theorem arguments_without_operation:
  "\<exists>rg. USP_REGISTER_OperationArguments (init_registry []) ''Device.A()'' None 0 None 0 = Some (rg, USP_OK) \<and>
    (\<exists>p\<in>map_nodes (rg_dm rg). node_type (heap (rg_dm rg) p) = kDMNodeType_AsyncOperation \<and> rg_opers rg p = zero_oper_info) \<and>
    USP_REGISTER_AsyncOperation rg (Some ''Device.A()'') True False = Some (rg, Inl USP_ERR_INTERNAL_ERROR)"
proof -
  let ?fl = "SUPPRESS_PRE_EXISTANCE_ERR OR SUPPRESS_LAST_TYPE_CHECK"
  obtain st where st: "DM_PRIV_AddSchemaPath (DATA_MODEL_Init_roots empty_state) ''Device.A()'' kDMNodeType_AsyncOperation ?fl =
      Some (st, 3)" "node_type (heap st 3) = kDMNodeType_AsyncOperation" "map_nodes st = {1, 2, 3}"
    "DM_PRIV_AddSchemaPath st ''Device.A()'' kDMNodeType_AsyncOperation 0 = Some (st, NULL)"
    using first_operation by blast
  then show ?thesis
    by (intro exI [of _ "init_registry []\<lparr>rg_dm := st, rg_opers := (\<lambda>_. zero_oper_info)(3 := zero_oper_info)\<rparr>"])
      (simp add: init_registry_def USP_REGISTER_OperationArguments_def reg_guard_def reg_path_def names_ok_def IsOperation_def
        set_oper_info_def cloned_def zero_oper_info_def reg_ok_def reg_err_def USP_REGISTER_AsyncOperation_def suffix_def)
qed

end
