(* ===== verification/Dm_Operate.thy ===== *)
theory Dm_Operate
  imports Usp_Msg Register
begin

text \<open>
  Operations: the table of requests in progress (\<open>core/device_request.c\<close>), and the invocation and restart of
  operations (\<open>core/data_model.c\<close>). What an operation does is the vendor's: a synchronous one and the start of
  an asynchronous one may change the agent, and give their result. The notification that an operation is
  complete is a parameter as well. The texts of errors are not modelled; the code compares the names of
  output arguments with the registered ones only in builds that define \<open>VALIDATE_OUTPUT_ARG_NAMES\<close>, which
  these are not.
\<close>

section \<open>Surroundings\<close>

record oper_env =
  oe_msg :: msg_env
  oe_info :: "node_ptr \<Rightarrow> dm_oper_info"
  oe_sync :: "dm_req \<Rightarrow> cstr \<Rightarrow> kv_vector \<Rightarrow> agent \<Rightarrow> agent \<times> (usp_err + kv_vector)"
  oe_async :: "dm_req \<Rightarrow> kv_vector \<Rightarrow> int \<Rightarrow> agent \<Rightarrow> agent \<times> (usp_err + unit)"
  oe_restart :: "dm_req \<Rightarrow> int \<Rightarrow> usp_err + (bool \<times> usp_err option \<times> kv_vector)"
  oe_complete :: "cstr \<Rightarrow> cstr \<Rightarrow> usp_err option \<Rightarrow> kv_vector \<Rightarrow> agent \<Rightarrow> agent"
  oe_endpoint :: cstr
  oe_now :: int

abbreviation oe_hooks :: "oper_env \<Rightarrow> hooks" where "oe_hooks env \<equiv> me_hooks (oe_msg env)"
abbreviation oe_start :: "oper_env \<Rightarrow> agent \<Rightarrow> unit ag_result" where "oe_start env \<equiv> DM_TRANS_Start (me_trans (oe_msg env))"
abbreviation oe_abort :: "oper_env \<Rightarrow> agent \<Rightarrow> unit ag_result" where "oe_abort env \<equiv> DM_TRANS_Abort (me_trans (oe_msg env))"

definition SAVED_TIME_REF_ARG_NAME :: cstr where "SAVED_TIME_REF_ARG_NAME = ''Internal_TimeRef''"
definition MAX_ISO8601_LEN :: nat where "MAX_ISO8601_LEN = 32"

definition KV_VECTOR_AddDateTime :: "kv_vector \<Rightarrow> cstr \<Rightarrow> int \<Rightarrow> kv_vector option" where
  "KV_VECTOR_AddDateTime kvv key v = map_option (KV_VECTOR_Add kvv key) (iso8601_from_unix_time v MAX_ISO8601_LEN)"

section \<open>The table of requests\<close>

definition device_req_root :: cstr where "device_req_root = ''Device.LocalAgent.Request''"

definition request_param :: "int \<Rightarrow> cstr \<Rightarrow> cstr" where
  "request_param n name = fst (USP_SNPRINTF MAX_DM_PATH (device_req_root @ ''.'' @ show_int n @ ''.'' @ name))"

fun set_params :: "hooks \<Rightarrow> agent \<Rightarrow> (cstr \<times> cstr) list \<Rightarrow> unit ag_result" where
  "set_params h ag [] = ag_ok ag ()"
| "set_params h ag ((path, v) # ps) = ag_bind (DATA_MODEL_SetParameterValue h ag path v 0) (\<lambda>ag1 _. set_params h ag1 ps)"

definition DEVICE_REQUEST_Add :: "oper_env \<Rightarrow> agent \<Rightarrow> cstr \<Rightarrow> cstr \<Rightarrow> int ag_result" where
  "DEVICE_REQUEST_Add env ag path command_key =
    ag_bind (DATA_MODEL_AddInstance (oe_hooks env) ag device_req_root True 0) (\<lambda>ag1 added.
    case added of
      None \<Rightarrow> None
    | Some n \<Rightarrow>
       ag_bind (set_params (oe_hooks env) ag1
           [(request_param n ''Command'', path), (request_param n ''CommandKey'', command_key),
            (request_param n ''Status'', ''Requested''), (request_param n ''Originator'', oe_endpoint env)])
         (\<lambda>ag2 _. ag_ok ag2 n))"

definition args_path :: "int \<Rightarrow> cstr \<Rightarrow> cstr \<Rightarrow> cstr" where
  "args_path n arg_prefix rest = fst (USP_SNPRINTF MAX_DM_PATH (''Internal.Request.'' @ show_int n @ ''.'' @ arg_prefix @ ''Args'' @ rest))"

fun persist_args :: "hooks \<Rightarrow> agent \<Rightarrow> int \<Rightarrow> cstr \<Rightarrow> nat \<Rightarrow> kv_vector \<Rightarrow> unit ag_result" where
  "persist_args h ag n arg_prefix i [] = ag_ok ag ()"
| "persist_args h ag n arg_prefix i ((key, v) # args) =
    (let number = ''.'' @ show_int (int i + 1)
     in ag_bind (DATA_MODEL_AddInstance h ag (args_path n arg_prefix number) False 0) (\<lambda>ag1 _.
        ag_bind (set_params h ag1 [(args_path n arg_prefix (number @ ''.Name''), key), (args_path n arg_prefix (number @ ''.Value''), v)])
          (\<lambda>ag2 _. persist_args h ag2 n arg_prefix (Suc i) args)))"

definition DEVICE_REQUEST_PersistOperationArgs :: "oper_env \<Rightarrow> agent \<Rightarrow> int \<Rightarrow> kv_vector \<Rightarrow> cstr \<Rightarrow> unit ag_result" where
  "DEVICE_REQUEST_PersistOperationArgs env ag n args arg_prefix =
    ag_bind (DATA_MODEL_AddInstance (oe_hooks env) ag (fst (USP_SNPRINTF MAX_DM_PATH (''Internal.Request.'' @ show_int n))) False 0)
      (\<lambda>ag1 _. persist_args (oe_hooks env) ag1 n arg_prefix 0 args)"

text \<open>
  The requests of a command, by the node its path leads to. \<open>INVALID\<close> is an error; the count ends early
  where a command of the table is not in the data model.
\<close>

fun count_requests :: "hooks \<Rightarrow> agent \<Rightarrow> node_ptr \<Rightarrow> int \<Rightarrow> int list \<Rightarrow> (agent \<times> int) option" where
  "count_requests h ag command_node num [] = Some (ag, num)"
| "count_requests h ag command_node num (n # iv) =
    ag_case (DATA_MODEL_GetParameterValue h ag (request_param n ''Command'') MAX_DM_VALUE_LEN 0)
      (\<lambda>ag1 _. Some (ag1, INVALID))
      (\<lambda>ag1 buf.
        case DM_PRIV_GetNodeFromPath (dm ag1) buf False False of
          None \<Rightarrow> Some (ag1, num)
        | Some (node, _, _) \<Rightarrow> count_requests h ag1 command_node (if node = command_node then num + 1 else num) iv)"

definition DEVICE_REQUEST_CountMatchingRequests :: "oper_env \<Rightarrow> agent \<Rightarrow> cstr \<Rightarrow> (agent \<times> int) option" where
  "DEVICE_REQUEST_CountMatchingRequests env ag command_path =
    (case (DM_PRIV_GetNodeFromPath (dm ag) command_path False False,
           DM_PRIV_GetNodeFromPath (dm ag) (device_req_root @ ''.{i}'') True True) of
       (Some (command_node, _, _), Some (node, inst, _)) \<Rightarrow>
         ag_case (get_instances (oe_hooks env) ag node inst)
           (\<lambda>ag1 _. Some (ag1, INVALID))
           (\<lambda>ag1 iv. count_requests (oe_hooks env) ag1 command_node 0 iv)
     | _ \<Rightarrow> None)"

definition IsRequestInstanceValid :: "oper_env \<Rightarrow> agent \<Rightarrow> int \<Rightarrow> (agent \<times> bool) option" where
  "IsRequestInstanceValid env ag n =
    ag_case (DATA_MODEL_GetInstances (oe_hooks env) ag device_req_root)
      (\<lambda>ag1 _. Some (ag1, False)) (\<lambda>ag1 iv. Some (ag1, n \<in> set iv))"

definition DEVICE_REQUEST_UpdateOperationStatus :: "oper_env \<Rightarrow> agent \<Rightarrow> int \<Rightarrow> cstr \<Rightarrow> agent option" where
  "DEVICE_REQUEST_UpdateOperationStatus env ag n status =
    (case IsRequestInstanceValid env ag n of
       None \<Rightarrow> None
     | Some (ag1, valid) \<Rightarrow>
        if \<not> valid then Some ag1
        else ag_case (oe_start env ag1) (\<lambda>ag2 _. Some ag2) (\<lambda>ag2 _.
          ag_case (DATA_MODEL_SetParameterValue (oe_hooks env) ag2 (request_param n ''Status'') status 0)
            (\<lambda>ag3 _. Some ag3)
            (\<lambda>ag3 _. map_option fst (commit (oe_msg env) ag3))))"

definition DEVICE_REQUEST_OperationComplete ::
    "oper_env \<Rightarrow> agent \<Rightarrow> int \<Rightarrow> usp_err option \<Rightarrow> kv_vector \<Rightarrow> agent option" where
  "DEVICE_REQUEST_OperationComplete env ag n err_code output_args =
    (case IsRequestInstanceValid env ag n of
       None \<Rightarrow> None
     | Some (ag1, valid) \<Rightarrow>
        if \<not> valid then Some ag1
        else
        ag_case (DATA_MODEL_GetParameterValue (oe_hooks env) ag1 (request_param n ''Command'') MAX_DM_PATH 0)
          (\<lambda>ag2 _. Some ag2) (\<lambda>ag2 command.
        ag_case (DATA_MODEL_GetParameterValue (oe_hooks env) ag2 (request_param n ''CommandKey'') MAX_DM_SHORT_VALUE_LEN 0)
          (\<lambda>ag3 _. Some ag3) (\<lambda>ag3 command_key.
        ag_case (oe_start env ag3) (\<lambda>ag4 _. Some ag4) (\<lambda>ag4 _.
        ag_case (DATA_MODEL_DeleteInstance (oe_hooks env) (oe_complete env command command_key err_code output_args ag4)
            (fst (USP_SNPRINTF MAX_DM_PATH (device_req_root @ ''.'' @ show_int n))) 0)
          (\<lambda>ag5 _. map_option fst (oe_abort env ag5))
          (\<lambda>ag5 _. map_option fst (commit (oe_msg env) ag5))))))"

section \<open>Invoking an operation\<close>

text \<open>
  The input arguments are the caller's; they are given back, since the invocation of an asynchronous
  operation adds to them.
\<close>

type_synonym operate_result = "(agent \<times> kv_vector \<times> (usp_err + int \<times> kv_vector)) option"

definition start_request :: "oper_env \<Rightarrow> agent \<Rightarrow> dm_oper_info \<Rightarrow> dm_req \<Rightarrow> cstr \<Rightarrow> kv_vector \<Rightarrow> operate_result" where
  "start_request env ag info req command_key input_args =
    ag_case (DEVICE_REQUEST_Add env ag (rq_path req) command_key) (\<lambda>ag1 err. Some (ag1, input_args, Inl err)) (\<lambda>ag1 n.
    case KV_VECTOR_AddDateTime input_args SAVED_TIME_REF_ARG_NAME (oe_now env) of
      None \<Rightarrow> None
    | Some args1 \<Rightarrow>
       ag_case (if op_restart_cb info then DEVICE_REQUEST_PersistOperationArgs env ag1 n args1 ''Input'' else ag_ok ag1 ())
         (\<lambda>ag2 err. Some (ag2, args1, Inl err)) (\<lambda>ag2 _.
       if \<not> op_async_cb info then None
       else case oe_async env req args1 n ag2 of
              (ag3, Inl err) \<Rightarrow> Some (ag3, args1, Inl err)
            | (ag3, Inr _) \<Rightarrow> Some (ag3, args1, Inr (n, []))))"

definition operate_async :: "oper_env \<Rightarrow> agent \<Rightarrow> dm_oper_info \<Rightarrow> dm_req \<Rightarrow> cstr \<Rightarrow> kv_vector \<Rightarrow> operate_result" where
  "operate_async env ag info req command_key input_args =
    (if op_max_concurrency info < INT_MAX then
       (case DEVICE_REQUEST_CountMatchingRequests env ag (node_path (heap (dm ag) (rq_node req))) of
          None \<Rightarrow> None
        | Some (ag1, num) \<Rightarrow>
           if op_max_concurrency info \<le> num then Some (ag1, input_args, Inl USP_ERR_RESOURCES_EXCEEDED)
           else start_request env ag1 info req command_key input_args)
     else start_request env ag info req command_key input_args)"

definition DATA_MODEL_Operate :: "oper_env \<Rightarrow> agent \<Rightarrow> cstr \<Rightarrow> kv_vector \<Rightarrow> cstr \<Rightarrow> operate_result" where
  "DATA_MODEL_Operate env ag path input_args command_key =
    (if \<not> DM_TRANS_IsWithinTransaction ag then None
     else case DM_PRIV_GetNodeFromPath (dm ag) path True True of
       None \<Rightarrow> Some (ag, input_args, Inl USP_ERR_OBJECT_DOES_NOT_EXIST)
     | Some (node, inst, is_qualified_instance) \<Rightarrow>
        if \<not> is_qualified_instance then Some (ag, input_args, Inl USP_ERR_COMMAND_FAILURE)
        else
        ag_case (dm_exists (oe_hooks env) ag inst) (\<lambda>ag1 err. Some (ag1, input_args, Inl err)) (\<lambda>ag1 exists.
        if \<not> exists then Some (ag1, input_args, Inl USP_ERR_COMMAND_FAILURE)
        else if KV_VECTOR_ValidateArguments input_args (op_input_args (oe_info env node)) True \<noteq> USP_OK
        then Some (ag1, input_args, Inl USP_ERR_COMMAND_FAILURE)
        else
          (let info = oe_info env node; req = \<lparr>rq_node = node, rq_path = path, rq_inst = inst\<rparr>
           in case node_type (heap (dm ag1) node) of
                kDMNodeType_SyncOperation \<Rightarrow>
                  if \<not> op_sync_cb info then None
                  else (case oe_sync env req command_key input_args ag1 of
                          (ag2, Inl err) \<Rightarrow> Some (ag2, input_args, Inl err)
                        | (ag2, Inr output_args) \<Rightarrow> Some (ag2, input_args, Inr (INVALID, output_args)))
              | kDMNodeType_AsyncOperation \<Rightarrow> operate_async env ag1 info req command_key input_args
              | _ \<Rightarrow> Some (ag1, input_args, Inl USP_ERR_COMMAND_FAILURE))))"

section \<open>After a reboot\<close>

text \<open>The node and instances of an operation of the table, where it still exists.\<close>

definition request_of :: "oper_env \<Rightarrow> agent \<Rightarrow> cstr \<Rightarrow> dm_req ag_result" where
  "request_of env ag path =
    (case DM_PRIV_GetNodeFromPath (dm ag) path True True of
       None \<Rightarrow> ag_err ag USP_ERR_OBJECT_DOES_NOT_EXIST
     | Some (node, inst, is_qualified_instance) \<Rightarrow>
        if \<not> is_qualified_instance then ag_err ag USP_ERR_COMMAND_FAILURE
        else ag_bind (must_exist (oe_hooks env) USP_ERR_COMMAND_FAILURE ag inst)
          (\<lambda>ag1 _. ag_ok ag1 \<lparr>rq_node = node, rq_path = path, rq_inst = inst\<rparr>))"

text \<open>Without a callback an operation is not restarted, and has failed. The error code 0 is \<open>None\<close>.\<close>

definition DATA_MODEL_ShouldOperationRestart ::
    "oper_env \<Rightarrow> agent \<Rightarrow> cstr \<Rightarrow> int \<Rightarrow> (bool \<times> usp_err option \<times> kv_vector) ag_result" where
  "DATA_MODEL_ShouldOperationRestart env ag path n =
    ag_bind (request_of env ag path) (\<lambda>ag1 req.
      if node_type (heap (dm ag1) (rq_node req)) \<noteq> kDMNodeType_AsyncOperation then None
      else if op_restart_cb (oe_info env (rq_node req)) then Some (ag1, oe_restart env req n)
      else (let (restart, err_code, _, _) = DM_ACCESS_DontRestartAsyncOperation path 256 in ag_ok ag1 (restart, Some err_code, [])))"

definition DATA_MODEL_RestartAsyncOperation :: "oper_env \<Rightarrow> agent \<Rightarrow> cstr \<Rightarrow> kv_vector \<Rightarrow> int \<Rightarrow> unit ag_result" where
  "DATA_MODEL_RestartAsyncOperation env ag path input_args n =
    ag_bind (request_of env ag path) (\<lambda>ag1 req.
      if node_type (heap (dm ag1) (rq_node req)) \<noteq> kDMNodeType_AsyncOperation \<or> \<not> op_async_cb (oe_info env (rq_node req)) then None
      else Some (oe_async env req input_args n ag1))"

fun read_args :: "hooks \<Rightarrow> agent \<Rightarrow> int \<Rightarrow> cstr \<Rightarrow> nat list \<Rightarrow> kv_vector \<Rightarrow> kv_vector ag_result" where
  "read_args h ag n arg_prefix [] args = ag_ok ag args"
| "read_args h ag n arg_prefix (i # is) args =
    (let number = ''.'' @ show_int (int i + 1)
     in ag_bind (DATA_MODEL_GetParameterValue h ag (args_path n arg_prefix (number @ ''.Name'')) MAX_DM_PATH 0) (\<lambda>ag1 key.
        ag_bind (DATA_MODEL_GetParameterValue h ag1 (args_path n arg_prefix (number @ ''.Value'')) MAX_DM_VALUE_LEN 0) (\<lambda>ag2 v.
        read_args h ag2 n arg_prefix is (KV_VECTOR_Add args key v))))"

definition ReadOperationArgs :: "oper_env \<Rightarrow> agent \<Rightarrow> int \<Rightarrow> cstr \<Rightarrow> kv_vector ag_result" where
  "ReadOperationArgs env ag n arg_prefix =
    ag_bind (DATA_MODEL_GetNumInstances (oe_hooks env) ag (args_path n arg_prefix []))
      (\<lambda>ag1 num. read_args (oe_hooks env) ag1 n arg_prefix [0..<nat num] KV_VECTOR_Init)"

definition RestartAsyncOperation :: "oper_env \<Rightarrow> agent \<Rightarrow> cstr \<Rightarrow> int \<Rightarrow> agent option" where
  "RestartAsyncOperation env ag path n =
    ag_case (ag_bind (ReadOperationArgs env ag n ''Input'') (\<lambda>ag1 args. DATA_MODEL_RestartAsyncOperation env ag1 path args n))
      (\<lambda>ag1 err. DEVICE_REQUEST_OperationComplete env ag1 n (Some err) [])
      (\<lambda>ag1 _. Some ag1)"

fun restart_operations :: "oper_env \<Rightarrow> agent \<Rightarrow> int list \<Rightarrow> unit ag_result" where
  "restart_operations env ag [] = ag_ok ag ()"
| "restart_operations env ag (n # ns) =
    ag_bind (DATA_MODEL_GetParameterValue (oe_hooks env) ag (request_param n ''Command'') MAX_DM_PATH 0) (\<lambda>ag1 op_path.
    ag_bind (DATA_MODEL_ShouldOperationRestart env ag1 op_path n) (\<lambda>ag2 (is_restart, err_code, output_args).
    case (if is_restart then RestartAsyncOperation env ag2 op_path n
          else DEVICE_REQUEST_OperationComplete env ag2 n err_code output_args) of
      None \<Rightarrow> None
    | Some ag3 \<Rightarrow> restart_operations env ag3 ns))"

definition DEVICE_REQUEST_RestartAsyncOperations :: "oper_env \<Rightarrow> agent \<Rightarrow> unit ag_result" where
  "DEVICE_REQUEST_RestartAsyncOperations env ag =
    ag_bind (DATA_MODEL_GetInstances (oe_hooks env) ag device_req_root) (\<lambda>ag1 ns. restart_operations env ag1 ns)"

text \<open>The arguments that were persisted go with their request.\<close>

definition DeleteRequestArgs :: "oper_env \<Rightarrow> agent \<Rightarrow> dm_req \<Rightarrow> unit ag_result" where
  "DeleteRequestArgs env ag req =
    DATA_MODEL_DeleteInstance (oe_hooks env) ag
      (fst (USP_SNPRINTF MAX_DM_PATH (''Internal.Request.'' @ show_int (instances (rq_inst req) ! 0)))) IGNORE_NO_INSTANCE"

section \<open>What operations may change\<close>

text \<open>Every part of the vendor's that an operation calls keeps the tree.\<close>

definition oper_keeps_tree :: "oper_env \<Rightarrow> bool" where
  "oper_keeps_tree env \<longleftrightarrow> notify_keeps_tree (me_notify (oe_msg env)) \<and>
    (\<forall>req key args ag. tree_only ag (fst (oe_sync env req key args ag))) \<and>
    (\<forall>req args n ag. tree_only ag (fst (oe_async env req args n ag)))"

lemma set_params_writes [step_intros]: "steps writes_only ag (set_params h ag ps)"
  by (induction ps arbitrary: ag) (auto intro!: step_intros)

lemma DEVICE_REQUEST_Add_writes [step_intros]: "steps writes_only ag (DEVICE_REQUEST_Add env ag path key)"
  unfolding DEVICE_REQUEST_Add_def by (auto split: option.split intro!: step_intros)

lemma persist_args_writes [step_intros]: "steps writes_only ag (persist_args h ag n px i args)"
  by (induction args arbitrary: ag i) (auto simp: Let_def intro!: step_intros)

lemma PersistOperationArgs_writes [step_intros]: "steps writes_only ag (DEVICE_REQUEST_PersistOperationArgs env ag n args px)"
  unfolding DEVICE_REQUEST_PersistOperationArgs_def by (intro step_intros)

lemma count_requests_reads [step_intros]: "steps reads_only ag (count_requests h ag node num iv)"
  by (induction iv arbitrary: ag num) (auto split: option.split intro!: step_intros)

lemma CountMatchingRequests_reads: "steps reads_only ag (DEVICE_REQUEST_CountMatchingRequests env ag path)"
  unfolding DEVICE_REQUEST_CountMatchingRequests_def by (auto split: option.split intro!: step_intros)

lemmas request_tree = steps_writes_tree [OF DEVICE_REQUEST_Add_writes] steps_writes_tree [OF PersistOperationArgs_writes]
lemmas count_then = tree.steps_then [OF steps_reads_tree [OF CountMatchingRequests_reads]]

text \<open>The calls of the vendor's operations.\<close>

lemma tree_call:
  assumes "tree_only ag (fst r)" "\<And>ag1 x. steps tree_only ag1 (f ag1 x)"
  shows "steps tree_only ag (case r of (ag1, x) \<Rightarrow> f ag1 x)"
  using assms tree.steps_from by (cases r) fastforce

lemma start_request_tree:
  assumes "oper_keeps_tree env"
  shows "steps tree_only ag (start_request env ag info req key args)"
proof -
  have a: "tree_only ag1 (fst (oe_async env req as n ag1))" for ag1 as n
    using assms by (simp add: oper_keeps_tree_def)
  have async: "steps tree_only ag1 (case oe_async env req as n ag1 of (ag3, Inl err) \<Rightarrow> Some (ag3, as, Inl err) | (ag3, Inr _) \<Rightarrow> Some (ag3, as, Inr (n, [])))"
    for ag1 as n
    by (rule tree_call [OF a]) (auto split: sum.split intro: step_intros)
  show ?thesis unfolding start_request_def
    by (intro step_intros steps_option request_tree async)
qed

lemma DATA_MODEL_Operate_tree:
  assumes "oper_keeps_tree env"
  shows "steps tree_only ag (DATA_MODEL_Operate env ag path args key)"
proof -
  have s: "tree_only ag1 (fst (oe_sync env req key as ag1))" for ag1 as req
    using assms by (simp add: oper_keeps_tree_def)
  have sync: "steps tree_only ag1 (case oe_sync env req key as ag1 of (ag2, Inl err) \<Rightarrow> Some (ag2, as, Inl err)
      | (ag2, Inr output_args) \<Rightarrow> Some (ag2, as, Inr (INVALID, output_args)))" for ag1 as req
    by (rule tree_call [OF s]) (auto split: sum.split intro: step_intros)
  have async: "steps tree_only ag1 (operate_async env ag1 info req key as)" for ag1 info req as
    unfolding operate_async_def
    by (intro step_intros count_then start_request_tree [OF assms])
  have by_type: "steps tree_only ag1 (case t of
        kDMNodeType_SyncOperation \<Rightarrow> if \<not> c then None
          else (case oe_sync env req key as ag1 of (ag2, Inl err) \<Rightarrow> Some (ag2, as, Inl err)
            | (ag2, Inr output_args) \<Rightarrow> Some (ag2, as, Inr (INVALID, output_args)))
      | kDMNodeType_AsyncOperation \<Rightarrow> operate_async env ag1 info req key as
      | _ \<Rightarrow> Some (ag1, as, Inl err))" for t c ag1 as req info err
    by (cases t) (use sync async step_intros in auto)
  show ?thesis unfolding DATA_MODEL_Operate_def Let_def
    by (intro step_intros steps_option steps_reads_tree [OF dm_exists_tree] by_type)
qed

section \<open>The arguments of a request\<close>

definition time_refs :: "kv_vector \<Rightarrow> nat" where
  "time_refs args = length (filter (\<lambda>(k, _). k = SAVED_TIME_REF_ARG_NAME) args)"

lemma time_refs_add: "time_refs (args @ [(SAVED_TIME_REF_ARG_NAME, v)]) = Suc (time_refs args)"
  by (simp add: time_refs_def)

lemma distinct_time_refs: "distinct (map fst args) \<Longrightarrow> time_refs args \<le> 1"
proof (induction args)
  case (Cons a args)
  have "time_refs args = 0" if "fst a = SAVED_TIME_REF_ARG_NAME"
    using Cons.prems that by (auto simp: time_refs_def filter_empty_conv rev_image_eqI)
  then show ?case using Cons by (cases a) (auto simp: time_refs_def)
qed (simp add: time_refs_def)

lemma valid_time_refs: "KV_VECTOR_ValidateArguments args schema True = USP_OK \<Longrightarrow> time_refs args \<le> 1"
  by (rule distinct_time_refs) (use no_duplicate_iff [of args] in \<open>auto simp: KV_VECTOR_ValidateArguments_def split: if_splits\<close>)

text \<open>
  An operation leaves the arguments as they are, or it is a request and the time is added to them.
\<close>

lemma start_request_args:
  assumes "start_request env ag info req key args = Some (ag', args', r)"
  shows "args' = args \<and> isl r \<or> time_refs args' = Suc (time_refs args)"
  using assms
  by (auto simp: start_request_def KV_VECTOR_AddDateTime_def KV_VECTOR_Add_def AddKeyValueInternal_def time_refs_add
      split: option.splits if_splits sum.splits prod.splits elim!: ag_case_Some)

lemma Operate_args:
  assumes "DATA_MODEL_Operate env ag path args key = Some (ag', args', r)"
  shows "args' = args \<and> (\<forall>n out. r = Inr (n, out) \<longrightarrow> n = INVALID) \<or> time_refs args' = Suc (time_refs args) \<and> time_refs args \<le> 1"
proof -
  from assms consider e where "args' = args" "r = Inl e" | out where "args' = args" "r = Inr (INVALID, out)"
    | ag1 info req schema where "KV_VECTOR_ValidateArguments args schema True = USP_OK" "operate_async env ag1 info req key args = Some (ag', args', r)"
    unfolding DATA_MODEL_Operate_def Let_def
    by (auto split: if_splits option.splits prod.splits sum.splits dm_node_type.splits elim!: ag_case_Some)
  then show ?thesis
  proof cases
    case 3
    then have "args' = args \<and> isl r \<or> time_refs args' = Suc (time_refs args)"
      using start_request_args by (fastforce simp: operate_async_def split: if_splits option.splits prod.splits)
    then show ?thesis using valid_time_refs [OF 3(1)] by (cases r) auto
  qed auto
qed

section \<open>Properties\<close>

text \<open>The table of requests with the instance 7, and no parameter.\<close>

definition req_node :: dm_node where
  "req_node = table_node_ex\<lparr>node_path := ''Device.LocalAgent.Request.{i}'', node_hash := TEXT_UTILS_CalcHash ''Device.LocalAgent.Request.{i}''\<rparr>"

definition req_agent :: agent where
  "req_agent = idle_agent\<lparr>dm := demo_state\<lparr>heap := (\<lambda>_. req_node)\<rparr>\<rparr>"

definition req_env :: oper_env where
  "req_env = \<lparr>oe_msg = demo_msg_env no_hooks, oe_info = (\<lambda>_. zero_oper_info), oe_sync = (\<lambda>req key args ag. (ag, Inr [])),
    oe_async = (\<lambda>req args n ag. (ag, USP_OK)), oe_restart = (\<lambda>req n. Inr (True, None, [])),
    oe_complete = (\<lambda>c k e args ag. ag), oe_endpoint = [], oe_now = 0\<rparr>"

lemma req_find: "FindNodeFromHash (dm req_agent) k = (if k = TEXT_UTILS_CalcHash ''Device.LocalAgent.Request.{i}'' then 3 else NULL)"
  by (simp add: FindNodeFromHash_def req_agent_def demo_state_def req_node_def table_node_ex_def demo_node_def)

lemma req_table: "DM_PRIV_GetNodeFromPath (dm req_agent) ''Device.LocalAgent.Request'' True True = Some (3, zero_instances, False)"
proof -
  have c: "DM_PRIV_CalcHashFromPath True ''Device.LocalAgent.Request'' = Inr (TEXT_UTILS_CalcHash ''Device.LocalAgent.Request'', zero_instances)"
    "add_separator (ADD_TO_HASH CHR ''.'' (TEXT_UTILS_CalcHash ''Device.LocalAgent.Request'')) = TEXT_UTILS_CalcHash ''Device.LocalAgent.Request.{i}''"
    "TEXT_UTILS_CalcHash ''Device.LocalAgent.Request.{i}'' \<noteq> TEXT_UTILS_CalcHash ''Device.LocalAgent.Request''"
    by code_simp+
  then show ?thesis
    by (simp add: DM_PRIV_GetNodeFromPath_def c(1,2) req_find Let_def)
      (simp add: req_agent_def req_node_def table_node_ex_def zero_instances_def demo_node_def)
qed

lemma req_valid: "IsRequestInstanceValid req_env req_agent 7 = Some (req_agent, True)"
proof -
  have n: "node_type (heap (dm req_agent) 3) = kDMNodeType_Object_MultiInstance"
    by (simp add: req_agent_def req_node_def table_node_ex_def demo_node_def)
  have e: "must_exist demo_hooks USP_ERR_OBJECT_DOES_NOT_EXIST req_agent zero_instances = ag_ok req_agent ()"
    by (simp add: must_exist_def dm_exists_def on_dm_def DM_INST_VECTOR_IsExist_def zero_instances_def)
  have t: "top_node_of (dm req_agent) (with_table 3 zero_instances) = Some 3"
    by (simp add: req_agent_def req_node_def table_node_ex_def demo_node_def top_node_of_def with_table_def zero_instances_def)
  have "settled (dm req_agent) 3"
    by (simp add: settled_def req_agent_def demo_state_def req_node_def table_node_ex_def)
  then have r: "RefreshInstVector v (dm req_agent) 3 = Some (dm req_agent, USP_OK)" for v
    by (simp add: settled_def RefreshInstVector_def Let_def)
  have "get_instances demo_hooks req_agent 3 zero_instances = ag_ok req_agent [7]"
    by (simp add: get_instances_def on_dm_def DM_INST_VECTOR_GetInstances_def Let_def t r)
      (simp add: zero_instances_def MAX_DM_INSTANCE_ORDER_def div_of_def req_agent_def demo_state_def req_node_def table_node_ex_def
        demo_node_def in_table_def with_table_def INT_VECTOR_Find_def first_index_Nil INT_VECTOR_Init_def INT_VECTOR_Add_def ag_ok_def
        replicate_6)
  then show ?thesis
    by (simp add: IsRequestInstanceValid_def req_env_def DATA_MODEL_GetInstances_def device_req_root_def req_table n e ag_ok_def)
qed

text \<open>
  Where the new status of a request cannot be stored, the transaction that was started for it is left
  open: it is neither committed nor aborted. The next transaction then joins it, so that what it writes is
  committed or rolled back together with the rest of the failed update.
\<close>

theorem failed_status_update_leaks:
  assumes "IsRequestInstanceValid env ag n = Some (ag1, True)" "cur_transaction ag1 = None" "oe_start env ag1 = Some (ag2, USP_OK)"
    "DATA_MODEL_SetParameterValue (oe_hooks env) ag2 (request_param n ''Status'') status 0 = Some (ag3, Inl err)"
  shows "DEVICE_REQUEST_UpdateOperationStatus env ag n status = Some ag3 \<and> DM_TRANS_IsWithinTransaction ag3 \<and>
    DM_TRANS_Start tv ag3 = Some (ag3, USP_OK)"
proof -
  have "cur_transaction ag2 \<noteq> None"
    using assms(2,3) by (auto simp: DM_TRANS_Start_def Let_def split: sum.splits option.splits prod.splits)
  then have "cur_transaction ag3 \<noteq> None" using stepsD [OF SetParameterValue_writes assms(4)] by (simp add: writes_only_def)
  then show ?thesis using assms
    by (simp add: DEVICE_REQUEST_UpdateOperationStatus_def DM_TRANS_IsWithinTransaction_def DM_TRANS_Start_def)
qed

theorem failed_status_update_leaks_witness:
  "\<exists>ag. DEVICE_REQUEST_UpdateOperationStatus req_env req_agent 7 ''Active'' = Some ag \<and> cur_transaction req_agent = None \<and>
    DM_TRANS_IsWithinTransaction ag"
proof -
  let ?ag = "req_agent\<lparr>db := (db req_agent)\<lparr>saved := Some (rows (db req_agent))\<rparr>, cur_transaction := Some []\<rparr>"
  have t: "cur_transaction req_agent = None" "sql (db req_agent) = (\<lambda>_. True)" "saved (db req_agent) = None"
    by (simp_all add: req_agent_def idle_facts)
  have s: "oe_start req_env req_agent = Some (?ag, USP_OK)"
    by (simp add: DM_TRANS_Start_def DATABASE_StartTransaction_def t req_env_def Let_def)
  have p: "request_param 7 ''Status'' = ''Device.LocalAgent.Request.7.Status''"
    unfolding request_param_def by code_simp
  have c: "DM_PRIV_CalcHashFromPath True ''Device.LocalAgent.Request.7.Status'' = Inr (TEXT_UTILS_CalcHash ''Device.LocalAgent.Request.{i}.Status'',
      \<lparr>order = 1, instances = [7, 0, 0, 0, 0, 0], inodes = [0, 0, 0, 0, 0, 0]\<rparr>)"
    "TEXT_UTILS_CalcHash ''Device.LocalAgent.Request.{i}'' \<noteq> TEXT_UTILS_CalcHash ''Device.LocalAgent.Request.{i}.Status''"
    "add_separator (ADD_TO_HASH CHR ''.'' (TEXT_UTILS_CalcHash ''Device.LocalAgent.Request.{i}.Status'')) \<noteq>
      TEXT_UTILS_CalcHash ''Device.LocalAgent.Request.{i}''"
    by code_simp+
  have "DM_PRIV_GetNodeFromPath (dm req_agent) ''Device.LocalAgent.Request.7.Status'' True False = None"
    using c(2,3) by (simp add: DM_PRIV_GetNodeFromPath_def c(1) req_find Let_def)
  then have "DATA_MODEL_SetParameterValue (oe_hooks req_env) ?ag (request_param 7 ''Status'') ''Active'' 0 = Some (?ag, Inl USP_ERR_UNSUPPORTED_PARAM)"
    by (simp add: DATA_MODEL_SetParameterValue_def p ag_err_def)
  from failed_status_update_leaks [OF req_valid t(1) s this] t(1) show ?thesis by blast
qed

end
