(* ===== verification/Msg_Supported.thy ===== *)
theory Msg_Supported
  imports Usp_Msg Register
begin

text \<open>
  The GetSupportedDM and GetSupportedProtocol messages (\<open>core/handle_get_supported_dm.c\<close>,
  \<open>core/handle_get_supported_protocol.c\<close>): the part of the data model below each path of the request that
  the role of the controller may know of. The response lists objects; an object lists its parameters,
  commands and events. The recursion over the tree takes the depth left; \<open>None\<close> is a deeper tree, a
  parameter without a type or a NULL pointer.
\<close>

section \<open>Requests and responses\<close>

definition PERMIT_OBJ_INFO :: "16 word" where "PERMIT_OBJ_INFO = 0x0400"
definition PERMIT_CMD_INFO :: "16 word" where "PERMIT_CMD_INFO = 0x0800"
definition DM_BASE64 :: "32 word" where "DM_BASE64 = 0x40"
definition DM_HEXBIN :: "32 word" where "DM_HEXBIN = 0x80"
definition BBF_DATA_MODEL_URI :: cstr where "BBF_DATA_MODEL_URI = ''urn:broadband-forum-org:tr-181-2-12-0''"
definition AGENT_SUPPORTED_PROTOCOL_VERSIONS :: cstr where "AGENT_SUPPORTED_PROTOCOL_VERSIONS = ''1.0,1.1,1.2''"

record get_supported_dm =
  gs_obj_paths :: "cstr list"
  gs_first_level_only :: bool
  gs_return_commands :: bool
  gs_return_events :: bool
  gs_return_params :: bool

datatype obj_access = OBJ_READ_ONLY | OBJ_ADD_DELETE | OBJ_ADD_ONLY | OBJ_DELETE_ONLY
datatype param_access = PARAM_READ_ONLY | PARAM_READ_WRITE | PARAM_WRITE_ONLY
datatype param_value_type =
    PARAM_UNKNOWN | PARAM_BASE_64 | PARAM_BOOLEAN | PARAM_DATE_TIME | PARAM_DECIMAL | PARAM_HEX_BINARY | PARAM_INT | PARAM_LONG
  | PARAM_STRING | PARAM_UNSIGNED_INT | PARAM_UNSIGNED_LONG

record supported_param =
  sp_name :: cstr
  sp_access :: param_access
  sp_type :: param_value_type

record supported_command =
  sc_name :: cstr
  sc_sync :: bool
  sc_input_args :: str_vector
  sc_output_args :: str_vector

record supported_event =
  se_name :: cstr
  se_args :: str_vector

record supported_obj =
  so_path :: cstr
  so_multi_instance :: bool
  so_access :: obj_access
  so_params :: "supported_param list"
  so_commands :: "supported_command list"
  so_events :: "supported_event list"

record requested_obj =
  ro_path :: cstr
  ro_err :: "usp_err option"
  ro_uri :: cstr
  ro_objs :: "supported_obj list"

type_synonym get_supported_dm_resp = "requested_obj list"

text \<open>
  The role of the controller, what was registered, and the tables whose validating callback is the hook
  that denies (\<open>USP_HOOK_DenyAddInstance\<close>, \<open>USP_HOOK_DenyDeleteInstance\<close>).
\<close>

record supported_env =
  sd_role :: combined_role
  sd_opers :: "node_ptr \<Rightarrow> dm_oper_info"
  sd_event_args :: "node_ptr \<Rightarrow> str_vector"
  sd_deny_add :: "node_ptr \<Rightarrow> bool"
  sd_deny_del :: "node_ptr \<Rightarrow> bool"

definition permits :: "16 word \<Rightarrow> 16 word \<Rightarrow> bool" where
  "permits perm flag \<longleftrightarrow> perm AND flag \<noteq> 0"

section \<open>Access\<close>

definition CalcDMSchemaObjAccess :: "bool \<Rightarrow> bool \<Rightarrow> obj_access" where
  "CalcDMSchemaObjAccess is_add_allowed is_del_allowed =
    (if \<not> is_add_allowed then if \<not> is_del_allowed then OBJ_READ_ONLY else OBJ_DELETE_ONLY
     else if \<not> is_del_allowed then OBJ_ADD_ONLY else OBJ_ADD_DELETE)"

text \<open>The caller makes sure that one of the two is allowed.\<close>

definition CalcDMSchemaParamAccess :: "bool \<Rightarrow> bool \<Rightarrow> param_access option" where
  "CalcDMSchemaParamAccess is_read_allowed is_write_allowed =
    (if \<not> is_read_allowed \<and> \<not> is_write_allowed then None
     else Some (if is_read_allowed then if is_write_allowed then PARAM_READ_WRITE else PARAM_READ_ONLY else PARAM_WRITE_ONLY))"

definition CalcDMSchemaParamType :: "dm_node \<Rightarrow> param_value_type option" where
  "CalcDMSchemaParamType node =
    (let flags = type_flags (param_info node)
     in if has_flag flags DM_STRING then Some PARAM_STRING
        else if has_flag flags DM_DATETIME then Some PARAM_DATE_TIME
        else if has_flag flags DM_BOOL then Some PARAM_BOOLEAN
        else if has_flag flags DM_INT then Some PARAM_INT
        else if has_flag flags DM_UINT then Some PARAM_UNSIGNED_INT
        else if has_flag flags DM_ULONG then Some PARAM_UNSIGNED_LONG
        else if has_flag flags DM_BASE64 then Some PARAM_BASE_64
        else if has_flag flags DM_HEXBIN then Some PARAM_HEX_BINARY
        else if has_flag flags DM_DECIMAL then Some PARAM_DECIMAL
        else if has_flag flags DM_LONG then Some PARAM_LONG
        else None)"

section \<open>Building the response\<close>

definition CreateGetSupportedDMResp :: "cstr \<Rightarrow> get_supported_dm_resp usp_msg" where
  "CreateGetSupportedDMResp msg_id = Response msg_id []"

definition AddGetSupportedDM_ReqObjResult ::
    "get_supported_dm_resp \<Rightarrow> cstr \<Rightarrow> usp_err option \<Rightarrow> cstr \<Rightarrow> supported_obj list \<Rightarrow> get_supported_dm_resp" where
  "AddGetSupportedDM_ReqObjResult gs_resp requested_path err uri objs =
    gs_resp @ [\<lparr>ro_path = requested_path, ro_err = err, ro_uri = uri, ro_objs = objs\<rparr>]"

definition AddReqObjResult_SupportedObjResult :: "supported_env \<Rightarrow> dm_state \<Rightarrow> node_ptr \<Rightarrow> 16 word \<Rightarrow> supported_obj" where
  "AddReqObjResult_SupportedObjResult env st n perm =
    (let node = heap st n; info = object_info node; multi = (node_type node = kDMNodeType_Object_MultiInstance);
         (add, del) =
           (if \<not> multi then (False, False)
            else if group_id info = NON_GROUPED
            then (\<not> sd_deny_add env n \<and> permits perm PERMIT_ADD, \<not> sd_deny_del env n \<and> permits perm PERMIT_DEL)
            else (group_writable info \<and> permits perm PERMIT_ADD, group_writable info \<and> permits perm PERMIT_DEL))
     in \<lparr>so_path = node_path node @ ''.'', so_multi_instance = multi, so_access = CalcDMSchemaObjAccess add del,
         so_params = [], so_commands = [], so_events = []\<rparr>)"

definition AddSupportedObjResult_SupportedCommandResult ::
    "supported_env \<Rightarrow> dm_state \<Rightarrow> supported_obj option \<Rightarrow> node_ptr \<Rightarrow> supported_obj option option" where
  "AddSupportedObjResult_SupportedCommandResult env st sor n =
    map_option (\<lambda>s. Some (s\<lparr>so_commands := so_commands s @
      [\<lparr>sc_name = node_name (heap st n), sc_sync = (node_type (heap st n) = kDMNodeType_SyncOperation),
        sc_input_args = op_input_args (sd_opers env n), sc_output_args = op_output_args (sd_opers env n)\<rparr>]\<rparr>)) sor"

definition AddSupportedObjResult_SupportedEventResult ::
    "supported_env \<Rightarrow> dm_state \<Rightarrow> supported_obj option \<Rightarrow> node_ptr \<Rightarrow> supported_obj option option" where
  "AddSupportedObjResult_SupportedEventResult env st sor n =
    map_option (\<lambda>s. Some (s\<lparr>so_events := so_events s @ [\<lparr>se_name = node_name (heap st n), se_args = sd_event_args env n\<rparr>]\<rparr>)) sor"

definition read_only_types :: "dm_node_type set" where
  "read_only_types = {kDMNodeType_Param_ConstantValue, kDMNodeType_Param_NumEntries, kDMNodeType_DBParam_ReadOnly,
    kDMNodeType_DBParam_ReadOnlyAuto, kDMNodeType_VendorParam_ReadOnly}"

definition AddSupportedObjResult_SupportedParamResult ::
    "dm_state \<Rightarrow> supported_obj option \<Rightarrow> node_ptr \<Rightarrow> 16 word \<Rightarrow> supported_obj option option" where
  "AddSupportedObjResult_SupportedParamResult st sor n perm =
    (if \<not> IsParam (heap st n) then None
     else
      let read = permits perm PERMIT_GET;
          writable = node_type (heap st n) \<notin> read_only_types \<and> permits perm PERMIT_SET
      in if \<not> read \<and> \<not> writable then Some sor
         else case (sor, CalcDMSchemaParamAccess read writable, CalcDMSchemaParamType (heap st n)) of
           (Some s, Some access, Some ty) \<Rightarrow>
             Some (Some (s\<lparr>so_params := so_params s @ [\<lparr>sp_name = node_name (heap st n), sp_access = access, sp_type = ty\<rparr>]\<rparr>))
         | _ \<Rightarrow> None)"

section \<open>Walking the schema\<close>

text \<open>
  What one child adds: to the entry of its parent, where there is one, and after it. \<open>walk\<close> is the walk
  of a child object. With first_level_only the permissions of a child object are those of its parent.
\<close>

definition supported_child ::
    "supported_env \<Rightarrow> get_supported_dm \<Rightarrow> dm_state \<Rightarrow> (node_ptr \<Rightarrow> supported_obj list option) \<Rightarrow> node_ptr \<Rightarrow> supported_obj option \<Rightarrow>
      node_ptr \<Rightarrow> (supported_obj option \<times> supported_obj list) option" where
  "supported_child env gs st walk parent sor c =
    (let child = heap st c;
         parent_perm = DM_PRIV_GetPermissions (heap st parent) (Some (sd_role env));
         child_perm = DM_PRIV_GetPermissions child (Some (sd_role env));
         own = map_option (\<lambda>s. (s, []))
     in if IsObject child then
          if \<not> gs_first_level_only gs then map_option (\<lambda>objs. (sor, objs)) (walk c)
          else if permits parent_perm PERMIT_OBJ_INFO
          then Some (sor, [AddReqObjResult_SupportedObjResult env st c parent_perm])
          else Some (sor, [])
        else if IsParam child then
          if gs_return_params gs \<and> permits parent_perm PERMIT_OBJ_INFO
          then own (AddSupportedObjResult_SupportedParamResult st sor c child_perm) else Some (sor, [])
        else if IsOperation child then
          if gs_return_commands gs \<and> permits parent_perm PERMIT_OBJ_INFO \<and> permits parent_perm PERMIT_CMD_INFO \<and> permits child_perm PERMIT_OPER
          then own (AddSupportedObjResult_SupportedCommandResult env st sor c) else Some (sor, [])
        else
          if gs_return_events gs \<and> permits parent_perm PERMIT_OBJ_INFO \<and> permits parent_perm PERMIT_CMD_INFO \<and>
            permits child_perm PERMIT_SUBS_EVT_OPER_COMP
          then own (AddSupportedObjResult_SupportedEventResult env st sor c) else Some (sor, []))"

fun supported_children ::
    "(supported_obj option \<Rightarrow> node_ptr \<Rightarrow> (supported_obj option \<times> supported_obj list) option) \<Rightarrow> supported_obj option \<Rightarrow> node_ptr list \<Rightarrow>
      (supported_obj option \<times> supported_obj list) option" where
  "supported_children f sor [] = Some (sor, [])"
| "supported_children f sor (c # cs) =
    (case f sor c of
       None \<Rightarrow> None
     | Some (sor1, objs) \<Rightarrow> map_option (\<lambda>(sor2, objs2). (sor2, objs @ objs2)) (supported_children f sor1 cs))"

text \<open>The objects in the order in which they are added to the response.\<close>

fun WalkSchema :: "nat \<Rightarrow> supported_env \<Rightarrow> get_supported_dm \<Rightarrow> dm_state \<Rightarrow> node_ptr \<Rightarrow> supported_obj list option" where
  "WalkSchema 0 env gs st parent = None"
| "WalkSchema (Suc depth) env gs st parent =
    (if \<not> IsObject (heap st parent) then None
     else
      let perm = DM_PRIV_GetPermissions (heap st parent) (Some (sd_role env));
          sor = (if permits perm PERMIT_OBJ_INFO then Some (AddReqObjResult_SupportedObjResult env st parent perm) else None)
      in map_option (\<lambda>(sor1, objs). (case sor1 of None \<Rightarrow> [] | Some s \<Rightarrow> [s]) @ objs)
           (supported_children (supported_child env gs st (WalkSchema depth env gs st) parent) sor (child_nodes (heap st parent))))"

definition ProcessSupportedPathInstances ::
    "supported_env \<Rightarrow> get_supported_dm \<Rightarrow> dm_state \<Rightarrow> cstr \<Rightarrow> get_supported_dm_resp \<Rightarrow> get_supported_dm_resp option" where
  "ProcessSupportedPathInstances env gs st path gs_resp =
    (case DM_PRIV_GetNodeFromPath st path False False of
       None \<Rightarrow> Some (AddGetSupportedDM_ReqObjResult gs_resp path (Some USP_ERR_INVALID_PATH) BBF_DATA_MODEL_URI [])
     | Some (n, _, _) \<Rightarrow>
        if \<not> IsObject (heap st n)
        then Some (AddGetSupportedDM_ReqObjResult gs_resp path (Some USP_ERR_INVALID_PATH) BBF_DATA_MODEL_URI [])
        else map_option (AddGetSupportedDM_ReqObjResult gs_resp path None BBF_DATA_MODEL_URI) (WalkSchema MAX_TREE_DEPTH env gs st n))"

fun process_supported :: "supported_env \<Rightarrow> get_supported_dm \<Rightarrow> dm_state \<Rightarrow> get_supported_dm_resp \<Rightarrow> cstr list \<Rightarrow> get_supported_dm_resp option" where
  "process_supported env gs st gs_resp [] = Some gs_resp"
| "process_supported env gs st gs_resp (path # paths) =
    (case ProcessSupportedPathInstances env gs st path gs_resp of
       None \<Rightarrow> None
     | Some gs_resp1 \<Rightarrow> process_supported env gs st gs_resp1 paths)"

definition MSG_HANDLER_HandleGetSupportedDM ::
    "supported_env \<Rightarrow> dm_state \<Rightarrow> cstr \<Rightarrow> get_supported_dm option \<Rightarrow> get_supported_dm_resp usp_msg option" where
  "MSG_HANDLER_HandleGetSupportedDM env st msg_id request =
    (case request of
       None \<Rightarrow> Some (ERROR_RESP_CreateSingle msg_id USP_ERR_MESSAGE_NOT_UNDERSTOOD [])
     | Some gs \<Rightarrow> map_option (Response msg_id) (process_supported env gs st [] (gs_obj_paths gs)))"

section \<open>Supported protocols\<close>

definition CreateGetSupportedProtocolResp :: "cstr \<Rightarrow> cstr usp_msg" where
  "CreateGetSupportedProtocolResp msg_id = Response msg_id AGENT_SUPPORTED_PROTOCOL_VERSIONS"

definition MSG_HANDLER_HandleGetSupportedProtocol :: "cstr \<Rightarrow> bool \<Rightarrow> cstr usp_msg" where
  "MSG_HANDLER_HandleGetSupportedProtocol msg_id is_request =
    (if \<not> is_request then ERROR_RESP_CreateSingle msg_id USP_ERR_MESSAGE_NOT_UNDERSTOOD []
     else CreateGetSupportedProtocolResp msg_id)"

section \<open>Only what the role may know of\<close>

text \<open>The objects at and below an object.\<close>

inductive object_below :: "dm_state \<Rightarrow> node_ptr \<Rightarrow> node_ptr \<Rightarrow> bool" for st where
  below_self: "IsObject (heap st n) \<Longrightarrow> object_below st n n"
| below_child: "IsObject (heap st n) \<Longrightarrow> c \<in> set (child_nodes (heap st n)) \<Longrightarrow> object_below st c m \<Longrightarrow> object_below st n m"

inductive_simps object_below_iff: "object_below st n m"

abbreviation perm_of :: "supported_env \<Rightarrow> dm_state \<Rightarrow> node_ptr \<Rightarrow> 16 word" where
  "perm_of env st n \<equiv> DM_PRIV_GetPermissions (heap st n) (Some (sd_role env))"

definition param_permitted :: "supported_env \<Rightarrow> dm_state \<Rightarrow> node_ptr \<Rightarrow> supported_param \<Rightarrow> bool" where
  "param_permitted env st n p \<longleftrightarrow> (\<exists>c\<in>set (child_nodes (heap st n)). IsParam (heap st c) \<and> sp_name p = node_name (heap st c) \<and>
    (sp_access p \<noteq> PARAM_WRITE_ONLY \<longrightarrow> permits (perm_of env st c) PERMIT_GET) \<and>
    (sp_access p \<noteq> PARAM_READ_ONLY \<longrightarrow> permits (perm_of env st c) PERMIT_SET \<and> node_type (heap st c) \<notin> read_only_types))"

definition command_permitted :: "supported_env \<Rightarrow> dm_state \<Rightarrow> node_ptr \<Rightarrow> cstr \<Rightarrow> bool" where
  "command_permitted env st n name \<longleftrightarrow> permits (perm_of env st n) PERMIT_CMD_INFO \<and>
    (\<exists>c\<in>set (child_nodes (heap st n)). IsOperation (heap st c) \<and> name = node_name (heap st c) \<and> permits (perm_of env st c) PERMIT_OPER)"

definition event_permitted :: "supported_env \<Rightarrow> dm_state \<Rightarrow> node_ptr \<Rightarrow> cstr \<Rightarrow> bool" where
  "event_permitted env st n name \<longleftrightarrow> permits (perm_of env st n) PERMIT_CMD_INFO \<and>
    (\<exists>c\<in>set (child_nodes (heap st n)). node_type (heap st c) = kDMNodeType_Event \<and> name = node_name (heap st c) \<and>
      permits (perm_of env st c) PERMIT_SUBS_EVT_OPER_COMP)"

text \<open>The entry of an object names what the role may know of, and nothing else.\<close>

definition entry_permitted :: "supported_env \<Rightarrow> dm_state \<Rightarrow> node_ptr \<Rightarrow> supported_obj \<Rightarrow> bool" where
  "entry_permitted env st n s \<longleftrightarrow> so_path s = node_path (heap st n) @ ''.'' \<and> permits (perm_of env st n) PERMIT_OBJ_INFO \<and>
    (\<forall>p\<in>set (so_params s). param_permitted env st n p) \<and>
    (\<forall>c\<in>set (so_commands s). command_permitted env st n (sc_name c)) \<and>
    (\<forall>e\<in>set (so_events s). event_permitted env st n (se_name e))"

text \<open>Exactly the objects below a node that the role may know of, each with its entry.\<close>

definition describes :: "supported_env \<Rightarrow> dm_state \<Rightarrow> node_ptr set \<Rightarrow> supported_obj list \<Rightarrow> bool" where
  "describes env st N objs \<longleftrightarrow> (\<forall>s\<in>set objs. \<exists>m\<in>N. entry_permitted env st m s) \<and>
    (\<forall>m\<in>N. permits (perm_of env st m) PERMIT_OBJ_INFO \<longrightarrow> node_path (heap st m) @ ''.'' \<in> so_path ` set objs)"

lemma describes_Nil [simp]: "describes env st {} []"
  by (simp add: describes_def)

lemma describes_append: "describes env st N objs \<Longrightarrow> describes env st M objs' \<Longrightarrow> describes env st (N \<union> M) (objs @ objs')"
  unfolding describes_def by (auto simp: image_Un)

lemma new_entry: "permits (perm_of env st n) PERMIT_OBJ_INFO \<Longrightarrow>
    entry_permitted env st n (AddReqObjResult_SupportedObjResult env st n (perm_of env st n))"
  by (simp add: entry_permitted_def AddReqObjResult_SupportedObjResult_def Let_def split: prod.split)

lemma add_param_entry:
  assumes "AddSupportedObjResult_SupportedParamResult st (Some s) c (perm_of env st c) = Some sor'" "entry_permitted env st n s"
    "c \<in> set (child_nodes (heap st n))"
  shows "\<exists>s'. sor' = Some s' \<and> entry_permitted env st n s'"
proof -
  let ?r = "permits (perm_of env st c) PERMIT_GET"
  let ?w = "node_type (heap st c) \<notin> read_only_types \<and> permits (perm_of env st c) PERMIT_SET"
  have p: "IsParam (heap st c)" using assms(1) by (simp add: AddSupportedObjResult_SupportedParamResult_def split: if_splits)
  consider "sor' = Some s" | access ty where "CalcDMSchemaParamAccess ?r ?w = Some access"
      "sor' = Some (s\<lparr>so_params := so_params s @ [\<lparr>sp_name = node_name (heap st c), sp_access = access, sp_type = ty\<rparr>]\<rparr>)"
    using assms(1) p unfolding AddSupportedObjResult_SupportedParamResult_def Let_def by (auto split: if_splits option.splits)
  then show ?thesis
  proof cases
    case 1
    then show ?thesis using assms(2) by simp
  next
    case 2
    have "param_permitted env st n \<lparr>sp_name = node_name (heap st c), sp_access = access, sp_type = ty\<rparr>"
      using 2(1) p assms(3) unfolding param_permitted_def
      by (intro bexI [of _ c]) (auto simp: CalcDMSchemaParamAccess_def split: if_splits)
    then show ?thesis using 2(2) assms(2) by (auto simp: entry_permitted_def)
  qed
qed

lemma supported_child_ok:
  assumes "supported_child env gs st walk n sor c = Some (sor', objs)" "\<not> gs_first_level_only gs"
    and n: "c \<in> set (child_nodes (heap st n))" "case sor of None \<Rightarrow> \<not> permits (perm_of env st n) PERMIT_OBJ_INFO | Some s \<Rightarrow> entry_permitted env st n s"
    and walk: "\<And>objs. IsObject (heap st c) \<Longrightarrow> walk c = Some objs \<Longrightarrow> describes env st {m. object_below st c m} objs"
  shows "(case sor' of None \<Rightarrow> \<not> permits (perm_of env st n) PERMIT_OBJ_INFO | Some s \<Rightarrow> entry_permitted env st n s) \<and>
    describes env st {m. object_below st c m} objs"
proof (cases "IsObject (heap st c)")
  case True
  then show ?thesis using assms(1,2) n(2) walk by (auto simp: supported_child_def Let_def)
next
  case False
  have e: "{m. object_below st c m} = {}" using False by (auto simp: object_below_iff [of st c])
  have "objs = [] \<and> (sor' = sor \<or> (\<exists>s. sor = Some s \<and> (\<exists>s'. sor' = Some s' \<and> entry_permitted env st n s')))"
  proof (cases sor)
    case None
    then show ?thesis using assms(1) False n(2) by (auto simp: supported_child_def Let_def split: if_splits)
  next
    case (Some s)
    then have s: "entry_permitted env st n s" using n(2) by simp
    consider "sor' = sor" "objs = []"
      | "AddSupportedObjResult_SupportedParamResult st (Some s) c (perm_of env st c) = Some sor'" "objs = []"
      | "AddSupportedObjResult_SupportedCommandResult env st (Some s) c = Some sor'" "objs = []" "IsOperation (heap st c)"
        "permits (perm_of env st n) PERMIT_CMD_INFO" "permits (perm_of env st c) PERMIT_OPER"
      | "AddSupportedObjResult_SupportedEventResult env st (Some s) c = Some sor'" "objs = []" "\<not> IsOperation (heap st c)" "\<not> IsParam (heap st c)"
        "permits (perm_of env st n) PERMIT_CMD_INFO" "permits (perm_of env st c) PERMIT_SUBS_EVT_OPER_COMP"
      using assms(1) False Some by (auto simp: supported_child_def Let_def split: if_splits)
    then show ?thesis
    proof cases
      case 2
      then show ?thesis using add_param_entry [OF 2(1) s n(1)] Some by simp
    next
      case 3
      then have "command_permitted env st n (node_name (heap st c))" using n(1) by (auto simp: command_permitted_def)
      then show ?thesis using 3 s Some by (auto simp: AddSupportedObjResult_SupportedCommandResult_def entry_permitted_def)
    next
      case 4
      have "node_type (heap st c) = kDMNodeType_Event"
        using 4 False by (auto simp: IsOperation_def IsParam_def IsObject_def)
      then have "event_permitted env st n (node_name (heap st c))" using 4 n(1) by (auto simp: event_permitted_def)
      then show ?thesis using 4 s Some by (auto simp: AddSupportedObjResult_SupportedEventResult_def entry_permitted_def)
    qed simp
  qed
  then show ?thesis using n(2) e by auto
qed

lemma supported_children_ok:
  assumes "supported_children (supported_child env gs st walk n) sor cs = Some (sor', objs)" "\<not> gs_first_level_only gs"
    "set cs \<subseteq> set (child_nodes (heap st n))"
    "case sor of None \<Rightarrow> \<not> permits (perm_of env st n) PERMIT_OBJ_INFO | Some s \<Rightarrow> entry_permitted env st n s"
    "\<And>c objs. IsObject (heap st c) \<Longrightarrow> walk c = Some objs \<Longrightarrow> describes env st {m. object_below st c m} objs"
  shows "(case sor' of None \<Rightarrow> \<not> permits (perm_of env st n) PERMIT_OBJ_INFO | Some s \<Rightarrow> entry_permitted env st n s) \<and>
    describes env st (\<Union>c\<in>set cs. {m. object_below st c m}) objs"
  using assms(1,3,4)
proof (induction cs arbitrary: sor objs)
  case (Cons c cs)
  obtain sor1 objs1 objs2 where c: "supported_child env gs st walk n sor c = Some (sor1, objs1)"
      "supported_children (supported_child env gs st walk n) sor1 cs = Some (sor', objs2)" "objs = objs1 @ objs2"
    using Cons.prems(1) by (auto split: option.splits)
  have m: "c \<in> set (child_nodes (heap st n))" "set cs \<subseteq> set (child_nodes (heap st n))" using Cons.prems(2) by simp_all
  note k = supported_child_ok [OF c(1) assms(2) m(1) Cons.prems(3) assms(5)]
  have ih: "(case sor' of None \<Rightarrow> \<not> permits (perm_of env st n) PERMIT_OBJ_INFO | Some s \<Rightarrow> entry_permitted env st n s) \<and>
      describes env st (\<Union>c\<in>set cs. {m. object_below st c m}) objs2"
    by (rule Cons.IH [OF c(2) m(2)]) (use k in blast)
  then show ?case using k describes_append [of env st "{m. object_below st c m}" objs1] c(3) by simp
qed simp

lemma WalkSchema_describes:
  "WalkSchema k env gs st n = Some objs \<Longrightarrow> \<not> gs_first_level_only gs \<Longrightarrow> describes env st {m. object_below st n m} objs"
proof (induction k arbitrary: n objs)
  case (Suc k)
  let ?perm = "perm_of env st n"
  let ?sor = "if permits ?perm PERMIT_OBJ_INFO then Some (AddReqObjResult_SupportedObjResult env st n ?perm) else None"
  have n: "IsObject (heap st n)" using Suc.prems(1) by (simp split: if_splits)
  obtain sor objs1 where w: "supported_children (supported_child env gs st (WalkSchema k env gs st) n) ?sor (child_nodes (heap st n)) = Some (sor, objs1)"
      "objs = (case sor of None \<Rightarrow> [] | Some s \<Rightarrow> [s]) @ objs1"
    using Suc.prems(1) n by (auto simp: Let_def)
  have start: "case ?sor of None \<Rightarrow> \<not> permits ?perm PERMIT_OBJ_INFO | Some s \<Rightarrow> entry_permitted env st n s"
    by (simp add: new_entry)
  have k: "(case sor of None \<Rightarrow> \<not> permits ?perm PERMIT_OBJ_INFO | Some s \<Rightarrow> entry_permitted env st n s) \<and>
      describes env st (\<Union>c\<in>set (child_nodes (heap st n)). {m. object_below st c m}) objs1"
    by (rule supported_children_ok [OF w(1) Suc.prems(2) order_refl start]) (rule Suc.IH [OF _ Suc.prems(2)])
  have "describes env st {n} (case sor of None \<Rightarrow> [] | Some s \<Rightarrow> [s])"
    using k by (cases sor) (auto simp: describes_def entry_permitted_def)
  then have "describes env st ({n} \<union> (\<Union>c\<in>set (child_nodes (heap st n)). {m. object_below st c m})) objs"
    unfolding w(2) using k by (blast intro: describes_append)
  moreover have "{m. object_below st n m} = {n} \<union> (\<Union>c\<in>set (child_nodes (heap st n)). {m. object_below st c m})"
    using n by (auto simp: object_below_iff [of st n])
  ultimately show ?case by simp
qed simp

text \<open>
  C22: without first_level_only, the response to GetSupportedDM has one result for each path of the request, in order;
  a path that is not that of an object has an error and no objects; otherwise the objects listed are
  exactly those at and below the object that the role may know of, and their entries list only
  parameters that the role may read or write, as they are said to be, and commands and events that it
  may use.
\<close>

theorem HandleGetSupportedDM_permitted:
  assumes "MSG_HANDLER_HandleGetSupportedDM env st msg_id (Some gs) = Some (Response rid resp)" "\<not> gs_first_level_only gs"
  shows "list_all2 (\<lambda>path ro. ro_path ro = path \<and>
    (case DM_PRIV_GetNodeFromPath st path False False of
       None \<Rightarrow> ro_err ro \<noteq> None \<and> ro_objs ro = []
     | Some (n, _, _) \<Rightarrow>
        if IsObject (heap st n) then ro_err ro = None \<and> describes env st {m. object_below st n m} (ro_objs ro)
        else ro_err ro \<noteq> None \<and> ro_objs ro = [])) (gs_obj_paths gs) resp"
    (is "list_all2 ?P _ _")
proof -
  have step: "\<exists>ro. r' = r @ [ro] \<and> ?P path ro" if p: "ProcessSupportedPathInstances env gs st path r = Some r'" for path r r'
  proof (cases "DM_PRIV_GetNodeFromPath st path False False")
    case None
    then show ?thesis using p by (auto simp: ProcessSupportedPathInstances_def AddGetSupportedDM_ReqObjResult_def)
  next
    case (Some x)
    obtain n i q where x: "x = (n, i, q)" by (cases x)
    show ?thesis
    proof (cases "IsObject (heap st n)")
      case False
      then show ?thesis using p Some x by (auto simp: ProcessSupportedPathInstances_def AddGetSupportedDM_ReqObjResult_def)
    next
      case True
      then obtain objs where w: "WalkSchema MAX_TREE_DEPTH env gs st n = Some objs"
          "r' = AddGetSupportedDM_ReqObjResult r path None BBF_DATA_MODEL_URI objs"
        using p Some x by (auto simp: ProcessSupportedPathInstances_def)
      then show ?thesis
        using WalkSchema_describes [OF w(1) assms(2)] Some x True by (simp add: AddGetSupportedDM_ReqObjResult_def)
    qed
  qed
  have "\<exists>ros. r' = r @ ros \<and> list_all2 ?P paths ros" if "process_supported env gs st r paths = Some r'" for paths r r'
    using that
  proof (induction paths arbitrary: r)
    case (Cons path paths)
    then obtain r1 where p: "ProcessSupportedPathInstances env gs st path r = Some r1" "process_supported env gs st r1 paths = Some r'"
      by (auto split: option.splits)
    obtain ro where "r1 = r @ [ro]" "?P path ro" using step [OF p(1)] by blast
    moreover obtain ros where "r' = r1 @ ros" "list_all2 ?P paths ros" using Cons.IH [OF p(2)] by blast
    ultimately show ?case by (intro exI [of _ "ro # ros"]) simp
  qed simp
  from this [of "[]" "gs_obj_paths gs" resp] show ?thesis
    using assms(1) by (auto simp: MSG_HANDLER_HandleGetSupportedDM_def)
qed

text \<open>
  C39: with first_level_only the permissions of a child object are not looked at: whatever the role may do with it, a
  child of an object that the role may know of is listed, and its access is worked out from the permissions
  of the parent.
\<close>

theorem first_level_only_ignores_child_permissions:
  assumes "WalkSchema k env gs st n = Some objs" "gs_first_level_only gs" "permits (perm_of env st n) PERMIT_OBJ_INFO"
    "c \<in> set (child_nodes (heap st n))" "IsObject (heap st c)"
  shows "AddReqObjResult_SupportedObjResult env st c (perm_of env st n) \<in> set objs"
proof -
  have "AddReqObjResult_SupportedObjResult env st c (perm_of env st n) \<in> set objs'"
    if "supported_children (supported_child env gs st walk n) sor cs = Some (sor', objs')" "c \<in> set cs" for walk sor cs sor' objs'
    using that
  proof (induction cs arbitrary: sor objs')
    case (Cons d cs)
    obtain sor1 objs1 objs2 where d: "supported_child env gs st walk n sor d = Some (sor1, objs1)"
        "supported_children (supported_child env gs st walk n) sor1 cs = Some (sor', objs2)" "objs' = objs1 @ objs2"
      using Cons.prems(1) by (auto split: option.splits)
    show ?case
    proof (cases "c = d")
      case True
      then show ?thesis using d(1,3) assms(2,3,5) by (auto simp: supported_child_def)
    next
      case False
      then show ?thesis using Cons.IH [OF d(2)] Cons.prems(2) d(3) by simp
    qed
  qed simp
  then show ?thesis using assms(1,4) by (cases k) (auto simp: Let_def split: if_splits)
qed

text \<open>Device with a parameter that the role may read and an object that it may not know of.\<close>

definition walk_state :: dm_state where
  "walk_state = demo_state\<lparr>heap := (\<lambda>_. demo_node\<lparr>node_path := ''Device.S'', node_type := kDMNodeType_Object_SingleInstance,
      child_nodes := [], permissions := [0, 0]\<rparr>)
    (3 := demo_node\<lparr>node_path := ''Device'', node_type := kDMNodeType_Object_SingleInstance, node_hash := TEXT_UTILS_CalcHash ''Device'',
        node_order := 0, child_nodes := [4, 5], permissions := [PERMIT_ALL, 0]\<rparr>,
     4 := demo_node\<lparr>node_path := ''Device.P'', node_name := ''P'', node_type := kDMNodeType_DBParam_ReadWrite, child_nodes := [],
        permissions := [PERMIT_GET, 0], param_info := zero_param_info\<lparr>type_flags := DM_STRING\<rparr>\<rparr>)\<rparr>"

definition walk_env :: supported_env where
  "walk_env = \<lparr>sd_role = \<lparr>inherited = 0, assigned = 1\<rparr>, sd_opers = (\<lambda>_. \<lparr>op_sync_cb = False, op_async_cb = False, op_restart_cb = False,
    op_max_concurrency = 0, op_input_args = [], op_output_args = []\<rparr>), sd_event_args = (\<lambda>_. []), sd_deny_add = (\<lambda>_. False), sd_deny_del = (\<lambda>_. False)\<rparr>"

definition walk_request :: "bool \<Rightarrow> get_supported_dm" where
  "walk_request first = \<lparr>gs_obj_paths = [''Device'', ''X''], gs_first_level_only = first, gs_return_commands = True, gs_return_events = True,
    gs_return_params = True\<rparr>"

lemma walk_perms: "perm_of walk_env walk_state 3 = PERMIT_ALL" "perm_of walk_env walk_state 4 = PERMIT_GET" "perm_of walk_env walk_state 5 = 0"
  by (simp_all add: walk_env_def walk_state_def DM_PRIV_GetPermissions_def role_permissions_def kCTrustRole_Max_def)

lemma walk_nodes:
  "child_nodes (heap walk_state 3) = [4, 5]" "child_nodes (heap walk_state 5) = []" "node_path (heap walk_state 3) = ''Device''"
  "node_path (heap walk_state 5) = ''Device.S''" "node_name (heap walk_state 4) = ''P''"
  "node_type (heap walk_state 3) = kDMNodeType_Object_SingleInstance" "node_type (heap walk_state 4) = kDMNodeType_DBParam_ReadWrite"
  "node_type (heap walk_state 5) = kDMNodeType_Object_SingleInstance" "type_flags (param_info (heap walk_state 4)) = DM_STRING"
  by (simp_all add: walk_state_def)

lemma walk_permits: "permits PERMIT_ALL PERMIT_OBJ_INFO" "\<not> permits 0 flag" "permits PERMIT_GET PERMIT_GET" "\<not> permits PERMIT_GET PERMIT_SET"
  by (simp_all add: permits_def PERMIT_ALL_def PERMIT_OBJ_INFO_def PERMIT_GET_def PERMIT_SET_def)

lemmas walk_facts = walk_perms walk_nodes walk_permits

definition device_entry :: supported_obj where
  "device_entry = \<lparr>so_path = ''Device.'', so_multi_instance = False, so_access = OBJ_READ_ONLY,
    so_params = [\<lparr>sp_name = ''P'', sp_access = PARAM_READ_ONLY, sp_type = PARAM_STRING\<rparr>], so_commands = [], so_events = []\<rparr>"

lemma walk_device:
  "WalkSchema (Suc (Suc k)) walk_env (walk_request False) walk_state 3 = Some [device_entry]"
  "WalkSchema (Suc (Suc k)) walk_env (walk_request True) walk_state 3 = Some [device_entry, device_entry\<lparr>so_path := ''Device.S.'', so_params := []\<rparr>]"
  by (simp_all add: Let_def supported_child_def IsObject_def IsParam_def walk_facts AddReqObjResult_SupportedObjResult_def
    AddSupportedObjResult_SupportedParamResult_def CalcDMSchemaObjAccess_def CalcDMSchemaParamAccess_def CalcDMSchemaParamType_def
    read_only_types_def walk_request_def device_entry_def has_flag_def DM_STRING_def)

lemma walk_path:
  "\<exists>i q. DM_PRIV_GetNodeFromPath walk_state ''Device'' False False = Some (3, i, q)"
  "DM_PRIV_GetNodeFromPath walk_state ''X'' False False = None"
proof -
  have c: "DM_PRIV_CalcHashFromPath False ''Device'' = Inr (TEXT_UTILS_CalcHash ''Device'', zero_instances)" by code_simp
  then show "\<exists>i q. DM_PRIV_GetNodeFromPath walk_state ''Device'' False False = Some (3, i, q)"
    by (auto simp: DM_PRIV_GetNodeFromPath_def FindNodeFromHash_def walk_state_def demo_state_def)
  have "DM_PRIV_CalcHashFromPath False ''X'' = Inr (TEXT_UTILS_CalcHash ''X'', zero_instances)"
    "TEXT_UTILS_CalcHash ''X'' \<noteq> TEXT_UTILS_CalcHash ''Device''"
    "add_separator (ADD_TO_HASH CHR ''.'' (TEXT_UTILS_CalcHash ''X'')) \<noteq> TEXT_UTILS_CalcHash ''Device''" by code_simp+
  then show "DM_PRIV_GetNodeFromPath walk_state ''X'' False False = None"
    by (auto simp: DM_PRIV_GetNodeFromPath_def FindNodeFromHash_def walk_state_def demo_state_def)
qed

lemma walk_response:
  "MSG_HANDLER_HandleGetSupportedDM walk_env walk_state ''1'' (Some (walk_request False)) = Some (Response ''1''
    [\<lparr>ro_path = ''Device'', ro_err = None, ro_uri = BBF_DATA_MODEL_URI, ro_objs = [device_entry]\<rparr>,
     \<lparr>ro_path = ''X'', ro_err = Some USP_ERR_INVALID_PATH, ro_uri = BBF_DATA_MODEL_URI, ro_objs = []\<rparr>])"
proof -
  have d: "MAX_TREE_DEPTH = Suc (Suc 62)" by (simp add: MAX_TREE_DEPTH_def MAX_PATH_SEGMENTS_def)
  then have w: "WalkSchema MAX_TREE_DEPTH walk_env (walk_request False) walk_state 3 = Some [device_entry]" by (simp only: d walk_device(1))
  have "gs_obj_paths (walk_request False) = [''Device'', ''X'']" by (simp add: walk_request_def)
  then show ?thesis
    using walk_path by (auto simp: MSG_HANDLER_HandleGetSupportedDM_def ProcessSupportedPathInstances_def AddGetSupportedDM_ReqObjResult_def
      IsObject_def walk_nodes w simp del: WalkSchema.simps)
qed

theorem HandleGetSupportedDM_permitted_witness:
  "\<exists>ro1 ro2. MSG_HANDLER_HandleGetSupportedDM walk_env walk_state ''1'' (Some (walk_request False)) = Some (Response ''1'' [ro1, ro2]) \<and>
    describes walk_env walk_state {m. object_below walk_state 3 m} (ro_objs ro1) \<and> ro_objs ro1 = [device_entry] \<and> ro_err ro2 \<noteq> None"
proof -
  have "\<not> gs_first_level_only (walk_request False)" by (simp add: walk_request_def)
  from HandleGetSupportedDM_permitted [OF walk_response this] walk_path show ?thesis
    unfolding walk_response by (auto simp: walk_request_def IsObject_def walk_nodes)
qed

theorem first_level_only_ignores_child_permissions_witness:
  "\<exists>objs. WalkSchema 2 walk_env (walk_request True) walk_state 3 = Some objs \<and>
    AddReqObjResult_SupportedObjResult walk_env walk_state 5 PERMIT_ALL \<in> set objs \<and> \<not> permits (perm_of walk_env walk_state 5) PERMIT_OBJ_INFO"
proof -
  have w: "WalkSchema 2 walk_env (walk_request True) walk_state 3 = Some [device_entry, device_entry\<lparr>so_path := ''Device.S.'', so_params := []\<rparr>]"
    using walk_device(2) [of 0] by (simp only: numeral_2_eq_2)
  have "AddReqObjResult_SupportedObjResult walk_env walk_state 5 (perm_of walk_env walk_state 3) \<in>
      set [device_entry, device_entry\<lparr>so_path := ''Device.S.'', so_params := []\<rparr>]"
    by (rule first_level_only_ignores_child_permissions [OF w]) (simp_all add: walk_facts IsObject_def walk_request_def)
  then show ?thesis using w by (simp add: walk_facts)
qed

end
