(* ===== verification/Msg_Notify.thy ===== *)
theory Msg_Notify
  imports Dm_Operate Subs_Retry Msg_Supported
begin

text \<open>
  Notifications (\<open>core/handle_notify.c\<close>): building the Notify request of each kind, numbering its message, and
  the response to a Notify, which ends the retries of the notification.
\<close>

section \<open>Notify requests\<close>

definition kSubNotifyType_None :: int where "kSubNotifyType_None = 0"
definition kSubNotifyType_ValueChange :: int where "kSubNotifyType_ValueChange = 1"
definition kSubNotifyType_ObjectCreation :: int where "kSubNotifyType_ObjectCreation = 2"
definition kSubNotifyType_ObjectDeletion :: int where "kSubNotifyType_ObjectDeletion = 3"
definition kSubNotifyType_OperationComplete :: int where "kSubNotifyType_OperationComplete = 4"
definition kSubNotifyType_Event :: int where "kSubNotifyType_Event = 5"
definition MAX_NOTIFY_MSG_ID :: nat where "MAX_NOTIFY_MSG_ID = 64"

definition notify_types :: enum_table where
  "notify_types = [(kSubNotifyType_None, ''''), (kSubNotifyType_ValueChange, ''ValueChange''), (kSubNotifyType_ObjectCreation, ''ObjectCreation''),
    (kSubNotifyType_ObjectDeletion, ''ObjectDeletion''), (kSubNotifyType_OperationComplete, ''OperationComplete''), (kSubNotifyType_Event, ''Event'')]"

lemmas notify_type_defs = kSubNotifyType_None_def kSubNotifyType_ValueChange_def kSubNotifyType_ObjectCreation_def
  kSubNotifyType_ObjectDeletion_def kSubNotifyType_OperationComplete_def kSubNotifyType_Event_def

datatype oper_result = Oper_Output_Args kv_vector | Oper_Cmd_Failure usp_err

datatype notification =
    Notify_Value_Change cstr cstr
  | Notify_Obj_Creation cstr kv_vector
  | Notify_Obj_Deletion cstr
  | Notify_Oper_Complete cstr cstr cstr oper_result
  | Notify_Event cstr cstr kv_vector
  | Notify_On_Board_Req cstr cstr cstr cstr

record notify_req =
  nq_msg_id :: cstr
  nq_subscription_id :: cstr
  nq_send_resp :: bool
  nq_notification :: notification

record notify_counts =
  sub_notify_count :: "32 word list"
  onboard_request_count :: "32 word"

type_synonym 'a numbered = "(notify_counts \<times> 'a) option"

definition CreateNotify :: "cstr \<Rightarrow> cstr \<Rightarrow> bool \<Rightarrow> notification \<Rightarrow> notify_req" where
  "CreateNotify msg_id subscription_id send_resp n =
    \<lparr>nq_msg_id = msg_id, nq_subscription_id = subscription_id, nq_send_resp = send_resp, nq_notification = n\<rparr>"

section \<open>Numbering\<close>

definition iso8601_cur_time :: "int \<Rightarrow> nat \<Rightarrow> cstr option" where
  "iso8601_cur_time t len = iso8601_from_unix_time t len"

text \<open>\<open>None\<close> is a buffer whose contents are unspecified. The counter is printed as a signed number.\<close>

definition notify_msg_id :: "cstr \<Rightarrow> int \<Rightarrow> 32 word \<Rightarrow> cstr option" where
  "notify_msg_id notify_str t cnt =
    map_option (\<lambda>time. fst (USP_SNPRINTF MAX_NOTIFY_MSG_ID (notify_str @ ''-'' @ time @ ''-'' @ show_int (sint cnt))))
      (iso8601_cur_time t MAX_ISO8601_LEN)"

definition CalcMessageId :: "int \<Rightarrow> int \<Rightarrow> notify_counts \<Rightarrow> cstr numbered" where
  "CalcMessageId t notify_type nc =
    (let cnt = sub_notify_count nc ! nat notify_type + 1;
         nc1 = nc\<lparr>sub_notify_count := (sub_notify_count nc)[nat notify_type := cnt]\<rparr>
     in map_option (\<lambda>msg_id. (nc1, msg_id)) (notify_msg_id (TEXT_UTILS_EnumToString notify_type notify_types) t cnt))"

definition OnBoardRequestMessageId :: "int \<Rightarrow> notify_counts \<Rightarrow> cstr numbered" where
  "OnBoardRequestMessageId t nc =
    (let cnt = onboard_request_count nc + 1
     in map_option (\<lambda>msg_id. (nc\<lparr>onboard_request_count := cnt\<rparr>, msg_id)) (notify_msg_id ''OnBoardRequest'' t cnt))"

section \<open>The kinds of notifications\<close>

definition MSG_HANDLER_CreateNotifyReq_ValueChange :: "int \<Rightarrow> cstr \<Rightarrow> cstr \<Rightarrow> cstr \<Rightarrow> bool \<Rightarrow> notify_counts \<Rightarrow> notify_req numbered" where
  "MSG_HANDLER_CreateNotifyReq_ValueChange t path val subscription_id send_resp nc =
    map_option (\<lambda>(nc1, msg_id). (nc1, CreateNotify msg_id subscription_id send_resp (Notify_Value_Change path val)))
      (CalcMessageId t kSubNotifyType_ValueChange nc)"

text \<open>An error in reading the unique keys is not reported; the keys are then left out.\<close>

definition MSG_HANDLER_CreateNotifyReq_ObjectCreation ::
    "int \<Rightarrow> hooks \<Rightarrow> agent \<Rightarrow> cstr \<Rightarrow> cstr \<Rightarrow> bool \<Rightarrow> notify_counts \<Rightarrow> (agent \<times> notify_counts \<times> notify_req) option" where
  "MSG_HANDLER_CreateNotifyReq_ObjectCreation t h ag obj_path subscription_id send_resp nc =
    (case (CalcMessageId t kSubNotifyType_ObjectCreation nc, TEXT_UTILS_StrDupWithTrailingDot obj_path) of
       (Some (nc1, msg_id), Some path) \<Rightarrow>
         (case DATA_MODEL_GetUniqueKeyParams h ag obj_path None of
            None \<Rightarrow> None
          | Some (ag1, r) \<Rightarrow>
             (let keys = (case r of Inl _ \<Rightarrow> [] | Inr kvv \<Rightarrow> kvv)
              in Some (ag1, nc1, CreateNotify msg_id subscription_id send_resp (Notify_Obj_Creation path keys))))
     | _ \<Rightarrow> None)"

definition MSG_HANDLER_CreateNotifyReq_ObjectDeletion :: "int \<Rightarrow> cstr \<Rightarrow> cstr \<Rightarrow> bool \<Rightarrow> notify_counts \<Rightarrow> notify_req numbered" where
  "MSG_HANDLER_CreateNotifyReq_ObjectDeletion t obj_path subscription_id send_resp nc =
    (case (CalcMessageId t kSubNotifyType_ObjectDeletion nc, TEXT_UTILS_StrDupWithTrailingDot obj_path) of
       (Some (nc1, msg_id), Some path) \<Rightarrow> Some (nc1, CreateNotify msg_id subscription_id send_resp (Notify_Obj_Deletion path))
     | _ \<Rightarrow> None)"

definition CreateOperComplete :: "int \<Rightarrow> cstr \<Rightarrow> cstr \<Rightarrow> cstr \<Rightarrow> bool \<Rightarrow> oper_result \<Rightarrow> notify_counts \<Rightarrow> notify_req numbered" where
  "CreateOperComplete t command command_key subscription_id send_resp res nc =
    (let (buf, name) = TEXT_UTILS_SplitPath command MAX_DM_PATH
     in map_option (\<lambda>(nc1, msg_id). (nc1, CreateNotify msg_id subscription_id send_resp (Notify_Oper_Complete buf name command_key res)))
          (CalcMessageId t kSubNotifyType_OperationComplete nc))"

definition MSG_HANDLER_CreateNotifyReq_OperCompleteSuccess ::
    "int \<Rightarrow> kv_vector option \<Rightarrow> cstr \<Rightarrow> cstr \<Rightarrow> cstr \<Rightarrow> bool \<Rightarrow> notify_counts \<Rightarrow> notify_req numbered" where
  "MSG_HANDLER_CreateNotifyReq_OperCompleteSuccess t output_args command command_key subscription_id send_resp nc =
    CreateOperComplete t command command_key subscription_id send_resp
      (Oper_Output_Args (case output_args of None \<Rightarrow> [] | Some kvv \<Rightarrow> kvv)) nc"

definition MSG_HANDLER_CreateNotifyReq_OperCompleteFailure ::
    "int \<Rightarrow> usp_err \<Rightarrow> cstr \<Rightarrow> cstr \<Rightarrow> cstr \<Rightarrow> bool \<Rightarrow> notify_counts \<Rightarrow> notify_req numbered" where
  "MSG_HANDLER_CreateNotifyReq_OperCompleteFailure t err_code command command_key subscription_id send_resp nc =
    CreateOperComplete t command command_key subscription_id send_resp (Oper_Cmd_Failure err_code) nc"

definition MSG_HANDLER_CreateNotifyReq_Event :: "int \<Rightarrow> cstr \<Rightarrow> kv_vector \<Rightarrow> cstr \<Rightarrow> bool \<Rightarrow> notify_counts \<Rightarrow> notify_req numbered" where
  "MSG_HANDLER_CreateNotifyReq_Event t event_name param_values subscription_id send_resp nc =
    (let (buf, name) = TEXT_UTILS_SplitPath event_name MAX_DM_PATH
     in map_option (\<lambda>(nc1, msg_id). (nc1, CreateNotify msg_id subscription_id send_resp (Notify_Event buf name param_values)))
          (CalcMessageId t kSubNotifyType_Event nc))"

definition MSG_HANDLER_CreateNotifyReq_OnBoard :: "int \<Rightarrow> cstr \<Rightarrow> cstr \<Rightarrow> cstr \<Rightarrow> bool \<Rightarrow> notify_counts \<Rightarrow> notify_req numbered" where
  "MSG_HANDLER_CreateNotifyReq_OnBoard t oui product_class serial_number send_resp nc =
    map_option (\<lambda>(nc1, msg_id).
        (nc1, CreateNotify msg_id [] send_resp (Notify_On_Board_Req oui product_class serial_number AGENT_SUPPORTED_PROTOCOL_VERSIONS)))
      (OnBoardRequestMessageId t nc)"

section \<open>Message identifiers are unique\<close>

text \<open>MAX_ISO8601_LEN bounds the text of the time, so an identifier is never cut off.\<close>

lemma time_length:
  assumes "iso8601_cur_time t MAX_ISO8601_LEN = Some buf" shows "length buf < MAX_ISO8601_LEN"
proof (cases "t = UNKNOWN_TIME")
  case True
  then show ?thesis using assms
    by (auto simp: iso8601_cur_time_def iso8601_from_unix_time_def USP_STRNCPY_def UNKNOWN_TIME_STR_def MAX_ISO8601_LEN_def)
next
  case False
  have "tm_gmtoff (gmtime t) = 0" by (simp add: gmtime_def Let_def split: prod.split)
  then have "fst (strftime MAX_ISO8601_LEN (strftime_FT (gmtime t) @ ''Z'')) = Some buf"
    using assms False by (simp add: iso8601_cur_time_def iso8601_from_unix_time_def iso8601_strftime_def MAX_ISO8601_LEN_def)
  then show ?thesis by (auto simp: strftime_def split: if_splits)
qed

lemma last_number:
  assumes "xs @ ''-'' @ show_nat a = ys @ ''-'' @ show_nat b" shows "a = b"
proof -
  have "takeWhile (\<lambda>c. c \<noteq> CHR ''-'') (rev (xs @ ''-'' @ show_nat a)) = rev (show_nat a)" for xs a
  proof -
    have "\<forall>c\<in>set (rev (show_nat a)). c \<noteq> CHR ''-''" using no_minus_in_number [of a] by auto
    then have "takeWhile (\<lambda>c. c \<noteq> CHR ''-'') (rev (show_nat a) @ [CHR ''-''] @ rev xs) = rev (show_nat a)"
      by (subst takeWhile_append2) auto
    then show ?thesis by simp
  qed
  from this [of xs a] this [of ys b] have "rev (show_nat a) = rev (show_nat b)" unfolding assms by (rule subst)
  then have "show_nat a = show_nat b" by simp
  then show ?thesis using digits_value_show_nat by metis
qed

lemma sint_bounds: "sint (cnt :: 32 word) < 2 ^ 31" "- (2 ^ 31) \<le> sint cnt"
  using sint_lt [of cnt] sint_ge [of cnt] by simp_all

lemma notify_msg_id_whole:
  assumes "notify_msg_id str t cnt = Some msg_id" "length str \<le> 17"
  shows "\<exists>time. msg_id = str @ ''-'' @ time @ ''-'' @ show_int (sint cnt)"
proof -
  obtain time where t: "iso8601_cur_time t MAX_ISO8601_LEN = Some time"
      "msg_id = fst (USP_SNPRINTF MAX_NOTIFY_MSG_ID (str @ ''-'' @ time @ ''-'' @ show_int (sint cnt)))"
    using assms(1) by (auto simp: notify_msg_id_def)
  have "length (show_int (sint cnt)) \<le> Suc 10"
    using sint_bounds [of cnt] by (intro length_show_int) auto
  then have "length (str @ ''-'' @ time @ ''-'' @ show_int (sint cnt)) < MAX_NOTIFY_MSG_ID"
    using time_length [OF t(1)] assms(2) by (simp add: MAX_NOTIFY_MSG_ID_def MAX_ISO8601_LEN_def)
  then show ?thesis using t(2) by (simp add: USP_SNPRINTF_def)
qed

lemma notify_names: "length (TEXT_UTILS_EnumToString n notify_types) \<le> 17"
  by (simp add: notify_types_def)

text \<open>
  While the counter of a kind of notification has not reached \<open>2\<^sup>3\<^sup>1\<close>, no two notifications of the kind have the
  same message ID, whatever the clock gives: the ID is never cut off and its last number is the counter.
\<close>

theorem CalcMessageId_unique:
  assumes "CalcMessageId t n nc = Some (nc1, msg_id)" "CalcMessageId t' n nc' = Some (nc1', msg_id')"
    "unat (sub_notify_count nc ! nat n) + 1 < 2 ^ 31" "unat (sub_notify_count nc' ! nat n) + 1 < 2 ^ 31"
    "sub_notify_count nc ! nat n \<noteq> sub_notify_count nc' ! nat n"
  shows "msg_id \<noteq> msg_id'"
proof -
  have num: "\<exists>pre. msg_id = pre @ ''-'' @ show_nat (unat (sub_notify_count nc ! nat n) + 1)"
    if id: "CalcMessageId t n nc = Some (nc1, msg_id)" and small: "unat (sub_notify_count nc ! nat n) + 1 < 2 ^ 31" for t nc nc1 msg_id
  proof -
    let ?c = "sub_notify_count nc ! nat n + 1"
    have u: "unat ?c = unat (sub_notify_count nc ! nat n) + 1" using small by (simp add: unat_word_ariths)
    have "int (unat ?c) < int (2 ^ 31)" unfolding u using small by (simp only: of_nat_less_iff)
    then have i: "uint ?c < 2 ^ 31" by (simp only: uint_nat of_nat_power of_nat_numeral)
    have "- (2 ^ 31) \<le> uint ?c" by (rule order_trans [OF _ uint_ge_0]) simp
    then have "sint ?c = uint ?c" using i unfolding sint_uint by (intro signed_take_bit_int_eq_self) simp_all
    then have "sint ?c = int (unat ?c)" by (simp only: uint_nat)
    then have "show_int (sint ?c) = show_nat (unat ?c)" by (simp add: show_int_def)
    moreover have "notify_msg_id (TEXT_UTILS_EnumToString n notify_types) t ?c = Some msg_id"
      using id by (auto simp: CalcMessageId_def Let_def)
    from notify_msg_id_whole [OF this notify_names]
    obtain time where "msg_id = TEXT_UTILS_EnumToString n notify_types @ ''-'' @ time @ ''-'' @ show_int (sint ?c)" by blast
    ultimately show ?thesis using u by (metis append.assoc)
  qed
  show ?thesis using num [OF assms(1,3)] num [OF assms(2,4)] assms(5) last_number by (metis add_right_cancel unsigned_word_eqI)
qed

end
