(* ===== verification/Msg_Delete.thy ===== *)
theory Msg_Delete
  imports Usp_Msg
begin

text \<open>
  The Delete message (\<open>core/handle_delete.c\<close>): each expression of the request is resolved to the objects
  it stands for, and these are deleted, in one transaction for the whole message or, when the
  controller allows partial results, in one transaction for each object. The response has a result
  for each expression.
\<close>

section \<open>Response\<close>

record delete_success =
  affected_paths :: "cstr list"
  unaffected_path_errs :: "(cstr \<times> usp_err) list"

datatype delete_status = Delete_Failure usp_err | Delete_Success delete_success

record deleted_obj_result =
  do_requested_path :: cstr
  do_status :: delete_status

type_synonym delete_resp = "deleted_obj_result list"

definition CreateDeleteResp :: "cstr \<Rightarrow> delete_resp usp_msg" where
  "CreateDeleteResp msg_id = Response msg_id []"

definition AddDeleteResp_OperFailure :: "delete_resp \<Rightarrow> cstr \<Rightarrow> usp_err \<Rightarrow> delete_resp" where
  "AddDeleteResp_OperFailure del_resp path err_code = del_resp @ [\<lparr>do_requested_path = path, do_status = Delete_Failure err_code\<rparr>]"

definition no_success :: delete_success where
  "no_success = \<lparr>affected_paths = [], unaffected_path_errs = []\<rparr>"

text \<open>The result of a success is added first and filled afterwards; here it is added when it is full.\<close>

definition AddDeleteResp_OperSuccess :: "delete_resp \<Rightarrow> cstr \<Rightarrow> delete_success \<Rightarrow> delete_resp" where
  "AddDeleteResp_OperSuccess del_resp path oper_success = del_resp @ [\<lparr>do_requested_path = path, do_status = Delete_Success oper_success\<rparr>]"

text \<open>\<open>None\<close>: the path is empty, and read out of bounds.\<close>

definition AddOperSuccess_AffectedPath :: "delete_success \<Rightarrow> cstr \<Rightarrow> delete_success option" where
  "AddOperSuccess_AffectedPath oper_success path =
    map_option (\<lambda>p. oper_success\<lparr>affected_paths := affected_paths oper_success @ [p]\<rparr>) (TEXT_UTILS_StrDupWithTrailingDot path)"

definition AddOperSuccess_UnaffectedPathError :: "delete_success \<Rightarrow> cstr \<Rightarrow> usp_err \<Rightarrow> delete_success option" where
  "AddOperSuccess_UnaffectedPathError oper_success path err_code =
    map_option (\<lambda>p. oper_success\<lparr>unaffected_path_errs := unaffected_path_errs oper_success @ [(p, err_code)]\<rparr>)
      (TEXT_UTILS_StrDupWithTrailingDot path)"

definition RemoveDeleteResp_LastDeletedObjResult :: "delete_resp \<Rightarrow> delete_resp" where
  "RemoveDeleteResp_LastDeletedObjResult del_resp = butlast del_resp"

definition ParamError_FromDeleteRespToErrResp :: "delete_resp \<Rightarrow> param_error list" where
  "ParamError_FromDeleteRespToErrResp del_resp =
    List.map_filter (\<lambda>res. case do_status res of
        Delete_Failure err_code \<Rightarrow> Some \<lparr>pe_path = do_requested_path res, pe_code = err_code\<rparr>
      | Delete_Success _ \<Rightarrow> None) del_resp"

section \<open>Deleting\<close>

text \<open>
  What follows a deletion: the next object, the end of the expression, with its result as it is, or
  with an error that replaces it.
\<close>

datatype delete_next = Next_Object | Stop_Expression usp_err | Fail_Expression usp_err

definition delete_object :: "msg_env \<Rightarrow> bool \<Rightarrow> agent \<Rightarrow> delete_success \<Rightarrow> cstr \<Rightarrow> (agent \<times> delete_success \<times> delete_next) option" where
  "delete_object env allow_partial ag oper_success path =
    ag_case (DATA_MODEL_DeleteInstance (me_hooks env) ag path CHECK_DELETABLE)
      (\<lambda>ag1 err.
        if allow_partial then
          (case AddOperSuccess_UnaffectedPathError oper_success path err of
             None \<Rightarrow> None
           | Some oper_success1 \<Rightarrow>
              (case DM_TRANS_Abort (me_trans env) ag1 of
                 None \<Rightarrow> None
               | Some (ag2, _) \<Rightarrow> Some (ag2, oper_success1, Next_Object)))
        else Some (ag1, oper_success, Fail_Expression err))
      (\<lambda>ag1 _.
        case AddOperSuccess_AffectedPath oper_success path of
          None \<Rightarrow> None
        | Some oper_success1 \<Rightarrow>
           if allow_partial then
             ag_case (commit env ag1)
               (\<lambda>ag2 err. Some (ag2, oper_success1, Stop_Expression err))
               (\<lambda>ag2 _. Some (ag2, oper_success1, Next_Object))
           else Some (ag1, oper_success1, Next_Object))"

definition delete_one :: "msg_env \<Rightarrow> bool \<Rightarrow> agent \<Rightarrow> delete_success \<Rightarrow> cstr \<Rightarrow> (agent \<times> delete_success \<times> delete_next) option" where
  "delete_one env allow_partial ag oper_success path =
    (if allow_partial then
       ag_case (DM_TRANS_Start (me_trans env) ag)
         (\<lambda>ag1 err. Some (ag1, oper_success, Stop_Expression err))
         (\<lambda>ag1 _. delete_object env True ag1 oper_success path)
     else delete_object env False ag oper_success path)"

fun delete_objects :: "msg_env \<Rightarrow> bool \<Rightarrow> agent \<Rightarrow> delete_success \<Rightarrow> cstr list \<Rightarrow> (agent \<times> delete_success \<times> delete_next) option" where
  "delete_objects env allow_partial ag oper_success [] = Some (ag, oper_success, Next_Object)"
| "delete_objects env allow_partial ag oper_success (path # paths) =
    (case delete_one env allow_partial ag oper_success path of
       None \<Rightarrow> None
     | Some (ag1, oper_success1, after) \<Rightarrow>
        if after = Next_Object then delete_objects env allow_partial ag1 oper_success1 paths
        else Some (ag1, oper_success1, after))"

definition DeleteExpressionObjects ::
    "msg_env \<Rightarrow> agent \<Rightarrow> delete_resp \<Rightarrow> cstr \<Rightarrow> bool \<Rightarrow> (agent \<times> delete_resp \<times> (usp_err + unit)) option" where
  "DeleteExpressionObjects env ag del_resp exp_path allow_partial =
    ag_case (resolve_paths env kResolveOp_Del ag exp_path)
      (\<lambda>ag1 err. Some (ag1, AddDeleteResp_OperFailure del_resp exp_path err, Inl err))
      (\<lambda>ag1 obj_paths.
        case delete_objects env allow_partial ag1 no_success obj_paths of
          None \<Rightarrow> None
        | Some (ag2, oper_success, after) \<Rightarrow>
           let del_resp1 = AddDeleteResp_OperSuccess del_resp exp_path oper_success
           in case after of
                Stop_Expression err \<Rightarrow> Some (ag2, del_resp1, Inl err)
              | Fail_Expression err \<Rightarrow>
                  Some (ag2, AddDeleteResp_OperFailure (RemoveDeleteResp_LastDeletedObjResult del_resp1) exp_path err, Inl err)
              | Next_Object \<Rightarrow>
                  (case (affected_paths oper_success, unaffected_path_errs oper_success) of
                     ([], (_, err) # _) \<Rightarrow>
                       Some (ag2, AddDeleteResp_OperFailure (RemoveDeleteResp_LastDeletedObjResult del_resp1) exp_path err, USP_OK)
                   | _ \<Rightarrow> Some (ag2, del_resp1, USP_OK)))"

section \<open>The message\<close>

record delete_req =
  del_obj_paths :: "cstr list"
  del_allow_partial :: bool

text \<open>The expressions in order; an error ends the loop unless partial results are allowed.\<close>

fun delete_expressions :: "msg_env \<Rightarrow> bool \<Rightarrow> agent \<Rightarrow> delete_resp \<Rightarrow> cstr list \<Rightarrow> (agent \<times> delete_resp \<times> (usp_err + unit)) option" where
  "delete_expressions env allow_partial ag del_resp [] = Some (ag, del_resp, USP_OK)"
| "delete_expressions env allow_partial ag del_resp (exp_path # exp_paths) =
    (case DeleteExpressionObjects env ag del_resp exp_path allow_partial of
       None \<Rightarrow> None
     | Some (ag1, del_resp1, r) \<Rightarrow>
        if \<not> allow_partial \<and> r \<noteq> USP_OK then Some (ag1, del_resp1, r)
        else delete_expressions env allow_partial ag1 del_resp1 exp_paths)"

definition MSG_HANDLER_HandleDelete :: "msg_env \<Rightarrow> agent \<Rightarrow> cstr \<Rightarrow> delete_req option \<Rightarrow> (agent \<times> delete_resp usp_msg) option" where
  "MSG_HANDLER_HandleDelete env ag msg_id request =
    (case request of
       None \<Rightarrow> Some (ag, ERROR_RESP_CreateSingle msg_id USP_ERR_MESSAGE_NOT_UNDERSTOOD [])
     | Some del \<Rightarrow>
        if del_obj_paths del = [] then Some (ag, CreateDeleteResp msg_id)
        else if del_allow_partial del then
          (case delete_expressions env True ag [] (del_obj_paths del) of
             None \<Rightarrow> None
           | Some (ag1, del_resp, _) \<Rightarrow> Some (ag1, Response msg_id del_resp))
        else
          ag_case (DM_TRANS_Start (me_trans env) ag)
            (\<lambda>ag1 err. Some (ag1, ERROR_RESP_CreateSingle msg_id err []))
            (\<lambda>ag1 _.
              case delete_expressions env False ag1 [] (del_obj_paths del) of
                None \<Rightarrow> None
              | Some (ag2, del_resp, Inl err) \<Rightarrow>
                  (let param_errs = ParamError_FromDeleteRespToErrResp del_resp;
                       resp = ERROR_RESP_CreateSingle msg_id (ERROR_RESP_CalcOuterErrCode (length param_errs) err) param_errs
                   in case DM_TRANS_Abort (me_trans env) ag2 of
                        None \<Rightarrow> None
                      | Some (ag3, _) \<Rightarrow> Some (ag3, resp))
              | Some (ag2, del_resp, Inr _) \<Rightarrow>
                  ag_case (commit env ag2)
                    (\<lambda>ag3 err. Some (ag3, ERROR_RESP_CreateSingle msg_id err []))
                    (\<lambda>ag3 _. Some (ag3, Response msg_id del_resp))))"

section \<open>Steps of the agent\<close>

lemma delete_objects_writes: "steps writes_only ag (delete_objects env False ag s paths)"
proof (induction paths arbitrary: ag s)
  case (Cons path paths)
  have one: "steps writes_only ag1 (delete_one env False ag1 s1 p)" for ag1 s1 p
    unfolding delete_one_def delete_object_def by (auto intro!: step_intros split: option.split)
  show ?case unfolding delete_objects.simps
    by (rule writes.steps_then [OF one]) (intro step_intros Cons.IH)
qed (simp add: step_intros)

lemma DeleteExpressionObjects_writes: "steps writes_only ag (DeleteExpressionObjects env ag r p False)"
  unfolding DeleteExpressionObjects_def Let_def
  by (intro step_intros writes.steps_then [OF delete_objects_writes] steps_reads_writes [OF resolve_paths_reads])
     (auto simp: plain_ops_def permit_ops_def intro!: step_intros split: delete_next.split list.split)

lemma delete_expressions_writes: "steps writes_only ag (delete_expressions env False ag r ps)"
proof (induction ps arbitrary: ag r)
  case (Cons p ps)
  show ?case unfolding delete_expressions.simps
    by (rule writes.steps_then [OF DeleteExpressionObjects_writes]) (intro step_intros Cons.IH)
qed (simp add: step_intros)

lemma delete_objects_tree:
  assumes "notify_keeps_tree (me_notify env)"
  shows "steps tree_only ag (delete_objects env partial ag s paths)"
proof (induction paths arbitrary: ag s)
  case (Cons path paths)
  have del: "steps tree_only ag1 (delete_object env partial ag1 s1 p)" for ag1 s1 p
    unfolding delete_object_def
    by (intro step_intros Abort_then Commit_tree [OF assms] steps_writes_tree [OF DeleteInstance_writes] steps_option)
  then have one: "steps tree_only ag1 (delete_one env partial ag1 s1 p)" for ag1 s1 p
    unfolding delete_one_def by (cases partial) (auto intro!: step_intros)
  show ?case unfolding delete_objects.simps
    by (rule tree.steps_then [OF one]) (intro step_intros Cons.IH)
qed (simp add: step_intros)

lemma DeleteExpressionObjects_tree:
  assumes "notify_keeps_tree (me_notify env)"
  shows "steps tree_only ag (DeleteExpressionObjects env ag r p partial)"
  unfolding DeleteExpressionObjects_def Let_def
  by (intro step_intros tree.steps_then [OF delete_objects_tree [OF assms]] steps_reads_tree [OF resolve_paths_reads])
     (auto simp: plain_ops_def permit_ops_def intro!: step_intros split: delete_next.split list.split)

lemma delete_expressions_tree:
  assumes "notify_keeps_tree (me_notify env)"
  shows "steps tree_only ag (delete_expressions env partial ag r ps)"
proof (induction ps arbitrary: ag r)
  case (Cons p ps)
  show ?case unfolding delete_expressions.simps
    by (rule tree.steps_then [OF DeleteExpressionObjects_tree [OF assms]]) (intro step_intros Cons.IH)
qed (simp add: step_intros)

lemma HandleDelete_tree:
  assumes "notify_keeps_tree (me_notify env)"
  shows "steps tree_only ag (MSG_HANDLER_HandleDelete env ag msg_id request)"
  unfolding MSG_HANDLER_HandleDelete_def Let_def
  by (intro step_intros tree.steps_then [OF delete_expressions_tree [OF assms]] Abort_then Commit_tree [OF assms] steps_sum
      steps_option [where m = request])

section \<open>The results of the response\<close>

lemma DeleteExpressionObjects_path:
  "DeleteExpressionObjects env ag r p partial = Some (ag', r', res) \<Longrightarrow> \<exists>st. r' = r @ [\<lparr>do_requested_path = p, do_status = st\<rparr>]"
  by (auto simp: DeleteExpressionObjects_def AddDeleteResp_OperFailure_def AddDeleteResp_OperSuccess_def
      RemoveDeleteResp_LastDeletedObjResult_def Let_def elim!: ag_case_Some split: option.splits delete_next.splits list.splits)

lemma delete_expressions_paths:
  "delete_expressions env partial ag r ps = Some (ag', r', res) \<Longrightarrow> partial \<or> res = USP_OK \<Longrightarrow>
    map do_requested_path r' = map do_requested_path r @ ps"
proof (induction ps arbitrary: ag r)
  case (Cons p ps)
  obtain ag1 r1 res1 where e: "DeleteExpressionObjects env ag r p partial = Some (ag1, r1, res1)"
    "(if \<not> partial \<and> res1 \<noteq> USP_OK then Some (ag1, r1, res1) else delete_expressions env partial ag1 r1 ps) = Some (ag', r', res)"
    using Cons.prems(1) by (auto split: option.splits prod.splits)
  then have "delete_expressions env partial ag1 r1 ps = Some (ag', r', res)" using Cons.prems(2) by (auto split: if_splits)
  from Cons.IH [OF this Cons.prems(2)] DeleteExpressionObjects_path [OF e(1)] show ?case by auto
qed simp

text \<open>What is reported as deleted is one of the objects asked to be deleted, with a dot.\<close>

lemma delete_object_affected:
  "delete_object env partial ag s p = Some (ag', s', after) \<Longrightarrow>
    set (affected_paths s') \<subseteq> set (affected_paths s) \<union> set_option (TEXT_UTILS_StrDupWithTrailingDot p)"
  by (auto simp: delete_object_def AddOperSuccess_AffectedPath_def AddOperSuccess_UnaffectedPathError_def
      elim!: ag_case_Some split: option.splits if_splits prod.splits)

lemma delete_one_affected:
  "delete_one env partial ag s p = Some (ag', s', after) \<Longrightarrow>
    set (affected_paths s') \<subseteq> set (affected_paths s) \<union> set_option (TEXT_UTILS_StrDupWithTrailingDot p)"
  by (fastforce simp: delete_one_def elim!: ag_case_Some dest: delete_object_affected split: if_splits)

lemma delete_objects_affected:
  "delete_objects env partial ag s ps = Some (ag', s', after) \<Longrightarrow>
    set (affected_paths s') \<subseteq> set (affected_paths s) \<union> (\<Union>p\<in>set ps. set_option (TEXT_UTILS_StrDupWithTrailingDot p))"
proof (induction ps arbitrary: ag s)
  case (Cons p ps)
  then obtain ag1 s1 after1 where e: "delete_one env partial ag s p = Some (ag1, s1, after1)"
    "(if after1 = Next_Object then delete_objects env partial ag1 s1 ps else Some (ag1, s1, after1)) = Some (ag', s', after)"
    by (auto split: option.splits prod.splits)
  show ?case
  proof (cases "after1 = Next_Object")
    case True
    then show ?thesis using Cons.IH [of ag1 s1] e(2) delete_one_affected [OF e(1)] by auto
  next
    case False
    then show ?thesis using e(2) delete_one_affected [OF e(1)] by auto
  qed
qed simp

definition permitted_deletion :: "msg_env \<Rightarrow> agent \<Rightarrow> deleted_obj_result \<Rightarrow> bool" where
  "permitted_deletion env ag res \<longleftrightarrow>
    (case do_status res of
       Delete_Failure _ \<Rightarrow> True
     | Delete_Success s \<Rightarrow> \<forall>a\<in>set (affected_paths s). \<exists>p c. TEXT_UTILS_StrDupWithTrailingDot p = Some a \<and>
         found_param (dm ag) (resolve_state env kResolveOp_Del FULL_DEPTH 0) p c)"

lemma permitted_deletion_later: "permitted_deletion env ag res \<Longrightarrow> tree_only ag ag' \<Longrightarrow> permitted_deletion env ag' res"
  unfolding permitted_deletion_def tree_only_def using same_tree_found_param
  by (auto split: delete_status.splits) metis

lemma DeleteExpressionObjects_permitted:
  assumes "notify_keeps_tree (me_notify env)" "DeleteExpressionObjects env ag r p partial = Some (ag', r', res)"
  shows "permitted_deletion env ag' (last r')"
proof -
  let ?rs = "resolve_state env kResolveOp_Del FULL_DEPTH 0"
  from assms(2) consider (failed) e where "last r' = \<lparr>do_requested_path = p, do_status = Delete_Failure e\<rparr>"
    | (deleted) ag1 ps s after where "resolve_paths env kResolveOp_Del ag p = Some (ag1, Inr ps)"
        "delete_objects env partial ag1 no_success ps = Some (ag', s, after)"
        "last r' = \<lparr>do_requested_path = p, do_status = Delete_Success s\<rparr>"
    by (fastforce simp: DeleteExpressionObjects_def AddDeleteResp_OperFailure_def AddDeleteResp_OperSuccess_def
        RemoveDeleteResp_LastDeletedObjResult_def Let_def elim!: ag_case_Some split: option.splits delete_next.splits list.splits)
  then show ?thesis
  proof cases
    case deleted
    have t: "same_tree (dm ag1) (dm ag')"
      using stepsD [OF delete_objects_tree [OF assms(1)] deleted(2)] by (simp add: tree_only_def)
    have "\<exists>c. found_param (dm ag') ?rs q c" if "q \<in> set ps" for q
      using resolve_paths_found [OF _ deleted(1) that] same_tree_found_param [OF _ t]
      by (auto simp: plain_ops_def permit_ops_def)
    then show ?thesis using delete_objects_affected [OF deleted(2)] deleted(3)
      by (fastforce simp: permitted_deletion_def no_success_def)
  qed (simp add: permitted_deletion_def)
qed

lemma delete_expressions_permitted:
  assumes "notify_keeps_tree (me_notify env)"
  shows "delete_expressions env partial ag r ps = Some (ag', r', res) \<Longrightarrow> \<forall>x\<in>set r. permitted_deletion env ag x \<Longrightarrow>
    \<forall>x\<in>set r'. permitted_deletion env ag' x"
proof (induction ps arbitrary: ag r)
  case (Cons p ps)
  obtain ag1 r1 res1 where e: "DeleteExpressionObjects env ag r p partial = Some (ag1, r1, res1)"
    "(if \<not> partial \<and> res1 \<noteq> USP_OK then Some (ag1, r1, res1) else delete_expressions env partial ag1 r1 ps) = Some (ag', r', res)"
    using Cons.prems(1) by (auto split: option.splits prod.splits)
  obtain st where r1: "r1 = r @ [\<lparr>do_requested_path = p, do_status = st\<rparr>]" using DeleteExpressionObjects_path [OF e(1)] by blast
  have "tree_only ag ag1" using stepsD [OF DeleteExpressionObjects_tree [OF assms] e(1)] .
  then have "\<forall>x\<in>set r1. permitted_deletion env ag1 x"
    using Cons.prems(2) permitted_deletion_later DeleteExpressionObjects_permitted [OF assms e(1)] by (auto simp: r1)
  then show ?case using e(2) Cons.IH by (auto split: if_splits)
qed simp

lemma delete_object_unaffected:
  assumes "cur_transaction ag = None" "delete_one env True ag s p = Some (ag', s', Next_Object)" "affected_paths s' = affected_paths s"
  shows "rows (db ag') = rows (db ag)"
proof -
  obtain ag1 u where s: "DM_TRANS_Start (me_trans env) ag = Some (ag1, Inr u)" "delete_object env True ag1 s p = Some (ag', s', Next_Object)"
    using assms(2) by (auto simp: delete_one_def elim!: ag_case_Some)
  from s(2) assms(3) obtain ag2 e r where d: "DATA_MODEL_DeleteInstance (me_hooks env) ag1 p CHECK_DELETABLE = Some (ag2, Inl e)"
    "DM_TRANS_Abort (me_trans env) ag2 = Some (ag', r)"
    by (auto simp: delete_object_def AddOperSuccess_AffectedPath_def elim!: ag_case_Some split: option.splits prod.splits)
  have "writes_only ag1 ag2" using stepsD [OF DeleteInstance_writes d(1)] .
  then show ?thesis using aborted_message [OF s(1) assms(1) _ d(2)] by blast
qed

section \<open>Properties\<close>

text \<open>
  C5: a Delete that is answered with an error has not changed the database, whatever had been deleted
  when it failed and whether the message, the transaction or its commit failed.
\<close>

theorem HandleDelete_all_or_nothing:
  assumes "MSG_HANDLER_HandleDelete env ag msg_id request = Some (ag', Error_Response mid err errs)" "cur_transaction ag = None"
  shows "rows (db ag') = rows (db ag)"
proof -
  from assms(1) consider "ag' = ag"
    | e where "DM_TRANS_Start (me_trans env) ag = Some (ag', Inl e)"
    | ag1 u ag2 r ps e x where "DM_TRANS_Start (me_trans env) ag = Some (ag1, Inr u)"
        "delete_expressions env False ag1 [] ps = Some (ag2, r, e)" "DM_TRANS_Abort (me_trans env) ag2 = Some (ag', x)"
    | ag1 u ag2 r ps e x where "DM_TRANS_Start (me_trans env) ag = Some (ag1, Inr u)"
        "delete_expressions env False ag1 [] ps = Some (ag2, r, e)" "commit env ag2 = Some (ag', Inl x)"
    by (auto simp: MSG_HANDLER_HandleDelete_def Let_def CreateDeleteResp_def elim!: ag_case_Some
        split: option.splits if_splits sum.splits prod.splits)
  then show ?thesis
  proof cases
    case 2
    then show ?thesis using failed_start assms(2) by blast
  next
    case 3
    then show ?thesis using aborted_message [OF 3(1) assms(2) stepsD [OF delete_expressions_writes 3(2)] 3(3)] by blast
  next
    case 4
    then show ?thesis using failed_commit [OF 4(1) assms(2) stepsD [OF delete_expressions_writes 4(2)]] by blast
  qed simp
qed

theorem HandleDelete_all_or_nothing_witness:
  "\<exists>ag'. MSG_HANDLER_HandleDelete (demo_msg_env no_hooks) idle_agent ''1''
      (Some \<lparr>del_obj_paths = [''Device.A.7.'', ''X''], del_allow_partial = False\<rparr>) =
      Some (ag', Error_Response ''1'' USP_ERR_INVALID_ARGUMENTS [\<lparr>pe_path = ''X'', pe_code = USP_ERR_INVALID_PATH\<rparr>]) \<and>
    rows (db ag') (5, ''1'') = Some ''old''"
proof -
  let ?env = "demo_msg_env no_hooks"
  let ?ok = "no_success\<lparr>affected_paths := [''Device.A.7.'']\<rparr>"
  obtain ag1 where d: "DATA_MODEL_DeleteInstance demo_hooks started_agent ''Device.A.7'' CHECK_DELETABLE = Some (ag1, USP_OK)"
    "same_tree (dm started_agent) (dm ag1)" "cur_transaction ag1 = Some [del_op ''Device.A.7'' 3 inst_7]"
    using table_delete [OF idle_facts(3,4)] by auto
  obtain ag2 r where a: "DM_TRANS_Abort no_hooks ag1 = Some (ag2, r)"
    using deleted_abort [of ag1 no_hooks] d(2,3) by (auto simp: idle_facts(3))
  have "delete_objects ?env False started_agent no_success [''Device.A.7''] = Some (ag1, ?ok, Next_Object)"
    using d(1) by (simp add: delete_one_def delete_object_def AddOperSuccess_AffectedPath_def no_success_def
        TEXT_UTILS_StrDupWithTrailingDot_def)
  then have "DeleteExpressionObjects ?env started_agent [] ''Device.A.7.'' False =
      Some (ag1, [\<lparr>do_requested_path = ''Device.A.7.'', do_status = Delete_Success ?ok\<rparr>], USP_OK)"
    using demo_resolve [OF idle_facts(3), of kResolveOp_Del no_hooks]
    by (simp add: DeleteExpressionObjects_def AddDeleteResp_OperSuccess_def no_success_def)
  moreover have "DeleteExpressionObjects ?env ag1 rs ''X'' False =
      Some (ag1, rs @ [\<lparr>do_requested_path = ''X'', do_status = Delete_Failure USP_ERR_INVALID_PATH\<rparr>], Inl USP_ERR_INVALID_PATH)" for rs
    by (simp add: DeleteExpressionObjects_def demo_bad_path plain_ops_def permit_ops_def AddDeleteResp_OperFailure_def)
  ultimately have h: "MSG_HANDLER_HandleDelete ?env idle_agent ''1''
      (Some \<lparr>del_obj_paths = [''Device.A.7.'', ''X''], del_allow_partial = False\<rparr>) =
      Some (ag2, Error_Response ''1'' USP_ERR_INVALID_ARGUMENTS [\<lparr>pe_path = ''X'', pe_code = USP_ERR_INVALID_PATH\<rparr>])"
    using idle_start [of no_hooks] a
    by (simp add: MSG_HANDLER_HandleDelete_def ParamError_FromDeleteRespToErrResp_def List.map_filter_def Let_def
        CreateSingle_message ERROR_RESP_CalcOuterErrCode_def argument_errors_def)
  moreover have "rows (db ag2) = rows (db idle_agent)"
    by (rule HandleDelete_all_or_nothing [OF h idle_facts(2)])
  ultimately show ?thesis by (simp add: idle_agent_def table_agent_def demo_agent_def)
qed

text \<open>
  C14: a Delete that is answered with a response has one result for each path asked for, in the order of
  the request, and only reports objects as deleted that are instances the data model has and on which
  the controller has the permission to delete.
\<close>

theorem HandleDelete_results:
  assumes "MSG_HANDLER_HandleDelete env ag msg_id (Some del) = Some (ag', Response mid results)"
    "notify_keeps_tree (me_notify env)"
  shows "map do_requested_path results = del_obj_paths del \<and> (\<forall>res\<in>set results. permitted_deletion env ag' res)"
proof -
  from assms(1) consider "results = []" "del_obj_paths del = []"
    | r where "delete_expressions env True ag [] (del_obj_paths del) = Some (ag', results, r)"
    | ag1 ag2 u x where "delete_expressions env False ag1 [] (del_obj_paths del) = Some (ag2, results, Inr u)" "commit env ag2 = Some (ag', x)"
    by (auto simp: MSG_HANDLER_HandleDelete_def Let_def CreateDeleteResp_def CreateSingle_message elim!: ag_case_Some
        split: option.splits if_splits sum.splits prod.splits)
  then show ?thesis
  proof cases
    case 2
    then show ?thesis using delete_expressions_paths [OF 2] delete_expressions_permitted [OF assms(2) 2] by simp
  next
    case 3
    have "tree_only ag2 ag'" using stepsD [OF Commit_tree [OF assms(2)] 3(2)] .
    then show ?thesis using delete_expressions_paths [OF 3(1)] delete_expressions_permitted [OF assms(2) 3(1)]
      by (auto intro: permitted_deletion_later)
  qed simp
qed

lemma demo_delete_partial:
  "\<exists>ag'. MSG_HANDLER_HandleDelete (demo_msg_env no_hooks) idle_agent ''1''
      (Some \<lparr>del_obj_paths = [''X'', ''Device.A.7.''], del_allow_partial = True\<rparr>) = Some (ag', Response ''1''
        [\<lparr>do_requested_path = ''X'', do_status = Delete_Failure USP_ERR_INVALID_PATH\<rparr>,
         \<lparr>do_requested_path = ''Device.A.7.'', do_status = Delete_Success (no_success\<lparr>affected_paths := [''Device.A.7.'']\<rparr>)\<rparr>]) \<and>
    events (dm ag') \<noteq> []"
proof -
  let ?env = "demo_msg_env no_hooks"
  let ?ok = "no_success\<lparr>affected_paths := [''Device.A.7.'']\<rparr>"
  obtain ag1 where d: "DATA_MODEL_DeleteInstance demo_hooks started_agent ''Device.A.7'' CHECK_DELETABLE = Some (ag1, USP_OK)"
    "db ag1 = db started_agent" "cur_transaction ag1 = Some [del_op ''Device.A.7'' 3 inst_7]"
    using table_delete [OF idle_facts(3,4)] by auto
  have "quiet (\<lambda>dt ag. ag)" by (simp add: quiet_def)
  with commit_events [OF d(3), of "\<lambda>dt ag. ag" 0] obtain ag2 where c: "commit ?env ag1 = Some (ag2, USP_OK)" and ev: "events (dm ag2) \<noteq> []"
    unfolding d(2) by (auto simp: idle_facts numeral_2_eq_2 del_op_def)
  have "delete_objects ?env True idle_agent no_success [''Device.A.7''] = Some (ag2, ?ok, Next_Object)"
    using d(1) c idle_start [of no_hooks]
    by (simp add: delete_one_def delete_object_def AddOperSuccess_AffectedPath_def no_success_def
        TEXT_UTILS_StrDupWithTrailingDot_def)
  then have "DeleteExpressionObjects ?env idle_agent rs ''Device.A.7.'' True =
      Some (ag2, rs @ [\<lparr>do_requested_path = ''Device.A.7.'', do_status = Delete_Success ?ok\<rparr>], USP_OK)" for rs
    using demo_resolve [OF idle_facts(1), of kResolveOp_Del no_hooks]
    by (simp add: DeleteExpressionObjects_def AddDeleteResp_OperSuccess_def no_success_def)
  moreover have "DeleteExpressionObjects ?env idle_agent [] ''X'' True =
      Some (idle_agent, [\<lparr>do_requested_path = ''X'', do_status = Delete_Failure USP_ERR_INVALID_PATH\<rparr>], Inl USP_ERR_INVALID_PATH)"
    by (simp add: DeleteExpressionObjects_def demo_bad_path plain_ops_def permit_ops_def AddDeleteResp_OperFailure_def)
  ultimately show ?thesis using ev by (simp add: MSG_HANDLER_HandleDelete_def)
qed

theorem HandleDelete_results_witness:
  "\<exists>ag' results. MSG_HANDLER_HandleDelete (demo_msg_env no_hooks) idle_agent ''1''
      (Some \<lparr>del_obj_paths = [''X'', ''Device.A.7.''], del_allow_partial = True\<rparr>) = Some (ag', Response ''1'' results) \<and>
    map do_requested_path results = [''X'', ''Device.A.7.''] \<and>
    (\<exists>p c. TEXT_UTILS_StrDupWithTrailingDot p = Some ''Device.A.7.'' \<and>
      found_param (dm ag') (resolve_state (demo_msg_env no_hooks) kResolveOp_Del FULL_DEPTH 0) p c)"
proof -
  obtain ag' where h: "MSG_HANDLER_HandleDelete (demo_msg_env no_hooks) idle_agent ''1''
      (Some \<lparr>del_obj_paths = [''X'', ''Device.A.7.''], del_allow_partial = True\<rparr>) = Some (ag', Response ''1''
        [\<lparr>do_requested_path = ''X'', do_status = Delete_Failure USP_ERR_INVALID_PATH\<rparr>,
         \<lparr>do_requested_path = ''Device.A.7.'', do_status = Delete_Success (no_success\<lparr>affected_paths := [''Device.A.7.'']\<rparr>)\<rparr>])"
    using demo_delete_partial by blast
  from HandleDelete_results [OF h] show ?thesis
    using h by (auto simp: permitted_deletion_def demo_notify)
qed

text \<open>
  With partial results allowed, each object has its transaction: one that is reported as not
  affected has left the database as it was.
\<close>

theorem delete_unaffected_untouched:
  assumes "cur_transaction ag = None" "delete_one env True ag s p = Some (ag', s', Next_Object)" "affected_paths s' = affected_paths s"
  shows "rows (db ag') = rows (db ag)"
  using assms by (rule delete_object_unaffected)

theorem delete_unaffected_untouched_witness:
  "\<exists>ag'. delete_one (demo_msg_env no_hooks) True idle_agent no_success ''X'' =
      Some (ag', no_success\<lparr>unaffected_path_errs := [(''X.'', USP_ERR_OBJECT_DOES_NOT_EXIST)]\<rparr>, Next_Object) \<and>
    rows (db ag') = rows (db idle_agent)"
proof -
  let ?bad = "no_success\<lparr>unaffected_path_errs := [(''X.'', USP_ERR_OBJECT_DOES_NOT_EXIST)]\<rparr>"
  have d: "DATA_MODEL_DeleteInstance demo_hooks started_agent ''X'' CHECK_DELETABLE = Some (started_agent, Inl USP_ERR_OBJECT_DOES_NOT_EXIST)"
    by (simp add: DATA_MODEL_DeleteInstance_def demo_no_node idle_facts(3) ag_err_def)
  obtain ag' r where a: "DM_TRANS_Abort no_hooks started_agent = Some (ag', r)"
    by (cases "DATABASE_AbortTransaction (db started_agent)") (simp add: DM_TRANS_Abort_def idle_facts(4) Let_def)
  have o: "delete_one (demo_msg_env no_hooks) True idle_agent no_success ''X'' = Some (ag', ?bad, Next_Object)"
    by (simp add: delete_one_def idle_start delete_object_def d a AddOperSuccess_UnaffectedPathError_def no_success_def
        TEXT_UTILS_StrDupWithTrailingDot_def)
  then show ?thesis using delete_unaffected_untouched [OF idle_facts(2) o] by (auto simp: no_success_def)
qed


definition refusing_hooks :: trans_vendor where
  "refusing_hooks = no_hooks\<lparr>commit_trans_cb := Some (Inl USP_ERR_INTERNAL_ERROR)\<rparr>"


end
