(* ===== verification/Msg_Set.thy ===== *)
theory Msg_Set
  imports Usp_Msg
begin

text \<open>
  The Set message (\<open>core/handle_set.c\<close>): the parameters of all expressions of the request go into one
  vector, with the place of each expression in it; they are set in one transaction, or, when the
  controller allows partial results, in one for each expression. A parameter that is not required may
  fail; it is reported with its error.
\<close>

section \<open>Request and response\<close>

record update_obj =
  up_obj_path :: cstr
  up_param_settings :: "param_setting list"

record set_req =
  set_update_objs :: "update_obj list"
  set_allow_partial :: bool

record updated_inst_result =
  ui_affected_path :: cstr
  ui_updated_params :: "(cstr \<times> cstr) list"
  ui_param_errs :: "(cstr \<times> usp_err) list"

record updated_inst_failure =
  uf_affected_path :: cstr
  uf_param_errs :: "(cstr \<times> usp_err) list"

datatype set_status = Set_Failure usp_err "updated_inst_failure list" | Set_Success "updated_inst_result list"

record updated_obj_result =
  so_requested_path :: cstr
  so_status :: set_status

type_synonym set_resp = "updated_obj_result list"

definition CreateSetResp :: "cstr \<Rightarrow> set_resp usp_msg" where
  "CreateSetResp msg_id = Response msg_id []"

definition AddSetResp_OperFailure :: "set_resp \<Rightarrow> cstr \<Rightarrow> usp_err \<Rightarrow> updated_inst_failure list \<Rightarrow> set_resp" where
  "AddSetResp_OperFailure set_resp path err_code inst_failures =
    set_resp @ [\<lparr>so_requested_path = path, so_status = Set_Failure err_code inst_failures\<rparr>]"

definition AddSetResp_OperSuccess :: "set_resp \<Rightarrow> cstr \<Rightarrow> updated_inst_result list \<Rightarrow> set_resp" where
  "AddSetResp_OperSuccess set_resp path inst_results =
    set_resp @ [\<lparr>so_requested_path = path, so_status = Set_Success inst_results\<rparr>]"

definition AddOperFailure_UpdatedInstFailure :: "cstr \<Rightarrow> updated_inst_failure" where
  "AddOperFailure_UpdatedInstFailure path = \<lparr>uf_affected_path = path @ ''.'', uf_param_errs = []\<rparr>"

definition AddUpdatedInstFailure_ParamErr :: "cstr \<Rightarrow> usp_err \<Rightarrow> updated_inst_failure \<Rightarrow> updated_inst_failure" where
  "AddUpdatedInstFailure_ParamErr path err_code uf = uf\<lparr>uf_param_errs := uf_param_errs uf @ [(path, err_code)]\<rparr>"

definition AddOperSuccess_UpdatedInstRes :: "cstr \<Rightarrow> updated_inst_result" where
  "AddOperSuccess_UpdatedInstRes path = \<lparr>ui_affected_path = path @ ''.'', ui_updated_params = [], ui_param_errs = []\<rparr>"

definition AddUpdatedInstRes_ParamsEntry :: "cstr \<Rightarrow> cstr \<Rightarrow> updated_inst_result \<Rightarrow> updated_inst_result" where
  "AddUpdatedInstRes_ParamsEntry key v ui = ui\<lparr>ui_updated_params := ui_updated_params ui @ [(key, v)]\<rparr>"

definition AddUpdatedInstRes_ParamErr :: "cstr \<Rightarrow> usp_err \<Rightarrow> updated_inst_result \<Rightarrow> updated_inst_result" where
  "AddUpdatedInstRes_ParamErr path err_code ui = ui\<lparr>ui_param_errs := ui_param_errs ui @ [(path, err_code)]\<rparr>"

section \<open>Expanding the expressions\<close>

record set_expr_info =
  si_requested_path :: cstr
  si_resolved_objs :: str_vector
  si_index :: nat
  si_err :: "usp_err option"
  si_param_settings :: "param_setting list"

abbreviation si_num_params :: "set_expr_info \<Rightarrow> nat" where "si_num_params si \<equiv> length (si_param_settings si)"
abbreviation si_num_entries :: "set_expr_info \<Rightarrow> nat" where
  "si_num_entries si \<equiv> length (si_resolved_objs si) * si_num_params si"

fun add_settings :: "msg_env \<Rightarrow> cstr \<Rightarrow> agent \<Rightarrow> group_set_vector \<Rightarrow> param_setting list \<Rightarrow> (agent \<times> group_set_vector) option" where
  "add_settings env affected_obj ag gsv [] = Some (ag, gsv)"
| "add_settings env affected_obj ag gsv (ps # pss) =
    (case GROUP_SET_VECTOR_Add (me_hooks env) ag gsv (fst (USP_SNPRINTF MAX_DM_PATH (affected_obj @ ''.'' @ ps_param ps)))
        (ps_value ps) (ps_required ps) (Some (me_role env)) of
       None \<Rightarrow> None
     | Some (ag1, gsv1) \<Rightarrow> add_settings env affected_obj ag1 gsv1 pss)"

fun add_all_settings :: "msg_env \<Rightarrow> param_setting list \<Rightarrow> agent \<Rightarrow> group_set_vector \<Rightarrow> cstr list \<Rightarrow> (agent \<times> group_set_vector) option" where
  "add_all_settings env pss ag gsv [] = Some (ag, gsv)"
| "add_all_settings env pss ag gsv (obj # objs) =
    (case add_settings env obj ag gsv pss of
       None \<Rightarrow> None
     | Some (ag1, gsv1) \<Rightarrow> add_all_settings env pss ag1 gsv1 objs)"

definition ExpandSetPathExpression ::
    "msg_env \<Rightarrow> agent \<Rightarrow> update_obj \<Rightarrow> group_set_vector \<Rightarrow> (agent \<times> set_expr_info \<times> group_set_vector) option" where
  "ExpandSetPathExpression env ag up gsv =
    (let si = \<lparr>si_requested_path = up_obj_path up, si_resolved_objs = [], si_index = length gsv, si_err = None, si_param_settings = []\<rparr>
     in if up_obj_path up = [] \<or> up_param_settings up = [] then Some (ag, si\<lparr>si_err := Some USP_ERR_INVALID_ARGUMENTS\<rparr>, gsv)
        else
         let si1 = si\<lparr>si_param_settings := up_param_settings up\<rparr>
         in ag_case (resolve_paths env kResolveOp_Set ag (up_obj_path up))
              (\<lambda>ag1 err. Some (ag1, si1\<lparr>si_err := Some err\<rparr>, gsv))
              (\<lambda>ag1 objs.
                case add_all_settings env (up_param_settings up) ag1 gsv objs of
                  None \<Rightarrow> None
                | Some (ag2, gsv1) \<Rightarrow> Some (ag2, si1\<lparr>si_resolved_objs := objs\<rparr>, gsv1)))"

fun expand_expressions ::
    "msg_env \<Rightarrow> agent \<Rightarrow> group_set_vector \<Rightarrow> update_obj list \<Rightarrow> (agent \<times> set_expr_info list \<times> group_set_vector) option" where
  "expand_expressions env ag gsv [] = Some (ag, [], gsv)"
| "expand_expressions env ag gsv (up # ups) =
    (case ExpandSetPathExpression env ag up gsv of
       None \<Rightarrow> None
     | Some (ag1, si, gsv1) \<Rightarrow>
        (case expand_expressions env ag1 gsv1 ups of
           None \<Rightarrow> None
         | Some (ag2, sis, gsv2) \<Rightarrow> Some (ag2, si # sis, gsv2)))"

section \<open>The results of an expression\<close>

text \<open>The parameters of one object, with their entries. \<open>None\<close>: the assertion that what failed was not required.\<close>

definition note_result :: "param_setting \<Rightarrow> group_set_entry \<Rightarrow> updated_inst_result \<Rightarrow> updated_inst_result option" where
  "note_result ps gse ui =
    (case gs_err gse of
       None \<Rightarrow> Some (AddUpdatedInstRes_ParamsEntry (ps_param ps) (gs_value gse) ui)
     | Some e \<Rightarrow> if gs_required gse then None else Some (AddUpdatedInstRes_ParamErr (ps_param ps) e ui))"

fun note_results :: "(param_setting \<times> group_set_entry) list \<Rightarrow> updated_inst_result \<Rightarrow> updated_inst_result option" where
  "note_results [] ui = Some ui"
| "note_results ((ps, gse) # rest) ui = (case note_result ps gse ui of None \<Rightarrow> None | Some ui1 \<Rightarrow> note_results rest ui1)"

text \<open>The settings of the \<open>i\<close>-th object of an expression with their entries in the vector.\<close>

definition entries_of :: "set_expr_info \<Rightarrow> group_set_vector \<Rightarrow> nat \<Rightarrow> (param_setting \<times> group_set_entry) list" where
  "entries_of si gsv i =
    map (\<lambda>j. (si_param_settings si ! j, gsv ! (si_index si + i * si_num_params si + j))) [0..<si_num_params si]"

fun inst_results :: "set_expr_info \<Rightarrow> group_set_vector \<Rightarrow> nat list \<Rightarrow> updated_inst_result list option" where
  "inst_results si gsv [] = Some []"
| "inst_results si gsv (i # is) =
    (case note_results (entries_of si gsv i) (AddOperSuccess_UpdatedInstRes (si_resolved_objs si ! i)) of
       None \<Rightarrow> None
     | Some ui \<Rightarrow> map_option (\<lambda>uis. ui # uis) (inst_results si gsv is))"

definition PopulateSetResp_OperSuccess :: "set_resp \<Rightarrow> set_expr_info \<Rightarrow> group_set_vector \<Rightarrow> set_resp option" where
  "PopulateSetResp_OperSuccess set_resp si gsv =
    map_option (AddSetResp_OperSuccess set_resp (si_requested_path si)) (inst_results si gsv [0..<length (si_resolved_objs si)])"

definition note_failure :: "param_setting \<times> group_set_entry \<Rightarrow> updated_inst_failure \<Rightarrow> updated_inst_failure" where
  "note_failure = (\<lambda>(ps, gse) uf.
    case gs_err gse of Some e \<Rightarrow> if gs_required gse then AddUpdatedInstFailure_ParamErr (ps_param ps) e uf else uf | None \<Rightarrow> uf)"

definition PopulateOperFailure_UpdatedInstFailure :: "set_expr_info \<Rightarrow> nat \<Rightarrow> group_set_vector \<Rightarrow> updated_inst_failure list" where
  "PopulateOperFailure_UpdatedInstFailure si obj_index gsv =
    (let param_index = si_index si + obj_index * si_num_params si
     in if GROUP_SET_VECTOR_GetFailureIndex gsv param_index (si_num_params si) = INVALID then []
        else [fold note_failure (entries_of si gsv obj_index) (AddOperFailure_UpdatedInstFailure (si_resolved_objs si ! obj_index))])"

definition PopulateSetResp_OperFailure :: "set_resp \<Rightarrow> set_expr_info \<Rightarrow> group_set_vector \<Rightarrow> set_resp" where
  "PopulateSetResp_OperFailure set_resp si gsv =
    AddSetResp_OperFailure set_resp (si_requested_path si) USP_ERR_REQUIRED_PARAM_FAILED
      (concat (map (\<lambda>i. PopulateOperFailure_UpdatedInstFailure si i gsv) [0..<length (si_resolved_objs si)]))"

section \<open>All or nothing\<close>

definition CreateErrRespFromFailedSetParams :: "cstr \<Rightarrow> group_set_vector \<Rightarrow> nat \<Rightarrow> set_resp usp_msg option" where
  "CreateErrRespFromFailedSetParams msg_id gsv first_failure =
    (case gs_err (gsv ! first_failure) of
       None \<Rightarrow> None
     | Some e \<Rightarrow> Some (ERROR_RESP_CreateSingle msg_id (ERROR_RESP_CalcOuterErrCode 1 e)
         (map (\<lambda>gse. \<lparr>pe_path = gs_path gse, pe_code = the (gs_err gse)\<rparr>) (filter failed_required (drop first_failure gsv)))))"

fun populate_all :: "set_resp \<Rightarrow> set_expr_info list \<Rightarrow> group_set_vector \<Rightarrow> set_resp option" where
  "populate_all set_resp [] gsv = Some set_resp"
| "populate_all set_resp (si # sis) gsv =
    (case PopulateSetResp_OperSuccess set_resp si gsv of None \<Rightarrow> None | Some set_resp1 \<Rightarrow> populate_all set_resp1 sis gsv)"

definition ProcessAllowPartialFalse ::
    "msg_env \<Rightarrow> agent \<Rightarrow> cstr \<Rightarrow> set_expr_info list \<Rightarrow> group_set_vector \<Rightarrow> (agent \<times> set_resp usp_msg) option" where
  "ProcessAllowPartialFalse env ag msg_id sis gsv =
    (case find (\<lambda>si. si_err si \<noteq> None) sis of
       Some si \<Rightarrow> Some (ag, ERROR_RESP_CreateSingle msg_id (the (si_err si)) [])
     | None \<Rightarrow>
        ag_case (DM_TRANS_Start (me_trans env) ag)
          (\<lambda>ag1 err. Some (ag1, ERROR_RESP_CreateSingle msg_id err []))
          (\<lambda>ag1 _.
            case GROUP_SET_VECTOR_SetValues (me_hooks env) ag1 gsv 0 (length gsv) of
              None \<Rightarrow> None
            | Some (ag2, gsv1) \<Rightarrow>
               let first_failure = GROUP_SET_VECTOR_GetFailureIndex gsv1 0 (length gsv1)
               in if first_failure \<noteq> INVALID then
                    (case DM_TRANS_Abort (me_trans env) ag2 of
                       None \<Rightarrow> None
                     | Some (ag3, _) \<Rightarrow>
                        map_option (\<lambda>resp. (ag3, resp)) (CreateErrRespFromFailedSetParams msg_id gsv1 (nat first_failure)))
                  else
                    ag_case (commit env ag2)
                      (\<lambda>ag3 err. Some (ag3, ERROR_RESP_CreateSingle msg_id err []))
                      (\<lambda>ag3 _. map_option (\<lambda>set_resp. (ag3, Response msg_id set_resp)) (populate_all [] sis gsv1))))"

section \<open>Partial results\<close>

definition ProcessAllowPartialTrue_Expression ::
    "msg_env \<Rightarrow> agent \<Rightarrow> set_resp \<Rightarrow> set_expr_info \<Rightarrow> group_set_vector \<Rightarrow> (agent \<times> set_resp \<times> group_set_vector) option" where
  "ProcessAllowPartialTrue_Expression env ag set_resp si gsv =
    (case si_err si of
       Some e \<Rightarrow> Some (ag, AddSetResp_OperFailure set_resp (si_requested_path si) e [], gsv)
     | None \<Rightarrow>
        ag_case (DM_TRANS_Start (me_trans env) ag)
          (\<lambda>ag1 err. Some (ag1, AddSetResp_OperFailure set_resp (si_requested_path si) err [], gsv))
          (\<lambda>ag1 _.
            case GROUP_SET_VECTOR_SetValues (me_hooks env) ag1 gsv (si_index si) (si_num_entries si) of
              None \<Rightarrow> None
            | Some (ag2, gsv1) \<Rightarrow>
               if GROUP_SET_VECTOR_GetFailureIndex gsv1 (si_index si) (si_num_entries si) \<noteq> INVALID then
                 (case DM_TRANS_Abort (me_trans env) ag2 of
                    None \<Rightarrow> None
                  | Some (ag3, _) \<Rightarrow> Some (ag3, PopulateSetResp_OperFailure set_resp si gsv1, gsv1))
               else
                 ag_case (commit env ag2)
                   (\<lambda>ag3 err. Some (ag3, AddSetResp_OperFailure set_resp (si_requested_path si) err [], gsv1))
                   (\<lambda>ag3 _. map_option (\<lambda>set_resp1. (ag3, set_resp1, gsv1)) (PopulateSetResp_OperSuccess set_resp si gsv1))))"

fun partial_expressions ::
    "msg_env \<Rightarrow> agent \<Rightarrow> set_resp \<Rightarrow> set_expr_info list \<Rightarrow> group_set_vector \<Rightarrow> (agent \<times> set_resp \<times> group_set_vector) option" where
  "partial_expressions env ag set_resp [] gsv = Some (ag, set_resp, gsv)"
| "partial_expressions env ag set_resp (si # sis) gsv =
    (case ProcessAllowPartialTrue_Expression env ag set_resp si gsv of
       None \<Rightarrow> None
     | Some (ag1, set_resp1, gsv1) \<Rightarrow> partial_expressions env ag1 set_resp1 sis gsv1)"

definition ProcessAllowPartialTrue ::
    "msg_env \<Rightarrow> agent \<Rightarrow> cstr \<Rightarrow> set_expr_info list \<Rightarrow> group_set_vector \<Rightarrow> (agent \<times> set_resp usp_msg) option" where
  "ProcessAllowPartialTrue env ag msg_id sis gsv =
    map_option (\<lambda>(ag1, set_resp, _). (ag1, Response msg_id set_resp)) (partial_expressions env ag [] sis gsv)"

section \<open>The message\<close>

definition Grouped_HandleSet :: "msg_env \<Rightarrow> agent \<Rightarrow> cstr \<Rightarrow> set_req option \<Rightarrow> (agent \<times> set_resp usp_msg) option" where
  "Grouped_HandleSet env ag msg_id request =
    (case request of
       None \<Rightarrow> Some (ag, ERROR_RESP_CreateSingle msg_id USP_ERR_MESSAGE_NOT_UNDERSTOOD [])
     | Some req \<Rightarrow>
        if set_update_objs req = [] then Some (ag, CreateSetResp msg_id)
        else
         (case expand_expressions env ag GROUP_SET_VECTOR_Init (set_update_objs req) of
            None \<Rightarrow> None
          | Some (ag1, sis, gsv) \<Rightarrow>
             if set_allow_partial req then ProcessAllowPartialTrue env ag1 msg_id sis gsv
             else ProcessAllowPartialFalse env ag1 msg_id sis gsv))"

definition MSG_HANDLER_HandleSet :: "msg_env \<Rightarrow> agent \<Rightarrow> cstr \<Rightarrow> set_req option \<Rightarrow> (agent \<times> set_resp usp_msg) option" where
  "MSG_HANDLER_HandleSet = Grouped_HandleSet"

section \<open>Steps of the agent\<close>

lemma add_settings_reads: "steps reads_only ag (add_settings env obj ag gsv pss)"
proof (induction pss arbitrary: ag gsv)
  case (Cons ps pss)
  show ?case unfolding add_settings.simps
    by (rule reads.steps_then [OF GROUP_SET_VECTOR_Add_reads]) (intro step_intros Cons.IH)
qed (simp add: step_intros)

lemma add_all_settings_reads: "steps reads_only ag (add_all_settings env pss ag gsv objs)"
proof (induction objs arbitrary: ag gsv)
  case (Cons obj objs)
  show ?case unfolding add_all_settings.simps
    by (rule reads.steps_then [OF add_settings_reads]) (intro step_intros Cons.IH)
qed (simp add: step_intros)

lemma ExpandSetPathExpression_reads: "steps reads_only ag (ExpandSetPathExpression env ag up gsv)"
  unfolding ExpandSetPathExpression_def Let_def
  by (intro step_intros reads.steps_then [OF add_all_settings_reads]) (simp_all add: plain_ops_def)

lemma expand_expressions_reads: "steps reads_only ag (expand_expressions env ag gsv ups)"
proof (induction ups arbitrary: ag gsv)
  case (Cons up ups)
  show ?case unfolding expand_expressions.simps
    by (rule reads.steps_then [OF ExpandSetPathExpression_reads])
       (intro step_intros reads.steps_then [OF Cons.IH])
qed (simp add: step_intros)

lemmas SetValues_tree = steps_writes_tree [OF SetValues_writes]

lemma ProcessAllowPartialTrue_Expression_tree:
  assumes "notify_keeps_tree (me_notify env)"
  shows "steps tree_only ag (ProcessAllowPartialTrue_Expression env ag r si gsv)"
  unfolding ProcessAllowPartialTrue_Expression_def
  by (rule steps_option; intro step_intros tree.steps_then [OF SetValues_tree] Abort_then Commit_tree [OF assms])

lemma partial_expressions_tree:
  assumes "notify_keeps_tree (me_notify env)"
  shows "steps tree_only ag (partial_expressions env ag r sis gsv)"
proof (induction sis arbitrary: ag r gsv)
  case (Cons si sis)
  show ?case unfolding partial_expressions.simps
    by (rule tree.steps_then [OF ProcessAllowPartialTrue_Expression_tree [OF assms]]) (intro step_intros Cons.IH)
qed (simp add: step_intros)

lemma HandleSet_tree:
  assumes "notify_keeps_tree (me_notify env)"
  shows "steps tree_only ag (MSG_HANDLER_HandleSet env ag msg_id request)"
proof -
  have partial: "steps tree_only ag1 (ProcessAllowPartialTrue env ag1 msg_id sis gsv)" for ag1 sis gsv
    using stepsD [OF partial_expressions_tree [OF assms]] by (auto simp: steps_def ProcessAllowPartialTrue_def)
  have full: "steps tree_only ag1 (ProcessAllowPartialFalse env ag1 msg_id sis gsv)" for ag1 sis gsv
    unfolding ProcessAllowPartialFalse_def Let_def
    by (rule steps_option; intro step_intros tree.steps_then [OF SetValues_tree] Abort_then Commit_tree [OF assms])
  show ?thesis unfolding MSG_HANDLER_HandleSet_def Grouped_HandleSet_def
    by (rule steps_option; intro step_intros tree.steps_then [OF steps_reads_tree [OF expand_expressions_reads]] partial full)
qed

section \<open>The entries of an expression\<close>

text \<open>What an expression asks for, and what an entry asks for.\<close>

definition wanted :: "set_expr_info \<Rightarrow> (cstr \<times> cstr \<times> bool) list" where
  "wanted si = concat (map (\<lambda>obj. map (\<lambda>ps. (fst (USP_SNPRINTF MAX_DM_PATH (obj @ ''.'' @ ps_param ps)), ps_value ps, ps_required ps))
    (si_param_settings si)) (si_resolved_objs si))"

definition entry_key :: "group_set_entry \<Rightarrow> cstr \<times> cstr \<times> bool" where
  "entry_key gse = (gs_path gse, gs_value gse, gs_required gse)"

lemma add_settings_keys:
  "add_settings env obj ag gsv pss = Some (ag', gsv') \<Longrightarrow> map entry_key gsv' = map entry_key gsv @
    map (\<lambda>ps. (fst (USP_SNPRINTF MAX_DM_PATH (obj @ ''.'' @ ps_param ps)), ps_value ps, ps_required ps)) pss"
proof (induction pss arbitrary: ag gsv)
  case (Cons ps pss)
  then show ?case by (auto simp: GROUP_SET_VECTOR_Add_def entry_key_def split: option.splits)
qed simp

lemma add_all_settings_keys:
  "add_all_settings env pss ag gsv objs = Some (ag', gsv') \<Longrightarrow> map entry_key gsv' = map entry_key gsv @
    concat (map (\<lambda>obj. map (\<lambda>ps. (fst (USP_SNPRINTF MAX_DM_PATH (obj @ ''.'' @ ps_param ps)), ps_value ps, ps_required ps)) pss) objs)"
proof (induction objs arbitrary: ag gsv)
  case (Cons obj objs)
  then show ?case by (auto split: option.splits dest!: add_settings_keys)
qed simp

definition placed :: "group_set_vector \<Rightarrow> set_expr_info \<Rightarrow> bool" where
  "placed gsv si \<longleftrightarrow> si_index si + si_num_entries si \<le> length gsv \<and>
    map entry_key (take (si_num_entries si) (drop (si_index si) gsv)) = wanted si"

lemma wanted_length: "length (wanted si) = si_num_entries si"
proof -
  have "length (concat (map (\<lambda>obj. map (f obj) pss) objs)) = length objs * length pss"
    for f :: "cstr \<Rightarrow> param_setting \<Rightarrow> cstr \<times> cstr \<times> bool" and pss objs
    by (induction objs) simp_all
  then show ?thesis by (simp add: wanted_def)
qed

lemma ExpandSetPathExpression_placed:
  assumes "ExpandSetPathExpression env ag up gsv = Some (ag', si, gsv')"
  shows "si_requested_path si = up_obj_path up \<and> (\<exists>more. map entry_key gsv' = map entry_key gsv @ more) \<and>
    (si_err si = None \<longrightarrow> map entry_key gsv' = map entry_key gsv @ wanted si \<and> si_index si = length gsv \<and>
      si_param_settings si = up_param_settings up)"
  using assms unfolding ExpandSetPathExpression_def Let_def
  by (auto simp: wanted_def elim!: ag_case_Some split: if_splits option.splits dest!: add_all_settings_keys)

lemma expand_expressions_placed:
  "expand_expressions env ag gsv ups = Some (ag', sis, gsv') \<Longrightarrow>
    map si_requested_path sis = map up_obj_path ups \<and> (\<exists>more. map entry_key gsv' = map entry_key gsv @ more) \<and>
    (\<forall>si\<in>set sis. si_err si = None \<longrightarrow> placed gsv' si)"
proof (induction ups arbitrary: ag gsv sis)
  case (Cons up ups)
  obtain ag1 si gsv1 sis1 where e: "ExpandSetPathExpression env ag up gsv = Some (ag1, si, gsv1)"
    "expand_expressions env ag1 gsv1 ups = Some (ag', sis1, gsv')" "sis = si # sis1"
    using Cons.prems by (auto split: option.splits)
  note one = ExpandSetPathExpression_placed [OF e(1)]
  note rest = Cons.IH [OF e(2)]
  obtain more more1 where m: "map entry_key gsv1 = map entry_key gsv @ more" "map entry_key gsv' = map entry_key gsv1 @ more1"
    using one rest by blast
  have "placed gsv' si" if "si_err si = None"
  proof -
    have e1: "map entry_key gsv' = map entry_key gsv @ wanted si @ more1" and i: "si_index si = length gsv"
      using one that m by auto
    from e1 have "length gsv' = length gsv + si_num_entries si + length more1"
      using wanted_length [of si] by (metis add.assoc length_append length_map)
    then have room: "si_index si + si_num_entries si \<le> length gsv'" by (simp add: i)
    from e1 i have "map entry_key (drop (si_index si) gsv') = wanted si @ more1" by (simp add: drop_map [symmetric])
    then have "map entry_key (take (si_num_entries si) (drop (si_index si) gsv')) = take (si_num_entries si) (wanted si @ more1)"
      by (simp add: take_map [symmetric])
    then show ?thesis using room by (simp add: placed_def wanted_length [symmetric])
  qed
  moreover have "map entry_key gsv' = map entry_key gsv @ (more @ more1)" using m by simp
  ultimately show ?case using one rest e(3) by auto
qed simp

lemma marked_keys: "list_all2 marked gsv gsv' \<Longrightarrow> map entry_key gsv' = map entry_key gsv"
  by (induction rule: list_all2_induct) (auto simp: entry_key_def dest: marked_fields)

lemma placed_keys:
  assumes "placed gsv si" "map entry_key gsv' = map entry_key gsv"
  shows "placed gsv' si"
proof -
  have "map entry_key (take n (drop k gsv')) = map entry_key (take n (drop k gsv))" for n k
    using assms(2) by (metis drop_map take_map)
  moreover have "length gsv' = length gsv" using assms(2) by (metis length_map)
  ultimately show ?thesis using assms(1) by (simp add: placed_def)
qed

lemma nth_concat_const:
  "\<forall>xs\<in>set xss. length xs = n \<Longrightarrow> i < length xss \<Longrightarrow> j < n \<Longrightarrow> concat xss ! (i * n + j) = xss ! i ! j"
proof (induction xss arbitrary: i)
  case (Cons xs xss)
  show ?case
  proof (cases i)
    case (Suc k)
    then have "concat (xs # xss) ! (i * n + j) = concat xss ! (k * n + j)" using Cons.prems by (simp add: nth_append)
    then show ?thesis using Cons Suc by simp
  qed (use Cons.prems in \<open>simp add: nth_append\<close>)
qed simp

lemma wanted_nth:
  assumes "i < length (si_resolved_objs si)" "j < si_num_params si"
  shows "wanted si ! (i * si_num_params si + j) = (let ps = si_param_settings si ! j
    in (fst (USP_SNPRINTF MAX_DM_PATH (si_resolved_objs si ! i @ ''.'' @ ps_param ps)), ps_value ps, ps_required ps))"
  using assms unfolding wanted_def by (subst nth_concat_const [where n = "si_num_params si"]) (auto simp: Let_def)

lemma entry_position:
  fixes i j k n :: nat
  assumes "i < k" "j < n"
  shows "i * n + j < k * n"
proof -
  have "i * n + j < i * n + n" using assms(2) by simp
  also have "\<dots> = Suc i * n" by simp
  also have "\<dots> \<le> k * n" using assms(1) by (intro mult_le_mono1) simp
  finally show ?thesis .
qed

text \<open>An entry of the result comes from the setting it is reported for.\<close>

lemma entries_of_entry:
  assumes "placed gsv si" "i < length (si_resolved_objs si)" "(ps, gse) \<in> set (entries_of si gsv i)"
  shows "ps \<in> set (si_param_settings si)" "gse \<in> set (take (si_num_entries si) (drop (si_index si) gsv))"
    "gs_path gse = fst (USP_SNPRINTF MAX_DM_PATH (si_resolved_objs si ! i @ ''.'' @ ps_param ps))"
    "gs_value gse = ps_value ps" "gs_required gse = ps_required ps"
proof -
  obtain j where j: "j < si_num_params si" "ps = si_param_settings si ! j" "gse = gsv ! (si_index si + i * si_num_params si + j)"
    using assms(3) by (auto simp: entries_of_def)
  let ?k = "i * si_num_params si + j"
  let ?part = "take (si_num_entries si) (drop (si_index si) gsv)"
  have k: "?k < si_num_entries si" by (rule entry_position [OF assms(2) j(1)])
  have room: "si_index si + si_num_entries si \<le> length gsv" using assms(1) by (simp add: placed_def)
  have part: "?part ! ?k = gse" "?k < length ?part" using k room j(3) by (simp_all add: add.assoc)
  then have "entry_key gse = wanted si ! ?k" using assms(1) by (metis placed_def nth_map)
  then have key: "entry_key gse = (fst (USP_SNPRINTF MAX_DM_PATH (si_resolved_objs si ! i @ ''.'' @ ps_param ps)), ps_value ps, ps_required ps)"
    using wanted_nth [OF assms(2) j(1)] j(2) by (simp add: Let_def)
  then show "gs_path gse = fst (USP_SNPRINTF MAX_DM_PATH (si_resolved_objs si ! i @ ''.'' @ ps_param ps))"
    "gs_value gse = ps_value ps" "gs_required gse = ps_required ps" by (simp_all add: entry_key_def)
  show "ps \<in> set (si_param_settings si)" using j by simp
  show "gse \<in> set ?part" using part nth_mem by metis
qed

lemma note_results_value:
  "note_results xs ui = Some ui' \<Longrightarrow> ui_affected_path ui' = ui_affected_path ui \<and>
    ui_updated_params ui' = ui_updated_params ui @ map (\<lambda>(ps, gse). (ps_param ps, gs_value gse)) (filter (\<lambda>(ps, gse). gs_err gse = None) xs) \<and>
    ui_param_errs ui' = ui_param_errs ui @ map (\<lambda>(ps, gse). (ps_param ps, the (gs_err gse))) (filter (\<lambda>(ps, gse). gs_err gse \<noteq> None) xs) \<and>
    (\<forall>(ps, gse)\<in>set xs. gs_err gse \<noteq> None \<longrightarrow> \<not> gs_required gse)"
  by (induction xs ui rule: note_results.induct)
     (auto simp: note_result_def AddUpdatedInstRes_ParamsEntry_def AddUpdatedInstRes_ParamErr_def split: option.splits if_splits)

lemma note_results_exists: "\<forall>(ps, gse)\<in>set xs. \<not> failed_required gse \<Longrightarrow> \<exists>ui'. note_results xs ui = Some ui'"
  by (induction xs ui rule: note_results.induct) (auto simp: note_result_def failed_required_def split: option.splits)

section \<open>Parameters that may be set\<close>

definition settable :: "dm_state \<Rightarrow> combined_role \<Rightarrow> cstr \<Rightarrow> bool" where
  "settable st role path \<longleftrightarrow>
    (\<exists>n inst q. DM_PRIV_GetNodeFromPath st path True True = Some (n, inst, q) \<and>
      node_type (heap st n) \<in> {kDMNodeType_DBParam_Secure, kDMNodeType_DBParam_ReadWrite, kDMNodeType_DBParam_ReadWriteAuto,
        kDMNodeType_VendorParam_ReadWrite} \<and>
      DM_PRIV_GetPermissions (heap st n) (Some role) AND PERMIT_SET \<noteq> 0)"

lemma settable_same_tree: "settable st role path \<Longrightarrow> same_tree st st' \<Longrightarrow> settable st' role path"
  unfolding settable_def by (auto simp: same_tree_GetNode same_tree_node same_tree_fields)

lemma writable_flag:
  "(PP_EXISTS_IN_SCHEMA OR type_properties t q) AND PP_IS_WRITABLE = 0"
  "((PP_EXISTS_IN_SCHEMA OR type_properties t q) OR (PP_INSTANCE_NUMBERS_EXIST OR PP_PARENT_INSTANCE_NUMBERS_EXIST)) AND PP_IS_WRITABLE = 0"
  "((PP_EXISTS_IN_SCHEMA OR type_properties t q) OR PP_PARENT_INSTANCE_NUMBERS_EXIST) AND PP_IS_WRITABLE = 0"
  "(of_nat (usp_err_code USP_ERR_INTERNAL_ERROR) :: 32 word) AND PP_IS_WRITABLE = 0"
  if "t \<notin> {kDMNodeType_DBParam_Secure, kDMNodeType_DBParam_ReadWrite, kDMNodeType_DBParam_ReadWriteAuto, kDMNodeType_VendorParam_ReadWrite}"
  using that by (cases t; auto simp: type_properties_def PP_defs)+

lemma set_verdict_settable:
  assumes "DATA_MODEL_GetPathProperties h ag path (Some role) = Some (ag1, pp)" "set_verdict pp = None"
  shows "settable (dm ag) role path"
proof -
  have v: "pp_flags pp AND PP_EXISTS_IN_SCHEMA \<noteq> 0" "pp_flags pp AND PP_IS_WRITABLE \<noteq> 0" "pp_permissions pp AND PERMIT_SET \<noteq> 0"
    using assms(2) by (auto simp: set_verdict_def split: if_splits)
  obtain n inst q where n: "DM_PRIV_GetNodeFromPath (dm ag) path True True = Some (n, inst, q)"
    "pp_permissions pp = DM_PRIV_GetPermissions (heap (dm ag) n) (Some role)"
    using GetPathProperties_found [OF assms(1) v(1)] by metis
  let ?fl = "PP_EXISTS_IN_SCHEMA OR type_properties (node_type (heap (dm ag) n)) q"
  have "pp_flags pp = ?fl \<or> pp_flags pp = ?fl OR (PP_INSTANCE_NUMBERS_EXIST OR PP_PARENT_INSTANCE_NUMBERS_EXIST) \<or>
      pp_flags pp = ?fl OR PP_PARENT_INSTANCE_NUMBERS_EXIST \<or> pp_flags pp = of_nat (usp_err_code USP_ERR_INTERNAL_ERROR)"
    using assms(1) unfolding DATA_MODEL_GetPathProperties_def n(1) option.case prod.case Let_def
    by (auto split: if_splits option.splits prod.splits sum.splits dest: dm_exists_err)
  then have "node_type (heap (dm ag) n) \<in> {kDMNodeType_DBParam_Secure, kDMNodeType_DBParam_ReadWrite, kDMNodeType_DBParam_ReadWriteAuto,
      kDMNodeType_VendorParam_ReadWrite}"
    using v(2) writable_flag [of "node_type (heap (dm ag) n)"] by metis
  then show ?thesis using n v(3) unfolding settable_def by metis
qed

definition entry_ok :: "dm_state \<Rightarrow> combined_role \<Rightarrow> group_set_entry \<Rightarrow> bool" where
  "entry_ok st role gse \<longleftrightarrow> (gs_err gse = None \<longrightarrow> settable st role (gs_path gse))"

lemma entries_ok_later: "\<forall>gse\<in>set gsv. entry_ok st role gse \<Longrightarrow> same_tree st st' \<Longrightarrow> \<forall>gse\<in>set gsv. entry_ok st' role gse"
  unfolding entry_ok_def using settable_same_tree by blast

lemma reads_entries_ok: "\<forall>gse\<in>set gsv. entry_ok (dm ag) role gse \<Longrightarrow> reads_only ag ag' \<Longrightarrow> \<forall>gse\<in>set gsv. entry_ok (dm ag') role gse"
  by (rule entries_ok_later) (auto simp: reads_only_def)

lemma Add_entry_ok:
  assumes "GROUP_SET_VECTOR_Add h ag gsv path v rq (Some role) = Some (ag', gsv')" "\<forall>gse\<in>set gsv. entry_ok (dm ag) role gse"
  shows "\<forall>gse\<in>set gsv'. entry_ok (dm ag') role gse"
proof -
  obtain pp where pp: "DATA_MODEL_GetPathProperties h ag path (Some role) = Some (ag', pp)"
    and new: "\<exists>g t. gsv' = gsv @ [\<lparr>gs_path = path, gs_group = g, gs_types = t, gs_value = v, gs_required = rq, gs_err = set_verdict pp\<rparr>]"
    using assms(1) by (auto simp: GROUP_SET_VECTOR_Add_def split: option.splits)
  have r: "reads_only ag ag'" by (rule stepsD [OF GetPathProperties_tree pp])
  have "set_verdict pp = None \<longrightarrow> settable (dm ag') role path"
    using set_verdict_settable [OF pp] settable_same_tree r by (auto simp: reads_only_def)
  then show ?thesis using new reads_entries_ok [OF assms(2) r] by (auto simp: entry_ok_def)
qed

lemma add_settings_ok:
  "add_settings env obj ag gsv pss = Some (ag', gsv') \<Longrightarrow> \<forall>gse\<in>set gsv. entry_ok (dm ag) (me_role env) gse \<Longrightarrow>
    \<forall>gse\<in>set gsv'. entry_ok (dm ag') (me_role env) gse"
proof (induction pss arbitrary: ag gsv)
  case (Cons ps pss)
  then obtain ag1 gsv1 where e: "GROUP_SET_VECTOR_Add (me_hooks env) ag gsv (fst (USP_SNPRINTF MAX_DM_PATH (obj @ ''.'' @ ps_param ps)))
        (ps_value ps) (ps_required ps) (Some (me_role env)) = Some (ag1, gsv1)"
    "add_settings env obj ag1 gsv1 pss = Some (ag', gsv')"
    by (auto split: option.splits)
  show ?case by (rule Cons.IH [OF e(2) Add_entry_ok [OF e(1) Cons.prems(2)]])
qed simp

lemma add_all_settings_ok:
  "add_all_settings env pss ag gsv objs = Some (ag', gsv') \<Longrightarrow> \<forall>gse\<in>set gsv. entry_ok (dm ag) (me_role env) gse \<Longrightarrow>
    \<forall>gse\<in>set gsv'. entry_ok (dm ag') (me_role env) gse"
proof (induction objs arbitrary: ag gsv)
  case (Cons obj objs)
  then obtain ag1 gsv1 where e: "add_settings env obj ag gsv pss = Some (ag1, gsv1)"
    "add_all_settings env pss ag1 gsv1 objs = Some (ag', gsv')"
    by (auto split: option.splits)
  show ?case by (rule Cons.IH [OF e(2) add_settings_ok [OF e(1) Cons.prems(2)]])
qed simp

lemma ExpandSetPathExpression_ok:
  assumes "ExpandSetPathExpression env ag up gsv = Some (ag', si, gsv')" "\<forall>gse\<in>set gsv. entry_ok (dm ag) (me_role env) gse"
  shows "\<forall>gse\<in>set gsv'. entry_ok (dm ag') (me_role env) gse"
proof -
  from assms(1) consider "gsv' = gsv" | ag1 objs where "resolve_paths env kResolveOp_Set ag (up_obj_path up) = Some (ag1, Inr objs)"
      "add_all_settings env (up_param_settings up) ag1 gsv objs = Some (ag', gsv')"
    unfolding ExpandSetPathExpression_def Let_def by (auto elim!: ag_case_Some split: if_splits option.splits)
  then show ?thesis
  proof cases
    case 1
    then show ?thesis using reads_entries_ok [OF assms(2) stepsD [OF ExpandSetPathExpression_reads assms(1)]] by simp
  next
    case 2
    have "reads_only ag ag1" using stepsD [OF resolve_paths_reads 2(1)] by (simp add: plain_ops_def)
    then show ?thesis using add_all_settings_ok [OF 2(2)] reads_entries_ok [OF assms(2)] by blast
  qed
qed

lemma expand_expressions_ok:
  "expand_expressions env ag gsv ups = Some (ag', sis, gsv') \<Longrightarrow> \<forall>gse\<in>set gsv. entry_ok (dm ag) (me_role env) gse \<Longrightarrow>
    \<forall>gse\<in>set gsv'. entry_ok (dm ag') (me_role env) gse"
proof (induction ups arbitrary: ag gsv sis)
  case (Cons up ups)
  then obtain ag1 si gsv1 sis1 where e: "ExpandSetPathExpression env ag up gsv = Some (ag1, si, gsv1)"
    "expand_expressions env ag1 gsv1 ups = Some (ag', sis1, gsv')"
    by (auto split: option.splits)
  show ?case by (rule Cons.IH [OF e(2) ExpandSetPathExpression_ok [OF e(1) Cons.prems(2)]])
qed simp

lemma marked_entries_ok: "list_all2 marked gsv gsv' \<Longrightarrow> \<forall>gse\<in>set gsv. entry_ok st role gse \<Longrightarrow> \<forall>gse\<in>set gsv'. entry_ok st role gse"
  by (induction rule: list_all2_induct) (auto simp: entry_ok_def marked_def)

section \<open>The results\<close>

text \<open>
  The result of an object accounts for every setting: those that are reported as updated have the value
  asked for and are parameters that the role may write, those that failed were not required.
\<close>

definition reported :: "dm_state \<Rightarrow> combined_role \<Rightarrow> param_setting list \<Rightarrow> cstr \<Rightarrow> updated_inst_result \<Rightarrow> bool" where
  "reported st role pss obj ui \<longleftrightarrow> ui_affected_path ui = obj @ ''.'' \<and>
    mset (map fst (ui_updated_params ui)) + mset (map fst (ui_param_errs ui)) = mset (map ps_param pss) \<and>
    (\<forall>(k, v)\<in>set (ui_updated_params ui). (\<exists>ps\<in>set pss. ps_param ps = k \<and> ps_value ps = v) \<and>
      settable st role (fst (USP_SNPRINTF MAX_DM_PATH (obj @ ''.'' @ k)))) \<and>
    (\<forall>(k, e)\<in>set (ui_param_errs ui). \<exists>ps\<in>set pss. ps_param ps = k \<and> \<not> ps_required ps)"

lemma reported_later: "reported st role pss obj ui \<Longrightarrow> same_tree st st' \<Longrightarrow> reported st' role pss obj ui"
  unfolding reported_def using settable_same_tree by fastforce

lemma entries_of_settings: "map fst (entries_of si gsv i) = si_param_settings si"
  by (auto simp: entries_of_def intro: nth_equalityI)

lemma note_results_reported:
  assumes "placed gsv si" "i < length (si_resolved_objs si)" "\<forall>gse\<in>set gsv. entry_ok st role gse"
    "note_results (entries_of si gsv i) (AddOperSuccess_UpdatedInstRes (si_resolved_objs si ! i)) = Some ui"
  shows "reported st role (si_param_settings si) (si_resolved_objs si ! i) ui"
proof -
  let ?xs = "entries_of si gsv i"
  let ?ok = "\<lambda>(ps, gse). gs_err gse = None"
  let ?bad = "\<lambda>(ps, gse). gs_err gse \<noteq> None"
  have v: "ui_affected_path ui = si_resolved_objs si ! i @ ''.''"
    "ui_updated_params ui = map (\<lambda>(ps, gse). (ps_param ps, gs_value gse)) (filter ?ok ?xs)"
    "ui_param_errs ui = map (\<lambda>(ps, gse). (ps_param ps, the (gs_err gse))) (filter ?bad ?xs)"
    "\<And>ps gse. (ps, gse) \<in> set ?xs \<Longrightarrow> gs_err gse \<noteq> None \<Longrightarrow> \<not> gs_required gse"
    using note_results_value [OF assms(4)] by (auto simp: AddOperSuccess_UpdatedInstRes_def)
  note entry = entries_of_entry [OF assms(1,2)]
  have "mset (map (ps_param \<circ> fst) (filter ?ok xs)) + mset (map (ps_param \<circ> fst) (filter ?bad xs)) = mset (map (ps_param \<circ> fst) xs)"
    for xs :: "(param_setting \<times> group_set_entry) list"
    by (induction xs) auto
  note this [of ?xs]
  also have "map (ps_param \<circ> fst) ?xs = map ps_param (si_param_settings si)"
    using entries_of_settings [of si gsv i] by (metis map_map)
  finally have m: "mset (map (ps_param \<circ> fst) (filter ?ok ?xs)) + mset (map (ps_param \<circ> fst) (filter ?bad ?xs)) =
      mset (map ps_param (si_param_settings si))" .
  have keys: "map fst (ui_updated_params ui) = map (ps_param \<circ> fst) (filter ?ok ?xs)"
    "map fst (ui_param_errs ui) = map (ps_param \<circ> fst) (filter ?bad ?xs)"
    by (simp_all add: v(2,3) comp_def case_prod_beta)
  have "settable st role (gs_path gse)" if "(ps, gse) \<in> set ?xs" "gs_err gse = None" for ps gse
    using entry(2) [OF that(1)] assms(3) that(2) by (auto simp: entry_ok_def dest!: in_set_takeD in_set_dropD)
  then have "\<forall>(k, x)\<in>set (ui_updated_params ui). (\<exists>ps\<in>set (si_param_settings si). ps_param ps = k \<and> ps_value ps = x) \<and>
      settable st role (fst (USP_SNPRINTF MAX_DM_PATH (si_resolved_objs si ! i @ ''.'' @ k)))"
    using entry(1,3,4) by (fastforce simp: v(2))
  moreover have "\<forall>(k, e)\<in>set (ui_param_errs ui). \<exists>ps\<in>set (si_param_settings si). ps_param ps = k \<and> \<not> ps_required ps"
    using entry(1,5) v(4) by (fastforce simp: v(3))
  ultimately show ?thesis using v(1) m keys by (simp add: reported_def)
qed

lemma inst_results_reported:
  "inst_results si gsv is = Some uis \<Longrightarrow> placed gsv si \<Longrightarrow> \<forall>gse\<in>set gsv. entry_ok st role gse \<Longrightarrow>
    \<forall>i\<in>set is. i < length (si_resolved_objs si) \<Longrightarrow>
    list_all2 (\<lambda>i ui. reported st role (si_param_settings si) (si_resolved_objs si ! i) ui) is uis"
  by (induction si gsv "is" arbitrary: uis rule: inst_results.induct)
     (auto split: option.splits intro: note_results_reported)

definition si_result :: "dm_state \<Rightarrow> combined_role \<Rightarrow> set_expr_info \<Rightarrow> updated_obj_result \<Rightarrow> bool" where
  "si_result st role si res \<longleftrightarrow> so_requested_path res = si_requested_path si \<and>
    (case so_status res of
       Set_Failure _ _ \<Rightarrow> True
     | Set_Success uis \<Rightarrow> si_err si = None \<and> list_all2 (reported st role (si_param_settings si)) (si_resolved_objs si) uis)"

lemma si_result_later: "si_result st role si res \<Longrightarrow> same_tree st st' \<Longrightarrow> si_result st' role si res"
  unfolding si_result_def by (auto split: set_status.splits elim!: list_all2_mono intro: reported_later)

lemma PopulateSetResp_OperSuccess_result:
  assumes "PopulateSetResp_OperSuccess r si gsv = Some r'" "placed gsv si" "\<forall>gse\<in>set gsv. entry_ok st role gse" "si_err si = None"
  shows "\<exists>uis. r' = r @ [\<lparr>so_requested_path = si_requested_path si, so_status = Set_Success uis\<rparr>] \<and>
    si_result st role si \<lparr>so_requested_path = si_requested_path si, so_status = Set_Success uis\<rparr>"
proof -
  obtain uis where u: "inst_results si gsv [0..<length (si_resolved_objs si)] = Some uis"
    "r' = r @ [\<lparr>so_requested_path = si_requested_path si, so_status = Set_Success uis\<rparr>]"
    using assms(1) by (auto simp: PopulateSetResp_OperSuccess_def AddSetResp_OperSuccess_def)
  have "list_all2 (\<lambda>i ui. reported st role (si_param_settings si) (si_resolved_objs si ! i) ui) [0..<length (si_resolved_objs si)] uis"
    by (rule inst_results_reported [OF u(1) assms(2,3)]) simp
  then have "list_all2 (reported st role (si_param_settings si)) (si_resolved_objs si) uis"
    by (auto simp: list_all2_conv_all_nth)
  then show ?thesis using u(2) assms(4) by (simp add: si_result_def)
qed

lemma populate_all_results:
  "populate_all r sis gsv = Some r' \<Longrightarrow> \<forall>si\<in>set sis. si_err si = None \<and> placed gsv si \<Longrightarrow> \<forall>gse\<in>set gsv. entry_ok st role gse \<Longrightarrow>
    \<exists>new. r' = r @ new \<and> list_all2 (si_result st role) sis new \<and> (\<forall>res\<in>set new. \<exists>uis. so_status res = Set_Success uis)"
proof (induction sis arbitrary: r)
  case (Cons si sis)
  then obtain r1 where p: "PopulateSetResp_OperSuccess r si gsv = Some r1" "populate_all r1 sis gsv = Some r'"
    by (auto split: option.splits)
  obtain uis where u: "r1 = r @ [\<lparr>so_requested_path = si_requested_path si, so_status = Set_Success uis\<rparr>]"
    "si_result st role si \<lparr>so_requested_path = si_requested_path si, so_status = Set_Success uis\<rparr>"
    using PopulateSetResp_OperSuccess_result [OF p(1)] Cons.prems(2,3) by (meson list.set_intros(1))
  obtain new where n: "r' = r1 @ new" "list_all2 (si_result st role) sis new" "\<forall>res\<in>set new. \<exists>uis. so_status res = Set_Success uis"
    using Cons.IH [OF p(2)] Cons.prems(2,3) by auto
  show ?case using u n
    by (intro exI [of _ "\<lparr>so_requested_path = si_requested_path si, so_status = Set_Success uis\<rparr> # new"]) auto
qed simp

lemma ProcessAllowPartialTrue_Expression_result:
  assumes "notify_keeps_tree (me_notify env)" "ProcessAllowPartialTrue_Expression env ag r si gsv = Some (ag', r', gsv')"
    "si_err si = None \<Longrightarrow> placed gsv si" "\<forall>gse\<in>set gsv. entry_ok (dm ag) (me_role env) gse"
  shows "(\<exists>res. r' = r @ [res] \<and> si_result (dm ag') (me_role env) si res) \<and> list_all2 marked gsv gsv'"
proof -
  have t: "same_tree (dm ag) (dm ag')"
    using stepsD [OF ProcessAllowPartialTrue_Expression_tree [OF assms(1)] assms(2)] by (simp add: tree_only_def)
  from assms(2) consider e fs where "gsv' = gsv" "r' = AddSetResp_OperFailure r (si_requested_path si) e fs"
    | ag1 ag2 e fs where "si_err si = None"
       "GROUP_SET_VECTOR_SetValues (me_hooks env) ag1 gsv (si_index si) (si_num_entries si) = Some (ag2, gsv')"
       "r' = AddSetResp_OperFailure r (si_requested_path si) e fs"
    | ag1 ag2 where "si_err si = None"
       "GROUP_SET_VECTOR_SetValues (me_hooks env) ag1 gsv (si_index si) (si_num_entries si) = Some (ag2, gsv')"
       "PopulateSetResp_OperSuccess r si gsv' = Some r'"
    unfolding ProcessAllowPartialTrue_Expression_def PopulateSetResp_OperFailure_def
    by (auto elim!: ag_case_Some split: if_splits option.splits)
  then show ?thesis
  proof cases
    case 1
    then show ?thesis by (simp add: AddSetResp_OperFailure_def si_result_def)
  next
    case 2
    have "list_all2 marked gsv gsv'" using SetValues_marked [OF 2(2)] assms(3) [OF 2(1)] by (simp add: placed_def)
    then show ?thesis using 2(3) by (simp add: AddSetResp_OperFailure_def si_result_def)
  next
    case 3
    have m: "list_all2 marked gsv gsv'" using SetValues_marked [OF 3(2)] assms(3) [OF 3(1)] by (simp add: placed_def)
    have "placed gsv' si" by (rule placed_keys [OF assms(3) [OF 3(1)] marked_keys [OF m]])
    moreover have "\<forall>gse\<in>set gsv'. entry_ok (dm ag') (me_role env) gse"
      by (rule marked_entries_ok [OF m entries_ok_later [OF assms(4) t]])
    ultimately show ?thesis using PopulateSetResp_OperSuccess_result [OF 3(3) _ _ 3(1)] m by blast
  qed
qed

lemma partial_expressions_results:
  assumes "notify_keeps_tree (me_notify env)"
  shows "partial_expressions env ag r sis gsv = Some (ag', r', gsv') \<Longrightarrow>
    \<forall>si\<in>set sis. si_err si = None \<longrightarrow> placed gsv si \<Longrightarrow> \<forall>gse\<in>set gsv. entry_ok (dm ag) (me_role env) gse \<Longrightarrow>
    \<exists>new. r' = r @ new \<and> list_all2 (si_result (dm ag') (me_role env)) sis new"
proof (induction sis arbitrary: ag r gsv)
  case (Cons si sis)
  obtain ag1 r1 gsv1 where e: "ProcessAllowPartialTrue_Expression env ag r si gsv = Some (ag1, r1, gsv1)"
    "partial_expressions env ag1 r1 sis gsv1 = Some (ag', r', gsv')"
    using Cons.prems(1) by (auto split: option.splits)
  have "si_err si = None \<Longrightarrow> placed gsv si" using Cons.prems(2) by simp
  from ProcessAllowPartialTrue_Expression_result [OF assms e(1) this Cons.prems(3)]
  obtain res where res: "r1 = r @ [res]" "si_result (dm ag1) (me_role env) si res" and m: "list_all2 marked gsv gsv1" by auto
  have t: "same_tree (dm ag) (dm ag1)" "same_tree (dm ag1) (dm ag')"
    using stepsD [OF ProcessAllowPartialTrue_Expression_tree [OF assms] e(1)] stepsD [OF partial_expressions_tree [OF assms] e(2)]
    by (simp_all add: tree_only_def)
  have "\<forall>si\<in>set sis. si_err si = None \<longrightarrow> placed gsv1 si"
    using Cons.prems(2) placed_keys [OF _ marked_keys [OF m]] by simp
  from Cons.IH [OF e(2) this marked_entries_ok [OF m entries_ok_later [OF Cons.prems(3) t(1)]]]
  obtain new where "r' = r1 @ new" "list_all2 (si_result (dm ag') (me_role env)) sis new" by blast
  then show ?case using res si_result_later [OF res(2) t(2)] by auto
qed simp

definition update_result :: "dm_state \<Rightarrow> combined_role \<Rightarrow> update_obj \<Rightarrow> updated_obj_result \<Rightarrow> bool" where
  "update_result st role up res \<longleftrightarrow> so_requested_path res = up_obj_path up \<and>
    (case so_status res of
       Set_Failure _ _ \<Rightarrow> True
     | Set_Success uis \<Rightarrow> \<exists>objs. list_all2 (reported st role (up_param_settings up)) objs uis)"

lemma expand_expressions_settings:
  "expand_expressions env ag gsv ups = Some (ag', sis, gsv') \<Longrightarrow>
    list_all2 (\<lambda>up si. si_requested_path si = up_obj_path up \<and> (si_err si = None \<longrightarrow> si_param_settings si = up_param_settings up)) ups sis"
proof (induction ups arbitrary: ag gsv sis)
  case (Cons up ups)
  obtain ag1 si gsv1 sis1 where e: "ExpandSetPathExpression env ag up gsv = Some (ag1, si, gsv1)"
    "expand_expressions env ag1 gsv1 ups = Some (ag', sis1, gsv')" "sis = si # sis1"
    using Cons.prems by (auto split: option.splits)
  show ?case using ExpandSetPathExpression_placed [OF e(1)] Cons.IH [OF e(2)] e(3) by simp
qed simp

lemma update_results:
  assumes "list_all2 (\<lambda>up si. si_requested_path si = up_obj_path up \<and> (si_err si = None \<longrightarrow> si_param_settings si = up_param_settings up)) ups sis"
    "list_all2 (si_result st role) sis results"
  shows "list_all2 (update_result st role) ups results"
proof (rule list_all2_trans [OF _ assms])
  fix up :: update_obj and si :: set_expr_info and res
  assume "si_requested_path si = up_obj_path up \<and> (si_err si = None \<longrightarrow> si_param_settings si = up_param_settings up)"
    and "si_result st role si res"
  then show "update_result st role up res"
    by (auto simp: si_result_def update_result_def split: set_status.splits)
qed

text \<open>The two ways to a response.\<close>

lemma HandleSet_response:
  assumes "MSG_HANDLER_HandleSet env ag msg_id (Some req) = Some (ag', Response mid results)"
  obtains "set_update_objs req = []" "results = []" "ag' = ag"
  | ag1 sis gsv gsv' where "set_allow_partial req" "expand_expressions env ag [] (set_update_objs req) = Some (ag1, sis, gsv)"
      "partial_expressions env ag1 [] sis gsv = Some (ag', results, gsv')"
  | ag1 sis gsv ag2 ag3 gsv' u w where "\<not> set_allow_partial req" "expand_expressions env ag [] (set_update_objs req) = Some (ag1, sis, gsv)"
      "DM_TRANS_Start (me_trans env) ag1 = Some (ag2, Inr w)" "\<forall>si\<in>set sis. si_err si = None" "GROUP_SET_VECTOR_SetValues (me_hooks env) ag2 gsv 0 (length gsv) = Some (ag3, gsv')"
      "commit env ag3 = Some (ag', Inr u)" "populate_all [] sis gsv' = Some results"
proof -
  from assms consider "set_update_objs req = []" "results = []" "ag' = ag"
    | ag1 sis gsv where "expand_expressions env ag [] (set_update_objs req) = Some (ag1, sis, gsv)"
      "(if set_allow_partial req then ProcessAllowPartialTrue env ag1 msg_id sis gsv else ProcessAllowPartialFalse env ag1 msg_id sis gsv) =
        Some (ag', Response mid results)"
    unfolding MSG_HANDLER_HandleSet_def Grouped_HandleSet_def GROUP_SET_VECTOR_Init_def CreateSetResp_def
    by (auto split: if_splits option.splits)
  then show thesis
  proof cases
    case 2
    show ?thesis
    proof (cases "set_allow_partial req")
      case True
      with 2(2) obtain gsv' where "partial_expressions env ag1 [] sis gsv = Some (ag', results, gsv')"
        by (auto simp: ProcessAllowPartialTrue_def)
      then show ?thesis using that(2) True 2(1) by blast
    next
      case False
      with 2(2) have "find (\<lambda>si. si_err si \<noteq> None) sis = None"
        by (auto simp: ProcessAllowPartialFalse_def CreateSingle_message split: option.splits)
      moreover from this have "\<forall>si\<in>set sis. si_err si = None" by (auto simp: find_None_iff)
      ultimately show ?thesis using that(3) False 2
        by (auto simp: ProcessAllowPartialFalse_def CreateSingle_message CreateErrRespFromFailedSetParams_def Let_def
            elim!: ag_case_Some split: option.splits if_splits)
    qed
  qed (use that(1) in blast)
qed

lemma SetValues_length_tree:
  "GROUP_SET_VECTOR_SetValues h ag gsv 0 (length gsv) = Some (ag', gsv') \<Longrightarrow> list_all2 marked gsv gsv' \<and> same_tree (dm ag) (dm ag')"
  using SetValues_marked [of h ag gsv 0 "length gsv" ag' gsv'] stepsD [OF SetValues_tree, of h ag gsv 0 "length gsv" ag' gsv']
  by (simp add: tree_only_def)

section \<open>Properties\<close>

text \<open>
  C1: a Set that is answered with an error has not changed the database: if an expression, a required
  parameter, the transaction or its commit fails, no parameter of the message is set.
\<close>

theorem HandleSet_all_or_nothing:
  assumes "MSG_HANDLER_HandleSet env ag msg_id request = Some (ag', Error_Response mid err errs)" "cur_transaction ag = None"
  shows "rows (db ag') = rows (db ag)"
proof -
  from assms(1) consider "ag' = ag"
    | ups ag1 sis gsv where "expand_expressions env ag [] ups = Some (ag1, sis, gsv)"
      "ProcessAllowPartialFalse env ag1 msg_id sis gsv = Some (ag', Error_Response mid err errs)"
    unfolding MSG_HANDLER_HandleSet_def Grouped_HandleSet_def GROUP_SET_VECTOR_Init_def CreateSetResp_def ProcessAllowPartialTrue_def
    by (auto split: if_splits option.splits)
  then show ?thesis
  proof cases
    case 2
    have r: "rows (db ag1) = rows (db ag)" "cur_transaction ag1 = None"
      using stepsD [OF expand_expressions_reads 2(1)] assms(2) by (simp_all add: reads_only_def)
    from 2(2) consider "ag' = ag1" | e where "DM_TRANS_Start (me_trans env) ag1 = Some (ag', Inl e)"
      | ag2 u ag3 gsv1 x where "DM_TRANS_Start (me_trans env) ag1 = Some (ag2, Inr u)"
          "GROUP_SET_VECTOR_SetValues (me_hooks env) ag2 gsv 0 (length gsv) = Some (ag3, gsv1)"
          "DM_TRANS_Abort (me_trans env) ag3 = Some (ag', x)"
      | ag2 u ag3 gsv1 x where "DM_TRANS_Start (me_trans env) ag1 = Some (ag2, Inr u)"
          "GROUP_SET_VECTOR_SetValues (me_hooks env) ag2 gsv 0 (length gsv) = Some (ag3, gsv1)" "commit env ag3 = Some (ag', Inl x)"
      unfolding ProcessAllowPartialFalse_def Let_def by (auto elim!: ag_case_Some split: option.splits if_splits)
    then show ?thesis
    proof cases
      case 2
      then show ?thesis using failed_start r by metis
    next
      case 3
      then show ?thesis using aborted_message [OF 3(1) r(2) stepsD [OF SetValues_writes 3(2)] 3(3)] r(1) by simp
    next
      case 4
      then show ?thesis using failed_commit [OF 4(1) r(2) stepsD [OF SetValues_writes 4(2)] 4(3)] r(1) by simp
    qed (simp add: r)
  qed simp
qed


text \<open>A setting of a parameter that the table does not have.\<close>

definition demo_update :: "bool \<Rightarrow> update_obj" where
  "demo_update required = \<lparr>up_obj_path = ''Device.A.7.'',
    up_param_settings = [\<lparr>ps_param = ''P'', ps_value = ''1'', ps_required = required\<rparr>]\<rparr>"

definition demo_entry :: "bool \<Rightarrow> group_set_entry" where
  "demo_entry required = \<lparr>gs_path = ''Device.A.7.P'', gs_group = NON_GROUPED, gs_types = 0, gs_value = ''1'',
    gs_required = required, gs_err = Some USP_ERR_UNSUPPORTED_PARAM\<rparr>"

definition demo_info :: "bool \<Rightarrow> set_expr_info" where
  "demo_info required = \<lparr>si_requested_path = ''Device.A.7.'', si_resolved_objs = [''Device.A.7''], si_index = 0, si_err = None,
    si_param_settings = up_param_settings (demo_update required)\<rparr>"

lemma demo_entry_simps:
  "gs_err (demo_entry b) = Some USP_ERR_UNSUPPORTED_PARAM" "gs_required (demo_entry b) = b"
  "gs_path (demo_entry b) = ''Device.A.7.P''" "gs_value (demo_entry b) = ''1''"
  by (simp_all add: demo_entry_def)

lemma demo_expand:
  "expand_expressions (demo_msg_env tv) idle_agent [] [demo_update required] = Some (idle_agent, [demo_info required], [demo_entry required])"
proof -
  have p: "fst (USP_SNPRINTF MAX_DM_PATH (''Device.A.7'' @ ''.'' @ ''P'')) = ''Device.A.7.P''"
    by (simp add: USP_SNPRINTF_def MAX_DM_PATH_def)
  have "GROUP_SET_VECTOR_Add demo_hooks idle_agent [] ''Device.A.7.P'' ''1'' required (Some all_roles) =
      Some (idle_agent, [demo_entry required])"
    by (simp add: GROUP_SET_VECTOR_Add_def DATA_MODEL_GetPathProperties_def demo_no_param idle_facts(1) demo_entry_def set_verdict_def)
  then show ?thesis
    using demo_resolve [OF idle_facts(1), of kResolveOp_Set tv] p
    by (simp add: ExpandSetPathExpression_def demo_update_def demo_info_def)
qed

lemma demo_set_values:
  "GROUP_SET_VECTOR_SetValues demo_hooks ag [demo_entry required] 0 1 = Some (ag, [demo_entry required])"
proof -
  have no_group: "set_group demo_hooks [demo_entry required] g gsv = Some (gsv, False)" for g gsv
    by (simp add: set_group_def set_indexes_def demo_entry_def Let_def)
  have "set_groups demo_hooks [demo_entry required] gs gsv = Some gsv" for gs gsv
    by (induction gs) (simp_all add: no_group)
  then have "set_values demo_hooks ag [demo_entry required] = Some (ag, [demo_entry required])"
    by (simp add: set_values_def) (simp add: demo_entry_def)
  then show ?thesis by (simp add: GROUP_SET_VECTOR_SetValues_def on_entries_def)
qed

lemma demo_failure_index: "GROUP_SET_VECTOR_GetFailureIndex [demo_entry True] 0 1 = 0"
    by (simp add: GROUP_SET_VECTOR_GetFailureIndex_def failed_required_def demo_entry_def Let_def first_index_Cons)

theorem HandleSet_all_or_nothing_witness:
  "\<exists>ag'. MSG_HANDLER_HandleSet (demo_msg_env no_hooks) idle_agent ''1''
      (Some \<lparr>set_update_objs = [demo_update True], set_allow_partial = False\<rparr>) =
      Some (ag', Error_Response ''1'' USP_ERR_INVALID_ARGUMENTS [\<lparr>pe_path = ''Device.A.7.P'', pe_code = USP_ERR_UNSUPPORTED_PARAM\<rparr>]) \<and>
    rows (db ag') = rows (db idle_agent)"
proof -
  obtain ag' r where a: "DM_TRANS_Abort no_hooks started_agent = Some (ag', r)"
    by (cases "DATABASE_AbortTransaction (db started_agent)") (simp add: DM_TRANS_Abort_def idle_facts(4) Let_def)
  note f = demo_failure_index
  have "ProcessAllowPartialFalse (demo_msg_env no_hooks) idle_agent ''1'' [demo_info True] [demo_entry True] =
      Some (ag', Error_Response ''1'' USP_ERR_INVALID_ARGUMENTS [\<lparr>pe_path = ''Device.A.7.P'', pe_code = USP_ERR_UNSUPPORTED_PARAM\<rparr>])"
    by (simp add: ProcessAllowPartialFalse_def demo_info_def idle_start demo_set_values [simplified] f [simplified] a Let_def
        CreateErrRespFromFailedSetParams_def demo_entry_simps failed_required_def CreateSingle_message
        ERROR_RESP_CalcOuterErrCode_def argument_errors_def)
  then have h: "MSG_HANDLER_HandleSet (demo_msg_env no_hooks) idle_agent ''1''
      (Some \<lparr>set_update_objs = [demo_update True], set_allow_partial = False\<rparr>) =
      Some (ag', Error_Response ''1'' USP_ERR_INVALID_ARGUMENTS [\<lparr>pe_path = ''Device.A.7.P'', pe_code = USP_ERR_UNSUPPORTED_PARAM\<rparr>])"
    by (simp only: MSG_HANDLER_HandleSet_def Grouped_HandleSet_def GROUP_SET_VECTOR_Init_def option.case set_req.simps demo_expand prod.case
        list.distinct if_False)
  show ?thesis using h HandleSet_all_or_nothing [OF h idle_facts(2)] by blast
qed


text \<open>
  With partial results allowed, each expression has its transaction: one that is reported as failed
  has left the database as it was.
\<close>

theorem partial_set_failure_untouched:
  assumes "cur_transaction ag = None"
    "ProcessAllowPartialTrue_Expression env ag r si gsv = Some (ag', r @ [\<lparr>so_requested_path = p, so_status = Set_Failure e fs\<rparr>], gsv')"
  shows "rows (db ag') = rows (db ag)"
proof -
  have no_success: "PopulateSetResp_OperSuccess r si g \<noteq> Some (r @ [\<lparr>so_requested_path = p, so_status = Set_Failure e fs\<rparr>])" for g
    by (auto simp: PopulateSetResp_OperSuccess_def AddSetResp_OperSuccess_def)
  from assms(2) consider "ag' = ag" | x where "DM_TRANS_Start (me_trans env) ag = Some (ag', Inl x)"
    | ag1 u ag2 gsv1 x where "DM_TRANS_Start (me_trans env) ag = Some (ag1, Inr u)"
        "GROUP_SET_VECTOR_SetValues (me_hooks env) ag1 gsv (si_index si) (si_num_entries si) = Some (ag2, gsv1)"
        "DM_TRANS_Abort (me_trans env) ag2 = Some (ag', x)"
    | ag1 u ag2 gsv1 x where "DM_TRANS_Start (me_trans env) ag = Some (ag1, Inr u)"
        "GROUP_SET_VECTOR_SetValues (me_hooks env) ag1 gsv (si_index si) (si_num_entries si) = Some (ag2, gsv1)"
        "commit env ag2 = Some (ag', Inl x)"
    unfolding ProcessAllowPartialTrue_Expression_def
    by (auto simp: no_success elim!: ag_case_Some split: option.splits if_splits)
  then show ?thesis
  proof cases
    case 2
    then show ?thesis using failed_start assms(1) by blast
  next
    case 3
    then show ?thesis using aborted_message [OF 3(1) assms(1) stepsD [OF SetValues_writes 3(2)] 3(3)] by simp
  next
    case 4
    then show ?thesis using failed_commit [OF 4(1) assms(1) stepsD [OF SetValues_writes 4(2)] 4(3)] by simp
  qed simp
qed

theorem partial_set_failure_untouched_witness:
  "\<exists>ag'. ProcessAllowPartialTrue_Expression (demo_msg_env no_hooks) idle_agent [] (demo_info True) [demo_entry True] =
      Some (ag', [\<lparr>so_requested_path = ''Device.A.7.'', so_status = Set_Failure USP_ERR_REQUIRED_PARAM_FAILED
        [\<lparr>uf_affected_path = ''Device.A.7.'', uf_param_errs = [(''P'', USP_ERR_UNSUPPORTED_PARAM)]\<rparr>]\<rparr>], [demo_entry True]) \<and>
    rows (db ag') = rows (db idle_agent)"
proof -
  let ?fs = "[\<lparr>uf_affected_path = ''Device.A.7.'', uf_param_errs = [(''P'', USP_ERR_UNSUPPORTED_PARAM)]\<rparr>]"
  obtain ag' x where a: "DM_TRANS_Abort no_hooks started_agent = Some (ag', x)"
    by (cases "DATABASE_AbortTransaction (db started_agent)") (simp add: DM_TRANS_Abort_def idle_facts(4) Let_def)
  have "PopulateSetResp_OperFailure [] (demo_info True) [demo_entry True] =
      [\<lparr>so_requested_path = ''Device.A.7.'', so_status = Set_Failure USP_ERR_REQUIRED_PARAM_FAILED ?fs\<rparr>]"
    using demo_failure_index [simplified]
    by (simp add: PopulateSetResp_OperFailure_def AddSetResp_OperFailure_def PopulateOperFailure_UpdatedInstFailure_def demo_info_def
        demo_update_def entries_of_def note_failure_def AddUpdatedInstFailure_ParamErr_def AddOperFailure_UpdatedInstFailure_def Let_def demo_entry_simps)
  then have h: "ProcessAllowPartialTrue_Expression (demo_msg_env no_hooks) idle_agent [] (demo_info True) [demo_entry True] =
      Some (ag', [] @ [\<lparr>so_requested_path = ''Device.A.7.'', so_status = Set_Failure USP_ERR_REQUIRED_PARAM_FAILED ?fs\<rparr>], [demo_entry True])"
    using a demo_failure_index [simplified]
    by (simp add: ProcessAllowPartialTrue_Expression_def demo_info_def demo_update_def idle_start demo_set_values [simplified])
  show ?thesis using h partial_set_failure_untouched [OF idle_facts(2) h] by simp
qed

end
