(* ===== verification/Msg_Add.thy ===== *)
theory Msg_Add
  imports Usp_Msg
begin

text \<open>
  The Add message (\<open>core/handle_add.c\<close>): each expression of the request is resolved to the tables it
  stands for, and an instance is added to each, with the settings of the request and with its unique
  keys checked; in one transaction for the whole message or, when the controller allows partial
  results, in one transaction for each object.
\<close>

section \<open>Request and response\<close>

record create_obj =
  cr_obj_path :: cstr
  cr_param_settings :: "param_setting list"

record add_req =
  add_create_objs :: "create_obj list"
  add_allow_partial :: bool

record add_success =
  instantiated_path :: cstr
  add_param_errs :: "(cstr \<times> usp_err) list"
  add_unique_keys :: "(cstr \<times> cstr) list"

datatype add_status = Add_Failure usp_err | Add_Success add_success

record created_obj_result =
  co_requested_path :: cstr
  co_status :: add_status

text \<open>
  The response with the vector \<open>add_oper_failure_param_names\<close>, which has the name of the parameter of each
  failure of the response, or an empty name.
\<close>

record add_resp =
  ar_results :: "created_obj_result list"
  ar_param_names :: str_vector

definition no_results :: add_resp where
  "no_results = \<lparr>ar_results = [], ar_param_names = []\<rparr>"

definition CreateAddResp :: "cstr \<Rightarrow> created_obj_result list usp_msg" where
  "CreateAddResp msg_id = Response msg_id []"

definition AddResp_OperFailure :: "add_resp \<Rightarrow> cstr \<Rightarrow> cstr option \<Rightarrow> usp_err \<Rightarrow> add_resp" where
  "AddResp_OperFailure resp path param_name err_code =
    \<lparr>ar_results = ar_results resp @ [\<lparr>co_requested_path = path, co_status = Add_Failure err_code\<rparr>],
     ar_param_names = STR_VECTOR_Add (ar_param_names resp) (case param_name of None \<Rightarrow> [] | Some name \<Rightarrow> name)\<rparr>"

text \<open>A success is added when it is full; \<open>new_success\<close> is the one that the code adds first and fills.\<close>

definition new_success :: "cstr \<Rightarrow> add_success option" where
  "new_success path =
    map_option (\<lambda>p. \<lparr>instantiated_path = p, add_param_errs = [], add_unique_keys = []\<rparr>) (TEXT_UTILS_StrDupWithTrailingDot path)"

definition AddResp_OperSuccess :: "add_resp \<Rightarrow> cstr \<Rightarrow> add_success \<Rightarrow> add_resp" where
  "AddResp_OperSuccess resp req_path success =
    resp\<lparr>ar_results := ar_results resp @ [\<lparr>co_requested_path = req_path, co_status = Add_Success success\<rparr>]\<rparr>"

definition RemoveAddResp_LastCreatedObjResult :: "add_resp \<Rightarrow> add_resp" where
  "RemoveAddResp_LastCreatedObjResult resp = resp\<lparr>ar_results := butlast (ar_results resp)\<rparr>"

definition AddResp_OperSuccess_ParamErr :: "cstr \<Rightarrow> usp_err \<Rightarrow> add_success \<Rightarrow> add_success" where
  "AddResp_OperSuccess_ParamErr path err_code success = success\<lparr>add_param_errs := add_param_errs success @ [(path, err_code)]\<rparr>"

definition AddOperSuccess_UniqueKeys :: "(cstr \<times> cstr) list \<Rightarrow> add_success \<Rightarrow> add_success" where
  "AddOperSuccess_UniqueKeys kvv success = success\<lparr>add_unique_keys := kvv\<rparr>"

text \<open>The errors of the failures; the \<open>k\<close>-th failure has the \<open>k\<close>-th name.\<close>

fun failure_errors :: "created_obj_result list \<Rightarrow> str_vector \<Rightarrow> nat \<Rightarrow> param_error list" where
  "failure_errors [] names k = []"
| "failure_errors (res # results) names k =
    (case co_status res of
       Add_Success _ \<Rightarrow> failure_errors results names k
     | Add_Failure err_code \<Rightarrow>
        (let param_name = (if k < length names then names ! k else []);
             path = (if param_name \<noteq> [] then co_requested_path res @ ''{i}.'' @ param_name else co_requested_path res)
         in \<lparr>pe_path = fst (USP_SNPRINTF MAX_DM_PATH path), pe_code = err_code\<rparr> # failure_errors results names (Suc k)))"

definition ParamError_FromAddRespToErrResp :: "add_resp \<Rightarrow> param_error list" where
  "ParamError_FromAddRespToErrResp resp = failure_errors (ar_results resp) (ar_param_names resp) 0"

section \<open>Creating an object\<close>

text \<open>The settings go in the vector with paths below the new object, written behind it in its buffer.\<close>

fun add_object_settings ::
    "msg_env \<Rightarrow> cstr \<Rightarrow> nat \<Rightarrow> agent \<Rightarrow> group_set_vector \<Rightarrow> param_setting list \<Rightarrow> (agent \<times> group_set_vector) option" where
  "add_object_settings env full_path len ag gsv [] = Some (ag, gsv)"
| "add_object_settings env full_path len ag gsv (ps # pss) =
    (case GROUP_SET_VECTOR_Add (me_hooks env) ag gsv (full_path @ fst (USP_SNPRINTF (MAX_DM_PATH - len) (''.'' @ ps_param ps)))
        (ps_value ps) (ps_required ps) (Some (me_role env)) of
       None \<Rightarrow> None
     | Some (ag1, gsv1) \<Rightarrow> add_object_settings env full_path len ag1 gsv1 pss)"

text \<open>The errors of the settings: the first required parameter that failed, with its error, or the success.\<close>

fun note_created :: "(param_setting \<times> group_set_entry) list \<Rightarrow> add_success \<Rightarrow> (cstr \<times> usp_err) + add_success" where
  "note_created [] success = Inr success"
| "note_created ((ps, gse) # rest) success =
    (case gs_err gse of
       None \<Rightarrow> note_created rest success
     | Some e \<Rightarrow>
        if ps_required ps then Inl (ps_param ps, e)
        else note_created rest (AddResp_OperSuccess_ParamErr (ps_param ps) e success))"

text \<open>What follows the creation of an instance: its settings and its unique keys.\<close>

definition fill_object ::
    "msg_env \<Rightarrow> agent \<Rightarrow> cstr \<Rightarrow> nat \<Rightarrow> create_obj \<Rightarrow> (agent \<times> ((cstr option \<times> usp_err) + add_success)) option" where
  "fill_object env ag full_path len cr =
    (case new_success full_path of
       None \<Rightarrow> None
     | Some success \<Rightarrow>
    (case add_object_settings env full_path len ag GROUP_SET_VECTOR_Init (cr_param_settings cr) of
       None \<Rightarrow> None
     | Some (ag1, gsv) \<Rightarrow>
    (case GROUP_SET_VECTOR_SetValues (me_hooks env) ag1 gsv 0 (length gsv) of
       None \<Rightarrow> None
     | Some (ag2, gsv1) \<Rightarrow>
        (case note_created (zip (cr_param_settings cr) gsv1) success of
           Inl (param_name, err) \<Rightarrow> Some (ag2, Inl (Some param_name, err))
         | Inr success1 \<Rightarrow>
             ag_case (DATA_MODEL_GetUniqueKeyParams (me_hooks env) ag2 full_path (Some (me_role env)))
               (\<lambda>ag3 err. Some (ag3, Inl (None, err)))
               (\<lambda>ag3 unique_key_params.
                 ag_case (DATA_MODEL_ValidateDefaultedUniqueKeys (me_hooks env) ag3 full_path unique_key_params (Some gsv1))
                   (\<lambda>ag4 err. Some (ag4, Inl (None, err)))
                   (\<lambda>ag4 _. Some (ag4, Inr (AddOperSuccess_UniqueKeys unique_key_params success1))))))))"

text \<open>\<open>None\<close>: the path of the instance does not fit its buffer, or the number is not set.\<close>

definition CreateObject ::
    "msg_env \<Rightarrow> agent \<Rightarrow> cstr \<Rightarrow> add_resp \<Rightarrow> create_obj \<Rightarrow> bool \<Rightarrow> (agent \<times> add_resp \<times> (usp_err + unit)) option" where
  "CreateObject env ag obj_path resp cr allow_partial =
    ag_case (DATA_MODEL_AddInstance (me_hooks env) ag obj_path True CHECK_CREATABLE)
      (\<lambda>ag1 err. Some (ag1, if allow_partial then AddResp_OperFailure resp (cr_obj_path cr) None err else resp, Inl err))
      (\<lambda>ag1 instance.
        case instance of
          None \<Rightarrow> None
        | Some n \<Rightarrow>
           let (full_path, len) = USP_SNPRINTF MAX_DM_PATH (obj_path @ ''.'' @ show_int n)
           in if MAX_DM_PATH \<le> len then None
              else case fill_object env ag1 full_path len cr of
                None \<Rightarrow> None
              | Some (ag2, Inl (param_name, err)) \<Rightarrow> Some (ag2, AddResp_OperFailure resp (cr_obj_path cr) param_name err, Inl err)
              | Some (ag2, Inr success) \<Rightarrow> Some (ag2, AddResp_OperSuccess resp (cr_obj_path cr) success, USP_OK))"

definition CreateObject_Trans ::
    "msg_env \<Rightarrow> agent \<Rightarrow> cstr \<Rightarrow> add_resp \<Rightarrow> create_obj \<Rightarrow> bool \<Rightarrow> (agent \<times> add_resp \<times> (usp_err + unit)) option" where
  "CreateObject_Trans env ag obj_path resp cr allow_partial =
    (if \<not> allow_partial then CreateObject env ag obj_path resp cr False
     else ag_case (DM_TRANS_Start (me_trans env) ag)
       (\<lambda>ag1 err. Some (ag1, AddResp_OperFailure resp (cr_obj_path cr) None err, Inl err))
       (\<lambda>ag1 _.
         case CreateObject env ag1 obj_path resp cr True of
           None \<Rightarrow> None
         | Some (ag2, resp1, Inr _) \<Rightarrow>
             ag_case (commit env ag2)
               (\<lambda>ag3 err. Some (ag3, AddResp_OperFailure (RemoveAddResp_LastCreatedObjResult resp1) (cr_obj_path cr) None err, Inl err))
               (\<lambda>ag3 _. Some (ag3, resp1, USP_OK))
         | Some (ag2, resp1, Inl _) \<Rightarrow>
             (case DM_TRANS_Abort (me_trans env) ag2 of
                None \<Rightarrow> None
              | Some (ag3, _) \<Rightarrow> Some (ag3, resp1, USP_OK))))"

fun create_objects ::
    "msg_env \<Rightarrow> agent \<Rightarrow> add_resp \<Rightarrow> create_obj \<Rightarrow> bool \<Rightarrow> cstr list \<Rightarrow> (agent \<times> add_resp \<times> (usp_err + unit)) option" where
  "create_objects env ag resp cr allow_partial [] = Some (ag, resp, USP_OK)"
| "create_objects env ag resp cr allow_partial (obj_path # obj_paths) =
    (case CreateObject_Trans env ag obj_path resp cr allow_partial of
       None \<Rightarrow> None
     | Some (ag1, resp1, Inl err) \<Rightarrow> Some (ag1, resp1, Inl err)
     | Some (ag1, resp1, Inr _) \<Rightarrow> create_objects env ag1 resp1 cr allow_partial obj_paths)"

definition CreateExpressionObjects ::
    "msg_env \<Rightarrow> agent \<Rightarrow> add_resp \<Rightarrow> create_obj \<Rightarrow> bool \<Rightarrow> (agent \<times> add_resp \<times> (usp_err + unit)) option" where
  "CreateExpressionObjects env ag resp cr allow_partial =
    (if cr_obj_path cr = [] then Some (ag, AddResp_OperFailure resp (cr_obj_path cr) None USP_ERR_INVALID_ARGUMENTS, USP_OK)
     else ag_case (resolve_paths env kResolveOp_Add ag (cr_obj_path cr))
       (\<lambda>ag1 err. Some (ag1, AddResp_OperFailure resp (cr_obj_path cr) None err, Inl err))
       (\<lambda>ag1 obj_paths.
         if obj_paths = [] then Some (ag1, AddResp_OperFailure resp (cr_obj_path cr) None USP_ERR_INVALID_ARGUMENTS, USP_OK)
         else create_objects env ag1 resp cr allow_partial obj_paths))"

section \<open>The message\<close>

fun create_expressions ::
    "msg_env \<Rightarrow> bool \<Rightarrow> agent \<Rightarrow> add_resp \<Rightarrow> create_obj list \<Rightarrow> (agent \<times> add_resp \<times> (usp_err + unit)) option" where
  "create_expressions env allow_partial ag resp [] = Some (ag, resp, USP_OK)"
| "create_expressions env allow_partial ag resp (cr # crs) =
    (case CreateExpressionObjects env ag resp cr allow_partial of
       None \<Rightarrow> None
     | Some (ag1, resp1, r) \<Rightarrow>
        if \<not> allow_partial \<and> r \<noteq> USP_OK then Some (ag1, resp1, r)
        else create_expressions env allow_partial ag1 resp1 crs)"

definition MSG_HANDLER_HandleAdd :: "msg_env \<Rightarrow> agent \<Rightarrow> cstr \<Rightarrow> add_req option \<Rightarrow> (agent \<times> created_obj_result list usp_msg) option" where
  "MSG_HANDLER_HandleAdd env ag msg_id request =
    (case request of
       None \<Rightarrow> Some (ag, ERROR_RESP_CreateSingle msg_id USP_ERR_MESSAGE_NOT_UNDERSTOOD [])
     | Some add \<Rightarrow>
        if add_create_objs add = [] then Some (ag, CreateAddResp msg_id)
        else if add_allow_partial add then
          (case create_expressions env True ag no_results (add_create_objs add) of
             None \<Rightarrow> None
           | Some (ag1, resp, _) \<Rightarrow> Some (ag1, Response msg_id (ar_results resp)))
        else
          ag_case (DM_TRANS_Start (me_trans env) ag)
            (\<lambda>ag1 err. Some (ag1, ERROR_RESP_CreateSingle msg_id err []))
            (\<lambda>ag1 _.
              case create_expressions env False ag1 no_results (add_create_objs add) of
                None \<Rightarrow> None
              | Some (ag2, resp, Inl err) \<Rightarrow>
                  (let param_errs = ParamError_FromAddRespToErrResp resp;
                       msg = ERROR_RESP_CreateSingle msg_id (ERROR_RESP_CalcOuterErrCode (length param_errs) err) param_errs
                   in case DM_TRANS_Abort (me_trans env) ag2 of
                        None \<Rightarrow> None
                      | Some (ag3, _) \<Rightarrow> Some (ag3, msg))
              | Some (ag2, resp, Inr _) \<Rightarrow>
                  ag_case (commit env ag2)
                    (\<lambda>ag3 err. Some (ag3, ERROR_RESP_CreateSingle msg_id err []))
                    (\<lambda>ag3 _. Some (ag3, Response msg_id (ar_results resp)))))"

section \<open>Steps of the agent\<close>

lemma add_object_settings_reads: "steps reads_only ag (add_object_settings env full_path len ag gsv pss)"
proof (induction pss arbitrary: ag gsv)
  case (Cons ps pss)
  show ?case unfolding add_object_settings.simps
    by (rule reads.steps_then [OF GROUP_SET_VECTOR_Add_reads]) (intro step_intros Cons.IH)
qed (simp add: step_intros)

lemma fill_object_writes: "steps writes_only ag (fill_object env ag full_path len cr)"
  unfolding fill_object_def
  by (rule steps_option; intro step_intros writes.steps_then [OF steps_reads_writes [OF add_object_settings_reads]]
      writes.steps_then [OF SetValues_writes] steps_sum steps_reads_writes [OF GetUniqueKeyParams_reads])

lemma CreateObject_writes: "steps writes_only ag (CreateObject env ag obj_path resp cr partial)"
  unfolding CreateObject_def Let_def
  by (intro step_intros steps_option writes.steps_then [OF fill_object_writes] steps_sum)

lemma create_objects_writes: "steps writes_only ag (create_objects env ag resp cr False paths)"
proof (induction paths arbitrary: ag resp)
  case (Cons path paths)
  have one: "steps writes_only ag1 (CreateObject_Trans env ag1 p r cr False)" for ag1 p r
    unfolding CreateObject_Trans_def by (simp add: CreateObject_writes)
  show ?case unfolding create_objects.simps
    by (rule writes.steps_then [OF one]) (intro step_intros steps_sum Cons.IH)
qed (simp add: step_intros)

lemma CreateExpressionObjects_writes: "steps writes_only ag (CreateExpressionObjects env ag resp cr False)"
  unfolding CreateExpressionObjects_def
  by (intro step_intros create_objects_writes steps_reads_writes [OF resolve_paths_reads]) (simp add: plain_ops_def permit_ops_def)

lemma create_expressions_writes: "steps writes_only ag (create_expressions env False ag resp crs)"
proof (induction crs arbitrary: ag resp)
  case (Cons cr crs)
  show ?case unfolding create_expressions.simps
    by (rule writes.steps_then [OF CreateExpressionObjects_writes]) (intro step_intros Cons.IH)
qed (simp add: step_intros)

lemma CreateObject_Trans_tree:
  assumes "notify_keeps_tree (me_notify env)"
  shows "steps tree_only ag (CreateObject_Trans env ag path resp cr partial)"
  unfolding CreateObject_Trans_def
  by (intro step_intros tree.steps_then [OF steps_writes_tree [OF CreateObject_writes]] steps_writes_tree [OF CreateObject_writes]
      steps_sum Abort_then Commit_tree [OF assms])

lemma create_objects_tree:
  assumes "notify_keeps_tree (me_notify env)"
  shows "steps tree_only ag (create_objects env ag resp cr partial paths)"
proof (induction paths arbitrary: ag resp)
  case (Cons path paths)
  show ?case unfolding create_objects.simps
    by (rule tree.steps_then [OF CreateObject_Trans_tree [OF assms]]) (intro step_intros steps_sum Cons.IH)
qed (simp add: step_intros)

lemma CreateExpressionObjects_tree:
  assumes "notify_keeps_tree (me_notify env)"
  shows "steps tree_only ag (CreateExpressionObjects env ag resp cr partial)"
  unfolding CreateExpressionObjects_def
  by (intro step_intros create_objects_tree [OF assms] steps_reads_tree [OF resolve_paths_reads]) (simp add: plain_ops_def permit_ops_def)

lemma create_expressions_tree:
  assumes "notify_keeps_tree (me_notify env)"
  shows "steps tree_only ag (create_expressions env partial ag resp crs)"
proof (induction crs arbitrary: ag resp)
  case (Cons cr crs)
  show ?case unfolding create_expressions.simps
    by (rule tree.steps_then [OF CreateExpressionObjects_tree [OF assms]]) (intro step_intros Cons.IH)
qed (simp add: step_intros)

lemma HandleAdd_tree:
  assumes "notify_keeps_tree (me_notify env)"
  shows "steps tree_only ag (MSG_HANDLER_HandleAdd env ag msg_id request)"
  unfolding MSG_HANDLER_HandleAdd_def Let_def
  by (rule steps_option; intro step_intros tree.steps_then [OF create_expressions_tree [OF assms]] Abort_then Commit_tree [OF assms] steps_sum)

section \<open>The results of the response\<close>

text \<open>One result for one object: a failure, or a success whose failed settings were not required.\<close>

definition created_result :: "agent \<Rightarrow> msg_env \<Rightarrow> create_obj \<Rightarrow> created_obj_result \<Rightarrow> bool" where
  "created_result ag env cr res \<longleftrightarrow> co_requested_path res = cr_obj_path cr \<and>
    (case co_status res of
       Add_Failure _ \<Rightarrow> True
     | Add_Success success \<Rightarrow>
        (\<exists>obj c n. instantiated_path success = obj @ ''.'' @ show_int n @ ''.'' \<and>
          found_param (dm ag) (resolve_state env kResolveOp_Add FULL_DEPTH 0) obj c) \<and>
        (\<forall>(k, e)\<in>set (add_param_errs success). \<exists>ps\<in>set (cr_param_settings cr). ps_param ps = k \<and> \<not> ps_required ps))"

lemma created_result_later: "created_result ag env cr res \<Longrightarrow> tree_only ag ag' \<Longrightarrow> created_result ag' env cr res"
  unfolding created_result_def tree_only_def using same_tree_found_param
  by (auto split: add_status.splits) metis

lemma note_created_errs:
  "note_created xs success = Inr success' \<Longrightarrow> instantiated_path success' = instantiated_path success \<and>
    (\<forall>(k, e)\<in>set (add_param_errs success'). (k, e) \<in> set (add_param_errs success) \<or>
      (\<exists>(ps, gse)\<in>set xs. ps_param ps = k \<and> \<not> ps_required ps))"
proof (induction xs success rule: note_created.induct)
  case (2 ps gse rest success)
  then show ?case
    by (cases "gs_err gse") (fastforce simp: AddResp_OperSuccess_ParamErr_def split: if_splits)+
qed simp

lemma fill_object_success:
  assumes "fill_object env ag full_path len cr = Some (ag', Inr success)"
  shows "TEXT_UTILS_StrDupWithTrailingDot full_path = Some (instantiated_path success)"
    "\<forall>(k, e)\<in>set (add_param_errs success). \<exists>ps\<in>set (cr_param_settings cr). ps_param ps = k \<and> \<not> ps_required ps"
proof -
  obtain success0 gsv success1 kvv where s: "new_success full_path = Some success0"
    "note_created (zip (cr_param_settings cr) gsv) success0 = Inr success1" "success = AddOperSuccess_UniqueKeys kvv success1"
    using assms unfolding fill_object_def by (auto elim!: ag_case_Some split: option.splits sum.splits)
  show "TEXT_UTILS_StrDupWithTrailingDot full_path = Some (instantiated_path success)"
    using note_created_errs [OF s(2)] s(1,3) by (auto simp: new_success_def AddOperSuccess_UniqueKeys_def)
  have "add_param_errs success0 = []" using s(1) by (auto simp: new_success_def)
  then show "\<forall>(k, e)\<in>set (add_param_errs success). \<exists>ps\<in>set (cr_param_settings cr). ps_param ps = k \<and> \<not> ps_required ps"
    using note_created_errs [OF s(2)] by (fastforce simp: s(3) AddOperSuccess_UniqueKeys_def dest: set_zip_leftD)
qed

lemma instance_path_dot: "TEXT_UTILS_StrDupWithTrailingDot (obj @ ''.'' @ show_int n) = Some (obj @ ''.'' @ show_int n @ ''.'')"
proof -
  have ne: "show_int n \<noteq> []" by (simp add: show_int_def show_nat_nonempty)
  then have "last (show_int n) \<in> set (show_int n)" by simp
  then have "last (show_int n) \<noteq> CHR ''.''" using show_int_chars [of "last (show_int n)" n] by (auto simp: IS_NUMERIC_def)
  then show ?thesis using ne by (simp add: TEXT_UTILS_StrDupWithTrailingDot_def)
qed

lemma CreateObject_result:
  assumes "CreateObject env ag obj resp cr partial = Some (ag', resp', r)"
    "found_param (dm ag) (resolve_state env kResolveOp_Add FULL_DEPTH 0) obj c" "partial \<or> r = USP_OK"
  shows "\<exists>res. ar_results resp' = ar_results resp @ [res] \<and> created_result ag' env cr res"
proof -
  let ?rs = "resolve_state env kResolveOp_Add FULL_DEPTH 0"
  from assms(1,3) consider e x where "resp' = AddResp_OperFailure resp (cr_obj_path cr) x e"
    | ag1 n len success where "fill_object env ag1 (obj @ ''.'' @ show_int n) len cr = Some (ag', Inr success)"
        "resp' = AddResp_OperSuccess resp (cr_obj_path cr) success"
    unfolding CreateObject_def Let_def USP_SNPRINTF_def
    by (auto elim!: ag_case_Some split: if_splits option.splits sum.splits simp: min_def)
  then show ?thesis
  proof cases
    case 1
    then show ?thesis by (simp add: AddResp_OperFailure_def created_result_def)
  next
    case 2
    note s = fill_object_success [OF 2(1)]
    have "same_tree (dm ag) (dm ag')"
      using stepsD [OF steps_writes_tree [OF CreateObject_writes] assms(1)] by (simp add: tree_only_def)
    then have "found_param (dm ag') ?rs obj c" by (rule same_tree_found_param [OF assms(2)])
    moreover have "instantiated_path success = obj @ ''.'' @ show_int n @ ''.''"
      using s(1) unfolding instance_path_dot by simp
    ultimately have "created_result ag' env cr \<lparr>co_requested_path = cr_obj_path cr, co_status = Add_Success success\<rparr>"
      using s(2) unfolding created_result_def by auto
    then show ?thesis using 2(2) by (simp add: AddResp_OperSuccess_def)
  qed
qed

lemma CreateObject_Trans_result:
  assumes "notify_keeps_tree (me_notify env)" "CreateObject_Trans env ag obj resp cr partial = Some (ag', resp', r)"
    "found_param (dm ag) (resolve_state env kResolveOp_Add FULL_DEPTH 0) obj c" "partial \<or> r = USP_OK"
  shows "\<exists>res. ar_results resp' = ar_results resp @ [res] \<and> created_result ag' env cr res"
proof (cases partial)
  case False
  then show ?thesis using CreateObject_result [of env ag obj resp cr False ag' resp' r c] assms(2-4)
    by (simp add: CreateObject_Trans_def)
next
  case True
  let ?rs = "resolve_state env kResolveOp_Add FULL_DEPTH 0"
  from assms(2) True consider e where "resp' = AddResp_OperFailure resp (cr_obj_path cr) None e"
    | ag1 u ag2 resp1 r1 where "DM_TRANS_Start (me_trans env) ag = Some (ag1, Inr u)"
       "CreateObject env ag1 obj resp cr True = Some (ag2, resp1, r1)"
       "resp' = resp1" "(\<exists>x. DM_TRANS_Abort (me_trans env) ag2 = Some (ag', x)) \<or> (\<exists>x. commit env ag2 = Some (ag', x))"
    | ag1 u ag2 resp1 r1 e where "DM_TRANS_Start (me_trans env) ag = Some (ag1, Inr u)"
       "CreateObject env ag1 obj resp cr True = Some (ag2, resp1, r1)"
       "resp' = AddResp_OperFailure (RemoveAddResp_LastCreatedObjResult resp1) (cr_obj_path cr) None e"
    unfolding CreateObject_Trans_def by (auto elim!: ag_case_Some split: option.splits sum.splits)
  then show ?thesis
  proof cases
    case 1
    then show ?thesis by (simp add: AddResp_OperFailure_def created_result_def)
  next
    case 2
    have "same_tree (dm ag) (dm ag1)" using stepsD [OF Start_tree 2(1)] by (simp add: tree_only_def)
    then obtain res where res: "ar_results resp1 = ar_results resp @ [res]" "created_result ag2 env cr res"
      using CreateObject_result [OF 2(2) same_tree_found_param [OF assms(3)]] by blast
    have "tree_only ag2 ag'" using 2(4) stepsD [OF Abort_tree] stepsD [OF Commit_tree [OF assms(1)]] by blast
    then show ?thesis using res created_result_later 2(3) by blast
  next
    case 3
    have "same_tree (dm ag) (dm ag1)" using stepsD [OF Start_tree 3(1)] by (simp add: tree_only_def)
    then obtain res where "ar_results resp1 = ar_results resp @ [res]"
      using CreateObject_result [OF 3(2) same_tree_found_param [OF assms(3)]] by blast
    then show ?thesis
      by (simp add: 3(3) AddResp_OperFailure_def RemoveAddResp_LastCreatedObjResult_def created_result_def)
  qed
qed

text \<open>The results of a part of the response are those of one expression.\<close>

definition block_of :: "agent \<Rightarrow> msg_env \<Rightarrow> create_obj \<Rightarrow> created_obj_result list \<Rightarrow> bool" where
  "block_of ag env cr block \<longleftrightarrow> block \<noteq> [] \<and> (\<forall>res\<in>set block. created_result ag env cr res)"

lemma create_objects_results:
  assumes "notify_keeps_tree (me_notify env)"
  shows "create_objects env ag resp cr partial objs = Some (ag', resp', r) \<Longrightarrow>
    \<forall>obj\<in>set objs. \<exists>c. found_param (dm ag) (resolve_state env kResolveOp_Add FULL_DEPTH 0) obj c \<Longrightarrow> partial \<or> r = USP_OK \<Longrightarrow>
    \<exists>new. ar_results resp' = ar_results resp @ new \<and> (\<forall>res\<in>set new. created_result ag' env cr res) \<and> (objs \<noteq> [] \<longrightarrow> new \<noteq> [])"
proof (induction objs arbitrary: ag resp)
  case (Cons obj objs)
  obtain ag1 resp1 r1 where e: "CreateObject_Trans env ag obj resp cr partial = Some (ag1, resp1, r1)"
    "(case r1 of Inl err \<Rightarrow> Some (ag1, resp1, Inl err) | Inr _ \<Rightarrow> create_objects env ag1 resp1 cr partial objs) = Some (ag', resp', r)"
    using Cons.prems(1) by (auto split: option.splits)
  have t: "tree_only ag ag1" by (rule stepsD [OF CreateObject_Trans_tree [OF assms] e(1)])
  obtain c where c: "found_param (dm ag) (resolve_state env kResolveOp_Add FULL_DEPTH 0) obj c" using Cons.prems(2) by auto
  have "partial \<or> r1 = USP_OK" using e(2) Cons.prems(3) by (auto split: sum.splits)
  from CreateObject_Trans_result [OF assms e(1) c this]
  obtain res where res: "ar_results resp1 = ar_results resp @ [res]" "created_result ag1 env cr res" by blast
  show ?case
  proof (cases r1)
    case (Inl err)
    then show ?thesis using e(2) res by auto
  next
    case (Inr u)
    then have rest: "create_objects env ag1 resp1 cr partial objs = Some (ag', resp', r)" using e(2) by simp
    have "\<forall>obj\<in>set objs. \<exists>c. found_param (dm ag1) (resolve_state env kResolveOp_Add FULL_DEPTH 0) obj c"
      using Cons.prems(2) same_tree_found_param t unfolding tree_only_def by (meson list.set_intros(2))
    from Cons.IH [OF rest this Cons.prems(3)] obtain new where "ar_results resp' = ar_results resp1 @ new"
      "\<forall>res\<in>set new. created_result ag' env cr res" by blast
    moreover have "tree_only ag1 ag'" by (rule stepsD [OF create_objects_tree [OF assms] rest])
    ultimately show ?thesis using res created_result_later [OF res(2)] by auto
  qed
qed simp

lemma CreateExpressionObjects_results:
  assumes "notify_keeps_tree (me_notify env)" "CreateExpressionObjects env ag resp cr partial = Some (ag', resp', r)"
    "partial \<or> r = USP_OK"
  shows "\<exists>block. ar_results resp' = ar_results resp @ block \<and> block_of ag' env cr block"
proof -
  from assms(2) consider e where "resp' = AddResp_OperFailure resp (cr_obj_path cr) None e"
    | ag1 objs where "resolve_paths env kResolveOp_Add ag (cr_obj_path cr) = Some (ag1, Inr objs)" "objs \<noteq> []"
        "create_objects env ag1 resp cr partial objs = Some (ag', resp', r)"
    unfolding CreateExpressionObjects_def by (auto elim!: ag_case_Some split: if_splits)
  then show ?thesis
  proof cases
    case 1
    then show ?thesis by (simp add: AddResp_OperFailure_def block_of_def created_result_def)
  next
    case 2
    have "\<forall>obj\<in>set objs. \<exists>c. found_param (dm ag1) (resolve_state env kResolveOp_Add FULL_DEPTH 0) obj c"
      using resolve_paths_found [OF _ 2(1)] by (auto simp: plain_ops_def permit_ops_def)
    from create_objects_results [OF assms(1) 2(3) this assms(3)] 2(2) show ?thesis by (auto simp: block_of_def)
  qed
qed

lemma block_of_later: "block_of ag env cr block \<Longrightarrow> tree_only ag ag' \<Longrightarrow> block_of ag' env cr block"
  unfolding block_of_def using created_result_later by blast

lemma create_expressions_results:
  assumes "notify_keeps_tree (me_notify env)"
  shows "create_expressions env partial ag resp crs = Some (ag', resp', r) \<Longrightarrow> partial \<or> r = USP_OK \<Longrightarrow>
    \<exists>blocks. ar_results resp' = ar_results resp @ concat blocks \<and> list_all2 (block_of ag' env) crs blocks"
proof (induction crs arbitrary: ag resp)
  case (Cons cr crs)
  obtain ag1 resp1 r1 where e: "CreateExpressionObjects env ag resp cr partial = Some (ag1, resp1, r1)"
    "(if \<not> partial \<and> r1 \<noteq> USP_OK then Some (ag1, resp1, r1) else create_expressions env partial ag1 resp1 crs) = Some (ag', resp', r)"
    using Cons.prems(1) by (auto split: option.splits)
  then have rest: "create_expressions env partial ag1 resp1 crs = Some (ag', resp', r)" "partial \<or> r1 = USP_OK"
    using Cons.prems(2) by (auto split: if_splits)
  obtain block where b: "ar_results resp1 = ar_results resp @ block" "block_of ag1 env cr block"
    using CreateExpressionObjects_results [OF assms e(1) rest(2)] by blast
  obtain blocks where bs: "ar_results resp' = ar_results resp1 @ concat blocks" "list_all2 (block_of ag' env) crs blocks"
    using Cons.IH [OF rest(1) Cons.prems(2)] by blast
  have "tree_only ag1 ag'" by (rule stepsD [OF create_expressions_tree [OF assms] rest(1)])
  then have "list_all2 (block_of ag' env) (cr # crs) (block # blocks)" using bs(2) block_of_later [OF b(2)] by simp
  moreover have "ar_results resp' = ar_results resp @ concat (block # blocks)" using b(1) bs(1) by simp
  ultimately show ?case by blast
qed simp

section \<open>Properties\<close>

text \<open>
  C6: an Add that is answered with an error has not changed the database: the objects and defaults that
  had been added when it failed are gone.
\<close>

theorem HandleAdd_all_or_nothing:
  assumes "MSG_HANDLER_HandleAdd env ag msg_id request = Some (ag', Error_Response mid err errs)" "cur_transaction ag = None"
  shows "rows (db ag') = rows (db ag)"
proof -
  from assms(1) consider "ag' = ag"
    | e where "DM_TRANS_Start (me_trans env) ag = Some (ag', Inl e)"
    | ag1 u ag2 r crs e x where "DM_TRANS_Start (me_trans env) ag = Some (ag1, Inr u)"
        "create_expressions env False ag1 no_results crs = Some (ag2, r, e)" "DM_TRANS_Abort (me_trans env) ag2 = Some (ag', x)"
    | ag1 u ag2 r crs e x where "DM_TRANS_Start (me_trans env) ag = Some (ag1, Inr u)"
        "create_expressions env False ag1 no_results crs = Some (ag2, r, e)" "commit env ag2 = Some (ag', Inl x)"
    by (auto simp: MSG_HANDLER_HandleAdd_def Let_def CreateAddResp_def elim!: ag_case_Some
        split: option.splits if_splits sum.splits prod.splits)
  then show ?thesis
  proof cases
    case 2
    then show ?thesis using failed_start assms(2) by blast
  next
    case 3
    then show ?thesis using aborted_message [OF 3(1) assms(2) stepsD [OF create_expressions_writes 3(2)] 3(3)] by blast
  next
    case 4
    then show ?thesis using failed_commit [OF 4(1) assms(2) stepsD [OF create_expressions_writes 4(2)]] by blast
  qed simp
qed

theorem HandleAdd_all_or_nothing_witness:
  "\<exists>ag'. MSG_HANDLER_HandleAdd (demo_msg_env no_hooks) idle_agent ''1''
      (Some \<lparr>add_create_objs = [\<lparr>cr_obj_path = ''X'', cr_param_settings = []\<rparr>], add_allow_partial = False\<rparr>) =
      Some (ag', Error_Response ''1'' USP_ERR_INVALID_ARGUMENTS [\<lparr>pe_path = ''X'', pe_code = USP_ERR_INVALID_PATH\<rparr>]) \<and>
    rows (db ag') = rows (db idle_agent)"
proof -
  obtain ag' x where a: "DM_TRANS_Abort no_hooks started_agent = Some (ag', x)"
    by (cases "DATABASE_AbortTransaction (db started_agent)") (simp add: DM_TRANS_Abort_def idle_facts(4) Let_def)
  have h: "MSG_HANDLER_HandleAdd (demo_msg_env no_hooks) idle_agent ''1''
      (Some \<lparr>add_create_objs = [\<lparr>cr_obj_path = ''X'', cr_param_settings = []\<rparr>], add_allow_partial = False\<rparr>) =
      Some (ag', Error_Response ''1'' USP_ERR_INVALID_ARGUMENTS [\<lparr>pe_path = ''X'', pe_code = USP_ERR_INVALID_PATH\<rparr>])"
    by (simp add: MSG_HANDLER_HandleAdd_def idle_start CreateExpressionObjects_def demo_bad_path plain_ops_def permit_ops_def
        AddResp_OperFailure_def no_results_def STR_VECTOR_Add_def ParamError_FromAddRespToErrResp_def USP_SNPRINTF_def MAX_DM_PATH_def
        CreateSingle_message ERROR_RESP_CalcOuterErrCode_def argument_errors_def Let_def a)
  show ?thesis using h HandleAdd_all_or_nothing [OF h idle_facts(2)] by blast
qed

text \<open>
  C15: an Add that is answered with a response has results for every object to create, in the order of
  the request: a block that is not empty for each, of failures and of successes. A success is an
  instance of a table of the data model in which the controller may add objects, and the settings
  that failed were not required.
\<close>

theorem HandleAdd_results:
  assumes "MSG_HANDLER_HandleAdd env ag msg_id (Some add) = Some (ag', Response mid results)" "notify_keeps_tree (me_notify env)"
  shows "\<exists>blocks. results = concat blocks \<and> list_all2 (block_of ag' env) (add_create_objs add) blocks"
proof -
  from assms(1) consider "results = []" "add_create_objs add = []"
    | resp r where "create_expressions env True ag no_results (add_create_objs add) = Some (ag', resp, r)" "results = ar_results resp"
    | ag1 ag2 resp u x where "create_expressions env False ag1 no_results (add_create_objs add) = Some (ag2, resp, Inr u)"
        "commit env ag2 = Some (ag', x)" "results = ar_results resp"
    by (auto simp: MSG_HANDLER_HandleAdd_def Let_def CreateAddResp_def CreateSingle_message elim!: ag_case_Some
        split: option.splits if_splits sum.splits prod.splits)
  then show ?thesis
  proof cases
    case 1
    then show ?thesis by (intro exI [of _ "[]"]) simp
  next
    case 2
    then show ?thesis using create_expressions_results [OF assms(2) 2(1)] by (simp add: no_results_def)
  next
    case 3
    have t: "tree_only ag2 ag'" using stepsD [OF Commit_tree [OF assms(2)] 3(2)] .
    obtain blocks where b: "results = concat blocks" "list_all2 (block_of ag2 env) (add_create_objs add) blocks"
      using create_expressions_results [OF assms(2) 3(1)] 3(3) by (auto simp: no_results_def)
    from b(2) have "list_all2 (block_of ag' env) (add_create_objs add) blocks"
      by (rule list_all2_mono) (rule block_of_later [OF _ t])
    then show ?thesis using b(1) by blast
  qed
qed

text \<open>
  With partial results allowed, each object has its transaction: one that is reported as failed has
  left the database as it was, also when its transaction could not be started or committed.
\<close>

theorem partial_add_failure_untouched:
  assumes "cur_transaction ag = None"
    "CreateObject_Trans env ag obj resp cr True = Some (ag', resp', r)"
    "ar_results resp' = ar_results resp @ [\<lparr>co_requested_path = p, co_status = Add_Failure e\<rparr>]"
  shows "rows (db ag') = rows (db ag)"
proof -
  have ok: "\<exists>success. ar_results resp1 = ar_results resp @ [\<lparr>co_requested_path = cr_obj_path cr, co_status = Add_Success success\<rparr>]"
    if "CreateObject env ag1 obj resp cr True = Some (ag2, resp1, Inr u)" for ag1 ag2 resp1 u
    using that unfolding CreateObject_def Let_def
    by (auto simp: AddResp_OperSuccess_def elim!: ag_case_Some split: option.splits sum.splits if_splits prod.splits)
  from assms(2) consider x where "DM_TRANS_Start (me_trans env) ag = Some (ag', Inl x)"
    | ag1 u ag2 resp1 r1 x where "DM_TRANS_Start (me_trans env) ag = Some (ag1, Inr u)"
        "CreateObject env ag1 obj resp cr True = Some (ag2, resp1, r1)" "DM_TRANS_Abort (me_trans env) ag2 = Some (ag', x)"
    | ag1 u ag2 resp1 r1 x where "DM_TRANS_Start (me_trans env) ag = Some (ag1, Inr u)"
        "CreateObject env ag1 obj resp cr True = Some (ag2, resp1, r1)" "commit env ag2 = Some (ag', Inl x)"
    | ag1 ag2 u where "CreateObject env ag1 obj resp cr True = Some (ag2, resp', Inr u)"
    unfolding CreateObject_Trans_def by (auto elim!: ag_case_Some split: option.splits sum.splits)
  then show ?thesis
  proof cases
    case 1
    then show ?thesis using failed_start assms(1) by blast
  next
    case 2
    then show ?thesis using aborted_message [OF 2(1) assms(1) stepsD [OF CreateObject_writes 2(2)] 2(3)] by blast
  next
    case 3
    then show ?thesis using failed_commit [OF 3(1) assms(1) stepsD [OF CreateObject_writes 3(2)] 3(3)] by blast
  next
    case 4
    then show ?thesis using ok [OF 4] assms(3) by auto
  qed
qed

text \<open>
  Without partial results, an object to create whose expression is empty or stands for no table
  does not stop the message: its failure is noted in the response, the call is successful, and the
  objects after it are created and committed with those before it.
\<close>

theorem add_without_tables_goes_on:
  assumes "cr_obj_path cr = [] \<and> ag1 = ag \<or> cr_obj_path cr \<noteq> [] \<and> resolve_paths env kResolveOp_Add ag (cr_obj_path cr) = Some (ag1, Inr [])"
  shows "create_expressions env False ag resp (cr # crs) =
    create_expressions env False ag1 (AddResp_OperFailure resp (cr_obj_path cr) None USP_ERR_INVALID_ARGUMENTS) crs"
  using assms by (auto simp: CreateExpressionObjects_def)

definition demo_create :: "cstr \<Rightarrow> create_obj" where
  "demo_create path = \<lparr>cr_obj_path = path, cr_param_settings = []\<rparr>"

theorem HandleAdd_results_witness:
  "\<exists>ag'. MSG_HANDLER_HandleAdd (demo_msg_env no_hooks) idle_agent ''1''
      (Some \<lparr>add_create_objs = [demo_create ''X'', demo_create []], add_allow_partial = True\<rparr>) =
      Some (ag', Response ''1'' [\<lparr>co_requested_path = ''X'', co_status = Add_Failure USP_ERR_INVALID_PATH\<rparr>,
        \<lparr>co_requested_path = [], co_status = Add_Failure USP_ERR_INVALID_ARGUMENTS\<rparr>]) \<and>
    (\<exists>blocks. length blocks = 2 \<and> concat blocks = [\<lparr>co_requested_path = ''X'', co_status = Add_Failure USP_ERR_INVALID_PATH\<rparr>,
        \<lparr>co_requested_path = [], co_status = Add_Failure USP_ERR_INVALID_ARGUMENTS\<rparr>])"
proof -
  let ?rs = "[\<lparr>co_requested_path = ''X'', co_status = Add_Failure USP_ERR_INVALID_PATH\<rparr>,
        \<lparr>co_requested_path = [], co_status = Add_Failure USP_ERR_INVALID_ARGUMENTS\<rparr>]"
  have h: "MSG_HANDLER_HandleAdd (demo_msg_env no_hooks) idle_agent ''1''
      (Some \<lparr>add_create_objs = [demo_create ''X'', demo_create []], add_allow_partial = True\<rparr>) = Some (idle_agent, Response ''1'' ?rs)"
    by (simp add: MSG_HANDLER_HandleAdd_def CreateExpressionObjects_def demo_bad_path plain_ops_def permit_ops_def demo_create_def
        AddResp_OperFailure_def no_results_def)
  obtain blocks where "?rs = concat blocks" "length blocks = 2"
    using HandleAdd_results [OF h] by (auto simp: demo_notify dest: list_all2_lengthD)
  then show ?thesis using h by metis
qed

theorem partial_add_failure_untouched_witness:
  "\<exists>ag' resp'. CreateObject_Trans (demo_msg_env no_hooks) idle_agent ''X'' no_results (demo_create ''X.'') True = Some (ag', resp', USP_OK) \<and>
    ar_results resp' = [\<lparr>co_requested_path = ''X.'', co_status = Add_Failure USP_ERR_OBJECT_DOES_NOT_EXIST\<rparr>] \<and>
    rows (db ag') = rows (db idle_agent)"
proof -
  let ?resp = "AddResp_OperFailure no_results ''X.'' None USP_ERR_OBJECT_DOES_NOT_EXIST"
  obtain ag' x where a: "DM_TRANS_Abort no_hooks started_agent = Some (ag', x)"
    by (cases "DATABASE_AbortTransaction (db started_agent)") (simp add: DM_TRANS_Abort_def idle_facts(4) Let_def)
  have "DATA_MODEL_AddInstance demo_hooks started_agent ''X'' True CHECK_CREATABLE =
      Some (started_agent, Inl USP_ERR_OBJECT_DOES_NOT_EXIST)"
    by (simp add: DATA_MODEL_AddInstance_def MAX_DM_PATH_def demo_no_node idle_facts(3) ag_err_def)
  then have h: "CreateObject_Trans (demo_msg_env no_hooks) idle_agent ''X'' no_results (demo_create ''X.'') True = Some (ag', ?resp, USP_OK)"
    by (simp add: CreateObject_Trans_def idle_start CreateObject_def demo_create_def a)
  have "ar_results ?resp = ar_results no_results @ [\<lparr>co_requested_path = ''X.'', co_status = Add_Failure USP_ERR_OBJECT_DOES_NOT_EXIST\<rparr>]"
    by (simp add: AddResp_OperFailure_def)
  from partial_add_failure_untouched [OF idle_facts(2) h this] this show ?thesis using h by (auto simp: no_results_def)
qed

theorem add_without_tables_goes_on_witness:
  "create_expressions (demo_msg_env no_hooks) False started_agent no_results [demo_create []] =
    Some (started_agent, \<lparr>ar_results = [\<lparr>co_requested_path = [], co_status = Add_Failure USP_ERR_INVALID_ARGUMENTS\<rparr>],
      ar_param_names = [[]]\<rparr>, USP_OK)"
proof -
  have "cr_obj_path (demo_create []) = [] \<and> started_agent = started_agent" by (simp add: demo_create_def)
  from add_without_tables_goes_on [of "demo_create []" started_agent started_agent "demo_msg_env no_hooks" no_results "[]"] this
  show ?thesis by (simp add: AddResp_OperFailure_def no_results_def STR_VECTOR_Add_def demo_create_def)
qed

end
