(* ===== verification/Msg_Get.thy ===== *)
theory Msg_Get
  imports Usp_Msg
begin

text \<open>
  The Get message (\<open>core/handle_get.c\<close>): the parameters of all paths of the request go into one vector,
  with the place of each path in it; they are read together, and the response has a result for each
  path, in which the values are collected by the object they are in.
\<close>

section \<open>Request and response\<close>

record get_req =
  get_param_paths :: "cstr list"
  get_max_depth :: "32 word"

text \<open>A value is \<open>None\<close> where the code copies a null pointer.\<close>

record resolved_path_result =
  rp_resolved_path :: cstr
  rp_result_params :: "(cstr \<times> cstr option) list"

record requested_path_result =
  gr_requested_path :: cstr
  gr_err :: "usp_err option"
  gr_resolved :: "resolved_path_result list"

type_synonym get_resp = "requested_path_result list"

definition CreateGetResp :: "cstr \<Rightarrow> get_resp usp_msg" where
  "CreateGetResp msg_id = Response msg_id []"

definition AddGetResp_ReqPathRes :: "cstr \<Rightarrow> usp_err option \<Rightarrow> requested_path_result" where
  "AddGetResp_ReqPathRes requested_path err_code = \<lparr>gr_requested_path = requested_path, gr_err = err_code, gr_resolved = []\<rparr>"

definition AddReqPathRes_ResolvedPathResult :: "cstr \<Rightarrow> resolved_path_result list \<Rightarrow> resolved_path_result list" where
  "AddReqPathRes_ResolvedPathResult obj_path results = results @ [\<lparr>rp_resolved_path = obj_path, rp_result_params = []\<rparr>]"

definition AddResolvedPathRes_ParamsEntry :: "cstr \<Rightarrow> cstr option \<Rightarrow> resolved_path_result \<Rightarrow> resolved_path_result" where
  "AddResolvedPathRes_ParamsEntry param_name v rp = rp\<lparr>rp_result_params := rp_result_params rp @ [(param_name, v)]\<rparr>"

definition RESOLVED_PATH_SEARCH_LIMIT :: nat where "RESOLVED_PATH_SEARCH_LIMIT = 10"

text \<open>The search from the last result back, over at most as many results as the limit.\<close>

definition FindResolvedPath :: "resolved_path_result list \<Rightarrow> cstr \<Rightarrow> nat option" where
  "FindResolvedPath results obj_path =
    find (\<lambda>i. rp_resolved_path (results ! i) = obj_path)
      (rev [length results - RESOLVED_PATH_SEARCH_LIMIT..<length results])"

definition AddResolvedPathResult :: "cstr \<Rightarrow> cstr option \<Rightarrow> resolved_path_result list \<Rightarrow> resolved_path_result list" where
  "AddResolvedPathResult path v results =
    (let (obj_path, param_name) = TEXT_UTILS_SplitPath path MAX_DM_PATH
     in case FindResolvedPath results obj_path of
          Some i \<Rightarrow> results[i := AddResolvedPathRes_ParamsEntry param_name v (results ! i)]
        | None \<Rightarrow>
           (let added = AddReqPathRes_ResolvedPathResult obj_path results
            in added[length results := AddResolvedPathRes_ParamsEntry param_name v (added ! length results)]))"

section \<open>Expanding and answering the paths\<close>

record get_expr_info =
  gi_index :: nat
  gi_num_entries :: nat
  gi_err :: "usp_err option"

text \<open>\<open>None\<close>: the vectors of paths and of groups do not have the same length.\<close>

definition ExpandGetPathExpression ::
    "msg_env \<Rightarrow> int \<Rightarrow> agent \<Rightarrow> cstr \<Rightarrow> group_get_vector \<Rightarrow> (agent \<times> get_expr_info \<times> group_get_vector) option" where
  "ExpandGetPathExpression env depth ag path_expr ggv =
    ag_case (PATH_RESOLVER_ResolveDevicePath (me_nesting env) (me_resolver env) (resolve_state env kResolveOp_Get depth 0) ag path_expr
        (Some [], Some []))
      (\<lambda>ag1 err. Some (ag1, \<lparr>gi_index = 0, gi_num_entries = 0, gi_err = Some err\<rparr>, ggv))
      (\<lambda>ag1 (params, group_ids).
        let gi = \<lparr>gi_index = length ggv, gi_num_entries = length (the params), gi_err = None\<rparr>
        in if the params = [] then Some (ag1, gi, ggv)
           else map_option (\<lambda>ggv1. (ag1, gi, ggv1)) (GROUP_GET_VECTOR_AddParams ggv (the params) (the group_ids)))"

fun expand_get_paths ::
    "msg_env \<Rightarrow> int \<Rightarrow> agent \<Rightarrow> group_get_vector \<Rightarrow> cstr list \<Rightarrow> (agent \<times> get_expr_info list \<times> group_get_vector) option" where
  "expand_get_paths env depth ag ggv [] = Some (ag, [], ggv)"
| "expand_get_paths env depth ag ggv (path # paths) =
    (case ExpandGetPathExpression env depth ag path ggv of
       None \<Rightarrow> None
     | Some (ag1, gi, ggv1) \<Rightarrow>
        (case expand_get_paths env depth ag1 ggv1 paths of
           None \<Rightarrow> None
         | Some (ag2, gis, ggv2) \<Rightarrow> Some (ag2, gi # gis, ggv2)))"

definition FormPathExprResponse :: "cstr \<Rightarrow> get_expr_info \<Rightarrow> group_get_vector \<Rightarrow> requested_path_result" where
  "FormPathExprResponse path_expr gi ggv =
    (let gges = take (gi_num_entries gi) (drop (gi_index gi) ggv)
     in case gi_err gi of
          Some e \<Rightarrow> AddGetResp_ReqPathRes path_expr (Some e)
        | None \<Rightarrow>
           (case find (\<lambda>gge. gg_err gge \<noteq> None) gges of
              Some gge \<Rightarrow> AddGetResp_ReqPathRes path_expr (gg_err gge)
            | None \<Rightarrow> (AddGetResp_ReqPathRes path_expr None)\<lparr>gr_resolved :=
                fold (\<lambda>gge results. AddResolvedPathResult (gg_path gge) (gg_value gge) results) gges []\<rparr>))"

definition MSG_HANDLER_HandleGet :: "msg_env \<Rightarrow> agent \<Rightarrow> cstr \<Rightarrow> get_req option \<Rightarrow> (agent \<times> get_resp usp_msg) option" where
  "MSG_HANDLER_HandleGet env ag msg_id request =
    (case request of
       None \<Rightarrow> Some (ag, ERROR_RESP_CreateSingle msg_id USP_ERR_MESSAGE_NOT_UNDERSTOOD [])
     | Some get \<Rightarrow>
        if get_param_paths get = [] then Some (ag, CreateGetResp msg_id)
        else
         let depth = (if get_max_depth get = 0 then FULL_DEPTH else sint (get_max_depth get))
         in case expand_get_paths env depth ag GROUP_GET_VECTOR_Init (get_param_paths get) of
              None \<Rightarrow> None
            | Some (ag1, gis, ggv) \<Rightarrow>
               (case GROUP_GET_VECTOR_GetValues (me_hooks env) ag1 ggv of
                  None \<Rightarrow> None
                | Some (ag2, ggv1) \<Rightarrow>
                   Some (ag2, Response msg_id (map (\<lambda>(path, gi). FormPathExprResponse path gi ggv1) (zip (get_param_paths get) gis)))))"

section \<open>Steps of the agent\<close>

lemma get_resolve_reads: "steps reads_only ag (PATH_RESOLVER_ResolveDevicePath n renv (resolve_state env kResolveOp_Get depth 0) ag path found)"
  by (rule ResolveDevicePath_reads) (simp add: resolve_state_def plain_ops_def permit_ops_def reading_ops_def)

lemma ExpandGetPathExpression_reads: "steps reads_only ag (ExpandGetPathExpression env depth ag path ggv)"
  unfolding ExpandGetPathExpression_def Let_def
  by (intro step_intros get_resolve_reads)

lemma expand_get_paths_reads: "steps reads_only ag (expand_get_paths env depth ag ggv paths)"
proof (induction paths arbitrary: ag ggv)
  case (Cons path paths)
  show ?case unfolding expand_get_paths.simps
    by (rule reads.steps_then [OF ExpandGetPathExpression_reads])
       (intro step_intros reads.steps_then [OF Cons.IH])
qed (simp add: step_intros)

lemma HandleGet_reads: "steps reads_only ag (MSG_HANDLER_HandleGet env ag msg_id request)"
  unfolding MSG_HANDLER_HandleGet_def Let_def
  by (rule steps_option; intro step_intros reads.steps_then [OF expand_get_paths_reads] GetValues_then)

section \<open>What reading the values leaves\<close>

lemma store_values_entry:
  "distinct iv \<Longrightarrow> j \<in> set iv \<Longrightarrow> j < length ggv \<Longrightarrow> \<exists>v. store_values ggv iv vs ! j = set_entry v (ggv ! j)"
proof (induction ggv iv vs rule: store_values.induct)
  case (2 ggv i iv)
  then show ?case by (cases "j = i") (auto simp: store_values_other)
next
  case (3 ggv i iv v vs)
  then show ?case by (cases "j = i") (auto simp: store_values_other)
qed simp

lemma get_group_entry:
  assumes "j < length ggv"
  shows "if gg_group (ggv ! j) = int g then \<exists>v. get_group h g ggv ! j = set_entry v (ggv ! j) else get_group h g ggv ! j = ggv ! j"
proof -
  let ?iv = "group_indexes ggv (int g)"
  have "distinct ?iv" and m: "j \<in> set ?iv \<longleftrightarrow> gg_group (ggv ! j) = int g"
    using assms by (auto simp: group_indexes_def)
  then show ?thesis using assms store_values_entry [of ?iv j ggv] store_values_other [of j ?iv ggv]
    by (auto simp: get_group_def GetParameterGroup_def Let_def split: option.splits sum.splits)
qed

text \<open>An entry that has been read: it has a value or an error, its path and its group are as before.\<close>

definition read_entry :: "group_get_entry \<Rightarrow> bool" where
  "read_entry gge \<longleftrightarrow> gg_err gge \<noteq> None \<or> gg_value gge \<noteq> None"

lemma read_set_entry [simp]: "read_entry (set_entry v gge)"
  by (simp add: read_entry_def set_entry_def split: option.split)

lemma fold_get_group_entry:
  "j < length ggv \<Longrightarrow> gg_group (fold (get_group h) gs ggv ! j) = gg_group (ggv ! j) \<and>
    gg_path (fold (get_group h) gs ggv ! j) = gg_path (ggv ! j) \<and>
    (read_entry (ggv ! j) \<or> gg_group (ggv ! j) \<in> int ` set gs \<longrightarrow> read_entry (fold (get_group h) gs ggv ! j))"
proof (induction gs arbitrary: ggv)
  case (Cons g gs)
  then show ?case using Cons.IH [of "get_group h g ggv"] get_group_entry [of j ggv g h]
    by (auto split: if_splits)
qed simp

lemma get_entry_read:
  assumes "get_entry h ag gge = Some (ag1, gge1)"
  shows "gg_path gge1 = gg_path gge" "read_entry gge1"
proof -
  obtain r where "gge1 = (case r of Inl e \<Rightarrow> gge\<lparr>gg_err := Some e\<rparr> | Inr v \<Rightarrow> gge\<lparr>gg_err := None, gg_value := Some v\<rparr>)"
    using assms by (auto simp: get_entry_def)
  then show "gg_path gge1 = gg_path gge" "read_entry gge1" by (cases r; simp add: read_entry_def)+
qed

lemma get_ungrouped_entries:
  "get_ungrouped h ag ggv = Some (ag', ggv') \<Longrightarrow>
    list_all2 (\<lambda>gge gge'. gg_path gge' = gg_path gge \<and> (gg_group gge' = NON_GROUPED \<longrightarrow> read_entry gge')) ggv ggv'"
proof (induction ggv arbitrary: ag ggv')
  case (Cons gge ggv)
  obtain ag1 gge1 ggv1 where e: "(if gg_group gge = NON_GROUPED then get_entry h ag gge
       else if 0 \<le> gg_group gge \<and> gg_group gge < int MAX_VENDOR_PARAM_GROUPS then Some (ag, gge) else None) = Some (ag1, gge1)"
    "get_ungrouped h ag1 ggv = Some (ag', ggv1)" "ggv' = gge1 # ggv1"
    using Cons.prems by (auto simp: bind_eq_Some_conv simp del: if_split)
  have "gg_path gge1 = gg_path gge \<and> (gg_group gge1 = NON_GROUPED \<longrightarrow> read_entry gge1)"
    using e(1) by (auto split: if_splits dest: get_entry_read)
  then show ?case using Cons.IH [OF e(2)] e(3) by simp
qed simp

lemma GetValues_entries:
  assumes "GROUP_GET_VECTOR_GetValues h ag ggv = Some (ag', ggv')"
  shows "map gg_path ggv' = map gg_path ggv" "\<forall>gge\<in>set ggv'. read_entry gge"
proof -
  obtain ggv1 where u: "get_ungrouped h ag ggv = Some (ag', ggv1)" "ggv' = fold (get_group h) [0..<MAX_VENDOR_PARAM_GROUPS] ggv1"
    using assms by (auto simp: GROUP_GET_VECTOR_GetValues_def)
  note e = get_ungrouped_entries [OF u(1)]
  have len: "length ggv1 = length ggv" using e by (simp add: list_all2_lengthD)
  have p: "gg_path (ggv' ! j) = gg_path (ggv ! j)" and r: "read_entry (ggv' ! j)" if "j < length ggv" for j
  proof -
    have j: "j < length ggv1" using that len by simp
    have range: "gg_group (ggv1 ! j) = NON_GROUPED \<or> (0 \<le> gg_group (ggv1 ! j) \<and> gg_group (ggv1 ! j) < int MAX_VENDOR_PARAM_GROUPS)"
      using get_ungrouped_in_range [OF u(1) nth_mem [OF j]] .
    have "gg_path (ggv1 ! j) = gg_path (ggv ! j)" "gg_group (ggv1 ! j) = NON_GROUPED \<longrightarrow> read_entry (ggv1 ! j)"
      using list_all2_nthD [OF e that] by simp_all
    moreover have "gg_group (ggv1 ! j) \<noteq> NON_GROUPED \<Longrightarrow> gg_group (ggv1 ! j) \<in> int ` set [0..<MAX_VENDOR_PARAM_GROUPS]"
      using range by (intro image_eqI [of _ _ "nat (gg_group (ggv1 ! j))"]) auto
    ultimately show "gg_path (ggv' ! j) = gg_path (ggv ! j)" "read_entry (ggv' ! j)"
      using fold_get_group_entry [OF j, of h "[0..<MAX_VENDOR_PARAM_GROUPS]"] unfolding u(2) by auto
  qed
  have l: "length ggv' = length ggv" using len u(2) by simp
  show "map gg_path ggv' = map gg_path ggv" by (rule nth_equalityI) (simp_all add: l p)
  show "\<forall>gge\<in>set ggv'. read_entry gge" using r l by (metis in_set_conv_nth)
qed

section \<open>The places of the paths\<close>

definition gi_ok :: "dm_state \<Rightarrow> resolver_state \<Rightarrow> cstr list \<Rightarrow> get_expr_info \<Rightarrow> bool" where
  "gi_ok st rs paths gi \<longleftrightarrow> (gi_err gi = None \<longrightarrow> gi_index gi + gi_num_entries gi \<le> length paths \<and>
    (\<forall>p\<in>set (take (gi_num_entries gi) (drop (gi_index gi) paths)). \<exists>c. found_param st rs p c))"

lemma gi_ok_more: "gi_ok st rs paths gi \<Longrightarrow> gi_ok st rs (paths @ extra) gi"
  by (auto simp: gi_ok_def)

lemma gi_ok_later: "gi_ok st rs paths gi \<Longrightarrow> same_tree st st' \<Longrightarrow> gi_ok st' rs paths gi"
  unfolding gi_ok_def using same_tree_found_param by blast

lemma ExpandGetPathExpression_ok:
  assumes "ExpandGetPathExpression env depth ag path ggv = Some (ag', gi, ggv')"
  shows "(\<exists>extra. map gg_path ggv' = map gg_path ggv @ extra) \<and>
    gi_ok (dm ag') (resolve_state env kResolveOp_Get depth 0) (map gg_path ggv') gi"
proof -
  let ?rs = "resolve_state env kResolveOp_Get depth 0"
  have reading: "rs_op ?rs \<in> reading_ops" "rs_op ?rs \<in> plain_ops"
    by (simp_all add: resolve_state_def plain_ops_def permit_ops_def reading_ops_def)
  from assms consider "ggv' = ggv" "gi_err gi \<noteq> None"
    | sv gv where "PATH_RESOLVER_ResolveDevicePath (me_nesting env) (me_resolver env) ?rs ag path (Some [], Some []) = Some (ag', Inr (sv, gv))"
        "gi = \<lparr>gi_index = length ggv, gi_num_entries = length (the sv), gi_err = None\<rparr>"
        "the sv = [] \<and> ggv' = ggv \<or> GROUP_GET_VECTOR_AddParams ggv (the sv) (the gv) = Some ggv'"
    unfolding ExpandGetPathExpression_def Let_def by (auto elim!: ag_case_Some split: if_splits)
  then show ?thesis
  proof cases
    case 1
    then show ?thesis by (auto simp: gi_ok_def)
  next
    case 2
    then have r: "PATH_RESOLVER_ResolvePath (me_nesting env) (me_resolver env) ?rs ag path (Some [], Some []) = Some (ag', Inr (sv, gv))"
      by (auto simp: PATH_RESOLVER_ResolveDevicePath_def split: if_splits)
    have "reads_inv ?rs (dm ag') (sv, gv)"
      by (rule path_collector.resolved_keeps(1) [OF reads_collector [OF reading(1)] r]) simp
    moreover obtain ps gs where s: "sv = Some ps" "gv = Some gs" using resolved_vectors [OF reading(2) r] by auto
    ultimately have all2: "list_all2 (\<lambda>p g. \<exists>c. found_param (dm ag') ?rs p c \<and> g = group_of (heap (dm ag') c)) ps gs" by simp
    then have found: "\<forall>p\<in>set ps. \<exists>c. found_param (dm ag') ?rs p c" by (induction rule: list_all2_induct) auto
    have "map gg_path ggv' = map gg_path ggv @ ps"
      using 2(3) s list_all2_lengthD [OF all2]
      by (auto simp: GROUP_GET_VECTOR_AddParams_def new_entry_def comp_def case_prod_beta intro: nth_equalityI split: if_splits)
    then show ?thesis using found 2(2) s by (simp add: gi_ok_def)
  qed
qed

lemma expand_get_paths_ok:
  "expand_get_paths env depth ag ggv paths = Some (ag', gis, ggv') \<Longrightarrow>
    (\<exists>extra. map gg_path ggv' = map gg_path ggv @ extra) \<and> length gis = length paths \<and>
    (\<forall>gi\<in>set gis. gi_ok (dm ag') (resolve_state env kResolveOp_Get depth 0) (map gg_path ggv') gi)"
proof (induction paths arbitrary: ag ggv gis)
  case (Cons path paths)
  obtain ag1 gi ggv1 gis1 where e: "ExpandGetPathExpression env depth ag path ggv = Some (ag1, gi, ggv1)"
    "expand_get_paths env depth ag1 ggv1 paths = Some (ag', gis1, ggv')" "gis = gi # gis1"
    using Cons.prems by (auto split: option.splits)
  obtain extra where m: "map gg_path ggv1 = map gg_path ggv @ extra"
    "gi_ok (dm ag1) (resolve_state env kResolveOp_Get depth 0) (map gg_path ggv1) gi"
    using ExpandGetPathExpression_ok [OF e(1)] by blast
  obtain extra1 where m1: "map gg_path ggv' = map gg_path ggv1 @ extra1" using Cons.IH [OF e(2)] by blast
  have "same_tree (dm ag1) (dm ag')" using stepsD [OF expand_get_paths_reads e(2)] by (simp add: reads_only_def)
  then have "gi_ok (dm ag') (resolve_state env kResolveOp_Get depth 0) (map gg_path ggv') gi"
    unfolding m1 by (intro gi_ok_more gi_ok_later [OF m(2)])
  then show ?case using Cons.IH [OF e(2)] m(1) m1 e(3) by auto
qed simp

section \<open>The values of a result\<close>

text \<open>All values of a result, each with its object and its name.\<close>

definition result_values :: "resolved_path_result list \<Rightarrow> (cstr \<times> cstr \<times> cstr option) list" where
  "result_values results = concat (map (\<lambda>rp. map (\<lambda>(k, v). (rp_resolved_path rp, k, v)) (rp_result_params rp)) results)"

definition split_value :: "cstr \<Rightarrow> cstr option \<Rightarrow> cstr \<times> cstr \<times> cstr option" where
  "split_value path v = (let (obj_path, param_name) = TEXT_UTILS_SplitPath path MAX_DM_PATH in (obj_path, param_name, v))"

lemma result_values_update:
  assumes "i < length results" "rp_resolved_path rp = rp_resolved_path (results ! i)"
    "rp_result_params rp = rp_result_params (results ! i) @ [(k, v)]"
  shows "mset (result_values (results[i := rp])) = add_mset (rp_resolved_path rp, k, v) (mset (result_values results))"
  using assms
proof (induction results arbitrary: i)
  case (Cons r results)
  then show ?case by (cases i) (auto simp: result_values_def)
qed simp

lemma AddResolvedPathResult_values:
  "mset (result_values (AddResolvedPathResult path v results)) = add_mset (split_value path v) (mset (result_values results))"
proof -
  obtain obj name where s: "TEXT_UTILS_SplitPath path MAX_DM_PATH = (obj, name)" by (metis prod.exhaust)
  show ?thesis
  proof (cases "FindResolvedPath results obj")
    case None
    then show ?thesis
      by (simp add: AddResolvedPathResult_def s AddReqPathRes_ResolvedPathResult_def AddResolvedPathRes_ParamsEntry_def
          result_values_def split_value_def)
  next
    case (Some i)
    then have i: "i < length results" "rp_resolved_path (results ! i) = obj"
      by (auto simp: FindResolvedPath_def find_Some_iff rev_nth)
    show ?thesis
      using result_values_update [OF i(1), of "AddResolvedPathRes_ParamsEntry name v (results ! i)" name v] i(2)
      by (simp add: AddResolvedPathResult_def s Some split_value_def AddResolvedPathRes_ParamsEntry_def)
  qed
qed

lemma fold_result_values:
  "mset (result_values (fold (\<lambda>gge results. AddResolvedPathResult (gg_path gge) (gg_value gge) results) gges results)) =
    mset (map (\<lambda>gge. split_value (gg_path gge) (gg_value gge)) gges) + mset (result_values results)"
  by (induction gges arbitrary: results) (simp_all add: AddResolvedPathResult_values)

text \<open>
  A result of a Get: an error and no value, or the values of parameters that the role may read, each
  below the object it is in.
\<close>

definition got_result :: "dm_state \<Rightarrow> resolver_state \<Rightarrow> cstr \<Rightarrow> requested_path_result \<Rightarrow> bool" where
  "got_result st rs path res \<longleftrightarrow> gr_requested_path res = path \<and>
    (if gr_err res \<noteq> None then gr_resolved res = []
     else \<exists>vs. mset (result_values (gr_resolved res)) = mset (map (\<lambda>(p, v). split_value p (Some v)) vs) \<and>
       (\<forall>(p, v)\<in>set vs. \<exists>c. found_param st rs p c))"

lemma FormPathExprResponse_got:
  assumes "gi_ok st rs (map gg_path ggv) gi" "\<forall>gge\<in>set ggv. read_entry gge"
  shows "got_result st rs path (FormPathExprResponse path gi ggv)"
proof (cases "gi_err gi")
  case None
  let ?gges = "take (gi_num_entries gi) (drop (gi_index gi) ggv)"
  show ?thesis
  proof (cases "find (\<lambda>gge. gg_err gge \<noteq> None) ?gges")
    case None': None
    let ?vs = "map (\<lambda>gge. (gg_path gge, the (gg_value gge))) ?gges"
    have "set ?gges \<subseteq> set ggv" by (meson set_drop_subset set_take_subset subset_trans)
    then have ok: "\<forall>gge\<in>set ?gges. gg_err gge = None \<and> gg_value gge \<noteq> None"
      using None' assms(2) unfolding find_None_iff read_entry_def by blast
    have r: "gr_requested_path (FormPathExprResponse path gi ggv) = path" "gr_err (FormPathExprResponse path gi ggv) = None"
      "gr_resolved (FormPathExprResponse path gi ggv) =
        fold (\<lambda>gge results. AddResolvedPathResult (gg_path gge) (gg_value gge) results) ?gges []"
      by (simp_all add: FormPathExprResponse_def Let_def None None' AddGetResp_ReqPathRes_def del: not_None_eq)
    have "map (\<lambda>gge. split_value (gg_path gge) (gg_value gge)) ?gges = map (\<lambda>(p, v). split_value p (Some v)) ?vs"
      using ok by (auto intro!: map_cong)
    moreover have "\<forall>p\<in>set (map gg_path ?gges). \<exists>c. found_param st rs p c"
      using assms(1) None by (simp add: gi_ok_def take_map drop_map)
    then have "\<forall>(p, v)\<in>set ?vs. \<exists>c. found_param st rs p c" by auto
    moreover have "mset (result_values (fold (\<lambda>gge results. AddResolvedPathResult (gg_path gge) (gg_value gge) results) ?gges [])) =
        mset (map (\<lambda>gge. split_value (gg_path gge) (gg_value gge)) ?gges)"
      using fold_result_values [of ?gges "[]"] by (simp add: result_values_def)
    ultimately have "\<exists>vs. mset (result_values (fold (\<lambda>gge results. AddResolvedPathResult (gg_path gge) (gg_value gge) results) ?gges [])) =
        mset (map (\<lambda>(p, v). split_value p (Some v)) vs) \<and> (\<forall>(p, v)\<in>set vs. \<exists>c. found_param st rs p c)"
      by (intro exI [of _ ?vs]) (simp only: simp_thms)
    then show ?thesis unfolding got_result_def r by (simp only: simp_thms if_False)
  next
    case (Some gge)
    then have "gg_err gge \<noteq> None" by (auto simp: find_Some_iff)
    then show ?thesis 
      by (simp add: got_result_def FormPathExprResponse_def None Some AddGetResp_ReqPathRes_def Let_def del: not_None_eq)
  qed
qed (simp add: got_result_def FormPathExprResponse_def AddGetResp_ReqPathRes_def)

section \<open>Properties\<close>


text \<open>
  C16: a Get changes nothing of the agent but the instance vectors it refreshes: not the data model tree,
  nor the database, nor an open transaction.
\<close>

theorem HandleGet_reads_only:
  assumes "MSG_HANDLER_HandleGet env ag msg_id request = Some (ag', resp)"
  shows "reads_only ag ag'"
  by (rule stepsD [OF HandleGet_reads assms])

text \<open>A get of a secure parameter, whose value is kept back, and of a path outside the data model.\<close>

lemma demo_get:
  "MSG_HANDLER_HandleGet (demo_msg_env no_hooks) param_agent ''1'' (Some \<lparr>get_param_paths = [''Device.P'', ''X''], get_max_depth = 0\<rparr>) =
    Some (param_agent, Response ''1''
      [\<lparr>gr_requested_path = ''Device.P'', gr_err = None, gr_resolved = [\<lparr>rp_resolved_path = ''Device.'', rp_result_params = [(''P'', Some [])]\<rparr>]\<rparr>,
       \<lparr>gr_requested_path = ''X'', gr_err = Some USP_ERR_INVALID_PATH, gr_resolved = []\<rparr>])"
proof -
  let ?env = "demo_msg_env no_hooks"
  let ?rs = "resolve_state ?env kResolveOp_Get FULL_DEPTH 0"
  have "permissions param_node = [0xFFFF, 0]" by (simp add: param_node_def demo_node_def)
  then have p: "DM_PRIV_GetPermissions param_node (Some all_roles) = PERMIT_ALL"
    by (simp add: DM_PRIV_GetPermissions_def role_permissions_def all_roles_def kCTrustRole_Max_def PERMIT_ALL_def)
  have "PATH_RESOLVER_ResolvePath 1 demo_env ?rs param_agent ''Device.P'' (Some [], Some []) =
      Some (param_agent, Inr (Some [''Device.P''], Some [NON_GROUPED]))"
    by (rule param_agent_resolve) (simp_all add: resolve_state_def p)
  then have r: "PATH_RESOLVER_ResolveDevicePath 1 demo_env ?rs param_agent ''Device.P'' (Some [], Some []) =
      Some (param_agent, Inr (Some [''Device.P''], Some [NON_GROUPED]))"
    by (simp add: PATH_RESOLVER_ResolveDevicePath_def)
  have bad: "PATH_RESOLVER_ResolveDevicePath 1 demo_env ?rs param_agent ''X'' (Some [], Some []) = Some (param_agent, Inl USP_ERR_INVALID_PATH)"
    by (simp add: PATH_RESOLVER_ResolveDevicePath_def ag_err_def)
  have e: "expand_get_paths ?env FULL_DEPTH param_agent [] [''Device.P'', ''X''] = Some (param_agent,
      [\<lparr>gi_index = 0, gi_num_entries = 1, gi_err = None\<rparr>, \<lparr>gi_index = 0, gi_num_entries = 0, gi_err = Some USP_ERR_INVALID_PATH\<rparr>],
      [new_entry ''Device.P'' NON_GROUPED])"
    by (simp add: ExpandGetPathExpression_def r [simplified] bad [simplified] GROUP_GET_VECTOR_AddParams_def)
  have n: "node_type (heap (dm param_agent) 3) = kDMNodeType_DBParam_Secure" by (simp add: param_agent_def param_node_def)
  have "DATA_MODEL_GetParameterValue demo_hooks param_agent ''Device.P'' MAX_DM_VALUE_LEN 0 = Some (param_agent, Inr [])"
    by (simp add: DATA_MODEL_GetParameterValue_def param_agent_node n ag_ok_def) (simp add: zero_instances_def)
  then have u: "get_ungrouped demo_hooks param_agent [new_entry ''Device.P'' NON_GROUPED] =
      Some (param_agent, [(new_entry ''Device.P'' NON_GROUPED)\<lparr>gg_value := Some []\<rparr>])"
    by (simp add: get_entry_def new_entry_def)
  have g: "fold (get_group demo_hooks) gs [(new_entry ''Device.P'' NON_GROUPED)\<lparr>gg_value := Some []\<rparr>] =
      [(new_entry ''Device.P'' NON_GROUPED)\<lparr>gg_value := Some []\<rparr>]" for gs
    by (induction gs) (simp_all add: get_group_def group_indexes_def new_entry_def NON_GROUPED_def)
  have v: "GROUP_GET_VECTOR_GetValues demo_hooks param_agent [new_entry ''Device.P'' NON_GROUPED] =
      Some (param_agent, [(new_entry ''Device.P'' NON_GROUPED)\<lparr>gg_value := Some []\<rparr>])"
    by (simp add: GROUP_GET_VECTOR_GetValues_def u g del: get_ungrouped.simps)
  have s: "TEXT_UTILS_SplitPath ''Device.P'' MAX_DM_PATH = (''Device.'', ''P'')"
    by (simp add: TEXT_UTILS_SplitPath_def MAX_DM_PATH_def)
  have ne: "gg_path (new_entry p g) = p" "gg_err (new_entry p g) = None" for p g by (simp_all add: new_entry_def)
  show ?thesis
    by (simp add: MSG_HANDLER_HandleGet_def GROUP_GET_VECTOR_Init_def e v ne FormPathExprResponse_def AddGetResp_ReqPathRes_def
        AddResolvedPathResult_def s FindResolvedPath_def AddReqPathRes_ResolvedPathResult_def AddResolvedPathRes_ParamsEntry_def
        del: expand_get_paths.simps)
qed


theorem HandleGet_reads_only_witness:
  "\<exists>ag' resp. MSG_HANDLER_HandleGet (demo_msg_env no_hooks) param_agent ''1''
      (Some \<lparr>get_param_paths = [''Device.P'', ''X''], get_max_depth = 0\<rparr>) = Some (ag', resp) \<and> reads_only param_agent ag'"
  using HandleGet_reads_only [OF demo_get] demo_get by blast

end
