(* ===== verification/Msg_Instances.thy ===== *)
theory Msg_Instances
  imports Usp_Msg
begin

text \<open>
  The GetInstances message (\<open>core/handle_get_instances.c\<close>): the instances below each path of the request,
  sorted, with those of their unique keys that the controller may read.
\<close>

record get_instances_req =
  gir_obj_paths :: "cstr list"
  gir_first_level_only :: bool

record curr_instance =
  ci_instantiated_obj_path :: cstr
  ci_unique_keys :: "(cstr \<times> cstr) list"

record instances_result =
  ir_requested_path :: cstr
  ir_err :: "usp_err option"
  ir_curr_insts :: "curr_instance list"

type_synonym get_instances_resp = "instances_result list"

definition CreateGetInstancesResp :: "cstr \<Rightarrow> get_instances_resp usp_msg" where
  "CreateGetInstancesResp msg_id = Response msg_id []"

definition AddGetInstances_RequestedPathResult :: "get_instances_resp \<Rightarrow> cstr \<Rightarrow> usp_err option \<Rightarrow> curr_instance list \<Rightarrow> get_instances_resp" where
  "AddGetInstances_RequestedPathResult gi_resp requested_path err curr_insts =
    gi_resp @ [\<lparr>ir_requested_path = requested_path, ir_err = err, ir_curr_insts = curr_insts\<rparr>]"

definition AddRequestedPathResult_CurrInstance :: "curr_instance list \<Rightarrow> cstr \<Rightarrow> (cstr \<times> cstr) list \<Rightarrow> curr_instance list" where
  "AddRequestedPathResult_CurrInstance curr_insts path key_params =
    curr_insts @ [\<lparr>ci_instantiated_obj_path = path @ ''.'', ci_unique_keys = key_params\<rparr>]"

definition RemoveAddResp_LastRequestedPathResult :: "get_instances_resp \<Rightarrow> get_instances_resp" where
  "RemoveAddResp_LastRequestedPathResult gi_resp = butlast gi_resp"

text \<open>The instances of a result in order, up to the first whose keys cannot be read.\<close>

fun add_instances :: "msg_env \<Rightarrow> agent \<Rightarrow> curr_instance list \<Rightarrow> cstr list \<Rightarrow> curr_instance list ag_result" where
  "add_instances env ag curr_insts [] = ag_ok ag curr_insts"
| "add_instances env ag curr_insts (path # paths) =
    ag_bind (DATA_MODEL_GetUniqueKeyParams (me_hooks env) ag path (Some (me_role env))) (\<lambda>ag1 key_params.
      add_instances env ag1 (AddRequestedPathResult_CurrInstance curr_insts path key_params) paths)"

definition ProcessRequestedPathInstances :: "msg_env \<Rightarrow> agent \<Rightarrow> cstr \<Rightarrow> bool \<Rightarrow> get_instances_resp \<Rightarrow> (agent \<times> get_instances_resp) option" where
  "ProcessRequestedPathInstances env ag requested_path first_level_only gi_resp =
    (let flags = (if \<not> first_level_only then GET_ALL_INSTANCES else 0)
     in ag_case (PATH_RESOLVER_ResolveDevicePath (me_nesting env) (me_resolver env)
            (resolve_state env kResolveOp_Instances FULL_DEPTH flags) ag requested_path (Some [], None))
          (\<lambda>ag1 err. Some (ag1, AddGetInstances_RequestedPathResult gi_resp requested_path (Some err) []))
          (\<lambda>ag1 (obj_paths, _).
            ag_case (add_instances env ag1 [] (STR_VECTOR_Sort (the obj_paths)))
              (\<lambda>ag2 err. Some (ag2, AddGetInstances_RequestedPathResult
                 (RemoveAddResp_LastRequestedPathResult (AddGetInstances_RequestedPathResult gi_resp requested_path None []))
                 requested_path (Some err) []))
              (\<lambda>ag2 curr_insts. Some (ag2, AddGetInstances_RequestedPathResult gi_resp requested_path None curr_insts))))"

fun process_instances :: "msg_env \<Rightarrow> bool \<Rightarrow> agent \<Rightarrow> get_instances_resp \<Rightarrow> cstr list \<Rightarrow> (agent \<times> get_instances_resp) option" where
  "process_instances env first_level_only ag gi_resp [] = Some (ag, gi_resp)"
| "process_instances env first_level_only ag gi_resp (path # paths) =
    (case ProcessRequestedPathInstances env ag path first_level_only gi_resp of
       None \<Rightarrow> None
     | Some (ag1, gi_resp1) \<Rightarrow> process_instances env first_level_only ag1 gi_resp1 paths)"

definition MSG_HANDLER_HandleGetInstances ::
    "msg_env \<Rightarrow> agent \<Rightarrow> cstr \<Rightarrow> get_instances_req option \<Rightarrow> (agent \<times> get_instances_resp usp_msg) option" where
  "MSG_HANDLER_HandleGetInstances env ag msg_id request =
    (case request of
       None \<Rightarrow> Some (ag, ERROR_RESP_CreateSingle msg_id USP_ERR_MESSAGE_NOT_UNDERSTOOD [])
     | Some gi \<Rightarrow>
        map_option (\<lambda>(ag1, gi_resp). (ag1, Response msg_id gi_resp))
          (process_instances env (gir_first_level_only gi) ag [] (gir_obj_paths gi)))"

text \<open>One result for each path: an error and no instance, or instances.\<close>

lemma ProcessRequestedPathInstances_result:
  assumes "ProcessRequestedPathInstances env ag path first gi_resp = Some (ag', gi_resp')"
  shows "\<exists>res. gi_resp' = gi_resp @ [res] \<and> ir_requested_path res = path \<and> (ir_err res \<noteq> None \<longrightarrow> ir_curr_insts res = [])"
  using assms unfolding ProcessRequestedPathInstances_def Let_def
  by (auto simp: AddGetInstances_RequestedPathResult_def RemoveAddResp_LastRequestedPathResult_def elim!: ag_case_Some)

lemma HandleGetInstances_paths:
  "process_instances env first ag gi_resp paths = Some (ag', gi_resp') \<Longrightarrow>
    map ir_requested_path gi_resp' = map ir_requested_path gi_resp @ paths"
proof (induction paths arbitrary: ag gi_resp)
  case (Cons path paths)
  then show ?case by (auto split: option.splits dest!: ProcessRequestedPathInstances_result)
qed simp

end
