(* ===== verification/Msg_Operate.thy ===== *)
theory Msg_Operate
  imports Dm_Operate
begin

text \<open>
  The Operate message (\<open>core/handle_operate.c\<close>): the command of the request is resolved to the operations
  it names, each of them is invoked in a transaction of its own, and the response has a result for each:
  a failure, the object of the request that was started, or the output arguments.
\<close>

section \<open>Request and response\<close>

record operate_req =
  or_command :: cstr
  or_command_key :: cstr
  or_send_resp :: bool
  or_input_args :: kv_vector

datatype operation_resp = Cmd_Failure usp_err | Req_Obj_Path cstr | Req_Output_Args kv_vector

record operation_result =
  executed_command :: cstr
  operation_resp :: operation_resp

type_synonym operate_resp = "operation_result list"

definition CreateOperResp :: "cstr \<Rightarrow> operate_resp usp_msg" where
  "CreateOperResp msg_id = Response msg_id []"

definition AddOperRes_CmdFailure :: "operate_resp \<Rightarrow> cstr \<Rightarrow> usp_err \<Rightarrow> operate_resp" where
  "AddOperRes_CmdFailure oper_resp path err_code = oper_resp @ [\<lparr>executed_command = path, operation_resp = Cmd_Failure err_code\<rparr>]"

definition AddOperRes_ReqObjPath :: "operate_resp \<Rightarrow> cstr \<Rightarrow> int \<Rightarrow> operate_resp" where
  "AddOperRes_ReqObjPath oper_resp path n = oper_resp @ [\<lparr>executed_command = path,
    operation_resp = Req_Obj_Path (fst (USP_SNPRINTF MAX_DM_PATH (''Device.LocalAgent.Request.'' @ show_int n)))\<rparr>]"

definition AddOperRes_ReqOutputArgs :: "operate_resp \<Rightarrow> cstr \<Rightarrow> kv_vector \<Rightarrow> operate_resp" where
  "AddOperRes_ReqOutputArgs oper_resp path args = oper_resp @ [\<lparr>executed_command = path, operation_resp = Req_Output_Args args\<rparr>]"

section \<open>Handling the message\<close>

definition operate_one :: "oper_env \<Rightarrow> agent \<Rightarrow> cstr \<Rightarrow> kv_vector \<Rightarrow> operate_resp \<Rightarrow> cstr \<Rightarrow> (agent \<times> kv_vector \<times> operate_resp) option" where
  "operate_one env ag command_key input_args oper_resp oper_path =
    (case DATA_MODEL_Operate env ag oper_path input_args command_key of
       None \<Rightarrow> None
     | Some (ag1, args1, Inl err) \<Rightarrow>
        (case oe_abort env ag1 of
           None \<Rightarrow> None | Some (ag2, _) \<Rightarrow> Some (ag2, args1, AddOperRes_CmdFailure oper_resp oper_path err))
     | Some (ag1, args1, Inr (n, output_args)) \<Rightarrow>
        (case commit (oe_msg env) ag1 of
           None \<Rightarrow> None
         | Some (ag2, _) \<Rightarrow> Some (ag2, args1,
             if n \<noteq> INVALID then AddOperRes_ReqObjPath oper_resp oper_path n
             else AddOperRes_ReqOutputArgs oper_resp oper_path output_args)))"

text \<open>The result is the error of a transaction that does not start, or the results of the operations.\<close>

fun operate_paths ::
    "oper_env \<Rightarrow> agent \<Rightarrow> cstr \<Rightarrow> kv_vector \<Rightarrow> operate_resp \<Rightarrow> cstr list \<Rightarrow> operate_resp ag_result" where
  "operate_paths env ag command_key input_args oper_resp [] = ag_ok ag oper_resp"
| "operate_paths env ag command_key input_args oper_resp (oper_path # paths) =
    ag_bind (oe_start env ag) (\<lambda>ag1 _.
      case operate_one env ag1 command_key input_args oper_resp oper_path of
        None \<Rightarrow> None
      | Some (ag2, args1, oper_resp1) \<Rightarrow> operate_paths env ag2 command_key args1 oper_resp1 paths)"

definition operate_message :: "oper_env \<Rightarrow> agent \<Rightarrow> cstr \<Rightarrow> operate_req \<Rightarrow> (agent \<times> operate_resp usp_msg) option" where
  "operate_message env ag msg_id oper =
    ag_case (ag_bind (resolve_paths (oe_msg env) kResolveOp_Oper ag (or_command oper))
        (\<lambda>ag1 paths. operate_paths env ag1 (or_command_key oper) (or_input_args oper) [] paths))
      (\<lambda>ag1 err. Some (ag1, ERROR_RESP_CreateSingle msg_id err []))
      (\<lambda>ag1 oper_resp. Some (ag1, Response msg_id oper_resp))"

text \<open>The message that is sent, if any: none for a request that is not understood, or not to be answered.\<close>

definition MSG_HANDLER_HandleOperate ::
    "oper_env \<Rightarrow> agent \<Rightarrow> cstr \<Rightarrow> operate_req option \<Rightarrow> (agent \<times> operate_resp usp_msg option) option" where
  "MSG_HANDLER_HandleOperate env ag msg_id request =
    (case request of
       None \<Rightarrow> Some (ag, None)
     | Some oper \<Rightarrow>
        map_option (\<lambda>(ag1, resp). (ag1, if or_send_resp oper then Some resp else None)) (operate_message env ag msg_id oper))"

section \<open>What it may change\<close>

lemma operate_one_tree:
  assumes "oper_keeps_tree env"
  shows "steps tree_only ag (operate_one env ag key args resp path)"
proof -
  have n: "notify_keeps_tree (me_notify (oe_msg env))" using assms by (simp add: oper_keeps_tree_def)
  have ends: "steps tree_only ag1 (case oe_abort env ag1 of None \<Rightarrow> None | Some (ag2, _) \<Rightarrow> Some (ag2, x))"
    "steps tree_only ag1 (case commit (oe_msg env) ag1 of None \<Rightarrow> None | Some (ag2, _) \<Rightarrow> Some (ag2, x))" for ag1 x
    by (intro Abort_then tree.steps_then [OF Commit_tree [OF n]] step_intros)+
  show ?thesis unfolding operate_one_def
    by (rule tree.steps_then [OF DATA_MODEL_Operate_tree [OF assms]]) (auto split: sum.split prod.split intro!: ends)
qed

lemma operate_paths_tree:
  assumes "oper_keeps_tree env"
  shows "steps tree_only ag (operate_paths env ag key args resp paths)"
proof (induction paths arbitrary: ag args resp)
  case (Cons path paths)
  show ?case unfolding operate_paths.simps
    by (intro step_intros Start_tree tree.steps_then [OF operate_one_tree [OF assms]]) (auto split: prod.split intro: Cons.IH)
qed (simp add: step_intros)

lemma HandleOperate_tree:
  assumes "oper_keeps_tree env"
  shows "steps tree_only ag (MSG_HANDLER_HandleOperate env ag msg_id request)"
proof -
  have "steps tree_only ag (operate_message env ag msg_id oper)" for oper
    unfolding operate_message_def
    by (intro step_intros steps_reads_tree [OF resolve_paths_reads] operate_paths_tree [OF assms]) (simp add: plain_ops_def permit_ops_def)
  then show ?thesis unfolding MSG_HANDLER_HandleOperate_def
    by (cases request) (auto intro: step_intros tree.steps_map)
qed

section \<open>Results\<close>

definition is_request :: "operation_result \<Rightarrow> bool" where
  "is_request r = (case operation_resp r of Req_Obj_Path _ \<Rightarrow> True | _ \<Rightarrow> False)"

lemma operate_one_result:
  assumes "operate_one env ag key args resp path = Some (ag', args', resp')"
  obtains r where "resp' = resp @ [\<lparr>executed_command = path, operation_resp = r\<rparr>]"
    "args' = args \<and> \<not> is_request \<lparr>executed_command = path, operation_resp = r\<rparr> \<or>
      time_refs args' = Suc (time_refs args) \<and> time_refs args \<le> 1"
  using assms Operate_args [of env ag path args key]
  by (fastforce simp: operate_one_def is_request_def AddOperRes_CmdFailure_def AddOperRes_ReqObjPath_def AddOperRes_ReqOutputArgs_def
      split: option.splits prod.splits sum.splits if_splits)

lemma operate_paths_results:
  assumes "operate_paths env ag key args resp paths = Some (ag', Inr resp')"
  shows "\<exists>rs. resp' = resp @ rs \<and> map executed_command rs = paths \<and>
    length (filter is_request rs) \<le> 2 - time_refs args"
  using assms
proof (induction paths arbitrary: ag args resp)
  case (Cons path paths)
  from Cons.prems obtain ag1 ag2 args1 resp1 where s: "oe_start env ag = Some (ag1, USP_OK)"
    "operate_one env ag1 key args resp path = Some (ag2, args1, resp1)"
    "operate_paths env ag2 key args1 resp1 paths = Some (ag', Inr resp')"
    by (auto simp: ag_bind_Inr_iff split: option.splits)
  obtain r where r: "resp1 = resp @ [\<lparr>executed_command = path, operation_resp = r\<rparr>]"
    "args1 = args \<and> \<not> is_request \<lparr>executed_command = path, operation_resp = r\<rparr> \<or>
      time_refs args1 = Suc (time_refs args) \<and> time_refs args \<le> 1"
    by (rule operate_one_result [OF s(2)])
  obtain rs where rs: "resp' = resp1 @ rs" "map executed_command rs = paths"
    "length (filter is_request rs) \<le> 2 - time_refs args1"
    using Cons.IH [OF s(3)] by blast
  show ?case
    by (rule exI [of _ "\<lparr>executed_command = path, operation_resp = r\<rparr> # rs"]) (use r rs in auto)
qed simp

section \<open>An example\<close>

text \<open>A tree with the synchronous operation \<open>Device.B()\<close>, whose output is one argument.\<close>

definition oper_node :: dm_node where
  "oper_node = param_node\<lparr>node_path := ''Device.B()'', node_name := ''B()'', node_type := kDMNodeType_SyncOperation,
    node_hash := TEXT_UTILS_CalcHash ''Device.B()''\<rparr>"

definition oper_agent :: agent where
  "oper_agent = param_agent\<lparr>dm := demo_state\<lparr>heap := (\<lambda>_. oper_node)\<rparr>, cur_transaction := None\<rparr>"

definition oper_started :: agent where
  "oper_started = oper_agent\<lparr>db := (db oper_agent)\<lparr>saved := Some (rows (db oper_agent))\<rparr>, cur_transaction := Some []\<rparr>"

definition demo_oper_env :: "trans_vendor \<Rightarrow> oper_env" where
  "demo_oper_env tv = \<lparr>oe_msg = demo_msg_env tv, oe_info = (\<lambda>_. zero_oper_info\<lparr>op_sync_cb := True\<rparr>),
    oe_sync = (\<lambda>req key args ag. (ag, Inr [(''Out'', ''1'')])), oe_async = (\<lambda>req args n ag. (ag, USP_OK)),
    oe_restart = (\<lambda>req n. Inr (True, None, [])), oe_complete = (\<lambda>c k e args ag. ag), oe_endpoint = [], oe_now = 0\<rparr>"

lemma demo_oper_env_simps [simp]:
  "oe_msg (demo_oper_env tv) = demo_msg_env tv" "op_sync_cb (oe_info (demo_oper_env tv) n)"
  "oe_sync (demo_oper_env tv) req key args ag = (ag, Inr [(''Out'', ''1'')])"
  by (simp_all add: demo_oper_env_def)

lemma oper_facts:
  "heap (dm oper_agent) p = oper_node" "dm oper_started = dm oper_agent" "cur_transaction oper_agent = None"
  "cur_transaction oper_started = Some []" "sql (db oper_agent) = (\<lambda>_. True)" "sql (db oper_started) = (\<lambda>_. True)"
  "saved (db oper_agent) = None" "saved (db oper_started) \<noteq> None" "node_type oper_node = kDMNodeType_SyncOperation"
  by (simp_all add: oper_agent_def oper_started_def param_agent_def demo_agent_def oper_node_def)

lemma oper_agent_node: "DM_PRIV_GetNodeFromPath (dm oper_agent) ''Device.B()'' True True = Some (3, zero_instances, True)"
proof -
  have "DM_PRIV_CalcHashFromPath True ''Device.B()'' = Inr (TEXT_UTILS_CalcHash ''Device.B()'', zero_instances)" by code_simp
  then show ?thesis by (simp add: DM_PRIV_GetNodeFromPath_def FindNodeFromHash_def oper_agent_def demo_state_def
      oper_node_def param_node_def zero_instances_def)
qed

lemma oper_agent_exists: "dm_exists h ag zero_instances = Some (ag, Inr True)"
  by (simp add: dm_exists_def on_dm_def DM_INST_VECTOR_IsExist_def zero_instances_def)

lemma oper_resolve: "resolve_paths (demo_msg_env tv) kResolveOp_Oper oper_agent ''Device.B()'' = Some (oper_agent, Inr [''Device.B()''])"
proof -
  let ?rs = "resolve_state (demo_msg_env tv) kResolveOp_Oper FULL_DEPTH 0"
  have "permissions oper_node = [0xFFFF, 0]" by (simp add: oper_node_def param_node_def demo_node_def)
  then have p: "DM_PRIV_GetPermissions oper_node (Some all_roles) = PERMIT_ALL"
    by (simp add: DM_PRIV_GetPermissions_def role_permissions_def all_roles_def kCTrustRole_Max_def PERMIT_ALL_def)
  have "\<exists>pp. DATA_MODEL_GetPathProperties demo_hooks oper_agent ''Device.B()'' (Some all_roles) = Some (oper_agent, pp) \<and>
      pp_permissions pp = PERMIT_ALL \<and>
      pp_flags pp = (PP_EXISTS_IN_SCHEMA OR PP_IS_OPERATION) OR (PP_INSTANCE_NUMBERS_EXIST OR PP_PARENT_INSTANCE_NUMBERS_EXIST)"
    by (simp add: DATA_MODEL_GetPathProperties_def oper_agent_node oper_agent_exists oper_facts IsParam_def IsObject_def type_properties_def p)
  then obtain pp where pp: "DATA_MODEL_GetPathProperties demo_hooks oper_agent ''Device.B()'' (Some all_roles) = Some (oper_agent, pp)"
    "pp_permissions pp = PERMIT_ALL"
    "pp_flags pp = (PP_EXISTS_IN_SCHEMA OR PP_IS_OPERATION) OR (PP_INSTANCE_NUMBERS_EXIST OR PP_PARENT_INSTANCE_NUMBERS_EXIST)"
    by blast
  have "CheckPathProperties demo_hooks ?rs oper_agent ''Device.B()'' = ag_ok oper_agent (True, pp)"
    by (simp add: CheckPathProperties_def resolve_state_def pp wrong_type_def wrong_instance_def permission_verdict_def
        existence_verdict_def PP_defs PERMIT_ALL_def PERMIT_OPER_def)
  then have "AddPathFound demo_hooks ?rs oper_agent ''Device.B()'' (Some [], None) = ag_ok oper_agent (Some [''Device.B()''], None)"
    by (auto simp: AddPathFound_def resolve_state_def STR_VECTOR_Find_def STR_VECTOR_Add_def ag_ok_def first_index_Nil)
  then show ?thesis
    by (auto simp: resolve_paths_def PATH_RESOLVER_ResolveDevicePath_def PATH_RESOLVER_ResolvePath_def PATH_RESOLVER_ResolvePath_with_def
        USP_STRNCPY_def MAX_DM_PATH_def resolve_state_def path_complete_def demo_env_def ag_ok_def)
qed

lemma oper_start: "start_trans_cb tv = None \<Longrightarrow> DM_TRANS_Start tv oper_agent = Some (oper_started, USP_OK)"
  unfolding DM_TRANS_Start_def DATABASE_StartTransaction_def by (simp add: oper_facts oper_started_def Let_def)

lemma demo_operate:
  "DATA_MODEL_Operate (demo_oper_env tv) oper_started ''Device.B()'' [] key = Some (oper_started, [], Inr (INVALID, [(''Out'', ''1'')]))"
  by (simp add: DATA_MODEL_Operate_def DM_TRANS_IsWithinTransaction_def oper_facts oper_agent_node oper_agent_exists
      KV_VECTOR_ValidateArguments_def)

section \<open>Properties\<close>

text \<open>
  C13: the answer to an Operate has a result for each operation that its command names, in the order they
  are resolved in, and these are operations the controller may invoke. However many they are, at most two
  of them are started as requests: each request adds the time to the arguments that the operations
  share, and arguments with a repeated name are refused.
\<close>

theorem HandleOperate_results:
  assumes "MSG_HANDLER_HandleOperate env ag msg_id (Some oper) = Some (ag', Some (Response mid results))"
  shows "\<exists>ag1 paths. resolve_paths (oe_msg env) kResolveOp_Oper ag (or_command oper) = Some (ag1, Inr paths) \<and>
    map executed_command results = paths \<and> length (filter is_request results) \<le> 2 \<and>
    (\<forall>path\<in>set paths. \<exists>c. found_param (dm ag1) (resolve_state (oe_msg env) kResolveOp_Oper FULL_DEPTH 0) path c)"
proof -
  have "operate_message env ag msg_id oper = Some (ag', Response mid results)"
    using assms by (auto simp: MSG_HANDLER_HandleOperate_def split: if_splits)
  then obtain ag1 paths where r: "resolve_paths (oe_msg env) kResolveOp_Oper ag (or_command oper) = Some (ag1, Inr paths)"
    "operate_paths env ag1 (or_command_key oper) (or_input_args oper) [] paths = Some (ag', Inr results)"
    unfolding operate_message_def
    by (auto simp: ag_bind_Inr_iff CreateSingle_message elim!: ag_case_Some)
  have "\<exists>c. found_param (dm ag1) (resolve_state (oe_msg env) kResolveOp_Oper FULL_DEPTH 0) path c" if "path \<in> set paths" for path
    by (rule resolve_paths_found [OF _ r(1) that]) (simp add: plain_ops_def permit_ops_def)
  then show ?thesis using r(1) operate_paths_results [OF r(2)] by fastforce
qed

definition demo_operate_req :: operate_req where
  "demo_operate_req = \<lparr>or_command = ''Device.B()'', or_command_key = ''k'', or_send_resp = True, or_input_args = []\<rparr>"

theorem HandleOperate_results_witness:
  "\<exists>ag'. MSG_HANDLER_HandleOperate (demo_oper_env no_hooks) oper_agent ''1'' (Some demo_operate_req) =
      Some (ag', Some (Response ''1'' [\<lparr>executed_command = ''Device.B()'', operation_resp = Req_Output_Args [(''Out'', ''1'')]\<rparr>])) \<and>
    (\<exists>c. found_param (dm oper_agent) (resolve_state (demo_msg_env no_hooks) kResolveOp_Oper FULL_DEPTH 0) ''Device.B()'' c)"
proof -
  let ?env = "demo_oper_env no_hooks"
  have "\<exists>ag'. commit (demo_msg_env no_hooks) oper_started = Some (ag', USP_OK)"
    by (cases "DATABASE_CommitTransaction (db oper_started)")
      (auto simp: eval_nat_numeral oper_facts DATABASE_CommitTransaction_def split: if_splits)
  then obtain ag' where c: "commit (demo_msg_env no_hooks) oper_started = Some (ag', USP_OK)" by blast
  have "operate_paths ?env oper_agent ''k'' [] [] [''Device.B()''] =
      Some (ag', Inr [\<lparr>executed_command = ''Device.B()'', operation_resp = Req_Output_Args [(''Out'', ''1'')]\<rparr>])"
    using c by (simp add: oper_start operate_one_def demo_operate AddOperRes_ReqOutputArgs_def ag_ok_def del: DM_TRANS_Commit.simps)
  then have m: "MSG_HANDLER_HandleOperate ?env oper_agent ''1'' (Some demo_operate_req) =
      Some (ag', Some (Response ''1'' [\<lparr>executed_command = ''Device.B()'', operation_resp = Req_Output_Args [(''Out'', ''1'')]\<rparr>]))"
    by (simp add: MSG_HANDLER_HandleOperate_def operate_message_def demo_operate_req_def oper_resolve del: operate_paths.simps)
  from HandleOperate_results [OF m] m oper_resolve [of no_hooks] show ?thesis by (auto simp: demo_operate_req_def)
qed

text \<open>
  The result of the commit after an operation is not looked at. Where the commit fails the response
  says that the operation was carried out, with its request or its output, although the database has been
  rolled back to what it held before.
\<close>

theorem operate_commit_failure_unreported:
  assumes "cur_transaction ag = None" "oe_start env ag = Some (ag1, USP_OK)"
    "DATA_MODEL_Operate env ag1 path args key = Some (ag2, args2, Inr (n, out))" "writes_only ag1 ag2"
    "commit (oe_msg env) ag2 = Some (ag3, Inl err)"
  shows "\<exists>r. operate_paths env ag key args resp [path] = Some (ag3, Inr (resp @ [\<lparr>executed_command = path, operation_resp = r\<rparr>])) \<and>
    \<not> (\<exists>e. r = Cmd_Failure e) \<and> rows (db ag3) = rows (db ag)"
proof -
  have "rows (db ag3) = rows (db ag)" by (rule failed_commit [OF assms(2,1,4,5)])
  then show ?thesis using assms(2,3,5)
    by (auto simp: operate_one_def AddOperRes_ReqObjPath_def AddOperRes_ReqOutputArgs_def ag_ok_def simp del: DM_TRANS_Commit.simps)
qed

theorem operate_commit_failure_unreported_witness:
  "\<exists>ag' r. operate_paths (demo_oper_env (no_hooks\<lparr>commit_trans_cb := Some (Inl USP_ERR_INTERNAL_ERROR)\<rparr>)) oper_agent ''k'' [] []
      [''Device.B()''] = Some (ag', Inr [\<lparr>executed_command = ''Device.B()'', operation_resp = r\<rparr>]) \<and>
    \<not> (\<exists>e. r = Cmd_Failure e) \<and> rows (db ag') = rows (db oper_agent)"
proof -
  let ?tv = "no_hooks\<lparr>commit_trans_cb := Some (Inl USP_ERR_INTERNAL_ERROR)\<rparr>" and ?env = "demo_oper_env (no_hooks\<lparr>commit_trans_cb := Some (Inl USP_ERR_INTERNAL_ERROR)\<rparr>)"
  have "\<exists>ag'. commit (demo_msg_env ?tv) oper_started = Some (ag', Inl USP_ERR_INTERNAL_ERROR)"
    by (cases "DATABASE_AbortTransaction (db oper_started)")
      (simp add: eval_nat_numeral oper_facts DM_TRANS_Abort_def Let_def)
  then obtain ag' where c: "commit (demo_msg_env ?tv) oper_started = Some (ag', Inl USP_ERR_INTERNAL_ERROR)" by blast
  have s: "oe_start ?env oper_agent = Some (oper_started, USP_OK)" by (simp add: oper_start)
  have c': "commit (oe_msg ?env) oper_started = Some (ag', Inl USP_ERR_INTERNAL_ERROR)" using c by simp
  from operate_commit_failure_unreported [OF oper_facts(3) s demo_operate [where key = "''k''"] writes.R_refl c', of "[]"]
  show ?thesis unfolding append_Nil by blast
qed

end
