(* ===== verification/Msg_Handler.thy ===== *)
theory Msg_Handler
  imports E2e_Sessions Msg_Notify Msg_Delete Msg_Set Msg_Add Msg_Get Msg_Instances Msg_Operate
begin

text \<open>
  Records received, the messages in them and the dispatch to what handles a message
  (\<open>core/msg_handler.c\<close>). Packing a message, and unpacking messages and records, are parameters; a
  message that was unpacked is its header and the request or response in its body. The table of
  controllers also changes when a message changes the data model, by the callbacks of the controllers
  (\<open>Controllers\<close>) at the commit: what becomes of the table is a parameter. \<open>None\<close> is a failed
  assertion or a case that terminates the agent.
\<close>

section \<open>Messages\<close>

definition USP_HEADER_ERROR :: int where "USP_HEADER_ERROR = 0"
definition USP_HEADER_GET :: int where "USP_HEADER_GET = 1"
definition USP_HEADER_GET_RESP :: int where "USP_HEADER_GET_RESP = 2"
definition USP_HEADER_NOTIFY :: int where "USP_HEADER_NOTIFY = 3"
definition USP_HEADER_SET :: int where "USP_HEADER_SET = 4"
definition USP_HEADER_SET_RESP :: int where "USP_HEADER_SET_RESP = 5"
definition USP_HEADER_OPERATE :: int where "USP_HEADER_OPERATE = 6"
definition USP_HEADER_OPERATE_RESP :: int where "USP_HEADER_OPERATE_RESP = 7"
definition USP_HEADER_ADD :: int where "USP_HEADER_ADD = 8"
definition USP_HEADER_ADD_RESP :: int where "USP_HEADER_ADD_RESP = 9"
definition USP_HEADER_DELETE :: int where "USP_HEADER_DELETE = 10"
definition USP_HEADER_DELETE_RESP :: int where "USP_HEADER_DELETE_RESP = 11"
definition USP_HEADER_GET_SUPPORTED_DM :: int where "USP_HEADER_GET_SUPPORTED_DM = 12"
definition USP_HEADER_GET_SUPPORTED_DM_RESP :: int where "USP_HEADER_GET_SUPPORTED_DM_RESP = 13"
definition USP_HEADER_GET_INSTANCES :: int where "USP_HEADER_GET_INSTANCES = 14"
definition USP_HEADER_GET_INSTANCES_RESP :: int where "USP_HEADER_GET_INSTANCES_RESP = 15"
definition USP_HEADER_NOTIFY_RESP :: int where "USP_HEADER_NOTIFY_RESP = 16"
definition USP_HEADER_GET_SUPPORTED_PROTO :: int where "USP_HEADER_GET_SUPPORTED_PROTO = 17"
definition USP_HEADER_GET_SUPPORTED_PROTO_RESP :: int where "USP_HEADER_GET_SUPPORTED_PROTO_RESP = 18"

lemmas header_defs = USP_HEADER_ERROR_def USP_HEADER_GET_def USP_HEADER_GET_RESP_def USP_HEADER_NOTIFY_def USP_HEADER_SET_def
  USP_HEADER_SET_RESP_def USP_HEADER_OPERATE_def USP_HEADER_OPERATE_RESP_def USP_HEADER_ADD_def USP_HEADER_ADD_RESP_def
  USP_HEADER_DELETE_def USP_HEADER_DELETE_RESP_def USP_HEADER_GET_SUPPORTED_DM_def USP_HEADER_GET_SUPPORTED_DM_RESP_def
  USP_HEADER_GET_INSTANCES_def USP_HEADER_GET_INSTANCES_RESP_def USP_HEADER_NOTIFY_RESP_def USP_HEADER_GET_SUPPORTED_PROTO_def
  USP_HEADER_GET_SUPPORTED_PROTO_RESP_def

datatype usp_body =
    Body_Get get_req
  | Body_Set set_req
  | Body_Add add_req
  | Body_Delete delete_req
  | Body_Operate operate_req
  | Body_Get_Instances get_instances_req
  | Body_Get_Supported_DM get_supported_dm
  | Body_Get_Supported_Proto
  | Body_Notify_Resp cstr
  | Body_Other

record usp_in =
  in_header :: "(int \<times> cstr) option"
  in_body :: usp_body

datatype usp_out =
    Out_Get "get_resp usp_msg"
  | Out_Set "set_resp usp_msg"
  | Out_Add "created_obj_result list usp_msg"
  | Out_Delete "delete_resp usp_msg"
  | Out_Operate "operate_resp usp_msg"
  | Out_Get_Instances "get_instances_resp usp_msg"
  | Out_Get_Supported_DM "get_supported_dm_resp usp_msg"
  | Out_Get_Supported_Proto "cstr usp_msg"
  | Out_Error "unit usp_msg"

fun msg_type_of :: "int \<Rightarrow> 'r usp_msg \<Rightarrow> int" where
  "msg_type_of ty (Response msg_id r) = ty"
| "msg_type_of ty (Error_Response msg_id err pes) = USP_HEADER_ERROR"

fun out_msg_type :: "usp_out \<Rightarrow> int" where
  "out_msg_type (Out_Get m) = msg_type_of USP_HEADER_GET_RESP m"
| "out_msg_type (Out_Set m) = msg_type_of USP_HEADER_SET_RESP m"
| "out_msg_type (Out_Add m) = msg_type_of USP_HEADER_ADD_RESP m"
| "out_msg_type (Out_Delete m) = msg_type_of USP_HEADER_DELETE_RESP m"
| "out_msg_type (Out_Operate m) = msg_type_of USP_HEADER_OPERATE_RESP m"
| "out_msg_type (Out_Get_Instances m) = msg_type_of USP_HEADER_GET_INSTANCES_RESP m"
| "out_msg_type (Out_Get_Supported_DM m) = msg_type_of USP_HEADER_GET_SUPPORTED_DM_RESP m"
| "out_msg_type (Out_Get_Supported_Proto m) = msg_type_of USP_HEADER_GET_SUPPORTED_PROTO_RESP m"
| "out_msg_type (Out_Error m) = USP_HEADER_ERROR"

section \<open>State\<close>

text \<open>The data model, and the notifications that wait for their responses.\<close>

record handler_state = msg_state +
  dm_agent :: agent
  hs_retries :: "subs_retry list"
  hs_first_retry_time :: int

record handler_env =
  he_e2e :: e2e_env
  he_oper :: oper_env
  he_supported :: supported_env
  pack_msg :: "usp_out \<Rightarrow> bytes"
  unpack_msg :: "bytes \<Rightarrow> usp_in option"
  unpack_record :: "bytes \<Rightarrow> usp_record option"
  table_after :: "agent \<Rightarrow> agent \<Rightarrow> controller_t list \<Rightarrow> controller_t list"

type_synonym handled = "(handler_state \<times> (usp_err + unit)) option"

definition kCTrustRole_Untrusted :: nat where "kCTrustRole_Untrusted = 1"

definition MSG_HANDLER_GetMsgControllerEndpointId :: "handler_state \<Rightarrow> cstr" where
  "MSG_HANDLER_GetMsgControllerEndpointId hs =
    (if cur_msg_controller_instance hs = INVALID then []
     else case DEVICE_CONTROLLER_FindEndpointIdByInstance (ctrls hs) (cur_msg_controller_instance hs) of None \<Rightarrow> [] | Some ep \<Rightarrow> ep)"

text \<open>What the handlers see of the message: MSG_HANDLER_GetMsgRole and the endpoint.\<close>

definition cur_msg_env :: "handler_env \<Rightarrow> handler_state \<Rightarrow> msg_env" where
  "cur_msg_env env hs = (oe_msg (he_oper env))\<lparr>me_role := cur_msg_combined_role hs\<rparr>"

definition cur_oper_env :: "handler_env \<Rightarrow> handler_state \<Rightarrow> oper_env" where
  "cur_oper_env env hs = (he_oper env)\<lparr>oe_msg := cur_msg_env env hs, oe_endpoint := MSG_HANDLER_GetMsgControllerEndpointId hs\<rparr>"

definition cur_supported_env :: "handler_env \<Rightarrow> handler_state \<Rightarrow> supported_env" where
  "cur_supported_env env hs = (he_supported env)\<lparr>sd_role := cur_msg_combined_role hs\<rparr>"

definition with_agent :: "handler_env \<Rightarrow> agent \<Rightarrow> handler_state \<Rightarrow> handler_state" where
  "with_agent env ag hs = hs\<lparr>dm_agent := ag, ctrls := table_after env (dm_agent hs) ag (ctrls hs)\<rparr>"

section \<open>Responses\<close>

definition MSG_HANDLER_QueueMessage :: "handler_env \<Rightarrow> cstr option \<Rightarrow> usp_out \<Rightarrow> mtp_reply_to \<Rightarrow> handler_state \<Rightarrow> handled" where
  "MSG_HANDLER_QueueMessage env endpoint out mrt hs =
    (case endpoint of
       None \<Rightarrow> Some (hs, Inl USP_ERR_INTERNAL_ERROR)
     | Some ep \<Rightarrow>
        MSG_HANDLER_QueueUspRecord (he_e2e env)
          \<lparr>usi_msg_type = out_msg_type out, msg_packed = pack_msg env out, curr_e2e_session = cur_session hs\<rparr> (Some ep) mrt hs)"

text \<open>A failure to queue a response is not looked at.\<close>

definition respond :: "handler_env \<Rightarrow> cstr option \<Rightarrow> mtp_reply_to \<Rightarrow> usp_out \<Rightarrow> handler_state \<Rightarrow> handler_state option" where
  "respond env endpoint mrt out hs = map_option fst (MSG_HANDLER_QueueMessage env endpoint out mrt hs)"

definition MSG_HANDLER_QueueErrorMessage :: "handler_env \<Rightarrow> usp_err \<Rightarrow> cstr option \<Rightarrow> mtp_reply_to \<Rightarrow> cstr \<Rightarrow> handler_state \<Rightarrow> handler_state option" where
  "MSG_HANDLER_QueueErrorMessage env err endpoint mrt msg_id hs =
    respond env endpoint mrt (Out_Error (ERROR_RESP_CreateSingle msg_id err [])) hs"

definition run_on_agent ::
    "handler_env \<Rightarrow> cstr option \<Rightarrow> mtp_reply_to \<Rightarrow> ('r \<Rightarrow> usp_out option) \<Rightarrow> handler_state \<Rightarrow> (agent \<times> 'r) option \<Rightarrow> handler_state option" where
  "run_on_agent env endpoint mrt out hs m =
    (case m of
       None \<Rightarrow> None
     | Some (ag, resp) \<Rightarrow>
        (case out resp of
           None \<Rightarrow> Some (with_agent env ag hs)
         | Some msg \<Rightarrow> respond env endpoint mrt msg (with_agent env ag hs)))"

section \<open>The response to a notification\<close>

definition remove_retry :: "cstr \<Rightarrow> handler_state \<Rightarrow> handler_state" where
  "remove_retry msg_id hs =
    (let s = SUBS_RETRY_Remove msg_id
           \<lparr>timers = timers hs, first_sync_timer_time = first_sync_timer_time hs, retry_vector = hs_retries hs,
             first_retry_time = hs_first_retry_time hs, controllers = [], dm_thread_random_seed = cont_seed hs, queued_records = []\<rparr>
     in hs\<lparr>timers := timers s, first_sync_timer_time := first_sync_timer_time s, hs_retries := retry_vector s,
          hs_first_retry_time := first_retry_time s\<rparr>)"

definition MSG_HANDLER_HandleNotifyResp ::
    "handler_env \<Rightarrow> cstr \<Rightarrow> usp_body \<Rightarrow> cstr option \<Rightarrow> mtp_reply_to \<Rightarrow> handler_state \<Rightarrow> handler_state option" where
  "MSG_HANDLER_HandleNotifyResp env msg_id body endpoint mrt hs =
    (case body of
       Body_Notify_Resp subscription_id \<Rightarrow> Some (remove_retry msg_id hs)
     | _ \<Rightarrow> MSG_HANDLER_QueueErrorMessage env USP_ERR_MESSAGE_NOT_UNDERSTOOD endpoint mrt msg_id hs)"

section \<open>Dispatch\<close>

definition dispatch_message ::
    "handler_env \<Rightarrow> int \<Rightarrow> cstr \<Rightarrow> usp_body \<Rightarrow> cstr option \<Rightarrow> mtp_reply_to \<Rightarrow> handler_state \<Rightarrow> handled" where
  "dispatch_message env ty msg_id body endpoint mrt hs =
    (let ag = dm_agent hs; menv = cur_msg_env env hs; ok = map_option (\<lambda>hs1. (hs1, USP_OK))
     in if ty = USP_HEADER_GET then
          ok (run_on_agent env endpoint mrt (\<lambda>m. Some (Out_Get m)) hs
            (MSG_HANDLER_HandleGet menv ag msg_id (case body of Body_Get r \<Rightarrow> Some r | _ \<Rightarrow> None)))
        else if ty = USP_HEADER_SET then
          ok (run_on_agent env endpoint mrt (\<lambda>m. Some (Out_Set m)) hs
            (MSG_HANDLER_HandleSet menv ag msg_id (case body of Body_Set r \<Rightarrow> Some r | _ \<Rightarrow> None)))
        else if ty = USP_HEADER_ADD then
          ok (run_on_agent env endpoint mrt (\<lambda>m. Some (Out_Add m)) hs
            (MSG_HANDLER_HandleAdd menv ag msg_id (case body of Body_Add r \<Rightarrow> Some r | _ \<Rightarrow> None)))
        else if ty = USP_HEADER_DELETE then
          ok (run_on_agent env endpoint mrt (\<lambda>m. Some (Out_Delete m)) hs
            (MSG_HANDLER_HandleDelete menv ag msg_id (case body of Body_Delete r \<Rightarrow> Some r | _ \<Rightarrow> None)))
        else if ty = USP_HEADER_OPERATE then
          ok (run_on_agent env endpoint mrt (map_option Out_Operate) hs
            (MSG_HANDLER_HandleOperate (cur_oper_env env hs) ag msg_id (case body of Body_Operate r \<Rightarrow> Some r | _ \<Rightarrow> None)))
        else if ty = USP_HEADER_NOTIFY_RESP then
          ok (MSG_HANDLER_HandleNotifyResp env msg_id body endpoint mrt hs)
        else if ty = USP_HEADER_GET_SUPPORTED_PROTO then
          ok (respond env endpoint mrt (Out_Get_Supported_Proto
            (MSG_HANDLER_HandleGetSupportedProtocol msg_id (body = Body_Get_Supported_Proto))) hs)
        else if ty = USP_HEADER_GET_INSTANCES then
          ok (run_on_agent env endpoint mrt (\<lambda>m. Some (Out_Get_Instances m)) hs
            (MSG_HANDLER_HandleGetInstances menv ag msg_id (case body of Body_Get_Instances r \<Rightarrow> Some r | _ \<Rightarrow> None)))
        else if ty = USP_HEADER_GET_SUPPORTED_DM then
          (case MSG_HANDLER_HandleGetSupportedDM (cur_supported_env env hs) (dm ag) msg_id
              (case body of Body_Get_Supported_DM r \<Rightarrow> Some r | _ \<Rightarrow> None) of
             None \<Rightarrow> None
           | Some m \<Rightarrow> ok (respond env endpoint mrt (Out_Get_Supported_DM m) hs))
        else if ty = USP_HEADER_NOTIFY then ok (MSG_HANDLER_QueueErrorMessage env USP_ERR_REQUEST_DENIED endpoint mrt msg_id hs)
        else Some (hs, Inl USP_ERR_REQUEST_DENIED))"

definition message_done :: "handler_state \<Rightarrow> handler_state" where
  "message_done hs = note_call Activate_Scheduled_Actions (hs\<lparr>cur_msg_controller_instance := INVALID\<rparr>)"

definition HandleUspMessage :: "handler_env \<Rightarrow> usp_in \<Rightarrow> cstr option \<Rightarrow> mtp_reply_to \<Rightarrow> handler_state \<Rightarrow> handled" where
  "HandleUspMessage env usp endpoint mrt hs =
    map_option (\<lambda>(hs1, r). (message_done hs1, r))
      (case in_header usp of
         None \<Rightarrow> Some (hs, Inl USP_ERR_MESSAGE_NOT_UNDERSTOOD)
       | Some (ty, msg_id) \<Rightarrow> dispatch_message env ty msg_id (in_body usp) endpoint mrt hs)"

text \<open>The role that was worked out for the connection must be the one that the controller inherited from it.\<close>

definition CacheControllerRoleForCurMsg :: "cstr option \<Rightarrow> nat \<Rightarrow> mtp_protocol \<Rightarrow> handler_state \<Rightarrow> handler_state option" where
  "CacheControllerRoleForCurMsg endpoint role protocol hs =
    (case endpoint of
       None \<Rightarrow> None
     | Some ep \<Rightarrow>
        (let hs1 = hs\<lparr>cur_msg_endpoint := Some ep\<rparr>
         in case DEVICE_CONTROLLER_GetCombinedRoleByEndpointId (ctrls hs) ep of
              Inl err \<Rightarrow> Some (hs1\<lparr>cur_msg_combined_role := \<lparr>inherited = kCTrustRole_Untrusted, assigned = INVALID_ROLE\<rparr>\<rparr>)
            | Inr cr \<Rightarrow>
               if protocol = kMtpProtocol_MQTT \<and> inherited cr = role then Some (hs1\<lparr>cur_msg_combined_role := cr\<rparr>) else None))"

definition MSG_HANDLER_HandleBinaryMessage :: "handler_env \<Rightarrow> handler_state message_handler" where
  "MSG_HANDLER_HandleBinaryMessage env bs role endpoint mrt hs =
    (case unpack_msg env bs of
       None \<Rightarrow> Some (hs, Inl USP_ERR_MESSAGE_NOT_UNDERSTOOD)
     | Some usp \<Rightarrow>
        (case CacheControllerRoleForCurMsg endpoint role (reply_protocol mrt) hs of
           None \<Rightarrow> None
         | Some hs1 \<Rightarrow> HandleUspMessage env usp endpoint mrt hs1))"

section \<open>Records\<close>

definition refuse_record :: "handler_env \<Rightarrow> usp_err \<Rightarrow> cstr \<Rightarrow> mtp_reply_to \<Rightarrow> handler_state \<Rightarrow> handled" where
  "refuse_record env err from mrt hs =
    map_option (\<lambda>(hs1, _). (hs1, Inl err))
      (MSG_HANDLER_QueueUspDisconnectRecord (he_e2e env) kMtpContentType_DisconnectRecord (Some from) err (err_text (he_e2e env) (calls hs)) mrt hs)"

text \<open>The checks on the content, after those on who sent the record to whom.\<close>

definition validate_content :: "handler_env \<Rightarrow> usp_record \<Rightarrow> cstr \<Rightarrow> mtp_reply_to \<Rightarrow> handler_state \<Rightarrow> handled" where
  "validate_content env rec from mrt hs =
    (let plain = (payload_security rec = PAYLOAD_SECURITY_PLAINTEXT); session = (record_type_case (record_type rec) = 8)
     in if \<not> plain \<and> \<not> session then refuse_record env USP_ERR_RECORD_FIELD_INVALID from mrt hs
        else if \<not> plain then refuse_record env USP_ERR_SECURE_SESS_NOT_SUPPORTED from mrt hs
        else case record_type rec of
          No_Session_Context payload \<Rightarrow>
            (case payload of
               None \<Rightarrow> Some (hs, Inl USP_ERR_RECORD_FIELD_INVALID)
             | Some bd \<Rightarrow> if bd_len bd = 0 then Some (hs, Inl USP_ERR_RECORD_FIELD_INVALID) else Some (hs, USP_OK))
        | Session_Context ctx \<Rightarrow> E2E_CONTEXT_ValidateSessionContextRecord (he_e2e env) ctx hs
        | Disconnect reason code \<Rightarrow> refuse_record env USP_ERR_SESS_CONTEXT_TERMINATED from mrt hs
        | _ \<Rightarrow> Some (hs, Inl USP_ERR_REQUEST_DENIED))"

definition ValidateUspRecord :: "handler_env \<Rightarrow> usp_record \<Rightarrow> mtp_reply_to \<Rightarrow> handler_state \<Rightarrow> handled" where
  "ValidateUspRecord env rec mrt hs =
    (if to_id rec \<noteq> Some (agent_endpoint (he_e2e env)) then Some (hs, Inl USP_ERR_REQUEST_DENIED)
     else case from_id rec of
       None \<Rightarrow> Some (hs, Inl USP_ERR_RECORD_FIELD_INVALID)
     | Some from \<Rightarrow>
        if from = [] then Some (hs, Inl USP_ERR_RECORD_FIELD_INVALID)
        else
         (let hs1 = hs\<lparr>cur_msg_controller_instance := DEVICE_CONTROLLER_FindInstanceByEndpointId (ctrls hs) (Some from)\<rparr>
          in if cur_msg_controller_instance hs1 = INVALID then Some (hs1, Inl USP_ERR_REQUEST_DENIED)
             else case (if is_reply_to_specified mrt then Some True else DEVICE_CONTROLLER_IsMTPConfigured (ctrls hs) from (reply_protocol mrt)) of
               None \<Rightarrow> None
             | Some has_mtp \<Rightarrow>
                if \<not> has_mtp then Some (hs1, Inl USP_ERR_REQUEST_DENIED) else validate_content env rec from mrt hs1))"

definition MSG_HANDLER_HandleBinaryRecord :: "handler_env \<Rightarrow> bytes \<Rightarrow> nat \<Rightarrow> mtp_reply_to \<Rightarrow> handler_state \<Rightarrow> handled" where
  "MSG_HANDLER_HandleBinaryRecord env bs role mrt hs =
    (case unpack_record env bs of
       None \<Rightarrow> Some (hs, Inl USP_ERR_RECORD_NOT_PARSED)
     | Some rec \<Rightarrow>
        (let mrt1 = (if cont_endpoint_id mrt = None then mrt\<lparr>cont_endpoint_id := from_id rec\<rparr> else mrt)
         in case ValidateUspRecord env rec mrt1 hs of
              None \<Rightarrow> None
            | Some (hs1, Inl err) \<Rightarrow> Some (hs1, Inl err)
            | Some (hs1, Inr _) \<Rightarrow> E2E_CONTEXT_HandleUspRecord (he_e2e env) (MSG_HANDLER_HandleBinaryMessage env) rec role mrt1 hs1))"

section \<open>What sending leaves alone\<close>

text \<open>Queueing records and the events of sessions change the table and the log, and nothing of the agent's other state.\<close>

definition rest_kept :: "'m cont_state_scheme \<Rightarrow> 'm cont_state_scheme \<Rightarrow> bool" where
  "rest_kept cs cs' \<longleftrightarrow> cont_state.more cs' = cont_state.more cs"

named_theorems rest_intros \<open>operations that keep the rest of the state\<close>

lemma rest_refl [simp, rest_intros]: "rest_kept cs cs"
  by (simp add: rest_kept_def)

lemma rest_trans: "rest_kept cs cs1 \<Longrightarrow> rest_kept cs1 cs2 \<Longrightarrow> rest_kept cs cs2"
  by (simp add: rest_kept_def)

lemma rest_put [simp]: "rest_kept cs (put_session i f cs)" "rest_kept cs (note_call c cs)"
  "rest_kept (put_session i f cs) cs' = rest_kept cs cs'"
  by (simp_all add: rest_kept_def put_session_def upd_ctrl_def note_call_def)

lemma QueueBinaryMessage_rest: "DEVICE_CONTROLLER_QueueBinaryMessage env cs msi ep mrt = Some (cs', r) \<Longrightarrow> rest_kept cs cs'"
  using QueueBinaryMessage_cases by fastforce

lemma queue_segment_rest: "queue_segment env i usi ep mrt ctx first whole seg cs = Some (cs', r) \<Longrightarrow> rest_kept cs cs'"
  unfolding queue_segment_def Let_def
  by (auto split: prod.splits option.splits if_splits dest: QueueBinaryMessage_rest)

lemma queue_segments_rest: "queue_segments env i usi ep mrt ctx capacity first rest cs = Some (cs', r) \<Longrightarrow> rest_kept cs cs'"
proof (induction env i usi ep mrt ctx capacity first rest cs rule: queue_segments.induct)
  case (1 env i usi ep mrt ctx capacity first rest cs)
  let ?seg = "take capacity rest"
  obtain cs1 r1 where q: "queue_segment env i usi ep mrt ctx first (length rest \<le> length ?seg) ?seg cs = Some (cs1, r1)"
    using 1(2) by (subst (asm) queue_segments.simps) (auto simp: Let_def split: option.splits)
  have k: "rest_kept cs cs1" by (rule queue_segment_rest [OF q])
  consider "cs' = cs1" | u where "r1 = Inr u" "drop capacity rest \<noteq> []" "capacity \<noteq> 0"
      "queue_segments env i usi ep mrt ctx capacity False (drop capacity rest) cs1 = Some (cs', r)"
    using 1(2) q by (subst (asm) queue_segments.simps) (auto simp: Let_def split: sum.splits if_splits)
  then show ?case
  proof cases
    case 2
    then have "rest_kept cs1 cs'" using 1(1) [OF refl refl q] by simp
    then show ?thesis using k rest_trans by blast
  qed (use k in simp)
qed

lemma QueueUspRecord_rest: "MSG_HANDLER_QueueUspRecord env usi endpoint mrt cs = Some (cs', r) \<Longrightarrow> rest_kept cs cs'"
  unfolding MSG_HANDLER_QueueUspRecord_def E2E_CONTEXT_QueueUspSessionRecord_def QueueUspNoSessionRecord_def Let_def
  by (auto split: option.splits if_splits dest: QueueBinaryMessage_rest queue_segments_rest)

lemma QueueUspDisconnectRecord_rest:
  "MSG_HANDLER_QueueUspDisconnectRecord env content ep code reason mrt cs = Some (cs', r) \<Longrightarrow> rest_kept cs cs'"
  unfolding MSG_HANDLER_QueueUspDisconnectRecord_def by (auto dest: QueueBinaryMessage_rest split: option.splits)

lemma complete_request_rest [simp]: "rest_kept cs (complete_request request err cs') = rest_kept cs cs'"
  by (simp add: complete_request_def rest_kept_def note_call_def)

lemma E2eSessionEvent_rest:
  assumes "E2E_CONTEXT_E2eSessionEvent env event request inst cs = Some cs'" shows "rest_kept cs cs'"
proof -
  have t: "rest_kept cs1 cs2" if "send_termination env event dest cs1 = Some cs2" for dest cs1 cs2
    using that QueueUspDisconnectRecord_rest by (fastforce simp: send_termination_def split: if_splits)
  have e: "rest_kept cs1 cs2" if "send_establishment env event i dest cs1 = Some cs2" for i dest cs1 cs2
    using that QueueUspRecord_rest by (fastforce simp: send_establishment_def split: if_splits)
  show ?thesis
  proof (cases "DEVICE_CONTROLLER_FindE2ESessionByInstance (ctrls cs) inst")
    case None
    then show ?thesis using assms by (auto simp: E2E_CONTEXT_E2eSessionEvent_def)
  next
    case (Some i)
    let ?cs1 = "put_session i (\<lambda>e. e\<lparr>e2e_mode := mode_buffered e\<rparr>) cs"
    consider r where "cs' = complete_request request r ?cs1"
      | dest cs2 cs3 where "send_termination env event dest (put_session i ClearE2eSessionState ?cs1) = Some cs2"
        "send_establishment env event i dest cs2 = Some cs3" "cs' = complete_request request None cs3"
      using assms Some unfolding E2E_CONTEXT_E2eSessionEvent_def Let_def
      by (auto simp: bind_eq_Some_conv split: if_splits option.splits)
    then show ?thesis
    proof cases
      case 2
      then show ?thesis using t [OF 2(1)] e [OF 2(2)] rest_trans by auto
    qed simp
  qed
qed

lemma after_event_rest: "after_event env event r ms = Some (ms', r') \<Longrightarrow> rest_kept ms ms'"
  unfolding after_event_def by (auto dest: E2eSessionEvent_rest)

lemma rest_agent: "rest_kept hs hs' \<Longrightarrow> dm_agent hs' = dm_agent hs"
  by (cases hs; cases hs') (simp add: rest_kept_def)

section \<open>Who may change the data model\<close>

text \<open>The handler of the message, where it is called, sees the roles of the controllers as they were.\<close>

definition roles_kept :: "controller_t list \<Rightarrow> controller_t list \<Rightarrow> bool" where
  "roles_kept cs cs' \<longleftrightarrow> (\<forall>ep. DEVICE_CONTROLLER_GetCombinedRoleByEndpointId cs' ep = DEVICE_CONTROLLER_GetCombinedRoleByEndpointId cs ep)"

lemma roles_put: "i < length (ctrls cs) \<Longrightarrow> roles_kept (ctrls cs) (ctrls (put_session i f cs))"
  unfolding roles_kept_def DEVICE_CONTROLLER_GetCombinedRoleByEndpointId_def
  by (simp add: Let_def) (simp add: put_session_def upd_ctrl_nth upd_session_def)

lemma HandleUspRecord_calls_handler:
  assumes "E2E_CONTEXT_HandleUspRecord env handle rec role mrt ms = Some (ms', r)" "\<not> rest_kept ms ms'"
  shows "\<exists>bs ms1. rest_kept ms ms1 \<and> roles_kept (ctrls ms) (ctrls ms1) \<and> handle bs role (from_id rec) mrt ms1 = Some (ms', r)"
proof -
  have self: "roles_kept (ctrls ms) (ctrls ms)" by (simp add: roles_kept_def)
  show ?thesis
  proof (cases "record_type rec")
    case (No_Session_Context p)
    then obtain payload where p: "record_type rec = No_Session_Context (Some payload)" using assms(1) by (cases p) (auto simp: E2E_CONTEXT_HandleUspRecord_def)
    obtain ms1 r1 where v: "ValidateNoSessionContextHandling env ms = Some (ms1, r1)"
      using assms(1) p by (auto simp: E2E_CONTEXT_HandleUspRecord_def split: option.splits)
    have k: "rest_kept ms ms1 \<and> (r1 = USP_OK \<longrightarrow> ms1 = ms)"
      using v unfolding ValidateNoSessionContextHandling_def
      by (auto split: option.splits if_splits dest: E2eSessionEvent_rest simp: after_event_def)
    show ?thesis
    proof (cases r1)
      case (Inl e)
      then show ?thesis using assms p v k by (simp add: E2E_CONTEXT_HandleUspRecord_def)
    next
      case (Inr u)
      then have "handle (payload_bytes payload) role (from_id rec) mrt ms = Some (ms', r)"
        using assms(1) p v k by (simp add: E2E_CONTEXT_HandleUspRecord_def)
      then show ?thesis using self by (intro exI [of _ "payload_bytes payload"] exI [of _ ms]) simp
    qed
  next
    case (Session_Context c)
    then obtain ctx where c: "record_type rec = Session_Context (Some ctx)" using assms(1) by (cases c) (auto simp: E2E_CONTEXT_HandleUspRecord_def)
    obtain ms1 r1 where v: "ValidateSessionContextHandling env ctx ms = Some (ms1, r1)"
      using assms(1) c by (auto simp: E2E_CONTEXT_HandleUspRecord_def split: option.splits)
    have k: "rest_kept ms ms1 \<and> (r1 = USP_OK \<longrightarrow> ms1 = ms)"
      using v unfolding ValidateSessionContextHandling_def
      by (auto split: option.splits dest: E2eSessionEvent_rest simp: after_event_def)
    show ?thesis
    proof (cases r1)
      case (Inl e)
      then show ?thesis using assms c v k by (simp add: E2E_CONTEXT_HandleUspRecord_def)
    next
      case (Inr u)
      then have h: "HandleSessionContextRecord env handle (from_id rec) ctx role mrt ms = Some (ms', r)"
        using assms(1) c v k by (simp add: E2E_CONTEXT_HandleUspRecord_def)
      obtain i where i: "cur_session ms = Some i" using h by (auto simp: HandleSessionContextRecord_def split: if_splits option.splits)
      note l = cur_session_less [OF i]
      have "rest_kept ms ms' \<or> (\<exists>bs f. handle bs role (from_id rec) mrt (put_session i f ms) = Some (ms', r))"
        using h i unfolding HandleSessionContextRecord_def Let_def
        by (auto split: if_splits prod.splits option.splits dest: after_event_rest)
      then show ?thesis using assms(2) roles_put [OF l] rest_put(1) by blast
    qed
  qed (use assms in \<open>auto simp: E2E_CONTEXT_HandleUspRecord_def\<close>)
qed

lemma validate_content_rest:
  "validate_content env rec from mrt hs = Some (hs', r) \<Longrightarrow> rest_kept hs hs' \<and> (r = USP_OK \<longrightarrow> hs' = hs \<and> payload_security rec = PAYLOAD_SECURITY_PLAINTEXT)"
  unfolding validate_content_def refuse_record_def E2E_CONTEXT_ValidateSessionContextRecord_def Let_def
  by (auto split: if_splits record_type.splits option.splits dest: QueueUspDisconnectRecord_rest E2eSessionEvent_rest simp: after_event_def)

lemma validate_content_agent: "validate_content env rec from mrt hs = Some (hs', r) \<Longrightarrow> dm_agent hs' = dm_agent hs"
  using validate_content_rest rest_agent by blast

lemma ValidateUspRecord_agent:
  assumes "ValidateUspRecord env rec mrt hs = Some (hs', r)" shows "dm_agent hs' = dm_agent hs"
  using assms unfolding ValidateUspRecord_def Let_def
  by (auto split: if_splits option.splits dest: validate_content_agent)

text \<open>
  C3: the data model changes only for a message that came in a record which the agent could unpack, addressed to this
  agent, not secured, from an enabled controller that the agent can answer, over a connection whose role
  is the one this controller has inherited.
\<close>

theorem HandleBinaryRecord_authorised:
  assumes "MSG_HANDLER_HandleBinaryRecord env bs role mrt hs = Some (hs', r)" "dm_agent hs' \<noteq> dm_agent hs"
  shows "\<exists>rec from cr. unpack_record env bs = Some rec \<and> to_id rec = Some (agent_endpoint (he_e2e env)) \<and> from_id rec = Some from \<and>
    payload_security rec = PAYLOAD_SECURITY_PLAINTEXT \<and>
    DEVICE_CONTROLLER_FindInstanceByEndpointId (ctrls hs) (Some from) \<noteq> INVALID \<and>
    (is_reply_to_specified mrt \<or> DEVICE_CONTROLLER_IsMTPConfigured (ctrls hs) from (reply_protocol mrt) = Some True) \<and>
    DEVICE_CONTROLLER_GetCombinedRoleByEndpointId (ctrls hs) from = Inr cr \<and> inherited cr = role \<and> reply_protocol mrt = kMtpProtocol_MQTT"
proof -
  obtain rec where rec: "unpack_record env bs = Some rec"
    using assms by (auto simp: MSG_HANDLER_HandleBinaryRecord_def split: option.splits)
  define mrt1 where "mrt1 = (if cont_endpoint_id mrt = None then mrt\<lparr>cont_endpoint_id := from_id rec\<rparr> else mrt)"
  have mrt1: "is_reply_to_specified mrt1 = is_reply_to_specified mrt" "reply_protocol mrt1 = reply_protocol mrt" by (simp_all add: mrt1_def)
  obtain hs1 r1 where v: "ValidateUspRecord env rec mrt1 hs = Some (hs1, r1)"
    using assms(1) rec by (auto simp: MSG_HANDLER_HandleBinaryRecord_def mrt1_def Let_def split: option.splits)
  let ?i = "\<lambda>from. DEVICE_CONTROLLER_FindInstanceByEndpointId (ctrls hs) (Some from)"
  have agent: "dm_agent hs1 = dm_agent hs" by (rule ValidateUspRecord_agent [OF v])
  have "\<not> isl r1"
  proof
    assume "isl r1"
    then show False using assms rec v agent by (cases r1) (auto simp: MSG_HANDLER_HandleBinaryRecord_def mrt1_def Let_def)
  qed
  then have "r1 = USP_OK" by (cases r1) auto
  then obtain ep has where to: "to_id rec = Some (agent_endpoint (he_e2e env))" and fr: "from_id rec = Some ep" "?i ep \<noteq> INVALID"
    and mtp: "(if is_reply_to_specified mrt then Some True else DEVICE_CONTROLLER_IsMTPConfigured (ctrls hs) ep (reply_protocol mrt)) = Some has" "has"
    and content: "validate_content env rec ep mrt1 (hs\<lparr>cur_msg_controller_instance := ?i ep\<rparr>) = Some (hs1, USP_OK)"
    using v unfolding ValidateUspRecord_def Let_def mrt1 by (auto split: if_splits option.splits)
  note c = validate_content_rest [OF content]
  have h: "E2E_CONTEXT_HandleUspRecord (he_e2e env) (MSG_HANDLER_HandleBinaryMessage env) rec role mrt1 hs1 = Some (hs', r)"
    using assms(1) rec v \<open>r1 = USP_OK\<close> by (simp add: MSG_HANDLER_HandleBinaryRecord_def mrt1_def Let_def)
  have "\<not> rest_kept hs1 hs'" using assms(2) agent rest_agent by metis
  from HandleUspRecord_calls_handler [OF h this] obtain bs' ms1
    where ms1: "rest_kept hs1 ms1" "roles_kept (ctrls hs1) (ctrls ms1)" "MSG_HANDLER_HandleBinaryMessage env bs' role (from_id rec) mrt1 ms1 = Some (hs', r)"
    by blast
  have "dm_agent ms1 = dm_agent hs" using rest_agent [OF ms1(1)] agent by simp
  then have "CacheControllerRoleForCurMsg (Some ep) role (reply_protocol mrt) ms1 \<noteq> None"
    using ms1(3) assms(2) fr(1) mrt1 by (auto simp: MSG_HANDLER_HandleBinaryMessage_def split: option.splits)
  moreover have "DEVICE_CONTROLLER_GetCombinedRoleByEndpointId (ctrls ms1) ep = DEVICE_CONTROLLER_GetCombinedRoleByEndpointId (ctrls hs) ep"
    using ms1(2) c by (simp add: roles_kept_def)
  moreover obtain cr where cr: "DEVICE_CONTROLLER_GetCombinedRoleByEndpointId (ctrls hs) ep = Inr cr"
    using fr(2) by (auto simp: DEVICE_CONTROLLER_FindInstanceByEndpointId_def DEVICE_CONTROLLER_GetCombinedRoleByEndpointId_def Let_def split: if_splits)
  ultimately have role: "inherited cr = role" "reply_protocol mrt = kMtpProtocol_MQTT"
    by (auto simp: CacheControllerRoleForCurMsg_def Let_def split: if_splits)
  have "is_reply_to_specified mrt \<or> DEVICE_CONTROLLER_IsMTPConfigured (ctrls hs) ep (reply_protocol mrt) = Some True"
    using mtp by (simp split: if_splits)
  then show ?thesis using rec to fr c cr role by blast
qed

section \<open>Every request is answered\<close>

fun msg_id_of :: "'r usp_msg \<Rightarrow> cstr" where
  "msg_id_of (Response msg_id r) = msg_id"
| "msg_id_of (Error_Response msg_id err pes) = msg_id"

fun out_msg_id :: "usp_out \<Rightarrow> cstr" where
  "out_msg_id (Out_Get m) = msg_id_of m"
| "out_msg_id (Out_Set m) = msg_id_of m"
| "out_msg_id (Out_Add m) = msg_id_of m"
| "out_msg_id (Out_Delete m) = msg_id_of m"
| "out_msg_id (Out_Operate m) = msg_id_of m"
| "out_msg_id (Out_Get_Instances m) = msg_id_of m"
| "out_msg_id (Out_Get_Supported_DM m) = msg_id_of m"
| "out_msg_id (Out_Get_Supported_Proto m) = msg_id_of m"
| "out_msg_id (Out_Error m) = msg_id_of m"

text \<open>The requests that the agent serves; an operation may ask for no response.\<close>

definition request_types :: "int set" where
  "request_types = {USP_HEADER_GET, USP_HEADER_SET, USP_HEADER_ADD, USP_HEADER_DELETE, USP_HEADER_OPERATE,
     USP_HEADER_GET_INSTANCES, USP_HEADER_GET_SUPPORTED_DM, USP_HEADER_GET_SUPPORTED_PROTO}"

definition wants_response :: "int \<Rightarrow> usp_body \<Rightarrow> bool" where
  "wants_response ty body \<longleftrightarrow> ty \<in> request_types \<and>
    (ty \<noteq> USP_HEADER_OPERATE \<or> (case body of Body_Operate oper \<Rightarrow> or_send_resp oper | _ \<Rightarrow> False))"

lemma msg_id_CreateSingle [simp]: "msg_id_of (ERROR_RESP_CreateSingle msg_id err pes) = msg_id"
  by (simp add: CreateSingle_message)

lemma ag_case_msg_id:
  assumes "ag_case m f g = Some (ag', resp)"
    "\<And>ag1 err. f ag1 err = Some (ag', resp) \<Longrightarrow> msg_id_of resp = msg_id" "\<And>ag1 x. g ag1 x = Some (ag', resp) \<Longrightarrow> msg_id_of resp = msg_id"
  shows "msg_id_of resp = msg_id"
  using assms by (auto elim!: ag_case_Some)

lemma Get_msg_id: "MSG_HANDLER_HandleGet env ag msg_id request = Some (ag', resp) \<Longrightarrow> msg_id_of resp = msg_id"
  unfolding MSG_HANDLER_HandleGet_def CreateGetResp_def Let_def by (auto split: option.splits if_splits)

lemma Set_msg_id: "MSG_HANDLER_HandleSet env ag msg_id request = Some (ag', resp) \<Longrightarrow> msg_id_of resp = msg_id"
  unfolding MSG_HANDLER_HandleSet_def Grouped_HandleSet_def CreateSetResp_def ProcessAllowPartialTrue_def ProcessAllowPartialFalse_def Let_def
  by (auto simp: CreateErrRespFromFailedSetParams_def Let_def split: option.splits if_splits sum.splits prod.splits elim!: ag_case_msg_id)

lemma Add_msg_id: "MSG_HANDLER_HandleAdd env ag msg_id request = Some (ag', resp) \<Longrightarrow> msg_id_of resp = msg_id"
  unfolding MSG_HANDLER_HandleAdd_def CreateAddResp_def Let_def
  by (auto split: option.splits if_splits sum.splits elim!: ag_case_msg_id)

lemma Delete_msg_id: "MSG_HANDLER_HandleDelete env ag msg_id request = Some (ag', resp) \<Longrightarrow> msg_id_of resp = msg_id"
  unfolding MSG_HANDLER_HandleDelete_def CreateDeleteResp_def Let_def
  by (auto split: option.splits if_splits sum.splits elim!: ag_case_msg_id)

lemma Get_Instances_msg_id: "MSG_HANDLER_HandleGetInstances env ag msg_id request = Some (ag', resp) \<Longrightarrow> msg_id_of resp = msg_id"
  unfolding MSG_HANDLER_HandleGetInstances_def by (auto split: option.splits)

lemma Operate_msg_id: "MSG_HANDLER_HandleOperate env ag msg_id (Some oper) = Some (ag', resp) \<Longrightarrow>
    (if or_send_resp oper then \<exists>m. resp = Some m \<and> msg_id_of m = msg_id else resp = None)"
  unfolding MSG_HANDLER_HandleOperate_def operate_message_def by (auto elim!: ag_case_Some split: if_splits)

lemma Supported_msg_id:
  "MSG_HANDLER_HandleGetSupportedDM env st msg_id request = Some resp \<Longrightarrow> msg_id_of resp = msg_id"
  "msg_id_of (MSG_HANDLER_HandleGetSupportedProtocol msg_id is_req) = msg_id"
  unfolding MSG_HANDLER_HandleGetSupportedDM_def MSG_HANDLER_HandleGetSupportedProtocol_def CreateGetSupportedProtocolResp_def
  by (auto split: option.splits)

lemmas msg_ids = Get_msg_id Set_msg_id Add_msg_id Delete_msg_id Get_Instances_msg_id Supported_msg_id

text \<open>A request is served by one response, whose message type is the next one or that of an error.\<close>

lemma dispatch_responds:
  assumes "dispatch_message env ty msg_id body endpoint mrt hs = Some (hs', r)" "wants_response ty body"
  shows "\<exists>out ag. (ag = dm_agent hs \<and> respond env endpoint mrt out hs = Some hs' \<or> respond env endpoint mrt out (with_agent env ag hs) = Some hs') \<and>
    r = USP_OK \<and> out_msg_id out = msg_id \<and> out_msg_type out \<in> {ty + 1, USP_HEADER_ERROR}"
proof -
  have t: "msg_type_of n m \<in> {n, USP_HEADER_ERROR}" for n and m :: "'r usp_msg" by (cases m) simp_all
  note d = assms(1) [unfolded dispatch_message_def Let_def]
  from assms(2) consider "ty = USP_HEADER_GET" | "ty = USP_HEADER_SET" | "ty = USP_HEADER_ADD" | "ty = USP_HEADER_DELETE"
    | oper where "ty = USP_HEADER_OPERATE" "body = Body_Operate oper" "or_send_resp oper"
    | "ty = USP_HEADER_GET_INSTANCES" | "ty = USP_HEADER_GET_SUPPORTED_DM" | "ty = USP_HEADER_GET_SUPPORTED_PROTO"
    unfolding wants_response_def request_types_def by (auto split: usp_body.splits)
  then show ?thesis
  proof cases
    case 1
    then obtain ag m where "MSG_HANDLER_HandleGet (cur_msg_env env hs) (dm_agent hs) msg_id (case body of Body_Get r \<Rightarrow> Some r | _ \<Rightarrow> None) = Some (ag, m)"
      and "respond env endpoint mrt (Out_Get m) (with_agent env ag hs) = Some hs'" "r = USP_OK"
      using d by (auto simp: run_on_agent_def split: option.splits)
    then show ?thesis using 1 t [of USP_HEADER_GET_RESP m] by (intro exI [of _ "Out_Get m"] exI [of _ ag]) (simp add: msg_ids header_defs)
  next
    case 2
    then obtain ag m where "MSG_HANDLER_HandleSet (cur_msg_env env hs) (dm_agent hs) msg_id (case body of Body_Set r \<Rightarrow> Some r | _ \<Rightarrow> None) = Some (ag, m)"
      and "respond env endpoint mrt (Out_Set m) (with_agent env ag hs) = Some hs'" "r = USP_OK"
      using d by (auto simp: run_on_agent_def header_defs split: option.splits)
    then show ?thesis using 2 t [of USP_HEADER_SET_RESP m] by (intro exI [of _ "Out_Set m"] exI [of _ ag]) (simp add: msg_ids header_defs)
  next
    case 3
    then obtain ag m where "MSG_HANDLER_HandleAdd (cur_msg_env env hs) (dm_agent hs) msg_id (case body of Body_Add r \<Rightarrow> Some r | _ \<Rightarrow> None) = Some (ag, m)"
      and "respond env endpoint mrt (Out_Add m) (with_agent env ag hs) = Some hs'" "r = USP_OK"
      using d by (auto simp: run_on_agent_def header_defs split: option.splits)
    then show ?thesis using 3 t [of USP_HEADER_ADD_RESP m] by (intro exI [of _ "Out_Add m"] exI [of _ ag]) (simp add: msg_ids header_defs)
  next
    case 4
    then obtain ag m where "MSG_HANDLER_HandleDelete (cur_msg_env env hs) (dm_agent hs) msg_id (case body of Body_Delete r \<Rightarrow> Some r | _ \<Rightarrow> None) = Some (ag, m)"
      and "respond env endpoint mrt (Out_Delete m) (with_agent env ag hs) = Some hs'" "r = USP_OK"
      using d by (auto simp: run_on_agent_def header_defs split: option.splits)
    then show ?thesis using 4 t [of USP_HEADER_DELETE_RESP m] by (intro exI [of _ "Out_Delete m"] exI [of _ ag]) (simp add: msg_ids header_defs)
  next
    case 5
    then obtain ag om where h: "MSG_HANDLER_HandleOperate (cur_oper_env env hs) (dm_agent hs) msg_id (Some oper) = Some (ag, om)"
      and o: "run_on_agent env endpoint mrt (map_option Out_Operate) hs (Some (ag, om)) = Some hs'" "r = USP_OK"
      using d by (auto simp: run_on_agent_def header_defs split: option.splits)
    obtain m where "om = Some m" "msg_id_of m = msg_id" using Operate_msg_id [OF h] 5(3) by auto
    then show ?thesis using 5 o t [of USP_HEADER_OPERATE_RESP m]
      by (intro exI [of _ "Out_Operate m"] exI [of _ ag]) (simp add: run_on_agent_def header_defs)
  next
    case 6
    then obtain ag m where "MSG_HANDLER_HandleGetInstances (cur_msg_env env hs) (dm_agent hs) msg_id (case body of Body_Get_Instances r \<Rightarrow> Some r | _ \<Rightarrow> None) = Some (ag, m)"
      and "respond env endpoint mrt (Out_Get_Instances m) (with_agent env ag hs) = Some hs'" "r = USP_OK"
      using d by (auto simp: run_on_agent_def header_defs split: option.splits)
    then show ?thesis using 6 t [of USP_HEADER_GET_INSTANCES_RESP m]
      by (intro exI [of _ "Out_Get_Instances m"] exI [of _ ag]) (simp add: msg_ids header_defs)
  next
    case 7
    then obtain m where "MSG_HANDLER_HandleGetSupportedDM (cur_supported_env env hs) (dm (dm_agent hs)) msg_id
        (case body of Body_Get_Supported_DM r \<Rightarrow> Some r | _ \<Rightarrow> None) = Some m"
      and "respond env endpoint mrt (Out_Get_Supported_DM m) hs = Some hs'" "r = USP_OK"
      using d by (auto simp: header_defs split: option.splits)
    then show ?thesis using 7 t [of USP_HEADER_GET_SUPPORTED_DM_RESP m]
      by (intro exI [of _ "Out_Get_Supported_DM m"] exI [of _ "dm_agent hs"]) (simp add: msg_ids header_defs)
  next
    case 8
    let ?m = "MSG_HANDLER_HandleGetSupportedProtocol msg_id (body = Body_Get_Supported_Proto)"
    have "respond env endpoint mrt (Out_Get_Supported_Proto ?m) hs = Some hs'" "r = USP_OK"
      using d 8 by (auto simp: header_defs)
    then show ?thesis using 8 t [of USP_HEADER_GET_SUPPORTED_PROTO_RESP ?m]
      by (intro exI [of _ "Out_Get_Supported_Proto ?m"] exI [of _ "dm_agent hs"]) (simp add: msg_ids header_defs)
  qed
qed

text \<open>What is needed of the connection and the controller for a record without a session to be handled.\<close>

definition plain_sender :: "handler_env \<Rightarrow> usp_record \<Rightarrow> cstr \<Rightarrow> nat \<Rightarrow> mtp_reply_to \<Rightarrow> handler_state \<Rightarrow> nat \<Rightarrow> bool" where
  "plain_sender env rec ep role mrt hs i \<longleftrightarrow>
    to_id rec = Some (agent_endpoint (he_e2e env)) \<and> from_id rec = Some ep \<and> ep \<noteq> [] \<and>
    payload_security rec = PAYLOAD_SECURITY_PLAINTEXT \<and>
    FindEnabledControllerByEndpointId (ctrls hs) ep = int i \<and>
    enabled_instance (ctrls hs) (cont_instance (ctrls hs ! i)) = Some i \<and> cont_instance (ctrls hs ! i) \<noteq> INVALID \<and>
    inherited (cont_role (ctrls hs ! i)) = role \<and> replies_taken (ee_cont (he_e2e env)) mrt \<and>
    \<not> E2E_CONTEXT_IsToSendThroughSessionContext (Some (cont_session (ctrls hs ! i)))"

lemma plain_record_handled:
  assumes "unpack_record env bs = Some rec" "plain_sender env rec ep role mrt hs i"
    "record_type rec = No_Session_Context (Some bd)" "bd_len bd \<noteq> 0" "unpack_msg env (payload_bytes bd) = Some usp"
  shows "MSG_HANDLER_HandleBinaryRecord env bs role mrt hs =
    HandleUspMessage env usp (Some ep) (if cont_endpoint_id mrt = None then mrt\<lparr>cont_endpoint_id := Some ep\<rparr> else mrt)
      (hs\<lparr>cur_msg_controller_instance := cont_instance (ctrls hs ! i), cur_msg_endpoint := Some ep,
         cur_msg_combined_role := cont_role (ctrls hs ! i)\<rparr>)"
proof -
  define mrt1 where "mrt1 = (if cont_endpoint_id mrt = None then mrt\<lparr>cont_endpoint_id := Some ep\<rparr> else mrt)"
  note p = assms(2) [unfolded plain_sender_def]
  let ?hs = "hs\<lparr>cur_msg_controller_instance := cont_instance (ctrls hs ! i)\<rparr>"
  have from_ep: "from_id rec = Some ep" using p by simp
  have m: "is_reply_to_specified mrt1" "reply_protocol mrt1 = kMtpProtocol_MQTT" using p by (simp_all add: mrt1_def replies_taken_def)
  have f: "FindEnabledControllerByEndpointId (ctrls hs) ep = int i" using p by simp
  have "DEVICE_CONTROLLER_FindInstanceByEndpointId (ctrls hs) (Some ep) = cont_instance (ctrls hs ! i)"
    by (simp add: DEVICE_CONTROLLER_FindInstanceByEndpointId_def f Let_def)
  then have v: "ValidateUspRecord env rec mrt1 hs = Some (?hs, USP_OK)"
    using p m assms(3,4) by (simp add: ValidateUspRecord_def validate_content_def Let_def)
  have s: "cur_session ?hs = Some i"
    using p by (simp add: cur_session_def MSG_HANDLER_GetMsgControllerInstance_def DEVICE_CONTROLLER_FindE2ESessionByInstance_def)
  have n: "ValidateNoSessionContextHandling (he_e2e env) ?hs = Some (?hs, USP_OK)"
    using p by (simp add: ValidateNoSessionContextHandling_def s session_of_def E2E_CONTEXT_IsToSendThroughSessionContext_def split: if_splits)
  have c: "CacheControllerRoleForCurMsg (Some ep) role (reply_protocol mrt1) ?hs =
      Some (?hs\<lparr>cur_msg_endpoint := Some ep, cur_msg_combined_role := cont_role (ctrls hs ! i)\<rparr>)"
    using p by (simp add: CacheControllerRoleForCurMsg_def DEVICE_CONTROLLER_GetCombinedRoleByEndpointId_def f m Let_def)
  have "MSG_HANDLER_HandleBinaryRecord env bs role mrt hs = MSG_HANDLER_HandleBinaryMessage env (payload_bytes bd) role (Some ep) mrt1 ?hs"
    unfolding MSG_HANDLER_HandleBinaryRecord_def assms(1) option.case from_ep mrt1_def [symmetric] Let_def
    using p by (simp add: v n assms(3) E2E_CONTEXT_HandleUspRecord_def)
  then show ?thesis unfolding MSG_HANDLER_HandleBinaryMessage_def assms(5) option.case c mrt1_def [symmetric] by simp
qed

text \<open>The record that carries a response.\<close>

definition response_record :: "handler_env \<Rightarrow> cstr \<Rightarrow> usp_out \<Rightarrow> usp_record" where
  "response_record env ep out =
    record_to (agent_endpoint (he_e2e env)) ep (No_Session_Context (Some (binary_of (pack_msg env out))))"

lemma respond_queues:
  assumes "respond env (Some ep) mrt out hs = Some hs'" "pack_msg env out \<noteq> []" "replies_taken (ee_cont (he_e2e env)) mrt"
    "FindEnabledControllerByEndpointId (ctrls hs) ep \<noteq> INVALID"
    "\<not> E2E_CONTEXT_IsToSendThroughSessionContext (map_option (session_of hs) (cur_session hs))"
  shows "\<exists>item. hs' = note_call (Queued item) hs \<and> mq_instance item = reply_mqtt_instance mrt \<and> mq_topic item = reply_mqtt_topic mrt \<and>
    mtp_pbuf (mq_item item) = pack (response_record env ep out)"
proof -
  have "packed_item kMtpContentType_UspMessage (out_msg_type out) (response_record env ep out) =
      Some \<lparr>content_type = kMtpContentType_UspMessage, usp_msg_type = out_msg_type out, mtp_pbuf = pack (response_record env ep out)\<rparr>"
    by (rule packed_item_Some) (simp add: response_record_def)
  then show ?thesis using assms
    by (auto simp: respond_def MSG_HANDLER_QueueMessage_def MSG_HANDLER_QueueUspRecord_def QueueUspNoSessionRecord_def
        response_record_def DEVICE_CONTROLLER_QueueBinaryMessage_def QueueBinaryMessageOnMtp_def queue_mqtt_def replies_taken_def Let_def
        intro!: exI [where x = "\<lparr>mq_item = _, mq_instance = _, mq_topic = _\<rparr>"])
qed


section \<open>Examples\<close>

definition demo_delete :: delete_req where
  "demo_delete = \<lparr>del_obj_paths = [''X'', ''Device.A.7.''], del_allow_partial = True\<rparr>"

definition demo_record :: usp_record where
  "demo_record = record_to ''a'' ''me'' (No_Session_Context (Some (binary_of [1])))"

definition demo_handler_env :: handler_env where
  "demo_handler_env = \<lparr>he_e2e = session_env, he_oper = demo_oper_env no_hooks,
    he_supported = \<lparr>sd_role = all_roles, sd_opers = (\<lambda>_. zero_oper_info), sd_event_args = (\<lambda>_. []), sd_deny_add = (\<lambda>_. False),
      sd_deny_del = (\<lambda>_. False)\<rparr>,
    pack_msg = (\<lambda>_. [1]), unpack_msg = (\<lambda>_. Some \<lparr>in_header = Some (USP_HEADER_DELETE, ''1''), in_body = Body_Delete demo_delete\<rparr>),
    unpack_record = (\<lambda>_. Some demo_record), table_after = (\<lambda>_ _ cs. cs)\<rparr>"

text \<open>The controller \<open>a\<close>, which uses no session, and a data model with an object to delete.\<close>

definition demo_handler_state :: handler_state where
  "demo_handler_state = \<lparr>timers = [], first_sync_timer_time = 0,
     ctrls = [zero_controller\<lparr>cont_instance := 1, cont_enable := True, endpoint_id := ''a'',
       cont_session := zero_session\<lparr>e2e_mode := kE2EMode_Allow, e2e_status := kE2EStatus_Down\<rparr>\<rparr>],
     first_periodic_notification_time = 0, cont_seed = 0, calls = [], cur_msg_controller_instance = INVALID,
     cur_msg_combined_role = \<lparr>inherited = 0, assigned = 1\<rparr>, cur_msg_endpoint = None,
     dm_agent = idle_agent, hs_retries = [], hs_first_retry_time = 0\<rparr>"

lemma demo_sender: "plain_sender demo_handler_env demo_record ''a'' 0 mqtt_reply demo_handler_state 0"
  using mqtt_reply_taken
  by (simp add: plain_sender_def demo_handler_env_def demo_record_def record_to_def demo_handler_state_def session_env_def
      FindEnabledControllerByEndpointId_def enabled_instance_def FindControllerByInstance_def first_index_Cons zero_controller_def
      E2E_CONTEXT_IsToSendThroughSessionContext_def)

lemma demo_record_facts:
  "unpack_record demo_handler_env bs = Some demo_record" "record_type demo_record = No_Session_Context (Some (binary_of [1]))"
  "bd_len (binary_of [1]) \<noteq> 0" "unpack_msg demo_handler_env bs' = Some \<lparr>in_header = Some (USP_HEADER_DELETE, ''1''), in_body = Body_Delete demo_delete\<rparr>"
  "wants_response USP_HEADER_DELETE (Body_Delete demo_delete)"
  "\<forall>ag ag' cs. table_after demo_handler_env ag ag' cs = cs" "\<forall>out. pack_msg demo_handler_env out \<noteq> []"
  by (simp_all add: demo_handler_env_def demo_record_def record_to_def binary_of_def wants_response_def request_types_def header_defs)

lemma demo_record_run:
  obtains hs' where "MSG_HANDLER_HandleBinaryRecord demo_handler_env [] 0 mqtt_reply demo_handler_state = Some (hs', USP_OK)"
    "dm_agent hs' \<noteq> dm_agent demo_handler_state"
proof -
  define mrt where "mrt = (if cont_endpoint_id mqtt_reply = None then mqtt_reply\<lparr>cont_endpoint_id := Some ''a''\<rparr> else mqtt_reply)"
  define hs where "hs = demo_handler_state\<lparr>cur_msg_controller_instance := cont_instance (ctrls demo_handler_state ! 0),
    cur_msg_endpoint := Some ''a'', cur_msg_combined_role := cont_role (ctrls demo_handler_state ! 0)\<rparr>"
  obtain ag' m where h: "MSG_HANDLER_HandleDelete (demo_msg_env no_hooks) idle_agent ''1'' (Some demo_delete) = Some (ag', m)"
    and ev: "events (dm ag') \<noteq> []"
    using demo_delete_partial unfolding demo_delete_def by blast
  let ?hs = "with_agent demo_handler_env ag' hs"
  have e: "cur_msg_env demo_handler_env hs = demo_msg_env no_hooks" "dm_agent hs = idle_agent"
    by (simp_all add: cur_msg_env_def demo_handler_env_def hs_def demo_handler_state_def zero_controller_def demo_msg_env_def all_roles_def)
  have "\<exists>hs'. respond demo_handler_env (Some ''a'') mrt (Out_Delete m) ?hs = Some hs' \<and> dm_agent hs' = ag'"
  proof -
    have "packed_item kMtpContentType_UspMessage (out_msg_type (Out_Delete m)) (response_record demo_handler_env ''a'' (Out_Delete m)) =
        Some \<lparr>content_type = kMtpContentType_UspMessage, usp_msg_type = out_msg_type (Out_Delete m),
          mtp_pbuf = pack (response_record demo_handler_env ''a'' (Out_Delete m))\<rparr>"
      by (rule packed_item_Some) (simp add: response_record_def)
    moreover have "\<not> E2E_CONTEXT_IsToSendThroughSessionContext (map_option (session_of ?hs) (cur_session ?hs))"
      "FindEnabledControllerByEndpointId (ctrls ?hs) ''a'' \<noteq> INVALID"
      using demo_sender by (auto simp: plain_sender_def with_agent_def demo_handler_env_def hs_def cur_session_def session_of_def
        MSG_HANDLER_GetMsgControllerInstance_def DEVICE_CONTROLLER_FindE2ESessionByInstance_def)
    moreover have "is_reply_to_specified mrt" "reply_protocol mrt = kMtpProtocol_MQTT" by (simp_all add: mrt_def mqtt_reply_def)
    moreover have "mqtt_accepts (ee_cont (he_e2e demo_handler_env)) cs item = USP_OK" for cs item
      using mqtt_reply_taken by (simp add: demo_handler_env_def replies_taken_def)
    ultimately show ?thesis
      using demo_record_facts(7)
      by (auto simp: respond_def MSG_HANDLER_QueueMessage_def MSG_HANDLER_QueueUspRecord_def QueueUspNoSessionRecord_def
        response_record_def DEVICE_CONTROLLER_QueueBinaryMessage_def QueueBinaryMessageOnMtp_def queue_mqtt_def note_call_def with_agent_def Let_def)
  qed
  then obtain hs' where r: "respond demo_handler_env (Some ''a'') mrt (Out_Delete m) ?hs = Some hs'" "dm_agent hs' = ag'" by blast
  have "MSG_HANDLER_HandleBinaryRecord demo_handler_env [] 0 mqtt_reply demo_handler_state = Some (message_done hs', USP_OK)"
    unfolding plain_record_handled [OF demo_record_facts(1) demo_sender demo_record_facts(2,3,4)]
    unfolding mrt_def [symmetric] hs_def [symmetric]
    by (simp add: HandleUspMessage_def dispatch_message_def header_defs e h run_on_agent_def r)
  moreover have "dm_agent (message_done hs') \<noteq> dm_agent demo_handler_state"
    using ev r(2) by (auto simp: message_done_def note_call_def demo_handler_state_def idle_agent_def table_agent_def demo_agent_def demo_state_def)
  ultimately show thesis by (rule that)
qed

theorem HandleBinaryRecord_authorised_witness:
  "\<exists>hs' rec from. MSG_HANDLER_HandleBinaryRecord demo_handler_env [] 0 mqtt_reply demo_handler_state = Some (hs', USP_OK) \<and>
    dm_agent hs' \<noteq> dm_agent demo_handler_state \<and>
    unpack_record demo_handler_env [] = Some rec \<and> to_id rec = Some ''me'' \<and> from_id rec = Some from"
proof -
  obtain hs' where h: "MSG_HANDLER_HandleBinaryRecord demo_handler_env [] 0 mqtt_reply demo_handler_state = Some (hs', USP_OK)"
    "dm_agent hs' \<noteq> dm_agent demo_handler_state" by (rule demo_record_run)
  have "agent_endpoint (he_e2e demo_handler_env) = ''me''" by (simp add: demo_handler_env_def session_env_def)
  then show ?thesis using HandleBinaryRecord_authorised [OF h] h by auto
qed


end
