(* ===== verification/Spec2Isabelle.thy ===== *)
theory Spec2Isabelle
  imports Subs_Retry Path_Cycle Msg_Handler
begin

text \<open>
  A model of the core of the USP agent (TR-369) in \<open>src/tr369/src/main/cpp/openTr369\<close>: a C program
  that keeps the TR-181 data model of a device, stores its parameters in a database and lets
  controllers get, set, add, delete and subscribe to them. The model follows the build of
  \<open>CMakeLists.txt\<close> (MQTT only; STOMP, CoAP and WebSockets are left out) for armeabi-v7a: plain char is
  unsigned, int and time_t have 32 bits.

  \<^bold>\<open>The parts of the program and how they interact.\<close> The data model is a tree of nodes found through a
  hash of their schema path (\<open>core/data_model.c\<close>). Objects with many instances keep the numbers of
  their instances in instance vectors (\<open>core/dm_inst_vector.c\<close>), some of them refreshed by vendor
  hooks. Values of parameters live in the database under the hash of the schema path and the
  instance numbers (\<open>core/database.c\<close>), or come from vendor hooks. Adding, setting and deleting run
  inside a transaction (\<open>core/dm_trans.c\<close>) whose list of operations a commit turns into life events and
  notifications and an abort undoes. Paths with wildcards, search expressions and references are
  expanded by the path resolver (\<open>core/path_resolver.c\<close>), which parses the expressions
  (\<open>core/expr_vector.c\<close>), compares typed values (\<open>core/dm_access.c\<close>) and gets values in groups
  (\<open>core/group_get_vector.c\<close>). Notifications that need an answer are sent again (\<open>core/subs_retry.c\<close>)
  when a timer of the data model thread fires (\<open>core/sync_timer.c\<close>).

  The messages of controllers work on all of this: a Get, Set, Add, Delete, Get Instances or Operate
  (\<open>core/handle_*.c\<close>) resolves its paths with the permissions of the controller's role, runs its changes in
  one transaction for the message or, where partial results are allowed, in one for each object or
  expression, and is answered with a response or an error (\<open>core/error_resp.c\<close>). Asynchronous operations are
  kept as requests of a table of the data model (\<open>core/device_request.c\<close>). The tree itself is built at
  start-up by the registration calls of the components and the vendor (\<open>core/usp_register.c\<close>).

  Messages come and go in records (\<open>core/usp_record.c\<close>), encoded as protocol buffers (\<open>core/protobuf-c.c\<close>). The
  message handler (\<open>core/msg_handler.c\<close>) checks a record against the table of controllers
  (\<open>core/device_controller.c\<close>), lets the session of the controller take it (\<open>core/e2e_context.c\<close>), which may
  put the segments of a message together (\<open>core/sar_vector.c\<close>), and gives the message to the handler of its
  type; the response goes back through the session, or plain, to the queue of a transport.
  Controllers also have periodic notifications, sent when their timer fires.

  \<^bold>\<open>Conventions.\<close> A C string is a list of characters without the terminator; a buffer of n bytes is
  what USP_STRNCPY and USP_SNPRINTF leave in it. Vectors are lists. An error is \<open>Inl\<close> of the error
  code, in the sum types of \<open>Usp_Prelude\<close>; error texts are not modelled. \<open>None\<close> is a run that ends the
  agent: an assertion, an undefined access, or no end at all. Operations take the state they work
  on and return it updated: the tree and instance vectors are \<open>dm_state\<close>, with the database and the
  transaction they are \<open>agent\<close>. Vendor hooks, the statements of SQLite, floating point of the C library and
  random numbers are arguments of the operations that use them.

  \<^bold>\<open>The theories.\<close>
  \<^item> \<open>Usp_Prelude\<close>: error codes, buffers, indexes of vectors and the lemma collections.
  \<^item> \<open>Text_Convert\<close>, \<open>Text_Hex\<close>, \<open>Text_Utils\<close>, \<open>Text_Path\<close> (\<open>core/text_utils.c\<close>): conversions of
    numbers, booleans and enumerations, hexadecimal and percent coding, splitting and trimming,
    paths and key-value lines, and the hash. Round trips and what is accepted.
  \<^item> \<open>Vectors\<close>, \<open>Kv_Vector\<close> (\<open>core/int_vector.c\<close>, \<open>core/str_vector.c\<close>, \<open>core/kv_vector.c\<close>): the
    vectors, their natural sort, and typed access to key-value vectors.
  \<^item> \<open>Dm_Path\<close>, \<open>Data_Model\<close>, \<open>Dm_Schema\<close> (\<open>core/data_model.c\<close>): paths and their hashes; the tree,
    its lookup and the permissions of roles; the registration of schema paths.
  \<^item> \<open>Dm_Inst_Vector\<close> (\<open>core/dm_inst_vector.c\<close>): the instance vectors, their refresh and queries.
    Well-formedness is kept by every operation; an answer is stable within a lock period.
  \<^item> \<open>Database\<close>, \<open>Dm_Trans\<close> (\<open>core/database.c\<close>, \<open>core/dm_trans.c\<close>): rows, obfuscation and transactions;
    a commit sends its events, an abort restores the rows and undoes adds.
  \<^item> \<open>Iso8601\<close>, \<open>Native_Value\<close> (\<open>core/iso8601.c\<close>, \<open>core/data_model.c\<close>): dates and the native values that vendor
    hooks are given.
  \<^item> \<open>Dm_Ops\<close>, \<open>Dm_Objects\<close>, \<open>Dm_Queries\<close> (\<open>core/data_model.c\<close>): getting and setting parameters, adding and
    deleting objects, and the queries on paths, instances and permissions.
  \<^item> \<open>Sync_Timer\<close>, \<open>Subs_Retry\<close> (\<open>core/sync_timer.c\<close>, \<open>core/retry_wait.c\<close>, \<open>core/subs_retry.c\<close>): the timers and the
    retries of notifications. A due timer fires once; the retries wake the thread in time.
  \<^item> \<open>Expr_Vector\<close>, \<open>Dm_Access\<close>, \<open>Group_Get\<close> (\<open>core/expr_vector.c\<close>, \<open>core/dm_access.c\<close>,
    \<open>core/group_get_vector.c\<close>): search expressions, typed access and comparison, and the grouped get,
    equal to the get of each parameter on its own.
  \<^item> \<open>Path_Resolver\<close> (\<open>core/path_resolver.c\<close>): the resolver, with \<open>Path_Reads\<close>, \<open>Path_Collect\<close> and
    \<open>Path_Cycle\<close> for what it collects: only parameters the role may read, for every kind of path; and
    the references it never ends on.

  \<^item> \<open>Agent_Steps\<close>: what an operation may change of the agent, as relations between the agent before and after
    (nothing but refreshed instance vectors, the database inside a transaction, the tree), with the rules
    that carry them through the operations.
  \<^item> \<open>Group_Set\<close>, \<open>Unique_Keys\<close> (\<open>core/group_set_vector.c\<close>, \<open>core/data_model.c\<close>): the grouped set of parameters and the
    unique keys of an object.
  \<^item> \<open>Usp_Msg\<close>, \<open>Msg_Delete\<close>, \<open>Msg_Set\<close>, \<open>Msg_Add\<close>, \<open>Msg_Get\<close>, \<open>Msg_Instances\<close> (\<open>core/error_resp.c\<close> and the handlers
    of the same names): the messages. One that is answered with an error has left the database as it was; a
    response has its results in the order of the request, and reports what the controller was
    permitted to do; a Get changes nothing.
  \<^item> \<open>Dm_Operate\<close>, \<open>Msg_Operate\<close> (\<open>core/device_request.c\<close>, \<open>core/data_model.c\<close>, \<open>core/handle_operate.c\<close>): requests,
    their completion and restart, and the Operate message, which starts at most two of them.
  \<^item> \<open>Register\<close> (\<open>core/usp_register.c\<close>): the registration calls, as steps of a registry. A sequence of them that
    succeeds builds a schema in which every node has what the code that reads it relies on.

  \<^item> \<open>Controllers\<close> (\<open>core/device_controller.c\<close>): the table of controllers and their transports, its callbacks for
    changes of the data model, the destination of messages and the periodic notifications. The
    instances and endpoints in use stay unique.
  \<^item> \<open>Protobuf\<close>, \<open>Usp_Record\<close> (\<open>core/protobuf-c.c\<close>, \<open>core/usp-record.pb-c.c\<close>, \<open>core/usp_record.c\<close>): sizes and encodings
    of fields, and records. The packed length is the size that was worked out before.
  \<^item> \<open>Sar_Vector\<close>, \<open>E2e_Context\<close>, \<open>E2e_Sessions\<close> (\<open>core/sar_vector.c\<close>, \<open>core/e2e_context.c\<close>): segments and sessions.
    A message sent through a session is cut into records that fit, and the receiver of these records
    puts exactly this message together; a session takes only the records that its mode allows.
  \<^item> \<open>Msg_Supported\<close>, \<open>Msg_Notify\<close> (\<open>core/handle_get_supported_dm.c\<close>, \<open>core/handle_get_supported_protocol.c\<close>,
    \<open>core/handle_notify.c\<close>): the messages that describe the agent, and notifications. What is described is what
    the role may know; the IDs of notifications are unique.
  \<^item> \<open>Msg_Handler\<close> (\<open>core/msg_handler.c\<close>): records received, and the dispatch of their messages. The data model changes
    only for records of controllers that the agent knows, and every request is answered once.

  \<^bold>\<open>Interfaces.\<close> A locale states the contract of each component others rely on, and is interpreted on
  the model's own operations: the vectors and maps of the prelude, the timers (\<open>timer_service\<close>), the
  collector of resolved paths (\<open>path_collector\<close>), the relations on agents (\<open>agent_steps\<close>) and others in
  the theories above.

  \<^bold>\<open>Bounds and fuel.\<close> MAX_DM_PATH, MAX_PATH_SEGMENTS, the orders of instances and the buffer sizes are
  those of \<open>vendor/vendor_defs.h\<close>. The registration of a path admits MAX_PATH_SEGMENTS segments, which
  bounds the depth of the tree: the recursion over the children of a node takes MAX_TREE_DEPTH = 64 as
  fuel, two nested calls for each segment. The cascade of a commit, and the nesting of the path
  resolver, take fuel as an argument; the properties hold for every amount, and \<open>Path_Cycle\<close> shows
  where none is enough. A pass over the timers and the loops that may not end are partial functions.

  The loop over the segments of a message is bounded by what is left to send: a segment has at least 51
  bytes, as the code asserts.

  \<^bold>\<open>Not modelled.\<close> Unpacking of protocol buffers, and packing of messages, are parameters of the message handler;
  so is the effect that a message on the data model has on the table of controllers, whose callbacks
  are modelled on their own. Subscriptions, the certificates of controller trust, the other tables of
  the data model (\<open>core/device_*.c\<close>), bulk data and its JSON are left out: they rest on the modelled operations.
  Transports, the CLI, logging, memory, SQLite and the other vendored libraries, the vendor layer
  with its JNI and the Java application are input and output around the core and are not modelled.
\<close>

end
